(* ===== verification/Errors.thy ===== *)
theory Errors
  imports Kernel_Prelude
begin

text \<open>
  The exceptions of \<open>platform/src/businessos/errors.py\<close> and the built-in exceptions the kernel
  raises, as values. Each class keeps the message the code builds; exceptions thrown by
  code outside the kernel (module callbacks, providers) are \<open>ForeignError\<close>.
\<close>

datatype exn =
    BusinessOSError (bos_code: string) (bos_message: string) (bos_status: int)
  | ClientDisconnectedError
  | DeliveryUnavailableError string
  | ConfigurationError string
  | ProtectedDatabaseCapacityError
  | NotFoundError string
  | MethodNotAllowedError "string list"
  | ConflictError string
  | ValueError string
  | RuntimeError string
  | PermissionError string
  | TimeoutError string
  | ForeignError string
  | ExceptionGroup string "exn list"

text \<open>
  \<open>BusinessOSError.code\<close> and \<open>.status_code\<close>: \<open>None\<close> for the classes that are not framework
  errors.
\<close>

fun exn_code :: "exn \<Rightarrow> string option" where
  "exn_code (BusinessOSError c m s) = Some c"
| "exn_code ClientDisconnectedError = Some ''client_disconnected''"
| "exn_code (ConfigurationError m) = Some ''configuration_error''"
| "exn_code ProtectedDatabaseCapacityError = Some ''protected_database_capacity''"
| "exn_code (NotFoundError m) = Some ''not_found''"
| "exn_code (MethodNotAllowedError ms) = Some ''method_not_allowed''"
| "exn_code (ConflictError m) = Some ''conflict''"
| "exn_code _ = None"

fun exn_status :: "exn \<Rightarrow> int option" where
  "exn_status (BusinessOSError c m s) = Some s"
| "exn_status ClientDisconnectedError = Some 499"
| "exn_status (ConfigurationError m) = Some 500"
| "exn_status ProtectedDatabaseCapacityError = Some 503"
| "exn_status (NotFoundError m) = Some 404"
| "exn_status (MethodNotAllowedError ms) = Some 405"
| "exn_status (ConflictError m) = Some 409"
| "exn_status _ = None"

text \<open>
  \<open>public\<close> is given explicitly by the capacity error only; every other framework error is public
  when its status is below 500.
\<close>

definition exn_public :: "exn \<Rightarrow> bool" where
  "exn_public e =
     (case exn_status e of
        None \<Rightarrow> False
      | Some s \<Rightarrow> if e = ProtectedDatabaseCapacityError then True else s < 500)"

text \<open>The only framework error with response headers.\<close>

fun exn_headers :: "exn \<Rightarrow> (string, string) dict" where
  "exn_headers (MethodNotAllowedError ms) = [(''allow'', join_with '', '' ms)]"
| "exn_headers _ = []"

lemma exn_code_status: "exn_code e = None \<longleftrightarrow> exn_status e = None"
  by (cases e) auto

end
