(* ===== verification/Activation.thy ===== *)
theory Activation
  imports Errors "HOL-Library.Multiset"
begin

text \<open>
  The contribution gate of \<open>platform/src/businessos/activation.py\<close>: one state per module
  generation (staged, active, draining, inactive), a count of admitted calls in flight, and the set
  of retired owners. Every registry of the kernel asks this gate whether an entry may be used.
\<close>

section \<open>State\<close>

datatype contribution_state = STAGED | ACTIVE | DRAINING | INACTIVE

record generation =
  gen_owner :: string
  gen_number :: int

record gen_state =
  lifecycle :: contribution_state
  in_flight :: int
  drained :: bool

record gate =
  next_generation :: "(string, int) dict"
  states :: "(generation, gen_state) dict"
  retired :: "string set"

definition new_gate :: gate where
  "new_gate = \<lparr>next_generation = [], states = [], retired = {}\<rparr>"

section \<open>Operations\<close>

definition gate_state :: "gate \<Rightarrow> generation \<Rightarrow> exn + gen_state" where
  "gate_state s g =
     (case dict_get (states s) g of
        None \<Rightarrow> Inl (ConfigurationError (''Unknown module contribution generation: '' @ gen_owner g
                  @ ''/'' @ show_int (gen_number g)))
      | Some st \<Rightarrow> Inr st)"

definition put_state :: "gate \<Rightarrow> generation \<Rightarrow> gen_state \<Rightarrow> gate" where
  "put_state s g st = s\<lparr>states := dict_set g st (states s)\<rparr>"

definition reserve :: "gate \<Rightarrow> string \<Rightarrow> exn + generation \<times> gate" where
  "reserve s owner =
     (if owner \<in> retired s
      then Inl (ConfigurationError (''Retired module cannot be activated: '' @ owner))
      else
        let number = (case dict_get (next_generation s) owner of None \<Rightarrow> 0 | Some n \<Rightarrow> n) + 1;
            g = \<lparr>gen_owner = owner, gen_number = number\<rparr>;
            s' = s\<lparr>next_generation := dict_set owner number (next_generation s)\<rparr>
        in Inr (g, put_state s' g \<lparr>lifecycle = STAGED, in_flight = 0, drained = True\<rparr>))"

definition publish :: "gate \<Rightarrow> generation \<Rightarrow> exn + gate" where
  "publish s g =
     (case gate_state s g of
        Inl e \<Rightarrow> Inl e
      | Inr st \<Rightarrow>
          if gen_owner g \<in> retired s
          then Inl (ConfigurationError
                 (''Retired module cannot publish contributions: '' @ gen_owner g))
          else Inr (put_state s g (st\<lparr>lifecycle := ACTIVE\<rparr>)))"

definition is_active :: "gate \<Rightarrow> generation option \<Rightarrow> bool" where
  "is_active s go =
     (case go of
        None \<Rightarrow> True
      | Some g \<Rightarrow>
          (case dict_get (states s) g of None \<Rightarrow> False | Some st \<Rightarrow> lifecycle st = ACTIVE))"

definition state_of :: "gate \<Rightarrow> generation \<Rightarrow> exn + contribution_state" where
  "state_of s g = (case gate_state s g of Inl e \<Rightarrow> Inl e | Inr st \<Rightarrow> Inr (lifecycle st))"

definition active_generation :: "gate \<Rightarrow> string \<Rightarrow> exn + generation" where
  "active_generation s owner =
     (case filter (\<lambda>g. gen_owner g = owner \<and> is_active s (Some g)) (map fst (states s)) of
        [g] \<Rightarrow> Inr g
      | _ \<Rightarrow> Inl (NotFoundError ''Module dependency is not uniquely active''))"

text \<open>
  The two halves of the context manager \<open>admit\<close>. The source keeps a reference to the state
  object; a generation's object is never replaced (\<open>reserve\<close> always makes a new generation), so
  the reference is the generation itself. Leaving after the generation was discarded changes
  an object the gate no longer holds.
\<close>

definition enter_state :: "gen_state \<Rightarrow> gen_state" where
  "enter_state st = st\<lparr>in_flight := in_flight st + 1, drained := False\<rparr>"

definition exit_state :: "gen_state \<Rightarrow> gen_state" where
  "exit_state st =
     (let st' = st\<lparr>in_flight := in_flight st - 1\<rparr>
      in if in_flight st' = 0 then st'\<lparr>drained := True\<rparr> else st')"

definition admit_enter :: "gate \<Rightarrow> generation option \<Rightarrow> exn + gate" where
  "admit_enter s go =
     (case go of
        None \<Rightarrow> Inr s
      | Some g \<Rightarrow>
          (case dict_get (states s) g of
             None \<Rightarrow> Inl (NotFoundError ''Module contribution is not active'')
           | Some st \<Rightarrow>
               if lifecycle st \<noteq> ACTIVE
               then Inl (NotFoundError ''Module contribution is not active'')
               else Inr (put_state s g (enter_state st))))"

definition admit_exit :: "gate \<Rightarrow> generation option \<Rightarrow> gate" where
  "admit_exit s go =
     (case go of
        None \<Rightarrow> s
      | Some g \<Rightarrow>
          (case dict_get (states s) g of None \<Rightarrow> s | Some st \<Rightarrow> put_state s g (exit_state st)))"

text \<open>\<open>admit_many\<close>: every generation is checked before any count changes.\<close>

definition admit_unique :: "generation option list \<Rightarrow> generation list" where
  "admit_unique gs = dedup (map the (filter (\<lambda>go. go \<noteq> None) gs))"

definition enter_all :: "gate \<Rightarrow> generation list \<Rightarrow> gate" where
  "enter_all s gs = foldl (\<lambda>s g. case dict_get (states s) g of
       None \<Rightarrow> s | Some st \<Rightarrow> put_state s g (enter_state st)) s gs"

definition admit_many_enter :: "gate \<Rightarrow> generation option list \<Rightarrow> exn + gate" where
  "admit_many_enter s gs =
     (if \<forall>g \<in> set (admit_unique gs). is_active s (Some g)
      then Inr (enter_all s (admit_unique gs))
      else Inl (NotFoundError ''Module contribution is not active''))"

definition admit_many_exit :: "gate \<Rightarrow> generation option list \<Rightarrow> gate" where
  "admit_many_exit s gs = foldl (\<lambda>s g. admit_exit s (Some g)) s (admit_unique gs)"

text \<open>
  \<open>close_and_drain\<close> turns the generation away from new calls, waits for the drained event
  and then marks it inactive. \<open>wait\<close> is what the other tasks do to the gate until the event is set
  or the timeout fires; the wait ends normally exactly when the event is set.
\<close>

definition close_begin :: "gate \<Rightarrow> generation \<Rightarrow> exn + gate" where
  "close_begin s g =
     (case gate_state s g of
        Inl e \<Rightarrow> Inl e
      | Inr st \<Rightarrow> Inr (put_state s g (st\<lparr>lifecycle := DRAINING\<rparr>)))"

definition close_finish :: "gate \<Rightarrow> generation \<Rightarrow> exn + gate" where
  "close_finish s g =
     (case dict_get (states s) g of
        None \<Rightarrow> Inr s
      | Some st \<Rightarrow>
          if drained st then Inr (put_state s g (st\<lparr>lifecycle := INACTIVE\<rparr>))
          else Inl (TimeoutError ''''))"

text \<open>The state the gate is left in, with the exception if one is raised.\<close>

definition close_and_drain ::
  "(gate \<Rightarrow> gate) \<Rightarrow> gate \<Rightarrow> generation \<Rightarrow> gate \<times> exn option" where
  "close_and_drain wait s g =
     (case close_begin s g of
        Inl e \<Rightarrow> (s, Some e)
      | Inr s1 \<Rightarrow>
          let s2 = wait s1
          in (case close_finish s2 g of Inl e \<Rightarrow> (s2, Some e) | Inr s3 \<Rightarrow> (s3, None)))"

definition discard :: "gate \<Rightarrow> generation \<Rightarrow> exn + gate" where
  "discard s g =
     (case dict_get (states s) g of
        None \<Rightarrow> Inr s
      | Some st \<Rightarrow>
          if in_flight st \<noteq> 0
          then Inl (ConfigurationError
                 (''Cannot discard in-flight module generation: '' @ gen_owner g))
          else Inr (s\<lparr>states := dict_pop g (states s)\<rparr>))"

definition retire_owner :: "gate \<Rightarrow> string \<Rightarrow> exn + gate" where
  "retire_owner s owner =
     (if \<exists>(g, st) \<in> set (states s). gen_owner g = owner \<and> in_flight st \<noteq> 0
      then Inl (ConfigurationError (''Cannot retire module with in-flight work: '' @ owner))
      else Inr (s\<lparr>retired := insert owner (retired s)\<rparr>))"

definition in_flight_of :: "gate \<Rightarrow> generation \<Rightarrow> exn + int" where
  "in_flight_of s g = (case gate_state s g of Inl e \<Rightarrow> Inl e | Inr st \<Rightarrow> Inr (in_flight st))"

section \<open>What each operation does to a generation\<close>

lemmas gate_ops = gate_state_def put_state_def is_active_def

lemma get_put_state [simp]:
  "dict_get (states (put_state s g st)) g' = (if g' = g then Some st else dict_get (states s) g')"
  by (simp add: put_state_def dict_simps)

lemma put_state_frame [simp]:
  "next_generation (put_state s g st) = next_generation s"
  "retired (put_state s g st) = retired s"
  "dict_ok (states s) \<Longrightarrow> dict_ok (states (put_state s g st))"
  by (simp_all add: put_state_def)

lemma gate_state_Inr: "gate_state s g = Inr st \<longleftrightarrow> dict_get (states s) g = Some st"
  by (simp add: gate_state_def split: option.split)

lemma enter_state_simps [simp]:
  "lifecycle (enter_state st) = lifecycle st"
  "in_flight (enter_state st) = in_flight st + 1"
  "drained (enter_state st) = False"
  by (simp_all add: enter_state_def)

lemma exit_state_simps [simp]:
  "lifecycle (exit_state st) = lifecycle st"
  "in_flight (exit_state st) = in_flight st - 1"
  "drained (exit_state st) = (in_flight st = 1 \<or> drained st)"
  by (auto simp: exit_state_def Let_def)

lemma exit_enter_state:
  "drained st = (in_flight st = 0) \<Longrightarrow> 0 \<le> in_flight st \<Longrightarrow> exit_state (enter_state st) = st"
  by (cases st) (auto simp: exit_state_def enter_state_def Let_def)

lemma is_active_Some: "is_active s (Some g) \<longleftrightarrow> (\<exists>st. dict_get (states s) g = Some st \<and> lifecycle st = ACTIVE)"
  by (simp add: is_active_def split: option.split)

lemma reserve_Inr:
  "reserve s own = Inr (g, t) \<longleftrightarrow>
     own \<notin> retired s \<and>
     g = \<lparr>gen_owner = own,
          gen_number = (case dict_get (next_generation s) own of None \<Rightarrow> 0 | Some n \<Rightarrow> n) + 1\<rparr> \<and>
     t = put_state (s\<lparr>next_generation := dict_set own (gen_number g) (next_generation s)\<rparr>) g
           \<lparr>lifecycle = STAGED, in_flight = 0, drained = True\<rparr>"
  by (auto simp: reserve_def Let_def)

lemma publish_Inr:
  "publish s g = Inr t \<longleftrightarrow>
     gen_owner g \<notin> retired s \<and>
     (\<exists>st. dict_get (states s) g = Some st \<and> t = put_state s g (st\<lparr>lifecycle := ACTIVE\<rparr>))"
  by (auto simp: publish_def gate_state_def split: option.split)

lemma admit_enter_Inr:
  "admit_enter s (Some g) = Inr t \<longleftrightarrow>
     (\<exists>st. dict_get (states s) g = Some st \<and> lifecycle st = ACTIVE \<and> t = put_state s g (enter_state st))"
  by (auto simp: admit_enter_def split: option.split)

lemma admit_enter_active: "admit_enter s (Some g) = Inr t \<Longrightarrow> is_active s (Some g)"
  by (auto simp: admit_enter_Inr is_active_Some)

lemma close_begin_Inr:
  "close_begin s g = Inr t \<longleftrightarrow>
     (\<exists>st. dict_get (states s) g = Some st \<and> t = put_state s g (st\<lparr>lifecycle := DRAINING\<rparr>))"
  by (auto simp: close_begin_def gate_state_def split: option.split)

lemma close_finish_Inr:
  "close_finish s g = Inr t \<longleftrightarrow>
     (dict_get (states s) g = None \<and> t = s) \<or>
     (\<exists>st. dict_get (states s) g = Some st \<and> drained st \<and> t = put_state s g (st\<lparr>lifecycle := INACTIVE\<rparr>))"
  by (auto simp: close_finish_def split: option.split)

lemma discard_Inr:
  "discard s g = Inr t \<longleftrightarrow>
     (dict_get (states s) g = None \<and> t = s) \<or>
     (\<exists>st. dict_get (states s) g = Some st \<and> in_flight st = 0 \<and> t = s\<lparr>states := dict_pop g (states s)\<rparr>)"
  by (auto simp: discard_def split: option.split)

lemma retire_owner_Inr:
  "retire_owner s own = Inr t \<longleftrightarrow>
     (\<forall>(g, st) \<in> set (states s). gen_owner g = own \<longrightarrow> in_flight st = 0) \<and>
     t = s\<lparr>retired := insert own (retired s)\<rparr>"
  by (auto simp: retire_owner_def)

lemma get_enter_all:
  "distinct gs \<Longrightarrow> dict_get (states (enter_all s gs)) g =
     (if g \<in> set gs then map_option enter_state (dict_get (states s) g) else dict_get (states s) g)"
  unfolding enter_all_def
proof (induction gs arbitrary: s)
  case (Cons x xs)
  then show ?case by (auto split: option.splits)
qed simp

lemma enter_all_frame [simp]:
  "next_generation (enter_all s gs) = next_generation s"
  "retired (enter_all s gs) = retired s"
  "dict_ok (states s) \<Longrightarrow> dict_ok (states (enter_all s gs))"
  unfolding enter_all_def by (induction gs arbitrary: s) (auto split: option.splits)

lemma admit_unique_distinct [simp]: "distinct (admit_unique gs)"
  by (simp add: admit_unique_def)

lemma admit_many_enter_Inr:
  "admit_many_enter s gs = Inr t \<longleftrightarrow>
     (\<forall>g \<in> set (admit_unique gs). is_active s (Some g)) \<and> t = enter_all s (admit_unique gs)"
  by (auto simp: admit_many_enter_def)

lemma get_admit_exit:
  "dict_get (states (admit_exit s (Some g))) g' =
     (if g' = g then map_option exit_state (dict_get (states s) g) else dict_get (states s) g')"
  by (auto simp: admit_exit_def split: option.split)

lemma admit_exit_frame [simp]:
  "next_generation (admit_exit s go) = next_generation s"
  "retired (admit_exit s go) = retired s"
  "dict_ok (states s) \<Longrightarrow> dict_ok (states (admit_exit s go))"
  by (auto simp: admit_exit_def split: option.split)

lemma get_admit_many_exit:
  "dict_get (states (admit_many_exit s gs)) g =
     (if g \<in> set (admit_unique gs) then map_option exit_state (dict_get (states s) g)
      else dict_get (states s) g)"
proof -
  have "distinct xs \<Longrightarrow> dict_get (states (foldl (\<lambda>s g. admit_exit s (Some g)) s xs)) g =
     (if g \<in> set xs then map_option exit_state (dict_get (states s) g) else dict_get (states s) g)"
    for xs
    by (induction xs arbitrary: s) (auto simp: get_admit_exit)
  then show ?thesis by (simp add: admit_many_exit_def)
qed

section \<open>Interleavings of operations\<close>

text \<open>
  The system is the gate together with the admissions that are open: the context managers that
  were entered and not left. One rule per synchronous piece of code that runs without an
  \<open>await\<close>.
\<close>

record gate_sys =
  gate_of :: gate
  open_adm :: "generation multiset"

inductive gate_step :: "gate_sys \<Rightarrow> gate_sys \<Rightarrow> bool" where
  step_reserve: "reserve (gate_of s) own = Inr (g, t) \<Longrightarrow> gate_step s (s\<lparr>gate_of := t\<rparr>)"
| step_publish: "publish (gate_of s) g = Inr t \<Longrightarrow> gate_step s (s\<lparr>gate_of := t\<rparr>)"
| step_admit: "admit_enter (gate_of s) (Some g) = Inr t \<Longrightarrow>
    gate_step s (s\<lparr>gate_of := t, open_adm := add_mset g (open_adm s)\<rparr>)"
| step_admit_many: "admit_many_enter (gate_of s) gs = Inr t \<Longrightarrow>
    gate_step s (s\<lparr>gate_of := t, open_adm := mset (admit_unique gs) + open_adm s\<rparr>)"
| step_leave: "g \<in># open_adm s \<Longrightarrow>
    gate_step s (s\<lparr>gate_of := admit_exit (gate_of s) (Some g), open_adm := open_adm s - {#g#}\<rparr>)"
| step_close_begin: "close_begin (gate_of s) g = Inr t \<Longrightarrow> gate_step s (s\<lparr>gate_of := t\<rparr>)"
| step_close_finish: "close_finish (gate_of s) g = Inr t \<Longrightarrow> gate_step s (s\<lparr>gate_of := t\<rparr>)"
| step_discard: "discard (gate_of s) g = Inr t \<Longrightarrow> gate_step s (s\<lparr>gate_of := t\<rparr>)"
| step_retire: "retire_owner (gate_of s) own = Inr t \<Longrightarrow> gate_step s (s\<lparr>gate_of := t\<rparr>)"

inductive gate_reachable :: "gate_sys \<Rightarrow> bool" where
  reach_new: "gate_reachable \<lparr>gate_of = new_gate, open_adm = {#}\<rparr>"
| reach_step: "gate_reachable s \<Longrightarrow> gate_step s t \<Longrightarrow> gate_reachable t"

definition entry_ok :: "gate_sys \<Rightarrow> generation \<Rightarrow> gen_state \<Rightarrow> bool" where
  "entry_ok s g st \<longleftrightarrow>
     in_flight st = int (count (open_adm s) g) \<and> drained st = (in_flight st = 0) \<and>
     (\<exists>n. dict_get (next_generation (gate_of s)) (gen_owner g) = Some n \<and> gen_number g \<le> n)"

definition gate_inv :: "gate_sys \<Rightarrow> bool" where
  "gate_inv s \<longleftrightarrow>
     dict_ok (states (gate_of s)) \<and>
     (\<forall>g st. dict_get (states (gate_of s)) g = Some st \<longrightarrow> entry_ok s g st) \<and>
     (\<forall>g. g \<in># open_adm s \<longrightarrow> dict_get (states (gate_of s)) g \<noteq> None)"

lemma gate_invD:
  assumes "gate_inv s" "dict_get (states (gate_of s)) g = Some st"
  shows "in_flight st = int (count (open_adm s) g)" "drained st = (in_flight st = 0)"
    "\<exists>n. dict_get (next_generation (gate_of s)) (gen_owner g) = Some n \<and> gen_number g \<le> n"
  using assms by (auto simp: gate_inv_def entry_ok_def)

lemma gate_inv_closed: "gate_inv s \<Longrightarrow> dict_get (states (gate_of s)) g = None \<Longrightarrow> count (open_adm s) g = 0"
  by (auto simp: gate_inv_def not_in_iff)

lemma gate_inv_states: "gate_inv s \<Longrightarrow> dict_ok (states (gate_of s))"
  by (simp add: gate_inv_def)

lemma inv_relabel:
  \<comment> \<open>changing only the lifecycle of one generation\<close>
  assumes "gate_inv s" "dict_get (states (gate_of s)) g = Some st"
  shows "gate_inv (s\<lparr>gate_of := put_state (gate_of s) g (st\<lparr>lifecycle := l\<rparr>)\<rparr>)"
  using assms by (auto simp: gate_inv_def entry_ok_def)

lemma reserve_fresh:
  assumes "gate_inv s" "reserve (gate_of s) own = Inr (g, t)"
  shows "dict_get (states (gate_of s)) g = None"
proof (rule ccontr)
  assume "\<not> ?thesis"
  then obtain st where st: "dict_get (states (gate_of s)) g = Some st" by blast
  then obtain n where "dict_get (next_generation (gate_of s)) (gen_owner g) = Some n" "gen_number g \<le> n"
    using gate_invD(3) [OF assms(1)] by blast
  with assms(2) show False by (auto simp: reserve_Inr)
qed

lemma inv_reserve:
  assumes inv: "gate_inv s" and r: "reserve (gate_of s) own = Inr (g, t)"
  shows "gate_inv (s\<lparr>gate_of := t\<rparr>)"
proof -
  from r have t: "t = put_state ((gate_of s)\<lparr>next_generation :=
      dict_set own (gen_number g) (next_generation (gate_of s))\<rparr>) g
      \<lparr>lifecycle = STAGED, in_flight = 0, drained = True\<rparr>"
    and own: "gen_owner g = own"
    and num: "\<And>n. dict_get (next_generation (gate_of s)) own = Some n \<Longrightarrow> n < gen_number g"
    by (auto simp: reserve_Inr)
  have "count (open_adm s) g = 0"
    using gate_inv_closed [OF inv reserve_fresh [OF inv r]] .
  then have "entry_ok (s\<lparr>gate_of := t\<rparr>) g' st"
    if "dict_get (states t) g' = Some st" for g' st
    using that own t gate_invD [OF inv, of g' st] num
    by (auto simp: entry_ok_def dict_simps split: if_splits)
  moreover have "dict_get (states t) g' \<noteq> None" if "g' \<in># open_adm s" for g'
    using that inv t by (auto simp: gate_inv_def)
  ultimately show ?thesis using inv t by (auto simp: gate_inv_def)
qed

lemma inv_publish:
  assumes "gate_inv s" "publish (gate_of s) g = Inr t"
  shows "gate_inv (s\<lparr>gate_of := t\<rparr>)"
  using assms by (auto simp: publish_Inr intro: inv_relabel)

lemma inv_admit_many:
  assumes inv: "gate_inv s" and a: "admit_many_enter (gate_of s) gs = Inr t"
  shows "gate_inv (s\<lparr>gate_of := t, open_adm := mset (admit_unique gs) + open_adm s\<rparr>)"
proof -
  let ?u = "admit_unique gs"
  have get: "dict_get (states t) g =
      (if g \<in> set ?u then map_option enter_state (dict_get (states (gate_of s)) g)
       else dict_get (states (gate_of s)) g)" for g
    using a by (simp add: admit_many_enter_Inr get_enter_all)
  have cnt: "count (mset ?u) g = (if g \<in> set ?u then 1 else 0)" for g
    using admit_unique_distinct [of gs] unfolding distinct_count_atmost_1 by blast
  have known: "dict_get (states (gate_of s)) g \<noteq> None" if "g \<in> set ?u" for g
    using a that by (auto simp: admit_many_enter_Inr is_active_Some)
  have nxt: "next_generation t = next_generation (gate_of s)"
    using a by (auto simp: admit_many_enter_Inr)
  show ?thesis
    using inv a get cnt known nxt unfolding gate_inv_def entry_ok_def
    by (auto simp: admit_many_enter_Inr split: if_splits)
qed

lemma inv_admit:
  assumes inv: "gate_inv s" and a: "admit_enter (gate_of s) (Some g) = Inr t"
  shows "gate_inv (s\<lparr>gate_of := t, open_adm := add_mset g (open_adm s)\<rparr>)"
  using assms unfolding gate_inv_def entry_ok_def by (auto simp: admit_enter_Inr split: if_splits)

lemma inv_leave:
  assumes inv: "gate_inv s" and g: "g \<in># open_adm s"
  shows "gate_inv (s\<lparr>gate_of := admit_exit (gate_of s) (Some g), open_adm := open_adm s - {#g#}\<rparr>)"
proof -
  have pos: "0 < count (open_adm s) g" using g by simp
  have known: "dict_get (states (gate_of s)) g' \<noteq> None" if "g' \<in># open_adm s - {#g#}" for g'
    using inv that in_diffD by (fastforce simp: gate_inv_def)
  have ok: "entry_ok s g' st" if "dict_get (states (gate_of s)) g' = Some st" for g' st
    using inv that by (simp add: gate_inv_def)
  have "entry_ok (s\<lparr>gate_of := admit_exit (gate_of s) (Some g), open_adm := open_adm s - {#g#}\<rparr>) g' st"
    if "dict_get (states (admit_exit (gate_of s) (Some g))) g' = Some st" for g' st
    using that ok pos by (auto simp: get_admit_exit entry_ok_def count_eq_zero_iff split: if_splits)
  moreover have "dict_get (states (admit_exit (gate_of s) (Some g))) g' \<noteq> None"
    if "g' \<in># open_adm s - {#g#}" for g'
    using known [OF that] by (auto simp: get_admit_exit)
  ultimately show ?thesis using inv by (auto simp: gate_inv_def)
qed

lemma inv_discard:
  assumes inv: "gate_inv s" and d: "discard (gate_of s) g = Inr t"
  shows "gate_inv (s\<lparr>gate_of := t\<rparr>)"
proof -
  have "count (open_adm s) g = 0"
    using d gate_inv_closed [OF inv] gate_invD(1) [OF inv] by (auto simp: discard_Inr)
  then show ?thesis
    using inv d unfolding gate_inv_def entry_ok_def
    by (auto simp: discard_Inr dict_simps count_eq_zero_iff split: if_splits)
qed

lemma gate_step_inv: "gate_step s t \<Longrightarrow> gate_inv s \<Longrightarrow> gate_inv t"
proof (induction rule: gate_step.induct)
  case (step_retire s own t)
  then show ?case by (auto simp: gate_inv_def entry_ok_def retire_owner_Inr)
next
  case (step_close_begin s g t)
  then show ?case by (auto simp: close_begin_Inr intro: inv_relabel)
next
  case (step_close_finish s g t)
  then show ?case by (auto simp: close_finish_Inr intro: inv_relabel)
qed (blast intro: inv_reserve inv_publish inv_admit inv_admit_many inv_leave inv_discard)+

lemma gate_reachable_inv: "gate_reachable s \<Longrightarrow> gate_inv s"
proof (induction rule: gate_reachable.induct)
  case reach_new
  show ?case by (simp add: gate_inv_def new_gate_def)
next
  case (reach_step s t)
  then show ?case by (blast intro: gate_step_inv)
qed

section \<open>What the gate guarantees\<close>

lemma gate_step_next:
  "gate_step s t \<Longrightarrow> dict_get (next_generation (gate_of s)) own = Some n \<Longrightarrow>
     \<exists>m \<ge> n. dict_get (next_generation (gate_of t)) own = Some m"
  by (induction rule: gate_step.induct)
     (auto simp: reserve_Inr publish_Inr admit_enter_Inr admit_many_enter_Inr close_begin_Inr
        close_finish_Inr discard_Inr retire_owner_Inr dict_simps)

lemma gate_steps_next:
  assumes "gate_step\<^sup>*\<^sup>* s t" "dict_get (next_generation (gate_of s)) own = Some n"
  shows "\<exists>m \<ge> n. dict_get (next_generation (gate_of t)) own = Some m"
  using assms
proof (induction rule: rtranclp_induct)
  case (step t u)
  then obtain m where "n \<le> m" "dict_get (next_generation (gate_of t)) own = Some m" by blast
  with gate_step_next [OF step.hyps(2)] show ?case by fastforce
qed auto

lemma gate_step_retired: "gate_step s t \<Longrightarrow> retired (gate_of s) \<subseteq> retired (gate_of t)"
  by (induction rule: gate_step.induct)
     (auto simp: reserve_Inr publish_Inr admit_enter_Inr admit_many_enter_Inr close_begin_Inr
        close_finish_Inr discard_Inr retire_owner_Inr)

lemma gate_steps_retired: "gate_step\<^sup>*\<^sup>* s t \<Longrightarrow> retired (gate_of s) \<subseteq> retired (gate_of t)"
  by (induction rule: rtranclp_induct) (use gate_step_retired in blast)+

lemma gate_step_inactive:
  "gate_step s t \<Longrightarrow> \<not> is_active (gate_of s) (Some g) \<Longrightarrow>
     count (open_adm t) g \<le> count (open_adm s) g"
proof (induction rule: gate_step.induct)
  case (step_admit s h t)
  then show ?case using admit_enter_active by auto
next
  case (step_admit_many s gs t)
  then have "g \<notin> set (admit_unique gs)" by (auto simp: admit_many_enter_Inr)
  then have "count (mset (admit_unique gs)) g = 0" by (simp add: count_eq_zero_iff)
  then show ?case by simp
qed (auto intro: diff_le_self)

text \<open>A small reachable system, used to instantiate the properties below.\<close>

definition demo_gen :: generation where
  "demo_gen = \<lparr>gen_owner = ''m'', gen_number = 1\<rparr>"

definition demo_sys :: "contribution_state \<Rightarrow> int \<Rightarrow> gate_sys" where
  "demo_sys l n = \<lparr>gate_of = \<lparr>next_generation = [(''m'', 1)],
      states = [(demo_gen, \<lparr>lifecycle = l, in_flight = n, drained = (n = 0)\<rparr>)], retired = {}\<rparr>,
      open_adm = replicate_mset (nat n) demo_gen\<rparr>"

lemma demo_staged: "gate_reachable (demo_sys STAGED 0)"
  by (rule reach_step [OF reach_new step_reserve [where own = "''m''" and g = demo_gen, THEN back_subst [of "gate_step _"]]])
     (simp_all add: reserve_def Let_def new_gate_def put_state_def demo_gen_def demo_sys_def)

lemma demo_active: "gate_reachable (demo_sys ACTIVE 0)"
  by (rule reach_step [OF demo_staged step_publish [where g = demo_gen, THEN back_subst [of "gate_step _"]]])
     (simp_all add: publish_def gate_state_def put_state_def demo_gen_def demo_sys_def)

lemma demo_busy: "gate_reachable (demo_sys ACTIVE 1)"
  by (rule reach_step [OF demo_active step_admit [where g = demo_gen, THEN back_subst [of "gate_step _"]]])
     (simp_all add: admit_enter_def enter_state_def put_state_def demo_gen_def demo_sys_def)

lemma demo_draining: "gate_step (demo_sys ACTIVE 1) (demo_sys DRAINING 1)"
  by (rule step_close_begin [where g = demo_gen, THEN back_subst [of "gate_step _"]])
     (simp_all add: close_begin_def gate_state_def put_state_def demo_gen_def demo_sys_def)

text \<open>
  C1: In every state the operations of the gate can reach, in any interleaving, the in-flight count
  of a generation is the number of admissions that are open on it, and its drained event is set
  exactly when there is none.
\<close>

theorem gate_accounting:
  assumes "gate_reachable s" and "dict_get (states (gate_of s)) g = Some st"
  shows "in_flight st = int (count (open_adm s) g) \<and> (drained st \<longleftrightarrow> g \<notin># open_adm s)"
  using gate_invD [OF gate_reachable_inv [OF assms(1)] assms(2)] by (simp add: count_eq_zero_iff)

theorem gate_accounting_witness:
  "\<exists>st. dict_get (states (gate_of (demo_sys ACTIVE 1))) demo_gen = Some st \<and> in_flight st = 1 \<and> \<not> drained st"
proof -
  let ?st = "\<lparr>lifecycle = ACTIVE, in_flight = 1, drained = False\<rparr>"
  have g: "dict_get (states (gate_of (demo_sys ACTIVE 1))) demo_gen = Some ?st"
    by (simp add: demo_sys_def)
  from gate_accounting [OF demo_busy g] g show ?thesis by (simp add: demo_sys_def)
qed

text \<open>
  A generation can be discarded, and its owner retired, only when no call admitted to it is
  still running; retirement is final: whatever happens afterwards, the retired owner can neither
  reserve a generation nor publish one.
\<close>

theorem retire_and_discard_idle:
  assumes reach: "gate_reachable s"
  shows "(discard (gate_of s) g = Inr t \<longrightarrow> g \<notin># open_adm s \<and> dict_get (states t) g = None) \<and>
    (retire_owner (gate_of s) own = Inr u \<longrightarrow>
       (\<forall>h. h \<in># open_adm s \<longrightarrow> gen_owner h \<noteq> own) \<and>
       (\<forall>v h w. gate_step\<^sup>*\<^sup>* (s\<lparr>gate_of := u\<rparr>) v \<longrightarrow>
          reserve (gate_of v) own \<noteq> Inr w \<and>
          (gen_owner h = own \<longrightarrow> publish (gate_of v) h \<noteq> Inr (snd w))))"
proof (intro conjI impI allI)
  note inv = gate_reachable_inv [OF reach]
  show "g \<notin># open_adm s" if "discard (gate_of s) g = Inr t"
    using that gate_inv_closed [OF inv] gate_invD(1) [OF inv]
    by (auto simp: discard_Inr count_eq_zero_iff)
  show "dict_get (states t) g = None" if "discard (gate_of s) g = Inr t"
    using that by (auto simp: discard_Inr dict_simps)
  show "gen_owner h \<noteq> own" if r: "retire_owner (gate_of s) own = Inr u" and h: "h \<in># open_adm s" for h
  proof
    assume own: "gen_owner h = own"
    from inv h obtain st where st: "dict_get (states (gate_of s)) h = Some st"
      by (fastforce simp: gate_inv_def)
    with r own have "in_flight st = 0" by (auto simp: retire_owner_Inr dest!: map_of_SomeD)
    with gate_invD(1) [OF inv st] h show False by (simp add: count_eq_zero_iff)
  qed
  have ret: "own \<in> retired (gate_of v)"
    if "retire_owner (gate_of s) own = Inr u" "gate_step\<^sup>*\<^sup>* (s\<lparr>gate_of := u\<rparr>) v" for v
    using that gate_steps_retired [OF that(2)] by (auto simp: retire_owner_Inr)
  show "reserve (gate_of v) own \<noteq> Inr w"
    if "retire_owner (gate_of s) own = Inr u" "gate_step\<^sup>*\<^sup>* (s\<lparr>gate_of := u\<rparr>) v" for v w
    using ret [OF that] by (cases w) (simp add: reserve_Inr)
  show "publish (gate_of v) h \<noteq> Inr (snd w)"
    if "retire_owner (gate_of s) own = Inr u" "gate_step\<^sup>*\<^sup>* (s\<lparr>gate_of := u\<rparr>) v" "gen_owner h = own"
    for v h w
    using ret [OF that(1,2)] that(3) by (simp add: publish_Inr)
qed

theorem retire_and_discard_idle_witness:
  "\<exists>u. retire_owner (gate_of (demo_sys ACTIVE 0)) ''m'' = Inr u \<and>
     (\<forall>w. reserve u ''m'' \<noteq> Inr w)"
proof -
  obtain u where u: "retire_owner (gate_of (demo_sys ACTIVE 0)) ''m'' = Inr u"
    by (simp add: retire_owner_def demo_sys_def demo_gen_def)
  have "\<forall>w. reserve u ''m'' \<noteq> Inr w"
    using retire_and_discard_idle [OF demo_active, of demo_gen u "''m''" u] u
    by (metis (no_types, lifting) gate_sys.select_convs(1) gate_sys.update_convs(1) gate_sys.surjective rtranclp.rtrancl_refl)
  with u show ?thesis by blast
qed

text \<open>
  Once a generation is not active (staged, draining, inactive or unknown), no
  interleaving of operations that leaves it so lets a new call in: the calls that are running on
  it can only finish, so a drain makes progress whenever one of them returns.
\<close>

theorem draining_admits_nothing:
  assumes "(\<lambda>s t. gate_step s t \<and> \<not> is_active (gate_of t) (Some g))\<^sup>*\<^sup>* s t"
    and "\<not> is_active (gate_of s) (Some g)"
  shows "count (open_adm t) g \<le> count (open_adm s) g \<and> admit_enter (gate_of t) (Some g) \<noteq> Inr u"
proof -
  from assms have "count (open_adm t) g \<le> count (open_adm s) g \<and> \<not> is_active (gate_of t) (Some g)"
  proof (induction rule: rtranclp_induct)
    case (step t v)
    then show ?case using gate_step_inactive [of t v g] by auto
  qed simp
  then show ?thesis using admit_enter_active by blast
qed

theorem draining_admits_nothing_witness:
  "\<forall>u. admit_enter (gate_of (demo_sys DRAINING 1)) (Some demo_gen) \<noteq> Inr u"
proof
  fix u
  have n: "\<not> is_active (gate_of (demo_sys DRAINING 1)) (Some demo_gen)"
    by (simp add: is_active_def demo_sys_def)
  from draining_admits_nothing [OF rtranclp.rtrancl_refl n]
  show "admit_enter (gate_of (demo_sys DRAINING 1)) (Some demo_gen) \<noteq> Inr u" by blast
qed

text \<open>
  \<open>admit_many\<close> is all or nothing and balanced: it fails exactly when one of the generations
  is not active, it counts every generation once however often it is listed, and leaving the
  block restores every generation's state.
\<close>

theorem admit_many_balanced:
  assumes "gate_reachable s"
  shows "(admit_many_enter (gate_of s) gs = Inl (NotFoundError ''Module contribution is not active'') \<longleftrightarrow>
      (\<exists>g. Some g \<in> set gs \<and> \<not> is_active (gate_of s) (Some g))) \<and>
    (admit_many_enter (gate_of s) gs = Inr t \<longrightarrow>
      (\<forall>g. dict_get (states t) g =
         (if Some g \<in> set gs then map_option enter_state (dict_get (states (gate_of s)) g)
          else dict_get (states (gate_of s)) g)) \<and>
      dict_get (states (admit_many_exit t gs)) = dict_get (states (gate_of s)))"
proof (intro conjI impI allI ext)
  have mem: "g \<in> set (admit_unique gs) \<longleftrightarrow> Some g \<in> set gs" for g
    by (force simp: admit_unique_def)
  show "admit_many_enter (gate_of s) gs = Inl (NotFoundError ''Module contribution is not active'') \<longleftrightarrow>
      (\<exists>g. Some g \<in> set gs \<and> \<not> is_active (gate_of s) (Some g))"
    by (auto simp: admit_many_enter_def mem)
  show get: "dict_get (states t) g =
      (if Some g \<in> set gs then map_option enter_state (dict_get (states (gate_of s)) g)
       else dict_get (states (gate_of s)) g)" if "admit_many_enter (gate_of s) gs = Inr t" for g
    using that by (simp add: admit_many_enter_Inr get_enter_all mem)
  show "dict_get (states (admit_many_exit t gs)) g = dict_get (states (gate_of s)) g"
    if "admit_many_enter (gate_of s) gs = Inr t" for g
  proof (cases "dict_get (states (gate_of s)) g")
    case (Some st)
    from gate_invD(1,2) [OF gate_reachable_inv [OF assms] Some] have "exit_state (enter_state st) = st"
      by (intro exit_enter_state) auto
    with Some show ?thesis by (simp add: get_admit_many_exit mem get [OF that])
  qed (simp add: get_admit_many_exit mem get [OF that])
qed

theorem admit_many_balanced_witness:
  "\<exists>t. admit_many_enter (gate_of (demo_sys ACTIVE 1)) [Some demo_gen, None, Some demo_gen] = Inr t \<and>
     dict_get (states (admit_many_exit t [Some demo_gen, None, Some demo_gen]))
       = dict_get (states (gate_of (demo_sys ACTIVE 1)))"
proof -
  have a: "is_active (gate_of (demo_sys ACTIVE 1)) (Some demo_gen)"
    by (simp add: is_active_def demo_sys_def)
  then obtain t where t: "admit_many_enter (gate_of (demo_sys ACTIVE 1)) [Some demo_gen, None, Some demo_gen] = Inr t"
    by (simp add: admit_many_enter_def admit_unique_def)
  with admit_many_balanced [OF demo_busy, of "[Some demo_gen, None, Some demo_gen]" t] show ?thesis by blast
qed

text \<open>
  C5: The identity of an activation attempt is never reused: a generation reserved later for
  the same owner has a strictly larger number, whatever was published, discarded or retired in
  between, so a stale reference never denotes a newer activation.
\<close>

theorem generation_never_reused:
  assumes r: "reserve (gate_of s) own = Inr (g, t)" and steps: "gate_step\<^sup>*\<^sup>* (s\<lparr>gate_of := t\<rparr>) u"
    and r': "reserve (gate_of u) own = Inr (g', t')"
  shows "gen_owner g' = gen_owner g \<and> gen_number g < gen_number g'"
proof -
  from r have "dict_get (next_generation t) own = Some (gen_number g)"
    by (auto simp: reserve_Inr dict_simps)
  then obtain m where "gen_number g \<le> m" "dict_get (next_generation (gate_of u)) own = Some m"
    using gate_steps_next [OF steps] by fastforce
  with r r' show ?thesis by (auto simp: reserve_Inr)
qed

theorem generation_never_reused_witness:
  "\<exists>g t g' t'. reserve new_gate ''m'' = Inr (g, t) \<and> reserve t ''m'' = Inr (g', t') \<and>
     gen_number g < gen_number g'"
proof -
  let ?s = "\<lparr>gate_of = new_gate, open_adm = {#}\<rparr>"
  obtain g t where r: "reserve (gate_of ?s) ''m'' = Inr (g, t)" by (simp add: reserve_def Let_def new_gate_def)
  have "retired t = {}" using r by (auto simp: reserve_Inr new_gate_def)
  then obtain g' t' where r': "reserve (gate_of (?s\<lparr>gate_of := t\<rparr>)) ''m'' = Inr (g', t')"
    by (simp add: reserve_def Let_def)
  from generation_never_reused [OF r rtranclp.rtrancl_refl r'] r r' show ?thesis by auto
qed

section \<open>Draining ends\<close>

text \<open>Leaving all open admissions of a generation, one after the other.\<close>

lemma leave_all:
  "count (open_adm s) g = n \<Longrightarrow> \<exists>t. gate_step\<^sup>*\<^sup>* s t \<and> g \<notin># open_adm t"
proof (induction n arbitrary: s)
  case 0
  then show ?case by (metis not_in_iff rtranclp.rtrancl_refl)
next
  case (Suc n)
  define u where "u = s\<lparr>gate_of := admit_exit (gate_of s) (Some g), open_adm := open_adm s - {#g#}\<rparr>"
  have "g \<in># open_adm s" using Suc.prems by (metis count_eq_zero_iff nat.distinct(1))
  then have "gate_step s u" unfolding u_def by (rule step_leave)
  moreover have "count (open_adm u) g = n" using Suc.prems by (simp add: u_def)
  ultimately show ?case using Suc.IH [of u] by (meson converse_rtranclp_into_rtranclp)
qed

lemma gate_steps_reachable: "gate_step\<^sup>*\<^sup>* s t \<Longrightarrow> gate_reachable s \<Longrightarrow> gate_reachable t"
  by (induction rule: rtranclp_induct) (auto intro: reach_step)

text \<open>The wait of \<open>close_and_drain\<close> ends normally exactly when no admitted call is left.\<close>

lemma drain_ends_iff:
  assumes "gate_reachable s" and "close_begin (gate_of s) g = Inr s1"
    and "gate_step\<^sup>*\<^sup>* (s\<lparr>gate_of := s1\<rparr>) t"
  shows "snd (close_and_drain (\<lambda>_. gate_of t) (gate_of s) g) = None \<longleftrightarrow> g \<notin># open_adm t"
proof -
  have "gate_reachable (s\<lparr>gate_of := s1\<rparr>)" by (rule reach_step [OF assms(1) step_close_begin [OF assms(2)]])
  with assms(3) have "gate_reachable t" by (rule gate_steps_reachable)
  then have inv: "gate_inv t" by (rule gate_reachable_inv)
  show ?thesis
  proof (cases "dict_get (states (gate_of t)) g")
    case None
    with inv have "g \<notin># open_adm t" by (auto simp: gate_inv_def)
    with None assms(2) show ?thesis by (simp add: close_and_drain_def close_finish_def)
  next
    case (Some st)
    from gate_invD [OF inv Some] have "drained st \<longleftrightarrow> g \<notin># open_adm t" by (simp add: count_eq_zero_iff)
    with Some assms(2) show ?thesis by (simp add: close_and_drain_def close_finish_def Let_def)
  qed
qed

text \<open>
  C21: Closing a generation comes to an end: from every reachable state in which the close begins, the
  calls still running can leave whatever the other tasks have done in between, and after any such run
  \<open>close_and_drain\<close> returns normally if and only if the last call of the generation has left; until
  then, and only then, its wait ends in a timeout.
\<close>

theorem drain_completes:
  assumes "gate_reachable s" and "close_begin (gate_of s) g = Inr s1"
    and "gate_step\<^sup>*\<^sup>* (s\<lparr>gate_of := s1\<rparr>) t"
  shows "(snd (close_and_drain (\<lambda>_. gate_of t) (gate_of s) g) = None) = (g \<notin># open_adm t)
    \<and> (\<exists>u. gate_step\<^sup>*\<^sup>* t u \<and> snd (close_and_drain (\<lambda>_. gate_of u) (gate_of s) g) = None)"
proof -
  obtain u where u: "gate_step\<^sup>*\<^sup>* t u" "g \<notin># open_adm u" using leave_all by blast
  have "gate_step\<^sup>*\<^sup>* (s\<lparr>gate_of := s1\<rparr>) u" using assms(3) u(1) by (rule rtranclp_trans)
  then show ?thesis using drain_ends_iff [OF assms(1,2)] assms(3) u by blast
qed

theorem drain_completes_witness:
  "\<exists>u. gate_step\<^sup>*\<^sup>* (demo_sys DRAINING 1) u
     \<and> snd (close_and_drain (\<lambda>_. gate_of u) (gate_of (demo_sys ACTIVE 1)) \<lparr>gen_owner = ''m'', gen_number = 1\<rparr>) = None"
proof -
  have "close_begin (gate_of (demo_sys ACTIVE 1)) \<lparr>gen_owner = ''m'', gen_number = 1\<rparr> = Inr (gate_of (demo_sys DRAINING 1))"
    by code_simp
  from drain_completes [OF demo_busy this rtranclp.rtrancl_refl]
  have "\<exists>u. gate_step\<^sup>*\<^sup>* ((demo_sys ACTIVE 1)\<lparr>gate_of := gate_of (demo_sys DRAINING 1)\<rparr>) u
      \<and> snd (close_and_drain (\<lambda>_. gate_of u) (gate_of (demo_sys ACTIVE 1)) \<lparr>gen_owner = ''m'', gen_number = 1\<rparr>) = None" ..
  moreover have "(demo_sys ACTIVE 1)\<lparr>gate_of := gate_of (demo_sys DRAINING 1)\<rparr> = demo_sys DRAINING 1"
    by (simp add: demo_sys_def)
  ultimately show ?thesis by simp
qed

end
