(* ===== verification/Owned_Table.thy ===== *)
theory Owned_Table
  imports Activation
begin

text \<open>
  The contract every contribution registry of the kernel keeps: a table from keys to entries that
  belong to at most one module generation, where adding never replaces an entry and removing a
  generation removes its entries and no other. The modules' activation, its rollback and the
  deactivation rest on the lemmas of the locale \<open>owned_table\<close>, which the registries interpret.
\<close>

section \<open>Batches that stop at the first error\<close>

text \<open>
  A loop of in-place registrations: the table it leaves behind and the exception it stopped with.
\<close>

fun add_until :: "('t \<Rightarrow> 'e \<Rightarrow> exn + 't) \<Rightarrow> 't \<Rightarrow> 'e list \<Rightarrow> 't \<times> exn option" where
  "add_until f t [] = (t, None)"
| "add_until f t (e # es) = (case f t e of Inl x \<Rightarrow> (t, Some x) | Inr u \<Rightarrow> add_until f u es)"

lemma add_until_fold: "snd (add_until f t es) = None \<longleftrightarrow> fold_res f t es = Inr (fst (add_until f t es))"
  by (induction es arbitrary: t) (auto split: sum.splits)

section \<open>Lookups without a generation\<close>

text \<open>What a table shows when the entries of one generation, if any is given, are hidden.\<close>

definition hide :: "('e \<Rightarrow> generation option) \<Rightarrow> generation option \<Rightarrow> ('k \<Rightarrow> 'e option) \<Rightarrow> 'k \<Rightarrow> 'e option" where
  "hide gen a f = (case a of
       None \<Rightarrow> f
     | Some g \<Rightarrow> \<lambda>k. (case f k of None \<Rightarrow> None | Some e \<Rightarrow> if gen e = Some g then None else Some e))"

lemma hide_None [simp]: "hide gen None f = f"
  by (simp add: hide_def)

lemma hide_update: "f k = None \<Longrightarrow> gen e = Some g \<Longrightarrow> hide gen (Some g) (f(k \<mapsto> e)) = hide gen (Some g) f"
  by (auto simp: hide_def fun_eq_iff)

section \<open>The contract\<close>

locale owned_table =
  fixes ok :: "'t \<Rightarrow> bool"
    and look :: "'t \<Rightarrow> 'k \<Rightarrow> 'e option"
    and key :: "'e \<Rightarrow> 'k"
    and gen :: "'e \<Rightarrow> generation option"
    and add :: "'t \<Rightarrow> 'e \<Rightarrow> exn + 't"
    and drop :: "'t \<Rightarrow> generation \<Rightarrow> 't"
  assumes add_fresh: "ok t \<Longrightarrow> look t (key e) = None \<Longrightarrow>
      \<exists>u. add t e = Inr u \<and> ok u \<and> look u = (look t)(key e \<mapsto> e)"
    and add_taken: "ok t \<Longrightarrow> look t (key e) = Some e' \<Longrightarrow> \<exists>x. add t e = Inl x"
    and drop_ok: "ok t \<Longrightarrow> ok (drop t g)"
    and drop_look: "ok t \<Longrightarrow> look (drop t g) k =
      (case look t k of None \<Rightarrow> None | Some e \<Rightarrow> if gen e = Some g then None else Some e)"
begin

definition fresh_gen :: "'t \<Rightarrow> generation \<Rightarrow> bool" where
  "fresh_gen t g \<longleftrightarrow> (\<forall>k e. look t k = Some e \<longrightarrow> gen e \<noteq> Some g)"

lemma add_Inr:
  assumes "ok t" "add t e = Inr u"
  shows "look t (key e) = None \<and> ok u \<and> look u = (look t)(key e \<mapsto> e)"
proof (cases "look t (key e)")
  case None
  from add_fresh [OF assms(1) None] assms(2) None show ?thesis by auto
next
  case (Some e')
  from add_taken [OF assms(1) Some] assms(2) show ?thesis by auto
qed

lemma add_Inl: "ok t \<Longrightarrow> (\<exists>x. add t e = Inl x) \<longleftrightarrow> look t (key e) \<noteq> None"
  using add_fresh [of t e] add_taken [of t e] by fastforce

lemma add_until_ok: "ok t \<Longrightarrow> ok (fst (add_until add t es))"
proof (induction es arbitrary: t)
  case (Cons e es)
  then show ?case using add_Inr [OF Cons.prems, of e] by (cases "add t e") auto
qed simp

text \<open>The first entry under a key is never replaced by a batch.\<close>

lemma add_until_keeps:
  "ok t \<Longrightarrow> look t k = Some e \<Longrightarrow> look (fst (add_until add t es)) k = Some e"
proof (induction es arbitrary: t)
  case (Cons x es)
  show ?case
  proof (cases "add t x")
    case (Inr u)
    from add_Inr [OF Cons.prems(1) Inr] Cons.prems have "ok u" "look u k = Some e" by auto
    with Cons.IH Inr show ?thesis by simp
  qed (use Cons in simp)
qed simp

lemma add_until_new:
  "ok t \<Longrightarrow> look (fst (add_until add t es)) k = Some e \<Longrightarrow> look t k = None \<Longrightarrow> e \<in> set es \<and> key e = k"
proof (induction es arbitrary: t)
  case (Cons x es)
  show ?case
  proof (cases "add t x")
    case (Inr u)
    note u = add_Inr [OF Cons.prems(1) Inr]
    show ?thesis
    proof (cases "k = key x")
      case True
      with u have "look u k = Some x" by simp
      with add_until_keeps [of u k x es] u Inr Cons.prems(2) True show ?thesis by simp
    next
      case False
      with u Cons.prems(3) have "look u k = None" by simp
      with Cons.IH [of u] u Inr Cons.prems(2) show ?thesis by auto
    qed
  qed (use Cons in simp)
qed simp

text \<open>
  Rolling a batch back: whatever prefix of it was registered, dropping the generation gives
  back the lookups from before.
\<close>

lemma rollback:
  assumes "ok t" "fresh_gen t g" "\<And>e. e \<in> set es \<Longrightarrow> gen e = Some g"
  shows "look (drop (fst (add_until add t es)) g) = look t"
proof
  fix k
  let ?u = "fst (add_until add t es)"
  have u: "ok ?u" using assms(1) by (rule add_until_ok)
  show "look (drop ?u g) k = look t k"
  proof (cases "look t k")
    case (Some e)
    with add_until_keeps [OF assms(1) Some, of es] assms(2) drop_look [OF u, of g k]
    show ?thesis by (auto simp: fresh_gen_def)
  next
    case None
    show ?thesis
    proof (cases "look ?u k")
      case (Some e)
      with add_until_new [OF assms(1) Some None] assms(3) drop_look [OF u, of g k] None
      show ?thesis by simp
    qed (use drop_look [OF u, of g k] None in simp)
  qed
qed

lemma batch_succeeds:
  assumes "ok t" "distinct (map key es)" "\<And>e. e \<in> set es \<Longrightarrow> look t (key e) = None"
  shows "snd (add_until add t es) = None \<and>
    (\<forall>e \<in> set es. look (fst (add_until add t es)) (key e) = Some e)"
  using assms
proof (induction es arbitrary: t)
  case (Cons x es)
  obtain u where u: "add t x = Inr u" "ok u" "look u = (look t)(key x \<mapsto> x)"
    using add_fresh [OF Cons.prems(1)] Cons.prems(3) by (metis list.set_intros(1))
  have "snd (add_until add u es) = None \<and> (\<forall>e \<in> set es. look (fst (add_until add u es)) (key e) = Some e)"
    using Cons.prems u by (intro Cons.IH) (auto simp: image_iff)
  moreover have "look (fst (add_until add u es)) (key x) = Some x"
    using u by (intro add_until_keeps) auto
  ultimately show ?case using u by simp
qed simp

lemma add_hide: "ok t \<Longrightarrow> add t e = Inr u \<Longrightarrow> gen e = Some g \<Longrightarrow> hide gen (Some g) (look u) = hide gen (Some g) (look t)"
  using add_Inr [of t e u] by (simp add: hide_update)

lemma drop_hide: "ok t \<Longrightarrow> look (drop t g) = hide gen (Some g) (look t)"
  by (auto simp: hide_def drop_look fun_eq_iff)

lemma drop_other: "ok t \<Longrightarrow> look t k = Some e \<Longrightarrow> gen e \<noteq> Some g \<Longrightarrow> look (drop t g) k = Some e"
  by (simp add: drop_look)

lemma drop_gone: "ok t \<Longrightarrow> look (drop t g) k = Some e \<Longrightarrow> gen e \<noteq> Some g \<and> look t k = Some e"
  by (auto simp: drop_look split: option.splits if_splits)

lemma drop_twice: "ok t \<Longrightarrow> look (drop (drop t g) g) = look (drop t g)"
  by (rule ext) (auto simp: drop_look drop_ok split: option.splits)

lemma drop_commute: "ok t \<Longrightarrow> look (drop (drop t g) h) = look (drop (drop t h) g)"
  by (rule ext) (auto simp: drop_look drop_ok split: option.splits)

text \<open>Histories: any sequence of additions (failed ones included) and removals.\<close>

definition after :: "'t \<Rightarrow> ('e + generation) list \<Rightarrow> 't" where
  "after t ops = foldl (\<lambda>t op. case op of
      Inl e \<Rightarrow> (case add t e of Inl x \<Rightarrow> t | Inr u \<Rightarrow> u) | Inr g \<Rightarrow> drop t g) t ops"

lemma after_ok: "ok t \<Longrightarrow> ok (after t ops)"
  unfolding after_def
proof (induction ops arbitrary: t)
  case (Cons op ops)
  have "ok (case op of Inl e \<Rightarrow> (case add t e of Inl x \<Rightarrow> t | Inr u \<Rightarrow> u) | Inr g \<Rightarrow> drop t g)"
    using Cons.prems drop_ok by (auto split: sum.split dest: add_Inr)
  with Cons.IH show ?case by simp
qed simp

text \<open>An entry stays in place until its own generation is removed.\<close>

lemma entry_stays:
  assumes "ok t" "look t k = Some e" "\<And>g. Inr g \<in> set ops \<Longrightarrow> gen e \<noteq> Some g"
  shows "look (after t ops) k = Some e"
  using assms unfolding after_def
proof (induction ops arbitrary: t)
  case (Cons op ops)
  let ?u = "case op of Inl e \<Rightarrow> (case add t e of Inl x \<Rightarrow> t | Inr u \<Rightarrow> u) | Inr g \<Rightarrow> drop t g"
  have "ok ?u \<and> look ?u k = Some e"
  proof (cases op)
    case (Inl x)
    show ?thesis
    proof (cases "add t x")
      case (Inr u)
      from add_Inr [OF Cons.prems(1) Inr] Cons.prems(2) have "key x \<noteq> k" by auto
      with add_Inr [OF Cons.prems(1) Inr] Inl Inr Cons.prems(2) show ?thesis by simp
    qed (use Inl Cons.prems in simp)
  next
    case (Inr g)
    with Cons.prems show ?thesis by (simp add: drop_look drop_ok)
  qed
  then show ?case using Cons.IH Cons.prems(3) by simp
qed simp

end

section \<open>Tables held as one dictionary\<close>

text \<open>
  Most registries hold their entries in one dictionary under the entry's key, and drop a
  generation with a comprehension; this gives them the contract.
\<close>

locale dict_table =
  fixes vals :: "'t \<Rightarrow> ('k, 'e) dict"
    and key :: "'e \<Rightarrow> 'k"
    and gen :: "'e \<Rightarrow> generation option"
    and add :: "'t \<Rightarrow> 'e \<Rightarrow> exn + 't"
    and drop :: "'t \<Rightarrow> generation \<Rightarrow> 't"
  assumes add_set: "dict_get (vals t) (key e) = None \<Longrightarrow>
      \<exists>u. add t e = Inr u \<and> vals u = dict_set (key e) e (vals t)"
    and add_refused: "dict_get (vals t) (key e) = Some e' \<Longrightarrow> \<exists>x. add t e = Inl x"
    and drop_vals: "vals (drop t g) = dict_keep (\<lambda>e. gen e \<noteq> Some g) (vals t)"
begin

sublocale table: owned_table "\<lambda>t. dict_ok (vals t)" "\<lambda>t. dict_get (vals t)" key gen add drop
proof unfold_locales
  fix t e assume ok: "dict_ok (vals t)" and n: "dict_get (vals t) (key e) = None"
  from add_set [OF n] obtain u where "add t e = Inr u" "vals u = dict_set (key e) e (vals t)" by blast
  with ok show "\<exists>u. add t e = Inr u \<and> dict_ok (vals u) \<and> dict_get (vals u) = (dict_get (vals t))(key e \<mapsto> e)"
    by (auto simp: dict_simps fun_upd_def)
next
  fix t e e' assume "dict_get (vals t) (key e) = Some e'"
  then show "\<exists>x. add t e = Inl x" by (rule add_refused)
qed (simp_all add: drop_vals dict_simps split: option.split)

end

end
