(* ===== verification/Manifest.thy ===== *)
theory Manifest
  imports Owned_Table
begin

text \<open>
  Module manifests (\<open>platform/src/businessos/modules/manifest.py\<close>), the approved installation
  grants that back resource claims (\<open>modules/artifact.py\<close>) and the owner-restricted entitlements
  (\<open>dependency_entitlement.py\<close>). Versions and version ranges are those of the \<open>packaging\<close> library,
  a parameter of the model.
\<close>

section \<open>Versions\<close>

text \<open>
  \<open>Version(v)\<close> and \<open>SpecifierSet(s)\<close> succeed; \<open>Version(v) in SpecifierSet(s)\<close>; \<open>Version(v) < Version(w)\<close>.
\<close>

record packaging =
  valid_version :: "string \<Rightarrow> bool"
  valid_specifier :: "string \<Rightarrow> bool"
  satisfies :: "string \<Rightarrow> string \<Rightarrow> bool"
  version_less :: "string \<Rightarrow> string \<Rightarrow> bool"

section \<open>Declarations\<close>

datatype execution_type = IN_PROCESS | DECLARATIVE | ISOLATED_SERVICE

record module_dependency =
  dep_module_id :: string
  dep_version :: string

record contract_declaration =
  contract_id :: string
  cd_version :: string

record resource_ownership =
  resource_namespace :: string
  owner_module_id :: string
  contract_version :: string
  aliases :: "string list"

record manifest =
  module_id :: string
  display_name :: string
  publisher :: string
  version :: string
  platform :: string
  sdk :: string
  python :: string
  execution :: execution_type
  entry_point :: "string option"
  dependencies :: "module_dependency list"
  capabilities :: "string list"
  permissions :: "string list"
  api_contracts :: "contract_declaration list"
  event_contracts :: "contract_declaration list"
  public_contracts :: "contract_declaration list"
  resource_ownerships :: "resource_ownership list"
  ui_contributions :: "string list"
  configuration_scopes :: "string list"
  localization_resources :: "string list"
  tenant_export_supported :: "bool option"
  tenant_delete_supported :: "bool option"
  artifact_sha256 :: "string option"
  signature_reference :: "string option"
  sbom_reference :: "string option"
  migrations :: "string list"
  migration_namespace :: "string option"
  supported_tenancy_modes :: "string list"

section \<open>Validation\<close>

text \<open>\<open>^[a-z][a-z0-9_.-]+$\<close>\<close>

definition module_id_ok :: "string \<Rightarrow> bool" where
  "module_id_ok s =
     (case s of
        [] \<Rightarrow> False
      | c # cs \<Rightarrow> is_lower c \<and> cs \<noteq> [] \<and>
          list_all (\<lambda>c. is_lower c \<or> is_digit c \<or> c \<in> set ''_.-'') cs)"

definition module_dependency_ok :: "packaging \<Rightarrow> module_dependency \<Rightarrow> bool" where
  "module_dependency_ok pk d \<longleftrightarrow> module_id_ok (dep_module_id d) \<and> valid_specifier pk (dep_version d)"

definition contract_declaration_ok :: "packaging \<Rightarrow> contract_declaration \<Rightarrow> bool" where
  "contract_declaration_ok pk d \<longleftrightarrow> module_id_ok (contract_id d) \<and> valid_version pk (cd_version d)"

text \<open>\<open>[a-z][a-z0-9_-]*(?:\.[a-z][a-z0-9_-]*)+\<close>, matched in full.\<close>

definition namespace_ok :: "string \<Rightarrow> bool" where
  "namespace_ok s \<longleftrightarrow>
     (let parts = split_on (CHR ''.'') s
      in 2 \<le> length parts \<and>
         list_all (\<lambda>p. case p of
             [] \<Rightarrow> False
           | c # cs \<Rightarrow> is_lower c \<and> list_all (\<lambda>c. is_lower c \<or> is_digit c \<or> c \<in> set ''_-'') cs) parts)"

definition validate_ownership :: "packaging \<Rightarrow> resource_ownership \<Rightarrow> exn + unit" where
  "validate_ownership pk r =
     (if \<not> namespace_ok (resource_namespace r)
      then Inl (ValueError ''resource namespace must use canonical lowercase ASCII segments'')
      else if \<not> starts_with (owner_module_id r @ ''.'') (resource_namespace r)
      then Inl (ValueError ''resource namespace root must equal owner module ID'')
      else if \<not> valid_version pk (contract_version r)
      then Inl (ValueError ''resource contract version must be valid'')
      else if \<not> distinct (aliases r)
      then Inl (ValueError ''resource aliases must be unique'')
      else check_all (\<lambda>a.
             if \<not> namespace_ok a
             then Inl (ValueError ''resource alias must use canonical lowercase ASCII segments'')
             else if a = resource_namespace r
             then Inl (ValueError ''resource alias cannot equal its canonical namespace'')
             else Inr ()) (aliases r))"

text \<open>The field constraints of the manifest itself.\<close>

definition is_hex :: "char \<Rightarrow> bool" where
  "is_hex c \<longleftrightarrow> is_digit c \<or> (CHR ''a'' \<le> c \<and> c \<le> CHR ''f'')"

definition manifest_fields_ok :: "manifest \<Rightarrow> bool" where
  "manifest_fields_ok m \<longleftrightarrow>
     module_id_ok (module_id m) \<and>
     1 \<le> length (display_name m) \<and> length (display_name m) \<le> 200 \<and>
     1 \<le> length (publisher m) \<and> length (publisher m) \<le> 200 \<and>
     (case artifact_sha256 m of None \<Rightarrow> True | Some h \<Rightarrow> length h = 64 \<and> list_all is_hex h) \<and>
     (case migration_namespace m of
        None \<Rightarrow> True
      | Some n \<Rightarrow> (case n of
            [] \<Rightarrow> False
          | c # cs \<Rightarrow> is_lower c \<and> list_all (\<lambda>c. is_lower c \<or> is_digit c \<or> c = CHR ''_'') cs))"

definition claims_of :: "resource_ownership \<Rightarrow> (string \<times> string) list" where
  "claims_of r = map (\<lambda>n. (n, contract_version r)) (resource_namespace r # aliases r)"

text \<open>The loop over the resource claims of one manifest, with the set of claims seen so far.\<close>

fun claim_loop :: "(string \<times> string) list \<Rightarrow> (string \<times> string) list \<Rightarrow> exn + (string \<times> string) list" where
  "claim_loop seen [] = Inr seen"
| "claim_loop seen (k # ks) =
     (if k \<in> set seen
      then Inl (ValueError ''duplicate or colliding resource ownership declaration'')
      else claim_loop (k # seen) ks)"

definition validate_claims :: "manifest \<Rightarrow> exn + (string \<times> string) list" where
  "validate_claims m = fold_res (\<lambda>seen r.
       if owner_module_id r \<noteq> module_id m
       then Inl (ValueError ''resource owner must equal manifest module ID'')
       else claim_loop seen (claims_of r)) [] (resource_ownerships m)"

text \<open>\<open>validate_versions_and_entry_point\<close>, in the order of its checks.\<close>

definition validate_manifest_model :: "packaging \<Rightarrow> manifest \<Rightarrow> exn + unit" where
  "validate_manifest_model pk m =
     (if \<not> (valid_version pk (version m) \<and> valid_specifier pk (platform m) \<and>
            valid_specifier pk (sdk m) \<and> valid_specifier pk (python m))
      then Inl (ValueError ''manifest contains an invalid version or compatibility range'')
      else if execution m = IN_PROCESS \<and> (entry_point m = None \<or> entry_point m = Some '''')
      then Inl (ValueError ''in-process modules require an entry_point'')
      else if migrations m \<noteq> [] \<and> migration_namespace m = None
      then Inl (ValueError ''modules with migrations require a migration_namespace'')
      else if migrations m = [] \<and> migration_namespace m \<noteq> None
      then Inl (ValueError ''migration_namespace requires at least one migration location'')
      else if \<not> distinct (map dep_module_id (dependencies m))
      then Inl (ValueError ''module dependencies must be unique'')
      else
        seq_res (check_all (\<lambda>(name, ds).
            raise_if (\<not> distinct (map contract_id ds)) (ValueError (name @ '' must contain unique contract IDs'')))
          [(''api_contracts'', api_contracts m), (''event_contracts'', event_contracts m),
           (''public_contracts'', public_contracts m)])
        (seq_res (check_all (\<lambda>(name, vs).
            raise_if (\<not> distinct vs \<or> list_ex blank vs) (ValueError (name @ '' must contain unique nonempty values'')))
          [(''ui_contributions'', ui_contributions m), (''configuration_scopes'', configuration_scopes m),
           (''localization_resources'', localization_resources m)])
        (case validate_claims m of Inl e \<Rightarrow> Inl e | Inr _ \<Rightarrow> Inr ())))"

text \<open>\<open>ModuleManifest.model_validate\<close> of a dump: nested models first, then the manifest.\<close>

definition manifest_valid :: "packaging \<Rightarrow> manifest \<Rightarrow> bool" where
  "manifest_valid pk m \<longleftrightarrow>
     list_all (module_dependency_ok pk) (dependencies m) \<and>
     list_all (contract_declaration_ok pk) (api_contracts m @ event_contracts m @ public_contracts m) \<and>
     list_all (\<lambda>r. validate_ownership pk r = Inr ()) (resource_ownerships m) \<and>
     manifest_fields_ok m \<and> validate_manifest_model pk m = Inr ()"

definition supports :: "packaging \<Rightarrow> manifest \<Rightarrow> string \<Rightarrow> string \<Rightarrow> string \<Rightarrow> bool" where
  "supports pk m plat s py \<longleftrightarrow>
     satisfies pk plat (platform m) \<and> satisfies pk s (sdk m) \<and> satisfies pk py (python m)"

section \<open>Installation grants\<close>

text \<open>
  A loaded module object is identified by an integer, its \<open>id\<close>; its type name is a string.
\<close>

record artifact =
  loaded_module :: int
  af_module_id :: string
  af_publisher :: string
  package_identity :: string
  loaded_type :: string
  install_identity :: string
  af_sha256 :: "string option"
  first_party :: bool
  revoked :: bool
  approved_aliases :: "(string \<times> string \<times> string) set"

record module_object =
  mod_identity :: int
  mod_type :: string

definition verify_artifact :: "artifact \<Rightarrow> module_object \<Rightarrow> manifest \<Rightarrow> exn + unit" where
  "verify_artifact a mo m =
     (if revoked a \<or> loaded_module a \<noteq> mod_identity mo \<or> blank (package_identity a) \<or>
         blank (install_identity a) \<or> af_module_id a \<noteq> module_id m \<or> af_publisher a \<noteq> publisher m \<or>
         loaded_type a \<noteq> mod_type mo \<or>
         (af_sha256 a \<noteq> None \<and> af_sha256 a \<noteq> artifact_sha256 m)
      then Inl (ConfigurationError ''Resource claim lacks matching approved installation evidence'')
      else if (starts_with ''foundation.'' (module_id m) \<or> starts_with ''business.'' (module_id m) \<or>
               starts_with ''businessos.'' (module_id m)) \<and> \<not> first_party a
      then Inl (ConfigurationError ''Reserved first-party module ID requires first-party approval'')
      else check_all (\<lambda>r. check_all (\<lambda>al.
             raise_if ((al, resource_namespace r, contract_version r) \<notin> approved_aliases a)
               (ConfigurationError ''Resource alias lacks protected operator approval'')) (aliases r))
           (resource_ownerships m))"

text \<open>
  Entitlements are opaque objects known only to the table that issued them. The table maps the
  object's identity to owner and generation; a generation object is identified by the generation
  (the gate never issues two equal ones).
\<close>

record entitlements =
  issued :: "(nat, string \<times> generation) dict"
  next_entitlement :: nat

definition issue_entitlement :: "entitlements \<Rightarrow> string \<Rightarrow> generation \<Rightarrow> nat \<times> entitlements" where
  "issue_entitlement t owner g =
     (next_entitlement t,
      t\<lparr>issued := dict_set (next_entitlement t) (owner, g) (issued t),
        next_entitlement := next_entitlement t + 1\<rparr>)"

definition valid_entitlement :: "entitlements \<Rightarrow> nat option \<Rightarrow> string \<Rightarrow> generation option \<Rightarrow> bool" where
  "valid_entitlement t ent owner go =
     (case ent of
        None \<Rightarrow> False
      | Some i \<Rightarrow> (case dict_get (issued t) i of
            None \<Rightarrow> False
          | Some (o', g) \<Rightarrow> o' = owner \<and> go = Some g))"

definition issue_restricted ::
  "entitlements \<Rightarrow> artifact \<Rightarrow> module_object \<Rightarrow> manifest \<Rightarrow> generation \<Rightarrow> exn + nat \<times> entitlements" where
  "issue_restricted t a mo m g =
     (case verify_artifact a mo m of
        Inl e \<Rightarrow> Inl e
      | Inr _ \<Rightarrow>
          if \<not> first_party a \<or> gen_owner g \<noteq> module_id m
          then Inl (ConfigurationError ''Reserved dependency requires approved first-party artifact'')
          else Inr (issue_entitlement t (module_id m) g))"

section \<open>Facts about valid manifests\<close>

lemma claim_loop_Inr:
  "claim_loop seen ks = Inr t \<longleftrightarrow> distinct ks \<and> set ks \<inter> set seen = {} \<and> t = rev ks @ seen"
  by (induction ks arbitrary: seen) auto

lemma validate_claims_Inr:
  "validate_claims m = Inr t \<longleftrightarrow>
     (\<forall>r \<in> set (resource_ownerships m). owner_module_id r = module_id m) \<and>
     distinct (concat (map claims_of (resource_ownerships m))) \<and>
     t = rev (concat (map claims_of (resource_ownerships m)))"
proof -
  let ?f = "\<lambda>seen r. if owner_module_id r \<noteq> module_id m
       then Inl (ValueError ''resource owner must equal manifest module ID'')
       else claim_loop seen (claims_of r)"
  have "distinct seen \<Longrightarrow> fold_res ?f seen rs = Inr t \<longleftrightarrow>
     (\<forall>r \<in> set rs. owner_module_id r = module_id m) \<and>
     distinct (concat (map claims_of rs)) \<and> set (concat (map claims_of rs)) \<inter> set seen = {} \<and>
     t = rev (concat (map claims_of rs)) @ seen" for seen rs
  proof (induction rs arbitrary: seen)
    case (Cons r rs)
    show ?case
    proof (cases "owner_module_id r = module_id m \<and> distinct (claims_of r) \<and> set (claims_of r) \<inter> set seen = {}")
      case True
      then have "claim_loop seen (claims_of r) = Inr (rev (claims_of r) @ seen)" by (simp add: claim_loop_Inr)
      with True Cons.prems Cons.IH [of "rev (claims_of r) @ seen"] show ?thesis by auto
    next
      case False
      then have "\<nexists>u. ?f seen r = Inr u" by (auto simp: claim_loop_Inr)
      then obtain e where "?f seen r = Inl e" by (cases "?f seen r") auto
      with False show ?thesis by auto
    qed
  qed auto
  from this [of "[]"] show ?thesis by (simp add: validate_claims_def)
qed

lemma manifest_valid_facts:
  assumes "manifest_valid pk m"
  shows "distinct (map dep_module_id (dependencies m))"
    and "distinct (map contract_id (api_contracts m))"
    and "distinct (map contract_id (event_contracts m))"
    and "distinct (map contract_id (public_contracts m))"
    and "distinct (concat (map claims_of (resource_ownerships m)))"
    and "\<forall>r \<in> set (resource_ownerships m). owner_module_id r = module_id m"
  using assms by (auto simp: manifest_valid_def validate_manifest_model_def validate_claims_Inr
      split: if_splits sum.splits)

section \<open>Entitlements\<close>

record issue_request =
  ir_artifact :: artifact
  ir_module :: module_object
  ir_manifest :: manifest
  ir_generation :: generation

definition issue_step :: "entitlements \<Rightarrow> issue_request \<Rightarrow> entitlements" where
  "issue_step t q =
     (case issue_restricted t (ir_artifact q) (ir_module q) (ir_manifest q) (ir_generation q) of
        Inl e \<Rightarrow> t | Inr (i, t') \<Rightarrow> t')"

definition no_entitlements :: entitlements where
  "no_entitlements = \<lparr>issued = [], next_entitlement = 0\<rparr>"

lemma issue_restricted_Inr:
  "issue_restricted t a mo m g = Inr (i, t') \<longleftrightarrow>
     verify_artifact a mo m = Inr () \<and> first_party a \<and> gen_owner g = module_id m \<and>
     i = next_entitlement t \<and>
     t' = t\<lparr>issued := dict_set i (module_id m, g) (issued t), next_entitlement := i + 1\<rparr>"
  by (auto simp: issue_restricted_def issue_entitlement_def split: sum.split)

text \<open>
  C4: The restricted entitlement of a reserved dependency is unforgeable: after any sequence of
  issues, an entitlement is valid for an owner and a generation only if it was issued for
  exactly these, against an artifact that is approved, first-party and not revoked, for a manifest
  with the owner's module ID.
\<close>

theorem entitlement_unforgeable:
  assumes "valid_entitlement (foldl issue_step no_entitlements qs) ent owner (Some g)"
  shows "\<exists>q \<in> set qs. ir_generation q = g \<and> module_id (ir_manifest q) = owner \<and> gen_owner g = owner \<and>
    first_party (ir_artifact q) \<and> \<not> revoked (ir_artifact q) \<and>
    af_module_id (ir_artifact q) = owner \<and> loaded_module (ir_artifact q) = mod_identity (ir_module q)"
  using assms
proof (induction qs rule: rev_induct)
  case Nil
  then show ?case by (simp add: valid_entitlement_def no_entitlements_def split: option.splits)
next
  case (snoc q qs)
  let ?t = "foldl issue_step no_entitlements qs"
  show ?case
  proof (cases "valid_entitlement ?t ent owner (Some g)")
    case True
    with snoc.IH show ?thesis by auto
  next
    case False
    have step: "valid_entitlement (issue_step ?t q) ent owner (Some g)" using snoc.prems by simp
    with False obtain i t' where r: "issue_restricted ?t (ir_artifact q) (ir_module q) (ir_manifest q) (ir_generation q) = Inr (i, t')"
      by (auto simp: issue_step_def split: sum.splits)
    then have t': "issue_step ?t q = t'" by (simp add: issue_step_def)
    from r have v: "verify_artifact (ir_artifact q) (ir_module q) (ir_manifest q) = Inr ()" and
      o: "first_party (ir_artifact q)" "gen_owner (ir_generation q) = module_id (ir_manifest q)"
      by (auto simp: issue_restricted_Inr)
    have "module_id (ir_manifest q) = owner \<and> ir_generation q = g"
      using step False r unfolding t'
      by (auto simp: issue_restricted_Inr valid_entitlement_def dict_get_set split: option.splits if_splits)
    with v o show ?thesis by (intro bexI [of _ q]) (auto simp: verify_artifact_def split: if_splits)
  qed
qed

definition demo_packaging :: packaging where
  "demo_packaging = \<lparr>valid_version = (\<lambda>v. v \<noteq> ''''), valid_specifier = (\<lambda>s. True),
     satisfies = (\<lambda>v s. s = '''' \<or> v = s), version_less = (\<lambda>v w. v < w)\<rparr>"

definition demo_manifest :: "string \<Rightarrow> module_dependency list \<Rightarrow> manifest" where
  "demo_manifest i ds = \<lparr>module_id = i, display_name = i, publisher = ''p'', version = ''1'', platform = '''',
     sdk = '''', python = '''', execution = IN_PROCESS, entry_point = Some ''m:f'', dependencies = ds,
     capabilities = [], permissions = [], api_contracts = [], event_contracts = [], public_contracts = [],
     resource_ownerships = [], ui_contributions = [], configuration_scopes = [],
     localization_resources = [], tenant_export_supported = None, tenant_delete_supported = None,
     artifact_sha256 = None, signature_reference = None, sbom_reference = None, migrations = [],
     migration_namespace = None, supported_tenancy_modes = []\<rparr>"

definition demo_artifact :: "string \<Rightarrow> artifact" where
  "demo_artifact i = \<lparr>loaded_module = 1, af_module_id = i, af_publisher = ''p'', package_identity = ''k'',
     loaded_type = ''T'', install_identity = ''x'', af_sha256 = None, first_party = True, revoked = False,
     approved_aliases = {}\<rparr>"

definition demo_module :: module_object where
  "demo_module = \<lparr>mod_identity = 1, mod_type = ''T''\<rparr>"

lemma demo_verified: "verify_artifact (demo_artifact i) demo_module (demo_manifest i ds) = Inr ()"
  by (simp add: verify_artifact_def demo_artifact_def demo_module_def demo_manifest_def blank_def is_space_def)

theorem entitlement_unforgeable_witness:
  "\<exists>t. valid_entitlement t (Some 0) ''ab'' (Some \<lparr>gen_owner = ''ab'', gen_number = 1\<rparr>) \<and>
     loaded_module (demo_artifact ''ab'') = mod_identity demo_module"
proof -
  let ?g = "\<lparr>gen_owner = ''ab'', gen_number = 1\<rparr>"
  let ?q = "\<lparr>ir_artifact = demo_artifact ''ab'', ir_module = demo_module, ir_manifest = demo_manifest ''ab'' [],
    ir_generation = ?g\<rparr>"
  have v: "valid_entitlement (foldl issue_step no_entitlements [?q]) (Some 0) ''ab'' (Some ?g)"
    by (simp add: issue_step_def issue_restricted_def demo_verified issue_entitlement_def valid_entitlement_def
        no_entitlements_def) (simp add: demo_artifact_def demo_manifest_def)
  from entitlement_unforgeable [OF v] v show ?thesis by auto
qed

end
