(* ===== verification/Module_Order.thy ===== *)
theory Module_Order
  imports Manifest
begin

text \<open>
  The pure half of \<open>platform/src/businessos/modules/registry.py\<close>: dependency validation and the
  layered topological order, the compatibility rules of an upgrade, the collision check on
  resource claims, and the upgrade plan.
\<close>

section \<open>Dependency order\<close>

definition validate_dependencies :: "packaging \<Rightarrow> manifest \<Rightarrow> (string, manifest) dict \<Rightarrow> exn + unit" where
  "validate_dependencies pk m ms = check_all (\<lambda>d.
     case dict_get ms (dep_module_id d) of
       None \<Rightarrow> Inl (ConfigurationError (''Module '' @ quote @ module_id m @ quote
         @ '' requires missing module '' @ quote @ dep_module_id d @ quote))
     | Some target \<Rightarrow>
         raise_if (\<not> satisfies pk (version target) (dep_version d))
           (ConfigurationError (''Module '' @ quote @ module_id m @ quote @ '' requires '' @ quote
             @ dep_module_id d @ quote @ '' '' @ dep_version d @ '', found '' @ version target)))
     (dependencies m)"

text \<open>
  One pass of the loop: every pending manifest is validated, in sorted order; ready are those
  whose dependencies are all resolved.
\<close>

definition deps_in :: "(string, manifest) dict \<Rightarrow> string list \<Rightarrow> string \<Rightarrow> bool" where
  "deps_in ms resolved i =
     list_all (\<lambda>d. dep_module_id d \<in> set resolved) (dependencies (the (dict_get ms i)))"

definition ready_pass ::
  "packaging \<Rightarrow> (string, manifest) dict \<Rightarrow> string list \<Rightarrow> string list \<Rightarrow> exn + string list" where
  "ready_pass pk ms pending resolved =
     (case check_all (\<lambda>i. validate_dependencies pk (the (dict_get ms i)) ms) pending of
        Inl e \<Rightarrow> Inl e
      | Inr _ \<Rightarrow> Inr (filter (deps_in ms resolved) pending))"

lemma ready_pass_Inr:
  "ready_pass pk ms pending resolved = Inr ready \<longleftrightarrow>
     (\<forall>i \<in> set pending. validate_dependencies pk (the (dict_get ms i)) ms = Inr ()) \<and>
     ready = filter (deps_in ms resolved) pending"
  by (auto simp: ready_pass_def split: sum.splits dest: check_all_Inl)

text \<open>The pending set is kept as its sorted list, the order in which it is traversed.\<close>

function order_loop ::
  "packaging \<Rightarrow> (string, manifest) dict \<Rightarrow> string list \<Rightarrow> string list \<Rightarrow> exn + string list" where
  "order_loop pk ms pending resolved =
     (if pending = [] then Inr resolved
      else (case ready_pass pk ms pending resolved of
              Inl e \<Rightarrow> Inl e
            | Inr ready \<Rightarrow>
                if ready = []
                then Inl (ConfigurationError (''Circular module dependency detected: '' @ join_with '', '' pending))
                else order_loop pk ms (filter (\<lambda>i. i \<notin> set ready) pending) (resolved @ ready)))"
  by pat_completeness auto

termination
proof (relation "measure (\<lambda>(pk, ms, pending, resolved). length pending)")
  fix pk ms pending resolved ready
  assume "ready_pass pk ms pending resolved = Inr ready" "ready \<noteq> []"
  then have "set ready \<subseteq> set pending" "ready \<noteq> []" by (auto simp: ready_pass_Inr)
  then obtain i where "i \<in> set pending" "i \<in> set ready" by (cases ready) auto
  then have "length (filter (\<lambda>i. i \<notin> set ready) pending) < length pending"
    by (intro length_filter_less) auto
  then show "((pk, ms, filter (\<lambda>i. i \<notin> set ready) pending, resolved @ ready), pk, ms, pending, resolved)
    \<in> measure (\<lambda>(pk, ms, pending, resolved). length pending)" by simp
qed simp

declare order_loop.simps [simp del]

definition ordered_manifests :: "packaging \<Rightarrow> (string, manifest) dict \<Rightarrow> exn + manifest list" where
  "ordered_manifests pk ms =
     (case order_loop pk ms (sorted_set (map fst ms)) [] of
        Inl e \<Rightarrow> Inl e
      | Inr ids \<Rightarrow> Inr (map (\<lambda>i. the (dict_get ms i)) ids))"

section \<open>Upgrade rules\<close>

definition validate_contract_upgrade ::
  "packaging \<Rightarrow> string \<Rightarrow> string \<Rightarrow> contract_declaration list \<Rightarrow> contract_declaration list \<Rightarrow> exn + unit" where
  "validate_contract_upgrade pk mid kind current target =
     (let proposed = foldl (\<lambda>d c. dict_set (contract_id c) c d) [] target
      in check_all (\<lambda>c.
           case dict_get proposed (contract_id c) of
             None \<Rightarrow> Inl (ConfigurationError (''Upgrade target removes '' @ kind @ '' contract '' @ quote
               @ contract_id c @ quote @ '' from module '' @ quote @ mid @ quote))
           | Some replacement \<Rightarrow>
               raise_if (version_less pk (cd_version replacement) (cd_version c))
                 (ConfigurationError (''Upgrade target downgrades '' @ kind @ '' contract '' @ quote
                   @ contract_id c @ quote @ '' in module '' @ quote @ mid @ quote))) current)"

text \<open>The text of a Python list of strings, for strings whose \<open>repr\<close> needs no escapes.\<close>

definition show_list :: "string list \<Rightarrow> string" where
  "show_list xs = ''['' @ join_with '', '' (map (\<lambda>x. quote @ x @ quote) xs) @ '']''"

definition withdraws :: "bool option \<Rightarrow> bool option \<Rightarrow> bool" where
  "withdraws old new \<longleftrightarrow> (old = Some True \<and> new \<noteq> Some True) \<or> (old = Some False \<and> new = None)"

definition validate_manifest_upgrade :: "packaging \<Rightarrow> manifest \<Rightarrow> manifest \<Rightarrow> exn + unit" where
  "validate_manifest_upgrade pk current target =
     seq_res (check_all (\<lambda>(kind, old, new). validate_contract_upgrade pk (module_id current) kind old new)
       [(''API'', api_contracts current, api_contracts target),
        (''event'', event_contracts current, event_contracts target),
        (''public'', public_contracts current, public_contracts target)])
     (seq_res (check_all (\<lambda>(kind, old, new).
         let removed = sorted_set (filter (\<lambda>v. v \<notin> set new) old)
         in raise_if (removed \<noteq> []) (ConfigurationError (''Upgrade target removes '' @ kind @ '' ''
              @ show_list removed @ '' from module '' @ quote @ module_id current @ quote)))
       [(''UI contribution'', ui_contributions current, ui_contributions target),
        (''configuration scope'', configuration_scopes current, configuration_scopes target),
        (''localization resource'', localization_resources current, localization_resources target)])
     (seq_res (check_all (\<lambda>(kind, old, new).
         raise_if (withdraws old new) (ConfigurationError (''Upgrade target withdraws '' @ kind
              @ '' declaration from module '' @ quote @ module_id current @ quote)))
       [(''tenant export'', tenant_export_supported current, tenant_export_supported target),
        (''tenant delete'', tenant_delete_supported current, tenant_delete_supported target)])
     (let next = foldl (\<lambda>d r. dict_set (resource_namespace r, contract_version r) r d) [] (resource_ownerships target)
      in check_all (\<lambda>old.
           case dict_get next (resource_namespace old, contract_version old) of
             None \<Rightarrow> Inl (ConfigurationError ''Upgrade target withdraws resource ownership or aliases'')
           | Some replacement \<Rightarrow>
               raise_if (\<not> set (aliases old) \<subseteq> set (aliases replacement))
                 (ConfigurationError ''Upgrade target withdraws resource ownership or aliases''))
         (resource_ownerships current))))"

text \<open>Collision of claims across manifests: the table of allocated claims and their owners.\<close>

definition allocate_claim ::
  "string \<Rightarrow> (string \<times> string, string) dict \<Rightarrow> string \<times> string \<Rightarrow> exn + (string \<times> string, string) dict" where
  "allocate_claim owner allocated k =
     (case dict_get allocated k of
        Some prior \<Rightarrow> Inl (ConflictError (''Resource namespace/version collision between '' @ quote @ prior
          @ quote @ '' and '' @ quote @ owner @ quote))
      | None \<Rightarrow> Inr (dict_set k owner allocated))"

definition validate_resource_claims :: "manifest list \<Rightarrow> exn + (string \<times> string, string) dict" where
  "validate_resource_claims ms =
     fold_res (\<lambda>a m. fold_res (\<lambda>a r. fold_res (allocate_claim (module_id m)) a (claims_of r))
       a (resource_ownerships m)) [] ms"

section \<open>The order is topological, complete and deterministic\<close>

definition deps_of :: "(string, manifest) dict \<Rightarrow> string \<Rightarrow> string set" where
  "deps_of ms i = set (map dep_module_id (dependencies (the (dict_get ms i))))"

definition dependency_relation :: "(string, manifest) dict \<Rightarrow> (string \<times> string) set" where
  "dependency_relation ms = {(d, i). i \<in> set (map fst ms) \<and> d \<in> deps_of ms i}"

lemma deps_in_iff: "deps_in ms resolved i \<longleftrightarrow> deps_of ms i \<subseteq> set resolved"
  by (auto simp: deps_in_def deps_of_def list_all_iff)

lemma order_loop_sound:
  "order_loop pk ms pending resolved = Inr ids \<Longrightarrow> distinct pending \<Longrightarrow>
     (\<forall>i \<in> set pending. validate_dependencies pk (the (dict_get ms i)) ms = Inr ()) \<and>
     (\<exists>new. ids = resolved @ new \<and> set new = set pending \<and> distinct new \<and>
        (\<forall>j < length new. deps_of ms (new ! j) \<subseteq> set resolved \<union> set (take j new)))"
proof (induction pk ms pending resolved rule: order_loop.induct)
  case (1 pk ms pending resolved)
  show ?case
  proof (cases "pending = []")
    case True
    with "1.prems" show ?thesis by (simp add: order_loop.simps)
  next
    case False
    with "1.prems" obtain ready where r: "ready_pass pk ms pending resolved = Inr ready" "ready \<noteq> []"
      and rest: "order_loop pk ms (filter (\<lambda>i. i \<notin> set ready) pending) (resolved @ ready) = Inr ids"
      by (auto simp: order_loop.simps [of pk ms pending] split: sum.splits if_splits)
    have ready: "ready = filter (deps_in ms resolved) pending"
      "\<forall>i \<in> set pending. validate_dependencies pk (the (dict_get ms i)) ms = Inr ()"
      using r(1) by (auto simp: ready_pass_Inr)
    from "1.IH" [OF False r rest] "1.prems"(2) obtain new where
      new: "ids = (resolved @ ready) @ new" "set new = set (filter (\<lambda>i. i \<notin> set ready) pending)" "distinct new"
        "\<forall>j < length new. deps_of ms (new ! j) \<subseteq> set (resolved @ ready) \<union> set (take j new)" by auto
    have "deps_of ms ((ready @ new) ! j) \<subseteq> set resolved \<union> set (take j (ready @ new))"
      if "j < length (ready @ new)" for j
    proof (cases "j < length ready")
      case True
      then have "ready ! j \<in> set ready" by simp
      with True show ?thesis by (auto simp: ready(1) nth_append deps_in_iff)
    next
      case False
      with that have "j - length ready < length new" by simp
      with new(4) have "deps_of ms (new ! (j - length ready)) \<subseteq> set (resolved @ ready) \<union> set (take (j - length ready) new)"
        by blast
      with False show ?thesis by (simp add: nth_append Un_assoc)
    qed
    moreover have "set (ready @ new) = set pending" "distinct (ready @ new)"
      using new(2,3) "1.prems"(2) by (auto simp: ready(1))
    ultimately show ?thesis using new(1) ready(2) by (metis append.assoc)
  qed
qed

lemma no_ready_cycle:
  assumes "acyclic (dependency_relation ms)" "pending \<noteq> []" "set pending \<subseteq> set (map fst ms)"
    "\<And>i. i \<in> set pending \<Longrightarrow> deps_of ms i \<subseteq> set pending \<union> set resolved"
  shows "filter (deps_in ms resolved) pending \<noteq> []"
proof
  assume none: "filter (deps_in ms resolved) pending = []"
  let ?R = "dependency_relation ms \<inter> (set pending \<times> set pending)"
  have "finite ?R" by (rule finite_subset [of _ "set pending \<times> set pending"]) auto
  moreover have "acyclic ?R" by (rule acyclic_subset [OF assms(1)]) simp
  ultimately have "wf ?R" by (rule finite_acyclic_wf)
  moreover have "hd pending \<in> set pending" using assms(2) by simp
  ultimately obtain i where i: "i \<in> set pending" "\<And>d. (d, i) \<in> ?R \<Longrightarrow> d \<notin> set pending"
    by (rule wfE_min) blast
  from none i(1) have "\<not> deps_of ms i \<subseteq> set resolved" by (auto simp: filter_empty_conv deps_in_iff)
  with assms(4) [OF i(1)] obtain d where "d \<in> deps_of ms i" "d \<in> set pending" by blast
  then have "(d, i) \<in> ?R" using i(1) assms(3) unfolding dependency_relation_def by blast
  with i(2) \<open>d \<in> set pending\<close> show False by blast
qed

lemma order_loop_complete:
  "acyclic (dependency_relation ms) \<Longrightarrow> set pending \<subseteq> set (map fst ms) \<Longrightarrow>
     (\<And>i. i \<in> set pending \<Longrightarrow> validate_dependencies pk (the (dict_get ms i)) ms = Inr ()) \<Longrightarrow>
     (\<And>i. i \<in> set pending \<Longrightarrow> deps_of ms i \<subseteq> set pending \<union> set resolved) \<Longrightarrow>
     \<exists>ids. order_loop pk ms pending resolved = Inr ids"
proof (induction pk ms pending resolved rule: order_loop.induct)
  case (1 pk ms pending resolved)
  show ?case
  proof (cases "pending = []")
    case True
    then show ?thesis by (simp add: order_loop.simps)
  next
    case False
    let ?ready = "filter (deps_in ms resolved) pending"
    have ready: "ready_pass pk ms pending resolved = Inr ?ready" using "1.prems"(3) by (simp add: ready_pass_Inr)
    have ne: "?ready \<noteq> []" by (rule no_ready_cycle [OF "1.prems"(1) False "1.prems"(2,4)])
    have "\<exists>ids. order_loop pk ms (filter (\<lambda>i. i \<notin> set ?ready) pending) (resolved @ ?ready) = Inr ids"
    proof (rule "1.IH" [OF False ready ne "1.prems"(1)])
      show "set (filter (\<lambda>i. i \<notin> set ?ready) pending) \<subseteq> set (map fst ms)" using "1.prems"(2) by auto
      show "deps_of ms i \<subseteq> set (filter (\<lambda>i. i \<notin> set ?ready) pending) \<union> set (resolved @ ?ready)"
        if "i \<in> set (filter (\<lambda>i. i \<notin> set ?ready) pending)" for i
        using that "1.prems"(4) [of i] by auto
    qed (use "1.prems"(3) in auto)
    then show ?thesis using False ready ne by (simp add: order_loop.simps [of pk ms pending])
  qed
qed

lemma validated_deps: "validate_dependencies pk m ms = Inr () \<Longrightarrow> d \<in> set (dependencies m) \<Longrightarrow>
    \<exists>t. dict_get ms (dep_module_id d) = Some t \<and> satisfies pk (version t) (dep_version d)"
  by (auto simp: validate_dependencies_def split: option.splits)

lemma ordered_acyclic:
  assumes "distinct ids" "\<And>j. j < length ids \<Longrightarrow> deps_of ms (ids ! j) \<subseteq> set (take j ids)"
    "set ids = set (map fst ms)"
  shows "acyclic (dependency_relation ms)"
proof -
  let ?pos = "\<lambda>x. length (takeWhile (\<lambda>y. y \<noteq> x) ids)"
  have pos: "?pos (ids ! j) = j" if "j < length ids" for j
  proof -
    have "takeWhile (\<lambda>y. y \<noteq> ids ! j) ids = take j ids"
      using that assms(1) by (intro takeWhile_eq_take_P_nth) (auto simp: nth_eq_iff_index_eq)
    with that show ?thesis by simp
  qed
  have "dependency_relation ms \<subseteq> measure ?pos"
  proof clarify
    fix d i assume "(d, i) \<in> dependency_relation ms"
    then have "i \<in> set ids" "d \<in> deps_of ms i" using assms(3) by (auto simp: dependency_relation_def)
    then obtain j where j: "j < length ids" "i = ids ! j" by (auto simp: in_set_conv_nth)
    with \<open>d \<in> deps_of ms i\<close> assms(2) have "d \<in> set (take j ids)" by blast
    then obtain k where "k < j" "d = ids ! k" by (auto simp: in_set_conv_nth)
    with pos [of k] pos [of j] j show "(d, i) \<in> measure ?pos" by simp
  qed
  then have "wf (dependency_relation ms)" by (rule wf_subset [OF wf_measure])
  then show ?thesis by (rule wf_acyclic)
qed

lemma ordered_manifests_Inr:
  "ordered_manifests pk ms = Inr out \<longleftrightarrow>
     (\<exists>ids. order_loop pk ms (sorted_set (map fst ms)) [] = Inr ids \<and> out = map (\<lambda>i. the (dict_get ms i)) ids)"
  by (auto simp: ordered_manifests_def split: sum.split)

lemma ordered_manifests_sound:
  assumes "dict_ok ms" "ordered_manifests pk ms = Inr out"
  shows "\<exists>ids. out = map (\<lambda>i. the (dict_get ms i)) ids \<and> distinct ids \<and> set ids = set (map fst ms) \<and>
    (\<forall>j < length ids. deps_of ms (ids ! j) \<subseteq> set (take j ids))"
proof -
  obtain ids where ids: "order_loop pk ms (sorted_set (map fst ms)) [] = Inr ids"
    "out = map (\<lambda>i. the (dict_get ms i)) ids"
    using assms(2) unfolding ordered_manifests_Inr by blast
  from order_loop_sound [OF ids(1)] have "distinct ids \<and> set ids = set (map fst ms) \<and>
    (\<forall>j < length ids. deps_of ms (ids ! j) \<subseteq> set (take j ids))" by auto
  with ids(2) show ?thesis by blast
qed

text \<open>
  C5: The module order exists exactly when every declared dependency is present in an accepted
  version and the dependency relation has no cycle; it then lists every module once, each one after
  all its dependencies.
\<close>

theorem module_order_exact:
  assumes ok: "dict_ok ms"
  shows "((\<exists>out. ordered_manifests pk ms = Inr out) \<longleftrightarrow>
      (\<forall>m \<in> set (map snd ms). validate_dependencies pk m ms = Inr ()) \<and> acyclic (dependency_relation ms)) \<and>
    (\<forall>out. ordered_manifests pk ms = Inr out \<longrightarrow>
      (\<exists>ids. out = map (\<lambda>i. the (dict_get ms i)) ids \<and> distinct ids \<and> set ids = set (map fst ms) \<and>
        (\<forall>j < length ids. deps_of ms (ids ! j) \<subseteq> set (take j ids))))"
proof -
  have sound: "(\<forall>i \<in> set (map fst ms). validate_dependencies pk (the (dict_get ms i)) ms = Inr ()) \<and>
      distinct ids \<and> set ids = set (map fst ms) \<and>
      (\<forall>j < length ids. deps_of ms (ids ! j) \<subseteq> set (take j ids))"
    if "order_loop pk ms (sorted_set (map fst ms)) [] = Inr ids" for ids
    using order_loop_sound [OF that] by auto
  have vals: "(\<forall>m \<in> set (map snd ms). validate_dependencies pk m ms = Inr ()) \<longleftrightarrow>
      (\<forall>i \<in> set (map fst ms). validate_dependencies pk (the (dict_get ms i)) ms = Inr ())"
    using ok by (force simp: map_of_eq_Some_iff)
  have "\<exists>ids. order_loop pk ms (sorted_set (map fst ms)) [] = Inr ids"
    if v: "\<forall>i \<in> set (map fst ms). validate_dependencies pk (the (dict_get ms i)) ms = Inr ()"
      and a: "acyclic (dependency_relation ms)"
  proof (rule order_loop_complete [OF a])
    show "deps_of ms i \<subseteq> set (sorted_set (map fst ms)) \<union> set []" if "i \<in> set (sorted_set (map fst ms))" for i
      using v that by (fastforce simp: deps_of_def dict_keys_iff dest: validated_deps)
  qed (use v in auto)
  then show ?thesis
    using sound ordered_acyclic unfolding vals ordered_manifests_Inr by blast
qed

section \<open>What an accepted upgrade keeps\<close>

definition contracts_kept :: "packaging \<Rightarrow> contract_declaration list \<Rightarrow> contract_declaration list \<Rightarrow> bool" where
  "contracts_kept pk old new \<longleftrightarrow>
     (\<forall>c \<in> set old. \<exists>c' \<in> set new. contract_id c' = contract_id c \<and> \<not> version_less pk (cd_version c') (cd_version c))"

definition resources_kept :: "resource_ownership list \<Rightarrow> resource_ownership list \<Rightarrow> bool" where
  "resources_kept old new \<longleftrightarrow>
     (\<forall>r \<in> set old. \<exists>r' \<in> set new. resource_namespace r' = resource_namespace r \<and>
        contract_version r' = contract_version r \<and> set (aliases r) \<subseteq> set (aliases r'))"

text \<open>The promise of an upgrade, without the order in which the code checks it.\<close>

definition upgrade_compatible :: "packaging \<Rightarrow> manifest \<Rightarrow> manifest \<Rightarrow> bool" where
  "upgrade_compatible pk current target \<longleftrightarrow>
     contracts_kept pk (api_contracts current) (api_contracts target) \<and>
     contracts_kept pk (event_contracts current) (event_contracts target) \<and>
     contracts_kept pk (public_contracts current) (public_contracts target) \<and>
     set (ui_contributions current) \<subseteq> set (ui_contributions target) \<and>
     set (configuration_scopes current) \<subseteq> set (configuration_scopes target) \<and>
     set (localization_resources current) \<subseteq> set (localization_resources target) \<and>
     \<not> withdraws (tenant_export_supported current) (tenant_export_supported target) \<and>
     \<not> withdraws (tenant_delete_supported current) (tenant_delete_supported target) \<and>
     resources_kept (resource_ownerships current) (resource_ownerships target)"

text \<open>A dictionary comprehension that indexes a list by a key, as a loop.\<close>

abbreviation index_by :: "('a \<Rightarrow> 'k) \<Rightarrow> 'a list \<Rightarrow> ('k, 'a) dict" where
  "index_by k xs \<equiv> foldl (\<lambda>d x. dict_set (k x) x d) [] xs"

lemma foldl_dict_set:
  "distinct (map k xs) \<Longrightarrow> \<forall>x \<in> set xs. dict_get d (k x) = None \<Longrightarrow>
     dict_get (foldl (\<lambda>d x. dict_set (k x) x d) d xs) i = Some y \<longleftrightarrow>
       dict_get d i = Some y \<or> (y \<in> set xs \<and> k y = i)"
proof (induction xs arbitrary: d)
  case (Cons x xs)
  have fresh: "\<forall>y \<in> set xs. k y \<noteq> k x" using Cons.prems(1) by (simp add: image_iff) metis
  have "dict_get (foldl (\<lambda>d x. dict_set (k x) x d) (dict_set (k x) x d) xs) i = Some y \<longleftrightarrow>
       dict_get (dict_set (k x) x d) i = Some y \<or> (y \<in> set xs \<and> k y = i)"
    using Cons.prems fresh by (intro Cons.IH) (auto simp: dict_get_set)
  with Cons.prems(2) show ?case by (auto simp: dict_get_set)
qed simp

lemma index_by_case:
  assumes "distinct (map k xs)"
  shows "(case dict_get (index_by k xs) i of None \<Rightarrow> Inl e | Some r \<Rightarrow> raise_if (B r) (e' r)) = Inr () \<longleftrightarrow>
    (\<exists>y \<in> set xs. k y = i \<and> \<not> B y)"
proof -
  have get: "dict_get (index_by k xs) i = Some y \<longleftrightarrow> y \<in> set xs \<and> k y = i" for y
    using foldl_dict_set [OF assms, of "[]"] by simp
  show ?thesis
  proof (cases "dict_get (index_by k xs) i")
    case None
    then have "\<not> (y \<in> set xs \<and> k y = i)" for y using get [of y] by simp
    with None show ?thesis by auto
  next
    case (Some r)
    then have "y \<in> set xs \<and> k y = i \<longleftrightarrow> y = r" for y using get [of y] by auto
    then have "(\<exists>y \<in> set xs. k y = i \<and> \<not> B y) \<longleftrightarrow> \<not> B r" by metis
    with Some show ?thesis by simp
  qed
qed

lemma contract_upgrade_Inr:
  assumes "distinct (map contract_id new)"
  shows "validate_contract_upgrade pk mid kind old new = Inr () \<longleftrightarrow> contracts_kept pk old new"
  by (simp add: validate_contract_upgrade_def Let_def contracts_kept_def index_by_case [OF assms])

lemma distinct_claim_keys:
  "distinct (concat (map claims_of rs)) \<Longrightarrow> distinct (map (\<lambda>r. (resource_namespace r, contract_version r)) rs)"
  by (induction rs) (auto simp: claims_of_def)

lemma manifest_upgrade_Inr:
  assumes "manifest_valid pk target"
  shows "validate_manifest_upgrade pk current target = Inr () \<longleftrightarrow> upgrade_compatible pk current target"
proof -
  note v = manifest_valid_facts [OF assms]
  note res = index_by_case [OF distinct_claim_keys [OF v(5)]]
  have rem: "sorted_set (filter (\<lambda>v. v \<notin> set new) old) = [] \<longleftrightarrow> set old \<subseteq> set new" for old new :: "string list"
    unfolding set_empty [symmetric] set_sorted_set by auto
  show ?thesis
    by (simp add: validate_manifest_upgrade_def upgrade_compatible_def contract_upgrade_Inr [OF v(2)]
        contract_upgrade_Inr [OF v(3)] contract_upgrade_Inr [OF v(4)] rem Let_def res resources_kept_def
        conj_assoc del: check_all.simps)
qed

section \<open>Resource claims across modules\<close>

lemma fold_res_concat: "fold_res f s (concat xss) = fold_res (\<lambda>s xs. fold_res f s xs) s xss"
  by (induction xss arbitrary: s) (auto simp: fold_res_append split: sum.split)

lemma fold_res_map: "fold_res f s (map g xs) = fold_res (\<lambda>s x. f s (g x)) s xs"
  by (induction xs arbitrary: s) (auto split: sum.split)

lemma fold_res_const: "fold_res (\<lambda>s x. fold_res (h x) s (ks x)) s xs =
    fold_res (\<lambda>s p. h (fst p) s (snd p)) s (concat (map (\<lambda>x. map (Pair x) (ks x)) xs))"
proof (induction xs arbitrary: s)
  case (Cons x xs)
  have "fold_res (h x) s (ks x) = fold_res (\<lambda>s p. h (fst p) s (snd p)) s (map (Pair x) (ks x))"
    by (simp add: fold_res_map)
  then show ?case by (simp add: fold_res_append Cons.IH split: sum.split)
qed simp

lemma allocate_claims_Inr:
  "(\<exists>b. fold_res (\<lambda>a p. allocate_claim (fst p) a (snd p)) a ps = Inr b) \<longleftrightarrow>
     distinct (map snd ps) \<and> (\<forall>p \<in> set ps. dict_get a (snd p) = None)"
proof (induction ps arbitrary: a)
  case (Cons p ps)
  show ?case
  proof (cases "dict_get a (snd p)")
    case None
    then have "allocate_claim (fst p) a (snd p) = Inr (dict_set (snd p) (fst p) a)" by (simp add: allocate_claim_def)
    with Cons.IH [of "dict_set (snd p) (fst p) a"] None show ?thesis by (auto simp: dict_get_set image_iff)
  next
    case (Some o')
    then show ?thesis by (auto simp: allocate_claim_def)
  qed
qed simp

definition all_claims :: "manifest list \<Rightarrow> (string \<times> string) list" where
  "all_claims ms = concat (map (\<lambda>m. concat (map claims_of (resource_ownerships m))) ms)"

lemma resource_claims_Inr: "(\<exists>a. validate_resource_claims ms = Inr a) \<longleftrightarrow> distinct (all_claims ms)"
proof -
  let ?ks = "\<lambda>m. concat (map claims_of (resource_ownerships m))"
  have "validate_resource_claims ms = fold_res (\<lambda>a m. fold_res (allocate_claim (module_id m)) a (?ks m)) [] ms"
    by (simp add: validate_resource_claims_def fold_res_concat fold_res_map)
  also have "\<dots> = fold_res (\<lambda>a p. allocate_claim (module_id (fst p)) a (snd p)) []
      (concat (map (\<lambda>m. map (Pair m) (?ks m)) ms))"
    by (rule fold_res_const)
  also have "\<dots> = fold_res (\<lambda>a p. allocate_claim (fst p) a (snd p)) []
      (map (\<lambda>p. (module_id (fst p), snd p)) (concat (map (\<lambda>m. map (Pair m) (?ks m)) ms)))"
    by (simp add: fold_res_map)
  finally have eq: "validate_resource_claims ms = \<dots>" .
  have "map snd (map (\<lambda>p. (module_id (fst p), snd p)) (concat (map (\<lambda>m. map (Pair m) (?ks m)) ms))) = all_claims ms"
    by (simp add: map_concat comp_def all_claims_def)
  then show ?thesis unfolding eq allocate_claims_Inr by simp
qed

definition demo_modules :: "(string, manifest) dict" where
  "demo_modules = [(''aa'', demo_manifest ''aa'' [\<lparr>dep_module_id = ''bb'', dep_version = ''1''\<rparr>]),
     (''bb'', demo_manifest ''bb'' [])]"

lemma demo_order: "order_loop demo_packaging demo_modules (sorted_set (map fst demo_modules)) [] = Inr [''bb'', ''aa'']"
  by (simp add: order_loop.simps ready_pass_def validate_dependencies_def deps_in_def demo_modules_def
      demo_manifest_def demo_packaging_def sorted_set_def raise_if_def)

theorem module_order_exact_witness:
  "ordered_manifests demo_packaging demo_modules = Inr [demo_manifest ''bb'' [],
     demo_manifest ''aa'' [\<lparr>dep_module_id = ''bb'', dep_version = ''1''\<rparr>]] \<and>
   acyclic (dependency_relation demo_modules)"
proof -
  have ok: "dict_ok demo_modules" by (simp add: demo_modules_def)
  have o: "ordered_manifests demo_packaging demo_modules = Inr [demo_manifest ''bb'' [],
     demo_manifest ''aa'' [\<lparr>dep_module_id = ''bb'', dep_version = ''1''\<rparr>]]"
    by (simp add: ordered_manifests_def demo_order) (simp add: demo_modules_def)
  from module_order_exact [OF ok, of demo_packaging] o show ?thesis by blast
qed

end
