(* ===== verification/Module_Registry.thy ===== *)
theory Module_Registry
  imports Module_Order
begin

text \<open>
  \<open>ModuleRegistry\<close> and \<open>UpgradeCoordinator\<close> of \<open>platform/src/businessos/modules/registry.py\<close>:
  admission and replacement of modules against installation grants, the allocation of module IDs
  to publishers, and the upgrade plan.
\<close>

section \<open>State\<close>

datatype module_state =
    AVAILABLE | INSTALLING | INSTALLED | ENABLED | DISABLED | UPGRADING | FAILED | UNINSTALLING | RETIRED

text \<open>\<open>StrEnum\<close> values, as they are printed (\<open>REMOVED\<close> is an alias of \<open>RETIRED\<close>).\<close>

fun state_value :: "module_state \<Rightarrow> string" where
  "state_value AVAILABLE = ''available''"
| "state_value INSTALLING = ''installing''"
| "state_value INSTALLED = ''installed''"
| "state_value ENABLED = ''enabled''"
| "state_value DISABLED = ''disabled''"
| "state_value UPGRADING = ''upgrading''"
| "state_value FAILED = ''failed''"
| "state_value UNINSTALLING = ''uninstalling''"
| "state_value RETIRED = ''retired''"

text \<open>
  The registration object of an activation is identified by the generation it reserved. \<open>locked\<close> is
  the module's \<open>asyncio.Lock\<close>.
\<close>

record registered_module =
  rm_module :: module_object
  rm_manifest :: manifest
  rm_state :: module_state
  rm_error :: "string option"
  rm_registration :: "generation option"
  rm_locked :: bool
  rm_started :: bool

definition new_registered :: "module_object \<Rightarrow> manifest \<Rightarrow> module_state \<Rightarrow> registered_module" where
  "new_registered mo m st = \<lparr>rm_module = mo, rm_manifest = m, rm_state = st, rm_error = None,
     rm_registration = None, rm_locked = False, rm_started = False\<rparr>"

text \<open>The version fields hold \<open>str(Version(...))\<close>.\<close>

record module_registry =
  platform_version :: string
  sdk_version :: string
  python_version :: string
  modules :: "(string, registered_module) dict"
  approved_artifacts :: "(string, artifact) dict"
  coordinator_ids :: "string set"
  allocations :: "(string, string \<times> string) dict"

section \<open>Operations\<close>

definition runtime_supports :: "packaging \<Rightarrow> module_registry \<Rightarrow> manifest \<Rightarrow> bool" where
  "runtime_supports pk r m = supports pk m (platform_version r) (sdk_version r) (python_version r)"

definition put_module :: "string \<Rightarrow> registered_module \<Rightarrow> module_registry \<Rightarrow> module_registry" where
  "put_module i rm r = r\<lparr>modules := dict_set i rm (modules r)\<rparr>"

text \<open>\<open>m\<close> is the module's own manifest, as the module returns it at the call.\<close>

definition add_module :: "packaging \<Rightarrow> module_registry \<Rightarrow> module_object \<Rightarrow> manifest \<Rightarrow> exn + module_registry" where
  "add_module pk r mo m =
     (if \<not> manifest_valid pk m
      then Inl (ConfigurationError ''Module manifest failed admission validation'')
      else if dict_get (modules r) (module_id m) \<noteq> None
      then Inl (ConflictError (''Module already registered: '' @ module_id m))
      else if \<not> runtime_supports pk r m
      then Inl (ConfigurationError (''Module is incompatible with this runtime: '' @ module_id m))
      else if resource_ownerships m \<noteq> [] \<or> module_id m \<in> coordinator_ids r
      then
        (case dict_get (approved_artifacts r) (module_id m) of
           None \<Rightarrow> Inl (ConfigurationError ''Resource or coordinator claim requires approved artifact'')
         | Some grant \<Rightarrow>
             (case verify_artifact grant mo m of
                Inl e \<Rightarrow> Inl e
              | Inr _ \<Rightarrow>
                  let allocation = (af_publisher grant, package_identity grant);
                      previous = dict_get (allocations r) (module_id m)
                  in if previous \<noteq> None \<and> previous \<noteq> Some allocation
                     then Inl (ConfigurationError ''Retired module ID allocation cannot transfer publisher'')
                     else Inr (put_module (module_id m) (new_registered mo m AVAILABLE)
                            (r\<lparr>allocations := dict_set (module_id m) allocation (allocations r)\<rparr>))))
      else Inr (put_module (module_id m) (new_registered mo m AVAILABLE) r))"

definition get_module :: "module_registry \<Rightarrow> string \<Rightarrow> exn + registered_module" where
  "get_module r i =
     (case dict_get (modules r) i of
        None \<Rightarrow> Inl (NotFoundError (''Unknown module: '' @ i))
      | Some rm \<Rightarrow> Inr rm)"

definition replace_module ::
  "packaging \<Rightarrow> module_registry \<Rightarrow> module_object \<Rightarrow> manifest \<Rightarrow> artifact \<Rightarrow> exn + module_registry" where
  "replace_module pk r mo m a =
     (if \<not> manifest_valid pk m
      then Inl (ConfigurationError ''Module replacement manifest failed admission validation'')
      else
        (case get_module r (module_id m) of
           Inl e \<Rightarrow> Inl e
         | Inr current \<Rightarrow>
             if rm_locked current \<or> rm_registration current \<noteq> None \<or> rm_started current \<or>
                rm_state current \<notin> {DISABLED, INSTALLED}
             then Inl (ConfigurationError ''Module replacement requires an inactive installed module'')
             else
               (case dict_get (approved_artifacts r) (module_id m) of
                  None \<Rightarrow> Inl (ConfigurationError ''Replacement requires fresh approved artifact evidence'')
                | Some previous \<Rightarrow>
                    if install_identity previous = install_identity a
                    then Inl (ConfigurationError ''Replacement requires fresh approved artifact evidence'')
                    else
                      (case verify_artifact a mo m of
                         Inl e \<Rightarrow> Inl e
                       | Inr _ \<Rightarrow>
                           if Some (af_publisher a, package_identity a) \<noteq> dict_get (allocations r) (module_id m)
                           then Inl (ConfigurationError ''Replacement cannot transfer a module ID allocation'')
                           else if \<not> runtime_supports pk r m
                           then Inl (ConfigurationError ''Replacement is incompatible with this runtime'')
                           else if version_less pk (version m) (version (rm_manifest current))
                           then Inl (ConfigurationError ''Replacement cannot downgrade the module'')
                           else
                             (case validate_manifest_upgrade pk (rm_manifest current) m of
                                Inl e \<Rightarrow> Inl e
                              | Inr _ \<Rightarrow>
                                  Inr (put_module (module_id m) (new_registered mo m INSTALLED)
                                    (r\<lparr>approved_artifacts := dict_set (module_id m) a (approved_artifacts r)\<rparr>)))))))"

definition is_approved_coordinator :: "module_registry \<Rightarrow> string \<Rightarrow> bool" where
  "is_approved_coordinator r i \<longleftrightarrow> i \<in> coordinator_ids r \<and> dict_get (approved_artifacts r) i \<noteq> None"

text \<open>\<open>None\<close> where the code returns no entitlement.\<close>

definition restricted_entitlement ::
  "module_registry \<Rightarrow> entitlements \<Rightarrow> string \<Rightarrow> generation \<Rightarrow> exn + nat option \<times> entitlements" where
  "restricted_entitlement r t i g =
     (case dict_get (approved_artifacts r) i of
        None \<Rightarrow> Inr (None, t)
      | Some grant \<Rightarrow>
          if \<not> first_party grant then Inr (None, t)
          else
            (case get_module r i of
               Inl e \<Rightarrow> Inl e
             | Inr rm \<Rightarrow>
                 (case issue_restricted t grant (rm_module rm) (rm_manifest rm) g of
                    Inl e \<Rightarrow> Inl e
                  | Inr (n, t') \<Rightarrow> Inr (Some n, t'))))"

definition manifests_of :: "module_registry \<Rightarrow> (string, manifest) dict" where
  "manifests_of r = map (\<lambda>(i, rm). (i, rm_manifest rm)) (modules r)"

definition ordered_modules :: "packaging \<Rightarrow> module_registry \<Rightarrow> exn + registered_module list" where
  "ordered_modules pk r =
     (case validate_resource_claims (map snd (manifests_of r)) of
        Inl e \<Rightarrow> Inl e
      | Inr _ \<Rightarrow>
          (case ordered_manifests pk (manifests_of r) of
             Inl e \<Rightarrow> Inl e
           | Inr ms \<Rightarrow> Inr (map (\<lambda>m. the (dict_get (modules r) (module_id m))) ms)))"

definition module_entries :: "module_registry \<Rightarrow> registered_module list" where
  "module_entries r = map (\<lambda>i. the (dict_get (modules r) i)) (sorted_set (map fst (modules r)))"

section \<open>Upgrade plans\<close>

record upgrade_plan =
  ordered_module_ids :: "string list"
  migration_locations :: "(string \<times> string) list"

definition plan_upgrade :: "packaging \<Rightarrow> module_registry \<Rightarrow> manifest list \<Rightarrow> exn + upgrade_plan" where
  "plan_upgrade pk r targets =
     (let target_map = index_by module_id targets;
          current = module_entries r;
          current_ids = map (\<lambda>rm. module_id (rm_manifest rm)) current;
          unknown = sorted_set (filter (\<lambda>i. i \<notin> set current_ids) (map fst target_map))
      in if length target_map \<noteq> length targets
         then Inl (ConflictError ''Upgrade targets must contain unique module IDs'')
         else if unknown \<noteq> []
         then Inl (ConfigurationError (''Upgrade targets contain unknown modules: '' @ show_list unknown))
         else
           let proposed = index_by module_id (map (\<lambda>rm.
                 case dict_get target_map (module_id (rm_manifest rm)) of
                   None \<Rightarrow> rm_manifest rm | Some t \<Rightarrow> t) current)
           in (case check_all (\<lambda>rm.
                 let cur = rm_manifest rm; target = the (dict_get proposed (module_id cur))
                 in if version_less pk (version target) (version cur)
                    then Inl (ConfigurationError (''Upgrade target cannot downgrade module '' @ quote
                           @ module_id cur @ quote))
                    else if \<not> runtime_supports pk r target
                    then Inl (ConfigurationError (''Upgrade target is incompatible: '' @ module_id target))
                    else validate_manifest_upgrade pk cur target) current of
                 Inl e \<Rightarrow> Inl e
               | Inr _ \<Rightarrow>
                   (case validate_resource_claims (map snd proposed) of
                      Inl e \<Rightarrow> Inl e
                    | Inr _ \<Rightarrow>
                        (case ordered_manifests pk proposed of
                           Inl e \<Rightarrow> Inl e
                         | Inr ms \<Rightarrow>
                             Inr \<lparr>ordered_module_ids = map module_id ms,
                                  migration_locations =
                                    concat (map (\<lambda>m. map (Pair (module_id m)) (migrations m)) ms)\<rparr>))))"

section \<open>Well-formed registries\<close>

definition registry_ok :: "packaging \<Rightarrow> module_registry \<Rightarrow> bool" where
  "registry_ok pk r \<longleftrightarrow> dict_ok (modules r) \<and>
     (\<forall>(i, rm) \<in> set (modules r). i = module_id (rm_manifest rm) \<and> manifest_valid pk (rm_manifest rm))"

lemma registry_ok_dict: "registry_ok pk r \<Longrightarrow> dict_ok (modules r)"
  by (simp add: registry_ok_def)

lemma registry_ok_get:
  "registry_ok pk r \<Longrightarrow> dict_get (modules r) i = Some rm \<Longrightarrow>
     module_id (rm_manifest rm) = i \<and> manifest_valid pk (rm_manifest rm)"
  unfolding registry_ok_def by (auto dest!: map_of_SomeD)

lemma registry_okI:
  "dict_ok (modules r) \<Longrightarrow>
     (\<And>i rm. dict_get (modules r) i = Some rm \<Longrightarrow> module_id (rm_manifest rm) = i \<and> manifest_valid pk (rm_manifest rm)) \<Longrightarrow>
     registry_ok pk r"
  by (fastforce simp: registry_ok_def)

lemma put_module_simps [simp]:
  "dict_get (modules (put_module i rm r)) j = (if j = i then Some rm else dict_get (modules r) j)"
  "allocations (put_module i rm r) = allocations r"
  "approved_artifacts (put_module i rm r) = approved_artifacts r"
  "dict_ok (modules r) \<Longrightarrow> dict_ok (modules (put_module i rm r))"
  by (simp_all add: put_module_def dict_get_set)

lemma new_registered_simps [simp]:
  "rm_manifest (new_registered mo m st) = m" "rm_state (new_registered mo m st) = st"
  "rm_registration (new_registered mo m st) = None" "rm_started (new_registered mo m st) = False"
  by (simp_all add: new_registered_def)

lemma add_module_Inr:
  assumes "add_module pk r mo m = Inr r'"
  shows "manifest_valid pk m" "dict_get (modules r) (module_id m) = None" "runtime_supports pk r m"
    and "modules r' = dict_set (module_id m) (new_registered mo m AVAILABLE) (modules r)"
    and "approved_artifacts r' = approved_artifacts r"
    and "(resource_ownerships m = [] \<and> module_id m \<notin> coordinator_ids r \<and> allocations r' = allocations r) \<or>
      (\<exists>a. dict_get (approved_artifacts r) (module_id m) = Some a \<and> verify_artifact a mo m = Inr () \<and>
        (dict_get (allocations r) (module_id m) \<in> {None, Some (af_publisher a, package_identity a)}) \<and>
        allocations r' = dict_set (module_id m) (af_publisher a, package_identity a) (allocations r))"
  using assms by (auto simp: add_module_def put_module_def Let_def split: if_splits option.splits sum.splits)

lemma replace_module_Inr:
  assumes "replace_module pk r mo m a = Inr r'"
  shows "manifest_valid pk m" "verify_artifact a mo m = Inr ()" "runtime_supports pk r m"
    and "dict_get (allocations r) (module_id m) = Some (af_publisher a, package_identity a)"
    and "\<exists>cur. dict_get (modules r) (module_id m) = Some cur \<and> rm_state cur \<in> {DISABLED, INSTALLED} \<and>
      rm_registration cur = None \<and> \<not> rm_started cur \<and> \<not> rm_locked cur \<and>
      \<not> version_less pk (version m) (version (rm_manifest cur)) \<and>
      validate_manifest_upgrade pk (rm_manifest cur) m = Inr ()"
    and "modules r' = dict_set (module_id m) (new_registered mo m INSTALLED) (modules r)"
    and "allocations r' = allocations r"
    and "approved_artifacts r' = dict_set (module_id m) a (approved_artifacts r)"
  using assms by (auto simp: replace_module_def get_module_def put_module_def
      split: if_splits option.splits sum.splits)

lemma registry_ok_add: "registry_ok pk r \<Longrightarrow> add_module pk r mo m = Inr r' \<Longrightarrow> registry_ok pk r'"
  using add_module_Inr(1,4) [of pk r mo m r'] registry_ok_get [of pk r] registry_ok_dict [of pk r]
  by (intro registry_okI) (auto simp: dict_get_set new_registered_def split: if_splits)

lemma registry_ok_replace: "registry_ok pk r \<Longrightarrow> replace_module pk r mo m a = Inr r' \<Longrightarrow> registry_ok pk r'"
  using replace_module_Inr(1,6) [of pk r mo m a r'] registry_ok_get [of pk r] registry_ok_dict [of pk r]
  by (intro registry_okI) (auto simp: dict_get_set new_registered_def split: if_splits)

section \<open>Allocations\<close>

text \<open>Histories of admission and replacement, failed attempts included.\<close>

datatype registry_op = AddModule module_object manifest | ReplaceModule module_object manifest artifact

fun registry_step :: "packaging \<Rightarrow> module_registry \<Rightarrow> registry_op \<Rightarrow> module_registry" where
  "registry_step pk r (AddModule mo m) = (case add_module pk r mo m of Inl e \<Rightarrow> r | Inr r' \<Rightarrow> r')"
| "registry_step pk r (ReplaceModule mo m a) = (case replace_module pk r mo m a of Inl e \<Rightarrow> r | Inr r' \<Rightarrow> r')"

definition new_module_registry ::
  "string \<Rightarrow> string \<Rightarrow> string \<Rightarrow> (string, artifact) dict \<Rightarrow> string set \<Rightarrow> module_registry" where
  "new_module_registry plat s py arts coords = \<lparr>platform_version = plat, sdk_version = s,
     python_version = py, modules = [], approved_artifacts = arts, coordinator_ids = coords,
     allocations = []\<rparr>"

definition allocations_ok :: "module_registry \<Rightarrow> bool" where
  "allocations_ok r \<longleftrightarrow>
     (\<forall>i p. dict_get (allocations r) i = Some p \<longrightarrow>
        (\<exists>a. dict_get (approved_artifacts r) i = Some a \<and> p = (af_publisher a, package_identity a))) \<and>
     (\<forall>i rm. dict_get (modules r) i = Some rm \<longrightarrow> resource_ownerships (rm_manifest rm) \<noteq> [] \<longrightarrow>
        (\<exists>pkg. dict_get (allocations r) i = Some (publisher (rm_manifest rm), pkg)))"

lemma verified_publisher: "verify_artifact a mo m = Inr () \<Longrightarrow> af_publisher a = publisher m"
  by (auto simp: verify_artifact_def split: if_splits)

lemma allocations_add:
  assumes inv: "allocations_ok r" and a: "add_module pk r mo m = Inr r'"
  shows "allocations_ok r' \<and> (\<forall>i p. dict_get (allocations r) i = Some p \<longrightarrow> dict_get (allocations r') i = Some p)"
  using add_module_Inr(6) [OF a]
proof (elim disjE exE conjE)
  assume "resource_ownerships m = []" "allocations r' = allocations r"
  then show ?thesis
    using inv add_module_Inr(4,5) [OF a] unfolding allocations_ok_def
    by (simp add: dict_get_set new_registered_def)
next
  fix art assume art: "dict_get (approved_artifacts r) (module_id m) = Some art" "verify_artifact art mo m = Inr ()"
    and prev: "dict_get (allocations r) (module_id m) \<in> {None, Some (af_publisher art, package_identity art)}"
    and new: "allocations r' = dict_set (module_id m) (af_publisher art, package_identity art) (allocations r)"
  have kept: "dict_get (allocations r') i = Some p" if "dict_get (allocations r) i = Some p" for i p
    using that prev by (auto simp: new dict_get_set)
  have "allocations_ok r'"
    unfolding allocations_ok_def
  proof (intro conjI allI impI)
    show "\<exists>a. dict_get (approved_artifacts r') i = Some a \<and> p = (af_publisher a, package_identity a)"
      if "dict_get (allocations r') i = Some p" for i p
      using that inv art(1) add_module_Inr(5) [OF a]
      by (cases p) (auto simp: new dict_get_set allocations_ok_def split: if_splits)
    show "\<exists>pkg. dict_get (allocations r') i = Some (publisher (rm_manifest rm), pkg)"
      if rm: "dict_get (modules r') i = Some rm" "resource_ownerships (rm_manifest rm) \<noteq> []" for i rm
    proof (cases "i = module_id m")
      case True
      with rm(1) add_module_Inr(4) [OF a] verified_publisher [OF art(2)] show ?thesis
        by (auto simp: new dict_get_set)
    next
      case False
      with rm inv add_module_Inr(4) [OF a] show ?thesis
        by (fastforce simp: new dict_get_set allocations_ok_def)
    qed
  qed
  with kept show ?thesis by blast
qed

lemma allocations_replace:
  assumes inv: "allocations_ok r" and a: "replace_module pk r mo m a = Inr r'"
  shows "allocations_ok r'"
  using inv replace_module_Inr(4,6-8) [OF a] verified_publisher [OF replace_module_Inr(2) [OF a]]
  unfolding allocations_ok_def by (simp add: dict_get_set new_registered_def)

lemma allocations_step:
  assumes "allocations_ok r"
  shows "allocations_ok (registry_step pk r op) \<and>
    (\<forall>i p. dict_get (allocations r) i = Some p \<longrightarrow> dict_get (allocations (registry_step pk r op)) i = Some p)"
proof (cases op)
  case (AddModule mo m)
  with assms allocations_add [OF assms] show ?thesis by (auto split: sum.split)
next
  case (ReplaceModule mo m a)
  with assms allocations_replace [OF assms] replace_module_Inr(7) show ?thesis by (auto split: sum.split)
qed

lemma allocations_steps:
  "allocations_ok r \<Longrightarrow> allocations_ok (foldl (registry_step pk) r ops) \<and>
     (\<forall>i p. dict_get (allocations r) i = Some p \<longrightarrow>
        dict_get (allocations (foldl (registry_step pk) r ops)) i = Some p)"
proof (induction ops arbitrary: r)
  case (Cons op ops)
  from Cons.IH [of "registry_step pk r op"] allocations_step [OF Cons.prems, of pk op] show ?case by auto
qed simp


definition demo_owner :: manifest where
  "demo_owner = (demo_manifest ''ab'' [])\<lparr>resource_ownerships :=
     [\<lparr>resource_namespace = ''ab.c'', owner_module_id = ''ab'', contract_version = ''1'', aliases = []\<rparr>]\<rparr>"

lemma demo_manifest_valid: "i = ''ab'' \<or> i = ''bb'' \<Longrightarrow> manifest_valid demo_packaging (demo_manifest i [])"
  by (auto simp: manifest_valid_def manifest_fields_ok_def module_id_ok_def is_lower_def
      validate_manifest_model_def demo_manifest_def demo_packaging_def validate_claims_def raise_if_def
      seq_res_def)

lemma demo_owner_valid: "manifest_valid demo_packaging demo_owner"
  by (simp add: manifest_valid_def manifest_fields_ok_def module_id_ok_def is_lower_def
      validate_manifest_model_def demo_manifest_def demo_packaging_def validate_claims_def raise_if_def
      seq_res_def demo_owner_def validate_ownership_def namespace_ok_def Let_def starts_with_def claims_of_def)


section \<open>What an upgrade plan promises\<close>

definition effective_manifest :: "manifest list \<Rightarrow> manifest \<Rightarrow> manifest" where
  "effective_manifest targets m = (case find (\<lambda>t. module_id t = module_id m) targets of None \<Rightarrow> m | Some t \<Rightarrow> t)"

lemma effective_id [simp]: "module_id (effective_manifest targets m) = module_id m"
  by (auto simp: effective_manifest_def find_Some_iff split: option.split)

lemma index_by_keys: "set (map fst (foldl (\<lambda>d x. dict_set (k x) x d) d xs)) = set (map fst d) \<union> k ` set xs"
  by (induction xs arbitrary: d) (auto simp: dom_update)

lemma index_by_ok: "dict_ok d \<Longrightarrow> dict_ok (foldl (\<lambda>d x. dict_set (k x) x d) d xs)"
  by (induction xs arbitrary: d) simp_all

lemma index_by_length:
  assumes "length (index_by k xs) = length xs"
  shows "distinct (map k xs)"
proof -
  have "card (set (map fst (index_by k xs))) = length (map fst (index_by k xs))"
    using index_by_ok [of "[]" k xs] by (intro distinct_card) simp
  then have "card (set (map k xs)) = length (map k xs)"
    using assms index_by_keys [of k "[]" xs] by simp
  then show ?thesis by (rule card_distinct)
qed

lemma index_by_get: "distinct (map k xs) \<Longrightarrow> dict_get (index_by k xs) i = Some y \<longleftrightarrow> y \<in> set xs \<and> k y = i"
  using foldl_dict_set [of k xs "[]"] by simp

lemma index_by_find: "distinct (map k xs) \<Longrightarrow> dict_get (index_by k xs) i = find (\<lambda>x. k x = i) xs"
proof (rule option.expand)
  assume d: "distinct (map k xs)"
  have n: "dict_get (index_by k xs) i = None \<longleftrightarrow> i \<notin> k ` set xs"
    using index_by_keys [of k "[]" xs] by (simp add: map_of_eq_None_iff)
  then show "(dict_get (index_by k xs) i = None) = (find (\<lambda>x. k x = i) xs = None)"
    by (auto simp: find_None_iff)
  assume "dict_get (index_by k xs) i \<noteq> None" "find (\<lambda>x. k x = i) xs \<noteq> None"
  then obtain y z where "dict_get (index_by k xs) i = Some y" "find (\<lambda>x. k x = i) xs = Some z" by blast
  moreover from this have "y \<in> set xs \<and> k y = i" "z \<in> set xs \<and> k z = i"
    using index_by_get [OF d] by (auto simp: find_Some_iff)
  ultimately show "the (dict_get (index_by k xs) i) = the (find (\<lambda>x. k x = i) xs)"
    using d by (auto simp: distinct_map dest: inj_onD)
qed

lemma module_entries_facts:
  assumes "registry_ok pk r"
  shows "distinct (map (\<lambda>rm. module_id (rm_manifest rm)) (module_entries r))"
    and "set (module_entries r) = {rm. \<exists>i. dict_get (modules r) i = Some rm}"
    and "map (\<lambda>rm. module_id (rm_manifest rm)) (module_entries r) = sorted_set (map fst (modules r))"
proof -
  have "module_id (rm_manifest (the (dict_get (modules r) i))) = i" if "i \<in> set (sorted_set (map fst (modules r)))" for i
    using that registry_ok_get [OF assms] by (auto simp: dict_keys_iff)
  then show *: "map (\<lambda>rm. module_id (rm_manifest rm)) (module_entries r) = sorted_set (map fst (modules r))"
    unfolding module_entries_def map_map by (intro map_idI) simp
  then show "distinct (map (\<lambda>rm. module_id (rm_manifest rm)) (module_entries r))" by simp
  show "set (module_entries r) = {rm. \<exists>i. dict_get (modules r) i = Some rm}"
  proof (intro equalityI subsetI)
    fix rm assume "rm \<in> set (module_entries r)"
    then obtain i where "i \<in> fst ` set (modules r)" "rm = the (dict_get (modules r) i)"
      unfolding module_entries_def set_map set_sorted_set by blast
    then show "rm \<in> {rm. \<exists>i. dict_get (modules r) i = Some rm}"
      unfolding dict_keys_iff by auto
  next
    fix rm assume "rm \<in> {rm. \<exists>i. dict_get (modules r) i = Some rm}"
    then obtain i where "dict_get (modules r) i = Some rm" by blast
    then have "i \<in> fst ` set (modules r)" "rm = the (dict_get (modules r) i)" by (simp_all add: dict_keys_iff)
    then show "rm \<in> set (module_entries r)" by (simp add: module_entries_def)
  qed
qed

lemma index_by_map:
  assumes "distinct (map k xs)"
  shows "index_by k xs = map (\<lambda>x. (k x, x)) xs"
proof -
  have "distinct (map fst d @ map k xs) \<Longrightarrow>
      foldl (\<lambda>d x. dict_set (k x) x d) d xs = d @ map (\<lambda>x. (k x, x)) xs" for d
  proof (induction xs arbitrary: d)
    case (Cons x xs)
    then have "dict_set (k x) x d = d @ [(k x, x)]"
      by (intro dict_set_fresh) (auto simp: map_of_eq_None_iff)
    with Cons show ?case by simp
  qed simp
  from this [of "[]"] assms show ?thesis by simp
qed

text \<open>The manifests after the upgrade, by module ID.\<close>

definition upgraded :: "manifest list \<Rightarrow> module_registry \<Rightarrow> string \<Rightarrow> manifest" where
  "upgraded targets r i = effective_manifest targets (rm_manifest (the (dict_get (modules r) i)))"

abbreviation module_ids :: "module_registry \<Rightarrow> string list" where
  "module_ids r \<equiv> sorted_set (map fst (modules r))"

definition proposed_manifests :: "manifest list \<Rightarrow> module_registry \<Rightarrow> (string, manifest) dict" where
  "proposed_manifests targets r = map (\<lambda>i. (i, upgraded targets r i)) (module_ids r)"

lemma upgraded_id:
  assumes "registry_ok pk r" "i \<in> set (map fst (modules r))"
  shows "module_id (upgraded targets r i) = i"
proof -
  obtain rm where "dict_get (modules r) i = Some rm" using assms(2) unfolding set_map dict_keys_iff by blast
  with registry_ok_get [OF assms(1)] show ?thesis by (simp add: upgraded_def)
qed

lemma proposed_facts:
  assumes "registry_ok pk r"
  shows "dict_ok (proposed_manifests targets r)"
    and "set (map fst (proposed_manifests targets r)) = set (map fst (modules r))"
    and "i \<in> set (map fst (modules r)) \<Longrightarrow> dict_get (proposed_manifests targets r) i = Some (upgraded targets r i)"
  by (auto simp: proposed_manifests_def comp_def map_of_eq_Some_iff)

lemma proposed_index:
  assumes "registry_ok pk r"
  shows "index_by module_id (map (\<lambda>rm. effective_manifest targets (rm_manifest rm)) (module_entries r))
    = proposed_manifests targets r"
proof -
  have "distinct (map module_id (map (\<lambda>rm. effective_manifest targets (rm_manifest rm)) (module_entries r)))"
    using module_entries_facts(1) [OF assms] by (simp add: comp_def)
  from index_by_map [OF this]
  have "index_by module_id (map (\<lambda>rm. effective_manifest targets (rm_manifest rm)) (module_entries r)) =
      map (\<lambda>i. (module_id (upgraded targets r i), upgraded targets r i)) (module_ids r)"
    by (simp add: module_entries_def upgraded_def comp_def)
  also have "\<dots> = proposed_manifests targets r"
    unfolding proposed_manifests_def by (intro map_cong refl) (simp add: upgraded_id [OF assms])
  finally show ?thesis .
qed

lemma plan_upgrade_Inr:
  assumes ok: "registry_ok pk r" and p: "plan_upgrade pk r targets = Inr p"
  obtains ms where
    "\<And>i rm. dict_get (modules r) i = Some rm \<Longrightarrow>
       \<not> version_less pk (version (upgraded targets r i)) (version (rm_manifest rm)) \<and>
       runtime_supports pk r (upgraded targets r i) \<and>
       validate_manifest_upgrade pk (rm_manifest rm) (upgraded targets r i) = Inr ()"
    "\<exists>a. validate_resource_claims (map snd (proposed_manifests targets r)) = Inr a"
    "ordered_manifests pk (proposed_manifests targets r) = Inr ms"
    "ordered_module_ids p = map module_id ms"
    "migration_locations p = concat (map (\<lambda>m. map (Pair (module_id m)) (migrations m)) ms)"
proof -
  let ?tm = "index_by module_id targets"
  have dist: "distinct (map module_id targets)"
    using p by (intro index_by_length) (auto simp: plan_upgrade_def Let_def split: if_splits)
  have eff: "(case dict_get ?tm (module_id (rm_manifest rm)) of None \<Rightarrow> rm_manifest rm | Some t \<Rightarrow> t)
      = effective_manifest targets (rm_manifest rm)" for rm
    by (simp add: index_by_find [OF dist] effective_manifest_def)
  let ?chk = "\<lambda>rm. if version_less pk (version (the (dict_get (proposed_manifests targets r) (module_id (rm_manifest rm)))))
        (version (rm_manifest rm))
      then Inl (ConfigurationError (''Upgrade target cannot downgrade module '' @ quote
             @ module_id (rm_manifest rm) @ quote))
      else if \<not> runtime_supports pk r (the (dict_get (proposed_manifests targets r) (module_id (rm_manifest rm))))
      then Inl (ConfigurationError (''Upgrade target is incompatible: ''
             @ module_id (the (dict_get (proposed_manifests targets r) (module_id (rm_manifest rm))))))
      else validate_manifest_upgrade pk (rm_manifest rm)
             (the (dict_get (proposed_manifests targets r) (module_id (rm_manifest rm))))"
  obtain ms where ms: "check_all ?chk (module_entries r) = Inr ()"
      "\<exists>a. validate_resource_claims (map snd (proposed_manifests targets r)) = Inr a"
      "ordered_manifests pk (proposed_manifests targets r) = Inr ms"
      "ordered_module_ids p = map module_id ms"
      "migration_locations p = concat (map (\<lambda>m. map (Pair (module_id m)) (migrations m)) ms)"
    using p unfolding plan_upgrade_def Let_def eff proposed_index [OF ok]
    by (auto simp del: check_all_Inr split: if_splits sum.splits)
  have chk: "\<not> version_less pk (version (upgraded targets r i)) (version (rm_manifest rm)) \<and>
       runtime_supports pk r (upgraded targets r i) \<and>
       validate_manifest_upgrade pk (rm_manifest rm) (upgraded targets r i) = Inr ()"
    if rm: "dict_get (modules r) i = Some rm" for i rm
  proof -
    have "i \<in> set (map fst (modules r))" "module_id (rm_manifest rm) = i" "rm \<in> set (module_entries r)"
      using rm registry_ok_get [OF ok rm] module_entries_facts(2) [OF ok] unfolding set_map dict_keys_iff by auto
    then have "the (dict_get (proposed_manifests targets r) (module_id (rm_manifest rm))) = upgraded targets r i"
      using proposed_facts(3) [OF ok] by simp
    moreover have "?chk rm = Inr ()" using ms(1) \<open>rm \<in> set (module_entries r)\<close> by simp
    ultimately show ?thesis by (simp split: if_splits)
  qed
  show ?thesis by (rule that [OF chk ms(2-5)])
qed

text \<open>
  An upgrade plan keeps every promise of the running system: no module is downgraded, becomes
  incompatible with the runtime, or loses a contract, a contribution or a resource claim; no two
  modules claim the same resource version; every module of the registry appears exactly once, after
  all dependencies of its upgraded manifest; and the migrations listed are those of the manifests
  in that order.
\<close>

theorem upgrade_plan_sound:
  assumes ok: "registry_ok pk r" and valid: "list_all (manifest_valid pk) targets"
    and p: "plan_upgrade pk r targets = Inr p"
  shows "distinct (ordered_module_ids p) \<and> set (ordered_module_ids p) = set (map fst (modules r)) \<and>
    (\<forall>i rm. dict_get (modules r) i = Some rm \<longrightarrow>
      upgrade_compatible pk (rm_manifest rm) (upgraded targets r i) \<and>
      runtime_supports pk r (upgraded targets r i) \<and>
      \<not> version_less pk (version (upgraded targets r i)) (version (rm_manifest rm))) \<and>
    distinct (all_claims (map (upgraded targets r) (module_ids r))) \<and>
    (\<forall>j < length (ordered_module_ids p).
      set (map dep_module_id (dependencies (upgraded targets r (ordered_module_ids p ! j))))
        \<subseteq> set (take j (ordered_module_ids p))) \<and>
    migration_locations p =
      concat (map (\<lambda>i. map (Pair i) (migrations (upgraded targets r i))) (ordered_module_ids p))"
proof -
  let ?u = "upgraded targets r"
  note pf = proposed_facts [OF ok, where targets = targets]
  obtain ms where pl:
    "\<And>i rm. dict_get (modules r) i = Some rm \<Longrightarrow>
       \<not> version_less pk (version (?u i)) (version (rm_manifest rm)) \<and> runtime_supports pk r (?u i) \<and>
       validate_manifest_upgrade pk (rm_manifest rm) (?u i) = Inr ()"
    "\<exists>a. validate_resource_claims (map snd (proposed_manifests targets r)) = Inr a"
    "ordered_manifests pk (proposed_manifests targets r) = Inr ms"
    "ordered_module_ids p = map module_id ms"
    "migration_locations p = concat (map (\<lambda>m. map (Pair (module_id m)) (migrations m)) ms)"
    using plan_upgrade_Inr [OF ok p] by blast
  obtain ids where ids: "ms = map (\<lambda>i. the (dict_get (proposed_manifests targets r) i)) ids" "distinct ids"
    "set ids = set (map fst (modules r))"
    "\<forall>j < length ids. deps_of (proposed_manifests targets r) (ids ! j) \<subseteq> set (take j ids)"
    using ordered_manifests_sound [OF pf(1) pl(3)] pf(2) by metis
  have ms: "ms = map ?u ids" unfolding ids(1) using ids(3) pf(3) by (intro map_cong) auto
  have oid: "ordered_module_ids p = ids"
    unfolding pl(4) ms map_map using ids(3) by (intro map_idI) (simp add: upgraded_id [OF ok])
  have valid': "manifest_valid pk (?u i)" if "dict_get (modules r) i = Some rm" for i rm
    using that registry_ok_get [OF ok that] valid
    by (auto simp: upgraded_def effective_manifest_def list_all_iff find_Some_iff split: option.split)
  have "upgrade_compatible pk (rm_manifest rm) (?u i)" if "dict_get (modules r) i = Some rm" for i rm
    using pl(1) [OF that] manifest_upgrade_Inr [OF valid' [OF that]] by simp
  moreover have "distinct (all_claims (map ?u (module_ids r)))"
    using pl(2) unfolding resource_claims_Inr by (simp add: proposed_manifests_def comp_def)
  moreover have "set (map dep_module_id (dependencies (?u (ids ! j)))) \<subseteq> set (take j ids)" if "j < length ids" for j
  proof -
    have "ids ! j \<in> set (map fst (modules r))" using that ids(3) nth_mem by blast
    then have "the (dict_get (proposed_manifests targets r) (ids ! j)) = ?u (ids ! j)" by (simp add: pf(3))
    moreover have "deps_of (proposed_manifests targets r) (ids ! j) \<subseteq> set (take j ids)" using ids(4) that by blast
    ultimately show ?thesis by (simp add: deps_of_def)
  qed
  moreover have "migration_locations p = concat (map (\<lambda>i. map (Pair i) (migrations (?u i))) ids)"
    unfolding pl(5) ms map_map comp_def using ids(3)
    by (intro arg_cong [of _ _ concat] map_cong refl) (simp add: upgraded_id [OF ok])
  ultimately show ?thesis using ids(2,3) pl(1) unfolding oid by blast
qed

definition demo_registry :: module_registry where
  "demo_registry = \<lparr>platform_version = ''1'', sdk_version = ''1'', python_version = ''1'',
     modules = [(''bb'', new_registered demo_module (demo_manifest ''bb'' []) INSTALLED)],
     approved_artifacts = [], coordinator_ids = {}, allocations = []\<rparr>"

definition demo_target :: manifest where
  "demo_target = (demo_manifest ''bb'' [])\<lparr>migrations := [''m''], migration_namespace := Some ''bb''\<rparr>"

lemma demo_target_valid: "manifest_valid demo_packaging demo_target"
  by (simp add: manifest_valid_def manifest_fields_ok_def module_id_ok_def is_lower_def demo_target_def
      validate_manifest_model_def demo_manifest_def demo_packaging_def validate_claims_def raise_if_def
      seq_res_def)

lemma demo_plan: "plan_upgrade demo_packaging demo_registry [demo_target] =
    Inr \<lparr>ordered_module_ids = [''bb''], migration_locations = [(''bb'', ''m'')]\<rparr>"
proof -
  have "module_entries demo_registry = [new_registered demo_module (demo_manifest ''bb'' []) INSTALLED]"
    by (simp add: module_entries_def demo_registry_def sorted_set_def)
  then show ?thesis
    by (simp add: plan_upgrade_def Let_def demo_target_def demo_manifest_def demo_packaging_def sorted_set_def
        demo_registry_def runtime_supports_def supports_def validate_manifest_upgrade_def
        validate_contract_upgrade_def raise_if_def seq_res_def withdraws_def validate_resource_claims_def
        ordered_manifests_def order_loop.simps ready_pass_def validate_dependencies_def deps_in_def)
qed

theorem upgrade_plan_sound_witness:
  "migration_locations \<lparr>ordered_module_ids = [''bb''], migration_locations = [(''bb'', ''m'')]\<rparr> =
     concat (map (\<lambda>i. map (Pair i) (migrations (upgraded [demo_target] demo_registry i))) [''bb''])"
proof -
  have ok: "registry_ok demo_packaging demo_registry"
    using demo_manifest_valid [of "''bb''"] by (simp add: registry_ok_def demo_registry_def) (simp add: demo_manifest_def)
  have valid: "list_all (manifest_valid demo_packaging) [demo_target]" by (simp add: demo_target_valid)
  from upgrade_plan_sound [OF ok valid demo_plan] show ?thesis by simp
qed

end
