(* ===== verification/Lifecycle.thy ===== *)
theory Lifecycle
  imports Module_Registry
begin

text \<open>
  \<open>LifecycleManager\<close> of \<open>platform/src/businessos/modules/registry.py\<close>: installation, activation with
  rollback, deactivation, retirement and the sequences over all modules. The manager runs one
  operation at a time (its lifecycle lock). The callbacks of the modules, their registration objects
  and the optional activation fence act on a world of their own, a parameter of the model; each of
  them returns normally or raises.
\<close>

section \<open>Environment\<close>

text \<open>
  A registration object is identified by its generation. \<open>bind\<close>, \<open>publish\<close>, \<open>rollback\<close>,
  \<open>stop_accepting\<close> and \<open>remove\<close> are its methods; \<open>reserve\<close> is the registration factory and
  \<open>capability\<close> the provider registry, if there is one.
\<close>

record 'w lifecycle_env =
  env_manifest :: "string \<Rightarrow> 'w \<Rightarrow> manifest"
  env_capability :: "(string \<Rightarrow> bool) option"
  env_reserve :: "string \<Rightarrow> 'w \<Rightarrow> (exn + generation) \<times> 'w"
  env_bind :: "generation \<Rightarrow> 'w \<Rightarrow> (exn + unit) \<times> 'w"
  env_register :: "string \<Rightarrow> generation \<Rightarrow> 'w \<Rightarrow> (exn + unit) \<times> 'w"
  env_start :: "string \<Rightarrow> 'w \<Rightarrow> (exn + unit) \<times> 'w"
  env_stop :: "string \<Rightarrow> 'w \<Rightarrow> (exn + unit) \<times> 'w"
  env_publish :: "generation \<Rightarrow> 'w \<Rightarrow> (exn + unit) \<times> 'w"
  env_rollback :: "generation \<Rightarrow> 'w \<Rightarrow> (exn + unit) \<times> 'w"
  env_stop_accepting :: "generation \<Rightarrow> 'w \<Rightarrow> (exn + unit) \<times> 'w"
  env_remove :: "generation \<Rightarrow> 'w \<Rightarrow> (exn + unit) \<times> 'w"
  env_retire_owner :: "string \<Rightarrow> 'w \<Rightarrow> (exn + unit) \<times> 'w"
  env_fence :: bool
  env_fence_enter :: "string \<Rightarrow> 'w \<Rightarrow> (exn + unit) \<times> 'w"
  env_fence_exit :: "string \<Rightarrow> 'w \<Rightarrow> (exn + unit) \<times> 'w"

text \<open>\<open>type(exc).__name__\<close>; a foreign exception carries its own name.\<close>

fun exn_name :: "exn \<Rightarrow> string" where
  "exn_name (BusinessOSError c m s) = ''BusinessOSError''"
| "exn_name ClientDisconnectedError = ''ClientDisconnectedError''"
| "exn_name (DeliveryUnavailableError m) = ''DeliveryUnavailableError''"
| "exn_name (ConfigurationError m) = ''ConfigurationError''"
| "exn_name ProtectedDatabaseCapacityError = ''ProtectedDatabaseCapacityError''"
| "exn_name (NotFoundError m) = ''NotFoundError''"
| "exn_name (MethodNotAllowedError ms) = ''MethodNotAllowedError''"
| "exn_name (ConflictError m) = ''ConflictError''"
| "exn_name (ValueError m) = ''ValueError''"
| "exn_name (RuntimeError m) = ''RuntimeError''"
| "exn_name (PermissionError m) = ''PermissionError''"
| "exn_name (TimeoutError m) = ''TimeoutError''"
| "exn_name (ForeignError n) = n"
| "exn_name (ExceptionGroup m es) = ''ExceptionGroup''"

section \<open>Checks\<close>

definition validate_active_dependencies :: "module_registry \<Rightarrow> manifest \<Rightarrow> exn + unit" where
  "validate_active_dependencies r m = check_all (\<lambda>d.
     case get_module r (dep_module_id d) of
       Inl e \<Rightarrow> Inl e
     | Inr target \<Rightarrow>
         raise_if (rm_state target \<noteq> ENABLED)
           (ConfigurationError (''Module '' @ quote @ module_id m @ quote @ '' requires enabled module ''
             @ quote @ dep_module_id d @ quote @ '', found '' @ state_value (rm_state target))))
     (dependencies m)"

definition validate_capabilities :: "'w lifecycle_env \<Rightarrow> manifest \<Rightarrow> exn + unit" where
  "validate_capabilities env m =
     (if capabilities m = [] then Inr ()
      else
        (case env_capability env of
           None \<Rightarrow> Inl (ConfigurationError (''Module '' @ quote @ module_id m @ quote
                     @ '' requires infrastructure capabilities''))
         | Some has \<Rightarrow> check_all (\<lambda>c. raise_if (\<not> has c)
             (ConfigurationError (''Module '' @ quote @ module_id m @ quote @ '' requires missing capability ''
               @ quote @ c @ quote))) (capabilities m)))"

definition depends_on :: "manifest \<Rightarrow> string \<Rightarrow> bool" where
  "depends_on m i \<longleftrightarrow> list_ex (\<lambda>d. dep_module_id d = i) (dependencies m)"

text \<open>The text of a tuple of strings.\<close>

definition show_tuple :: "string list \<Rightarrow> string" where
  "show_tuple xs = (case xs of
      [x] \<Rightarrow> ''('' @ quote @ x @ quote @ '',)''
    | _ \<Rightarrow> ''('' @ join_with '', '' (map (\<lambda>x. quote @ x @ quote) xs) @ '')'')"

definition reject_enabled_dependents :: "module_registry \<Rightarrow> string \<Rightarrow> exn + unit" where
  "reject_enabled_dependents r i =
     (let dependents = map (\<lambda>rm. module_id (rm_manifest rm))
            (filter (\<lambda>rm. rm_state rm = ENABLED \<and> depends_on (rm_manifest rm) i) (module_entries r))
      in raise_if (dependents \<noteq> []) (ConfigurationError (''Cannot change module '' @ quote @ i @ quote
           @ '' with enabled dependents: '' @ show_tuple dependents)))"

text \<open>\<open>activation_identity\<close> up to the digest, which is computed from the manifest and the grant.\<close>

definition activation_identity :: "module_registry \<Rightarrow> string \<Rightarrow> exn + manifest \<times> artifact option" where
  "activation_identity r i =
     (case get_module r i of
        Inl e \<Rightarrow> Inl e
      | Inr rm \<Rightarrow>
          (case dict_get (approved_artifacts r) i of
             None \<Rightarrow> Inr (rm_manifest rm, None)
           | Some a \<Rightarrow>
               (case verify_artifact a (rm_module rm) (rm_manifest rm) of
                  Inl e \<Rightarrow> Inl e
                | Inr _ \<Rightarrow> Inr (rm_manifest rm, Some a))))"

section \<open>Activation\<close>

text \<open>
  The body of the \<open>try\<close> in \<open>_enable\<close>: the exception that ended it, if any, whether \<open>start\<close> was
  attempted, and the world it leaves.
\<close>

definition bind_register_start ::
  "'w lifecycle_env \<Rightarrow> module_registry \<Rightarrow> string \<Rightarrow> generation \<Rightarrow> 'w \<Rightarrow> exn option \<times> bool \<times> 'w" where
  "bind_register_start env r i g w =
     (case activation_identity r i of
        Inl e \<Rightarrow> (Some e, False, w)
      | Inr _ \<Rightarrow>
          (case env_bind env g w of
             (Inl e, w) \<Rightarrow> (Some e, False, w)
           | (Inr _, w) \<Rightarrow>
               (case env_register env i g w of
                  (Inl e, w) \<Rightarrow> (Some e, False, w)
                | (Inr _, w) \<Rightarrow>
                    (case env_start env i w of
                       (Inl e, w) \<Rightarrow> (Some e, True, w)
                     | (Inr _, w) \<Rightarrow> (None, True, w)))))"

definition publish_after ::
  "'w lifecycle_env \<Rightarrow> generation \<Rightarrow> exn option \<times> bool \<times> 'w \<Rightarrow> exn option \<times> bool \<times> 'w" where
  "publish_after env g res =
     (case res of
        (Some e, attempted, w) \<Rightarrow> (Some e, attempted, w)
      | (None, attempted, w) \<Rightarrow>
          (case env_publish env g w of
             (Inl e, w) \<Rightarrow> (Some e, attempted, w)
           | (Inr _, w) \<Rightarrow> (None, attempted, w)))"

text \<open>
  With a fence the identity is computed before entering, and the fence is left before publication;
  an exception raised on leaving replaces the one of the body.
\<close>

definition fenced_start ::
  "'w lifecycle_env \<Rightarrow> module_registry \<Rightarrow> string \<Rightarrow> generation \<Rightarrow> 'w \<Rightarrow> exn option \<times> bool \<times> 'w" where
  "fenced_start env r i g w =
     (case activation_identity r i of
        Inl e \<Rightarrow> (Some e, False, w)
      | Inr _ \<Rightarrow>
          (case env_fence_enter env i w of
             (Inl e, w) \<Rightarrow> (Some e, False, w)
           | (Inr _, w) \<Rightarrow>
               (case bind_register_start env r i g w of
                  (res, attempted, w) \<Rightarrow>
                    (case env_fence_exit env i w of
                       (Inl e, w) \<Rightarrow> (Some e, attempted, w)
                     | (Inr _, w) \<Rightarrow> (res, attempted, w)))))"

definition activate_body ::
  "'w lifecycle_env \<Rightarrow> module_registry \<Rightarrow> string \<Rightarrow> registered_module \<Rightarrow> generation \<Rightarrow> 'w \<Rightarrow>
   exn option \<times> bool \<times> 'w" where
  "activate_body env r i rm g w =
     (if env_manifest env i w \<noteq> rm_manifest rm
      then (Some (ConfigurationError ''Module manifest changed after artifact admission''), False, w)
      else
        (case seq_res (validate_active_dependencies r (rm_manifest rm))
                (validate_capabilities env (rm_manifest rm)) of
           Inl e \<Rightarrow> (Some e, False, w)
         | Inr _ \<Rightarrow>
             publish_after env g
               (if env_fence env then fenced_start env r i g w else bind_register_start env r i g w)))"

type_synonym 'w lifecycle = "module_registry \<times> 'w"

text \<open>
  \<open>started\<close> is set when \<open>start\<close> returns; in the handler it is cleared when \<open>stop\<close> returns and set
  when \<open>stop\<close> raises.
\<close>

definition rollback_activation ::
  "'w lifecycle_env \<Rightarrow> string \<Rightarrow> registered_module \<Rightarrow> generation \<Rightarrow> exn \<Rightarrow> bool \<Rightarrow> 'w \<Rightarrow>
   registered_module \<times> exn \<times> 'w" where
  "rollback_activation env i rm g e attempted w =
     (let (rm, errs, w) =
            (if attempted
             then (case env_stop env i w of
                     (Inr _, w) \<Rightarrow> (rm\<lparr>rm_started := False\<rparr>, [], w)
                   | (Inl e', w) \<Rightarrow> (rm\<lparr>rm_started := True\<rparr>, [e'], w))
             else (rm, [], w));
          (errs, w) =
            (case env_rollback env g w of
               (Inr _, w) \<Rightarrow> (errs, w)
             | (Inl e', w) \<Rightarrow> (errs @ [e'], w))
      in (rm\<lparr>rm_state := FAILED, rm_error := Some (exn_name e)\<rparr>,
          (if errs \<noteq> [] then ExceptionGroup (''Module activation and rollback failed: '' @ i) (e # errs) else e),
          w))"

definition enable_module :: "'w lifecycle_env \<Rightarrow> string \<Rightarrow> 'w lifecycle \<Rightarrow> 'w lifecycle \<times> exn option" where
  "enable_module env i s =
     (case s of (r, w) \<Rightarrow>
        (case get_module r i of
           Inl e \<Rightarrow> ((r, w), Some e)
         | Inr rm \<Rightarrow>
             if rm_state rm = ENABLED then ((r, w), None)
             else if rm_state rm = RETIRED
             then ((r, w), Some (ConfigurationError (''Retired module cannot be enabled: '' @ i)))
             else if rm_state rm \<notin> {INSTALLED, DISABLED} then ((r, w), None)
             else
               (case env_reserve env i w of
                  (Inl e, w) \<Rightarrow> ((r, w), Some e)
                | (Inr g, w) \<Rightarrow>
                    (case activate_body env r i rm g w of
                       (None, attempted, w) \<Rightarrow>
                         ((put_module i (rm\<lparr>rm_started := True, rm_registration := Some g, rm_error := None,
                             rm_state := ENABLED\<rparr>) r, w), None)
                     | (Some e, attempted, w) \<Rightarrow>
                         (case rollback_activation env i rm g e attempted w of
                            (rm', e', w) \<Rightarrow> ((put_module i rm' r, w), Some e'))))))"

section \<open>Deactivation and retirement\<close>

text \<open>Stopping the module and removing its contributions: both are attempted, errors are kept.\<close>

definition stop_and_remove ::
  "'w lifecycle_env \<Rightarrow> string \<Rightarrow> registered_module \<Rightarrow> 'w \<Rightarrow> registered_module \<times> exn list \<times> 'w" where
  "stop_and_remove env i rm w =
     (let (rm, errs, w) =
            (if rm_started rm
             then (case env_stop env i w of
                     (Inr _, w) \<Rightarrow> (rm\<lparr>rm_started := False\<rparr>, [], w)
                   | (Inl e, w) \<Rightarrow> (rm, [e], w))
             else (rm, [], w))
      in (case rm_registration rm of
            None \<Rightarrow> (rm, errs, w)
          | Some g \<Rightarrow>
              (case env_remove env g w of
                 (Inr _, w) \<Rightarrow> (rm\<lparr>rm_registration := None\<rparr>, errs, w)
               | (Inl e, w) \<Rightarrow> (rm, errs @ [e], w))))"

definition finish_disable ::
  "'w lifecycle_env \<Rightarrow> string \<Rightarrow> registered_module \<Rightarrow> module_registry \<Rightarrow> 'w \<Rightarrow> 'w lifecycle \<times> exn option" where
  "finish_disable env i rm r w =
     (case stop_and_remove env i rm w of
        (rm, errs, w) \<Rightarrow>
          if errs \<noteq> []
          then ((put_module i (rm\<lparr>rm_state := FAILED, rm_error := Some (join_with '','' (map exn_name errs))\<rparr>) r, w),
                Some (ExceptionGroup (''Module disable failed: '' @ i) errs))
          else ((put_module i (rm\<lparr>rm_state := DISABLED, rm_error := None\<rparr>) r, w), None))"

definition disable_module ::
  "'w lifecycle_env \<Rightarrow> bool \<Rightarrow> string \<Rightarrow> 'w lifecycle \<Rightarrow> 'w lifecycle \<times> exn option" where
  "disable_module env validate_dependents i s =
     (case s of (r, w) \<Rightarrow>
        (case get_module r i of
           Inl e \<Rightarrow> ((r, w), Some e)
         | Inr rm \<Rightarrow>
             if rm_state rm = RETIRED then ((r, w), None)
             else if rm_state rm = FAILED \<and> rm_registration rm = None \<and> \<not> rm_started rm then ((r, w), None)
             else if rm_state rm \<notin> {ENABLED, FAILED} then ((r, w), None)
             else
               (case (if validate_dependents then reject_enabled_dependents r i else Inr ()) of
                  Inl e \<Rightarrow> ((r, w), Some e)
                | Inr _ \<Rightarrow>
                    (case rm_registration rm of
                       None \<Rightarrow>
                         if rm_state rm = ENABLED
                         then ((r, w), Some (ConfigurationError (''Enabled module has no registration: '' @ i)))
                         else finish_disable env i rm r w
                     | Some g \<Rightarrow>
                         (case env_stop_accepting env g w of
                            (Inl e, w) \<Rightarrow>
                              ((put_module i (rm\<lparr>rm_state := FAILED, rm_error := Some (exn_name e)\<rparr>) r, w), Some e)
                          | (Inr _, w) \<Rightarrow> finish_disable env i rm r w)))))"

definition retire_module :: "'w lifecycle_env \<Rightarrow> string \<Rightarrow> 'w lifecycle \<Rightarrow> 'w lifecycle \<times> exn option" where
  "retire_module env i s =
     (case get_module (fst s) i of
        Inl e \<Rightarrow> (s, Some e)
      | Inr rm0 \<Rightarrow>
          (case reject_enabled_dependents (fst s) i of
             Inl e \<Rightarrow> (s, Some e)
           | Inr _ \<Rightarrow>
               (case (if rm_state rm0 = ENABLED \<or> rm_started rm0 \<or> rm_registration rm0 \<noteq> None
                      then disable_module env False i s else (s, None)) of
                  (s, Some e) \<Rightarrow> (s, Some e)
                | ((r, w), None) \<Rightarrow>
                    let rm = the (dict_get (modules r) i)
                    in if rm_state rm = RETIRED then ((r, w), None)
                       else if rm_state rm \<notin> {INSTALLED, DISABLED, FAILED}
                       then ((r, w), Some (ConfigurationError (''Module cannot retire from state ''
                              @ state_value (rm_state rm) @ '': '' @ i)))
                       else
                         (case (case rm_registration rm of
                                  None \<Rightarrow> (Inr (), w)
                                | Some g \<Rightarrow> env_rollback env g w) of
                            (Inl e, w) \<Rightarrow> ((r, w), Some e)
                          | (Inr _, w) \<Rightarrow>
                              let r1 = put_module i (rm\<lparr>rm_registration := None, rm_state := UNINSTALLING\<rparr>) r
                              in (case env_reserve env i w of
                                    (Inl e, w) \<Rightarrow> ((r1, w), Some e)
                                  | (Inr g, w) \<Rightarrow>
                                      (case env_rollback env g w of
                                         (Inl e, w) \<Rightarrow> ((r1, w), Some e)
                                       | (Inr _, w) \<Rightarrow>
                                           (case env_retire_owner env i w of
                                              (Inl e, w) \<Rightarrow> ((r1, w), Some e)
                                            | (Inr _, w) \<Rightarrow>
                                                ((put_module i (rm\<lparr>rm_registration := None, rm_state := RETIRED,
                                                    rm_error := None\<rparr>) r, w), None))))))))"

section \<open>Sequences\<close>

definition install_one :: "string \<Rightarrow> module_registry \<Rightarrow> module_registry" where
  "install_one i r =
     (let rm = the (dict_get (modules r) i)
      in if rm_state rm = AVAILABLE then put_module i (rm\<lparr>rm_state := INSTALLED\<rparr>) r else r)"

definition install_all :: "packaging \<Rightarrow> module_registry \<Rightarrow> exn + module_registry" where
  "install_all pk r =
     (case ordered_modules pk r of
        Inl e \<Rightarrow> Inl e
      | Inr rms \<Rightarrow> Inr (foldl (\<lambda>r rm. install_one (module_id (rm_manifest rm)) r) r rms))"

text \<open>The loop of \<open>_enable_all\<close>: it stops at the first exception and keeps what it enabled.\<close>

fun enable_loop ::
  "'w lifecycle_env \<Rightarrow> string list \<Rightarrow> string list \<Rightarrow> 'w lifecycle \<Rightarrow> 'w lifecycle \<times> string list \<times> exn option" where
  "enable_loop env enabled [] s = (s, enabled, None)"
| "enable_loop env enabled (i # ids) s =
     (let was_enabled = (rm_state (the (dict_get (modules (fst s)) i)) = ENABLED)
      in (case enable_module env i s of
            (s', Some e) \<Rightarrow> (s', enabled, Some e)
          | (s', None) \<Rightarrow>
              enable_loop env
                (if \<not> was_enabled \<and> rm_state (the (dict_get (modules (fst s')) i)) = ENABLED
                 then enabled @ [i] else enabled) ids s'))"

text \<open>Disabling a list of modules, collecting the exceptions.\<close>

fun disable_loop :: "'w lifecycle_env \<Rightarrow> string list \<Rightarrow> 'w lifecycle \<Rightarrow> 'w lifecycle \<times> exn list" where
  "disable_loop env [] s = (s, [])"
| "disable_loop env (i # ids) s =
     (case disable_module env False i s of
        (s, e) \<Rightarrow>
          (case disable_loop env ids s of
             (s, es) \<Rightarrow> (s, (case e of None \<Rightarrow> es | Some x \<Rightarrow> x # es))))"

definition enable_all :: "packaging \<Rightarrow> 'w lifecycle_env \<Rightarrow> 'w lifecycle \<Rightarrow> 'w lifecycle \<times> exn option" where
  "enable_all pk env s =
     (case ordered_modules pk (fst s) of
        Inl e \<Rightarrow> (s, Some e)
      | Inr rms \<Rightarrow>
          (case enable_loop env [] (map (\<lambda>rm. module_id (rm_manifest rm)) rms) s of
             (s, enabled, None) \<Rightarrow> (s, None)
           | (s, enabled, Some e) \<Rightarrow>
               (case disable_loop env (rev enabled) s of
                  (s, []) \<Rightarrow> (s, Some e)
                | (s, errs) \<Rightarrow>
                    (s, Some (ExceptionGroup ''Module activation sequence and rollback failed'' (e # errs))))))"

definition disable_all :: "packaging \<Rightarrow> 'w lifecycle_env \<Rightarrow> 'w lifecycle \<Rightarrow> 'w lifecycle \<times> exn option" where
  "disable_all pk env s =
     (case ordered_modules pk (fst s) of
        Inl e \<Rightarrow> (s, Some e)
      | Inr rms \<Rightarrow>
          (case disable_loop env (rev (map (\<lambda>rm. module_id (rm_manifest rm)) rms)) s of
             (s, []) \<Rightarrow> (s, None)
           | (s, errs) \<Rightarrow> (s, Some (ExceptionGroup ''Module disable failed'' errs))))"

section \<open>Effect of the operations on the registry\<close>

definition enabled :: "module_registry \<Rightarrow> string \<Rightarrow> bool" where
  "enabled r i \<longleftrightarrow> (\<exists>rm. dict_get (modules r) i = Some rm \<and> rm_state rm = ENABLED)"

lemma get_module_Inr: "get_module r i = Inr rm \<longleftrightarrow> dict_get (modules r) i = Some rm"
  by (auto simp: get_module_def split: option.split)

lemma enabled_put [simp]:
  "enabled (put_module i rm r) j \<longleftrightarrow> (if j = i then rm_state rm = ENABLED else enabled r j)"
  by (simp add: enabled_def)

lemma active_dependencies_Inr:
  "validate_active_dependencies r m = Inr () \<longleftrightarrow> (\<forall>d. depends_on m d \<longrightarrow> enabled r d)"
  by (auto simp: validate_active_dependencies_def depends_on_def list_ex_iff enabled_def get_module_def
      split: option.splits)

lemma activate_body_None:
  "activate_body env r i rm g w = (None, attempted, w') \<Longrightarrow> validate_active_dependencies r (rm_manifest rm) = Inr ()"
  by (auto simp: activate_body_def seq_res_Inl split: if_splits sum.splits)

lemma rollback_activation_state:
  "rollback_activation env i rm g e attempted w = (rm', e', w') \<Longrightarrow>
     rm_state rm' = FAILED \<and> rm_manifest rm' = rm_manifest rm"
  by (auto simp: rollback_activation_def Let_def split: prod.splits sum.splits if_splits)

text \<open>\<open>enable\<close> leaves the registry alone, or activates an idle module, or marks it failed.\<close>

lemma enable_module_cases:
  assumes "enable_module env i (r, w) = ((r', w'), e)"
  shows "(r' = r \<and> (e = None \<longrightarrow> (\<exists>rm. dict_get (modules r) i = Some rm \<and> rm_state rm \<notin> {INSTALLED, DISABLED}))) \<or>
    (\<exists>rm rm'. dict_get (modules r) i = Some rm \<and> rm_state rm \<in> {INSTALLED, DISABLED} \<and>
      r' = put_module i rm' r \<and> rm_manifest rm' = rm_manifest rm \<and>
      (e = None \<and> rm_state rm' = ENABLED \<and> rm_registration rm' \<noteq> None \<and>
         (\<forall>d. depends_on (rm_manifest rm) d \<longrightarrow> enabled r d) \<or>
       e \<noteq> None \<and> rm_state rm' = FAILED))"
proof (cases "get_module r i")
  case (Inl x)
  with assms show ?thesis by (auto simp: enable_module_def)
next
  case (Inr rm)
  then have rm: "dict_get (modules r) i = Some rm" by (simp add: get_module_Inr)
  show ?thesis
  proof (cases "rm_state rm \<in> {INSTALLED, DISABLED}")
    case False
    with assms Inr rm show ?thesis by (auto simp: enable_module_def split: if_splits)
  next
    case True
    obtain gr w1 where gr: "env_reserve env i w = (gr, w1)" by fastforce
    show ?thesis
    proof (cases gr)
      case (Inl x)
      with assms Inr True gr show ?thesis by (auto simp: enable_module_def)
    next
      case g: (Inr g)
      obtain x attempted w2 where body: "activate_body env r i rm g w1 = (x, attempted, w2)"
        by (metis prod_cases3)
      show ?thesis
      proof (cases x)
        case None
        with assms Inr True gr g body activate_body_None [of env r i rm g w1] rm show ?thesis
          by (auto simp: enable_module_def active_dependencies_Inr)
      next
        case (Some e0)
        obtain rm' e' w3 where rb: "rollback_activation env i rm g e0 attempted w2 = (rm', e', w3)"
          by (metis prod_cases3)
        with assms Inr True gr g body Some rollback_activation_state [OF rb] rm show ?thesis
          by (auto simp: enable_module_def)
      qed
    qed
  qed
qed

lemma stop_and_remove_frame:
  "stop_and_remove env i rm w = (rm', errs, w') \<Longrightarrow> rm_manifest rm' = rm_manifest rm"
  by (auto simp: stop_and_remove_def Let_def split: prod.splits sum.splits if_splits option.splits)

lemma finish_disable_cases:
  assumes "finish_disable env i rm r w = ((r', w'), e)"
  shows "\<exists>rm'. r' = put_module i rm' r \<and> rm_manifest rm' = rm_manifest rm \<and> rm_state rm' \<in> {FAILED, DISABLED}"
proof -
  obtain rm1 errs w1 where s: "stop_and_remove env i rm w = (rm1, errs, w1)" by (metis prod_cases3)
  let ?rm' = "if errs \<noteq> [] then rm1\<lparr>rm_state := FAILED, rm_error := Some (join_with '','' (map exn_name errs))\<rparr>
    else rm1\<lparr>rm_state := DISABLED, rm_error := None\<rparr>"
  have "r' = put_module i ?rm' r" using assms s by (auto simp: finish_disable_def)
  moreover have "rm_manifest ?rm' = rm_manifest rm" using stop_and_remove_frame [OF s] by simp
  ultimately show ?thesis by (intro exI [of _ ?rm']) simp
qed

text \<open>\<open>disable\<close> leaves the registry alone, or takes the module out of the enabled state.\<close>

lemma disable_module_cases:
  assumes "disable_module env v i (r, w) = ((r', w'), e)"
  shows "(r' = r \<and> (\<not> enabled r i \<or> (v \<and> reject_enabled_dependents r i \<noteq> Inr ()) \<or>
        (\<exists>rm. dict_get (modules r) i = Some rm \<and> rm_state rm = ENABLED \<and> rm_registration rm = None))) \<or>
    (\<exists>rm rm'. dict_get (modules r) i = Some rm \<and> r' = put_module i rm' r \<and> rm_manifest rm' = rm_manifest rm \<and>
      rm_state rm' \<in> {FAILED, DISABLED} \<and> (v \<longrightarrow> reject_enabled_dependents r i = Inr ()))"
proof (cases "get_module r i")
  case (Inl x)
  with assms show ?thesis by (auto simp: disable_module_def enabled_def get_module_def split: option.splits)
next
  case (Inr rm)
  then have rm: "dict_get (modules r) i = Some rm" by (simp add: get_module_Inr)
  show ?thesis
  proof (cases "rm_state rm \<in> {ENABLED, FAILED} \<and> \<not> (rm_state rm = FAILED \<and> rm_registration rm = None \<and> \<not> rm_started rm)
      \<and> (v \<longrightarrow> reject_enabled_dependents r i = Inr ())")
    case False
    with assms Inr rm show ?thesis
      by (auto simp: disable_module_def enabled_def split: if_splits sum.splits)
  next
    case True
    then have chk: "(if v then reject_enabled_dependents r i else Inr ()) = Inr ()" by simp
    show ?thesis
    proof (cases "rm_registration rm")
      case None
      with assms Inr rm True chk show ?thesis
        by (auto simp: disable_module_def dest!: finish_disable_cases split: if_splits)
    next
      case (Some g)
      obtain x w1 where sa: "env_stop_accepting env g w = (x, w1)" by fastforce
      show ?thesis
      proof (cases x)
        case (Inl e0)
        with assms Inr rm True chk Some sa show ?thesis by (auto simp: disable_module_def)
      next
        case ok: (Inr u)
        with assms Inr rm True chk Some sa show ?thesis
          by (auto simp: disable_module_def dest!: finish_disable_cases)
      qed
    qed
  qed
qed

section \<open>The dependency invariant\<close>

definition depends :: "module_registry \<Rightarrow> string \<Rightarrow> string \<Rightarrow> bool" where
  "depends r i d \<longleftrightarrow> (\<exists>rm. dict_get (modules r) i = Some rm \<and> depends_on (rm_manifest rm) d)"

text \<open>
  Enabled modules hold a registration, and everything an enabled module depends on is enabled.
\<close>

definition lifecycle_ok :: "packaging \<Rightarrow> module_registry \<Rightarrow> bool" where
  "lifecycle_ok pk r \<longleftrightarrow> registry_ok pk r \<and>
     (\<forall>i rm. dict_get (modules r) i = Some rm \<longrightarrow> rm_state rm = ENABLED \<longrightarrow> rm_registration rm \<noteq> None) \<and>
     (\<forall>i d. enabled r i \<longrightarrow> depends r i d \<longrightarrow> enabled r d)"

definition no_enabled_dependents :: "module_registry \<Rightarrow> string \<Rightarrow> bool" where
  "no_enabled_dependents r i \<longleftrightarrow> (\<forall>j. enabled r j \<longrightarrow> \<not> depends r j i)"

lemma reject_dependents_Inr:
  assumes "registry_ok pk r"
  shows "reject_enabled_dependents r i = Inr () \<longleftrightarrow> no_enabled_dependents r i"
proof -
  have "reject_enabled_dependents r i = Inr () \<longleftrightarrow>
      (\<forall>rm \<in> set (module_entries r). \<not> (rm_state rm = ENABLED \<and> depends_on (rm_manifest rm) i))"
    by (auto simp: reject_enabled_dependents_def Let_def filter_empty_conv)
  also have "\<dots> \<longleftrightarrow> no_enabled_dependents r i"
    unfolding module_entries_facts(2) [OF assms] no_enabled_dependents_def enabled_def depends_def by auto
  finally show ?thesis .
qed

lemma depends_put:
  "dict_get (modules r) i = Some rm \<Longrightarrow> rm_manifest rm' = rm_manifest rm \<Longrightarrow>
     depends (put_module i rm' r) = depends r"
  by (intro ext) (auto simp: depends_def)

lemma registry_ok_put:
  "registry_ok pk r \<Longrightarrow> dict_get (modules r) i = Some rm \<Longrightarrow> rm_manifest rm' = rm_manifest rm \<Longrightarrow>
     registry_ok pk (put_module i rm' r)"
  by (intro registry_okI) (auto simp: registry_ok_dict registry_ok_get split: if_splits)

lemma lifecycle_okD:
  assumes "lifecycle_ok pk r"
  shows "registry_ok pk r" "dict_get (modules r) i = Some rm \<Longrightarrow> rm_state rm = ENABLED \<Longrightarrow> rm_registration rm \<noteq> None"
    and "enabled r i \<Longrightarrow> depends r i d \<Longrightarrow> enabled r d"
  using assms by (auto simp: lifecycle_ok_def)

lemma lifecycle_ok_put:
  assumes ok: "lifecycle_ok pk r" and get: "dict_get (modules r) i = Some rm" "rm_manifest rm' = rm_manifest rm"
    and reg: "rm_state rm' = ENABLED \<Longrightarrow> rm_registration rm' \<noteq> None"
    and up: "rm_state rm' = ENABLED \<Longrightarrow> \<forall>d. depends_on (rm_manifest rm) d \<longrightarrow> enabled r d"
    and down: "rm_state rm' \<noteq> ENABLED \<Longrightarrow> no_enabled_dependents r i"
  shows "lifecycle_ok pk (put_module i rm' r)"
  unfolding lifecycle_ok_def
proof (intro conjI allI impI)
  show "registry_ok pk (put_module i rm' r)" by (rule registry_ok_put [OF lifecycle_okD(1) [OF ok] get])
  show "rm_registration m \<noteq> None" if "dict_get (modules (put_module i rm' r)) j = Some m" "rm_state m = ENABLED" for j m
    using that reg lifecycle_okD(2) [OF ok] by (auto split: if_splits)
  show "enabled (put_module i rm' r) d"
    if e: "enabled (put_module i rm' r) j" and d: "depends (put_module i rm' r) j d" for j d
  proof (cases "rm_state rm' = ENABLED")
    case True
    then show ?thesis
      using e d up get lifecycle_okD(3) [OF ok, of j d]
      by (auto simp: depends_put [OF get] depends_def split: if_splits)
  next
    case False
    with e have "j \<noteq> i" "enabled r j" by (auto split: if_splits)
    with d False down lifecycle_okD(3) [OF ok, of j d] show ?thesis
      by (auto simp: depends_put [OF get] no_enabled_dependents_def)
  qed
qed

lemma disable_ok:
  assumes ok: "lifecycle_ok pk r" and d: "disable_module env v i (r, w) = ((r', w'), e)"
    and dep: "v \<or> no_enabled_dependents r i"
  shows "lifecycle_ok pk r' \<and> (\<forall>j. j \<noteq> i \<longrightarrow> enabled r' j = enabled r j) \<and> depends r' = depends r \<and>
    (enabled r' i \<longrightarrow> v \<and> enabled r i)"
  using disable_module_cases [OF d]
proof (elim disjE exE conjE)
  assume "r' = r" "\<not> enabled r i"
  then show ?thesis using ok by simp
next
  assume "r' = r" v "reject_enabled_dependents r i \<noteq> Inr ()"
  then show ?thesis using ok by simp
next
  fix rm assume "dict_get (modules r) i = Some rm" "rm_state rm = ENABLED" "rm_registration rm = None"
  then show ?thesis using lifecycle_okD(2) [OF ok] by blast
next
  fix rm rm' assume rm: "dict_get (modules r) i = Some rm" and r': "r' = put_module i rm' r"
    and m: "rm_manifest rm' = rm_manifest rm" and st: "rm_state rm' \<in> {FAILED, DISABLED}"
    and v: "v \<longrightarrow> reject_enabled_dependents r i = Inr ()"
  have "no_enabled_dependents r i" using dep v reject_dependents_Inr [OF lifecycle_okD(1) [OF ok]] by blast
  then have "lifecycle_ok pk r'" unfolding r' using st by (intro lifecycle_ok_put [OF ok rm m]) auto
  with st show ?thesis by (auto simp: r' depends_put [OF rm m])
qed

lemma enable_ok:
  assumes ok: "lifecycle_ok pk r" and d: "enable_module env i (r, w) = ((r', w'), e)"
  shows "lifecycle_ok pk r' \<and> (\<forall>j. j \<noteq> i \<longrightarrow> enabled r' j = enabled r j) \<and> depends r' = depends r \<and>
    (enabled r i \<longrightarrow> enabled r' i) \<and> (e \<noteq> None \<longrightarrow> enabled r' i = enabled r i)"
  using enable_module_cases [OF d]
proof (elim disjE exE conjE)
  assume "r' = r"
  then show ?thesis using ok by simp
next
  fix rm rm' assume rm: "dict_get (modules r) i = Some rm" and r': "r' = put_module i rm' r"
    and m: "rm_manifest rm' = rm_manifest rm" and st: "rm_state rm \<in> {INSTALLED, DISABLED}"
    and st': "e = None" "rm_state rm' = ENABLED" "rm_registration rm' \<noteq> None"
    and deps: "\<forall>d. depends_on (rm_manifest rm) d \<longrightarrow> enabled r d"
  have "lifecycle_ok pk r'" unfolding r' using st' deps by (intro lifecycle_ok_put [OF ok rm m]) auto
  with st' show ?thesis by (auto simp: r' depends_put [OF rm m])
next
  fix rm rm' assume rm: "dict_get (modules r) i = Some rm" and r': "r' = put_module i rm' r"
    and m: "rm_manifest rm' = rm_manifest rm" and st: "rm_state rm \<in> {INSTALLED, DISABLED}"
    and st': "e \<noteq> None" "rm_state rm' = FAILED"
  have ni: "\<not> enabled r i" using rm st by (auto simp: enabled_def)
  then have "no_enabled_dependents r i" using lifecycle_okD(3) [OF ok] by (auto simp: no_enabled_dependents_def)
  then have "lifecycle_ok pk r'" unfolding r' using st' by (intro lifecycle_ok_put [OF ok rm m]) auto
  with st' ni show ?thesis by (auto simp: r' depends_put [OF rm m])
qed

text \<open>
  Disabling a list of modules in which everything that depends on a module comes before it.
\<close>

lemma disable_loop_ok:
  assumes "lifecycle_ok pk r" "disable_loop env ids (r, w) = ((r', w'), es)" "distinct ids"
    and "\<And>k j. k < length ids \<Longrightarrow> enabled r j \<Longrightarrow> depends r j (ids ! k) \<Longrightarrow> j \<in> set (take k ids)"
  shows "lifecycle_ok pk r' \<and> depends r' = depends r \<and> (\<forall>j. enabled r' j \<longleftrightarrow> enabled r j \<and> j \<notin> set ids)"
  using assms
proof (induction ids arbitrary: r w es)
  case (Cons i ids)
  obtain r1 w1 e where d: "disable_module env False i (r, w) = ((r1, w1), e)" by (metis prod.collapse)
  obtain es1 where l: "disable_loop env ids (r1, w1) = ((r', w'), es1)"
    using Cons.prems(2) d by (auto split: prod.splits)
  have "no_enabled_dependents r i"
    using Cons.prems(4) [of 0] by (auto simp: no_enabled_dependents_def)
  with disable_ok [OF Cons.prems(1) d] have r1: "lifecycle_ok pk r1" "depends r1 = depends r"
    "\<And>j. enabled r1 j \<longleftrightarrow> enabled r j \<and> j \<noteq> i" by auto
  have "j \<in> set (take k ids)" if "k < length ids" "enabled r1 j" "depends r1 j (ids ! k)" for k j
    using Cons.prems(4) [of "Suc k" j] that r1 by auto
  from Cons.IH [OF r1(1) l _ this] Cons.prems(3) r1 show ?case by auto
qed simp

text \<open>
  What the enabling loop has enabled so far: everything enabled that depends on an entry of the
  list comes after it in the list.
\<close>

definition staged :: "module_registry \<Rightarrow> string list \<Rightarrow> bool" where
  "staged r es \<longleftrightarrow> distinct es \<and> (\<forall>k j. k < length es \<longrightarrow> enabled r j \<longrightarrow> depends r j (es ! k) \<longrightarrow> j \<in> set (drop (Suc k) es))"

lemma enable_loop_ok:
  assumes "lifecycle_ok pk r" "enable_loop env es ids (r, w) = ((r', w'), es', e)"
    and "staged r es" "\<forall>j \<in> set es. enabled r j"
  shows "lifecycle_ok pk r' \<and> depends r' = depends r \<and> staged r' es' \<and>
    (\<forall>j. enabled r' j \<longleftrightarrow> enabled r j \<or> j \<in> set es') \<and> (\<exists>new. es' = es @ new \<and> (\<forall>j \<in> set new. \<not> enabled r j))"
  using assms
proof (induction ids arbitrary: r w es)
  case (Cons i ids)
  obtain r1 w1 e1 where d: "enable_module env i (r, w) = ((r1, w1), e1)" by (metis prod.collapse)
  note r1 = enable_ok [OF Cons.prems(1) d]
  show ?case
  proof (cases e1)
    case (Some x)
    with Cons.prems(2) d have "r' = r1" "es' = es" by (auto simp: Let_def)
    moreover have "enabled r1 = enabled r" using r1 Some by (intro ext) (metis option.distinct(1))
    ultimately show ?thesis using r1 Cons.prems(3,4) by (auto simp: staged_def)
  next
    case None
    define was where "was = (rm_state (the (dict_get (modules r) i)) = ENABLED)"
    define es1 where "es1 = (if \<not> was \<and> rm_state (the (dict_get (modules r1) i)) = ENABLED then es @ [i] else es)"
    have l: "enable_loop env es1 ids (r1, w1) = ((r', w'), es', e)"
      using Cons.prems(2) d None by (simp add: Let_def was_def es1_def)
    obtain rm where rm: "dict_get (modules r) i = Some rm"
      using enable_module_cases [OF d] None by auto
    then obtain rm1 where rm1: "dict_get (modules r1) i = Some rm1"
      using enable_module_cases [OF d] by auto
    have was: "was \<longleftrightarrow> enabled r i" "rm_state (the (dict_get (modules r1) i)) = ENABLED \<longleftrightarrow> enabled r1 i"
      using rm rm1 by (auto simp: was_def enabled_def)
    have es1: "es1 = (if \<not> enabled r i \<and> enabled r1 i then es @ [i] else es)" by (simp add: es1_def was)
    have en: "enabled r1 j \<longleftrightarrow> enabled r j \<or> (j = i \<and> enabled r1 i)" for j
      using r1 by (cases "j = i") auto
    have nodep: "\<not> depends r j i" if "\<not> enabled r i" "enabled r j" for j
      using lifecycle_okD(3) [OF Cons.prems(1) that(2)] that(1) by blast
    have self: "\<not> depends r i i" if "\<not> enabled r i" "enabled r1 i"
    proof
      assume "depends r i i"
      with that enable_module_cases [OF d] None show False by (auto simp: enabled_def depends_def)
    qed
    have st: "staged r1 es1"
    proof (cases "\<not> enabled r i \<and> enabled r1 i")
      case True
      have "i \<notin> set es" using True Cons.prems(4) by blast
      have "j \<in> set (drop (Suc k) (es @ [i]))"
        if k: "k < length (es @ [i])" and j: "enabled r1 j" "depends r1 j ((es @ [i]) ! k)" for k j
      proof (cases "k < length es")
        case k': True
        show ?thesis
        proof (cases "j = i")
          case ji: True
          then show ?thesis using k' by simp
        next
          case False
          then have "enabled r j" using j(1) en by blast
          with k' j(2) r1 Cons.prems(3) have "j \<in> set (drop (Suc k) es)" by (simp add: staged_def nth_append)
          then show ?thesis using k' by simp
        qed
      next
        case False
        then have "(es @ [i]) ! k = i" using k by (simp add: nth_append)
        moreover have "depends r1 = depends r" using r1 by blast
        ultimately have "depends r j i" using j(2) by simp
        moreover have "j \<noteq> i" using self True \<open>depends r j i\<close> by blast
        ultimately have False using nodep [of j] True en [of j] j(1) by blast
        then show ?thesis ..
      qed
      moreover have "distinct (es @ [i])" using \<open>i \<notin> set es\<close> Cons.prems(3) by (simp add: staged_def)
      moreover have "es1 = es @ [i]" using True es1 by simp
      ultimately show ?thesis unfolding staged_def by blast
    next
      case False
      with en have "enabled r1 = enabled r" by blast
      moreover have "depends r1 = depends r" using r1 by blast
      moreover have "es1 = es" using False es1 by auto
      ultimately show ?thesis using Cons.prems(3) by (simp add: staged_def)
    qed
    have "\<forall>j \<in> set es1. enabled r1 j" using Cons.prems(4) en [THEN iffD2] unfolding es1 by (auto split: if_splits)
    note ih = Cons.IH [OF conjunct1 [OF r1] l st this]
    then obtain new where new: "es' = es1 @ new" "\<forall>j \<in> set new. \<not> enabled r1 j" by blast
    have old: "\<forall>j \<in> set new. \<not> enabled r j" using new(2) en by blast
    have "\<exists>new. es' = es @ new \<and> (\<forall>j \<in> set new. \<not> enabled r j)"
    proof (cases "\<not> enabled r i \<and> enabled r1 i")
      case True
      then show ?thesis using new(1) old by (intro exI [of _ "i # new"]) (simp add: es1)
    next
      case False
      then have "es1 = es" using es1 by auto
      then show ?thesis using new(1) old by blast
    qed
    moreover have "enabled r' j \<longleftrightarrow> enabled r j \<or> j \<in> set es'" for j
    proof -
      have "enabled r' j \<longleftrightarrow> enabled r1 j \<or> j \<in> set es'" using ih by blast
      moreover have "enabled r1 j \<longleftrightarrow> enabled r j \<or> (\<not> enabled r i \<and> enabled r1 i \<and> j = i)"
        using en [of j] by blast
      moreover have "i \<in> set es'" if "\<not> enabled r i" "enabled r1 i" using that new(1) by (simp add: es1)
      ultimately show ?thesis by blast
    qed
    ultimately show ?thesis using ih r1 by simp
  qed
qed auto

lemma ordered_modules_topological:
  assumes ok: "registry_ok pk r" and o: "ordered_modules pk r = Inr rms"
  defines "ids \<equiv> map (\<lambda>rm. module_id (rm_manifest rm)) rms"
  shows "distinct ids \<and> set ids = set (map fst (modules r)) \<and>
    (\<forall>k j. k < length ids \<longrightarrow> depends r j (ids ! k) \<longrightarrow> j \<in> set (drop (Suc k) ids))"
proof -
  obtain ms where ms: "ordered_manifests pk (manifests_of r) = Inr ms"
    "rms = map (\<lambda>m. the (dict_get (modules r) (module_id m))) ms"
    using o by (auto simp: ordered_modules_def split: sum.splits)
  have keys: "map fst (manifests_of r) = map fst (modules r)" by (simp add: manifests_of_def case_prod_beta comp_def)
  have get: "dict_get (manifests_of r) i = map_option rm_manifest (dict_get (modules r) i)" for i
    by (simp add: manifests_of_def map_of_map)
  obtain xs where xs: "ms = map (\<lambda>i. the (dict_get (manifests_of r) i)) xs" "distinct xs"
    "set xs = set (map fst (modules r))" "\<forall>j < length xs. deps_of (manifests_of r) (xs ! j) \<subseteq> set (take j xs)"
    using ordered_manifests_sound [OF _ ms(1)] registry_ok_dict [OF ok] keys by auto
  have key: "module_id (the (dict_get (manifests_of r) i)) = i \<and>
      module_id (rm_manifest (the (dict_get (modules r) i))) = i" if i: "i \<in> set xs" for i
  proof -
    have "i \<in> fst ` set (modules r)" using i xs(3) by simp
    then obtain rm where "dict_get (modules r) i = Some rm" unfolding dict_keys_iff by blast
    with registry_ok_get [OF ok] show ?thesis by (simp add: get)
  qed
  have ids: "ids = xs"
    unfolding ids_def ms(2) xs(1) map_map comp_def by (intro map_idI) (simp add: key)
  have "j \<in> set (drop (Suc k) xs)" if k: "k < length xs" and d: "depends r j (xs ! k)" for k j
  proof -
    obtain rm where rm: "dict_get (modules r) j = Some rm" "depends_on (rm_manifest rm) (xs ! k)"
      using d by (auto simp: depends_def)
    then have "j \<in> fst ` set (modules r)" unfolding dict_keys_iff by blast
    then have "j \<in> set xs" using xs(3) by simp
    then obtain m where m: "m < length xs" "j = xs ! m" by (auto simp: in_set_conv_nth)
    have "xs ! k \<in> deps_of (manifests_of r) j"
      using rm by (force simp: deps_of_def get depends_on_def list_ex_iff)
    then have "xs ! k \<in> set (take m xs)" using xs(4) m by blast
    then obtain l where "l < m" "xs ! l = xs ! k" using m by (auto simp: in_set_conv_nth)
    with k m xs(2) have "k < m" by (metis nth_eq_iff_index_eq order.strict_trans)
    then have "drop (Suc k) xs ! (m - Suc k) = j" "m - Suc k < length (drop (Suc k) xs)" using m by auto
    then show ?thesis by (metis nth_mem)
  qed
  with xs ids show ?thesis by simp
qed

lemma rev_before:
  assumes "\<And>k j. k < length xs \<Longrightarrow> P j \<Longrightarrow> Q j (xs ! k) \<Longrightarrow> j \<in> set (drop (Suc k) xs)"
    and "k < length (rev xs)" "P j" "Q j (rev xs ! k)"
  shows "j \<in> set (take k (rev xs))"
proof -
  have "rev xs ! k = xs ! (length xs - Suc k)" "length xs - Suc k < length xs"
    using assms(2) by (auto simp: rev_nth)
  with assms(1) [of "length xs - Suc k" j] assms(3,4) have "j \<in> set (drop (Suc (length xs - Suc k)) xs)" by simp
  moreover have "Suc (length xs - Suc k) = length xs - k" using assms(2) by simp
  ultimately show ?thesis by (simp add: take_rev)
qed

lemma enable_all_ok:
  assumes ok: "lifecycle_ok pk r" and e: "enable_all pk env (r, w) = ((r', w'), e)"
  shows "lifecycle_ok pk r' \<and> depends r' = depends r \<and> (\<forall>j. enabled r j \<longrightarrow> enabled r' j) \<and>
    (e \<noteq> None \<longrightarrow> (\<forall>j. enabled r' j = enabled r j))"
proof (cases "ordered_modules pk r")
  case (Inl x)
  with e ok show ?thesis by (auto simp: enable_all_def)
next
  case (Inr rms)
  obtain r1 w1 es x where l: "enable_loop env [] (map (\<lambda>rm. module_id (rm_manifest rm)) rms) (r, w) = ((r1, w1), es, x)"
    by (metis prod.collapse)
  have "staged r []" by (simp add: staged_def)
  note lo = enable_loop_ok [OF ok l this]
  then have lo: "lifecycle_ok pk r1" "depends r1 = depends r" "staged r1 es"
      "\<And>j. enabled r1 j \<longleftrightarrow> enabled r j \<or> j \<in> set es" "\<forall>j \<in> set es. \<not> enabled r j" by auto
  show ?thesis
  proof (cases x)
    case None
    with e Inr l lo show ?thesis by (auto simp: enable_all_def)
  next
    case (Some y)
    obtain r2 w2 errs where d: "disable_loop env (rev es) (r1, w1) = ((r2, w2), errs)" by (metis prod.collapse)
    have "r' = r2" "e \<noteq> None" using e Inr l Some d by (auto simp: enable_all_def split: list.splits)
    have st: "\<And>k j. k < length es \<Longrightarrow> enabled r1 j \<Longrightarrow> depends r1 j (es ! k) \<Longrightarrow> j \<in> set (drop (Suc k) es)"
      using lo(3) unfolding staged_def by blast
    have "distinct (rev es)" using lo(3) by (simp add: staged_def)
    from disable_loop_ok [OF lo(1) d this rev_before [where P = "enabled r1" and Q = "depends r1", OF st]]
    have "lifecycle_ok pk r2" "depends r2 = depends r1" "\<And>j. enabled r2 j \<longleftrightarrow> enabled r1 j \<and> j \<notin> set es" by auto
    with lo \<open>r' = r2\<close> show ?thesis by auto
  qed
qed

lemma disable_all_ok:
  assumes ok: "lifecycle_ok pk r" and e: "disable_all pk env (r, w) = ((r', w'), e)"
  shows "lifecycle_ok pk r' \<and> depends r' = depends r \<and>
    ((\<exists>rms. ordered_modules pk r = Inr rms) \<longrightarrow> (\<forall>j. \<not> enabled r' j))"
proof (cases "ordered_modules pk r")
  case (Inl x)
  with e ok show ?thesis by (auto simp: disable_all_def)
next
  case (Inr rms)
  let ?ids = "map (\<lambda>rm. module_id (rm_manifest rm)) rms"
  note top = ordered_modules_topological [OF lifecycle_okD(1) [OF ok] Inr]
  obtain r2 w2 errs where d: "disable_loop env (rev ?ids) (r, w) = ((r2, w2), errs)" by (metis prod.collapse)
  have r': "r' = r2" using e Inr d by (auto simp: disable_all_def split: list.splits)
  have st: "\<And>k j. k < length ?ids \<Longrightarrow> enabled r j \<Longrightarrow> depends r j (?ids ! k) \<Longrightarrow> j \<in> set (drop (Suc k) ?ids)"
    using top by blast
  have "distinct (rev ?ids)" using top by simp
  from disable_loop_ok [OF ok d this rev_before [where P = "enabled r" and Q = "depends r", OF st]]
  have r2: "lifecycle_ok pk r2" "depends r2 = depends r" "\<And>j. enabled r2 j \<longleftrightarrow> enabled r j \<and> j \<notin> set ?ids" by auto
  have "j \<in> set ?ids" if "enabled r j" for j
  proof -
    have "j \<in> set (map fst (modules r))" using that unfolding enabled_def set_map dict_keys_iff by blast
    then show ?thesis using top by blast
  qed
  with r2 r' show ?thesis by blast
qed

lemma lifecycle_ok_inactive:
  assumes ok: "lifecycle_ok pk r" and n: "\<not> enabled r i" and ok': "registry_ok pk r'"
    and get: "\<And>j. dict_get (modules r') j = (if j = i then Some rm' else dict_get (modules r) j)"
    and st: "rm_state rm' \<noteq> ENABLED"
  shows "lifecycle_ok pk r'"
proof -
  have en: "enabled r' j \<longleftrightarrow> j \<noteq> i \<and> enabled r j" for j using n st by (simp add: enabled_def get)
  have dep: "depends r' j d \<longleftrightarrow> depends r j d" if "j \<noteq> i" for j d using that by (simp add: depends_def get)
  show ?thesis
    unfolding lifecycle_ok_def
  proof (intro conjI allI impI)
    show "rm_registration rm \<noteq> None" if "dict_get (modules r') j = Some rm" "rm_state rm = ENABLED" for j rm
      using that st lifecycle_okD(2) [OF ok] by (auto simp: get split: if_splits)
    show "enabled r' d" if "enabled r' j" "depends r' j d" for j d
    proof -
      have "enabled r j" "j \<noteq> i" using that(1) en by auto
      with that(2) dep have "depends r j d" by blast
      with \<open>enabled r j\<close> have "enabled r d" by (rule lifecycle_okD(3) [OF ok])
      with n have "d \<noteq> i" by blast
      with \<open>enabled r d\<close> en show ?thesis by blast
    qed
  qed (rule ok')
qed

lemma install_one_ok: "lifecycle_ok pk r \<Longrightarrow> i \<in> set (map fst (modules r)) \<Longrightarrow> lifecycle_ok pk (install_one i r)"
proof -
  assume ok: "lifecycle_ok pk r" and "i \<in> set (map fst (modules r))"
  then obtain rm where rm: "dict_get (modules r) i = Some rm" unfolding set_map dict_keys_iff by blast
  show "lifecycle_ok pk (install_one i r)"
  proof (cases "rm_state rm = AVAILABLE")
    case True
    let ?rm = "rm\<lparr>rm_state := INSTALLED\<rparr>"
    have "\<not> enabled r i" using rm True by (auto simp: enabled_def)
    then have "lifecycle_ok pk (put_module i ?rm r)"
      by (rule lifecycle_ok_inactive [OF ok _ registry_ok_put [OF lifecycle_okD(1) [OF ok] rm], where rm' = ?rm]) auto
    with rm True show ?thesis by (simp add: install_one_def Let_def)
  qed (simp add: install_one_def rm ok)
qed

lemma foldl_install_ok:
  "lifecycle_ok pk r \<Longrightarrow> \<forall>i \<in> set ids. i \<in> set (map fst (modules r)) \<Longrightarrow>
     lifecycle_ok pk (foldl (\<lambda>r i. install_one i r) r ids)"
proof (induction ids arbitrary: r)
  case (Cons i ids)
  have "set (map fst (modules r)) \<subseteq> set (map fst (modules (install_one i r)))"
    by (auto simp: install_one_def Let_def put_module_def dom_update)
  then have "\<forall>i \<in> set ids. i \<in> set (map fst (modules (install_one i' r)))" if "i' = i" for i'
    using Cons.prems(2) that by auto
  moreover have "lifecycle_ok pk (install_one i r)" using Cons.prems by (intro install_one_ok) auto
  ultimately show ?case using Cons.IH by simp
qed simp

lemma install_all_ok:
  assumes ok: "lifecycle_ok pk r" and i: "install_all pk r = Inr r'"
  shows "lifecycle_ok pk r'"
proof -
  obtain rms where rms: "ordered_modules pk r = Inr rms"
    "r' = foldl (\<lambda>r rm. install_one (module_id (rm_manifest rm)) r) r rms"
    using i by (auto simp: install_all_def split: sum.splits)
  have "r' = foldl (\<lambda>r i. install_one i r) r (map (\<lambda>rm. module_id (rm_manifest rm)) rms)"
    by (simp add: rms(2) foldl_map)
  moreover have "\<forall>i \<in> set (map (\<lambda>rm. module_id (rm_manifest rm)) rms). i \<in> set (map fst (modules r))"
    using ordered_modules_topological [OF lifecycle_okD(1) [OF ok] rms(1)] by blast
  ultimately show ?thesis using foldl_install_ok [OF ok] by simp
qed

lemma retire_ok:
  assumes ok: "lifecycle_ok pk r" and e: "retire_module env i (r, w) = ((r', w'), e)"
  shows "lifecycle_ok pk r'"
proof (cases "get_module r i = Inr (the (dict_get (modules r) i)) \<and> reject_enabled_dependents r i = Inr ()")
  case False
  with e have "r' = r"
    by (cases "get_module r i"; cases "reject_enabled_dependents r i")
      (auto simp: retire_module_def get_module_Inr)
  with ok show ?thesis by simp
next
  case True
  let ?rm0 = "the (dict_get (modules r) i)"
  obtain r1 w1 x where d: "(if rm_state ?rm0 = ENABLED \<or> rm_started ?rm0 \<or> rm_registration ?rm0 \<noteq> None
      then disable_module env False i (r, w) else ((r, w), None)) = ((r1, w1), x)" by (metis prod.collapse)
  have nd: "no_enabled_dependents r i" using True reject_dependents_Inr [OF lifecycle_okD(1) [OF ok]] by simp
  have r0: "dict_get (modules r) i = Some ?rm0" using True by (simp add: get_module_Inr)
  have r1: "lifecycle_ok pk r1 \<and> \<not> enabled r1 i \<and> (\<exists>rm. dict_get (modules r1) i = Some rm)"
  proof (cases "rm_state ?rm0 = ENABLED \<or> rm_started ?rm0 \<or> rm_registration ?rm0 \<noteq> None")
    case True
    then have dm: "disable_module env False i (r, w) = ((r1, w1), x)" using d by simp
    from disable_ok [OF ok dm] nd disable_module_cases [OF dm] r0 show ?thesis by auto
  next
    case False
    with d ok r0 show ?thesis by (auto simp: enabled_def)
  qed
  then obtain rm where rm: "dict_get (modules r1) i = Some rm" and r1ok: "lifecycle_ok pk r1"
    and r1n: "\<not> enabled r1 i" by blast
  have put: "lifecycle_ok pk (put_module i rm' r1)"
    if "rm_manifest rm' = rm_manifest rm" "rm_state rm' \<noteq> ENABLED" for rm'
    by (rule lifecycle_ok_inactive [OF r1ok r1n registry_ok_put [OF lifecycle_okD(1) [OF r1ok] rm that(1)]])
      (use that in auto)
  have "r' = r1 \<or> (\<exists>rm'. r' = put_module i rm' r1 \<and> rm_manifest rm' = rm_manifest rm \<and> rm_state rm' \<noteq> ENABLED)"
  proof (cases "x = None \<and> rm_state rm \<in> {INSTALLED, DISABLED, FAILED}")
    case False
    with e True d rm show ?thesis by (auto simp: retire_module_def Let_def split: option.splits if_splits)
  next
    case st: True
    let ?u = "rm\<lparr>rm_registration := None, rm_state := UNINSTALLING\<rparr>"
    let ?t = "rm\<lparr>rm_registration := None, rm_state := RETIRED, rm_error := None\<rparr>"
    have "r' \<in> {r1, put_module i ?u r1, put_module i ?t r1}"
      using e True d rm st by (auto simp: retire_module_def Let_def split: option.splits if_splits prod.splits sum.splits)
    moreover have "rm_manifest ?u = rm_manifest rm \<and> rm_state ?u \<noteq> ENABLED"
      "rm_manifest ?t = rm_manifest rm \<and> rm_state ?t \<noteq> ENABLED" by simp_all
    ultimately show ?thesis by blast
  qed
  with put r1 show ?thesis by auto
qed

section \<open>Histories\<close>

text \<open>
  The operations of the registry and the manager, in any order, whether they succeed or raise.
\<close>

inductive lifecycle_step :: "packaging \<Rightarrow> 'w lifecycle_env \<Rightarrow> 'w lifecycle \<Rightarrow> 'w lifecycle \<Rightarrow> bool"
  for pk env where
  step_add: "add_module pk r mo m = Inr r' \<Longrightarrow> lifecycle_step pk env (r, w) (r', w)"
| step_replace: "replace_module pk r mo m a = Inr r' \<Longrightarrow> lifecycle_step pk env (r, w) (r', w)"
| step_install: "install_all pk r = Inr r' \<Longrightarrow> lifecycle_step pk env (r, w) (r', w)"
| step_enable: "enable_module env i s = (t, e) \<Longrightarrow> lifecycle_step pk env s t"
| step_enable_all: "enable_all pk env s = (t, e) \<Longrightarrow> lifecycle_step pk env s t"
| step_disable: "disable_module env True i s = (t, e) \<Longrightarrow> lifecycle_step pk env s t"
| step_disable_all: "disable_all pk env s = (t, e) \<Longrightarrow> lifecycle_step pk env s t"
| step_retire: "retire_module env i s = (t, e) \<Longrightarrow> lifecycle_step pk env s t"

lemma lifecycle_step_ok: "lifecycle_step pk env s t \<Longrightarrow> lifecycle_ok pk (fst s) \<Longrightarrow> lifecycle_ok pk (fst t)"
proof (induction rule: lifecycle_step.induct)
  case (step_add r mo m r' w)
  then have ok: "lifecycle_ok pk r" by simp
  have "\<not> enabled r (module_id m)" using add_module_Inr(2) [OF step_add(1)] by (simp add: enabled_def)
  then show ?case
    using lifecycle_ok_inactive [OF ok _ registry_ok_add [OF lifecycle_okD(1) [OF ok] step_add(1)],
        where rm' = "new_registered mo m AVAILABLE"] add_module_Inr(4) [OF step_add(1)]
    by (simp add: dict_get_set)
next
  case (step_replace r mo m a r' w)
  then have ok: "lifecycle_ok pk r" by simp
  have "\<not> enabled r (module_id m)" using replace_module_Inr(5) [OF step_replace(1)] by (auto simp: enabled_def)
  then show ?case
    using lifecycle_ok_inactive [OF ok _ registry_ok_replace [OF lifecycle_okD(1) [OF ok] step_replace(1)],
        where rm' = "new_registered mo m INSTALLED"] replace_module_Inr(6) [OF step_replace(1)]
    by (simp add: dict_get_set)
next
  case (step_install r r' w)
  then show ?case using install_all_ok by simp
next
  case (step_enable i s t e)
  then show ?case using enable_ok [of pk "fst s" env i "snd s" "fst t" "snd t" e] by simp
next
  case (step_enable_all s t e)
  then show ?case using enable_all_ok [of pk "fst s" env "snd s" "fst t" "snd t" e] by simp
next
  case (step_disable i s t e)
  then show ?case using disable_ok [of pk "fst s" env True i "snd s" "fst t" "snd t" e] by simp
next
  case (step_disable_all s t e)
  then show ?case using disable_all_ok [of pk "fst s" env "snd s" "fst t" "snd t" e] by simp
next
  case (step_retire i s t e)
  then show ?case using retire_ok [of pk "fst s" env i "snd s" "fst t" "snd t" e] by simp
qed

lemma lifecycle_new_ok: "lifecycle_ok pk (new_module_registry plat s py arts coords)"
  by (auto simp: lifecycle_ok_def new_module_registry_def enabled_def registry_ok_def)

lemma lifecycle_reachable_ok:
  "(lifecycle_step pk env)\<^sup>*\<^sup>* s t \<Longrightarrow> lifecycle_ok pk (fst s) \<Longrightarrow> lifecycle_ok pk (fst t)"
  by (induction rule: rtranclp_induct) (auto intro: lifecycle_step_ok)

section \<open>What the lifecycle guarantees\<close>

text \<open>
  C7: Whatever sequence of admissions, replacements, installations, activations, deactivations and
  retirements is run, and whichever callbacks fail on the way, every module a running module
  depends on is running, and a running module holds its registration.
\<close>

theorem enabled_dependencies_closed:
  assumes "(lifecycle_step pk env)\<^sup>*\<^sup>* (new_module_registry plat sdkv py arts coords, w) (r, w')"
    and "dict_get (modules r) i = Some rm" and "rm_state rm = ENABLED"
  shows "rm_registration rm \<noteq> None \<and>
    list_all (\<lambda>d. \<exists>target. dict_get (modules r) (dep_module_id d) = Some target \<and> rm_state target = ENABLED)
      (dependencies (rm_manifest rm))"
proof -
  have ok: "lifecycle_ok pk r"
    using lifecycle_reachable_ok [OF assms(1)] lifecycle_new_ok by simp
  have "enabled r (dep_module_id d)" if "d \<in> set (dependencies (rm_manifest rm))" for d
  proof (rule lifecycle_okD(3) [OF ok, of i])
    show "enabled r i" using assms(2,3) by (simp add: enabled_def)
    show "depends r i (dep_module_id d)" using assms(2) that by (auto simp: depends_def depends_on_def list_ex_iff)
  qed
  then show ?thesis
    using lifecycle_okD(2) [OF ok assms(2,3)] by (simp add: list_all_iff enabled_def)
qed

text \<open>
  Activating all modules is all or nothing: if it raises, exactly the modules that were
  running before are running; if it returns, none of them was stopped.
\<close>

theorem enable_all_atomic:
  assumes "lifecycle_ok pk r" and "enable_all pk env (r, w) = ((r', w'), e)"
  shows "if e = None then \<forall>i. enabled r i \<longrightarrow> enabled r' i else \<forall>i. enabled r' i = enabled r i"
  using enable_all_ok [OF assms] by simp

text \<open>
  C18: Shutting down always completes: unless the order of the modules cannot be established at
  all, no module is left running by \<open>disable_all\<close>, even if every callback fails.
\<close>

theorem disable_all_stops_everything:
  assumes "lifecycle_ok pk r" and "ordered_modules pk r = Inr rms"
    and "disable_all pk env (r, w) = ((r', w'), e)"
  shows "\<not> enabled r' i \<and> lifecycle_ok pk r'"
  using disable_all_ok [OF assms(1,3)] assms(2) by blast

text \<open>A world in which every callback succeeds, counting the generations.\<close>

definition demo_env :: "nat lifecycle_env" where
  "demo_env = \<lparr>env_manifest = (\<lambda>i w. demo_manifest ''bb'' []), env_capability = None,
     env_reserve = (\<lambda>i w. (Inr \<lparr>gen_owner = i, gen_number = int w + 1\<rparr>, w + 1)),
     env_bind = (\<lambda>g w. (Inr (), w)), env_register = (\<lambda>i g w. (Inr (), w)),
     env_start = (\<lambda>i w. (Inr (), w)), env_stop = (\<lambda>i w. (Inr (), w)),
     env_publish = (\<lambda>g w. (Inr (), w)), env_rollback = (\<lambda>g w. (Inr (), w)),
     env_stop_accepting = (\<lambda>g w. (Inr (), w)), env_remove = (\<lambda>g w. (Inl (ForeignError ''x''), w)),
     env_retire_owner = (\<lambda>i w. (Inr (), w)), env_fence = False,
     env_fence_enter = (\<lambda>i w. (Inr (), w)), env_fence_exit = (\<lambda>i w. (Inr (), w))\<rparr>"

definition demo_enabled :: module_registry where
  "demo_enabled = demo_registry\<lparr>modules := [(''bb'', (new_registered demo_module (demo_manifest ''bb'' []) ENABLED)
     \<lparr>rm_registration := Some \<lparr>gen_owner = ''bb'', gen_number = 1\<rparr>, rm_started := True\<rparr>)]\<rparr>"

lemma demo_ordered: "ordered_modules demo_packaging demo_registry =
    Inr [new_registered demo_module (demo_manifest ''bb'' []) INSTALLED]"
  by (simp add: ordered_modules_def manifests_of_def demo_registry_def validate_resource_claims_def
      ordered_manifests_def order_loop.simps ready_pass_def validate_dependencies_def deps_in_def
      demo_manifest_def sorted_set_def)

lemma demo_enable: "enable_module demo_env ''bb'' (demo_registry, 0) = ((demo_enabled, 1), None)"
  by (simp add: enable_module_def get_module_def demo_registry_def new_registered_def demo_env_def
      activate_body_def validate_active_dependencies_def validate_capabilities_def seq_res_def
      bind_register_start_def activation_identity_def publish_after_def put_module_def demo_enabled_def
      demo_manifest_def)

lemma demo_lifecycle_ok: "lifecycle_ok demo_packaging demo_registry"
  using demo_manifest_valid [of "''bb''"]
  by (auto simp: lifecycle_ok_def registry_ok_def enabled_def demo_registry_def new_registered_def demo_manifest_def
      split: if_splits)

lemma demo_enabled_ok: "lifecycle_ok demo_packaging demo_enabled"
  using enable_ok [OF demo_lifecycle_ok demo_enable] by simp

theorem enable_all_atomic_witness:
  "\<exists>r'. enable_all demo_packaging demo_env (demo_registry, 0) = ((r', 1), None) \<and> enabled r' ''bb''"
proof -
  have e: "enable_all demo_packaging demo_env (demo_registry, 0) = ((demo_enabled, 1), None)"
    using demo_enable by (simp add: enable_all_def demo_ordered Let_def) (simp add: new_registered_def demo_manifest_def)
  from enable_all_atomic [OF demo_lifecycle_ok e] e show ?thesis
    by (simp add: enabled_def demo_enabled_def)
qed

theorem disable_all_stops_everything_witness:
  "enabled demo_enabled ''bb'' \<and> \<not> enabled (fst (fst (disable_all demo_packaging demo_env (demo_enabled, 1)))) ''bb''"
proof -
  have o: "ordered_modules demo_packaging demo_enabled = Inr (map snd (modules demo_enabled))"
    by (simp add: ordered_modules_def manifests_of_def demo_registry_def demo_enabled_def validate_resource_claims_def
        ordered_manifests_def order_loop.simps ready_pass_def validate_dependencies_def deps_in_def
        demo_manifest_def sorted_set_def new_registered_def)
  obtain r' w' e where d: "disable_all demo_packaging demo_env (demo_enabled, 1) = ((r', w'), e)"
    by (metis prod.collapse)
  moreover have "enabled demo_enabled ''bb''" by (simp add: enabled_def demo_enabled_def)
  ultimately show ?thesis using disable_all_stops_everything [OF demo_enabled_ok o d] by simp
qed

theorem enabled_dependencies_closed_witness:
  "\<exists>r w rm. (lifecycle_step demo_packaging demo_env)\<^sup>*\<^sup>* (new_module_registry ''1'' ''1'' ''1'' [] {}, 0) (r, w) \<and>
     dict_get (modules r) ''bb'' = Some rm \<and> rm_registration rm \<noteq> None"
proof -
  let ?r0 = "new_module_registry ''1'' ''1'' ''1'' [] {}"
  let ?r1 = "put_module ''bb'' (new_registered demo_module (demo_manifest ''bb'' []) AVAILABLE) ?r0"
  have v: "manifest_valid demo_packaging (demo_manifest ''bb'' [])" by (rule demo_manifest_valid) simp
  have m: "module_id (demo_manifest ''bb'' []) = ''bb''" by (simp add: demo_manifest_def)
  have "add_module demo_packaging ?r0 demo_module (demo_manifest ''bb'' []) = Inr ?r1"
    using v by (simp add: add_module_def m new_module_registry_def runtime_supports_def supports_def)
      (simp add: demo_manifest_def demo_packaging_def)
  then have s1: "lifecycle_step demo_packaging demo_env (?r0, 0) (?r1, 0)" by (rule step_add)
  have "install_all demo_packaging ?r1 = Inr demo_registry"
    by (simp add: install_all_def ordered_modules_def manifests_of_def validate_resource_claims_def
        ordered_manifests_def order_loop.simps ready_pass_def validate_dependencies_def deps_in_def
        demo_manifest_def sorted_set_def put_module_def new_module_registry_def install_one_def new_registered_def
        demo_registry_def)
  then have s2: "lifecycle_step demo_packaging demo_env (?r1, 0) (demo_registry, 0)" by (rule step_install)
  have s3: "lifecycle_step demo_packaging demo_env (demo_registry, 0) (demo_enabled, 1)"
    by (rule step_enable [OF demo_enable])
  have steps: "(lifecycle_step demo_packaging demo_env)\<^sup>*\<^sup>* (?r0, 0) (demo_enabled, 1)"
    using s1 s2 s3 by (meson rtranclp.rtrancl_into_rtrancl rtranclp.rtrancl_refl)
  let ?rm = "the (dict_get (modules demo_enabled) ''bb'')"
  have g: "dict_get (modules demo_enabled) ''bb'' = Some ?rm" "rm_state ?rm = ENABLED"
    by (simp_all add: demo_enabled_def)
  from enabled_dependencies_closed [OF steps g] g steps show ?thesis by blast
qed

end
