(* ===== verification/Invocation.thy ===== *)
theory Invocation
  imports Manifest
begin

text \<open>
  The authority a module handler carries while it runs (\<open>platform/src/businessos/handler_invocation.py\<close>):
  the provenance captured when a handler is registered, the binding the dispatcher issues around one
  invocation, and its validation. Python objects that are compared by identity (bindings,
  provenance tokens, requests, transactions, tasks) are their identities.
\<close>

section \<open>Provenance of registrations\<close>

datatype invocation_kind = COMMAND | QUERY

record handler_dependency =
  hd_module :: string
  hd_version :: string

record registration_facts =
  rf_owner :: string
  rf_generation :: generation
  rf_dependencies :: "handler_dependency list"

record provenance =
  pv_facts :: "(nat, registration_facts) dict"
  pv_next :: nat

definition capture_provenance ::
  "provenance \<Rightarrow> manifest option \<Rightarrow> string \<Rightarrow> generation \<Rightarrow> exn + nat option \<times> provenance" where
  "capture_provenance pv mo owner g =
     (case mo of
        None \<Rightarrow> Inr (None, pv)
      | Some m \<Rightarrow>
          if module_id m \<noteq> owner \<or> gen_owner g \<noteq> owner
          then Inl (ValueError ''Handler manifest must match the exact registration owner'')
          else
            let facts = \<lparr>rf_owner = owner, rf_generation = g,
                  rf_dependencies = map (\<lambda>d. \<lparr>hd_module = dep_module_id d, hd_version = dep_version d\<rparr>)
                    (dependencies m)\<rparr>
            in Inr (Some (pv_next pv), pv\<lparr>pv_facts := dict_set (pv_next pv) facts (pv_facts pv),
                      pv_next := pv_next pv + 1\<rparr>))"

text \<open>\<open>None\<close> as token is any object that is no provenance token.\<close>

definition trusted_dependencies ::
  "provenance \<Rightarrow> nat option \<Rightarrow> string \<Rightarrow> generation option \<Rightarrow> handler_dependency list option" where
  "trusted_dependencies pv token owner go =
     (case token of
        None \<Rightarrow> None
      | Some i \<Rightarrow>
          (case dict_get (pv_facts pv) i of
             None \<Rightarrow> None
           | Some f \<Rightarrow> if rf_owner f \<noteq> owner \<or> go \<noteq> Some (rf_generation f) then None
                       else Some (rf_dependencies f)))"

section \<open>Bindings\<close>

text \<open>
  \<open>active_bindings\<close> is the context variable of each task; a task without an entry sees the default.
  \<open>current_task\<close> is what \<open>asyncio.current_task\<close> does: raise outside an event loop, return \<open>None\<close>
  outside a task, or return the task.
\<close>

datatype current_task = NoLoop | NoTask | Task nat

record authority_facts =
  af_owner :: string
  af_generation :: generation
  af_kind :: invocation_kind
  af_dependencies :: "handler_dependency list"
  af_request :: nat
  af_transaction :: nat
  af_task :: nat

record invocations =
  issued_bindings :: "(nat, authority_facts) dict"
  next_binding :: nat
  active_bindings :: "(nat, nat option) dict"

definition no_invocations :: invocations where
  "no_invocations = \<lparr>issued_bindings = [], next_binding = 0, active_bindings = []\<rparr>"

definition active_binding :: "invocations \<Rightarrow> nat \<Rightarrow> nat option" where
  "active_binding st t = (case dict_get (active_bindings st) t of None \<Rightarrow> None | Some b \<Rightarrow> b)"

definition set_active :: "nat \<Rightarrow> nat option \<Rightarrow> invocations \<Rightarrow> invocations" where
  "set_active t b st = st\<lparr>active_bindings := dict_set t b (active_bindings st)\<rparr>"

text \<open>
  \<open>internal_issue_handler_invocation\<close>: entering yields the binding and the token that remembers
  the previous value of the context variable; leaving deactivates the lease, forgets the binding
  and puts the previous value back.
\<close>

definition issue_invocation ::
  "invocations \<Rightarrow> current_task \<Rightarrow> string \<Rightarrow> generation \<Rightarrow> invocation_kind \<Rightarrow> handler_dependency list \<Rightarrow> nat \<Rightarrow> nat \<Rightarrow>
   exn + nat \<times> nat option \<times> invocations" where
  "issue_invocation st ct owner g kind deps req txn =
     (case ct of
        NoLoop \<Rightarrow> Inl (RuntimeError ''no running event loop'')
      | NoTask \<Rightarrow> Inl (RuntimeError ''Handler invocation requires a matching admitted generation and task'')
      | Task t \<Rightarrow>
          if gen_owner g \<noteq> owner
          then Inl (RuntimeError ''Handler invocation requires a matching admitted generation and task'')
          else
            let b = next_binding st;
                facts = \<lparr>af_owner = owner, af_generation = g, af_kind = kind, af_dependencies = deps,
                  af_request = req, af_transaction = txn, af_task = t\<rparr>
            in Inr (b, active_binding st t,
                 set_active t (Some b) (st\<lparr>issued_bindings := dict_set b facts (issued_bindings st),
                   next_binding := b + 1\<rparr>)))"

definition release_invocation :: "invocations \<Rightarrow> nat \<Rightarrow> nat \<Rightarrow> nat option \<Rightarrow> invocations" where
  "release_invocation st t b token =
     set_active t token (st\<lparr>issued_bindings := dict_pop b (issued_bindings st)\<rparr>)"

text \<open>\<open>internal_without_handler_invocation\<close>, entered and left.\<close>

definition mask_invocation :: "invocations \<Rightarrow> nat \<Rightarrow> nat option \<times> invocations" where
  "mask_invocation st t = (active_binding st t, set_active t None st)"

definition unmask_invocation :: "invocations \<Rightarrow> nat \<Rightarrow> nat option \<Rightarrow> invocations" where
  "unmask_invocation st t token = set_active t token st"

text \<open>A new task starts with a copy of its creator's context.\<close>

definition spawn_task :: "invocations \<Rightarrow> nat \<Rightarrow> nat \<Rightarrow> invocations" where
  "spawn_task st parent child = set_active child (active_binding st parent) st"

definition require_live :: "invocations \<Rightarrow> current_task \<Rightarrow> nat \<Rightarrow> authority_facts \<Rightarrow> exn + unit" where
  "require_live st ct b facts =
     (case ct of
        NoLoop \<Rightarrow> Inl (PermissionError ''Handler invocation requires its issuing task'')
      | NoTask \<Rightarrow> Inl (PermissionError ''Handler invocation is no longer active in this task'')
      | Task t \<Rightarrow> raise_if (t \<noteq> af_task facts \<or> active_binding st t \<noteq> Some b)
          (PermissionError ''Handler invocation is no longer active in this task''))"

text \<open>\<open>None\<close> as binding is any object the framework did not make.\<close>

definition validate_invocation ::
  "invocations \<Rightarrow> current_task \<Rightarrow> nat option \<Rightarrow> nat \<Rightarrow> nat \<Rightarrow> invocation_kind \<Rightarrow> exn + authority_facts" where
  "validate_invocation st ct binding req txn kind =
     (case binding of
        None \<Rightarrow> Inl (PermissionError ''Handler invocation was not issued by the framework'')
      | Some b \<Rightarrow>
          (case dict_get (issued_bindings st) b of
             None \<Rightarrow> Inl (PermissionError ''Handler invocation was not issued by the framework'')
           | Some f \<Rightarrow>
               (case require_live st ct b f of
                  Inl e \<Rightarrow> Inl e
                | Inr _ \<Rightarrow>
                    if req \<noteq> af_request f \<or> txn \<noteq> af_transaction f \<or> kind \<noteq> af_kind f
                    then Inl (PermissionError ''Handler invocation does not match this request or transaction'')
                    else Inr f)))"

definition has_direct_dependency :: "invocations \<Rightarrow> current_task \<Rightarrow> nat \<Rightarrow> string \<Rightarrow> exn + bool" where
  "has_direct_dependency st ct b mid =
     (case dict_get (issued_bindings st) b of
        None \<Rightarrow> Inl (PermissionError ''Handler invocation is no longer active'')
      | Some f \<Rightarrow>
          (case require_live st ct b f of
             Inl e \<Rightarrow> Inl e
           | Inr _ \<Rightarrow> Inr (list_ex (\<lambda>d. hd_module d = mid) (af_dependencies f))))"

section \<open>Interleaved invocations\<close>

text \<open>
  The context managers of one task are nested; tasks interleave freely and may create tasks. A
  frame is an open context manager: a binding with the facts it was issued for, or a mask, with the
  token it will restore.
\<close>

datatype frame = Bound nat authority_facts "nat option" | Masked "nat option"

inductive invocation_run :: "invocations \<Rightarrow> (nat \<Rightarrow> frame list) \<Rightarrow> bool" where
  run_new: "invocation_run no_invocations (\<lambda>_. [])"
| run_issue: "invocation_run st fr \<Longrightarrow>
    issue_invocation st (Task t) owner g kind deps req txn = Inr (b, token, st') \<Longrightarrow>
    facts = \<lparr>af_owner = owner, af_generation = g, af_kind = kind, af_dependencies = deps,
      af_request = req, af_transaction = txn, af_task = t\<rparr> \<Longrightarrow>
    invocation_run st' (fr(t := Bound b facts token # fr t))"
| run_release: "invocation_run st fr \<Longrightarrow> fr t = Bound b facts token # rest \<Longrightarrow>
    invocation_run (release_invocation st t b token) (fr(t := rest))"
| run_mask: "invocation_run st fr \<Longrightarrow> mask_invocation st t = (token, st') \<Longrightarrow>
    invocation_run st' (fr(t := Masked token # fr t))"
| run_unmask: "invocation_run st fr \<Longrightarrow> fr t = Masked token # rest \<Longrightarrow>
    invocation_run (unmask_invocation st t token) (fr(t := rest))"
| run_spawn: "invocation_run st fr \<Longrightarrow> fr child = [] \<Longrightarrow> invocation_run (spawn_task st parent child) fr"

fun frames_ok :: "nat option \<Rightarrow> frame list \<Rightarrow> bool" where
  "frames_ok current [] = True"
| "frames_ok current (Bound b f token # rest) = (current = Some b \<and> frames_ok token rest)"
| "frames_ok current (Masked token # rest) = (current = None \<and> frames_ok token rest)"

fun bound_facts :: "frame list \<Rightarrow> (nat \<times> authority_facts) list" where
  "bound_facts [] = []"
| "bound_facts (Bound b f token # rest) = (b, f) # bound_facts rest"
| "bound_facts (Masked token # rest) = bound_facts rest"

definition run_ok :: "invocations \<Rightarrow> (nat \<Rightarrow> frame list) \<Rightarrow> bool" where
  "run_ok st fr \<longleftrightarrow>
     (\<forall>b f. dict_get (issued_bindings st) b = Some f \<longleftrightarrow> (b, f) \<in> set (bound_facts (fr (af_task f)))) \<and>
     (\<forall>t. frames_ok (active_binding st t) (fr t) \<and> distinct (map fst (bound_facts (fr t))) \<and>
        (\<forall>(b, f) \<in> set (bound_facts (fr t)). af_task f = t \<and> b < next_binding st))"

lemma run_okD:
  assumes "run_ok st fr"
  shows "dict_get (issued_bindings st) b = Some f \<longleftrightarrow> (b, f) \<in> set (bound_facts (fr (af_task f)))"
    and "frames_ok (active_binding st t) (fr t)" and "distinct (map fst (bound_facts (fr t)))"
    and "(b, f) \<in> set (bound_facts (fr t)) \<Longrightarrow> af_task f = t \<and> b < next_binding st"
  using assms unfolding run_ok_def by auto

lemma run_okI:
  assumes "\<And>b f. dict_get (issued_bindings st) b = Some f \<longleftrightarrow> (b, f) \<in> set (bound_facts (fr (af_task f)))"
    and "\<And>t. frames_ok (active_binding st t) (fr t)" and "\<And>t. distinct (map fst (bound_facts (fr t)))"
    and "\<And>t b f. (b, f) \<in> set (bound_facts (fr t)) \<Longrightarrow> af_task f = t \<and> b < next_binding st"
  shows "run_ok st fr"
  using assms unfolding run_ok_def by blast

lemma active_set [simp]: "active_binding (set_active t b st) t' = (if t' = t then b else active_binding st t')"
  by (simp add: active_binding_def set_active_def dict_get_set)

lemma set_active_simps [simp]:
  "issued_bindings (set_active t b st) = issued_bindings st"
  "next_binding (set_active t b st) = next_binding st"
  by (simp_all add: set_active_def)

lemma active_binding_update [simp]:
  "active_binding (st\<lparr>issued_bindings := x, next_binding := n\<rparr>) t = active_binding st t"
  "active_binding (st\<lparr>issued_bindings := x\<rparr>) t = active_binding st t"
  by (simp_all add: active_binding_def)

lemma issue_Inr:
  "issue_invocation st (Task t) owner g kind deps req txn = Inr (b, token, st') \<longleftrightarrow>
     gen_owner g = owner \<and> b = next_binding st \<and> token = active_binding st t \<and>
     st' = set_active t (Some b) (st\<lparr>issued_bindings := dict_set b \<lparr>af_owner = owner, af_generation = g, af_kind = kind,
       af_dependencies = deps, af_request = req, af_transaction = txn, af_task = t\<rparr> (issued_bindings st),
       next_binding := b + 1\<rparr>)"
  by (auto simp: issue_invocation_def Let_def)

text \<open>A binding belongs to one frame of one task.\<close>

lemma run_ok_same:
  assumes "run_ok st fr" "(b, f) \<in> set (bound_facts (fr t))" "(b, f') \<in> set (bound_facts (fr t'))"
  shows "f' = f \<and> t' = t"
proof -
  from run_okD(4) [OF assms(1,2)] run_okD(4) [OF assms(1,3)] have "af_task f = t" "af_task f' = t'" by auto
  with assms run_okD(1) [OF assms(1), of b f] run_okD(1) [OF assms(1), of b f'] show ?thesis by auto
qed

lemma run_ok_issue:
  assumes ok: "run_ok st fr" and n: "b = next_binding st" and t: "af_task facts = t"
  shows "run_ok (set_active t (Some b) (st\<lparr>issued_bindings := dict_set b facts (issued_bindings st), next_binding := b + 1\<rparr>))
    (fr(t := Bound b facts (active_binding st t) # fr t))"
proof -
  have new: "(b, f) \<notin> set (bound_facts (fr t'))" for f t'
    using run_okD(4) [OF ok, of b f t'] n by auto
  then have fresh: "b \<notin> fst ` set (bound_facts (fr t'))" for t' by auto
  show ?thesis
  proof (rule run_okI, goal_cases)
    case (1 b' f)
    show ?case using run_okD(1) [OF ok, of b' f] new [of f "af_task f"] t
      by (cases "b' = b"; cases "af_task f = t") (auto simp: dict_get_set)
  next
    case (2 t')
    show ?case using run_okD(2) [OF ok, of t'] by (cases "t' = t") simp_all
  next
    case (3 t')
    show ?case using run_okD(3) [OF ok, of t'] fresh [of t'] by (cases "t' = t") simp_all
  next
    case (4 t' b' f)
    then show ?case using run_okD(4) [OF ok, of b' f t'] n t by (auto split: if_splits)
  qed
qed

lemma run_ok_release:
  assumes ok: "run_ok st fr" and f: "fr t = Bound b facts token # rest"
  shows "run_ok (release_invocation st t b token) (fr(t := rest))"
proof -
  have head: "af_task facts = t" "b \<notin> fst ` set (bound_facts rest)"
    using run_okD(3) [OF ok, of t] run_okD(4) [OF ok, of b facts t] f by auto
  have gone: "(b, f') \<notin> set (bound_facts (fr t'))" if "t' \<noteq> t" for f' t'
    using run_ok_same [OF ok, of b facts t f' t'] that f by auto
  show ?thesis
  proof (rule run_okI, goal_cases)
    case (1 b' f')
    show ?case using run_okD(1) [OF ok, of b' f'] head gone [of "af_task f'" f'] f
      by (cases "b' = b"; cases "af_task f' = t") (auto simp: release_invocation_def dict_get_pop image_iff)
  next
    case (2 t')
    show ?case using run_okD(2) [OF ok, of t'] f by (auto simp: release_invocation_def)
  next
    case (3 t')
    show ?case using run_okD(3) [OF ok, of t'] f by auto
  next
    case (4 t' b' f')
    then show ?case using run_okD(4) [OF ok, of b' f' t'] f by (auto simp: release_invocation_def split: if_splits)
  qed
qed

lemma run_ok_active:
  assumes ok: "run_ok st fr" and "frames_ok c xs" "bound_facts xs = bound_facts (fr t)"
  shows "run_ok (set_active t c st) (fr(t := xs))"
  using assms run_okD [OF ok] unfolding run_ok_def by auto

lemma invocation_run_ok: "invocation_run st fr \<Longrightarrow> run_ok st fr"
proof (induction rule: invocation_run.induct)
  case run_new
  show ?case by (simp add: run_ok_def no_invocations_def)
next
  case (run_issue st fr t owner g kind deps req txn b token st' facts)
  then show ?case using run_ok_issue [OF run_issue.IH, of b facts t] by (simp add: issue_Inr del: fun_upd_apply)
next
  case (run_release st fr t b facts token rest)
  then show ?case by (intro run_ok_release)
next
  case (run_mask st fr t token st')
  then show ?case using run_okD(2) [OF run_mask.IH, of t]
      run_ok_active [OF run_mask.IH, of None "Masked token # fr t" t]
    by (auto simp: mask_invocation_def simp del: fun_upd_apply)
next
  case (run_unmask st fr t token rest)
  then show ?case using run_okD(2) [OF run_unmask.IH, of t]
      run_ok_active [OF run_unmask.IH, of token rest t]
    by (auto simp: unmask_invocation_def simp del: fun_upd_apply)
next
  case (run_spawn st fr child parent)
  then show ?case using run_ok_active [OF run_spawn.IH, of _ "[]" child]
    by (simp add: spawn_task_def fun_upd_idem)
qed

text \<open>
  C10: The authority of a handler invocation cannot leave it: however tasks interleave, create
  other tasks and nest invocations, a binding validates for a request, a transaction and a kind in a
  task exactly when the innermost open context of that very task is the invocation it was issued
  for, with that request, transaction and kind; so neither a child task, a nested handler running
  without authority, nor anyone after the handler returned can use it.
\<close>

theorem invocation_confined:
  assumes "invocation_run st fr"
  shows "validate_invocation st (Task t) (Some b) req txn kind = Inr f \<longleftrightarrow>
    (\<exists>token rest. fr t = Bound b f token # rest \<and> af_task f = t \<and>
       af_request f = req \<and> af_transaction f = txn \<and> af_kind f = kind)"
proof -
  note ok = invocation_run_ok [OF assms]
  have "validate_invocation st (Task t) (Some b) req txn kind = Inr f \<longleftrightarrow>
      dict_get (issued_bindings st) b = Some f \<and> af_task f = t \<and> active_binding st t = Some b \<and>
      af_request f = req \<and> af_transaction f = txn \<and> af_kind f = kind"
    by (auto simp: validate_invocation_def require_live_def raise_if_def split: option.split)
  moreover have "dict_get (issued_bindings st) b = Some f \<and> af_task f = t \<and> active_binding st t = Some b \<longleftrightarrow>
      (\<exists>token rest. fr t = Bound b f token # rest) \<and> af_task f = t"
  proof (cases "fr t")
    case Nil
    with run_okD(1) [OF ok, of b f] show ?thesis by auto
  next
    case (Cons x rest)
    show ?thesis
    proof (cases x)
      case (Bound b' f' token)
      then show ?thesis
        using Cons run_okD(1) [OF ok, of b f] run_okD(2,3) [OF ok, of t] run_ok_same [OF ok, of b f' t f t]
        by fastforce
    next
      case (Masked token)
      then show ?thesis using Cons run_okD(2) [OF ok, of t] by auto
    qed
  qed
  ultimately show ?thesis by blast
qed

definition demo_facts :: authority_facts where
  "demo_facts = \<lparr>af_owner = ''m'', af_generation = \<lparr>gen_owner = ''m'', gen_number = 1\<rparr>, af_kind = COMMAND,
     af_dependencies = [], af_request = 5, af_transaction = 6, af_task = 1\<rparr>"

theorem invocation_confined_witness:
  "\<exists>st fr. invocation_run st fr \<and> validate_invocation st (Task 1) (Some 0) 5 6 COMMAND = Inr demo_facts \<and>
     validate_invocation st (Task 2) (Some 0) 5 6 COMMAND \<noteq> Inr demo_facts"
proof -
  let ?g = "\<lparr>gen_owner = ''m'', gen_number = 1\<rparr>"
  obtain st where st: "issue_invocation no_invocations (Task 1) ''m'' ?g COMMAND [] 5 6 = Inr (0, None, st)"
    by (simp add: issue_invocation_def Let_def no_invocations_def active_binding_def)
  let ?fr = "(\<lambda>_. [])(1 := [Bound 0 demo_facts None])"
  have run: "invocation_run (spawn_task st 1 2) ?fr"
    by (rule run_spawn) (use run_issue [OF run_new st, of demo_facts] in \<open>simp_all add: demo_facts_def\<close>)
  have "validate_invocation (spawn_task st 1 2) (Task 1) (Some 0) 5 6 COMMAND = Inr demo_facts"
    by (rule iffD2 [OF invocation_confined [OF run]]) (simp add: demo_facts_def)
  moreover have "validate_invocation (spawn_task st 1 2) (Task 2) (Some 0) 5 6 COMMAND \<noteq> Inr demo_facts"
    using invocation_confined [OF run, of 2 0 5 6 COMMAND demo_facts] by simp
  ultimately show ?thesis using run by blast
qed

end
