(* ===== verification/Context.thy ===== *)
theory Context
  imports Errors
begin

text \<open>
  The trusted request context of \<open>platform/src/businessos/context.py\<close> and the authorization boundary
  of \<open>security.py\<close>. A UUID is its 128-bit integer value; instants are integers (microseconds).
\<close>

type_synonym uuid = int
type_synonym instant = int

record tenant_context =
  installation_id :: uuid
  tenant_id :: uuid
  principal_id :: uuid
  active_company_id :: "uuid option"
  authentication_strength :: string
  enterprise_group_id :: "uuid option"
  legal_entity_id :: "uuid option"
  business_unit_id :: "uuid option"
  division_id :: "uuid option"
  department_id :: "uuid option"
  team_id :: "uuid option"
  region_id :: "uuid option"
  operating_site_id :: "uuid option"
  warehouse_id :: "uuid option"
  cost_center_id :: "uuid option"
  profit_center_id :: "uuid option"
  project_id :: "uuid option"
  delegation_id :: "uuid option"
  credential_expires_at :: "instant option"

record request_context =
  correlation_id :: string
  trace_id :: string
  tenant :: "tenant_context option"

text \<open>A tenant context with the defaults of the dataclass.\<close>

definition tenant_context_of :: "uuid \<Rightarrow> uuid \<Rightarrow> uuid \<Rightarrow> tenant_context" where
  "tenant_context_of inst ten prin = \<lparr>installation_id = inst, tenant_id = ten, principal_id = prin,
     active_company_id = None, authentication_strength = ''unspecified'', enterprise_group_id = None,
     legal_entity_id = None, business_unit_id = None, division_id = None, department_id = None,
     team_id = None, region_id = None, operating_site_id = None, warehouse_id = None,
     cost_center_id = None, profit_center_id = None, project_id = None, delegation_id = None,
     credential_expires_at = None\<rparr>"

text \<open>
  \<open>bind_request_context\<close> as a context manager over the context variable: the body runs with the
  new context and the old value is back afterwards, whatever the body did to the variable.
\<close>

definition bind_request_context ::
  "request_context \<Rightarrow> (request_context option \<Rightarrow> 'r \<times> request_context option) \<Rightarrow>
   request_context option \<Rightarrow> 'r \<times> request_context option" where
  "bind_request_context ctx body current = (fst (body (Some ctx)), current)"

text \<open>\<open>AnonymousContextResolver.resolve\<close>.\<close>

record request_identity =
  ri_method :: string
  ri_path :: string
  ri_headers :: "(string, string) dict"
  ri_correlation_id :: string
  ri_trace_id :: string

definition anonymous_resolve :: "request_identity \<Rightarrow> request_context" where
  "anonymous_resolve i =
     \<lparr>correlation_id = ri_correlation_id i, trace_id = ri_trace_id i, tenant = None\<rparr>"

text \<open>
  The policy evaluator is supplied by a module: a function of principal, tenant context and
  permission. \<open>DenyAllPolicyEvaluator\<close> is the kernel's default.
\<close>

type_synonym evaluator = "uuid \<Rightarrow> tenant_context \<Rightarrow> string \<Rightarrow> bool"

definition deny_all :: evaluator where
  "deny_all pid ten perm = False"

definition require :: "evaluator \<Rightarrow> request_context \<Rightarrow> string \<Rightarrow> exn + unit" where
  "require ev ctx permission =
     (case tenant ctx of
        None \<Rightarrow> Inl (BusinessOSError ''unauthenticated'' ''Authentication required'' 401)
      | Some ten \<Rightarrow>
          if \<not> ev (principal_id ten) ten permission
          then Inl (BusinessOSError ''forbidden'' ''Permission denied'' 403)
          else Inr ())"

text \<open>
  \<open>Authorizer.permission_fence\<close> up to the evaluator's own fence: \<open>fenced\<close> says whether the
  evaluator implements the fencing protocol.
\<close>

definition permission_fence :: "bool \<Rightarrow> request_context \<Rightarrow> (unit \<Rightarrow> exn + 'r) \<Rightarrow> exn + 'r" where
  "permission_fence fenced ctx body =
     (if tenant ctx = None \<or> \<not> fenced
      then Inl (BusinessOSError ''authority_fence_required'' ''Coherent Policy authority required'' 403)
      else body ())"

lemma require_Inr:
  "require ev ctx p = Inr u \<longleftrightarrow> (\<exists>ten. tenant ctx = Some ten \<and> ev (principal_id ten) ten p)"
  by (auto simp: require_def split: option.split)

lemma require_deny_all: "require deny_all ctx p \<noteq> Inr u"
  by (simp add: require_Inr deny_all_def)

text \<open>
  The optional check the dispatchers and the job registry make before a handler runs:
  nothing without a declared permission, a runtime error without an authorizer.
\<close>

definition authorize_with :: "string \<Rightarrow> evaluator option \<Rightarrow> request_context \<Rightarrow> string option \<Rightarrow> exn + unit" where
  "authorize_with what ev ctx permission =
     (case permission of
        None \<Rightarrow> Inr ()
      | Some p \<Rightarrow>
          (case ev of
             None \<Rightarrow> Inl (RuntimeError (''Authorized '' @ what @ '' dispatch requires an authorizer''))
           | Some f \<Rightarrow> require f ctx p))"

lemma authorize_with_Inr:
  "authorize_with what ev ctx (Some p) = Inr u \<longleftrightarrow>
     (\<exists>f ten. ev = Some f \<and> tenant ctx = Some ten \<and> f (principal_id ten) ten p)"
  by (auto simp: authorize_with_def require_Inr split: option.split)

end
