(* ===== verification/Registries.thy ===== *)
theory Registries
  imports Owned_Table Context
begin

text \<open>
  The named contribution registries: \<open>registry.py\<close> (\<open>OwnedRegistry\<close>) and the registries derived from
  it in \<open>permissions.py\<close>, \<open>features.py\<close> and \<open>jobs.py\<close>, and the middleware registry with the
  composition of middleware in \<open>http/middleware.py\<close>. The gate is shared by all of them, so every
  operation that consults it takes the gate's present state (\<open>None\<close> for a registry without a gate).
\<close>

section \<open>Owned registries\<close>

record 'v owned_value =
  ov_name :: string
  ov_owner :: string
  ov_value :: 'v
  ov_generation :: "generation option"

record 'v registry =
  reg_kind :: string
  reg_values :: "(string, 'v owned_value) dict"

definition new_registry :: "string \<Rightarrow> 'v registry" where
  "new_registry k = \<lparr>reg_kind = k, reg_values = []\<rparr>"

definition register_value :: "'v registry \<Rightarrow> 'v owned_value \<Rightarrow> exn + 'v registry" where
  "register_value r e =
     (case dict_get (reg_values r) (ov_name e) of
        Some current \<Rightarrow> Inl (ConflictError (reg_kind r @ '' '' @ quote @ ov_name e @ quote
          @ '' is already owned by module '' @ quote @ ov_owner current @ quote))
      | None \<Rightarrow> Inr (r\<lparr>reg_values := dict_set (ov_name e) e (reg_values r)\<rparr>))"

definition register ::
  "'v registry \<Rightarrow> string \<Rightarrow> string \<Rightarrow> 'v \<Rightarrow> generation option \<Rightarrow> exn + 'v registry" where
  "register r name owner v go =
     register_value r \<lparr>ov_name = name, ov_owner = owner, ov_value = v, ov_generation = go\<rparr>"

definition entry_active :: "gate option \<Rightarrow> 'v owned_value \<Rightarrow> bool" where
  "entry_active gt e = (case gt of None \<Rightarrow> True | Some s \<Rightarrow> is_active s (ov_generation e))"

definition generation_active :: "gate option \<Rightarrow> generation option \<Rightarrow> bool" where
  "generation_active gt go = (case gt of None \<Rightarrow> True | Some s \<Rightarrow> is_active s go)"

definition resolve :: "gate option \<Rightarrow> 'v registry \<Rightarrow> string \<Rightarrow> exn + 'v owned_value" where
  "resolve gt r name =
     (case dict_get (reg_values r) name of
        None \<Rightarrow> Inl (NotFoundError (''Unknown '' @ reg_kind r @ '': '' @ name))
      | Some e \<Rightarrow> if \<not> entry_active gt e
                   then Inl (NotFoundError (''Unknown '' @ reg_kind r @ '': '' @ name))
                   else Inr e)"

definition get_value :: "gate option \<Rightarrow> 'v registry \<Rightarrow> string \<Rightarrow> exn + 'v" where
  "get_value gt r name = (case resolve gt r name of Inl e \<Rightarrow> Inl e | Inr e \<Rightarrow> Inr (ov_value e))"

definition entries :: "gate option \<Rightarrow> 'v registry \<Rightarrow> bool \<Rightarrow> 'v owned_value list" where
  "entries gt r include_inactive =
     filter (\<lambda>e. include_inactive \<or> entry_active gt e)
       (map (\<lambda>name. the (dict_get (reg_values r) name)) (sorted_set (map fst (reg_values r))))"

definition contains ::
  "gate option \<Rightarrow> 'v registry \<Rightarrow> string \<Rightarrow> string option \<Rightarrow> generation option \<Rightarrow> bool \<Rightarrow> bool" where
  "contains gt r name owner go include_inactive =
     (case dict_get (reg_values r) name of
        None \<Rightarrow> False
      | Some e \<Rightarrow>
          if owner \<noteq> None \<and> owner \<noteq> Some (ov_owner e) then False
          else if go \<noteq> None \<and> ov_generation e \<noteq> go then False
          else include_inactive \<or> entry_active gt e)"

definition remove_owner_generation :: "'v registry \<Rightarrow> generation \<Rightarrow> 'v registry" where
  "remove_owner_generation r g =
     r\<lparr>reg_values := dict_keep (\<lambda>e. ov_generation e \<noteq> Some g) (reg_values r)\<rparr>"

text \<open>
  \<open>admit_entry\<close> and \<open>admitted\<close>: the body runs between entering and leaving the gate. The body is
  any computation on the gate, since other tasks run while it is suspended.
\<close>

definition admit_entry ::
  "gate option \<Rightarrow> 'v owned_value \<Rightarrow> ('v \<Rightarrow> gate option \<Rightarrow> gate option \<times> (exn + 'r)) \<Rightarrow>
   gate option \<times> (exn + 'r)" where
  "admit_entry gt e body =
     (case gt of
        None \<Rightarrow> body (ov_value e) None
      | Some s \<Rightarrow>
          (case admit_enter s (ov_generation e) of
             Inl x \<Rightarrow> (Some s, Inl x)
           | Inr s1 \<Rightarrow>
               let (gt2, r) = body (ov_value e) (Some s1)
               in (map_option (\<lambda>s2. admit_exit s2 (ov_generation e)) gt2, r)))"

definition admitted ::
  "gate option \<Rightarrow> 'v registry \<Rightarrow> string \<Rightarrow> ('v \<Rightarrow> gate option \<Rightarrow> gate option \<times> (exn + 'r)) \<Rightarrow>
   gate option \<times> (exn + 'r)" where
  "admitted gt r name body =
     (case resolve gt r name of Inl x \<Rightarrow> (gt, Inl x) | Inr e \<Rightarrow> admit_entry gt e body)"

section \<open>The table contract\<close>

interpretation reg: dict_table reg_values ov_name ov_generation register_value remove_owner_generation
  by unfold_locales (auto simp: register_value_def remove_owner_generation_def split: option.splits)

lemma resolve_Inr:
  "resolve gt r name = Inr e \<longleftrightarrow> dict_get (reg_values r) name = Some e \<and> entry_active gt e"
  by (auto simp: resolve_def split: option.split)

lemma register_value_Inr:
  "register_value r e = Inr r' \<longleftrightarrow>
     dict_get (reg_values r) (ov_name e) = None \<and> r' = r\<lparr>reg_values := dict_set (ov_name e) e (reg_values r)\<rparr>"
  by (cases "dict_get (reg_values r) (ov_name e)") (auto simp: register_value_def)

lemma reg_kind_remove [simp]: "reg_kind (remove_owner_generation r g) = reg_kind r"
  by (simp add: remove_owner_generation_def)

lemma set_entries:
  "dict_ok (reg_values r) \<Longrightarrow> e \<in> set (entries gt r inc) \<longleftrightarrow>
     (\<exists>k. dict_get (reg_values r) k = Some e) \<and> (inc \<or> entry_active gt e)"
  by (force simp: entries_def image_iff map_of_eq_Some_iff dict_keys_iff)

text \<open>
  Names of a well-formed registry are the keys of its dictionary; registration keeps this.
\<close>

definition registry_wf :: "'v registry \<Rightarrow> bool" where
  "registry_wf r \<longleftrightarrow> dict_ok (reg_values r) \<and> (\<forall>(k, e) \<in> set (reg_values r). k = ov_name e)"

lemma registry_wf_new [simp]: "registry_wf (new_registry k)"
  by (simp add: registry_wf_def new_registry_def)

lemma registry_wf_get: "registry_wf r \<Longrightarrow> dict_get (reg_values r) k = Some e \<Longrightarrow> ov_name e = k"
  by (auto simp: registry_wf_def dest: map_of_SomeD)

lemma registry_wf_ok: "registry_wf r \<Longrightarrow> dict_ok (reg_values r)"
  by (simp add: registry_wf_def)

lemma registry_wfI:
  "dict_ok (reg_values r) \<Longrightarrow> (\<And>k e. dict_get (reg_values r) k = Some e \<Longrightarrow> ov_name e = k) \<Longrightarrow> registry_wf r"
  by (force simp: registry_wf_def)

lemma registry_wf_register:
  assumes "registry_wf r" "register_value r e = Inr r'"
  shows "registry_wf r'"
proof -
  have "reg_values r' = dict_set (ov_name e) e (reg_values r)"
    using assms(2) by (simp add: register_value_Inr)
  then have get: "dict_get (reg_values r') = (dict_get (reg_values r))(ov_name e \<mapsto> e)"
    and ok: "dict_ok (reg_values r')"
    using registry_wf_ok [OF assms(1)] by (simp_all add: update_conv' fun_upd_def)
  show ?thesis
  proof (rule registry_wfI [OF ok])
    show "ov_name e' = k" if "dict_get (reg_values r') k = Some e'" for k e'
    proof (cases "k = ov_name e")
      case True
      with that show ?thesis unfolding get by simp
    next
      case False
      with that have "dict_get (reg_values r) k = Some e'" unfolding get by simp
      then show ?thesis by (rule registry_wf_get [OF assms(1)])
    qed
  qed
qed

lemma registry_wf_remove:
  assumes "registry_wf r"
  shows "registry_wf (remove_owner_generation r g)"
proof (rule registry_wfI)
  show "dict_ok (reg_values (remove_owner_generation r g))"
    using registry_wf_ok [OF assms] by (simp add: remove_owner_generation_def)
  show "ov_name e = k" if "dict_get (reg_values (remove_owner_generation r g)) k = Some e" for k e
    using reg.table.drop_gone [OF registry_wf_ok [OF assms] that] registry_wf_get [OF assms] by blast
qed

lemma entries_names:
  assumes "registry_wf r"
  shows "map ov_name (entries gt r True) = sorted_set (map fst (reg_values r))"
proof -
  have "ov_name (the (dict_get (reg_values r) k)) = k" if "k \<in> set (sorted_set (map fst (reg_values r)))" for k
    using that registry_wf_get [OF assms] by (auto simp: dict_keys_iff)
  then have "map (ov_name \<circ> (\<lambda>name. the (dict_get (reg_values r) name))) (sorted_set (map fst (reg_values r)))
      = sorted_set (map fst (reg_values r))"
    by (intro map_idI) simp
  then show ?thesis by (simp add: entries_def)
qed

text \<open>Two registries that hold the same entries list them in the same order.\<close>

lemma entries_cong:
  assumes "dict_get (reg_values r) = dict_get (reg_values r')"
  shows "entries gt r inc = entries gt r' inc"
proof -
  have "set (map fst (reg_values r)) = set (map fst (reg_values r'))"
    using assms by (simp flip: dom_map_of_conv_image_fst)
  then have "sorted_set (map fst (reg_values r)) = sorted_set (map fst (reg_values r'))"
    by (rule sorted_set_cong)
  then show ?thesis unfolding entries_def assms by (rule arg_cong)
qed

section \<open>Permissions\<close>

record permission_declaration =
  pd_key :: string
  pd_description :: string

text \<open>The key pattern \<open>^[a-z][a-z0-9_.:-]+$\<close> (pydantic's \<open>$\<close> is the end of the text).\<close>

definition permission_key_ok :: "string \<Rightarrow> bool" where
  "permission_key_ok s =
     (case s of
        [] \<Rightarrow> False
      | c # cs \<Rightarrow> is_lower c \<and> cs \<noteq> [] \<and>
          list_all (\<lambda>c. is_lower c \<or> is_digit c \<or> c \<in> set ''_.:-'') cs)"

definition permission_declaration_ok :: "permission_declaration \<Rightarrow> bool" where
  "permission_declaration_ok d \<longleftrightarrow>
     permission_key_ok (pd_key d) \<and> 1 \<le> length (pd_description d) \<and> length (pd_description d) \<le> 500"

definition new_permission_registry :: "permission_declaration registry" where
  "new_permission_registry = new_registry ''permission''"

definition add_permission ::
  "permission_declaration registry \<Rightarrow> string \<Rightarrow> permission_declaration \<Rightarrow> generation option \<Rightarrow>
   exn + permission_declaration registry" where
  "add_permission r owner d go = register r (pd_key d) owner d go"

section \<open>Feature flags\<close>

record feature_flag =
  ff_key :: string
  ff_description :: string
  ff_default :: bool

definition feature_flag_ok :: "feature_flag \<Rightarrow> bool" where
  "feature_flag_ok f \<longleftrightarrow>
     (case ff_key f of
        [] \<Rightarrow> False
      | c # cs \<Rightarrow> is_lower c \<and> cs \<noteq> [] \<and>
          list_all (\<lambda>c. is_lower c \<or> is_digit c \<or> c \<in> set ''_.-'') cs) \<and>
     1 \<le> length (ff_description f) \<and> length (ff_description f) \<le> 500"

record feature_registry =
  ff_flags :: "feature_flag registry"
  ff_overrides :: "(string, bool) dict"

definition new_feature_registry :: feature_registry where
  "new_feature_registry = \<lparr>ff_flags = new_registry ''feature flag'', ff_overrides = []\<rparr>"

definition add_feature ::
  "feature_registry \<Rightarrow> string \<Rightarrow> feature_flag \<Rightarrow> generation option \<Rightarrow> exn + feature_registry" where
  "add_feature r owner f go =
     (case register (ff_flags r) (ff_key f) owner f go of
        Inl e \<Rightarrow> Inl e
      | Inr fl \<Rightarrow> Inr (r\<lparr>ff_flags := fl\<rparr>))"

definition set_override ::
  "gate option \<Rightarrow> feature_registry \<Rightarrow> string \<Rightarrow> bool \<Rightarrow> exn + feature_registry" where
  "set_override gt r k enabled =
     (case get_value gt (ff_flags r) k of
        Inl e \<Rightarrow> Inl e
      | Inr f \<Rightarrow> Inr (r\<lparr>ff_overrides := dict_set k enabled (ff_overrides r)\<rparr>))"

definition is_enabled :: "gate option \<Rightarrow> feature_registry \<Rightarrow> string \<Rightarrow> exn + bool" where
  "is_enabled gt r k =
     (case get_value gt (ff_flags r) k of
        Inl e \<Rightarrow> Inl e
      | Inr f \<Rightarrow> Inr (case dict_get (ff_overrides r) k of None \<Rightarrow> ff_default f | Some b \<Rightarrow> b))"

definition remove_features :: "feature_registry \<Rightarrow> generation \<Rightarrow> feature_registry" where
  "remove_features r g =
     (let removed = map ov_name (filter (\<lambda>e. ov_generation e = Some g) (map snd (reg_values (ff_flags r))))
      in r\<lparr>ff_flags := remove_owner_generation (ff_flags r) g,
           ff_overrides := foldl (\<lambda>d k. dict_pop k d) (ff_overrides r) removed\<rparr>)"

lemma dict_get_pop_all:
  "dict_get (foldl (\<lambda>d k. dict_pop k d) d ks) k = (if k \<in> set ks then None else dict_get d k)"
  by (induction ks arbitrary: d) (auto simp: dict_get_pop)

text \<open>
  Overrides exist only for flags that are registered: the flag of an override was resolved
  when it was set, and removing the flag's generation removes the override.
\<close>

definition overrides_wf :: "feature_registry \<Rightarrow> bool" where
  "overrides_wf r \<longleftrightarrow> registry_wf (ff_flags r) \<and>
     (\<forall>k b. dict_get (ff_overrides r) k = Some b \<longrightarrow> dict_get (reg_values (ff_flags r)) k \<noteq> None)"

lemma overrides_wfD: "overrides_wf r \<Longrightarrow> dict_get (ff_overrides r) k = Some b \<Longrightarrow> \<exists>e. dict_get (reg_values (ff_flags r)) k = Some e"
  by (auto simp: overrides_wf_def)

lemma overrides_wf_new: "overrides_wf new_feature_registry"
  by (simp add: overrides_wf_def new_feature_registry_def)

lemma overrides_wf_add:
  assumes "overrides_wf r" "add_feature r owner f go = Inr r'"
  shows "overrides_wf r'"
proof -
  obtain fl where fl: "register (ff_flags r) (ff_key f) owner f go = Inr fl" "r' = r\<lparr>ff_flags := fl\<rparr>"
    using assms(2) by (auto simp: add_feature_def split: sum.splits)
  have wf: "registry_wf (ff_flags r)" using assms(1) by (simp add: overrides_wf_def)
  have "dict_get (reg_values fl) k \<noteq> None" if "dict_get (ff_overrides r) k = Some b" for k b
    using reg.table.add_Inr [OF registry_wf_ok [OF wf] fl(1) [unfolded register_def]] overrides_wfD [OF assms(1) that]
    by auto
  then show ?thesis
    using registry_wf_register [OF wf fl(1) [unfolded register_def]] fl(2) by (auto simp: overrides_wf_def)
qed

lemma overrides_wf_set:
  assumes "overrides_wf r" "set_override gt r k b = Inr r'"
  shows "overrides_wf r'"
proof -
  have k: "dict_get (reg_values (ff_flags r)) k \<noteq> None" "r' = r\<lparr>ff_overrides := dict_set k b (ff_overrides r)\<rparr>"
    using assms(2) by (auto simp: set_override_def get_value_def resolve_def split: sum.splits option.splits if_splits)
  with assms(1) show ?thesis by (auto simp: overrides_wf_def dict_get_set split: if_splits)
qed

lemma overrides_wf_remove:
  assumes "overrides_wf r"
  shows "overrides_wf (remove_features r g)"
proof -
  let ?removed = "map ov_name (filter (\<lambda>e. ov_generation e = Some g) (map snd (reg_values (ff_flags r))))"
  have wf: "registry_wf (ff_flags r)" using assms by (simp add: overrides_wf_def)
  have "dict_get (reg_values (remove_owner_generation (ff_flags r) g)) k \<noteq> None"
    if k: "k \<notin> set ?removed" and "dict_get (ff_overrides r) k = Some b" for k b
  proof -
    obtain e where e: "dict_get (reg_values (ff_flags r)) k = Some e"
      using overrides_wfD [OF assms] \<open>dict_get (ff_overrides r) k = Some b\<close> by blast
    then have "e \<in> set (map snd (reg_values (ff_flags r)))" by (force dest: map_of_SomeD)
    with k registry_wf_get [OF wf e] have "ov_generation e \<noteq> Some g" by force
    with reg.table.drop_other [OF registry_wf_ok [OF wf] e] show ?thesis by simp
  qed
  then show ?thesis
    using registry_wf_remove [OF wf]
    by (auto simp: overrides_wf_def remove_features_def Let_def dict_get_pop_all split: if_splits)
qed

end
