(* ===== verification/Messages.thy ===== *)
theory Messages
  imports Invocation Registries
begin

text \<open>
  The handler registries and the event bus of \<open>platform/src/businessos/messages.py\<close>: which handler
  answers a command or query, which subscribers an event is delivered to, and the durable obligations
  that keep an event waiting while a subscriber's module is being replaced. Message and event classes
  are Python class objects: records with an identity and the class attributes the code reads.
\<close>

section \<open>Command and query handlers\<close>

record message_type =
  mt_id :: nat
  mt_name :: string

text \<open>\<open>_OwnedHandler\<close>, with the dictionary key it is stored under.\<close>

record 'h owned_handler =
  oh_type :: message_type
  oh_owner :: string
  oh_handler :: 'h
  oh_generation :: "generation option"
  oh_permission :: "string option"
  oh_coordinator_token :: "nat option"
  oh_dependencies :: "handler_dependency list option"

record 'h handler_registry =
  hr_kind :: string
  hr_handlers :: "(message_type, 'h owned_handler) dict"

definition new_handler_registry :: "string \<Rightarrow> 'h handler_registry" where
  "new_handler_registry k = \<lparr>hr_kind = k, hr_handlers = []\<rparr>"

text \<open>
  The protected database selector and the publication authority record every registration and every
  removal; they are collaborators with a state of their own, called in this order.
\<close>

record ('h, 'w) selector =
  sel_record :: "'h owned_handler \<Rightarrow> nat option \<Rightarrow> 'w \<Rightarrow> 'w"
  sel_remove :: "generation \<Rightarrow> 'w \<Rightarrow> 'w"

definition put_handler :: "'h handler_registry \<Rightarrow> 'h owned_handler \<Rightarrow> exn + 'h handler_registry" where
  "put_handler r e =
     (case dict_get (hr_handlers r) (oh_type e) of
        Some current \<Rightarrow> Inl (ConflictError (hr_kind r @ '' handler for '' @ mt_name (oh_type e)
          @ '' is owned by '' @ oh_owner current))
      | None \<Rightarrow> Inr (r\<lparr>hr_handlers := dict_set (oh_type e) e (hr_handlers r)\<rparr>))"

definition register_handler ::
  "('h, 'w) selector list \<Rightarrow> provenance \<Rightarrow> 'h handler_registry \<Rightarrow> message_type \<Rightarrow> string \<Rightarrow> 'h \<Rightarrow>
   generation option \<Rightarrow> string option \<Rightarrow> nat option \<Rightarrow> nat option \<Rightarrow> nat option \<Rightarrow> 'w \<Rightarrow>
   exn + 'h handler_registry \<times> 'w" where
  "register_handler sels pv r mt owner h go permission coordinator prov entitlement w =
     (let e = \<lparr>oh_type = mt, oh_owner = owner, oh_handler = h, oh_generation = go, oh_permission = permission,
            oh_coordinator_token = coordinator, oh_dependencies = trusted_dependencies pv prov owner go\<rparr>
      in case put_handler r e of
           Inl x \<Rightarrow> Inl x
         | Inr r' \<Rightarrow> Inr (r', foldl (\<lambda>w s. sel_record s e entitlement w) w sels))"

definition resolve_handler ::
  "gate option \<Rightarrow> 'h handler_registry \<Rightarrow> message_type \<Rightarrow> exn + 'h owned_handler" where
  "resolve_handler gt r mt =
     (case dict_get (hr_handlers r) mt of
        None \<Rightarrow> Inl (NotFoundError (''No '' @ hr_kind r @ '' handler for '' @ mt_name mt))
      | Some e \<Rightarrow> if \<not> generation_active gt (oh_generation e)
                   then Inl (NotFoundError (''No '' @ hr_kind r @ '' handler for '' @ mt_name mt))
                   else Inr e)"

definition handler_permission ::
  "gate option \<Rightarrow> 'h handler_registry \<Rightarrow> message_type \<Rightarrow> exn + string option" where
  "handler_permission gt r mt =
     (case resolve_handler gt r mt of Inl x \<Rightarrow> Inl x | Inr e \<Rightarrow> Inr (oh_permission e))"

text \<open>
  \<open>admitted\<close>: the body runs between entering and leaving the gate. The body is any computation on
  the gate, because other tasks run while it is suspended.
\<close>

definition with_admission ::
  "gate option \<Rightarrow> generation option \<Rightarrow> (gate option \<Rightarrow> gate option \<times> (exn + 'r)) \<Rightarrow> gate option \<times> (exn + 'r)" where
  "with_admission gt go body =
     (case gt of
        None \<Rightarrow> body None
      | Some s \<Rightarrow>
          (case admit_enter s go of
             Inl x \<Rightarrow> (gt, Inl x)
           | Inr s1 \<Rightarrow>
               let (gt2, r) = body (Some s1)
               in (map_option (\<lambda>s2. admit_exit s2 go) gt2, r)))"

definition invoke_handler ::
  "gate option \<Rightarrow> 'h handler_registry \<Rightarrow> message_type \<Rightarrow> ('h \<Rightarrow> gate option \<Rightarrow> gate option \<times> (exn + 'r)) \<Rightarrow>
   gate option \<times> (exn + 'r)" where
  "invoke_handler gt r mt run =
     (case resolve_handler gt r mt of
        Inl x \<Rightarrow> (gt, Inl x)
      | Inr e \<Rightarrow> with_admission gt (oh_generation e) (run (oh_handler e)))"

definition drop_handlers :: "'h handler_registry \<Rightarrow> generation \<Rightarrow> 'h handler_registry" where
  "drop_handlers r g = r\<lparr>hr_handlers := dict_keep (\<lambda>e. oh_generation e \<noteq> Some g) (hr_handlers r)\<rparr>"

definition remove_handlers ::
  "('h, 'w) selector list \<Rightarrow> 'h handler_registry \<Rightarrow> generation \<Rightarrow> 'w \<Rightarrow> 'h handler_registry \<times> 'w" where
  "remove_handlers sels r g w = (drop_handlers r g, foldl (\<lambda>w s. sel_remove s g w) w sels)"

interpretation hdl: dict_table hr_handlers oh_type oh_generation put_handler drop_handlers
  by unfold_locales (auto simp: put_handler_def drop_handlers_def split: option.splits)

section \<open>The event bus\<close>

record event_class =
  ec_id :: nat
  ec_name :: string
  ec_event_type :: string
  ec_schema :: int

record 'h event_handler =
  eh_owner :: string
  eh_subscriber :: string
  eh_handler :: 'h
  eh_generation :: "generation option"
  eh_permission :: "string option"

record subscriber_declaration =
  sd_event_type :: string
  sd_subscriber :: string
  sd_owner :: string

record 'h event_bus =
  eb_handlers :: "(event_class, (string, 'h event_handler) dict) dict"
  eb_types :: "(string, event_class) dict"
  eb_durable :: "(string, (string, string) dict) dict"

definition new_event_bus :: "'h event_bus" where
  "new_event_bus = \<lparr>eb_handlers = [], eb_types = [], eb_durable = []\<rparr>"

text \<open>\<open>d.get(k, {})\<close> for a dictionary of dictionaries.\<close>

definition inner :: "('k, ('a, 'b) dict) dict \<Rightarrow> 'k \<Rightarrow> ('a, 'b) dict" where
  "inner d k = (case dict_get d k of None \<Rightarrow> [] | Some x \<Rightarrow> x)"

definition resolved_owner :: "string option \<Rightarrow> string \<Rightarrow> string" where
  "resolved_owner owner sub = (case owner of None \<Rightarrow> sub | Some x \<Rightarrow> if x = '''' then sub else x)"

text \<open>The bus is changed in place, so a refused subscription returns the bus it leaves behind.\<close>

definition subscribe ::
  "'h event_bus \<Rightarrow> event_class \<Rightarrow> string \<Rightarrow> 'h \<Rightarrow> string option \<Rightarrow> generation option \<Rightarrow> string option \<Rightarrow>
   'h event_bus \<times> exn option" where
  "subscribe b c sub h owner go permission =
     (if \<exists>current. dict_get (eb_types b) (ec_event_type c) = Some current \<and> current \<noteq> c
      then (b, Some (ConflictError (''Event type is already registered: '' @ ec_event_type c)))
      else
        let b1 = b\<lparr>eb_types := dict_set (ec_event_type c) c (eb_types b)\<rparr>;
            resolved = resolved_owner owner sub;
            handlers = inner (eb_handlers b1) c
        in if \<exists>x. dict_get (inner (eb_durable b1) (ec_event_type c)) sub = Some x \<and> x \<noteq> resolved
           then (b1, Some (ConflictError (''Durable event subscriber is owned by another module: ''
                  @ ec_event_type c @ ''/'' @ sub)))
           else if dict_get handlers sub \<noteq> None
           then (b1, Some (ConflictError (''Event subscriber already registered: '' @ ec_name c @ ''/'' @ sub)))
           else (b1\<lparr>eb_handlers := dict_set c (dict_set sub \<lparr>eh_owner = resolved, eh_subscriber = sub,
                    eh_handler = h, eh_generation = go, eh_permission = permission\<rparr> handlers) (eb_handlers b1)\<rparr>, None))"

text \<open>\<open>parse\<close> is \<open>model_validate_json\<close> of the registered class.\<close>

definition decode ::
  "(event_class \<Rightarrow> 'p \<Rightarrow> exn + 'e) \<Rightarrow> 'h event_bus \<Rightarrow> string \<Rightarrow> 'p \<Rightarrow> int option \<Rightarrow> exn + 'e" where
  "decode parse b et payload schema_version =
     (case dict_get (eb_types b) et of
        None \<Rightarrow> Inl (NotFoundError (''Unknown event type: '' @ et))
      | Some c \<Rightarrow>
          (case schema_version of
             Some v \<Rightarrow> if v \<noteq> ec_schema c
                       then Inl (DeliveryUnavailableError (''Unsupported event schema version: '' @ et
                              @ ''/'' @ show_int v))
                       else parse c payload
           | None \<Rightarrow> parse c payload))"

definition subscribers :: "gate option \<Rightarrow> 'h event_bus \<Rightarrow> event_class \<Rightarrow> 'h event_handler list" where
  "subscribers gt b c =
     (let handlers = inner (eb_handlers b) c
      in filter (\<lambda>h. generation_active gt (eh_generation h))
           (map (\<lambda>n. the (dict_get handlers n)) (sorted_set (map fst handlers))))"

definition delivery_subscribers ::
  "gate option \<Rightarrow> 'h event_bus \<Rightarrow> event_class \<Rightarrow> exn + 'h event_handler list" where
  "delivery_subscribers gt b c =
     (let obligated = map fst (inner (eb_durable b) (ec_event_type c)) @ map fst (inner (eb_handlers b) c);
          active = subscribers gt b c
      in if list_ex (\<lambda>n. n \<notin> eh_subscriber ` set active) obligated
         then Inl (DeliveryUnavailableError ''Durable event subscriber is temporarily unavailable'')
         else Inr active)"

text \<open>\<open>admit_delivery\<close> holds one admission for all subscribers while the body runs.\<close>

definition admit_delivery ::
  "gate option \<Rightarrow> 'h event_bus \<Rightarrow> event_class \<Rightarrow>
   ('h event_handler list \<Rightarrow> gate option \<Rightarrow> gate option \<times> (exn + 'r)) \<Rightarrow> gate option \<times> (exn + 'r)" where
  "admit_delivery gt b c body =
     (case delivery_subscribers gt b c of
        Inl x \<Rightarrow> (gt, Inl x)
      | Inr hs \<Rightarrow>
          (case gt of
             None \<Rightarrow> body hs None
           | Some s \<Rightarrow>
               (case admit_many_enter s (map eh_generation hs) of
                  Inl x \<Rightarrow> (gt, Inl x)
                | Inr s1 \<Rightarrow>
                    let (gt2, r) = body hs (Some s1)
                    in (map_option (\<lambda>s2. admit_many_exit s2 (map eh_generation hs)) gt2, r))))"

definition subscriber_declarations :: "'h event_bus \<Rightarrow> subscriber_declaration list" where
  "subscriber_declarations b =
     concat (map (\<lambda>(c, handlers). map (\<lambda>(n, h).
         \<lparr>sd_event_type = ec_event_type c, sd_subscriber = n, sd_owner = eh_owner h\<rparr>)
         (sort_key fst handlers))
       (sort_key (\<lambda>e. ec_event_type (fst e)) (eb_handlers b)))"

text \<open>\<open>bind_durable_subscribers\<close> works on a copy, so a refused binding changes nothing.\<close>

definition bind_one ::
  "'h event_bus \<Rightarrow> (string, (string, string) dict) dict \<Rightarrow> subscriber_declaration \<Rightarrow>
   exn + (string, (string, string) dict) dict" where
  "bind_one b merged d =
     (let owners = inner merged (sd_event_type d)
      in if \<exists>x. dict_get owners (sd_subscriber d) = Some x \<and> x \<noteq> sd_owner d
         then Inl (ConflictError (''Durable event subscriber ownership changed: '' @ sd_event_type d
                @ ''/'' @ sd_subscriber d))
         else if list_ex (\<lambda>(c, handlers). ec_event_type c = sd_event_type d \<and>
                (case dict_get handlers (sd_subscriber d) of None \<Rightarrow> False | Some h \<Rightarrow> eh_owner h \<noteq> sd_owner d))
                (eb_handlers b)
         then Inl (ConflictError (''Durable event subscriber is owned by another module: '' @ sd_event_type d
                @ ''/'' @ sd_subscriber d))
         else Inr (dict_set (sd_event_type d) (dict_set (sd_subscriber d) (sd_owner d) owners) merged))"

lemma bind_one_code [code]:
  "bind_one b merged d =
     (let owners = inner merged (sd_event_type d)
      in if (case dict_get owners (sd_subscriber d) of None \<Rightarrow> False | Some x \<Rightarrow> x \<noteq> sd_owner d)
         then Inl (ConflictError (''Durable event subscriber ownership changed: '' @ sd_event_type d
                @ ''/'' @ sd_subscriber d))
         else if list_ex (\<lambda>(c, handlers). ec_event_type c = sd_event_type d \<and>
                (case dict_get handlers (sd_subscriber d) of None \<Rightarrow> False | Some h \<Rightarrow> eh_owner h \<noteq> sd_owner d))
                (eb_handlers b)
         then Inl (ConflictError (''Durable event subscriber is owned by another module: '' @ sd_event_type d
                @ ''/'' @ sd_subscriber d))
         else Inr (dict_set (sd_event_type d) (dict_set (sd_subscriber d) (sd_owner d) owners) merged))"
  by (auto simp: bind_one_def Let_def split: option.splits)

definition bind_durable_subscribers ::
  "'h event_bus \<Rightarrow> subscriber_declaration list \<Rightarrow> exn + 'h event_bus" where
  "bind_durable_subscribers b ds =
     (case fold_res (bind_one b) (eb_durable b) ds of
        Inl x \<Rightarrow> Inl x
      | Inr merged \<Rightarrow> Inr (b\<lparr>eb_durable := merged\<rparr>))"

definition generation_published :: "gate option \<Rightarrow> generation \<Rightarrow> exn + bool" where
  "generation_published gt g =
     (case gt of
        None \<Rightarrow> Inr False
      | Some s \<Rightarrow> (case state_of s g of Inl x \<Rightarrow> Inl x | Inr l \<Rightarrow> Inr (l \<noteq> STAGED)))"

text \<open>The body of the loop in \<open>remove_owner_generation\<close>, for one event class.\<close>

definition record_obligations ::
  "generation \<Rightarrow> 'h event_handler list \<Rightarrow> (string, string) dict \<Rightarrow> (string, string) dict" where
  "record_obligations g hs owners =
     foldl (\<lambda>d h. if eh_generation h = Some g then dict_set (eh_subscriber h) (eh_owner h) d else d) owners hs"

definition remove_class :: "bool \<Rightarrow> generation \<Rightarrow> 'h event_bus \<Rightarrow> event_class \<Rightarrow> 'h event_bus" where
  "remove_class published g b c =
     (let handlers = inner (eb_handlers b) c;
          et = ec_event_type c;
          durable = (if published
             then dict_set et (record_obligations g (map snd handlers) (inner (eb_durable b) et)) (eb_durable b)
             else eb_durable b);
          kept = dict_keep (\<lambda>h. eh_generation h \<noteq> Some g) handlers
      in if kept = []
         then b\<lparr>eb_durable := durable, eb_handlers := dict_pop c (eb_handlers b),
                eb_types := (if inner durable et = [] then dict_pop et (eb_types b) else eb_types b)\<rparr>
         else b\<lparr>eb_durable := durable, eb_handlers := dict_set c kept (eb_handlers b)\<rparr>)"

definition remove_subscriptions :: "gate option \<Rightarrow> 'h event_bus \<Rightarrow> generation \<Rightarrow> exn + 'h event_bus" where
  "remove_subscriptions gt b g =
     (case generation_published gt g of
        Inl x \<Rightarrow> Inl x
      | Inr published \<Rightarrow> Inr (foldl (remove_class published g) b (map fst (eb_handlers b))))"

section \<open>What the bus holds\<close>

definition handler_at :: "'h event_bus \<Rightarrow> event_class \<Rightarrow> string \<Rightarrow> 'h event_handler option" where
  "handler_at b c n = dict_get (inner (eb_handlers b) c) n"

definition durable_owner :: "'h event_bus \<Rightarrow> string \<Rightarrow> string \<Rightarrow> string option" where
  "durable_owner b et n = dict_get (inner (eb_durable b) et) n"

text \<open>
  An event type names one class, no class is listed without handlers, a handler is stored under its
  subscriber's name and agrees with the durable owner of that subscription.
\<close>

definition bus_ok :: "'h event_bus \<Rightarrow> bool" where
  "bus_ok b \<longleftrightarrow> dict_ok (eb_handlers b) \<and> (\<forall>c. dict_ok (inner (eb_handlers b) c)) \<and>
     (\<forall>c n h. handler_at b c n = Some h \<longrightarrow> eh_subscriber h = n \<and> dict_get (eb_types b) (ec_event_type c) = Some c \<and>
        (\<forall>x. durable_owner b (ec_event_type c) n = Some x \<longrightarrow> eh_owner h = x)) \<and>
     (\<forall>c hs. dict_get (eb_handlers b) c = Some hs \<longrightarrow> hs \<noteq> [])"

lemma bus_okI:
  assumes "dict_ok (eb_handlers b)" "\<And>c. dict_ok (inner (eb_handlers b) c)"
    and "\<And>c n h. handler_at b c n = Some h \<Longrightarrow> eh_subscriber h = n"
    and "\<And>c n h. handler_at b c n = Some h \<Longrightarrow> dict_get (eb_types b) (ec_event_type c) = Some c"
    and "\<And>c n h x. handler_at b c n = Some h \<Longrightarrow> durable_owner b (ec_event_type c) n = Some x \<Longrightarrow> eh_owner h = x"
    and "\<And>c hs. dict_get (eb_handlers b) c = Some hs \<Longrightarrow> hs \<noteq> []"
  shows "bus_ok b"
  using assms unfolding bus_ok_def by blast

lemma bus_okD:
  assumes "bus_ok b"
  shows "dict_ok (eb_handlers b)" "dict_ok (inner (eb_handlers b) c)"
    and "handler_at b c n = Some h \<Longrightarrow> eh_subscriber h = n"
    and "handler_at b c n = Some h \<Longrightarrow> dict_get (eb_types b) (ec_event_type c) = Some c"
    and "handler_at b c n = Some h \<Longrightarrow> durable_owner b (ec_event_type c) n = Some x \<Longrightarrow> eh_owner h = x"
    and "dict_get (eb_handlers b) c = Some hs \<Longrightarrow> hs \<noteq> []"
  using assms unfolding bus_ok_def by blast+

lemma inner_set [simp]: "inner (dict_set k x d) k' = (if k' = k then x else inner d k')"
  by (simp add: inner_def dict_get_set)

lemma inner_pop [simp]: "inner (dict_pop k d) k' = (if k' = k then [] else inner d k')"
  by (simp add: inner_def dict_get_pop)

lemma bus_ok_new: "bus_ok new_event_bus"
  by (simp add: bus_ok_def new_event_bus_def handler_at_def durable_owner_def inner_def)

lemma bus_ok_class:
  assumes "bus_ok b" "c \<in> set (map fst (eb_handlers b))"
  obtains n h where "handler_at b c n = Some h"
proof -
  from assms(2) obtain hs where hs: "dict_get (eb_handlers b) c = Some hs"
    by (auto simp: dict_keys_iff)
  with bus_okD(6) [OF assms(1) hs] obtain n h rest where "hs = (n, h) # rest" by (cases hs) auto
  with hs that [of n h] show ?thesis by (simp add: handler_at_def inner_def)
qed

section \<open>Subscribing and binding\<close>

lemma subscribe_effect:
  assumes "subscribe b c sub h owner go perm = (b', e)"
  shows "eb_durable b' = eb_durable b"
    and "e \<noteq> None \<Longrightarrow> eb_handlers b' = eb_handlers b"
    and "e = None \<Longrightarrow> \<exists>x. handler_at b c sub = None \<and> eh_subscriber x = sub \<and> eh_generation x = go \<and>
      (\<forall>y. durable_owner b (ec_event_type c) sub = Some y \<longrightarrow> eh_owner x = y) \<and>
      eb_handlers b' = dict_set c (dict_set sub x (inner (eb_handlers b) c)) (eb_handlers b)"
    and "eb_types b' = eb_types b \<or> eb_types b' = dict_set (ec_event_type c) c (eb_types b) \<and>
      (\<forall>x. dict_get (eb_types b) (ec_event_type c) = Some x \<longrightarrow> x = c)"
    and "e = None \<Longrightarrow> dict_get (eb_types b') (ec_event_type c) = Some c"
proof -
  show "eb_durable b' = eb_durable b" and "e \<noteq> None \<Longrightarrow> eb_handlers b' = eb_handlers b"
    and "eb_types b' = eb_types b \<or> eb_types b' = dict_set (ec_event_type c) c (eb_types b) \<and>
      (\<forall>x. dict_get (eb_types b) (ec_event_type c) = Some x \<longrightarrow> x = c)"
    and "e = None \<Longrightarrow> dict_get (eb_types b') (ec_event_type c) = Some c"
    using assms unfolding subscribe_def Let_def by (auto simp: dict_get_set split: if_splits)
  let ?x = "\<lparr>eh_owner = resolved_owner owner sub, eh_subscriber = sub, eh_handler = h, eh_generation = go,
      eh_permission = perm\<rparr>"
  show "\<exists>x. handler_at b c sub = None \<and> eh_subscriber x = sub \<and> eh_generation x = go \<and>
      (\<forall>y. durable_owner b (ec_event_type c) sub = Some y \<longrightarrow> eh_owner x = y) \<and>
      eb_handlers b' = dict_set c (dict_set sub x (inner (eb_handlers b) c)) (eb_handlers b)" if "e = None"
    using assms that unfolding subscribe_def Let_def
    by (intro exI [of _ ?x]) (auto simp: handler_at_def durable_owner_def split: if_splits)
qed

lemma bus_ok_subscribe:
  assumes ok: "bus_ok b" and s: "subscribe b c sub h owner go perm = (b', e)"
  shows "bus_ok b'"
proof -
  note eff = subscribe_effect [OF s]
  have types: "dict_get (eb_types b') (ec_event_type c') = Some c'"
    if "dict_get (eb_types b) (ec_event_type c') = Some c'" for c'
    using eff(4) that by (auto simp: dict_get_set)
  have dur: "durable_owner b' = durable_owner b" using eff(1) by (simp add: durable_owner_def fun_eq_iff)
  show ?thesis
  proof (cases e)
    case (Some x)
    then have h: "eb_handlers b' = eb_handlers b" using eff(2) by simp
    then have "handler_at b' = handler_at b" by (simp add: handler_at_def fun_eq_iff)
    with bus_okD [OF ok] h types dur show ?thesis by (intro bus_okI) auto
  next
    case None
    from eff(3) [OF this] obtain x where x: "handler_at b c sub = None" "eh_subscriber x = sub" "eh_generation x = go"
      "\<And>y. durable_owner b (ec_event_type c) sub = Some y \<Longrightarrow> eh_owner x = y"
      and h: "eb_handlers b' = dict_set c (dict_set sub x (inner (eb_handlers b) c)) (eb_handlers b)" by blast
    have at: "handler_at b' c' n = (if c' = c \<and> n = sub then Some x else handler_at b c' n)" for c' n
      using h by (simp add: handler_at_def dict_get_set)
    have ne: "dict_set sub x (inner (eb_handlers b) c) \<noteq> []" by (cases "inner (eb_handlers b) c") auto
    show ?thesis
      using bus_okD [OF ok] x types dur h at ne eff(5) [OF None]
      by (intro bus_okI) (auto simp: dict_get_set split: if_splits)
  qed
qed

lemma bind_one_effect:
  assumes "bind_one b m d = Inr m'"
  shows "dict_get (inner m' et) n = (if et = sd_event_type d \<and> n = sd_subscriber d then Some (sd_owner d)
      else dict_get (inner m et) n)"
    and "dict_get (inner m (sd_event_type d)) (sd_subscriber d) = Some x \<Longrightarrow> x = sd_owner d"
    and "dict_ok (eb_handlers b) \<Longrightarrow> handler_at b c n = Some h \<Longrightarrow> ec_event_type c = sd_event_type d \<Longrightarrow>
      n = sd_subscriber d \<Longrightarrow> eh_owner h = sd_owner d"
proof -
  show "dict_get (inner m' et) n = (if et = sd_event_type d \<and> n = sd_subscriber d then Some (sd_owner d)
      else dict_get (inner m et) n)"
    and "dict_get (inner m (sd_event_type d)) (sd_subscriber d) = Some x \<Longrightarrow> x = sd_owner d"
    using assms by (auto simp: bind_one_def Let_def dict_get_set split: if_splits)
  assume "dict_ok (eb_handlers b)" and h: "handler_at b c n = Some h" "ec_event_type c = sd_event_type d" "n = sd_subscriber d"
  then obtain hs where hs: "dict_get (eb_handlers b) c = Some hs" "dict_get hs n = Some h"
    by (auto simp: handler_at_def inner_def split: option.splits)
  then have "(c, hs) \<in> set (eb_handlers b)" by (auto dest: map_of_SomeD)
  with assms hs(2) h show "eh_owner h = sd_owner d"
    by (auto simp: bind_one_def Let_def list_ex_iff split: if_splits dest!: bspec)
qed

lemma bind_all_effect:
  assumes "bus_ok b" "fold_res (bind_one b) m ds = Inr m'"
    and "\<And>c n h x. handler_at b c n = Some h \<Longrightarrow> dict_get (inner m (ec_event_type c)) n = Some x \<Longrightarrow> eh_owner h = x"
  shows "(\<forall>et n x. dict_get (inner m et) n = Some x \<longrightarrow> dict_get (inner m' et) n = Some x) \<and>
    (\<forall>c n h x. handler_at b c n = Some h \<longrightarrow> dict_get (inner m' (ec_event_type c)) n = Some x \<longrightarrow> eh_owner h = x)"
  using assms(2,3)
proof (induction ds arbitrary: m)
  case (Cons d ds)
  from Cons.prems(1) obtain m1 where m1: "bind_one b m d = Inr m1" "fold_res (bind_one b) m1 ds = Inr m'"
    by (auto split: sum.splits)
  note eff = bind_one_effect [OF m1(1)]
  have keep: "dict_get (inner m1 et) n = Some x" if "dict_get (inner m et) n = Some x" for et n x
    using eff(1) [of et n] eff(2) that by auto
  have own: "eh_owner h = x" if "handler_at b c n = Some h" "dict_get (inner m1 (ec_event_type c)) n = Some x" for c n h x
    using eff(1) [of "ec_event_type c" n] eff(3) [OF bus_okD(1) [OF assms(1)] that(1)] Cons.prems(2) [OF that(1)] that(2)
    by (auto split: if_splits)
  from Cons.IH [OF m1(2)] own keep show ?case by blast
qed simp

lemma bus_ok_bind:
  assumes ok: "bus_ok b" and s: "bind_durable_subscribers b ds = Inr b'"
  shows "bus_ok b' \<and> handler_at b' = handler_at b \<and>
    (\<forall>et n x. durable_owner b et n = Some x \<longrightarrow> durable_owner b' et n = Some x)"
proof -
  obtain m where m: "fold_res (bind_one b) (eb_durable b) ds = Inr m" "b' = b\<lparr>eb_durable := m\<rparr>"
    using s by (auto simp: bind_durable_subscribers_def split: sum.splits)
  have at: "handler_at b' = handler_at b" using m(2) by (simp add: handler_at_def fun_eq_iff)
  note eff = bind_all_effect [OF ok m(1) bus_okD(5) [OF ok, unfolded durable_owner_def]]
  have "bus_ok b'"
    using bus_okD(1-4,6) [OF ok] eff m(2) at by (intro bus_okI) (auto simp: durable_owner_def)
  with eff m(2) at show ?thesis by (simp add: durable_owner_def)
qed

section \<open>Removing a generation\<close>

definition surviving :: "generation \<Rightarrow> 'h event_handler option \<Rightarrow> 'h event_handler option" where
  "surviving g ho = (case ho of None \<Rightarrow> None | Some h \<Rightarrow> if eh_generation h = Some g then None else Some h)"

lemma record_other:
  "(\<And>h. h \<in> set hs \<Longrightarrow> eh_generation h = Some g \<Longrightarrow> eh_subscriber h \<noteq> n) \<Longrightarrow>
     dict_get (record_obligations g hs owners) n = dict_get owners n"
  unfolding record_obligations_def by (induction hs arbitrary: owners) (auto simp: dict_get_set)

lemma record_own:
  assumes "h \<in> set hs" "eh_generation h = Some g" "\<And>x. x \<in> set hs \<Longrightarrow> eh_subscriber x = eh_subscriber h \<Longrightarrow> x = h"
  shows "dict_get (record_obligations g hs owners) (eh_subscriber h) = Some (eh_owner h)"
  using assms
proof (induction hs arbitrary: owners)
  case (Cons x hs)
  show ?case
  proof (cases "h \<in> set hs")
    case True
    with Cons show ?thesis unfolding record_obligations_def by simp
  next
    case False
    then have "x = h" using Cons.prems(1) by simp
    have "dict_get (record_obligations g hs (dict_set (eh_subscriber h) (eh_owner h) owners)) (eh_subscriber h)
        = dict_get (dict_set (eh_subscriber h) (eh_owner h) owners) (eh_subscriber h)"
      by (rule record_other) (use Cons.prems(3) False in auto)
    with \<open>x = h\<close> Cons.prems(2) show ?thesis by (simp add: record_obligations_def dict_get_set)
  qed
qed simp

lemma class_handlers:
  assumes "bus_ok b"
  shows "h \<in> set (map snd (inner (eb_handlers b) c)) \<longleftrightarrow> handler_at b c (eh_subscriber h) = Some h"
proof
  assume "h \<in> set (map snd (inner (eb_handlers b) c))"
  then obtain n where "(n, h) \<in> set (inner (eb_handlers b) c)" by auto
  then have "handler_at b c n = Some h" using bus_okD(2) [OF assms, of c] by (simp add: handler_at_def)
  with bus_okD(3) [OF assms this] show "handler_at b c (eh_subscriber h) = Some h" by simp
next
  assume "handler_at b c (eh_subscriber h) = Some h"
  then show "h \<in> set (map snd (inner (eb_handlers b) c))"
    by (force simp: handler_at_def dest: map_of_SomeD)
qed

lemma recorded_owner:
  assumes ok: "bus_ok b"
  shows "dict_get (record_obligations g (map snd (inner (eb_handlers b) c)) (inner (eb_durable b) (ec_event_type c))) n =
    (if \<exists>h. handler_at b c n = Some h \<and> eh_generation h = Some g then Some (eh_owner (the (handler_at b c n)))
     else durable_owner b (ec_event_type c) n)"
proof (cases "\<exists>h. handler_at b c n = Some h \<and> eh_generation h = Some g")
  case True
  then obtain h where h: "handler_at b c n = Some h" "eh_generation h = Some g" by blast
  have n: "eh_subscriber h = n" by (rule bus_okD(3) [OF ok h(1)])
  have "dict_get (record_obligations g (map snd (inner (eb_handlers b) c)) (inner (eb_durable b) (ec_event_type c)))
      (eh_subscriber h) = Some (eh_owner h)"
    using h n by (intro record_own) (auto simp: class_handlers [OF ok] simp del: set_map)
  with h n show ?thesis by simp
next
  case False
  then have "dict_get (record_obligations g (map snd (inner (eb_handlers b) c)) (inner (eb_durable b) (ec_event_type c))) n
      = dict_get (inner (eb_durable b) (ec_event_type c)) n"
    by (intro record_other) (auto simp: class_handlers [OF ok] simp del: set_map)
  with False show ?thesis unfolding durable_owner_def by (simp only: if_False)
qed

lemma remove_class_at:
  assumes "bus_ok b"
  shows "handler_at (remove_class p g b c) c' n = (if c' = c then surviving g (handler_at b c n) else handler_at b c' n)"
proof -
  let ?kept = "dict_keep (\<lambda>h. eh_generation h \<noteq> Some g) (inner (eb_handlers b) c)"
  have s: "dict_get ?kept n = surviving g (handler_at b c n)"
    using bus_okD(2) [OF assms] by (simp add: dict_get_keep handler_at_def surviving_def split: option.split)
  show ?thesis
  proof (cases "?kept = []")
    case True
    with s show ?thesis by (auto simp: remove_class_def Let_def handler_at_def)
  next
    case False
    with s show ?thesis by (auto simp: remove_class_def Let_def handler_at_def)
  qed
qed

lemma remove_class_durable:
  assumes "bus_ok b"
  shows "durable_owner (remove_class p g b c) et n =
    (if p \<and> et = ec_event_type c \<and> (\<exists>h. handler_at b c n = Some h \<and> eh_generation h = Some g)
     then Some (eh_owner (the (handler_at b c n))) else durable_owner b et n)"
proof -
  have "eb_durable (remove_class p g b c) = (if p then dict_set (ec_event_type c)
      (record_obligations g (map snd (inner (eb_handlers b) c)) (inner (eb_durable b) (ec_event_type c))) (eb_durable b)
      else eb_durable b)"
    by (simp add: remove_class_def Let_def)
  with recorded_owner [OF assms, of g c n] show ?thesis by (auto simp: durable_owner_def)
qed

lemma remove_class_keys:
  "bus_ok b \<Longrightarrow> c' \<in> set (map fst (eb_handlers b)) \<Longrightarrow> c' \<noteq> c \<Longrightarrow>
     c' \<in> set (map fst (eb_handlers (remove_class p g b c)))"
  unfolding set_map dict_keys_iff by (auto simp: remove_class_def Let_def dict_simps)

lemma remove_class_ok:
  assumes ok: "bus_ok b" and c: "c \<in> set (map fst (eb_handlers b))"
  shows "bus_ok (remove_class p g b c)"
proof -
  let ?b = "remove_class p g b c"
  note at = remove_class_at [OF ok, of p g c] and dur = remove_class_durable [OF ok, of p g c]
  have old: "handler_at b c' n = Some h" "c' = c \<Longrightarrow> eh_generation h \<noteq> Some g" if "handler_at ?b c' n = Some h" for c' n h
    using that at [of c' n] by (auto simp: surviving_def split: if_splits option.splits)
  obtain n0 h0 where c0: "handler_at b c n0 = Some h0" using bus_ok_class [OF ok c] by blast
  have types: "dict_get (eb_types ?b) (ec_event_type c') = Some c'" if h: "handler_at ?b c' n = Some h" for c' n h
  proof -
    have t: "dict_get (eb_types b) (ec_event_type c') = Some c'" by (rule bus_okD(4) [OF ok old(1) [OF h]])
    show ?thesis
    proof (cases "ec_event_type c' = ec_event_type c")
      case True
      with t bus_okD(4) [OF ok c0] have "c' = c" by (metis option.inject)
      with h have "dict_keep (\<lambda>h. eh_generation h \<noteq> Some g) (inner (eb_handlers b) c) \<noteq> []"
        by (auto simp: handler_at_def remove_class_def Let_def)
      with t show ?thesis by (simp add: remove_class_def Let_def)
    qed (use t in \<open>simp add: remove_class_def Let_def dict_get_pop\<close>)
  qed
  show ?thesis
  proof (rule bus_okI)
    show "dict_ok (eb_handlers ?b)" using bus_okD(1) [OF ok] by (simp add: remove_class_def Let_def)
    show "dict_ok (inner (eb_handlers ?b) c')" for c'
      using bus_okD(2) [OF ok] by (simp add: remove_class_def Let_def)
    show "eh_subscriber h = n" if "handler_at ?b c' n = Some h" for c' n h
      by (rule bus_okD(3) [OF ok old(1) [OF that]])
    show "dict_get (eb_types ?b) (ec_event_type c') = Some c'" if "handler_at ?b c' n = Some h" for c' n h
      using that by (rule types)
    show "hs \<noteq> []" if "dict_get (eb_handlers ?b) c' = Some hs" for c' hs
      using that bus_okD(6) [OF ok] by (auto simp: remove_class_def Let_def dict_simps split: if_splits)
    show "eh_owner h = x" if "handler_at ?b c' n = Some h" "durable_owner ?b (ec_event_type c') n = Some x" for c' n h x
    proof (cases "ec_event_type c' = ec_event_type c")
      case True
      with bus_okD(4) [OF ok c0] bus_okD(4) [OF ok old(1) [OF that(1)]] have "c' = c" by simp
      note h = old [OF that(1)]
      have "durable_owner ?b (ec_event_type c') n = durable_owner b (ec_event_type c') n"
        using dur [of "ec_event_type c'" n] h \<open>c' = c\<close> by simp
      with that(2) bus_okD(5) [OF ok h(1)] show ?thesis by simp
    next
      case False
      with that(2) dur [of "ec_event_type c'" n] bus_okD(5) [OF ok old(1) [OF that(1)]] show ?thesis by simp
    qed
  qed
qed

lemma remove_classes:
  assumes "bus_ok b" "distinct cs" "set cs \<subseteq> set (map fst (eb_handlers b))"
  shows "bus_ok (foldl (remove_class p g) b cs) \<and>
    (\<forall>c n. handler_at (foldl (remove_class p g) b cs) c n =
       (if c \<in> set cs then surviving g (handler_at b c n) else handler_at b c n)) \<and>
    (\<forall>et n x. durable_owner b et n = Some x \<longrightarrow> durable_owner (foldl (remove_class p g) b cs) et n = Some x) \<and>
    (\<forall>c n h. p \<longrightarrow> c \<in> set cs \<longrightarrow> handler_at b c n = Some h \<longrightarrow> eh_generation h = Some g \<longrightarrow>
       durable_owner (foldl (remove_class p g) b cs) (ec_event_type c) n = Some (eh_owner h))"
  using assms
proof (induction cs arbitrary: b)
  case (Cons c cs)
  let ?b = "remove_class p g b c"
  have c: "c \<in> set (map fst (eb_handlers b))" using Cons.prems(3) by simp
  have sub: "set cs \<subseteq> set (map fst (eb_handlers ?b))"
  proof
    fix x assume x: "x \<in> set cs"
    with Cons.prems(2,3) have "x \<noteq> c" "x \<in> set (map fst (eb_handlers b))" by auto
    then show "x \<in> set (map fst (eb_handlers ?b))" by (intro remove_class_keys [OF Cons.prems(1)])
  qed
  note ih = Cons.IH [OF remove_class_ok [OF Cons.prems(1) c] _ sub]
  note at = remove_class_at [OF Cons.prems(1), of p g c] and dur = remove_class_durable [OF Cons.prems(1), of p g c]
  have keep: "durable_owner ?b et n = Some x" if "durable_owner b et n = Some x" for et n x
    using that dur [of et n] bus_okD(5) [OF Cons.prems(1), of c n] by auto
  have own: "durable_owner ?b (ec_event_type c) n = Some (eh_owner h)"
    if "p" "handler_at b c n = Some h" "eh_generation h = Some g" for n h
    using that dur [of "ec_event_type c" n] by simp
  have c': "c \<notin> set cs" using Cons.prems(2) by simp
  have d: "distinct cs" using Cons.prems(2) by simp
  have own': "durable_owner (foldl (remove_class p g) ?b cs) (ec_event_type c1) n = Some (eh_owner h)"
    if "p" "c1 \<in> set (c # cs)" "handler_at b c1 n = Some h" "eh_generation h = Some g" for c1 n h
  proof (cases "c1 = c")
    case True
    with own [of n h] that ih [OF d] show ?thesis by blast
  next
    case False
    with at [of c1 n] that have "handler_at ?b c1 n = Some h" "c1 \<in> set cs" by simp_all
    with ih [OF d] that show ?thesis by blast
  qed
  have at': "handler_at (foldl (remove_class p g) ?b cs) c1 n =
      (if c1 \<in> set (c # cs) then surviving g (handler_at b c1 n) else handler_at b c1 n)" for c1 n
    using ih [OF d] at [of c1 n] c' by (cases "c1 = c") simp_all
  show ?case using ih [OF d] keep own' at' by simp
qed simp

lemma remove_subscriptions_effect:
  assumes ok: "bus_ok b" and p: "generation_published gt g = Inr p" and r: "remove_subscriptions gt b g = Inr b'"
  shows "bus_ok b'" "handler_at b' c n = surviving g (handler_at b c n)"
    and "durable_owner b et n = Some x \<Longrightarrow> durable_owner b' et n = Some x"
    and "p \<Longrightarrow> handler_at b c n = Some h \<Longrightarrow> eh_generation h = Some g \<Longrightarrow>
      durable_owner b' (ec_event_type c) n = Some (eh_owner h)"
proof -
  have b': "b' = foldl (remove_class p g) b (map fst (eb_handlers b))" using p r by (simp add: remove_subscriptions_def)
  note eff = remove_classes [OF ok bus_okD(1) [OF ok] subset_refl, of p g, folded b']
  have key: "c \<in> set (map fst (eb_handlers b))" if "handler_at b c n \<noteq> None" for c n
  proof -
    from that obtain hs where "dict_get (eb_handlers b) c = Some hs"
      by (auto simp: handler_at_def inner_def split: option.splits)
    then show ?thesis unfolding set_map dict_keys_iff by blast
  qed
  show "bus_ok b'" and "durable_owner b et n = Some x \<Longrightarrow> durable_owner b' et n = Some x" using eff by blast+
  show "handler_at b' c n = surviving g (handler_at b c n)"
    using eff key [of c n] by (cases "handler_at b c n") (auto simp: surviving_def)
  show "durable_owner b' (ec_event_type c) n = Some (eh_owner h)"
    if "p" "handler_at b c n = Some h" "eh_generation h = Some g"
    using eff key [of c n] that by auto
qed

section \<open>Histories of the bus\<close>

datatype 'h bus_op =
    Subscribe event_class string 'h "string option" "generation option" "string option"
  | BindDurable "subscriber_declaration list"
  | RemoveSubscriptions "gate option" generation

fun bus_step :: "'h event_bus \<Rightarrow> 'h bus_op \<Rightarrow> 'h event_bus" where
  "bus_step b (Subscribe c sub h owner go perm) = fst (subscribe b c sub h owner go perm)"
| "bus_step b (BindDurable ds) = (case bind_durable_subscribers b ds of Inl x \<Rightarrow> b | Inr b' \<Rightarrow> b')"
| "bus_step b (RemoveSubscriptions gt g) = (case remove_subscriptions gt b g of Inl x \<Rightarrow> b | Inr b' \<Rightarrow> b')"

lemma bus_step_ok: "bus_ok b \<Longrightarrow> bus_ok (bus_step b op)"
proof (cases op)
  case (Subscribe c sub h owner go perm)
  then show "bus_ok b \<Longrightarrow> ?thesis"
    using bus_ok_subscribe [of b c sub h owner go perm] by (cases "subscribe b c sub h owner go perm") auto
next
  case (BindDurable ds)
  then show "bus_ok b \<Longrightarrow> ?thesis" using bus_ok_bind [of b ds] by (auto split: sum.split)
next
  case (RemoveSubscriptions gt g)
  assume ok: "bus_ok b"
  show ?thesis
  proof (cases "remove_subscriptions gt b g")
    case (Inr b')
    then obtain p where "generation_published gt g = Inr p" by (auto simp: remove_subscriptions_def split: sum.splits)
    from remove_subscriptions_effect(1) [OF ok this Inr] RemoveSubscriptions Inr show ?thesis by simp
  qed (use ok RemoveSubscriptions in simp)
qed

lemma bus_steps_ok: "bus_ok b \<Longrightarrow> bus_ok (foldl bus_step b ops)"
  by (induction ops arbitrary: b) (simp_all add: bus_step_ok)

lemma bus_step_durable:
  assumes ok: "bus_ok b" and d: "durable_owner b et n = Some x"
  shows "durable_owner (bus_step b op) et n = Some x"
proof (cases op)
  case (Subscribe c sub h owner go perm)
  then show ?thesis
    using d subscribe_effect(1) [of b c sub h owner go perm] by (cases "subscribe b c sub h owner go perm") (auto simp: durable_owner_def)
next
  case (BindDurable ds)
  then show ?thesis using d bus_ok_bind [OF ok, of ds] by (auto split: sum.split)
next
  case (RemoveSubscriptions gt g)
  show ?thesis
  proof (cases "remove_subscriptions gt b g")
    case (Inr b')
    then obtain p where "generation_published gt g = Inr p" by (auto simp: remove_subscriptions_def split: sum.splits)
    from remove_subscriptions_effect(3) [OF ok this Inr d] RemoveSubscriptions Inr show ?thesis by simp
  qed (use d RemoveSubscriptions in simp)
qed

text \<open>A handler leaves the bus only with its generation, and leaves an obligation if that was published.\<close>

lemma bus_step_handler:
  assumes ok: "bus_ok b" and h: "handler_at b c n = Some h"
    and p: "\<And>gt g. op = RemoveSubscriptions gt g \<Longrightarrow> eh_generation h = Some g \<Longrightarrow> generation_published gt g \<noteq> Inr False"
  shows "handler_at (bus_step b op) c n = Some h \<or> durable_owner (bus_step b op) (ec_event_type c) n = Some (eh_owner h)"
proof (cases op)
  case (Subscribe c' sub h' owner go perm)
  obtain b' e where s: "subscribe b c' sub h' owner go perm = (b', e)" by fastforce
  note eff = subscribe_effect(2,3) [OF s]
  have "handler_at b' c n = Some h"
  proof (cases e)
    case None
    from eff(2) [OF this] h show ?thesis by (auto simp: handler_at_def dict_get_set)
  next
    case (Some x)
    with eff(1) h show ?thesis by (simp add: handler_at_def)
  qed
  with s Subscribe show ?thesis by simp
next
  case (BindDurable ds)
  then show ?thesis using h bus_ok_bind [OF ok, of ds] by (auto split: sum.split)
next
  case (RemoveSubscriptions gt g)
  show ?thesis
  proof (cases "remove_subscriptions gt b g")
    case (Inr b')
    then obtain q where q: "generation_published gt g = Inr q" by (auto simp: remove_subscriptions_def split: sum.splits)
    note eff = remove_subscriptions_effect(2,4) [OF ok q Inr]
    show ?thesis
    proof (cases "eh_generation h = Some g")
      case True
      with p [OF RemoveSubscriptions] q have "q" by auto
      from eff(2) [OF this h True] RemoveSubscriptions Inr show ?thesis by simp
    next
      case False
      with eff(1) [of c n] h RemoveSubscriptions Inr show ?thesis by (simp add: surviving_def)
    qed
  qed (use h RemoveSubscriptions in simp)
qed

lemma bus_steps_obligation:
  assumes "bus_ok b" "handler_at b c n = Some h \<or> durable_owner b (ec_event_type c) n = Some (eh_owner h)"
    and "\<And>gt g. RemoveSubscriptions gt g \<in> set ops \<Longrightarrow> eh_generation h = Some g \<Longrightarrow> generation_published gt g \<noteq> Inr False"
  shows "handler_at (foldl bus_step b ops) c n = Some h \<or>
    durable_owner (foldl bus_step b ops) (ec_event_type c) n = Some (eh_owner h)"
  using assms
proof (induction ops arbitrary: b)
  case (Cons op ops)
  have "handler_at (bus_step b op) c n = Some h \<or> durable_owner (bus_step b op) (ec_event_type c) n = Some (eh_owner h)"
    using Cons.prems(2)
  proof
    assume "handler_at b c n = Some h"
    then show ?thesis by (rule bus_step_handler [OF Cons.prems(1)]) (use Cons.prems(3) in auto)
  next
    assume "durable_owner b (ec_event_type c) n = Some (eh_owner h)"
    then show ?thesis using bus_step_durable [OF Cons.prems(1)] by blast
  qed
  then show ?case using Cons.IH [OF bus_step_ok [OF Cons.prems(1)]] Cons.prems(3) by simp
qed simp

section \<open>Deliveries\<close>

lemma set_subscribers:
  assumes "bus_ok b"
  shows "h \<in> set (subscribers gt b c) \<longleftrightarrow> (\<exists>n. handler_at b c n = Some h) \<and> generation_active gt (eh_generation h)"
proof -
  have "h \<in> set (map (\<lambda>n. the (dict_get (inner (eb_handlers b) c) n)) (sorted_set (map fst (inner (eb_handlers b) c)))) \<longleftrightarrow>
      (\<exists>n. handler_at b c n = Some h)"
    unfolding set_map set_sorted_set image_iff [of h] Bex_def dict_keys_iff handler_at_def
    by (metis option.sel)
  then show ?thesis by (auto simp: subscribers_def Let_def)
qed

lemma subscribers_all:
  assumes "bus_ok b" "\<And>n h. handler_at b c n = Some h \<Longrightarrow> generation_active gt (eh_generation h)"
  shows "subscribers gt b c = map (\<lambda>n. the (handler_at b c n)) (sorted_set (map fst (inner (eb_handlers b) c)))"
proof -
  have "generation_active gt (eh_generation (the (dict_get (inner (eb_handlers b) c) n)))"
    if "n \<in> set (sorted_set (map fst (inner (eb_handlers b) c)))" for n
    using that assms(2) by (auto simp: handler_at_def dict_keys_iff)
  then show ?thesis unfolding subscribers_def Let_def by (simp add: filter_True handler_at_def)
qed

text \<open>
  C11: A delivery reaches everyone it is owed to or no one: it is refused as temporarily
  unavailable unless every subscriber that is registered or durably bound for the event has an active
  handler, and then it goes to exactly these handlers, once each, in the order of their names.
\<close>

theorem delivery_exact:
  assumes "b = foldl bus_step new_event_bus ops"
  shows "delivery_subscribers gt b c =
    (if \<exists>n. (handler_at b c n \<noteq> None \<or> durable_owner b (ec_event_type c) n \<noteq> None) \<and>
            \<not> (\<exists>h. handler_at b c n = Some h \<and> generation_active gt (eh_generation h))
     then Inl (DeliveryUnavailableError ''Durable event subscriber is temporarily unavailable'')
     else Inr (map (\<lambda>n. the (handler_at b c n)) (sorted_set (map fst (inner (eb_handlers b) c)))))"
proof -
  have ok: "bus_ok b" unfolding assms by (rule bus_steps_ok [OF bus_ok_new])
  have names: "n \<in> eh_subscriber ` set (subscribers gt b c) \<longleftrightarrow>
      (\<exists>h. handler_at b c n = Some h \<and> generation_active gt (eh_generation h))" for n
    using set_subscribers [OF ok, of _ gt c] bus_okD(3) [OF ok, of c] by (force simp: image_iff)
  have obl: "n \<in> set (map fst (inner (eb_durable b) (ec_event_type c)) @ map fst (inner (eb_handlers b) c)) \<longleftrightarrow>
      handler_at b c n \<noteq> None \<or> durable_owner b (ec_event_type c) n \<noteq> None" for n
    by (auto simp: handler_at_def durable_owner_def dict_keys_iff)
  show ?thesis
  proof (cases "\<exists>n. (handler_at b c n \<noteq> None \<or> durable_owner b (ec_event_type c) n \<noteq> None) \<and>
      \<not> (\<exists>h. handler_at b c n = Some h \<and> generation_active gt (eh_generation h))")
    case True
    then show ?thesis
      unfolding delivery_subscribers_def Let_def list_ex_iff Bex_def obl names by (simp only: if_True)
  next
    case False
    then have "subscribers gt b c = map (\<lambda>n. the (handler_at b c n)) (sorted_set (map fst (inner (eb_handlers b) c)))"
      by (intro subscribers_all [OF ok]) (metis option.distinct(1) option.inject)
    with False show ?thesis
      unfolding delivery_subscribers_def Let_def list_ex_iff Bex_def obl names by (simp only: if_False)
  qed
qed

text \<open>
  No delivery slips through while a module is replaced: once a subscriber has been
  registered, and unless its registration is rolled back before it was ever published, every delivery
  of the event that goes ahead at any later time includes an active handler of the same
  subscriber and the same owning module.
\<close>

theorem deliveries_never_skip:
  assumes b: "b = foldl bus_step new_event_bus ops" and h: "handler_at b c n = Some h"
    and pub: "\<And>gt g. RemoveSubscriptions gt g \<in> set ops' \<Longrightarrow> eh_generation h = Some g \<Longrightarrow>
      generation_published gt g \<noteq> Inr False"
    and del: "delivery_subscribers gt (foldl bus_step b ops') c = Inr hs"
  shows "\<exists>h' \<in> set hs. eh_subscriber h' = n \<and> eh_owner h' = eh_owner h \<and> generation_active gt (eh_generation h')"
proof -
  let ?b = "foldl bus_step b ops'"
  have ok: "bus_ok b" unfolding b by (rule bus_steps_ok [OF bus_ok_new])
  then have ok': "bus_ok ?b" by (rule bus_steps_ok)
  have obl: "handler_at ?b c n = Some h \<or> durable_owner ?b (ec_event_type c) n = Some (eh_owner h)"
    by (rule bus_steps_obligation [OF ok _ pub]) (use h in simp_all)
  have hs: "hs = subscribers gt ?b c" and all: "list_all (\<lambda>n. n \<in> eh_subscriber ` set (subscribers gt ?b c))
      (map fst (inner (eb_durable ?b) (ec_event_type c)) @ map fst (inner (eb_handlers ?b) c))"
    using del by (auto simp: delivery_subscribers_def Let_def list_ex_iff list_all_iff split: if_splits)
  have "n \<in> fst ` set (inner (eb_durable ?b) (ec_event_type c)) \<or> n \<in> fst ` set (inner (eb_handlers ?b) c)"
    using obl unfolding dict_keys_iff by (auto simp: handler_at_def durable_owner_def)
  with all have "n \<in> eh_subscriber ` set (subscribers gt ?b c)"
    unfolding list_all_iff set_append set_map by blast
  then obtain h' where h': "h' \<in> set (subscribers gt ?b c)" "eh_subscriber h' = n" by blast
  then have at: "handler_at ?b c n = Some h'" "generation_active gt (eh_generation h')"
    using set_subscribers [OF ok'] bus_okD(3) [OF ok'] by blast+
  have "eh_owner h' = eh_owner h" using obl at bus_okD(5) [OF ok' at(1)] by auto
  with h' at hs show ?thesis by blast
qed

definition demo_class :: event_class where
  "demo_class = \<lparr>ec_id = 1, ec_name = ''Created'', ec_event_type = ''m.created'', ec_schema = 1\<rparr>"

definition demo_bus_gate :: gate where
  "demo_bus_gate = \<lparr>next_generation = [(''m'', 2)],
     states = [(demo_gen, \<lparr>lifecycle = INACTIVE, in_flight = 0, drained = True\<rparr>),
       (\<lparr>gen_owner = ''m'', gen_number = 2\<rparr>, \<lparr>lifecycle = ACTIVE, in_flight = 0, drained = True\<rparr>)], retired = {}\<rparr>"

lemmas bus_evaluation = subscribe_def new_event_bus_def demo_class_def inner_def resolved_owner_def handler_at_def
  remove_subscriptions_def generation_published_def state_of_def gate_state_def demo_bus_gate_def demo_gen_def
  remove_class_def record_obligations_def dict_keep_def delivery_subscribers_def subscribers_def sorted_set_def
  generation_active_def is_active_def Let_def

theorem deliveries_never_skip_witness:
  "\<exists>hs h'. delivery_subscribers (Some demo_bus_gate)
     (foldl bus_step new_event_bus [Subscribe demo_class ''s'' () (Some ''m'') (Some demo_gen) None,
        RemoveSubscriptions (Some demo_bus_gate) demo_gen,
        Subscribe demo_class ''s'' () (Some ''m'') (Some \<lparr>gen_owner = ''m'', gen_number = 2\<rparr>) None]) demo_class = Inr hs \<and>
     h' \<in> set hs \<and> eh_owner h' = ''m''"
proof -
  let ?ops = "[Subscribe demo_class ''s'' () (Some ''m'') (Some demo_gen) None]"
  let ?ops' = "[RemoveSubscriptions (Some demo_bus_gate) demo_gen,
    Subscribe demo_class ''s'' () (Some ''m'') (Some \<lparr>gen_owner = ''m'', gen_number = 2\<rparr>) None]"
  let ?b = "foldl bus_step new_event_bus ?ops"
  have h: "\<exists>h. handler_at ?b demo_class ''s'' = Some h \<and> eh_owner h = ''m''"
    by (simp add: bus_evaluation)
  then obtain h where h: "handler_at ?b demo_class ''s'' = Some h" "eh_owner h = ''m''" by blast
  obtain hs where hs: "delivery_subscribers (Some demo_bus_gate) (foldl bus_step ?b ?ops') demo_class = Inr hs"
    by (simp add: bus_evaluation)
  have "\<exists>h' \<in> set hs. eh_subscriber h' = ''s'' \<and> eh_owner h' = eh_owner h \<and>
      generation_active (Some demo_bus_gate) (eh_generation h')"
    by (rule deliveries_never_skip [OF refl h(1) _ hs])
      (auto simp: generation_published_def state_of_def gate_state_def demo_bus_gate_def demo_gen_def)
  with hs h(2) show ?thesis by auto
qed

theorem delivery_exact_witness:
  "delivery_subscribers None (foldl bus_step new_event_bus
     [BindDurable [\<lparr>sd_event_type = ''m.created'', sd_subscriber = ''s'', sd_owner = ''m''\<rparr>]] :: unit event_bus) demo_class =
   Inl (DeliveryUnavailableError ''Durable event subscriber is temporarily unavailable'')"
proof -
  let ?b = "foldl bus_step new_event_bus
     [BindDurable [\<lparr>sd_event_type = ''m.created'', sd_subscriber = ''s'', sd_owner = ''m''\<rparr>]] :: unit event_bus"
  have "durable_owner ?b (ec_event_type demo_class) ''s'' = Some ''m'' \<and> handler_at ?b demo_class ''s'' = None"
    by (simp add: bind_durable_subscribers_def bind_one_def durable_owner_def bus_evaluation)
  then have "\<exists>n. (handler_at ?b demo_class n \<noteq> None \<or> durable_owner ?b (ec_event_type demo_class) n \<noteq> None) \<and>
      \<not> (\<exists>h. handler_at ?b demo_class n = Some h \<and> generation_active None (eh_generation h))" by (intro exI [of _ "''s''"]) simp
  then show ?thesis using delivery_exact [where b = ?b and gt = None and c = demo_class, OF refl]
    by (simp only: if_True)
qed

section \<open>A refused subscription\<close>

text \<open>
  A subscription that is refused because the subscriber is durably owned by another module has
  already claimed the event type for its class; rolling the module's generation back does not free
  it, since the roll-back looks at classes with handlers only. Every other class of that event
  type is then refused for good.
\<close>

lemma refused_subscription_claims_type:
  assumes "subscribe b c sub h owner go perm = (b', Some e)" and "dict_get (eb_types b) (ec_event_type c) = None"
    and "inner (eb_handlers b) c = []" and "c' \<noteq> c" and "ec_event_type c' = ec_event_type c"
  shows "snd (subscribe b' c' sub' h' owner' go' perm') = Some (ConflictError (''Event type is already registered: '' @ ec_event_type c))"
proof -
  have "eb_types b' = dict_set (ec_event_type c) c (eb_types b)"
    using assms(1-3) by (auto simp: subscribe_def Let_def split: if_splits)
  with assms(4,5) show ?thesis by (simp add: subscribe_def dict_get_set)
qed

end
