(* ===== verification/Resources.thy ===== *)
theory Resources
  imports Invocation Owned_Table Context
begin

text \<open>
  Canonical resource ownership (\<open>platform/src/businessos/resources.py\<close>): which module owns a resource
  namespace, which provider answers for it, and the transaction scopes that bind a handler's use of a
  provider to the dispatcher's transaction. Coroutines are split at their awaits on module code: the
  part before the provider is called and the part after it, so every interleaving is a
  sequence of these parts. Objects compared by identity carry an identity; tasks are numbers.
\<close>

section \<open>Locators and facts\<close>

record resource_locator =
  rl_namespace :: string
  rl_version :: string
  rl_record :: uuid
  rl_tenant :: uuid

text \<open>
  Fact values: immutable scalars, containers, the mapping proxy \<open>_freeze_facts\<close> makes, and any other
  (mutable) object. A mapping key is \<open>None\<close> when it is not a string.
\<close>

datatype fact_value =
    Scalar string
  | PyMapping "(string option \<times> fact_value) list"
  | FrozenMapping "(string option \<times> fact_value) list"
  | PyList "fact_value list"
  | PyTuple "fact_value list"
  | PySet "fact_value list"
  | PyFrozenset "fact_value list"
  | OtherObject string

fun freeze_value :: "fact_value \<Rightarrow> exn + fact_value"
and freeze_values :: "fact_value list \<Rightarrow> exn + fact_value list"
and freeze_entries :: "(string option \<times> fact_value) list \<Rightarrow> exn + (string option \<times> fact_value) list" where
  "freeze_value (Scalar x) = Inr (Scalar x)"
| "freeze_value (PyMapping es) =
     (if list_ex (\<lambda>e. fst e = None) es then Inl (ConfigurationError ''Owner fact names must be strings'')
      else map_sum id FrozenMapping (freeze_entries es))"
| "freeze_value (FrozenMapping es) =
     (if list_ex (\<lambda>e. fst e = None) es then Inl (ConfigurationError ''Owner fact names must be strings'')
      else map_sum id FrozenMapping (freeze_entries es))"
| "freeze_value (PyList xs) = map_sum id PyTuple (freeze_values xs)"
| "freeze_value (PyTuple xs) = map_sum id PyTuple (freeze_values xs)"
| "freeze_value (PySet xs) = map_sum id PyFrozenset (freeze_values xs)"
| "freeze_value (PyFrozenset xs) = map_sum id PyFrozenset (freeze_values xs)"
| "freeze_value (OtherObject x) = Inl (ConfigurationError ''Owner facts contain an unsupported mutable value'')"
| "freeze_values [] = Inr []"
| "freeze_values (x # xs) =
     (case freeze_value x of Inl e \<Rightarrow> Inl e
      | Inr y \<Rightarrow> (case freeze_values xs of Inl e \<Rightarrow> Inl e | Inr ys \<Rightarrow> Inr (y # ys)))"
| "freeze_entries [] = Inr []"
| "freeze_entries ((k, x) # es) =
     (case freeze_value x of Inl e \<Rightarrow> Inl e
      | Inr y \<Rightarrow> (case freeze_entries es of Inl e \<Rightarrow> Inl e | Inr fs \<Rightarrow> Inr ((k, y) # fs)))"

record owner_facts =
  of_tenant :: uuid
  of_namespace :: string
  of_record :: uuid
  of_owner :: string
  of_version :: string
  of_lifecycle :: string
  of_facts :: fact_value

text \<open>\<open>ResourceOwnerFacts.__post_init__\<close> freezes the facts it is given.\<close>

definition make_facts :: "owner_facts \<Rightarrow> exn + owner_facts" where
  "make_facts f = (case freeze_value (of_facts f) of Inl e \<Rightarrow> Inl e | Inr v \<Rightarrow> Inr (f\<lparr>of_facts := v\<rparr>))"

section \<open>The registry\<close>

record owner_binding =
  rb_ownership :: resource_ownership
  rb_generation :: generation

text \<open>
  A provider object is known by its callable attributes, its \<open>supported_actions\<close> (\<open>None\<close> unless a
  frozenset of strings) and its identity.
\<close>

record provider_object =
  po_identity :: nat
  po_callable :: "string list"
  po_actions :: "string list option"

record provider_entry =
  pe_identity :: nat
  pe_binding :: owner_binding
  pe_kind :: string
  pe_provider :: provider_object
  pe_actions :: "string list"

record ownership_registry =
  rr_coordinators :: "string set"
  rr_tokens :: "(generation, nat) dict"
  rr_bindings :: "(string \<times> string, owner_binding) dict"
  rr_aliases :: "(string \<times> string, string \<times> string) dict"
  rr_providers :: "(string \<times> string \<times> string, provider_entry) dict"
  rr_next_entry :: nat

definition new_ownership_registry :: "string set \<Rightarrow> ownership_registry" where
  "new_ownership_registry ids = \<lparr>rr_coordinators = ids, rr_tokens = [], rr_bindings = [], rr_aliases = [],
     rr_providers = [], rr_next_entry = 0\<rparr>"

definition not_staged :: "gate \<Rightarrow> generation \<Rightarrow> string \<Rightarrow> exn + unit" where
  "not_staged s g message =
     (case state_of s g of
        Inl e \<Rightarrow> Inl e
      | Inr l \<Rightarrow> raise_if (l \<noteq> STAGED) (ConfigurationError message))"

definition resource_names :: "resource_ownership \<Rightarrow> (string \<times> string) list" where
  "resource_names o' = map (\<lambda>n. (n, contract_version o')) (resource_namespace o' # aliases o')"

text \<open>The checking loop of \<open>stage\<close>, accumulating the names the manifest claims.\<close>

definition claim_name :: "ownership_registry \<Rightarrow> (string \<times> string) set \<Rightarrow> string \<times> string \<Rightarrow> exn + (string \<times> string) set" where
  "claim_name r seen k =
     (if k \<in> seen \<or> dict_get (rr_bindings r) k \<noteq> None \<or> dict_get (rr_aliases r) k \<noteq> None
      then Inl (ConflictError ''Resource namespace/version is already claimed'')
      else Inr (insert k seen))"

definition claim_ownership ::
  "ownership_registry \<Rightarrow> generation \<Rightarrow> (string \<times> string) set \<Rightarrow> resource_ownership \<Rightarrow> exn + (string \<times> string) set" where
  "claim_ownership r g seen o' =
     (if owner_module_id o' \<noteq> gen_owner g \<or> \<not> starts_with (gen_owner g @ ''.'') (resource_namespace o')
      then Inl (ConfigurationError ''Resource declaration must belong to its canonical owner'')
      else fold_res (claim_name r) seen (resource_names o'))"

definition bind_ownership :: "generation \<Rightarrow> ownership_registry \<Rightarrow> resource_ownership \<Rightarrow> ownership_registry" where
  "bind_ownership g r o' =
     (let k = (resource_namespace o', contract_version o')
      in r\<lparr>rr_bindings := dict_set k \<lparr>rb_ownership = o', rb_generation = g\<rparr> (rr_bindings r),
           rr_aliases := foldl (\<lambda>d a. dict_set (a, contract_version o') k d) (rr_aliases r) (aliases o')\<rparr>)"

definition stage :: "gate \<Rightarrow> ownership_registry \<Rightarrow> manifest \<Rightarrow> generation \<Rightarrow> exn + ownership_registry" where
  "stage s r m g =
     (case not_staged s g ''Resource claims must stage before activation'' of
        Inl e \<Rightarrow> Inl e
      | Inr _ \<Rightarrow>
          if gen_owner g \<noteq> module_id m
          then Inl (ConfigurationError ''Resource generation owner mismatch'')
          else (case fold_res (claim_ownership r g) {} (resource_ownerships m) of
                  Inl e \<Rightarrow> Inl e
                | Inr _ \<Rightarrow> Inr (foldl (bind_ownership g) r (resource_ownerships m))))"

text \<open>The action patterns \<open>[a-z][a-z0-9_-]*\<close> and \<open>[a-z][a-z0-9_.-]*\<close>.\<close>

definition action_ok :: "string \<Rightarrow> string \<Rightarrow> bool" where
  "action_ok extra a =
     (case a of [] \<Rightarrow> False
      | c # cs \<Rightarrow> is_lower c \<and> list_all (\<lambda>c. is_lower c \<or> is_digit c \<or> c \<in> set extra) cs)"

definition provider_key :: "provider_entry \<Rightarrow> string \<times> string \<times> string" where
  "provider_key e = (resource_namespace (rb_ownership (pe_binding e)), contract_version (rb_ownership (pe_binding e)), pe_kind e)"

definition put_provider :: "ownership_registry \<Rightarrow> provider_entry \<Rightarrow> exn + ownership_registry" where
  "put_provider r e =
     (if dict_get (rr_providers r) (provider_key e) \<noteq> None
      then Inl (ConflictError ''Resource provider already registered'')
      else Inr (r\<lparr>rr_providers := dict_set (provider_key e) e (rr_providers r), rr_next_entry := rr_next_entry r + 1\<rparr>))"

definition register_provider ::
  "gate \<Rightarrow> ownership_registry \<Rightarrow> manifest \<Rightarrow> generation \<Rightarrow> string \<Rightarrow> string \<Rightarrow> string \<Rightarrow> provider_object \<Rightarrow>
   exn + ownership_registry" where
  "register_provider s r m g ns ver kind p =
     (case not_staged s g ''Resource providers must register before activation'' of
        Inl e \<Rightarrow> Inl e
      | Inr _ \<Rightarrow>
          if kind \<noteq> ''facts'' \<and> kind \<noteq> ''operation''
          then Inl (ConfigurationError ''Unsupported resource provider kind'')
          else (case find (\<lambda>o'. resource_namespace o' = ns \<and> contract_version o' = ver) (resource_ownerships m) of
                  None \<Rightarrow> Inl (ConfigurationError ''Resource provider requires this owner's declaration'')
                | Some o' \<Rightarrow>
                    if gen_owner g \<noteq> module_id m \<or> owner_module_id o' \<noteq> gen_owner g \<or>
                       \<not> starts_with (gen_owner g @ ''.'') ns
                    then Inl (ConfigurationError ''Resource provider requires this owner's declaration'')
                    else if \<not> list_all (\<lambda>n. n \<in> set (po_callable p))
                        (if kind = ''facts'' then [''read_facts''] else [''validate_operation'', ''apply_operation''])
                    then Inl (ConfigurationError ''Resource provider does not implement its typed contract'')
                    else if kind = ''operation'' \<and>
                        (case po_actions p of None \<Rightarrow> True
                         | Some as \<Rightarrow> as = [] \<or> \<not> list_all (action_ok ''_-'') as)
                    then Inl (ConfigurationError ''Owner operation provider requires supported actions'')
                    else put_provider r \<lparr>pe_identity = rr_next_entry r,
                        pe_binding = \<lparr>rb_ownership = o', rb_generation = g\<rparr>, pe_kind = kind, pe_provider = p,
                        pe_actions = (if kind = ''operation'' then the (po_actions p) else [])\<rparr>))"

definition authorize_coordinator :: "gate \<Rightarrow> ownership_registry \<Rightarrow> generation \<Rightarrow> nat \<Rightarrow> exn + ownership_registry" where
  "authorize_coordinator s r g token =
     (if gen_owner g \<notin> rr_coordinators r
      then Inl (ConfigurationError ''Coordinator is not approved by protected composition'')
      else (case not_staged s g ''Coordinator admission must stage before activation'' of
              Inl e \<Rightarrow> Inl e
            | Inr _ \<Rightarrow>
                if dict_get (rr_tokens r) g \<noteq> None
                then Inl (ConflictError ''Coordinator generation is already approved'')
                else Inr (r\<lparr>rr_tokens := dict_set g token (rr_tokens r)\<rparr>)))"

definition resolve_owner :: "gate \<Rightarrow> ownership_registry \<Rightarrow> string \<Rightarrow> string \<Rightarrow> exn + owner_binding" where
  "resolve_owner s r ns ver =
     (let k = (case dict_get (rr_aliases r) (ns, ver) of None \<Rightarrow> (ns, ver) | Some k \<Rightarrow> k)
      in case dict_get (rr_bindings r) k of
           None \<Rightarrow> Inl (NotFoundError ''Canonical resource owner is unavailable'')
         | Some b \<Rightarrow> if \<not> is_active s (Some (rb_generation b))
                      then Inl (NotFoundError ''Canonical resource owner is unavailable'')
                      else Inr b)"

definition entry_is_current :: "ownership_registry \<Rightarrow> provider_entry \<Rightarrow> bool" where
  "entry_is_current r e \<longleftrightarrow>
     (case dict_get (rr_providers r) (provider_key e) of None \<Rightarrow> False | Some e' \<Rightarrow> pe_identity e' = pe_identity e)"

definition verify_locator :: "resource_locator \<Rightarrow> request_context \<Rightarrow> owner_binding \<Rightarrow> exn + unit" where
  "verify_locator l req b =
     raise_if (tenant req = None \<or> rl_tenant l \<noteq> tenant_id (the (tenant req)) \<or>
         rl_namespace l \<notin> set (resource_namespace (rb_ownership b) # aliases (rb_ownership b)) \<or>
         rl_version l \<noteq> contract_version (rb_ownership b))
       (ConfigurationError ''Resource locator does not match trusted tenant or owner'')"

definition drop_providers :: "ownership_registry \<Rightarrow> generation \<Rightarrow> ownership_registry" where
  "drop_providers r g =
     r\<lparr>rr_providers := dict_keep (\<lambda>e. rb_generation (pe_binding e) \<noteq> g) (rr_providers r)\<rparr>"

definition remove_resources :: "ownership_registry \<Rightarrow> generation \<Rightarrow> ownership_registry" where
  "remove_resources r g =
     (let r1 = drop_providers (r\<lparr>rr_tokens := dict_pop g (rr_tokens r)\<rparr>) g;
          gone = set (map fst (filter (\<lambda>e. rb_generation (snd e) = g) (rr_bindings r)))
      in r1\<lparr>rr_bindings := filter (\<lambda>e. fst e \<notin> gone) (rr_bindings r),
            rr_aliases := dict_keep (\<lambda>k. k \<notin> gone) (rr_aliases r)\<rparr>)"

interpretation prv: dict_table rr_providers provider_key "\<lambda>e. Some (rb_generation (pe_binding e))" put_provider drop_providers
  by unfold_locales (auto simp: put_provider_def drop_providers_def)

section \<open>Transaction scopes\<close>

record request_ref =
  req_identity :: nat
  req_context :: request_context

text \<open>
  A validated operation is known by the identity of the provider entry, the locator and the action.
\<close>

record validation =
  vl_entry :: nat
  vl_locator :: resource_locator
  vl_action :: string

record scope =
  sc_request :: request_ref
  sc_owner :: string
  sc_generation :: "generation option"
  sc_coordinator :: "nat option"
  sc_transaction :: "nat option"
  sc_task :: nat
  sc_admitted :: "generation list"
  sc_validated :: "validation set"
  sc_closed :: bool

text \<open>
  The state the operations work on: the registry, the gate, the scope objects by identity and the
  context variable \<open>_current_scope\<close> of each task.
\<close>

record rworld =
  rw_registry :: ownership_registry
  rw_gate :: gate
  rw_scopes :: "(nat, scope) dict"
  rw_next_scope :: nat
  rw_current :: "(nat, nat option) dict"

definition scope_var :: "rworld \<Rightarrow> nat \<Rightarrow> nat option" where
  "scope_var w t = (case dict_get (rw_current w) t of None \<Rightarrow> None | Some x \<Rightarrow> x)"

definition put_scope :: "nat \<Rightarrow> scope \<Rightarrow> rworld \<Rightarrow> rworld" where
  "put_scope i sc w = w\<lparr>rw_scopes := dict_set i sc (rw_scopes w)\<rparr>"

definition enter_scope ::
  "rworld \<Rightarrow> nat \<Rightarrow> request_ref \<Rightarrow> string \<Rightarrow> generation option \<Rightarrow> nat option \<Rightarrow> nat \<times> nat option \<times> rworld" where
  "enter_scope w t req owner go coordinator =
     (let i = rw_next_scope w;
          sc = \<lparr>sc_request = req, sc_owner = owner, sc_generation = go, sc_coordinator = coordinator,
            sc_transaction = None, sc_task = t, sc_admitted = [], sc_validated = {}, sc_closed = False\<rparr>
      in (i, scope_var w t, (put_scope i sc w)\<lparr>rw_next_scope := i + 1, rw_current := dict_set t (Some i) (rw_current w)\<rparr>))"

text \<open>Leaving releases the admissions in the reverse order and restores the context variable.\<close>

definition exit_scope :: "rworld \<Rightarrow> nat \<Rightarrow> nat \<Rightarrow> nat option \<Rightarrow> rworld" where
  "exit_scope w t i token =
     (case dict_get (rw_scopes w) i of
        None \<Rightarrow> w
      | Some sc \<Rightarrow>
          (put_scope i (sc\<lparr>sc_closed := True\<rparr>) w)\<lparr>
             rw_gate := foldl (\<lambda>s g. admit_exit s (Some g)) (rw_gate w) (rev (sc_admitted sc)),
             rw_current := dict_set t token (rw_current w)\<rparr>)"

definition bind_transaction :: "rworld \<Rightarrow> nat \<Rightarrow> nat \<Rightarrow> exn + rworld" where
  "bind_transaction w i txn =
     (case dict_get (rw_scopes w) i of
        None \<Rightarrow> Inr w
      | Some sc \<Rightarrow>
          if sc_transaction sc \<noteq> None
          then Inl (ConfigurationError ''Resource transaction is already bound'')
          else Inr (put_scope i (sc\<lparr>sc_transaction := Some txn\<rparr>) w))"

definition admit_in_scope :: "rworld \<Rightarrow> nat \<Rightarrow> nat \<Rightarrow> generation \<Rightarrow> exn + rworld" where
  "admit_in_scope w t i g =
     (case dict_get (rw_scopes w) i of
        None \<Rightarrow> Inl (ConfigurationError ''Resource admission requires the active dispatcher transaction'')
      | Some sc \<Rightarrow>
          if sc_closed sc \<or> sc_transaction sc = None \<or> t \<noteq> sc_task sc
          then Inl (ConfigurationError ''Resource admission requires the active dispatcher transaction'')
          else if g \<in> set (sc_admitted sc) then Inr w
          else (case admit_enter (rw_gate w) (Some g) of
                  Inl e \<Rightarrow> Inl e
                | Inr s \<Rightarrow> Inr ((put_scope i (sc\<lparr>sc_admitted := sc_admitted sc @ [g]\<rparr>) w)\<lparr>rw_gate := s\<rparr>)))"

text \<open>\<open>ResourceTransactionScope.current\<close>.\<close>

definition current_scope :: "rworld \<Rightarrow> nat \<Rightarrow> request_ref \<Rightarrow> nat \<Rightarrow> exn + nat \<times> scope" where
  "current_scope w t req txn =
     (case scope_var w t of
        None \<Rightarrow> Inl (ConfigurationError ''Resource use requires the trusted dispatcher transaction'')
      | Some i \<Rightarrow>
          (case dict_get (rw_scopes w) i of
             None \<Rightarrow> Inl (ConfigurationError ''Resource use requires the trusted dispatcher transaction'')
           | Some sc \<Rightarrow>
               if sc_closed sc \<or> sc_request sc \<noteq> req \<or> sc_transaction sc \<noteq> Some txn \<or> t \<noteq> sc_task sc
               then Inl (ConfigurationError ''Resource use requires the trusted dispatcher transaction'')
               else Inr (i, sc)))"

definition reject_nested_dispatch :: "rworld \<Rightarrow> nat \<Rightarrow> exn + unit" where
  "reject_nested_dispatch w t =
     (case scope_var w t of
        None \<Rightarrow> Inr ()
      | Some i \<Rightarrow>
          (case dict_get (rw_scopes w) i of
             None \<Rightarrow> Inr ()
           | Some sc \<Rightarrow> raise_if (\<not> sc_closed sc \<and> t = sc_task sc \<and> sc_admitted sc \<noteq> [])
               (ConfigurationError ''Nested message dispatch cannot leave an admitted resource transaction'')))"

section \<open>Resolving and using providers\<close>

record admitted_provider =
  ap_entry :: provider_entry
  ap_request :: request_ref
  ap_transaction :: nat
  ap_locator :: resource_locator

definition assert_owner_handler :: "rworld \<Rightarrow> nat \<Rightarrow> resource_locator \<Rightarrow> request_ref \<Rightarrow> nat \<Rightarrow> exn + unit" where
  "assert_owner_handler w t l req txn =
     (case current_scope w t req txn of
        Inl e \<Rightarrow> Inl e
      | Inr (i, sc) \<Rightarrow>
          (case resolve_owner (rw_gate w) (rw_registry w) (rl_namespace l) (rl_version l) of
             Inl e \<Rightarrow> Inl e
           | Inr b \<Rightarrow>
               seq_res (verify_locator l (req_context req) b)
                 (raise_if (sc_owner sc \<noteq> owner_module_id (rb_ownership b) \<or> sc_generation sc \<noteq> Some (rb_generation b))
                   (ConfigurationError ''Policy commit requires the canonical owner handler''))))"

definition coordinator_admitted :: "rworld \<Rightarrow> scope \<Rightarrow> bool" where
  "coordinator_admitted w sc \<longleftrightarrow>
     sc_owner sc \<in> rr_coordinators (rw_registry w) \<and>
     (case sc_generation sc of
        None \<Rightarrow> False
      | Some g \<Rightarrow> is_active (rw_gate w) (Some g) \<and> dict_get (rr_tokens (rw_registry w)) g = sc_coordinator sc)"

definition resolve_provider ::
  "rworld \<Rightarrow> nat \<Rightarrow> resource_locator \<Rightarrow> string \<Rightarrow> request_ref \<Rightarrow> nat \<Rightarrow> exn + admitted_provider \<times> rworld" where
  "resolve_provider w t l kind req txn =
     (if kind \<noteq> ''facts'' \<and> kind \<noteq> ''operation'' then Inl (NotFoundError ''Unsupported resource provider kind'')
      else (case current_scope w t req txn of
        Inl e \<Rightarrow> Inl e
      | Inr (i, sc) \<Rightarrow>
          (case resolve_owner (rw_gate w) (rw_registry w) (rl_namespace l) (rl_version l) of
             Inl e \<Rightarrow> Inl e
           | Inr b \<Rightarrow>
               (case verify_locator l (req_context req) b of
                  Inl e \<Rightarrow> Inl e
                | Inr _ \<Rightarrow>
                    (case dict_get (rr_providers (rw_registry w)) (resource_namespace (rb_ownership b), rl_version l, kind) of
                       None \<Rightarrow> Inl (NotFoundError ''Exact resource provider is unavailable'')
                     | Some e \<Rightarrow>
                         if pe_binding e \<noteq> b then Inl (NotFoundError ''Exact resource provider is unavailable'')
                         else if kind = ''operation'' \<and> \<not> coordinator_admitted w sc
                         then Inl (ConfigurationError ''Operation requires an admitted framework coordinator'')
                         else (case admit_in_scope w t i (rb_generation b) of
                                 Inl x \<Rightarrow> Inl x
                               | Inr w' \<Rightarrow> Inr (\<lparr>ap_entry = e, ap_request = req, ap_transaction = txn,
                                   ap_locator = \<lparr>rl_namespace = resource_namespace (rb_ownership b), rl_version = rl_version l,
                                     rl_record = rl_record l, rl_tenant = rl_tenant l\<rparr>\<rparr>, w')))))))"

definition check_admitted :: "rworld \<Rightarrow> nat \<Rightarrow> admitted_provider \<Rightarrow> string \<Rightarrow> exn + unit" where
  "check_admitted w t ap kind =
     (case current_scope w t (ap_request ap) (ap_transaction ap) of
        Inl e \<Rightarrow> Inl e
      | Inr _ \<Rightarrow>
          if pe_kind (ap_entry ap) \<noteq> kind \<or> \<not> entry_is_current (rw_registry w) (ap_entry ap)
          then Inl (NotFoundError ''Resource provider is stale or unavailable'')
          else verify_locator (ap_locator ap) (req_context (ap_request ap)) (pe_binding (ap_entry ap)))"

definition check_facts :: "admitted_provider \<Rightarrow> owner_facts \<Rightarrow> exn + owner_facts" where
  "check_facts ap f =
     (let o' = rb_ownership (pe_binding (ap_entry ap))
      in if of_tenant f \<noteq> rl_tenant (ap_locator ap) \<or> of_namespace f \<noteq> resource_namespace o' \<or>
            of_record f \<noteq> rl_record (ap_locator ap) \<or> of_owner f \<noteq> owner_module_id o' \<or>
            of_version f \<noteq> contract_version o' \<or> of_lifecycle f = ''''
         then Inl (ConfigurationError ''Owner facts do not match trusted resource binding'')
         else Inr f)"

text \<open>\<open>read_facts\<close> and \<open>read_locked_facts\<close>, before and after the provider is asked.\<close>

definition read_facts_begin :: "rworld \<Rightarrow> nat \<Rightarrow> admitted_provider \<Rightarrow> exn + unit" where
  "read_facts_begin w t ap = check_admitted w t ap ''facts''"

definition read_facts_end :: "admitted_provider \<Rightarrow> owner_facts \<Rightarrow> exn + owner_facts" where
  "read_facts_end ap f = check_facts ap f"

definition read_locked_begin :: "rworld \<Rightarrow> nat \<Rightarrow> admitted_provider \<Rightarrow> string \<Rightarrow> exn + unit" where
  "read_locked_begin w t ap action =
     seq_res (check_admitted w t ap ''facts'')
       (if \<not> action_ok ''_.-'' action then Inl (ConfigurationError ''Locked facts require a canonical action'')
        else raise_if (''read_locked_facts'' \<notin> set (po_callable (pe_provider (ap_entry ap))))
          (NotFoundError ''Owner does not provide locked Policy operation facts''))"

definition read_locked_end :: "rworld \<Rightarrow> nat \<Rightarrow> admitted_provider \<Rightarrow> owner_facts \<Rightarrow> exn + owner_facts" where
  "read_locked_end w t ap f = seq_res (check_admitted w t ap ''facts'') (check_facts ap f)"

definition validate_operation_begin :: "rworld \<Rightarrow> nat \<Rightarrow> admitted_provider \<Rightarrow> string \<Rightarrow> exn + unit" where
  "validate_operation_begin w t ap action =
     seq_res (check_admitted w t ap ''operation'')
       (if \<not> action_ok ''_-'' action
        then Inl (ConfigurationError ''Operation action must be nonempty canonical ASCII'')
        else raise_if (action \<notin> set (pe_actions (ap_entry ap)))
          (ConfigurationError ''Owner does not support the requested operation''))"

definition the_validation :: "admitted_provider \<Rightarrow> string \<Rightarrow> validation" where
  "the_validation ap action = \<lparr>vl_entry = pe_identity (ap_entry ap), vl_locator = ap_locator ap, vl_action = action\<rparr>"

definition record_validation :: "rworld \<Rightarrow> nat \<Rightarrow> scope \<Rightarrow> validation \<Rightarrow> rworld" where
  "record_validation w i sc v = put_scope i (sc\<lparr>sc_validated := insert v (sc_validated sc)\<rparr>) w"

definition consume_validation :: "rworld \<Rightarrow> nat \<Rightarrow> scope \<Rightarrow> validation \<Rightarrow> exn + rworld" where
  "consume_validation w i sc v =
     (if v \<notin> sc_validated sc
      then Inl (ConfigurationError ''Owner operation requires validation in this transaction'')
      else Inr (put_scope i (sc\<lparr>sc_validated := sc_validated sc - {v}\<rparr>) w))"

definition validate_operation_end ::
  "rworld \<Rightarrow> nat \<Rightarrow> admitted_provider \<Rightarrow> string \<Rightarrow> owner_facts \<Rightarrow> exn + owner_facts \<times> rworld" where
  "validate_operation_end w t ap action f =
     (case check_facts ap f of
        Inl e \<Rightarrow> Inl e
      | Inr _ \<Rightarrow>
          if of_lifecycle f \<noteq> ''current''
          then Inl (ConfigurationError ''Owner operation requires current resource state'')
          else (case current_scope w t (ap_request ap) (ap_transaction ap) of
                  Inl e \<Rightarrow> Inl e
                | Inr (i, sc) \<Rightarrow> Inr (f, record_validation w i sc (the_validation ap action))))"

text \<open>\<open>apply_operation\<close> up to the provider's own work, which is all that follows.\<close>

definition apply_operation_begin :: "rworld \<Rightarrow> nat \<Rightarrow> admitted_provider \<Rightarrow> string \<Rightarrow> exn + rworld" where
  "apply_operation_begin w t ap action =
     seq_res (check_admitted w t ap ''operation'')
       (if \<not> action_ok ''_-'' action
        then Inl (ConfigurationError ''Operation action must be nonempty canonical ASCII'')
        else (case current_scope w t (ap_request ap) (ap_transaction ap) of
                Inl e \<Rightarrow> Inl e
              | Inr (i, sc) \<Rightarrow> consume_validation w i sc (the_validation ap action)))"

text \<open>\<open>assert_resource_owner_invocation\<close> of \<open>handler_invocation.py\<close>.\<close>

definition assert_owner_invocation ::
  "invocations \<Rightarrow> rworld \<Rightarrow> nat \<Rightarrow> nat option \<Rightarrow> resource_locator \<Rightarrow> request_ref \<Rightarrow> nat \<Rightarrow> invocation_kind \<Rightarrow> exn + unit" where
  "assert_owner_invocation invs w t binding l req txn kind =
     (case validate_invocation invs (Task t) binding (req_identity req) txn kind of
        Inl e \<Rightarrow> Inl e
      | Inr f \<Rightarrow>
          seq_res (assert_owner_handler w t l req txn)
            (case resolve_owner (rw_gate w) (rw_registry w) (rl_namespace l) (rl_version l) of
               Inl e \<Rightarrow> Inl e
             | Inr b \<Rightarrow> raise_if (af_owner f \<noteq> owner_module_id (rb_ownership b) \<or> af_generation f \<noteq> rb_generation b)
                 (PermissionError ''Handler invocation does not match the current canonical owner'')))"

section \<open>Ownership of names\<close>

text \<open>The binding a name (a namespace or an alias, with its version) leads to.\<close>

definition owner_of :: "ownership_registry \<Rightarrow> string \<times> string \<Rightarrow> owner_binding option" where
  "owner_of r k = dict_get (rr_bindings r) (case dict_get (rr_aliases r) k of None \<Rightarrow> k | Some k' \<Rightarrow> k')"

definition binding_ok :: "owner_binding \<Rightarrow> bool" where
  "binding_ok b \<longleftrightarrow> owner_module_id (rb_ownership b) = gen_owner (rb_generation b) \<and>
     starts_with (gen_owner (rb_generation b) @ ''.'') (resource_namespace (rb_ownership b))"

abbreviation own_key :: "resource_ownership \<Rightarrow> string \<times> string" where
  "own_key o' \<equiv> (resource_namespace o', contract_version o')"

definition claims_ok :: "ownership_registry \<Rightarrow> bool" where
  "claims_ok r \<longleftrightarrow> dict_ok (rr_bindings r) \<and> dict_ok (rr_aliases r) \<and>
     (\<forall>k b. dict_get (rr_bindings r) k = Some b \<longrightarrow> k = own_key (rb_ownership b) \<and> binding_ok b \<and> dict_get (rr_aliases r) k = None) \<and>
     (\<forall>a k. dict_get (rr_aliases r) a = Some k \<longrightarrow>
        (\<exists>b. dict_get (rr_bindings r) k = Some b \<and> a \<in> set (resource_names (rb_ownership b))))"

lemma claims_okD:
  assumes "claims_ok r"
  shows "dict_ok (rr_bindings r)" "dict_ok (rr_aliases r)"
    and "dict_get (rr_bindings r) k = Some b \<Longrightarrow> k = own_key (rb_ownership b) \<and> binding_ok b \<and> dict_get (rr_aliases r) k = None"
    and "dict_get (rr_aliases r) a = Some k \<Longrightarrow> \<exists>b. dict_get (rr_bindings r) k = Some b \<and> a \<in> set (resource_names (rb_ownership b))"
  using assms unfolding claims_ok_def by blast+

lemma claims_ok_new: "claims_ok (new_ownership_registry ids)"
  by (simp add: claims_ok_def new_ownership_registry_def)

lemma own_key_name [simp]: "own_key o' \<in> set (resource_names o')"
  by (simp add: resource_names_def)

lemma fresh_iff:
  "claims_ok r \<Longrightarrow> owner_of r k = None \<longleftrightarrow> dict_get (rr_bindings r) k = None \<and> dict_get (rr_aliases r) k = None"
  using claims_okD(4) [of r k] by (auto simp: owner_of_def split: option.split)

lemma owner_of_name:
  assumes "claims_ok r" "owner_of r k = Some b"
  shows "binding_ok b \<and> k \<in> set (resource_names (rb_ownership b))"
proof (cases "dict_get (rr_aliases r) k")
  case None
  with assms(2) have "dict_get (rr_bindings r) k = Some b" by (simp add: owner_of_def)
  with claims_okD(3) [OF assms(1) this] own_key_name [of "rb_ownership b"] show ?thesis by metis
next
  case (Some k')
  with assms(2) have "dict_get (rr_bindings r) k' = Some b" by (simp add: owner_of_def)
  with claims_okD(3) [OF assms(1) this] claims_okD(4) [OF assms(1) Some] show ?thesis by auto
qed

lemma dict_get_alias_fold:
  "dict_get (foldl (\<lambda>d a. dict_set (a, v) k d) d as) x = (if x \<in> (\<lambda>a. (a, v)) ` set as then Some k else dict_get d x)"
  by (induction as arbitrary: d) (auto simp: dict_get_set)

lemma dict_ok_alias_fold: "dict_ok d \<Longrightarrow> dict_ok (foldl (\<lambda>d a. dict_set (a, v) k d) d as)"
  by (induction as arbitrary: d) simp_all

lemma bind_lookups:
  "dict_get (rr_bindings (bind_ownership g r o')) k =
     (if k = own_key o' then Some \<lparr>rb_ownership = o', rb_generation = g\<rparr> else dict_get (rr_bindings r) k)"
  "dict_get (rr_aliases (bind_ownership g r o')) k =
     (if k \<in> (\<lambda>a. (a, contract_version o')) ` set (aliases o') then Some (own_key o') else dict_get (rr_aliases r) k)"
  by (simp_all add: bind_ownership_def Let_def dict_get_set dict_get_alias_fold)

lemma bind_ownership_ok:
  assumes ok: "claims_ok r" and b: "binding_ok \<lparr>rb_ownership = o', rb_generation = g\<rparr>"
    and d: "distinct (resource_names o')" and fresh: "\<And>k. k \<in> set (resource_names o') \<Longrightarrow> owner_of r k = None"
  shows "claims_ok (bind_ownership g r o')"
    and "owner_of (bind_ownership g r o') k =
      (if k \<in> set (resource_names o') then Some \<lparr>rb_ownership = o', rb_generation = g\<rparr> else owner_of r k)"
proof -
  let ?A = "(\<lambda>a. (a, contract_version o')) ` set (aliases o')"
  have names: "set (resource_names o') = insert (own_key o') ?A" by (auto simp: resource_names_def)
  have key: "own_key o' \<notin> ?A" using d by (auto simp: resource_names_def)
  have free: "dict_get (rr_bindings r) k = None \<and> dict_get (rr_aliases r) k = None" if "k \<in> set (resource_names o')" for k
    using fresh [OF that] fresh_iff [OF ok] by blast
  have no_target: "k' \<noteq> own_key o'" if "dict_get (rr_aliases r) a = Some k'" for a k'
    using claims_okD(4) [OF ok that] free [of "own_key o'"] by auto
  show "claims_ok (bind_ownership g r o')"
    unfolding claims_ok_def
  proof (intro conjI allI impI)
    show "dict_ok (rr_bindings (bind_ownership g r o'))" "dict_ok (rr_aliases (bind_ownership g r o'))"
      using claims_okD(1,2) [OF ok] by (simp_all add: bind_ownership_def Let_def dict_ok_alias_fold)
  next
    fix k c assume "dict_get (rr_bindings (bind_ownership g r o')) k = Some c"
    then show "k = own_key (rb_ownership c)" and "binding_ok c" and "dict_get (rr_aliases (bind_ownership g r o')) k = None"
      using claims_okD(3) [OF ok, of k c] b key free [of k] free [of "own_key o'"]
      unfolding bind_lookups names by (auto split: if_splits)
  next
    fix a k assume "dict_get (rr_aliases (bind_ownership g r o')) a = Some k"
    then show "\<exists>b. dict_get (rr_bindings (bind_ownership g r o')) k = Some b \<and> a \<in> set (resource_names (rb_ownership b))"
      using claims_okD(4) [OF ok, of a k] no_target [of a k] unfolding bind_lookups by (auto simp: names split: if_splits)
  qed
  show "owner_of (bind_ownership g r o') k =
      (if k \<in> set (resource_names o') then Some \<lparr>rb_ownership = o', rb_generation = g\<rparr> else owner_of r k)"
    using free [of k] free [of "own_key o'"] no_target key unfolding owner_of_def bind_lookups names
    by (auto split: option.split)
qed

lemma claim_name_Inr:
  "claims_ok r \<Longrightarrow> claim_name r seen k = Inr seen' \<longleftrightarrow> k \<notin> seen \<and> owner_of r k = None \<and> seen' = insert k seen"
  using fresh_iff [of r k] by (auto simp: claim_name_def)

lemma claim_names_Inr:
  "claims_ok r \<Longrightarrow> fold_res (claim_name r) seen ks = Inr seen' \<Longrightarrow>
     distinct ks \<and> set ks \<inter> seen = {} \<and> (\<forall>k \<in> set ks. owner_of r k = None) \<and> seen' = seen \<union> set ks"
proof (induction ks arbitrary: seen)
  case (Cons k ks)
  then obtain s1 where s1: "claim_name r seen k = Inr s1" "fold_res (claim_name r) s1 ks = Inr seen'"
    by (auto split: sum.splits)
  with claim_name_Inr [OF Cons.prems(1)] Cons.IH [OF Cons.prems(1) s1(2)] show ?case by auto
qed simp

lemma stage_ownerships:
  assumes "claims_ok r0" "claims_ok r" "fold_res (claim_ownership r0 g) seen os = Inr seen'"
    and "\<And>k. owner_of r k = (if k \<in> seen then Some (f k) else owner_of r0 k)"
  shows "claims_ok (foldl (bind_ownership g) r os) \<and>
    (\<forall>k. owner_of r0 k \<noteq> None \<longrightarrow> k \<notin> seen' - seen) \<and>
    (\<forall>k. owner_of (foldl (bind_ownership g) r os) k =
      (case owner_of r k of Some b \<Rightarrow> Some b
       | None \<Rightarrow> map_option (\<lambda>o'. \<lparr>rb_ownership = o', rb_generation = g\<rparr>) (find (\<lambda>o'. k \<in> set (resource_names o')) os)))"
  using assms
proof (induction os arbitrary: r seen f)
  case Nil
  then show ?case by (auto split: option.split)
next
  case (Cons o' os)
  obtain s1 where s1: "claim_ownership r0 g seen o' = Inr s1" "fold_res (claim_ownership r0 g) s1 os = Inr seen'"
    using Cons.prems(3) by (auto split: sum.splits)
  have own: "binding_ok \<lparr>rb_ownership = o', rb_generation = g\<rparr>"
    and names: "fold_res (claim_name r0) seen (resource_names o') = Inr s1"
    using s1(1) by (auto simp: claim_ownership_def binding_ok_def split: if_splits)
  note c = claim_names_Inr [OF Cons.prems(1) names]
  have fresh: "owner_of r k = None" if "k \<in> set (resource_names o')" for k
    using c that Cons.prems(4) [of k] by auto
  note b = bind_ownership_ok [OF Cons.prems(2) own c [THEN conjunct1] fresh]
  have "owner_of (bind_ownership g r o') k =
      (if k \<in> s1 then Some (if k \<in> set (resource_names o') then \<lparr>rb_ownership = o', rb_generation = g\<rparr> else f k) else owner_of r0 k)" for k
    using b(2) [of k] c Cons.prems(4) [of k] by auto
  note ih = Cons.IH [OF Cons.prems(1) b(1) s1(2) this]
  note ih3 = ih [THEN conjunct2, THEN conjunct2, THEN spec]
  have "owner_of (foldl (bind_ownership g) (bind_ownership g r o') os) k =
      (case owner_of r k of Some b \<Rightarrow> Some b
       | None \<Rightarrow> map_option (\<lambda>o'. \<lparr>rb_ownership = o', rb_generation = g\<rparr>) (find (\<lambda>o'. k \<in> set (resource_names o')) (o' # os)))" for k
    using ih3 [of k] c b(2) [of k] fresh [of k] by (cases "k \<in> set (resource_names o')") (simp_all split: option.split)
  moreover have "k \<notin> seen' - seen" if "owner_of r0 k \<noteq> None" for k
    using ih [THEN conjunct2, THEN conjunct1, THEN spec, of k] c [THEN conjunct2, THEN conjunct2] that by auto
  ultimately show ?case using ih [THEN conjunct1] unfolding foldl.simps by blast
qed

text \<open>A name is taken from no one, and a removal frees exactly the names of its generation.\<close>

lemma stage_effect:
  assumes ok: "claims_ok r" and s: "stage s r m g = Inr r'"
  shows "claims_ok r' \<and> (\<forall>k b. owner_of r k = Some b \<longrightarrow> owner_of r' k = Some b)"
proof -
  obtain seen where "fold_res (claim_ownership r g) {} (resource_ownerships m) = Inr seen"
    and r': "r' = foldl (bind_ownership g) r (resource_ownerships m)"
    using s by (auto simp: stage_def split: sum.splits if_splits)
  from stage_ownerships [OF ok ok this(1)] show ?thesis unfolding r' by simp
qed

lemma remove_effect:
  assumes ok: "claims_ok r"
  shows "claims_ok (remove_resources r g)"
    and "owner_of (remove_resources r g) k =
      (case owner_of r k of None \<Rightarrow> None | Some b \<Rightarrow> if rb_generation b = g then None else Some b)"
proof -
  let ?gone = "set (map fst (filter (\<lambda>e. rb_generation (snd e) = g) (rr_bindings r)))"
  have gone: "k \<in> ?gone \<longleftrightarrow> (\<exists>b. dict_get (rr_bindings r) k = Some b \<and> rb_generation b = g)" for k
  proof
    assume "k \<in> ?gone"
    then obtain b where "(k, b) \<in> set (rr_bindings r)" "rb_generation b = g" by auto
    then show "\<exists>b. dict_get (rr_bindings r) k = Some b \<and> rb_generation b = g"
      using claims_okD(1) [OF ok] by (intro exI [of _ b]) simp
  next
    assume "\<exists>b. dict_get (rr_bindings r) k = Some b \<and> rb_generation b = g"
    then show "k \<in> ?gone" by (force dest: map_of_SomeD)
  qed
  have bs: "dict_get (rr_bindings (remove_resources r g)) k =
      (case dict_get (rr_bindings r) k of None \<Rightarrow> None | Some b \<Rightarrow> if rb_generation b = g then None else Some b)" for k
  proof -
    have "rr_bindings (remove_resources r g) = filter (\<lambda>e. fst e \<notin> ?gone) (rr_bindings r)"
      by (simp add: remove_resources_def Let_def drop_providers_def)
    then have "dict_get (rr_bindings (remove_resources r g)) k = (if k \<notin> ?gone then dict_get (rr_bindings r) k else None)"
      using dict_filter_keys [of "\<lambda>k. k \<notin> ?gone" "rr_bindings r" k] by (simp only:)
    with gone [of k] show ?thesis by (auto split: option.split)
  qed
  have as: "dict_get (rr_aliases (remove_resources r g)) k =
      (case dict_get (rr_aliases r) k of None \<Rightarrow> None | Some k' \<Rightarrow> if k' \<in> ?gone then None else Some k')" for k
    using claims_okD(2) [OF ok]
    by (simp add: remove_resources_def Let_def drop_providers_def dict_get_keep split: option.split)
  have oks: "dict_ok (rr_bindings (remove_resources r g))" "dict_ok (rr_aliases (remove_resources r g))"
    using claims_okD(1,2) [OF ok] by (simp_all add: remove_resources_def Let_def drop_providers_def distinct_map_filter)
  show "claims_ok (remove_resources r g)"
    unfolding claims_ok_def bs as
    using oks claims_okD(3,4) [OF ok] gone by (fastforce split: option.splits if_splits)
  show "owner_of (remove_resources r g) k =
      (case owner_of r k of None \<Rightarrow> None | Some b \<Rightarrow> if rb_generation b = g then None else Some b)"
  proof (cases "dict_get (rr_aliases r) k")
    case None
    then show ?thesis by (simp add: owner_of_def bs as)
  next
    case (Some k')
    obtain b where b: "dict_get (rr_bindings r) k' = Some b" using claims_okD(4) [OF ok Some] by blast
    have "dict_get (rr_bindings r) k = None" using claims_okD(3) [OF ok, of k] Some by (cases "dict_get (rr_bindings r) k") auto
    with Some b gone [of k'] show ?thesis by (simp add: owner_of_def bs as)
  qed
qed

section \<open>Histories of the registry\<close>

datatype resource_op =
    StageClaims gate manifest generation
  | AddProvider gate manifest generation string string string provider_object
  | AuthorizeCoordinator gate generation nat
  | RemoveResources generation

definition or_else :: "'a \<Rightarrow> exn + 'a \<Rightarrow> 'a" where
  "or_else r m = (case m of Inl e \<Rightarrow> r | Inr x \<Rightarrow> x)"

fun resource_step :: "ownership_registry \<Rightarrow> resource_op \<Rightarrow> ownership_registry" where
  "resource_step r (StageClaims s m g) = or_else r (stage s r m g)"
| "resource_step r (AddProvider s m g ns ver kind p) = or_else r (register_provider s r m g ns ver kind p)"
| "resource_step r (AuthorizeCoordinator s g token) = or_else r (authorize_coordinator s r g token)"
| "resource_step r (RemoveResources g) = remove_resources r g"

lemma claims_ok_cong:
  "rr_bindings r' = rr_bindings r \<Longrightarrow> rr_aliases r' = rr_aliases r \<Longrightarrow> claims_ok r' = claims_ok r \<and> owner_of r' = owner_of r"
  by (simp add: claims_ok_def owner_of_def fun_eq_iff)

lemma register_provider_Inr:
  assumes "register_provider s r m g ns ver kind p = Inr r'"
  obtains e where "put_provider r e = Inr r'" "pe_identity e = rr_next_entry r" "rb_generation (pe_binding e) = g"
    "pe_kind e = kind" "resource_namespace (rb_ownership (pe_binding e)) = ns"
    "contract_version (rb_ownership (pe_binding e)) = ver"
  using assms by (auto simp: register_provider_def find_Some_iff split: sum.splits option.splits if_splits)

lemma put_provider_Inr:
  "put_provider r e = Inr r' \<longleftrightarrow> dict_get (rr_providers r) (provider_key e) = None \<and>
     r' = r\<lparr>rr_providers := dict_set (provider_key e) e (rr_providers r), rr_next_entry := rr_next_entry r + 1\<rparr>"
  by (auto simp: put_provider_def)

lemma authorize_Inr:
  "authorize_coordinator s r g token = Inr r' \<Longrightarrow> r' = r\<lparr>rr_tokens := dict_set g token (rr_tokens r)\<rparr>"
  by (auto simp: authorize_coordinator_def split: sum.splits if_splits)

lemma resource_step_claims:
  assumes ok: "claims_ok r"
  shows "claims_ok (resource_step r op)"
    and "owner_of r k = Some b \<Longrightarrow> op \<noteq> RemoveResources (rb_generation b) \<Longrightarrow> owner_of (resource_step r op) k = Some b"
proof -
  have "claims_ok (resource_step r op) \<and>
    (owner_of r k = Some b \<longrightarrow> op \<noteq> RemoveResources (rb_generation b) \<longrightarrow> owner_of (resource_step r op) k = Some b)"
  proof (cases op)
    case (StageClaims s m g)
    show ?thesis
    proof (cases "stage s r m g")
      case (Inr r')
      with StageClaims stage_effect [OF ok Inr] show ?thesis by (simp add: or_else_def del: split_paired_All)
    qed (use ok StageClaims in \<open>simp add: or_else_def\<close>)
  next
    case (AddProvider s m g ns ver kind p)
    show ?thesis
    proof (cases "register_provider s r m g ns ver kind p")
      case (Inr r')
      then obtain e where "put_provider r e = Inr r'" by (rule register_provider_Inr)
      then have "claims_ok r' = claims_ok r \<and> owner_of r' = owner_of r"
        by (intro claims_ok_cong) (simp_all add: put_provider_Inr)
      with ok AddProvider Inr show ?thesis by (simp add: or_else_def)
    qed (use ok AddProvider in \<open>simp add: or_else_def\<close>)
  next
    case (AuthorizeCoordinator s g token)
    show ?thesis
    proof (cases "authorize_coordinator s r g token")
      case (Inr r')
      then have "claims_ok r' = claims_ok r \<and> owner_of r' = owner_of r"
        by (intro claims_ok_cong) (simp_all add: authorize_Inr [OF Inr])
      with ok AuthorizeCoordinator Inr show ?thesis by (simp add: or_else_def)
    qed (use ok AuthorizeCoordinator in \<open>simp add: or_else_def\<close>)
  next
    case (RemoveResources g)
    then show ?thesis using remove_effect [OF ok, of g] by simp
  qed
  then show "claims_ok (resource_step r op)"
    and "owner_of r k = Some b \<Longrightarrow> op \<noteq> RemoveResources (rb_generation b) \<Longrightarrow> owner_of (resource_step r op) k = Some b"
    by blast+
qed

lemma resource_steps_claims:
  "claims_ok r \<Longrightarrow> claims_ok (foldl resource_step r ops) \<and>
     (owner_of r k = Some b \<longrightarrow> RemoveResources (rb_generation b) \<notin> set ops \<longrightarrow>
        owner_of (foldl resource_step r ops) k = Some b)"
proof (induction ops arbitrary: r)
  case (Cons op ops)
  from Cons.IH [OF resource_step_claims(1) [OF Cons.prems, of op]] resource_step_claims(2) [OF Cons.prems, of k b op]
  show ?case by auto
qed simp

lemma resolve_owner_of:
  "resolve_owner s r ns ver =
     (case owner_of r (ns, ver) of
        None \<Rightarrow> Inl (NotFoundError ''Canonical resource owner is unavailable'')
      | Some b \<Rightarrow> if is_active s (Some (rb_generation b)) then Inr b
                   else Inl (NotFoundError ''Canonical resource owner is unavailable''))"
  by (simp add: resolve_owner_def owner_of_def Let_def split: option.split)

lemma resolve_owner_Inr:
  "resolve_owner s r ns ver = Inr b \<longleftrightarrow> owner_of r (ns, ver) = Some b \<and> is_active s (Some (rb_generation b))"
  by (auto simp: resolve_owner_of split: option.split)

text \<open>
  A resource name has one owner at a time and keeps it: whatever is staged, registered,
  authorised or removed, a name that resolves belongs to the module named by its prefix and to the
  active generation that declared the name or alias in that version, and until that generation is
  removed the name resolves to this binding and to nothing else.
\<close>

theorem resource_owner_exclusive:
  assumes r: "r = foldl resource_step (new_ownership_registry ids) ops" and b: "resolve_owner s r ns ver = Inr b"
  shows "owner_module_id (rb_ownership b) = gen_owner (rb_generation b) \<and>
    starts_with (gen_owner (rb_generation b) @ ''.'') (resource_namespace (rb_ownership b)) \<and>
    ns \<in> set (resource_namespace (rb_ownership b) # aliases (rb_ownership b)) \<and> ver = contract_version (rb_ownership b) \<and>
    is_active s (Some (rb_generation b)) \<and>
    (RemoveResources (rb_generation b) \<notin> set ops' \<longrightarrow>
       resolve_owner s' (foldl resource_step r ops') ns ver =
         (if is_active s' (Some (rb_generation b)) then Inr b
          else Inl (NotFoundError ''Canonical resource owner is unavailable'')))"
proof -
  have ok: "claims_ok r" unfolding r using resource_steps_claims [OF claims_ok_new] by blast
  have o': "owner_of r (ns, ver) = Some b" "is_active s (Some (rb_generation b))"
    using b by (simp_all add: resolve_owner_Inr)
  with owner_of_name [OF ok o'(1)] resource_steps_claims [OF ok, of ops' "(ns, ver)" b]
  show ?thesis by (auto simp: binding_ok_def resource_names_def resolve_owner_of)
qed

section \<open>Provider entries\<close>

definition providers_ok :: "ownership_registry \<Rightarrow> bool" where
  "providers_ok r \<longleftrightarrow> dict_ok (rr_providers r) \<and> (\<forall>k e. dict_get (rr_providers r) k = Some e \<longrightarrow> provider_key e = k)"

lemma providers_ok_step:
  assumes ok: "providers_ok r"
  shows "providers_ok (resource_step r op)"
proof (cases op)
  case (StageClaims s m g)
  have "rr_providers (foldl (bind_ownership g) r os) = rr_providers r" for os
    by (induction os arbitrary: r) (simp_all add: bind_ownership_def Let_def)
  with ok StageClaims show ?thesis
    by (auto simp: or_else_def stage_def providers_ok_def split: sum.splits)
next
  case (AddProvider s m g ns ver kind p)
  show ?thesis
  proof (cases "register_provider s r m g ns ver kind p")
    case (Inr r')
    then obtain e where "put_provider r e = Inr r'" by (rule register_provider_Inr)
    with ok AddProvider Inr show ?thesis by (auto simp: or_else_def providers_ok_def put_provider_Inr dict_get_set)
  qed (use ok AddProvider in \<open>simp add: or_else_def\<close>)
next
  case (AuthorizeCoordinator s g token)
  then show ?thesis using ok authorize_Inr [of s r g token]
    by (auto simp: or_else_def providers_ok_def split: sum.splits)
next
  case (RemoveResources g)
  with ok show ?thesis
    by (auto simp: providers_ok_def remove_resources_def Let_def drop_providers_def dict_get_keep split: option.splits if_splits)
qed

lemma providers_ok_steps: "providers_ok (foldl resource_step (new_ownership_registry ids) ops)"
proof (induction ops rule: rev_induct)
  case Nil
  show ?case by (simp add: providers_ok_def new_ownership_registry_def)
qed (simp add: providers_ok_step)

text \<open>
  A provider is handed out only inside the request's own transaction: the calling task
  runs in an open scope bound to this request and this transaction, the locator names a resource of
  the request's tenant, the entry is the one registered by the active owner of the name (for an
  operation, only to an approved coordinator whose generation is active and holds its token), the
  owner's generation is admitted for the rest of the scope, the provider can be used at once, and
  facts it returns are accepted only about the record asked for, in the tenant and by the owner.
\<close>

theorem provider_confined:
  assumes reg: "rw_registry w = foldl resource_step (new_ownership_registry ids) ops"
    and res: "resolve_provider w t l kind req txn = Inr (ap, w')"
  shows "\<exists>i sc ten b. scope_var w t = Some i \<and> dict_get (rw_scopes w) i = Some sc \<and> \<not> sc_closed sc \<and>
    sc_request sc = req \<and> sc_transaction sc = Some txn \<and> sc_task sc = t \<and>
    tenant (req_context req) = Some ten \<and> rl_tenant l = tenant_id ten \<and>
    resolve_owner (rw_gate w) (rw_registry w) (rl_namespace l) (rl_version l) = Inr b \<and> pe_binding (ap_entry ap) = b \<and>
    (kind = ''operation'' \<longrightarrow> sc_owner sc \<in> rr_coordinators (rw_registry w) \<and>
       (\<exists>g. sc_generation sc = Some g \<and> is_active (rw_gate w) (Some g) \<and>
          dict_get (rr_tokens (rw_registry w)) g = sc_coordinator sc)) \<and>
    (\<exists>sc'. dict_get (rw_scopes w') i = Some sc' \<and> rb_generation b \<in> set (sc_admitted sc')) \<and>
    check_admitted w' t ap kind = Inr () \<and>
    (\<forall>f f'. read_facts_end ap f = Inr f' \<longrightarrow> f' = f \<and> of_tenant f = tenant_id ten \<and> of_record f = rl_record l \<and>
       of_owner f = gen_owner (rb_generation b) \<and> of_version f = rl_version l)"
proof -
  have prov: "providers_ok (rw_registry w)" and claims: "claims_ok (rw_registry w)"
    unfolding reg using providers_ok_steps resource_steps_claims [OF claims_ok_new] by blast+
  obtain i sc where sc: "current_scope w t req txn = Inr (i, sc)"
    using res by (auto simp: resolve_provider_def split: if_splits sum.splits)
  obtain b where b: "resolve_owner (rw_gate w) (rw_registry w) (rl_namespace l) (rl_version l) = Inr b"
    using res sc by (auto simp: resolve_provider_def split: if_splits sum.splits)
  obtain e where v: "verify_locator l (req_context req) b = Inr ()"
    and e: "dict_get (rr_providers (rw_registry w)) (resource_namespace (rb_ownership b), rl_version l, kind) = Some e"
    and eb: "pe_binding e = b" and c: "kind = ''operation'' \<longrightarrow> coordinator_admitted w sc"
    and w': "admit_in_scope w t i (rb_generation b) = Inr w'"
    and ap: "ap = \<lparr>ap_entry = e, ap_request = req, ap_transaction = txn,
        ap_locator = \<lparr>rl_namespace = resource_namespace (rb_ownership b), rl_version = rl_version l,
          rl_record = rl_record l, rl_tenant = rl_tenant l\<rparr>\<rparr>"
    using res sc b by (auto simp: resolve_provider_def split: if_splits sum.splits option.splits)
  obtain ten where ten: "tenant (req_context req) = Some ten" "rl_tenant l = tenant_id ten"
    "rl_version l = contract_version (rb_ownership b)"
    using v by (auto simp: verify_locator_def)
  have scope: "scope_var w t = Some i" "dict_get (rw_scopes w) i = Some sc" "\<not> sc_closed sc" "sc_request sc = req"
    "sc_transaction sc = Some txn" "sc_task sc = t"
    using sc by (auto simp: current_scope_def split: option.splits if_splits)
  have key: "provider_key e = (resource_namespace (rb_ownership b), rl_version l, kind)"
    using prov e by (auto simp: providers_ok_def)
  obtain sc' where sc': "dict_get (rw_scopes w') i = Some sc'" "rb_generation b \<in> set (sc_admitted sc')"
      "sc' = sc\<lparr>sc_admitted := sc_admitted sc'\<rparr>" "rw_registry w' = rw_registry w" "scope_var w' t = scope_var w t"
    using w' scope(2) by (auto simp: admit_in_scope_def put_scope_def scope_var_def dict_get_set split: if_splits sum.splits)
  have "current_scope w' t req txn = Inr (i, sc')"
    using sc' scope by (cases sc; cases sc') (simp add: current_scope_def)
  then have check: "check_admitted w' t ap kind = Inr ()"
    using key e ten sc'(4) eb by (simp add: check_admitted_def ap entry_is_current_def verify_locator_def provider_key_def)
  have "owner_module_id (rb_ownership b) = gen_owner (rb_generation b)"
    using owner_of_name [OF claims, of "(rl_namespace l, rl_version l)" b] b by (simp add: resolve_owner_Inr binding_ok_def)
  then have facts: "read_facts_end ap f = Inr f' \<longrightarrow> f' = f \<and> of_tenant f = tenant_id ten \<and> of_record f = rl_record l \<and>
       of_owner f = gen_owner (rb_generation b) \<and> of_version f = rl_version l" for f f'
    using ten eb by (auto simp: read_facts_end_def check_facts_def ap Let_def)
  have coord: "kind = ''operation'' \<longrightarrow> sc_owner sc \<in> rr_coordinators (rw_registry w) \<and>
       (\<exists>g. sc_generation sc = Some g \<and> is_active (rw_gate w) (Some g) \<and>
          dict_get (rr_tokens (rw_registry w)) g = sc_coordinator sc)"
    using c by (auto simp: coordinator_admitted_def split: option.splits)
  show ?thesis
    by (intro exI [of _ i] exI [of _ sc] exI [of _ ten] exI [of _ b] conjI allI scope ten(1,2) b coord exI [of _ sc'] sc'(1,2) check facts)
      (simp add: ap eb)
qed

section \<open>Validated operations\<close>

text \<open>
  Histories of everything that happens to the scopes: the registry, the gate and the context variables
  may change in any way at any time. The log holds, latest first, the validations recorded and the
  operations let through.
\<close>

datatype scope_event = Recorded nat validation | Applied nat validation

inductive scope_run :: "rworld \<Rightarrow> scope_event list \<Rightarrow> bool" where
  scopes_new: "rw_scopes w = [] \<Longrightarrow> scope_run w []"
| scopes_other: "scope_run w log \<Longrightarrow> scope_run (w\<lparr>rw_registry := r, rw_gate := s, rw_current := vars\<rparr>) log"
| scopes_enter: "scope_run w log \<Longrightarrow> enter_scope w t req owner go c = (i, token, w') \<Longrightarrow> scope_run w' log"
| scopes_exit: "scope_run w log \<Longrightarrow> scope_run (exit_scope w t i token) log"
| scopes_bind: "scope_run w log \<Longrightarrow> bind_transaction w i txn = Inr w' \<Longrightarrow> scope_run w' log"
| scopes_resolve: "scope_run w log \<Longrightarrow> resolve_provider w t l kind req txn = Inr (ap, w') \<Longrightarrow> scope_run w' log"
| scopes_validated: "scope_run w log \<Longrightarrow> validate_operation_end w t ap action f = Inr (f', w') \<Longrightarrow>
    scope_var w t = Some i \<Longrightarrow> scope_run w' (Recorded i (the_validation ap action) # log)"
| scopes_applied: "scope_run w log \<Longrightarrow> apply_operation_begin w t ap action = Inr w' \<Longrightarrow>
    scope_var w t = Some i \<Longrightarrow> scope_run w' (Applied i (the_validation ap action) # log)"

fun pending :: "scope_event list \<Rightarrow> nat \<Rightarrow> validation \<Rightarrow> bool" where
  "pending [] i v = False"
| "pending (Recorded j u # log) i v = ((j = i \<and> u = v) \<or> pending log i v)"
| "pending (Applied j u # log) i v = (\<not> (j = i \<and> u = v) \<and> pending log i v)"

lemma pending_split:
  "pending log i v \<Longrightarrow> \<exists>later earlier. log = later @ Recorded i v # earlier \<and> Applied i v \<notin> set later"
proof (induction log i v rule: pending.induct)
  case (2 j u log i v)
  show ?case
  proof (cases "j = i \<and> u = v")
    case True
    then show ?thesis by (intro exI [of _ "[]"] exI [of _ log]) simp
  next
    case False
    with 2 obtain later earlier where "log = later @ Recorded i v # earlier" "Applied i v \<notin> set later" by auto
    then show ?thesis by (intro exI [of _ "Recorded j u # later"] exI [of _ earlier]) simp
  qed
next
  case (3 j u log i v)
  then obtain later earlier where "log = later @ Recorded i v # earlier" "Applied i v \<notin> set later" by auto
  with 3 show ?case by (intro exI [of _ "Applied j u # later"] exI [of _ earlier]) auto
qed simp

definition log_ok :: "rworld \<Rightarrow> scope_event list \<Rightarrow> bool" where
  "log_ok w log \<longleftrightarrow> (\<forall>i sc. dict_get (rw_scopes w) i = Some sc \<longrightarrow> i < rw_next_scope w \<and> (\<forall>v. v \<in> sc_validated sc \<longleftrightarrow> pending log i v)) \<and>
     (\<forall>i v. pending log i v \<longrightarrow> i < rw_next_scope w)"

lemma current_scope_Inr:
  "current_scope w t req txn = Inr (i, sc) \<longleftrightarrow> scope_var w t = Some i \<and> dict_get (rw_scopes w) i = Some sc \<and>
     \<not> sc_closed sc \<and> sc_request sc = req \<and> sc_transaction sc = Some txn \<and> sc_task sc = t"
  by (auto simp: current_scope_def split: option.splits)

lemma log_ok_put:
  assumes "log_ok w log" "dict_get (rw_scopes w) i = Some sc" "sc_validated sc' = sc_validated sc"
  shows "log_ok (put_scope i sc' w) log"
  using assms unfolding log_ok_def put_scope_def by (simp add: dict_get_set)

lemma log_ok_cong:
  "rw_scopes w' = rw_scopes w \<Longrightarrow> rw_next_scope w' = rw_next_scope w \<Longrightarrow> log_ok w' log = log_ok w log"
  by (simp add: log_ok_def)

lemma validate_end_Inr:
  "validate_operation_end w t ap action f = Inr (f', w') \<Longrightarrow>
     \<exists>i sc. current_scope w t (ap_request ap) (ap_transaction ap) = Inr (i, sc) \<and>
       w' = record_validation w i sc (the_validation ap action)"
  by (auto simp: validate_operation_end_def split: sum.splits if_splits)

lemma apply_begin_Inr:
  "apply_operation_begin w t ap action = Inr w' \<Longrightarrow>
     \<exists>i sc. current_scope w t (ap_request ap) (ap_transaction ap) = Inr (i, sc) \<and> the_validation ap action \<in> sc_validated sc \<and>
       w' = put_scope i (sc\<lparr>sc_validated := sc_validated sc - {the_validation ap action}\<rparr>) w"
  by (auto simp: apply_operation_begin_def consume_validation_def split: sum.splits if_splits)

lemma scope_run_log: "scope_run w log \<Longrightarrow> log_ok w log"
proof (induction rule: scope_run.induct)
  case (scopes_new w)
  then show ?case by (simp add: log_ok_def)
next
  case (scopes_other w log r s vars)
  then show ?case by (simp add: log_ok_def)
next
  case (scopes_enter w log t req owner go c i token w')
  then show ?case
    by (auto simp: enter_scope_def Let_def put_scope_def log_ok_def dict_get_set less_Suc_eq split: if_splits)
next
  case (scopes_exit w log t i token)
  show ?case
  proof (cases "dict_get (rw_scopes w) i")
    case (Some sc)
    then have "log_ok (put_scope i (sc\<lparr>sc_closed := True\<rparr>) w) log"
      by (intro log_ok_put [OF scopes_exit.IH]) simp_all
    with Some show ?thesis by (simp add: exit_scope_def log_ok_def)
  qed (use scopes_exit.IH in \<open>simp add: exit_scope_def\<close>)
next
  case (scopes_bind w log i txn w')
  then show ?case by (auto simp: bind_transaction_def split: option.splits if_splits intro: log_ok_put)
next
  case (scopes_resolve w log t l kind req txn ap w')
  then obtain i g where "admit_in_scope w t i g = Inr w'"
    by (auto simp: resolve_provider_def split: if_splits sum.splits option.splits)
  then obtain sc as s where "w' = w \<or> dict_get (rw_scopes w) i = Some sc \<and> w' = (put_scope i (sc\<lparr>sc_admitted := as\<rparr>) w)\<lparr>rw_gate := s\<rparr>"
    by (auto simp: admit_in_scope_def split: option.splits if_splits sum.splits)
  moreover have "log_ok (put_scope i (sc\<lparr>sc_admitted := as\<rparr>) w) log" if "dict_get (rw_scopes w) i = Some sc"
    using that by (intro log_ok_put [OF scopes_resolve.IH]) simp_all
  ultimately show ?case using scopes_resolve.IH log_ok_cong [of w' "put_scope i (sc\<lparr>sc_admitted := as\<rparr>) w" log] by auto
next
  case (scopes_validated w log t ap action f f' w' i)
  from validate_end_Inr [OF scopes_validated.hyps(2)] scopes_validated.hyps(3)
  obtain sc where "dict_get (rw_scopes w) i = Some sc" "w' = record_validation w i sc (the_validation ap action)"
    by (auto simp: current_scope_Inr)
  with scopes_validated.IH show ?case
    by (auto simp: log_ok_def record_validation_def put_scope_def dict_get_set)
next
  case (scopes_applied w log t ap action w' i)
  from apply_begin_Inr [OF scopes_applied.hyps(2)] scopes_applied.hyps(3)
  obtain sc where "dict_get (rw_scopes w) i = Some sc"
    "w' = put_scope i (sc\<lparr>sc_validated := sc_validated sc - {the_validation ap action}\<rparr>) w"
    by (auto simp: current_scope_Inr)
  with scopes_applied.IH show ?case by (auto simp: log_ok_def put_scope_def dict_get_set)
qed

text \<open>
  No owner operation runs unvalidated, and a validation is good for one operation: whenever
  an operation is let through to its provider, in whatever interleaving, the same entry validated
  the same action on the same locator earlier in the same open transaction scope, and no operation
  has used that validation since.
\<close>

theorem operation_needs_validation:
  assumes "scope_run w log" and "apply_operation_begin w t ap action = Inr w'"
  shows "\<exists>i sc later earlier. scope_var w t = Some i \<and> dict_get (rw_scopes w) i = Some sc \<and> \<not> sc_closed sc \<and>
    sc_request sc = ap_request ap \<and> sc_transaction sc = Some (ap_transaction ap) \<and> sc_task sc = t \<and>
    log = later @ Recorded i (the_validation ap action) # earlier \<and>
    Applied i (the_validation ap action) \<notin> set later"
proof -
  obtain i sc where sc: "current_scope w t (ap_request ap) (ap_transaction ap) = Inr (i, sc)"
    "the_validation ap action \<in> sc_validated sc"
    using apply_begin_Inr [OF assms(2)] by blast
  then have "pending log i (the_validation ap action)"
    using scope_run_log [OF assms(1)] by (auto simp: log_ok_def current_scope_Inr)
  from pending_split [OF this] sc(1) show ?thesis unfolding current_scope_Inr by blast
qed

section \<open>Concrete runs\<close>

definition demo_ownership :: resource_ownership where
  "demo_ownership = \<lparr>resource_namespace = ''m.doc'', owner_module_id = ''m'', contract_version = ''1'', aliases = [''doc'']\<rparr>"

definition demo_resource_manifest :: manifest where
  "demo_resource_manifest = (demo_manifest ''m'' [])\<lparr>resource_ownerships := [demo_ownership]\<rparr>"

definition demo_gate :: "contribution_state \<Rightarrow> gate" where
  "demo_gate l = \<lparr>next_generation = [(''m'', 1)],
     states = [(demo_gen, \<lparr>lifecycle = l, in_flight = 0, drained = True\<rparr>)], retired = {}\<rparr>"

definition demo_provider :: provider_object where
  "demo_provider = \<lparr>po_identity = 1, po_callable = [''read_facts'', ''validate_operation'', ''apply_operation''],
     po_actions = Some [''close'']\<rparr>"

definition demo_entry :: "string \<Rightarrow> provider_entry" where
  "demo_entry kind = \<lparr>pe_identity = 0, pe_binding = \<lparr>rb_ownership = demo_ownership, rb_generation = demo_gen\<rparr>, pe_kind = kind,
     pe_provider = demo_provider, pe_actions = (if kind = ''operation'' then [''close''] else [])\<rparr>"

definition demo_resource_ops :: "string \<Rightarrow> resource_op list" where
  "demo_resource_ops kind = [StageClaims (demo_gate STAGED) demo_resource_manifest demo_gen,
     AddProvider (demo_gate STAGED) demo_resource_manifest demo_gen ''m.doc'' ''1'' kind demo_provider]"

definition demo_resources :: "string \<Rightarrow> ownership_registry" where
  "demo_resources kind = \<lparr>rr_coordinators = {}, rr_tokens = [],
     rr_bindings = [((''m.doc'', ''1''), \<lparr>rb_ownership = demo_ownership, rb_generation = demo_gen\<rparr>)],
     rr_aliases = [((''doc'', ''1''), (''m.doc'', ''1''))],
     rr_providers = [((''m.doc'', ''1'', kind), demo_entry kind)], rr_next_entry = 1\<rparr>"

lemma demo_stage: "stage (demo_gate STAGED) (new_ownership_registry {}) demo_resource_manifest demo_gen =
    Inr ((demo_resources kind)\<lparr>rr_providers := [], rr_next_entry := 0\<rparr>)"
  by (simp add: stage_def not_staged_def state_of_def gate_state_def demo_gate_def demo_gen_def raise_if_def
      new_ownership_registry_def demo_resource_manifest_def demo_manifest_def claim_ownership_def demo_ownership_def
      starts_with_def resource_names_def claim_name_def bind_ownership_def demo_resources_def Let_def)

lemma demo_register:
  assumes "kind = ''facts'' \<or> kind = ''operation''"
  shows "register_provider (demo_gate STAGED) ((demo_resources kind)\<lparr>rr_providers := [], rr_next_entry := 0\<rparr>)
    demo_resource_manifest demo_gen ''m.doc'' ''1'' kind demo_provider = Inr (demo_resources kind)"
  using assms
  by (elim disjE; hypsubst) (simp_all add: register_provider_def raise_if_def not_staged_def state_of_def gate_state_def demo_gate_def demo_gen_def
      demo_resource_manifest_def demo_manifest_def demo_ownership_def starts_with_def demo_provider_def action_ok_def
      is_lower_def put_provider_def provider_key_def demo_resources_def demo_entry_def)

lemma demo_resource_run:
  assumes "kind = ''facts'' \<or> kind = ''operation''"
  shows "foldl resource_step (new_ownership_registry {}) (demo_resource_ops kind) = demo_resources kind"
  using demo_stage [of kind] demo_register [OF assms] by (simp add: demo_resource_ops_def or_else_def)

theorem resource_owner_exclusive_witness:
  "\<exists>b. resolve_owner (demo_gate ACTIVE) (demo_resources ''facts'') ''doc'' ''1'' = Inr b \<and> owner_module_id (rb_ownership b) = ''m'' \<and>
     resolve_owner (demo_gate ACTIVE) (foldl resource_step (demo_resources ''facts'')
       [StageClaims (demo_gate STAGED) demo_resource_manifest demo_gen]) ''doc'' ''1'' = Inr b"
proof -
  obtain b where b: "resolve_owner (demo_gate ACTIVE) (demo_resources ''facts'') ''doc'' ''1'' = Inr b"
    and g: "rb_generation b = demo_gen"
    by (simp add: resolve_owner_def demo_resources_def demo_gate_def is_active_def)
  have r: "demo_resources ''facts'' = foldl resource_step (new_ownership_registry {}) (demo_resource_ops ''facts'')"
    by (simp add: demo_resource_run)
  have act: "is_active (demo_gate ACTIVE) (Some (rb_generation b))" using g by (simp add: demo_gate_def is_active_def)
  note all = resource_owner_exclusive [OF r b, where s' = "demo_gate ACTIVE"
      and ops' = "[StageClaims (demo_gate STAGED) demo_resource_manifest demo_gen]"]
  have nr: "RemoveResources (rb_generation b) \<notin> set [StageClaims (demo_gate STAGED) demo_resource_manifest demo_gen]" by simp
  from all have "resolve_owner (demo_gate ACTIVE) (foldl resource_step (demo_resources ''facts'')
       [StageClaims (demo_gate STAGED) demo_resource_manifest demo_gen]) ''doc'' ''1'' = Inr b"
    by (elim conjE) (drule mp [OF _ nr], simp only: act if_True)
  moreover from all g have "owner_module_id (rb_ownership b) = ''m''" by (simp add: demo_gen_def)
  ultimately show ?thesis using b by blast
qed

definition demo_request :: request_ref where
  "demo_request = \<lparr>req_identity = 5, req_context = \<lparr>correlation_id = ''c'', trace_id = ''t'',
     tenant = Some (tenant_context_of 1 7 3)\<rparr>\<rparr>"

definition demo_scope :: "scope" where
  "demo_scope = \<lparr>sc_request = demo_request, sc_owner = ''m'', sc_generation = Some demo_gen, sc_coordinator = None,
     sc_transaction = Some 9, sc_task = 2, sc_admitted = [], sc_validated = {}, sc_closed = False\<rparr>"

definition demo_world :: "string \<Rightarrow> rworld" where
  "demo_world kind = \<lparr>rw_registry = demo_resources kind, rw_gate = demo_gate ACTIVE, rw_scopes = [(0, demo_scope)],
     rw_next_scope = 1, rw_current = [(2, Some 0)]\<rparr>"

definition demo_locator :: resource_locator where
  "demo_locator = \<lparr>rl_namespace = ''m.doc'', rl_version = ''1'', rl_record = 4, rl_tenant = 7\<rparr>"

lemma demo_current: "current_scope (demo_world kind) 2 demo_request 9 = Inr (0, demo_scope)"
  by (simp add: current_scope_def scope_var_def demo_world_def demo_scope_def)

theorem provider_confined_witness:
  "\<exists>ap w'. resolve_provider (demo_world ''facts'') 2 demo_locator ''facts'' demo_request 9 = Inr (ap, w') \<and>
     check_admitted w' 2 ap ''facts'' = Inr ()"
proof -
  obtain ap w' where r: "resolve_provider (demo_world ''facts'') 2 demo_locator ''facts'' demo_request 9 = Inr (ap, w')"
    by (simp add: resolve_provider_def demo_current)
      (simp add: demo_world_def demo_resources_def demo_locator_def demo_ownership_def demo_entry_def demo_scope_def
        resolve_owner_def demo_gate_def is_active_def verify_locator_def demo_request_def tenant_context_of_def
        admit_in_scope_def admit_enter_def raise_if_def)
  have "rw_registry (demo_world ''facts'') = foldl resource_step (new_ownership_registry {}) (demo_resource_ops ''facts'')"
    by (simp add: demo_resource_run demo_world_def)
  from provider_confined [OF this r] r show ?thesis by blast
qed

definition demo_admitted :: admitted_provider where
  "demo_admitted = \<lparr>ap_entry = demo_entry ''operation'', ap_request = demo_request, ap_transaction = 9, ap_locator = demo_locator\<rparr>"

lemma demo_world_run: "scope_run (demo_world ''operation'') []"
proof -
  let ?w0 = "\<lparr>rw_registry = demo_resources ''operation'', rw_gate = demo_gate ACTIVE, rw_scopes = [], rw_next_scope = 0,
      rw_current = []\<rparr> :: rworld"
  obtain w1 where w1: "enter_scope ?w0 2 demo_request ''m'' (Some demo_gen) None = (0, None, w1)"
    by (simp add: enter_scope_def Let_def scope_var_def)
  then have "bind_transaction w1 0 9 = Inr (demo_world ''operation'')"
    by (auto simp: enter_scope_def Let_def scope_var_def put_scope_def bind_transaction_def demo_world_def demo_scope_def)
  then show ?thesis by (intro scopes_bind [OF scopes_enter [OF scopes_new w1]]) simp_all
qed

theorem operation_needs_validation_witness:
  "\<exists>w w'. scope_run w [Recorded 0 (the_validation demo_admitted ''close'')] \<and>
     apply_operation_begin w 2 demo_admitted ''close'' = Inr w' \<and> \<not> (\<exists>x. apply_operation_begin w' 2 demo_admitted ''close'' = Inr x)"
proof -
  let ?f = "\<lparr>of_tenant = 7, of_namespace = ''m.doc'', of_record = 4, of_owner = ''m'', of_version = ''1'',
      of_lifecycle = ''current'', of_facts = PyMapping []\<rparr>"
  let ?v = "the_validation demo_admitted ''close''"
  let ?w = "put_scope 0 (demo_scope\<lparr>sc_validated := {?v}\<rparr>) (demo_world ''operation'')"
  let ?w' = "put_scope 0 (demo_scope\<lparr>sc_validated := {}\<rparr>) ?w"
  have "validate_operation_end (demo_world ''operation'') 2 demo_admitted ''close'' ?f = Inr (?f, ?w)"
    using demo_current [of "''operation''"]
    by (simp add: validate_operation_end_def check_facts_def demo_admitted_def demo_entry_def demo_ownership_def
        demo_locator_def record_validation_def demo_scope_def)
  then have run: "scope_run ?w [Recorded 0 ?v]"
    using scopes_validated [OF demo_world_run, of 2 demo_admitted "''close''" ?f ?f ?w 0]
    by (simp add: scope_var_def demo_world_def)
  have cur: "current_scope ?w 2 demo_request 9 = Inr (0, demo_scope\<lparr>sc_validated := {?v}\<rparr>)"
    and cur': "current_scope ?w' 2 demo_request 9 = Inr (0, demo_scope\<lparr>sc_validated := {}\<rparr>)"
    by (simp_all add: current_scope_def scope_var_def put_scope_def demo_world_def demo_scope_def)
  have check: "check_admitted ?w 2 demo_admitted ''operation'' = Inr ()"
    using cur by (simp add: check_admitted_def demo_admitted_def entry_is_current_def provider_key_def demo_entry_def
        put_scope_def demo_world_def demo_resources_def demo_ownership_def verify_locator_def demo_locator_def demo_request_def
        tenant_context_of_def)
  have app: "apply_operation_begin ?w 2 demo_admitted ''close'' = Inr ?w'"
    using check cur by (simp add: apply_operation_begin_def demo_admitted_def action_ok_def is_lower_def consume_validation_def)
  have "\<not> (\<exists>x. apply_operation_begin ?w' 2 demo_admitted ''close'' = Inr x)"
  proof
    assume "\<exists>x. apply_operation_begin ?w' 2 demo_admitted ''close'' = Inr x"
    then obtain x where "apply_operation_begin ?w' 2 demo_admitted ''close'' = Inr x" ..
    from operation_needs_validation [OF scopes_applied [OF run app] this]
    show False by (auto simp: scope_var_def put_scope_def demo_world_def Cons_eq_append_conv)
  qed
  with run app show ?thesis by blast
qed

end
