(* ===== verification/Operation.thy ===== *)
theory Operation
  imports Errors
begin

text \<open>
  The operation boundary of \<open>platform/src/businessos/operation_boundary.py\<close>: what handlers may attach to
  the operation they run in (retained resources and completion guards), how the dispatcher completes
  it, and how everything is released. Asynchronous context managers are pairs of an entering and an
  exiting computation on the outside world \<open>'w\<close>; transactions are known by their identity.
\<close>

record 'w resource =
  res_enter :: "'w \<Rightarrow> exn option \<times> 'w"
  res_exit :: "'w \<Rightarrow> exn option \<times> 'w"

text \<open>\<open>op_stack\<close> is the exit stack, latest first; \<open>op_identities\<close> are the transactions bound to it.\<close>

record 'w operation =
  op_stack :: "'w resource list"
  op_guards :: "'w resource list"
  op_completed :: bool
  op_retained :: int
  op_identities :: "nat set"

record 'w operations =
  ops_objects :: "(nat, 'w operation) dict"
  ops_bound :: "(nat, nat) dict"
  ops_next :: nat

definition no_operations :: "'w operations" where
  "no_operations = \<lparr>ops_objects = [], ops_bound = [], ops_next = 0\<rparr>"

definition new_operation :: "'w operation" where
  "new_operation = \<lparr>op_stack = [], op_guards = [], op_completed = False, op_retained = 0, op_identities = {}\<rparr>"

definition put_operation :: "nat \<Rightarrow> 'w operation \<Rightarrow> 'w operations \<Rightarrow> 'w operations" where
  "put_operation i p b = b\<lparr>ops_objects := dict_set i p (ops_objects b)\<rparr>"

definition operation_of :: "'w operations \<Rightarrow> nat \<Rightarrow> 'w operation" where
  "operation_of b i = (case dict_get (ops_objects b) i of None \<Rightarrow> new_operation | Some p \<Rightarrow> p)"

definition open_boundary :: "'w operations \<Rightarrow> nat \<times> 'w operations" where
  "open_boundary b = (ops_next b, (put_operation (ops_next b) new_operation b)\<lparr>ops_next := ops_next b + 1\<rparr>)"

definition bind_boundary :: "'w operations \<Rightarrow> nat \<Rightarrow> nat \<Rightarrow> 'w operations" where
  "bind_boundary b txn i =
     (let p = operation_of b i
      in (put_operation i (p\<lparr>op_identities := insert txn (op_identities p)\<rparr>) b)\<lparr>ops_bound := dict_set txn i (ops_bound b)\<rparr>)"

text \<open>The weak reference's callback: the transaction object is gone.\<close>

definition discard_transaction :: "'w operations \<Rightarrow> nat \<Rightarrow> 'w operations" where
  "discard_transaction b txn = b\<lparr>ops_bound := dict_pop txn (ops_bound b)\<rparr>"

text \<open>\<open>_boundary\<close>: the open operation a transaction belongs to.\<close>

definition find_boundary :: "'w operations \<Rightarrow> nat \<Rightarrow> exn + nat" where
  "find_boundary b txn =
     (case dict_get (ops_bound b) txn of
        None \<Rightarrow> Inl (ConfigurationError ''Framework-issued operation boundary required'')
      | Some i \<Rightarrow> if op_completed (operation_of b i)
                  then Inl (ConfigurationError ''Operation boundary registration is closed'')
                  else Inr i)"

definition retain_resource ::
  "'w operations \<Rightarrow> nat \<Rightarrow> 'w resource \<Rightarrow> 'w \<Rightarrow> exn option \<times> 'w operations \<times> 'w" where
  "retain_resource b txn r w =
     (case find_boundary b txn of
        Inl e \<Rightarrow> (Some e, b, w)
      | Inr i \<Rightarrow>
          let p = operation_of b i
          in if op_retained p \<ge> 128
             then (Some (ConfigurationError ''Operation admission budget exceeded''), b, w)
             else
               let p1 = p\<lparr>op_retained := op_retained p + 1\<rparr>;
                   (e, w1) = res_enter r w
               in (e, put_operation i (if e = None then p1\<lparr>op_stack := r # op_stack p\<rparr> else p1) b, w1))"

definition defer_completion :: "'w operations \<Rightarrow> nat \<Rightarrow> 'w resource \<Rightarrow> exn + 'w operations" where
  "defer_completion b txn guard =
     (case find_boundary b txn of
        Inl e \<Rightarrow> Inl e
      | Inr i \<Rightarrow>
          let p = operation_of b i
          in if length (op_guards p) \<ge> 64
             then Inl (ConfigurationError ''Operation completion guard budget exceeded'')
             else Inr (put_operation i (p\<lparr>op_guards := op_guards p @ [guard]\<rparr>) b))"

text \<open>Entering the guards one after the other onto the exit stack, up to the first that fails.\<close>

fun enter_guards :: "'w resource list \<Rightarrow> 'w resource list \<Rightarrow> 'w \<Rightarrow> exn option \<times> 'w resource list \<times> 'w" where
  "enter_guards stack [] w = (None, stack, w)"
| "enter_guards stack (g # gs) w =
     (let (e, w1) = res_enter g w
      in if e = None then enter_guards (g # stack) gs w1 else (e, stack, w1))"

definition complete_operation :: "'w operations \<Rightarrow> nat \<Rightarrow> 'w \<Rightarrow> exn option \<times> 'w operations \<times> 'w" where
  "complete_operation b i w =
     (let p = operation_of b i
      in if op_completed p then (Some (ConfigurationError ''Operation already completed''), b, w)
         else
           let (e, stack, w1) = enter_guards (op_stack p) (op_guards p) w
           in (e, put_operation i (p\<lparr>op_completed := True, op_stack := stack\<rparr>) b, w1))"

text \<open>
  Leaving the exit stack releases every resource, whatever the others raise; the exception
  that was raised last is the one that goes on.
\<close>

fun unwind :: "'w resource list \<Rightarrow> exn option \<Rightarrow> 'w \<Rightarrow> exn option \<times> 'w" where
  "unwind [] e w = (e, w)"
| "unwind (r # rs) e w =
     (let (e1, w1) = res_exit r w in unwind rs (if e1 = None then e else e1) w1)"

text \<open>\<open>__aexit__\<close>; \<open>e\<close> is the exception the operation is left with.\<close>

definition close_boundary :: "'w operations \<Rightarrow> nat \<Rightarrow> exn option \<Rightarrow> 'w \<Rightarrow> exn option \<times> 'w operations \<times> 'w" where
  "close_boundary b i e w =
     (let p = operation_of b i;
          (e1, w1) = unwind (op_stack p) e w
      in (e1, (put_operation i (p\<lparr>op_completed := True, op_stack := [], op_guards := [], op_identities := {}\<rparr>) b)
            \<lparr>ops_bound := filter (\<lambda>x. \<not> (fst x \<in> op_identities p \<and> snd x = i)) (ops_bound b)\<rparr>, w1))"

section \<open>Histories\<close>

text \<open>
  What the dispatcher and any number of handlers do to the boundaries, in any order.
\<close>

inductive boundary_run :: "'w operations \<Rightarrow> bool" where
  boundaries_new: "boundary_run no_operations"
| boundaries_open: "boundary_run b \<Longrightarrow> open_boundary b = (i, b') \<Longrightarrow> boundary_run b'"
| boundaries_bind: "boundary_run b \<Longrightarrow> i < ops_next b \<Longrightarrow> boundary_run (bind_boundary b txn i)"
| boundaries_discard: "boundary_run b \<Longrightarrow> boundary_run (discard_transaction b txn)"
| boundaries_retain: "boundary_run b \<Longrightarrow> retain_resource b txn r w = (e, b', w') \<Longrightarrow> boundary_run b'"
| boundaries_defer: "boundary_run b \<Longrightarrow> defer_completion b txn g = Inr b' \<Longrightarrow> boundary_run b'"
| boundaries_complete: "boundary_run b \<Longrightarrow> complete_operation b i w = (e, b', w') \<Longrightarrow> i < ops_next b \<Longrightarrow> boundary_run b'"
| boundaries_close: "boundary_run b \<Longrightarrow> close_boundary b i e w = (e', b', w') \<Longrightarrow> i < ops_next b \<Longrightarrow> boundary_run b'"

definition operation_ok :: "'w operation \<Rightarrow> bool" where
  "operation_ok p \<longleftrightarrow> 0 \<le> op_retained p \<and> op_retained p \<le> 128 \<and> length (op_guards p) \<le> 64 \<and>
     int (length (op_stack p)) \<le> op_retained p + (if op_completed p then 64 else 0)"

definition boundaries_ok :: "'w operations \<Rightarrow> bool" where
  "boundaries_ok b \<longleftrightarrow> dict_ok (ops_bound b) \<and> (\<forall>i p. dict_get (ops_objects b) i = Some p \<longrightarrow> i < ops_next b \<and> operation_ok p) \<and>
     (\<forall>txn i. dict_get (ops_bound b) txn = Some i \<longrightarrow> i < ops_next b \<and> txn \<in> op_identities (operation_of b i))"

lemma boundaries_okI:
  assumes "dict_ok (ops_bound b)" "\<And>i p. dict_get (ops_objects b) i = Some p \<Longrightarrow> i < ops_next b \<and> operation_ok p"
    and "\<And>txn i. dict_get (ops_bound b) txn = Some i \<Longrightarrow> i < ops_next b \<and> txn \<in> op_identities (operation_of b i)"
  shows "boundaries_ok b"
  using assms unfolding boundaries_ok_def by blast

lemma operation_ok_new [simp]: "operation_ok new_operation"
  by (simp add: operation_ok_def new_operation_def)

lemma boundaries_okD:
  assumes "boundaries_ok b"
  shows "operation_ok (operation_of b i)" "dict_ok (ops_bound b)"
    and "dict_get (ops_bound b) txn = Some i \<Longrightarrow> i < ops_next b \<and> txn \<in> op_identities (operation_of b i)"
    and "dict_get (ops_objects b) i = Some p \<Longrightarrow> i < ops_next b \<and> operation_ok p"
  using assms by (auto simp: boundaries_ok_def operation_of_def split: option.split)

lemma operation_of_put [simp]: "operation_of (put_operation i p b) j = (if j = i then p else operation_of b j)"
  by (simp add: operation_of_def put_operation_def dict_get_set)

lemma boundaries_ok_put:
  assumes "boundaries_ok b" "operation_ok p" "i < ops_next b" "op_identities (operation_of b i) \<subseteq> op_identities p"
  shows "boundaries_ok (put_operation i p b)"
  using assms unfolding boundaries_ok_def by (auto simp: put_operation_def dict_get_set operation_of_def split: if_splits)

lemma find_boundary_Inr:
  "find_boundary b txn = Inr i \<longleftrightarrow> dict_get (ops_bound b) txn = Some i \<and> \<not> op_completed (operation_of b i)"
  by (auto simp: find_boundary_def split: option.splits)

lemma enter_guards_length:
  "enter_guards stack gs w = (e, stack', w') \<Longrightarrow> length stack' \<le> length stack + length gs \<and>
     (e = None \<longrightarrow> stack' = rev gs @ stack)"
proof (induction stack gs w rule: enter_guards.induct)
  case (2 stack g gs w)
  then show ?case by (cases "res_enter g w") (fastforce split: if_splits)
qed simp

lemma retain_effect:
  assumes ok: "boundaries_ok b" and r: "retain_resource b txn r w = (e, b', w')"
  shows "boundaries_ok b'"
proof (cases "find_boundary b txn")
  case (Inl x)
  with ok r show ?thesis by (simp add: retain_resource_def)
next
  case (Inr i)
  note i = Inr [unfolded find_boundary_Inr]
  note p = boundaries_okD(1) [OF ok, of i] and lt = boundaries_okD(3) [OF ok i [THEN conjunct1]]
  show ?thesis
  proof (cases "op_retained (operation_of b i) \<ge> 128")
    case True
    with ok r Inr show ?thesis by (simp add: retain_resource_def)
  next
    case False
    obtain x w1 where x: "res_enter r w = (x, w1)" by fastforce
    let ?p = "(operation_of b i)\<lparr>op_retained := op_retained (operation_of b i) + 1\<rparr>"
    have "b' = put_operation i (if x = None then ?p\<lparr>op_stack := r # op_stack (operation_of b i)\<rparr> else ?p) b"
      using r Inr False x by (auto simp: retain_resource_def Let_def)
    with p lt i False show ?thesis by (auto simp: operation_ok_def intro: boundaries_ok_put [OF ok])
  qed
qed

lemma complete_effect:
  assumes ok: "boundaries_ok b" and i: "i < ops_next b" and c: "complete_operation b i w = (e, b', w')"
  shows "boundaries_ok b'"
proof (cases "op_completed (operation_of b i)")
  case True
  with ok c show ?thesis by (simp add: complete_operation_def)
next
  case False
  obtain x stack w1 where g: "enter_guards (op_stack (operation_of b i)) (op_guards (operation_of b i)) w = (x, stack, w1)"
    by (metis prod_cases3)
  with c False have "b' = put_operation i ((operation_of b i)\<lparr>op_completed := True, op_stack := stack\<rparr>) b"
    by (simp add: complete_operation_def Let_def)
  moreover have "operation_ok ((operation_of b i)\<lparr>op_completed := True, op_stack := stack\<rparr>)"
    using boundaries_okD(1) [OF ok, of i] enter_guards_length [OF g] False by (auto simp: operation_ok_def)
  ultimately show ?thesis using i by (auto intro: boundaries_ok_put [OF ok])
qed

lemma close_effect:
  assumes ok: "boundaries_ok b" and i: "i < ops_next b" and c: "close_boundary b i e w = (e', b', w')"
  shows "boundaries_ok b' \<and> (\<forall>txn. dict_get (ops_bound b') txn \<noteq> Some i) \<and> operation_of b' i =
    (operation_of b i)\<lparr>op_completed := True, op_stack := [], op_guards := [], op_identities := {}\<rparr>"
proof -
  let ?p = "operation_of b i"
  let ?q = "?p\<lparr>op_completed := True, op_stack := [], op_guards := [], op_identities := {}\<rparr>"
  have b': "b' = (put_operation i ?q b)
      \<lparr>ops_bound := filter (\<lambda>x. \<not> (fst x \<in> op_identities ?p \<and> snd x = i)) (ops_bound b)\<rparr>"
    using c by (auto simp: close_boundary_def Let_def split: prod.splits)
  have bound: "dict_get (ops_bound b) txn = Some j \<and> j \<noteq> i" if "dict_get (ops_bound b') txn = Some j" for txn j
  proof -
    from that have m: "(txn, j) \<in> set (ops_bound b)" "\<not> (txn \<in> op_identities ?p \<and> j = i)"
      unfolding b' by (auto dest!: map_of_SomeD)
    then have "dict_get (ops_bound b) txn = Some j" using boundaries_okD(2) [OF ok] by simp
    with m(2) boundaries_okD(3) [OF ok this] show ?thesis by auto
  qed
  have objects: "ops_objects b' = dict_set i ?q (ops_objects b)" "ops_next b' = ops_next b"
    by (simp_all add: b' put_operation_def)
  have "operation_ok ?q" using boundaries_okD(1) [OF ok, of i] by (simp add: operation_ok_def)
  moreover have "dict_ok (ops_bound b')" using boundaries_okD(2) [OF ok] by (simp add: b' distinct_map_filter)
  ultimately have "boundaries_ok b'"
  proof (intro boundaries_okI)
    show "j < ops_next b' \<and> operation_ok p" if "dict_get (ops_objects b') j = Some p" for j p
      using that boundaries_okD(4) [OF ok, of j p] i \<open>operation_ok ?q\<close> objects by (simp add: dict_get_set split: if_splits)
    show "j < ops_next b' \<and> txn \<in> op_identities (operation_of b' j)" if "dict_get (ops_bound b') txn = Some j" for txn j
      using boundaries_okD(3) [OF ok bound [OF that, THEN conjunct1]] bound [OF that] objects
      by (simp add: operation_of_def dict_get_set)
  qed
  moreover have "dict_get (ops_bound b') txn \<noteq> Some i" for txn using bound by blast
  moreover have "operation_of b' i = ?q" by (simp add: operation_of_def objects dict_get_set)
  ultimately show ?thesis by blast
qed

lemma boundary_run_ok: "boundary_run b \<Longrightarrow> boundaries_ok b"
proof (induction rule: boundary_run.induct)
  case boundaries_new
  show ?case by (simp add: boundaries_ok_def no_operations_def)
next
  case (boundaries_open b i b')
  then have b': "b' = (put_operation (ops_next b) new_operation b)\<lparr>ops_next := ops_next b + 1\<rparr>"
    by (auto simp: open_boundary_def)
  note old = boundaries_okD(2-4) [OF boundaries_open.IH]
  show ?case
  proof (rule boundaries_okI)
    show "dict_ok (ops_bound b')" using old(1) by (simp add: b' put_operation_def)
    show "j < ops_next b' \<and> operation_ok p" if "dict_get (ops_objects b') j = Some p" for j p
      using old(3) [of j p] that by (auto simp: b' put_operation_def dict_get_set split: if_splits)
    show "j < ops_next b' \<and> txn \<in> op_identities (operation_of b' j)" if "dict_get (ops_bound b') txn = Some j" for txn j
      using old(2) [of txn j] that by (simp add: b' put_operation_def operation_of_def dict_get_set)
  qed
next
  case (boundaries_bind b i txn)
  let ?p = "(operation_of b i)\<lparr>op_identities := insert txn (op_identities (operation_of b i))\<rparr>"
  have "boundaries_ok (put_operation i ?p b)"
    using boundaries_bind boundaries_okD(1) [of b i] by (intro boundaries_ok_put) (auto simp: operation_ok_def)
  note put = boundaries_okD(2-4) [OF this]
  show ?case
  proof (rule boundaries_okI)
    show "dict_ok (ops_bound (bind_boundary b txn i))"
      using put(1) by (simp add: bind_boundary_def Let_def put_operation_def)
    show "j < ops_next (bind_boundary b txn i) \<and> operation_ok p"
      if "dict_get (ops_objects (bind_boundary b txn i)) j = Some p" for j p
      using put(3) [of j p] that by (simp add: bind_boundary_def Let_def)
    show "j < ops_next (bind_boundary b txn i) \<and> t \<in> op_identities (operation_of (bind_boundary b txn i) j)"
      if "dict_get (ops_bound (bind_boundary b txn i)) t = Some j" for t j
      using put(2) [of t j] that boundaries_bind.hyps(2)
      by (auto simp: bind_boundary_def Let_def dict_get_set operation_of_def put_operation_def split: if_splits)
  qed
next
  case (boundaries_discard b txn)
  then show ?case using boundaries_okD(2-4) [OF boundaries_discard.IH]
    by (intro boundaries_okI) (simp_all add: discard_transaction_def dict_get_pop operation_of_def split: if_splits)
next
  case (boundaries_retain b txn r w e b' w')
  show ?case by (rule retain_effect [OF boundaries_retain.IH boundaries_retain.hyps(2)])
next
  case (boundaries_defer b txn g b')
  then obtain i where i: "dict_get (ops_bound b) txn = Some i" "\<not> op_completed (operation_of b i)"
    "length (op_guards (operation_of b i)) < 64"
    "b' = put_operation i ((operation_of b i)\<lparr>op_guards := op_guards (operation_of b i) @ [g]\<rparr>) b"
    by (auto simp: defer_completion_def find_boundary_Inr Let_def split: sum.splits if_splits)
  show ?case unfolding i(4)
    by (rule boundaries_ok_put [OF boundaries_defer.IH])
      (use boundaries_okD(1,3) [OF boundaries_defer.IH, of i] boundaries_okD(3) [OF boundaries_defer.IH i(1)] i in
        \<open>simp_all add: operation_ok_def\<close>)
next
  case (boundaries_complete b i w e b' w')
  show ?case by (rule complete_effect [OF boundaries_complete.IH boundaries_complete.hyps(3,2)])
next
  case (boundaries_close b i e w e' b' w')
  show ?case using close_effect [OF boundaries_close.IH boundaries_close.hyps(3,2)] by blast
qed

text \<open>
  C27: An operation holds a bounded number of resources and guards, and nothing is attached to it
  once the dispatcher has started completing it: in every state that is reached, at most 128
  resources were retained and at most 64 guards deferred, the exit stack holds at most these, a
  request to retain or defer against a completed or closed operation, or for a transaction the
  framework did not bind, changes nothing and raises, and a closed operation is reachable from no
  transaction.
\<close>

theorem operation_bounded:
  assumes "boundary_run b"
  shows "op_retained (operation_of b i) \<le> 128 \<and> length (op_guards (operation_of b i)) \<le> 64 \<and>
    length (op_stack (operation_of b i)) \<le> 192 \<and>
    ((dict_get (ops_bound b) txn = None \<or> op_completed (operation_of b (the (dict_get (ops_bound b) txn)))) \<longrightarrow>
       (\<exists>e. retain_resource b txn r w = (Some e, b, w)) \<and> (\<exists>e. defer_completion b txn r = Inl e)) \<and>
    (i < ops_next b \<and> close_boundary b i e w = (e', b', w') \<longrightarrow>
       find_boundary b' txn \<noteq> Inr i \<and> op_completed (operation_of b' i) \<and> op_stack (operation_of b' i) = [])"
proof -
  note ok = boundary_run_ok [OF assms]
  note p = boundaries_okD(1) [OF ok, of i, unfolded operation_ok_def]
  have stack: "length (op_stack (operation_of b i)) \<le> 192" using p by (auto split: if_splits)
  have closed: "\<exists>e. find_boundary b txn = Inl e"
    if "dict_get (ops_bound b) txn = None \<or> op_completed (operation_of b (the (dict_get (ops_bound b) txn)))"
    using that by (auto simp: find_boundary_def split: option.split)
  have "find_boundary b' txn \<noteq> Inr i \<and> op_completed (operation_of b' i) \<and> op_stack (operation_of b' i) = []"
    if "i < ops_next b" "close_boundary b i e w = (e', b', w')"
    using close_effect [OF ok that] by (simp add: find_boundary_Inr)
  with p stack closed show ?thesis by (auto simp: retain_resource_def defer_completion_def)
qed

fun exits :: "'w resource list \<Rightarrow> 'w \<Rightarrow> 'w" where
  "exits [] w = w"
| "exits (r # rs) w = exits rs (snd (res_exit r w))"

lemma unwind_exits: "snd (unwind rs e w) = exits rs w"
  by (induction rs e w rule: unwind.induct) (simp add: case_prod_unfold Let_def)+

text \<open>
  Whatever an operation acquired is released: completing and closing it enters all guards in
  the order they were deferred, unless one fails, and exits every resource and guard that was entered,
  in the reverse order of entering, no matter what the others raise.
\<close>

theorem operation_released:
  assumes "\<not> op_completed (operation_of b i)"
    and "complete_operation b i w = (e, b1, w1)" and "close_boundary b1 i e2 w2 = (e', b', w')"
  shows "\<exists>entered skipped. op_guards (operation_of b i) = entered @ skipped \<and> (e = None \<longrightarrow> skipped = []) \<and>
    (e \<noteq> None \<longrightarrow> skipped \<noteq> []) \<and> w' = exits (rev entered @ op_stack (operation_of b i)) w2"
proof -
  let ?p = "operation_of b i"
  have guards: "\<exists>entered skipped. gs = entered @ skipped \<and> (x = None \<longrightarrow> skipped = []) \<and> (x \<noteq> None \<longrightarrow> skipped \<noteq> []) \<and>
      stack' = rev entered @ stack" if "enter_guards stack gs w = (x, stack', w')" for stack gs w x stack' w'
    using that
  proof (induction stack gs w rule: enter_guards.induct)
    case (2 stack g gs w)
    obtain y w1 where y: "res_enter g w = (y, w1)" by fastforce
    show ?case
    proof (cases y)
      case None
      with "2.prems" y have "enter_guards (g # stack) gs w1 = (x, stack', w')" by simp
      from "2.IH" [OF y [symmetric] refl None this] obtain entered skipped where
        "gs = entered @ skipped" "x = None \<longrightarrow> skipped = []" "x \<noteq> None \<longrightarrow> skipped \<noteq> []" "stack' = rev entered @ g # stack"
        by blast
      then show ?thesis by (intro exI [of _ "g # entered"] exI [of _ skipped]) simp
    next
      case (Some z)
      with "2.prems" y show ?thesis by (intro exI [of _ "[]"] exI [of _ "g # gs"]) auto
    qed
  qed simp
  obtain stack where g: "enter_guards (op_stack ?p) (op_guards ?p) w = (e, stack, w1)"
    and b1: "b1 = put_operation i (?p\<lparr>op_completed := True, op_stack := stack\<rparr>) b"
    using assms(1,2) by (auto simp: complete_operation_def Let_def split: prod.splits)
  have "w' = exits stack w2"
    using assms(3) unwind_exits [of stack e2 w2] by (auto simp: close_boundary_def Let_def b1 split: prod.splits)
  with guards [OF g] show ?thesis by blast
qed

text \<open>A concrete resource: it counts how often it is entered, and refuses when the count has reached \<open>n\<close>.\<close>

definition demo_resource :: "nat \<Rightarrow> nat resource" where
  "demo_resource n = \<lparr>res_enter = (\<lambda>w. if w < n then (None, w + 1) else (Some (RuntimeError ''full''), w)),
     res_exit = (\<lambda>w. (None, w - 1))\<rparr>"

definition demo_operations :: "nat operations" where
  "demo_operations = \<lparr>ops_objects = [(0, new_operation\<lparr>op_identities := {7}\<rparr>)], ops_bound = [(7, 0)], ops_next = 1\<rparr>"

lemma demo_operations_run: "boundary_run demo_operations"
proof -
  obtain b where b: "open_boundary (no_operations :: nat operations) = (0, b)"
    by (simp add: open_boundary_def no_operations_def)
  then have "bind_boundary b 7 0 = demo_operations" "0 < ops_next b"
    by (auto simp: open_boundary_def no_operations_def put_operation_def bind_boundary_def operation_of_def
        new_operation_def demo_operations_def)
  with boundaries_bind [OF boundaries_open [OF boundaries_new b]] show ?thesis by metis
qed

theorem operation_bounded_witness:
  "\<exists>e. retain_resource demo_operations 8 (demo_resource 1) 0 = (Some e, demo_operations, 0)"
proof -
  have "dict_get (ops_bound demo_operations) 8 = None" by (simp add: demo_operations_def)
  with operation_bounded [OF demo_operations_run, where txn = 8 and r = "demo_resource 1" and w = 0]
  show ?thesis by blast
qed

theorem operation_released_witness:
  "\<exists>b b1 b' w'. defer_completion demo_operations 7 (demo_resource 1) = Inr b \<and>
     complete_operation b 0 0 = (None, b1, 1) \<and> close_boundary b1 0 None 1 = (None, b', w') \<and> w' = 0"
proof -
  obtain b where b: "defer_completion demo_operations 7 (demo_resource 1) = Inr b"
      "op_guards (operation_of b 0) = [demo_resource 1]" "op_stack (operation_of b 0) = []" "\<not> op_completed (operation_of b 0)"
    by (simp add: defer_completion_def find_boundary_def demo_operations_def operation_of_def new_operation_def put_operation_def)
  obtain b1 where b1: "complete_operation b 0 0 = (None, b1, 1)" "op_stack (operation_of b1 0) = [demo_resource 1]"
    using b by (simp add: complete_operation_def Let_def demo_resource_def)
  obtain b' w' where b': "close_boundary b1 0 None 1 = (None, b', w')"
    using b1 by (simp add: close_boundary_def Let_def demo_resource_def)
  from operation_released [OF b(4) b1(1) b'] b have "w' = 0" by (auto simp: demo_resource_def)
  with b(1) b1(1) b' show ?thesis by blast
qed

end
