(* ===== verification/Json.thy ===== *)
theory Json
  imports Errors "HOL-Library.Multiset"
begin

text \<open>
  JSON documents as Python values and the text \<open>json.dumps\<close> gives them with \<open>sort_keys=True\<close>,
  \<open>separators=(",", ":")\<close>, \<open>ensure_ascii=False\<close> and \<open>allow_nan=False\<close>, the form in which the code
  compares, bounds and hashes documents. A float is its \<open>repr\<close>; characters are code points below 256.
\<close>

datatype json =
    JNull
  | JBool bool
  | JInt int
  | JFloat string
  | JStr string
  | JArr "json list"
  | JObj "(string \<times> json) list"

definition hex_digit :: "nat \<Rightarrow> char" where
  "hex_digit n = (if n < 10 then char_of (48 + n) else char_of (87 + n))"

definition escape_char :: "char \<Rightarrow> string" where
  "escape_char c =
     (let n = (of_char c :: nat)
      in if n = 34 then [CHR 0x5C, CHR 0x22]
         else if n = 92 then [CHR 0x5C, CHR 0x5C]
         else if n = 10 then [CHR 0x5C, CHR ''n'']
         else if n = 13 then [CHR 0x5C, CHR ''r'']
         else if n = 9 then [CHR 0x5C, CHR ''t'']
         else if n = 12 then [CHR 0x5C, CHR ''f'']
         else if n = 8 then [CHR 0x5C, CHR ''b'']
         else if n < 32 then [CHR 0x5C, CHR ''u'', CHR ''0'', CHR ''0'', hex_digit (n div 16), hex_digit (n mod 16)]
         else [c])"

definition dump_string :: "string \<Rightarrow> string" where
  "dump_string s = [CHR 0x22] @ concat (map escape_char s) @ [CHR 0x22]"

fun dump_json :: "json \<Rightarrow> string"
and dump_items :: "json list \<Rightarrow> string list"
and dump_entries :: "(string \<times> json) list \<Rightarrow> (string \<times> string) list" where
  "dump_json JNull = ''null''"
| "dump_json (JBool b) = (if b then ''true'' else ''false'')"
| "dump_json (JInt i) = show_int i"
| "dump_json (JFloat r) = r"
| "dump_json (JStr s) = dump_string s"
| "dump_json (JArr xs) = ''['' @ join_with '','' (dump_items xs) @ '']''"
| "dump_json (JObj es) =
     ''{'' @ join_with '','' (map (\<lambda>(k, v). dump_string k @ '':'' @ v) (sort_key fst (dump_entries es))) @ ''}''"
| "dump_items [] = []"
| "dump_items (x # xs) = dump_json x # dump_items xs"
| "dump_entries [] = []"
| "dump_entries ((k, v) # es) = (k, dump_json v) # dump_entries es"

fun json_finite :: "json \<Rightarrow> bool"
and items_finite :: "json list \<Rightarrow> bool"
and entries_finite :: "(string \<times> json) list \<Rightarrow> bool" where
  "json_finite (JFloat r) = (r \<notin> {''nan'', ''inf'', ''-inf''})"
| "json_finite (JArr xs) = items_finite xs"
| "json_finite (JObj es) = entries_finite es"
| "json_finite _ = True"
| "items_finite [] = True"
| "items_finite (x # xs) = (json_finite x \<and> items_finite xs)"
| "entries_finite [] = True"
| "entries_finite ((k, v) # es) = (json_finite v \<and> entries_finite es)"

definition canonical_json :: "json \<Rightarrow> exn + string" where
  "canonical_json j =
     (if json_finite j then Inr (dump_json j) else Inl (ValueError ''Out of range float values are not JSON compliant''))"

text \<open>The length of a text encoded as UTF-8.\<close>

definition utf8_length :: "string \<Rightarrow> nat" where
  "utf8_length s = sum_list (map (\<lambda>c. if (of_char c :: nat) < 128 then 1 else 2) s)"

lemma utf8_length_bounds: "length s \<le> utf8_length s \<and> utf8_length s \<le> 2 * length s"
  by (induction s) (auto simp: utf8_length_def)

text \<open>The order in which an object's entries were written does not show in its text.\<close>

lemma dump_entries_map: "dump_entries es = map (\<lambda>(k, v). (k, dump_json v)) es"
  by (induction es) auto

lemma dump_json_order:
  assumes "distinct (map fst es)" "distinct (map fst fs)" "set es = set fs"
  shows "dump_json (JObj es) = dump_json (JObj fs)"
proof -
  let ?d = "map (\<lambda>(k, v). (k, dump_json v))"
  have k: "map fst (?d xs) = map fst xs" for xs :: "(string \<times> json) list" by (induction xs) auto
  have "sort_key fst (?d es) = sort_key fst (?d fs)"
  proof (rule map_sorted_distinct_set_unique [where f = fst])
    show "inj_on fst (set (sort_key fst (?d es)) \<union> set (sort_key fst (?d fs)))"
      using assms by (auto simp: inj_on_def dest: eq_key_imp_eq_value)
    show "sorted (map fst (sort_key fst (?d es)))" "sorted (map fst (sort_key fst (?d fs)))" by simp_all
    have "distinct (map fst (sort_key fst (?d xs)))" if "distinct (map fst xs)" for xs :: "(string \<times> json) list"
    proof -
      have "mset (map fst (sort_key fst (?d xs))) = mset (map fst (?d xs))" by (simp only: mset_map mset_sort)
      then have "mset (map fst (sort_key fst (?d xs))) = mset (map fst xs)" by (simp only: k)
      with that show ?thesis by (metis mset_eq_imp_distinct_iff)
    qed
    then show "distinct (map fst (sort_key fst (?d es)))" "distinct (map fst (sort_key fst (?d fs)))" using assms by blast+
    show "set (sort_key fst (?d es)) = set (sort_key fst (?d fs))" using assms(3) by simp
  qed
  then show ?thesis by (simp add: dump_entries_map)
qed

end
