(* ===== verification/Unit_Of_Work.thy ===== *)
theory Unit_Of_Work
  imports Context Json
begin

text \<open>
  The Unit of Work of \<open>platform/src/businessos/persistence/uow.py\<close> and the handler's restricted view of
  it (\<open>messages.py\<close>). The database behind a SQLAlchemy session is not under \<open>src/\<close>: it is a
  parameter that answers every call, given the whole history of calls of all sessions.
\<close>

section \<open>The database as a server of calls\<close>

text \<open>\<open>PendingOutboxMessage\<close>; the payload is the event's JSON document.\<close>

record outbox_message =
  pm_tenant :: uuid
  pm_event_type :: string
  pm_schema :: int
  pm_correlation :: string
  pm_payload :: json
  pm_causation :: "string option"
  pm_event_id :: uuid
  pm_occurred_at :: instant

text \<open>A statement as \<open>_HandlerPersistence\<close> looks at it: its text, or its \<open>str\<close>.\<close>

datatype statement = TextClause string | DdlElement string | OtherStatement string

fun statement_text :: "statement \<Rightarrow> string" where
  "statement_text (TextClause s) = s"
| "statement_text (DdlElement s) = s"
| "statement_text (OtherStatement s) = s"

datatype session_call =
    BeginSession
  | SelectIdentity
  | SetTenant uuid
  | Execute statement
  | FlushSession
  | AddRow outbox_message
  | ClaimRow string uuid uuid
  | CommitSession
  | RollbackSession
  | CloseSession

type_synonym sql_result = "string option list list"
type_synonym call_log = "(nat \<times> session_call) list"
type_synonym server = "call_log \<Rightarrow> exn + sql_result"

text \<open>Sessions are numbered in the order they are created; the log has the latest call last.\<close>

record database =
  db_log :: call_log
  db_next :: nat

definition log_call :: "nat \<Rightarrow> session_call \<Rightarrow> database \<Rightarrow> database" where
  "log_call i c db = db\<lparr>db_log := db_log db @ [(i, c)]\<rparr>"

definition send :: "server \<Rightarrow> nat \<Rightarrow> session_call \<Rightarrow> database \<Rightarrow> (exn + sql_result) \<times> database" where
  "send srv i c db = (srv (db_log (log_call i c db)), log_call i c db)"

text \<open>Calls whose answer is only whether they raised.\<close>

definition attempt :: "server \<Rightarrow> nat \<Rightarrow> session_call \<Rightarrow> database \<Rightarrow> exn option \<times> database" where
  "attempt srv i c db =
     (let (a, db') = send srv i c db in (case a of Inl x \<Rightarrow> Some x | Inr _ \<Rightarrow> None, db'))"

section \<open>The Unit of Work\<close>

record unit_of_work =
  u_tenant :: "tenant_context option"
  u_expected_database :: "string option"
  u_expected_user :: "string option"
  u_system :: bool
  u_session :: "nat option"
  u_committed :: bool

definition new_unit_of_work :: "bool \<Rightarrow> tenant_context option \<Rightarrow> string option \<Rightarrow> string option \<Rightarrow> unit_of_work" where
  "new_unit_of_work system ten database user = \<lparr>u_tenant = ten, u_expected_database = database,
     u_expected_user = user, u_system = system, u_session = None, u_committed = False\<rparr>"

definition require_session :: "unit_of_work \<Rightarrow> exn + nat" where
  "require_session u =
     (case u_session u of None \<Rightarrow> Inl (ConfigurationError ''Unit of Work is not active'') | Some i \<Rightarrow> Inr i)"

definition option_list :: "'a option \<Rightarrow> 'a list" where
  "option_list x = (case x of None \<Rightarrow> [] | Some y \<Rightarrow> [y])"

text \<open>
  \<open>_finish_session\<close>: the clean-up task runs to its end however often its waiter is cancelled; what
  \<open>rollback\<close> and \<open>close\<close> raise is collected.
\<close>

definition finish_session :: "server \<Rightarrow> bool \<Rightarrow> unit_of_work \<Rightarrow> database \<Rightarrow> exn list \<times> unit_of_work \<times> database" where
  "finish_session srv rollback u db =
     (case u_session u of
        None \<Rightarrow> ([], u, db)
      | Some i \<Rightarrow>
          let (e1, db1) = (if rollback then attempt srv i RollbackSession db else (None, db));
              (e2, db2) = attempt srv i CloseSession db1
          in (option_list e1 @ option_list e2, u\<lparr>u_session := None\<rparr>, db2))"

text \<open>The body of \<open>__aenter__\<close>'s \<open>try\<close>; \<open>.one()\<close> wants exactly one row.\<close>

definition check_identity :: "unit_of_work \<Rightarrow> string \<Rightarrow> exn + sql_result \<Rightarrow> exn option" where
  "check_identity u user answer =
     (case answer of
        Inl x \<Rightarrow> Some x
      | Inr [row] \<Rightarrow>
          if row \<noteq> [u_expected_database u, Some user, Some user]
          then Some (ConfigurationError ''Protected database identity mismatch'') else None
      | Inr _ \<Rightarrow> Some (ForeignError ''exactly one row was required''))"

definition identify :: "server \<Rightarrow> unit_of_work \<Rightarrow> nat \<Rightarrow> database \<Rightarrow> exn option \<times> database" where
  "identify srv u i db =
     (case u_expected_user u of
        None \<Rightarrow> (None, db)
      | Some user \<Rightarrow> let (a, db') = send srv i SelectIdentity db in (check_identity u user a, db'))"

definition set_tenant :: "server \<Rightarrow> unit_of_work \<Rightarrow> nat \<Rightarrow> database \<Rightarrow> exn option \<times> database" where
  "set_tenant srv u i db =
     (case u_tenant u of None \<Rightarrow> (None, db) | Some ten \<Rightarrow> attempt srv i (SetTenant (tenant_id ten)) db)"

definition open_transaction :: "server \<Rightarrow> unit_of_work \<Rightarrow> nat \<Rightarrow> database \<Rightarrow> exn option \<times> database" where
  "open_transaction srv u i db =
     (let (e1, db1) = attempt srv i BeginSession db
      in if e1 \<noteq> None then (e1, db1)
         else let (e2, db2) = identify srv u i db1
              in if e2 \<noteq> None then (e2, db2) else set_tenant srv u i db2)"

definition enter_unit_of_work ::
  "server \<Rightarrow> unit_of_work \<Rightarrow> database \<Rightarrow> exn option \<times> unit_of_work \<times> database" where
  "enter_unit_of_work srv u db =
     (if u_session u \<noteq> None then (Some (ConfigurationError ''Unit of Work cannot be entered twice''), u, db)
      else
        let i = db_next db;
            u1 = u\<lparr>u_session := Some i\<rparr>;
            (e, db1) = open_transaction srv u1 i (db\<lparr>db_next := i + 1\<rparr>)
        in (case e of
              None \<Rightarrow> (None, u1, db1)
            | Some x \<Rightarrow>
                let (errors, u2, db2) = finish_session srv True u1 db1
                in (Some (if errors = [] then x else ExceptionGroup ''Unit of Work entry and cleanup failed'' (x # errors)),
                    u2, db2)))"

text \<open>
  \<open>__aexit__\<close>: \<open>e\<close> is the exception the body ended with, \<open>cancelled\<close> the cancellation that arrived
  during the clean-up; the result is the exception that goes on.
\<close>

definition exit_unit_of_work ::
  "server \<Rightarrow> unit_of_work \<Rightarrow> exn option \<Rightarrow> exn option \<Rightarrow> database \<Rightarrow> exn option \<times> unit_of_work \<times> database" where
  "exit_unit_of_work srv u e cancelled db =
     (if u_session u = None then (e, u, db)
      else
        let (errors, u1, db1) = finish_session srv (e \<noteq> None \<or> \<not> u_committed u) u db
        in (if errors \<noteq> [] then Some (ExceptionGroup ''Unit of Work cleanup failed'' (option_list e @ errors))
            else if cancelled \<noteq> None \<and> e = None then cancelled else e, u1, db1))"

definition commit_unit_of_work ::
  "server \<Rightarrow> unit_of_work \<Rightarrow> database \<Rightarrow> exn option \<times> unit_of_work \<times> database" where
  "commit_unit_of_work srv u db =
     (case require_session u of
        Inl x \<Rightarrow> (Some x, u, db)
      | Inr i \<Rightarrow>
          let (e, db1) = attempt srv i CommitSession db
          in (e, if e = None then u\<lparr>u_committed := True\<rparr> else u, db1))"

definition rollback_unit_of_work :: "server \<Rightarrow> unit_of_work \<Rightarrow> database \<Rightarrow> exn option \<times> database" where
  "rollback_unit_of_work srv u db =
     (case require_session u of Inl x \<Rightarrow> (Some x, db) | Inr i \<Rightarrow> attempt srv i RollbackSession db)"

text \<open>\<open>add_outbox\<close> only adds the row to the session; it is written at the next flush or commit.\<close>

definition add_outbox :: "unit_of_work \<Rightarrow> outbox_message \<Rightarrow> database \<Rightarrow> exn option \<times> database" where
  "add_outbox u m db =
     (case require_session u of Inl x \<Rightarrow> (Some x, db) | Inr i \<Rightarrow> (None, log_call i (AddRow m) db))"

text \<open>\<open>scalar\<close>: the first column of the first row, if there is one.\<close>

definition claim_inbox :: "server \<Rightarrow> unit_of_work \<Rightarrow> string \<Rightarrow> uuid \<Rightarrow> uuid \<Rightarrow> database \<Rightarrow> (exn + bool) \<times> database" where
  "claim_inbox srv u consumer event ten db =
     (case require_session u of
        Inl x \<Rightarrow> (Inl x, db)
      | Inr i \<Rightarrow>
          let (a, db1) = send srv i (ClaimRow consumer event ten) db
          in (map_sum id (\<lambda>rows. case rows of (Some v # _) # _ \<Rightarrow> True | _ \<Rightarrow> False) a, db1))"

text \<open>\<open>SQLAlchemyUnitOfWorkFactory\<close>; \<open>system\<close> says whether operational sessions are configured.\<close>

definition for_tenant :: "tenant_context \<Rightarrow> unit_of_work" where
  "for_tenant ten = new_unit_of_work False (Some ten) None None"

definition system_unit_of_work :: "bool \<Rightarrow> exn + unit_of_work" where
  "system_unit_of_work system =
     (if \<not> system
      then Inl (ConfigurationError ''System Unit of Work requires an explicitly configured operational database role'')
      else Inr (new_unit_of_work True None None None))"

section \<open>Statements a handler may not execute\<close>

text \<open>
  \<open>_TRANSACTION_SQL\<close>: at the start of the text or after a semicolon, blanks and comments and then a
  command that starts or finishes a transaction. \<open>after_block\<close> lists the texts after each possible
  end of a block comment, \<open>sql_heads\<close> the places the optional comments can lead to.
\<close>

fun after_block :: "string \<Rightarrow> string list" where
  "after_block (c # d # s) = (if c = CHR ''*'' \<and> d = CHR ''/'' then [s] else []) @ after_block (d # s)"
| "after_block _ = []"

definition after_line :: "string \<Rightarrow> string" where
  "after_line s = drop 1 (dropWhile (\<lambda>c. c \<noteq> CHR 0x0A) s)"

definition after_comment :: "string \<Rightarrow> string list" where
  "after_comment s =
     (if starts_with ''/*'' s then after_block (drop 2 s)
      else if starts_with ''--'' s then [after_line (drop 2 s)] else [])"

lemma after_block_shorter: "t \<in> set (after_block s) \<Longrightarrow> length t < length s"
  by (induction s rule: after_block.induct) (auto split: if_splits)

lemma after_comment_shorter: "t \<in> set (after_comment s) \<Longrightarrow> length t < length s"
proof -
  assume t: "t \<in> set (after_comment s)"
  have line: "length (after_line s') \<le> length s'" for s'
    using length_dropWhile_le [of "\<lambda>c. c \<noteq> CHR 0x0A" s'] by (simp add: after_line_def)
  have long: "length s > 1" if "starts_with [a, b] s" for a b
    using that by (cases s; cases "tl s") (auto simp: starts_with_def)
  from t consider "t \<in> set (after_block (drop 2 s))" | "starts_with ''--'' s" "t = after_line (drop 2 s)"
    by (auto simp: after_comment_def split: if_splits)
  then show ?thesis
  proof cases
    case 1
    from after_block_shorter [OF this] show ?thesis by simp
  next
    case 2
    with line [of "drop 2 s"] long [of "CHR ''-''" "CHR ''-''"] show ?thesis by simp
  qed
qed

function sql_heads :: "string \<Rightarrow> string list" where
  "sql_heads s = (let r = dropWhile is_space s in r # concat (map sql_heads (after_comment r)))"
  by pat_completeness auto
termination
  by (relation "measure length") (auto dest: after_comment_shorter intro: less_le_trans simp: length_dropWhile_le)

declare sql_heads.simps [simp del]

definition word_char :: "char \<Rightarrow> bool" where
  "word_char c \<longleftrightarrow> is_lower (lower_char c) \<or> is_digit c \<or> c = CHR ''_'' \<or> (of_char c :: nat) \<ge> 128"

text \<open>\<open>word w s\<close>: what follows the word \<open>w\<close>, in any case, at the start of \<open>s\<close>.\<close>

definition after_word :: "string \<Rightarrow> string \<Rightarrow> string option" where
  "after_word w s = (if lower (take (length w) s) = w then Some (drop (length w) s) else None)"

definition word_end :: "string \<Rightarrow> bool" where
  "word_end s \<longleftrightarrow> (case s of [] \<Rightarrow> True | c # _ \<Rightarrow> \<not> word_char c)"

definition has_words :: "string list \<Rightarrow> string \<Rightarrow> bool" where
  "has_words ws s \<longleftrightarrow>
     (case ws of
        [w] \<Rightarrow> (case after_word w s of None \<Rightarrow> False | Some r \<Rightarrow> word_end r)
      | [w, v] \<Rightarrow>
          (case after_word w s of
             None \<Rightarrow> False
           | Some r \<Rightarrow> (case r of [] \<Rightarrow> False | c # _ \<Rightarrow> is_space c) \<and>
               (case after_word v (dropWhile is_space r) of None \<Rightarrow> False | Some r' \<Rightarrow> word_end r'))
      | _ \<Rightarrow> False)"

definition transaction_words :: "string list list" where
  "transaction_words = [[''commit''], [''rollback''], [''begin''], [''start'', ''transaction''], [''end''], [''savepoint''],
     [''release'', ''savepoint''], [''prepare'', ''transaction'']]"

definition command_at :: "string \<Rightarrow> bool" where
  "command_at s \<longleftrightarrow> list_ex (\<lambda>r. list_ex (\<lambda>ws. has_words ws r) transaction_words) (sql_heads s)"

fun after_semicolons :: "string \<Rightarrow> string list" where
  "after_semicolons [] = []"
| "after_semicolons (c # s) = (if c = CHR '';'' then [s] else []) @ after_semicolons s"

definition transaction_sql :: "string \<Rightarrow> bool" where
  "transaction_sql s \<longleftrightarrow> list_ex command_at (s # after_semicolons s)"

text \<open>\<open>_HandlerPersistence.execute\<close>.\<close>

definition statement_refused :: "statement \<Rightarrow> bool" where
  "statement_refused st \<longleftrightarrow> (case st of DdlElement _ \<Rightarrow> True | _ \<Rightarrow> False) \<or> transaction_sql (statement_text st)"

definition handler_execute ::
  "server \<Rightarrow> nat \<Rightarrow> statement \<Rightarrow> database \<Rightarrow> (exn + sql_result) \<times> database" where
  "handler_execute srv i st db =
     (if statement_refused st
      then (Inl (ValueError ''Handler persistence cannot control the framework transaction''), db)
      else send srv i (Execute st) db)"

text \<open>Blanks and comments, and the ways to write a command.\<close>

inductive trivia :: "string \<Rightarrow> bool" where
  trivia_nil: "trivia []"
| trivia_blank: "is_space c \<Longrightarrow> trivia s \<Longrightarrow> trivia (c # s)"
| trivia_block: "trivia s \<Longrightarrow> trivia (''/*'' @ b @ ''*/'' @ s)"
| trivia_line: "CHR 0x0A \<notin> set b \<Longrightarrow> trivia s \<Longrightarrow> trivia (''--'' @ b @ CHR 0x0A # s)"

definition spells :: "string list \<Rightarrow> string \<Rightarrow> bool" where
  "spells ws s \<longleftrightarrow>
     (case ws of
        [w] \<Rightarrow> lower s = w
      | [w, v] \<Rightarrow> (\<exists>a b c. s = a @ b @ c \<and> lower a = w \<and> b \<noteq> [] \<and> list_all is_space b \<and> lower c = v)
      | _ \<Rightarrow> False)"

lemma after_block_end: "s \<in> set (after_block (b @ ''*/'' @ s))"
proof (induction b)
  case (Cons c b)
  then show ?case by (cases "b @ ''*/'' @ s") auto
qed simp

lemma after_line_end: "CHR 0x0A \<notin> set b \<Longrightarrow> after_line (b @ CHR 0x0A # s) = s"
  by (induction b) (auto simp: after_line_def)

lemma is_space_slash: "\<not> is_space CHR ''/''" "\<not> is_space CHR ''-''"
  by (simp_all add: is_space_def)

lemma sql_heads_trivia:
  assumes "trivia t" "s \<noteq> [] \<Longrightarrow> \<not> is_space (hd s)"
  shows "s \<in> set (sql_heads (t @ s))"
  using assms
proof (induction t rule: trivia.induct)
  case trivia_nil
  then have "dropWhile is_space s = s" by (cases s) auto
  then show ?case by (subst sql_heads.simps) (simp add: Let_def)
next
  case (trivia_blank c t)
  then have "s \<in> set (sql_heads (t @ s))" by blast
  then show ?case using trivia_blank.hyps by (subst sql_heads.simps, subst (asm) sql_heads.simps) (simp add: Let_def)
next
  case (trivia_block t b)
  then have "s \<in> set (sql_heads (t @ s))" by blast
  moreover have "t @ s \<in> set (after_comment ((''/*'' @ b @ ''*/'' @ t) @ s))"
    using after_block_end [of "t @ s" b] by (simp add: after_comment_def starts_with_def)
  ultimately show ?case
    by (subst sql_heads.simps) (force simp: Let_def is_space_slash)
next
  case (trivia_line b t)
  then have "s \<in> set (sql_heads (t @ s))" by blast
  moreover have "t @ s \<in> set (after_comment ((''--'' @ b @ CHR 0x0A # t) @ s))"
    using after_line_end [OF trivia_line.hyps(1), of "t @ s"] by (simp add: after_comment_def starts_with_def)
  ultimately show ?case
    by (subst sql_heads.simps) (force simp: Let_def is_space_slash)
qed

lemma after_word_end: "lower a = w \<Longrightarrow> after_word w (a @ r) = Some r"
  by (auto simp: after_word_def lower_def)

lemma letter_not_space: "is_lower (lower_char c) \<Longrightarrow> \<not> is_space c"
  by (auto simp: is_lower_def lower_char_def is_upper_def is_space_def Let_def less_eq_char_def split: if_splits)

lemma spelled_starts:
  assumes "ws \<in> set transaction_words" "spells ws k"
  shows "k \<noteq> [] \<and> \<not> is_space (hd k)"
proof -
  have "\<exists>c cs. k = c # cs \<and> is_lower (lower_char c)"
    using assms by (auto simp: transaction_words_def spells_def lower_def is_lower_def map_eq_Cons_conv)
  then show ?thesis using letter_not_space by auto
qed

lemma has_words_spelled:
  assumes "ws \<in> set transaction_words" "spells ws k" "word_end r"
  shows "has_words ws (k @ r)"
proof -
  consider w where "ws = [w]" "lower k = w"
    | w v a b c where "ws = [w, v]" "k = a @ b @ c" "lower a = w" "b \<noteq> []" "list_all is_space b" "lower c = v" "v = ''transaction'' \<or> v = ''savepoint''"
    using assms(1,2) by (auto simp: transaction_words_def spells_def)
  then show ?thesis
  proof cases
    case 1
    then show ?thesis using assms(3) by (simp add: has_words_def after_word_end)
  next
    case 2
    have "\<exists>d cs. c = d # cs \<and> is_lower (lower_char d)"
      using 2(6,7) by (auto simp: lower_def map_eq_Cons_conv is_lower_def)
    then obtain d cs where d: "c = d # cs" "\<not> is_space d" using letter_not_space by blast
    have "dropWhile is_space (b @ c @ r) = c @ r"
      using 2(5) d by (induction b) auto
    moreover have "is_space (hd b)" using 2(4,5) by (cases b) auto
    ultimately show ?thesis
      using 2 assms(3) after_word_end [of a w "b @ c @ r"] after_word_end [of c v r]
      by (cases b) (auto simp: has_words_def)
  qed
qed

lemma after_semicolons_end: "s \<in> set (after_semicolons (p @ CHR '';'' # s))"
  by (induction p) auto

text \<open>
  C12: A handler cannot finish the transaction with a statement the filter knows: whatever comes before
  a semicolon, and whatever blanks and comments follow, a text in which one of the transaction commands
  stands at the start of a statement, in any mixture of cases, is refused before it reaches the database.
\<close>

theorem transaction_commands_refused:
  assumes p: "p = [] \<or> last p = CHR '';''" and t: "trivia t" and ws: "ws \<in> set transaction_words" and k: "spells ws k"
    and r: "word_end r"
  shows "handler_execute srv i (TextClause (p @ t @ k @ r)) db =
    (Inl (ValueError ''Handler persistence cannot control the framework transaction''), db)"
proof -
  have "k @ r \<in> set (sql_heads (t @ k @ r))"
    using sql_heads_trivia [OF t] spelled_starts [OF ws k] by simp
  moreover have "list_ex (\<lambda>ws. has_words ws (k @ r)) transaction_words"
    using ws has_words_spelled [OF ws k r] by (auto simp: list_ex_iff)
  ultimately have at: "command_at (t @ k @ r)" unfolding command_at_def by (auto simp: list_ex_iff)
  have "transaction_sql (p @ t @ k @ r)"
  proof (cases "p = []")
    case True
    with at show ?thesis by (simp add: transaction_sql_def)
  next
    case False
    with p have "p = butlast p @ [CHR '';'']" by (metis append_butlast_last_id)
    then have "t @ k @ r \<in> set (after_semicolons (p @ t @ k @ r))"
      using after_semicolons_end [of "t @ k @ r" "butlast p"] by (metis append.assoc append_Cons append_Nil)
    with at show ?thesis by (auto simp: transaction_sql_def list_ex_iff)
  qed
  then show ?thesis by (simp add: handler_execute_def statement_refused_def)
qed

theorem transaction_commands_refused_witness:
  "handler_execute (\<lambda>_. Inr []) 2 (TextClause (''SELECT 1;'' @ '' /* x */ '' @ ''Commit'' @ '';'')) \<lparr>db_log = [], db_next = 3\<rparr> =
    (Inl (ValueError ''Handler persistence cannot control the framework transaction''), \<lparr>db_log = [], db_next = 3\<rparr>)"
proof -
  have "trivia ('' '' @ (''/*'' @ '' x '' @ ''*/'' @ '' ''))"
    using trivia_blank [OF _ trivia_block [OF trivia_blank [OF _ trivia_nil]], of "CHR '' ''" "CHR '' ''" "'' x ''"]
    by (simp add: is_space_def)
  then have "trivia '' /* x */ ''" by simp
  moreover have "lower ''Commit'' = ''commit''" by code_simp
  then have "spells [''commit''] ''Commit''" by (simp add: spells_def)
  moreover have "word_end '';''" by (simp add: word_end_def word_char_def lower_char_def is_upper_def is_lower_def is_digit_def)
  ultimately show ?thesis
    using transaction_commands_refused [of "''SELECT 1;''" "'' /* x */ ''" "[''commit'']" "''Commit''" "'';''" "\<lambda>_. Inr []" 2 "\<lparr>db_log = [], db_next = 3\<rparr>"]
    by (simp add: transaction_words_def)
qed

text \<open>\<open>ABORT\<close>, PostgreSQL's other name for \<open>ROLLBACK\<close>, is not among the commands that are refused.\<close>

lemma abort_not_refused: "\<not> statement_refused (TextClause ''ABORT'')"
  by code_simp

section \<open>What becomes durable\<close>

text \<open>
  The reference for a sequence of calls: what a session writes is pending until a commit of that
  session is confirmed; a rollback and the end of the session drop it.
\<close>

definition confirmed :: "server \<Rightarrow> call_log \<Rightarrow> bool" where
  "confirmed srv log \<longleftrightarrow> (case srv log of Inl _ \<Rightarrow> False | Inr _ \<Rightarrow> True)"

type_synonym store = "(nat \<Rightarrow> session_call list) \<times> session_call list"

fun settle_call :: "bool \<Rightarrow> nat \<Rightarrow> session_call \<Rightarrow> store \<Rightarrow> store" where
  "settle_call ok i (Execute st) (p, d) = (if ok then p(i := p i @ [Execute st]) else p, d)"
| "settle_call ok i (ClaimRow c e t) (p, d) = (if ok then p(i := p i @ [ClaimRow c e t]) else p, d)"
| "settle_call ok i (AddRow m) (p, d) = (p(i := p i @ [AddRow m]), d)"
| "settle_call ok i CommitSession (p, d) = (p(i := []), if ok then d @ p i else d)"
| "settle_call ok i RollbackSession (p, d) = (p(i := []), d)"
| "settle_call ok i CloseSession (p, d) = (p(i := []), d)"
| "settle_call ok i _ (p, d) = (p, d)"

fun settle :: "server \<Rightarrow> call_log \<Rightarrow> call_log \<Rightarrow> store \<Rightarrow> store" where
  "settle srv seen [] st = st"
| "settle srv seen ((i, c) # rest) st =
     settle srv (seen @ [(i, c)]) rest (settle_call (confirmed srv (seen @ [(i, c)])) i c st)"

definition durable :: "server \<Rightarrow> database \<Rightarrow> session_call list" where
  "durable srv db = snd (settle srv [] (db_log db) (\<lambda>_. [], []))"

text \<open>The writes of a session's calls that the database confirmed.\<close>

fun confirmed_writes :: "server \<Rightarrow> call_log \<Rightarrow> nat \<Rightarrow> session_call list \<Rightarrow> session_call list" where
  "confirmed_writes srv seen i [] = []"
| "confirmed_writes srv seen i (c # cs) =
     (case c of
        Execute st \<Rightarrow> if confirmed srv (seen @ [(i, c)]) then [c] else []
      | AddRow m \<Rightarrow> [c]
      | _ \<Rightarrow> []) @ confirmed_writes srv (seen @ [(i, c)]) i cs"

text \<open>The calls a handler can make, and the calls that open a transaction.\<close>

definition handler_call :: "session_call \<Rightarrow> bool" where
  "handler_call c \<longleftrightarrow>
     (case c of Execute st \<Rightarrow> \<not> statement_refused st | FlushSession \<Rightarrow> True | AddRow m \<Rightarrow> True | _ \<Rightarrow> False)"

definition opening_call :: "session_call \<Rightarrow> bool" where
  "opening_call c \<longleftrightarrow> (case c of BeginSession \<Rightarrow> True | SelectIdentity \<Rightarrow> True | SetTenant t \<Rightarrow> True | _ \<Rightarrow> False)"

definition closing_call :: "session_call \<Rightarrow> bool" where
  "closing_call c \<longleftrightarrow> c = RollbackSession \<or> c = CloseSession"

lemma settle_append: "settle srv seen (a @ b) st = settle srv (seen @ a) b (settle srv seen a st)"
  by (induction srv seen a st rule: settle.induct) simp_all

lemma settle_handler:
  "list_all handler_call cs \<Longrightarrow>
     settle srv seen (map (Pair i) cs) (p, d) = (p(i := p i @ confirmed_writes srv seen i cs), d)"
proof (induction cs arbitrary: seen p)
  case (Cons c cs)
  then show ?case by (cases c) (auto simp: handler_call_def)
qed simp

lemma settle_neutral:
  "list_all (\<lambda>c. opening_call c \<or> closing_call c) cs \<Longrightarrow> p i = [] \<Longrightarrow>
     settle srv seen (map (Pair i) cs) (p, d) = (p, d)"
proof (induction cs arbitrary: seen p)
  case (Cons c cs)
  then have "p(i := []) = p" by auto
  with Cons show ?case by (cases c) (auto simp: opening_call_def closing_call_def)
qed simp

lemma settle_closing:
  "list_all closing_call cs \<Longrightarrow> \<exists>p'. settle srv seen (map (Pair i) cs) (p, d) = (p', d)"
proof (induction cs arbitrary: seen p)
  case (Cons c cs)
  then show ?case by (cases c) (auto simp: closing_call_def)
qed simp

lemma settle_closed: "list_all closing_call cs \<Longrightarrow> snd (settle srv seen (map (Pair i) cs) st) = snd st"
  using settle_closing [of cs srv seen i "fst st" "snd st"] by auto

lemma settle_late: "list_all handler_call cs \<Longrightarrow> snd (settle srv seen (map (Pair i) cs) st) = snd st"
  using settle_handler [of cs srv seen i "fst st" "snd st"] by simp

definition sessions_ok :: "database \<Rightarrow> bool" where
  "sessions_ok db \<longleftrightarrow> (\<forall>(j, c) \<in> set (db_log db). j < db_next db)"

lemma settle_other: "\<forall>(j, c) \<in> set log. j \<noteq> i \<Longrightarrow> fst (settle srv seen log st) i = fst st i"
proof (induction log arbitrary: seen st)
  case (Cons e log)
  obtain j c where e: "e = (j, c)" by fastforce
  obtain p d where st: "st = (p, d)" by fastforce
  from Cons.prems e have "j \<noteq> i" by simp
  then have "fst (settle_call ok j c st) i = fst st i" for ok by (cases c) (auto simp: st)
  with Cons e show ?case by simp
qed simp

lemma durable_no_commit:
  assumes "sessions_ok db" "db_log db' = db_log db @ map (Pair (db_next db)) (opening @ cs @ closing @ late)"
    and "list_all opening_call opening" "list_all handler_call cs" "list_all closing_call closing" "list_all handler_call late"
  shows "durable srv db' = durable srv db"
proof -
  obtain p d where pd: "settle srv [] (db_log db) (\<lambda>_. [], []) = (p, d)" by fastforce
  have "p (db_next db) = []"
    using settle_other [of "db_log db" "db_next db" srv "[]" "(\<lambda>_. [], [])"] assms(1) pd by (fastforce simp: sessions_ok_def)
  then have "settle srv (db_log db) (map (Pair (db_next db)) opening) (p, d) = (p, d)"
    using assms(3) by (intro settle_neutral) (auto simp: list_all_iff)
  then show ?thesis
    by (simp add: durable_def assms(2) settle_append pd settle_handler [OF assms(4)] settle_late [OF assms(6)] settle_closed [OF assms(5)])
qed

lemma durable_commit:
  assumes "sessions_ok db"
    and log: "db_log db' = db_log db @ map (Pair (db_next db)) (opening @ cs @ CommitSession # closing @ late)"
    and "list_all opening_call opening" "list_all handler_call cs" "list_all closing_call closing" "list_all handler_call late"
  shows "durable srv db' = durable srv db @
    (if confirmed srv (db_log db @ map (Pair (db_next db)) (opening @ cs @ [CommitSession]))
     then confirmed_writes srv (db_log db @ map (Pair (db_next db)) opening) (db_next db) cs else [])"
proof -
  let ?i = "db_next db"
  obtain p d where pd: "settle srv [] (db_log db) (\<lambda>_. [], []) = (p, d)" by fastforce
  have p: "p ?i = []"
    using settle_other [of "db_log db" ?i srv "[]" "(\<lambda>_. [], [])"] assms(1) pd by (fastforce simp: sessions_ok_def)
  then have "settle srv (db_log db) (map (Pair ?i) opening) (p, d) = (p, d)"
    using assms(3) by (intro settle_neutral) (auto simp: list_all_iff)
  then show ?thesis
    by (simp add: durable_def log settle_append pd settle_handler [OF assms(4)] settle_late [OF assms(6)] settle_closed [OF assms(5)] p)
qed

lemma attempt_log:
  "attempt srv i c db = (e, db') \<Longrightarrow> db' = log_call i c db \<and> (e = None \<longleftrightarrow> confirmed srv (db_log db @ [(i, c)]))"
  by (auto simp: attempt_def send_def log_call_def confirmed_def split: sum.splits)

lemma log_call_simps [simp]: "db_log (log_call i c db) = db_log db @ [(i, c)]" "db_next (log_call i c db) = db_next db"
  by (simp_all add: log_call_def)

lemma open_transaction_log:
  assumes "open_transaction srv u i db = (e, db')"
  shows "\<exists>opening. db_log db' = db_log db @ map (Pair i) opening \<and> list_all opening_call opening \<and> db_next db' = db_next db \<and>
    (e = None \<longrightarrow> (\<forall>ten. u_tenant u = Some ten \<longrightarrow>
       opening \<noteq> [] \<and> last opening = SetTenant (tenant_id ten) \<and> confirmed srv (db_log db')))"
proof -
  obtain e1 db1 where a: "attempt srv i BeginSession db = (e1, db1)" by fastforce
  note b = attempt_log [OF a]
  show ?thesis
  proof (cases e1)
    case (Some x)
    with assms a b show ?thesis by (auto simp: open_transaction_def opening_call_def intro!: exI [of _ "[BeginSession]"])
  next
    case None
    obtain e2 db2 where c: "identify srv u i db1 = (e2, db2)" by fastforce
    then obtain ids where ids: "db_log db2 = db_log db1 @ map (Pair i) ids" "list_all opening_call ids" "db_next db2 = db_next db1"
    proof -
      assume *: "\<And>ids. db_log db2 = db_log db1 @ map (Pair i) ids \<Longrightarrow> list_all opening_call ids \<Longrightarrow> db_next db2 = db_next db1 \<Longrightarrow> thesis"
      show thesis
        using c * [of "[]"] * [of "[SelectIdentity]"]
        by (auto simp: identify_def send_def opening_call_def split: option.splits)
    qed
    show ?thesis
    proof (cases e2)
      case (Some x)
      with assms a b c None ids show ?thesis
        by (auto simp: open_transaction_def opening_call_def intro!: exI [of _ "BeginSession # ids"])
    next
      case n2: None
      obtain e3 db3 where d: "set_tenant srv u i db2 = (e3, db3)" by fastforce
      with assms a c None n2 have eq: "e = e3" "db' = db3" by (auto simp: open_transaction_def)
      show ?thesis
      proof (cases "u_tenant u")
        case t: None
        with d b ids eq show ?thesis
          by (auto simp: set_tenant_def opening_call_def intro!: exI [of _ "BeginSession # ids"])
      next
        case (Some ten)
        with d have "attempt srv i (SetTenant (tenant_id ten)) db2 = (e3, db3)" by (simp add: set_tenant_def)
        from attempt_log [OF this] b ids eq Some show ?thesis
          by (auto simp: opening_call_def intro!: exI [of _ "BeginSession # ids @ [SetTenant (tenant_id ten)]"])
      qed
    qed
  qed
qed

lemma finish_session_log:
  assumes "finish_session srv rollback u db = (errors, u', db')" "u_session u = Some i"
  shows "\<exists>closing. db_log db' = db_log db @ map (Pair i) closing \<and> list_all closing_call closing \<and> db_next db' = db_next db \<and>
    u' = u\<lparr>u_session := None\<rparr>"
proof -
  obtain e1 db1 where a: "attempt srv i RollbackSession db = (e1, db1)" by fastforce
  obtain e2 db2 where b: "attempt srv i CloseSession (if rollback then db1 else db) = (e2, db2)" by fastforce
  have "db' = db2 \<and> u' = u\<lparr>u_session := None\<rparr>"
    using assms a b by (auto simp: finish_session_def split: if_splits)
  then show ?thesis
    using attempt_log [OF a] attempt_log [OF b]
    by (cases rollback) (auto simp: closing_call_def intro: exI [of _ "[RollbackSession, CloseSession]"] exI [of _ "[CloseSession]"])
qed

end
