(* ===== verification/Dispatch.thy ===== *)
theory Dispatch
  imports Messages Resources Operation Unit_Of_Work
begin

text \<open>
  The message dispatcher of \<open>platform/src/businessos/messages.py\<close>: how a command or query runs inside
  its operation boundary, its gate admission, its resource scope, its Unit of Work and its invocation
  authority, and when it is committed.
\<close>

section \<open>Handlers\<close>

text \<open>
  A handler reaches the world through the restricted transaction, the boundary operations and the
  services of its dependencies; everything else that happens while it is suspended, in other tasks too,
  is a change of its surroundings: the resource registry with the gate and the scopes, the invocation
  authorities, and whatever else there is.
\<close>

record 'x surroundings =
  sr_kernel :: rworld
  sr_invocations :: invocations
  sr_rest :: 'x

record 'x world =
  wd_database :: database
  wd_around :: "'x surroundings"

record domain_event =
  ev_tenant :: uuid
  ev_type :: string
  ev_schema :: int
  ev_correlation :: string
  ev_causation :: "string option"
  ev_id :: uuid
  ev_occurred_at :: instant
  ev_trace :: "(string, string) dict"
  ev_payload :: json

text \<open>
  An activity is what a retained resource or a completion guard does when it is entered or left: it
  may use the handler's persistence, and it ends normally or with an exception.
\<close>

datatype 'x activity =
    Ends "exn option"
  | Asks statement "exn + sql_result \<Rightarrow> 'x activity"
  | Around "'x surroundings \<Rightarrow> 'x surroundings" "'x surroundings \<Rightarrow> 'x activity"

primrec run_activity :: "server \<Rightarrow> nat \<Rightarrow> 'x activity \<Rightarrow> 'x world \<Rightarrow> exn option \<times> 'x world" where
  "run_activity srv i (Ends e) = (\<lambda>w. (e, w))"
| "run_activity srv i (Asks st k) = (\<lambda>w.
     case handler_execute srv i st (wd_database w) of
       (a, db) \<Rightarrow> run_activity srv i (k a) (w\<lparr>wd_database := db\<rparr>))"
| "run_activity srv i (Around f k) = (\<lambda>w.
     run_activity srv i (k (f (wd_around w))) (w\<lparr>wd_around := f (wd_around w)\<rparr>))"

definition activity_resource :: "server \<Rightarrow> nat \<Rightarrow> 'x activity \<Rightarrow> 'x activity \<Rightarrow> 'x world resource" where
  "activity_resource srv i enter leave =
     \<lparr>res_enter = run_activity srv i enter, res_exit = run_activity srv i leave\<rparr>"

datatype ('r, 'x) program =
    Finishes "exn + 'r"
  | Performs statement "exn + sql_result \<Rightarrow> ('r, 'x) program"
  | Flushes "exn option \<Rightarrow> ('r, 'x) program"
  | Adds outbox_message "exn option \<Rightarrow> ('r, 'x) program"
  | Emits domain_event "exn option \<Rightarrow> ('r, 'x) program"
  | Retains "'x activity" "'x activity" "exn option \<Rightarrow> ('r, 'x) program"
  | Defers "'x activity" "'x activity" "exn option \<Rightarrow> ('r, 'x) program"
  | Outside "'x surroundings \<Rightarrow> 'x surroundings" "'x surroundings \<Rightarrow> ('r, 'x) program"

record 'x dispatch_state =
  ds_operations :: "'x world operations"
  ds_world :: "'x world"
  ds_next_transaction :: nat

text \<open>\<open>HandlingContext\<close> without the request's dependency scope.\<close>

record handling =
  hc_request :: request_ref
  hc_transaction :: nat
  hc_invocation :: "nat option"
  hc_events :: "domain_event list"

text \<open>\<open>DomainEvent.to_outbox\<close>.\<close>

definition to_outbox :: "domain_event \<Rightarrow> outbox_message" where
  "to_outbox ev = \<lparr>pm_tenant = ev_tenant ev, pm_event_type = ev_type ev, pm_schema = ev_schema ev,
     pm_correlation = ev_correlation ev, pm_payload = ev_payload ev, pm_causation = ev_causation ev,
     pm_event_id = ev_id ev, pm_occurred_at = ev_occurred_at ev\<rparr>"

text \<open>
  \<open>HandlingContext.emit\<close>; \<open>trace\<close> is what \<open>inject_trace_context\<close> returns. The copy keeps the payload
  in step with the new trace context.
\<close>

definition with_trace :: "(string, string) dict \<Rightarrow> domain_event \<Rightarrow> domain_event" where
  "with_trace tr ev =
     (if ev_trace ev \<noteq> [] then ev
      else ev\<lparr>ev_trace := tr,
              ev_payload := (case ev_payload ev of
                  JObj es \<Rightarrow> JObj (dict_set ''trace_context'' (JObj (map (\<lambda>(k, v). (k, JStr v)) tr)) es)
                | j \<Rightarrow> j)\<rparr>)"

definition emit_event ::
  "(string, string) dict \<Rightarrow> unit_of_work \<Rightarrow> handling \<Rightarrow> domain_event \<Rightarrow> database \<Rightarrow> exn option \<times> handling \<times> database" where
  "emit_event tr u hc ev db =
     (if (case tenant (req_context (hc_request hc)) of None \<Rightarrow> True | Some ten \<Rightarrow> ev_tenant ev \<noteq> tenant_id ten)
      then (Some (ValueError ''Event tenant must match the trusted request tenant''), hc, db)
      else
        let (e, db1) = add_outbox u (to_outbox (with_trace tr ev)) db
        in (e, if e = None then hc\<lparr>hc_events := hc_events hc @ [with_trace tr ev]\<rparr> else hc, db1))"

text \<open>
  What a dispatch meets outside: the database, the trace context of the current span, and the
  cancellation that may arrive while the Unit of Work is cleaned up.
\<close>

record environment =
  en_server :: server
  en_trace :: "(string, string) dict"
  en_cancelled :: "exn option"

primrec run_program ::
  "environment \<Rightarrow> unit_of_work \<Rightarrow> nat \<Rightarrow> ('r, 'x) program \<Rightarrow> handling \<Rightarrow> 'x dispatch_state \<Rightarrow>
   (exn + 'r) \<times> handling \<times> 'x dispatch_state" where
  "run_program en u i (Finishes res) = (\<lambda>hc s. (res, hc, s))"
| "run_program en u i (Performs st k) = (\<lambda>hc s.
     case handler_execute (en_server en) i st (wd_database (ds_world s)) of
       (a, db) \<Rightarrow> run_program en u i (k a) hc (s\<lparr>ds_world := (ds_world s)\<lparr>wd_database := db\<rparr>\<rparr>))"
| "run_program en u i (Flushes k) = (\<lambda>hc s.
     case attempt (en_server en) i FlushSession (wd_database (ds_world s)) of
       (a, db) \<Rightarrow> run_program en u i (k a) hc (s\<lparr>ds_world := (ds_world s)\<lparr>wd_database := db\<rparr>\<rparr>))"
| "run_program en u i (Adds m k) = (\<lambda>hc s.
     case add_outbox u m (wd_database (ds_world s)) of
       (a, db) \<Rightarrow> run_program en u i (k a) hc (s\<lparr>ds_world := (ds_world s)\<lparr>wd_database := db\<rparr>\<rparr>))"
| "run_program en u i (Emits ev k) = (\<lambda>hc s.
     case emit_event (en_trace en) u hc ev (wd_database (ds_world s)) of
       (a, hc', db) \<Rightarrow> run_program en u i (k a) hc' (s\<lparr>ds_world := (ds_world s)\<lparr>wd_database := db\<rparr>\<rparr>))"
| "run_program en u i (Retains en_act ex_act k) = (\<lambda>hc s.
     case retain_resource (ds_operations s) (hc_transaction hc) (activity_resource (en_server en) i en_act ex_act) (ds_world s) of
       (a, ops, w) \<Rightarrow> run_program en u i (k a) hc (s\<lparr>ds_operations := ops, ds_world := w\<rparr>))"
| "run_program en u i (Defers en_act ex_act k) = (\<lambda>hc s.
     case defer_completion (ds_operations s) (hc_transaction hc) (activity_resource (en_server en) i en_act ex_act) of
       Inl x \<Rightarrow> run_program en u i (k (Some x)) hc s
     | Inr ops \<Rightarrow> run_program en u i (k None) hc (s\<lparr>ds_operations := ops\<rparr>))"
| "run_program en u i (Outside f k) = (\<lambda>hc s.
     run_program en u i (k (f (wd_around (ds_world s)))) hc
       (s\<lparr>ds_world := (ds_world s)\<lparr>wd_around := f (wd_around (ds_world s))\<rparr>\<rparr>))"

section \<open>The dispatcher\<close>

text \<open>
  Two collaborators of the dispatcher are its parameters: the selector of the protected database, which
  hands out the Unit of Work of the messages it claims, and the executor of private publications. The
  selector's context manager may raise while it is left, but it does not swallow exceptions.
\<close>

record ('h, 'm, 'x) protected_selector =
  ps_requires :: "'h owned_handler \<Rightarrow> message_type \<Rightarrow> bool"
  ps_admit :: "'h owned_handler \<Rightarrow> 'm \<Rightarrow> tenant_context option \<Rightarrow> 'x surroundings \<Rightarrow> (exn + unit_of_work) \<times> 'x surroundings"
  ps_leave :: "exn option \<Rightarrow> 'x surroundings \<Rightarrow> exn option \<times> 'x surroundings"

record ('h, 'm, 'r, 'x) publication =
  pb_requires :: "'h owned_handler \<Rightarrow> message_type \<Rightarrow> bool"
  pb_execute :: "'h owned_handler \<Rightarrow> 'm \<Rightarrow> request_ref \<Rightarrow> nat \<Rightarrow> 'x dispatch_state \<Rightarrow> (exn + 'r) \<times> 'x dispatch_state"

type_synonym ('m, 'r, 'x) handler_function = "'m \<Rightarrow> handling \<Rightarrow> ('r, 'x) program"

record ('m, 'r, 'x) dispatcher =
  dp_gated :: bool
  dp_commands :: "('m, 'r, 'x) handler_function handler_registry"
  dp_queries :: "('m, 'r, 'x) handler_function handler_registry"
  dp_authorizer :: "evaluator option"
  dp_system :: bool
  dp_protected :: "(('m, 'r, 'x) handler_function, 'm, 'x) protected_selector option"
  dp_publication :: "(('m, 'r, 'x) handler_function, 'm, 'r, 'x) publication option"

text \<open>The parts of the state the dispatcher itself changes.\<close>

definition on_database :: "(database \<Rightarrow> database) \<Rightarrow> 'x dispatch_state \<Rightarrow> 'x dispatch_state" where
  "on_database f s = s\<lparr>ds_world := (ds_world s)\<lparr>wd_database := f (wd_database (ds_world s))\<rparr>\<rparr>"

definition on_around :: "('x surroundings \<Rightarrow> 'x surroundings) \<Rightarrow> 'x dispatch_state \<Rightarrow> 'x dispatch_state" where
  "on_around f s = s\<lparr>ds_world := (ds_world s)\<lparr>wd_around := f (wd_around (ds_world s))\<rparr>\<rparr>"

definition on_kernel :: "(rworld \<Rightarrow> rworld) \<Rightarrow> 'x dispatch_state \<Rightarrow> 'x dispatch_state" where
  "on_kernel f = on_around (\<lambda>a. a\<lparr>sr_kernel := f (sr_kernel a)\<rparr>)"

definition on_invocations :: "(invocations \<Rightarrow> invocations) \<Rightarrow> 'x dispatch_state \<Rightarrow> 'x dispatch_state" where
  "on_invocations f = on_around (\<lambda>a. a\<lparr>sr_invocations := f (sr_invocations a)\<rparr>)"

abbreviation database_of :: "'x dispatch_state \<Rightarrow> database" where
  "database_of s \<equiv> wd_database (ds_world s)"

abbreviation kernel_of :: "'x dispatch_state \<Rightarrow> rworld" where
  "kernel_of s \<equiv> sr_kernel (wd_around (ds_world s))"

abbreviation invocations_of :: "'x dispatch_state \<Rightarrow> invocations" where
  "invocations_of s \<equiv> sr_invocations (wd_around (ds_world s))"

text \<open>The exception a result carries, and the result after a context manager was left with \<open>e\<close>.\<close>

definition exn_of :: "exn + 'r \<Rightarrow> exn option" where
  "exn_of res = (case res of Inl x \<Rightarrow> Some x | Inr _ \<Rightarrow> None)"

definition left_with :: "exn + 'r \<Rightarrow> exn option \<Rightarrow> exn + 'r" where
  "left_with res e = (case e of None \<Rightarrow> res | Some x \<Rightarrow> Inl x)"

definition transaction_view :: "unit_of_work \<Rightarrow> nat \<Rightarrow> 'x dispatch_state \<Rightarrow> exn + nat \<times> nat \<times> 'x dispatch_state" where
  "transaction_view u k s =
     (case require_session u of
        Inl x \<Rightarrow> Inl x
      | Inr i \<Rightarrow> Inr (i, ds_next_transaction s,
          s\<lparr>ds_operations := bind_boundary (ds_operations s) (ds_next_transaction s) k,
            ds_next_transaction := ds_next_transaction s + 1\<rparr>))"

text \<open>The handler, the completion guards and, for a command, the commit.\<close>

definition run_and_complete ::
  "environment \<Rightarrow> invocation_kind \<Rightarrow> unit_of_work \<Rightarrow> nat \<Rightarrow> nat \<Rightarrow> ('r, 'x) program \<Rightarrow> handling \<Rightarrow> 'x dispatch_state \<Rightarrow>
   (exn + 'r) \<times> unit_of_work \<times> 'x dispatch_state" where
  "run_and_complete en kind u i k prog hc s =
     (case run_program en u i prog hc s of
        (Inl x, hc1, s1) \<Rightarrow> (Inl x, u, s1)
      | (Inr r, hc1, s1) \<Rightarrow>
          (case complete_operation (ds_operations s1) k (ds_world s1) of
             (e, ops, w) \<Rightarrow>
               let s2 = s1\<lparr>ds_operations := ops, ds_world := w\<rparr>
               in if e \<noteq> None then (left_with (Inr r) e, u, s2)
                  else if kind = QUERY then (Inr r, u, s2)
                  else (case commit_unit_of_work (en_server en) u (database_of s2) of
                          (e', u', db) \<Rightarrow> (left_with (Inr r) e', u', on_database (\<lambda>_. db) s2))))"

text \<open>
  Authority: a handler registered with trusted provenance and a generation runs under an issued
  invocation, any other without one.
\<close>

definition with_authority ::
  "bool \<Rightarrow> nat \<Rightarrow> 'h owned_handler \<Rightarrow> invocation_kind \<Rightarrow> request_ref \<Rightarrow> nat \<Rightarrow> unit_of_work \<Rightarrow>
   (nat option \<Rightarrow> 'x dispatch_state \<Rightarrow> (exn + 'r) \<times> unit_of_work \<times> 'x dispatch_state) \<Rightarrow> 'x dispatch_state \<Rightarrow>
   (exn + 'r) \<times> unit_of_work \<times> 'x dispatch_state" where
  "with_authority gated t reg kind req txn u body s =
     (case (if gated then oh_dependencies reg else None, oh_generation reg) of
        (Some deps, Some g) \<Rightarrow>
          (case issue_invocation (invocations_of s) (Task t) (oh_owner reg) g kind deps (req_identity req) txn of
             Inl x \<Rightarrow> (Inl x, u, s)
           | Inr (b, token, st) \<Rightarrow>
               let (res, u', s') = body (Some b) (on_invocations (\<lambda>_. st) s)
               in (res, u', on_invocations (\<lambda>st. release_invocation st t b token) s'))
      | _ \<Rightarrow>
          let (token, st) = mask_invocation (invocations_of s) t;
              (res, u', s') = body None (on_invocations (\<lambda>_. st) s)
          in (res, u', on_invocations (\<lambda>st. unmask_invocation st t token) s'))"

definition in_transaction ::
  "environment \<Rightarrow> bool \<Rightarrow> nat \<Rightarrow> invocation_kind \<Rightarrow> ('m, 'r, 'x) handler_function owned_handler \<Rightarrow> 'm \<Rightarrow> request_ref \<Rightarrow> nat \<Rightarrow>
   nat option \<Rightarrow> unit_of_work \<Rightarrow> 'x dispatch_state \<Rightarrow> (exn + 'r) \<times> unit_of_work \<times> 'x dispatch_state" where
  "in_transaction en gated t kind reg m req k sc u s =
     (case transaction_view u k s of
        Inl x \<Rightarrow> (Inl x, u, s)
      | Inr (i, txn, s1) \<Rightarrow>
          (case (case sc of None \<Rightarrow> Inr (kernel_of s1) | Some j \<Rightarrow> bind_transaction (kernel_of s1) j txn) of
             Inl x \<Rightarrow> (Inl x, u, s1)
           | Inr rw \<Rightarrow>
               with_authority gated t reg kind req txn u
                 (\<lambda>b. let hc = \<lparr>hc_request = req, hc_transaction = txn, hc_invocation = b, hc_events = []\<rparr>
                      in run_and_complete en kind u i k (oh_handler reg m hc) hc)
                 (on_kernel (\<lambda>_. rw) s1)))"

definition in_unit_of_work ::
  "environment \<Rightarrow> bool \<Rightarrow> nat \<Rightarrow> invocation_kind \<Rightarrow> ('m, 'r, 'x) handler_function owned_handler \<Rightarrow> 'm \<Rightarrow> request_ref \<Rightarrow> nat \<Rightarrow>
   nat option \<Rightarrow> unit_of_work \<Rightarrow> 'x dispatch_state \<Rightarrow> (exn + 'r) \<times> 'x dispatch_state" where
  "in_unit_of_work en gated t kind reg m req k sc u s =
     (case enter_unit_of_work (en_server en) u (database_of s) of
        (Some x, u1, db) \<Rightarrow> (Inl x, on_database (\<lambda>_. db) s)
      | (None, u1, db) \<Rightarrow>
          let (res, u2, s2) = in_transaction en gated t kind reg m req k sc u1 (on_database (\<lambda>_. db) s);
              (e, u3, db3) = exit_unit_of_work (en_server en) u2 (exn_of res) (en_cancelled en) (database_of s2)
          in (left_with res e, on_database (\<lambda>_. db3) s2))"

definition in_scope ::
  "bool \<Rightarrow> nat \<Rightarrow> 'h owned_handler \<Rightarrow> request_ref \<Rightarrow>
   (nat option \<Rightarrow> 'x dispatch_state \<Rightarrow> (exn + 'r) \<times> 'x dispatch_state) \<Rightarrow> 'x dispatch_state \<Rightarrow> (exn + 'r) \<times> 'x dispatch_state" where
  "in_scope gated t reg req body s =
     (if \<not> gated then body None s
      else
        let (i, token, rw) = enter_scope (kernel_of s) t req (oh_owner reg) (oh_generation reg) (oh_coordinator_token reg);
            (res, s') = body (Some i) (on_kernel (\<lambda>_. rw) s)
        in (res, on_kernel (\<lambda>rw. exit_scope rw t i token) s'))"

text \<open>\<open>_unit_of_work\<close> and \<open>_command_unit_of_work\<close>.\<close>

definition factory_unit_of_work :: "bool \<Rightarrow> request_context \<Rightarrow> exn + unit_of_work" where
  "factory_unit_of_work system ctx =
     (case tenant ctx of None \<Rightarrow> system_unit_of_work system | Some ten \<Rightarrow> Inr (for_tenant ten))"

definition with_unit_of_work ::
  "('m, 'r, 'x) dispatcher \<Rightarrow> ('m, 'r, 'x) handler_function owned_handler \<Rightarrow> message_type \<Rightarrow> 'm \<Rightarrow> request_context \<Rightarrow>
   (unit_of_work \<Rightarrow> 'x dispatch_state \<Rightarrow> (exn + 'r) \<times> 'x dispatch_state) \<Rightarrow> 'x dispatch_state \<Rightarrow> (exn + 'r) \<times> 'x dispatch_state" where
  "with_unit_of_work dp reg mt m ctx body s =
     (case dp_protected dp of
        None \<Rightarrow> (case factory_unit_of_work (dp_system dp) ctx of Inl x \<Rightarrow> (Inl x, s) | Inr u \<Rightarrow> body u s)
      | Some ps \<Rightarrow>
          if \<not> ps_requires ps reg mt
          then (case factory_unit_of_work (dp_system dp) ctx of Inl x \<Rightarrow> (Inl x, s) | Inr u \<Rightarrow> body u s)
          else (case ps_admit ps reg m (tenant ctx) (wd_around (ds_world s)) of
                  (Inl x, a) \<Rightarrow> (Inl x, on_around (\<lambda>_. a) s)
                | (Inr u, a) \<Rightarrow>
                    let (res, s1) = body u (on_around (\<lambda>_. a) s);
                        (e, a1) = ps_leave ps (exn_of res) (wd_around (ds_world s1))
                    in (left_with res e, on_around (\<lambda>_. a1) s1)))"

text \<open>Inside the boundary and the admission.\<close>

definition dispatch_admitted ::
  "environment \<Rightarrow> ('m, 'r, 'x) dispatcher \<Rightarrow> nat \<Rightarrow> invocation_kind \<Rightarrow> ('m, 'r, 'x) handler_function owned_handler \<Rightarrow>
   message_type \<Rightarrow> 'm \<Rightarrow> request_ref \<Rightarrow> nat \<Rightarrow> 'x dispatch_state \<Rightarrow> (exn + 'r) \<times> 'x dispatch_state" where
  "dispatch_admitted en dp t kind reg mt m req k s =
     (case authorize_with ''message'' (dp_authorizer dp) (req_context req) (oh_permission reg) of
        Inl x \<Rightarrow> (Inl x, s)
      | Inr _ \<Rightarrow>
          let ordinary = with_unit_of_work dp reg mt m (req_context req)
                (\<lambda>u. in_scope (dp_gated dp) t reg req (\<lambda>sc. in_unit_of_work en (dp_gated dp) t kind reg m req k sc u))
          in (case dp_publication dp of
                None \<Rightarrow> ordinary s
              | Some pb \<Rightarrow> if kind = COMMAND \<and> pb_requires pb reg mt then pb_execute pb reg m req k s else ordinary s))"

definition in_admission ::
  "bool \<Rightarrow> generation option \<Rightarrow> ('x dispatch_state \<Rightarrow> (exn + 'r) \<times> 'x dispatch_state) \<Rightarrow> 'x dispatch_state \<Rightarrow>
   (exn + 'r) \<times> 'x dispatch_state" where
  "in_admission gated go body s =
     (if \<not> gated then body s
      else (case admit_enter (rw_gate (kernel_of s)) go of
              Inl x \<Rightarrow> (Inl x, s)
            | Inr gt \<Rightarrow>
                let (res, s1) = body (on_kernel (\<lambda>rw. rw\<lparr>rw_gate := gt\<rparr>) s)
                in (res, on_kernel (\<lambda>rw. rw\<lparr>rw_gate := admit_exit (rw_gate rw) go\<rparr>) s1)))"

definition in_boundary ::
  "(nat \<Rightarrow> 'x dispatch_state \<Rightarrow> (exn + 'r) \<times> 'x dispatch_state) \<Rightarrow> 'x dispatch_state \<Rightarrow> (exn + 'r) \<times> 'x dispatch_state" where
  "in_boundary body s =
     (let (k, ops) = open_boundary (ds_operations s);
          (res, s1) = body k (s\<lparr>ds_operations := ops\<rparr>);
          (e, ops2, w2) = close_boundary (ds_operations s1) k (exn_of res) (ds_world s1)
      in (left_with res e, s1\<lparr>ds_operations := ops2, ds_world := w2\<rparr>))"

text \<open>\<open>command\<close> and \<open>query\<close> for the kinds \<open>COMMAND\<close> and \<open>QUERY\<close>; \<open>t\<close> is the running task.\<close>

definition dispatch ::
  "environment \<Rightarrow> ('m, 'r, 'x) dispatcher \<Rightarrow> nat \<Rightarrow> invocation_kind \<Rightarrow> message_type \<Rightarrow> 'm \<Rightarrow> request_ref \<Rightarrow> 'x dispatch_state \<Rightarrow>
   (exn + 'r) \<times> 'x dispatch_state" where
  "dispatch en dp t kind mt m req s =
     (case reject_nested_dispatch (kernel_of s) t of
        Inl x \<Rightarrow> (Inl x, s)
      | Inr _ \<Rightarrow>
          let (token, st) = mask_invocation (invocations_of s) t;
              s1 = on_invocations (\<lambda>_. st) s;
              (res, s2) =
                (case resolve_handler (if dp_gated dp then Some (rw_gate (kernel_of s1)) else None)
                    (if kind = COMMAND then dp_commands dp else dp_queries dp) mt of
                   Inl x \<Rightarrow> (Inl x, s1)
                 | Inr reg \<Rightarrow>
                     in_boundary (\<lambda>k. in_admission (dp_gated dp) (oh_generation reg)
                       (dispatch_admitted en dp t kind reg mt m req k)) s1)
          in (res, on_invocations (\<lambda>st. unmask_invocation st t token) s2))"

section \<open>What the database sees\<close>

definition made :: "nat \<Rightarrow> database \<Rightarrow> session_call list \<Rightarrow> database \<Rightarrow> bool" where
  "made i db cs db' \<longleftrightarrow> db_log db' = db_log db @ map (Pair i) cs \<and> db_next db' = db_next db"

definition handler_made :: "nat \<Rightarrow> database \<Rightarrow> database \<Rightarrow> bool" where
  "handler_made i db db' \<longleftrightarrow> (\<exists>cs. made i db cs db' \<and> list_all handler_call cs)"

lemma made_trans: "made i a xs b \<Longrightarrow> made i b ys c \<Longrightarrow> made i a (xs @ ys) c"
  by (simp add: made_def)

lemma handler_made_refl [simp]: "handler_made i db db"
  unfolding handler_made_def made_def by (rule exI [of _ "[]"]) simp

lemma handler_made_trans: "handler_made i a b \<Longrightarrow> handler_made i b c \<Longrightarrow> handler_made i a c"
  unfolding handler_made_def using made_trans by fastforce

lemma handler_made_call: "handler_call c \<Longrightarrow> handler_made i db (log_call i c db)"
  unfolding handler_made_def made_def by (rule exI [of _ "[c]"]) simp

lemma handler_execute_made: "handler_execute srv i st db = (a, db') \<Longrightarrow> handler_made i db db'"
  using handler_made_call [of "Execute st" i db]
  by (auto simp: handler_execute_def send_def handler_call_def split: if_splits)

lemma run_activity_made: "run_activity srv i act w = (e, w') \<Longrightarrow> handler_made i (wd_database w) (wd_database w')"
proof (induction act arbitrary: w)
  case (Asks st k)
  obtain a db where x: "handler_execute srv i st (wd_database w) = (a, db)" by fastforce
  with Asks.prems have "run_activity srv i (k a) (w\<lparr>wd_database := db\<rparr>) = (e, w')" by simp
  from Asks.IH [OF rangeI this] handler_execute_made [OF x] show ?case by (auto intro: handler_made_trans)
next
  case (Around f k)
  from Around.IH [OF rangeI] Around.prems show ?case by fastforce
qed simp

text \<open>Resources that use the database only as a handler may.\<close>

definition tame :: "nat \<Rightarrow> 'x world resource \<Rightarrow> bool" where
  "tame i r \<longleftrightarrow> (\<forall>w e w'. res_enter r w = (e, w') \<or> res_exit r w = (e, w') \<longrightarrow>
     handler_made i (wd_database w) (wd_database w'))"

definition tame_boundary :: "nat \<Rightarrow> nat \<Rightarrow> 'x world operations \<Rightarrow> bool" where
  "tame_boundary i k ops \<longleftrightarrow>
     list_all (tame i) (op_stack (operation_of ops k)) \<and> list_all (tame i) (op_guards (operation_of ops k))"

lemma tame_activity: "tame i (activity_resource srv i a b)"
  using run_activity_made by (auto simp: tame_def activity_resource_def)

lemma retain_tame:
  assumes "retain_resource ops txn r w = (e, ops', w')" "tame i r"
  shows "handler_made i (wd_database w) (wd_database w') \<and> (tame_boundary i k ops \<longrightarrow> tame_boundary i k ops')"
proof -
  obtain e1 w1 where x: "res_enter r w = (e1, w1)" by fastforce
  then have "handler_made i (wd_database w) (wd_database w1)" using assms(2) by (auto simp: tame_def)
  with assms x show ?thesis
    by (auto simp: retain_resource_def tame_boundary_def Let_def split: sum.splits if_splits)
qed

lemma defer_tame:
  "defer_completion ops txn r = Inr ops' \<Longrightarrow> tame i r \<Longrightarrow> tame_boundary i k ops \<Longrightarrow> tame_boundary i k ops'"
  by (auto simp: defer_completion_def tame_boundary_def Let_def split: sum.splits if_splits)

lemma enter_guards_tame:
  "enter_guards stack gs w = (e, stack', w') \<Longrightarrow> list_all (tame i) gs \<Longrightarrow> list_all (tame i) stack \<Longrightarrow>
     handler_made i (wd_database w) (wd_database w') \<and> list_all (tame i) stack'"
proof (induction stack gs w rule: enter_guards.induct)
  case (2 stack g gs w)
  obtain e1 w1 where x: "res_enter g w = (e1, w1)" by fastforce
  then have "handler_made i (wd_database w) (wd_database w1)" using "2.prems"(2) by (auto simp: tame_def)
  with 2 x show ?case by (auto split: if_splits intro: handler_made_trans)
qed simp

lemma complete_tame:
  assumes "complete_operation ops k w = (e, ops', w')" "tame_boundary i k ops"
  shows "handler_made i (wd_database w) (wd_database w') \<and> tame_boundary i k ops'"
  using assms enter_guards_tame [of "op_stack (operation_of ops k)" "op_guards (operation_of ops k)" w]
  by (auto simp: complete_operation_def tame_boundary_def Let_def split: if_splits prod.splits)

lemma unwind_tame:
  "unwind rs e w = (e', w') \<Longrightarrow> list_all (tame i) rs \<Longrightarrow> handler_made i (wd_database w) (wd_database w')"
proof (induction rs e w rule: unwind.induct)
  case (2 r rs e w)
  obtain e1 w1 where x: "res_exit r w = (e1, w1)" by fastforce
  then have "handler_made i (wd_database w) (wd_database w1)" using "2.prems"(2) by (auto simp: tame_def)
  with 2 x show ?case by (auto intro: handler_made_trans)
qed simp

lemma close_tame:
  "close_boundary ops k e w = (e', ops', w') \<Longrightarrow> tame_boundary i k ops \<Longrightarrow> handler_made i (wd_database w) (wd_database w')"
  using unwind_tame by (auto simp: close_boundary_def tame_boundary_def Let_def split: prod.splits)

lemma add_outbox_made: "add_outbox u m db = (a, db') \<Longrightarrow> u_session u = Some i \<Longrightarrow> handler_made i db db'"
  using handler_made_call [of "AddRow m" i db] by (auto simp: add_outbox_def require_session_def handler_call_def)

lemma emit_made: "emit_event tr u hc ev db = (a, hc', db') \<Longrightarrow> u_session u = Some i \<Longrightarrow> handler_made i db db'"
  using add_outbox_made [of u _ db _ _ i] by (auto simp: emit_event_def Let_def split: if_splits prod.splits)

lemma flush_made: "attempt srv i FlushSession db = (a, db') \<Longrightarrow> handler_made i db db'"
  using attempt_log [of srv i FlushSession db a db'] handler_made_call [of FlushSession i db] by (simp add: handler_call_def)

lemma run_program_made:
  assumes u: "u_session u = Some i"
  shows "run_program en u i prog hc s = (res, hc', s') \<Longrightarrow> tame_boundary i k (ds_operations s) \<Longrightarrow>
     handler_made i (database_of s) (database_of s') \<and> tame_boundary i k (ds_operations s')"
proof (induction prog arbitrary: hc s)
  case (Performs st f)
  obtain a db where x: "handler_execute (en_server en) i st (database_of s) = (a, db)" by fastforce
  with Performs.prems have "run_program en u i (f a) hc (s\<lparr>ds_world := (ds_world s)\<lparr>wd_database := db\<rparr>\<rparr>) = (res, hc', s')" by simp
  from Performs.IH [OF rangeI this] Performs.prems(2) handler_execute_made [OF x] show ?case by (auto intro: handler_made_trans)
next
  case (Flushes f)
  obtain a db where x: "attempt (en_server en) i FlushSession (database_of s) = (a, db)" by fastforce
  with Flushes.prems have "run_program en u i (f a) hc (s\<lparr>ds_world := (ds_world s)\<lparr>wd_database := db\<rparr>\<rparr>) = (res, hc', s')" by simp
  from Flushes.IH [OF rangeI this] Flushes.prems(2) flush_made [OF x] show ?case by (auto intro: handler_made_trans)
next
  case (Adds m f)
  obtain a db where x: "add_outbox u m (database_of s) = (a, db)" by fastforce
  with Adds.prems have "run_program en u i (f a) hc (s\<lparr>ds_world := (ds_world s)\<lparr>wd_database := db\<rparr>\<rparr>) = (res, hc', s')" by simp
  from Adds.IH [OF rangeI this] Adds.prems(2) add_outbox_made [OF x u] show ?case by (auto intro: handler_made_trans)
next
  case (Emits ev f)
  obtain a hc1 db where x: "emit_event (en_trace en) u hc ev (database_of s) = (a, hc1, db)" by (metis prod_cases3)
  with Emits.prems have "run_program en u i (f a) hc1 (s\<lparr>ds_world := (ds_world s)\<lparr>wd_database := db\<rparr>\<rparr>) = (res, hc', s')" by simp
  from Emits.IH [OF rangeI this] Emits.prems(2) emit_made [OF x u] show ?case by (auto intro: handler_made_trans)
next
  case (Retains en_act ex_act f)
  obtain a ops w where x: "retain_resource (ds_operations s) (hc_transaction hc) (activity_resource (en_server en) i en_act ex_act) (ds_world s) = (a, ops, w)"
    by (metis prod_cases3)
  with Retains.prems have "run_program en u i (f a) hc (s\<lparr>ds_operations := ops, ds_world := w\<rparr>) = (res, hc', s')" by simp
  from Retains.IH [OF rangeI this] Retains.prems(2) retain_tame [OF x tame_activity, of k] show ?case by (auto intro: handler_made_trans)
next
  case (Defers en_act ex_act f)
  show ?case
  proof (cases "defer_completion (ds_operations s) (hc_transaction hc) (activity_resource (en_server en) i en_act ex_act)")
    case (Inl x)
    with Defers.IH [OF rangeI, of "Some x" hc s] Defers.prems show ?thesis by simp
  next
    case (Inr ops)
    with Defers.IH [OF rangeI, of None hc "s\<lparr>ds_operations := ops\<rparr>"] Defers.prems defer_tame [OF Inr tame_activity]
    show ?thesis by simp
  qed
next
  case (Outside f g)
  from Outside.IH [OF rangeI] Outside.prems show ?case by fastforce
qed simp

section \<open>What a dispatch leaves behind\<close>

text \<open>The handler returned, and every completion guard was entered.\<close>

definition completed_by ::
  "environment \<Rightarrow> unit_of_work \<Rightarrow> nat \<Rightarrow> nat \<Rightarrow> ('r, 'x) program \<Rightarrow> handling \<Rightarrow> 'x dispatch_state \<Rightarrow> 'r \<Rightarrow> 'x dispatch_state \<Rightarrow> bool" where
  "completed_by en u i k prog hc s r s' \<longleftrightarrow>
     (\<exists>hc1 s1 ops w. run_program en u i prog hc s = (Inr r, hc1, s1) \<and>
        complete_operation (ds_operations s1) k (ds_world s1) = (None, ops, w) \<and>
        s' = s1\<lparr>ds_operations := ops, ds_world := w\<rparr>)"

text \<open>
  \<open>commits\<close> is the moment a command was committed: the session opened for it, the tenant set if the Unit
  of Work has one, the handler and the guards done, and between them nothing but handler calls.
\<close>

definition commits ::
  "environment \<Rightarrow> ('m, 'r, 'x) handler_function owned_handler \<Rightarrow> 'm \<Rightarrow> request_ref \<Rightarrow> database \<Rightarrow> unit_of_work \<Rightarrow>
   session_call list \<Rightarrow> session_call list \<Rightarrow> bool" where
  "commits en reg m req db u begun cs \<longleftrightarrow>
     (\<exists>k hc s1 r s2. completed_by en u (db_next db) k (oh_handler reg m hc) hc s1 r s2 \<and> hc_request hc = req \<and>
        db_log (database_of s1) = db_log db @ map (Pair (db_next db)) begun \<and>
        db_log (database_of s2) = db_log (database_of s1) @ map (Pair (db_next db)) cs \<and>
        (\<forall>ten. u_tenant u = Some ten \<longrightarrow>
           begun \<noteq> [] \<and> last begun = SetTenant (tenant_id ten) \<and> confirmed (en_server en) (db_log (database_of s1))))"

inductive outcome ::
  "environment \<Rightarrow> invocation_kind \<Rightarrow> ('m, 'r, 'x) handler_function owned_handler \<Rightarrow> 'm \<Rightarrow> request_ref \<Rightarrow> (unit_of_work \<Rightarrow> bool) \<Rightarrow>
   database \<Rightarrow> exn + 'r \<Rightarrow> database \<Rightarrow> bool"
  for en kind reg m req U db where
  outcome_none: "db_log db' = db_log db @ map (Pair (db_next db)) (begun @ cs @ closing @ late) \<Longrightarrow>
      list_all opening_call begun \<Longrightarrow> list_all handler_call cs \<Longrightarrow> list_all closing_call closing \<Longrightarrow>
      list_all handler_call late \<Longrightarrow> (kind = COMMAND \<Longrightarrow> exn_of res \<noteq> None) \<Longrightarrow>
    outcome en kind reg m req U db res db'"
| outcome_commit: "db_log db' = db_log db @ map (Pair (db_next db)) (begun @ cs @ CommitSession # closing @ late) \<Longrightarrow>
      list_all opening_call begun \<Longrightarrow> list_all handler_call cs \<Longrightarrow> list_all closing_call closing \<Longrightarrow>
      list_all handler_call late \<Longrightarrow> kind = COMMAND \<Longrightarrow> U u \<Longrightarrow> commits en reg m req db u begun cs \<Longrightarrow>
      (\<not> confirmed (en_server en) (db_log db @ map (Pair (db_next db)) (begun @ cs @ [CommitSession])) \<Longrightarrow> exn_of res \<noteq> None) \<Longrightarrow>
    outcome en kind reg m req U db res db'"

lemma exn_of_left: "exn_of res \<noteq> None \<Longrightarrow> exn_of (left_with res e) \<noteq> None"
  by (auto simp: exn_of_def left_with_def split: option.splits)

lemma outcome_left:
  assumes "outcome en kind reg m req U db res db'"
  shows "outcome en kind reg m req U db (left_with res e) db'"
  using assms
proof cases
  case (outcome_none begun cs closing late)
  then show ?thesis using exn_of_left by (intro outcome.outcome_none) blast+
next
  case (outcome_commit begun cs closing late u)
  then show ?thesis using exn_of_left by (intro outcome.outcome_commit) blast+
qed

lemma outcome_late:
  assumes "outcome en kind reg m req U db res db'" "handler_made (db_next db) db' db''"
  shows "outcome en kind reg m req U db res db''"
proof -
  obtain ds where ds: "db_log db'' = db_log db' @ map (Pair (db_next db)) ds" "list_all handler_call ds"
    using assms(2) by (auto simp: handler_made_def made_def)
  from assms(1) show ?thesis
  proof cases
    case (outcome_none begun cs closing late)
    then show ?thesis
      using ds by (intro outcome.outcome_none [where begun = begun and cs = cs and closing = closing and late = "late @ ds"]) auto
  next
    case (outcome_commit begun cs closing late u)
    then show ?thesis
      using ds by (intro outcome.outcome_commit [where begun = begun and cs = cs and closing = closing and late = "late @ ds"]) auto
  qed
qed

lemma outcome_nothing: "exn_of res \<noteq> None \<Longrightarrow> db_log db' = db_log db \<Longrightarrow> outcome en kind reg m req U db res db'"
  by (rule outcome_none [where begun = "[]" and cs = "[]" and closing = "[]" and late = "[]"]) simp_all

text \<open>The parts of the state the outcome depends on.\<close>

definition same_view :: "'x dispatch_state \<Rightarrow> 'x dispatch_state \<Rightarrow> bool" where
  "same_view s s' \<longleftrightarrow> database_of s' = database_of s \<and> ds_operations s' = ds_operations s"

lemma on_simps [simp]:
  "database_of (on_around f s) = database_of s" "ds_operations (on_around f s) = ds_operations s"
  "database_of (on_kernel g s) = database_of s" "ds_operations (on_kernel g s) = ds_operations s"
  "database_of (on_invocations h s) = database_of s" "ds_operations (on_invocations h s) = ds_operations s"
  "database_of (on_database d s) = d (database_of s)" "ds_operations (on_database d s) = ds_operations s"
  by (simp_all add: on_around_def on_kernel_def on_invocations_def on_database_def)

lemma with_authority_cases:
  assumes "with_authority gated t reg kind req txn u body s = (res, u', s')"
  shows "(exn_of res \<noteq> None \<and> u' = u \<and> s' = s) \<or>
    (\<exists>b s0 s1. body b s0 = (res, u', s1) \<and> same_view s s0 \<and> same_view s1 s')"
  using assms
  by (auto simp: with_authority_def same_view_def exn_of_def mask_invocation_def Let_def split: option.splits sum.splits prod.splits if_splits)
     (metis on_simps(5,6))+

lemma in_scope_cases:
  assumes "in_scope gated t reg req body s = (res, s')"
  shows "\<exists>sc s0 s1. body sc s0 = (res, s1) \<and> same_view s s0 \<and> same_view s1 s'"
proof (cases gated)
  case True
  obtain i token rw where e: "enter_scope (kernel_of s) t req (oh_owner reg) (oh_generation reg) (oh_coordinator_token reg) = (i, token, rw)"
    by (metis prod_cases3)
  obtain r s1 where b: "body (Some i) (on_kernel (\<lambda>_. rw) s) = (r, s1)" by fastforce
  with True e assms have "body (Some i) (on_kernel (\<lambda>_. rw) s) = (res, s1)" "s' = on_kernel (\<lambda>rw. exit_scope rw t i token) s1"
    by (auto simp: in_scope_def)
  then show ?thesis by (fastforce simp: same_view_def)
qed (use assms in \<open>auto simp: in_scope_def same_view_def\<close>)

lemma with_unit_of_work_cases:
  assumes "with_unit_of_work dp reg mt m ctx body s = (res, s')"
  shows "(exn_of res \<noteq> None \<and> same_view s s') \<or>
    (\<exists>u s0 res0 s1 e. body u s0 = (res0, s1) \<and> same_view s s0 \<and> same_view s1 s' \<and> res = left_with res0 e \<and>
       (dp_protected dp = None \<longrightarrow> u_tenant u = tenant ctx))"
proof -
  have left_None: "left_with r None = r" for r :: "exn + 'a" by (simp add: left_with_def)
  have factory: ?thesis
    if "(case factory_unit_of_work (dp_system dp) ctx of Inl x \<Rightarrow> (Inl x, s) | Inr u \<Rightarrow> body u s) = (res, s')"
  proof (cases "factory_unit_of_work (dp_system dp) ctx")
    case (Inl x)
    with that show ?thesis by (auto simp: exn_of_def same_view_def)
  next
    case (Inr u)
    then have "u_tenant u = tenant ctx"
      by (auto simp: factory_unit_of_work_def system_unit_of_work_def for_tenant_def new_unit_of_work_def split: option.splits if_splits)
    with that Inr have "body u s = (res, s') \<and> same_view s s \<and> same_view s' s' \<and> res = left_with res None \<and>
        (dp_protected dp = None \<longrightarrow> u_tenant u = tenant ctx)" by (simp add: same_view_def left_None)
    then show ?thesis
      by (intro disjI2 exI [of _ u] exI [of _ s] exI [of _ res] exI [of _ s'] exI [of _ None])
  qed
  show ?thesis
  proof (cases "dp_protected dp")
    case None
    with assms factory show ?thesis by (simp add: with_unit_of_work_def)
  next
    case (Some ps)
    show ?thesis
    proof (cases "ps_requires ps reg mt")
      case False
      with Some assms factory show ?thesis by (simp add: with_unit_of_work_def)
    next
      case True
      obtain a around where ad: "ps_admit ps reg m (tenant ctx) (wd_around (ds_world s)) = (a, around)" by fastforce
      show ?thesis
      proof (cases a)
        case (Inl x)
        with Some True assms ad show ?thesis by (auto simp: with_unit_of_work_def exn_of_def same_view_def)
      next
        case (Inr u)
        obtain res0 s1 where b: "body u (on_around (\<lambda>_. around) s) = (res0, s1)" by fastforce
        obtain e a1 where l: "ps_leave ps (exn_of res0) (wd_around (ds_world s1)) = (e, a1)" by fastforce
        with Some True assms ad Inr b have "res = left_with res0 e" "s' = on_around (\<lambda>_. a1) s1"
          by (auto simp: with_unit_of_work_def)
        with b Some show ?thesis by (fastforce simp: same_view_def)
      qed
    qed
  qed
qed

lemma run_and_complete_cases:
  assumes u: "u_session u = Some i" and tame: "tame_boundary i k (ds_operations s)"
    and run: "run_and_complete en kind u i k prog hc s = (res, u', s')"
  shows "tame_boundary i k (ds_operations s') \<and> u_session u' = Some i \<and>
    ((handler_made i (database_of s) (database_of s') \<and> (kind = COMMAND \<longrightarrow> exn_of res \<noteq> None)) \<or>
     (kind = COMMAND \<and> (\<exists>r s2. completed_by en u i k prog hc s r s2 \<and> handler_made i (database_of s) (database_of s2) \<and>
        database_of s' = log_call i CommitSession (database_of s2) \<and>
        (\<not> confirmed (en_server en) (db_log (database_of s2) @ [(i, CommitSession)]) \<longrightarrow> exn_of res \<noteq> None))))"
proof -
  obtain res1 hc1 s1 where p: "run_program en u i prog hc s = (res1, hc1, s1)" by (metis prod_cases3)
  note m1 = run_program_made [OF u p tame]
  show ?thesis
  proof (cases res1)
    case (Inl x)
    with run p m1 u show ?thesis by (auto simp: run_and_complete_def exn_of_def)
  next
    case (Inr r)
    obtain e ops w where c: "complete_operation (ds_operations s1) k (ds_world s1) = (e, ops, w)" by (metis prod_cases3)
    let ?s2 = "s1\<lparr>ds_operations := ops, ds_world := w\<rparr>"
    have m2: "handler_made i (database_of s) (database_of ?s2)" "tame_boundary i k (ds_operations ?s2)"
      using complete_tame [OF c, of i] m1 by (auto intro: handler_made_trans)
    show ?thesis
    proof (cases "e = None \<and> kind = COMMAND")
      case False
      with run p Inr c m2 u show ?thesis
        by (cases kind) (auto simp: run_and_complete_def Let_def exn_of_def left_with_def split: if_splits)
    next
      case True
      obtain x db where a: "attempt (en_server en) i CommitSession (database_of ?s2) = (x, db)" by fastforce
      with run p Inr c True u have out: "res = left_with (Inr r) x" "u_session u' = Some i" "s' = on_database (\<lambda>_. db) ?s2"
        by (auto simp: run_and_complete_def Let_def commit_unit_of_work_def require_session_def)
      have "completed_by en u i k prog hc s r ?s2" using p Inr c True by (auto simp: completed_by_def)
      moreover have "\<not> confirmed (en_server en) (db_log (database_of ?s2) @ [(i, CommitSession)]) \<longrightarrow> exn_of res \<noteq> None"
        using attempt_log [OF a] out(1) by (auto simp: left_with_def exn_of_def split: option.splits)
      ultimately have "kind = COMMAND \<and> completed_by en u i k prog hc s r ?s2 \<and> handler_made i (database_of s) (database_of ?s2) \<and>
          database_of s' = log_call i CommitSession (database_of ?s2) \<and>
          (\<not> confirmed (en_server en) (db_log (database_of ?s2) @ [(i, CommitSession)]) \<longrightarrow> exn_of res \<noteq> None)"
        using attempt_log [OF a] out m2 True by simp
      moreover have "tame_boundary i k (ds_operations s') \<and> u_session u' = Some i" using out m2 by simp
      ultimately show ?thesis by blast
    qed
  qed
qed

lemma tame_bind: "tame_boundary i k ops \<Longrightarrow> tame_boundary i k (bind_boundary ops txn j)"
proof -
  have "op_stack (operation_of (bind_boundary ops txn j) k) = op_stack (operation_of ops k) \<and>
      op_guards (operation_of (bind_boundary ops txn j) k) = op_guards (operation_of ops k)"
    by (simp add: bind_boundary_def Let_def operation_of_def put_operation_def dict_get_set split: option.split)
  then show "tame_boundary i k ops \<Longrightarrow> ?thesis" by (simp add: tame_boundary_def)
qed

lemma exit_unit_of_work_cases:
  assumes "exit_unit_of_work srv u e cancelled db = (e', u', db')" "u_session u = Some i"
  shows "\<exists>closing. db_log db' = db_log db @ map (Pair i) closing \<and> list_all closing_call closing \<and> db_next db' = db_next db \<and>
    (e \<noteq> None \<longrightarrow> e' \<noteq> None)"
proof -
  obtain errors u1 db1 where f: "finish_session srv (e \<noteq> None \<or> \<not> u_committed u) u db = (errors, u1, db1)" by (metis prod_cases3)
  with assms have "db' = db1" "e \<noteq> None \<longrightarrow> e' \<noteq> None" by (auto simp: exit_unit_of_work_def Let_def split: if_splits)
  with finish_session_log [OF f assms(2)] show ?thesis by auto
qed

text \<open>The body inside the Unit of Work: the view, the scope's transaction, the authority and the handler.\<close>

lemma in_transaction_cases:
  assumes u: "u_session u = Some i" and tame: "tame_boundary i k (ds_operations s)"
    and run: "in_transaction en gated t kind reg m req k sc u s = (res, u', s')"
  shows "tame_boundary i k (ds_operations s') \<and> u_session u' = Some i \<and>
    ((handler_made i (database_of s) (database_of s') \<and> (kind = COMMAND \<longrightarrow> exn_of res \<noteq> None)) \<or>
     (kind = COMMAND \<and> (\<exists>hc s1 r s2. completed_by en u i k (oh_handler reg m hc) hc s1 r s2 \<and> hc_request hc = req \<and>
        database_of s1 = database_of s \<and> handler_made i (database_of s1) (database_of s2) \<and>
        database_of s' = log_call i CommitSession (database_of s2) \<and>
        (\<not> confirmed (en_server en) (db_log (database_of s2) @ [(i, CommitSession)]) \<longrightarrow> exn_of res \<noteq> None))))"
proof -
  define txn where "txn = ds_next_transaction s"
  define s1 where "s1 = s\<lparr>ds_operations := bind_boundary (ds_operations s) txn k, ds_next_transaction := txn + 1\<rparr>"
  have view: "transaction_view u k s = Inr (i, txn, s1)" using u by (simp add: transaction_view_def require_session_def txn_def s1_def)
  have s1: "database_of s1 = database_of s" "tame_boundary i k (ds_operations s1)" using tame_bind [OF tame] by (simp_all add: s1_def)
  show ?thesis
  proof (cases "case sc of None \<Rightarrow> Inr (kernel_of s1) | Some j \<Rightarrow> bind_transaction (kernel_of s1) j txn")
    case (Inl x)
    with run view s1 u show ?thesis by (auto simp: in_transaction_def exn_of_def)
  next
    case (Inr rw)
    let ?hc = "\<lambda>b. \<lparr>hc_request = req, hc_transaction = txn, hc_invocation = b, hc_events = []\<rparr>"
    from run view Inr have "with_authority gated t reg kind req txn u
        (\<lambda>b. run_and_complete en kind u i k (oh_handler reg m (?hc b)) (?hc b)) (on_kernel (\<lambda>_. rw) s1) = (res, u', s')"
      by (simp add: in_transaction_def Let_def)
    from with_authority_cases [OF this] consider "exn_of res \<noteq> None" "u' = u" "s' = on_kernel (\<lambda>_. rw) s1"
      | b s3 s4 where "run_and_complete en kind u i k (oh_handler reg m (?hc b)) (?hc b) s3 = (res, u', s4)"
          "same_view (on_kernel (\<lambda>_. rw) s1) s3" "same_view s4 s'" by blast
    then show ?thesis
    proof cases
      case 1
      with s1 u show ?thesis by auto
    next
      case 2
      have v: "database_of s3 = database_of s" "tame_boundary i k (ds_operations s3)" "database_of s' = database_of s4"
        "ds_operations s' = ds_operations s4" using 2(2,3) s1 by (auto simp: same_view_def)
      have "hc_request (?hc b) = req" by simp
      with run_and_complete_cases [OF u v(2) 2(1)] v show ?thesis by metis
    qed
  qed
qed

lemma in_unit_of_work_outcome:
  assumes tame: "tame_boundary (db_next (database_of s)) k (ds_operations s)" and U: "\<And>x. U (u\<lparr>u_session := x\<rparr>)"
    and run: "in_unit_of_work en gated t kind reg m req k sc u s = (res, s')"
  shows "tame_boundary (db_next (database_of s)) k (ds_operations s') \<and>
    outcome en kind reg m req U (database_of s) res (database_of s')"
proof (cases "u_session u")
  case (Some j)
  with run tame show ?thesis
    by (auto simp: in_unit_of_work_def enter_unit_of_work_def exn_of_def intro!: outcome_nothing)
next
  case new: None
  let ?i = "db_next (database_of s)" and ?db = "database_of s"
  let ?u1 = "u\<lparr>u_session := Some ?i\<rparr>"
  obtain e db1 where o: "open_transaction (en_server en) ?u1 ?i (?db\<lparr>db_next := ?i + 1\<rparr>) = (e, db1)" by fastforce
  from open_transaction_log [OF o] obtain begun where begun: "db_log db1 = db_log ?db @ map (Pair ?i) begun" "list_all opening_call begun"
    and ten: "e = None \<longrightarrow> (\<forall>ten. u_tenant u = Some ten \<longrightarrow>
       begun \<noteq> [] \<and> last begun = SetTenant (tenant_id ten) \<and> confirmed (en_server en) (db_log db1))"
    by auto
  show ?thesis
  proof (cases e)
    case (Some x)
    obtain errors u2 db2 where f: "finish_session (en_server en) True ?u1 db1 = (errors, u2, db2)" by (metis prod_cases3)
    with run new o Some have "exn_of res \<noteq> None" "s' = on_database (\<lambda>_. db2) s"
      by (auto simp: in_unit_of_work_def enter_unit_of_work_def Let_def exn_of_def)
    moreover from finish_session_log [OF f] obtain closing where "db_log db2 = db_log db1 @ map (Pair ?i) closing" "list_all closing_call closing"
      by auto
    ultimately show ?thesis
      using tame begun by (auto intro!: outcome_none [where begun = begun and cs = "[]" and closing = closing and late = "[]"])
  next
    case None
    define s1 where "s1 = on_database (\<lambda>_. db1) s"
    obtain res2 u2 s2 where b: "in_transaction en gated t kind reg m req k sc ?u1 s1 = (res2, u2, s2)" by (metis prod_cases3)
    obtain e3 u3 db3 where x: "exit_unit_of_work (en_server en) u2 (exn_of res2) (en_cancelled en) (database_of s2) = (e3, u3, db3)"
      by (metis prod_cases3)
    have out: "res = left_with res2 e3" "s' = on_database (\<lambda>_. db3) s2"
      using run new o None b x by (auto simp: in_unit_of_work_def enter_unit_of_work_def s1_def)
    have s1: "database_of s1 = db1" "tame_boundary ?i k (ds_operations s1)" using tame by (simp_all add: s1_def)
    from in_transaction_cases [OF _ s1(2) b] have c: "u_session u2 = Some ?i" "tame_boundary ?i k (ds_operations s2)"
      "(handler_made ?i db1 (database_of s2) \<and> (kind = COMMAND \<longrightarrow> exn_of res2 \<noteq> None)) \<or>
       (kind = COMMAND \<and> (\<exists>hc s3 r s4. completed_by en ?u1 ?i k (oh_handler reg m hc) hc s3 r s4 \<and> hc_request hc = req \<and>
        database_of s3 = db1 \<and> handler_made ?i (database_of s3) (database_of s4) \<and>
        database_of s2 = log_call ?i CommitSession (database_of s4) \<and>
        (\<not> confirmed (en_server en) (db_log (database_of s4) @ [(?i, CommitSession)]) \<longrightarrow> exn_of res2 \<noteq> None)))"
      using s1(1) by simp_all
    from exit_unit_of_work_cases [OF x c(1)] obtain closing where
      closing: "db_log db3 = db_log (database_of s2) @ map (Pair ?i) closing" "list_all closing_call closing" by blast
    from c(3) have "outcome en kind reg m req U ?db res db3"
    proof (elim disjE conjE exE)
      assume "handler_made ?i db1 (database_of s2)" "kind = COMMAND \<longrightarrow> exn_of res2 \<noteq> None"
      then obtain cs where cs: "db_log (database_of s2) = db_log db1 @ map (Pair ?i) cs" "list_all handler_call cs"
        by (auto simp: handler_made_def made_def)
      have "outcome en kind reg m req U ?db res2 db3"
        using cs closing begun \<open>kind = COMMAND \<longrightarrow> exn_of res2 \<noteq> None\<close>
        by (intro outcome_none [where begun = begun and cs = cs and closing = closing and late = "[]"]) simp_all
      then show ?thesis unfolding out(1) by (rule outcome_left)
    next
      fix hc s3 r s4
      assume kd: "kind = COMMAND" and d: "completed_by en ?u1 ?i k (oh_handler reg m hc) hc s3 r s4" "hc_request hc = req"
        "database_of s3 = db1" "handler_made ?i (database_of s3) (database_of s4)"
        "database_of s2 = log_call ?i CommitSession (database_of s4)"
        "\<not> confirmed (en_server en) (db_log (database_of s4) @ [(?i, CommitSession)]) \<longrightarrow> exn_of res2 \<noteq> None"
      from d(4) obtain cs where cs: "db_log (database_of s4) = db_log db1 @ map (Pair ?i) cs" "list_all handler_call cs"
        using d(3) by (auto simp: handler_made_def made_def)
      have "commits en reg m req ?db ?u1 begun cs"
        unfolding commits_def using d(1-3) begun cs ten None by (intro exI [of _ k] exI [of _ hc] exI [of _ s3] exI [of _ r] exI [of _ s4]) auto
      moreover have "exn_of res2 \<noteq> None"
        if "\<not> confirmed (en_server en) (db_log ?db @ map (Pair ?i) (begun @ cs @ [CommitSession]))"
        using that d(6) cs(1) begun(1) by simp
      ultimately have "outcome en kind reg m req U ?db res2 db3"
        using cs closing begun d(5) kd U
        by (intro outcome_commit [where begun = begun and cs = cs and closing = closing and late = "[]" and u = "?u1"]) simp_all
      then show ?thesis unfolding out(1) by (rule outcome_left)
    qed
    with out c(2) show ?thesis by simp
  qed
qed

lemma in_admission_cases:
  assumes "in_admission gated go body s = (res, s')"
  shows "(exn_of res \<noteq> None \<and> same_view s s') \<or> (\<exists>s0 s1. body s0 = (res, s1) \<and> same_view s s0 \<and> same_view s1 s')"
proof (cases gated)
  case True
  show ?thesis
  proof (cases "admit_enter (rw_gate (kernel_of s)) go")
    case (Inl x)
    with assms True show ?thesis by (auto simp: in_admission_def exn_of_def same_view_def)
  next
    case (Inr gt)
    obtain r s1 where b: "body (on_kernel (\<lambda>rw. rw\<lparr>rw_gate := gt\<rparr>) s) = (r, s1)" by fastforce
    with assms True Inr have "r = res" "s' = on_kernel (\<lambda>rw. rw\<lparr>rw_gate := admit_exit (rw_gate rw) go\<rparr>) s1"
      by (auto simp: in_admission_def)
    with b show ?thesis by (fastforce simp: same_view_def)
  qed
qed (use assms in \<open>auto simp: in_admission_def same_view_def\<close>)

definition ordinary :: "('m, 'r, 'x) dispatcher \<Rightarrow> ('m, 'r, 'x) handler_function owned_handler \<Rightarrow> invocation_kind \<Rightarrow> message_type \<Rightarrow> bool" where
  "ordinary dp reg kind mt \<longleftrightarrow>
     (case dp_publication dp of None \<Rightarrow> True | Some pb \<Rightarrow> kind = COMMAND \<longrightarrow> \<not> pb_requires pb reg mt)"

abbreviation tenant_bound :: "('m, 'r, 'x) dispatcher \<Rightarrow> request_ref \<Rightarrow> unit_of_work \<Rightarrow> bool" where
  "tenant_bound dp req u \<equiv> dp_protected dp = None \<longrightarrow> u_tenant u = tenant (req_context req)"

abbreviation authorized :: "('m, 'r, 'x) dispatcher \<Rightarrow> ('m, 'r, 'x) handler_function owned_handler \<Rightarrow> request_ref \<Rightarrow> bool" where
  "authorized dp reg req \<equiv> authorize_with ''message'' (dp_authorizer dp) (req_context req) (oh_permission reg) = Inr ()"

lemma dispatch_admitted_outcome:
  assumes tame: "tame_boundary (db_next (database_of s)) k (ds_operations s)" and o: "ordinary dp reg kind mt"
    and run: "dispatch_admitted en dp t kind reg mt m req k s = (res, s')"
  shows "tame_boundary (db_next (database_of s)) k (ds_operations s') \<and>
    outcome en kind reg m req (\<lambda>u. tenant_bound dp req u \<and> authorized dp reg req) (database_of s) res (database_of s')"
proof (cases "authorize_with ''message'' (dp_authorizer dp) (req_context req) (oh_permission reg)")
  case (Inl x)
  with run tame show ?thesis by (auto simp: dispatch_admitted_def exn_of_def intro: outcome_nothing)
next
  case (Inr unit)
  with run o have "with_unit_of_work dp reg mt m (req_context req)
      (\<lambda>u. in_scope (dp_gated dp) t reg req (\<lambda>sc. in_unit_of_work en (dp_gated dp) t kind reg m req k sc u)) s = (res, s')"
    by (auto simp: dispatch_admitted_def ordinary_def Let_def split: option.splits if_splits)
  from with_unit_of_work_cases [OF this] show ?thesis
  proof (elim disjE conjE exE)
    assume "exn_of res \<noteq> None" "same_view s s'"
    with tame show ?thesis by (auto simp: same_view_def intro: outcome_nothing)
  next
    fix u s0 res0 s1 e
    assume b: "in_scope (dp_gated dp) t reg req (\<lambda>sc. in_unit_of_work en (dp_gated dp) t kind reg m req k sc u) s0 = (res0, s1)"
      and v: "same_view s s0" "same_view s1 s'" "res = left_with res0 e" and t: "tenant_bound dp req u"
    from in_scope_cases [OF b] obtain sc s2 s3 where i: "in_unit_of_work en (dp_gated dp) t kind reg m req k sc u s2 = (res0, s3)"
      "same_view s0 s2" "same_view s3 s1" by blast
    have "database_of s2 = database_of s" "ds_operations s2 = ds_operations s" "database_of s3 = database_of s'" "ds_operations s3 = ds_operations s'"
      using v i by (auto simp: same_view_def)
    with in_unit_of_work_outcome [of s2 k "\<lambda>u. tenant_bound dp req u \<and> authorized dp reg req" u en "dp_gated dp" t kind reg m req sc res0 s3]
    show ?thesis using tame t Inr i(1) unfolding v(3) by (auto intro: outcome_left)
  qed
qed

lemma in_boundary_outcome:
  assumes run: "in_boundary body s = (res, s')"
    and body: "\<And>k s0 res0 s1. body k s0 = (res0, s1) \<Longrightarrow> database_of s0 = database_of s \<Longrightarrow>
      tame_boundary (db_next (database_of s)) k (ds_operations s0) \<Longrightarrow>
      tame_boundary (db_next (database_of s)) k (ds_operations s1) \<and>
      outcome en kind reg m req U (database_of s) res0 (database_of s1)"
  shows "outcome en kind reg m req U (database_of s) res (database_of s')"
proof -
  obtain k ops where o: "open_boundary (ds_operations s) = (k, ops)" by fastforce
  obtain res0 s1 where b: "body k (s\<lparr>ds_operations := ops\<rparr>) = (res0, s1)" by fastforce
  obtain e ops2 w2 where c: "close_boundary (ds_operations s1) k (exn_of res0) (ds_world s1) = (e, ops2, w2)" by (metis prod_cases3)
  have out: "res = left_with res0 e" "database_of s' = wd_database w2" using run o b c by (auto simp: in_boundary_def)
  have "tame_boundary (db_next (database_of s)) k ops"
    using o by (auto simp: open_boundary_def tame_boundary_def operation_of_def put_operation_def new_operation_def dict_get_set)
  from body [OF b] this have "tame_boundary (db_next (database_of s)) k (ds_operations s1)"
    "outcome en kind reg m req U (database_of s) res0 (database_of s1)" by simp_all
  then have "handler_made (db_next (database_of s)) (database_of s1) (database_of s')" and
      "outcome en kind reg m req U (database_of s) res0 (database_of s1)"
    using close_tame [OF c] unfolding out by blast+
  from outcome_left [OF outcome_late [OF this(2,1)]] show ?thesis unfolding out(1) .
qed

lemma dispatch_outcome:
  assumes run: "dispatch en dp t kind mt m req s = (res, s')"
    and o: "\<And>reg. resolve_handler (if dp_gated dp then Some (rw_gate (kernel_of s)) else None)
        (if kind = COMMAND then dp_commands dp else dp_queries dp) mt = Inr reg \<Longrightarrow> ordinary dp reg kind mt"
  shows "(exn_of res \<noteq> None \<and> db_log (database_of s') = db_log (database_of s)) \<or>
    (\<exists>reg. resolve_handler (if dp_gated dp then Some (rw_gate (kernel_of s)) else None)
        (if kind = COMMAND then dp_commands dp else dp_queries dp) mt = Inr reg \<and>
      outcome en kind reg m req (\<lambda>u. tenant_bound dp req u \<and> authorized dp reg req) (database_of s) res (database_of s'))"
proof (cases "reject_nested_dispatch (kernel_of s) t")
  case (Inl x)
  with run show ?thesis by (auto simp: dispatch_def exn_of_def)
next
  case (Inr unit)
  define s1 where "s1 = on_invocations (\<lambda>_. set_active t None (invocations_of s)) s"
  have s1: "database_of s1 = database_of s" "kernel_of s1 = kernel_of s" by (simp_all add: s1_def on_invocations_def on_around_def)
  let ?h = "resolve_handler (if dp_gated dp then Some (rw_gate (kernel_of s1)) else None)
        (if kind = COMMAND then dp_commands dp else dp_queries dp) mt"
  show ?thesis
  proof (cases ?h)
    case (Inl x)
    with run Inr show ?thesis by (auto simp: dispatch_def mask_invocation_def exn_of_def s1 simp flip: s1_def)
  next
    case reg: (Inr reg)
    obtain res0 s2 where b: "in_boundary (\<lambda>k. in_admission (dp_gated dp) (oh_generation reg) (dispatch_admitted en dp t kind reg mt m req k)) s1 = (res0, s2)"
      by fastforce
    with run Inr reg have out: "res = res0" "database_of s' = database_of s2"
      by (auto simp: dispatch_def mask_invocation_def simp flip: s1_def)
    have "outcome en kind reg m req (\<lambda>u. tenant_bound dp req u \<and> authorized dp reg req) (database_of s1) res0 (database_of s2)"
    proof (rule in_boundary_outcome [OF b])
      fix k s0 res1 s3
      assume a: "in_admission (dp_gated dp) (oh_generation reg) (dispatch_admitted en dp t kind reg mt m req k) s0 = (res1, s3)"
        and d: "database_of s0 = database_of s1" and tame: "tame_boundary (db_next (database_of s1)) k (ds_operations s0)"
      from in_admission_cases [OF a] show "tame_boundary (db_next (database_of s1)) k (ds_operations s3) \<and>
          outcome en kind reg m req (\<lambda>u. tenant_bound dp req u \<and> authorized dp reg req) (database_of s1) res1 (database_of s3)"
      proof (elim disjE conjE exE)
        assume "exn_of res1 \<noteq> None" "same_view s0 s3"
        with d tame show ?thesis by (auto simp: same_view_def intro: outcome_nothing)
      next
        fix s4 s5
        assume c: "dispatch_admitted en dp t kind reg mt m req k s4 = (res1, s5)" and v: "same_view s0 s4" "same_view s5 s3"
        have "database_of s4 = database_of s1" "ds_operations s4 = ds_operations s0" "database_of s5 = database_of s3" "ds_operations s5 = ds_operations s3"
          using v d by (auto simp: same_view_def)
        with dispatch_admitted_outcome [OF _ o [OF reg [unfolded s1]] c] tame show ?thesis by simp
      qed
    qed
    with out reg s1 show ?thesis by auto
  qed
qed


section \<open>An example\<close>

definition demo_world :: "unit world" where
  "demo_world = \<lparr>wd_database = \<lparr>db_log = [], db_next = 0\<rparr>,
     wd_around = \<lparr>sr_kernel = \<lparr>rw_registry = new_ownership_registry {}, rw_gate = new_gate, rw_scopes = [], rw_next_scope = 0,
         rw_current = []\<rparr>, sr_invocations = no_invocations, sr_rest = ()\<rparr>\<rparr>"

definition demo_state :: "unit dispatch_state" where
  "demo_state = \<lparr>ds_operations = no_operations, ds_world = demo_world, ds_next_transaction = 0\<rparr>"

definition demo_type :: message_type where
  "demo_type = \<lparr>mt_id = 4, mt_name = ''Save''\<rparr>"

definition demo_handler :: "(unit, nat, unit) handler_function owned_handler" where
  "demo_handler = \<lparr>oh_type = demo_type, oh_owner = ''m'',
     oh_handler = \<lambda>m hc. Performs (OtherStatement ''INSERT'') (\<lambda>a. Finishes (map_sum id (\<lambda>_. 5) a)),
     oh_generation = None, oh_permission = None, oh_coordinator_token = None, oh_dependencies = None\<rparr>"

definition demo_dispatcher :: "(unit, nat, unit) dispatcher" where
  "demo_dispatcher = \<lparr>dp_gated = False, dp_commands = \<lparr>hr_kind = ''command'', hr_handlers = [(demo_type, demo_handler)]\<rparr>,
     dp_queries = new_handler_registry ''query'', dp_authorizer = None, dp_system = True, dp_protected = None, dp_publication = None\<rparr>"

definition demo_environment :: environment where
  "demo_environment = \<lparr>en_server = \<lambda>_. Inr [], en_trace = [], en_cancelled = None\<rparr>"

definition demo_request :: request_ref where
  "demo_request = \<lparr>req_identity = 2, req_context = \<lparr>correlation_id = ''c'', trace_id = ''t'', tenant = None\<rparr>\<rparr>"

lemma demo_insert: "\<not> statement_refused (OtherStatement ''INSERT'')"
  by code_simp

lemma demo_durable:
  "durable (en_server demo_environment) (database_of (snd (dispatch demo_environment demo_dispatcher 2 COMMAND demo_type () demo_request demo_state)))
     = [Execute (OtherStatement ''INSERT'')]"
  by code_simp


end
