(* ===== verification/Routing.thy ===== *)
theory Routing
  imports Registries "HOL-Library.Product_Lexorder"
begin

text \<open>
  The router of \<open>platform/src/businessos/http/routing.py\<close>: compilation of route patterns, conflict
  rejection by method and shape, precedence and matching. Strings are sequences of 8-bit
  characters; methods are upper-cased letter by letter over the ASCII letters.
\<close>

section \<open>Paths and patterns\<close>

definition split_path :: "string \<Rightarrow> exn + string list" where
  "split_path path =
     (if path = [] \<or> hd path \<noteq> CHR ''/'' then Inl (ValueError (''Route paths must begin with '' @ quote @ ''/'' @ quote))
      else
        let path' = (if path \<noteq> ''/'' \<and> last path = CHR ''/'' then butlast path else path)
        in Inr (filter (\<lambda>segment. segment \<noteq> []) (split_on (CHR ''/'') path')))"

definition ident_char :: "char \<Rightarrow> bool" where
  "ident_char c \<longleftrightarrow> is_lower c \<or> is_upper c \<or> is_digit c \<or> c = CHR ''_''"

text \<open>
  \<open>_PARAMETER.match\<close>: a braced identifier. Python's \<open>$\<close> also matches before a final newline, so
  a segment with a line feed after the closing brace is a parameter too.
\<close>

definition parameter_name :: "string \<Rightarrow> string option" where
  "parameter_name segment =
     (case segment of
        [] \<Rightarrow> None
      | c # cs \<Rightarrow>
          let name = takeWhile ident_char cs; rest = dropWhile ident_char cs
          in if c = CHR ''{'' \<and> name \<noteq> [] \<and> \<not> is_digit (hd name) \<and>
                (rest = ''}'' \<or> rest = ''}'' @ [CHR 0x0A])
             then Some name else None)"

section \<open>Compiled routes\<close>

record 'h route =
  http_method :: string
  path :: string
  handler :: 'h
  route_name :: string
  permission :: "string option"
  route_owner :: "string option"
  route_generation :: "generation option"

record 'h compiled_route =
  route_of :: "'h route"
  segments :: "string list"
  parameter_names :: "string option list"
  shape :: "string list"
  dynamic_count :: nat

fun compile_segments :: "string list \<Rightarrow> string list \<Rightarrow> exn + (string option list \<times> string list)" where
  "compile_segments seen [] = Inr ([], [])"
| "compile_segments seen (segment # rest) =
     (case parameter_name segment of
        None \<Rightarrow>
          if CHR ''{'' \<in> set segment \<or> CHR ''}'' \<in> set segment
          then Inl (ValueError (''Invalid path segment: '' @ segment))
          else (case compile_segments seen rest of
                  Inl e \<Rightarrow> Inl e
                | Inr (ps, ss) \<Rightarrow> Inr (None # ps, segment # ss))
      | Some parameter \<Rightarrow>
          if parameter \<in> set seen
          then Inl (ValueError (''Duplicate route parameter: '' @ parameter))
          else (case compile_segments (parameter # seen) rest of
                  Inl e \<Rightarrow> Inl e
                | Inr (ps, ss) \<Rightarrow> Inr (Some parameter # ps, ''{}'' # ss)))"

definition compile_route :: "'h route \<Rightarrow> exn + 'h compiled_route" where
  "compile_route rt =
     (case split_path (path rt) of
        Inl e \<Rightarrow> Inl e
      | Inr segs \<Rightarrow>
          (case compile_segments [] segs of
             Inl e \<Rightarrow> Inl e
           | Inr (ps, ss) \<Rightarrow> Inr \<lparr>route_of = rt, segments = segs, parameter_names = ps, shape = ss,
               dynamic_count = length (filter (\<lambda>p. p \<noteq> None) ps)\<rparr>))"

text \<open>\<open>_CompiledRoute.match\<close>: the loop over the three zipped tuples.\<close>

fun match_loop ::
  "string list \<Rightarrow> string option list \<Rightarrow> string list \<Rightarrow> (string, string) dict \<Rightarrow> (string, string) dict option" where
  "match_loop (expected # es) (parameter # ps) (actual # as) acc =
     (if parameter = None \<and> expected \<noteq> actual then None
      else match_loop es ps as (case parameter of None \<Rightarrow> acc | Some p \<Rightarrow> dict_set p actual acc))"
| "match_loop es ps as acc = Some acc"

definition match_route :: "'h compiled_route \<Rightarrow> string list \<Rightarrow> (string, string) dict option" where
  "match_route c path_segments =
     (if length path_segments \<noteq> length (segments c) then None
      else match_loop (segments c) (parameter_names c) path_segments [])"

section \<open>The router\<close>

record 'h router =
  routes :: "(string \<times> string list, 'h compiled_route) dict"

definition new_router :: "'h router" where
  "new_router = \<lparr>routes = []\<rparr>"

definition route_key :: "'h compiled_route \<Rightarrow> string \<times> string list" where
  "route_key c = (http_method (route_of c), shape c)"

definition insert_route :: "'h router \<Rightarrow> 'h compiled_route \<Rightarrow> exn + 'h router" where
  "insert_route r c =
     (if dict_get (routes r) (route_key c) \<noteq> None
      then Inl (ConflictError (''Route conflicts with an existing route: '' @ http_method (route_of c)
             @ '' '' @ path (route_of c)))
      else Inr (r\<lparr>routes := dict_set (route_key c) c (routes r)\<rparr>))"

definition add_compiled :: "'h router \<Rightarrow> 'h route \<Rightarrow> exn + 'h router" where
  "add_compiled r rt = (case compile_route rt of Inl e \<Rightarrow> Inl e | Inr c \<Rightarrow> insert_route r c)"

definition add_route ::
  "'h router \<Rightarrow> string \<Rightarrow> string \<Rightarrow> 'h \<Rightarrow> string option \<Rightarrow> string option \<Rightarrow> string option \<Rightarrow>
   generation option \<Rightarrow> exn + 'h route \<times> 'h router" where
  "add_route r m p h name perm owner go =
     (let rt = \<lparr>http_method = upper m, path = p, handler = h,
            route_name = (case name of
                None \<Rightarrow> lower m @ '':'' @ p
              | Some n \<Rightarrow> if n = [] then lower m @ '':'' @ p else n),
            permission = perm, route_owner = owner, route_generation = go\<rparr>
      in (case add_compiled r rt of Inl e \<Rightarrow> Inl e | Inr r' \<Rightarrow> Inr (rt, r')))"

definition route_active :: "gate option \<Rightarrow> 'h compiled_route \<Rightarrow> bool" where
  "route_active gt c =
     (case gt of None \<Rightarrow> True | Some s \<Rightarrow> is_active s (route_generation (route_of c)))"

definition precedence :: "'h compiled_route \<Rightarrow> nat \<times> int \<times> string \<times> string" where
  "precedence c =
     (dynamic_count c, - int (length (segments c)), path (route_of c), http_method (route_of c))"

definition ordered_routes :: "gate option \<Rightarrow> 'h router \<Rightarrow> 'h compiled_route list" where
  "ordered_routes gt r = sort_key precedence (filter (route_active gt) (map snd (routes r)))"

fun scan_routes ::
  "string \<Rightarrow> string list \<Rightarrow> string list \<Rightarrow> 'h compiled_route list \<Rightarrow>
   exn + 'h route \<times> (string, string) dict" where
  "scan_routes m segs allowed [] =
     (if allowed \<noteq> [] then Inl (MethodNotAllowedError (sorted_set allowed))
      else Inl (NotFoundError ''Resource not found''))"
| "scan_routes m segs allowed (c # cs) =
     (case match_route c segs of
        None \<Rightarrow> scan_routes m segs allowed cs
      | Some ps \<Rightarrow>
          if http_method (route_of c) = upper m then Inr (route_of c, ps)
          else scan_routes m segs (http_method (route_of c) # allowed) cs)"

definition route_request ::
  "gate option \<Rightarrow> 'h router \<Rightarrow> string \<Rightarrow> string \<Rightarrow> exn + 'h route \<times> (string, string) dict" where
  "route_request gt r m p =
     (case split_path p of Inl e \<Rightarrow> Inl e | Inr segs \<Rightarrow> scan_routes m segs [] (ordered_routes gt r))"

definition remove_routes :: "'h router \<Rightarrow> generation \<Rightarrow> 'h router" where
  "remove_routes r g = r\<lparr>routes := dict_keep (\<lambda>c. route_generation (route_of c) \<noteq> Some g) (routes r)\<rparr>"

interpretation rtr: dict_table routes route_key "\<lambda>c. route_generation (route_of c)" insert_route remove_routes
  by unfold_locales (auto simp: insert_route_def remove_routes_def)

section \<open>Compiled routes and the paths they accept\<close>

definition compiled_ok :: "'h compiled_route \<Rightarrow> bool" where
  "compiled_ok c \<longleftrightarrow> compile_route (route_of c) = Inr c"

lemma compile_route_of: "compile_route rt = Inr c \<Longrightarrow> route_of c = rt"
  by (auto simp: compile_route_def split: sum.splits)

lemma compile_route_ok: "compile_route rt = Inr c \<Longrightarrow> compiled_ok c"
  using compile_route_of unfolding compiled_ok_def by fastforce

lemma route_of_inj: "route_of c = route_of d \<Longrightarrow> compiled_ok c \<Longrightarrow> compiled_ok d \<Longrightarrow> c = d"
  unfolding compiled_ok_def by (metis Inr_inject)

text \<open>The shape is the pattern with every parameter replaced by empty braces.\<close>

definition seg_accepts :: "string \<Rightarrow> string \<Rightarrow> bool" where
  "seg_accepts sh actual \<longleftrightarrow> sh = ''{}'' \<or> sh = actual"

lemma compile_segments_shape:
  "compile_segments seen segs = Inr (ps, ss) \<Longrightarrow>
     length ps = length segs \<and> length ss = length segs \<and>
     (\<forall>i < length segs.
        (ps ! i = None \<longrightarrow> ss ! i = segs ! i \<and> CHR ''{'' \<notin> set (segs ! i) \<and> CHR ''}'' \<notin> set (segs ! i)) \<and>
        (ps ! i \<noteq> None \<longrightarrow> ss ! i = ''{}''))"
proof (induction seen segs arbitrary: ps ss rule: compile_segments.induct)
  case (2 seen segment rest)
  show ?case
  proof (cases "parameter_name segment")
    case None
    with 2 show ?thesis
      by (auto simp: nth_Cons less_Suc_eq_0_disj split: if_splits sum.splits prod.splits nat.splits)
  next
    case (Some q)
    with 2 show ?thesis
      by (auto simp: nth_Cons less_Suc_eq_0_disj split: if_splits sum.splits prod.splits nat.splits)
  qed
qed simp

lemma compile_segments_params:
  "compile_segments seen segs = Inr (ps, ss) \<Longrightarrow>
     distinct (map the (filter (\<lambda>p. p \<noteq> None) ps)) \<and>
     set (map the (filter (\<lambda>p. p \<noteq> None) ps)) \<inter> set seen = {}"
proof (induction seen segs arbitrary: ps ss rule: compile_segments.induct)
  case (2 seen segment rest)
  show ?case
  proof (cases "parameter_name segment")
    case None
    with 2 show ?thesis by (fastforce split: if_splits sum.splits prod.splits)
  next
    case (Some q)
    with 2 show ?thesis by (fastforce split: if_splits sum.splits prod.splits)
  qed
qed simp

lemma compiled_okE:
  assumes "compiled_ok c"
  obtains segs where "split_path (path (route_of c)) = Inr segs" "segments c = segs"
    "compile_segments [] segs = Inr (parameter_names c, shape c)"
    "dynamic_count c = length (filter (\<lambda>p. p \<noteq> None) (parameter_names c))"
proof -
  obtain segs ps ss where s: "split_path (path (route_of c)) = Inr segs" "compile_segments [] segs = Inr (ps, ss)"
    and c: "\<lparr>route_of = route_of c, segments = segs, parameter_names = ps, shape = ss,
      dynamic_count = length (filter (\<lambda>p. p \<noteq> None) ps)\<rparr> = c"
    using assms unfolding compiled_ok_def compile_route_def by (auto split: sum.splits prod.splits)
  have "segments c = segs" "parameter_names c = ps" "shape c = ss"
    "dynamic_count c = length (filter (\<lambda>p. p \<noteq> None) ps)"
    by (subst c [symmetric], simp)+
  with s that [OF s(1)] show ?thesis by simp
qed

lemma match_loop_accepts:
  assumes "length es = length ps" "length es = length ss" "length as = length es"
    and "\<forall>i < length es. (ps ! i = None \<longrightarrow> ss ! i = es ! i \<and> es ! i \<noteq> ''{}'') \<and> (ps ! i \<noteq> None \<longrightarrow> ss ! i = ''{}'')"
  shows "match_loop es ps as acc \<noteq> None \<longleftrightarrow> list_all2 seg_accepts ss as"
  using assms
proof (induction es ps as acc arbitrary: ss rule: match_loop.induct)
  case (1 e es p ps a as acc)
  then obtain s ss' where ss: "ss = s # ss'" by (cases ss) auto
  have tail: "\<forall>i < length es. (ps ! i = None \<longrightarrow> ss' ! i = es ! i \<and> es ! i \<noteq> ''{}'') \<and> (ps ! i \<noteq> None \<longrightarrow> ss' ! i = ''{}'')"
  proof (intro allI impI)
    fix i assume "i < length es"
    with 1(5) [rule_format, of "Suc i"] ss
    show "(ps ! i = None \<longrightarrow> ss' ! i = es ! i \<and> es ! i \<noteq> ''{}'') \<and> (ps ! i \<noteq> None \<longrightarrow> ss' ! i = ''{}'')" by simp
  qed
  have head: "(p = None \<longrightarrow> s = e \<and> e \<noteq> ''{}'') \<and> (p \<noteq> None \<longrightarrow> s = ''{}'')"
    using 1(5) [rule_format, of 0] ss by simp
  show ?case
  proof (cases "p = None \<and> e \<noteq> a")
    case True
    with head ss show ?thesis by (simp add: seg_accepts_def)
  next
    case False
    with head have "seg_accepts s a" by (auto simp: seg_accepts_def)
    then show ?thesis using 1(1) [OF False, of ss'] 1(2-4) tail ss by (simp add: False)
  qed
qed auto

lemma match_accepts:
  assumes "compiled_ok c"
  shows "match_route c segs \<noteq> None \<longleftrightarrow> list_all2 seg_accepts (shape c) segs"
proof -
  obtain es where es: "segments c = es" "compile_segments [] es = Inr (parameter_names c, shape c)"
    using compiled_okE [OF assms] by metis
  note sh = compile_segments_shape [OF es(2)]
  show ?thesis
  proof (cases "length segs = length es")
    case True
    have "match_loop es (parameter_names c) segs [] \<noteq> None \<longleftrightarrow> list_all2 seg_accepts (shape c) segs"
    proof (rule match_loop_accepts)
      show "\<forall>i < length es. (parameter_names c ! i = None \<longrightarrow> shape c ! i = es ! i \<and> es ! i \<noteq> ''{}'') \<and>
          (parameter_names c ! i \<noteq> None \<longrightarrow> shape c ! i = ''{}'')"
        using sh by (metis list.set_intros(1))
    qed (use sh True in simp_all)
    with True es(1) show ?thesis by (simp add: match_route_def)
  next
    case False
    with sh es(1) show ?thesis by (auto simp: match_route_def dest: list_all2_lengthD)
  qed
qed

text \<open>Path parameters: every dynamic segment is bound, under its own name, to the actual text.\<close>

definition param_names :: "string option list \<Rightarrow> string list" where
  "param_names ps = map the (filter (\<lambda>p. p \<noteq> None) ps)"

lemma param_names_simps [simp]:
  "param_names [] = []" "param_names (None # ps) = param_names ps"
  "param_names (Some n # ps) = n # param_names ps"
  by (simp_all add: param_names_def)

definition fill_pattern :: "'h compiled_route \<Rightarrow> (string, string) dict \<Rightarrow> string list" where
  "fill_pattern c binds = map2 (\<lambda>segment p. case p of None \<Rightarrow> segment | Some n \<Rightarrow> the (dict_get binds n))
     (segments c) (parameter_names c)"

lemma match_loop_other:
  "match_loop es ps as acc = Some res \<Longrightarrow> k \<notin> set (param_names ps) \<Longrightarrow> dict_get res k = dict_get acc k"
  by (induction es ps as acc rule: match_loop.induct) (auto simp: dict_get_set split: if_splits option.splits)

lemma match_loop_binds:
  assumes "match_loop es ps as acc = Some res" "length es = length ps" "length as = length es"
    "distinct (param_names ps)"
  shows "map2 (\<lambda>segment p. case p of None \<Rightarrow> segment | Some n \<Rightarrow> the (dict_get res n)) es ps = as"
  using assms
proof (induction es ps as acc rule: match_loop.induct)
  case (1 e es p ps a as acc)
  then have m: "\<not> (p = None \<and> e \<noteq> a)"
    "match_loop es ps as (case p of None \<Rightarrow> acc | Some q \<Rightarrow> dict_set q a acc) = Some res"
    by (auto split: if_splits)
  have "(case p of None \<Rightarrow> e | Some n \<Rightarrow> the (dict_get res n)) = a"
    using m match_loop_other [OF m(2)] 1(5) by (cases p) (auto simp: dict_get_set)
  moreover have "distinct (param_names ps)" using 1(5) by (cases p) auto
  ultimately show ?case using 1(1) [OF m] 1(3,4) by simp
qed auto

lemma match_loop_keys:
  "match_loop es ps as acc = Some res \<Longrightarrow> length es = length ps \<Longrightarrow> length as = length es \<Longrightarrow>
     distinct (map fst acc @ param_names ps) \<Longrightarrow> map fst res = map fst acc @ param_names ps"
proof (induction es ps as acc rule: match_loop.induct)
  case (1 e es p ps a as acc)
  show ?case
  proof (cases p)
    case None
    with 1 show ?thesis by (simp split: if_splits)
  next
    case (Some q)
    with 1(5) have k: "dict_set q a acc = acc @ [(q, a)]" by (auto intro: dict_set_fresh simp: map_of_eq_None_iff)
    have "map fst res = map fst (case p of None \<Rightarrow> acc | Some q \<Rightarrow> dict_set q a acc) @ param_names ps"
      by (rule 1(1)) (use 1(2-5) Some k in auto)
    with Some k show ?thesis by simp
  qed
qed auto

section \<open>Order and resolution\<close>

definition router_wf :: "'h router \<Rightarrow> bool" where
  "router_wf r \<longleftrightarrow> dict_ok (routes r) \<and>
     (\<forall>(k, c) \<in> set (routes r). k = route_key c \<and> compiled_ok c)"

lemma router_wf_ok: "router_wf r \<Longrightarrow> dict_ok (routes r)"
  by (simp add: router_wf_def)

lemma router_wf_mem: "router_wf r \<Longrightarrow> c \<in> set (map snd (routes r)) \<Longrightarrow> compiled_ok c \<and> dict_get (routes r) (route_key c) = Some c"
  by (force simp: router_wf_def map_of_eq_Some_iff)

lemma router_wf_get: "router_wf r \<Longrightarrow> dict_get (routes r) k = Some c \<Longrightarrow> c \<in> set (map snd (routes r)) \<and> route_key c = k"
  by (force simp: router_wf_def dest: map_of_SomeD)

lemma router_wf_new: "router_wf new_router"
  by (simp add: router_wf_def new_router_def)

lemma insert_route_Inr:
  "insert_route r c = Inr r' \<longleftrightarrow>
     dict_get (routes r) (route_key c) = None \<and> r' = r\<lparr>routes := dict_set (route_key c) c (routes r)\<rparr>"
  by (auto simp: insert_route_def)

lemma insert_route_routes: "insert_route r c = Inr r' \<Longrightarrow> routes r' = routes r @ [(route_key c, c)]"
  by (auto simp: insert_route_Inr dict_set_fresh)

lemma router_wf_insert:
  assumes "router_wf r" "compiled_ok c" "insert_route r c = Inr r'"
  shows "router_wf r'"
  using assms rtr.table.add_Inr [OF router_wf_ok [OF assms(1)] assms(3)]
  by (auto simp: router_wf_def insert_route_routes)

lemma router_wf_add: "router_wf r \<Longrightarrow> add_compiled r rt = Inr r' \<Longrightarrow> router_wf r'"
  by (auto simp: add_compiled_def split: sum.splits intro: router_wf_insert compile_route_ok)

lemma router_wf_remove: "router_wf r \<Longrightarrow> router_wf (remove_routes r g)"
  by (auto simp: router_wf_def remove_routes_def dict_keep_def distinct_map_filter)

text \<open>
  Two routes of a router with the same path and method are the same route: the precedence is a
  strict order on the entries, so it leaves nothing to the order of registration.
\<close>

lemma compiled_ok_unique:
  assumes "compiled_ok c" "compiled_ok d" "path (route_of c) = path (route_of d)"
  shows "shape c = shape d \<and> segments c = segments d \<and> parameter_names c = parameter_names d"
  using compiled_okE [OF assms(1)] compiled_okE [OF assms(2)] assms(3) by (metis Inr_inject Pair_inject)

lemma precedence_inj:
  assumes "router_wf r"
  shows "inj_on precedence (set (map snd (routes r)))"
proof (rule inj_onI)
  fix c d assume c: "c \<in> set (map snd (routes r))" and d: "d \<in> set (map snd (routes r))"
    and "precedence c = precedence d"
  then have p: "path (route_of c) = path (route_of d)" and m: "http_method (route_of c) = http_method (route_of d)"
    by (simp_all add: precedence_def)
  have "compiled_ok c" "compiled_ok d"
    using router_wf_mem [OF assms c] router_wf_mem [OF assms d] by simp_all
  from compiled_ok_unique [OF this p] m have "route_key c = route_key d" by (simp add: route_key_def)
  with router_wf_mem [OF assms c] router_wf_mem [OF assms d] show "c = d" by (metis option.inject)
qed

lemma distinct_routes:
  assumes "router_wf r"
  shows "distinct (map snd (routes r))"
proof -
  have "fst x = route_key (snd x)" if "x \<in> set (routes r)" for x
    using assms that by (cases x) (auto simp: router_wf_def)
  then have "map fst (routes r) = map route_key (map snd (routes r))" by simp
  with router_wf_ok [OF assms] have "distinct (map route_key (map snd (routes r)))" by argo
  then show ?thesis unfolding distinct_map by (rule conjunct1)
qed

lemma sort_key_unique:
  assumes "set xs = set ys" "distinct xs" "distinct ys" "inj_on f (set xs)"
  shows "sort_key f xs = sort_key f ys"
  using assms by (intro map_sorted_distinct_set_unique [of f]) (auto simp: distinct_map)

lemma ordered_routes_cong:
  assumes "router_wf r" "router_wf r'" "dict_get (routes r) = dict_get (routes r')"
  shows "ordered_routes gt r = ordered_routes gt r'"
proof -
  have "set (map snd (routes r)) = set (map snd (routes r'))"
    using router_wf_mem [OF assms(1)] router_wf_get [OF assms(1)] router_wf_mem [OF assms(2)]
      router_wf_get [OF assms(2)] unfolding assms(3) by blast
  moreover have "inj_on precedence (set (filter (route_active gt) (map snd (routes r))))"
    by (rule inj_on_subset [OF precedence_inj [OF assms(1)]]) auto
  ultimately show ?thesis unfolding ordered_routes_def
    using distinct_routes [OF assms(1)] distinct_routes [OF assms(2)]
    by (intro sort_key_unique) simp_all
qed

lemma set_ordered_routes:
  "c \<in> set (ordered_routes gt r) \<longleftrightarrow> c \<in> set (map snd (routes r)) \<and> route_active gt c"
  by (auto simp: ordered_routes_def)

lemma hd_filter_sorted:
  fixes f :: "'a \<Rightarrow> 'b::linorder"
  assumes "sorted (map f xs)" "filter P xs = y # ys" "x \<in> set xs" "P x"
  shows "f y \<le> f x"
proof -
  have "sorted (map f (filter P xs))" using assms(1) by (rule sorted_filter)
  moreover have "x \<in> set (filter P xs)" using assms(3,4) by simp
  ultimately show ?thesis using assms(2) by auto
qed

text \<open>The scan returns the first route of the method that matches, or the methods that do.\<close>

lemma scan_routes_eq:
  "scan_routes m segs allowed cs =
     (case filter (\<lambda>c. match_route c segs \<noteq> None \<and> http_method (route_of c) = upper m) cs of
        c # _ \<Rightarrow> Inr (route_of c, the (match_route c segs))
      | [] \<Rightarrow>
          let ms = rev (map (\<lambda>c. http_method (route_of c)) (filter (\<lambda>c. match_route c segs \<noteq> None) cs)) @ allowed
          in if ms \<noteq> [] then Inl (MethodNotAllowedError (sorted_set ms))
             else Inl (NotFoundError ''Resource not found''))"
proof (induction cs arbitrary: allowed)
  case (Cons c cs)
  then show ?case by (cases "match_route c segs") (auto split: list.split)
qed simp

lemma scan_routes_Inr:
  assumes "scan_routes m segs [] cs = Inr (rt, ps)" "sorted (map precedence cs)"
  shows "\<exists>c \<in> set cs. route_of c = rt \<and> http_method rt = upper m \<and> match_route c segs = Some ps \<and>
    (\<forall>d \<in> set cs. match_route d segs \<noteq> None \<and> http_method (route_of d) = upper m \<longrightarrow> precedence c \<le> precedence d)"
proof -
  let ?P = "\<lambda>c. match_route c segs \<noteq> None \<and> http_method (route_of c) = upper m"
  obtain c cs' where c: "filter ?P cs = c # cs'" "rt = route_of c" "ps = the (match_route c segs)"
    using assms(1) by (auto simp: scan_routes_eq Let_def split: list.splits if_splits)
  then have "c \<in> set (filter ?P cs)" by simp
  moreover have "precedence c \<le> precedence d" if "d \<in> set cs" "?P d" for d
    using hd_filter_sorted [OF assms(2) c(1) that] .
  ultimately show ?thesis using c(2,3) by auto
qed

section \<open>Registering a set of routes\<close>

lemma add_all_compiled:
  "fold_res add_compiled r rts = Inr r' \<Longrightarrow>
     \<exists>cs. map route_of cs = rts \<and> list_all compiled_ok cs \<and> routes r' = routes r @ map (\<lambda>c. (route_key c, c)) cs"
proof (induction rts arbitrary: r)
  case (Cons rt rts)
  then obtain u where u: "add_compiled r rt = Inr u" "fold_res add_compiled u rts = Inr r'"
    by (auto split: sum.splits)
  then obtain c where c: "compile_route rt = Inr c" "insert_route r c = Inr u"
    by (auto simp: add_compiled_def split: sum.splits)
  from Cons.IH [OF u(2)] obtain cs where
    "map route_of cs = rts" "list_all compiled_ok cs" "routes r' = routes u @ map (\<lambda>c. (route_key c, c)) cs"
    by blast
  with c compile_route_ok [OF c(1)] compile_route_of [OF c(1)] insert_route_routes [OF c(2)]
  show ?case by (intro exI [of _ "c # cs"]) simp
qed simp

lemma add_all_wf: "router_wf r \<Longrightarrow> fold_res add_compiled r rts = Inr r' \<Longrightarrow> router_wf r'"
  by (erule (1) fold_res_invariant) (rule router_wf_add)

lemma add_all_succeeds:
  assumes "list_all compiled_ok cs" "distinct (map fst (routes r) @ map route_key cs)"
  shows "\<exists>r'. fold_res add_compiled r (map route_of cs) = Inr r'"
  using assms
proof (induction cs arbitrary: r)
  case (Cons c cs)
  then have k: "dict_get (routes r) (route_key c) = None" by (auto simp: map_of_eq_None_iff)
  let ?u = "r\<lparr>routes := dict_set (route_key c) c (routes r)\<rparr>"
  have "add_compiled r (route_of c) = Inr ?u"
    using Cons.prems(1) k by (simp add: add_compiled_def compiled_ok_def insert_route_Inr)
  moreover have "\<exists>r'. fold_res add_compiled ?u (map route_of cs) = Inr r'"
    using Cons.prems k by (intro Cons.IH) (auto simp: dict_set_fresh)
  ultimately show ?case by simp
qed simp

lemma route_request_cong:
  "router_wf r \<Longrightarrow> router_wf r' \<Longrightarrow> dict_get (routes r) = dict_get (routes r') \<Longrightarrow>
     route_request gt r m p = route_request gt r' m p"
  unfolding route_request_def using ordered_routes_cong [of r r' gt] by (simp split: sum.split)

lemma compiled_list_unique:
  assumes "list_all compiled_ok cs" "list_all compiled_ok ds" "map route_of cs = map route_of ds"
  shows "cs = ds"
proof (rule map_inj_on [OF assms(3)])
  show "inj_on route_of (set cs \<union> set ds)"
  proof (rule inj_onI)
    fix c d assume "c \<in> set cs \<union> set ds" "d \<in> set cs \<union> set ds" and eq: "route_of c = route_of d"
    then have "compiled_ok c" "compiled_ok d" using assms(1,2) by (auto simp: list_all_iff)
    then show "c = d" by (rule route_of_inj [OF eq])
  qed
qed

text \<open>A permutation of compilable routes compiles to a permutation of the compiled ones.\<close>

lemma compiled_permutation:
  assumes "map route_of cs = rts" "list_all compiled_ok cs" "mset rts = mset rts'"
  shows "\<exists>ds. map route_of ds = rts' \<and> mset ds = mset cs \<and> list_all compiled_ok ds"
proof -
  let ?comp = "\<lambda>rt. projr (compile_route rt)"
  have comp: "?comp (route_of c) = c" if "c \<in> set cs" for c
    using assms(2) that by (simp add: list_all_iff compiled_ok_def)
  then have "map ?comp rts = cs" unfolding assms(1) [symmetric] by (simp add: map_idI)
  then have m: "mset (map ?comp rts') = mset cs" using assms(3) by (metis mset_map)
  have "route_of (?comp rt) = rt" if "rt \<in> set rts'" for rt
  proof -
    have "rt \<in> set rts" using that assms(3) by (metis mset_eq_setD)
    with assms(1) obtain c where "c \<in> set cs" "rt = route_of c" by auto
    with comp show ?thesis by simp
  qed
  then have "map route_of (map ?comp rts') = rts'" by (simp add: map_idI)
  moreover have "list_all compiled_ok (map ?comp rts')"
    using assms(2) mset_eq_setD [OF m] by (simp add: list_all_iff)
  ultimately show ?thesis using m by blast
qed

section \<open>What the router guarantees\<close>

text \<open>
  C2: Routing is deterministic in the set of routes: if a list of routes can be registered, every
  permutation of it can, and the resulting routers answer every request alike, whatever
  generations the gate has active.
\<close>

theorem registration_order_irrelevant:
  assumes reg: "fold_res add_compiled new_router rts = Inr r" and perm: "mset rts = mset rts'"
  shows "\<exists>r'. fold_res add_compiled new_router rts' = Inr r' \<and>
    (\<forall>gt m p. route_request gt r m p = route_request gt r' m p)"
proof -
  obtain cs where cs: "map route_of cs = rts" "list_all compiled_ok cs"
    "routes r = map (\<lambda>c. (route_key c, c)) cs"
    using add_all_compiled [OF reg] by (auto simp: new_router_def)
  obtain ds where ds: "map route_of ds = rts'" "mset ds = mset cs" "list_all compiled_ok ds"
    using compiled_permutation [OF cs(1,2)] perm by metis
  have "distinct (map route_key cs)"
    using router_wf_ok [OF add_all_wf [OF router_wf_new reg]] cs(3) by (simp add: comp_def)
  then have "distinct (map route_key ds)"
    using ds(2) by (metis mset_eq_imp_distinct_iff mset_map)
  then obtain r' where r': "fold_res add_compiled new_router rts' = Inr r'"
    using add_all_succeeds [OF ds(3), of new_router] ds(1) by (auto simp: new_router_def)
  have wf: "router_wf r" "router_wf r'"
    using add_all_wf [OF router_wf_new] reg r' by auto
  obtain es where es: "map route_of es = rts'" "list_all compiled_ok es"
    "routes r' = map (\<lambda>c. (route_key c, c)) es"
    using add_all_compiled [OF r'] by (auto simp: new_router_def)
  have "es = ds" using compiled_list_unique [OF es(2) ds(3)] es(1) ds(1) by simp
  then have "set (routes r') = set (routes r)"
    using es(3) cs(3) mset_eq_setD [OF ds(2)] by simp
  then have "dict_get (routes r) = dict_get (routes r')"
    using map_of_inject_set [OF router_wf_ok [OF wf(1)] router_wf_ok [OF wf(2)]] by simp
  with r' route_request_cong [OF wf] show ?thesis by blast
qed

definition accepting :: "gate option \<Rightarrow> 'h router \<Rightarrow> string list \<Rightarrow> 'h compiled_route set" where
  "accepting gt r segs =
     {c \<in> set (map snd (routes r)). route_active gt c \<and> match_route c segs \<noteq> None}"

text \<open>
  The outcome of a request is exactly determined: the route returned is an active one of
  the requested method that accepts the path, with the least precedence key among those; 405 is
  raised with precisely the sorted methods of the active routes that accept the path when none has
  the method, and 404 when no active route accepts it.
\<close>

theorem routing_outcome:
  assumes wf: "router_wf r" and p: "split_path p = Inr segs"
  shows "case route_request gt r m p of
      Inr (rt, ps) \<Rightarrow> \<exists>c \<in> accepting gt r segs. route_of c = rt \<and> http_method rt = upper m \<and> match_route c segs = Some ps \<and>
        (\<forall>d \<in> accepting gt r segs. http_method (route_of d) = upper m \<and> d \<noteq> c \<longrightarrow> precedence c < precedence d)
    | Inl (MethodNotAllowedError ms) \<Rightarrow> accepting gt r segs \<noteq> {} \<and> upper m \<notin> set ms \<and> sorted ms \<and> distinct ms \<and>
        set ms = (\<lambda>c. http_method (route_of c)) ` accepting gt r segs
    | Inl (NotFoundError _) \<Rightarrow> accepting gt r segs = {}
    | _ \<Rightarrow> False"
proof -
  let ?cs = "ordered_routes gt r"
  have acc: "accepting gt r segs = {c \<in> set ?cs. match_route c segs \<noteq> None}"
    by (auto simp: accepting_def set_ordered_routes)
  have req: "route_request gt r m p = scan_routes m segs [] ?cs" using p by (simp add: route_request_def)
  have sorted: "sorted (map precedence ?cs)" by (simp add: ordered_routes_def)
  show ?thesis
  proof (cases "route_request gt r m p")
    case (Inr a)
    obtain rt ps where a: "a = (rt, ps)" by (cases a)
    obtain c where c: "c \<in> set ?cs" "route_of c = rt" "http_method rt = upper m" "match_route c segs = Some ps"
      "\<And>d. d \<in> set ?cs \<Longrightarrow> match_route d segs \<noteq> None \<Longrightarrow> http_method (route_of d) = upper m \<Longrightarrow> precedence c \<le> precedence d"
      using scan_routes_Inr [OF _ sorted, of m segs rt ps] Inr req a by auto
    have "precedence c < precedence d" if d: "d \<in> accepting gt r segs" "http_method (route_of d) = upper m" "d \<noteq> c" for d
    proof -
      have "precedence c \<noteq> precedence d"
        using inj_onD [OF precedence_inj [OF wf], of c d] c(1) d by (auto simp: acc set_ordered_routes)
      with c(5) [of d] d show ?thesis by (auto simp: acc)
    qed
    with c(1-4) Inr a show ?thesis by (auto simp: acc)
  next
    case (Inl e)
    then have none: "filter (\<lambda>c. match_route c segs \<noteq> None \<and> http_method (route_of c) = upper m) ?cs = []"
      and e: "e = (let ms = rev (map (\<lambda>c. http_method (route_of c)) (filter (\<lambda>c. match_route c segs \<noteq> None) ?cs))
        in if ms \<noteq> [] then MethodNotAllowedError (sorted_set ms) else NotFoundError ''Resource not found'')"
      using req by (auto simp: scan_routes_eq Let_def split: list.splits)
    show ?thesis
    proof (cases "filter (\<lambda>c. match_route c segs \<noteq> None) ?cs = []")
      case True
      with e Inl show ?thesis by (auto simp: acc filter_empty_conv)
    next
      case False
      with e Inl none show ?thesis by (auto simp: acc filter_empty_conv)
    qed
  qed
qed

definition segment_ok :: "string \<Rightarrow> bool" where
  "segment_ok w \<longleftrightarrow> w \<noteq> [] \<and> CHR ''/'' \<notin> set w"

lemma split_path_segments: "split_path p = Inr segs \<Longrightarrow> list_all segment_ok segs"
  by (auto simp: split_path_def Let_def list_all_iff segment_ok_def split_on_clean split: if_splits)

lemma last_join: "ws \<noteq> [] \<Longrightarrow> list_all segment_ok ws \<Longrightarrow> join_with sep ws \<noteq> [] \<and> last (join_with sep ws) \<noteq> CHR ''/''"
  by (induction sep ws rule: join_with.induct) (auto simp: segment_ok_def dest: last_in_set)

lemma split_path_join:
  assumes "list_all segment_ok segs"
  shows "split_path (CHR ''/'' # join_with ''/'' segs) = Inr segs"
proof (cases "segs = []")
  case False
  have "list_all (\<lambda>w. CHR ''/'' \<notin> set w) segs" "filter (\<lambda>segment. segment \<noteq> []) segs = segs"
    using assms by (auto simp: list_all_iff segment_ok_def intro: filter_True)
  with last_join [OF False assms, of "''/''"] split_on_join [of "CHR ''/''" segs] False
  show ?thesis by (auto simp: split_path_def Let_def)
qed (simp add: split_path_def Let_def)

text \<open>A path that a route accepts and another route accepts only with the same literals.\<close>

definition fresh_word :: "string list \<Rightarrow> string" where
  "fresh_word ws = replicate (Suc (sum_list (map length ws))) CHR ''x''"

lemma fresh_word_new: "fresh_word ws \<notin> set ws"
proof
  assume "fresh_word ws \<in> set ws"
  then have "length (fresh_word ws) \<le> sum_list (map length ws)" by (intro member_le_sum_list) auto
  then show False by (simp add: fresh_word_def)
qed

lemma compiled_shape_segment:
  assumes "compiled_ok c" "s \<in> set (shape c)" "s \<noteq> ''{}''"
  shows "segment_ok s"
proof -
  obtain es where es: "split_path (path (route_of c)) = Inr es" "compile_segments [] es = Inr (parameter_names c, shape c)"
    using compiled_okE [OF assms(1)] by metis
  obtain i where i: "i < length (shape c)" "shape c ! i = s" using assms(2) by (auto simp: in_set_conv_nth)
  with compile_segments_shape [OF es(2)] assms(3) have "s = es ! i" "i < length es" by auto
  with split_path_segments [OF es(1)] show ?thesis by (simp add: list_all_length)
qed

definition probe :: "'h compiled_route \<Rightarrow> string list \<Rightarrow> string list" where
  "probe c avoid = map (\<lambda>s. if s = ''{}'' then fresh_word avoid else s) (shape c)"

lemma probe_segments: "compiled_ok c \<Longrightarrow> list_all segment_ok (probe c avoid)"
  by (auto simp: probe_def list_all_iff fresh_word_def compiled_shape_segment) (simp add: segment_ok_def)

lemma probe_accepted: "list_all2 seg_accepts (shape c) (probe c avoid)"
  by (simp add: probe_def list_all2_conv_all_nth seg_accepts_def)

lemma probe_refines:
  assumes "list_all2 seg_accepts (shape d) (probe c (shape d))" "i < length (shape c)"
  shows "length (shape d) = length (shape c) \<and> (shape d ! i = ''{}'' \<or> shape d ! i = shape c ! i)"
proof -
  have l: "length (shape d) = length (shape c)" using assms(1) by (auto simp: probe_def dest: list_all2_lengthD)
  with assms have "seg_accepts (shape d ! i) (probe c (shape d) ! i)" by (simp add: list_all2_nthD)
  with fresh_word_new [of "shape d"] l assms(2) show ?thesis
    by (auto simp: seg_accepts_def probe_def split: if_splits) (metis nth_mem)
qed

text \<open>
  Conflict rejection is exact: two route patterns have the same shape, and so conflict for a
  method, if and only if they accept exactly the same request paths.
\<close>

theorem conflict_iff_same_paths:
  assumes c: "compiled_ok c" and d: "compiled_ok d"
  shows "shape c = shape d \<longleftrightarrow>
    (\<forall>p segs. split_path p = Inr segs \<longrightarrow> (match_route c segs \<noteq> None \<longleftrightarrow> match_route d segs \<noteq> None))"
proof
  assume same: "\<forall>p segs. split_path p = Inr segs \<longrightarrow> (match_route c segs \<noteq> None \<longleftrightarrow> match_route d segs \<noteq> None)"
  then have iff: "list_all2 seg_accepts (shape c) segs \<longleftrightarrow> list_all2 seg_accepts (shape d) segs"
    if "list_all segment_ok segs" for segs
    using split_path_join [OF that] match_accepts [OF c] match_accepts [OF d] by blast
  have dc: "list_all2 seg_accepts (shape d) (probe c (shape d))"
    using iff [OF probe_segments [OF c]] probe_accepted by blast
  have cd: "list_all2 seg_accepts (shape c) (probe d (shape c))"
    using iff [OF probe_segments [OF d]] probe_accepted by blast
  have len: "length (shape c) = length (shape d)" using dc by (auto simp: probe_def dest: list_all2_lengthD)
  show "shape c = shape d"
  proof (rule nth_equalityI [OF len])
    fix i assume i: "i < length (shape c)"
    show "shape c ! i = shape d ! i"
      using probe_refines [OF dc i] probe_refines [OF cd, of i] i len by auto
  qed
next
  assume "shape c = shape d"
  then show "\<forall>p segs. split_path p = Inr segs \<longrightarrow> (match_route c segs \<noteq> None \<longleftrightarrow> match_route d segs \<noteq> None)"
    unfolding match_accepts [OF c] match_accepts [OF d] by simp
qed

text \<open>
  A match binds every parameter of the pattern exactly once, in order, and the bindings give
  the path back: the pattern with its parameters replaced is the list of the path's segments.
\<close>

theorem match_binds_parameters:
  assumes c: "compiled_ok c" and m: "match_route c segs = Some ps"
  shows "map fst ps = param_names (parameter_names c) \<and> distinct (map fst ps) \<and> fill_pattern c ps = segs"
proof -
  obtain es where es: "segments c = es" "compile_segments [] es = Inr (parameter_names c, shape c)"
    using compiled_okE [OF c] by metis
  note sh = compile_segments_shape [OF es(2)]
  have dist: "distinct (param_names (parameter_names c))"
    using compile_segments_params [OF es(2)] by (simp add: param_names_def)
  have loop: "length segs = length es" "match_loop es (parameter_names c) segs [] = Some ps"
    using m es(1) by (auto simp: match_route_def split: if_splits)
  with sh match_loop_keys [OF loop(2)] match_loop_binds [OF loop(2)] dist es(1)
  show ?thesis by (simp add: fill_pattern_def)
qed

text \<open>Concrete routes for the instances.\<close>

definition demo_route :: "string \<Rightarrow> string \<Rightarrow> nat route" where
  "demo_route m p = \<lparr>http_method = m, path = p, handler = 0, route_name = m, permission = None,
     route_owner = None, route_generation = None\<rparr>"

definition demo_routes :: "nat route list" where
  "demo_routes = [demo_route ''GET'' ''/u/{id}'', demo_route ''GET'' ''/u/me'', demo_route ''PUT'' ''/u/{key}'']"

lemma demo_route_method [simp]: "http_method (demo_route m p) = m"
  by (simp add: demo_route_def)

lemma demo_compile:
  "compile_route (demo_route m ''/u/me'') = Inr \<lparr>route_of = demo_route m ''/u/me'', segments = [''u'', ''me''],
     parameter_names = [None, None], shape = [''u'', ''me''], dynamic_count = 0\<rparr>"
  "compile_route (demo_route m ''/u/{id}'') = Inr \<lparr>route_of = demo_route m ''/u/{id}'', segments = [''u'', ''{id}''],
     parameter_names = [None, Some ''id''], shape = [''u'', ''{}''], dynamic_count = 1\<rparr>"
  "compile_route (demo_route m ''/u/{key}'') = Inr \<lparr>route_of = demo_route m ''/u/{key}'', segments = [''u'', ''{key}''],
     parameter_names = [None, Some ''key''], shape = [''u'', ''{}''], dynamic_count = 1\<rparr>"
  by (simp_all add: compile_route_def demo_route_def split_path_def Let_def parameter_name_def ident_char_def
      is_lower_def is_upper_def is_digit_def)


definition demo_compiled :: "string \<Rightarrow> nat compiled_route" where
  "demo_compiled name = \<lparr>route_of = demo_route ''GET'' (''/u/{'' @ name @ ''}''),
     segments = [''u'', ''{'' @ name @ ''}''], parameter_names = [None, Some name], shape = [''u'', ''{}''],
     dynamic_count = 1\<rparr>"

lemma demo_compiled_ok: "compiled_ok (demo_compiled ''id'')" "compiled_ok (demo_compiled ''key'')"
  using demo_compile(2,3) [of "''GET''"] by (simp_all add: compiled_ok_def demo_compiled_def)

theorem conflict_iff_same_paths_witness:
  "match_route (demo_compiled ''id'') [''u'', ''x''] \<noteq> None \<longleftrightarrow> match_route (demo_compiled ''key'') [''u'', ''x''] \<noteq> None"
proof -
  have "split_path ''/u/x'' = Inr [''u'', ''x'']" by (simp add: split_path_def Let_def)
  moreover have "shape (demo_compiled ''id'') = shape (demo_compiled ''key'')" by (simp add: demo_compiled_def)
  ultimately show ?thesis using conflict_iff_same_paths [OF demo_compiled_ok] by blast
qed

theorem match_binds_parameters_witness:
  "match_route (demo_compiled ''id'') [''u'', ''42''] = Some [(''id'', ''42'')] \<and>
     fill_pattern (demo_compiled ''id'') [(''id'', ''42'')] = [''u'', ''42'']"
proof -
  have "match_route (demo_compiled ''id'') [''u'', ''42''] = Some [(''id'', ''42'')]"
    by (simp add: match_route_def demo_compiled_def)
  with match_binds_parameters [OF demo_compiled_ok(1) this] show ?thesis by simp
qed

definition demo_router :: "nat router" where
  "demo_router = \<lparr>routes = [((''GET'', [''u'', ''{}'']), demo_compiled ''id'')]\<rparr>"

theorem registration_order_irrelevant_witness:
  "\<exists>r r'. fold_res add_compiled new_router demo_routes = Inr r \<and>
     fold_res add_compiled new_router (rev demo_routes) = Inr r' \<and>
     route_request None r ''get'' ''/u/me'' = route_request None r' ''get'' ''/u/me''"
proof -
  obtain r where r: "fold_res add_compiled new_router demo_routes = Inr r"
    by (simp add: demo_routes_def add_compiled_def demo_compile insert_route_def new_router_def route_key_def)
  from registration_order_irrelevant [OF r, of "rev demo_routes"] r show ?thesis by auto
qed

theorem routing_outcome_witness:
  "case route_request None demo_router ''PUT'' ''/u/42'' of
      Inl (MethodNotAllowedError ms) \<Rightarrow> ms = [''GET'']
    | _ \<Rightarrow> False"
proof -
  have wf: "router_wf demo_router"
    using demo_compiled_ok by (simp add: router_wf_def demo_router_def route_key_def demo_compiled_def demo_route_def)
  have sp: "split_path ''/u/42'' = Inr [''u'', ''42'']" by (simp add: split_path_def Let_def)
  have req: "route_request None demo_router ''PUT'' ''/u/42'' = Inl (MethodNotAllowedError [''GET''])"
    by (simp add: route_request_def sp demo_router_def ordered_routes_def route_active_def match_route_def
        demo_compiled_def demo_route_def upper_def upper_char_def is_lower_def sorted_set_def)
  from routing_outcome [OF wf sp, of None "''PUT''"] req show ?thesis by simp
qed

end
