(* ===== verification/Http.thy ===== *)
theory Http
  imports Routing
begin

text \<open>
  The HTTP surface around the router: the request body reader of
  \<open>platform/src/businessos/http/request.py\<close>, the response of \<open>http/response.py\<close>, and the middleware
  registry and composition of \<open>http/middleware.py\<close>.
\<close>

section \<open>Request bodies\<close>

text \<open>
  The events the ASGI server delivers. The reader consumes them one by one; running out of
  events means the reader is still waiting, which is \<open>None\<close>.
\<close>

datatype asgi_event =
    HttpDisconnect
  | HttpRequest "char list" bool  \<comment> \<open>body, more_body\<close>
  | OtherEvent

fun read_body :: "int \<Rightarrow> char list list \<Rightarrow> int \<Rightarrow> asgi_event list \<Rightarrow> (exn + char list) option" where
  "read_body limit chunks sz [] = None"
| "read_body limit chunks sz (HttpDisconnect # evs) = Some (Inl ClientDisconnectedError)"
| "read_body limit chunks sz (OtherEvent # evs) = read_body limit chunks sz evs"
| "read_body limit chunks sz (HttpRequest chunk mb # evs) =
     (if sz + int (length chunk) > limit
      then Some (Inl (BusinessOSError ''request_too_large'' ''Request body exceeds configured limit'' 413))
      else if mb then read_body limit (chunks @ [chunk]) (sz + int (length chunk)) evs
      else Some (Inr (concat (chunks @ [chunk]))))"

record request =
  rq_body_limit :: int
  rq_body :: "char list option"
  rq_method :: string
  rq_path :: string
  rq_headers :: "(string, string) dict"
  rq_context :: request_context
  rq_path_params :: "(string, string) dict"

text \<open>
  The constructor, as far as the request is read here: the method is upper-cased, header names are
  lower-cased and a later header of the same name replaces the earlier one.
\<close>

definition new_request ::
  "string \<Rightarrow> string \<Rightarrow> (string \<times> string) list \<Rightarrow> request_context \<Rightarrow> (string, string) dict \<Rightarrow> int \<Rightarrow> request" where
  "new_request m p hs ctx params limit =
     \<lparr>rq_body_limit = limit, rq_body = None, rq_method = upper m, rq_path = p,
      rq_headers = foldl (\<lambda>d h. dict_set (lower (fst h)) (snd h) d) [] hs,
      rq_context = ctx, rq_path_params = params\<rparr>"

text \<open>\<open>body()\<close> caches what it read, so a second call neither waits nor raises.\<close>

definition request_body :: "request \<Rightarrow> asgi_event list \<Rightarrow> (exn + char list \<times> request) option" where
  "request_body rq evs =
     (case rq_body rq of
        Some b \<Rightarrow> Some (Inr (b, rq))
      | None \<Rightarrow>
          (case read_body (rq_body_limit rq) [] 0 evs of
             None \<Rightarrow> None
           | Some (Inl e) \<Rightarrow> Some (Inl e)
           | Some (Inr b) \<Rightarrow> Some (Inr (b, rq\<lparr>rq_body := Some b\<rparr>))))"

text \<open>What a complete request sends: the chunks up to the first that announces no more.\<close>

fun sent_chunks :: "asgi_event list \<Rightarrow> char list list option" where
  "sent_chunks [] = None"
| "sent_chunks (HttpDisconnect # evs) = None"
| "sent_chunks (OtherEvent # evs) = sent_chunks evs"
| "sent_chunks (HttpRequest chunk mb # evs) =
     (if mb then map_option ((#) chunk) (sent_chunks evs) else Some [chunk])"

lemma read_body_ok:
  "read_body limit chunks sz evs = Some (Inr b) \<longleftrightarrow>
     (\<exists>cs. sent_chunks evs = Some cs \<and> sz + int (length (concat cs)) \<le> limit \<and> b = concat (chunks @ cs))"
proof (induction evs arbitrary: chunks sz)
  case (Cons ev evs)
  show ?case
  proof (cases ev)
    case (HttpRequest chunk mb)
    then show ?thesis using Cons.IH by (cases mb) auto
  qed (use Cons in auto)
qed simp

lemma read_body_too_large:
  "sent_chunks evs = Some cs \<Longrightarrow> sz \<le> limit \<Longrightarrow> limit < sz + int (length (concat cs)) \<Longrightarrow>
     read_body limit chunks sz evs =
       Some (Inl (BusinessOSError ''request_too_large'' ''Request body exceeds configured limit'' 413))"
proof (induction evs arbitrary: chunks sz cs)
  case (Cons ev evs)
  show ?case
  proof (cases ev)
    case (HttpRequest chunk mb)
    then show ?thesis using Cons.IH Cons.prems by (cases mb) (auto simp: add.assoc)
  qed (use Cons in auto)
qed simp

text \<open>
  C3: A request body is delivered whole or not at all: when the client completes its request the
  reader returns the concatenation of all its chunks if that fits the limit and raises the 413
  error otherwise, and whatever the events are, a returned body never exceeds the limit.
\<close>

theorem request_body_bounded:
  assumes "rq_body rq = None" and "0 \<le> rq_body_limit rq"
  shows "(\<forall>cs. sent_chunks evs = Some cs \<longrightarrow>
      request_body rq evs =
        (if int (length (concat cs)) \<le> rq_body_limit rq
         then Some (Inr (concat cs, rq\<lparr>rq_body := Some (concat cs)\<rparr>))
         else Some (Inl (BusinessOSError ''request_too_large'' ''Request body exceeds configured limit'' 413)))) \<and>
    (\<forall>b rq'. request_body rq evs = Some (Inr (b, rq')) \<longrightarrow>
      int (length b) \<le> rq_body_limit rq \<and> (\<forall>evs'. request_body rq' evs' = Some (Inr (b, rq'))))"
proof (intro conjI allI impI)
  fix cs assume cs: "sent_chunks evs = Some cs"
  show "request_body rq evs =
        (if int (length (concat cs)) \<le> rq_body_limit rq
         then Some (Inr (concat cs, rq\<lparr>rq_body := Some (concat cs)\<rparr>))
         else Some (Inl (BusinessOSError ''request_too_large'' ''Request body exceeds configured limit'' 413)))"
  proof (cases "int (length (concat cs)) \<le> rq_body_limit rq")
    case True
    then have "read_body (rq_body_limit rq) [] 0 evs = Some (Inr (concat cs))" using cs by (simp add: read_body_ok)
    then show ?thesis using assms True by (simp add: request_body_def)
  next
    case False
    with read_body_too_large [OF cs assms(2)] assms show ?thesis by (simp add: request_body_def)
  qed
next
  fix b rq' assume b: "request_body rq evs = Some (Inr (b, rq'))"
  then have r: "read_body (rq_body_limit rq) [] 0 evs = Some (Inr b)" "rq' = rq\<lparr>rq_body := Some b\<rparr>"
    using assms by (auto simp: request_body_def split: option.splits sum.splits)
  then show "int (length b) \<le> rq_body_limit rq" by (auto simp: read_body_ok)
  show "request_body rq' evs' = Some (Inr (b, rq'))" for evs' using r by (simp add: request_body_def)
qed

theorem request_body_bounded_witness:
  "\<exists>rq. request_body rq [HttpRequest ''ab'' True, OtherEvent, HttpRequest ''cd'' False] =
     Some (Inl (BusinessOSError ''request_too_large'' ''Request body exceeds configured limit'' 413))"
proof -
  let ?rq = "new_request ''post'' ''/u'' [] \<lparr>correlation_id = ''c'', trace_id = ''t'', tenant = None\<rparr> [] 3"
  have "rq_body ?rq = None" "0 \<le> rq_body_limit ?rq" by (simp_all add: new_request_def)
  from request_body_bounded [OF this, of "[HttpRequest ''ab'' True, OtherEvent, HttpRequest ''cd'' False]"]
  show ?thesis by (intro exI [of _ ?rq]) (simp add: new_request_def)
qed

section \<open>Responses\<close>

record response =
  status_code :: int
  body :: "char list"
  headers :: "(string, string) dict"
  additional_headers :: "(string \<times> string) list"

definition append_header :: "response \<Rightarrow> string \<Rightarrow> string \<Rightarrow> response" where
  "append_header r k v = r\<lparr>additional_headers := additional_headers r @ [(k, v)]\<rparr>"

text \<open>\<open>{"content-type": ct, **headers}\<close>: the caller's entries win.\<close>

definition merge_headers :: "string \<Rightarrow> (string, string) dict \<Rightarrow> (string, string) dict" where
  "merge_headers ct hs = foldl (\<lambda>d h. dict_set (fst h) (snd h) d) [(''content-type'', ct)] hs"

definition text_response :: "string \<Rightarrow> int \<Rightarrow> (string, string) dict \<Rightarrow> response" where
  "text_response content status hs = \<lparr>status_code = status, body = content,
     headers = merge_headers ''text/plain; charset=utf-8'' hs, additional_headers = []\<rparr>"

definition sent_headers :: "response \<Rightarrow> (string \<times> string) list" where
  "sent_headers r = map (\<lambda>(k, v). (lower k, v)) (headers r)
     @ map (\<lambda>(k, v). (lower k, v)) (additional_headers r)"

section \<open>Middleware\<close>

record 'm middleware_contribution =
  mc_name :: string
  mc_owner :: string
  mc_middleware :: 'm
  mc_generation :: generation

record 'm middleware_registry =
  mw_items :: "(string, 'm middleware_contribution) dict"

definition register_middleware ::
  "'m middleware_registry \<Rightarrow> 'm middleware_contribution \<Rightarrow> exn + 'm middleware_registry" where
  "register_middleware r c =
     (if dict_get (mw_items r) (mc_name c) \<noteq> None
      then Inl (ConflictError (''Middleware already registered: '' @ mc_name c))
      else Inr (r\<lparr>mw_items := dict_set (mc_name c) c (mw_items r)\<rparr>))"

definition active_middleware :: "gate \<Rightarrow> 'm middleware_registry \<Rightarrow> 'm list" where
  "active_middleware s r =
     map mc_middleware (filter (\<lambda>c. is_active s (Some (mc_generation c)))
       (map (\<lambda>n. the (dict_get (mw_items r) n)) (sorted_set (map fst (mw_items r)))))"

definition remove_middleware :: "'m middleware_registry \<Rightarrow> generation \<Rightarrow> 'm middleware_registry" where
  "remove_middleware r g = r\<lparr>mw_items := dict_keep (\<lambda>c. mc_generation c \<noteq> g) (mw_items r)\<rparr>"

interpretation mwr: dict_table mw_items mc_name "\<lambda>c. Some (mc_generation c)" register_middleware remove_middleware
  by unfold_locales (auto simp: register_middleware_def remove_middleware_def)

text \<open>
  \<open>compose_middleware\<close>: the loop over the reversed tuple that wraps the endpoint. A middleware is
  a function of the request and the next handler.
\<close>

definition compose_middleware :: "('q \<Rightarrow> ('q \<Rightarrow> 'r) \<Rightarrow> 'r) list \<Rightarrow> ('q \<Rightarrow> 'r) \<Rightarrow> 'q \<Rightarrow> 'r" where
  "compose_middleware ms endpoint = foldl (\<lambda>current item. \<lambda>q. item q current) endpoint (rev ms)"

text \<open>\<open>ContextMiddleware\<close>: \<open>setdefault\<close> leaves a correlation header the endpoint set.\<close>

definition context_middleware :: "request \<Rightarrow> (request \<Rightarrow> response) \<Rightarrow> response" where
  "context_middleware rq call_next =
     (let r = call_next rq
      in if dict_get (headers r) ''x-correlation-id'' = None
         then r\<lparr>headers := dict_set ''x-correlation-id'' (correlation_id (rq_context rq)) (headers r)\<rparr>
         else r)"

text \<open>The first middleware is the outermost: it decides alone what the rest of the chain sees.\<close>

lemma compose_middleware_Cons:
  "compose_middleware (m # ms) endpoint = (\<lambda>q. m q (compose_middleware ms endpoint))"
  by (simp add: compose_middleware_def)

lemma compose_middleware_append:
  "compose_middleware (ms @ ns) endpoint = compose_middleware ms (compose_middleware ns endpoint)"
  by (simp add: compose_middleware_def)

lemma compose_middleware_Nil [simp]: "compose_middleware [] endpoint = endpoint"
  by (simp add: compose_middleware_def)

lemma context_middleware_correlates:
  "dict_get (headers (context_middleware rq call_next)) ''x-correlation-id'' \<noteq> None"
  by (auto simp: context_middleware_def Let_def dict_get_set)

end
