(* ===== verification/Container.thy ===== *)
theory Container
  imports Manifest
begin

text \<open>
  The dependency container of \<open>platform/src/businessos/di.py\<close>: registration, the checks made at each
  resolution, and the wait graph that turns a deadlock between concurrent resolutions into an
  error. The wait graph counts, for every pair of keys, the resolutions of the first that are waiting
  for the second.
\<close>

section \<open>Keys and registrations\<close>

record dependency_key =
  dk_name :: string
  dk_required_owner :: "string option"

datatype dependency_scope = SINGLETON | REQUEST | TRANSIENT

text \<open>A gate is shared with every registry; \<open>rg_gated\<close> says whether the registration has one.\<close>

record 'p registration =
  rg_provider :: 'p
  rg_scope :: dependency_scope
  rg_owner :: "string option"
  rg_generation :: "generation option"
  rg_gated :: bool

record 'p container =
  registrations :: "(dependency_key, 'p registration) dict"
  closed :: bool

definition new_container :: "'p container" where
  "new_container = \<lparr>registrations = [], closed = False\<rparr>"

definition register_dependency ::
  "entitlements \<Rightarrow> 'p container \<Rightarrow> dependency_key \<Rightarrow> 'p registration \<Rightarrow> nat option \<Rightarrow> exn + 'p container" where
  "register_dependency ents c k rg ent =
     (if closed c then Inl (ConfigurationError ''Dependency container is closed'')
      else if dk_required_owner k \<noteq> None \<and> rg_owner rg \<noteq> dk_required_owner k
      then Inl (ConfigurationError ''Dependency key is reserved to another module owner'')
      else if dk_required_owner k \<noteq> None \<and>
              \<not> valid_entitlement ents ent (the (dk_required_owner k)) (rg_generation rg)
      then Inl (ConfigurationError ''Reserved dependency requires approved artifact'')
      else if dict_get (registrations c) k \<noteq> None
      then Inl (ConflictError (''Dependency already registered: '' @ dk_name k))
      else Inr (c\<lparr>registrations := dict_set k rg (registrations c)\<rparr>))"

text \<open>\<open>request_scope\<close> only checks that the container is open.\<close>

definition open_request_scope :: "'p container \<Rightarrow> exn + unit" where
  "open_request_scope c = raise_if (closed c) (ConfigurationError ''Dependency container is closed'')"

definition registration_active :: "gate \<Rightarrow> 'p registration \<Rightarrow> bool" where
  "registration_active s rg \<longleftrightarrow> (rg_gated rg \<longrightarrow> is_active s (rg_generation rg))"

definition validate_registration ::
  "gate \<Rightarrow> 'p container \<Rightarrow> dependency_key \<Rightarrow> 'p registration \<Rightarrow> exn + unit" where
  "validate_registration s c k rg =
     (if closed c \<or> dict_get (registrations c) k \<noteq> Some rg
      then Inl (ConfigurationError (''Dependency registration is no longer active: '' @ dk_name k))
      else if \<not> registration_active s rg
      then Inl (ConfigurationError (''Dependency is not active: '' @ dk_name k))
      else Inr ())"

text \<open>\<open>path\<close> is the context variable with the keys being resolved, outermost first.\<close>

definition registration_for_resolution ::
  "gate \<Rightarrow> 'p container \<Rightarrow> dependency_key list \<Rightarrow> dependency_key \<Rightarrow> exn + 'p registration" where
  "registration_for_resolution s c path k =
     (if closed c then Inl (ConfigurationError ''Dependency container is closed'')
      else
        (case dict_get (registrations c) k of
           None \<Rightarrow> Inl (ConfigurationError (''Dependency is not registered: '' @ dk_name k))
         | Some rg \<Rightarrow>
             if \<not> registration_active s rg
             then Inl (ConfigurationError (''Dependency is not active: '' @ dk_name k))
             else if k \<in> set path
             then Inl (ConfigurationError (''Dependency cycle detected: ''
                    @ join_with '' -> '' (map dk_name (dropWhile (\<lambda>x. x \<noteq> k) path @ [k]))))
             else Inr rg))"

text \<open>The scope rule of \<open>resolve_for_singleton\<close>.\<close>

definition singleton_may_capture ::
  "gate \<Rightarrow> 'p container \<Rightarrow> dependency_key list \<Rightarrow> dependency_key \<Rightarrow> dependency_key \<Rightarrow> exn + 'p registration" where
  "singleton_may_capture s c path k owner =
     (case registration_for_resolution s c path k of
        Inl e \<Rightarrow> Inl e
      | Inr rg \<Rightarrow>
          if rg_scope rg = REQUEST
          then Inl (ConfigurationError (''Singleton dependency '' @ quote @ dk_name owner @ quote
                 @ '' cannot capture request-scoped dependency '' @ quote @ dk_name k @ quote))
          else Inr rg)"

definition remove_registrations :: "'p container \<Rightarrow> generation \<Rightarrow> 'p container" where
  "remove_registrations c g =
     c\<lparr>registrations := dict_keep (\<lambda>rg. rg_generation rg \<noteq> Some g) (registrations c)\<rparr>"

section \<open>The wait graph\<close>

type_synonym wait_graph = "(dependency_key, (dependency_key, int) dict) dict"

definition remove_wait :: "wait_graph \<Rightarrow> dependency_key \<Rightarrow> dependency_key \<Rightarrow> wait_graph" where
  "remove_wait g source target =
     (case dict_get g source of
        None \<Rightarrow> g
      | Some waits \<Rightarrow>
          let count = (case dict_get waits target of None \<Rightarrow> 0 | Some n \<Rightarrow> n);
              waits' = (if count > 1 then dict_set target (count - 1) waits else dict_pop target waits)
          in if waits' = [] then dict_pop source g else dict_set source waits' g)"

definition successors :: "wait_graph \<Rightarrow> dependency_key \<Rightarrow> dependency_key list" where
  "successors g k = sort_key dk_name (case dict_get g k of None \<Rightarrow> [] | Some waits \<Rightarrow> map fst waits)"

text \<open>
  \<open>_wait_path\<close>: a depth-first search whose visited set is shared by all its calls, so it is passed
  along and returned. The first argument bounds the depth; a path visits every key of the graph at
  most once.
\<close>

fun wait_path ::
  "nat \<Rightarrow> wait_graph \<Rightarrow> dependency_key \<Rightarrow> dependency_key \<Rightarrow> dependency_key list \<Rightarrow>
   dependency_key list option \<times> dependency_key list"
and wait_paths ::
  "nat \<Rightarrow> wait_graph \<Rightarrow> dependency_key list \<Rightarrow> dependency_key \<Rightarrow> dependency_key list \<Rightarrow>
   dependency_key list option \<times> dependency_key list" where
  "wait_path 0 g current target visited = (None, visited)"
| "wait_path (Suc n) g current target visited =
     (if current = target then (Some [current], visited)
      else if current \<in> set visited then (None, visited)
      else (case wait_paths n g (successors g current) target (current # visited) of
              (Some p, v) \<Rightarrow> (Some (current # p), v)
            | (None, v) \<Rightarrow> (None, v)))"
| "wait_paths n g [] target visited = (None, visited)"
| "wait_paths n g (d # ds) target visited =
     (case wait_path n g d target visited of
        (Some p, v) \<Rightarrow> (Some p, v)
      | (None, v) \<Rightarrow> wait_paths n g ds target v)"

definition find_wait_path :: "wait_graph \<Rightarrow> dependency_key \<Rightarrow> dependency_key \<Rightarrow> dependency_key list option" where
  "find_wait_path g current target = fst (wait_path (Suc (length g)) g current target [])"

definition count_wait :: "wait_graph \<Rightarrow> dependency_key \<Rightarrow> dependency_key \<Rightarrow> wait_graph" where
  "count_wait g source target =
     (let waits = (case dict_get g source of None \<Rightarrow> [] | Some w \<Rightarrow> w);
          count = (case dict_get waits target of None \<Rightarrow> 0 | Some n \<Rightarrow> n)
      in dict_set source (dict_set target (count + 1) waits) g)"

text \<open>The graph is changed in place, so a failing operation also leaves one.\<close>

definition add_wait ::
  "wait_graph \<Rightarrow> dependency_key \<Rightarrow> dependency_key \<Rightarrow> wait_graph \<times> exn option" where
  "add_wait g source target =
     (let g1 = count_wait g source target
      in (case find_wait_path g1 target source of
            None \<Rightarrow> (g1, None)
          | Some p \<Rightarrow> (remove_wait g1 source target,
              Some (ConfigurationError (''Dependency cycle detected: ''
                @ join_with '' -> '' (map dk_name (source # p)))))))"

fun pairwise :: "'a list \<Rightarrow> ('a \<times> 'a) list" where
  "pairwise (x # y # ys) = (x, y) # pairwise (y # ys)"
| "pairwise xs = []"

definition remove_waits :: "wait_graph \<Rightarrow> (dependency_key \<times> dependency_key) list \<Rightarrow> wait_graph" where
  "remove_waits g edges = foldl (\<lambda>g (s, t). remove_wait g s t) g (rev edges)"

text \<open>The loop of \<open>_add_wait_chain\<close> with the edges added so far.\<close>

fun add_waits ::
  "wait_graph \<Rightarrow> (dependency_key \<times> dependency_key) list \<Rightarrow> (dependency_key \<times> dependency_key) list \<Rightarrow>
   wait_graph \<times> (exn + (dependency_key \<times> dependency_key) list)" where
  "add_waits g edges [] = (g, Inr edges)"
| "add_waits g edges ((s, t) # rest) =
     (case add_wait g s t of
        (g', None) \<Rightarrow> add_waits g' (edges @ [(s, t)]) rest
      | (g', Some e) \<Rightarrow> (remove_waits g' edges, Inl e))"

definition add_wait_chain ::
  "wait_graph \<Rightarrow> dependency_key list \<Rightarrow> dependency_key \<Rightarrow>
   wait_graph \<times> (exn + (dependency_key \<times> dependency_key) list)" where
  "add_wait_chain g ancestry target = add_waits g [] (pairwise (ancestry @ [target]))"

section \<open>Counts and edges\<close>

definition wait_count :: "wait_graph \<Rightarrow> dependency_key \<Rightarrow> dependency_key \<Rightarrow> int" where
  "wait_count g s t =
     (case dict_get g s of
        None \<Rightarrow> 0
      | Some w \<Rightarrow> (case dict_get w t of None \<Rightarrow> 0 | Some n \<Rightarrow> n))"

definition wait_ok :: "wait_graph \<Rightarrow> bool" where
  "wait_ok g \<longleftrightarrow> dict_ok g \<and>
     (\<forall>(s, w) \<in> set g. w \<noteq> [] \<and> dict_ok w \<and> (\<forall>(t, n) \<in> set w. 1 \<le> n))"

definition wait_edges :: "wait_graph \<Rightarrow> (dependency_key \<times> dependency_key) set" where
  "wait_edges g = {(s, t). t \<in> set (successors g s)}"

declare map_of_eq_Some_iff [simp del]

lemma wait_okD:
  assumes "wait_ok g"
  shows "dict_ok g" "dict_get g s = Some w \<Longrightarrow> w \<noteq> [] \<and> dict_ok w"
    and "dict_get g s = Some w \<Longrightarrow> dict_get w t = Some n \<Longrightarrow> 1 \<le> n"
  using assms unfolding wait_ok_def by (fastforce dest: map_of_SomeD)+

lemma wait_okI:
  "dict_ok g \<Longrightarrow> (\<And>s w. dict_get g s = Some w \<Longrightarrow> w \<noteq> [] \<and> dict_ok w \<and> (\<forall>t n. dict_get w t = Some n \<longrightarrow> 1 \<le> n)) \<Longrightarrow>
     wait_ok g"
  unfolding wait_ok_def by (fastforce simp: map_of_eq_Some_iff)

lemma set_successors: "set (successors g s) = {t. \<exists>w n. dict_get g s = Some w \<and> dict_get w t = Some n}"
  by (cases "dict_get g s") (simp_all add: successors_def set_eq_iff dict_keys_iff)

lemma wait_count_nonneg: "wait_ok g \<Longrightarrow> 0 \<le> wait_count g s t"
  using wait_okD(3) [of g s _ t]
  by (cases "dict_get g s"; cases "dict_get (the (dict_get g s)) t") (force simp: wait_count_def)+

lemma wait_edges_count: "wait_ok g \<Longrightarrow> (s, t) \<in> wait_edges g \<longleftrightarrow> 0 < wait_count g s t"
  using wait_okD(3) [of g s _ t]
  by (cases "dict_get g s"; cases "dict_get (the (dict_get g s)) t")
    (force simp: wait_edges_def set_successors wait_count_def)+

lemma count_wait_ok:
  assumes "wait_ok g"
  shows "wait_ok (count_wait g s t)"
    and "wait_count (count_wait g s t) s' t' = wait_count g s' t' + (if s' = s \<and> t' = t then 1 else 0)"
proof -
  let ?w = "case dict_get g s of None \<Rightarrow> [] | Some w \<Rightarrow> w"
  let ?n = "case dict_get ?w t of None \<Rightarrow> 0 | Some n \<Rightarrow> n"
  have w: "dict_ok ?w" "\<And>t n. dict_get ?w t = Some n \<Longrightarrow> 1 \<le> n"
    using wait_okD(2,3) [OF assms, of s] by (cases "dict_get g s"; auto)+
  have n: "0 \<le> ?n" using w(2) [of t] by (auto split: option.split)
  have eq: "count_wait g s t = dict_set s (dict_set t (?n + 1) ?w) g" by (simp add: count_wait_def Let_def)
  have ne: "dict_set t (?n + 1) ?w \<noteq> []" by (cases ?w) auto
  show "wait_ok (count_wait g s t)"
    unfolding eq
  proof (rule wait_okI)
    show "dict_ok (dict_set s (dict_set t (?n + 1) ?w) g)" using wait_okD(1) [OF assms] by simp
    show "v \<noteq> [] \<and> dict_ok v \<and> (\<forall>t n. dict_get v t = Some n \<longrightarrow> 1 \<le> n)"
      if v: "dict_get (dict_set s (dict_set t (?n + 1) ?w) g) s' = Some v" for s' v
    proof (cases "s' = s")
      case True
      with v have "v = dict_set t (?n + 1) ?w" by (simp add: dict_get_set)
      with ne w n show ?thesis by (auto simp: dict_get_set)
    next
      case False
      with v have "dict_get g s' = Some v" by (simp add: dict_get_set)
      with wait_okD(2,3) [OF assms, of s' v] show ?thesis by blast
    qed
  qed
  show "wait_count (count_wait g s t) s' t' = wait_count g s' t' + (if s' = s \<and> t' = t then 1 else 0)"
    unfolding eq wait_count_def by (auto simp: dict_get_set split: option.split)
qed

lemma remove_wait_ok:
  assumes "wait_ok g"
  shows "wait_ok (remove_wait g s t)"
    and "wait_count (remove_wait g s t) s' t' =
      (if s' = s \<and> t' = t then max 0 (wait_count g s t - 1) else wait_count g s' t')"
proof -
  show "wait_ok (remove_wait g s t)"
  proof (cases "dict_get g s")
    case None
    with assms show ?thesis by (simp add: remove_wait_def)
  next
    case (Some w)
    let ?n = "case dict_get w t of None \<Rightarrow> 0 | Some n \<Rightarrow> n"
    let ?w = "if ?n > 1 then dict_set t (?n - 1) w else dict_pop t w"
    have w: "dict_ok ?w" "\<And>t n. dict_get ?w t = Some n \<Longrightarrow> 1 \<le> n"
      using wait_okD(2,3) [OF assms Some] by (auto simp: dict_simps split: if_splits option.splits)
    have eq: "remove_wait g s t = (if ?w = [] then dict_pop s g else dict_set s ?w g)"
      by (simp add: remove_wait_def Some Let_def)
    show ?thesis
      unfolding eq
    proof (rule wait_okI)
      show "dict_ok (if ?w = [] then dict_pop s g else dict_set s ?w g)" using wait_okD(1) [OF assms] by simp
      show "v \<noteq> [] \<and> dict_ok v \<and> (\<forall>t n. dict_get v t = Some n \<longrightarrow> 1 \<le> n)"
        if v: "dict_get (if ?w = [] then dict_pop s g else dict_set s ?w g) s' = Some v" for s' v
      proof (cases "s' = s")
        case True
        with v have v': "v = ?w" "?w \<noteq> []" by (auto simp: dict_simps split: if_splits)
        show ?thesis unfolding v'(1) by (intro conjI allI impI v'(2) w(1)) (rule w(2))
      next
        case False
        with v have "dict_get g s' = Some v" by (simp add: dict_simps split: if_splits)
        with wait_okD(2,3) [OF assms, of s' v] show ?thesis by blast
      qed
    qed
  qed
  show "wait_count (remove_wait g s t) s' t' =
      (if s' = s \<and> t' = t then max 0 (wait_count g s t - 1) else wait_count g s' t')"
  proof (cases "dict_get g s")
    case None
    then show ?thesis by (auto simp: remove_wait_def wait_count_def)
  next
    case (Some w)
    let ?n = "case dict_get w t of None \<Rightarrow> 0 | Some n \<Rightarrow> n"
    define w' where "w' = (if ?n > 1 then dict_set t (?n - 1) w else dict_pop t w)"
    have eq: "remove_wait g s t = (if w' = [] then dict_pop s g else dict_set s w' g)"
      by (simp add: remove_wait_def Some Let_def w'_def)
    have c: "(case dict_get w' t' of None \<Rightarrow> 0 | Some n \<Rightarrow> n) =
        (if t' = t then max 0 (?n - 1) else (case dict_get w t' of None \<Rightarrow> 0 | Some n \<Rightarrow> n))"
      by (simp add: dict_simps w'_def)
    have "wait_count (remove_wait g s t) s t' = (case dict_get w' t' of None \<Rightarrow> 0 | Some n \<Rightarrow> n)"
      unfolding eq wait_count_def by (simp add: dict_simps)
    with c Some show ?thesis
      by (auto simp: wait_count_def eq dict_simps)
  qed
qed

section \<open>The search is exact\<close>

text \<open>
  Unvisited keys bound the depth. A search that fails leaves a visited set closed under the edges of
  what it added, without the target.
\<close>

abbreviation unvisited :: "wait_graph \<Rightarrow> dependency_key list \<Rightarrow> dependency_key set" where
  "unvisited g V \<equiv> set (map fst g) - set V"

lemma successors_key: "x \<in> set (successors g k) \<Longrightarrow> k \<in> set (map fst g)"
  unfolding set_map dict_keys_iff by (auto simp: set_successors)

definition search_failed :: "wait_graph \<Rightarrow> dependency_key \<Rightarrow> dependency_key list \<Rightarrow> dependency_key list \<Rightarrow> bool" where
  "search_failed g target V V' \<longleftrightarrow> set V \<subseteq> set V' \<and> target \<notin> set V' - set V \<and>
     (\<forall>x \<in> set V' - set V. set (successors g x) \<subseteq> set V')"

lemma search_failed_trans:
  assumes "search_failed g t V V1" "search_failed g t V1 V2"
  shows "search_failed g t V V2"
proof -
  have "set (successors g x) \<subseteq> set V2" if "x \<in> set V2 - set V" for x
  proof (cases "x \<in> set V1")
    case True
    with that assms have "set (successors g x) \<subseteq> set V1" "set V1 \<subseteq> set V2" by (simp_all add: search_failed_def)
    then show ?thesis by blast
  next
    case False
    with that assms(2) show ?thesis by (simp add: search_failed_def)
  qed
  with assms show ?thesis by (auto simp: search_failed_def)
qed

lemma wait_path_exact:
  shows "wait_path n g c t V = (r, V') \<Longrightarrow> card (unvisited g V) < n \<Longrightarrow>
     (case r of Some p \<Rightarrow> (c, t) \<in> (wait_edges g)\<^sup>* | None \<Rightarrow> search_failed g t V V' \<and> c \<in> set V' \<and> c \<noteq> t)"
    and "wait_paths n g ds t V = (r, V') \<Longrightarrow> ds = [] \<or> card (unvisited g V) < n \<Longrightarrow>
     (case r of Some p \<Rightarrow> \<exists>d \<in> set ds. (d, t) \<in> (wait_edges g)\<^sup>*
      | None \<Rightarrow> search_failed g t V V' \<and> set ds \<subseteq> set V')"
proof (induction n g c t V and n g ds t V arbitrary: r V' and r V' rule: wait_path_wait_paths.induct)
  case (1 g c t V)
  then show ?case by simp
next
  case (2 n g c t V)
  show ?case
  proof (cases "c = t \<or> c \<in> set V")
    case True
    with 2 show ?thesis by (auto simp: search_failed_def split: if_splits)
  next
    case False
    obtain r1 V1 where ps: "wait_paths n g (successors g c) t (c # V) = (r1, V1)" by fastforce
    have "successors g c = [] \<or> card (unvisited g (c # V)) < n"
    proof (cases "c \<in> set (map fst g)")
      case True
      then have "unvisited g (c # V) = unvisited g V - {c}" "c \<in> unvisited g V" using False by auto
      then have "card (unvisited g (c # V)) < card (unvisited g V)" by (metis List.finite_set card_Diff1_less finite_Diff)
      with 2(3) show ?thesis by simp
    next
      case False
      have "x \<notin> set (successors g c)" for x using False successors_key by metis
      then have "successors g c = []" by (metis list.set_intros(1) neq_Nil_conv)
      then show ?thesis by simp
    qed
    note ih = 2(1) [OF _ _ ps this]
    show ?thesis
    proof (cases r1)
      case (Some p)
      with ps 2(2) False have "r = Some (c # p)" by simp
      moreover obtain d where "d \<in> set (successors g c)" "(d, t) \<in> (wait_edges g)\<^sup>*"
        using ih False Some by auto
      ultimately show ?thesis by (auto simp: wait_edges_def intro: converse_rtrancl_into_rtrancl)
    next
      case None
      with ps 2(2) False have r: "r = None" "V' = V1" by simp_all
      have "search_failed g t (c # V) V1" "set (successors g c) \<subseteq> set V1" using ih False None by auto
      then have "search_failed g t V V1" "c \<in> set V1" using False by (auto simp: search_failed_def)
      with r False show ?thesis by simp
    qed
  qed
next
  case (3 n g t V)
  then show ?case by (simp add: search_failed_def)
next
  case (4 n g d ds t V)
  obtain r1 V1 where p: "wait_path n g d t V = (r1, V1)" by fastforce
  have n: "card (unvisited g V) < n" using 4(4) by simp
  note ih1 = 4(1) [OF p n]
  show ?case
  proof (cases r1)
    case (Some q)
    with p 4(3) ih1 show ?thesis by auto
  next
    case None
    then have f1: "search_failed g t V V1" "d \<in> set V1" using ih1 by auto
    have rest: "wait_paths n g ds t V1 = (r, V')" using p None 4(3) by simp
    have "unvisited g V1 \<subseteq> unvisited g V" using f1 by (auto simp: search_failed_def)
    then have "card (unvisited g V1) < n" using n by (meson List.finite_set card_mono finite_Diff le_less_trans)
    then have ih2: "case r of Some p \<Rightarrow> \<exists>d \<in> set ds. (d, t) \<in> (wait_edges g)\<^sup>*
        | None \<Rightarrow> search_failed g t V1 V' \<and> set ds \<subseteq> set V'"
      using 4(2) [OF p [symmetric] None rest] by blast
    show ?thesis
    proof (cases r)
      case (Some q)
      with ih2 show ?thesis by auto
    next
      case r: None
      with ih2 have f2: "search_failed g t V1 V'" "set ds \<subseteq> set V'" by simp_all
      have "search_failed g t V V'" using search_failed_trans f1(1) f2(1) by blast
      moreover have "set (d # ds) \<subseteq> set V'" using f1(2) f2 by (auto simp: search_failed_def)
      ultimately have "search_failed g t V V'" "set (d # ds) \<subseteq> set V'" .
      with r show ?thesis by simp
    qed
  qed
qed

lemma find_wait_path_exact: "find_wait_path g c t \<noteq> None \<longleftrightarrow> (c, t) \<in> (wait_edges g)\<^sup>*"
proof -
  obtain r V where r: "wait_path (Suc (length g)) g c t [] = (r, V)" by fastforce
  have "card (unvisited g []) < Suc (length g)"
    using card_length [of "map fst g"] by (simp add: le_imp_less_Suc)
  note ex = wait_path_exact(1) [OF r this]
  show ?thesis
  proof (cases r)
    case (Some p)
    with ex r show ?thesis by (simp add: find_wait_path_def)
  next
    case None
    then have f: "search_failed g t [] V" "c \<in> set V" using ex by auto
    have "x \<in> set V" if "(c, x) \<in> (wait_edges g)\<^sup>*" for x
      using that by induction (use f in \<open>auto simp: search_failed_def wait_edges_def\<close>)
    moreover have "t \<notin> set V" using f by (simp add: search_failed_def)
    ultimately show ?thesis using r None by (auto simp: find_wait_path_def)
  qed
qed

section \<open>Adding and removing waits\<close>

text \<open>Two graphs with the same counts are the same graph to every operation but the message.\<close>

definition same_waits :: "wait_graph \<Rightarrow> wait_graph \<Rightarrow> bool" where
  "same_waits g h \<longleftrightarrow> (\<forall>s t. wait_count g s t = wait_count h s t)"

lemma same_waits_edges: "wait_ok g \<Longrightarrow> wait_ok h \<Longrightarrow> same_waits g h \<Longrightarrow> wait_edges g = wait_edges h"
  using wait_edges_count by (fastforce simp: same_waits_def)

lemma edges_count_wait: "wait_ok g \<Longrightarrow> wait_edges (count_wait g s t) = insert (s, t) (wait_edges g)"
  using wait_edges_count [OF count_wait_ok(1), of g] count_wait_ok(2) wait_edges_count wait_count_nonneg
  by (auto simp: set_eq_iff)

lemma add_wait_exact:
  assumes ok: "wait_ok g" and a: "add_wait g s t = (g', e)"
  shows "wait_ok g' \<and> (e = None \<longleftrightarrow> (t, s) \<notin> (wait_edges g)\<^sup>*) \<and>
    (e \<noteq> None \<longrightarrow> same_waits g' g) \<and> (e = None \<longrightarrow> g' = count_wait g s t)"
proof -
  let ?g1 = "count_wait g s t"
  have g1: "wait_ok ?g1" "wait_edges ?g1 = insert (s, t) (wait_edges g)"
    using count_wait_ok(1) [OF ok] edges_count_wait [OF ok] by simp_all
  have reach: "(t, s) \<in> (wait_edges ?g1)\<^sup>* \<longleftrightarrow> (t, s) \<in> (wait_edges g)\<^sup>*"
    unfolding g1(2) by (metis rtrancl_insert rtrancl.rtrancl_refl Un_iff mem_Collect_eq case_prodD)
  have same: "same_waits (remove_wait ?g1 s t) g"
    using remove_wait_ok(2) [OF g1(1)] count_wait_ok(2) [OF ok] wait_count_nonneg [OF ok]
    by (auto simp: same_waits_def)
  show ?thesis
  proof (cases "find_wait_path ?g1 t s")
    case None
    with a find_wait_path_exact [of ?g1 t s] reach g1(1) show ?thesis by (auto simp: add_wait_def)
  next
    case (Some p)
    with a find_wait_path_exact [of ?g1 t s] reach remove_wait_ok(1) [OF g1(1), of s t] same
    show ?thesis by (auto simp: add_wait_def)
  qed
qed

lemma acyclic_add:
  assumes "wait_ok g" "acyclic (wait_edges g)" "add_wait g s t = (g', None)"
  shows "acyclic (wait_edges g')"
  using add_wait_exact [OF assms(1,3)] edges_count_wait [OF assms(1)] assms(2) by simp

lemma edges_remove: "wait_ok g \<Longrightarrow> wait_edges (remove_wait g s t) \<subseteq> wait_edges g"
  using wait_edges_count [OF remove_wait_ok(1), of g] remove_wait_ok(2) wait_edges_count wait_count_nonneg
  by (fastforce split: if_splits)

lemma remove_waits_ok: "wait_ok g \<Longrightarrow> wait_ok (remove_waits g es) \<and> wait_edges (remove_waits g es) \<subseteq> wait_edges g"
proof -
  have "wait_ok g \<Longrightarrow> wait_ok (foldl (\<lambda>g (s, t). remove_wait g s t) g xs) \<and>
      wait_edges (foldl (\<lambda>g (s, t). remove_wait g s t) g xs) \<subseteq> wait_edges g" for xs
  proof (induction xs arbitrary: g)
    case (Cons x xs)
    obtain s t where x: "x = (s, t)" by fastforce
    from Cons.IH [OF remove_wait_ok(1) [OF Cons.prems]] edges_remove [OF Cons.prems] show ?case
      by (fastforce simp: x)
  qed simp
  then show "wait_ok g \<Longrightarrow> wait_ok (remove_waits g es) \<and> wait_edges (remove_waits g es) \<subseteq> wait_edges g"
    by (simp add: remove_waits_def)
qed

text \<open>Removing edges that were counted gives back the counts from before.\<close>

definition edge_count :: "(dependency_key \<times> dependency_key) list \<Rightarrow> dependency_key \<Rightarrow> dependency_key \<Rightarrow> int" where
  "edge_count es s t = int (length (filter (\<lambda>e. e = (s, t)) es))"

lemma remove_waits_count:
  assumes "wait_ok g" "\<And>s t. edge_count es s t \<le> wait_count g s t"
  shows "wait_count (remove_waits g es) s t = wait_count g s t - edge_count es s t"
proof -
  have "wait_ok g \<Longrightarrow> (\<And>s t. edge_count xs s t \<le> wait_count g s t) \<Longrightarrow>
      wait_count (foldl (\<lambda>g (s, t). remove_wait g s t) g xs) s t = wait_count g s t - edge_count xs s t" for xs
  proof (induction xs arbitrary: g)
    case (Cons x xs)
    obtain a b where x: "x = (a, b)" by fastforce
    have c: "edge_count (x # xs) s t = edge_count xs s t + (if s = a \<and> t = b then 1 else 0)" for s t
      by (simp add: edge_count_def x)
    have pos: "1 \<le> wait_count g a b" using Cons.prems(2) [of a b] c [of a b] by (simp add: edge_count_def)
    have r: "wait_count (remove_wait g a b) s t = wait_count g s t - (if s = a \<and> t = b then 1 else 0)" for s t
      using remove_wait_ok(2) [OF Cons.prems(1), of a b s t] pos by auto
    have "wait_count (foldl (\<lambda>g (s, t). remove_wait g s t) (remove_wait g a b) xs) s t
        = wait_count (remove_wait g a b) s t - edge_count xs s t"
    proof (rule Cons.IH [OF remove_wait_ok(1) [OF Cons.prems(1)]])
      show "edge_count xs s t \<le> wait_count (remove_wait g a b) s t" for s t
        using Cons.prems(2) [of s t] c [of s t] r [of s t] by auto
    qed
    then show ?case using r [of s t] c [of s t] by (simp add: x)
  qed (simp add: edge_count_def)
  moreover have "edge_count (rev es) s t = edge_count es s t" for s t
    by (simp add: edge_count_def rev_filter [symmetric])
  ultimately show ?thesis using assms by (simp add: remove_waits_def)
qed

lemma add_waits_exact:
  "wait_ok g \<Longrightarrow> acyclic (wait_edges g) \<Longrightarrow> (\<And>s t. edge_count es s t \<le> wait_count g s t) \<Longrightarrow>
     add_waits g es todo = (g', r) \<Longrightarrow>
     wait_ok g' \<and> acyclic (wait_edges g') \<and>
     (case r of
        Inl e \<Rightarrow> (\<forall>s t. wait_count g' s t = wait_count g s t - edge_count es s t)
      | Inr es' \<Rightarrow> es' = es @ todo \<and> (\<forall>s t. wait_count g' s t = wait_count g s t + edge_count todo s t))"
proof (induction g es todo arbitrary: g' r rule: add_waits.induct)
  case (1 g es)
  then show ?case by (auto simp: edge_count_def)
next
  case (2 g es s t rest)
  obtain g1 e where a: "add_wait g s t = (g1, e)" by fastforce
  note ex = add_wait_exact [OF "2.prems"(1) a]
  show ?case
  proof (cases e)
    case None
    then have g1: "g1 = count_wait g s t" using ex by simp
    have c: "wait_count g1 x y = wait_count g x y + (if x = s \<and> y = t then 1 else 0)" for x y
      using count_wait_ok(2) [OF "2.prems"(1)] by (simp add: g1)
    have "edge_count (es @ [(s, t)]) x y \<le> wait_count g1 x y" for x y
      using "2.prems"(3) [of x y] c [of x y] by (auto simp: edge_count_def)
    moreover have "acyclic (wait_edges g1)" using acyclic_add [OF "2.prems"(1,2)] a None by simp
    moreover have "add_waits g1 (es @ [(s, t)]) rest = (g', r)" using "2.prems"(4) a None by simp
    ultimately have ih: "wait_ok g' \<and> acyclic (wait_edges g') \<and>
       (case r of
          Inl e \<Rightarrow> (\<forall>x y. wait_count g' x y = wait_count g1 x y - edge_count (es @ [(s, t)]) x y)
        | Inr es' \<Rightarrow> es' = (es @ [(s, t)]) @ rest \<and> (\<forall>x y. wait_count g' x y = wait_count g1 x y + edge_count rest x y))"
      using "2.IH" [OF a [symmetric] None] ex by blast
    show ?thesis
    proof (cases r)
      case (Inl x)
      with ih c show ?thesis by (auto simp: edge_count_def)
    next
      case (Inr x)
      with ih c show ?thesis by (auto simp: edge_count_def)
    qed
  next
    case (Some x)
    then have g1: "wait_ok g1" "same_waits g1 g" using ex by auto
    have r: "g' = remove_waits g1 es" "r = Inl x" using "2.prems"(4) a Some by simp_all
    have "wait_count (remove_waits g1 es) s t = wait_count g1 s t - edge_count es s t" for s t
      using g1 "2.prems"(3) by (intro remove_waits_count) (simp_all add: same_waits_def)
    moreover have "acyclic (wait_edges g')"
      using remove_waits_ok [OF g1(1), of es] same_waits_edges [OF g1(1) "2.prems"(1) g1(2)] "2.prems"(2)
      by (auto simp: r intro: acyclic_subset)
    ultimately show ?thesis using remove_waits_ok [OF g1(1), of es] g1(2) by (simp add: r same_waits_def)
  qed
qed

section \<open>No deadlock\<close>

text \<open>
  Histories of resolutions: a resolution enters with the chain of its ancestors and its target, waits,
  and finally removes the edges its chain added; resolutions overlap freely. \<open>open_chains\<close> holds the
  edge lists of the resolutions that are waiting.
\<close>

inductive waiting :: "wait_graph \<Rightarrow> (dependency_key \<times> dependency_key) list list \<Rightarrow> bool" where
  waiting_new: "waiting [] []"
| waiting_enter: "waiting g open_chains \<Longrightarrow> add_wait_chain g path k = (g', Inr es) \<Longrightarrow> waiting g' (es # open_chains)"
| waiting_refused: "waiting g open_chains \<Longrightarrow> add_wait_chain g path k = (g', Inl e) \<Longrightarrow> waiting g' open_chains"
| waiting_leave: "waiting g (xs @ es # ys) \<Longrightarrow> waiting (remove_waits g es) (xs @ ys)"

lemma waiting_inv:
  "waiting g open_chains \<Longrightarrow> wait_ok g \<and> acyclic (wait_edges g) \<and>
     (\<forall>s t. wait_count g s t = edge_count (concat open_chains) s t)"
proof (induction rule: waiting.induct)
  case waiting_new
  show ?case by (simp add: wait_ok_def wait_count_def edge_count_def wait_edges_def successors_def acyclic_def)
next
  case (waiting_enter g open_chains path k g' es)
  then have g: "wait_ok g" "acyclic (wait_edges g)" by auto
  have "wait_ok g' \<and> acyclic (wait_edges g') \<and> es = pairwise (path @ [k]) \<and>
      (\<forall>s t. wait_count g' s t = wait_count g s t + edge_count (pairwise (path @ [k])) s t)"
    using add_waits_exact [OF g, of "[]" "pairwise (path @ [k])" g' "Inr es"] waiting_enter.hyps(2)
      wait_count_nonneg [OF g(1)] by (simp add: add_wait_chain_def edge_count_def)
  with waiting_enter.IH show ?case by (simp add: edge_count_def)
next
  case (waiting_refused g open_chains path k g' e)
  then have g: "wait_ok g" "acyclic (wait_edges g)" by auto
  have "wait_ok g' \<and> acyclic (wait_edges g') \<and> (\<forall>s t. wait_count g' s t = wait_count g s t - edge_count [] s t)"
    using add_waits_exact [OF g, of "[]" "pairwise (path @ [k])" g' "Inl e"] waiting_refused.hyps(2)
      wait_count_nonneg [OF g(1)] by (simp add: add_wait_chain_def edge_count_def)
  with waiting_refused.IH show ?case by (simp add: edge_count_def)
next
  case (waiting_leave g xs es ys)
  then have g: "wait_ok g" "acyclic (wait_edges g)"
    and c: "wait_count g s t = edge_count (concat (xs @ es # ys)) s t" for s t by auto
  have "wait_count (remove_waits g es) s t = wait_count g s t - edge_count es s t" for s t
    by (rule remove_waits_count [OF g(1)]) (simp add: c edge_count_def)
  with remove_waits_ok [OF g(1), of es] g(2) show ?case
    by (auto simp: c edge_count_def intro: acyclic_subset)
qed

text \<open>
  C8: Concurrent resolutions never wait for each other in a circle: in every state that any
  interleaving of resolutions reaches, the wait graph has no cycle and counts exactly the edges of
  the resolutions that are waiting, so it is empty once all of them are done; and a resolution is
  refused only if its own chain of keys, together with the waits already there, closes a cycle.
\<close>

theorem wait_graph_never_cyclic:
  assumes w: "waiting g open_chains"
  shows "acyclic (wait_edges g) \<and> (\<forall>s t. wait_count g s t = edge_count (concat open_chains) s t) \<and>
    (open_chains = [] \<longrightarrow> wait_edges g = {}) \<and>
    (\<forall>path k g' e. add_wait_chain g path k = (g', Inl e) \<longrightarrow>
       same_waits g' g \<and> \<not> acyclic (wait_edges g \<union> set (pairwise (path @ [k]))))"
proof (intro conjI allI impI)
  note inv = waiting_inv [OF w]
  then have g: "wait_ok g" "acyclic (wait_edges g)" by auto
  show "acyclic (wait_edges g)" by (rule g(2))
  show "wait_count g s t = edge_count (concat open_chains) s t" for s t using inv by blast
  show "wait_edges g = {}" if "open_chains = []"
    using inv that wait_edges_count [OF g(1)] by (auto simp: edge_count_def)
  fix path k g' e assume a: "add_wait_chain g path k = (g', Inl e)"
  then show "same_waits g' g"
    using add_waits_exact [OF g, of "[]" "pairwise (path @ [k])" g' "Inl e"] wait_count_nonneg [OF g(1)]
    by (simp add: add_wait_chain_def edge_count_def same_waits_def)
  have "wait_ok h \<Longrightarrow> add_waits h es todo = (g', Inl e) \<Longrightarrow> \<not> acyclic (wait_edges h \<union> set todo)" for h es todo
  proof (induction h es todo rule: add_waits.induct)
    case (2 h es s t rest)
    obtain h1 e1 where a1: "add_wait h s t = (h1, e1)" by fastforce
    note ex = add_wait_exact [OF "2.prems"(1) a1]
    show ?case
    proof (cases e1)
      case None
      then have "wait_edges h1 = insert (s, t) (wait_edges h)" "wait_ok h1"
        using ex edges_count_wait [OF "2.prems"(1)] by auto
      with "2.IH" [OF a1 [symmetric] None] "2.prems"(2) a1 None show ?thesis by simp
    next
      case (Some x)
      then have "(t, s) \<in> (wait_edges h)\<^sup>*" using ex by simp
      then have "(t, s) \<in> (wait_edges h \<union> set ((s, t) # rest))\<^sup>*"
        by (rule rtrancl_mono [THEN subsetD, rotated]) auto
      then have "(s, s) \<in> (wait_edges h \<union> set ((s, t) # rest))\<^sup>+"
        by (rule rtrancl_into_trancl2 [rotated]) simp
      then show ?thesis by (auto simp: acyclic_def)
    qed
  qed simp
  from this [OF g(1)] a show "\<not> acyclic (wait_edges g \<union> set (pairwise (path @ [k])))"
    unfolding add_wait_chain_def by blast
qed

definition demo_key :: "string \<Rightarrow> dependency_key" where
  "demo_key n = \<lparr>dk_name = n, dk_required_owner = None\<rparr>"

lemma demo_wait: "add_wait_chain [] [demo_key ''a''] (demo_key ''b'') =
    ([(demo_key ''a'', [(demo_key ''b'', 1)])], Inr [(demo_key ''a'', demo_key ''b'')])"
  by (simp add: add_wait_chain_def add_wait_def count_wait_def find_wait_path_def successors_def demo_key_def)

theorem wait_graph_never_cyclic_witness:
  "\<exists>g. waiting g [[(demo_key ''a'', demo_key ''b'')]] \<and> wait_count g (demo_key ''a'') (demo_key ''b'') = 1 \<and>
     same_waits (fst (add_wait_chain g [demo_key ''b''] (demo_key ''a''))) g"
proof -
  let ?g = "[(demo_key ''a'', [(demo_key ''b'', 1)])]"
  have w: "waiting ?g [[(demo_key ''a'', demo_key ''b'')]]" by (rule waiting_enter [OF waiting_new demo_wait])
  obtain e where r: "add_wait_chain ?g [demo_key ''b''] (demo_key ''a'') =
      (fst (add_wait_chain ?g [demo_key ''b''] (demo_key ''a'')), Inl e)"
    by (simp add: add_wait_chain_def add_wait_def count_wait_def find_wait_path_def successors_def demo_key_def
        remove_waits_def)
  from wait_graph_never_cyclic [OF w] r have "same_waits (fst (add_wait_chain ?g [demo_key ''b''] (demo_key ''a''))) ?g"
    and "wait_count ?g (demo_key ''a'') (demo_key ''b'') = edge_count (concat [[(demo_key ''a'', demo_key ''b'')]]) (demo_key ''a'') (demo_key ''b'')"
    by blast+
  with w show ?thesis by (intro exI [of _ ?g]) (simp add: edge_count_def)
qed

section \<open>The table contract\<close>

text \<open>
  Registrations as a table of pairs of key and registration, for keys without a required owner
  and an open container.
\<close>

definition add_registration :: "'p container \<Rightarrow> dependency_key \<times> 'p registration \<Rightarrow> exn + 'p container" where
  "add_registration c e =
     (if dict_get (registrations c) (fst e) \<noteq> None
      then Inl (ConflictError (''Dependency already registered: '' @ dk_name (fst e)))
      else Inr (c\<lparr>registrations := dict_set (fst e) (snd e) (registrations c)\<rparr>))"

lemma register_dependency_Inr:
  "register_dependency ents c k rg ent = Inr c' \<longleftrightarrow>
     \<not> closed c \<and> add_registration c (k, rg) = Inr c' \<and>
     (\<forall>o'. dk_required_owner k = Some o' \<longrightarrow> rg_owner rg = Some o' \<and> valid_entitlement ents ent o' (rg_generation rg))"
  by (auto simp: register_dependency_def add_registration_def)

text \<open>
  C9: A key reserved to a module owner is never provided by anyone else: a registration under it
  succeeds only for that owner, with an entitlement that was issued for the owner and the very
  generation of the registration; and no registration ever replaces another.
\<close>

theorem reserved_dependency_protected:
  assumes "register_dependency ents c k rg ent = Inr c'"
  shows "dict_get (registrations c) k = None \<and>
    dict_get (registrations c') = (dict_get (registrations c))(k \<mapsto> rg) \<and>
    (\<forall>o'. dk_required_owner k = Some o' \<longrightarrow>
       rg_owner rg = Some o' \<and> (\<exists>i g. ent = Some i \<and> rg_generation rg = Some g \<and> dict_get (issued ents) i = Some (o', g)))"
proof -
  from assms have a: "add_registration c (k, rg) = Inr c'"
    and v: "\<And>o'. dk_required_owner k = Some o' \<Longrightarrow> rg_owner rg = Some o' \<and> valid_entitlement ents ent o' (rg_generation rg)"
    by (simp_all add: register_dependency_Inr)
  have "\<exists>i g. ent = Some i \<and> rg_generation rg = Some g \<and> dict_get (issued ents) i = Some (o', g)"
    if "valid_entitlement ents ent o' (rg_generation rg)" for o'
    using that by (auto simp: valid_entitlement_def split: option.splits)
  with a v show ?thesis by (auto simp: add_registration_def dict_get_set fun_upd_def split: if_splits)
qed

theorem reserved_dependency_protected_witness:
  "\<exists>c'. register_dependency \<lparr>issued = [(0, (''m'', \<lparr>gen_owner = ''m'', gen_number = 1\<rparr>))], next_entitlement = 1\<rparr>
     new_container \<lparr>dk_name = ''k'', dk_required_owner = Some ''m''\<rparr>
     \<lparr>rg_provider = (), rg_scope = REQUEST, rg_owner = Some ''m'',
      rg_generation = Some \<lparr>gen_owner = ''m'', gen_number = 1\<rparr>, rg_gated = True\<rparr> (Some 0) = Inr c' \<and>
     dict_get (registrations c') \<lparr>dk_name = ''k'', dk_required_owner = Some ''m''\<rparr> \<noteq> None"
proof -
  let ?ents = "\<lparr>issued = [(0, (''m'', \<lparr>gen_owner = ''m'', gen_number = 1\<rparr>))], next_entitlement = 1\<rparr>"
  let ?k = "\<lparr>dk_name = ''k'', dk_required_owner = Some ''m''\<rparr>"
  let ?rg = "\<lparr>rg_provider = (), rg_scope = REQUEST, rg_owner = Some ''m'',
      rg_generation = Some \<lparr>gen_owner = ''m'', gen_number = 1\<rparr>, rg_gated = True\<rparr>"
  obtain c' where c': "register_dependency ?ents new_container ?k ?rg (Some 0) = Inr c'"
    by (simp add: register_dependency_def new_container_def valid_entitlement_def)
  with reserved_dependency_protected [OF c'] show ?thesis by auto
qed

end
