(* ===== verification/Metadata.thy ===== *)
theory Metadata
  imports Registries Json "HOL-Library.Product_Lexorder"
begin

text \<open>
  The metadata catalogue of \<open>platform/src/businessos/metadata.py\<close>: declarations with the module
  version, dependencies and artifact they came from, and the admitted snapshots: a selection that holds
  an admission on every source and every dependency and is validated again before it is relied on.
\<close>

section \<open>The registry\<close>

record metadata_declaration =
  md_key :: string
  md_kind :: string
  md_version :: int
  md_value :: "(string, json) dict"

definition metadata_declaration_ok :: "metadata_declaration \<Rightarrow> bool" where
  "metadata_declaration_ok d \<longleftrightarrow>
     (case md_key d of
        [] \<Rightarrow> False
      | c # cs \<Rightarrow> is_lower c \<and> cs \<noteq> [] \<and>
          list_all (\<lambda>c. is_lower c \<or> is_digit c \<or> c \<in> set ''_.-'') cs) \<and>
     1 \<le> length (md_kind d) \<and> length (md_kind d) \<le> 100 \<and> 1 \<le> md_version d"

type_synonym profile = "string \<times> (string \<times> string) list"
type_synonym artifact_ref = "string \<times> int option"

record metadata_registry =
  mr_values :: "metadata_declaration registry"
  mr_profiles :: "(string, profile) dict"
  mr_artifacts :: "(generation, artifact_ref) dict"

definition new_metadata_registry :: metadata_registry where
  "new_metadata_registry = \<lparr>mr_values = new_registry ''metadata'', mr_profiles = [], mr_artifacts = []\<rparr>"

definition bind_artifact :: "metadata_registry \<Rightarrow> generation \<Rightarrow> string \<Rightarrow> int option \<Rightarrow> exn + metadata_registry" where
  "bind_artifact r g identity durable =
     (if identity = '''' \<or> dict_get (mr_artifacts r) g \<noteq> None
      then Inl (ValueError ''Metadata artifact provenance cannot be rebound'')
      else if durable \<noteq> None \<and> \<not> (1 \<le> the durable \<and> the durable \<le> 2 ^ 63 - 1)
      then Inl (ValueError ''Invalid durable artifact generation'')
      else Inr (r\<lparr>mr_artifacts := dict_set g (identity, durable) (mr_artifacts r)\<rparr>))"

definition add_metadata ::
  "metadata_registry \<Rightarrow> string \<Rightarrow> metadata_declaration \<Rightarrow> generation option \<Rightarrow> string \<Rightarrow> (string \<times> string) list \<Rightarrow>
   exn + metadata_registry" where
  "add_metadata r owner d go module_version deps =
     (case register (mr_values r) (md_key d) owner d go of
        Inl e \<Rightarrow> Inl e
      | Inr vs \<Rightarrow> Inr (r\<lparr>mr_values := vs, mr_profiles := dict_set (md_key d) (module_version, sort deps) (mr_profiles r)\<rparr>))"

definition remove_metadata :: "metadata_registry \<Rightarrow> generation \<Rightarrow> metadata_registry" where
  "remove_metadata r g =
     (let vs = remove_owner_generation (mr_values r) g
      in \<lparr>mr_values = vs,
          mr_profiles = filter (\<lambda>e. fst e \<in> set (map fst (reg_values vs))) (mr_profiles r),
          mr_artifacts = dict_pop g (mr_artifacts r)\<rparr>)"

text \<open>\<open>self._profiles[name]\<close> and \<open>self._artifacts.get(generation, ("", None))\<close>.\<close>

definition profile_of :: "metadata_registry \<Rightarrow> string \<Rightarrow> profile" where
  "profile_of r name = the (dict_get (mr_profiles r) name)"

definition artifact_of :: "metadata_registry \<Rightarrow> generation \<Rightarrow> artifact_ref" where
  "artifact_of r g = (case dict_get (mr_artifacts r) g of None \<Rightarrow> ('''', None) | Some a \<Rightarrow> a)"

section \<open>Admitted snapshots\<close>

record snapshot =
  sn_key :: string
  sn_kind :: string
  sn_version :: int
  sn_owner :: string
  sn_generation :: generation
  sn_module_version :: string
  sn_dependencies :: "(string \<times> string) list"
  sn_document :: string
  sn_dependency_generations :: "generation list"
  sn_artifact :: artifact_ref
  sn_dependency_artifacts :: "(string \<times> artifact_ref) list"

definition select_entries ::
  "gate option \<Rightarrow> metadata_registry \<Rightarrow> string \<Rightarrow> string \<Rightarrow> string \<Rightarrow> metadata_declaration owned_value list" where
  "select_entries gt r prefix discriminator v =
     filter (\<lambda>e. starts_with prefix (md_kind (ov_value e)) \<and>
                 dict_get (md_value (ov_value e)) discriminator = Some (JStr v))
       (entries gt (mr_values r) False)"

text \<open>The loop that finds the active generation of every dependency of the selection.\<close>

definition dependency_generation :: "gate \<Rightarrow> (string, generation) dict \<Rightarrow> string \<Rightarrow> exn + (string, generation) dict" where
  "dependency_generation s d owner =
     (case active_generation s owner of Inl e \<Rightarrow> Inl e | Inr g \<Rightarrow> Inr (dict_set owner g d))"

definition dependency_generations ::
  "gate option \<Rightarrow> metadata_registry \<Rightarrow> metadata_declaration owned_value list \<Rightarrow> exn + (string, generation) dict" where
  "dependency_generations gt r es =
     (case gt of
        None \<Rightarrow> (if list_ex (\<lambda>e. snd (profile_of r (ov_name e)) \<noteq> []) es
                 then Inl (ValueError ''Metadata dependencies require lifecycle admission'') else Inr [])
      | Some s \<Rightarrow> fold_res (dependency_generation s) [] (concat (map (\<lambda>e. map fst (snd (profile_of r (ov_name e)))) es)))"

definition make_snapshot ::
  "metadata_registry \<Rightarrow> (string, generation) dict \<Rightarrow> metadata_declaration owned_value \<Rightarrow> generation \<Rightarrow> exn + snapshot" where
  "make_snapshot r deps e g =
     (case canonical_json (JObj (md_value (ov_value e))) of
        Inl x \<Rightarrow> Inl x
      | Inr document \<Rightarrow>
          if utf8_length document > 65536
          then Inl (ValueError ''Metadata declaration exceeds byte budget'')
          else
            let (mv, ds) = profile_of r (ov_name e);
                gs = map (\<lambda>d. the (dict_get deps (fst d))) ds
            in Inr \<lparr>sn_key = md_key (ov_value e), sn_kind = md_kind (ov_value e), sn_version = md_version (ov_value e),
                 sn_owner = ov_owner e, sn_generation = g, sn_module_version = mv, sn_dependencies = ds,
                 sn_document = document, sn_dependency_generations = gs, sn_artifact = artifact_of r g,
                 sn_dependency_artifacts = map (\<lambda>d. (fst d, artifact_of r (the (dict_get deps (fst d))))) ds\<rparr>)"

text \<open>
  The loop over the selection admits one entry after the other and keeps the admissions on the exit
  stack; it returns the gate it leaves, the generations admitted and the snapshots or the exception.
\<close>

fun admit_entries ::
  "metadata_registry \<Rightarrow> (string, generation) dict \<Rightarrow> gate option \<Rightarrow> metadata_declaration owned_value list \<Rightarrow>
   gate option \<times> generation list \<times> (exn + snapshot list)" where
  "admit_entries r deps gt [] = (gt, [], Inr [])"
| "admit_entries r deps gt (e # es) =
     (case ov_generation e of
        None \<Rightarrow> (gt, [], Inl (ValueError ''Metadata source lacks issued generation''))
      | Some g \<Rightarrow>
          (case (case gt of None \<Rightarrow> Inr None | Some s \<Rightarrow> map_sum id Some (admit_enter s (Some g))) of
             Inl x \<Rightarrow> (gt, [], Inl x)
           | Inr gt1 \<Rightarrow>
               (case make_snapshot r deps e g of
                  Inl x \<Rightarrow> (gt1, [g], Inl x)
                | Inr sn \<Rightarrow>
                    let (gt2, gs, res) = admit_entries r deps gt1 es
                    in (gt2, g # gs, map_sum id (\<lambda>sns. sn # sns) res))))"

text \<open>The admissions a selection holds: the generations of its sources and of its dependencies.\<close>

record lease =
  ls_sources :: "generation list"
  ls_dependencies :: "generation option list"

definition release_lease :: "gate option \<Rightarrow> lease \<Rightarrow> gate option" where
  "release_lease gt l =
     map_option (\<lambda>s. admit_many_exit (foldl (\<lambda>s g. admit_exit s (Some g)) s (rev (ls_sources l))) (ls_dependencies l)) gt"

text \<open>\<open>admitted_declarations\<close> up to its \<open>yield\<close>; when it raises, everything is released.\<close>

definition admit_declarations ::
  "gate option \<Rightarrow> metadata_registry \<Rightarrow> string \<Rightarrow> string \<Rightarrow> string \<Rightarrow> int \<Rightarrow>
   gate option \<times> (exn + snapshot list \<times> lease)" where
  "admit_declarations gt r prefix discriminator v limit =
     (if \<not> (1 \<le> limit \<and> limit \<le> 128) \<or> prefix = '''' \<or> length discriminator > 100
      then (gt, Inl (ValueError ''Invalid bounded metadata selection''))
      else
        let es = select_entries gt r prefix discriminator v
        in if int (length es) > limit then (gt, Inl (ValueError ''Metadata selection exceeds budget''))
           else (case dependency_generations gt r es of
              Inl x \<Rightarrow> (gt, Inl x)
            | Inr deps \<Rightarrow>
                let dgs = map (\<lambda>k. dict_get deps k) (sorted_set (map fst deps))
                in (case (case gt of None \<Rightarrow> Inr None | Some s \<Rightarrow> map_sum id Some (admit_many_enter s dgs)) of
                      Inl x \<Rightarrow> (gt, Inl x)
                    | Inr gt1 \<Rightarrow>
                        let (gt2, gs, res) = admit_entries r deps gt1 es;
                            l = \<lparr>ls_sources = gs, ls_dependencies = dgs\<rparr>
                        in (case res of
                              Inl x \<Rightarrow> (release_lease gt2 l, Inl x)
                            | Inr sns \<Rightarrow> (gt2, Inr (sns, l))))))"

definition snapshot_current :: "gate option \<Rightarrow> metadata_registry \<Rightarrow> snapshot \<Rightarrow> exn + unit" where
  "snapshot_current gt r sn =
     (case resolve gt (mr_values r) (sn_key sn) of
        Inl x \<Rightarrow> Inl x
      | Inr e \<Rightarrow>
          if (case gt of None \<Rightarrow> False | Some s \<Rightarrow> list_ex (\<lambda>g. \<not> is_active s (Some g)) (sn_dependency_generations sn))
          then Inl (ValueError ''Metadata dependency changed during admission'')
          else if ov_owner e \<noteq> sn_owner sn \<or> ov_generation e \<noteq> Some (sn_generation sn)
          then Inl (ValueError ''Metadata declaration changed during admission'')
          else (case canonical_json (JObj (md_value (ov_value e))) of
                  Inl x \<Rightarrow> Inl x
                | Inr document \<Rightarrow>
                    raise_if (document \<noteq> sn_document sn \<or>
                        profile_of r (ov_name e) \<noteq> (sn_module_version sn, sn_dependencies sn) \<or>
                        artifact_of r (sn_generation sn) \<noteq> sn_artifact sn \<or>
                        map (\<lambda>g. (gen_owner g, artifact_of r g)) (sn_dependency_generations sn) \<noteq> sn_dependency_artifacts sn)
                      (ValueError ''Metadata declaration changed during admission'')))"

definition validate_admitted :: "gate option \<Rightarrow> metadata_registry \<Rightarrow> snapshot list \<Rightarrow> exn + unit" where
  "validate_admitted gt r sns = check_all (snapshot_current gt r) sns"

section \<open>Admissions are balanced\<close>

definition counts_ok :: "gate \<Rightarrow> bool" where
  "counts_ok s \<longleftrightarrow> (\<forall>g st. dict_get (states s) g = Some st \<longrightarrow> drained st = (in_flight st = 0) \<and> 0 \<le> in_flight st)"

abbreviation same_states :: "gate \<Rightarrow> gate \<Rightarrow> bool" where
  "same_states s t \<equiv> dict_get (states s) = dict_get (states t)"

lemma counts_ok_reachable: "gate_reachable s \<Longrightarrow> counts_ok (gate_of s)"
  using gate_invD(1,2) [OF gate_reachable_inv] by (fastforce simp: counts_ok_def)

lemma counts_ok_put:
  "counts_ok s \<Longrightarrow> dict_get (states s) g = Some st \<Longrightarrow> counts_ok (put_state s g (enter_state st))"
  by (fastforce simp: counts_ok_def split: if_splits)

lemma counts_ok_enter_all: "counts_ok s \<Longrightarrow> distinct gs \<Longrightarrow> counts_ok (enter_all s gs)"
  by (fastforce simp: counts_ok_def get_enter_all split: if_splits)

lemma exit_same: "same_states s t \<Longrightarrow> same_states (admit_exit s (Some g)) (admit_exit t (Some g))"
  by (auto simp: get_admit_exit)

lemma exit_put:
  assumes "counts_ok s" "dict_get (states s) g = Some st" "same_states t (put_state s g (enter_state st))"
  shows "same_states (admit_exit t (Some g)) s"
proof
  fix h
  have "exit_state (enter_state st) = st"
    using assms(1,2) by (intro exit_enter_state) (auto simp: counts_ok_def)
  with assms(2,3) show "dict_get (states (admit_exit t (Some g))) h = dict_get (states s) h"
    by (simp add: get_admit_exit)
qed

lemma admit_entries_Some:
  "admit_entries r deps (Some s) es = (gt2, gs, res) \<Longrightarrow> \<exists>s2. gt2 = Some s2"
proof (induction es arbitrary: s gt2 gs res)
  case (Cons e es)
  show ?case
  proof (cases "ov_generation e")
    case (Some g)
    show ?thesis
    proof (cases "admit_enter s (Some g)")
      case (Inr s1)
      show ?thesis
      proof (cases "make_snapshot r deps e g")
        case (Inr sn)
        obtain gt3 gs3 res3 where rest: "admit_entries r deps (Some s1) es = (gt3, gs3, res3)" by (metis prod_cases3)
        with Cons.IH [OF rest] Cons.prems Some Inr \<open>admit_enter s (Some g) = Inr s1\<close> show ?thesis by auto
      qed (use Cons.prems Some Inr in auto)
    qed (use Cons.prems Some in auto)
  qed (use Cons.prems in auto)
qed simp

lemma admit_entries_balanced:
  "admit_entries r deps (Some s) es = (Some s2, gs, res) \<Longrightarrow> counts_ok s \<Longrightarrow>
     same_states (foldl (\<lambda>s g. admit_exit s (Some g)) s2 (rev gs)) s"
proof (induction es arbitrary: s s2 gs res)
  case (Cons e es)
  show ?case
  proof (cases "ov_generation e")
    case (Some g)
    show ?thesis
    proof (cases "admit_enter s (Some g)")
      case (Inr s1)
      then obtain st where st: "dict_get (states s) g = Some st" "s1 = put_state s g (enter_state st)"
        by (auto simp: admit_enter_Inr)
      show ?thesis
      proof (cases "make_snapshot r deps e g")
        case (Inl x)
        with Cons.prems Some Inr have "s2 = s1" "gs = [g]" by simp_all
        with exit_put [OF Cons.prems(2) st(1), of s1] st(2) show ?thesis by simp
      next
        case (Inr sn)
        obtain s3 gs3 res3 where rest: "admit_entries r deps (Some s1) es = (Some s3, gs3, res3)"
          using admit_entries_Some by (metis prod_cases3)
        with Cons.prems Some Inr \<open>admit_enter s (Some g) = Inr s1\<close> have "s2 = s3" "gs = g # gs3" by simp_all
        moreover have "same_states (foldl (\<lambda>s g. admit_exit s (Some g)) s3 (rev gs3)) s1"
          using Cons.IH [OF rest] counts_ok_put [OF Cons.prems(2) st(1)] st(2) by simp
        ultimately show ?thesis using exit_put [OF Cons.prems(2) st(1)] st(2) by simp
      qed
    qed (use Cons.prems Some in auto)
  qed (use Cons.prems in auto)
qed simp

lemma many_exit_same: "same_states s t \<Longrightarrow> same_states (admit_many_exit s gs) (admit_many_exit t gs)"
  by (auto simp: get_admit_many_exit)

lemma many_balanced:
  assumes "counts_ok s" "admit_many_enter s gs = Inr t" "same_states u t"
  shows "same_states (admit_many_exit u gs) s"
proof
  fix g
  have t: "t = enter_all s (admit_unique gs)" using assms(2) by (simp add: admit_many_enter_Inr)
  show "dict_get (states (admit_many_exit u gs)) g = dict_get (states s) g"
  proof (cases "dict_get (states s) g")
    case (Some st)
    then have "exit_state (enter_state st) = st" using assms(1) by (intro exit_enter_state) (auto simp: counts_ok_def)
    with Some assms(3) show ?thesis by (simp add: get_admit_many_exit t get_enter_all)
  qed (use assms(3) in \<open>simp add: get_admit_many_exit t get_enter_all\<close>)
qed

lemma lease_balanced:
  assumes c: "counts_ok s" and m: "admit_many_enter s dgs = Inr s1"
    and e: "admit_entries r deps (Some s1) es = (gt2, gs, res)"
  shows "\<exists>s2 s3. gt2 = Some s2 \<and> release_lease gt2 \<lparr>ls_sources = gs, ls_dependencies = dgs\<rparr> = Some s3 \<and> same_states s3 s"
proof -
  obtain s2 where s2: "gt2 = Some s2" using admit_entries_Some [OF e] by blast
  have "counts_ok s1" using m c by (auto simp: admit_many_enter_Inr intro: counts_ok_enter_all)
  from admit_entries_balanced [OF e [unfolded s2] this]
  have "same_states (admit_many_exit (foldl (\<lambda>s g. admit_exit s (Some g)) s2 (rev gs)) dgs) s"
    by (rule many_balanced [OF c m])
  with s2 show ?thesis by (simp add: release_lease_def)
qed

section \<open>Snapshots\<close>

definition metadata_ok :: "metadata_registry \<Rightarrow> bool" where
  "metadata_ok r \<longleftrightarrow> registry_wf (mr_values r) \<and>
     (\<forall>k e. dict_get (reg_values (mr_values r)) k = Some e \<longrightarrow> md_key (ov_value e) = k)"

lemma metadata_ok_new: "metadata_ok new_metadata_registry"
  by (simp add: metadata_ok_def new_metadata_registry_def) (simp add: new_registry_def)

lemma metadata_ok_add:
  assumes ok: "metadata_ok r" and a: "add_metadata r owner d go mv deps = Inr r'"
  shows "metadata_ok r'"
proof -
  have wf: "registry_wf (mr_values r)" using ok by (simp add: metadata_ok_def)
  obtain vs where vs: "register_value (mr_values r) \<lparr>ov_name = md_key d, ov_owner = owner, ov_value = d, ov_generation = go\<rparr> = Inr vs"
    "mr_values r' = vs" using a by (auto simp: add_metadata_def register_def split: sum.splits)
  from reg.table.add_Inr [OF registry_wf_ok [OF wf] vs(1)] ok registry_wf_register [OF wf vs(1)] vs(2)
  show ?thesis by (auto simp: metadata_ok_def split: if_splits)
qed

lemma metadata_ok_remove:
  assumes ok: "metadata_ok r"
  shows "metadata_ok (remove_metadata r g)"
proof -
  have wf: "registry_wf (mr_values r)" using ok by (simp add: metadata_ok_def)
  have "mr_values (remove_metadata r g) = remove_owner_generation (mr_values r) g"
    by (simp add: remove_metadata_def Let_def)
  with ok registry_wf_remove [OF wf] reg.table.drop_gone [OF registry_wf_ok [OF wf]] show ?thesis
    by (auto simp: metadata_ok_def)
qed

lemma metadata_ok_bind: "metadata_ok r \<Longrightarrow> bind_artifact r g i d = Inr r' \<Longrightarrow> metadata_ok r'"
  by (auto simp: bind_artifact_def metadata_ok_def split: if_splits)

definition deps_active :: "gate option \<Rightarrow> (string, generation) dict \<Rightarrow> bool" where
  "deps_active gt deps \<longleftrightarrow> (\<forall>o' g. dict_get deps o' = Some g \<longrightarrow> gen_owner g = o' \<and> generation_active gt (Some g))"

lemma active_generation_Inr: "active_generation s o' = Inr g \<Longrightarrow> gen_owner g = o' \<and> is_active s (Some g)"
proof -
  assume "active_generation s o' = Inr g"
  then have "filter (\<lambda>g. gen_owner g = o' \<and> is_active s (Some g)) (map fst (states s)) = [g]"
    by (auto simp: active_generation_def split: list.splits)
  then have "g \<in> set (filter (\<lambda>g. gen_owner g = o' \<and> is_active s (Some g)) (map fst (states s)))" by simp
  then show ?thesis by simp
qed

lemma dependency_generations_active:
  assumes "dependency_generations gt r es = Inr deps"
  shows "deps_active gt deps"
    and "gt \<noteq> None \<Longrightarrow> e \<in> set es \<Longrightarrow> d \<in> set (snd (profile_of r (ov_name e))) \<Longrightarrow> dict_get deps (fst d) \<noteq> None"
    and "gt = None \<Longrightarrow> e \<in> set es \<Longrightarrow> snd (profile_of r (ov_name e)) = []"
proof -
  have fold: "deps_active (Some s) d' \<and> (\<forall>o'. o' \<in> set os \<or> dict_get d o' \<noteq> None \<longrightarrow> dict_get d' o' \<noteq> None)"
    if "fold_res (dependency_generation s) d os = Inr d'" "deps_active (Some s) d" for s d os d'
    using that
  proof (induction os arbitrary: d)
    case (Cons o' os)
    then obtain d1 where d1: "dependency_generation s d o' = Inr d1" "fold_res (dependency_generation s) d1 os = Inr d'"
      by (auto split: sum.splits)
    then obtain g where g: "active_generation s o' = Inr g" "fold_res (dependency_generation s) (dict_set o' g d) os = Inr d'"
      by (cases "active_generation s o'") (auto simp: dependency_generation_def)
    have "deps_active (Some s) (dict_set o' g d)"
      using Cons.prems(2) active_generation_Inr [OF g(1)] by (auto simp: deps_active_def dict_get_set generation_active_def)
    from Cons.IH [OF g(2) this] show ?case by (auto simp: dict_get_set)
  qed simp
  have e0: "deps_active x []" for x by (simp add: deps_active_def)
  have A: "deps_active gt deps \<and> (gt = None \<longrightarrow> e \<in> set es \<longrightarrow> snd (profile_of r (ov_name e)) = []) \<and>
    (gt \<noteq> None \<longrightarrow> e \<in> set es \<longrightarrow> d \<in> set (snd (profile_of r (ov_name e))) \<longrightarrow> dict_get deps (fst d) \<noteq> None)"
  proof (cases gt)
    case None
    with assms e0 show ?thesis by (auto simp: dependency_generations_def list_ex_iff split: if_splits)
  next
    case (Some s)
    let ?os = "concat (map (\<lambda>e. map fst (snd (profile_of r (ov_name e)))) es)"
    have "fold_res (dependency_generation s) [] ?os = Inr deps"
      using assms Some by (simp add: dependency_generations_def)
    note f = fold [OF this e0]
    have "e \<in> set es \<Longrightarrow> d \<in> set (snd (profile_of r (ov_name e))) \<Longrightarrow> fst d \<in> set ?os" by auto
    with f Some show ?thesis by blast
  qed
  then show "deps_active gt deps"
    and "gt \<noteq> None \<Longrightarrow> e \<in> set es \<Longrightarrow> d \<in> set (snd (profile_of r (ov_name e))) \<Longrightarrow> dict_get deps (fst d) \<noteq> None"
    and "gt = None \<Longrightarrow> e \<in> set es \<Longrightarrow> snd (profile_of r (ov_name e)) = []"
    by blast+
qed

text \<open>\<open>raised gs s t\<close>: from \<open>s\<close> to \<open>t\<close> only admissions were added, at least one on each of \<open>gs\<close>.\<close>

definition raised :: "generation set \<Rightarrow> gate \<Rightarrow> gate \<Rightarrow> bool" where
  "raised gs s t \<longleftrightarrow> (\<forall>g. (case dict_get (states s) g of
       None \<Rightarrow> dict_get (states t) g = None
     | Some st \<Rightarrow> \<exists>st'. dict_get (states t) g = Some st' \<and> lifecycle st' = lifecycle st \<and> in_flight st \<le> in_flight st' \<and>
         (g \<in> gs \<longrightarrow> in_flight st < in_flight st')))"

lemma raised_Some:
  "raised gs s t \<Longrightarrow> dict_get (states s) g = Some st \<Longrightarrow> \<exists>st'. dict_get (states t) g = Some st' \<and> lifecycle st' = lifecycle st \<and>
     in_flight st \<le> in_flight st' \<and> (g \<in> gs \<longrightarrow> in_flight st < in_flight st')"
  unfolding raised_def by (auto dest: spec [of _ g])

lemma raised_None: "raised gs s t \<Longrightarrow> dict_get (states s) g = None \<Longrightarrow> dict_get (states t) g = None"
  unfolding raised_def by (auto dest: spec [of _ g])

lemma raised_refl: "raised {} s s"
  by (simp add: raised_def split: option.split)

lemma raised_trans:
  assumes "raised gs s t" "raised hs t u"
  shows "raised (gs \<union> hs) s u"
  unfolding raised_def
proof
  fix g
  show "case dict_get (states s) g of None \<Rightarrow> dict_get (states u) g = None
     | Some st \<Rightarrow> \<exists>st'. dict_get (states u) g = Some st' \<and> lifecycle st' = lifecycle st \<and> in_flight st \<le> in_flight st' \<and>
         (g \<in> gs \<union> hs \<longrightarrow> in_flight st < in_flight st')"
  proof (cases "dict_get (states s) g")
    case (Some st)
    from raised_Some [OF assms(1) Some] raised_Some [OF assms(2)] Some show ?thesis by fastforce
  qed (use raised_None [OF assms(1)] raised_None [OF assms(2)] in simp)
qed

lemma raised_admit: "admit_enter s (Some g) = Inr t \<Longrightarrow> raised {g} s t"
  by (auto simp: raised_def admit_enter_Inr split: option.split)

lemma raised_many: "admit_many_enter s gs = Inr t \<Longrightarrow> raised {g. Some g \<in> set gs} s t"
proof -
  assume "admit_many_enter s gs = Inr t"
  then have "t = enter_all s (admit_unique gs)" by (simp add: admit_many_enter_Inr)
  moreover have "g \<in> set (admit_unique gs) \<longleftrightarrow> Some g \<in> set gs" for g by (force simp: admit_unique_def)
  ultimately show ?thesis by (auto simp: raised_def get_enter_all split: option.split)
qed

lemma raised_active: "raised gs s t \<Longrightarrow> is_active t (Some g) = is_active s (Some g)"
  using raised_Some [of gs s t g] raised_None [of gs s t g]
  by (cases "dict_get (states s) g") (auto simp: is_active_def)

lemma admit_entries_raised:
  "admit_entries r deps (Some s) es = (Some s2, gs, res) \<Longrightarrow> raised (set gs) s s2 \<and>
     (\<forall>sns. res = Inr sns \<longrightarrow> list_all2 (\<lambda>e sn. \<exists>g. ov_generation e = Some g \<and> make_snapshot r deps e g = Inr sn) es sns \<and>
        gs = map sn_generation sns)"
proof (induction es arbitrary: s gs res)
  case Nil
  then show ?case by (auto simp: raised_refl)
next
  case (Cons e es)
  show ?case
  proof (cases "ov_generation e")
    case None
    with Cons.prems show ?thesis by (auto simp: raised_refl)
  next
    case (Some g)
    show ?thesis
    proof (cases "admit_enter s (Some g)")
      case (Inl x)
      with Cons.prems Some show ?thesis by (auto simp: raised_refl)
    next
      case s1: (Inr s1)
      show ?thesis
      proof (cases "make_snapshot r deps e g")
        case (Inl x)
        with Cons.prems Some s1 raised_admit [OF s1] show ?thesis by auto
      next
        case sn: (Inr sn)
        obtain s3 gs3 res3 where rest: "admit_entries r deps (Some s1) es = (Some s3, gs3, res3)"
          using admit_entries_Some by (metis prod_cases3)
        with Cons.prems Some s1 sn have eq: "s2 = s3" "gs = g # gs3" "res = map_sum id (\<lambda>sns. sn # sns) res3" by simp_all
        have "sn_generation sn = g" using sn by (auto simp: make_snapshot_def Let_def split: sum.splits if_splits prod.splits)
        moreover have "raised (insert g (set gs3)) s s2"
          using raised_trans [OF raised_admit [OF s1]] Cons.IH rest eq(1) by fastforce
        ultimately show ?thesis
          using Cons.IH [of s1 gs3 res3] rest eq Some sn by (cases res3) auto
      qed
    qed
  qed
qed

lemma make_snapshot_current:
  assumes ok: "metadata_ok r" and e: "dict_get (reg_values (mr_values r)) (ov_name e) = Some e" "ov_generation e = Some g"
    and sn: "make_snapshot r deps e g = Inr sn" and act: "is_active s (Some g)"
    and deps: "\<And>d. d \<in> set (snd (profile_of r (ov_name e))) \<Longrightarrow>
        gen_owner (the (dict_get deps (fst d))) = fst d \<and> is_active s (Some (the (dict_get deps (fst d))))"
  shows "snapshot_current (Some s) r sn = Inr () \<and> utf8_length (sn_document sn) \<le> 65536 \<and> sn_generation sn = g \<and>
    sn_dependency_generations sn = map (\<lambda>d. the (dict_get deps (fst d))) (snd (profile_of r (ov_name e)))"
proof -
  obtain doc where doc: "canonical_json (JObj (md_value (ov_value e))) = Inr doc" "utf8_length doc \<le> 65536"
    and eq: "sn = \<lparr>sn_key = md_key (ov_value e), sn_kind = md_kind (ov_value e), sn_version = md_version (ov_value e),
                 sn_owner = ov_owner e, sn_generation = g, sn_module_version = fst (profile_of r (ov_name e)),
                 sn_dependencies = snd (profile_of r (ov_name e)), sn_document = doc,
                 sn_dependency_generations = map (\<lambda>d. the (dict_get deps (fst d))) (snd (profile_of r (ov_name e))),
                 sn_artifact = artifact_of r g,
                 sn_dependency_artifacts = map (\<lambda>d. (fst d, artifact_of r (the (dict_get deps (fst d))))) (snd (profile_of r (ov_name e)))\<rparr>"
    using sn by (auto simp: make_snapshot_def Let_def split: sum.splits if_splits prod.splits)
  have key: "md_key (ov_value e) = ov_name e" using ok e(1) by (auto simp: metadata_ok_def)
  have res: "resolve (Some s) (mr_values r) (sn_key sn) = Inr e"
    using e act by (simp add: resolve_Inr eq key entry_active_def)
  have "\<not> list_ex (\<lambda>g. \<not> is_active s (Some g)) (sn_dependency_generations sn)"
    using deps by (auto simp: eq list_ex_iff)
  moreover have "map (\<lambda>g. (gen_owner g, artifact_of r g)) (sn_dependency_generations sn) = sn_dependency_artifacts sn"
    using deps by (simp add: eq)
  ultimately have "snapshot_current (Some s) r sn = Inr ()"
    using doc(1) e(2) by (simp add: snapshot_current_def res) (simp add: eq raise_if_def)
  then show ?thesis using doc(2) by (simp add: eq)
qed

lemma selected_snapshot_current:
  assumes ok: "metadata_ok r" and deps: "dependency_generations (Some s) r (select_entries (Some s) r prefix discriminator v) = Inr deps"
    and up: "raised gs s s2" and dgs: "set (map (\<lambda>k. dict_get deps k) (sorted_set (map fst deps))) \<subseteq> Some ` gs"
    and e: "e \<in> set (select_entries (Some s) r prefix discriminator v)" "ov_generation e = Some g" "g \<in> gs"
    and sn: "make_snapshot r deps e g = Inr sn"
  shows "snapshot_current (Some s2) r sn = Inr () \<and> utf8_length (sn_document sn) \<le> 65536 \<and>
    (\<forall>g \<in> set (sn_generation sn # sn_dependency_generations sn). is_active s2 (Some g) \<and> g \<in> gs)"
proof -
  have wf: "registry_wf (mr_values r)" using ok by (simp add: metadata_ok_def)
  have ent: "dict_get (reg_values (mr_values r)) (ov_name e) = Some e" "entry_active (Some s) e"
    using e(1) set_entries [OF registry_wf_ok [OF wf], of e "Some s" False] registry_wf_get [OF wf]
    by (auto simp: select_entries_def)
  have act: "is_active s2 (Some g)" using ent(2) e(2) raised_active [OF up] by (simp add: entry_active_def)
  have dep: "gen_owner (the (dict_get deps (fst d))) = fst d \<and> is_active s2 (Some (the (dict_get deps (fst d)))) \<and>
      the (dict_get deps (fst d)) \<in> gs" if d: "d \<in> set (snd (profile_of r (ov_name e)))" for d
  proof -
    obtain h where h: "dict_get deps (fst d) = Some h"
      using dependency_generations_active(2) [OF deps _ e(1) d] by auto
    then have "fst d \<in> set (sorted_set (map fst deps))" by (force simp: dict_keys_iff)
    then have "h \<in> gs" using h dgs by force
    with h dependency_generations_active(1) [OF deps] raised_active [OF up] show ?thesis
      by (simp add: deps_active_def generation_active_def)
  qed
  from make_snapshot_current [OF ok ent(1) e(2) sn act] dep act e(3) show ?thesis by auto
qed

lemma raised_held:
  assumes up: "raised gs s s2" and "is_active s2 (Some g)" "g \<in> gs"
  shows "\<exists>st st'. dict_get (states s) g = Some st \<and> dict_get (states s2) g = Some st' \<and> in_flight st < in_flight st'"
proof -
  have "is_active s (Some g)" using assms(2) raised_active [OF up] by simp
  then obtain st where "dict_get (states s) g = Some st" by (auto simp: is_active_Some)
  with raised_Some [OF up this] assms(3) show ?thesis by blast
qed

lemma each_snapshot_current:
  assumes ok: "metadata_ok r" and deps: "dependency_generations (Some s) r (select_entries (Some s) r prefix discriminator v) = Inr deps"
    and up: "raised ({g. Some g \<in> set (map (\<lambda>k. dict_get deps k) (sorted_set (map fst deps)))} \<union> set gs) s s2" (is "raised ?gs s s2")
    and sel: "list_all2 (\<lambda>e sn. \<exists>g. ov_generation e = Some g \<and> make_snapshot r deps e g = Inr sn) (select_entries (Some s) r prefix discriminator v) sns"
    and gs: "gs = map sn_generation sns" and sn: "sn \<in> set sns"
  shows "snapshot_current (Some s2) r sn = Inr () \<and> utf8_length (sn_document sn) \<le> 65536 \<and>
    (\<forall>g \<in> set (sn_generation sn # sn_dependency_generations sn). is_active s2 (Some g) \<and> g \<in> ?gs)"
proof -
  from sn obtain i where i: "i < length sns" "sn = sns ! i" by (auto simp: in_set_conv_nth)
  let ?e = "select_entries (Some s) r prefix discriminator v ! i"
  have len: "length (select_entries (Some s) r prefix discriminator v) = length sns" using sel by (rule list_all2_lengthD)
  then have e0: "?e \<in> set (select_entries (Some s) r prefix discriminator v)" using i by simp
  from list_all2_nthD2 [OF sel i(1)] obtain g where g0: "ov_generation ?e = Some g" "make_snapshot r deps ?e g = Inr (sns ! i)" by blast
  define e where "e = ?e"
  with e0 g0 i(2) have e: "e \<in> set (select_entries (Some s) r prefix discriminator v)" "ov_generation e = Some g"
      "make_snapshot r deps e g = Inr sn" by simp_all
  have "sn_generation sn = g" using e(3) by (auto simp: make_snapshot_def Let_def split: sum.splits if_splits prod.splits)
  then have "g \<in> set gs" using sn gs by force
  then have g: "g \<in> ?gs" by blast
  have "set (map (\<lambda>k. dict_get deps k) (sorted_set (map fst deps))) \<subseteq> Some ` ?gs"
  proof
    fix x assume x: "x \<in> set (map (\<lambda>k. dict_get deps k) (sorted_set (map fst deps)))"
    then have "x \<noteq> None" by (auto simp: weak_map_of_SomeI image_iff dest: weak_map_of_SomeI)
    with x show "x \<in> Some ` ?gs" by blast
  qed
  from selected_snapshot_current [OF ok deps up this e(1,2) g e(3)] show ?thesis .
qed

text \<open>
  A metadata selection is a valid, bounded snapshot under a lease: if it is refused, no
  admission is left behind; if it is granted, it holds at most 128 declarations of at most 64 KiB,
  validating it right away succeeds, every source and every dependency is active and has an
  admission of this lease on it, and releasing the lease restores the gate.
\<close>

theorem metadata_admission_sound:
  assumes gate: "gate_reachable sys" and ok: "metadata_ok r"
    and adm: "admit_declarations (Some (gate_of sys)) r prefix discriminator v limit = (gt', res)"
  shows "\<exists>s'. gt' = Some s' \<and> (case res of
      Inl x \<Rightarrow> same_states s' (gate_of sys)
    | Inr (sns, l) \<Rightarrow>
        validate_admitted (Some s') r sns = Inr () \<and> int (length sns) \<le> limit \<and> limit \<le> 128 \<and>
        list_all (\<lambda>sn. utf8_length (sn_document sn) \<le> 65536 \<and>
          list_all (\<lambda>g. is_active s' (Some g) \<and> (\<exists>st st'. dict_get (states (gate_of sys)) g = Some st \<and>
              dict_get (states s') g = Some st' \<and> in_flight st < in_flight st'))
            (sn_generation sn # sn_dependency_generations sn)) sns \<and>
        (\<exists>s3. release_lease (Some s') l = Some s3 \<and> same_states s3 (gate_of sys)))"
proof -
  let ?s = "gate_of sys" and ?es = "select_entries (Some (gate_of sys)) r prefix discriminator v"
  note c = counts_ok_reachable [OF gate]
  show ?thesis
  proof (cases "dependency_generations (Some ?s) r ?es")
    case (Inl x)
    with adm show ?thesis by (auto simp: admit_declarations_def Let_def split: if_splits)
  next
    case deps: (Inr deps)
    let ?dgs = "map (\<lambda>k. dict_get deps k) (sorted_set (map fst deps))"
    show ?thesis
    proof (cases "((1 \<le> limit \<and> limit \<le> 128) \<and> prefix \<noteq> '''' \<and> \<not> length discriminator > 100 \<and> \<not> int (length ?es) > limit) \<and>
        \<not> isl (admit_many_enter ?s ?dgs)")
      case False
      with adm deps show ?thesis by (auto simp: admit_declarations_def Let_def isl_def split: if_splits sum.splits)
    next
      case bounds: True
      then obtain s1 where many: "admit_many_enter ?s ?dgs = Inr s1" by (auto simp: isl_def split: sum.splits) (metis sum.exhaust)
      obtain s2 gs res1 where ent: "admit_entries r deps (Some s1) ?es = (Some s2, gs, res1)"
        using admit_entries_Some by (metis prod_cases3)
      let ?l = "\<lparr>ls_sources = gs, ls_dependencies = ?dgs\<rparr>"
      obtain s3 where s3: "release_lease (Some s2) ?l = Some s3" "same_states s3 ?s" using lease_balanced [OF c many ent] by auto
      have out: "(gt', res) = (case res1 of Inl x \<Rightarrow> (release_lease (Some s2) ?l, Inl x) | Inr sns \<Rightarrow> (Some s2, Inr (sns, ?l)))"
        using adm deps bounds many ent by (auto simp: admit_declarations_def Let_def split: sum.splits)
      show ?thesis
      proof (cases res1)
        case (Inl x)
        with out s3 show ?thesis by simp
      next
        case sns: (Inr sns)
        let ?gs = "{g. Some g \<in> set ?dgs} \<union> set gs"
        have sel: "list_all2 (\<lambda>e sn. \<exists>g. ov_generation e = Some g \<and> make_snapshot r deps e g = Inr sn) ?es sns"
          and gs: "gs = map sn_generation sns" using admit_entries_raised [OF ent] sns by blast+
        have up: "raised ?gs ?s s2" using raised_trans [OF raised_many [OF many]] admit_entries_raised [OF ent] by blast
        have "snapshot_current (Some s2) r sn = Inr () \<and> utf8_length (sn_document sn) \<le> 65536 \<and>
            (\<forall>g \<in> set (sn_generation sn # sn_dependency_generations sn). is_active s2 (Some g) \<and> g \<in> ?gs)" if "sn \<in> set sns" for sn
          using each_snapshot_current [OF ok deps up sel gs that] .
        moreover have "length sns = length ?es" using sel by (simp add: list_all2_lengthD)
        ultimately show ?thesis
          using out sns s3 bounds raised_held [OF up] by (auto simp: validate_admitted_def list_all_iff)
      qed
    qed
  qed
qed

section \<open>An example\<close>

text \<open>One declaration of the active module \<open>m\<close>, selected by its kind and its discriminator.\<close>

definition demo_declaration :: metadata_declaration where
  "demo_declaration = \<lparr>md_key = ''m.a'', md_kind = ''ui.page'', md_version = 1, md_value = [(''k'', JStr ''v'')]\<rparr>"

definition demo_metadata :: metadata_registry where
  "demo_metadata = \<lparr>mr_values = \<lparr>reg_kind = ''metadata'', reg_values =
       [(''m.a'', \<lparr>ov_name = ''m.a'', ov_owner = ''m'', ov_value = demo_declaration, ov_generation = Some demo_gen\<rparr>)]\<rparr>,
     mr_profiles = [(''m.a'', (''1.0.0'', []))], mr_artifacts = []\<rparr>"

lemma demo_metadata_add: "add_metadata new_metadata_registry ''m'' demo_declaration (Some demo_gen) ''1.0.0'' [] = Inr demo_metadata"
  by (simp add: add_metadata_def register_def register_value_def new_metadata_registry_def new_registry_def
      demo_metadata_def demo_declaration_def dict_set_fresh)

abbreviation demo_gate :: gate where
  "demo_gate \<equiv> gate_of (demo_sys ACTIVE 0)"

lemma demo_json: "canonical_json (JObj [(''k'', JStr ''v'')]) =
    Inr (''{'' @ [CHR 0x22, CHR ''k'', CHR 0x22, CHR 0x3A, CHR 0x22, CHR ''v'', CHR 0x22] @ ''}'')"
  by (simp add: canonical_json_def dump_string_def escape_char_def)

lemma demo_select: "select_entries (Some demo_gate) demo_metadata ''ui.'' ''k'' ''v'' =
    [\<lparr>ov_name = ''m.a'', ov_owner = ''m'', ov_value = demo_declaration, ov_generation = Some demo_gen\<rparr>]"
  by (simp add: demo_sys_def select_entries_def demo_metadata_def demo_declaration_def entries_def entry_active_def is_active_def
      starts_with_def sorted_set_def)

lemma demo_many: "admit_many_enter s [] = Inr s"
  by (simp add: admit_many_enter_Inr admit_unique_def enter_all_def)

lemma demo_enter: "admit_enter demo_gate (Some demo_gen) =
    Inr (put_state demo_gate demo_gen (enter_state \<lparr>lifecycle = ACTIVE, in_flight = 0, drained = True\<rparr>))"
  by (simp add: admit_enter_Inr demo_sys_def)

lemma demo_profile: "profile_of demo_metadata ''m.a'' = (''1.0.0'', [])"
  by (simp add: profile_of_def demo_metadata_def)

lemma demo_admitted: "case snd (admit_declarations (Some demo_gate) demo_metadata ''ui.'' ''k'' ''v'' 5) of
    Inl x \<Rightarrow> False | Inr (sns, l) \<Rightarrow> map sn_key sns = [''m.a'']"
  by (simp add: admit_declarations_def Let_def demo_select dependency_generations_def demo_profile demo_many demo_enter
      sorted_set_def make_snapshot_def demo_declaration_def demo_json utf8_length_def)

theorem metadata_admission_sound_witness:
  "case admit_declarations (Some demo_gate) demo_metadata ''ui.'' ''k'' ''v'' 5 of
     (gt', Inl x) \<Rightarrow> False
   | (gt', Inr (sns, l)) \<Rightarrow> map sn_key sns = [''m.a''] \<and> validate_admitted gt' demo_metadata sns = Inr ()"
proof -
  let ?a = "admit_declarations (Some demo_gate) demo_metadata ''ui.'' ''k'' ''v'' 5"
  obtain gt' sns l where adm: "?a = (gt', Inr (sns, l))" "map sn_key sns = [''m.a'']"
    using demo_admitted by (cases ?a; cases "snd ?a") (simp_all split: prod.splits)
  from metadata_admission_sound [OF demo_active metadata_ok_add [OF metadata_ok_new demo_metadata_add] adm(1)] adm
  show ?thesis by auto
qed

end
