(* ===== verification/Jobs.thy ===== *)
theory Jobs
  imports Registries
begin

text \<open>
  Background jobs, \<open>platform/src/businessos/jobs.py\<close>: the job contracts with their field constraints
  and the registry of job handlers, whose dispatch checks tenant, activation and permission before
  a handler runs.
\<close>

section \<open>Contracts\<close>

datatype backoff_strategy = FIXED | EXPONENTIAL

datatype job_state = QUEUED | RUNNING | SUCCEEDED | FAILED | CANCELLED | DEAD_LETTERED

text \<open>Durations are integers in microseconds, as \<open>timedelta\<close> counts them.\<close>

record retry_policy =
  max_attempts :: int
  strategy :: backoff_strategy
  initial_delay :: int
  maximum_delay :: int

definition default_retry :: retry_policy where
  "default_retry = \<lparr>max_attempts = 3, strategy = EXPONENTIAL, initial_delay = 1000000,
     maximum_delay = 300000000\<rparr>"

definition retry_policy_ok :: "retry_policy \<Rightarrow> bool" where
  "retry_policy_ok p \<longleftrightarrow>
     1 \<le> max_attempts p \<and> max_attempts p \<le> 100 \<and> 0 \<le> initial_delay p \<and> 0 \<le> maximum_delay p"

record job_policy =
  retry :: retry_policy
  timeout :: int
  cancellable :: bool
  concurrency_key :: "string option"
  concurrency_limit :: int
  tenant_quota_key :: "string option"

definition default_policy :: job_policy where
  "default_policy = \<lparr>retry = default_retry, timeout = 300000000, cancellable = True,
     concurrency_key = None, concurrency_limit = 1, tenant_quota_key = None\<rparr>"

definition key_length_ok :: "nat \<Rightarrow> string option \<Rightarrow> bool" where
  "key_length_ok n k = (case k of None \<Rightarrow> True | Some s \<Rightarrow> 1 \<le> length s \<and> length s \<le> n)"

definition job_policy_ok :: "job_policy \<Rightarrow> bool" where
  "job_policy_ok p \<longleftrightarrow>
     retry_policy_ok (retry p) \<and> 0 < timeout p \<and> key_length_ok 200 (concurrency_key p) \<and>
     1 \<le> concurrency_limit p \<and> key_length_ok 200 (tenant_quota_key p)"

text \<open>The payload is opaque to the kernel.\<close>

record 'p job =
  job_id :: uuid
  job_tenant_id :: uuid
  job_type :: string
  job_version :: int
  payload :: "(string, 'p) dict"
  scheduled_at :: "instant option"
  priority :: int
  job_correlation_id :: string
  job_trace_id :: "string option"
  policy :: job_policy

definition job_ok :: "'p job \<Rightarrow> bool" where
  "job_ok j \<longleftrightarrow>
     1 \<le> length (job_type j) \<and> length (job_type j) \<le> 200 \<and> 1 \<le> job_version j \<and>
     -100 \<le> priority j \<and> priority j \<le> 100 \<and> job_policy_ok (policy j)"

record job_progress =
  jp_job_id :: uuid
  jp_state :: job_state
  jp_attempt :: int
  jp_completed_units :: "int option"
  jp_total_units :: "int option"
  jp_message :: "string option"
  jp_updated_at :: instant

definition natural_ok :: "int option \<Rightarrow> bool" where
  "natural_ok u = (case u of None \<Rightarrow> True | Some n \<Rightarrow> 0 \<le> n)"

definition at_most_ok :: "nat \<Rightarrow> string option \<Rightarrow> bool" where
  "at_most_ok n m = (case m of None \<Rightarrow> True | Some s \<Rightarrow> length s \<le> n)"

definition job_progress_ok :: "job_progress \<Rightarrow> bool" where
  "job_progress_ok p \<longleftrightarrow>
     0 \<le> jp_attempt p \<and> natural_ok (jp_completed_units p) \<and> natural_ok (jp_total_units p) \<and>
     at_most_ok 500 (jp_message p)"

record 'p dead_letter =
  dl_job :: "'p job"
  dl_attempts :: int
  dl_failed_at :: instant
  dl_failure_code :: string
  dl_failure_detail :: "string option"

definition dead_letter_ok :: "'p dead_letter \<Rightarrow> bool" where
  "dead_letter_ok d \<longleftrightarrow>
     job_ok (dl_job d) \<and> 1 \<le> dl_attempts d \<and> 1 \<le> length (dl_failure_code d) \<and>
     length (dl_failure_code d) \<le> 200 \<and> at_most_ok 2000 (dl_failure_detail d)"

section \<open>The handler registry\<close>

record 'h job_registry =
  jr_handlers :: "'h registry"
  jr_permissions :: "(string \<times> generation option, string option) dict"

definition new_job_registry :: "'h job_registry" where
  "new_job_registry = \<lparr>jr_handlers = new_registry ''job handler'', jr_permissions = []\<rparr>"

definition add_job ::
  "'h job_registry \<Rightarrow> string \<Rightarrow> string \<Rightarrow> 'h \<Rightarrow> generation option \<Rightarrow> string option \<Rightarrow>
   exn + 'h job_registry" where
  "add_job r jt owner h go permission =
     (case register (jr_handlers r) jt owner h go of
        Inl e \<Rightarrow> Inl e
      | Inr hs \<Rightarrow> Inr (r\<lparr>jr_handlers := hs, jr_permissions := dict_set (jt, go) permission (jr_permissions r)\<rparr>))"

definition remove_jobs :: "'h job_registry \<Rightarrow> generation \<Rightarrow> 'h job_registry" where
  "remove_jobs r g =
     (let removed = map (\<lambda>e. (ov_name e, ov_generation e))
            (filter (\<lambda>e. ov_generation e = Some g) (entries None (jr_handlers r) True))
      in r\<lparr>jr_handlers := remove_owner_generation (jr_handlers r) g,
           jr_permissions := foldl (\<lambda>d k. dict_pop k d) (jr_permissions r) removed\<rparr>)"

text \<open>
  \<open>invoke\<close>: \<open>run\<close> is the handler's coroutine applied to job, context and dependencies, together
  with what other tasks do to the gate while it runs.
\<close>

definition invoke_job ::
  "evaluator option \<Rightarrow> gate option \<Rightarrow> 'h job_registry \<Rightarrow> 'p job \<Rightarrow> request_context \<Rightarrow>
   ('h \<Rightarrow> gate option \<Rightarrow> gate option \<times> (exn + unit)) \<Rightarrow> gate option \<times> (exn + unit)" where
  "invoke_job ev gt r j ctx run =
     (case tenant ctx of
        None \<Rightarrow> (gt, Inl (BusinessOSError ''unauthenticated'' ''Authentication required'' 401))
      | Some ten \<Rightarrow>
          if job_tenant_id j \<noteq> tenant_id ten
          then (gt, Inl (BusinessOSError ''forbidden''
                  ''Job tenant does not match the trusted execution context'' 403))
          else
            (case resolve gt (jr_handlers r) (job_type j) of
               Inl e \<Rightarrow> (gt, Inl e)
             | Inr entry \<Rightarrow>
                 admit_entry gt entry (\<lambda>h gt1.
                   let permission = (case dict_get (jr_permissions r) (ov_name entry, ov_generation entry) of
                         None \<Rightarrow> None | Some p \<Rightarrow> p)
                   in (case authorize_with ''job'' ev ctx permission of
                         Inl e \<Rightarrow> (gt1, Inl e)
                       | Inr _ \<Rightarrow> run h gt1))))"

section \<open>Permissions follow their handlers\<close>

text \<open>
  The permission table has exactly one row for each registered handler, under the handler's name
  and generation.
\<close>

definition job_registry_wf :: "'h job_registry \<Rightarrow> bool" where
  "job_registry_wf r \<longleftrightarrow> registry_wf (jr_handlers r) \<and>
     (\<forall>k go. dict_get (jr_permissions r) (k, go) \<noteq> None \<longleftrightarrow>
        (\<exists>e. dict_get (reg_values (jr_handlers r)) k = Some e \<and> ov_generation e = go))"

lemma job_wfD:
  assumes "job_registry_wf r"
  shows "registry_wf (jr_handlers r)"
    and "dict_get (jr_permissions r) (k, go) \<noteq> None \<longleftrightarrow>
        (\<exists>e. dict_get (reg_values (jr_handlers r)) k = Some e \<and> ov_generation e = go)"
  using assms by (simp_all add: job_registry_wf_def)

lemma job_wf_new: "job_registry_wf new_job_registry"
  by (simp add: job_registry_wf_def new_job_registry_def) (simp add: new_registry_def)

lemma add_job_Inr:
  "add_job r jt owner h go p = Inr r' \<longleftrightarrow>
     (\<exists>hs. register (jr_handlers r) jt owner h go = Inr hs \<and>
       r' = r\<lparr>jr_handlers := hs, jr_permissions := dict_set (jt, go) p (jr_permissions r)\<rparr>)"
  by (auto simp: add_job_def split: sum.split)

lemma job_wf_add:
  assumes wf: "job_registry_wf r" and a: "add_job r jt owner h go p = Inr r'"
  shows "job_registry_wf r'"
proof -
  obtain hs where hs: "register (jr_handlers r) jt owner h go = Inr hs"
    "r' = r\<lparr>jr_handlers := hs, jr_permissions := dict_set (jt, go) p (jr_permissions r)\<rparr>"
    using a by (auto simp: add_job_Inr)
  note reg = reg.table.add_Inr [OF registry_wf_ok [OF job_wfD(1) [OF wf]] hs(1) [unfolded register_def]]
  have "dict_get (jr_permissions r) (jt, go') = None" for go'
    using job_wfD(2) [OF wf, of jt go'] reg by simp
  then show ?thesis
    using registry_wf_register [OF job_wfD(1) [OF wf] hs(1) [unfolded register_def]] reg hs(2) job_wfD(2) [OF wf]
    unfolding job_registry_wf_def by (simp add: dict_get_set)
qed

lemma remove_jobs_simps:
  assumes "job_registry_wf r"
  shows "jr_handlers (remove_jobs r g) = remove_owner_generation (jr_handlers r) g"
    and "dict_get (jr_permissions (remove_jobs r g)) (k, go) =
      (if go = Some g then None else dict_get (jr_permissions r) (k, go))"
proof -
  let ?R = "map (\<lambda>e. (ov_name e, ov_generation e))
            (filter (\<lambda>e. ov_generation e = Some g) (entries None (jr_handlers r) True))"
  show "jr_handlers (remove_jobs r g) = remove_owner_generation (jr_handlers r) g"
    by (simp add: remove_jobs_def Let_def)
  have m: "(k, go) \<in> set ?R \<longleftrightarrow> go = Some g \<and>
      (\<exists>e. dict_get (reg_values (jr_handlers r)) k = Some e \<and> ov_generation e = go)"
    using set_entries [OF registry_wf_ok [OF job_wfD(1) [OF assms]]] registry_wf_get [OF job_wfD(1) [OF assms]]
    by force
  show "dict_get (jr_permissions (remove_jobs r g)) (k, go) =
      (if go = Some g then None else dict_get (jr_permissions r) (k, go))"
    using m job_wfD(2) [OF assms, of k go] by (auto simp: remove_jobs_def Let_def dict_get_pop_all)
qed

lemma job_wf_remove:
  assumes "job_registry_wf r"
  shows "job_registry_wf (remove_jobs r g)"
proof -
  have ok: "dict_ok (reg_values (jr_handlers r))" by (rule registry_wf_ok [OF job_wfD(1) [OF assms]])
  have "dict_get (jr_permissions (remove_jobs r g)) (k, go) \<noteq> None \<longleftrightarrow>
        (\<exists>e. dict_get (reg_values (remove_owner_generation (jr_handlers r) g)) k = Some e \<and> ov_generation e = go)"
    for k go
    using job_wfD(2) [OF assms, of k go] remove_jobs_simps(2) [OF assms, of g k go]
    by (auto simp: reg.table.drop_look [OF ok] split: option.splits if_splits)
  then show ?thesis
    using registry_wf_remove [OF job_wfD(1) [OF assms]]
    by (simp add: job_registry_wf_def remove_jobs_simps(1) [OF assms])
qed

text \<open>Histories of the registry.\<close>

datatype 'h job_op = AddJob string string 'h "generation option" "string option" | RemoveJobs generation

fun job_op_step :: "'h job_registry \<Rightarrow> 'h job_op \<Rightarrow> 'h job_registry" where
  "job_op_step r (AddJob jt owner h go p) = (case add_job r jt owner h go p of Inl e \<Rightarrow> r | Inr r' \<Rightarrow> r')"
| "job_op_step r (RemoveJobs g) = remove_jobs r g"

lemma job_op_wf: "job_registry_wf r \<Longrightarrow> job_registry_wf (job_op_step r op)"
  by (cases op) (auto split: sum.split intro: job_wf_add job_wf_remove)

lemma job_ops_wf: "job_registry_wf r \<Longrightarrow> job_registry_wf (foldl job_op_step r ops)"
  by (induction ops arbitrary: r) (simp_all add: job_op_wf)

lemma job_op_keeps:
  assumes wf: "job_registry_wf r" and e: "dict_get (reg_values (jr_handlers r)) k = Some e"
    and p: "dict_get (jr_permissions r) (k, ov_generation e) = Some p"
    and o: "\<And>g. op = RemoveJobs g \<Longrightarrow> ov_generation e \<noteq> Some g"
  shows "dict_get (reg_values (jr_handlers (job_op_step r op))) k = Some e \<and>
    dict_get (jr_permissions (job_op_step r op)) (k, ov_generation e) = Some p"
proof -
  have ok: "dict_ok (reg_values (jr_handlers r))" by (rule registry_wf_ok [OF job_wfD(1) [OF wf]])
  show ?thesis
  proof (cases op)
    case (RemoveJobs g)
    with o e p remove_jobs_simps [OF wf, of g] show ?thesis by (simp add: reg.table.drop_look [OF ok])
  next
    case (AddJob jt owner h go q)
    show ?thesis
    proof (cases "add_job r jt owner h go q")
      case (Inl x)
      with AddJob e p show ?thesis by simp
    next
      case (Inr r')
      then obtain hs where hs: "register (jr_handlers r) jt owner h go = Inr hs"
        "r' = r\<lparr>jr_handlers := hs, jr_permissions := dict_set (jt, go) q (jr_permissions r)\<rparr>"
        by (auto simp: add_job_Inr)
      from reg.table.add_Inr [OF ok hs(1) [unfolded register_def]] e have "jt \<noteq> k" by auto
      with reg.table.add_Inr [OF ok hs(1) [unfolded register_def]] hs(2) AddJob Inr e p
      show ?thesis by (simp add: dict_get_set)
    qed
  qed
qed

lemma job_ops_keep:
  assumes "job_registry_wf r" "dict_get (reg_values (jr_handlers r)) k = Some e"
    "dict_get (jr_permissions r) (k, ov_generation e) = Some p"
    "\<And>g. RemoveJobs g \<in> set ops \<Longrightarrow> ov_generation e \<noteq> Some g"
  shows "dict_get (reg_values (jr_handlers (foldl job_op_step r ops))) k = Some e \<and>
    dict_get (jr_permissions (foldl job_op_step r ops)) (k, ov_generation e) = Some p"
  using assms
proof (induction ops arbitrary: r)
  case (Cons op ops)
  from job_op_keeps [OF Cons.prems(1-3), of op] Cons.prems(4)
  have "dict_get (reg_values (jr_handlers (job_op_step r op))) k = Some e"
    "dict_get (jr_permissions (job_op_step r op)) (k, ov_generation e) = Some p" by auto
  with Cons.IH [OF job_op_wf [OF Cons.prems(1)]] Cons.prems(4) show ?case by simp
qed simp

section \<open>Dispatch\<close>

lemma admit_entry_cong:
  assumes "\<And>gt1. entry_active gt e \<Longrightarrow> body (ov_value e) gt1 = body' (ov_value e) gt1"
  shows "admit_entry gt e body = admit_entry gt e body'"
proof (cases "entry_active gt e")
  case True
  with assms have "body (ov_value e) = body' (ov_value e)" by auto
  then show ?thesis by (simp add: admit_entry_def split: option.split sum.split)
next
  case False
  then obtain s g where "gt = Some s" "ov_generation e = Some g" "\<not> is_active s (Some g)"
    by (cases gt; cases "ov_generation e") (auto simp: entry_active_def is_active_def)
  then show ?thesis using admit_enter_active [of s g]
    by (cases "admit_enter s (Some g)") (auto simp: admit_entry_def)
qed

lemma admit_entry_differs:
  "admit_entry gt e body \<noteq> admit_entry gt e body' \<Longrightarrow>
     entry_active gt e \<and> (\<exists>gt1. body (ov_value e) gt1 \<noteq> body' (ov_value e) gt1)"
  using admit_entry_cong by metis

text \<open>
  A job handler registered with a permission never runs without it: whatever is registered or
  removed afterwards (short of the handler's own generation), the outcome of a dispatch can depend on
  what the handler does only if the request is authenticated, the job belongs to the request's
  tenant, the handler's generation is active and the authorizer granted exactly the permission
  declared at registration.
\<close>

theorem job_dispatch_guarded:
  assumes wf: "job_registry_wf r" and add: "add_job r (job_type j) owner h go p = Inr r1"
    and kept: "\<And>g. RemoveJobs g \<in> set ops \<Longrightarrow> go \<noteq> Some g"
    and diff: "invoke_job ev gt (foldl job_op_step r1 ops) j ctx run
      \<noteq> invoke_job ev gt (foldl job_op_step r1 ops) j ctx run'"
  shows "\<exists>ten. tenant ctx = Some ten \<and> job_tenant_id j = tenant_id ten \<and>
    (\<forall>s. gt = Some s \<longrightarrow> is_active s go) \<and>
    (\<forall>q. p = Some q \<longrightarrow> (\<exists>f. ev = Some f \<and> f (principal_id ten) ten q)) \<and>
    (\<exists>gt1. run h gt1 \<noteq> run' h gt1)"
proof -
  let ?r = "foldl job_op_step r1 ops"
  obtain hs where hs: "register (jr_handlers r) (job_type j) owner h go = Inr hs"
    "r1 = r\<lparr>jr_handlers := hs, jr_permissions := dict_set (job_type j, go) p (jr_permissions r)\<rparr>"
    using add by (auto simp: add_job_Inr)
  let ?e = "\<lparr>ov_name = job_type j, ov_owner = owner, ov_value = h, ov_generation = go\<rparr>"
  have "dict_get (reg_values (jr_handlers ?r)) (job_type j) = Some ?e \<and>
      dict_get (jr_permissions ?r) (job_type j, ov_generation ?e) = Some p"
    using reg.table.add_Inr [OF registry_wf_ok [OF job_wfD(1) [OF wf]] hs(1) [unfolded register_def]] hs(2) kept
    by (intro job_ops_keep job_wf_add [OF wf add]) (auto simp: dict_get_set)
  then have e: "dict_get (reg_values (jr_handlers ?r)) (job_type j) = Some ?e"
    and q: "dict_get (jr_permissions ?r) (job_type j, go) = Some p" by auto
  obtain ten where ten: "tenant ctx = Some ten" "job_tenant_id j = tenant_id ten"
    using diff by (auto simp: invoke_job_def split: option.splits if_splits)
  let ?b = "\<lambda>run h gt1. case authorize_with ''job'' ev ctx p of Inl e \<Rightarrow> (gt1, Inl e) | Inr _ \<Rightarrow> run h gt1"
  have "entry_active gt ?e \<and> admit_entry gt ?e (?b run) \<noteq> admit_entry gt ?e (?b run')"
    using diff ten by (auto simp: invoke_job_def resolve_def e q split: if_splits)
  then have act: "entry_active gt ?e" "\<exists>gt1. ?b run (ov_value ?e) gt1 \<noteq> ?b run' (ov_value ?e) gt1"
    using admit_entry_differs [of gt ?e "?b run" "?b run'"] by simp_all
  then have "authorize_with ''job'' ev ctx p = Inr () \<and> (\<exists>gt1. run h gt1 \<noteq> run' h gt1)"
    by (cases "authorize_with ''job'' ev ctx p") auto
  with ten act(1) show ?thesis
    by (cases p) (auto simp: authorize_with_Inr entry_active_def)
qed

definition demo_job :: "nat job" where
  "demo_job = \<lparr>job_id = 1, job_tenant_id = 7, job_type = ''sync'', job_version = 1, payload = [],
     scheduled_at = None, priority = 0, job_correlation_id = ''c'', job_trace_id = None,
     policy = default_policy\<rparr>"

theorem job_dispatch_guarded_witness:
  "\<exists>r1 f. add_job new_job_registry ''sync'' ''m'' (0::nat) None (Some ''jobs.run'') = Inr r1 \<and>
     f 3 (tenant_context_of 1 7 3) ''jobs.run'' \<and>
     snd (invoke_job (Some f) None r1 demo_job
       \<lparr>correlation_id = ''c'', trace_id = ''t'', tenant = Some (tenant_context_of 1 7 3)\<rparr>
       (\<lambda>h gt. (gt, Inr ()))) = Inr ()"
proof -
  let ?ctx = "\<lparr>correlation_id = ''c'', trace_id = ''t'', tenant = Some (tenant_context_of 1 7 3)\<rparr>"
  let ?f = "(\<lambda>pid ten q. pid = 3) :: evaluator"
  obtain r1 where r1: "add_job new_job_registry ''sync'' ''m'' (0::nat) None (Some ''jobs.run'') = Inr r1"
    by (simp add: add_job_def register_def register_value_def new_job_registry_def new_registry_def)
  have run: "invoke_job (Some ?f) None (foldl job_op_step r1 []) demo_job ?ctx (\<lambda>h gt. (gt, x)) = (None, x)" for x
    using r1 by (auto simp: add_job_def register_def register_value_def new_job_registry_def new_registry_def
        invoke_job_def tenant_context_of_def demo_job_def resolve_def entry_active_def admit_entry_def
        authorize_with_def require_def)
  have "\<exists>ten. tenant ?ctx = Some ten \<and> job_tenant_id demo_job = tenant_id ten \<and>
    (\<forall>s. (None :: gate option) = Some s \<longrightarrow> is_active s None) \<and>
    (\<forall>q. Some ''jobs.run'' = Some q \<longrightarrow> (\<exists>f. Some ?f = Some f \<and> f (principal_id ten) ten q)) \<and>
    (\<exists>gt1. (\<lambda>h gt. (gt, Inr ())) 0 gt1 \<noteq> ((\<lambda>h gt. (gt, Inl (RuntimeError ''x''))) (0::nat) gt1 :: gate option \<times> (exn + unit)))"
    by (rule job_dispatch_guarded [OF job_wf_new, where j = demo_job and ops = "[]" and gt = None and ctx = ?ctx
          and ev = "Some ?f"])
      (use r1 run in \<open>auto simp: demo_job_def\<close>)
  then have "?f 3 (tenant_context_of 1 7 3) ''jobs.run''" by (auto simp: tenant_context_of_def)
  with r1 run [of "Inr ()"] show ?thesis by (intro exI [of _ r1] exI [of _ ?f]) simp
qed

end
