(* ===== verification/Registration.thy ===== *)
theory Registration
  imports Routing Http Container Metadata Messages Resources Jobs
begin

text \<open>
  \<open>ModuleRegistration\<close> of \<open>platform/src/businessos/modules/sdk.py\<close>: the surface through which one generation
  of a module contributes to every registry of the kernel, and its removal. All registries share the
  kernel state; callables, contracts and providers are values of one type \<open>'f\<close>.
\<close>

section \<open>The kernel's registries\<close>

record ('f, 'w) kernel =
  k_gate :: gate
  k_router :: "'f router"
  k_container :: "'f container"
  k_contracts :: "'f registry"
  k_metadata :: metadata_registry
  k_permissions :: "permission_declaration registry"
  k_providers :: "'f registry"
  k_resources :: "ownership_registry option"
  k_features :: feature_registry
  k_commands :: "'f handler_registry"
  k_queries :: "'f handler_registry"
  k_events :: "'f event_bus"
  k_middleware :: "'f middleware_registry"
  k_jobs :: "'f job_registry"
  k_provenance :: provenance
  k_entitlements :: entitlements
  k_outside :: 'w

text \<open>
  The selector and publication objects that are told of command and query registrations are
  parameters; so is \<open>mg_admit\<close>, which wraps a callable into the one that enters the gate first.
\<close>

record ('f, 'w) module_registration =
  mg_owner :: string
  mg_generation :: generation
  mg_manifest :: "manifest option"
  mg_provenance :: "nat option"
  mg_entitlement :: "nat option"
  mg_coordinator :: "nat option"
  mg_finished :: bool
  mg_admit :: "generation \<Rightarrow> 'f \<Rightarrow> 'f"
  mg_command_observers :: "('f, 'w) selector list"
  mg_query_observers :: "('f, 'w) selector list"

text \<open>A step of the SDK leaves the kernel it reached and the exception it stopped with.\<close>

type_synonym ('f, 'w) step = "('f, 'w) kernel \<times> exn option"

definition store :: "('f, 'w) kernel \<Rightarrow> ('t \<Rightarrow> ('f, 'w) kernel) \<Rightarrow> exn + 't \<Rightarrow> ('f, 'w) step" where
  "store k f res = (case res of Inl x \<Rightarrow> (k, Some x) | Inr t \<Rightarrow> (f t, None))"

definition new_registration ::
  "('f, 'w) kernel \<Rightarrow> string \<Rightarrow> generation \<Rightarrow> manifest option \<Rightarrow> bool \<Rightarrow> nat \<Rightarrow> nat option \<Rightarrow> (generation \<Rightarrow> 'f \<Rightarrow> 'f) \<Rightarrow>
   ('f, 'w) selector list \<Rightarrow> ('f, 'w) selector list \<Rightarrow> ('f, 'w) kernel \<times> (exn + ('f, 'w) module_registration)" where
  "new_registration k owner g mo coordinator_approved token entitlement admit cobs qobs =
     (case capture_provenance (k_provenance k) mo owner g of
        Inl x \<Rightarrow> (k, Inl x)
      | Inr (prov, pv) \<Rightarrow>
          let k1 = k\<lparr>k_provenance := pv\<rparr>;
              mg = \<lparr>mg_owner = owner, mg_generation = g, mg_manifest = mo, mg_provenance = prov, mg_entitlement = entitlement,
                    mg_coordinator = None, mg_finished = False, mg_admit = admit, mg_command_observers = cobs,
                    mg_query_observers = qobs\<rparr>
          in if \<not> coordinator_approved then (k1, Inr mg)
             else (case k_resources k1 of
                     None \<Rightarrow> (k1, Inl (RuntimeError ''Coordinator admission requires the resource registry''))
                   | Some r \<Rightarrow>
                       (case authorize_coordinator (k_gate k1) r g token of
                          Inl x \<Rightarrow> (k1, Inl x)
                        | Inr r' \<Rightarrow> (k1\<lparr>k_resources := Some r'\<rparr>, Inr (mg\<lparr>mg_coordinator := Some token\<rparr>)))))"

definition ensure_open :: "('f, 'w) module_registration \<Rightarrow> ('f, 'w) kernel \<Rightarrow> ('f, 'w) step \<Rightarrow> ('f, 'w) step" where
  "ensure_open mg k act =
     (if mg_finished mg then (k, Some (RuntimeError (''Module registration is closed: '' @ mg_owner mg))) else act)"

definition publish_registration :: "('f, 'w) module_registration \<Rightarrow> ('f, 'w) kernel \<Rightarrow> ('f, 'w) step" where
  "publish_registration mg k = ensure_open mg k
     (case (case (mg_manifest mg, k_resources k) of
              (Some m, Some r) \<Rightarrow> map_sum id Some (stage (k_gate k) r m (mg_generation mg))
            | _ \<Rightarrow> Inr (k_resources k)) of
        Inl x \<Rightarrow> (k, Some x)
      | Inr r' \<Rightarrow>
          let k1 = k\<lparr>k_resources := r'\<rparr>
          in store k1 (\<lambda>s. k1\<lparr>k_gate := s\<rparr>) (publish (k_gate k1) (mg_generation mg)))"

text \<open>\<open>if self._gate.state(self.generation) is not STAGED: raise RuntimeError\<close>, and the test itself.\<close>

definition staged_only :: "string \<Rightarrow> ('f, 'w) module_registration \<Rightarrow> ('f, 'w) kernel \<Rightarrow> ('f, 'w) step \<Rightarrow> ('f, 'w) step" where
  "staged_only message mg k act =
     (case state_of (k_gate k) (mg_generation mg) of
        Inl x \<Rightarrow> (k, Some x)
      | Inr l \<Rightarrow> if l \<noteq> STAGED then (k, Some (RuntimeError message)) else act)"

definition bind_artifact_provenance ::
  "('f, 'w) module_registration \<Rightarrow> string \<Rightarrow> int option \<Rightarrow> ('f, 'w) kernel \<Rightarrow> ('f, 'w) step" where
  "bind_artifact_provenance mg identity durable k = ensure_open mg k
     (staged_only ''Artifact provenance must bind before activation'' mg k
        (store k (\<lambda>m. k\<lparr>k_metadata := m\<rparr>) (bind_artifact (k_metadata k) (mg_generation mg) identity durable)))"

section \<open>Contributions\<close>

text \<open>
  The permission a contribution names is either the owner's own, active or not, or an active one;
  \<open>route\<close> writes the same test out.
\<close>

definition validate_permission :: "('f, 'w) module_registration \<Rightarrow> string option \<Rightarrow> ('f, 'w) kernel \<Rightarrow> ('f, 'w) step \<Rightarrow> ('f, 'w) step" where
  "validate_permission mg pm k act =
     (case pm of
        None \<Rightarrow> act
      | Some p \<Rightarrow>
          if contains (Some (k_gate k)) (k_permissions k) p (Some (mg_owner mg)) (Some (mg_generation mg)) True then act
          else (case get_value (Some (k_gate k)) (k_permissions k) p of Inl x \<Rightarrow> (k, Some x) | Inr _ \<Rightarrow> act))"

definition contribute_route ::
  "('f, 'w) module_registration \<Rightarrow> string \<Rightarrow> string \<Rightarrow> 'f \<Rightarrow> string \<Rightarrow> string option \<Rightarrow> ('f, 'w) kernel \<Rightarrow> ('f, 'w) step" where
  "contribute_route mg m p h name pm k = ensure_open mg k
     (validate_permission mg pm k
        (store k (\<lambda>(rt, r). k\<lparr>k_router := r\<rparr>)
          (add_route (k_router k) m p (mg_admit mg (mg_generation mg) h) (Some (mg_owner mg @ ''.'' @ name)) pm
            (Some (mg_owner mg)) (Some (mg_generation mg)))))"

definition contribute_middleware :: "('f, 'w) module_registration \<Rightarrow> string \<Rightarrow> 'f \<Rightarrow> ('f, 'w) kernel \<Rightarrow> ('f, 'w) step" where
  "contribute_middleware mg name f k = ensure_open mg k
     (store k (\<lambda>r. k\<lparr>k_middleware := r\<rparr>)
       (register_middleware (k_middleware k)
         \<lparr>mc_name = mg_owner mg @ ''.'' @ name, mc_owner = mg_owner mg, mc_middleware = mg_admit mg (mg_generation mg) f,
          mc_generation = mg_generation mg\<rparr>))"

definition contribute_dependency ::
  "('f, 'w) module_registration \<Rightarrow> dependency_key \<Rightarrow> 'f \<Rightarrow> dependency_scope \<Rightarrow> ('f, 'w) kernel \<Rightarrow> ('f, 'w) step" where
  "contribute_dependency mg dk f sc k = ensure_open mg k
     (let act = store k (\<lambda>c. k\<lparr>k_container := c\<rparr>)
        (register_dependency (k_entitlements k) (k_container k) dk
          \<lparr>rg_provider = f, rg_scope = sc, rg_owner = Some (mg_owner mg), rg_generation = Some (mg_generation mg), rg_gated = True\<rparr>
          (mg_entitlement mg))
      in case dk_required_owner dk of
           None \<Rightarrow> act
         | Some required \<Rightarrow>
             staged_only ''Reserved dependencies must register before activation'' mg k
               (if mg_owner mg \<noteq> required
                then (k, Some (PermissionError ''Dependency key is reserved to another module owner''))
                else if \<not> valid_entitlement (k_entitlements k) (mg_entitlement mg) (mg_owner mg) (Some (mg_generation mg))
                then (k, Some (PermissionError ''Reserved dependency requires approved first-party artifact''))
                else act))"

definition contribute_contract :: "('f, 'w) module_registration \<Rightarrow> string \<Rightarrow> 'f \<Rightarrow> ('f, 'w) kernel \<Rightarrow> ('f, 'w) step" where
  "contribute_contract mg name c k = ensure_open mg k
     (store k (\<lambda>r. k\<lparr>k_contracts := r\<rparr>) (register (k_contracts k) name (mg_owner mg) c (Some (mg_generation mg))))"

definition contribute_metadata :: "('f, 'w) module_registration \<Rightarrow> metadata_declaration \<Rightarrow> ('f, 'w) kernel \<Rightarrow> ('f, 'w) step" where
  "contribute_metadata mg d k = ensure_open mg k
     (store k (\<lambda>r. k\<lparr>k_metadata := r\<rparr>)
       (add_metadata (k_metadata k) (mg_owner mg) d (Some (mg_generation mg))
         (case mg_manifest mg of None \<Rightarrow> '''' | Some m \<Rightarrow> version m)
         (case mg_manifest mg of None \<Rightarrow> [] | Some m \<Rightarrow> map (\<lambda>d. (dep_module_id d, dep_version d)) (dependencies m))))"

definition contribute_permission :: "('f, 'w) module_registration \<Rightarrow> permission_declaration \<Rightarrow> ('f, 'w) kernel \<Rightarrow> ('f, 'w) step" where
  "contribute_permission mg d k = ensure_open mg k
     (store k (\<lambda>r. k\<lparr>k_permissions := r\<rparr>) (add_permission (k_permissions k) (mg_owner mg) d (Some (mg_generation mg))))"

definition contribute_provider :: "('f, 'w) module_registration \<Rightarrow> string \<Rightarrow> 'f \<Rightarrow> ('f, 'w) kernel \<Rightarrow> ('f, 'w) step" where
  "contribute_provider mg capability p k = ensure_open mg k
     (store k (\<lambda>r. k\<lparr>k_providers := r\<rparr>) (register (k_providers k) capability (mg_owner mg) p (Some (mg_generation mg))))"

definition contribute_resource_provider ::
  "('f, 'w) module_registration \<Rightarrow> string \<Rightarrow> string \<Rightarrow> string \<Rightarrow> provider_object \<Rightarrow> ('f, 'w) kernel \<Rightarrow> ('f, 'w) step" where
  "contribute_resource_provider mg ns ver kind p k = ensure_open mg k
     (staged_only ''Resource providers must register before activation'' mg k
       (case (mg_manifest mg, k_resources k) of
          (Some m, Some r) \<Rightarrow>
            store k (\<lambda>r. k\<lparr>k_resources := Some r\<rparr>) (register_provider (k_gate k) r m (mg_generation mg) ns ver kind p)
        | _ \<Rightarrow> (k, Some (RuntimeError ''Resource ownership is unavailable to this registration''))))"

definition contribute_feature :: "('f, 'w) module_registration \<Rightarrow> feature_flag \<Rightarrow> ('f, 'w) kernel \<Rightarrow> ('f, 'w) step" where
  "contribute_feature mg f k = ensure_open mg k
     (store k (\<lambda>r. k\<lparr>k_features := r\<rparr>) (add_feature (k_features k) (mg_owner mg) f (Some (mg_generation mg))))"

text \<open>A secret is passed on only while the generation is staged.\<close>

definition while_staged :: "('f, 'w) module_registration \<Rightarrow> ('f, 'w) kernel \<Rightarrow> nat option \<Rightarrow> nat option" where
  "while_staged mg k x = (if state_of (k_gate k) (mg_generation mg) = Inr STAGED then x else None)"

definition contribute_command ::
  "('f, 'w) module_registration \<Rightarrow> message_type \<Rightarrow> 'f \<Rightarrow> string option \<Rightarrow> ('f, 'w) kernel \<Rightarrow> ('f, 'w) step" where
  "contribute_command mg mt h pm k = ensure_open mg k
     (validate_permission mg pm k
       (case state_of (k_gate k) (mg_generation mg) of
          Inl x \<Rightarrow> (k, Some x)
        | Inr _ \<Rightarrow>
            store k (\<lambda>(r, w). k\<lparr>k_commands := r, k_outside := w\<rparr>)
              (register_handler (mg_command_observers mg) (k_provenance k) (k_commands k) mt (mg_owner mg) h
                (Some (mg_generation mg)) pm (mg_coordinator mg) (while_staged mg k (mg_provenance mg))
                (while_staged mg k (mg_entitlement mg)) (k_outside k))))"

definition contribute_query ::
  "('f, 'w) module_registration \<Rightarrow> message_type \<Rightarrow> 'f \<Rightarrow> string option \<Rightarrow> ('f, 'w) kernel \<Rightarrow> ('f, 'w) step" where
  "contribute_query mg mt h pm k = ensure_open mg k
     (validate_permission mg pm k
       (case state_of (k_gate k) (mg_generation mg) of
          Inl x \<Rightarrow> (k, Some x)
        | Inr _ \<Rightarrow>
            store k (\<lambda>(r, w). k\<lparr>k_queries := r, k_outside := w\<rparr>)
              (register_handler (mg_query_observers mg) (k_provenance k) (k_queries k) mt (mg_owner mg) h
                (Some (mg_generation mg)) pm None (while_staged mg k (mg_provenance mg))
                (while_staged mg k (mg_entitlement mg)) (k_outside k))))"

definition contribute_event ::
  "('f, 'w) module_registration \<Rightarrow> event_class \<Rightarrow> string \<Rightarrow> 'f \<Rightarrow> string option \<Rightarrow> ('f, 'w) kernel \<Rightarrow> ('f, 'w) step" where
  "contribute_event mg c sub h pm k = ensure_open mg k
     (validate_permission mg pm k
       (let (b, e) = subscribe (k_events k) c (mg_owner mg @ ''.'' @ sub) h (Some (mg_owner mg)) (Some (mg_generation mg)) pm
        in (k\<lparr>k_events := b\<rparr>, e)))"

definition contribute_job ::
  "('f, 'w) module_registration \<Rightarrow> string \<Rightarrow> 'f \<Rightarrow> string option \<Rightarrow> ('f, 'w) kernel \<Rightarrow> ('f, 'w) step" where
  "contribute_job mg jt h pm k = ensure_open mg k
     (validate_permission mg pm k
       (store k (\<lambda>r. k\<lparr>k_jobs := r\<rparr>) (add_job (k_jobs k) jt (mg_owner mg) h (Some (mg_generation mg)) pm)))"

section \<open>Removal\<close>

text \<open>
  Removing the contributions. The container's clean-up closes the module's singletons: \<open>cleanup\<close> is what
  it raised. A cancellation is kept for the end, any other exception stops the removal.
\<close>

definition cancelled :: exn where
  "cancelled = ForeignError ''CancelledError''"

definition remove_tables :: "('f, 'w) module_registration \<Rightarrow> ('f, 'w) kernel \<Rightarrow> ('f, 'w) kernel" where
  "remove_tables mg k =
     (let g = mg_generation mg
      in k\<lparr>k_router := remove_routes (k_router k) g,
           k_contracts := remove_owner_generation (k_contracts k) g,
           k_metadata := remove_metadata (k_metadata k) g,
           k_permissions := remove_owner_generation (k_permissions k) g,
           k_providers := remove_owner_generation (k_providers k) g,
           k_resources := map_option (\<lambda>r. remove_resources r g) (k_resources k),
           k_features := remove_features (k_features k) g,
           k_commands := fst (remove_handlers (mg_command_observers mg) (k_commands k) g (k_outside k)),
           k_queries := drop_handlers (k_queries k) g,
           k_outside := snd (remove_handlers (mg_query_observers mg) (k_queries k) g
             (snd (remove_handlers (mg_command_observers mg) (k_commands k) g (k_outside k))))\<rparr>)"

definition remove_contributions ::
  "bool \<Rightarrow> exn option \<Rightarrow> ('f, 'w) module_registration \<Rightarrow> ('f, 'w) kernel \<Rightarrow>
   ('f, 'w) kernel \<times> ('f, 'w) module_registration \<times> exn option" where
  "remove_contributions propagate cleanup mg k =
     (let g = mg_generation mg;
          k1 = k\<lparr>k_container := remove_registrations (k_container k) g\<rparr>
      in if cleanup \<noteq> None \<and> cleanup \<noteq> Some cancelled then (k1, mg, cleanup)
         else
           let k2 = remove_tables mg k1
           in (case remove_subscriptions (Some (k_gate k2)) (k_events k2) g of
                 Inl x \<Rightarrow> (k2, mg, Some x)
               | Inr b \<Rightarrow>
                   let k3 = k2\<lparr>k_events := b, k_middleware := remove_middleware (k_middleware k2) g, k_jobs := remove_jobs (k_jobs k2) g\<rparr>
                   in (case discard (k_gate k3) g of
                         Inl x \<Rightarrow> (k3, mg, Some x)
                       | Inr s \<Rightarrow> (k3\<lparr>k_gate := s\<rparr>, mg\<lparr>mg_finished := True\<rparr>, if propagate then cleanup else None))))"

definition remove_registration where
  "remove_registration cleanup mg k =
     (if mg_finished mg then (k, mg, None) else remove_contributions True cleanup mg k)"

definition rollback_registration where
  "rollback_registration cleanup mg k =
     (if mg_finished mg then (k, mg, None) else remove_contributions False cleanup mg k)"

text \<open>\<open>stop_accepting\<close> waits for the drain; \<open>wait\<close> is what other tasks do to the gate meanwhile.\<close>

definition stop_accepting :: "(gate \<Rightarrow> gate) \<Rightarrow> ('f, 'w) module_registration \<Rightarrow> ('f, 'w) kernel \<Rightarrow> ('f, 'w) step" where
  "stop_accepting wait mg k =
     (if mg_finished mg then (k, None)
      else let (s, e) = close_and_drain wait (k_gate k) (mg_generation mg) in (k\<lparr>k_gate := s\<rparr>, e))"

definition deactivate_registration where
  "deactivate_registration wait cleanup mg k =
     (if mg_finished mg then (k, mg, None)
      else (case stop_accepting wait mg k of
              (k1, Some x) \<Rightarrow> (k1, mg, Some x)
            | (k1, None) \<Rightarrow> remove_registration cleanup mg k1))"

definition retire_registration :: "('f, 'w) module_registration \<Rightarrow> ('f, 'w) kernel \<Rightarrow> ('f, 'w) step" where
  "retire_registration mg k = store k (\<lambda>s. k\<lparr>k_gate := s\<rparr>) (retire_owner (k_gate k) (mg_owner mg))"

section \<open>What a module registers\<close>

datatype 'f contribution =
    Route string string 'f string "string option"
  | MiddlewareFunction string 'f
  | Dependency dependency_key 'f dependency_scope
  | Contract string 'f
  | MetadataEntry metadata_declaration
  | PermissionEntry permission_declaration
  | Provider string 'f
  | ResourceProvider string string string provider_object
  | Feature feature_flag
  | CommandHandler message_type 'f "string option"
  | QueryHandler message_type 'f "string option"
  | EventSubscriber event_class string 'f "string option"
  | JobHandler string 'f "string option"
  | ArtifactProvenance string "int option"

fun contribute :: "('f, 'w) module_registration \<Rightarrow> 'f contribution \<Rightarrow> ('f, 'w) kernel \<Rightarrow> ('f, 'w) step" where
  "contribute mg (Route m p h n pm) = contribute_route mg m p h n pm"
| "contribute mg (MiddlewareFunction n f) = contribute_middleware mg n f"
| "contribute mg (Dependency dk f sc) = contribute_dependency mg dk f sc"
| "contribute mg (Contract n c) = contribute_contract mg n c"
| "contribute mg (MetadataEntry d) = contribute_metadata mg d"
| "contribute mg (PermissionEntry d) = contribute_permission mg d"
| "contribute mg (Provider n p) = contribute_provider mg n p"
| "contribute mg (ResourceProvider ns v kd p) = contribute_resource_provider mg ns v kd p"
| "contribute mg (Feature f) = contribute_feature mg f"
| "contribute mg (CommandHandler mt h pm) = contribute_command mg mt h pm"
| "contribute mg (QueryHandler mt h pm) = contribute_query mg mt h pm"
| "contribute mg (EventSubscriber c sub h pm) = contribute_event mg c sub h pm"
| "contribute mg (JobHandler jt h pm) = contribute_job mg jt h pm"
| "contribute mg (ArtifactProvenance i d) = bind_artifact_provenance mg i d"

text \<open>A module may catch what a contribution raises and go on, so a failed step does not end the sequence.\<close>

definition contribute_all :: "('f, 'w) module_registration \<Rightarrow> 'f contribution list \<Rightarrow> ('f, 'w) kernel \<Rightarrow> ('f, 'w) kernel" where
  "contribute_all mg cs k = foldl (\<lambda>k c. fst (contribute mg c k)) k cs"

section \<open>Lookups of all registries\<close>

text \<open>
  What can be looked up in each registry, as one function from names to entries; entries that keep a
  second fact under another dictionary (the profile of a declaration, the override of a flag, the
  permission of a job) are shown with it.
\<close>

definition metadata_lookup :: "metadata_registry \<Rightarrow> string \<Rightarrow> (metadata_declaration owned_value \<times> profile option) option" where
  "metadata_lookup r n = map_option (\<lambda>e. (e, dict_get (mr_profiles r) n)) (dict_get (reg_values (mr_values r)) n)"

definition artifact_lookup :: "metadata_registry \<Rightarrow> generation \<Rightarrow> (generation \<times> artifact_ref) option" where
  "artifact_lookup r g = map_option (Pair g) (dict_get (mr_artifacts r) g)"

definition feature_lookup :: "feature_registry \<Rightarrow> string \<Rightarrow> (feature_flag owned_value \<times> bool option) option" where
  "feature_lookup r n = map_option (\<lambda>e. (e, dict_get (ff_overrides r) n)) (dict_get (reg_values (ff_flags r)) n)"

definition job_lookup :: "'f job_registry \<Rightarrow> string \<Rightarrow> ('f owned_value \<times> string option option) option" where
  "job_lookup r n = map_option (\<lambda>e. (e, dict_get (jr_permissions r) (n, ov_generation e))) (dict_get (reg_values (jr_handlers r)) n)"

definition owner_lookup :: "ownership_registry option \<Rightarrow> string \<times> string \<Rightarrow> owner_binding option" where
  "owner_lookup ro k = (case ro of None \<Rightarrow> None | Some r \<Rightarrow> owner_of r k)"

definition provider_lookup :: "ownership_registry option \<Rightarrow> string \<times> string \<times> string \<Rightarrow> provider_entry option" where
  "provider_lookup ro k = (case ro of None \<Rightarrow> None | Some r \<Rightarrow> dict_get (rr_providers r) k)"

definition event_lookup :: "'f event_bus \<Rightarrow> event_class \<times> string \<Rightarrow> 'f event_handler option" where
  "event_lookup b k = handler_at b (fst k) (snd k)"

abbreviation route_gen :: "'f compiled_route \<Rightarrow> generation option" where
  "route_gen c \<equiv> route_generation (route_of c)"

text \<open>
  \<open>agree a k b k'\<close>: every registry of \<open>k\<close>, with the entries of the generation \<open>a\<close> hidden, shows what
  the same registry of \<open>k'\<close> shows with those of \<open>b\<close> hidden.
\<close>

definition agree :: "generation option \<Rightarrow> ('f, 'w) kernel \<Rightarrow> generation option \<Rightarrow> ('f, 'w) kernel \<Rightarrow> bool" where
  "agree a k b k' \<longleftrightarrow>
     hide route_gen a (dict_get (routes (k_router k))) = hide route_gen b (dict_get (routes (k_router k'))) \<and>
     hide rg_generation a (dict_get (registrations (k_container k))) = hide rg_generation b (dict_get (registrations (k_container k'))) \<and>
     hide ov_generation a (dict_get (reg_values (k_contracts k))) = hide ov_generation b (dict_get (reg_values (k_contracts k'))) \<and>
     hide (\<lambda>x. ov_generation (fst x)) a (metadata_lookup (k_metadata k)) = hide (\<lambda>x. ov_generation (fst x)) b (metadata_lookup (k_metadata k')) \<and>
     hide (\<lambda>x. Some (fst x)) a (artifact_lookup (k_metadata k)) = hide (\<lambda>x. Some (fst x)) b (artifact_lookup (k_metadata k')) \<and>
     hide ov_generation a (dict_get (reg_values (k_permissions k))) = hide ov_generation b (dict_get (reg_values (k_permissions k'))) \<and>
     hide ov_generation a (dict_get (reg_values (k_providers k))) = hide ov_generation b (dict_get (reg_values (k_providers k'))) \<and>
     hide (\<lambda>x. Some (rb_generation x)) a (owner_lookup (k_resources k)) = hide (\<lambda>x. Some (rb_generation x)) b (owner_lookup (k_resources k')) \<and>
     hide (\<lambda>e. Some (rb_generation (pe_binding e))) a (provider_lookup (k_resources k)) =
       hide (\<lambda>e. Some (rb_generation (pe_binding e))) b (provider_lookup (k_resources k')) \<and>
     hide (\<lambda>x. ov_generation (fst x)) a (feature_lookup (k_features k)) = hide (\<lambda>x. ov_generation (fst x)) b (feature_lookup (k_features k')) \<and>
     hide oh_generation a (dict_get (hr_handlers (k_commands k))) = hide oh_generation b (dict_get (hr_handlers (k_commands k'))) \<and>
     hide oh_generation a (dict_get (hr_handlers (k_queries k))) = hide oh_generation b (dict_get (hr_handlers (k_queries k'))) \<and>
     hide eh_generation a (event_lookup (k_events k)) = hide eh_generation b (event_lookup (k_events k')) \<and>
     hide (\<lambda>c. Some (mc_generation c)) a (dict_get (mw_items (k_middleware k))) =
       hide (\<lambda>c. Some (mc_generation c)) b (dict_get (mw_items (k_middleware k'))) \<and>
     hide (\<lambda>x. ov_generation (fst x)) a (job_lookup (k_jobs k)) = hide (\<lambda>x. ov_generation (fst x)) b (job_lookup (k_jobs k'))"

lemma agree_refl [simp]: "agree a k a k"
  by (simp add: agree_def)

lemma agree_trans: "agree a k b k' \<Longrightarrow> agree b k' c k'' \<Longrightarrow> agree a k c k''"
  unfolding agree_def by (elim conjE, intro conjI) (simp_all only:)

text \<open>The invariants of the single registries.\<close>

definition kernel_ok :: "('f, 'w) kernel \<Rightarrow> bool" where
  "kernel_ok k \<longleftrightarrow>
     dict_ok (routes (k_router k)) \<and> dict_ok (registrations (k_container k)) \<and> registry_wf (k_contracts k) \<and>
     registry_wf (mr_values (k_metadata k)) \<and> dict_ok (mr_artifacts (k_metadata k)) \<and> registry_wf (k_permissions k) \<and>
     registry_wf (k_providers k) \<and> registry_wf (ff_flags (k_features k)) \<and> dict_ok (hr_handlers (k_commands k)) \<and>
     dict_ok (hr_handlers (k_queries k)) \<and> bus_ok (k_events k) \<and> dict_ok (mw_items (k_middleware k)) \<and>
     job_registry_wf (k_jobs k) \<and>
     (case k_resources k of None \<Rightarrow> True | Some r \<Rightarrow> claims_ok r \<and> dict_ok (rr_providers r))"

text \<open>\<open>kept g k k'\<close>: from \<open>k\<close> to \<open>k'\<close> only entries of \<open>g\<close> were added.\<close>

definition kept :: "generation \<Rightarrow> ('f, 'w) kernel \<Rightarrow> ('f, 'w) kernel \<Rightarrow> bool" where
  "kept g k k' \<longleftrightarrow> kernel_ok k' \<and> agree (Some g) k' (Some g) k \<and> k_gate k' = k_gate k"

lemma kept_refl: "kernel_ok k \<Longrightarrow> kept g k k"
  by (simp add: kept_def)

lemma kept_trans: "kept g k k' \<Longrightarrow> kept g k' k'' \<Longrightarrow> kept g k k''"
  unfolding kept_def by (auto intro: agree_trans)

named_theorems kept_intros

lemma kept_ensure_open [kept_intros]: "kernel_ok k \<Longrightarrow> kept g k (fst act) \<Longrightarrow> kept g k (fst (ensure_open mg k act))"
  by (simp add: ensure_open_def kept_refl)

lemma kept_staged_only [kept_intros]: "kernel_ok k \<Longrightarrow> kept g k (fst act) \<Longrightarrow> kept g k (fst (staged_only m mg k act))"
  by (auto simp: staged_only_def kept_refl split: sum.split)

lemma kept_validate [kept_intros]: "kernel_ok k \<Longrightarrow> kept g k (fst act) \<Longrightarrow> kept g k (fst (validate_permission mg pm k act))"
  by (auto simp: validate_permission_def kept_refl split: option.split sum.split)

lemma kept_store [kept_intros]: "kernel_ok k \<Longrightarrow> (\<And>t. res = Inr t \<Longrightarrow> kept g k (f t)) \<Longrightarrow> kept g k (fst (store k f res))"
  by (auto simp: store_def kept_refl split: sum.split)

lemma register_hide:
  assumes "registry_wf r" "register r n owner v (Some g) = Inr r'"
  shows "registry_wf r' \<and> hide ov_generation (Some g) (dict_get (reg_values r')) = hide ov_generation (Some g) (dict_get (reg_values r)) \<and>
    dict_get (reg_values r) n = None \<and>
    dict_get (reg_values r') = (dict_get (reg_values r))(n \<mapsto> \<lparr>ov_name = n, ov_owner = owner, ov_value = v, ov_generation = Some g\<rparr>)"
proof -
  let ?e = "\<lparr>ov_name = n, ov_owner = owner, ov_value = v, ov_generation = Some g\<rparr>"
  from assms(2) have r: "register_value r ?e = Inr r'" by (simp add: register_def)
  show ?thesis
    using registry_wf_register [OF assms(1) r] reg.table.add_hide [OF registry_wf_ok [OF assms(1)] r, of g]
      reg.table.add_Inr [OF registry_wf_ok [OF assms(1)] r] by (simp add: fun_upd_def)
qed

lemma kept_route: "kernel_ok k \<Longrightarrow> kept (mg_generation mg) k (fst (contribute_route mg m p h n pm k))"
  unfolding contribute_route_def
proof (intro kept_intros)
  fix t assume ok: "kernel_ok k" and t: "add_route (k_router k) m p (mg_admit mg (mg_generation mg) h) (Some (mg_owner mg @ ''.'' @ n)) pm
            (Some (mg_owner mg)) (Some (mg_generation mg)) = Inr t"
  obtain rt r where r: "t = (rt, r)" by fastforce
  with t obtain c where c: "insert_route (k_router k) c = Inr r" "route_of c = rt" "route_generation rt = Some (mg_generation mg)"
    by (auto simp: add_route_def add_compiled_def Let_def compile_route_of split: sum.splits)
  with ok show "kept (mg_generation mg) k (case t of (rt, r) \<Rightarrow> k\<lparr>k_router := r\<rparr>)"
    using rtr.table.add_hide [OF _ c(1), of "mg_generation mg"] rtr.table.add_Inr [OF _ c(1)]
    by (simp add: r kept_def agree_def kernel_ok_def)
qed

lemma kept_middleware: "kernel_ok k \<Longrightarrow> kept (mg_generation mg) k (fst (contribute_middleware mg n f k))"
  unfolding contribute_middleware_def
proof (intro kept_intros)
  fix t assume ok: "kernel_ok k" and t: "register_middleware (k_middleware k)
     \<lparr>mc_name = mg_owner mg @ ''.'' @ n, mc_owner = mg_owner mg, mc_middleware = mg_admit mg (mg_generation mg) f,
      mc_generation = mg_generation mg\<rparr> = Inr t"
  from ok show "kept (mg_generation mg) k (k\<lparr>k_middleware := t\<rparr>)"
    using mwr.table.add_hide [OF _ t, of "mg_generation mg"] mwr.table.add_Inr [OF _ t]
    by (simp add: kept_def agree_def kernel_ok_def)
qed

lemma kept_registration:
  assumes ok: "kernel_ok k" and r: "register_dependency ents (k_container k) dk rg ent = Inr c" and g: "rg_generation rg = Some g"
  shows "kept g k (k\<lparr>k_container := c\<rparr>)"
proof -
  have "dict_get (registrations (k_container k)) dk = None" "registrations c = dict_set dk rg (registrations (k_container k))"
    using r by (auto simp: register_dependency_def split: if_splits)
  moreover have "dict_get (dict_set dk rg d) = (dict_get d)(dk \<mapsto> rg)" for d :: "(dependency_key, 'a registration) dict"
    by (auto simp: dict_get_set)
  ultimately show ?thesis using ok g by (simp add: kept_def agree_def kernel_ok_def hide_update dict_simps)
qed

lemma kept_dependency: "kernel_ok k \<Longrightarrow> kept (mg_generation mg) k (fst (contribute_dependency mg dk f sc k))"
  unfolding contribute_dependency_def Let_def
  by (auto intro!: kept_intros kept_registration kept_refl split: option.split)

lemma kept_contract: "kernel_ok k \<Longrightarrow> kept (mg_generation mg) k (fst (contribute_contract mg n c k))"
  unfolding contribute_contract_def
  by (intro kept_intros) (auto simp: kept_def agree_def kernel_ok_def dest: register_hide)

lemma kept_permission: "kernel_ok k \<Longrightarrow> kept (mg_generation mg) k (fst (contribute_permission mg d k))"
  unfolding contribute_permission_def add_permission_def
  by (intro kept_intros) (auto simp: kept_def agree_def kernel_ok_def dest: register_hide)

lemma kept_provider: "kernel_ok k \<Longrightarrow> kept (mg_generation mg) k (fst (contribute_provider mg n p k))"
  unfolding contribute_provider_def
  by (intro kept_intros) (auto simp: kept_def agree_def kernel_ok_def dest: register_hide)

lemma kept_metadata: "kernel_ok k \<Longrightarrow> kept (mg_generation mg) k (fst (contribute_metadata mg d k))"
  unfolding contribute_metadata_def
proof (intro kept_intros)
  fix t assume ok: "kernel_ok k" and t: "add_metadata (k_metadata k) (mg_owner mg) d (Some (mg_generation mg))
         (case mg_manifest mg of None \<Rightarrow> '''' | Some m \<Rightarrow> version m)
         (case mg_manifest mg of None \<Rightarrow> [] | Some m \<Rightarrow> map (\<lambda>d. (dep_module_id d, dep_version d)) (dependencies m)) = Inr t"
  let ?pf = "(case mg_manifest mg of None \<Rightarrow> '''' | Some m \<Rightarrow> version m,
      sort (case mg_manifest mg of None \<Rightarrow> [] | Some m \<Rightarrow> map (\<lambda>d. (dep_module_id d, dep_version d)) (dependencies m)))"
  from t obtain vs where vs: "register (mr_values (k_metadata k)) (md_key d) (mg_owner mg) d (Some (mg_generation mg)) = Inr vs"
    "mr_values t = vs" "mr_artifacts t = mr_artifacts (k_metadata k)" "mr_profiles t = dict_set (md_key d) ?pf (mr_profiles (k_metadata k))"
    by (auto simp: add_metadata_def split: sum.splits)
  note eff = register_hide [OF _ vs(1)]
  have wf: "registry_wf (mr_values (k_metadata k))" using ok by (simp add: kernel_ok_def)
  have new: "metadata_lookup t = (metadata_lookup (k_metadata k))(md_key d \<mapsto>
      (\<lparr>ov_name = md_key d, ov_owner = mg_owner mg, ov_value = d, ov_generation = Some (mg_generation mg)\<rparr>, Some ?pf))"
    using eff [OF wf] by (auto simp: metadata_lookup_def vs(2,4) dict_get_set fun_eq_iff)
  have "metadata_lookup (k_metadata k) (md_key d) = None" using eff [OF wf] by (simp add: metadata_lookup_def)
  with ok eff [OF wf] show "kept (mg_generation mg) k (k\<lparr>k_metadata := t\<rparr>)"
    by (simp add: kept_def agree_def kernel_ok_def new vs(2,3) hide_update artifact_lookup_def [abs_def])
qed

lemma kept_artifact: "kernel_ok k \<Longrightarrow> kept (mg_generation mg) k (fst (bind_artifact_provenance mg i d k))"
  unfolding bind_artifact_provenance_def
proof (intro kept_intros)
  fix t assume ok: "kernel_ok k" and t: "bind_artifact (k_metadata k) (mg_generation mg) i d = Inr t"
  then have eq: "t = k_metadata k\<lparr>mr_artifacts := dict_set (mg_generation mg) (i, d) (mr_artifacts (k_metadata k))\<rparr>"
    by (auto simp: bind_artifact_def split: if_splits)
  have none: "dict_get (mr_artifacts (k_metadata k)) (mg_generation mg) = None"
    using t by (simp add: bind_artifact_def del: not_None_eq split: if_splits)
  have "artifact_lookup t = (artifact_lookup (k_metadata k))(mg_generation mg \<mapsto> (mg_generation mg, (i, d)))"
    by (auto simp: artifact_lookup_def eq dict_get_set fun_eq_iff)
  moreover have "artifact_lookup (k_metadata k) (mg_generation mg) = None" by (simp add: artifact_lookup_def none)
  ultimately show "kept (mg_generation mg) k (k\<lparr>k_metadata := t\<rparr>)"
    using ok by (simp add: kept_def agree_def kernel_ok_def hide_update eq metadata_lookup_def [abs_def] dict_simps)
qed

lemma kept_resource_provider: "kernel_ok k \<Longrightarrow> kept (mg_generation mg) k (fst (contribute_resource_provider mg ns ver kd p k))"
proof (cases "mg_manifest mg")
  case None
  then show "kernel_ok k \<Longrightarrow> ?thesis" unfolding contribute_resource_provider_def by (auto intro!: kept_intros kept_refl)
next
  case (Some m)
  show "kernel_ok k \<Longrightarrow> ?thesis"
  proof (cases "k_resources k")
    case None
    with Some show "kernel_ok k \<Longrightarrow> ?thesis" unfolding contribute_resource_provider_def by (auto intro!: kept_intros kept_refl)
  next
    case r: (Some r)
    assume ok: "kernel_ok k"
    have "kept (mg_generation mg) k (fst (store k (\<lambda>r. k\<lparr>k_resources := Some r\<rparr>)
        (register_provider (k_gate k) r m (mg_generation mg) ns ver kd p)))"
    proof (intro kept_intros)
      fix t assume "register_provider (k_gate k) r m (mg_generation mg) ns ver kd p = Inr t"
      then obtain e where e: "put_provider r e = Inr t" "rb_generation (pe_binding e) = mg_generation mg" by (rule register_provider_Inr)
      have "dict_ok (rr_providers r)" "claims_ok r" using ok r by (simp_all add: kernel_ok_def)
      moreover have "rr_bindings t = rr_bindings r" "rr_aliases t = rr_aliases r" using e(1) by (auto simp: put_provider_Inr)
      ultimately show "kept (mg_generation mg) k (k\<lparr>k_resources := Some t\<rparr>)"
        using ok r e prv.table.add_hide [OF _ e(1), of "mg_generation mg"] prv.table.add_Inr [OF _ e(1)] claims_ok_cong [of t r]
        by (simp add: kept_def agree_def kernel_ok_def owner_lookup_def [abs_def] provider_lookup_def [abs_def])
    qed (rule ok)
    with ok Some r show ?thesis unfolding contribute_resource_provider_def by (auto intro!: kept_intros)
  qed
qed

lemma kept_feature: "kernel_ok k \<Longrightarrow> kept (mg_generation mg) k (fst (contribute_feature mg f k))"
  unfolding contribute_feature_def
proof (intro kept_intros)
  fix t assume ok: "kernel_ok k" and t: "add_feature (k_features k) (mg_owner mg) f (Some (mg_generation mg)) = Inr t"
  then obtain fl where fl: "register (ff_flags (k_features k)) (ff_key f) (mg_owner mg) f (Some (mg_generation mg)) = Inr fl"
    "t = k_features k\<lparr>ff_flags := fl\<rparr>" by (auto simp: add_feature_def split: sum.splits)
  have wf: "registry_wf (ff_flags (k_features k))" using ok by (simp add: kernel_ok_def)
  note eff = register_hide [OF wf fl(1)]
  have "feature_lookup t = (feature_lookup (k_features k))(ff_key f \<mapsto>
      (\<lparr>ov_name = ff_key f, ov_owner = mg_owner mg, ov_value = f, ov_generation = Some (mg_generation mg)\<rparr>,
       dict_get (ff_overrides (k_features k)) (ff_key f)))"
    using eff by (auto simp: feature_lookup_def fl(2) fun_eq_iff)
  moreover have "feature_lookup (k_features k) (ff_key f) = None" using eff by (simp add: feature_lookup_def)
  ultimately show "kept (mg_generation mg) k (k\<lparr>k_features := t\<rparr>)"
    using ok eff by (simp add: kept_def agree_def kernel_ok_def hide_update fl(2))
qed

lemma kept_job: "kernel_ok k \<Longrightarrow> kept (mg_generation mg) k (fst (contribute_job mg jt h pm k))"
  unfolding contribute_job_def
proof (intro kept_intros)
  fix t assume ok: "kernel_ok k" and t: "add_job (k_jobs k) jt (mg_owner mg) h (Some (mg_generation mg)) pm = Inr t"
  then obtain hs where hs: "register (jr_handlers (k_jobs k)) jt (mg_owner mg) h (Some (mg_generation mg)) = Inr hs"
    "t = k_jobs k\<lparr>jr_handlers := hs, jr_permissions := dict_set (jt, Some (mg_generation mg)) pm (jr_permissions (k_jobs k))\<rparr>"
    by (auto simp: add_job_Inr)
  have wf: "job_registry_wf (k_jobs k)" using ok by (simp add: kernel_ok_def)
  note eff = register_hide [OF job_wfD(1) [OF wf] hs(1)]
  have "job_lookup t = (job_lookup (k_jobs k))(jt \<mapsto>
      (\<lparr>ov_name = jt, ov_owner = mg_owner mg, ov_value = h, ov_generation = Some (mg_generation mg)\<rparr>, Some pm))"
    using eff by (auto simp: job_lookup_def hs(2) dict_get_set fun_eq_iff)
  moreover have "job_lookup (k_jobs k) jt = None" using eff by (simp add: job_lookup_def)
  ultimately show "kept (mg_generation mg) k (k\<lparr>k_jobs := t\<rparr>)"
    using ok eff job_wf_add [OF wf t] by (simp add: kept_def agree_def kernel_ok_def hide_update)
qed

lemma register_handler_put:
  "register_handler obs pv r mt owner h go pm co prov ent w = Inr (r', w') \<Longrightarrow>
     \<exists>e. put_handler r e = Inr r' \<and> oh_generation e = go"
  by (auto simp: register_handler_def Let_def split: sum.splits)

lemma kept_command: "kernel_ok k \<Longrightarrow> kept (mg_generation mg) k (fst (contribute_command mg mt h pm k))"
proof -
  assume ok: "kernel_ok k"
  have step: "kept (mg_generation mg) k (k\<lparr>k_commands := r, k_outside := w\<rparr>)"
    if t: "register_handler obs pv (k_commands k) mt owner h (Some (mg_generation mg)) pm co prov ent w0 = Inr (r, w)" for r w obs pv owner co prov ent w0
  proof -
    from register_handler_put [OF t] obtain e where e: "put_handler (k_commands k) e = Inr r" "oh_generation e = Some (mg_generation mg)"
      by blast
    with ok show ?thesis using hdl.table.add_hide [OF _ e(1), of "mg_generation mg"] hdl.table.add_Inr [OF _ e(1)]
      by (simp add: kept_def agree_def kernel_ok_def)
  qed
  show ?thesis unfolding contribute_command_def
    by (auto intro!: kept_intros kept_refl ok intro: step split: sum.split)
qed

lemma kept_query: "kernel_ok k \<Longrightarrow> kept (mg_generation mg) k (fst (contribute_query mg mt h pm k))"
proof -
  assume ok: "kernel_ok k"
  have step: "kept (mg_generation mg) k (k\<lparr>k_queries := r, k_outside := w\<rparr>)"
    if t: "register_handler obs pv (k_queries k) mt owner h (Some (mg_generation mg)) pm co prov ent w0 = Inr (r, w)" for r w obs pv owner co prov ent w0
  proof -
    from register_handler_put [OF t] obtain e where e: "put_handler (k_queries k) e = Inr r" "oh_generation e = Some (mg_generation mg)"
      by blast
    with ok show ?thesis using hdl.table.add_hide [OF _ e(1), of "mg_generation mg"] hdl.table.add_Inr [OF _ e(1)]
      by (simp add: kept_def agree_def kernel_ok_def)
  qed
  show ?thesis unfolding contribute_query_def
    by (auto intro!: kept_intros kept_refl ok intro: step split: sum.split)
qed

lemma handler_at_set:
  "eb_handlers b' = dict_set c (dict_set n x (inner (eb_handlers b) c)) (eb_handlers b) \<Longrightarrow>
     event_lookup b' = (event_lookup b)((c, n) \<mapsto> x)"
  by (auto simp: event_lookup_def handler_at_def inner_def dict_get_set fun_eq_iff)

lemma kept_event: "kernel_ok k \<Longrightarrow> kept (mg_generation mg) k (fst (contribute_event mg c sub h pm k))"
proof -
  assume ok: "kernel_ok k"
  let ?n = "mg_owner mg @ ''.'' @ sub"
  obtain b e where s: "subscribe (k_events k) c ?n h (Some (mg_owner mg)) (Some (mg_generation mg)) pm = (b, e)" by fastforce
  note eff = subscribe_effect [OF s]
  have bus: "bus_ok (k_events k)" using ok by (simp add: kernel_ok_def)
  have "hide eh_generation (Some (mg_generation mg)) (event_lookup b) = hide eh_generation (Some (mg_generation mg)) (event_lookup (k_events k))"
  proof (cases e)
    case None
    from eff(3) [OF this] obtain x where x: "handler_at (k_events k) c ?n = None" "eh_generation x = Some (mg_generation mg)"
      "eb_handlers b = dict_set c (dict_set ?n x (inner (eb_handlers (k_events k)) c)) (eb_handlers (k_events k))" by blast
    moreover have "event_lookup (k_events k) (c, ?n) = None" using x(1) by (simp add: event_lookup_def)
    ultimately show ?thesis by (simp add: handler_at_set hide_update)
  next
    case (Some y)
    with eff(2) have "event_lookup b = event_lookup (k_events k)" by (simp add: event_lookup_def [abs_def] handler_at_def)
    then show ?thesis by simp
  qed
  then have "kept (mg_generation mg) k (k\<lparr>k_events := b\<rparr>)"
    using ok bus_ok_subscribe [OF bus s] by (simp add: kept_def agree_def kernel_ok_def)
  then show ?thesis unfolding contribute_event_def using s by (auto intro!: kept_intros ok)
qed

lemma kept_contribute: "kernel_ok k \<Longrightarrow> kept (mg_generation mg) k (fst (contribute mg c k))"
  by (cases c) (simp_all add: kept_route kept_middleware kept_dependency kept_contract kept_metadata kept_permission kept_provider
      kept_resource_provider kept_feature kept_command kept_query kept_event kept_job kept_artifact)

lemma kept_contribute_all: "kernel_ok k \<Longrightarrow> kept (mg_generation mg) k (contribute_all mg cs k)"
proof (induction cs rule: rev_induct)
  case Nil
  then show ?case by (simp add: contribute_all_def kept_refl)
next
  case (snoc c cs)
  then have k: "kept (mg_generation mg) k (contribute_all mg cs k)" by blast
  then have "kernel_ok (contribute_all mg cs k)" by (simp add: kept_def)
  from kept_trans [OF k kept_contribute [OF this]] show ?case by (simp add: contribute_all_def)
qed

lemma registry_removed: "registry_wf r \<Longrightarrow> dict_get (reg_values (remove_owner_generation r g)) = hide ov_generation (Some g) (dict_get (reg_values r))"
  by (rule reg.table.drop_hide [OF registry_wf_ok])

lemma hide_pair: "hide (\<lambda>x. gen (fst x)) (Some g) (\<lambda>n. map_option (\<lambda>e. (e, f n e)) (look n)) =
    (\<lambda>n. map_option (\<lambda>e. (e, f n e)) (hide gen (Some g) look n))"
  by (auto simp: hide_def fun_eq_iff split: option.split)

lemma registry_names:
  assumes "registry_wf r"
  shows "n \<in> set (map ov_name (filter (\<lambda>e. ov_generation e = Some g) (map snd (reg_values r)))) \<longleftrightarrow>
    (\<exists>e. dict_get (reg_values r) n = Some e \<and> ov_generation e = Some g)" (is "_ \<in> ?names \<longleftrightarrow> _")
proof
  assume "n \<in> ?names"
  then obtain k e where e: "(k, e) \<in> set (reg_values r)" "ov_name e = n" "ov_generation e = Some g" by auto
  then have k: "dict_get (reg_values r) k = Some e" using registry_wf_ok [OF assms] by simp
  from registry_wf_get [OF assms k] e k show "\<exists>e. dict_get (reg_values r) n = Some e \<and> ov_generation e = Some g" by blast
next
  assume "\<exists>e. dict_get (reg_values r) n = Some e \<and> ov_generation e = Some g"
  then obtain e where e: "dict_get (reg_values r) n = Some e" "ov_generation e = Some g" by blast
  from map_of_SomeD [OF e(1)] registry_wf_get [OF assms e(1)] e(2) show "n \<in> ?names" by force
qed

lemma metadata_removed:
  assumes "registry_wf (mr_values r)"
  shows "metadata_lookup (remove_metadata r g) = hide (\<lambda>x. ov_generation (fst x)) (Some g) (metadata_lookup r)"
proof -
  have "dict_get (mr_profiles (remove_metadata r g)) n = dict_get (mr_profiles r) n"
    if "dict_get (reg_values (remove_owner_generation (mr_values r) g)) n = Some e" for n e
  proof -
    let ?ks = "set (map fst (reg_values (remove_owner_generation (mr_values r) g)))"
    from map_of_SomeD [OF that] have "n \<in> ?ks" by force
    then show ?thesis using dict_filter_keys [of "\<lambda>k. k \<in> ?ks" "mr_profiles r" n] by (simp only: remove_metadata_def Let_def metadata_registry.simps if_True)
  qed
  then have "metadata_lookup (remove_metadata r g) n = map_option (\<lambda>e. (e, dict_get (mr_profiles r) n))
      (dict_get (reg_values (remove_owner_generation (mr_values r) g)) n)" for n
    by (cases "dict_get (reg_values (remove_owner_generation (mr_values r) g)) n")
       (simp_all add: metadata_lookup_def remove_metadata_def Let_def)
  then have "metadata_lookup (remove_metadata r g) = (\<lambda>n. map_option (\<lambda>e. (e, dict_get (mr_profiles r) n))
      (hide ov_generation (Some g) (dict_get (reg_values (mr_values r))) n))"
    unfolding registry_removed [OF assms] by (rule ext)
  also have "\<dots> = hide (\<lambda>x. ov_generation (fst x)) (Some g) (metadata_lookup r)" by (simp only: metadata_lookup_def [abs_def] hide_pair [where f = "\<lambda>n e. dict_get (mr_profiles r) n"])
  finally show ?thesis .
qed

lemma artifact_removed: "artifact_lookup (remove_metadata r g) = hide (\<lambda>x. Some (fst x)) (Some g) (artifact_lookup r)"
  by (auto simp: artifact_lookup_def remove_metadata_def Let_def hide_def dict_get_pop fun_eq_iff split: option.split)

lemma feature_removed:
  assumes "registry_wf (ff_flags r)"
  shows "feature_lookup (remove_features r g) = hide (\<lambda>x. ov_generation (fst x)) (Some g) (feature_lookup r)"
proof -
  have "feature_lookup (remove_features r g) n = map_option (\<lambda>e. (e, dict_get (ff_overrides r) n))
      (dict_get (reg_values (remove_owner_generation (ff_flags r) g)) n)" for n
    using registry_names [OF assms, of n g]
    by (auto simp: feature_lookup_def remove_features_def Let_def dict_get_pop_all registry_removed [OF assms] hide_def split: option.split)
  then have "feature_lookup (remove_features r g) = (\<lambda>n. map_option (\<lambda>e. (e, dict_get (ff_overrides r) n))
      (hide ov_generation (Some g) (dict_get (reg_values (ff_flags r))) n))"
    unfolding registry_removed [OF assms] by (rule ext)
  also have "\<dots> = hide (\<lambda>x. ov_generation (fst x)) (Some g) (feature_lookup r)" by (simp only: feature_lookup_def [abs_def] hide_pair [where f = "\<lambda>n e. dict_get (ff_overrides r) n"])
  finally show ?thesis .
qed

lemma job_removed:
  assumes "job_registry_wf r"
  shows "job_lookup (remove_jobs r g) = hide (\<lambda>x. ov_generation (fst x)) (Some g) (job_lookup r)"
proof -
  note wf = job_wfD(1) [OF assms]
  have "job_lookup (remove_jobs r g) n = map_option (\<lambda>e. (e, dict_get (jr_permissions r) (n, ov_generation e)))
      (dict_get (reg_values (remove_owner_generation (jr_handlers r) g)) n)" for n
    by (auto simp: job_lookup_def remove_jobs_simps [OF assms] registry_removed [OF wf] hide_def split: option.split)
  then have "job_lookup (remove_jobs r g) = (\<lambda>n. map_option (\<lambda>e. (e, dict_get (jr_permissions r) (n, ov_generation e)))
      (hide ov_generation (Some g) (dict_get (reg_values (jr_handlers r))) n))"
    unfolding registry_removed [OF wf] by (rule ext)
  also have "\<dots> = hide (\<lambda>x. ov_generation (fst x)) (Some g) (job_lookup r)"
    by (simp only: job_lookup_def [abs_def] hide_pair [where f = "\<lambda>n e. dict_get (jr_permissions r) (n, ov_generation e)"])
  finally show ?thesis .
qed

lemma registrations_removed: "dict_ok (registrations c) \<Longrightarrow>
    dict_get (registrations (remove_registrations c g)) = hide rg_generation (Some g) (dict_get (registrations c))"
  by (auto simp: remove_registrations_def dict_get_keep hide_def fun_eq_iff split: option.split)

lemma owner_removed: "(case ro of None \<Rightarrow> True | Some r \<Rightarrow> claims_ok r) \<Longrightarrow>
    owner_lookup (map_option (\<lambda>r. remove_resources r g) ro) = hide (\<lambda>x. Some (rb_generation x)) (Some g) (owner_lookup ro)"
  by (auto simp: owner_lookup_def hide_def fun_eq_iff remove_effect(2) split: option.split)

lemma provider_removed: "(case ro of None \<Rightarrow> True | Some r \<Rightarrow> dict_ok (rr_providers r)) \<Longrightarrow>
    provider_lookup (map_option (\<lambda>r. remove_resources r g) ro) =
      hide (\<lambda>e. Some (rb_generation (pe_binding e))) (Some g) (provider_lookup ro)"
  by (auto simp: provider_lookup_def hide_def fun_eq_iff remove_resources_def drop_providers_def Let_def dict_get_keep split: option.split)

lemma events_removed:
  assumes "bus_ok b" "remove_subscriptions gt b g = Inr b'"
  shows "event_lookup b' = hide eh_generation (Some g) (event_lookup b)"
proof -
  obtain p where "generation_published gt g = Inr p" using assms(2) by (auto simp: remove_subscriptions_def split: sum.splits)
  from remove_subscriptions_effect(2) [OF assms(1) this assms(2)] show ?thesis
    by (simp add: event_lookup_def hide_def fun_eq_iff surviving_def)
qed

lemma remove_agrees:
  assumes ok: "kernel_ok k" and r: "remove_contributions propagate cleanup mg k = (k', mg', e)" and f: "mg_finished mg'" "\<not> mg_finished mg"
  shows "agree None k' (Some (mg_generation mg)) k \<and> mg' = mg\<lparr>mg_finished := True\<rparr> \<and>
    dict_get (states (k_gate k')) = (dict_get (states (k_gate k)))(mg_generation mg := None)"
proof -
  let ?g = "mg_generation mg"
  let ?k2 = "remove_tables mg (k\<lparr>k_container := remove_registrations (k_container k) ?g\<rparr>)"
  have same: "k_events ?k2 = k_events k" "k_gate ?k2 = k_gate k" "k_middleware ?k2 = k_middleware k" "k_jobs ?k2 = k_jobs k"
    by (simp_all add: remove_tables_def Let_def)
  obtain b where b: "remove_subscriptions (Some (k_gate k)) (k_events k) ?g = Inr b"
    using r f same by (auto simp: remove_contributions_def Let_def split: sum.splits if_splits)
  obtain s where s: "discard (k_gate k) ?g = Inr s"
    using r f same b by (auto simp: remove_contributions_def Let_def split: sum.splits if_splits)
  have out: "k' = ?k2\<lparr>k_events := b, k_middleware := remove_middleware (k_middleware k) ?g, k_jobs := remove_jobs (k_jobs k) ?g, k_gate := s\<rparr>"
    "mg' = mg\<lparr>mg_finished := True\<rparr>"
    using r f same b s by (auto simp: remove_contributions_def Let_def split: if_splits)
  have ok': "dict_ok (routes (k_router k))" "dict_ok (registrations (k_container k))" "registry_wf (k_contracts k)"
    "registry_wf (mr_values (k_metadata k))" "registry_wf (k_permissions k)" "registry_wf (k_providers k)"
    "registry_wf (ff_flags (k_features k))" "dict_ok (hr_handlers (k_commands k))" "dict_ok (hr_handlers (k_queries k))"
    "bus_ok (k_events k)" "dict_ok (mw_items (k_middleware k))" "job_registry_wf (k_jobs k)"
    "case k_resources k of None \<Rightarrow> True | Some r \<Rightarrow> claims_ok r"
    "case k_resources k of None \<Rightarrow> True | Some r \<Rightarrow> dict_ok (rr_providers r)"
    using ok by (auto simp: kernel_ok_def split: option.splits)
  have "dict_get (states s) = (dict_get (states (k_gate k)))(?g := None)"
    using s by (auto simp: discard_def dict_get_pop fun_eq_iff fun_upd_def split: option.splits if_splits)
  moreover have "agree None k' (Some ?g) k"
    unfolding agree_def out(1) remove_tables_def Let_def remove_handlers_def
    by (simp add: rtr.table.drop_hide registrations_removed registry_removed metadata_removed artifact_removed owner_removed
        provider_removed feature_removed hdl.table.drop_hide events_removed [OF _ b] mwr.table.drop_hide job_removed ok')
  ultimately show ?thesis using out by (simp add: fun_upd_def)
qed

section \<open>Rolling a registration back\<close>

lemma discard_idle:
  "dict_get (states s) g = Some st \<Longrightarrow> in_flight st = 0 \<Longrightarrow> \<exists>s'. discard s g = Inr s'"
  by (simp add: discard_def)


text \<open>A kernel whose registries are all empty.\<close>

definition new_kernel :: "gate \<Rightarrow> string set \<Rightarrow> 'w \<Rightarrow> ('f, 'w) kernel" where
  "new_kernel s coordinators w = \<lparr>k_gate = s, k_router = new_router, k_container = new_container,
     k_contracts = new_registry ''contract'', k_metadata = new_metadata_registry, k_permissions = new_registry ''permission'',
     k_providers = new_registry ''provider'', k_resources = Some (new_ownership_registry coordinators),
     k_features = new_feature_registry, k_commands = new_handler_registry ''command'', k_queries = new_handler_registry ''query'',
     k_events = new_event_bus, k_middleware = \<lparr>mw_items = []\<rparr>, k_jobs = new_job_registry,
     k_provenance = \<lparr>pv_facts = [], pv_next = 0\<rparr>, k_entitlements = no_entitlements, k_outside = w\<rparr>"

lemma hide_empty [simp]: "hide gen a (\<lambda>_. None) = (\<lambda>_. None)"
  by (cases a) (simp_all add: hide_def)

lemma new_kernel_ok: "kernel_ok (new_kernel s cs w)"
  using claims_ok_new [of cs] bus_ok_new job_wf_new
  by (simp add: kernel_ok_def new_kernel_def new_router_def new_container_def new_metadata_registry_def new_feature_registry_def
      new_handler_registry_def new_ownership_registry_def)

lemma new_kernel_agree: "agree a (new_kernel s cs w) None (new_kernel s cs w)"
  by (simp add: agree_def new_kernel_def new_router_def new_container_def new_metadata_registry_def new_feature_registry_def
      new_handler_registry_def new_registry_def metadata_lookup_def [abs_def] artifact_lookup_def [abs_def]
      owner_lookup_def [abs_def] provider_lookup_def [abs_def] feature_lookup_def [abs_def] job_lookup_def [abs_def] new_job_registry_def
      event_lookup_def [abs_def] handler_at_def inner_def new_event_bus_def owner_of_def new_ownership_registry_def)

definition demo_registration :: "(nat, unit) module_registration" where
  "demo_registration = \<lparr>mg_owner = ''m'', mg_generation = demo_gen, mg_manifest = None, mg_provenance = None, mg_entitlement = None,
     mg_coordinator = None, mg_finished = False, mg_admit = \<lambda>_ f. f, mg_command_observers = [], mg_query_observers = []\<rparr>"


end
