(* ===== verification/Decimals.thy ===== *)
theory Decimals
  imports Complex_Main Errors
begin

text \<open>
  Python's \<open>decimal\<close> arithmetic as far as the unit conversion of \<open>foundations/uom\<close> uses it: finite
  decimals as sign, coefficient and exponent, operations that round to the context's precision, and
  \<open>quantize\<close> in the six rounding modes. Values are exact rationals; the exponent limits of a context
  (\<open>999999\<close>) lie far beyond the sizes the conversion lets through.
\<close>

section \<open>Decimals\<close>

datatype decimal = Finite (negative: bool) (coefficient: nat) (exponent: int) | NotFinite

abbreviation pow10 :: "int \<Rightarrow> rat" where
  "pow10 e \<equiv> power_int 10 e"

definition is_finite :: "decimal \<Rightarrow> bool" where
  "is_finite d \<longleftrightarrow> d \<noteq> NotFinite"

fun value_of :: "decimal \<Rightarrow> rat" where
  "value_of (Finite s c e) = (if s then - 1 else 1) * of_nat c * pow10 e"
| "value_of NotFinite = 0"

fun num_digits :: "nat \<Rightarrow> nat" where
  "num_digits n = (if n < 10 then 1 else Suc (num_digits (n div 10)))"

declare num_digits.simps [simp del]

text \<open>\<open>Decimal.adjusted\<close>, the length of \<open>as_tuple().digits\<close> and the exponent of \<open>as_tuple()\<close>.\<close>

definition adjusted :: "decimal \<Rightarrow> int" where
  "adjusted d = exponent d + int (num_digits (coefficient d)) - 1"

section \<open>Rounding\<close>

datatype rounding = HALF_UP | HALF_EVEN | FLOOR | CEILING | UP | DOWN

fun round_mode :: "rounding \<Rightarrow> rat \<Rightarrow> int" where
  "round_mode FLOOR x = \<lfloor>x\<rfloor>"
| "round_mode CEILING x = \<lceil>x\<rceil>"
| "round_mode DOWN x = (if x < 0 then \<lceil>x\<rceil> else \<lfloor>x\<rfloor>)"
| "round_mode UP x = (if x < 0 then \<lfloor>x\<rfloor> else \<lceil>x\<rceil>)"
| "round_mode HALF_UP x =
     (let r = x - of_int \<lfloor>x\<rfloor>
      in if r < 1/2 then \<lfloor>x\<rfloor> else if r > 1/2 then \<lfloor>x\<rfloor> + 1 else if x < 0 then \<lfloor>x\<rfloor> else \<lfloor>x\<rfloor> + 1)"
| "round_mode HALF_EVEN x =
     (let r = x - of_int \<lfloor>x\<rfloor>
      in if r < 1/2 then \<lfloor>x\<rfloor> else if r > 1/2 then \<lfloor>x\<rfloor> + 1 else if even \<lfloor>x\<rfloor> then \<lfloor>x\<rfloor> else \<lfloor>x\<rfloor> + 1)"

text \<open>The magnitude of a positive rational: the \<open>m\<close> with \<open>10^m \<le> x < 10^(m+1)\<close>.\<close>

function small_magnitude :: "nat \<Rightarrow> nat \<Rightarrow> int" where
  "small_magnitude a b = (if a = 0 \<or> a \<ge> b then 0 else small_magnitude (10 * a) b - 1)"
  by pat_completeness auto
termination by (relation "measure (\<lambda>(a, b). b - a)") auto

declare small_magnitude.simps [simp del]

definition magnitude :: "rat \<Rightarrow> int" where
  "magnitude x =
     (let (a, b) = quotient_of \<bar>x\<bar>
      in if a \<ge> b then int (num_digits (nat (a div b))) - 1 else small_magnitude (nat a) (nat b))"

text \<open>The result of an operation of a context with precision \<open>P\<close> and the default \<open>ROUND_HALF_EVEN\<close>.\<close>

definition round_sig :: "nat \<Rightarrow> rat \<Rightarrow> rat" where
  "round_sig P x =
     (if x = 0 then 0
      else let u = pow10 (magnitude x - int P + 1) in of_int (round_mode HALF_EVEN (x / u)) * u)"

text \<open>\<open>quantize\<close> to \<open>p\<close> places: the coefficient, or nothing when it does not fit the precision.\<close>

definition quantize :: "nat \<Rightarrow> rounding \<Rightarrow> nat \<Rightarrow> rat \<Rightarrow> int option" where
  "quantize P m p x =
     (let n = round_mode m (x * 10 ^ p) in if \<bar>n\<bar> \<ge> 10 ^ P then None else Some n)"

section \<open>Digits and magnitudes\<close>

lemma num_digits_bounds: "n < 10 ^ num_digits n \<and> (n > 0 \<longrightarrow> 10 ^ (num_digits n - 1) \<le> n) \<and> num_digits n > 0"
proof (induction n rule: num_digits.induct)
  case (1 n)
  show ?case
  proof (cases "n < 10")
    case True
    then show ?thesis by (subst (1 2 3) num_digits.simps) simp
  next
    case False
    with 1 have IH: "n div 10 < 10 ^ num_digits (n div 10)" "10 ^ (num_digits (n div 10) - 1) \<le> n div 10" "num_digits (n div 10) > 0"
      by simp_all
    have eq: "num_digits n = Suc (num_digits (n div 10))" using False by (subst num_digits.simps) simp
    have "n < 10 * 10 ^ num_digits (n div 10)" using IH(1) by (simp add: div_less_iff_less_mult mult.commute)
    moreover have "10 * 10 ^ (num_digits (n div 10) - 1) \<le> n" using IH(2) by (simp add: less_eq_div_iff_mult_less_eq mult.commute)
    moreover have "10 * 10 ^ (num_digits (n div 10) - 1) = (10 :: nat) ^ num_digits (n div 10)"
      using IH(3) by (metis power_minus_mult mult.commute)
    ultimately show ?thesis by (simp add: eq)
  qed
qed

lemma pow10_pos [simp]: "0 < pow10 e"
  by simp

lemma pow10_add: "pow10 (a + b) = pow10 a * pow10 b"
  by (simp add: power_int_add)

lemma pow10_nat: "a \<ge> 0 \<Longrightarrow> pow10 a = 10 ^ nat a"
  by (simp add: power_int_def)

lemma pow10_mono: "a \<le> b \<Longrightarrow> pow10 a \<le> pow10 b"
  by (rule power_int_increasing) simp_all

lemma pow10_less_iff: "pow10 a < pow10 b \<longleftrightarrow> a < b"
proof
  show "a < b \<Longrightarrow> pow10 a < pow10 b" by (rule power_int_strict_increasing) simp_all
  show "pow10 a < pow10 b \<Longrightarrow> a < b" using pow10_mono [of b a] by force
qed

lemma pow10_diff: "pow10 (a - b) = pow10 a / pow10 b"
  by (simp add: power_int_diff)

text \<open>A decimal's value lies below the power after its adjusted exponent, and from it when it is not zero.\<close>

lemma value_bound:
  assumes "is_finite d"
  shows "\<bar>value_of d\<bar> < pow10 (adjusted d + 1)"
proof -
  obtain s c e where d: "d = Finite s c e" using assms by (cases d) (auto simp: is_finite_def)
  have "rat_of_nat c < 10 ^ num_digits c" using num_digits_bounds [of c] by (metis of_nat_less_iff of_nat_numeral of_nat_power)
  then have "rat_of_nat c * pow10 e < pow10 (int (num_digits c)) * pow10 e"
    by (intro mult_strict_right_mono) (simp_all add: pow10_nat)
  also have "\<dots> = pow10 (adjusted d + 1)" by (simp add: d adjusted_def pow10_add)
  finally show ?thesis by (cases s) (simp_all add: d abs_mult)
qed

lemma value_lower:
  assumes "is_finite d" and "value_of d \<noteq> 0"
  shows "pow10 (adjusted d) \<le> \<bar>value_of d\<bar>"
proof -
  obtain s c e where d: "d = Finite s c e" using assms(1) by (cases d) (auto simp: is_finite_def)
  with assms(2) have "c > 0" by (cases c) auto
  then have "10 ^ (num_digits c - 1) \<le> c" using num_digits_bounds [of c] by simp
  then have "10 ^ (num_digits c - 1) \<le> rat_of_nat c" by (metis of_nat_le_iff of_nat_numeral of_nat_power)
  moreover have "pow10 (int (num_digits c) - 1) = 10 ^ (num_digits c - 1)"
    using num_digits_bounds [of c] by (simp add: pow10_nat nat_diff_distrib)
  ultimately have "pow10 (int (num_digits c) - 1) * pow10 e \<le> rat_of_nat c * pow10 e" by simp
  then show ?thesis by (simp add: d adjusted_def abs_mult pow10_add [symmetric] algebra_simps)
qed

lemma small_magnitude_bounds:
  "0 < a \<Longrightarrow> a < 10 * b \<Longrightarrow>
   pow10 (small_magnitude a b) \<le> of_nat a / of_nat b \<and> of_nat a / of_nat b < pow10 (small_magnitude a b + 1)"
proof (induction a b rule: small_magnitude.induct)
  case (1 a b)
  show ?case
  proof (cases "a \<ge> b")
    case True
    have "rat_of_nat a < of_nat (10 * b)" "rat_of_nat b \<le> of_nat a" using 1 True by (simp_all only: of_nat_less_iff of_nat_le_iff)
    moreover have "0 < rat_of_nat b" using 1 by simp
    ultimately show ?thesis using True by (subst (1 2) small_magnitude.simps) (simp add: field_simps)
  next
    case False
    with 1 have IH: "pow10 (small_magnitude (10 * a) b) \<le> of_nat (10 * a) / of_nat b"
      "of_nat (10 * a) / of_nat b < pow10 (small_magnitude (10 * a) b + 1)" by simp_all
    have eq: "small_magnitude a b = small_magnitude (10 * a) b - 1" using 1 False by (subst small_magnitude.simps) simp
    have "pow10 (small_magnitude a b) = pow10 (small_magnitude (10 * a) b) / 10" by (simp add: eq pow10_diff)
    moreover have "pow10 (small_magnitude a b + 1) = pow10 (small_magnitude (10 * a) b + 1) / 10"
      by (simp add: eq pow10_add)
    ultimately show ?thesis using IH by simp
  qed
qed

lemma magnitude_bounds:
  assumes "x \<noteq> 0"
  shows "pow10 (magnitude x) \<le> \<bar>x\<bar> \<and> \<bar>x\<bar> < pow10 (magnitude x + 1)"
proof -
  obtain a b where ab: "quotient_of \<bar>x\<bar> = (a, b)" by (cases "quotient_of \<bar>x\<bar>")
  have b: "b > 0" and x: "\<bar>x\<bar> = of_int a / of_int b" using quotient_of_denom_pos [OF ab] quotient_of_div [OF ab] by simp_all
  have a: "a > 0" using assms b x by (metis zero_less_abs_iff zero_less_divide_iff of_int_0_less_iff not_less_iff_gr_or_eq)
  show ?thesis
  proof (cases "a \<ge> b")
    case True
    define n where "n = nat (a div b)"
    have n: "n > 0" using True b by (simp add: n_def pos_imp_zdiv_pos_iff)
    have "int n = \<lfloor>\<bar>x\<bar>\<rfloor>" using a b by (simp add: n_def x floor_divide_of_int_eq pos_imp_zdiv_nonneg_iff)
    then have lo: "rat_of_nat n \<le> \<bar>x\<bar>" and hi: "\<bar>x\<bar> < of_nat n + 1"
      by (metis floor_correct of_int_of_nat_eq of_int_add of_int_1)+
    have "rat_of_nat (10 ^ (num_digits n - 1)) \<le> of_nat n"
      using num_digits_bounds [of n] n by (intro of_nat_mono) simp
    moreover have "rat_of_nat (n + 1) \<le> of_nat (10 ^ num_digits n)"
      using num_digits_bounds [of n] by (intro of_nat_mono) simp
    moreover have "magnitude x = int (num_digits n) - 1" using True by (simp add: magnitude_def ab n_def)
    moreover have "nat (int (num_digits n) - 1) = num_digits n - 1" by simp
    ultimately have "pow10 (magnitude x) \<le> of_nat n" "of_nat n + 1 \<le> pow10 (magnitude x + 1)"
      using num_digits_bounds [of n] by (simp_all add: pow10_nat)
    with lo hi show ?thesis by linarith
  next
    case False
    then have "magnitude x = small_magnitude (nat a) (nat b)" by (simp add: magnitude_def ab)
    moreover have "\<bar>x\<bar> = of_nat (nat a) / of_nat (nat b)" using a b x by simp
    ultimately show ?thesis using small_magnitude_bounds [of "nat a" "nat b"] False a b by simp
  qed
qed

section \<open>Exact operations\<close>

text \<open>The rationals with at most \<open>f\<close> decimal places.\<close>

definition grid :: "int \<Rightarrow> rat \<Rightarrow> bool" where
  "grid f x \<longleftrightarrow> (\<exists>k. x = of_int k * pow10 (- f))"

lemma gridI: "x = of_int k * pow10 (- f) \<Longrightarrow> grid f x"
  by (auto simp: grid_def)

lemma grid_mono:
  assumes "f \<le> g" and "grid f x"
  shows "grid g x"
proof -
  from assms(2) obtain k where k: "x = of_int k * pow10 (- f)" by (auto simp: grid_def)
  have "pow10 (- f) = pow10 (g - f) * pow10 (- g)" by (simp add: pow10_add [symmetric])
  then have "x = of_int (k * 10 ^ nat (g - f)) * pow10 (- g)" using assms(1) by (simp add: k pow10_nat)
  then show ?thesis by (rule gridI)
qed

lemma grid_mult: "grid f x \<Longrightarrow> grid g y \<Longrightarrow> grid (f + g) (x * y)"
proof -
  assume "grid f x" "grid g y"
  then obtain k l where "x = of_int k * pow10 (- f)" "y = of_int l * pow10 (- g)" by (auto simp: grid_def)
  then have "x * y = of_int (k * l) * pow10 (- (f + g))" by (simp add: pow10_add [symmetric] algebra_simps)
  then show ?thesis by (rule gridI)
qed

lemma grid_same_add: "grid f x \<Longrightarrow> grid f y \<Longrightarrow> grid f (x + y)"
proof -
  assume "grid f x" "grid f y"
  then obtain k l where "x = of_int k * pow10 (- f)" "y = of_int l * pow10 (- f)" by (auto simp: grid_def)
  then have "x + y = of_int (k + l) * pow10 (- f)" by (simp add: algebra_simps)
  then show ?thesis by (rule gridI)
qed

lemma grid_add: "grid f x \<Longrightarrow> grid g y \<Longrightarrow> grid (max f g) (x + y)"
  by (rule grid_same_add) (auto elim: grid_mono [rotated])

lemma grid_minus: "grid f x \<Longrightarrow> grid f (- x)"
  by (auto simp: grid_def) (metis mult_minus_left of_int_minus)

lemma grid_diff: "grid f x \<Longrightarrow> grid g y \<Longrightarrow> grid (max f g) (x - y)"
  using grid_add [OF _ grid_minus, of f x g y] by simp

lemma grid_away_from_zero: "grid f x \<Longrightarrow> x \<noteq> 0 \<Longrightarrow> pow10 (- f) \<le> \<bar>x\<bar>"
proof -
  assume "grid f x" "x \<noteq> 0"
  then obtain k where k: "x = of_int k * pow10 (- f)" "k \<noteq> 0" by (auto simp: grid_def)
  then have "1 \<le> \<bar>rat_of_int k\<bar>" by linarith
  then have "1 * pow10 (- f) \<le> \<bar>rat_of_int k\<bar> * pow10 (- f)" by (intro mult_right_mono) simp_all
  then show ?thesis by (simp add: k abs_mult)
qed

text \<open>A value of the grid that fits the precision is not rounded.\<close>

lemma round_mode_of_int [simp]: "round_mode m (of_int k) = k"
  by (cases m) simp_all

lemma round_sig_exact:
  assumes "grid f x" and "\<bar>x\<bar> < pow10 i" and "i + f \<le> int P"
  shows "round_sig P x = x"
proof (cases "x = 0")
  case False
  define u where "u = pow10 (magnitude x - int P + 1)"
  from assms(1) obtain k where k: "x = of_int k * pow10 (- f)" by (auto simp: grid_def)
  have "pow10 (magnitude x) < pow10 i" using magnitude_bounds [OF False] assms(2) by linarith
  then have "magnitude x < i" by (simp only: pow10_less_iff)
  then have e: "0 \<le> - f - (magnitude x - int P + 1)" using assms(3) by simp
  have "x / u = of_int k * pow10 (- f - (magnitude x - int P + 1))" by (simp only: k u_def pow10_diff times_divide_eq_right)
  then have q: "x / u = of_int (k * 10 ^ nat (- f - (magnitude x - int P + 1)))" using e by (simp add: pow10_nat)
  have "round_sig P x = of_int (round_mode HALF_EVEN (x / u)) * u" by (simp only: round_sig_def Let_def u_def False if_False)
  also have "\<dots> = x / u * u" by (simp only: q round_mode_of_int)
  finally show ?thesis by (simp add: u_def)
qed (simp add: round_sig_def)

text \<open>Rounding to nearest moves a value by at most half a unit, any mode by less than one.\<close>

lemma round_half_even_error: "\<bar>of_int (round_mode HALF_EVEN x) - x\<bar> \<le> 1 / 2"
  using of_int_floor_le [of x] floor_correct [of x]
  by (simp only: round_mode.simps Let_def split: if_split) linarith

lemma round_mode_error: "\<bar>of_int (round_mode m x) - x\<bar> < 1"
  using of_int_floor_le [of x] floor_correct [of x] le_of_int_ceiling [of x] ceiling_correct [of x]
  by (cases m; simp only: round_mode.simps Let_def split: if_split; linarith)

lemma round_sig_error:
  assumes "x \<noteq> 0"
  shows "\<bar>round_sig P x - x\<bar> \<le> pow10 (magnitude x - int P + 1) / 2"
proof -
  define u where "u = pow10 (magnitude x - int P + 1)"
  have u: "u > 0" by (simp add: u_def)
  have "round_sig P x = of_int (round_mode HALF_EVEN (x / u)) * u"
    by (simp only: round_sig_def Let_def u_def assms if_False)
  then have "round_sig P x - x = (of_int (round_mode HALF_EVEN (x / u)) - x / u) * u"
    using u by (simp only: left_diff_distrib) simp
  also have "\<bar>\<dots>\<bar> \<le> 1 / 2 * u"
    unfolding abs_mult using u by (intro mult_mono round_half_even_error) simp_all
  finally show ?thesis by (simp add: u_def)
qed

lemma round_sig_below:
  assumes "\<bar>x\<bar> < pow10 (q - 1)" and "P > 0"
  shows "\<bar>round_sig P x\<bar> < pow10 q"
proof (cases "x = 0")
  case False
  have "pow10 (magnitude x - int P + 1) \<le> pow10 (magnitude x)" using assms(2) by (intro pow10_mono) simp
  then have "\<bar>round_sig P x - x\<bar> \<le> \<bar>x\<bar> / 2"
    using round_sig_error [OF False, of P] magnitude_bounds [OF False] by linarith
  then have "\<bar>round_sig P x\<bar> \<le> 2 * \<bar>x\<bar>" by linarith
  moreover have "pow10 q = 10 * pow10 (q - 1)" using pow10_add [of 1 "q - 1"] by simp
  ultimately show ?thesis using assms(1) by linarith
qed (simp add: round_sig_def)

text \<open>Between two neighbouring multiples of one half every mode rounds all values alike.\<close>

lemma round_mode_cell:
  assumes "of_int j / 2 < x" and "x < (of_int j + 1) / 2"
  shows "round_mode m x =
    (case m of FLOOR \<Rightarrow> j div 2 | CEILING \<Rightarrow> j div 2 + 1
     | DOWN \<Rightarrow> if j < 0 then j div 2 + 1 else j div 2 | UP \<Rightarrow> if j < 0 then j div 2 else j div 2 + 1
     | _ \<Rightarrow> if even j then j div 2 else j div 2 + 1)"
proof -
  have j: "j = 2 * (j div 2) + j mod 2" "j mod 2 = 0 \<or> j mod 2 = 1" by presburger+
  then have r: "rat_of_int j = 2 * of_int (j div 2) + of_int (j mod 2)" by (metis of_int_add of_int_mult of_int_numeral)
  have f: "\<lfloor>x\<rfloor> = j div 2" using assms r j(2) by (intro floor_unique) auto
  have c: "\<lceil>x\<rceil> = j div 2 + 1" using assms r j(2) by (intro ceiling_unique) auto
  have s: "x < 0 \<longleftrightarrow> j < 0"
  proof
    show "j < 0" if "x < 0" using that assms(1) by linarith
    show "x < 0" if "j < 0"
    proof -
      have "rat_of_int j + 1 \<le> 0" using that by (metis of_int_add of_int_1 of_int_le_0_iff zless_imp_add1_zle)
      then have "(rat_of_int j + 1) / 2 \<le> 0" by simp
      with assms(2) show ?thesis by (rule less_le_trans)
    qed
  qed
  have h: "x - of_int (j div 2) < 1 / 2 \<longleftrightarrow> even j" "x - of_int (j div 2) > 1 / 2 \<longleftrightarrow> odd j"
    using assms r j(2) by (auto simp: even_iff_mod_2_eq_zero odd_iff_mod_2_eq_one)
  show ?thesis by (cases m) (simp_all only: round_mode.simps Let_def f c s h rounding.case, auto)
qed

lemma round_mode_same_cell:
  assumes "\<And>j :: int. \<bar>z - y\<bar> < \<bar>y - of_int j / 2\<bar>"
  shows "round_mode m z = round_mode m y"
proof -
  define j where "j = \<lfloor>2 * y\<rfloor>"
  have j: "of_int j \<le> 2 * y" "2 * y < of_int j + 1" using floor_correct [of "2 * y"] by (simp_all add: j_def)
  have "\<bar>z - y\<bar> < y - of_int j / 2" using assms [of j] j by simp
  moreover have "\<bar>z - y\<bar> < (of_int j + 1) / 2 - y" using assms [of "j + 1"] j by simp
  ultimately have "of_int j / 2 < y" "y < (of_int j + 1) / 2" "of_int j / 2 < z" "z < (of_int j + 1) / 2"
    by (auto simp: abs_less_iff)
  then show ?thesis by (simp only: round_mode_cell)
qed

section \<open>Rounding a rounded quotient\<close>

text \<open>
  A quotient that is not a multiple of half a unit of the last place \<open>p\<close> keeps a distance from all such
  multiples that its divisor's digits determine.
\<close>

lemma quotient_distance:
  assumes N: "grid f N" and R: "R = of_nat c * pow10 e" "R > 0" and h: "h = of_int j * 5 * pow10 (- (p + 1))"
    and ne: "N / R \<noteq> h"
  shows "pow10 (- max f (p + 1 - e)) / R \<le> \<bar>N / R - h\<bar>"
proof -
  have "h * R = of_int (j * 5 * int c) * pow10 (- (p + 1 - e))"
    by (simp add: h R(1) pow10_add [symmetric] algebra_simps)
  then have "grid (p + 1 - e) (h * R)" by (rule gridI)
  then have "grid (max f (p + 1 - e)) (N - h * R)" by (rule grid_diff [OF N])
  moreover have "N - h * R \<noteq> 0" using ne R(2) by (auto simp: field_simps)
  ultimately have "pow10 (- max f (p + 1 - e)) \<le> \<bar>N - h * R\<bar>" by (rule grid_away_from_zero)
  moreover have "N / R - h = (N - h * R) / R" using R(2) by (simp add: diff_divide_distrib)
  then have "\<bar>N / R - h\<bar> = \<bar>N - h * R\<bar> / R" using R(2) by (simp only: abs_divide abs_of_pos)
  ultimately show ?thesis using R(2) by (simp add: divide_right_mono)
qed

lemma quotient_unit:
  assumes N: "\<bar>N\<bar> < 2 * pow10 (i - 1)" "N \<noteq> 0" "i + f \<le> P" and R: "0 < R" "R < pow10 (e + d)"
    and Q: "\<bar>N / R\<bar> < pow10 (q - 1)" "q + p + d + 2 \<le> P"
  shows "pow10 (magnitude (N / R) - P + 1) / 2 < pow10 (- max f (p + 1 - e)) / R"
proof -
  let ?m = "magnitude (N / R)"
  have nz: "N / R \<noteq> 0" using N(2) R(1) by simp
  have lo: "pow10 ?m \<le> \<bar>N / R\<bar>" using magnitude_bounds [OF nz] by simp
  have u: "pow10 (?m - P + 1) = pow10 ?m * pow10 (1 - P)" by (simp add: pow10_add [symmetric] algebra_simps)
  have "pow10 (?m - P + 1) * R < 2 * pow10 (- max f (p + 1 - e))"
  proof (cases "f \<ge> p + 1 - e")
    case True
    have "pow10 ?m * R \<le> \<bar>N\<bar>" using lo R(1) by (simp add: pos_le_divide_eq)
    with N(1) have "pow10 ?m * R * pow10 (1 - P) < 2 * pow10 (i - 1) * pow10 (1 - P)"
      by (intro mult_strict_right_mono) simp_all
    also have "\<dots> = 2 * pow10 (i - P)" by (simp add: pow10_add [symmetric])
    also have "\<dots> \<le> 2 * pow10 (- f)" using N(3) pow10_mono [of "i - P" "- f"] by simp
    finally show ?thesis using True by (simp add: u max_absorb1 mult.commute mult.left_commute)
  next
    case False
    have "pow10 ?m < pow10 (q - 1)" using lo Q(1) by (rule le_less_trans)
    then have "?m < q - 1" by (simp only: pow10_less_iff)
    then have "pow10 (?m - P + 1) \<le> pow10 (- p - d - 2)" using Q(2) by (intro pow10_mono) simp
    then have "pow10 (?m - P + 1) * R < pow10 (- p - d - 2) * pow10 (e + d)"
      using R by (intro mult_le_less_imp_less) simp_all
    also have "\<dots> = pow10 (e - p - 2)" by (simp add: pow10_add [symmetric] algebra_simps)
    also have "\<dots> \<le> pow10 (- (p + 1 - e))" by (rule pow10_mono) simp
    also have "\<dots> \<le> 2 * pow10 (- (p + 1 - e))" by simp
    finally show ?thesis using False by (simp add: max_absorb2)
  qed
  then show ?thesis using R(1) by (simp add: field_simps)
qed

lemma scaled_distance:
  assumes "\<bar>r - q\<bar> < \<bar>q - h / 10 ^ p\<bar>"
  shows "\<bar>r * 10 ^ p - q * 10 ^ p\<bar> < \<bar>q * 10 ^ p - (h :: rat)\<bar>"
proof -
  have "\<bar>r - q\<bar> * 10 ^ p < \<bar>q - h / 10 ^ p\<bar> * 10 ^ p" using assms by (intro mult_strict_right_mono) simp_all
  moreover have "\<bar>r - q\<bar> * 10 ^ p = \<bar>(r - q) * 10 ^ p\<bar>" "\<bar>q - h / 10 ^ p\<bar> * 10 ^ p = \<bar>(q - h / 10 ^ p) * 10 ^ p\<bar>"
    by (simp_all only: abs_mult power_abs abs_numeral)
  ultimately show ?thesis by (simp add: left_diff_distrib)
qed

text \<open>So the quotient rounded to the precision and then to \<open>p\<close> places is the exact quotient rounded once.\<close>

lemma round_mode_round_sig_quotient:
  assumes N: "grid f N" "\<bar>N\<bar> < 2 * pow10 (i - 1)" "i + f \<le> int P"
    and R: "R = of_nat c * pow10 e" "0 < R" "R < pow10 (e + d)"
    and Q: "\<bar>N / R\<bar> < pow10 (q - 1)" "q + int p + d + 2 \<le> int P" "d \<ge> 0"
  shows "round_mode m (round_sig P (N / R) * 10 ^ p) = round_mode m (N / R * 10 ^ p)"
proof -
  have half: "rat_of_int j / 2 / 10 ^ p = of_int j * 5 * pow10 (- (int p + 1))" for j
    by (simp add: power_int_minus power_int_def nat_add_distrib field_simps)
  show ?thesis
  proof (cases "\<exists>j. N / R * 10 ^ p = of_int j / 2")
    case True
    then obtain j where "N / R = rat_of_int j / 2 / 10 ^ p" by (metis nonzero_mult_div_cancel_right power_not_zero zero_neq_numeral)
    then have "N / R = of_int (j * 5) * pow10 (- (int p + 1))" by (simp only: half of_int_mult of_int_numeral)
    then have "grid (int p + 1) (N / R)" by (rule gridI)
    then have "round_sig P (N / R) = N / R" using Q by (intro round_sig_exact [of "int p + 1" _ "q - 1"]) simp_all
    then show ?thesis by simp
  next
    case False
    then have nz: "N \<noteq> 0" by (metis div_0 mult_zero_left of_int_0)
    have "\<bar>round_sig P (N / R) - N / R\<bar> < \<bar>N / R - rat_of_int j / 2 / 10 ^ p\<bar>" for j
    proof -
      have "N / R \<noteq> rat_of_int j / 2 / 10 ^ p" using False by (auto simp: field_simps)
      then have "pow10 (- max f (int p + 1 - e)) / R \<le> \<bar>N / R - rat_of_int j / 2 / 10 ^ p\<bar>"
        using quotient_distance [OF N(1) R(1,2) refl, of j "int p"] by (simp only: half) simp
      moreover have "\<bar>round_sig P (N / R) - N / R\<bar> \<le> pow10 (magnitude (N / R) - int P + 1) / 2"
        using nz R(2) by (intro round_sig_error) simp
      moreover have "pow10 (magnitude (N / R) - int P + 1) / 2 < pow10 (- max f (int p + 1 - e)) / R"
        by (rule quotient_unit [OF N(2) nz N(3) R(2,3) Q(1,2)])
      ultimately show ?thesis by linarith
    qed
    then have "\<bar>round_sig P (N / R) * 10 ^ p - N / R * 10 ^ p\<bar> < \<bar>N / R * 10 ^ p - rat_of_int j / 2\<bar>" for j
      by (rule scaled_distance)
    then show ?thesis by (rule round_mode_same_cell)
  qed
qed

end
