(* ===== verification/Tables.thy ===== *)
theory Tables
  imports Context "HOL-Library.Multiset"
begin

text \<open>
  What the foundations under \<open>src/foundations\<close> use of their PostgreSQL tables: a table is the list of
  its rows; an insert checks the constraints its \<open>models.py\<close> declares; a select filters, orders and
  pages. The collation that orders strings is the database's and stays a parameter.
\<close>

section \<open>Statements\<close>

definition insert_row :: "('r \<Rightarrow> 'r \<Rightarrow> bool) \<Rightarrow> ('r \<Rightarrow> bool) \<Rightarrow> 'r \<Rightarrow> 'r list \<Rightarrow> exn + 'r list" where
  "insert_row clash ok r rows =
     (if \<not> ok r then Inl (ForeignError ''CheckViolation'')
      else if list_ex (clash r) rows then Inl (ForeignError ''UniqueViolation'')
      else Inr (rows @ [r]))"

definition select_first :: "('r \<Rightarrow> bool) \<Rightarrow> 'r list \<Rightarrow> 'r option" where
  "select_first p rows = List.find p rows"

fun insort_by :: "('r \<Rightarrow> 'r \<Rightarrow> bool) \<Rightarrow> 'r \<Rightarrow> 'r list \<Rightarrow> 'r list" where
  "insort_by le x [] = [x]"
| "insort_by le x (y # ys) = (if le x y then x # y # ys else y # insort_by le x ys)"

definition order_by :: "('r \<Rightarrow> 'r \<Rightarrow> bool) \<Rightarrow> 'r list \<Rightarrow> 'r list" where
  "order_by le rows = foldr (insort_by le) rows []"

definition page :: "int \<Rightarrow> int \<Rightarrow> 'r list \<Rightarrow> 'r list" where
  "page limit offset rows = take (nat limit) (drop (nat offset) rows)"

definition select_page :: "('r \<Rightarrow> 'r \<Rightarrow> bool) \<Rightarrow> ('r \<Rightarrow> bool) \<Rightarrow> int \<Rightarrow> int \<Rightarrow> 'r list \<Rightarrow> 'r list" where
  "select_page le p limit offset rows = page limit offset (order_by le (filter p rows))"

section \<open>The tenant boundary of a handler\<close>

definition require_tenant :: "request_context option \<Rightarrow> uuid \<Rightarrow> exn + tenant_context" where
  "require_tenant req target =
     (case Option.bind req tenant of
        None \<Rightarrow> Inl (BusinessOSError ''tenant_context_required'' ''Tenant context is required'' 400)
      | Some ten \<Rightarrow>
          if tenant_id ten \<noteq> target
          then Inl (BusinessOSError ''tenant_scope_mismatch'' ''Target tenant does not match active boundary'' 403)
          else Inr ten)"

lemma require_tenant_Inr:
  "require_tenant req target = Inr ten \<longleftrightarrow>
     (\<exists>ctx. req = Some ctx \<and> tenant ctx = Some ten \<and> tenant_id ten = target)"
  by (auto simp: require_tenant_def Option.bind_eq_Some_conv split: option.splits Option.bind_splits)

section \<open>Laws of the statements\<close>

lemma insert_row_Inr [simp]:
  "insert_row clash ok r rows = Inr rows' \<longleftrightarrow> ok r \<and> (\<forall>x \<in> set rows. \<not> clash r x) \<and> rows' = rows @ [r]"
  by (auto simp: insert_row_def list_ex_iff)

lemma select_first_Some:
  "select_first p rows = Some r \<Longrightarrow> r \<in> set rows \<and> p r"
  by (auto simp: select_first_def find_Some_iff)

lemma select_first_None: "select_first p rows = None \<longleftrightarrow> (\<forall>r \<in> set rows. \<not> p r)"
  by (auto simp: select_first_def find_None_iff)

lemma select_first_append:
  "select_first p (rows @ [r]) = (case select_first p rows of Some x \<Rightarrow> Some x | None \<Rightarrow> if p r then Some r else None)"
  by (induction rows) (auto simp: select_first_def)

lemma mset_insort_by [simp]: "mset (insort_by le x ys) = add_mset x (mset ys)"
  by (induction ys) auto

lemma mset_order_by [simp]: "mset (order_by le rows) = mset rows"
  unfolding order_by_def by (induction rows) auto

lemma set_order_by [simp]: "set (order_by le rows) = set rows"
  by (metis mset_order_by set_mset_mset)

lemma select_page_sound: "r \<in> set (select_page le p limit offset rows) \<Longrightarrow> r \<in> set rows \<and> p r"
  by (auto simp: select_page_def page_def dest!: in_set_takeD in_set_dropD)

lemma length_select_page: "length (select_page le p limit offset rows) \<le> nat limit"
  by (simp add: select_page_def page_def)

text \<open>Consecutive pages of a listing put together are the listing.\<close>

lemma page_page:
  "0 \<le> limit \<Longrightarrow> 0 \<le> limit' \<Longrightarrow> 0 \<le> offset \<Longrightarrow>
   page limit offset rows @ page limit' (offset + limit) rows = page (limit + limit') offset rows"
  by (simp add: page_def nat_add_distrib take_add drop_drop add.commute)

section \<open>A table with a unique key\<close>

text \<open>
  What the clients of a table rely on: rows that clash have the same key and conversely. Its lemmas are
  the laws of lookup and insert by key.
\<close>

locale keyed_table =
  fixes clash :: "'r \<Rightarrow> 'r \<Rightarrow> bool" and key :: "'r \<Rightarrow> 'k"
  assumes same_key_clash: "key a = key b \<Longrightarrow> clash a b"
begin

definition keys_ok :: "'r list \<Rightarrow> bool" where
  "keys_ok rows \<longleftrightarrow> distinct (map key rows)"

lemma keys_ok_Nil: "keys_ok []"
  by (simp add: keys_ok_def)

lemma keys_ok_insert: "insert_row clash ok r rows = Inr rows' \<Longrightarrow> keys_ok rows \<Longrightarrow> keys_ok rows'"
  by (auto simp: keys_ok_def dest: same_key_clash)

lemma lookup_unique: "keys_ok rows \<Longrightarrow> r \<in> set rows \<Longrightarrow> select_first (\<lambda>x. key x = key r) rows = Some r"
proof (induction rows)
  case (Cons a rows)
  show ?case
  proof (cases "key a = key r")
    case True
    with Cons.prems have "a = r" by (auto simp: keys_ok_def)
    then show ?thesis by (simp add: select_first_def)
  next
    case False
    with Cons show ?thesis by (auto simp: keys_ok_def select_first_def)
  qed
qed (simp add: select_first_def)

lemma lookup_insert:
  assumes "insert_row clash ok r rows = Inr rows'"
  shows "select_first (\<lambda>x. key x = k) rows' = (if k = key r then Some r else select_first (\<lambda>x. key x = k) rows)"
proof -
  have "select_first (\<lambda>x. key x = key r) rows = None"
    using assms same_key_clash by (fastforce simp: select_first_None)
  with assms show ?thesis by (auto simp: select_first_append split: option.split)
qed

lemma refused_insert:
  assumes "ok r" and "x \<in> set rows" and "key r = key x"
  shows "insert_row clash ok r rows = Inl (ForeignError ''UniqueViolation'')"
  using assms same_key_clash [of r x] by (auto simp: insert_row_def list_ex_iff)

end

end
