(* ===== verification/Uom.thy ===== *)
theory Uom
  imports Decimals Tables
begin

text \<open>
  The units-of-measure foundation (\<open>foundations/uom\<close>): the conversion service of \<open>contracts.py\<close> and the
  command and query handlers of \<open>module.py\<close> over the tables of \<open>models.py\<close>. The result of a conversion is
  a rational; the sign of a zero is not tracked.
\<close>

section \<open>Records\<close>

record measurement_category =
  mc_id :: uuid
  mc_tenant :: uuid
  mc_code :: string
  mc_name :: string
  mc_description :: "string option"
  mc_base_unit :: string
  mc_active :: bool
  mc_created :: instant

record unit_of_measure =
  um_id :: uuid
  um_tenant :: uuid
  um_category :: string
  um_code :: string
  um_name :: string
  um_symbol :: string
  um_is_base :: bool
  um_ratio :: decimal
  um_offset :: decimal
  um_precision :: int
  um_rounding :: string
  um_active :: bool
  um_created :: instant

record converted_amount =
  ca_from :: string
  ca_to :: string
  ca_original :: decimal
  ca_converted :: rat
  ca_precision :: int

section \<open>The conversion service\<close>

definition max_uom_decimal_places :: int where "max_uom_decimal_places = 100"
definition max_uom_context_digits :: int where "max_uom_context_digits = 512"
definition min_division_guard_digits :: int where "min_division_guard_digits = 16"

definition rounding_modes :: "string \<Rightarrow> rounding option" where
  "rounding_modes = map_of
     [(''ROUND_HALF_UP'', HALF_UP), (''ROUND_HALF_EVEN'', HALF_EVEN), (''ROUND_FLOOR'', FLOOR),
      (''ROUND_CEILING'', CEILING), (''ROUND_UP'', UP), (''ROUND_DOWN'', DOWN)]"

definition conversion_error :: exn where
  "conversion_error =
     BusinessOSError ''uom_conversion_out_of_range'' ''UoM conversion exceeds the supported numeric range'' 422"

definition integer_digits :: "decimal \<Rightarrow> int" where
  "integer_digits d = max 1 (adjusted d + 1)"

definition fractional_digits :: "decimal \<Rightarrow> int" where
  "fractional_digits d = max 0 (- exponent d)"

definition conversion_context_digits :: "decimal \<Rightarrow> decimal \<Rightarrow> decimal \<Rightarrow> decimal \<Rightarrow> decimal \<Rightarrow> int \<Rightarrow> int" where
  "conversion_context_digits amount from_ratio from_offset to_ratio to_offset places =
     (let product_integer = integer_digits amount + integer_digits from_ratio + 1;
          product_fraction = fractional_digits amount + fractional_digits from_ratio;
          base_integer = max product_integer (integer_digits from_offset) + 1;
          base_fraction = max product_fraction (fractional_digits from_offset);
          numerator_integer = max base_integer (integer_digits to_offset) + 1;
          numerator_fraction = max base_fraction (fractional_digits to_offset);
          quotient_integer = max 1 (numerator_integer - adjusted to_ratio + 1);
          division_guard = max min_division_guard_digits (int (num_digits (coefficient to_ratio)) + 2)
      in Max {28, product_integer + product_fraction, base_integer + base_fraction,
              numerator_integer + numerator_fraction, quotient_integer + places + division_guard})"

text \<open>
  The decimal block of \<open>convert\<close>: every operation rounds to the precision \<open>P\<close>; a \<open>quantize\<close> that does
  not fit raises \<open>InvalidOperation\<close>, which becomes the conversion error.
\<close>

definition decimal_block :: "nat \<Rightarrow> rounding \<Rightarrow> nat \<Rightarrow> rat \<Rightarrow> rat \<Rightarrow> rat \<Rightarrow> rat \<Rightarrow> rat \<Rightarrow> rat option" where
  "decimal_block P m places amt from_ratio from_offset to_ratio to_offset =
     (let base_value = round_sig P (round_sig P (amt * from_ratio) + from_offset);
          target_value = round_sig P (round_sig P (base_value - to_offset) / to_ratio)
      in map_option (\<lambda>n. of_int n / 10 ^ places) (quantize P m places target_value))"

text \<open>\<open>UomConversionService.convert\<close>; \<open>amount\<close> is \<open>Decimal(str(amount))\<close>, or nothing when that raises.\<close>

definition convert :: "decimal option \<Rightarrow> unit_of_measure \<Rightarrow> unit_of_measure \<Rightarrow> exn + converted_amount" where
  "convert amount u v =
     (if um_tenant u \<noteq> um_tenant v then Inl (ValueError ''Cannot convert units owned by different tenants'')
      else if um_category u \<noteq> um_category v
      then Inl (ValueError (''Cannot convert between different categories: '' @ quote @ um_category u @
                  quote @ '' and '' @ quote @ um_category v @ quote))
      else (case amount of
          None \<Rightarrow> Inl conversion_error
        | Some amt \<Rightarrow>
            if \<not> list_all is_finite [amt, um_ratio u, um_offset u, um_ratio v, um_offset v]
               \<or> value_of (um_ratio u) \<le> 0 \<or> value_of (um_ratio v) \<le> 0
               \<or> \<not> (0 \<le> um_precision v \<and> um_precision v \<le> max_uom_decimal_places)
            then Inl conversion_error
            else (case rounding_modes (um_rounding v) of
                None \<Rightarrow> Inl conversion_error
              | Some m \<Rightarrow>
                  let capacity = conversion_context_digits amt (um_ratio u) (um_offset u) (um_ratio v) (um_offset v)
                                   (um_precision v)
                  in if capacity > max_uom_context_digits then Inl conversion_error
                     else (case decimal_block (nat capacity) m (nat (um_precision v)) (value_of amt)
                                  (value_of (um_ratio u)) (value_of (um_offset u))
                                  (value_of (um_ratio v)) (value_of (um_offset v)) of
                         None \<Rightarrow> Inl conversion_error
                       | Some x \<Rightarrow> Inr \<lparr>ca_from = um_code u, ca_to = um_code v, ca_original = amt,
                                         ca_converted = x, ca_precision = um_precision v\<rparr>))))"

section \<open>The exact conversion\<close>

text \<open>The conversion in exact rational arithmetic, rounded once, and when the service accepts to do it.\<close>

definition exact_value :: "decimal \<Rightarrow> unit_of_measure \<Rightarrow> unit_of_measure \<Rightarrow> rat" where
  "exact_value amt u v =
     (value_of amt * value_of (um_ratio u) + value_of (um_offset u) - value_of (um_offset v)) / value_of (um_ratio v)"

definition convertible :: "decimal \<Rightarrow> unit_of_measure \<Rightarrow> unit_of_measure \<Rightarrow> bool" where
  "convertible amt u v \<longleftrightarrow>
     list_all is_finite [amt, um_ratio u, um_offset u, um_ratio v, um_offset v]
     \<and> value_of (um_ratio u) > 0 \<and> value_of (um_ratio v) > 0
     \<and> 0 \<le> um_precision v \<and> um_precision v \<le> max_uom_decimal_places
     \<and> rounding_modes (um_rounding v) \<noteq> None
     \<and> conversion_context_digits amt (um_ratio u) (um_offset u) (um_ratio v) (um_offset v) (um_precision v)
         \<le> max_uom_context_digits"

definition exact_conversion :: "decimal option \<Rightarrow> unit_of_measure \<Rightarrow> unit_of_measure \<Rightarrow> exn + converted_amount" where
  "exact_conversion amount u v =
     (if um_tenant u \<noteq> um_tenant v then Inl (ValueError ''Cannot convert units owned by different tenants'')
      else if um_category u \<noteq> um_category v
      then Inl (ValueError (''Cannot convert between different categories: '' @ quote @ um_category u @
                  quote @ '' and '' @ quote @ um_category v @ quote))
      else (case amount of
          None \<Rightarrow> Inl conversion_error
        | Some amt \<Rightarrow>
            if convertible amt u v
            then let p = nat (um_precision v)
                 in Inr \<lparr>ca_from = um_code u, ca_to = um_code v, ca_original = amt,
                        ca_converted = of_int (round_mode (the (rounding_modes (um_rounding v)))
                                                 (exact_value amt u v * 10 ^ p)) / 10 ^ p,
                        ca_precision = um_precision v\<rparr>
            else Inl conversion_error))"

lemma value_grid: "is_finite d \<Longrightarrow> grid (fractional_digits d) (value_of d)"
proof (cases d)
  case (Finite s c e)
  have "grid (- e) (value_of d)"
    by (rule gridI [where k = "(if s then - 1 else 1) * int c"]) (simp add: Finite)
  then show ?thesis by (rule grid_mono [rotated]) (simp add: fractional_digits_def Finite)
qed (simp add: is_finite_def)

lemma value_below: "is_finite d \<Longrightarrow> \<bar>value_of d\<bar> < pow10 (integer_digits d)"
  by (rule less_le_trans [OF value_bound pow10_mono]) (simp_all add: integer_digits_def)

text \<open>Bounds of the intermediate results.\<close>

lemma mult_below: "\<bar>x\<bar> < pow10 i \<Longrightarrow> \<bar>y\<bar> < pow10 j \<Longrightarrow> \<bar>x * y\<bar> < pow10 (i + j)"
  by (simp only: abs_mult pow10_add) (rule mult_strict_mono', simp_all)

lemma add_below_twice: "\<bar>x\<bar> < pow10 i \<Longrightarrow> \<bar>y\<bar> < pow10 j \<Longrightarrow> \<bar>x + y\<bar> < 2 * pow10 (max i j)"
  using pow10_mono [of i "max i j"] pow10_mono [of j "max i j"] by linarith

lemma twice_below: "\<bar>x\<bar> < 2 * pow10 i \<Longrightarrow> \<bar>x\<bar> < pow10 (i + 1)"
proof -
  assume "\<bar>x\<bar> < 2 * pow10 i"
  also have "2 * pow10 i \<le> pow10 (i + 1)" by (simp add: pow10_add)
  finally show ?thesis .
qed

lemma divide_below:
  assumes "\<bar>x\<bar> < pow10 i" and "0 < y" and "pow10 j \<le> y"
  shows "\<bar>x / y\<bar> < pow10 (i - j)"
proof -
  have "\<bar>x / y\<bar> = \<bar>x\<bar> / y" using assms(2) by simp
  also have "\<dots> \<le> \<bar>x\<bar> / pow10 j" using assms by (intro divide_left_mono) simp_all
  also have "\<dots> < pow10 i / pow10 j" using assms(1) by (intro divide_strict_right_mono) simp_all
  finally show ?thesis by (simp only: pow10_diff)
qed

text \<open>The numerator is computed without rounding.\<close>

lemma numerator_exact:
  assumes A: "grid fa a" "\<bar>a\<bar> < pow10 ia" and R: "grid fr r" "\<bar>r\<bar> < pow10 ir"
    and S: "grid fs s" "\<bar>s\<bar> < pow10 is'" and T: "grid ft t" "\<bar>t\<bar> < pow10 it"
    and B: "base_integer = max (ia + ir + 1) is' + 1" "base_fraction = max (fa + fr) fs"
    and P: "ia + ir + 1 + (fa + fr) \<le> int P" "base_integer + base_fraction \<le> int P"
      "max base_integer it + 1 + max base_fraction ft \<le> int P"
  shows "round_sig P (round_sig P (round_sig P (a * r) + s) - t) = a * r + s - t"
    and "grid (max base_fraction ft) (a * r + s - t)"
    and "\<bar>a * r + s - t\<bar> < 2 * pow10 (max base_integer it)"
proof -
  have g1: "grid (fa + fr) (a * r)" by (rule grid_mult [OF A(1) R(1)])
  have b1: "\<bar>a * r\<bar> < pow10 (ia + ir)" by (rule mult_below [OF A(2) R(2)])
  have g2: "grid base_fraction (a * r + s)" unfolding B by (rule grid_add [OF g1 S(1)])
  have "\<bar>a * r + s\<bar> < pow10 (max (ia + ir) is' + 1)" by (rule twice_below [OF add_below_twice [OF b1 S(2)]])
  also have "\<dots> \<le> pow10 base_integer" by (rule pow10_mono) (simp add: B)
  finally have b2: "\<bar>a * r + s\<bar> < pow10 base_integer" .
  show g3: "grid (max base_fraction ft) (a * r + s - t)" by (rule grid_diff [OF g2 T(1)])
  show b3: "\<bar>a * r + s - t\<bar> < 2 * pow10 (max base_integer it)"
    using add_below_twice [OF b2, of "- t" it] T(2) by simp
  have e1: "round_sig P (a * r) = a * r" using P(1) by (intro round_sig_exact [OF g1 b1]) simp
  have e2: "round_sig P (a * r + s) = a * r + s" by (rule round_sig_exact [OF g2 b2 P(2)])
  have e3: "round_sig P (a * r + s - t) = a * r + s - t" by (rule round_sig_exact [OF g3 twice_below [OF b3] P(3)])
  show "round_sig P (round_sig P (round_sig P (a * r) + s) - t) = a * r + s - t" by (simp only: e1 e2 e3)
qed

lemma quantize_fits:
  assumes "\<bar>x\<bar> < pow10 i" and "0 \<le> i" and "i + int p + 1 \<le> int P"
  shows "quantize P m p x = Some (round_mode m (x * 10 ^ p))"
proof -
  have "\<bar>x * 10 ^ p\<bar> < pow10 (i + int p)"
    using assms(1) by (simp add: abs_mult pow10_add mult_strict_right_mono)
  moreover have "\<bar>rat_of_int (round_mode m (x * 10 ^ p))\<bar> < \<bar>x * 10 ^ p\<bar> + 1"
    using round_mode_error [of m "x * 10 ^ p"] by linarith
  moreover have "pow10 (i + int p) + 1 \<le> pow10 (int P)"
  proof -
    have "1 \<le> pow10 (i + int p)" using pow10_mono [of 0 "i + int p"] assms(2) by simp
    then have "pow10 (i + int p) + 1 \<le> pow10 (i + int p + 1)" by (simp add: pow10_add)
    also have "\<dots> \<le> pow10 (int P)" by (rule pow10_mono) (rule assms(3))
    finally show ?thesis .
  qed
  ultimately have "rat_of_int \<bar>round_mode m (x * 10 ^ p)\<bar> < of_int (10 ^ P)" by simp
  then have "\<bar>round_mode m (x * 10 ^ p)\<bar> < 10 ^ P" by (simp only: of_int_less_iff)
  then show ?thesis by (simp add: quantize_def Let_def)
qed

lemma decimal_block_exact:
  assumes N: "round_sig P (round_sig P (round_sig P (a * r) + s) - t) = a * r + s - t" "grid f (a * r + s - t)"
      "\<bar>a * r + s - t\<bar> < 2 * pow10 i" "i + 1 + f \<le> int P"
    and D: "is_finite d" "0 < value_of d"
    and Q: "0 \<le> q" "i + 1 - adjusted d + 1 \<le> q" "1 \<le> q"
      "q + int p + (int (num_digits (coefficient d)) + 2) \<le> int P"
  shows "decimal_block P m p a r s (value_of d) t =
    Some (of_int (round_mode m ((a * r + s - t) / value_of d * 10 ^ p)) / 10 ^ p)"
proof -
  let ?N = "a * r + s - t" and ?R = "value_of d"
  have nd: "num_digits (coefficient d) > 0" using num_digits_bounds by blast
  obtain c e where d: "d = Finite False c e"
    using D pow10_pos [THEN less_not_sym]
    by (cases d) (auto simp: is_finite_def mult_less_0_iff zero_less_mult_iff split: if_splits)
  have lo: "pow10 (adjusted d) \<le> ?R" and hi: "?R < pow10 (exponent d + int (num_digits (coefficient d)))"
    using value_lower [OF D(1)] value_bound [OF D(1)] D(2) by (simp_all add: adjusted_def)
  have "\<bar>?N / ?R\<bar> < pow10 (i + 1 - adjusted d)" by (rule divide_below [OF twice_below [OF N(3)] D(2) lo])
  also have "\<dots> \<le> pow10 (q - 1)" using Q by (intro pow10_mono) simp
  finally have below: "\<bar>?N / ?R\<bar> < pow10 (q - 1)" .
  have R: "?R = of_nat (coefficient d) * pow10 (exponent d)" by (simp add: d)
  have same: "round_mode m (round_sig P (?N / ?R) * 10 ^ p) = round_mode m (?N / ?R * 10 ^ p)"
    by (rule round_mode_round_sig_quotient [OF N(2) _ N(4) R D(2) hi below]) (use N(3) Q(4) in simp_all)
  have "\<bar>round_sig P (?N / ?R)\<bar> < pow10 q" by (rule round_sig_below [OF below]) (use Q nd in simp)
  then have "quantize P m p (round_sig P (?N / ?R)) = Some (round_mode m (?N / ?R * 10 ^ p))"
    using Q nd by (subst quantize_fits [where i = q]) (simp_all add: same)
  then show ?thesis by (simp only: decimal_block_def Let_def N(1)) simp
qed

lemma context_digits_enough:
  assumes "capacity = conversion_context_digits a r s d t places"
  defines "pf \<equiv> fractional_digits a + fractional_digits r"
  defines "bi \<equiv> max (integer_digits a + integer_digits r + 1) (integer_digits s) + 1"
  defines "bf \<equiv> max pf (fractional_digits s)"
  defines "q \<equiv> max 1 (max bi (integer_digits t) + 1 - adjusted d + 1)"
  shows "integer_digits a + integer_digits r + 1 + pf \<le> capacity" "bi + bf \<le> capacity"
    "max bi (integer_digits t) + 1 + max bf (fractional_digits t) \<le> capacity"
    "q + places + (int (num_digits (coefficient d)) + 2) \<le> capacity" "28 \<le> capacity"
proof -
  have "q + places + (int (num_digits (coefficient d)) + 2)
      \<le> q + places + max min_division_guard_digits (int (num_digits (coefficient d)) + 2)" by simp
  also have "\<dots> \<le> capacity"
    unfolding assms conversion_context_digits_def Let_def by (rule Max_ge) simp_all
  finally show "q + places + (int (num_digits (coefficient d)) + 2) \<le> capacity" .
qed (unfold assms conversion_context_digits_def Let_def, (rule Max_ge, simp, (rule insertI1 | rule insertI2)+)+)

lemma decimal_block_is_exact:
  assumes fin: "list_all is_finite [amt, um_ratio u, um_offset u, um_ratio v, um_offset v]"
    and pos: "0 < value_of (um_ratio v)" and places: "0 \<le> um_precision v"
  defines "capacity \<equiv> conversion_context_digits amt (um_ratio u) (um_offset u) (um_ratio v) (um_offset v) (um_precision v)"
  shows "decimal_block (nat capacity) m (nat (um_precision v)) (value_of amt) (value_of (um_ratio u))
      (value_of (um_offset u)) (value_of (um_ratio v)) (value_of (um_offset v)) =
    Some (of_int (round_mode m (exact_value amt u v * 10 ^ nat (um_precision v))) / 10 ^ nat (um_precision v))"
proof -
  note enough = context_digits_enough [OF capacity_def [THEN meta_eq_to_obj_eq]]
  have P: "int (nat capacity) = capacity" using enough(5) by simp
  have f: "is_finite amt" "is_finite (um_ratio u)" "is_finite (um_offset u)" "is_finite (um_ratio v)" "is_finite (um_offset v)"
    using fin by simp_all
  note num = numerator_exact [OF value_grid [OF f(1)] value_below [OF f(1)] value_grid [OF f(2)] value_below [OF f(2)]
      value_grid [OF f(3)] value_below [OF f(3)] value_grid [OF f(5)] value_below [OF f(5)] refl refl,
      where P = "nat capacity", unfolded P, OF enough(1,2,3)]
  show ?thesis unfolding exact_value_def
    by (rule decimal_block_exact [OF num _ f(4) pos _ max.cobounded2 max.cobounded1])
      (simp only: P enough(3), simp, simp only: P nat_0_le [OF places] enough(4))
qed


section \<open>Commands, queries and tables\<close>

record create_measurement_category =
  cc_tenant :: uuid
  cc_code :: string
  cc_name :: string
  cc_description :: "string option"
  cc_base_unit :: string

record create_unit_of_measure =
  cu_tenant :: uuid
  cu_category :: string
  cu_code :: string
  cu_name :: string
  cu_symbol :: string
  cu_is_base :: bool
  cu_ratio :: decimal
  cu_offset :: decimal
  cu_precision :: int
  cu_rounding :: string

text \<open>The field constraints of the two commands.\<close>

definition length_within :: "nat \<Rightarrow> nat \<Rightarrow> string \<Rightarrow> bool" where
  "length_within lo hi s \<longleftrightarrow> lo \<le> length s \<and> length s \<le> hi"

definition code_char :: "char \<Rightarrow> bool" where
  "code_char c \<longleftrightarrow> is_lower c \<or> is_digit c \<or> c \<in> set ''_.-''"

definition category_command_ok :: "create_measurement_category \<Rightarrow> bool" where
  "category_command_ok c \<longleftrightarrow>
     length_within 1 100 (cc_code c) \<and> list_all code_char (cc_code c)
     \<and> length_within 1 200 (cc_name c) \<and> length_within 1 50 (cc_base_unit c)"

definition unit_command_ok :: "create_unit_of_measure \<Rightarrow> bool" where
  "unit_command_ok c \<longleftrightarrow>
     length_within 1 100 (cu_category c) \<and> length_within 1 50 (cu_code c) \<and> length_within 1 200 (cu_name c)
     \<and> length_within 1 20 (cu_symbol c) \<and> is_finite (cu_ratio c) \<and> value_of (cu_ratio c) > 0
     \<and> is_finite (cu_offset c) \<and> 0 \<le> cu_precision c \<and> cu_precision c \<le> max_uom_decimal_places
     \<and> rounding_modes (cu_rounding c) \<noteq> None"

datatype uom_event =
    UomCategoryCreated uuid string string string
  | UomUnitChanged uuid string string string

text \<open>
  The two tables and the constraints of \<open>models.py\<close> and of migration \<open>uom_0002_integrity\<close>; \<open>num\<close> is the
  \<open>Numeric(20, 8)\<close> column type.
\<close>

record uom_tables =
  ut_categories :: "measurement_category list"
  ut_units :: "unit_of_measure list"

type_synonym numeric = "decimal \<Rightarrow> exn + decimal"

definition category_clash :: "measurement_category \<Rightarrow> measurement_category \<Rightarrow> bool" where
  "category_clash a b \<longleftrightarrow> mc_id a = mc_id b \<or> (mc_tenant a = mc_tenant b \<and> mc_code a = mc_code b)"

definition unit_clash :: "unit_of_measure \<Rightarrow> unit_of_measure \<Rightarrow> bool" where
  "unit_clash a b \<longleftrightarrow> um_id a = um_id b \<or> (um_tenant a = um_tenant b \<and> um_code a = um_code b)
     \<or> (um_is_base a \<and> um_is_base b \<and> um_tenant a = um_tenant b \<and> um_category a = um_category b)"

definition unit_row_ok :: "unit_of_measure \<Rightarrow> bool" where
  "unit_row_ok u \<longleftrightarrow> value_of (um_ratio u) > 0 \<and> um_precision u \<ge> 0 \<and> um_precision u \<le> 100"

section \<open>Handlers\<close>

text \<open>\<open>uuid4()\<close> and the clock are arguments.\<close>

definition create_category ::
  "create_measurement_category \<Rightarrow> request_context option \<Rightarrow> uuid \<Rightarrow> instant \<Rightarrow> uom_tables \<Rightarrow>
   exn + measurement_category \<times> uom_event \<times> uom_tables" where
  "create_category c req new_id now t =
     (case require_tenant req (cc_tenant c) of
        Inl e \<Rightarrow> Inl e
      | Inr ten \<Rightarrow>
          let row = \<lparr>mc_id = new_id, mc_tenant = tenant_id ten, mc_code = cc_code c, mc_name = cc_name c,
                     mc_description = cc_description c, mc_base_unit = cc_base_unit c, mc_active = True,
                     mc_created = now\<rparr>
          in (case insert_row category_clash (\<lambda>_. True) row (ut_categories t) of
                Inl e \<Rightarrow> Inl e
              | Inr rows \<Rightarrow>
                  Inr (row, UomCategoryCreated (tenant_id ten) (correlation_id (the req)) (cc_code c) (cc_base_unit c),
                       t\<lparr>ut_categories := rows\<rparr>)))"

definition get_category :: "uuid \<Rightarrow> string \<Rightarrow> request_context option \<Rightarrow> uom_tables \<Rightarrow> exn + measurement_category option" where
  "get_category target code req t =
     (case require_tenant req target of
        Inl e \<Rightarrow> Inl e
      | Inr ten \<Rightarrow> Inr (select_first (\<lambda>r. mc_tenant r = tenant_id ten \<and> mc_code r = code) (ut_categories t)))"

definition get_unit :: "uuid \<Rightarrow> string \<Rightarrow> request_context option \<Rightarrow> uom_tables \<Rightarrow> exn + unit_of_measure option" where
  "get_unit target code req t =
     (case require_tenant req target of
        Inl e \<Rightarrow> Inl e
      | Inr ten \<Rightarrow> Inr (select_first (\<lambda>r. um_tenant r = tenant_id ten \<and> um_code r = code) (ut_units t)))"

definition list_categories ::
  "(measurement_category \<Rightarrow> measurement_category \<Rightarrow> bool) \<Rightarrow> uuid \<Rightarrow> int \<Rightarrow> int \<Rightarrow> request_context option \<Rightarrow> uom_tables \<Rightarrow>
   exn + measurement_category list" where
  "list_categories le target limit offset req t =
     (case require_tenant req target of
        Inl e \<Rightarrow> Inl e
      | Inr ten \<Rightarrow> Inr (select_page le (\<lambda>r. mc_tenant r = tenant_id ten) limit offset (ut_categories t)))"

definition list_units ::
  "(unit_of_measure \<Rightarrow> unit_of_measure \<Rightarrow> bool) \<Rightarrow> uuid \<Rightarrow> string option \<Rightarrow> int \<Rightarrow> int \<Rightarrow> request_context option \<Rightarrow>
   uom_tables \<Rightarrow> exn + unit_of_measure list" where
  "list_units le target category limit offset req t =
     (case require_tenant req target of
        Inl e \<Rightarrow> Inl e
      | Inr ten \<Rightarrow>
          Inr (select_page le
                 (\<lambda>r. um_tenant r = tenant_id ten \<and> (category = None \<or> category = Some [] \<or> category = Some (um_category r)))
                 limit offset (ut_units t)))"

definition invalid_base_unit :: "string \<Rightarrow> exn" where
  "invalid_base_unit m = BusinessOSError ''invalid_base_unit'' m 400"

text \<open>The checks of \<open>_create_unit\<close> between the lookup of the category and the insert.\<close>

definition base_unit_check ::
  "create_unit_of_measure \<Rightarrow> measurement_category \<Rightarrow> uuid \<Rightarrow> request_context option \<Rightarrow> uom_tables \<Rightarrow> exn + unit" where
  "base_unit_check c category ten req t =
     (if cu_is_base c \<noteq> (cu_code c = mc_base_unit category)
      then Inl (invalid_base_unit ''Unit conflicts with category base unit'')
      else if cu_is_base c \<and> (value_of (cu_ratio c) \<noteq> 1 \<or> value_of (cu_offset c) \<noteq> 0)
      then Inl (invalid_base_unit ''Base unit must use identity conversion'')
      else if cu_is_base c then Inr ()
      else (case get_unit ten (mc_base_unit category) req t of
          Inl e \<Rightarrow> Inl e
        | Inr None \<Rightarrow> Inl (invalid_base_unit ''Category base unit must be created first'')
        | Inr (Some base) \<Rightarrow>
            if um_category base \<noteq> mc_code category \<or> \<not> um_is_base base
            then Inl (invalid_base_unit ''Category base unit must be created first'') else Inr ()))"

text \<open>The insert branch of the trigger \<open>platform_uom.enforce_base_unit\<close> of migration \<open>uom_0002_integrity\<close>.\<close>

definition enforce_base_unit :: "uom_tables \<Rightarrow> unit_of_measure \<Rightarrow> exn + unit" where
  "enforce_base_unit t u =
     (case select_first (\<lambda>c. mc_tenant c = um_tenant u \<and> mc_code c = um_category u) (ut_categories t) of
        None \<Rightarrow> Inl (ForeignError ''23503'')
      | Some c \<Rightarrow>
          if um_is_base u \<noteq> (um_code u = mc_base_unit c) then Inl (ForeignError ''23514'')
          else if um_is_base u \<and> (value_of (um_ratio u) \<noteq> 1 \<or> value_of (um_offset u) \<noteq> 0)
          then Inl (ForeignError ''23514'')
          else if \<not> um_is_base u
            \<and> \<not> list_ex (\<lambda>b. um_tenant b = um_tenant u \<and> um_category b = um_category u
                           \<and> um_code b = mc_base_unit c \<and> um_is_base b) (ut_units t)
          then Inl (ForeignError ''23514'')
          else Inr ())"

definition insert_unit :: "numeric \<Rightarrow> unit_of_measure \<Rightarrow> uom_tables \<Rightarrow> exn + uom_tables" where
  "insert_unit num u t =
     (case num (um_ratio u) of
        Inl e \<Rightarrow> Inl e
      | Inr ratio \<Rightarrow>
          (case num (um_offset u) of
             Inl e \<Rightarrow> Inl e
           | Inr offset \<Rightarrow>
               let u' = u\<lparr>um_ratio := ratio, um_offset := offset\<rparr>
               in (case enforce_base_unit t u' of
                     Inl e \<Rightarrow> Inl e
                   | Inr _ \<Rightarrow>
                       (case insert_row unit_clash unit_row_ok u' (ut_units t) of
                          Inl e \<Rightarrow> Inl e
                        | Inr rows \<Rightarrow> Inr (t\<lparr>ut_units := rows\<rparr>)))))"

definition create_unit ::
  "numeric \<Rightarrow> create_unit_of_measure \<Rightarrow> request_context option \<Rightarrow> uuid \<Rightarrow> instant \<Rightarrow> uom_tables \<Rightarrow>
   exn + unit_of_measure \<times> uom_event \<times> uom_tables" where
  "create_unit num c req new_id now t =
     (case require_tenant req (cu_tenant c) of
        Inl e \<Rightarrow> Inl e
      | Inr ten \<Rightarrow>
          (case get_category (tenant_id ten) (cu_category c) req t of
             Inl e \<Rightarrow> Inl e
           | Inr None \<Rightarrow> Inl (BusinessOSError ''not_found'' ''Measurement category not found'' 404)
           | Inr (Some category) \<Rightarrow>
               (case base_unit_check c category (tenant_id ten) req t of
                  Inl e \<Rightarrow> Inl e
                | Inr _ \<Rightarrow>
                    let u = \<lparr>um_id = new_id, um_tenant = tenant_id ten, um_category = cu_category c,
                             um_code = cu_code c, um_name = cu_name c, um_symbol = cu_symbol c,
                             um_is_base = cu_is_base c, um_ratio = cu_ratio c, um_offset = cu_offset c,
                             um_precision = cu_precision c, um_rounding = cu_rounding c, um_active = True,
                             um_created = now\<rparr>
                    in (case insert_unit num u t of
                          Inl e \<Rightarrow> Inl e
                        | Inr t' \<Rightarrow>
                            Inr (u, UomUnitChanged (tenant_id ten) (correlation_id (the req)) (cu_code c) (cu_category c), t')))))"

definition convert_quantity ::
  "uuid \<Rightarrow> string \<Rightarrow> string \<Rightarrow> decimal \<Rightarrow> request_context option \<Rightarrow> uom_tables \<Rightarrow> exn + converted_amount" where
  "convert_quantity target from_code to_code amount req t =
     (case require_tenant req target of
        Inl e \<Rightarrow> Inl e
      | Inr ten \<Rightarrow>
          (case get_unit (tenant_id ten) from_code req t of
             Inl e \<Rightarrow> Inl e
           | Inr None \<Rightarrow> Inl (BusinessOSError ''not_found'' (''Source unit not found: '' @ from_code) 404)
           | Inr (Some u) \<Rightarrow>
               (case get_unit (tenant_id ten) to_code req t of
                  Inl e \<Rightarrow> Inl e
                | Inr None \<Rightarrow> Inl (BusinessOSError ''not_found'' (''Target unit not found: '' @ to_code) 404)
                | Inr (Some v) \<Rightarrow> convert (Some amount) u v)))"

section \<open>The base units\<close>

interpretation category_table: keyed_table category_clash "\<lambda>c. (mc_tenant c, mc_code c)"
  by unfold_locales (simp add: category_clash_def)

interpretation unit_table: keyed_table unit_clash "\<lambda>u. (um_tenant u, um_code u)"
  by unfold_locales (simp add: unit_clash_def)

datatype uom_command =
    CreateCategory create_measurement_category "request_context option" uuid instant
  | CreateUnit create_unit_of_measure "request_context option" uuid instant

text \<open>A command's effect on the tables: a handler that raises leaves the transaction rolled back.\<close>

fun uom_step :: "numeric \<Rightarrow> uom_command \<Rightarrow> uom_tables \<Rightarrow> uom_tables" where
  "uom_step num (CreateCategory c req i now) t =
     (case create_category c req i now t of Inl _ \<Rightarrow> t | Inr (_, _, t') \<Rightarrow> t')"
| "uom_step num (CreateUnit c req i now) t =
     (case create_unit num c req i now t of Inl _ \<Rightarrow> t | Inr (_, _, t') \<Rightarrow> t')"

definition no_tables :: uom_tables where
  "no_tables = \<lparr>ut_categories = [], ut_units = []\<rparr>"

text \<open>What a unit needs: a category of its own tenant and that category's identity base unit.\<close>

definition anchored :: "uom_tables \<Rightarrow> unit_of_measure \<Rightarrow> bool" where
  "anchored t u \<longleftrightarrow>
     (\<exists>c \<in> set (ut_categories t). mc_tenant c = um_tenant u \<and> mc_code c = um_category u
        \<and> (um_is_base u \<longleftrightarrow> um_code u = mc_base_unit c)
        \<and> (\<exists>b \<in> set (ut_units t). um_tenant b = um_tenant u \<and> um_category b = um_category u
             \<and> um_is_base b \<and> um_code b = mc_base_unit c))"

definition identity_base :: "unit_of_measure \<Rightarrow> bool" where
  "identity_base u \<longleftrightarrow> (um_is_base u \<longrightarrow> value_of (um_ratio u) = 1 \<and> value_of (um_offset u) = 0)"

definition uom_ok :: "uom_tables \<Rightarrow> bool" where
  "uom_ok t \<longleftrightarrow> category_table.keys_ok (ut_categories t) \<and> unit_table.keys_ok (ut_units t)
     \<and> (\<forall>u \<in> set (ut_units t). anchored t u \<and> identity_base u)"

text \<open>A column of type \<open>Numeric(20, 8)\<close> stores the identity conversion's 1 and 0 as they are.\<close>

definition keeps_identity :: "numeric \<Rightarrow> bool" where
  "keeps_identity num \<longleftrightarrow> (\<forall>d d'. num d = Inr d' \<longrightarrow> value_of d \<in> {0, 1} \<longrightarrow> value_of d' = value_of d)"

lemma get_category_Some:
  "get_category target code req t = Inr (Some c) \<Longrightarrow>
   c \<in> set (ut_categories t) \<and> mc_tenant c = target \<and> mc_code c = code"
  by (auto simp: get_category_def require_tenant_Inr dest: select_first_Some split: sum.splits)

lemma get_unit_Some:
  "get_unit target code req t = Inr (Some u) \<Longrightarrow> u \<in> set (ut_units t) \<and> um_tenant u = target \<and> um_code u = code"
  by (auto simp: get_unit_def require_tenant_Inr dest: select_first_Some split: sum.splits)

lemma anchored_mono:
  "anchored t u \<Longrightarrow> set (ut_categories t) \<subseteq> set (ut_categories t') \<Longrightarrow> set (ut_units t) \<subseteq> set (ut_units t') \<Longrightarrow> anchored t' u"
  unfolding anchored_def by blast

lemma create_category_tables:
  assumes "create_category c req i now t = Inr (r, e, t')"
  shows "ut_units t' = ut_units t"
    and "insert_row category_clash (\<lambda>_. True) r (ut_categories t) = Inr (ut_categories t')"
  using assms by (auto simp: create_category_def Let_def split: sum.splits)

lemma create_unit_cases:
  assumes "create_unit num c req i now t = Inr (u, e, t')"
  obtains row where "enforce_base_unit t row = Inr ()"
    "insert_row unit_clash unit_row_ok row (ut_units t) = Inr (ut_units t')" "ut_categories t' = ut_categories t"
  using assms that by (auto simp: create_unit_def insert_unit_def Let_def split: sum.splits option.splits)

lemma enforce_base_unit_Inr:
  assumes "enforce_base_unit t u = Inr ()"
  obtains c where "c \<in> set (ut_categories t)" "mc_tenant c = um_tenant u" "mc_code c = um_category u"
    "um_is_base u \<longleftrightarrow> um_code u = mc_base_unit c" "identity_base u"
    "um_is_base u \<or> (\<exists>b \<in> set (ut_units t). um_tenant b = um_tenant u \<and> um_category b = um_category u
       \<and> um_is_base b \<and> um_code b = mc_base_unit c)"
  using assms that
  by (auto simp: enforce_base_unit_def identity_base_def list_ex_iff dest!: select_first_Some
      split: option.splits if_splits)

lemma base_unit_check_Inr:
  assumes "base_unit_check c category ten req t = Inr ()"
  shows "cu_is_base c \<longleftrightarrow> cu_code c = mc_base_unit category"
    and "cu_is_base c \<Longrightarrow> value_of (cu_ratio c) = 1 \<and> value_of (cu_offset c) = 0"
    and "\<not> cu_is_base c \<Longrightarrow> \<exists>b. get_unit ten (mc_base_unit category) req t = Inr (Some b)
           \<and> um_category b = mc_code category \<and> um_is_base b"
  using assms by (auto simp: base_unit_check_def split: if_splits sum.splits option.splits)

lemma create_category_ok:
  assumes "create_category c req i now t = Inr (r, e, t')" and "uom_ok t"
  shows "uom_ok t'"
  using assms(2) category_table.keys_ok_insert [OF create_category_tables(2) [OF assms(1)]]
    create_category_tables [OF assms(1)]
  by (auto simp: uom_ok_def intro: anchored_mono)

lemma create_unit_ok:
  assumes "create_unit num c req i now t = Inr (u, e, t')" and ok: "uom_ok t"
  shows "uom_ok t'"
proof -
  obtain row where trigger: "enforce_base_unit t row = Inr ()"
      and ins: "insert_row unit_clash unit_row_ok row (ut_units t) = Inr (ut_units t')"
      and cats: "ut_categories t' = ut_categories t"
    by (rule create_unit_cases [OF assms(1)])
  have units: "ut_units t' = ut_units t @ [row]" using ins by simp
  have "identity_base row" by (rule enforce_base_unit_Inr [OF trigger])
  moreover have "anchored t' row"
    by (rule enforce_base_unit_Inr [OF trigger]) (auto simp: anchored_def cats units)
  moreover have "anchored t' x" if "x \<in> set (ut_units t)" for x
    by (rule anchored_mono [of t]) (use ok that in \<open>auto simp: uom_ok_def cats units\<close>)
  moreover have "identity_base x" if "x \<in> set (ut_units t)" for x
    using ok that by (simp add: uom_ok_def)
  moreover have "category_table.keys_ok (ut_categories t')" using ok by (simp add: uom_ok_def cats)
  moreover have "unit_table.keys_ok (ut_units t')"
    by (rule unit_table.keys_ok_insert [OF ins]) (use ok in \<open>simp add: uom_ok_def\<close>)
  ultimately show ?thesis unfolding uom_ok_def by (simp add: units)
qed

text \<open>
  A column that stores the identity conversion as it is: then the trigger accepts whatever the handler's
  own checks accept.
\<close>

lemma handler_check_satisfies_trigger:
  assumes "base_unit_check c category ten req t = Inr ()"
    and "get_category ten (cu_category c) req t = Inr (Some category)"
    and "um_tenant u = ten" "um_category u = cu_category c" "um_code u = cu_code c" "um_is_base u = cu_is_base c"
    and "num (cu_ratio c) = Inr (um_ratio u)" "num (cu_offset c) = Inr (um_offset u)" "keeps_identity num"
  shows "enforce_base_unit t u = Inr ()"
proof -
  have "select_first (\<lambda>c. mc_tenant c = um_tenant u \<and> mc_code c = um_category u) (ut_categories t) = Some category"
    using assms by (auto simp: get_category_def require_tenant_Inr split: sum.splits)
  moreover have "um_is_base u \<Longrightarrow> value_of (um_ratio u) = 1 \<and> value_of (um_offset u) = 0"
    using base_unit_check_Inr(2) [OF assms(1)] assms(6-9) by (auto simp: keeps_identity_def)
  moreover have "list_ex (\<lambda>b. um_tenant b = um_tenant u \<and> um_category b = um_category u
      \<and> um_code b = mc_base_unit category \<and> um_is_base b) (ut_units t)" if "\<not> um_is_base u"
    using base_unit_check_Inr(3) [OF assms(1)] that assms(2-6)
    by (auto simp: list_ex_iff dest!: get_unit_Some get_category_Some)
  ultimately show ?thesis using base_unit_check_Inr(1) [OF assms(1)] assms(5,6)
    by (auto simp: enforce_base_unit_def)
qed

lemma uom_step_ok: "uom_ok t \<Longrightarrow> uom_ok (uom_step num c t)"
  by (cases c) (auto split: sum.split intro: create_category_ok create_unit_ok)

lemma uom_run_ok: "uom_ok t \<Longrightarrow> uom_ok (fold (uom_step num) cs t)"
  by (induction cs arbitrary: t) (simp_all add: uom_step_ok)

lemma no_tables_ok: "uom_ok no_tables"
  by (simp add: uom_ok_def no_tables_def category_table.keys_ok_Nil unit_table.keys_ok_Nil)

lemma get_unit_of:
  assumes "uom_ok t" and "u \<in> set (ut_units t)" and "require_tenant req (um_tenant u) = Inr ten"
  shows "get_unit (um_tenant u) (um_code u) req t = Inr (Some u)"
proof -
  have "tenant_id ten = um_tenant u" using assms(3) by (auto simp: require_tenant_Inr)
  then show ?thesis using assms unit_table.lookup_unique [of "ut_units t" u] by (simp add: uom_ok_def get_unit_def)
qed

lemma get_category_of:
  assumes "uom_ok t" and "c \<in> set (ut_categories t)" and "require_tenant req (mc_tenant c) = Inr ten"
  shows "get_category (mc_tenant c) (mc_code c) req t = Inr (Some c)"
proof -
  have "tenant_id ten = mc_tenant c" using assms(3) by (auto simp: require_tenant_Inr)
  then show ?thesis using assms category_table.lookup_unique [of "ut_categories t" c]
    by (simp add: uom_ok_def get_category_def)
qed

text \<open>
  C16: In every state the category and unit commands can produce, a unit that a lookup returns belongs to
  an existing category of its tenant; looking up the category's base unit returns a base unit of the
  same category; the unit is the base unit itself exactly when it is flagged so; and the base unit
  stores the identity conversion, so that a quantity converted to it is only scaled and shifted by the
  source unit.
\<close>

theorem units_have_identity_base:
  assumes "get_unit target code req (fold (uom_step num) cs no_tables) = Inr (Some u)"
  shows "\<exists>c b. get_category target (um_category u) req (fold (uom_step num) cs no_tables) = Inr (Some c)
      \<and> get_unit target (mc_base_unit c) req (fold (uom_step num) cs no_tables) = Inr (Some b)
      \<and> um_is_base b \<and> um_category b = um_category u \<and> (um_is_base u \<longleftrightarrow> u = b)
      \<and> (\<forall>amt. exact_value amt u b = value_of amt * value_of (um_ratio u) + value_of (um_offset u))"
proof -
  define t where "t = fold (uom_step num) cs no_tables"
  have ok: "uom_ok t" unfolding t_def by (rule uom_run_ok [OF no_tables_ok])
  have u: "u \<in> set (ut_units t)" "um_tenant u = target" "um_code u = code"
    using get_unit_Some [OF assms] by (simp_all add: t_def)
  obtain ten where ten: "require_tenant req target = Inr ten"
    using assms by (auto simp: get_unit_def split: sum.splits)
  obtain c b where c: "c \<in> set (ut_categories t)" "mc_tenant c = target" "mc_code c = um_category u"
      and base: "um_is_base u \<longleftrightarrow> um_code u = mc_base_unit c"
      and b: "b \<in> set (ut_units t)" "um_tenant b = target" "um_category b = um_category u" "um_is_base b"
        "um_code b = mc_base_unit c"
  proof -
    have "anchored t u" using ok u(1) by (simp add: uom_ok_def)
    then show ?thesis using that u(2) unfolding anchored_def by blast
  qed
  have got: "get_unit target (mc_base_unit c) req t = Inr (Some b)"
    using get_unit_of [OF ok b(1)] ten b by simp
  have "get_unit target (um_code u) req t = Inr (Some u)"
    using get_unit_of [OF ok u(1)] ten u by simp
  then have "um_is_base u \<longleftrightarrow> u = b"
    using got by (metis base b(5) sum.inject(2) option.inject)
  moreover have "identity_base b" using ok b(1) by (simp add: uom_ok_def)
  moreover have "get_category target (um_category u) req t = Inr (Some c)"
    using get_category_of [OF ok c(1)] ten c by simp
  ultimately show ?thesis using got b unfolding t_def [symmetric]
    by (auto simp: exact_value_def identity_base_def)
qed

definition demo_request_of :: "uuid \<Rightarrow> request_context option" where
  "demo_request_of ten = Some \<lparr>correlation_id = ''c'', trace_id = ''t'', tenant = Some (tenant_context_of 1 ten 9)\<rparr>"

definition demo_unit :: "string \<Rightarrow> bool \<Rightarrow> decimal \<Rightarrow> create_unit_of_measure" where
  "demo_unit code base ratio =
     \<lparr>cu_tenant = 7, cu_category = ''mass'', cu_code = code, cu_name = ''n'', cu_symbol = ''s'', cu_is_base = base,
      cu_ratio = ratio, cu_offset = Finite False 0 0, cu_precision = 2, cu_rounding = ''ROUND_HALF_UP''\<rparr>"

definition demo_uom :: "uom_command list" where
  "demo_uom =
     [CreateCategory \<lparr>cc_tenant = 7, cc_code = ''mass'', cc_name = ''Mass'', cc_description = None, cc_base_unit = ''kg''\<rparr>
        (demo_request_of 7) 1 0,
      CreateUnit (demo_unit ''g'' False (Finite False 1 (- 3))) (demo_request_of 7) 2 0,
      CreateUnit (demo_unit ''kg'' True (Finite False 1 0)) (demo_request_of 7) 3 0,
      CreateUnit (demo_unit ''g'' False (Finite False 1 (- 3))) (demo_request_of 7) 4 0]"

lemma demo_units:
  "map um_code (ut_units (fold (uom_step Inr) demo_uom no_tables)) = [''kg'', ''g'']"
  by code_simp

theorem units_have_identity_base_witness:
  "\<exists>u c b. get_unit 7 ''g'' (demo_request_of 7) (fold (uom_step Inr) demo_uom no_tables) = Inr (Some u)
     \<and> get_category 7 (um_category u) (demo_request_of 7) (fold (uom_step Inr) demo_uom no_tables) = Inr (Some c)
     \<and> get_unit 7 (mc_base_unit c) (demo_request_of 7) (fold (uom_step Inr) demo_uom no_tables) = Inr (Some b)
     \<and> um_is_base b \<and> (um_is_base u \<longleftrightarrow> u = b)"
proof -
  have "case get_unit 7 ''g'' (demo_request_of 7) (fold (uom_step Inr) demo_uom no_tables) of Inr (Some u) \<Rightarrow> True | _ \<Rightarrow> False"
    by code_simp
  then obtain u where u: "get_unit 7 ''g'' (demo_request_of 7) (fold (uom_step Inr) demo_uom no_tables) = Inr (Some u)"
    by (auto split: sum.splits option.splits)
  from units_have_identity_base [OF u] u show ?thesis by blast
qed

end
