(* ===== verification/Delegation.thy ===== *)
theory Delegation
  imports Context
begin

text \<open>
  The authority records of the policy foundation (\<open>foundations/policy\<close>, \<open>models.py\<close>) and the proof of a
  delegation's source in \<open>delegation_authority.py\<close>: scopes, validity windows and
  \<open>has_effective_role_source\<close> with its visited principals and its shared traversal budget.
\<close>

section \<open>Records\<close>

datatype scope_type = TENANT | COMPANY | LEGAL_ENTITY | OPERATING_SITE | BUSINESS_UNIT

text \<open>A \<open>datetime\<close>: whether it carries a time zone, and its instant. Orderings compare the instants.\<close>

datatype moment = Moment (zoned: bool) (at: instant)

type_synonym subject = "string \<times> uuid"
type_synonym authority_scope = "scope_type \<times> uuid option"

record role =
  ro_id :: uuid
  ro_tenant :: uuid
  ro_code :: string
  ro_name :: string
  ro_parent :: "uuid option"

record role_permission =
  rp_id :: uuid
  rp_tenant :: uuid
  rp_role :: uuid
  rp_permission :: string

record role_assignment =
  ra_id :: uuid
  ra_tenant :: uuid
  ra_subject :: uuid
  ra_subject_type :: "string option"
  ra_role :: uuid
  ra_scope :: authority_scope
  ra_from :: "moment option"
  ra_to :: "moment option"

record delegation_grant =
  dg_id :: uuid
  dg_tenant :: uuid
  dg_delegator :: uuid
  dg_delegator_type :: "string option"
  dg_delegatee :: uuid
  dg_delegatee_type :: "string option"
  dg_role :: uuid
  dg_scope :: authority_scope
  dg_from :: moment
  dg_to :: moment
  dg_revoked :: bool

section \<open>Scopes and windows\<close>

definition scope_covers :: "authority_scope \<Rightarrow> authority_scope \<Rightarrow> bool" where
  "scope_covers source target \<longleftrightarrow>
     (fst source = TENANT \<and> snd source = None)
     \<or> (fst source = fst target \<and> snd source \<noteq> None \<and> snd source = snd target)"

definition covers :: "moment option \<Rightarrow> moment option \<Rightarrow> moment \<times> moment \<Rightarrow> bool" where
  "covers start stop window \<longleftrightarrow>
     (case start of None \<Rightarrow> True | Some m \<Rightarrow> at m \<le> at (fst window))
     \<and> (case stop of None \<Rightarrow> True | Some m \<Rightarrow> at m \<ge> at (snd window))"

definition active_at :: "moment option \<Rightarrow> moment option \<Rightarrow> instant \<Rightarrow> bool" where
  "active_at start stop t \<longleftrightarrow>
     (case start of None \<Rightarrow> True | Some m \<Rightarrow> at m \<le> t) \<and> (case stop of None \<Rightarrow> True | Some m \<Rightarrow> t < at m)"

definition subject_types :: "string list" where
  "subject_types = [''user'', ''service_account'', ''device'']"

definition known_type :: "string option \<Rightarrow> bool" where
  "known_type ty \<longleftrightarrow> (case ty of None \<Rightarrow> False | Some s \<Rightarrow> s \<in> set subject_types)"

section \<open>The source of a delegated role\<close>

text \<open>The arguments of \<open>has_effective_role_source\<close> that its recursive calls pass on unchanged.\<close>

record authority_view =
  av_tenant :: uuid
  av_role :: uuid
  av_instant :: instant
  av_assignments :: "role_assignment list"
  av_delegations :: "delegation_grant list"

text \<open>The condition an assignment meets to be a source, and the one under which a grant is followed.\<close>

definition assignment_is_source :: "authority_view \<Rightarrow> subject \<Rightarrow> authority_scope \<Rightarrow> moment \<times> moment \<Rightarrow> role_assignment \<Rightarrow> bool" where
  "assignment_is_source v s sc w a \<longleftrightarrow>
     ra_tenant a = av_tenant v \<and> ra_subject a = snd s \<and> ra_subject_type a = Some (fst s)
     \<and> ra_role a = av_role v \<and> scope_covers (ra_scope a) sc
     \<and> active_at (ra_from a) (ra_to a) (av_instant v) \<and> covers (ra_from a) (ra_to a) w"

definition grant_is_followed :: "authority_view \<Rightarrow> subject \<Rightarrow> authority_scope \<Rightarrow> moment \<times> moment \<Rightarrow> delegation_grant \<Rightarrow> bool" where
  "grant_is_followed v s sc w g \<longleftrightarrow>
     dg_tenant g = av_tenant v \<and> dg_delegatee g = snd s \<and> dg_delegatee_type g = Some (fst s)
     \<and> known_type (dg_delegator_type g) \<and> dg_role g = av_role v \<and> \<not> dg_revoked g
     \<and> scope_covers (dg_scope g) sc \<and> active_at (Some (dg_from g)) (Some (dg_to g)) (av_instant v)
     \<and> covers (Some (dg_from g)) (Some (dg_to g)) w"

definition delegator_of :: "delegation_grant \<Rightarrow> subject" where
  "delegator_of g = (case dg_delegator_type g of Some ty \<Rightarrow> (ty, dg_delegator g) | None \<Rightarrow> ('''', dg_delegator g))"

definition window_of :: "delegation_grant \<Rightarrow> moment \<times> moment" where
  "window_of g = (dg_from g, dg_to g)"

text \<open>The mutable one-element list \<open>traversal_budget\<close>, or no budget.\<close>

definition spend :: "int option \<Rightarrow> exn + int option" where
  "spend budget =
     (case budget of
        None \<Rightarrow> Inr None
      | Some k \<Rightarrow>
          if k \<le> 0
          then Inl (BusinessOSError ''authority_unbounded''
                      ''Policy delegation source traversal exceeds the reviewed bound'' 403)
          else Inr (Some (k - 1)))"

text \<open>
  The recursion of \<open>has_effective_role_source\<close> and its loop over the grants. \<open>visited\<close> lists the
  principals of the path in the order they were added.
\<close>

function role_source ::
    "authority_view \<Rightarrow> subject \<Rightarrow> authority_scope \<Rightarrow> moment \<times> moment \<Rightarrow> subject list \<Rightarrow> int option \<Rightarrow> exn + bool \<times> int option"
  and scan_grants ::
    "authority_view \<Rightarrow> subject \<Rightarrow> authority_scope \<Rightarrow> moment \<times> moment \<Rightarrow> subject list \<Rightarrow> delegation_grant list \<Rightarrow> int option \<Rightarrow>
     exn + bool \<times> int option" where
  "role_source v s sc w visited budget =
     (case spend budget of
        Inl e \<Rightarrow> Inl e
      | Inr b \<Rightarrow>
          if s \<in> set visited \<or> length visited > 16 then Inr (False, b)
          else if list_ex (assignment_is_source v s sc w) (av_assignments v) then Inr (True, b)
          else scan_grants v s sc w (visited @ [s]) (av_delegations v) b)"
| "scan_grants v s sc w path [] budget = Inr (False, budget)"
| "scan_grants v s sc w path (g # gs) budget =
     (if \<not> grant_is_followed v s sc w g then scan_grants v s sc w path gs budget
      else case role_source v (delegator_of g) (dg_scope g) (window_of g) path budget of
          Inl e \<Rightarrow> Inl e
        | Inr (True, b) \<Rightarrow> Inr (True, b)
        | Inr (False, b) \<Rightarrow> scan_grants v s sc w path gs b)"
  by pat_completeness auto
termination
  by (relation "measures
       [\<lambda>x. case x of Inl (v, s, sc, w, visited, b) \<Rightarrow> 18 - length visited
                  | Inr (v, s, sc, w, path, gs, b) \<Rightarrow> 18 - length path,
        \<lambda>x. case x of Inl _ \<Rightarrow> 0 | Inr (v, s, sc, w, path, gs, b) \<Rightarrow> Suc (length gs)]") auto

declare role_source.simps [simp del] scan_grants.simps [simp del]

section \<open>Chains of grants\<close>

text \<open>
  What the search looks for, without its order, its visited set and its budget: a chain of followed
  grants from the subject up to a principal with a live assignment of the role.
\<close>

fun source_chain :: "authority_view \<Rightarrow> subject \<Rightarrow> authority_scope \<Rightarrow> moment \<times> moment \<Rightarrow> delegation_grant list \<Rightarrow> bool" where
  "source_chain v s sc w [] \<longleftrightarrow> list_ex (assignment_is_source v s sc w) (av_assignments v)"
| "source_chain v s sc w (g # gs) \<longleftrightarrow>
     g \<in> set (av_delegations v) \<and> grant_is_followed v s sc w g
     \<and> source_chain v (delegator_of g) (dg_scope g) (window_of g) gs"

definition chain_principals :: "subject \<Rightarrow> delegation_grant list \<Rightarrow> subject list" where
  "chain_principals s gs = s # map delegator_of gs"

definition clean_chain :: "authority_view \<Rightarrow> subject \<Rightarrow> authority_scope \<Rightarrow> moment \<times> moment \<Rightarrow> subject list \<Rightarrow> delegation_grant list \<Rightarrow> bool" where
  "clean_chain v s sc w visited gs \<longleftrightarrow>
     source_chain v s sc w gs \<and> distinct (chain_principals s gs)
     \<and> set (chain_principals s gs) \<inter> set visited = {} \<and> length visited + length gs \<le> 16"

lemma clean_chain_Cons:
  assumes "s \<notin> set visited"
  shows "clean_chain v s sc w visited (g # gs) \<longleftrightarrow>
    g \<in> set (av_delegations v) \<and> grant_is_followed v s sc w g
    \<and> clean_chain v (delegator_of g) (dg_scope g) (window_of g) (visited @ [s]) gs"
  using assms by (auto simp: clean_chain_def chain_principals_def)

lemma clean_chain_Nil:
  "clean_chain v s sc w visited [] \<longleftrightarrow>
     list_ex (assignment_is_source v s sc w) (av_assignments v) \<and> s \<notin> set visited \<and> length visited \<le> 16"
  by (auto simp: clean_chain_def chain_principals_def)

lemma clean_chain_visited: "clean_chain v s sc w visited gs \<Longrightarrow> s \<notin> set visited \<and> length visited \<le> 16"
  by (auto simp: clean_chain_def chain_principals_def)

text \<open>The search without a budget finds exactly the chains with pairwise different principals.\<close>

lemma role_source_chain:
  "budget = None \<Longrightarrow> role_source v s sc w visited budget = Inr (\<exists>gs. clean_chain v s sc w visited gs, None)"
  "budget = None \<Longrightarrow> scan_grants v s sc w path ds budget =
     Inr (\<exists>g \<in> set ds. grant_is_followed v s sc w g
        \<and> (\<exists>gs. clean_chain v (delegator_of g) (dg_scope g) (window_of g) path gs), None)"
proof (induction v s sc w visited budget and v s sc w path ds budget rule: role_source_scan_grants.induct)
  case (1 v s sc w visited budget)
  have b: "spend budget = Inr None" using 1(2) by (simp add: spend_def)
  consider (stop) "s \<in> set visited \<or> length visited > 16"
    | (direct) "\<not> (s \<in> set visited \<or> length visited > 16)" "list_ex (assignment_is_source v s sc w) (av_assignments v)"
    | (grants) "\<not> (s \<in> set visited \<or> length visited > 16)" "\<not> list_ex (assignment_is_source v s sc w) (av_assignments v)"
    by blast
  then show ?case
  proof cases
    case stop
    then have "\<not> clean_chain v s sc w visited gs" for gs using clean_chain_visited [of v s sc w visited gs] by auto
    with stop b show ?thesis by (simp add: role_source.simps)
  next
    case direct
    then have "clean_chain v s sc w visited []" by (simp add: clean_chain_Nil)
    with direct b show ?thesis by (auto simp: role_source.simps)
  next
    case grants
    have "(\<exists>gs. clean_chain v s sc w visited gs) \<longleftrightarrow> (\<exists>g gs. clean_chain v s sc w visited (g # gs))"
      using grants by (metis clean_chain_Nil neq_Nil_conv)
    also have "\<dots> \<longleftrightarrow> (\<exists>g \<in> set (av_delegations v). grant_is_followed v s sc w g
        \<and> (\<exists>gs. clean_chain v (delegator_of g) (dg_scope g) (window_of g) (visited @ [s]) gs))"
      using grants by (auto simp: clean_chain_Cons)
    finally show ?thesis using grants b 1(1) [OF b grants refl] by (simp add: role_source.simps)
  qed
next
  case (3 v s sc w path g gs budget)
  show ?case
  proof (cases "grant_is_followed v s sc w g")
    case False
    with 3(1) [OF False 3(4)] show ?thesis by (auto simp: scan_grants.simps)
  next
    case True
    then have T: "\<not> \<not> grant_is_followed v s sc w g" by simp
    note rec = 3(2) [OF T 3(4)]
    show ?thesis
    proof (cases "\<exists>gs'. clean_chain v (delegator_of g) (dg_scope g) (window_of g) path gs'")
      case found: True
      with rec True show ?thesis by (simp add: scan_grants.simps)
    next
      case False
      with rec have "role_source v (delegator_of g) (dg_scope g) (window_of g) path budget = Inr (False, None)" by simp
      with True False 3(3) [OF T this refl] show ?thesis by (auto simp: scan_grants.simps)
    qed
  qed
qed (simp add: scan_grants.simps)

text \<open>A budget can only turn an answer into the bound's error.\<close>

lemma spend_Inr_cases: "spend b = Inr b' \<Longrightarrow> b = None \<and> b' = None \<or> (\<exists>k > 0. b = Some k \<and> b' = Some (k - 1))"
  by (auto simp: spend_def split: option.splits if_splits)

lemma role_source_budget:
  "role_source v s sc w visited budget = Inr (r, b') \<Longrightarrow> role_source v s sc w visited None = Inr (r, None)"
  "scan_grants v s sc w path ds budget = Inr (r, b') \<Longrightarrow> scan_grants v s sc w path ds None = Inr (r, None)"
proof (induction v s sc w visited budget and v s sc w path ds budget arbitrary: r b' and r b'
    rule: role_source_scan_grants.induct)
  case (1 v s sc w visited budget)
  from 1(2) obtain b where b: "spend budget = Inr b"
    by (subst (asm) role_source.simps) (auto split: sum.splits)
  have n: "spend None = Inr None" by (simp add: spend_def)
  show ?case
    using 1(2) 1(1) [OF b, of r b']
    by (subst role_source.simps, subst (asm) role_source.simps) (auto simp: b n split: if_splits)
next
  case (3 v s sc w path g gs budget)
  show ?case
  proof (cases "grant_is_followed v s sc w g")
    case False
    with 3(4) 3(1) [OF False, of r b'] show ?thesis by (simp add: scan_grants.simps)
  next
    case True
    then have T: "\<not> \<not> grant_is_followed v s sc w g" by simp
    from 3(4) True obtain q b where q: "role_source v (delegator_of g) (dg_scope g) (window_of g) path budget = Inr (q, b)"
      by (auto simp: scan_grants.simps split: sum.splits)
    show ?thesis
    proof (cases q)
      case found: True
      with 3(2) [OF T q] 3(4) True q show ?thesis by (simp add: scan_grants.simps)
    next
      case False
      with q have q': "role_source v (delegator_of g) (dg_scope g) (window_of g) path budget = Inr (False, b)" by simp
      with 3(4) True have "scan_grants v s sc w path gs b = Inr (r, b')" by (simp add: scan_grants.simps)
      with 3(3) [OF T q' refl refl] 3(2) [OF T q'] True show ?thesis by (simp add: scan_grants.simps)
    qed
  qed
qed (simp_all add: scan_grants.simps)

section \<open>Cutting loops out of a chain\<close>

lemma scope_covers_trans: "scope_covers a b \<Longrightarrow> scope_covers b c \<Longrightarrow> scope_covers a c"
  by (auto simp: scope_covers_def)

lemma covers_trans: "covers x y (a, b) \<Longrightarrow> covers (Some a) (Some b) w \<Longrightarrow> covers x y w"
  by (auto simp: covers_def split: option.splits)

text \<open>A chain for a scope and window serves every scope and window they cover.\<close>

lemma source_chain_widen:
  assumes "source_chain v s sc (a, b) gs" and "scope_covers sc sc'" and "covers (Some a) (Some b) w'"
  shows "source_chain v s sc' w' gs"
proof (cases gs)
  case Nil
  then show ?thesis using assms
    by (auto simp: list_ex_iff assignment_is_source_def intro: scope_covers_trans covers_trans)
next
  case (Cons g gs')
  then show ?thesis using assms
    by (auto simp: grant_is_followed_def intro: scope_covers_trans covers_trans)
qed

lemma source_chain_suffix:
  "source_chain v s sc w (pre @ h # post) \<Longrightarrow>
   source_chain v (delegator_of h) (dg_scope h) (window_of h) post
   \<and> scope_covers (dg_scope h) sc \<and> covers (Some (dg_from h)) (Some (dg_to h)) w"
proof (induction pre arbitrary: s sc w)
  case Nil
  then show ?case by (simp add: grant_is_followed_def)
next
  case (Cons g pre)
  have "source_chain v (delegator_of g) (dg_scope g) (window_of g) (pre @ h # post)" using Cons.prems by simp
  from Cons.IH [OF this] have IH: "source_chain v (delegator_of h) (dg_scope h) (window_of h) post"
      "scope_covers (dg_scope h) (dg_scope g)" "covers (Some (dg_from h)) (Some (dg_to h)) (dg_from g, dg_to g)"
    by (simp_all add: window_of_def)
  have "scope_covers (dg_scope g) sc" "covers (Some (dg_from g)) (Some (dg_to g)) w"
    using Cons.prems by (simp_all add: grant_is_followed_def)
  with IH show ?case by (auto intro: scope_covers_trans covers_trans)
qed

text \<open>So a chain that comes back to its subject can start there.\<close>

lemma source_chain_distinct:
  "source_chain v s sc w gs \<Longrightarrow>
   \<exists>gs'. source_chain v s sc w gs' \<and> distinct (chain_principals s gs') \<and> length gs' \<le> length gs"
proof (induction gs arbitrary: s sc w)
  case Nil
  then show ?case by (intro exI [of _ "[]"]) (simp add: chain_principals_def)
next
  case (Cons g gs)
  have "source_chain v (delegator_of g) (dg_scope g) (window_of g) gs" using Cons.prems by simp
  from Cons.IH [OF this] obtain ds where ds: "source_chain v (delegator_of g) (dg_scope g) (window_of g) ds"
      "distinct (chain_principals (delegator_of g) ds)" "length ds \<le> length gs"
    by blast
  have chain: "source_chain v s sc w (g # ds)" using Cons.prems ds(1) by simp
  show ?case
  proof (cases "s \<in> set (chain_principals (delegator_of g) ds)")
    case False
    with ds chain show ?thesis by (intro exI [of _ "g # ds"]) (simp add: chain_principals_def)
  next
    case True
    then obtain h where h: "h \<in> set (g # ds)" "delegator_of h = s"
      by (auto simp: chain_principals_def)
    then obtain pre post where split: "g # ds = pre @ h # post" by (meson split_list)
    have "source_chain v s (dg_scope h) (window_of h) post" and cover: "scope_covers (dg_scope h) sc"
        "covers (Some (dg_from h)) (Some (dg_to h)) w"
      using source_chain_suffix [of v s sc w pre h post] chain split h(2) by simp_all
    then have "source_chain v s sc w post"
      using source_chain_widen [of v s "dg_scope h" "dg_from h" "dg_to h" post sc w] by (simp add: window_of_def)
    moreover have "distinct (chain_principals s post)"
    proof -
      have "map delegator_of (g # ds) = map delegator_of pre @ chain_principals s post"
        by (simp only: split map_append) (simp add: chain_principals_def h(2))
      moreover have "distinct (map delegator_of (g # ds))" using ds(2) by (simp add: chain_principals_def)
      ultimately show ?thesis by (metis distinct_append)
    qed
    moreover have "length post \<le> length (g # gs)" using ds(3) arg_cong [OF split, of length] by simp
    ultimately show ?thesis by blast
  qed
qed

text \<open>
  The answer of the search from the outset: some chain of at most sixteen grants, loops or not.
\<close>

lemma role_source_iff:
  "role_source v s sc w [] None = Inr (\<exists>gs. source_chain v s sc w gs \<and> length gs \<le> 16, None)"
proof -
  have "(\<exists>gs. clean_chain v s sc w [] gs) \<longleftrightarrow> (\<exists>gs. source_chain v s sc w gs \<and> length gs \<le> 16)"
    using source_chain_distinct [of v s sc w] by (auto simp: clean_chain_def) (meson le_trans)
  then show ?thesis by (simp add: role_source_chain(1))
qed

lemma role_source_error:
  "role_source v s sc w visited budget = Inl e \<Longrightarrow> budget \<noteq> None \<and> exn_code e = Some ''authority_unbounded''"
  "scan_grants v s sc w path ds budget = Inl e \<Longrightarrow> budget \<noteq> None \<and> exn_code e = Some ''authority_unbounded''"
proof (induction v s sc w visited budget and v s sc w path ds budget arbitrary: e and e
    rule: role_source_scan_grants.induct)
  case (1 v s sc w visited budget)
  show ?case
  proof (cases "spend budget")
    case (Inl x)
    then show ?thesis using 1(2) by (auto simp: role_source.simps spend_def split: option.splits if_splits)
  next
    case (Inr b)
    with 1 have "b \<noteq> None \<and> exn_code e = Some ''authority_unbounded''"
      by (auto simp: role_source.simps split: if_splits)
    then show ?thesis using spend_Inr_cases [OF Inr] by auto
  qed
next
  case (3 v s sc w path g gs budget)
  show ?case
  proof (cases "grant_is_followed v s sc w g")
    case False
    with 3(4) 3(1) [OF False] show ?thesis by (simp add: scan_grants.simps)
  next
    case True
    then have T: "\<not> \<not> grant_is_followed v s sc w g" by simp
    show ?thesis
    proof (cases "role_source v (delegator_of g) (dg_scope g) (window_of g) path budget")
      case (Inl x)
      with 3(2) [OF T Inl] 3(4) True show ?thesis by (simp add: scan_grants.simps)
    next
      case (Inr a)
      then obtain b where b: "role_source v (delegator_of g) (dg_scope g) (window_of g) path budget = Inr (False, b)"
        using 3(4) True by (cases a; cases "fst a") (auto simp: scan_grants.simps)
      then have "scan_grants v s sc w path gs b = Inl e" using 3(4) True by (simp add: scan_grants.simps)
      with 3(3) [OF T b refl refl] have "b \<noteq> None" "exn_code e = Some ''authority_unbounded''" by auto
      moreover have "budget \<noteq> None"
      proof
        assume "budget = None"
        with b \<open>b \<noteq> None\<close> show False by (simp add: role_source_chain(1))
      qed
      ultimately show ?thesis by simp
    qed
  qed
qed (simp add: scan_grants.simps)

lemma role_source_Inr:
  "role_source v s sc w [] budget = Inr (found, b) \<Longrightarrow> found \<longleftrightarrow> (\<exists>gs. source_chain v s sc w gs \<and> length gs \<le> 16)"
  using role_source_budget(1) [of v s sc w "[]" budget found b] by (simp add: role_source_iff)

text \<open>
  C17: The search for the source of a delegated role always returns, and its answer is exact: it is true
  if and only if a chain of at most sixteen live, unrevoked grants of the role, each covering the scope
  and window of the one below it, leads from the subject to a principal with a live covering assignment.
  A traversal budget never changes an answer: it can only end the search with the bound's error.
\<close>

theorem role_source_exact:
  "case role_source v s sc w [] budget of
     Inl e \<Rightarrow> budget \<noteq> None \<and> exn_code e = Some ''authority_unbounded''
   | Inr (found, _) \<Rightarrow> found = (\<exists>gs. source_chain v s sc w gs \<and> length gs \<le> 16)"
  using role_source_error(1) [of v s sc w "[]" budget] role_source_Inr [of v s sc w budget]
  by (auto split: sum.splits)

end
