(* ===== verification/Membership.thy ===== *)
theory Membership
  imports Delegation "HOL-Library.Product_Lexorder"
begin

text \<open>
  Memberships of the identity foundation as other foundations read them (\<open>foundations/identity\<close>,
  \<open>contracts.py\<close> and \<open>authority.py\<close>): effectiveness at an instant, and the locking reads inside a caller's
  transaction. The row locks themselves are the database's; \<open>now\<close> is the clock a read takes.
\<close>

datatype membership_status = ACTIVE_MEMBER | SUSPENDED | REVOKED

record membership =
  mb_id :: uuid
  mb_tenant :: uuid
  mb_principal :: uuid
  mb_type :: string
  mb_status :: membership_status
  mb_from :: "instant option"
  mb_until :: "instant option"

definition membership_effective :: "membership \<Rightarrow> instant \<Rightarrow> bool" where
  "membership_effective m t \<longleftrightarrow>
     mb_status m = ACTIVE_MEMBER
     \<and> (case mb_from m of None \<Rightarrow> True | Some a \<Rightarrow> a \<le> t)
     \<and> (case mb_until m of None \<Rightarrow> True | Some b \<Rightarrow> t < b)"

definition membership_forbidden :: exn where
  "membership_forbidden = BusinessOSError ''forbidden'' ''Active membership required'' 403"

text \<open>\<open>one_or_none\<close> raises on a second row, which the unique constraint of the table excludes.\<close>

definition lock_membership :: "membership list \<Rightarrow> uuid \<Rightarrow> subject \<Rightarrow> exn + membership" where
  "lock_membership rows ten s =
     (case filter (\<lambda>m. mb_tenant m = ten \<and> mb_principal m = snd s \<and> mb_type m = fst s) rows of
        [] \<Rightarrow> Inl (BusinessOSError ''not_found'' ''Membership not found'' 404)
      | [m] \<Rightarrow> Inr m
      | _ \<Rightarrow> Inl (ForeignError ''MultipleResultsFound''))"

definition lock_current :: "membership list \<Rightarrow> uuid \<Rightarrow> subject \<Rightarrow> instant \<Rightarrow> exn + membership \<times> instant" where
  "lock_current rows ten s now =
     (case lock_membership rows ten s of
        Inl e \<Rightarrow> Inl (if exn_code e = Some ''not_found'' then membership_forbidden else e)
      | Inr m \<Rightarrow> if membership_effective m now then Inr (m, now) else Inl membership_forbidden)"

fun lock_each :: "membership list \<Rightarrow> uuid \<Rightarrow> instant \<Rightarrow> instant \<Rightarrow> instant \<Rightarrow> subject list \<Rightarrow> exn + membership list" where
  "lock_each rows ten t a b [] = Inr []"
| "lock_each rows ten t a b (s # ss) =
     (case lock_membership rows ten s of
        Inl e \<Rightarrow> Inl (if exn_code e = Some ''not_found'' then membership_forbidden else e)
      | Inr m \<Rightarrow>
          if \<not> membership_effective m t
             \<or> (case mb_from m of None \<Rightarrow> False | Some x \<Rightarrow> x > a)
             \<or> (case mb_until m of None \<Rightarrow> False | Some y \<Rightarrow> y < b)
          then Inl membership_forbidden
          else (case lock_each rows ten t a b ss of Inl e \<Rightarrow> Inl e | Inr ms \<Rightarrow> Inr (m # ms)))"

definition lock_many ::
  "membership list \<Rightarrow> uuid \<Rightarrow> subject list \<Rightarrow> moment \<Rightarrow> instant \<Rightarrow> instant \<Rightarrow> exn + membership list" where
  "lock_many rows ten ss evaluated a b =
     (if b \<le> a \<or> \<not> zoned evaluated
      then Inl (BusinessOSError ''forbidden'' ''Invalid authority interval'' 403)
      else lock_each rows ten (at evaluated) a b (sorted_set ss))"

lemma lock_membership_Inr:
  assumes "lock_membership rows ten s = Inr m"
  shows "m \<in> set rows \<and> mb_tenant m = ten \<and> mb_principal m = snd s \<and> mb_type m = fst s"
proof -
  have "filter (\<lambda>m. mb_tenant m = ten \<and> mb_principal m = snd s \<and> mb_type m = fst s) rows = [m]"
    using assms by (auto simp: lock_membership_def split: list.splits)
  from arg_cong [OF this, of set] show ?thesis by auto
qed

lemma lock_current_Inr:
  "lock_current rows ten s now = Inr (m, t) \<Longrightarrow>
   t = now \<and> membership_effective m now \<and> m \<in> set rows \<and> mb_tenant m = ten \<and> mb_principal m = snd s \<and> mb_type m = fst s"
  by (auto simp: lock_current_def dest: lock_membership_Inr split: sum.splits if_splits)

lemma membership_effective_between:
  "membership_effective m a \<Longrightarrow> membership_effective m b \<Longrightarrow> a \<le> t \<Longrightarrow> t \<le> b \<Longrightarrow> membership_effective m t"
  by (auto simp: membership_effective_def split: option.splits)

text \<open>What \<open>lock_many\<close> returns covers the whole interval the caller asked for.\<close>

lemma lock_each_covers:
  "lock_each rows ten t a b ss = Inr ms \<Longrightarrow> m \<in> set ms \<Longrightarrow> a \<le> x \<Longrightarrow> x < b \<Longrightarrow> membership_effective m x"
proof (induction ss arbitrary: ms)
  case (Cons s ss)
  then show ?case by (auto simp: membership_effective_def split: sum.splits if_splits option.splits)
qed simp

end
