(* ===== verification/Conditions.thy ===== *)
theory Conditions
  imports Decimals
begin

text \<open>
  The attribute conditions of record and field policies (\<open>foundations/policy\<close>, \<open>contracts.py\<close>): the fact
  values owners supply (frozen by \<open>_freeze_attributes\<close> of \<open>v2_contracts.py\<close>), Python's equality on them,
  and the two condition predicates. Parsing and validating the JSON text of an expression is pydantic's
  and a parameter.
\<close>

section \<open>Values\<close>

text \<open>
  A finite float is its rational value; a decimal that is not finite equals nothing here; \<open>VOther\<close> is an
  object of any other type.
\<close>

datatype fact =
    VNone | VBool bool | VInt int | VFloat rat | VDecimal decimal | VStr string | VUuid int
  | VTuple "fact list" | VList "fact list" | VMap "(string \<times> fact) list" | VOther string

fun number_of :: "fact \<Rightarrow> rat option" where
  "number_of (VBool b) = Some (if b then 1 else 0)"
| "number_of (VInt i) = Some (of_int i)"
| "number_of (VFloat r) = Some r"
| "number_of (VDecimal d) = (if is_finite d then Some (value_of d) else None)"
| "number_of _ = None"

text \<open>Python's \<open>==\<close>: numbers by value (a \<open>bool\<close> is one), sequences of one type and mappings memberwise.\<close>

fun py_eq :: "fact \<Rightarrow> fact \<Rightarrow> bool" where
  "py_eq a b \<longleftrightarrow>
     (case a of
        VStr s \<Rightarrow> b = VStr s
      | VNone \<Rightarrow> b = VNone
      | VUuid u \<Rightarrow> b = VUuid u
      | VTuple xs \<Rightarrow> (case b of VTuple ys \<Rightarrow> list_all2 py_eq xs ys | _ \<Rightarrow> False)
      | VList xs \<Rightarrow> (case b of VList ys \<Rightarrow> list_all2 py_eq xs ys | _ \<Rightarrow> False)
      | VMap xs \<Rightarrow>
          (case b of
             VMap ys \<Rightarrow> length xs = length ys \<and>
               list_all (\<lambda>(k, v). case map_of ys k of None \<Rightarrow> False | Some w \<Rightarrow> py_eq v w) xs
           | _ \<Rightarrow> False)
      | VOther s \<Rightarrow> b = VOther s
      | _ \<Rightarrow> number_of a \<noteq> None \<and> number_of b = number_of a)"

declare py_eq.simps [simp del]

text \<open>\<open>_freeze_attributes\<close>: which values pass; they are kept as they are.\<close>

fun freezable :: "fact \<Rightarrow> bool" where
  "freezable (VTuple xs) \<longleftrightarrow> list_all freezable xs"
| "freezable (VMap xs) \<longleftrightarrow> list_all (\<lambda>(k, v). freezable v) xs"
| "freezable (VList xs) \<longleftrightarrow> False"
| "freezable (VFloat r) \<longleftrightarrow> False"
| "freezable (VOther s) \<longleftrightarrow> False"
| "freezable _ \<longleftrightarrow> True"

definition freeze_attributes :: "(string \<times> fact) list \<Rightarrow> exn + (string \<times> fact) list" where
  "freeze_attributes xs =
     (if list_all (\<lambda>(k, v). freezable v) xs then Inr xs else Inl (ValueError ''Unsupported Policy V2 fact shape''))"

section \<open>Conditions\<close>

datatype operator = EQ | NE | IN

record condition =
  cn_attribute :: string
  cn_operator :: operator
  cn_value :: fact

text \<open>\<open>_ABACExpression.model_validate_json\<close>: nothing when it raises.\<close>

type_synonym expression_parser = "string \<Rightarrow> condition list option"

definition condition_fails :: "condition \<Rightarrow> fact \<Rightarrow> bool" where
  "condition_fails c actual \<longleftrightarrow>
     (case cn_operator c of
        EQ \<Rightarrow> \<not> py_eq actual (cn_value c)
      | NE \<Rightarrow> py_eq actual (cn_value c)
      | IN \<Rightarrow> (case cn_value c of VList vs \<Rightarrow> \<not> list_ex (py_eq actual) vs | _ \<Rightarrow> True))"

text \<open>The V1 predicate reads an absent attribute as \<open>None\<close>; the V2 predicate refuses it.\<close>

definition condition_matches_v1 :: "expression_parser \<Rightarrow> string option \<Rightarrow> (string \<times> fact) list \<Rightarrow> bool" where
  "condition_matches_v1 parse expression attributes =
     (case expression of
        None \<Rightarrow> True
      | Some text \<Rightarrow>
          (case parse text of
             None \<Rightarrow> False
           | Some cs \<Rightarrow>
               list_all (\<lambda>c. \<not> condition_fails c
                  (case map_of attributes (cn_attribute c) of None \<Rightarrow> VNone | Some v \<Rightarrow> v)) cs))"

definition condition_matches :: "expression_parser \<Rightarrow> string option \<Rightarrow> (string \<times> fact) list \<Rightarrow> bool" where
  "condition_matches parse expression attributes =
     (case expression of
        None \<Rightarrow> True
      | Some text \<Rightarrow>
          (case parse text of
             None \<Rightarrow> False
           | Some cs \<Rightarrow>
               list_all (\<lambda>c. case map_of attributes (cn_attribute c) of
                   None \<Rightarrow> False | Some v \<Rightarrow> \<not> condition_fails c v) cs))"

definition condition_is_valid :: "expression_parser \<Rightarrow> string option \<Rightarrow> bool" where
  "condition_is_valid parse expression =
     (case expression of None \<Rightarrow> True | Some text \<Rightarrow> parse text \<noteq> None)"

section \<open>Laws\<close>

text \<open>The V2 predicate is the V1 predicate without the reading of an absent fact as \<open>None\<close>.\<close>

lemma condition_matches_v2_v1:
  "condition_matches parse e xs \<Longrightarrow> condition_matches_v1 parse e xs"
  by (fastforce simp: condition_matches_def condition_matches_v1_def list_all_iff split: option.splits)

lemma condition_matches_present:
  assumes "condition_matches parse (Some text) xs" and "parse text = Some cs" and "c \<in> set cs"
  shows "map_of xs (cn_attribute c) \<noteq> None"
  using assms by (auto simp: condition_matches_def list_all_iff split: option.splits)

lemma condition_matches_valid: "condition_matches parse e xs \<Longrightarrow> condition_is_valid parse e"
  by (auto simp: condition_matches_def condition_is_valid_def split: option.splits)

text \<open>Numbers are equal by value whatever their types: \<open>True == 1 == 1.0\<close>.\<close>

lemma py_eq_number: "number_of a = Some x \<Longrightarrow> py_eq a b \<longleftrightarrow> number_of b = Some x"
  by (cases a) (auto simp: py_eq.simps split: if_splits)

end
