(* ===== verification/Policy_V2.thy ===== *)
theory Policy_V2
  imports Membership Conditions
begin

text \<open>
  The live authorization decisions of the policy foundation (\<open>foundations/policy\<close>, \<open>v2_contracts.py\<close> and
  \<open>v2_runtime.py\<close>): owner facts, effective roles with delegation and inheritance, record policies,
  approval limits, field policies, support access, the evidence of a decision and the one-use permit.
  The ports the service is constructed with (resource owners, classification provider) and the
  clock are arguments.
\<close>

section \<open>Decisions\<close>

datatype decision_mode = Presentation | Read_Mode | Mutation | Approval

datatype decision_reason =
    ALLOWED | PRINCIPAL_MISMATCH | INACTIVE_MEMBERSHIP | ACTION_UNMAPPED | OWNER_UNAVAILABLE | FACT_MISMATCH
  | NO_ACTIVE_ROLE | SCOPE_MISMATCH | RECORD_DENIED | CLASSIFICATION_UNAVAILABLE | FIELD_NOT_ALLOWED | APPROVAL_LIMIT_MISSING | APPROVAL_LIMIT_EXCEEDED
  | CURRENCY_MISMATCH | OPERATION_MISMATCH | SUPPORT_GRANT_MISSING

text \<open>\<open>AuthorizationOperationFactsV2\<close>; amounts and quantities compare by value.\<close>

record operation_facts =
  op_action :: string
  op_amount :: "decimal option"
  op_currency :: "string option"
  op_quantity :: "decimal option"
  op_target_state :: "string option"
  op_attributes :: "(string \<times> fact) list"

definition canonical_action :: "string \<Rightarrow> bool" where
  "canonical_action s \<longleftrightarrow>
     (case s of [] \<Rightarrow> False | c # cs \<Rightarrow> is_lower c \<and> list_all (\<lambda>x. is_lower x \<or> is_digit x \<or> x \<in> set ''_.-'') cs)"

definition make_operation :: "operation_facts \<Rightarrow> exn + operation_facts" where
  "make_operation op =
     (if \<not> canonical_action (op_action op) then Inl (ValueError ''Operation action must be canonical'')
      else if (case op_amount op of None \<Rightarrow> False | Some d \<Rightarrow> \<not> is_finite d)
      then Inl (ValueError ''Operation amount must be finite Decimal'')
      else if (case op_quantity op of None \<Rightarrow> False | Some d \<Rightarrow> \<not> is_finite d)
      then Inl (ValueError ''Operation quantity must be finite Decimal'')
      else if (op_amount op = None) \<noteq> (op_currency op = None)
      then Inl (ValueError ''Amount and currency must be supplied together'')
      else if (case op_currency op of None \<Rightarrow> False | Some c \<Rightarrow> \<not> (length c = 3 \<and> list_all is_upper c))
      then Inl (ValueError ''Operation currency must be canonical ISO code'')
      else (case freeze_attributes (op_attributes op) of Inl e \<Rightarrow> Inl e | Inr _ \<Rightarrow> Inr op))"

definition same_amount :: "decimal option \<Rightarrow> decimal option \<Rightarrow> bool" where
  "same_amount a b \<longleftrightarrow>
     (case (a, b) of (None, None) \<Rightarrow> True | (Some x, Some y) \<Rightarrow> value_of x = value_of y | _ \<Rightarrow> False)"

definition same_operation :: "operation_facts \<Rightarrow> operation_facts \<Rightarrow> bool" where
  "same_operation a b \<longleftrightarrow>
     op_action a = op_action b \<and> same_amount (op_amount a) (op_amount b) \<and> op_currency a = op_currency b
     \<and> same_amount (op_quantity a) (op_quantity b) \<and> op_target_state a = op_target_state b
     \<and> py_eq (VMap (op_attributes a)) (VMap (op_attributes b))"

section \<open>Resource facts\<close>

text \<open>What the owner's provider returns, its facts a mapping, and the facts Policy makes of it.\<close>

record owner_answer =
  oa_tenant :: uuid
  oa_namespace :: string
  oa_record :: uuid
  oa_owner :: string
  oa_version :: string
  oa_lifecycle :: string
  oa_facts :: "(string \<times> fact) list"

record locator =
  lo_namespace :: string
  lo_version :: string
  lo_record :: uuid
  lo_tenant :: uuid

record resource_facts =
  rf_tenant :: uuid
  rf_namespace :: string
  rf_version :: string
  rf_record :: uuid
  rf_owner_module :: string
  rf_company :: "uuid option"
  rf_legal_entity :: "uuid option"
  rf_site :: "uuid option"
  rf_business_unit :: "uuid option"
  rf_record_owner :: "uuid option"
  rf_record_owner_type :: "string option"
  rf_classification :: "string option"
  rf_field_classes :: "(string \<times> string) list"
  rf_attributes :: "(string \<times> fact) list"
  rf_operation :: "operation_facts option"

definition fact_at :: "(string \<times> fact) list \<Rightarrow> string \<Rightarrow> fact" where
  "fact_at raw k = (case map_of raw k of None \<Rightarrow> VNone | Some v \<Rightarrow> v)"

definition optional_uuid :: "(string \<times> fact) list \<Rightarrow> string \<Rightarrow> exn + uuid option" where
  "optional_uuid raw k =
     (case fact_at raw k of
        VNone \<Rightarrow> Inr None
      | VUuid u \<Rightarrow> Inr (Some u)
      | _ \<Rightarrow> Inl (ValueError ''Owner scope facts must be exact UUIDs''))"

definition optional_string :: "string \<Rightarrow> fact \<Rightarrow> exn + string option" where
  "optional_string complaint v =
     (case v of VNone \<Rightarrow> Inr None | VStr s \<Rightarrow> Inr (Some s) | _ \<Rightarrow> Inl (ValueError complaint))"

definition optional_decimal :: "string \<Rightarrow> fact \<Rightarrow> exn + decimal option" where
  "optional_decimal complaint v =
     (case v of VNone \<Rightarrow> Inr None | VDecimal d \<Rightarrow> Inr (Some d) | _ \<Rightarrow> Inl (ValueError complaint))"

definition mapping_at :: "string \<Rightarrow> (string \<times> fact) list \<Rightarrow> string \<Rightarrow> exn + (string \<times> fact) list" where
  "mapping_at complaint raw k =
     (case map_of raw k of None \<Rightarrow> Inr [] | Some (VMap xs) \<Rightarrow> Inr xs | Some _ \<Rightarrow> Inl (ValueError complaint))"

fun string_entries :: "(string \<times> fact) list \<Rightarrow> exn + (string \<times> string) list" where
  "string_entries [] = Inr []"
| "string_entries ((k, v) # xs) =
     (case v of
        VStr s \<Rightarrow> (case string_entries xs of Inl e \<Rightarrow> Inl e | Inr ys \<Rightarrow> Inr ((k, s) # ys))
      | _ \<Rightarrow> Inl (ValueError ''Field classification metadata is invalid''))"

definition operation_of_facts :: "(string \<times> fact) list \<Rightarrow> exn + operation_facts" where
  "operation_of_facts values =
     (if \<not> set (map fst values) \<subseteq> {''action'', ''amount'', ''currency'', ''quantity'', ''target_state'', ''attributes''}
      then Inl (ValueError ''Owner normalized operation contains unknown values'')
      else
        bind_res (case fact_at values ''action'' of VStr s \<Rightarrow> Inr s | _ \<Rightarrow> Inl (ValueError ''Operation action must be canonical'')) (\<lambda>action.
        bind_res (optional_decimal ''Operation amount must be finite Decimal'' (fact_at values ''amount'')) (\<lambda>amount.
        bind_res (optional_decimal ''Operation quantity must be finite Decimal'' (fact_at values ''quantity'')) (\<lambda>quantity.
        bind_res (optional_string ''Operation currency must be canonical ISO code'' (fact_at values ''currency'')) (\<lambda>currency.
        bind_res (optional_string ''Operation target state must be a string'' (fact_at values ''target_state'')) (\<lambda>target.
        bind_res (mapping_at ''Policy V2 fact names must be canonical strings'' values ''attributes'') (\<lambda>attributes.
          make_operation \<lparr>op_action = action, op_amount = amount, op_currency = currency, op_quantity = quantity,
            op_target_state = target, op_attributes = attributes\<rparr>)))))))"

definition owner_operation :: "(string \<times> fact) list \<Rightarrow> exn + operation_facts option" where
  "owner_operation raw =
     (case fact_at raw ''normalized_operation'' of
        VNone \<Rightarrow> Inr None
      | VMap values \<Rightarrow> bind_res (operation_of_facts values) (\<lambda>op. Inr (Some op))
      | _ \<Rightarrow> Inl (ValueError ''Owner normalized operation is invalid''))"

text \<open>\<open>AuthorizationResourceFactsV2.from_owner\<close> with the checks of \<open>__post_init__\<close>.\<close>

definition facts_from_owner :: "owner_answer \<Rightarrow> locator \<Rightarrow> string \<Rightarrow> exn + resource_facts" where
  "facts_from_owner oa lo owner_module =
     (if oa_tenant oa \<noteq> lo_tenant lo \<or> oa_namespace oa \<noteq> lo_namespace lo \<or> oa_version oa \<noteq> lo_version lo
         \<or> oa_record oa \<noteq> lo_record lo \<or> oa_owner oa \<noteq> owner_module \<or> oa_lifecycle oa \<noteq> ''current''
      then Inl (ValueError ''Owner facts do not match the canonical resource'')
      else let raw = oa_facts oa in
        bind_res (optional_uuid raw ''company_id'') (\<lambda>company.
        bind_res (optional_uuid raw ''legal_entity_id'') (\<lambda>legal.
        bind_res (optional_uuid raw ''operating_site_id'') (\<lambda>site.
        bind_res (optional_uuid raw ''business_unit_id'') (\<lambda>unit.
        bind_res (optional_uuid raw ''record_owner_id'') (\<lambda>rowner.
        bind_res (optional_string ''Owner classification reference is invalid'' (fact_at raw ''classification_ref'')) (\<lambda>class_ref.
        bind_res (optional_string ''Record owner principal type is invalid'' (fact_at raw ''record_owner_type'')) (\<lambda>owner_type.
        bind_res (mapping_at ''Field classification metadata is invalid'' raw ''field_classifications'') (\<lambda>fields.
        bind_res (mapping_at ''Owner ABAC facts are invalid'' raw ''attributes'') (\<lambda>attributes.
        bind_res (owner_operation raw) (\<lambda>operation.
        bind_res (raise_if (case owner_type of None \<Rightarrow> False | Some ty \<Rightarrow> ty \<notin> set subject_types)
                    (ValueError ''Owner principal type is invalid'')) (\<lambda>_.
        bind_res (string_entries fields) (\<lambda>classes.
        bind_res (freeze_attributes attributes) (\<lambda>frozen.
          Inr \<lparr>rf_tenant = oa_tenant oa, rf_namespace = oa_namespace oa, rf_version = oa_version oa,
            rf_record = oa_record oa, rf_owner_module = oa_owner oa, rf_company = company,
            rf_legal_entity = legal, rf_site = site, rf_business_unit = unit, rf_record_owner = rowner,
            rf_record_owner_type = owner_type, rf_classification = class_ref, rf_field_classes = classes,
            rf_attributes = frozen, rf_operation = operation\<rparr>))))))))))))))"

end
