(* ===== verification/Sod.thy ===== *)
theory Sod
  imports Delegation "HOL-Library.Product_Lexorder" "HOL-Library.Monad_Syntax"
begin

text \<open>
  Preventative segregation of duties (\<open>foundations/policy\<close>, \<open>sod_authority.py\<close>): the tenant's authority
  snapshot, the validation of its role and delegation graphs, the permissions a subject holds at an
  instant, and the check that a projected change makes no conflict.
\<close>

section \<open>The snapshot\<close>

datatype severity = PREVENTATIVE | DETECTIVE

record sod_rule =
  sr_tenant :: uuid
  sr_code :: string
  sr_permission_a :: string
  sr_permission_b :: string
  sr_severity :: severity

record sod_authority =
  sa_tenant :: uuid
  sa_roles :: "role list"
  sa_permissions :: "role_permission list"
  sa_assignments :: "role_assignment list"
  sa_delegations :: "delegation_grant list"
  sa_rules :: "sod_rule list"

definition max_rows :: nat where "max_rows = 256"
definition max_role_depth :: nat where "max_role_depth = 16"
definition max_evaluations :: nat where "max_evaluations = 4096"
definition max_source_traversals :: int where "max_source_traversals = 16384"

definition unbounded :: "string \<Rightarrow> exn" where
  "unbounded m = BusinessOSError ''authority_unbounded'' m 403"

text \<open>\<open>_load_rows\<close> and \<open>_load_preventative_rules\<close>: a select with a limit one above the bound.\<close>

definition load_rows :: "string \<Rightarrow> ('r \<Rightarrow> bool) \<Rightarrow> 'r list \<Rightarrow> exn + 'r list" where
  "load_rows what p table =
     (let rows = take (max_rows + 1) (filter p table)
      in if length rows > max_rows then Inl (unbounded what) else Inr rows)"

definition with_permission :: "sod_authority \<Rightarrow> role_permission \<Rightarrow> sod_authority" where
  "with_permission a r = a\<lparr>sa_permissions := sa_permissions a @ [r]\<rparr>"

definition with_assignment :: "sod_authority \<Rightarrow> role_assignment \<Rightarrow> sod_authority" where
  "with_assignment a r = a\<lparr>sa_assignments := sa_assignments a @ [r]\<rparr>"

definition with_delegation :: "sod_authority \<Rightarrow> delegation_grant \<Rightarrow> sod_authority" where
  "with_delegation a r = a\<lparr>sa_delegations := sa_delegations a @ [r]\<rparr>"

definition with_rule :: "sod_authority \<Rightarrow> sod_rule \<Rightarrow> sod_authority" where
  "with_rule a r = a\<lparr>sa_rules := sa_rules a @ [r]\<rparr>"

section \<open>The shape of the graphs\<close>

text \<open>A dictionary built from the rows: the last row of an ID wins.\<close>

definition role_map :: "role list \<Rightarrow> uuid \<Rightarrow> role option" where
  "role_map rs = map_of (map (\<lambda>r. (ro_id r, r)) (rev rs))"

function check_ancestry :: "role list \<Rightarrow> uuid list \<Rightarrow> uuid option \<Rightarrow> exn + unit" where
  "check_ancestry rs seen current =
     (case current of
        None \<Rightarrow> Inr ()
      | Some c \<Rightarrow>
          if c \<in> set seen \<or> length seen \<ge> max_role_depth
          then Inl (unbounded ''Policy role hierarchy is cyclic or too deep'')
          else (case role_map rs c of
              None \<Rightarrow> Inl (unbounded ''Policy role hierarchy has a missing parent'')
            | Some r \<Rightarrow> check_ancestry rs (c # seen) (ro_parent r)))"
  by pat_completeness auto
termination
  by (relation "measure (\<lambda>(rs, seen, current). max_role_depth - length seen)") auto

declare check_ancestry.simps [simp del]

text \<open>
  The edges of one role's delegation graph, as a dictionary from delegators to the set of their
  delegatees, and the memoised depth-first search over it.
\<close>

type_synonym edges = "(subject \<times> subject list) list"

definition live_edge :: "delegation_grant \<Rightarrow> bool" where
  "live_edge g \<longleftrightarrow> \<not> dg_revoked g \<and> known_type (dg_delegator_type g) \<and> known_type (dg_delegatee_type g)"

definition delegatee_of :: "delegation_grant \<Rightarrow> subject" where
  "delegatee_of g = (case dg_delegatee_type g of Some ty \<Rightarrow> (ty, dg_delegatee g) | None \<Rightarrow> ('''', dg_delegatee g))"

definition role_edges :: "delegation_grant list \<Rightarrow> uuid \<Rightarrow> edges" where
  "role_edges gs r =
     (let live = filter (\<lambda>g. live_edge g \<and> dg_role g = r) gs
      in map (\<lambda>n. (n, remdups (map delegatee_of (filter (\<lambda>g. delegator_of g = n) live))))
           (dedup (map delegator_of live)))"

definition children :: "edges \<Rightarrow> subject \<Rightarrow> subject list" where
  "children es n = (case map_of es n of None \<Rightarrow> [] | Some cs \<Rightarrow> cs)"

definition too_deep :: exn where
  "too_deep = unbounded ''Policy delegation graph is cyclic or too deep''"

type_synonym memo = "(subject \<times> nat) list"

function visit :: "edges \<Rightarrow> subject \<Rightarrow> subject list \<Rightarrow> memo \<Rightarrow> exn + nat \<times> memo"
  and visit_children :: "edges \<Rightarrow> subject list \<Rightarrow> subject list \<Rightarrow> nat \<Rightarrow> memo \<Rightarrow> exn + nat \<times> memo" where
  "visit es n path m =
     (if n \<in> set path then Inl too_deep
      else (case map_of m n of
          Some d \<Rightarrow> Inr (d, m)
        | None \<Rightarrow>
            (case visit_children es (children es n) (n # path) 1 m of
               Inl e \<Rightarrow> Inl e
             | Inr (depth, m') \<Rightarrow>
                 if depth > max_role_depth then Inl too_deep else Inr (depth, (n, depth) # m'))))"
| "visit_children es [] path depth m = Inr (depth, m)"
| "visit_children es (c # cs) path depth m =
     (case visit es c path m of
        Inl e \<Rightarrow> Inl e
      | Inr (d, m') \<Rightarrow> visit_children es cs path (max depth (1 + d)) m')"
  by pat_completeness auto
termination
proof (relation "measures
    [\<lambda>x. case x of Inl (es, n, path, m) \<Rightarrow> card (set (map fst es) - set path)
               | Inr (es, cs, path, depth, m) \<Rightarrow> card (set (map fst es) - set path),
     \<lambda>x. case x of Inl _ \<Rightarrow> 1 | Inr (es, cs, path, depth, m) \<Rightarrow> 2 * length cs]", goal_cases)
  case (2 es n path m)
  show ?case
  proof (cases "children es n = []")
    case True
    have "card (set (map fst es) - set (n # path)) \<le> card (set (map fst es) - set path)"
      by (rule card_mono) auto
    with True show ?thesis by auto
  next
    case False
    then have "map_of es n \<noteq> None" by (auto simp: children_def split: option.splits)
    then have "n \<in> set (map fst es)" by (simp add: map_of_eq_None_iff)
    with 2 have "set (map fst es) - set (n # path) \<subset> set (map fst es) - set path" by auto
    then have "card (set (map fst es) - set (n # path)) < card (set (map fst es) - set path)"
      by (intro psubset_card_mono) simp_all
    then show ?thesis by simp
  qed
qed auto

declare visit.simps [simp del] visit_children.simps [simp del]

fun visit_all :: "edges \<Rightarrow> subject list \<Rightarrow> memo \<Rightarrow> exn + memo" where
  "visit_all es [] m = Inr m"
| "visit_all es (n # ns) m =
     (case visit es n [] m of Inl e \<Rightarrow> Inl e | Inr (_, m') \<Rightarrow> visit_all es ns m')"

definition naive_assignment :: "role_assignment \<Rightarrow> bool" where
  "naive_assignment a \<longleftrightarrow>
     (case ra_from a of None \<Rightarrow> False | Some m \<Rightarrow> \<not> zoned m) \<or> (case ra_to a of None \<Rightarrow> False | Some m \<Rightarrow> \<not> zoned m)"

definition naive_grant :: "delegation_grant \<Rightarrow> bool" where
  "naive_grant g \<longleftrightarrow> \<not> zoned (dg_from g) \<or> \<not> zoned (dg_to g)"

definition validate_shape :: "sod_authority \<Rightarrow> exn + unit" where
  "validate_shape a =
     (if length (sa_roles a) > max_rows \<or> length (sa_permissions a) > max_rows \<or> length (sa_assignments a) > max_rows
         \<or> length (sa_delegations a) > max_rows \<or> length (sa_rules a) > max_rows
      then Inl (unbounded ''Projected Policy authority exceeds the reviewed row bound'')
      else if list_ex naive_assignment (sa_assignments a) \<or> list_ex naive_grant (sa_delegations a)
      then Inl (unbounded ''Policy authority has a naive validity instant'')
      else seq_res (check_all (\<lambda>r. check_ancestry (sa_roles a) [] (Some (ro_id r))) (sa_roles a))
             (check_all (\<lambda>r. case visit_all (role_edges (sa_delegations a) r) (map fst (role_edges (sa_delegations a) r)) []
                           of Inl e \<Rightarrow> Inl e | Inr _ \<Rightarrow> Inr ())
                (dedup (map dg_role (filter live_edge (sa_delegations a))))))"

definition with_role :: "sod_authority \<Rightarrow> role \<Rightarrow> exn + sod_authority" where
  "with_role a r =
     (let projected = a\<lparr>sa_roles := sa_roles a @ [r]\<rparr>
      in case validate_shape projected of Inl e \<Rightarrow> Inl e | Inr _ \<Rightarrow> Inr projected)"

text \<open>\<open>SoDAuthority.load\<close> from the policy tables of all tenants.\<close>

record policy_tables =
  pt_roles :: "role list"
  pt_permissions :: "role_permission list"
  pt_assignments :: "role_assignment list"
  pt_delegations :: "delegation_grant list"
  pt_rules :: "sod_rule list"

definition load_authority :: "policy_tables \<Rightarrow> uuid \<Rightarrow> exn + sod_authority" where
  "load_authority tb ten =
     (let scan = ''Policy authority scan exceeds the reviewed row bound''
      in case load_rows scan (\<lambda>r. ro_tenant r = ten) (pt_roles tb) of Inl e \<Rightarrow> Inl e | Inr rs \<Rightarrow>
         (case load_rows scan (\<lambda>r. rp_tenant r = ten) (pt_permissions tb) of Inl e \<Rightarrow> Inl e | Inr ps \<Rightarrow>
         (case load_rows scan (\<lambda>r. ra_tenant r = ten) (pt_assignments tb) of Inl e \<Rightarrow> Inl e | Inr xs \<Rightarrow>
         (case load_rows scan (\<lambda>r. dg_tenant r = ten) (pt_delegations tb) of Inl e \<Rightarrow> Inl e | Inr ds \<Rightarrow>
         (case load_rows ''Preventative SoD rule scan exceeds the reviewed row bound''
                 (\<lambda>r. sr_tenant r = ten \<and> sr_severity r = PREVENTATIVE) (pt_rules tb) of Inl e \<Rightarrow> Inl e | Inr us \<Rightarrow>
            let a = \<lparr>sa_tenant = ten, sa_roles = rs, sa_permissions = ps, sa_assignments = xs, sa_delegations = ds,
                     sa_rules = us\<rparr>
            in (case validate_shape a of Inl e \<Rightarrow> Inl e | Inr _ \<Rightarrow> Inr a))))))"

lemma load_authority_valid: "load_authority tb ten = Inr a \<Longrightarrow> validate_shape a = Inr () \<and> sa_tenant a = ten"
  by (auto simp: load_authority_def Let_def split: sum.splits)

section \<open>The permissions of a subject\<close>

definition view_of :: "sod_authority \<Rightarrow> uuid \<Rightarrow> instant \<Rightarrow> authority_view" where
  "view_of a r t = \<lparr>av_tenant = sa_tenant a, av_role = r, av_instant = t, av_assignments = sa_assignments a,
     av_delegations = sa_delegations a\<rparr>"

definition assigned_roles :: "sod_authority \<Rightarrow> subject \<Rightarrow> instant \<Rightarrow> uuid list" where
  "assigned_roles a s t =
     map ra_role (filter (\<lambda>r. ra_subject_type r = Some (fst s) \<and> ra_subject r = snd s
                              \<and> active_at (ra_from r) (ra_to r) t) (sa_assignments a))"

definition held_grant :: "subject \<Rightarrow> instant \<Rightarrow> delegation_grant \<Rightarrow> bool" where
  "held_grant s t g \<longleftrightarrow>
     dg_delegatee_type g = Some (fst s) \<and> dg_delegatee g = snd s \<and> known_type (dg_delegator_type g)
     \<and> \<not> dg_revoked g \<and> active_at (Some (dg_from g)) (Some (dg_to g)) t"

fun delegated_roles ::
  "sod_authority \<Rightarrow> subject \<Rightarrow> instant \<Rightarrow> delegation_grant list \<Rightarrow> uuid list \<Rightarrow> int option \<Rightarrow> exn + uuid list \<times> int option" where
  "delegated_roles a s t [] acc budget = Inr (acc, budget)"
| "delegated_roles a s t (g # gs) acc budget =
     (if \<not> held_grant s t g then delegated_roles a s t gs acc budget
      else case role_source (view_of a (dg_role g) t) (delegator_of g) (dg_scope g) (window_of g) [] budget of
          Inl e \<Rightarrow> Inl e
        | Inr (found, b) \<Rightarrow> delegated_roles a s t gs (if found then acc @ [dg_role g] else acc) b)"

text \<open>
  The loop \<open>while current is not None\<close> over a role's parents has no bound of its own: \<open>None\<close> is a loop
  that never ends.
\<close>

partial_function (option) ancestors :: "role list \<Rightarrow> uuid option \<Rightarrow> uuid list \<Rightarrow> (exn + uuid list) option" where
  "ancestors rs current acc =
     (case current of
        None \<Rightarrow> Some (Inr acc)
      | Some c \<Rightarrow>
          (case role_map rs c of
             None \<Rightarrow> Some (Inl (unbounded ''Policy authority references a missing role''))
           | Some r \<Rightarrow> ancestors rs (ro_parent r) (acc @ [c])))"

declare ancestors.simps [code]

fun close_roles :: "role list \<Rightarrow> uuid list \<Rightarrow> uuid list \<Rightarrow> (exn + uuid list) option" where
  "close_roles rs [] acc = Some (Inr acc)"
| "close_roles rs (r # ids) acc =
     (case ancestors rs (Some r) acc of
        None \<Rightarrow> None
      | Some (Inl e) \<Rightarrow> Some (Inl e)
      | Some (Inr acc') \<Rightarrow> close_roles rs ids acc')"

definition permissions_for ::
  "sod_authority \<Rightarrow> subject \<Rightarrow> instant \<Rightarrow> int option \<Rightarrow> (exn + string list \<times> int option) option" where
  "permissions_for a s t budget =
     (case delegated_roles a s t (sa_delegations a) (assigned_roles a s t) budget of
        Inl e \<Rightarrow> Some (Inl e)
      | Inr (ids, b) \<Rightarrow>
          (case close_roles (sa_roles a) ids ids of
             None \<Rightarrow> None
           | Some (Inl e) \<Rightarrow> Some (Inl e)
           | Some (Inr ids') \<Rightarrow>
               Some (Inr (map rp_permission (filter (\<lambda>p. rp_role p \<in> set ids') (sa_permissions a)), b))))"

section \<open>Projected conflicts\<close>

definition authority_subjects :: "sod_authority \<Rightarrow> subject list" where
  "authority_subjects a =
     map (\<lambda>r. (the (ra_subject_type r), ra_subject r)) (filter (\<lambda>r. known_type (ra_subject_type r)) (sa_assignments a))
     @ map delegatee_of (filter (\<lambda>g. known_type (dg_delegatee_type g)) (sa_delegations a))"

definition authority_instants :: "sod_authority \<Rightarrow> instant \<Rightarrow> instant list" where
  "authority_instants a now =
     now # [at m. r \<leftarrow> sa_assignments a, m \<leftarrow> (case ra_from r of None \<Rightarrow> [] | Some m \<Rightarrow> [m]), at m > now]
     @ [at (dg_from g). g \<leftarrow> sa_delegations a, at (dg_from g) > now]"

definition checked_rules :: "sod_authority \<Rightarrow> bool \<Rightarrow> sod_rule list" where
  "checked_rules projected new_rule =
     (if new_rule then (if sa_rules projected = [] then [] else [last (sa_rules projected)])
      else filter (\<lambda>r. sr_severity r = PREVENTATIVE) (sa_rules projected))"

definition violates :: "sod_rule \<Rightarrow> string list \<Rightarrow> bool" where
  "violates r ps \<longleftrightarrow> sr_severity r = PREVENTATIVE \<and> sr_permission_a r \<in> set ps \<and> sr_permission_b r \<in> set ps"

text \<open>The two loops: rule codes and subjects in conflict, each once, in the order they are found.\<close>

fun find_conflicts ::
  "sod_authority \<Rightarrow> sod_authority \<Rightarrow> bool \<Rightarrow> sod_rule list \<Rightarrow> (subject \<times> instant) list \<Rightarrow>
   string list \<times> subject list \<Rightarrow> int option \<Rightarrow> (exn + string list \<times> subject list) option" where
  "find_conflicts a a' new_rule rules [] found budget = Some (Inr found)"
| "find_conflicts a a' new_rule rules ((s, t) # rest) found budget =
     (case permissions_for a s t budget of
        None \<Rightarrow> None
      | Some (Inl e) \<Rightarrow> Some (Inl e)
      | Some (Inr (before, b)) \<Rightarrow>
          (case permissions_for a' s t b of
             None \<Rightarrow> None
           | Some (Inl e) \<Rightarrow> Some (Inl e)
           | Some (Inr (after, b')) \<Rightarrow>
               if \<not> new_rule \<and> set after \<subseteq> set before then find_conflicts a a' new_rule rules rest found b'
               else (case List.find (\<lambda>r. violates r after) rules of
                   None \<Rightarrow> find_conflicts a a' new_rule rules rest found b'
                 | Some r \<Rightarrow>
                     find_conflicts a a' new_rule rules rest
                       (if sr_code r \<in> set (fst found) then fst found else fst found @ [sr_code r],
                        if s \<in> set (snd found) then snd found else snd found @ [s]) b')))"

definition evaluations :: "sod_authority \<Rightarrow> sod_authority \<Rightarrow> instant \<Rightarrow> (subject \<times> instant) list" where
  "evaluations a a' now =
     [(s, t). s \<leftarrow> sorted_set (authority_subjects a @ authority_subjects a'),
              t \<leftarrow> sorted_set (authority_instants a now @ authority_instants a' now)]"

definition conflict_error :: exn where
  "conflict_error = BusinessOSError ''segregation_of_duties_conflict''
     ''Projected Policy authority violates a preventative segregation-of-duties rule'' 409"

definition reject_new_conflicts :: "sod_authority \<Rightarrow> sod_authority \<Rightarrow> bool \<Rightarrow> instant \<Rightarrow> (exn + unit) option" where
  "reject_new_conflicts a a' new_rule now =
     (case validate_shape a' of
        Inl e \<Rightarrow> Some (Inl e)
      | Inr _ \<Rightarrow>
          if checked_rules a' new_rule = [] then Some (Inr ())
          else if length (evaluations a a' now) > max_evaluations
          then Some (Inl (unbounded ''Policy affected-subject evaluation exceeds the reviewed bound''))
          else (case find_conflicts a a' new_rule (checked_rules a' new_rule) (evaluations a a' now) ([], [])
                       (Some max_source_traversals) of
              None \<Rightarrow> None
            | Some (Inl e) \<Rightarrow> Some (Inl e)
            | Some (Inr found) \<Rightarrow> Some (if fst found \<noteq> [] then Inl conflict_error else Inr ())))"

section \<open>What the permissions mean\<close>

definition effective_role :: "sod_authority \<Rightarrow> subject \<Rightarrow> instant \<Rightarrow> uuid \<Rightarrow> bool" where
  "effective_role a s t r \<longleftrightarrow>
     r \<in> set (assigned_roles a s t)
     \<or> (\<exists>g \<in> set (sa_delegations a). held_grant s t g \<and> dg_role g = r
          \<and> (\<exists>gs. source_chain (view_of a r t) (delegator_of g) (dg_scope g) (window_of g) gs \<and> length gs \<le> 16))"

inductive inherits :: "role list \<Rightarrow> uuid \<Rightarrow> uuid \<Rightarrow> bool" for rs where
  inherits_self: "inherits rs r r"
| inherits_parent: "role_map rs r = Some x \<Longrightarrow> ro_parent x = Some p \<Longrightarrow> inherits rs p q \<Longrightarrow> inherits rs r q"

inductive_cases inheritsE: "inherits rs r q"

definition permitted :: "sod_authority \<Rightarrow> subject \<Rightarrow> instant \<Rightarrow> string \<Rightarrow> bool" where
  "permitted a s t p \<longleftrightarrow>
     (\<exists>r q. effective_role a s t r \<and> inherits (sa_roles a) r q
        \<and> (\<exists>x \<in> set (sa_permissions a). rp_role x = q \<and> rp_permission x = p))"

lemma inherits_root: "role_map rs r = Some x \<Longrightarrow> ro_parent x = None \<Longrightarrow> inherits rs r q \<longleftrightarrow> q = r"
  by (auto intro: inherits_self elim: inheritsE)

lemma inherits_step:
  "role_map rs r = Some x \<Longrightarrow> ro_parent x = Some p \<Longrightarrow> inherits rs r q \<longleftrightarrow> q = r \<or> inherits rs p q"
  by (auto intro: inherits.intros elim: inheritsE)

lemma ancestors_sound:
  assumes "ancestors rs current acc = Some (Inr acc')"
  shows "set acc' = set acc \<union> {q. \<exists>c. current = Some c \<and> inherits rs c q}"
proof -
  have "\<forall>acc'. z = Inr acc' \<longrightarrow> set acc' = set acc \<union> {q. \<exists>c. current = Some c \<and> inherits rs c q}"
    if "ancestors rs current acc = Some z" for z
  proof (rule ancestors.raw_induct [OF _ that], goal_cases)
    case (1 f rs current acc z)
    show ?case
    proof (intro allI impI)
      fix acc' assume z: "z = Inr acc'"
      show "set acc' = set acc \<union> {q. \<exists>c. current = Some c \<and> inherits rs c q}"
      proof (cases current)
        case None
        with 1(2) z show ?thesis by simp
      next
        case (Some c)
        with 1(2) z obtain x where x: "role_map rs c = Some x" by (auto split: option.splits)
        with 1(2) z Some have "f rs (ro_parent x) (acc @ [c]) = Some (Inr acc')" by simp
        with 1(1) have "set acc' = set (acc @ [c]) \<union> {q. \<exists>c. ro_parent x = Some c \<and> inherits rs c q}" by blast
        then show ?thesis using x Some by (cases "ro_parent x") (auto simp: inherits_root inherits_step)
      qed
    qed
  qed
  with assms show ?thesis by blast
qed

lemma close_roles_sound:
  "close_roles rs ids acc = Some (Inr ids') \<Longrightarrow> set ids' = set acc \<union> {q. \<exists>r \<in> set ids. inherits rs r q}"
proof (induction rs ids acc rule: close_roles.induct)
  case (2 rs r ids acc)
  then obtain acc' where a: "ancestors rs (Some r) acc = Some (Inr acc')" and c: "close_roles rs ids acc' = Some (Inr ids')"
    by (auto split: option.splits sum.splits)
  from 2(1) [OF a refl c] ancestors_sound [OF a] show ?case by auto
qed simp

lemma delegated_roles_sound:
  "delegated_roles a s t gs acc budget = Inr (ids, b) \<Longrightarrow>
   set ids = set acc \<union> {r. \<exists>g \<in> set gs. held_grant s t g \<and> dg_role g = r
     \<and> (\<exists>cs. source_chain (view_of a r t) (delegator_of g) (dg_scope g) (window_of g) cs \<and> length cs \<le> 16)}"
proof (induction gs arbitrary: acc budget)
  case (Cons g gs)
  show ?case
  proof (cases "held_grant s t g")
    case False
    with Cons show ?thesis by auto
  next
    case True
    with Cons.prems obtain found c where
        f: "role_source (view_of a (dg_role g) t) (delegator_of g) (dg_scope g) (window_of g) [] budget = Inr (found, c)"
      by (auto split: sum.splits)
    with Cons.prems True have rest: "delegated_roles a s t gs (if found then acc @ [dg_role g] else acc) c = Inr (ids, b)" by simp
    have "found \<longleftrightarrow> (\<exists>cs. source_chain (view_of a (dg_role g) t) (delegator_of g) (dg_scope g) (window_of g) cs \<and> length cs \<le> 16)"
      by (rule role_source_Inr [OF f])
    with Cons.IH [OF rest] True show ?thesis by (cases found) auto
  qed
qed simp

text \<open>The permissions computed are the permitted ones.\<close>

lemma permissions_for_sound:
  assumes "permissions_for a s t budget = Some (Inr (ps, b))"
  shows "set ps = {p. permitted a s t p}"
proof -
  from assms obtain ids b' ids' where d: "delegated_roles a s t (sa_delegations a) (assigned_roles a s t) budget = Inr (ids, b')"
      and c: "close_roles (sa_roles a) ids ids = Some (Inr ids')"
      and ps: "ps = map rp_permission (filter (\<lambda>p. rp_role p \<in> set ids') (sa_permissions a))"
    by (auto simp: permissions_for_def split: sum.splits option.splits)
  have "set ids = {r. effective_role a s t r}"
    using delegated_roles_sound [OF d] by (auto simp: effective_role_def)
  then have "set ids' = {q. \<exists>r. effective_role a s t r \<and> inherits (sa_roles a) r q}"
    using close_roles_sound [OF c] inherits_self by fastforce
  then show ?thesis by (auto simp: ps permitted_def)
qed

section \<open>Authority only grows at the start of a window\<close>

lemma active_at_earlier:
  assumes "active_at start stop t" and "t0 \<le> t" and "\<And>m. start = Some m \<Longrightarrow> at m \<le> t \<Longrightarrow> at m \<le> t0"
  shows "active_at start stop t0"
  using assms by (auto simp: active_at_def split: option.splits)

definition no_start_between :: "sod_authority \<Rightarrow> instant \<Rightarrow> instant \<Rightarrow> bool" where
  "no_start_between a t0 t \<longleftrightarrow>
     t0 \<le> t \<and> (\<forall>r \<in> set (sa_assignments a). \<forall>m. ra_from r = Some m \<longrightarrow> at m \<le> t \<longrightarrow> at m \<le> t0)
     \<and> (\<forall>g \<in> set (sa_delegations a). at (dg_from g) \<le> t \<longrightarrow> at (dg_from g) \<le> t0)"

lemma assignment_earlier:
  assumes "no_start_between a t0 t" and "r \<in> set (sa_assignments a)" and "active_at (ra_from r) (ra_to r) t"
  shows "active_at (ra_from r) (ra_to r) t0"
  by (rule active_at_earlier [OF assms(3)]) (use assms(1,2) in \<open>auto simp: no_start_between_def\<close>)

lemma grant_earlier:
  assumes "no_start_between a t0 t" and "g \<in> set (sa_delegations a)" and "active_at (Some (dg_from g)) stop t"
  shows "active_at (Some (dg_from g)) stop t0"
  by (rule active_at_earlier [OF assms(3)]) (use assms(1,2) in \<open>auto simp: no_start_between_def\<close>)

lemma source_chain_earlier:
  assumes "no_start_between a t0 t"
  shows "source_chain (view_of a r t) s sc w gs \<Longrightarrow> source_chain (view_of a r t0) s sc w gs"
proof (induction gs arbitrary: s sc w)
  case Nil
  then show ?case using assignment_earlier [OF assms]
    by (auto simp: list_ex_iff view_of_def assignment_is_source_def)
next
  case (Cons g gs)
  then show ?case using grant_earlier [OF assms]
    by (auto simp: view_of_def grant_is_followed_def)
qed

lemma permitted_earlier:
  assumes "no_start_between a t0 t" and "permitted a s t p"
  shows "permitted a s t0 p"
proof -
  have "effective_role a s t0 r" if r: "effective_role a s t r" for r
  proof (cases "r \<in> set (assigned_roles a s t)")
    case True
    then have "r \<in> set (assigned_roles a s t0)"
      using assignment_earlier [OF assms(1)] by (auto simp: assigned_roles_def)
    then show ?thesis by (simp add: effective_role_def)
  next
    case False
    with r obtain g gs where g: "g \<in> set (sa_delegations a)" "held_grant s t g" "dg_role g = r" "length gs \<le> 16"
        "source_chain (view_of a r t) (delegator_of g) (dg_scope g) (window_of g) gs"
      by (auto simp: effective_role_def)
    have "held_grant s t0 g" using g(1,2) grant_earlier [OF assms(1)] by (simp add: held_grant_def)
    with g source_chain_earlier [OF assms(1) g(5)] show ?thesis unfolding effective_role_def by blast
  qed
  then show ?thesis using assms(2) by (auto simp: permitted_def)
qed

section \<open>The check is sound\<close>

definition rule_broken :: "sod_authority \<Rightarrow> sod_rule \<Rightarrow> subject \<Rightarrow> instant \<Rightarrow> bool" where
  "rule_broken a r s t \<longleftrightarrow>
     sr_severity r = PREVENTATIVE \<and> permitted a s t (sr_permission_a r) \<and> permitted a s t (sr_permission_b r)"

definition new_conflict :: "sod_authority \<Rightarrow> sod_authority \<Rightarrow> bool \<Rightarrow> sod_rule list \<Rightarrow> subject \<Rightarrow> instant \<Rightarrow> bool" where
  "new_conflict a a' new_rule rules s t \<longleftrightarrow>
     (new_rule \<or> (\<exists>p. permitted a' s t p \<and> \<not> permitted a s t p)) \<and> (\<exists>r \<in> set rules. rule_broken a' r s t)"

lemma find_violated:
  assumes "set ps = {p. permitted a s t p}"
  shows "List.find (\<lambda>r. violates r ps) rules = None \<longleftrightarrow> (\<forall>r \<in> set rules. \<not> rule_broken a r s t)"
  using assms by (auto simp: find_None_iff violates_def rule_broken_def)

lemma find_conflicts_iff:
  "find_conflicts a a' new_rule rules sts found budget = Some (Inr found') \<Longrightarrow>
   fst found' = [] \<longleftrightarrow> fst found = [] \<and> (\<forall>(s, t) \<in> set sts. \<not> new_conflict a a' new_rule rules s t)"
proof (induction a a' new_rule rules sts found budget rule: find_conflicts.induct)
  case (2 a a' new_rule rules s t rest found budget)
  from 2(4) obtain before b where before: "permissions_for a s t budget = Some (Inr (before, b))"
    by (auto split: option.splits sum.splits)
  with 2(4) obtain after b' where after: "permissions_for a' s t b = Some (Inr (after, b'))"
    by (auto split: option.splits sum.splits)
  note sets = permissions_for_sound [OF before] permissions_for_sound [OF after]
  show ?case
  proof (cases "\<not> new_rule \<and> set after \<subseteq> set before")
    case True
    then have "\<not> new_conflict a a' new_rule rules s t" by (auto simp: new_conflict_def sets)
    with True 2(4) 2(1) [OF before refl refl after refl refl] before after show ?thesis by simp
  next
    case False
    then have new: "new_rule \<or> (\<exists>p. permitted a' s t p \<and> \<not> permitted a s t p)" by (auto simp: sets)
    show ?thesis
    proof (cases "List.find (\<lambda>r. violates r after) rules")
      case None
      then have "\<not> new_conflict a a' new_rule rules s t" by (simp add: find_violated [OF sets(2)] new_conflict_def)
      moreover have "find_conflicts a a' new_rule rules rest found b' = Some (Inr found')"
        using 2(4) before after None False by (simp add: if_not_P [OF False])
      ultimately show ?thesis using 2(2) [OF before refl refl after refl refl False None] by auto
    next
      case (Some r)
      then have "new_conflict a a' new_rule rules s t"
        using new find_violated [OF sets(2), of rules] by (auto simp: new_conflict_def)
      moreover have "find_conflicts a a' new_rule rules rest
          (if sr_code r \<in> set (fst found) then fst found else fst found @ [sr_code r],
           if s \<in> set (snd found) then snd found else snd found @ [s]) b' = Some (Inr found')"
        using 2(4) before after Some by (simp add: if_not_P [OF False])
      ultimately show ?thesis using 2(3) [OF before refl refl after refl refl False Some] by (auto split: if_splits)
    qed
  qed
qed simp

lemma subject_listed:
  assumes "permitted a s t p" and "fst s \<in> set subject_types"
  shows "s \<in> set (authority_subjects a)"
proof -
  from assms(1) obtain r where "effective_role a s t r" by (auto simp: permitted_def)
  then show ?thesis unfolding effective_role_def
  proof
    assume "r \<in> set (assigned_roles a s t)"
    then obtain x where "x \<in> set (sa_assignments a)" "ra_subject_type x = Some (fst s)" "ra_subject x = snd s"
      by (auto simp: assigned_roles_def)
    with assms(2) show ?thesis by (force simp: authority_subjects_def known_type_def)
  next
    assume "\<exists>g \<in> set (sa_delegations a). held_grant s t g \<and> dg_role g = r
        \<and> (\<exists>gs. source_chain (view_of a r t) (delegator_of g) (dg_scope g) (window_of g) gs \<and> length gs \<le> 16)"
    then obtain g where "g \<in> set (sa_delegations a)" "dg_delegatee_type g = Some (fst s)" "dg_delegatee g = snd s"
      by (auto simp: held_grant_def)
    with assms(2) show ?thesis by (force simp: authority_subjects_def known_type_def delegatee_of_def)
  qed
qed

text \<open>Of the sampled instants the last one not after \<open>t\<close> stands for \<open>t\<close>.\<close>

lemma sampled_instant:
  assumes "now \<le> t"
  obtains t0 where "t0 \<in> set (authority_instants a now @ authority_instants a' now)" "now \<le> t0" "t0 \<le> t"
    "no_start_between a' t0 t"
proof -
  define S where "S = {x \<in> set (authority_instants a now @ authority_instants a' now). x \<le> t}"
  have "finite S" unfolding S_def by (rule finite_subset [OF _ finite_set]) blast
  moreover have "now \<in> S" using assms by (simp add: S_def authority_instants_def)
  ultimately have S: "finite S" "now \<in> S" .
  define t0 where "t0 = Max S"
  have t0: "t0 \<in> S" "x \<in> S \<Longrightarrow> x \<le> t0" for x using S by (auto simp: t0_def intro: Max_in)
  have "at m \<le> t0" if "r \<in> set (sa_assignments a')" "ra_from r = Some m" "at m \<le> t" for r m
  proof (cases "at m > now")
    case True
    have "at m \<in> set (authority_instants a' now)"
      using True that(1) by (simp add: authority_instants_def) (use that(2) in force)
    with that(3) have "at m \<in> S" by (simp add: S_def)
    then show ?thesis by (rule t0)
  next
    case False
    with t0(2) [OF S(2)] show ?thesis by simp
  qed
  moreover have "at (dg_from g) \<le> t0" if "g \<in> set (sa_delegations a')" "at (dg_from g) \<le> t" for g
  proof (cases "at (dg_from g) > now")
    case True
    have "at (dg_from g) \<in> set (authority_instants a' now)"
      using True that(1) by (auto simp: authority_instants_def)
    with that(2) have "at (dg_from g) \<in> S" by (simp add: S_def)
    then show ?thesis by (rule t0)
  next
    case False
    with t0(2) [OF S(2)] show ?thesis by simp
  qed
  moreover have "t0 \<le> t" "t0 \<in> set (authority_instants a now @ authority_instants a' now)" using t0(1) by (simp_all add: S_def)
  ultimately show ?thesis using t0(2) [OF S(2)] by (intro that) (auto simp: no_start_between_def)
qed

lemma reject_accepted:
  assumes "reject_new_conflicts a a' new_rule now = Some (Inr ())" and "(s, t) \<in> set (evaluations a a' now)"
  shows "\<not> new_conflict a a' new_rule (checked_rules a' new_rule) s t"
proof (cases "checked_rules a' new_rule = []")
  case True
  then show ?thesis by (simp add: new_conflict_def)
next
  case False
  with assms(1) obtain found where "find_conflicts a a' new_rule (checked_rules a' new_rule) (evaluations a a' now) ([], [])
      (Some max_source_traversals) = Some (Inr found)" "fst found = []"
    by (auto simp: reject_new_conflicts_def split: sum.splits option.splits if_splits)
  with find_conflicts_iff [OF this(1)] assms(2) show ?thesis by auto
qed

text \<open>
  C18: A change that passes the check gives nobody a new conflict, now or at any later instant: if some
  subject would hold both permissions of a checked preventative rule at an instant from now on, then the
  rule is not the one being added and the subject already holds both at some instant between now and
  then under the current authority. In particular an authority without present or future conflicts keeps
  that property, although the check looks at finitely many instants only.
\<close>

theorem accepted_change_has_no_new_conflict:
  assumes "reject_new_conflicts a a' new_rule now = Some (Inr ())"
    and "r \<in> set (checked_rules a' new_rule)" and "fst s \<in> set subject_types"
    and "now \<le> t" and "rule_broken a' r s t"
  shows "\<not> new_rule \<and> (\<exists>t0. now \<le> t0 \<and> t0 \<le> t \<and> rule_broken a r s t0)"
proof -
  obtain t0 where t0: "t0 \<in> set (authority_instants a now @ authority_instants a' now)" "now \<le> t0" "t0 \<le> t"
      "no_start_between a' t0 t"
    by (rule sampled_instant [OF assms(4)])
  have broken: "rule_broken a' r s t0"
    using assms(5) permitted_earlier [OF t0(4)] by (auto simp: rule_broken_def)
  then have "s \<in> set (authority_subjects a')"
    using assms(3) by (auto simp: rule_broken_def intro: subject_listed)
  then have "(s, t0) \<in> set (evaluations a a' now)" using t0(1) by (auto simp: evaluations_def)
  from reject_accepted [OF assms(1) this] broken assms(2)
  have "\<not> new_rule" "\<forall>p. permitted a' s t0 p \<longrightarrow> permitted a s t0 p" by (auto simp: new_conflict_def)
  with broken t0 show ?thesis by (auto simp: rule_broken_def)
qed

section \<open>The check returns\<close>

lemma ancestors_returns:
  "check_ancestry rs seen current = Inr () \<Longrightarrow> ancestors rs current acc \<noteq> None"
proof (induction rs seen current arbitrary: acc rule: check_ancestry.induct)
  case (1 rs seen current)
  show ?case
  proof (cases current)
    case None
    then show ?thesis by (simp add: ancestors.simps)
  next
    case (Some c)
    with 1(2) have ok: "\<not> (c \<in> set seen \<or> length seen \<ge> max_role_depth)"
      by (subst (asm) check_ancestry.simps) (auto split: if_splits)
    with Some 1(2) obtain x where x: "role_map rs c = Some x" "check_ancestry rs (c # seen) (ro_parent x) = Inr ()"
      by (subst (asm) check_ancestry.simps) (auto split: option.splits)
    from 1(1) [OF Some ok x] Some x(1) show ?thesis by (subst ancestors.simps) simp
  qed
qed

lemma role_map_Some: "role_map rs c = Some x \<Longrightarrow> x \<in> set rs \<and> ro_id x = c"
  by (auto simp: role_map_def dest!: map_of_SomeD)

lemma valid_ancestors:
  assumes "validate_shape a = Inr ()"
  shows "ancestors (sa_roles a) (Some c) acc \<noteq> None"
proof (cases "role_map (sa_roles a) c")
  case None
  then show ?thesis by (subst ancestors.simps) simp
next
  case (Some x)
  then have "check_ancestry (sa_roles a) [] (Some c) = Inr ()"
    using assms role_map_Some [OF Some] by (auto simp: validate_shape_def check_all_Inr split: if_splits)
  then show ?thesis by (rule ancestors_returns)
qed

lemma valid_close_roles: "validate_shape a = Inr () \<Longrightarrow> close_roles (sa_roles a) ids acc \<noteq> None"
  by (induction ids arbitrary: acc) (auto simp: valid_ancestors split: option.split sum.split)

lemma valid_permissions_for: "validate_shape a = Inr () \<Longrightarrow> permissions_for a s t budget \<noteq> None"
  by (auto simp: permissions_for_def valid_close_roles split: sum.split option.split)

lemma valid_find_conflicts:
  "validate_shape a = Inr () \<Longrightarrow> validate_shape a' = Inr () \<Longrightarrow>
   find_conflicts a a' new_rule rules sts found budget \<noteq> None"
proof (induction sts arbitrary: new_rule found budget)
  case (Cons st sts)
  obtain s t where st: "st = (s, t)" by (cases st)
  have "find_conflicts a a' new_rule rules sts found budget \<noteq> None" for new_rule found budget using Cons by blast
  with Cons.prems show ?case
    by (simp add: st valid_permissions_for split: option.split sum.split prod.split del: not_None_eq)
qed simp

lemma conflict_search_returns:
  "validate_shape a = Inr () \<Longrightarrow> reject_new_conflicts a a' new_rule now \<noteq> None"
  by (auto simp: reject_new_conflicts_def valid_find_conflicts split: sum.split option.split)

text \<open>
  C19: The preventative check always returns: although the walk up a role's parents has no bound and no
  memory of where it has been, the validation of the snapshot and of the projected change excludes every
  hierarchy on which it would run for ever.
\<close>

theorem conflict_check_returns:
  assumes "validate_shape a = Inr ()"
  shows "reject_new_conflicts a a' new_rule now \<noteq> None"
  using assms by (rule conflict_search_returns)

section \<open>Concrete authorities\<close>

definition demo_role :: "uuid \<Rightarrow> uuid option \<Rightarrow> role" where
  "demo_role i p = \<lparr>ro_id = i, ro_tenant = 7, ro_code = ''r'', ro_name = ''r'', ro_parent = p\<rparr>"

definition demo_assignment :: "uuid \<Rightarrow> uuid \<Rightarrow> uuid \<Rightarrow> int option \<Rightarrow> role_assignment" where
  "demo_assignment i s r until =
     \<lparr>ra_id = i, ra_tenant = 7, ra_subject = s, ra_subject_type = Some ''user'', ra_role = r, ra_scope = (TENANT, None),
      ra_from = None, ra_to = map_option (Moment True) until\<rparr>"

definition demo_grant :: "uuid \<Rightarrow> uuid \<Rightarrow> uuid \<Rightarrow> uuid \<Rightarrow> int \<Rightarrow> int \<Rightarrow> delegation_grant" where
  "demo_grant i s d r a b =
     \<lparr>dg_id = i, dg_tenant = 7, dg_delegator = s, dg_delegator_type = Some ''user'', dg_delegatee = d,
      dg_delegatee_type = Some ''user'', dg_role = r, dg_scope = (COMPANY, Some 3), dg_from = Moment True a,
      dg_to = Moment True b, dg_revoked = False\<rparr>"

definition demo_sod_rule :: sod_rule where
  "demo_sod_rule = \<lparr>sr_tenant = 7, sr_code = ''pay'', sr_permission_a = ''create'', sr_permission_b = ''approve'',
     sr_severity = PREVENTATIVE\<rparr>"

text \<open>Role 1 may create; role 2 inherits role 3, which may approve. User 10 creates, user 20 approves.\<close>

definition demo_authority :: sod_authority where
  "demo_authority =
     \<lparr>sa_tenant = 7, sa_roles = [demo_role 1 None, demo_role 2 (Some 3), demo_role 3 None],
      sa_permissions = [\<lparr>rp_id = 1, rp_tenant = 7, rp_role = 1, rp_permission = ''create''\<rparr>,
                        \<lparr>rp_id = 2, rp_tenant = 7, rp_role = 3, rp_permission = ''approve''\<rparr>],
      sa_assignments = [demo_assignment 1 10 1 None, demo_assignment 2 20 2 None], sa_delegations = [],
      sa_rules = [demo_sod_rule]\<rparr>"

lemma demo_delegation_refused:
  "reject_new_conflicts demo_authority (with_delegation demo_authority (demo_grant 1 20 10 2 50 60)) False 5
     = Some (Inl conflict_error)"
  by code_simp

theorem conflict_check_returns_witness:
  "reject_new_conflicts demo_authority (with_rule demo_authority demo_sod_rule) True 5 \<noteq> None"
  by (rule conflict_check_returns) code_simp

text \<open>User 10 already holds the conflicting role 2 until 100; the change assigns it without an end.\<close>

definition demo_conflicted :: sod_authority where
  "demo_conflicted = with_assignment demo_authority (demo_assignment 3 10 2 (Some 100))"

definition demo_extended :: sod_authority where
  "demo_extended = with_assignment demo_conflicted (demo_assignment 4 10 2 None)"

lemma demo_extension_accepted: "reject_new_conflicts demo_conflicted demo_extended False 5 = Some (Inr ())"
  by code_simp

lemma demo_permissions:
  "permissions_for demo_conflicted (''user'', 10) 150 None = Some (Inr ([''create''], None))"
  "permissions_for demo_extended (''user'', 10) 150 None = Some (Inr ([''create'', ''approve''], None))"
  by code_simp+

text \<open>
  The check samples the starts of windows only, so an existing conflict that would have ended can be
  extended for ever: the accepted change is what gives user 10 both permissions at instant 150.
\<close>

lemma expiring_conflict_extended:
  "reject_new_conflicts demo_conflicted demo_extended False 5 = Some (Inr ())"
  "rule_broken demo_extended demo_sod_rule (''user'', 10) 150"
  "\<not> rule_broken demo_conflicted demo_sod_rule (''user'', 10) 150"
proof -
  have before: "permitted demo_conflicted (''user'', 10) 150 p \<longleftrightarrow> p = ''create''" for p
    using permissions_for_sound [OF demo_permissions(1)] by (simp add: set_eq_iff)
  have after: "permitted demo_extended (''user'', 10) 150 p \<longleftrightarrow> p = ''create'' \<or> p = ''approve''" for p
    using permissions_for_sound [OF demo_permissions(2)] by (simp add: set_eq_iff)
  show "rule_broken demo_extended demo_sod_rule (''user'', 10) 150"
    by (simp add: rule_broken_def after demo_sod_rule_def)
  show "\<not> rule_broken demo_conflicted demo_sod_rule (''user'', 10) 150"
    by (simp add: rule_broken_def before demo_sod_rule_def)
qed (rule demo_extension_accepted)

theorem accepted_change_has_no_new_conflict_witness:
  "\<exists>t0. 5 \<le> t0 \<and> t0 \<le> 150 \<and> rule_broken demo_conflicted demo_sod_rule (''user'', 10) t0"
proof -
  have "demo_sod_rule \<in> set (checked_rules demo_extended False)"
    by (simp add: checked_rules_def demo_extended_def demo_conflicted_def with_assignment_def demo_authority_def demo_sod_rule_def)
  moreover have "fst (''user'', 10 :: uuid) \<in> set subject_types" by (simp add: subject_types_def)
  moreover have "(5 :: instant) \<le> 150" by simp
  ultimately show ?thesis
    using accepted_change_has_no_new_conflict [OF expiring_conflict_extended(1) _ _ _ expiring_conflict_extended(2)]
    by blast
qed

section \<open>The shape of a delegation graph\<close>

text \<open>A walk along the edges, as the list of its nodes.\<close>

fun walk :: "edges \<Rightarrow> subject list \<Rightarrow> bool" where
  "walk es [] \<longleftrightarrow> True"
| "walk es [n] \<longleftrightarrow> True"
| "walk es (n # c # ns) \<longleftrightarrow> c \<in> set (children es n) \<and> walk es (c # ns)"

definition longest :: "edges \<Rightarrow> subject \<Rightarrow> nat \<Rightarrow> bool" where
  "longest es n d \<longleftrightarrow>
     (\<exists>ns. walk es (n # ns) \<and> length (n # ns) = d) \<and> (\<forall>ns. walk es (n # ns) \<longrightarrow> length (n # ns) \<le> d)"

definition memo_ok :: "edges \<Rightarrow> memo \<Rightarrow> bool" where
  "memo_ok es m \<longleftrightarrow> (\<forall>n d. map_of m n = Some d \<longrightarrow> longest es n d \<and> d \<le> max_role_depth)"

lemma walk_Cons: "walk es (n # ns) \<longleftrightarrow> ns = [] \<or> hd ns \<in> set (children es n) \<and> walk es ns"
  by (cases ns) auto

lemma walk_append:
  "walk es (xs @ [n]) \<Longrightarrow> walk es (n # ys) \<Longrightarrow> walk es (xs @ n # ys)"
proof (induction xs)
  case (Cons x xs)
  then show ?case by (cases xs) auto
qed simp

text \<open>The children loop computes one more than the greatest depth of a child.\<close>

definition deepest :: "edges \<Rightarrow> subject list \<Rightarrow> nat \<Rightarrow> nat \<Rightarrow> bool" where
  "deepest es cs start d \<longleftrightarrow>
     start \<le> d \<and> (\<forall>c \<in> set cs. \<forall>k. longest es c k \<longrightarrow> 1 + k \<le> d)
     \<and> (d = start \<or> (\<exists>c \<in> set cs. longest es c (d - 1) \<and> d > 0)) \<and> (\<forall>c \<in> set cs. \<exists>k. longest es c k)"

lemma longest_unique: "longest es n d \<Longrightarrow> longest es n k \<Longrightarrow> d = k"
proof -
  assume "longest es n d" "longest es n k"
  then have "d \<le> k" "k \<le> d" unfolding longest_def by blast+
  then show ?thesis by simp
qed

lemma deepest_Cons:
  assumes D: "deepest es cs (max depth (1 + k)) d" and c: "longest es c k"
  shows "deepest es (c # cs) depth d"
proof -
  have le: "depth \<le> d" "1 + k \<le> d" using D by (simp_all add: deepest_def)
  have "d = depth \<or> (\<exists>x \<in> set (c # cs). longest es x (d - 1) \<and> d > 0)"
  proof (cases "d = max depth (1 + k)")
    case True
    then consider "d = depth" | "d = 1 + k" by (metis max_def)
    then show ?thesis using c by cases auto
  next
    case False
    with D have "\<exists>x \<in> set cs. longest es x (d - 1) \<and> d > 0" unfolding deepest_def by blast
    then show ?thesis by auto
  qed
  moreover have "\<forall>x \<in> set (c # cs). \<forall>j. longest es x j \<longrightarrow> 1 + j \<le> d"
    using D le(2) longest_unique [OF c] unfolding deepest_def by auto
  moreover have "\<forall>x \<in> set (c # cs). \<exists>j. longest es x j" using D c unfolding deepest_def by auto
  ultimately show ?thesis using le(1) unfolding deepest_def by blast
qed

lemma longest_children:
  assumes "deepest es (children es n) 1 d"
  shows "longest es n d"
  unfolding longest_def
proof (intro conjI allI impI)
  show "\<exists>ns. walk es (n # ns) \<and> length (n # ns) = d"
  proof (cases "d = 1")
    case True
    then show ?thesis by (intro exI [of _ "[]"]) simp
  next
    case False
    with assms obtain c where c: "c \<in> set (children es n)" "longest es c (d - 1)" "d > 0"
      by (auto simp: deepest_def)
    then obtain ns where "walk es (c # ns)" "length (c # ns) = d - 1" by (auto simp: longest_def)
    with c show ?thesis by (intro exI [of _ "c # ns"]) simp
  qed
  show "length (n # ns) \<le> d" if "walk es (n # ns)" for ns
  proof (cases ns)
    case Nil
    then show ?thesis using assms by (simp add: deepest_def)
  next
    case (Cons c cs)
    with that have c: "c \<in> set (children es n)" "walk es (c # cs)" by simp_all
    with assms obtain k where "longest es c k" "1 + k \<le> d" by (auto simp: deepest_def)
    with c(2) Cons show ?thesis by (auto simp: longest_def)
  qed
qed

lemma visit_sound:
  "visit es n path m = Inr (d, m') \<Longrightarrow> memo_ok es m \<Longrightarrow> memo_ok es m' \<and> longest es n d \<and> d \<le> max_role_depth"
  "visit_children es cs path depth m = Inr (d, m') \<Longrightarrow> memo_ok es m \<Longrightarrow> memo_ok es m' \<and> deepest es cs depth d"
proof (induction es n path m and es cs path depth m arbitrary: d m' and d m' rule: visit_visit_children.induct)
  case (1 es n path m)
  then have out: "n \<notin> set path" by (auto simp: visit.simps)
  show ?case
  proof (cases "map_of m n")
    case (Some k)
    with 1(2) out have "d = k" "m' = m" by (simp_all add: visit.simps)
    with Some 1(3) show ?thesis unfolding memo_ok_def by metis
  next
    case None
    with 1(2) out obtain m1 where v: "visit_children es (children es n) (n # path) 1 m = Inr (d, m1)"
        and d: "d \<le> max_role_depth" and m': "m' = (n, d) # m1"
      by (auto simp: visit.simps split: sum.splits if_splits)
    from 1(1) [OF out None v 1(3)] have "memo_ok es m1" "longest es n d" by (auto intro: longest_children)
    with d m' show ?thesis by (auto simp: memo_ok_def split: if_splits)
  qed
next
  case (2 es path depth m)
  then show ?case by (simp add: visit_children.simps deepest_def)
next
  case (3 es c cs path depth m)
  then obtain k m1 where v: "visit es c path m = Inr (k, m1)"
      and rest: "visit_children es cs path (max depth (1 + k)) m1 = Inr (d, m')"
    by (auto simp: visit_children.simps split: sum.splits)
  from 3(1) [OF v 3(4)] have c: "memo_ok es m1" "longest es c k" by simp_all
  from 3(2) [OF v refl rest c(1)] have "memo_ok es m'" and D: "deepest es cs (max depth (1 + k)) d" by simp_all
  moreover have "deepest es (c # cs) depth d"
    by (rule deepest_Cons [OF D c(2)])
  ultimately show ?case by simp
qed

text \<open>Going round a cycle gives walks of every length.\<close>

lemma cycle_walks:
  assumes "walk es (n # mid @ [n])"
  shows "walk es (concat (replicate k (n # mid)) @ [n])"
proof (induction k)
  case (Suc k)
  obtain zs where zs: "concat (replicate k (n # mid)) @ [n] = n # zs" by (cases k) auto
  have "walk es ((n # mid) @ n # zs)" by (rule walk_append) (use assms Suc zs in simp_all)
  then show ?case by (simp add: zs)
qed simp

lemma walk_suffix: "walk es (xs @ ys) \<Longrightarrow> walk es ys"
proof (induction xs)
  case (Cons x xs)
  then have "walk es (xs @ ys)" by (cases "xs @ ys") auto
  then show ?case by (rule Cons.IH)
qed simp

lemma no_cycle:
  assumes "\<And>ns. walk es ns \<Longrightarrow> length ns \<le> b" and "walk es (rev path @ [n])"
  shows "n \<notin> set path"
proof
  assume "n \<in> set path"
  then obtain pre mid where "rev path = pre @ n # mid" by (metis set_rev split_list)
  with assms(2) have "walk es (n # mid @ [n])" using walk_suffix [of es pre] by simp
  from assms(1) [OF cycle_walks [OF this, of "b + 1"]] show False
    by (simp add: length_concat sum_list_replicate)
qed

lemma visit_complete:
  assumes short: "\<And>ns. walk es ns \<Longrightarrow> length ns \<le> max_role_depth"
  shows "memo_ok es m \<Longrightarrow> walk es (rev path @ [n]) \<Longrightarrow> visit es n path m \<noteq> Inl e"
    and "memo_ok es m \<Longrightarrow> \<forall>c \<in> set cs. walk es (rev path' @ [c]) \<Longrightarrow> visit_children es cs path' depth m \<noteq> Inl e"
  using short
proof (induction es n path m and es cs path' depth m arbitrary: e and e rule: visit_visit_children.induct)
  case (1 es n path m)
  have out: "n \<notin> set path" by (rule no_cycle [OF 1(4) 1(3)])
  show ?case
  proof (cases "map_of m n")
    case (Some k)
    with out show ?thesis by (simp add: visit.simps)
  next
    case None
    have "walk es (rev (n # path) @ [c])" if "c \<in> set (children es n)" for c
      using walk_append [of es "rev path" n "[c]"] 1(3) that by simp
    then have "visit_children es (children es n) (n # path) 1 m \<noteq> Inl e'" for e'
      using 1(1) [OF out None 1(2) _ 1(4)] by blast
    then obtain d m1 where v: "visit_children es (children es n) (n # path) 1 m = Inr (d, m1)"
      by (cases "visit_children es (children es n) (n # path) 1 m") auto
    from visit_sound(2) [OF v 1(2)] have "longest es n d" by (blast intro: longest_children)
    then obtain ns where "walk es (n # ns)" "length (n # ns) = d" by (auto simp: longest_def)
    with 1(4) have "d \<le> max_role_depth" by metis
    with out None v show ?thesis by (simp add: visit.simps)
  qed
next
  case (3 es c cs path depth m)
  have "visit es c path m \<noteq> Inl e'" for e' by (rule 3(1)) (use 3(3-5) in auto)
  then obtain k m1 where v: "visit es c path m = Inr (k, m1)" by (cases "visit es c path m") auto
  have "visit_children es cs path (max depth (1 + k)) m1 \<noteq> Inl e"
    by (rule 3(2) [OF v refl]) (use visit_sound(1) [OF v] 3(3-5) in auto)
  with v show ?case by (simp add: visit_children.simps)
qed (simp add: visit_children.simps)

lemma visit_all_Inr:
  "visit_all es ns m = Inr m' \<Longrightarrow> memo_ok es m \<Longrightarrow> n \<in> set ns \<Longrightarrow> \<exists>d \<le> max_role_depth. longest es n d"
proof (induction ns arbitrary: m)
  case (Cons x ns)
  then obtain d m1 where v: "visit es x [] m = Inr (d, m1)" "visit_all es ns m1 = Inr m'" by (auto split: sum.splits)
  from visit_sound(1) [OF v(1) Cons.prems(2)] Cons.IH [OF v(2)] Cons.prems(3) show ?case by auto
qed simp

lemma visit_all_complete:
  assumes "\<And>ns. walk es ns \<Longrightarrow> length ns \<le> max_role_depth"
  shows "memo_ok es m \<Longrightarrow> \<exists>m'. visit_all es ns m = Inr m'"
proof (induction ns arbitrary: m)
  case (Cons n ns)
  have "visit es n [] m \<noteq> Inl e" for e by (rule visit_complete(1) [OF assms Cons.prems]) simp_all
  then obtain d m1 where "visit es n [] m = Inr (d, m1)" by (cases "visit es n [] m") auto
  with visit_sound(1) [OF this Cons.prems] Cons.IH [of m1] show ?case by auto
qed simp

lemma visit_all_accepts_bounded:
  "(\<exists>m. visit_all es (map fst es) [] = Inr m) \<longleftrightarrow> (\<forall>ns. walk es ns \<longrightarrow> length ns \<le> max_role_depth)"
proof
  assume "\<exists>m. visit_all es (map fst es) [] = Inr m"
  then obtain m where m: "visit_all es (map fst es) [] = Inr m" ..
  show "\<forall>ns. walk es ns \<longrightarrow> length ns \<le> max_role_depth"
  proof (intro allI impI)
    fix ns assume w: "walk es ns"
    show "length ns \<le> max_role_depth"
    proof (cases "(es, ns)" rule: walk.cases)
      case (3 es' n c cs)
      with w have "c \<in> set (children es n)" by simp
      then have "map_of es n \<noteq> None" by (cases "map_of es n") (simp_all add: children_def)
      then have "n \<in> set (map fst es)" by (simp add: map_of_eq_None_iff)
      from visit_all_Inr [OF m _ this] obtain d where "d \<le> max_role_depth" "longest es n d" by (auto simp: memo_ok_def)
      moreover have ns: "ns = n # c # cs" "walk es (n # c # cs)" using 3 w by simp_all
      ultimately have "length (n # c # cs) \<le> d" unfolding longest_def by blast
      with \<open>d \<le> max_role_depth\<close> ns(1) show ?thesis by simp
    qed (simp_all add: max_role_depth_def)
  qed
next
  assume "\<forall>ns. walk es ns \<longrightarrow> length ns \<le> max_role_depth"
  then show "\<exists>m. visit_all es (map fst es) [] = Inr m"
    by (intro visit_all_complete) (auto simp: memo_ok_def)
qed

text \<open>
  C20: The memoised depth-first search accepts a role's delegation graph if and only if every walk along
  its delegations has at most sixteen principals, so that in particular it has no cycle; the search ends
  on every graph, and the nodes it remembers from earlier starts never change the verdict.
\<close>

theorem graph_accepted_iff_walks_bounded:
  "(\<exists>m. visit_all es (map fst es) [] = Inr m) \<longleftrightarrow> \<not> (\<exists>ns. walk es ns \<and> length ns > max_role_depth)"
  using visit_all_accepts_bounded [of es] by (auto simp: not_less)

end
