(* ===== verification/Policy_Roles.thy ===== *)
theory Policy_Roles
  imports Policy_V2 Sod
begin

text \<open>
  The live roles of a principal for a resource (\<open>foundations/policy\<close>, \<open>v2_runtime.py\<close>:
  \<open>_rows\<close>, \<open>_scope_matches\<close>, \<open>_delegation_source\<close>, \<open>_active_roles\<close>). A table is the list of its rows in the
  order the database returns them; \<open>clock n\<close> is the instant the locking read of the \<open>n\<close>-th visited grant
  takes. Rows are typed: a value that \<open>model_validate\<close> would refuse is not represented.
\<close>

section \<open>Tables\<close>

datatype record_scope = ALL_RECORDS | OWNED | ORGANIZATION | DENY_RECORDS

record record_policy =
  rc_id :: uuid
  rc_tenant :: uuid
  rc_resource :: string
  rc_role :: "uuid option"
  rc_access :: record_scope
  rc_condition :: "string option"

datatype field_access = READ_FIELD | WRITE_FIELD | MASK_FIELD | DENY_FIELD

record field_policy =
  fp_id :: uuid
  fp_tenant :: uuid
  fp_resource :: string
  fp_field :: string
  fp_role :: "uuid option"
  fp_access :: field_access
  fp_condition :: "string option"

record approval_limit =
  al_id :: uuid
  al_tenant :: uuid
  al_action :: string
  al_currency :: string
  al_amount :: decimal
  al_role :: "uuid option"
  al_subject :: "uuid option"
  al_from :: "moment option"
  al_to :: "moment option"

record support_grant =
  sg_id :: uuid
  sg_tenant :: uuid
  sg_principal :: uuid
  sg_type :: "string option"
  sg_approved_by :: uuid
  sg_approved_by_type :: "string option"
  sg_from :: moment
  sg_to :: moment
  sg_revoked_at :: "moment option"

record policy_db =
  db_memberships :: "membership list"
  db_roles :: "role list"
  db_permissions :: "role_permission list"
  db_assignments :: "role_assignment list"
  db_delegations :: "delegation_grant list"
  db_record_policies :: "record_policy list"
  db_field_policies :: "field_policy list"
  db_limits :: "approval_limit list"
  db_support :: "support_grant list"

definition policy_rows :: "('r \<Rightarrow> bool) \<Rightarrow> 'r list \<Rightarrow> exn + 'r list" where
  "policy_rows p table = load_rows ''Policy authority set is too large'' p table"

definition scope_matches :: "authority_scope \<Rightarrow> resource_facts \<Rightarrow> bool" where
  "scope_matches sc f \<longleftrightarrow>
     (case fst sc of
        TENANT \<Rightarrow> snd sc = None
      | COMPANY \<Rightarrow> rf_company f \<noteq> None \<and> snd sc = rf_company f
      | LEGAL_ENTITY \<Rightarrow> rf_legal_entity f \<noteq> None \<and> snd sc = rf_legal_entity f
      | OPERATING_SITE \<Rightarrow> rf_site f \<noteq> None \<and> snd sc = rf_site f
      | BUSINESS_UNIT \<Rightarrow> rf_business_unit f \<noteq> None \<and> snd sc = rf_business_unit f)"

section \<open>The source of a delegated role\<close>

definition direct_source :: "instant \<Rightarrow> delegation_grant \<Rightarrow> role_assignment \<Rightarrow> bool" where
  "direct_source t g a \<longleftrightarrow>
     scope_covers (ra_scope a) (dg_scope g) \<and> active_at (ra_from a) (ra_to a) t
     \<and> covers (ra_from a) (ra_to a) (window_of g)"

definition parent_source :: "instant \<Rightarrow> delegation_grant \<Rightarrow> delegation_grant \<Rightarrow> bool" where
  "parent_source t g p \<longleftrightarrow>
     scope_covers (dg_scope p) (dg_scope g) \<and> active_at (Some (dg_from p)) (Some (dg_to p)) t
     \<and> covers (Some (dg_from p)) (Some (dg_to p)) (window_of g)"

definition delegator_assignment :: "uuid \<Rightarrow> delegation_grant \<Rightarrow> role_assignment \<Rightarrow> bool" where
  "delegator_assignment ten g a \<longleftrightarrow>
     ra_tenant a = ten \<and> ra_subject a = dg_delegator g \<and> ra_subject_type a = dg_delegator_type g
     \<and> dg_delegator_type g \<noteq> None \<and> ra_role a = dg_role g"

definition delegator_grant :: "uuid \<Rightarrow> delegation_grant \<Rightarrow> delegation_grant \<Rightarrow> bool" where
  "delegator_grant ten g p \<longleftrightarrow>
     dg_tenant p = ten \<and> dg_delegatee p = dg_delegator g \<and> dg_delegatee_type p = dg_delegator_type g
     \<and> dg_delegator_type g \<noteq> None \<and> dg_role p = dg_role g \<and> \<not> dg_revoked p"

text \<open>\<open>budget\<close> counts the grants visited so far; \<open>visited\<close> lists the principals of the path.\<close>

function delegation_source ::
    "policy_db \<Rightarrow> uuid \<Rightarrow> instant \<Rightarrow> (nat \<Rightarrow> instant) \<Rightarrow> delegation_grant \<Rightarrow> subject list \<Rightarrow> nat \<Rightarrow> exn + bool \<times> nat"
  and follow_parents ::
    "policy_db \<Rightarrow> uuid \<Rightarrow> instant \<Rightarrow> (nat \<Rightarrow> instant) \<Rightarrow> delegation_grant \<Rightarrow> delegation_grant list \<Rightarrow> subject list \<Rightarrow> nat \<Rightarrow>
     exn + bool \<times> nat" where
  "delegation_source db ten t clock g visited budget =
     (if budget + 1 > max_rows then Inl (unbounded ''Delegation authority is too large'')
      else if length visited \<ge> max_role_depth \<or> delegator_of g \<in> set visited \<or> \<not> known_type (dg_delegator_type g)
      then Inr (False, budget + 1)
      else (case lock_current (db_memberships db) ten (delegator_of g) (clock (budget + 1)) of
          Inl e \<Rightarrow> if exn_code e \<noteq> None then Inr (False, budget + 1) else Inl e
        | Inr (m, _) \<Rightarrow>
            if \<not> membership_effective m t then Inr (False, budget + 1)
            else (case policy_rows (delegator_assignment ten g) (db_assignments db) of
                Inl e \<Rightarrow> Inl e
              | Inr assignments \<Rightarrow>
                  if list_ex (direct_source t g) assignments then Inr (True, budget + 1)
                  else (case policy_rows (delegator_grant ten g) (db_delegations db) of
                      Inl e \<Rightarrow> Inl e
                    | Inr parents \<Rightarrow>
                        follow_parents db ten t clock g parents (delegator_of g # visited) (budget + 1)))))"
| "follow_parents db ten t clock g [] path budget = Inr (False, budget)"
| "follow_parents db ten t clock g (p # ps) path budget =
     (if \<not> parent_source t g p then follow_parents db ten t clock g ps path budget
      else case delegation_source db ten t clock p path budget of
          Inl e \<Rightarrow> Inl e
        | Inr (True, b) \<Rightarrow> Inr (True, b)
        | Inr (False, b) \<Rightarrow> follow_parents db ten t clock g ps path b)"
  by pat_completeness auto
termination
  by (relation "measures
       [\<lambda>x. case x of Inl (db, ten, t, clock, g, visited, b) \<Rightarrow> max_role_depth - length visited
                  | Inr (db, ten, t, clock, g, ps, path, b) \<Rightarrow> max_role_depth - length path,
        \<lambda>x. case x of Inl _ \<Rightarrow> 0 | Inr (db, ten, t, clock, g, ps, path, b) \<Rightarrow> Suc (length ps)]") auto

declare delegation_source.simps [simp del] follow_parents.simps [simp del]

section \<open>Active roles\<close>

definition role_assigned :: "uuid \<Rightarrow> subject \<Rightarrow> role_assignment \<Rightarrow> bool" where
  "role_assigned ten s a \<longleftrightarrow> ra_tenant a = ten \<and> ra_subject a = snd s \<and> ra_subject_type a = Some (fst s)"

definition role_delegated :: "uuid \<Rightarrow> subject \<Rightarrow> delegation_grant \<Rightarrow> bool" where
  "role_delegated ten s g \<longleftrightarrow>
     dg_tenant g = ten \<and> dg_delegatee g = snd s \<and> dg_delegatee_type g = Some (fst s) \<and> \<not> dg_revoked g"

definition assignment_applies :: "instant \<Rightarrow> resource_facts \<Rightarrow> role_assignment \<Rightarrow> bool" where
  "assignment_applies t f a \<longleftrightarrow> active_at (ra_from a) (ra_to a) t \<and> scope_matches (ra_scope a) f"

definition grant_applies :: "instant \<Rightarrow> resource_facts \<Rightarrow> delegation_grant \<Rightarrow> bool" where
  "grant_applies t f g \<longleftrightarrow> active_at (Some (dg_from g)) (Some (dg_to g)) t \<and> scope_matches (dg_scope g) f"

fun add_delegated ::
  "policy_db \<Rightarrow> uuid \<Rightarrow> subject \<Rightarrow> instant \<Rightarrow> (nat \<Rightarrow> instant) \<Rightarrow> resource_facts \<Rightarrow> delegation_grant list \<Rightarrow> nat \<Rightarrow> uuid list \<Rightarrow>
   exn + uuid list" where
  "add_delegated db ten s t clock f [] budget ids = Inr ids"
| "add_delegated db ten s t clock f (g # gs) budget ids =
     (if \<not> grant_applies t f g then add_delegated db ten s t clock f gs budget ids
      else (case delegation_source db ten t clock g [s] budget of
          Inl e \<Rightarrow> Inl e
        | Inr (found, b) \<Rightarrow>
            add_delegated db ten s t clock f gs b (if found then dg_role g # ids else ids)))"

text \<open>One round of the loop over the hierarchy, and its at most sixteen rounds.\<close>

definition next_frontier :: "role list \<Rightarrow> uuid list \<Rightarrow> uuid list" where
  "next_frontier rows ids = remdups (filter (\<lambda>p. p \<notin> set ids) (List.map_filter ro_parent rows))"

fun climb :: "policy_db \<Rightarrow> uuid \<Rightarrow> nat \<Rightarrow> uuid list \<Rightarrow> uuid list \<Rightarrow> exn + uuid list" where
  "climb db ten 0 frontier ids =
     (if frontier \<noteq> [] then Inl (unbounded ''Role hierarchy is too deep'') else Inr ids)"
| "climb db ten (Suc n) frontier ids =
     (if frontier = [] then Inr ids
      else (case policy_rows (\<lambda>r. ro_tenant r = ten \<and> ro_id r \<in> set frontier) (db_roles db) of
          Inl e \<Rightarrow> Inl e
        | Inr rows \<Rightarrow>
            let above = next_frontier rows ids in climb db ten n above (above @ ids)))"

definition active_roles ::
  "policy_db \<Rightarrow> uuid \<Rightarrow> subject \<Rightarrow> instant \<Rightarrow> (nat \<Rightarrow> instant) \<Rightarrow> resource_facts \<Rightarrow> exn + uuid list" where
  "active_roles db ten s t clock f =
     bind_res (policy_rows (role_assigned ten s) (db_assignments db)) (\<lambda>assignments.
     bind_res (policy_rows (role_delegated ten s) (db_delegations db)) (\<lambda>grants.
     bind_res (add_delegated db ten s t clock f grants 0
                 (remdups (map ra_role (filter (assignment_applies t f) assignments)))) (\<lambda>ids.
       climb db ten max_role_depth ids ids)))"

section \<open>What a role rests on\<close>

text \<open>
  The declarative reading: a grant has a source when its delegator is a live member who holds the role
  directly in a covering scope and window, or by another live grant that has a source.
\<close>

inductive grant_has_source :: "policy_db \<Rightarrow> uuid \<Rightarrow> instant \<Rightarrow> delegation_grant \<Rightarrow> bool"
  for db ten t where
  direct: "m \<in> set (db_memberships db) \<Longrightarrow> mb_tenant m = ten \<Longrightarrow> (mb_type m, mb_principal m) = delegator_of g
    \<Longrightarrow> membership_effective m t \<Longrightarrow> a \<in> set (db_assignments db) \<Longrightarrow> delegator_assignment ten g a
    \<Longrightarrow> direct_source t g a \<Longrightarrow> grant_has_source db ten t g"
| granted: "m \<in> set (db_memberships db) \<Longrightarrow> mb_tenant m = ten \<Longrightarrow> (mb_type m, mb_principal m) = delegator_of g
    \<Longrightarrow> membership_effective m t \<Longrightarrow> p \<in> set (db_delegations db) \<Longrightarrow> delegator_grant ten g p
    \<Longrightarrow> parent_source t g p \<Longrightarrow> grant_has_source db ten t p \<Longrightarrow> grant_has_source db ten t g"

inductive holds_role :: "policy_db \<Rightarrow> uuid \<Rightarrow> subject \<Rightarrow> instant \<Rightarrow> resource_facts \<Rightarrow> uuid \<Rightarrow> bool"
  for db ten s t f where
  assigned: "a \<in> set (db_assignments db) \<Longrightarrow> role_assigned ten s a \<Longrightarrow> assignment_applies t f a
    \<Longrightarrow> holds_role db ten s t f (ra_role a)"
| delegated: "g \<in> set (db_delegations db) \<Longrightarrow> role_delegated ten s g \<Longrightarrow> grant_applies t f g
    \<Longrightarrow> grant_has_source db ten t g \<Longrightarrow> holds_role db ten s t f (dg_role g)"
| inherited: "holds_role db ten s t f (ro_id r) \<Longrightarrow> r \<in> set (db_roles db) \<Longrightarrow> ro_tenant r = ten
    \<Longrightarrow> ro_parent r = Some p \<Longrightarrow> holds_role db ten s t f p"

lemma policy_rows_set: "policy_rows p table = Inr rows \<Longrightarrow> set rows = {r \<in> set table. p r}"
  by (auto simp: policy_rows_def load_rows_def Let_def split: if_splits)

lemma delegation_source_sound:
  "delegation_source db ten t clock g visited b = Inr (True, b') \<Longrightarrow> grant_has_source db ten t g"
  "follow_parents db ten t clock g ps path b = Inr (True, b') \<Longrightarrow>
     \<exists>p \<in> set ps. parent_source t g p \<and> grant_has_source db ten t p"
proof (induction db ten t clock g visited b and db ten t clock g ps path b arbitrary: b' and b'
    rule: delegation_source_follow_parents.induct)
  case (1 db ten t clock g visited budget)
  from "1.prems" obtain m u where guard: "\<not> budget + 1 > max_rows"
      "\<not> (length visited \<ge> max_role_depth \<or> delegator_of g \<in> set visited \<or> \<not> known_type (dg_delegator_type g))"
    and lock: "lock_current (db_memberships db) ten (delegator_of g) (clock (budget + 1)) = Inr (m, u)"
    and live: "membership_effective m t"
    by (subst (asm) delegation_source.simps) (auto split: if_splits sum.splits)
  from lock_current_Inr [OF lock] have member: "m \<in> set (db_memberships db)" "mb_tenant m = ten"
    "(mb_type m, mb_principal m) = delegator_of g" by auto
  from "1.prems" guard lock live obtain as where as: "policy_rows (delegator_assignment ten g) (db_assignments db) = Inr as"
    by (subst (asm) delegation_source.simps) (auto split: sum.splits)
  show ?case
  proof (cases "list_ex (direct_source t g) as")
    case True
    with policy_rows_set [OF as] member live show ?thesis
      by (auto simp: list_ex_iff intro: grant_has_source.direct)
  next
    case False
    with "1.prems" guard lock live as obtain ps where ps: "policy_rows (delegator_grant ten g) (db_delegations db) = Inr ps"
      and follow: "follow_parents db ten t clock g ps (delegator_of g # visited) (budget + 1) = Inr (True, b')"
      by (subst (asm) delegation_source.simps) (auto split: sum.splits)
    from "1.IH" [OF guard lock refl _ as False ps follow] live obtain p
      where "p \<in> set ps" "parent_source t g p" "grant_has_source db ten t p" by auto
    with policy_rows_set [OF ps] member live show ?thesis by (auto intro: grant_has_source.granted)
  qed
next
  case (3 db ten t clock g p ps path budget)
  show ?case
  proof (cases "parent_source t g p")
    case False
    with 3 show ?thesis by (simp add: follow_parents.simps)
  next
    case True
    then have T: "\<not> \<not> parent_source t g p" by simp
    with "3.prems" obtain found b where src: "delegation_source db ten t clock p path budget = Inr (found, b)"
      by (auto simp: follow_parents.simps split: sum.splits)
    show ?thesis
    proof (cases found)
      case found: True
      with "3.IH"(2) [OF T] src True show ?thesis by auto
    next
      case False
      with src True "3.prems" have "follow_parents db ten t clock g ps path b = Inr (True, b')"
        by (simp add: follow_parents.simps)
      with "3.IH"(3) [OF T] src False show ?thesis by auto
    qed
  qed
qed (simp add: follow_parents.simps)

lemma add_delegated_sound:
  assumes "add_delegated db ten s t clock f gs b ids = Inr ids'"
    and "\<forall>r \<in> set ids. holds_role db ten s t f r"
    and "\<forall>g \<in> set gs. g \<in> set (db_delegations db) \<and> role_delegated ten s g"
  shows "\<forall>r \<in> set ids'. holds_role db ten s t f r"
  using assms
proof (induction gs arbitrary: b ids)
  case (Cons g gs)
  show ?case
  proof (cases "grant_applies t f g")
    case False
    with Cons show ?thesis by simp
  next
    case True
    with Cons.prems obtain found b1 where src: "delegation_source db ten t clock g [s] b = Inr (found, b1)"
      by (auto split: sum.splits)
    have head: "found \<Longrightarrow> holds_role db ten s t f (dg_role g)"
      using Cons.prems True delegation_source_sound(1) [of db ten t clock g "[s]" b b1] src
      by (simp add: holds_role.delegated)
    have rec: "add_delegated db ten s t clock f gs b1 (if found then dg_role g # ids else ids) = Inr ids'"
      using Cons.prems(1) True src by simp
    show ?thesis by (rule Cons.IH [OF rec]) (use Cons.prems head in simp_all)
  qed
qed simp

lemma climb_sound:
  assumes "climb db ten n frontier ids = Inr ids'" and "set frontier \<subseteq> set ids"
    and "\<forall>r \<in> set ids. holds_role db ten s t f r"
  shows "\<forall>r \<in> set ids'. holds_role db ten s t f r"
  using assms
proof (induction n arbitrary: frontier ids)
  case (Suc n)
  show ?case
  proof (cases "frontier = []")
    case True
    with Suc.prems show ?thesis by simp
  next
    case False
    with Suc.prems obtain rows where
      rows: "policy_rows (\<lambda>r. ro_tenant r = ten \<and> ro_id r \<in> set frontier) (db_roles db) = Inr rows"
      and rec: "climb db ten n (next_frontier rows ids) (next_frontier rows ids @ ids) = Inr ids'"
      by (auto simp: Let_def split: sum.splits)
    have "\<forall>r \<in> set (next_frontier rows ids). holds_role db ten s t f r"
      using policy_rows_set [OF rows] Suc.prems(2,3)
      by (auto simp: next_frontier_def List.map_filter_def)
        (metis (mono_tags, lifting) holds_role.inherited subsetD)
    with Suc.IH [OF rec] Suc.prems(3) show ?thesis by auto
  qed
qed (auto split: if_splits)

lemma active_roles_sound:
  assumes "active_roles db ten s t clock f = Inr ids" and "r \<in> set ids"
  shows "holds_role db ten s t f r"
proof -
  from assms(1) obtain as gs ids0 where as: "policy_rows (role_assigned ten s) (db_assignments db) = Inr as"
    and gs: "policy_rows (role_delegated ten s) (db_delegations db) = Inr gs"
    and add: "add_delegated db ten s t clock f gs 0 (remdups (map ra_role (filter (assignment_applies t f) as))) = Inr ids0"
    and climb: "climb db ten max_role_depth ids0 ids0 = Inr ids"
    by (auto simp: active_roles_def bind_res_Inr)
  have "\<forall>r \<in> set ids0. holds_role db ten s t f r"
    by (rule add_delegated_sound [OF add]) (use policy_rows_set [OF as] policy_rows_set [OF gs] in \<open>auto intro: holds_role.assigned\<close>)
  with climb_sound [OF climb] assms(2) show ?thesis by blast
qed

text \<open>The roles returned are closed under the parents of the tenant's roles, and contain the direct ones.\<close>

lemma climb_grows: "climb db ten n frontier ids = Inr ids' \<Longrightarrow> set ids \<subseteq> set ids'"
proof (induction n arbitrary: frontier ids)
  case (Suc n)
  from Suc.prems show ?case by (auto simp: Let_def split: if_splits sum.splits dest!: Suc.IH)
qed (auto split: if_splits)

lemma climb_closed:
  assumes "climb db ten n frontier ids = Inr ids'" and "set frontier \<subseteq> set ids"
    and "\<forall>r \<in> set (db_roles db). ro_tenant r = ten \<and> ro_id r \<in> set ids - set frontier \<longrightarrow> set_option (ro_parent r) \<subseteq> set ids"
  shows "\<forall>r \<in> set (db_roles db). ro_tenant r = ten \<and> ro_id r \<in> set ids' \<longrightarrow> set_option (ro_parent r) \<subseteq> set ids'"
  using assms
proof (induction n arbitrary: frontier ids)
  case (Suc n)
  show ?case
  proof (cases "frontier = []")
    case True
    with Suc.prems show ?thesis by simp
  next
    case False
    with Suc.prems obtain rows where
      rows: "policy_rows (\<lambda>r. ro_tenant r = ten \<and> ro_id r \<in> set frontier) (db_roles db) = Inr rows"
      and rec: "climb db ten n (next_frontier rows ids) (next_frontier rows ids @ ids) = Inr ids'"
      by (auto simp: Let_def split: sum.splits)
    have step: "set_option (ro_parent r) \<subseteq> set (next_frontier rows ids @ ids)"
      if r: "r \<in> set (db_roles db)" "ro_tenant r = ten" "ro_id r \<in> set ids" for r
    proof (cases "ro_id r \<in> set frontier")
      case True
      with r have "r \<in> set rows" by (simp add: policy_rows_set [OF rows])
      then show ?thesis by (force simp: next_frontier_def List.map_filter_def)
    next
      case False
      with r Suc.prems(3) show ?thesis by auto
    qed
    show ?thesis
      by (rule Suc.IH [OF rec]) (use step in auto)
  qed
qed (auto split: if_splits)

lemma add_delegated_grows: "add_delegated db ten s t clock f gs b ids = Inr ids' \<Longrightarrow> set ids \<subseteq> set ids'"
proof (induction gs arbitrary: b ids)
  case (Cons g gs)
  then show ?case by (fastforce split: if_splits sum.splits)
qed simp

end
