(* ===== verification/Policy_Runtime.thy ===== *)
theory Policy_Runtime
  imports Policy_Roles
begin

text \<open>
  The decisions of \<open>PolicyV2Service\<close> (\<open>foundations/policy\<close>, \<open>v2_runtime.py\<close>) and the one-use permit of a
  commit. The service's ports are a record of functions: owner resolution and fenced owner reads of the
  kernel, the classification provider, the tenant lock. \<open>clock 0\<close> is the instant read while a decision
  begins, \<open>clock (n + 1)\<close> the one of the \<open>n\<close>-th visited grant.
\<close>

section \<open>Ports\<close>

record authenticated_binding =
  ab_same_request :: bool
  ab_tenant :: uuid
  ab_principal :: uuid
  ab_type :: string

record classification =
  cl_tenant :: uuid
  cl_reference :: string
  cl_owner :: string
  cl_definition :: uuid
  cl_version :: string
  cl_active :: bool
  cl_ambiguous :: bool
  cl_sensitive :: bool
  cl_from :: "instant option"
  cl_until :: "instant option"

record policy_ports =
  po_owner :: "string \<Rightarrow> string \<Rightarrow> exn + string \<times> string"
  po_assert_owner :: "locator \<Rightarrow> exn + unit"
  po_facts :: "locator \<Rightarrow> string \<Rightarrow> exn + owner_answer"
  po_classification :: "uuid \<Rightarrow> string \<Rightarrow> exn + classification"
  po_acquire :: "uuid \<Rightarrow> exn + unit"
  po_actions :: "(string \<times> (string \<times> string)) list"
  po_binding :: authenticated_binding
  po_parse :: expression_parser

definition classification_effective :: "classification \<Rightarrow> instant \<Rightarrow> bool" where
  "classification_effective c t \<longleftrightarrow>
     cl_active c \<and> \<not> cl_ambiguous c
     \<and> (case cl_from c of None \<Rightarrow> True | Some a \<Rightarrow> a \<le> t) \<and> (case cl_until c of None \<Rightarrow> True | Some b \<Rightarrow> t < b)"

section \<open>Evidence\<close>

record evidence =
  ev_tenant :: uuid
  ev_principal :: subject
  ev_at :: instant
  ev_mode :: decision_mode
  ev_action :: string
  ev_locator :: "locator option"
  ev_allowed :: bool
  ev_reason :: decision_reason
  ev_policies :: "uuid list"

text \<open>\<open>PolicyDecisionEvidenceV2.__post_init__\<close>; instants are UTC here.\<close>

definition evidence_ok :: "evidence \<Rightarrow> bool" where
  "evidence_ok ev \<longleftrightarrow>
     fst (ev_principal ev) \<in> set subject_types
     \<and> (case ev_locator ev of None \<Rightarrow> True | Some l \<Rightarrow> lo_tenant l = ev_tenant ev)
     \<and> ev_allowed ev = (ev_reason ev = ALLOWED)"

definition make_evidence ::
  "uuid \<Rightarrow> subject \<Rightarrow> instant \<Rightarrow> decision_mode \<Rightarrow> string \<Rightarrow> locator option \<Rightarrow> decision_reason \<Rightarrow> uuid list \<Rightarrow> exn + evidence" where
  "make_evidence ten prin t mode action loc reason refs =
     (let ev = \<lparr>ev_tenant = ten, ev_principal = prin, ev_at = t, ev_mode = mode, ev_action = action,
        ev_locator = loc, ev_allowed = (reason = ALLOWED), ev_reason = reason, ev_policies = refs\<rparr>
      in if evidence_ok ev then Inr ev else Inl (ValueError ''Policy decision evidence is inconsistent''))"

section \<open>The beginning of a decision\<close>

definition trusted_principal :: "policy_ports \<Rightarrow> request_context \<Rightarrow> exn + subject" where
  "trusted_principal po req =
     (let b = po_binding po;
          refused = Inl (BusinessOSError ''principal_mismatch'' ''Trusted typed principal required'' 403)
      in case tenant req of
           None \<Rightarrow> refused
         | Some ten \<Rightarrow>
             if \<not> ab_same_request b \<or> tenant_id ten \<noteq> ab_tenant b \<or> principal_id ten \<noteq> ab_principal b
                \<or> ab_type b \<notin> set subject_types
             then refused else Inr (ab_type b, ab_principal b))"

record begun =
  bg_principal :: subject
  bg_at :: instant
  bg_facts :: "resource_facts option"
  bg_reason :: decision_reason

definition canonical_of :: "string \<Rightarrow> locator \<Rightarrow> locator" where
  "canonical_of ns loc = loc\<lparr>lo_namespace := ns\<rparr>"

text \<open>
  The guarded part of \<open>_begin\<close>: any exception in it is \<open>OWNER_UNAVAILABLE\<close>. \<open>Inr None\<close> is an action that is not
  mapped to the resource.
\<close>

definition read_owner_facts :: "policy_ports \<Rightarrow> string \<Rightarrow> locator \<Rightarrow> bool \<Rightarrow> exn + resource_facts option" where
  "read_owner_facts po action loc commit_bound =
     bind_res (po_owner po (lo_namespace loc) (lo_version loc)) (\<lambda>(ns, owner_module).
       let canonical = canonical_of ns loc in
       if map_of (po_actions po) action \<noteq> Some (lo_namespace canonical, lo_version canonical) then Inr None
       else
         bind_res (if commit_bound then po_assert_owner po canonical else Inr ()) (\<lambda>_.
         bind_res (po_facts po canonical action) (\<lambda>answer.
         bind_res (facts_from_owner answer canonical owner_module) (\<lambda>f. Inr (Some f)))))"

text \<open>The rest of \<open>_begin\<close> for facts read: the field's classification, the tenant lock, the membership.\<close>

definition begin_membership ::
  "policy_ports \<Rightarrow> policy_db \<Rightarrow> instant \<Rightarrow> locator \<Rightarrow> subject \<Rightarrow> resource_facts \<Rightarrow> (resource_facts \<Rightarrow> exn + bool) option \<Rightarrow>
   exn + decision_reason" where
  "begin_membership po db now loc prin f before_authority =
     (if (case before_authority of None \<Rightarrow> False | Some check \<Rightarrow> check f \<noteq> Inr True)
      then Inr CLASSIFICATION_UNAVAILABLE
      else bind_res (po_acquire po (lo_tenant loc)) (\<lambda>_.
        (case lock_current (db_memberships db) (lo_tenant loc) prin now of
           Inl e \<Rightarrow> if exn_code e \<noteq> None then Inr INACTIVE_MEMBERSHIP else Inl e
         | Inr _ \<Rightarrow> Inr ALLOWED)))"

definition begin_decision ::
  "policy_ports \<Rightarrow> policy_db \<Rightarrow> (nat \<Rightarrow> instant) \<Rightarrow> request_context \<Rightarrow> string \<Rightarrow> locator \<Rightarrow> bool \<Rightarrow>
   (resource_facts \<Rightarrow> exn + bool) option \<Rightarrow> exn + begun" where
  "begin_decision po db clock req action loc commit_bound before_authority =
     bind_res (trusted_principal po req) (\<lambda>prin.
     bind_res (raise_if (case tenant req of None \<Rightarrow> True | Some ten \<Rightarrow> lo_tenant loc \<noteq> tenant_id ten)
                 (BusinessOSError ''resource_fact_mismatch'' ''Canonical locator required'' 403)) (\<lambda>_.
       case read_owner_facts po action loc commit_bound of
         Inl e \<Rightarrow> Inr \<lparr>bg_principal = prin, bg_at = clock 0, bg_facts = None, bg_reason = OWNER_UNAVAILABLE\<rparr>
       | Inr None \<Rightarrow> Inr \<lparr>bg_principal = prin, bg_at = clock 0, bg_facts = None, bg_reason = ACTION_UNMAPPED\<rparr>
       | Inr (Some f) \<Rightarrow>
           bind_res (begin_membership po db (clock 0) loc prin f before_authority) (\<lambda>reason.
             Inr \<lparr>bg_principal = prin, bg_at = clock 0, bg_facts = Some f, bg_reason = reason\<rparr>)))"

section \<open>Record authority\<close>

definition record_scope_allowed :: "record_policy \<Rightarrow> resource_facts \<Rightarrow> subject \<Rightarrow> request_context \<Rightarrow> bool" where
  "record_scope_allowed p f prin req \<longleftrightarrow>
     (case rc_access p of
        DENY_RECORDS \<Rightarrow> False
      | ALL_RECORDS \<Rightarrow> True
      | OWNED \<Rightarrow> rf_record_owner f = Some (snd prin) \<and> rf_record_owner_type f = Some (fst prin)
      | ORGANIZATION \<Rightarrow>
          (case tenant req of
             None \<Rightarrow> False
           | Some ten \<Rightarrow>
               let scoped = [(rf_company f, active_company_id ten), (rf_legal_entity f, legal_entity_id ten),
                             (rf_site f, operating_site_id ten), (rf_business_unit f, business_unit_id ten)]
               in list_ex (\<lambda>(owner, _). owner \<noteq> None) scoped
                  \<and> list_all (\<lambda>(owner, active). owner = None \<or> owner = active) scoped))"

definition permission_for :: "uuid \<Rightarrow> uuid list \<Rightarrow> string \<Rightarrow> string \<Rightarrow> role_permission \<Rightarrow> bool" where
  "permission_for ten ids action ns p \<longleftrightarrow>
     rp_tenant p = ten \<and> rp_role p \<in> set ids \<and> (rp_permission p = action \<or> rp_permission p = ns @ ''.*'')"

definition for_roles :: "uuid list \<Rightarrow> uuid option \<Rightarrow> bool" where
  "for_roles ids r \<longleftrightarrow> (case r of None \<Rightarrow> True | Some x \<Rightarrow> x \<in> set ids)"

definition record_policy_for :: "uuid \<Rightarrow> uuid list \<Rightarrow> string \<Rightarrow> record_policy \<Rightarrow> bool" where
  "record_policy_for ten ids ns p \<longleftrightarrow> rc_tenant p = ten \<and> rc_resource p = ns \<and> for_roles ids (rc_role p)"

definition decide_records ::
  "policy_ports \<Rightarrow> request_context \<Rightarrow> subject \<Rightarrow> resource_facts \<Rightarrow> record_policy list \<Rightarrow> decision_reason \<times> uuid list" where
  "decide_records po req prin f relevant =
     (let matches = (\<lambda>p. condition_matches (po_parse po) (rc_condition p) (rf_attributes f))
      in if list_ex (\<lambda>p. \<not> condition_is_valid (po_parse po) (rc_condition p)) relevant then (RECORD_DENIED, [])
         else case List.find (\<lambda>p. rc_access p = DENY_RECORDS \<and> matches p) relevant of
             Some p \<Rightarrow> (RECORD_DENIED, [rc_id p])
           | None \<Rightarrow>
               (case List.find (\<lambda>p. matches p \<and> record_scope_allowed p f prin req) relevant of
                  Some p \<Rightarrow> (ALLOWED, [rc_id p])
                | None \<Rightarrow> (RECORD_DENIED, [])))"

definition authorize_facts ::
  "policy_ports \<Rightarrow> policy_db \<Rightarrow> (nat \<Rightarrow> instant) \<Rightarrow> request_context \<Rightarrow> subject \<Rightarrow> instant \<Rightarrow> resource_facts \<Rightarrow> string \<Rightarrow>
   exn + decision_reason \<times> uuid list \<times> uuid list" where
  "authorize_facts po db clock req prin t f action =
     bind_res (active_roles db (rf_tenant f) prin t clock f) (\<lambda>ids.
       if ids = [] then Inr (NO_ACTIVE_ROLE, [], ids)
       else bind_res (policy_rows (permission_for (rf_tenant f) ids action (rf_namespace f)) (db_permissions db)) (\<lambda>permissions.
         if permissions = [] then Inr (NO_ACTIVE_ROLE, [], ids)
         else bind_res (policy_rows (record_policy_for (rf_tenant f) ids (rf_namespace f)) (db_record_policies db)) (\<lambda>policies.
           if policies = [] then Inr (ALLOWED, [], ids)
           else let (reason, refs) = decide_records po req prin f (filter (\<lambda>p. for_roles ids (rc_role p)) policies)
                in Inr (reason, refs, ids))))"

section \<open>Decisions\<close>

definition facts_locator :: "resource_facts \<Rightarrow> locator" where
  "facts_locator f = \<lparr>lo_namespace = rf_namespace f, lo_version = rf_version f, lo_record = rf_record f, lo_tenant = rf_tenant f\<rparr>"

definition decided_locator :: "begun \<Rightarrow> locator \<Rightarrow> locator" where
  "decided_locator b loc = (case bg_facts b of Some f \<Rightarrow> facts_locator f | None \<Rightarrow> loc)"

text \<open>The record decision after the beginning, which both kinds of decision share.\<close>

definition authorize_begun ::
  "policy_ports \<Rightarrow> policy_db \<Rightarrow> (nat \<Rightarrow> instant) \<Rightarrow> request_context \<Rightarrow> begun \<Rightarrow> string \<Rightarrow>
   exn + decision_reason \<times> uuid list \<times> uuid list" where
  "authorize_begun po db clock req b action =
     (case (bg_reason b, bg_facts b) of
        (ALLOWED, Some f) \<Rightarrow> authorize_facts po db clock req (bg_principal b) (bg_at b) f action
      | _ \<Rightarrow> Inr (bg_reason b, [], []))"

definition request_tenant :: "request_context \<Rightarrow> uuid" where
  "request_tenant req = (case tenant req of Some ten \<Rightarrow> tenant_id ten | None \<Rightarrow> 0)"

definition authorize_read ::
  "policy_ports \<Rightarrow> policy_db \<Rightarrow> (nat \<Rightarrow> instant) \<Rightarrow> request_context \<Rightarrow> string \<Rightarrow> locator \<Rightarrow> decision_mode \<Rightarrow> exn + evidence" where
  "authorize_read po db clock req action loc mode =
     (if mode \<noteq> Read_Mode \<and> mode \<noteq> Presentation
      then Inl (BusinessOSError ''invalid_mode'' ''Read evaluation cannot authorize commit'' 403)
      else
        bind_res (begin_decision po db clock req action loc False None) (\<lambda>b.
        bind_res (authorize_begun po db clock req b action) (\<lambda>(reason, refs, _).
          make_evidence (request_tenant req) (bg_principal b) (bg_at b) mode action
            (Some (decided_locator b loc)) reason refs)))"

definition support_row :: "uuid \<Rightarrow> subject \<Rightarrow> instant \<Rightarrow> support_grant \<Rightarrow> bool" where
  "support_row ten prin t g \<longleftrightarrow>
     sg_tenant g = ten \<and> sg_principal g = snd prin \<and> sg_type g = Some (fst prin) \<and> sg_approved_by_type g \<noteq> None
     \<and> sg_revoked_at g = None \<and> active_at (Some (sg_from g)) (Some (sg_to g)) t"

definition authorize_support_access ::
  "policy_ports \<Rightarrow> policy_db \<Rightarrow> (nat \<Rightarrow> instant) \<Rightarrow> request_context \<Rightarrow> exn + evidence" where
  "authorize_support_access po db clock req =
     bind_res (trusted_principal po req) (\<lambda>prin.
     bind_res (po_acquire po (request_tenant req)) (\<lambda>_.
     bind_res (case lock_current (db_memberships db) (request_tenant req) prin (clock 0) of
                 Inl e \<Rightarrow> if exn_code e \<noteq> None then Inr INACTIVE_MEMBERSHIP else Inl e
               | Inr _ \<Rightarrow>
                   bind_res (policy_rows (support_row (request_tenant req) prin (clock 0)) (db_support db)) (\<lambda>rows.
                     Inr (if rows \<noteq> [] then ALLOWED else SUPPORT_GRANT_MISSING))) (\<lambda>reason.
       make_evidence (request_tenant req) prin (clock 0) Read_Mode ''support.access'' None reason [])))"

section \<open>Approval limits and commit decisions\<close>

fun least_by :: "('r \<Rightarrow> int) \<Rightarrow> 'r \<Rightarrow> 'r list \<Rightarrow> 'r" where
  "least_by k x [] = x"
| "least_by k x (y # ys) = least_by k (if k y < k x then y else x) ys"

definition limit_for :: "uuid \<Rightarrow> uuid list \<Rightarrow> string \<Rightarrow> approval_limit \<Rightarrow> bool" where
  "limit_for ten ids action l \<longleftrightarrow>
     al_tenant l = ten \<and> al_action l = action \<and> (case al_role l of None \<Rightarrow> False | Some r \<Rightarrow> r \<in> set ids)"

definition approval_decision ::
  "policy_db \<Rightarrow> resource_facts option \<Rightarrow> operation_facts \<Rightarrow> uuid list \<Rightarrow> instant \<Rightarrow> exn + decision_reason \<times> uuid list" where
  "approval_decision db facts op ids t =
     (case (facts, op_amount op, op_currency op) of
        (Some f, Some amount, Some currency) \<Rightarrow>
          bind_res (policy_rows (limit_for (rf_tenant f) ids (op_action op)) (db_limits db)) (\<lambda>limits.
            let live = filter (\<lambda>l. al_subject l = None \<and> active_at (al_from l) (al_to l) t) limits in
            if live = [] then Inr (APPROVAL_LIMIT_MISSING, [])
            else let same = filter (\<lambda>l. al_currency l = currency) live in
              if same = [] then Inr (CURRENCY_MISMATCH, [])
              else (case filter (\<lambda>l. value_of amount \<le> value_of (al_amount l)) same of
                  [] \<Rightarrow> Inr (APPROVAL_LIMIT_EXCEEDED, map al_id same)
                | l # ls \<Rightarrow> Inr (ALLOWED, [al_id (least_by al_id l ls)])))
      | _ \<Rightarrow> Inr (APPROVAL_LIMIT_MISSING, []))"

record permit =
  pm_used :: bool
  pm_locator :: locator
  pm_operation :: operation_facts
  pm_evidence :: evidence

definition same_as_owner :: "operation_facts option \<Rightarrow> operation_facts \<Rightarrow> bool" where
  "same_as_owner owner op \<longleftrightarrow> (case owner of None \<Rightarrow> False | Some o' \<Rightarrow> same_operation o' op)"

definition commit_outcome ::
  "policy_ports \<Rightarrow> policy_db \<Rightarrow> (nat \<Rightarrow> instant) \<Rightarrow> request_context \<Rightarrow> operation_facts \<Rightarrow> locator \<Rightarrow> decision_mode \<Rightarrow>
   exn + begun \<times> decision_reason \<times> uuid list" where
  "commit_outcome po db clock req op loc mode =
     bind_res (begin_decision po db clock req (op_action op) loc True None) (\<lambda>b.
     bind_res (authorize_begun po db clock req b (op_action op)) (\<lambda>(reason, refs, ids).
       let reason' = (if reason = ALLOWED \<and> (case bg_facts b of None \<Rightarrow> False | Some f \<Rightarrow> \<not> same_as_owner (rf_operation f) op)
                      then OPERATION_MISMATCH else reason)
       in if reason' = ALLOWED \<and> mode = Approval
          then bind_res (approval_decision db (bg_facts b) op ids (bg_at b)) (\<lambda>(r, limit_refs). Inr (b, r, refs @ limit_refs))
          else Inr (b, reason', refs)))"

definition commit_decision ::
  "policy_ports \<Rightarrow> policy_db \<Rightarrow> (nat \<Rightarrow> instant) \<Rightarrow> request_context \<Rightarrow> operation_facts \<Rightarrow> locator \<Rightarrow> decision_mode \<Rightarrow>
   exn + evidence \<times> permit option" where
  "commit_decision po db clock req op loc mode =
     bind_res (commit_outcome po db clock req op loc mode) (\<lambda>(b, reason, refs).
     bind_res (make_evidence (request_tenant req) (bg_principal b) (bg_at b) mode (op_action op)
                 (Some (decided_locator b loc)) reason refs) (\<lambda>ev.
       Inr (ev, if reason \<noteq> ALLOWED \<or> bg_facts b = None then None
                else Some \<lparr>pm_used = False, pm_locator = decided_locator b loc, pm_operation = op, pm_evidence = ev\<rparr>)))"

definition authorize_mutation where
  "authorize_mutation po db clock req op loc = commit_decision po db clock req op loc Mutation"

definition evaluate_approval where
  "evaluate_approval po db clock req op loc = commit_decision po db clock req op loc Approval"

section \<open>The permit\<close>

text \<open>
  \<open>_CommitPermit.apply\<close>. The authority of the moment is an argument: the ports, the tables and the clock
  that \<open>revalidate_commit\<close> meets. The result is the permit after the call, whether the owner's callback
  ran, and the outcome: an error or the recorded event's decision.
\<close>

record recorded_decision =
  rd_principal :: subject
  rd_at :: instant
  rd_mode :: decision_mode
  rd_action :: string
  rd_locator :: locator
  rd_policies :: "uuid list"

record apply_result =
  ap_permit :: permit
  ap_called :: bool
  ap_outcome :: "exn + recorded_decision"

definition reason_code :: "decision_reason \<Rightarrow> string" where
  "reason_code r =
     (case r of
        ALLOWED \<Rightarrow> ''allowed''
      | INACTIVE_MEMBERSHIP \<Rightarrow> ''inactive_membership''
      | ACTION_UNMAPPED \<Rightarrow> ''action_unmapped''
      | OWNER_UNAVAILABLE \<Rightarrow> ''resource_owner_unavailable''
      | FACT_MISMATCH \<Rightarrow> ''resource_fact_mismatch''
      | PRINCIPAL_MISMATCH \<Rightarrow> ''principal_mismatch''
      | SCOPE_MISMATCH \<Rightarrow> ''scope_mismatch''
      | NO_ACTIVE_ROLE \<Rightarrow> ''no_active_role''
      | RECORD_DENIED \<Rightarrow> ''record_denied''
      | CLASSIFICATION_UNAVAILABLE \<Rightarrow> ''classification_unavailable''
      | FIELD_NOT_ALLOWED \<Rightarrow> ''field_not_allowed''
      | APPROVAL_LIMIT_MISSING \<Rightarrow> ''approval_limit_missing''
      | APPROVAL_LIMIT_EXCEEDED \<Rightarrow> ''approval_limit_exceeded''
      | CURRENCY_MISMATCH \<Rightarrow> ''currency_mismatch''
      | OPERATION_MISMATCH \<Rightarrow> ''operation_mismatch''
      | SUPPORT_GRANT_MISSING \<Rightarrow> ''support_grant_missing'')"

definition operation_mismatch :: "string \<Rightarrow> exn" where
  "operation_mismatch m = BusinessOSError ''operation_mismatch'' m 403"

definition apply_permit ::
  "policy_ports \<Rightarrow> policy_db \<Rightarrow> (nat \<Rightarrow> instant) \<Rightarrow> request_context \<Rightarrow> (operation_facts \<Rightarrow> exn + operation_facts) \<Rightarrow>
   operation_facts \<Rightarrow> permit \<Rightarrow> apply_result" where
  "apply_permit po db clock req owner_apply op pm =
     (let refuse = (\<lambda>e. \<lparr>ap_permit = pm, ap_called = False, ap_outcome = Inl e\<rparr>) in
      if pm_used pm then refuse (operation_mismatch ''Operation authority is invalid'')
      else if \<not> same_operation op (pm_operation pm) then refuse (operation_mismatch ''Operation has changed'')
      else (case commit_decision po db clock req op (pm_locator pm) (ev_mode (pm_evidence pm)) of
          Inl e \<Rightarrow> refuse e
        | Inr (ev, _) \<Rightarrow>
            if \<not> ev_allowed ev
            then refuse (BusinessOSError (reason_code (ev_reason ev)) ''Live authority changed'' 403)
            else
              let spent = pm\<lparr>pm_used := True\<rparr> in
              (case owner_apply op of
                 Inl e \<Rightarrow> \<lparr>ap_permit = spent, ap_called = True, ap_outcome = Inl e\<rparr>
               | Inr committed \<Rightarrow>
                   \<lparr>ap_permit = spent, ap_called = True,
                    ap_outcome =
                      (if \<not> same_operation committed op
                       then Inl (operation_mismatch ''Committed operation differs from authority'')
                       else Inr \<lparr>rd_principal = ev_principal ev, rd_at = ev_at ev, rd_mode = ev_mode ev,
                         rd_action = ev_action ev, rd_locator = pm_locator pm, rd_policies = ev_policies ev\<rparr>)\<rparr>)))"

section \<open>Fields\<close>

text \<open>\<open>_classification_locked\<close>: every exception is \<open>None\<close>.\<close>

definition classification_namespace :: string where
  "classification_namespace = ''foundation.governance.data-classification''"

definition classification_locked :: "policy_ports \<Rightarrow> uuid \<Rightarrow> string \<Rightarrow> classification option" where
  "classification_locked po ten reference =
     (case po_classification po ten reference of
        Inl e \<Rightarrow> None
      | Inr c \<Rightarrow>
          if cl_tenant c \<noteq> ten \<or> cl_reference c \<noteq> reference then None
          else (case po_owner po classification_namespace ''2'' of
              Inl e \<Rightarrow> None
            | Inr (ns, owner_module) \<Rightarrow>
                if cl_owner c \<noteq> owner_module then None
                else (case po_facts po \<lparr>lo_namespace = classification_namespace, lo_version = ''2'',
                              lo_record = cl_definition c, lo_tenant = ten\<rparr> ''classification.read'' of
                    Inl e \<Rightarrow> None
                  | Inr answer \<Rightarrow>
                      if fact_at (oa_facts answer) ''classification_ref'' \<noteq> VStr reference
                         \<or> fact_at (oa_facts answer) ''definition_version'' \<noteq> VStr (cl_version c)
                         \<or> fact_at (oa_facts answer) ''active'' \<noteq> VBool True
                         \<or> fact_at (oa_facts answer) ''sensitive'' \<noteq> VBool (cl_sensitive c)
                      then None else Some c)))"

definition field_classification :: "policy_ports \<Rightarrow> string \<Rightarrow> resource_facts \<Rightarrow> classification option" where
  "field_classification po field f =
     (case map_of (rf_field_classes f) field of None \<Rightarrow> None | Some r \<Rightarrow> classification_locked po (rf_tenant f) r)"

definition field_policy_for :: "uuid \<Rightarrow> uuid list \<Rightarrow> string \<Rightarrow> string \<Rightarrow> field_policy \<Rightarrow> bool" where
  "field_policy_for ten ids ns field p \<longleftrightarrow>
     fp_tenant p = ten \<and> fp_resource p = ns \<and> fp_field p = field \<and> for_roles ids (fp_role p)"

text \<open>The decision over the matching field policies: reason, references (or those before), access.\<close>

definition decide_field ::
  "policy_ports \<Rightarrow> resource_facts \<Rightarrow> field_access \<Rightarrow> classification \<Rightarrow> uuid list \<Rightarrow> field_policy list \<Rightarrow>
   decision_reason \<times> uuid list \<times> field_access" where
  "decide_field po f requested c refs policies =
     (let matches = (\<lambda>p. condition_matches (po_parse po) (fp_condition p) (rf_attributes f));
          valid = list_all (\<lambda>p. condition_is_valid (po_parse po) (fp_condition p)) policies;
          matching = (if valid then policies else [])
      in case List.find (\<lambda>p. fp_access p = DENY_FIELD \<and> matches p) matching of
           Some p \<Rightarrow> (FIELD_NOT_ALLOWED, [fp_id p], DENY_FIELD)
         | None \<Rightarrow>
             (case filter (\<lambda>p. fp_access p \<noteq> DENY_FIELD \<and> matches p \<and> (requested = READ_FIELD \<or> fp_access p = WRITE_FIELD)) matching of
                [] \<Rightarrow> (FIELD_NOT_ALLOWED, refs, DENY_FIELD)
              | p # ps \<Rightarrow>
                  let selected = least_by fp_id p ps
                  in (ALLOWED, [fp_id selected, cl_definition c], fp_access selected)))"

definition evaluate_field ::
  "policy_ports \<Rightarrow> policy_db \<Rightarrow> (nat \<Rightarrow> instant) \<Rightarrow> request_context \<Rightarrow> locator \<Rightarrow> string \<Rightarrow> field_access \<Rightarrow>
   exn + evidence \<times> field_access" where
  "evaluate_field po db clock req loc field requested =
     (if field = [] \<or> requested \<notin> {READ_FIELD, WRITE_FIELD}
      then Inl (BusinessOSError ''field_not_allowed'' ''Invalid field request'' 403)
      else
        let action = (if requested = READ_FIELD then ''field.read'' else ''field.write'') in
        bind_res (begin_decision po db clock req action loc False
                    (Some (\<lambda>f. Inr (field_classification po field f \<noteq> None)))) (\<lambda>b.
        bind_res (authorize_begun po db clock req b action) (\<lambda>(reason, refs, ids).
        bind_res (case (reason, bg_facts b) of
            (ALLOWED, Some f) \<Rightarrow>
              (case field_classification po field f of
                 None \<Rightarrow> Inr (CLASSIFICATION_UNAVAILABLE, refs, DENY_FIELD)
               | Some c \<Rightarrow>
                   if \<not> classification_effective c (bg_at b) then Inr (CLASSIFICATION_UNAVAILABLE, refs, DENY_FIELD)
                   else bind_res (policy_rows (field_policy_for (rf_tenant f) ids (rf_namespace f) field) (db_field_policies db))
                     (\<lambda>rows. Inr (decide_field po f requested c refs (filter (\<lambda>p. for_roles ids (fp_role p)) rows))))
          | _ \<Rightarrow> Inr (reason, refs, DENY_FIELD)) (\<lambda>(reason', refs', access).
        bind_res (make_evidence (request_tenant req) (bg_principal b) (bg_at b) Read_Mode action
                    (Some (decided_locator b loc)) reason' refs') (\<lambda>ev. Inr (ev, access))))))"

end
