(* ===== verification/Policy_Laws.thy ===== *)
theory Policy_Laws
  imports Policy_Runtime
begin

text \<open>
  What the decisions of \<open>Policy_Runtime\<close> promise: an allowed decision rests on a bound principal, a live
  membership, a held role with the permission and no matching denial; evidence is always consistent; a
  permit is used once, under live authority, for the owner's own operation.
\<close>

section \<open>Held roles are found\<close>

text \<open>The roles a principal holds without delegation, which no search limits.\<close>

inductive holds_own_role :: "policy_db \<Rightarrow> uuid \<Rightarrow> subject \<Rightarrow> instant \<Rightarrow> resource_facts \<Rightarrow> uuid \<Rightarrow> bool"
  for db ten s t f where
  own: "a \<in> set (db_assignments db) \<Longrightarrow> role_assigned ten s a \<Longrightarrow> assignment_applies t f a
    \<Longrightarrow> holds_own_role db ten s t f (ra_role a)"
| above: "holds_own_role db ten s t f (ro_id r) \<Longrightarrow> r \<in> set (db_roles db) \<Longrightarrow> ro_tenant r = ten
    \<Longrightarrow> ro_parent r = Some p \<Longrightarrow> holds_own_role db ten s t f p"

lemma active_roles_complete:
  assumes "active_roles db ten s t clock f = Inr ids" and "holds_own_role db ten s t f r"
  shows "r \<in> set ids"
proof -
  from assms(1) obtain as gs ids0 where as: "policy_rows (role_assigned ten s) (db_assignments db) = Inr as"
    and add: "add_delegated db ten s t clock f gs 0 (remdups (map ra_role (filter (assignment_applies t f) as))) = Inr ids0"
    and climb: "climb db ten max_role_depth ids0 ids0 = Inr ids"
    by (auto simp: active_roles_def bind_res_Inr)
  have closed: "\<forall>r \<in> set (db_roles db). ro_tenant r = ten \<and> ro_id r \<in> set ids \<longrightarrow> set_option (ro_parent r) \<subseteq> set ids"
    by (rule climb_closed [OF climb]) simp_all
  show ?thesis
    using assms(2)
  proof induction
    case (own a)
    then have "ra_role a \<in> set (remdups (map ra_role (filter (assignment_applies t f) as)))"
      using policy_rows_set [OF as] by auto
    with add_delegated_grows [OF add] climb_grows [OF climb] show ?case by blast
  next
    case (above r p)
    with closed show ?case by auto
  qed
qed

section \<open>What an allowed decision rests on\<close>

definition condition_holds :: "policy_ports \<Rightarrow> resource_facts \<Rightarrow> string option \<Rightarrow> bool" where
  "condition_holds po f c = condition_matches (po_parse po) c (rf_attributes f)"

definition concerns :: "resource_facts \<Rightarrow> record_policy \<Rightarrow> bool" where
  "concerns f p \<longleftrightarrow> rc_tenant p = rf_tenant f \<and> rc_resource p = rf_namespace f"

definition role_permits :: "policy_db \<Rightarrow> subject \<Rightarrow> instant \<Rightarrow> resource_facts \<Rightarrow> string \<Rightarrow> bool" where
  "role_permits db prin t f action \<longleftrightarrow>
     (\<exists>p \<in> set (db_permissions db). rp_tenant p = rf_tenant f
        \<and> (rp_permission p = action \<or> rp_permission p = rf_namespace f @ ''.*'')
        \<and> holds_role db (rf_tenant f) prin t f (rp_role p))"

definition not_denied :: "policy_ports \<Rightarrow> policy_db \<Rightarrow> subject \<Rightarrow> instant \<Rightarrow> resource_facts \<Rightarrow> bool" where
  "not_denied po db prin t f \<longleftrightarrow>
     \<not> (\<exists>p \<in> set (db_record_policies db). concerns f p \<and> rc_access p = DENY_RECORDS \<and> condition_holds po f (rc_condition p)
          \<and> (case rc_role p of None \<Rightarrow> True | Some r \<Rightarrow> holds_own_role db (rf_tenant f) prin t f r))"

definition records_open :: "policy_ports \<Rightarrow> policy_db \<Rightarrow> request_context \<Rightarrow> subject \<Rightarrow> instant \<Rightarrow> resource_facts \<Rightarrow> bool" where
  "records_open po db req prin t f \<longleftrightarrow>
     (\<exists>p \<in> set (db_record_policies db). concerns f p \<and> condition_holds po f (rc_condition p)
        \<and> record_scope_allowed p f prin req
        \<and> (case rc_role p of None \<Rightarrow> True | Some r \<Rightarrow> holds_role db (rf_tenant f) prin t f r))
     \<or> \<not> (\<exists>p \<in> set (db_record_policies db). concerns f p
            \<and> (case rc_role p of None \<Rightarrow> True | Some r \<Rightarrow> holds_own_role db (rf_tenant f) prin t f r))"

definition live_member :: "policy_db \<Rightarrow> uuid \<Rightarrow> subject \<Rightarrow> instant \<Rightarrow> bool" where
  "live_member db ten prin t \<longleftrightarrow>
     (\<exists>m \<in> set (db_memberships db). mb_tenant m = ten \<and> (mb_type m, mb_principal m) = prin \<and> membership_effective m t)"

definition bound_request :: "policy_ports \<Rightarrow> request_context \<Rightarrow> uuid \<Rightarrow> subject \<Rightarrow> bool" where
  "bound_request po req ten prin \<longleftrightarrow>
     ab_same_request (po_binding po) \<and> prin = (ab_type (po_binding po), ab_principal (po_binding po))
     \<and> ab_tenant (po_binding po) = ten \<and> fst prin \<in> set subject_types
     \<and> (\<exists>tc. tenant req = Some tc \<and> tenant_id tc = ten \<and> principal_id tc = snd prin)"

lemma trusted_principal_Inr: "trusted_principal po req = Inr prin \<Longrightarrow> bound_request po req (request_tenant req) prin"
  by (auto simp: trusted_principal_def bound_request_def request_tenant_def Let_def split: option.splits if_splits)

lemma decide_records_ALLOWED:
  assumes "decide_records po req prin f ps = (ALLOWED, refs)"
  shows "(\<exists>p \<in> set ps. condition_holds po f (rc_condition p) \<and> record_scope_allowed p f prin req)
    \<and> \<not> (\<exists>p \<in> set ps. rc_access p = DENY_RECORDS \<and> condition_holds po f (rc_condition p))"
proof -
  let ?deny = "List.find (\<lambda>p. rc_access p = DENY_RECORDS \<and> condition_holds po f (rc_condition p)) ps"
  let ?open = "List.find (\<lambda>p. condition_holds po f (rc_condition p) \<and> record_scope_allowed p f prin req) ps"
  have "?deny = None" "?open \<noteq> None"
    using assms by (auto simp: decide_records_def Let_def condition_holds_def split: if_splits option.splits)
  then show ?thesis by (auto simp: find_None_iff)
qed

lemma authorize_facts_rows:
  assumes "authorize_facts po db clock req prin t f action = Inr (ALLOWED, refs, ids)"
  obtains perms pols where "active_roles db (rf_tenant f) prin t clock f = Inr ids"
    and "policy_rows (permission_for (rf_tenant f) ids action (rf_namespace f)) (db_permissions db) = Inr perms" "perms \<noteq> []"
    and "policy_rows (record_policy_for (rf_tenant f) ids (rf_namespace f)) (db_record_policies db) = Inr pols"
    and "pols = [] \<or> decide_records po req prin f (filter (\<lambda>p. for_roles ids (rc_role p)) pols) = (ALLOWED, refs)"
proof -
  from assms obtain ids' where ids: "active_roles db (rf_tenant f) prin t clock f = Inr ids'"
    by (cases "active_roles db (rf_tenant f) prin t clock f") (simp_all add: authorize_facts_def)
  with assms have ne: "ids' \<noteq> []" by (auto simp: authorize_facts_def)
  with assms ids obtain perms where
    perms: "policy_rows (permission_for (rf_tenant f) ids' action (rf_namespace f)) (db_permissions db) = Inr perms"
    by (cases "policy_rows (permission_for (rf_tenant f) ids' action (rf_namespace f)) (db_permissions db)")
      (simp_all add: authorize_facts_def)
  with assms ids ne have pne: "perms \<noteq> []" by (auto simp: authorize_facts_def)
  with assms ids ne perms obtain pols where
    pols: "policy_rows (record_policy_for (rf_tenant f) ids' (rf_namespace f)) (db_record_policies db) = Inr pols"
    by (cases "policy_rows (record_policy_for (rf_tenant f) ids' (rf_namespace f)) (db_record_policies db)")
      (simp_all add: authorize_facts_def)
  with assms ids ne perms pne have "ids' = ids \<and>
      (pols = [] \<or> decide_records po req prin f (filter (\<lambda>p. for_roles ids (rc_role p)) pols) = (ALLOWED, refs))"
    by (auto simp: authorize_facts_def split: if_splits prod.splits)
  with ids perms pne pols that show ?thesis by blast
qed

lemma authorize_facts_ALLOWED:
  assumes "authorize_facts po db clock req prin t f action = Inr (ALLOWED, refs, ids)"
  shows "role_permits db prin t f action \<and> not_denied po db prin t f \<and> records_open po db req prin t f
    \<and> (\<forall>r \<in> set ids. holds_role db (rf_tenant f) prin t f r)"
proof -
  from authorize_facts_rows [OF assms] obtain perms pols where ids: "active_roles db (rf_tenant f) prin t clock f = Inr ids"
    and perms: "policy_rows (permission_for (rf_tenant f) ids action (rf_namespace f)) (db_permissions db) = Inr perms" "perms \<noteq> []"
    and pols: "policy_rows (record_policy_for (rf_tenant f) ids (rf_namespace f)) (db_record_policies db) = Inr pols"
    and decided: "pols = [] \<or> decide_records po req prin f (filter (\<lambda>p. for_roles ids (rc_role p)) pols) = (ALLOWED, refs)" .
  note held = active_roles_sound [OF ids] and found = active_roles_complete [OF ids]
  from perms(2) obtain p where "p \<in> set perms" by (cases perms) auto
  then have permits: "role_permits db prin t f action"
    using policy_rows_set [OF perms(1)] held by (auto simp: role_permits_def permission_for_def)
  note pset = policy_rows_set [OF pols]
  have mem: "p \<in> set pols" if "p \<in> set (db_record_policies db)" "concerns f p"
      "case rc_role p of None \<Rightarrow> True | Some r \<Rightarrow> holds_own_role db (rf_tenant f) prin t f r" for p
    using that found by (auto simp: pset record_policy_for_def concerns_def for_roles_def split: option.splits)
  have relevant: "filter (\<lambda>p. for_roles ids (rc_role p)) pols = pols"
    by (rule filter_True) (simp add: pset record_policy_for_def)
  show ?thesis
  proof (cases "pols = []")
    case True
    with mem permits held show ?thesis
      unfolding not_denied_def records_open_def by auto
  next
    case False
    with decided relevant have "decide_records po req prin f pols = (ALLOWED, refs)" by simp
    from decide_records_ALLOWED [OF this] obtain q where q: "q \<in> set pols"
      "condition_holds po f (rc_condition q)" "record_scope_allowed q f prin req"
      and deny: "\<not> (\<exists>p \<in> set pols. rc_access p = DENY_RECORDS \<and> condition_holds po f (rc_condition p))" by blast
    have "not_denied po db prin t f" using deny mem unfolding not_denied_def by blast
    moreover have "records_open po db req prin t f"
      using q held unfolding records_open_def
      by (intro disjI1 bexI [of _ q]) (auto simp: pset record_policy_for_def concerns_def for_roles_def split: option.splits)
    ultimately show ?thesis using permits held by blast
  qed
qed

lemma facts_from_owner_Inr:
  "facts_from_owner oa lo m = Inr f \<Longrightarrow> facts_locator f = lo \<and> rf_owner_module f = m"
  by (cases lo) (auto simp: facts_from_owner_def facts_locator_def Let_def bind_res_Inr split: if_splits)

lemma locator_update:
  "facts_locator f = canonical_of ns loc \<Longrightarrow>
   rf_namespace f = ns \<and> rf_version f = lo_version loc \<and> rf_record f = lo_record loc \<and> rf_tenant f = lo_tenant loc"
  by (cases loc) (simp add: facts_locator_def canonical_of_def)

lemma canonical_of_simps [simp]: "lo_namespace (canonical_of ns loc) = ns" "lo_version (canonical_of ns loc) = lo_version loc"
  by (simp_all add: canonical_of_def)

lemma read_owner_facts_Inr:
  assumes "read_owner_facts po action loc cb = Inr (Some f)"
  shows "rf_tenant f = lo_tenant loc \<and> rf_record f = lo_record loc \<and> rf_version f = lo_version loc
   \<and> map_of (po_actions po) action = Some (rf_namespace f, rf_version f)
   \<and> (cb \<longrightarrow> po_assert_owner po (facts_locator f) = Inr ())"
proof -
  from assms obtain ns m answer where mapped: "map_of (po_actions po) action = Some (ns, lo_version loc)"
    and owner: "cb \<longrightarrow> po_assert_owner po (canonical_of ns loc) = Inr ()"
    and f: "facts_from_owner answer (canonical_of ns loc) m = Inr f"
    by (auto simp: read_owner_facts_def bind_res_Inr Let_def split: if_splits prod.splits)
  from facts_from_owner_Inr [OF f] have "facts_locator f = canonical_of ns loc" by simp
  with locator_update [OF this] mapped owner show ?thesis by simp
qed

lemma begin_membership_ALLOWED:
  "begin_membership po db now loc prin f before = Inr ALLOWED \<Longrightarrow> live_member db (lo_tenant loc) prin now"
  by (auto simp: begin_membership_def bind_res_Inr live_member_def dest!: lock_current_Inr split: if_splits sum.splits)

lemma begin_decision_Inr:
  assumes "begin_decision po db clock req action loc cb before = Inr b"
  shows "bound_request po req (lo_tenant loc) (bg_principal b) \<and> bg_at b = clock 0
    \<and> (case bg_facts b of None \<Rightarrow> bg_reason b \<noteq> ALLOWED
       | Some f \<Rightarrow> read_owner_facts po action loc cb = Inr (Some f)
                   \<and> begin_membership po db (clock 0) loc (bg_principal b) f before = Inr (bg_reason b))"
proof -
  from assms obtain prin where prin: "trusted_principal po req = Inr prin"
    and ten: "request_tenant req = lo_tenant loc"
    and rest: "(case read_owner_facts po action loc cb of
         Inl e \<Rightarrow> Inr \<lparr>bg_principal = prin, bg_at = clock 0, bg_facts = None, bg_reason = OWNER_UNAVAILABLE\<rparr>
       | Inr None \<Rightarrow> Inr \<lparr>bg_principal = prin, bg_at = clock 0, bg_facts = None, bg_reason = ACTION_UNMAPPED\<rparr>
       | Inr (Some f) \<Rightarrow>
           bind_res (begin_membership po db (clock 0) loc prin f before) (\<lambda>reason.
             Inr \<lparr>bg_principal = prin, bg_at = clock 0, bg_facts = Some f, bg_reason = reason\<rparr>)) = Inr b"
    unfolding begin_decision_def bind_res_Inr raise_if_Inr by (auto simp: request_tenant_def split: option.splits)
  from rest have "bg_principal b = prin \<and> bg_at b = clock 0
    \<and> (case bg_facts b of None \<Rightarrow> bg_reason b \<noteq> ALLOWED
       | Some f \<Rightarrow> read_owner_facts po action loc cb = Inr (Some f)
                   \<and> begin_membership po db (clock 0) loc prin f before = Inr (bg_reason b))"
    by (auto simp: bind_res_Inr split: sum.splits option.splits)
  with trusted_principal_Inr [OF prin] ten show ?thesis by (auto split: option.splits)
qed

text \<open>All of it for one decision over one resource.\<close>

definition authorized_access ::
  "policy_ports \<Rightarrow> policy_db \<Rightarrow> request_context \<Rightarrow> string \<Rightarrow> locator \<Rightarrow> subject \<Rightarrow> instant \<Rightarrow> resource_facts \<Rightarrow> bool" where
  "authorized_access po db req action loc prin t f \<longleftrightarrow>
     bound_request po req (lo_tenant loc) prin
     \<and> rf_tenant f = lo_tenant loc \<and> rf_record f = lo_record loc \<and> rf_version f = lo_version loc
     \<and> map_of (po_actions po) action = Some (rf_namespace f, rf_version f)
     \<and> live_member db (lo_tenant loc) prin t
     \<and> role_permits db prin t f action \<and> not_denied po db prin t f \<and> records_open po db req prin t f"

lemma authorize_begun_ALLOWED:
  assumes "begin_decision po db clock req action loc cb before = Inr b"
    and "authorize_begun po db clock req b action = Inr (ALLOWED, refs, ids)"
  shows "\<exists>f. bg_facts b = Some f \<and> read_owner_facts po action loc cb = Inr (Some f)
    \<and> authorized_access po db req action loc (bg_principal b) (bg_at b) f
    \<and> (\<forall>r \<in> set ids. holds_role db (rf_tenant f) (bg_principal b) (bg_at b) f r)"
proof -
  note b = begin_decision_Inr [OF assms(1)]
  from assms(2) have allowed: "bg_reason b = ALLOWED"
    by (auto simp: authorize_begun_def split: decision_reason.splits option.splits)
  with b obtain f where f: "bg_facts b = Some f" "read_owner_facts po action loc cb = Inr (Some f)"
    by (auto split: option.splits)
  from b allowed f have live: "live_member db (lo_tenant loc) (bg_principal b) (bg_at b)"
    by (auto intro: begin_membership_ALLOWED)
  from assms(2) allowed f have "authorize_facts po db clock req (bg_principal b) (bg_at b) f action = Inr (ALLOWED, refs, ids)"
    by (simp add: authorize_begun_def)
  from authorize_facts_ALLOWED [OF this] read_owner_facts_Inr [OF f(2)] b live f show ?thesis
    by (simp add: authorized_access_def)
qed

lemma make_evidence_Inr:
  "make_evidence ten prin t mode action l reason refs = Inr ev \<Longrightarrow>
   ev_allowed ev = (reason = ALLOWED) \<and> ev_principal ev = prin \<and> ev_at ev = t \<and> ev_tenant ev = ten \<and> ev_locator ev = l
   \<and> ev_mode ev = mode \<and> ev_action ev = action \<and> ev_reason ev = reason"
  by (auto simp: make_evidence_def Let_def split: if_splits)

lemma read_allowed_sound:
  assumes "authorize_read po db clock req action loc mode = Inr ev" and "ev_allowed ev"
  shows "\<exists>f. ev_locator ev = Some (facts_locator f)
    \<and> authorized_access po db req action loc (ev_principal ev) (ev_at ev) f"
proof -
  from assms obtain b refs ids where b: "begin_decision po db clock req action loc False None = Inr b"
    and a: "authorize_begun po db clock req b action = Inr (ALLOWED, refs, ids)"
    and ev: "make_evidence (request_tenant req) (bg_principal b) (bg_at b) mode action (Some (decided_locator b loc)) ALLOWED refs = Inr ev"
    by (auto simp: authorize_read_def bind_res_Inr dest: make_evidence_Inr split: if_splits)
  from authorize_begun_ALLOWED [OF b a] make_evidence_Inr [OF ev] show ?thesis
    by (auto simp: decided_locator_def)
qed

section \<open>Commit decisions\<close>

definition limit_allows :: "policy_db \<Rightarrow> subject \<Rightarrow> instant \<Rightarrow> resource_facts \<Rightarrow> operation_facts \<Rightarrow> bool" where
  "limit_allows db prin t f op \<longleftrightarrow>
     (\<exists>l \<in> set (db_limits db). \<exists>r amount. al_tenant l = rf_tenant f \<and> al_action l = op_action op
        \<and> al_role l = Some r \<and> holds_role db (rf_tenant f) prin t f r \<and> active_at (al_from l) (al_to l) t
        \<and> op_currency op = Some (al_currency l) \<and> op_amount op = Some amount \<and> value_of amount \<le> value_of (al_amount l))"

lemma approval_decision_ALLOWED:
  assumes "approval_decision db (Some f) op ids t = Inr (ALLOWED, refs)"
    and "\<forall>r \<in> set ids. holds_role db (rf_tenant f) prin t f r"
  shows "limit_allows db prin t f op"
proof -
  from assms(1) obtain amount currency where op: "op_amount op = Some amount" "op_currency op = Some currency"
    by (auto simp: approval_decision_def split: option.splits)
  from assms(1) op obtain limits where limits: "policy_rows (limit_for (rf_tenant f) ids (op_action op)) (db_limits db) = Inr limits"
    by (cases "policy_rows (limit_for (rf_tenant f) ids (op_action op)) (db_limits db)") (simp_all add: approval_decision_def)
  define fit where "fit = filter (\<lambda>l. value_of amount \<le> value_of (al_amount l))
    (filter (\<lambda>l. al_currency l = currency) (filter (\<lambda>l. al_subject l = None \<and> active_at (al_from l) (al_to l) t) limits))"
  have "fit \<noteq> []"
    using assms(1) op limits unfolding fit_def by (auto simp: approval_decision_def Let_def split: if_splits list.splits)
  then obtain l where "l \<in> set fit" by (cases fit) auto
  then have "l \<in> set limits" "al_currency l = currency" "active_at (al_from l) (al_to l) t" "value_of amount \<le> value_of (al_amount l)"
    by (auto simp: fit_def)
  with policy_rows_set [OF limits] assms(2) op show ?thesis
    unfolding limit_allows_def by (intro bexI [of _ l]) (auto simp: limit_for_def split: option.splits)
qed

text \<open>What an issued permit, or any allowed commit decision, stands on.\<close>

definition committable ::
  "policy_ports \<Rightarrow> policy_db \<Rightarrow> request_context \<Rightarrow> operation_facts \<Rightarrow> locator \<Rightarrow> decision_mode \<Rightarrow> subject \<Rightarrow> instant \<Rightarrow>
   resource_facts \<Rightarrow> bool" where
  "committable po db req op loc mode prin t f \<longleftrightarrow>
     authorized_access po db req (op_action op) loc prin t f
     \<and> po_assert_owner po (facts_locator f) = Inr ()
     \<and> same_as_owner (rf_operation f) op
     \<and> (mode = Approval \<longrightarrow> limit_allows db prin t f op)"

lemma commit_outcome_ALLOWED:
  assumes "commit_outcome po db clock req op loc mode = Inr (b, ALLOWED, refs)"
  shows "\<exists>f. bg_facts b = Some f \<and> committable po db req op loc mode (bg_principal b) (bg_at b) f"
proof -
  from assms obtain b' where b': "begin_decision po db clock req (op_action op) loc True None = Inr b'"
    by (cases "begin_decision po db clock req (op_action op) loc True None") (simp_all add: commit_outcome_def)
  with assms obtain reason rs ids where a: "authorize_begun po db clock req b' (op_action op) = Inr (reason, rs, ids)"
    by (cases "authorize_begun po db clock req b' (op_action op)") (auto simp: commit_outcome_def)
  have bb: "b' = b"
    using assms b' a by (auto simp: commit_outcome_def Let_def bind_res_Inr split: if_splits)
  have allowed: "reason = ALLOWED"
    using assms b' a bb by (auto simp: commit_outcome_def Let_def split: if_splits)
  from authorize_begun_ALLOWED [OF b'] a allowed bb obtain f where f: "bg_facts b = Some f"
      "read_owner_facts po (op_action op) loc True = Inr (Some f)"
      "authorized_access po db req (op_action op) loc (bg_principal b) (bg_at b) f"
    and held: "\<forall>r \<in> set ids. holds_role db (rf_tenant f) (bg_principal b) (bg_at b) f r" by blast
  have same: "same_as_owner (rf_operation f) op"
    using assms b' a allowed f bb by (auto simp: commit_outcome_def Let_def split: if_splits)
  have "limit_allows db (bg_principal b) (bg_at b) f op" if "mode = Approval"
  proof -
    from assms b' a allowed f same that bb obtain rs' where "approval_decision db (Some f) op ids (bg_at b) = Inr (ALLOWED, rs')"
      by (auto simp: commit_outcome_def Let_def bind_res_Inr)
    from approval_decision_ALLOWED [OF this held] show ?thesis .
  qed
  with f same read_owner_facts_Inr [OF f(2)] show ?thesis by (auto simp: committable_def)
qed

lemma commit_decision_Inr:
  assumes "commit_decision po db clock req op loc mode = Inr (ev, p)" and "ev_allowed ev \<or> p \<noteq> None"
  shows "\<exists>f. ev_allowed ev \<and> committable po db req op loc mode (ev_principal ev) (ev_at ev) f
    \<and> ev_locator ev = Some (facts_locator f)
    \<and> p = Some \<lparr>pm_used = False, pm_locator = facts_locator f, pm_operation = op, pm_evidence = ev\<rparr>"
proof -
  from assms(1) obtain b reason refs where out: "commit_outcome po db clock req op loc mode = Inr (b, reason, refs)"
    by (cases "commit_outcome po db clock req op loc mode") (auto simp: commit_decision_def)
  with assms(1) have ev: "make_evidence (request_tenant req) (bg_principal b) (bg_at b) mode (op_action op)
      (Some (decided_locator b loc)) reason refs = Inr ev"
    and p: "p = (if reason \<noteq> ALLOWED \<or> bg_facts b = None then None
      else Some \<lparr>pm_used = False, pm_locator = decided_locator b loc, pm_operation = op, pm_evidence = ev\<rparr>)"
    by (auto simp: commit_decision_def bind_res_Inr)
  from assms(2) p make_evidence_Inr [OF ev] have "reason = ALLOWED" by (auto split: if_splits)
  with commit_outcome_ALLOWED [of po db clock req op loc mode b refs] out p make_evidence_Inr [OF ev]
  show ?thesis by (auto simp: decided_locator_def)
qed

section \<open>The permit over its life\<close>

text \<open>One attempt: the authority of the moment, the callback and the operation the caller passes.\<close>

record attempt =
  at_ports :: policy_ports
  at_db :: policy_db
  at_clock :: "nat \<Rightarrow> instant"
  at_request :: request_context
  at_owner :: "operation_facts \<Rightarrow> exn + operation_facts"
  at_operation :: operation_facts

fun attempts :: "attempt list \<Rightarrow> permit \<Rightarrow> (attempt \<times> apply_result) list" where
  "attempts [] pm = []"
| "attempts (a # as) pm =
     (let r = apply_permit (at_ports a) (at_db a) (at_clock a) (at_request a) (at_owner a) (at_operation a) pm
      in (a, r) # attempts as (ap_permit r))"

definition live_authority :: "policy_ports \<Rightarrow> policy_db \<Rightarrow> request_context \<Rightarrow> operation_facts \<Rightarrow> permit \<Rightarrow> bool" where
  "live_authority po db req op pm \<longleftrightarrow>
     (\<exists>f t prin. committable po db req op (pm_locator pm) (ev_mode (pm_evidence pm)) prin t f)"

lemma apply_permit_cases:
  fixes po db clock req owner op pm
  defines "r \<equiv> apply_permit po db clock req owner op pm"
  shows "(\<not> ap_called r \<and> ap_permit r = pm \<and> (\<exists>e. ap_outcome r = Inl e))
    \<or> (ap_called r \<and> \<not> pm_used pm \<and> pm_used (ap_permit r) \<and> same_operation op (pm_operation pm)
       \<and> live_authority po db req op pm
       \<and> (\<forall>d. ap_outcome r = Inr d \<longrightarrow> (\<exists>c. owner op = Inr c \<and> same_operation c op)))"
proof (cases "pm_used pm \<or> \<not> same_operation op (pm_operation pm)")
  case True
  then show ?thesis by (auto simp: r_def apply_permit_def Let_def)
next
  case False
  show ?thesis
  proof (cases "commit_decision po db clock req op (pm_locator pm) (ev_mode (pm_evidence pm))")
    case (Inl e)
    with False show ?thesis by (simp add: r_def apply_permit_def Let_def)
  next
    case (Inr x)
    obtain ev p where x: "x = (ev, p)" by (cases x)
    show ?thesis
    proof (cases "ev_allowed ev")
      case allowed: True
      with commit_decision_Inr Inr x
      have "live_authority po db req op pm" unfolding live_authority_def by blast
      with False Inr x allowed show ?thesis by (auto simp: r_def apply_permit_def Let_def split: sum.splits if_splits)
    next
      case False2: False
      with False Inr x show ?thesis by (simp add: r_def apply_permit_def Let_def)
    qed
  qed
qed

lemma used_permit_is_dead: "pm_used pm \<Longrightarrow> (a, r) \<in> set (attempts as pm) \<Longrightarrow> \<not> ap_called r"
proof (induction as arbitrary: pm)
  case (Cons b as)
  have "apply_permit (at_ports b) (at_db b) (at_clock b) (at_request b) (at_owner b) (at_operation b) pm
    = \<lparr>ap_permit = pm, ap_called = False, ap_outcome = Inl (operation_mismatch ''Operation authority is invalid'')\<rparr>"
    using Cons.prems(1) by (simp add: apply_permit_def)
  with Cons show ?case by auto
qed simp

lemma attempts_called:
  "(a, r) \<in> set (attempts as pm) \<Longrightarrow> ap_called r \<Longrightarrow>
   same_operation (at_operation a) (pm_operation pm)
   \<and> live_authority (at_ports a) (at_db a) (at_request a) (at_operation a) pm"
proof (induction as)
  case (Cons b as)
  define q where "q = apply_permit (at_ports b) (at_db b) (at_clock b) (at_request b) (at_owner b) (at_operation b) pm"
  note step = apply_permit_cases [of "at_ports b" "at_db b" "at_clock b" "at_request b" "at_owner b" "at_operation b" pm, folded q_def]
  from Cons.prems(1) consider "a = b" "r = q" | "(a, r) \<in> set (attempts as (ap_permit q))"
    by (auto simp: Let_def q_def)
  then show ?case
  proof cases
    case 1
    with step Cons.prems(2) show ?thesis by auto
  next
    case 2
    with Cons.prems(2) used_permit_is_dead [of "ap_permit q" a r as] have "\<not> ap_called q" using step by blast
    with step have "ap_permit q = pm" by blast
    with 2 Cons show ?thesis by simp
  qed
qed simp

lemma attempts_recorded:
  "(a, r) \<in> set (attempts as pm) \<Longrightarrow> ap_outcome r = Inr d \<Longrightarrow>
   ap_called r \<and> (\<exists>c. at_owner a (at_operation a) = Inr c \<and> same_operation c (at_operation a))"
proof (induction as arbitrary: pm)
  case (Cons b as)
  define q where "q = apply_permit (at_ports b) (at_db b) (at_clock b) (at_request b) (at_owner b) (at_operation b) pm"
  note step = apply_permit_cases [of "at_ports b" "at_db b" "at_clock b" "at_request b" "at_owner b" "at_operation b" pm, folded q_def]
  from Cons.prems(1) consider "a = b" "r = q" | "(a, r) \<in> set (attempts as (ap_permit q))"
    by (auto simp: Let_def q_def)
  then show ?case using step Cons by cases auto
qed simp

lemma attempts_once: "length (filter (\<lambda>(a, r). ap_called r) (attempts as pm)) \<le> 1"
proof (induction as arbitrary: pm)
  case (Cons b as)
  define q where "q = apply_permit (at_ports b) (at_db b) (at_clock b) (at_request b) (at_owner b) (at_operation b) pm"
  note step = apply_permit_cases [of "at_ports b" "at_db b" "at_clock b" "at_request b" "at_owner b" "at_operation b" pm, folded q_def]
  show ?case
  proof (cases "ap_called q")
    case False
    with Cons show ?thesis by (simp add: Let_def q_def)
  next
    case True
    with step have "pm_used (ap_permit q)" by blast
    then have "filter (\<lambda>(a, r). ap_called r) (attempts as (ap_permit q)) = []"
      using used_permit_is_dead by (auto simp: filter_empty_conv)
    then show ?thesis by (simp add: Let_def q_def)
  qed
qed simp

section \<open>Properties\<close>


text \<open>
  Whatever attempts are made with a permit, whatever the authority is at each of them and whatever the
  owner's callback does, the callback runs at most once; it runs only for the operation the permit was
  issued for, under authority that is live at that attempt, and a decision is recorded only if the owner
  committed exactly that operation.
\<close>

theorem permit_is_used_once:
  "length (filter (\<lambda>(a, r). ap_called r) (attempts as pm)) \<le> 1
   \<and> (\<forall>(a, r) \<in> set (attempts as pm).
        (ap_called r \<longrightarrow> same_operation (at_operation a) (pm_operation pm)
           \<and> live_authority (at_ports a) (at_db a) (at_request a) (at_operation a) pm)
        \<and> (\<forall>d. ap_outcome r = Inr d \<longrightarrow> ap_called r
             \<and> (\<exists>c. at_owner a (at_operation a) = Inr c \<and> same_operation c (at_operation a))))"
  using attempts_once [of as pm] attempts_called [of _ _ as pm] attempts_recorded [of _ _ as pm] by blast

text \<open>
  The service never builds an inconsistent evidence: for every decision it begins, in whatever mode,
  with whatever reason and references it ends, and for every support access, the constructor's check of
  the principal's type, of the locator's tenant and of the allowed flag passes.
\<close>

theorem evidence_is_consistent:
  "(begin_decision po db clock req action loc cb before = Inr b \<longrightarrow>
      (\<exists>ev. make_evidence (request_tenant req) (bg_principal b) (bg_at b) mode action
              (Some (decided_locator b loc)) reason refs = Inr ev))
   \<and> (trusted_principal po req = Inr prin \<longrightarrow>
      (\<exists>ev. make_evidence (request_tenant req) prin t mode action None reason refs = Inr ev))"
proof -
  have support: "\<exists>ev. make_evidence (request_tenant req) prin t mode action None reason refs = Inr ev"
    if "trusted_principal po req = Inr prin" for prin t
    using trusted_principal_Inr [OF that] by (auto simp: make_evidence_def evidence_ok_def bound_request_def)
  have "\<exists>ev. make_evidence (request_tenant req) (bg_principal b) (bg_at b) mode action (Some (decided_locator b loc)) reason refs = Inr ev"
    if b: "begin_decision po db clock req action loc cb before = Inr b"
  proof -
    note facts = begin_decision_Inr [OF b]
    then have "lo_tenant (decided_locator b loc) = lo_tenant loc"
      by (auto simp: decided_locator_def facts_locator_def dest!: read_owner_facts_Inr split: option.splits)
    moreover have "request_tenant req = lo_tenant loc"
      using facts by (auto simp: bound_request_def request_tenant_def)
    ultimately show ?thesis using facts by (auto simp: make_evidence_def evidence_ok_def bound_request_def)
  qed
  with support show ?thesis by blast
qed

section \<open>A sample tenant\<close>

definition sample_request :: request_context where
  "sample_request = \<lparr>correlation_id = ''c'', trace_id = ''t'', tenant = Some (tenant_context_of 1 7 42)\<rparr>"

definition sample_locator :: locator where
  "sample_locator = \<lparr>lo_namespace = ''sales.order'', lo_version = ''1'', lo_record = 5, lo_tenant = 7\<rparr>"

definition sample_amount :: "int \<Rightarrow> decimal" where
  "sample_amount n = Finite False (nat n) 0"

definition sample_operation :: operation_facts where
  "sample_operation = \<lparr>op_action = ''order.approve'', op_amount = Some (sample_amount 90), op_currency = Some ''EUR'',
     op_quantity = None, op_target_state = None, op_attributes = []\<rparr>"

definition sample_answer :: owner_answer where
  "sample_answer = \<lparr>oa_tenant = 7, oa_namespace = ''sales.order'', oa_record = 5, oa_owner = ''sales'', oa_version = ''1'',
     oa_lifecycle = ''current'',
     oa_facts = [(''attributes'', VMap [(''region'', VStr ''eu'')]),
       (''normalized_operation'', VMap [(''action'', VStr ''order.approve''), (''amount'', VDecimal (sample_amount 90)),
          (''currency'', VStr ''EUR'')])]\<rparr>"

definition sample_ports :: policy_ports where
  "sample_ports = \<lparr>po_owner = (\<lambda>ns v. Inr (ns, ''sales'')), po_assert_owner = (\<lambda>l. Inr ()),
     po_facts = (\<lambda>l action. Inr sample_answer), po_classification = (\<lambda>ten r. Inl (NotFoundError r)),
     po_acquire = (\<lambda>ten. Inr ()), po_actions = [(''order.approve'', (''sales.order'', ''1''))],
     po_binding = \<lparr>ab_same_request = True, ab_tenant = 7, ab_principal = 42, ab_type = ''user''\<rparr>,
     po_parse = (\<lambda>s. if s = ''eu'' then Some [\<lparr>cn_attribute = ''region'', cn_operator = EQ, cn_value = VStr ''eu''\<rparr>] else None)\<rparr>"

text \<open>The role is delegated by another user and the permission is its parent's.\<close>

definition sample_db :: policy_db where
  "sample_db = \<lparr>
     db_memberships = [\<lparr>mb_id = 1, mb_tenant = 7, mb_principal = 42, mb_type = ''user'', mb_status = ACTIVE_MEMBER, mb_from = None, mb_until = None\<rparr>,
       \<lparr>mb_id = 2, mb_tenant = 7, mb_principal = 43, mb_type = ''user'', mb_status = ACTIVE_MEMBER, mb_from = None, mb_until = Some 1000\<rparr>],
     db_roles = [\<lparr>ro_id = 10, ro_tenant = 7, ro_code = ''approver'', ro_name = ''Approver'', ro_parent = Some 11\<rparr>],
     db_permissions = [\<lparr>rp_id = 20, rp_tenant = 7, rp_role = 11, rp_permission = ''order.approve''\<rparr>],
     db_assignments = [\<lparr>ra_id = 30, ra_tenant = 7, ra_subject = 43, ra_subject_type = Some ''user'', ra_role = 10,
       ra_scope = (TENANT, None), ra_from = None, ra_to = None\<rparr>],
     db_delegations = [\<lparr>dg_id = 40, dg_tenant = 7, dg_delegator = 43, dg_delegator_type = Some ''user'', dg_delegatee = 42,
       dg_delegatee_type = Some ''user'', dg_role = 10, dg_scope = (TENANT, None), dg_from = Moment True 0, dg_to = Moment True 500,
       dg_revoked = False\<rparr>],
     db_record_policies = [\<lparr>rc_id = 50, rc_tenant = 7, rc_resource = ''sales.order'', rc_role = Some 10, rc_access = ALL_RECORDS,
       rc_condition = Some ''eu''\<rparr>],
     db_field_policies = [],
     db_limits = [\<lparr>al_id = 60, al_tenant = 7, al_action = ''order.approve'', al_currency = ''EUR'', al_amount = sample_amount 100,
       al_role = Some 11, al_subject = None, al_from = None, al_to = None\<rparr>],
     db_support = []\<rparr>"

definition sample_evidence :: evidence where
  "sample_evidence = \<lparr>ev_tenant = 7, ev_principal = (''user'', 42), ev_at = 100, ev_mode = Approval, ev_action = ''order.approve'',
     ev_locator = Some sample_locator, ev_allowed = True, ev_reason = ALLOWED, ev_policies = [50, 60]\<rparr>"

definition sample_permit :: permit where
  "sample_permit = \<lparr>pm_used = False, pm_locator = sample_locator, pm_operation = sample_operation, pm_evidence = sample_evidence\<rparr>"

lemma sample_commit:
  "commit_decision sample_ports sample_db (\<lambda>n. 100) sample_request sample_operation sample_locator Approval
     = Inr (sample_evidence, Some sample_permit)"
  by code_simp


text \<open>The delegator's membership has ended at 1000: the permit issued at 100 is refused, then another attempt at 200 passes, once.\<close>

definition sample_attempt :: "instant \<Rightarrow> attempt" where
  "sample_attempt t = \<lparr>at_ports = sample_ports, at_db = sample_db, at_clock = (\<lambda>n. t), at_request = sample_request,
     at_owner = (\<lambda>op. Inr op), at_operation = sample_operation\<rparr>"

lemma sample_attempts:
  "map (\<lambda>(a, r). (ap_called r, ap_outcome r = Inl (operation_mismatch ''Operation authority is invalid'')))
     (attempts [sample_attempt 1000, sample_attempt 200, sample_attempt 300] sample_permit)
     = [(False, False), (True, False), (False, True)]"
  by code_simp

theorem permit_is_used_once_witness:
  "length (filter (\<lambda>(a, r). ap_called r) (attempts [sample_attempt 1000, sample_attempt 200, sample_attempt 300] sample_permit)) = 1"
proof -
  let ?run = "attempts [sample_attempt 1000, sample_attempt 200, sample_attempt 300] sample_permit"
  have "length (filter (\<lambda>(a, r). ap_called r) ?run) \<le> 1"
    using permit_is_used_once [of "[sample_attempt 1000, sample_attempt 200, sample_attempt 300]" sample_permit] by (rule conjunct1)
  moreover have "filter (\<lambda>(a, r). ap_called r) ?run \<noteq> []"
  proof
    assume none: "filter (\<lambda>(a, r). ap_called r) ?run = []"
    have "filter fst (map (\<lambda>(a, r). (ap_called r, ap_outcome r = Inl (operation_mismatch ''Operation authority is invalid''))) ?run)
      = map (\<lambda>(a, r). (ap_called r, ap_outcome r = Inl (operation_mismatch ''Operation authority is invalid'')))
          (filter (\<lambda>(a, r). ap_called r) ?run)"
      by (simp only: filter_map o_def case_prod_unfold fst_conv)
    with none sample_attempts show False by simp
  qed
  ultimately show ?thesis by (cases "filter (\<lambda>(a, r). ap_called r) ?run") auto
qed

lemma sample_begun:
  "case begin_decision sample_ports sample_db (\<lambda>n. 100) sample_request ''order.approve'' sample_locator True None of
     Inl e \<Rightarrow> False | Inr b \<Rightarrow> bg_reason b = ALLOWED"
  by code_simp

theorem evidence_is_consistent_witness:
  "\<exists>b ev. begin_decision sample_ports sample_db (\<lambda>n. 100) sample_request ''order.approve'' sample_locator True None = Inr b
     \<and> make_evidence (request_tenant sample_request) (bg_principal b) (bg_at b) Mutation ''order.approve''
         (Some (decided_locator b sample_locator)) RECORD_DENIED [] = Inr ev"
proof -
  from sample_begun obtain b where
    b: "begin_decision sample_ports sample_db (\<lambda>n. 100) sample_request ''order.approve'' sample_locator True None = Inr b"
    by (auto split: sum.splits)
  from evidence_is_consistent [of sample_ports sample_db "\<lambda>n. 100" sample_request "''order.approve''" sample_locator True None b
      Mutation RECORD_DENIED "[]" "(''user'', 42)" 0] b
  show ?thesis by blast
qed

end
