(* ===== verification/Policy_Store.thy ===== *)
theory Policy_Store
  imports Policy_Laws Tables
begin

text \<open>
  The commands of the policy module (\<open>foundations/policy\<close>, \<open>module.py\<close>) over its tables. A command carries the
  row it proposes, its fresh ID included; names, descriptions, reasons and creation instants, which no
  decision reads, are left out. \<open>Numeric(18, 4)\<close> is the database's and a parameter, as are the clock and
  the rows of the identity foundation. A handler's answer is nothing when a graph search does not return.
\<close>

section \<open>State\<close>

record catalog_entry =
  ce_code :: string
  ce_name :: string
  ce_category :: string

record policy_store = policy_db +
  ps_catalog :: "catalog_entry list"
  ps_rules :: "sod_rule list"

datatype policy_event =
    RoleCreated uuid uuid
  | PermissionAssignedToRole uuid uuid string
  | RoleAssignedToSubject uuid uuid uuid
  | DelegationGranted uuid uuid
  | DelegationRevoked uuid uuid
  | SupportAccessGranted uuid uuid
  | SupportAccessRevoked uuid uuid

type_synonym amount_column = "decimal \<Rightarrow> exn + decimal"
type_synonym handled = "exn + policy_store \<times> policy_event list"

definition tables_of :: "policy_store \<Rightarrow> policy_tables" where
  "tables_of st = \<lparr>pt_roles = db_roles st, pt_permissions = db_permissions st, pt_assignments = db_assignments st,
     pt_delegations = db_delegations st, pt_rules = ps_rules st\<rparr>"

section \<open>Checks\<close>

definition policy_require_tenant :: "request_context option \<Rightarrow> uuid \<Rightarrow> exn + tenant_context" where
  "policy_require_tenant req target =
     (case Option.bind req tenant of
        None \<Rightarrow> Inl (BusinessOSError ''tenant_context_required'' ''Tenant context is required'' 401)
      | Some ten \<Rightarrow>
          if tenant_id ten \<noteq> target
          then Inl (BusinessOSError ''tenant_scope_mismatch'' ''Target tenant does not match active boundary'' 403)
          else Inr ten)"

text \<open>\<open>PolicyDelegationActionAuthority.acquire\<close>: the lock itself is the database's.\<close>

definition acquire_authority :: "uuid \<Rightarrow> exn + unit" where
  "acquire_authority ten = raise_if (ten = 0) (ValueError ''Trusted tenant ID is required'')"

definition invalid_role :: exn where
  "invalid_role = BusinessOSError ''invalid_role'' ''Role does not belong to the tenant'' 422"

definition tenant_role :: "policy_store \<Rightarrow> uuid \<Rightarrow> uuid \<Rightarrow> role option" where
  "tenant_role st ten r = List.find (\<lambda>x. ro_tenant x = ten \<and> ro_id x = r) (db_roles st)"

definition require_role :: "policy_store \<Rightarrow> uuid \<Rightarrow> uuid \<Rightarrow> exn + unit" where
  "require_role st ten r = raise_if (tenant_role st ten r = None) invalid_role"

definition require_role_if :: "policy_store \<Rightarrow> uuid \<Rightarrow> uuid option \<Rightarrow> exn + unit" where
  "require_role_if st ten r = (case r of None \<Rightarrow> Inr () | Some x \<Rightarrow> require_role st ten x)"

function check_parents :: "policy_store \<Rightarrow> uuid \<Rightarrow> uuid list \<Rightarrow> uuid option \<Rightarrow> exn + unit" where
  "check_parents st ten seen current =
     (case current of
        None \<Rightarrow> Inr ()
      | Some c \<Rightarrow>
          if c \<in> set seen \<or> length seen \<ge> 15
          then Inl (unbounded ''Policy role hierarchy is cyclic or too deep'')
          else (case tenant_role st ten c of
              None \<Rightarrow> Inl invalid_role
            | Some r \<Rightarrow> check_parents st ten (c # seen) (ro_parent r)))"
  by pat_completeness auto
termination
  by (relation "measure (\<lambda>(st, ten, seen, current). 15 - length seen)") auto

declare check_parents.simps [simp del]

definition validate_scope :: "authority_scope \<Rightarrow> exn + unit" where
  "validate_scope sc =
     (if fst sc = TENANT \<and> snd sc \<noteq> None
      then Inl (BusinessOSError ''invalid_scope'' ''Tenant scope must not include a scope identifier'' 422)
      else raise_if (fst sc \<noteq> TENANT \<and> snd sc = None)
             (BusinessOSError ''invalid_scope'' ''Organizational scope requires a scope identifier'' 422))"

definition validate_window :: "moment option \<Rightarrow> moment option \<Rightarrow> exn + unit" where
  "validate_window a b =
     raise_if (case (a, b) of (Some x, Some y) \<Rightarrow> moment.at y \<le> moment.at x | _ \<Rightarrow> False)
       (BusinessOSError ''invalid_effective_window'' ''Authority end must be after its start'' 422)"

definition insert_checked :: "('r \<Rightarrow> 'r \<Rightarrow> bool) \<Rightarrow> bool \<Rightarrow> 'r \<Rightarrow> 'r list \<Rightarrow> exn + 'r list" where
  "insert_checked clash references r rows =
     (if \<not> references then Inl (ForeignError ''ForeignKeyViolation'') else insert_row clash (\<lambda>_. True) r rows)"

text \<open>The entry of every command: the tenant boundary, then the tenant's authority lock.\<close>

definition locked_tenant :: "request_context option \<Rightarrow> uuid \<Rightarrow> exn + tenant_context" where
  "locked_tenant req ten =
     bind_res (policy_require_tenant req ten) (\<lambda>tc. bind_res (acquire_authority ten) (\<lambda>_. Inr tc))"

definition checked_change ::
  "policy_store \<Rightarrow> uuid \<Rightarrow> instant \<Rightarrow> bool \<Rightarrow> (sod_authority \<Rightarrow> sod_authority) \<Rightarrow> (exn + unit) option" where
  "checked_change st ten now new_rule change =
     (case load_authority (tables_of st) ten of
        Inl e \<Rightarrow> Some (Inl e)
      | Inr a \<Rightarrow> reject_new_conflicts a (change a) new_rule now)"

text \<open>The handlers go on when the check came back without an error.\<close>

definition after_check :: "(exn + unit) option \<Rightarrow> handled \<Rightarrow> handled option" where
  "after_check check continue =
     (case check of None \<Rightarrow> None | Some (Inl e) \<Rightarrow> Some (Inl e) | Some (Inr _) \<Rightarrow> Some continue)"

section \<open>Handlers\<close>

definition register_permission :: "catalog_entry \<Rightarrow> policy_store \<Rightarrow> handled" where
  "register_permission c st =
     (let others = filter (\<lambda>x. ce_code x \<noteq> ce_code c) (ps_catalog st)
      in Inr (st\<lparr>ps_catalog := others @ [c]\<rparr>, []))"

definition create_role :: "request_context option \<Rightarrow> role \<Rightarrow> policy_store \<Rightarrow> handled" where
  "create_role req r st =
     bind_res (locked_tenant req (ro_tenant r)) (\<lambda>_.
     bind_res (if ro_parent r = None then Inr () else check_parents st (ro_tenant r) [] (ro_parent r)) (\<lambda>_.
     bind_res (load_authority (tables_of st) (ro_tenant r)) (\<lambda>a.
     bind_res (with_role a r) (\<lambda>_.
     bind_res (insert_row (\<lambda>x y. ro_id x = ro_id y \<or> (ro_tenant x = ro_tenant y \<and> ro_code x = ro_code y)) (\<lambda>_. True) r (db_roles st)) (\<lambda>rows.
       Inr (st\<lparr>db_roles := rows\<rparr>, [RoleCreated (ro_tenant r) (ro_id r)]))))))"

definition assign_permission :: "request_context option \<Rightarrow> instant \<Rightarrow> role_permission \<Rightarrow> policy_store \<Rightarrow> handled option" where
  "assign_permission req now p st =
     (case bind_res (locked_tenant req (rp_tenant p)) (\<lambda>_. require_role st (rp_tenant p) (rp_role p)) of
        Inl e \<Rightarrow> Some (Inl e)
      | Inr _ \<Rightarrow>
          after_check (checked_change st (rp_tenant p) now False (\<lambda>a. with_permission a p))
            (bind_res (insert_checked (\<lambda>x y. rp_id x = rp_id y
                 \<or> (rp_tenant x = rp_tenant y \<and> rp_role x = rp_role y \<and> rp_permission x = rp_permission y))
               (rp_permission p \<in> set (map ce_code (ps_catalog st))) p (db_permissions st)) (\<lambda>rows.
             Inr (st\<lparr>db_permissions := rows\<rparr>, [PermissionAssignedToRole (rp_tenant p) (rp_role p) (rp_permission p)]))))"

definition assign_role :: "request_context option \<Rightarrow> instant \<Rightarrow> role_assignment \<Rightarrow> policy_store \<Rightarrow> handled option" where
  "assign_role req now r st =
     (case bind_res (locked_tenant req (ra_tenant r)) (\<lambda>_.
           bind_res (require_role st (ra_tenant r) (ra_role r)) (\<lambda>_.
           bind_res (validate_scope (ra_scope r)) (\<lambda>_. validate_window (ra_from r) (ra_to r)))) of
        Inl e \<Rightarrow> Some (Inl e)
      | Inr _ \<Rightarrow>
          after_check (checked_change st (ra_tenant r) now False (\<lambda>a. with_assignment a r))
            (bind_res (insert_row (\<lambda>x y. ra_id x = ra_id y)
               (\<lambda>x. case ra_subject_type x of None \<Rightarrow> True | Some ty \<Rightarrow> ty \<in> set subject_types) r (db_assignments st)) (\<lambda>rows.
             Inr (st\<lparr>db_assignments := rows\<rparr>, [RoleAssignedToSubject (ra_tenant r) (ra_subject r) (ra_role r)]))))"

definition set_field_policy :: "request_context option \<Rightarrow> field_policy \<Rightarrow> policy_store \<Rightarrow> handled" where
  "set_field_policy req p st =
     bind_res (locked_tenant req (fp_tenant p)) (\<lambda>_.
     bind_res (require_role_if st (fp_tenant p) (fp_role p)) (\<lambda>_.
     bind_res (insert_row (\<lambda>x y. fp_id x = fp_id y) (\<lambda>_. True) p (db_field_policies st)) (\<lambda>rows.
       Inr (st\<lparr>db_field_policies := rows\<rparr>, []))))"

definition set_record_policy :: "request_context option \<Rightarrow> record_policy \<Rightarrow> policy_store \<Rightarrow> handled" where
  "set_record_policy req p st =
     bind_res (locked_tenant req (rc_tenant p)) (\<lambda>_.
     bind_res (require_role_if st (rc_tenant p) (rc_role p)) (\<lambda>_.
     bind_res (insert_row (\<lambda>x y. rc_id x = rc_id y) (\<lambda>_. True) p (db_record_policies st)) (\<lambda>rows.
       Inr (st\<lparr>db_record_policies := rows\<rparr>, []))))"

definition set_approval_limit :: "amount_column \<Rightarrow> request_context option \<Rightarrow> approval_limit \<Rightarrow> policy_store \<Rightarrow> handled" where
  "set_approval_limit column req l st =
     bind_res (locked_tenant req (al_tenant l)) (\<lambda>_.
     bind_res (require_role_if st (al_tenant l) (al_role l)) (\<lambda>_.
     bind_res (validate_window (al_from l) (al_to l)) (\<lambda>_.
     bind_res (column (al_amount l)) (\<lambda>amount.
     bind_res (insert_row (\<lambda>x y. al_id x = al_id y) (\<lambda>_. True)
                 (l\<lparr>al_currency := upper (al_currency l), al_amount := amount\<rparr>) (db_limits st)) (\<lambda>rows.
       Inr (st\<lparr>db_limits := rows\<rparr>, []))))))"

definition create_sod_rule :: "request_context option \<Rightarrow> instant \<Rightarrow> sod_rule \<Rightarrow> policy_store \<Rightarrow> handled option" where
  "create_sod_rule req now r st =
     (let write = bind_res (insert_row (\<lambda>x y. sr_tenant x = sr_tenant y \<and> sr_code x = sr_code y) (\<lambda>_. True) r (ps_rules st))
                    (\<lambda>rows. Inr (st\<lparr>ps_rules := rows\<rparr>, []))
      in case policy_require_tenant req (sr_tenant r) of
           Inl e \<Rightarrow> Some (Inl e)
         | Inr _ \<Rightarrow>
             if sr_severity r \<noteq> PREVENTATIVE then Some write
             else (case acquire_authority (sr_tenant r) of
                 Inl e \<Rightarrow> Some (Inl e)
               | Inr _ \<Rightarrow> after_check (checked_change st (sr_tenant r) now True (\<lambda>a. with_rule a r)) write))"

definition missing_authority :: "string \<Rightarrow> exn" where
  "missing_authority m = BusinessOSError ''delegation_authority_missing'' m 403"

definition delegation_checks :: "request_context option \<Rightarrow> delegation_grant \<Rightarrow> policy_store \<Rightarrow> exn + unit" where
  "delegation_checks req g st =
     bind_res (locked_tenant req (dg_tenant g)) (\<lambda>_.
     bind_res (raise_if (dg_delegator g = dg_delegatee g)
                 (BusinessOSError ''invalid_delegation'' ''Delegator and delegatee must differ'' 422)) (\<lambda>_.
     bind_res (require_role st (dg_tenant g) (dg_role g)) (\<lambda>_.
     bind_res (validate_scope (dg_scope g)) (\<lambda>_.
     bind_res (validate_window (Some (dg_from g)) (Some (dg_to g))) (\<lambda>_.
       raise_if (\<not> known_type (dg_delegator_type g) \<or> \<not> known_type (dg_delegatee_type g)
                 \<or> \<not> zoned (dg_from g) \<or> \<not> zoned (dg_to g))
         (missing_authority ''Delegation requires verified typed and timezone-aware authority''))))))"

definition delegation_view :: "sod_authority \<Rightarrow> delegation_grant \<Rightarrow> instant \<Rightarrow> authority_view" where
  "delegation_view a g now = \<lparr>av_tenant = dg_tenant g, av_role = dg_role g, av_instant = now,
     av_assignments = sa_assignments a, av_delegations = sa_delegations a\<rparr>"

definition create_delegation :: "request_context option \<Rightarrow> instant \<Rightarrow> delegation_grant \<Rightarrow> policy_store \<Rightarrow> handled option" where
  "create_delegation req now g0 st =
     (let g = g0\<lparr>dg_revoked := False\<rparr> in
      case bind_res (delegation_checks req g st) (\<lambda>_. load_authority (tables_of st) (dg_tenant g)) of
        Inl e \<Rightarrow> Some (Inl e)
      | Inr a \<Rightarrow>
          (case role_source (delegation_view a g now) (delegator_of g) (dg_scope g) (window_of g) [] (Some max_source_traversals) of
             Inl e \<Rightarrow> Some (Inl e)
           | Inr (False, _) \<Rightarrow>
               Some (Inl (missing_authority ''Delegator lacks effective role authority for scope and period''))
           | Inr (True, _) \<Rightarrow>
               after_check (reject_new_conflicts a (with_delegation a g) False now)
                 (bind_res (insert_row (\<lambda>x y. dg_id x = dg_id y) (\<lambda>_. True) g (db_delegations st)) (\<lambda>rows.
                    Inr (st\<lparr>db_delegations := rows\<rparr>, [DelegationGranted (dg_tenant g) (dg_id g)])))))"

definition revoke_delegation :: "request_context option \<Rightarrow> uuid \<Rightarrow> uuid \<Rightarrow> policy_store \<Rightarrow> handled" where
  "revoke_delegation req ten i st =
     bind_res (locked_tenant req ten) (\<lambda>_.
       if list_ex (\<lambda>g. dg_id g = i \<and> dg_tenant g = ten) (db_delegations st)
       then Inr (st\<lparr>db_delegations := map (\<lambda>g. if dg_id g = i \<and> dg_tenant g = ten then g\<lparr>dg_revoked := True\<rparr> else g) (db_delegations st)\<rparr>,
                 [DelegationRevoked ten i])
       else Inl (BusinessOSError ''not_found'' ''Delegation grant not found'' 404))"

definition grant_support_access ::
  "authenticated_binding \<Rightarrow> (nat \<Rightarrow> instant) \<Rightarrow> request_context option \<Rightarrow> uuid \<Rightarrow> uuid \<Rightarrow> subject \<Rightarrow> moment \<Rightarrow> policy_store \<Rightarrow> handled" where
  "grant_support_access b clock req ten i supporter until st =
     bind_res (locked_tenant req ten) (\<lambda>tc.
     bind_res (raise_if (\<not> ab_same_request b \<or> ab_tenant b \<noteq> ten \<or> ab_principal b \<noteq> principal_id tc \<or> ab_type b \<notin> set subject_types)
                 (BusinessOSError ''principal_mismatch'' ''Trusted typed approver required'' 403)) (\<lambda>_.
     bind_res (lock_current (db_memberships st) ten (ab_type b, ab_principal b) (clock 0)) (\<lambda>_.
     bind_res (lock_current (db_memberships st) ten supporter (clock 1)) (\<lambda>_.
     bind_res (raise_if (moment.at until \<le> clock 2)
                 (BusinessOSError ''invalid_effective_window'' ''Support access must expire in the future'' 422)) (\<lambda>_.
     bind_res (insert_row (\<lambda>x y. sg_id x = sg_id y) (\<lambda>_. True)
         \<lparr>sg_id = i, sg_tenant = ten, sg_principal = snd supporter, sg_type = Some (fst supporter),
          sg_approved_by = principal_id tc, sg_approved_by_type = Some (ab_type b), sg_from = Moment True (clock 2),
          sg_to = until, sg_revoked_at = None\<rparr> (db_support st)) (\<lambda>rows.
       Inr (st\<lparr>db_support := rows\<rparr>, [SupportAccessGranted ten i])))))))"

definition revoke_support_access :: "request_context option \<Rightarrow> instant \<Rightarrow> uuid \<Rightarrow> uuid \<Rightarrow> policy_store \<Rightarrow> handled" where
  "revoke_support_access req now ten i st =
     bind_res (locked_tenant req ten) (\<lambda>_.
       let hit = (\<lambda>g. sg_id g = i \<and> sg_tenant g = ten \<and> sg_revoked_at g = None) in
       if list_ex hit (db_support st)
       then Inr (st\<lparr>db_support := map (\<lambda>g. if hit g then g\<lparr>sg_revoked_at := Some (Moment True now)\<rparr> else g) (db_support st)\<rparr>,
                 [SupportAccessRevoked ten i])
       else Inl (BusinessOSError ''not_found'' ''Active support grant not found'' 404))"

section \<open>Histories\<close>

datatype policy_command =
    Register_Permission catalog_entry
  | Create_Role role
  | Assign_Permission role_permission
  | Assign_Role role_assignment
  | Set_Field_Policy field_policy
  | Set_Record_Policy record_policy
  | Set_Approval_Limit approval_limit
  | Create_SoD_Rule sod_rule
  | Create_Delegation delegation_grant
  | Revoke_Delegation uuid uuid
  | Grant_Support_Access uuid uuid subject moment
  | Revoke_Support_Access uuid uuid

record policy_call =
  pc_request :: "request_context option"
  pc_binding :: authenticated_binding
  pc_clock :: "nat \<Rightarrow> instant"
  pc_command :: policy_command

definition handle_policy :: "amount_column \<Rightarrow> policy_call \<Rightarrow> policy_store \<Rightarrow> handled option" where
  "handle_policy column c st =
     (let req = pc_request c; now = pc_clock c 0 in
      case pc_command c of
        Register_Permission x \<Rightarrow> Some (register_permission x st)
      | Create_Role r \<Rightarrow> Some (create_role req r st)
      | Assign_Permission p \<Rightarrow> assign_permission req now p st
      | Assign_Role r \<Rightarrow> assign_role req now r st
      | Set_Field_Policy p \<Rightarrow> Some (set_field_policy req p st)
      | Set_Record_Policy p \<Rightarrow> Some (set_record_policy req p st)
      | Set_Approval_Limit l \<Rightarrow> Some (set_approval_limit column req l st)
      | Create_SoD_Rule r \<Rightarrow> create_sod_rule req now r st
      | Create_Delegation g \<Rightarrow> create_delegation req now g st
      | Revoke_Delegation ten i \<Rightarrow> Some (revoke_delegation req ten i st)
      | Grant_Support_Access ten i s m \<Rightarrow> Some (grant_support_access (pc_binding c) (pc_clock c) req ten i s m st)
      | Revoke_Support_Access ten i \<Rightarrow> Some (revoke_support_access req now ten i st))"

text \<open>A history of the store: commands that succeed, and the identity foundation's own changes.\<close>

inductive policy_step :: "amount_column \<Rightarrow> policy_store \<Rightarrow> policy_store \<Rightarrow> bool" for column where
  command: "handle_policy column c st = Some (Inr (st', events)) \<Longrightarrow> policy_step column st st'"
| members: "policy_step column st (st\<lparr>db_memberships := ms\<rparr>)"

inductive reachable_store :: "amount_column \<Rightarrow> policy_store \<Rightarrow> bool" for column where
  empty: "reachable_store column \<lparr>db_memberships = ms, db_roles = [], db_permissions = [], db_assignments = [],
     db_delegations = [], db_record_policies = [], db_field_policies = [], db_limits = [], db_support = [],
     ps_catalog = [], ps_rules = []\<rparr>"
| step: "reachable_store column st \<Longrightarrow> policy_step column st st' \<Longrightarrow> reachable_store column st'"

section \<open>What the tables always satisfy\<close>

definition tenant_has_role :: "policy_store \<Rightarrow> uuid \<Rightarrow> uuid \<Rightarrow> bool" where
  "tenant_has_role st ten r \<longleftrightarrow> (\<exists>x \<in> set (db_roles st). ro_tenant x = ten \<and> ro_id x = r)"

definition scope_ok :: "authority_scope \<Rightarrow> bool" where
  "scope_ok sc \<longleftrightarrow> (fst sc = TENANT) = (snd sc = None)"

definition window_ok :: "moment option \<Rightarrow> moment option \<Rightarrow> bool" where
  "window_ok a b \<longleftrightarrow> (case (a, b) of (Some x, Some y) \<Rightarrow> moment.at x < moment.at y | _ \<Rightarrow> True)"

definition roles_ok :: "policy_store \<Rightarrow> bool" where
  "roles_ok st \<longleftrightarrow> distinct (map ro_id (db_roles st))
     \<and> (\<forall>r \<in> set (db_roles st).
          check_ancestry (filter (\<lambda>x. ro_tenant x = ro_tenant r) (db_roles st)) [] (Some (ro_id r)) = Inr ())"

definition grant_ok :: "policy_store \<Rightarrow> delegation_grant \<Rightarrow> bool" where
  "grant_ok st g \<longleftrightarrow> tenant_has_role st (dg_tenant g) (dg_role g) \<and> scope_ok (dg_scope g)
     \<and> window_ok (Some (dg_from g)) (Some (dg_to g)) \<and> zoned (dg_from g) \<and> zoned (dg_to g)
     \<and> dg_delegator g \<noteq> dg_delegatee g \<and> known_type (dg_delegator_type g) \<and> known_type (dg_delegatee_type g)"

definition assignment_ok :: "policy_store \<Rightarrow> role_assignment \<Rightarrow> bool" where
  "assignment_ok st a \<longleftrightarrow> tenant_has_role st (ra_tenant a) (ra_role a) \<and> scope_ok (ra_scope a) \<and> window_ok (ra_from a) (ra_to a)"

definition optional_role_ok :: "policy_store \<Rightarrow> uuid \<Rightarrow> uuid option \<Rightarrow> bool" where
  "optional_role_ok st ten r \<longleftrightarrow> (case r of None \<Rightarrow> True | Some x \<Rightarrow> tenant_has_role st ten x)"

definition store_ok :: "policy_store \<Rightarrow> bool" where
  "store_ok st \<longleftrightarrow> roles_ok st
     \<and> (\<forall>p \<in> set (db_permissions st). tenant_has_role st (rp_tenant p) (rp_role p))
     \<and> (\<forall>a \<in> set (db_assignments st). assignment_ok st a)
     \<and> (\<forall>g \<in> set (db_delegations st). grant_ok st g)
     \<and> (\<forall>p \<in> set (db_record_policies st). optional_role_ok st (rc_tenant p) (rc_role p))
     \<and> (\<forall>p \<in> set (db_field_policies st). optional_role_ok st (fp_tenant p) (fp_role p))
     \<and> (\<forall>l \<in> set (db_limits st). optional_role_ok st (al_tenant l) (al_role l) \<and> window_ok (al_from l) (al_to l))"

lemma require_role_Inr: "require_role st ten r = Inr u \<longleftrightarrow> tenant_has_role st ten r"
  by (auto simp: require_role_def tenant_role_def tenant_has_role_def find_None_iff)

lemma require_role_if_Inr: "require_role_if st ten r = Inr u \<longleftrightarrow> optional_role_ok st ten r"
  by (auto simp: require_role_if_def optional_role_ok_def require_role_Inr split: option.splits)

lemma validate_scope_Inr: "validate_scope sc = Inr u \<longleftrightarrow> scope_ok sc"
  by (auto simp: validate_scope_def scope_ok_def)

lemma validate_window_Inr: "validate_window a b = Inr u \<longleftrightarrow> window_ok a b"
  by (auto simp: validate_window_def window_ok_def not_le split: option.splits)

lemmas policy_checks = require_role_Inr require_role_if_Inr validate_scope_Inr validate_window_Inr

lemma after_check_Inr: "after_check m k = Some (Inr x) \<longleftrightarrow> (\<exists>u. m = Some (Inr u)) \<and> k = Inr x"
  by (auto simp: after_check_def split: option.splits sum.splits)

lemma tenant_has_role_cong: "db_roles st' = db_roles st \<Longrightarrow> tenant_has_role st' = tenant_has_role st"
  by (auto simp: tenant_has_role_def fun_eq_iff)

lemma store_ok_cong:
  assumes "db_roles st' = db_roles st"
  shows "roles_ok st' = roles_ok st" "assignment_ok st' = assignment_ok st" "grant_ok st' = grant_ok st"
    "optional_role_ok st' = optional_role_ok st"
  using tenant_has_role_cong [OF assms] assms
  by (auto simp: roles_ok_def assignment_ok_def grant_ok_def optional_role_ok_def fun_eq_iff split: option.splits)

lemma tenant_has_role_grows:
  "set (db_roles st) \<subseteq> set (db_roles st') \<Longrightarrow> tenant_has_role st ten r \<Longrightarrow> tenant_has_role st' ten r"
  by (auto simp: tenant_has_role_def)

lemma rows_ok_grows:
  assumes "set (db_roles st) \<subseteq> set (db_roles st')"
  shows "assignment_ok st a \<Longrightarrow> assignment_ok st' a" "grant_ok st g \<Longrightarrow> grant_ok st' g"
    "optional_role_ok st ten r \<Longrightarrow> optional_role_ok st' ten r"
  using tenant_has_role_grows [OF assms]
  by (auto simp: assignment_ok_def grant_ok_def optional_role_ok_def split: option.splits)

lemma load_rows_all: "load_rows what p table = Inr rows \<Longrightarrow> rows = filter p table"
  by (auto simp: load_rows_def Let_def split: if_splits)

lemma load_authority_Inr:
  "load_authority tb ten = Inr a \<Longrightarrow>
   sa_roles a = filter (\<lambda>r. ro_tenant r = ten) (pt_roles tb) \<and> validate_shape a = Inr ()"
  by (auto simp: load_authority_def Let_def dest: load_rows_all split: sum.splits)

lemma validate_shape_ancestry:
  "validate_shape a = Inr u \<Longrightarrow> r \<in> set (sa_roles a) \<Longrightarrow> check_ancestry (sa_roles a) [] (Some (ro_id r)) = Inr ()"
  by (auto simp: validate_shape_def split: if_splits)

lemma create_role_ok:
  assumes "create_role req r st = Inr (st', es)" and "store_ok st"
  shows "store_ok st'"
proof -
  from assms(1) obtain a a' rows where a: "load_authority (tables_of st) (ro_tenant r) = Inr a" "with_role a r = Inr a'"
    and ins: "insert_row (\<lambda>x y. ro_id x = ro_id y \<or> (ro_tenant x = ro_tenant y \<and> ro_code x = ro_code y)) (\<lambda>_. True) r (db_roles st) = Inr rows"
    and res: "Inr (st\<lparr>db_roles := rows\<rparr>, [RoleCreated (ro_tenant r) (ro_id r)]) = (Inr (st', es) :: handled)"
    unfolding create_role_def bind_res_Inr by blast
  from ins res have fresh: "\<forall>x \<in> set (db_roles st). ro_id r \<noteq> ro_id x" and st': "st' = st\<lparr>db_roles := db_roles st @ [r]\<rparr>"
    by auto
  have rows: "sa_roles a @ [r] = filter (\<lambda>x. ro_tenant x = ro_tenant r) (db_roles st')"
    using load_authority_Inr [OF a(1)] by (simp add: st' tables_of_def)
  have shape: "validate_shape (a\<lparr>sa_roles := sa_roles a @ [r]\<rparr>) = Inr ()"
    using a(2) by (auto simp: with_role_def Let_def split: sum.splits)
  have "check_ancestry (filter (\<lambda>y. ro_tenant y = ro_tenant x) (db_roles st')) [] (Some (ro_id x)) = Inr ()"
    if x: "x \<in> set (db_roles st')" for x
  proof (cases "ro_tenant x = ro_tenant r")
    case True
    then have "x \<in> set (sa_roles a @ [r])" using x rows by (metis (mono_tags, lifting) filter_set mem_Collect_eq set_filter)
    with validate_shape_ancestry [OF shape, of x] True show ?thesis by (simp add: rows [symmetric])
  next
    case False
    with x have "x \<in> set (db_roles st)" by (auto simp: st')
    with assms(2) False show ?thesis by (auto simp: store_ok_def roles_ok_def st')
  qed
  with fresh assms(2) have "roles_ok st'" by (auto simp: roles_ok_def store_ok_def st')
  moreover have grows: "set (db_roles st) \<subseteq> set (db_roles st')" by (auto simp: st')
  ultimately show ?thesis
    using assms(2) rows_ok_grows [OF grows] tenant_has_role_grows [OF grows] by (auto simp: store_ok_def st')
qed

text \<open>The other commands leave the roles alone and add one checked row, or change no checked column.\<close>

lemma store_ok_rows:
  assumes "store_ok st" and "db_roles st' = db_roles st"
    and "\<forall>p \<in> set (db_permissions st') - set (db_permissions st). tenant_has_role st (rp_tenant p) (rp_role p)"
    and "\<forall>a \<in> set (db_assignments st') - set (db_assignments st). assignment_ok st a"
    and "\<forall>g \<in> set (db_delegations st') - set (db_delegations st). grant_ok st g"
    and "\<forall>p \<in> set (db_record_policies st') - set (db_record_policies st). optional_role_ok st (rc_tenant p) (rc_role p)"
    and "\<forall>p \<in> set (db_field_policies st') - set (db_field_policies st). optional_role_ok st (fp_tenant p) (fp_role p)"
    and "\<forall>l \<in> set (db_limits st') - set (db_limits st).
           optional_role_ok st (al_tenant l) (al_role l) \<and> window_ok (al_from l) (al_to l)"
  shows "store_ok st'"
  using assms unfolding store_ok_def store_ok_cong [OF assms(2)] tenant_has_role_cong [OF assms(2)] by blast

lemma checked_change_store: "checked_change st ten now n f = Some (Inr u) \<Longrightarrow> \<exists>a. load_authority (tables_of st) ten = Inr a"
  by (auto simp: checked_change_def split: sum.splits)

lemma insert_checked_Inr: "insert_checked clash refs r rows = Inr rows' \<Longrightarrow> rows' = rows @ [r]"
  by (auto simp: insert_checked_def split: if_splits)

lemma simple_commands_ok:
  assumes "store_ok st"
  shows "register_permission c st = Inr (st', es) \<Longrightarrow> store_ok st'"
    and "set_field_policy req p1 st = Inr (st', es) \<Longrightarrow> store_ok st'"
    and "set_record_policy req p2 st = Inr (st', es) \<Longrightarrow> store_ok st'"
    and "set_approval_limit column req l st = Inr (st', es) \<Longrightarrow> store_ok st'"
    and "grant_support_access b clock req ten i s m st = Inr (st', es) \<Longrightarrow> store_ok st'"
    and "revoke_support_access req now ten i st = Inr (st', es) \<Longrightarrow> store_ok st'"
  subgoal by (rule store_ok_rows [OF assms]) (auto simp: register_permission_def)
  subgoal by (rule store_ok_rows [OF assms]) (auto simp: set_field_policy_def bind_res_Inr policy_checks)
  subgoal by (rule store_ok_rows [OF assms]) (auto simp: set_record_policy_def bind_res_Inr policy_checks)
  subgoal by (rule store_ok_rows [OF assms]) (auto simp: set_approval_limit_def bind_res_Inr policy_checks)
  subgoal by (rule store_ok_rows [OF assms]) (auto simp: grant_support_access_def bind_res_Inr)
  subgoal by (rule store_ok_rows [OF assms]) (auto simp: revoke_support_access_def bind_res_Inr Let_def split: if_splits)
  done

lemma assign_permission_ok:
  assumes "assign_permission req now p st = Some (Inr (st', es))" and "store_ok st"
  shows "store_ok st'"
  by (rule store_ok_rows [OF assms(2)])
    (use assms(1) in \<open>auto simp: assign_permission_def bind_res_Inr policy_checks after_check_Inr dest!: insert_checked_Inr split: sum.splits\<close>)

lemma assign_role_ok:
  assumes "assign_role req now r st = Some (Inr (st', es))" and "store_ok st"
  shows "store_ok st'"
  by (rule store_ok_rows [OF assms(2)])
    (use assms(1) in \<open>auto simp: assign_role_def bind_res_Inr policy_checks after_check_Inr assignment_ok_def split: sum.splits\<close>)

lemma create_sod_rule_ok:
  assumes "create_sod_rule req now r st = Some (Inr (st', es))" and "store_ok st"
  shows "store_ok st'"
  by (rule store_ok_rows [OF assms(2)])
    (use assms(1) in \<open>auto simp: create_sod_rule_def bind_res_Inr after_check_Inr Let_def split: sum.splits if_splits\<close>)

lemma delegation_checks_Inr:
  "delegation_checks req g st = Inr u \<Longrightarrow> grant_ok st g"
  by (auto simp: delegation_checks_def bind_res_Inr policy_checks grant_ok_def)

text \<open>What an accepted delegation rests on.\<close>

lemma create_delegation_Inr:
  assumes "create_delegation req now g0 st = Some (Inr (st', es))"
  defines "g \<equiv> g0\<lparr>dg_revoked := False\<rparr>"
  shows "grant_ok st g \<and> st' = st\<lparr>db_delegations := db_delegations st @ [g]\<rparr>
    \<and> (\<exists>a gs. load_authority (tables_of st) (dg_tenant g) = Inr a
         \<and> source_chain (delegation_view a g now) (delegator_of g) (dg_scope g) (window_of g) gs \<and> length gs \<le> 16
         \<and> reject_new_conflicts a (with_delegation a g) False now = Some (Inr ()))"
proof -
  from assms(1) obtain a where checks: "delegation_checks req g st = Inr ()"
    and a: "load_authority (tables_of st) (dg_tenant g) = Inr a"
    by (auto simp: create_delegation_def Let_def g_def [symmetric] bind_res_Inr split: sum.splits)
  with assms(1) obtain b where src: "role_source (delegation_view a g now) (delegator_of g) (dg_scope g) (window_of g) []
      (Some max_source_traversals) = Inr (True, b)"
    by (auto simp: create_delegation_def Let_def g_def [symmetric] split: sum.splits bool.splits)
  with assms(1) checks a have rest: "reject_new_conflicts a (with_delegation a g) False now = Some (Inr ())"
      "st' = st\<lparr>db_delegations := db_delegations st @ [g]\<rparr>"
    by (auto simp: create_delegation_def Let_def g_def [symmetric] after_check_Inr bind_res_Inr)
  from role_source_Inr [OF src] rest a delegation_checks_Inr [OF checks] show ?thesis by blast
qed

lemma create_delegation_ok:
  assumes "create_delegation req now g st = Some (Inr (st', es))" and "store_ok st"
  shows "store_ok st'"
  by (rule store_ok_rows [OF assms(2)]) (use create_delegation_Inr [OF assms(1)] in auto)

lemma revoke_delegation_ok:
  assumes "revoke_delegation req ten i st = Inr (st', es)" and "store_ok st"
  shows "store_ok st'"
proof -
  from assms(1) have st': "st' = st\<lparr>db_delegations := map (\<lambda>g. if dg_id g = i \<and> dg_tenant g = ten then g\<lparr>dg_revoked := True\<rparr> else g) (db_delegations st)\<rparr>"
    by (auto simp: revoke_delegation_def bind_res_Inr split: if_splits)
  have "grant_ok st (g\<lparr>dg_revoked := True\<rparr>)" if "grant_ok st g" for g using that by (simp add: grant_ok_def)
  with assms(2) show ?thesis by (intro store_ok_rows [OF assms(2)]) (auto simp: st' store_ok_def)
qed

lemma policy_step_ok: "policy_step column st st' \<Longrightarrow> store_ok st \<Longrightarrow> store_ok st'"
proof (induction rule: policy_step.induct)
  case (command c st st' events)
  note h = command(1) [unfolded handle_policy_def Let_def] and ok = command(2)
  show ?case
  proof (cases "pc_command c")
    case (Create_Role r)
    with h have "create_role (pc_request c) r st = Inr (st', events)" by simp
    then show ?thesis by (rule create_role_ok [OF _ ok])
  next
    case (Assign_Permission p)
    with h have "assign_permission (pc_request c) (pc_clock c 0) p st = Some (Inr (st', events))" by simp
    then show ?thesis by (rule assign_permission_ok [OF _ ok])
  next
    case (Assign_Role r)
    with h have "assign_role (pc_request c) (pc_clock c 0) r st = Some (Inr (st', events))" by simp
    then show ?thesis by (rule assign_role_ok [OF _ ok])
  next
    case (Create_SoD_Rule r)
    with h have "create_sod_rule (pc_request c) (pc_clock c 0) r st = Some (Inr (st', events))" by simp
    then show ?thesis by (rule create_sod_rule_ok [OF _ ok])
  next
    case (Create_Delegation g)
    with h have "create_delegation (pc_request c) (pc_clock c 0) g st = Some (Inr (st', events))" by simp
    then show ?thesis by (rule create_delegation_ok [OF _ ok])
  next
    case (Revoke_Delegation ten i)
    with h have "revoke_delegation (pc_request c) ten i st = Inr (st', events)" by simp
    then show ?thesis by (rule revoke_delegation_ok [OF _ ok])
  next
    case (Register_Permission x)
    with h have "register_permission x st = Inr (st', events)" by simp
    then show ?thesis by (rule simple_commands_ok(1) [OF ok])
  next
    case (Set_Field_Policy p)
    with h have "set_field_policy (pc_request c) p st = Inr (st', events)" by simp
    then show ?thesis by (rule simple_commands_ok(2) [OF ok])
  next
    case (Set_Record_Policy p)
    with h have "set_record_policy (pc_request c) p st = Inr (st', events)" by simp
    then show ?thesis by (rule simple_commands_ok(3) [OF ok])
  next
    case (Set_Approval_Limit l)
    with h have "set_approval_limit column (pc_request c) l st = Inr (st', events)" by simp
    then show ?thesis by (rule simple_commands_ok(4) [OF ok])
  next
    case (Grant_Support_Access ten i s m)
    with h have "grant_support_access (pc_binding c) (pc_clock c) (pc_request c) ten i s m st = Inr (st', events)" by simp
    then show ?thesis by (rule simple_commands_ok(5) [OF ok])
  next
    case (Revoke_Support_Access ten i)
    with h have "revoke_support_access (pc_request c) (pc_clock c 0) ten i st = Inr (st', events)" by simp
    then show ?thesis by (rule simple_commands_ok(6) [OF ok])
  qed
next
  case (members st ms)
  show ?case by (rule store_ok_rows [OF members]) simp_all
qed

lemma reachable_store_ok: "reachable_store column st \<Longrightarrow> store_ok st"
proof (induction rule: reachable_store.induct)
  case (empty ms)
  then show ?case by (simp add: store_ok_def roles_ok_def)
next
  case (step st st')
  then show ?case by (blast intro: policy_step_ok)
qed

section \<open>The role hierarchy stays within the decisions' bound\<close>

text \<open>A role whose chain of parents ends within \<open>n\<close> roles.\<close>

fun ends_within :: "role list \<Rightarrow> nat \<Rightarrow> uuid \<Rightarrow> bool" where
  "ends_within rs 0 i = False"
| "ends_within rs (Suc n) i =
     (case role_map rs i of
        None \<Rightarrow> False
      | Some r \<Rightarrow> (case ro_parent r of None \<Rightarrow> True | Some p \<Rightarrow> ends_within rs n p))"

lemma check_ancestry_ends:
  "check_ancestry rs seen current = Inr () \<Longrightarrow> current = Some c \<Longrightarrow> ends_within rs (max_role_depth - length seen) c"
proof (induction rs seen current arbitrary: c rule: check_ancestry.induct)
  case (1 rs seen current)
  from 1(2,3) obtain r where guard: "\<not> (c \<in> set seen \<or> length seen \<ge> max_role_depth)" and r: "role_map rs c = Some r"
    and rec: "check_ancestry rs (c # seen) (ro_parent r) = Inr ()"
    by (subst (asm) check_ancestry.simps) (auto split: if_splits option.splits)
  then obtain n where n: "max_role_depth - length seen = Suc n" by (metis Suc_diff_Suc not_le)
  then have m: "max_role_depth - Suc (length seen) = n" by simp
  show ?case
  proof (cases "ro_parent r")
    case None
    with r n show ?thesis by simp
  next
    case (Some p)
    with 1(1) [OF 1(3) guard r rec] have "ends_within rs n p" by (simp add: m)
    with r n Some show ?thesis by simp
  qed
qed

lemma role_map_distinct:
  assumes "distinct (map ro_id rs)" and "r \<in> set rs"
  shows "role_map rs (ro_id r) = Some r"
proof -
  have "map fst (map (\<lambda>r. (ro_id r, r)) (rev rs)) = rev (map ro_id rs)" by (simp add: rev_map o_def)
  then have "distinct (map fst (map (\<lambda>r. (ro_id r, r)) (rev rs)))" using assms(1) by (simp only: distinct_rev)
  then show ?thesis unfolding role_map_def by (rule map_of_is_SomeI) (use assms(2) in auto)
qed

abbreviation hierarchy_error :: exn where
  "hierarchy_error \<equiv> unbounded ''Role hierarchy is too deep''"

lemma policy_rows_error: "policy_rows p table \<noteq> Inl hierarchy_error"
  by (auto simp: policy_rows_def load_rows_def unbounded_def Let_def)

lemma climb_within:
  assumes "distinct (map ro_id (filter (\<lambda>x. ro_tenant x = ten) (db_roles db)))"
    and "\<forall>i \<in> set frontier. i \<in> ro_id ` set (filter (\<lambda>x. ro_tenant x = ten) (db_roles db))
           \<longrightarrow> ends_within (filter (\<lambda>x. ro_tenant x = ten) (db_roles db)) (Suc n) i"
  shows "climb db ten (Suc n) frontier ids \<noteq> Inl hierarchy_error"
  using assms
proof (induction n arbitrary: frontier ids)
  case (0 frontier ids)
  show ?case
  proof (cases "policy_rows (\<lambda>r. ro_tenant r = ten \<and> ro_id r \<in> set frontier) (db_roles db)")
    case (Inl e)
    with policy_rows_error show ?thesis by (auto simp: policy_rows_error)
  next
    case (Inr rows)
    have "ro_parent r = None" if "r \<in> set rows" for r
    proof -
      from that have r: "r \<in> set (filter (\<lambda>x. ro_tenant x = ten) (db_roles db))" "ro_id r \<in> set frontier"
        by (simp_all add: policy_rows_set [OF Inr])
      with 0(2) have "ends_within (filter (\<lambda>x. ro_tenant x = ten) (db_roles db)) (Suc 0) (ro_id r)" by blast
      with role_map_distinct [OF 0(1) r(1)] show ?thesis by (simp split: option.splits)
    qed
    then have "next_frontier rows ids = []" by (auto simp: next_frontier_def List.map_filter_def filter_empty_conv)
    with Inr show ?thesis by (simp add: Let_def)
  qed
next
  case (Suc n)
  show ?case
  proof (cases "policy_rows (\<lambda>r. ro_tenant r = ten \<and> ro_id r \<in> set frontier) (db_roles db)")
    case (Inl e)
    with policy_rows_error show ?thesis by (auto simp: policy_rows_error)
  next
    case (Inr rows)
    let ?T = "filter (\<lambda>x. ro_tenant x = ten) (db_roles db)"
    have up: "ends_within ?T (Suc n) p" if "r \<in> set rows" "ro_parent r = Some p" for r p
    proof -
      from that(1) have r: "r \<in> set ?T" "ro_id r \<in> set frontier"
        by (simp_all add: policy_rows_set [OF Inr])
      with Suc.prems(2) have "ends_within ?T (Suc (Suc n)) (ro_id r)" by blast
      with role_map_distinct [OF Suc.prems(1) r(1)] that(2) show ?thesis
        by (simp del: ends_within.simps(2) add: ends_within.simps(2) [of ?T "Suc n"])
    qed
    have "climb db ten (Suc n) (next_frontier rows ids) (next_frontier rows ids @ ids) \<noteq> Inl hierarchy_error"
      by (rule Suc.IH [OF Suc.prems(1)]) (auto simp: next_frontier_def List.map_filter_def simp del: ends_within.simps dest: up)
    with Inr show ?thesis by (simp add: Let_def del: climb.simps(2) add: climb.simps(2) [of db ten "Suc n"])
  qed
qed

lemma delegation_source_error:
  "delegation_source db ten t clock g visited b \<noteq> Inl hierarchy_error"
  "follow_parents db ten t clock g ps path b \<noteq> Inl hierarchy_error"
proof (induction db ten t clock g visited b and db ten t clock g ps path b rule: delegation_source_follow_parents.induct)
  case (1 db ten t clock g visited budget)
  note IH = 1
  consider (stop) "budget + 1 > max_rows"
    | (false) "\<not> budget + 1 > max_rows" "length visited \<ge> max_role_depth \<or> delegator_of g \<in> set visited \<or> \<not> known_type (dg_delegator_type g)"
    | (go) "\<not> budget + 1 > max_rows" "\<not> (length visited \<ge> max_role_depth \<or> delegator_of g \<in> set visited \<or> \<not> known_type (dg_delegator_type g))"
    by blast
  then show ?case
  proof cases
    case stop
    then show ?thesis by (simp add: delegation_source.simps unbounded_def)
  next
    case false
    then show ?thesis by (subst delegation_source.simps) simp
  next
    case go
    show ?thesis
    proof
      assume h: "delegation_source db ten t clock g visited budget = Inl hierarchy_error"
      show False
      proof (cases "lock_current (db_memberships db) ten (delegator_of g) (clock (budget + 1))")
        case (Inl e)
        with h go show ?thesis by (subst (asm) delegation_source.simps) (auto simp: unbounded_def split: if_splits)
      next
        case (Inr x)
        obtain m u where x: "x = (m, u)" by (cases x)
        with h go Inr have live: "membership_effective m t"
          by (subst (asm) delegation_source.simps) (auto split: if_splits)
        show ?thesis
        proof (cases "policy_rows (delegator_assignment ten g) (db_assignments db)")
          case (Inl e)
          with h go Inr x live show ?thesis by (subst (asm) delegation_source.simps) (simp add: policy_rows_error)
        next
          case as: (Inr as)
          show ?thesis
          proof (cases "list_ex (direct_source t g) as \<or> (\<exists>e. policy_rows (delegator_grant ten g) (db_delegations db) = Inl e)")
            case True
            with h go Inr x live as show ?thesis
              by (subst (asm) delegation_source.simps) (auto simp: policy_rows_error split: if_splits)
          next
            case False
            then obtain ps where ps: "policy_rows (delegator_grant ten g) (db_delegations db) = Inr ps"
              by (cases "policy_rows (delegator_grant ten g) (db_delegations db)") auto
            from False have nd: "\<not> list_ex (direct_source t g) as" by blast
            have "\<not> \<not> membership_effective m t" using live by simp
            from IH [OF go Inr x [symmetric] this as nd ps] h go Inr x live as nd ps show ?thesis
              by (subst (asm) delegation_source.simps) simp
          qed
        qed
      qed
    qed
  qed
next
  case (3 db ten t clock g p ps path budget)
  then show ?case by (auto simp: follow_parents.simps split: sum.splits bool.splits)
qed (simp add: follow_parents.simps)

lemma add_delegated_error: "add_delegated db ten s t clock f gs b ids \<noteq> Inl hierarchy_error"
  by (induction gs arbitrary: b ids) (auto simp: delegation_source_error split: sum.splits if_splits)

text \<open>
  C23: The store and the decisions fit together: in every store that commands (with any interleaved
  changes of memberships) can reach, whatever resource, principal, instant and clocks, collecting the
  active roles never fails because the role hierarchy is too deep, although roles are created one by one
  under any existing role; and every row stays inside its tenant: its role is a role of the same tenant,
  its scope and validity window are well formed, and no grant delegates from a principal to itself.
\<close>

theorem policy_store_is_sound:
  assumes "reachable_store column st"
  shows "active_roles (policy_db.truncate st) ten s t clock f \<noteq> Inl hierarchy_error \<and> store_ok st"
proof -
  have ok: "store_ok st" using assms by (rule reachable_store_ok)
  let ?T = "filter (\<lambda>x. ro_tenant x = ten) (db_roles st)"
  have distinct: "distinct (map ro_id ?T)" using ok by (simp add: store_ok_def roles_ok_def distinct_map_filter)
  have ends: "ends_within ?T (Suc 15) i" if "i \<in> ro_id ` set ?T" for i
  proof -
    from that obtain r where r: "r \<in> set (db_roles st)" "ro_tenant r = ten" "ro_id r = i" by auto
    with ok have "check_ancestry ?T [] (Some i) = Inr ()" by (auto simp: store_ok_def roles_ok_def)
    from check_ancestry_ends [OF this refl] show ?thesis by (simp add: max_role_depth_def eval_nat_numeral)
  qed
  have "climb (policy_db.truncate st) ten (Suc 15) ids ids \<noteq> Inl hierarchy_error" for ids
    by (rule climb_within) (use distinct ends in \<open>simp_all add: policy_db.defs del: ends_within.simps\<close>)
  then have "climb (policy_db.truncate st) ten max_role_depth ids ids \<noteq> Inl hierarchy_error" for ids
    by (simp add: max_role_depth_def eval_nat_numeral del: climb.simps)
  with ok show ?thesis
    by (auto simp: active_roles_def bind_res_Inl policy_rows_error add_delegated_error)
qed

text \<open>Every command returns, whatever graphs the tables hold.\<close>

lemma checked_change_returns: "checked_change st ten now n f \<noteq> None"
proof (cases "load_authority (tables_of st) ten")
  case (Inr a)
  with load_authority_Inr [OF Inr] conflict_search_returns [of a] show ?thesis by (simp add: checked_change_def)
qed (simp add: checked_change_def)

lemma after_check_returns: "after_check m k = None \<longleftrightarrow> m = None"
  by (auto simp: after_check_def split: option.splits sum.splits)

lemma after_check_Some: "m \<noteq> None \<Longrightarrow> \<exists>y. after_check m k = Some y"
  using after_check_returns [of m k] by auto

lemma create_delegation_returns: "create_delegation req now g st \<noteq> None"
  by (auto simp: create_delegation_def Let_def bind_res_Inr intro!: after_check_Some conflict_search_returns
      dest!: load_authority_Inr simp del: not_None_eq split: sum.splits bool.splits)

lemma policy_commands_return: "handle_policy column c st \<noteq> None"
  by (cases "pc_command c")
    (simp_all add: handle_policy_def Let_def assign_permission_def assign_role_def create_sod_rule_def after_check_returns
      checked_change_returns create_delegation_returns split: sum.splits del: not_None_eq)

section \<open>A sample history\<close>

definition sample_column :: amount_column where
  "sample_column d = Inr d"

definition sample_store :: policy_store where
  "sample_store = \<lparr>db_memberships = db_memberships sample_db, db_roles = [], db_permissions = [], db_assignments = [],
     db_delegations = [], db_record_policies = [], db_field_policies = [], db_limits = [], db_support = [],
     ps_catalog = [], ps_rules = []\<rparr>"

definition sample_call :: "policy_command \<Rightarrow> policy_call" where
  "sample_call c = \<lparr>pc_request = Some sample_request, pc_binding = po_binding sample_ports, pc_clock = (\<lambda>n. 100), pc_command = c\<rparr>"

fun run_calls :: "policy_command list \<Rightarrow> policy_store \<Rightarrow> policy_store option" where
  "run_calls [] st = Some st"
| "run_calls (c # cs) st =
     (case handle_policy sample_column (sample_call c) st of
        Some (Inr (st', _)) \<Rightarrow> run_calls cs st'
      | _ \<Rightarrow> None)"

lemma run_calls_reachable: "reachable_store sample_column st \<Longrightarrow> run_calls cs st = Some st' \<Longrightarrow> reachable_store sample_column st'"
proof (induction cs arbitrary: st)
  case (Cons c cs)
  from Cons.prems(2) obtain st1 es where h: "handle_policy sample_column (sample_call c) st = Some (Inr (st1, es))"
    and rest: "run_calls cs st1 = Some st'"
    by (auto split: option.splits sum.splits)
  from Cons.IH [OF _ rest] Cons.prems(1) h show ?case
    by (meson policy_step.command reachable_store.step)
qed simp

definition sample_commands :: "policy_command list" where
  "sample_commands =
     [Create_Role \<lparr>ro_id = 11, ro_tenant = 7, ro_code = ''manager'', ro_name = ''M'', ro_parent = None\<rparr>,
      Create_Role (hd (db_roles sample_db)),
      Register_Permission \<lparr>ce_code = ''order.approve'', ce_name = ''Approve'', ce_category = ''orders''\<rparr>,
      Assign_Permission (hd (db_permissions sample_db)),
      Assign_Role (hd (db_assignments sample_db)),
      Create_Delegation (hd (db_delegations sample_db))]"

lemma sample_run: "map_option (\<lambda>st. map dg_id (db_delegations st)) (run_calls sample_commands sample_store) = Some [40]"
  by code_simp

theorem policy_store_is_sound_witness:
  "\<exists>st. run_calls sample_commands sample_store = Some st \<and> db_delegations st \<noteq> [] \<and> store_ok st"
proof -
  from sample_run obtain st where st: "run_calls sample_commands sample_store = Some st" "map dg_id (db_delegations st) = [40]"
    by auto
  have "reachable_store sample_column sample_store" unfolding sample_store_def by (rule reachable_store.empty)
  from run_calls_reachable [OF this st(1)] have "reachable_store sample_column st" .
  from policy_store_is_sound [OF this, of 7 "(''user'', 42)" 100 "\<lambda>n. 100" undefined] st show ?thesis by auto
qed

end
