(* ===== verification/Policy_Evaluation.thy ===== *)
theory Policy_Evaluation
  imports Policy_Store
begin

text \<open>
  The evaluator of rows already read (\<open>foundations/policy\<close>, \<open>contracts.py\<close>, \<open>PolicyEvaluationService\<close>) and the
  one live use of it, the delegation authority that the organization foundation asks
  (\<open>delegation_authority.py\<close>, \<open>PolicyDelegationActionAuthority.evaluate\<close>). Reason texts are left out.
\<close>

section \<open>Active roles of a context\<close>

record policy_context =
  px_tenant :: uuid
  px_subject :: uuid
  px_company :: "uuid option"
  px_legal_entity :: "uuid option"
  px_site :: "uuid option"
  px_business_unit :: "uuid option"
  px_record_owner :: "uuid option"
  px_record_scope :: "scope_type option"
  px_record_scope_id :: "uuid option"
  px_now :: instant
  px_attributes :: "(string \<times> fact) list"

text \<open>A closed interval here.\<close>

definition in_period :: "moment option \<Rightarrow> moment option \<Rightarrow> instant \<Rightarrow> bool" where
  "in_period a b t \<longleftrightarrow>
     (case a of None \<Rightarrow> True | Some x \<Rightarrow> \<not> moment.at x > t) \<and> (case b of None \<Rightarrow> True | Some y \<Rightarrow> \<not> moment.at y < t)"

definition context_scope :: "policy_context \<Rightarrow> authority_scope \<Rightarrow> bool" where
  "context_scope c sc \<longleftrightarrow>
     (case fst sc of
        TENANT \<Rightarrow> True
      | COMPANY \<Rightarrow> snd sc = px_company c
      | LEGAL_ENTITY \<Rightarrow> snd sc = px_legal_entity c
      | OPERATING_SITE \<Rightarrow> snd sc = px_site c
      | BUSINESS_UNIT \<Rightarrow> snd sc = px_business_unit c)"

definition assigned_in :: "policy_context \<Rightarrow> role_assignment \<Rightarrow> bool" where
  "assigned_in c a \<longleftrightarrow> ra_tenant a = px_tenant c \<and> ra_subject a = px_subject c
     \<and> in_period (ra_from a) (ra_to a) (px_now c) \<and> context_scope c (ra_scope a)"

definition delegated_in :: "policy_context \<Rightarrow> delegation_grant \<Rightarrow> bool" where
  "delegated_in c g \<longleftrightarrow> dg_tenant g = px_tenant c \<and> dg_delegatee g = px_subject c \<and> \<not> dg_revoked g
     \<and> in_period (Some (dg_from g)) (Some (dg_to g)) (px_now c) \<and> context_scope c (dg_scope g)"

definition context_roles :: "policy_context \<Rightarrow> role_assignment list \<Rightarrow> delegation_grant list \<Rightarrow> uuid list" where
  "context_roles c as ds = map ra_role (filter (assigned_in c) as) @ map dg_role (filter (delegated_in c) ds)"

function role_parents :: "role list \<Rightarrow> uuid list \<Rightarrow> role option \<Rightarrow> uuid list" where
  "role_parents rs visited current =
     (case Option.bind current ro_parent of
        None \<Rightarrow> []
      | Some p \<Rightarrow> if p \<in> set visited then [] else p # role_parents rs (p # visited) (role_map rs p))"
  by pat_completeness auto
termination
proof (relation "measure (\<lambda>(rs, visited, current).
    if current = None then 0 else Suc (card (set (map ro_id rs) - set visited)))", goal_cases)
  case (2 rs visited current p)
  then have cur: "current \<noteq> None" by (cases current) auto
  show ?case
  proof (cases "role_map rs p")
    case None
    with cur show ?thesis by simp
  next
    case (Some r)
    then have "p \<in> set (map ro_id rs)" unfolding role_map_def by (force dest: map_of_SomeD)
    with 2 have "set (map ro_id rs) - set (p # visited) \<subset> set (map ro_id rs) - set visited" by auto
    then have "card (set (map ro_id rs) - set (p # visited)) < card (set (map ro_id rs) - set visited)"
      by (rule psubset_card_mono [rotated]) simp
    with cur Some show ?thesis by simp
  qed
qed simp

declare role_parents.simps [simp del]

definition expanded_roles :: "policy_context \<Rightarrow> role list \<Rightarrow> uuid list \<Rightarrow> uuid list" where
  "expanded_roles c rs ids =
     (let own = filter (\<lambda>r. ro_tenant r = px_tenant c) rs
      in ids @ concat (map (\<lambda>i. role_parents own [i] (role_map own i)) ids))"

section \<open>The evaluator\<close>

definition first_for :: "('p \<Rightarrow> uuid option) \<Rightarrow> uuid list \<Rightarrow> 'p list \<Rightarrow> 'p option" where
  "first_for role ids ps =
     (case List.find (\<lambda>p. role p \<in> Some ` set ids) ps of
        Some p \<Rightarrow> Some p
      | None \<Rightarrow> List.find (\<lambda>p. role p = None) ps)"

definition record_access_allowed :: "expression_parser \<Rightarrow> string \<Rightarrow> policy_context \<Rightarrow> record_policy list \<Rightarrow> uuid list \<Rightarrow> bool" where
  "record_access_allowed parse resource c ps ids =
     (let matching = filter (\<lambda>p. rc_tenant p = px_tenant c \<and> rc_resource p = resource) ps in
      if matching = [] then True
      else (case first_for rc_role ids matching of
          None \<Rightarrow> False
        | Some p \<Rightarrow>
            condition_matches_v1 parse (rc_condition p) (px_attributes c)
            \<and> (case rc_access p of
                 DENY_RECORDS \<Rightarrow> False
               | ALL_RECORDS \<Rightarrow> True
               | OWNED \<Rightarrow> px_record_owner c = Some (px_subject c)
               | ORGANIZATION \<Rightarrow>
                   (case (px_record_scope c, px_record_scope_id c) of
                      (Some ty, Some i) \<Rightarrow>
                        (case ty of TENANT \<Rightarrow> None | COMPANY \<Rightarrow> px_company c | LEGAL_ENTITY \<Rightarrow> px_legal_entity c
                           | OPERATING_SITE \<Rightarrow> px_site c | BUSINESS_UNIT \<Rightarrow> px_business_unit c) = Some i
                    | _ \<Rightarrow> False))))"

text \<open>\<open>authorize\<close>: the permission code that grants, or nothing.\<close>

definition evaluate_action ::
  "expression_parser \<Rightarrow> string \<Rightarrow> string \<Rightarrow> policy_context \<Rightarrow> role list \<Rightarrow> role_permission list \<Rightarrow> role_assignment list \<Rightarrow>
   delegation_grant list \<Rightarrow> record_policy list \<Rightarrow> string option" where
  "evaluate_action parse action resource c rs rps as ds ps =
     (let ids = expanded_roles c rs (context_roles c as ds)
      in map_option rp_permission (List.find (\<lambda>p. rp_tenant p = px_tenant c \<and> rp_role p \<in> set ids
           \<and> (rp_permission p = action \<or> rp_permission p = resource @ ''.*'')
           \<and> record_access_allowed parse resource c ps ids) rps))"

definition evaluate_field_access ::
  "expression_parser \<Rightarrow> string \<Rightarrow> string \<Rightarrow> policy_context \<Rightarrow> field_policy list \<Rightarrow> uuid list \<Rightarrow> field_access \<Rightarrow> bool \<times> field_access" where
  "evaluate_field_access parse field resource c ps ids requested =
     (let matching = filter (\<lambda>p. fp_tenant p = px_tenant c \<and> fp_resource p = resource \<and> fp_field p = field) ps in
      if matching = [] then (True, READ_FIELD)
      else (case first_for fp_role ids matching of
          None \<Rightarrow> (False, DENY_FIELD)
        | Some p \<Rightarrow>
            if \<not> condition_matches_v1 parse (fp_condition p) (px_attributes c) then (False, DENY_FIELD)
            else if fp_access p = DENY_FIELD then (False, DENY_FIELD)
            else if requested = WRITE_FIELD \<and> fp_access p \<noteq> WRITE_FIELD then (False, DENY_FIELD)
            else (True, fp_access p)))"

definition limit_counts :: "string \<Rightarrow> string \<Rightarrow> policy_context \<Rightarrow> uuid list \<Rightarrow> approval_limit \<Rightarrow> bool" where
  "limit_counts action currency c ids l \<longleftrightarrow>
     al_tenant l = px_tenant c \<and> al_action l = action \<and> upper (al_currency l) = upper currency
     \<and> in_period (al_from l) (al_to l) (px_now c)
     \<and> (al_subject l = Some (px_subject c) \<or> (case al_role l of None \<Rightarrow> False | Some r \<Rightarrow> r \<in> set ids))"

definition zero_decimal :: decimal where
  "zero_decimal = Finite False 0 0"

definition greatest_limit :: "approval_limit list \<Rightarrow> decimal" where
  "greatest_limit ls = foldl (\<lambda>m l. if value_of (al_amount l) > value_of m then al_amount l else m) zero_decimal ls"

definition evaluate_approval_authority ::
  "string \<Rightarrow> decimal \<Rightarrow> string \<Rightarrow> policy_context \<Rightarrow> approval_limit list \<Rightarrow> uuid list \<Rightarrow> bool \<times> decimal" where
  "evaluate_approval_authority action amount currency c limits ids =
     (let found = filter (limit_counts action currency c ids) limits in
      if found = [] then (False, zero_decimal)
      else (value_of amount \<le> value_of (greatest_limit found), greatest_limit found))"

definition check_sod_conflict :: "string list \<Rightarrow> sod_rule list \<Rightarrow> bool \<times> sod_rule list" where
  "check_sod_conflict permissions rules =
     (let hit = filter (\<lambda>r. sr_permission_a r \<in> set permissions \<and> sr_permission_b r \<in> set permissions) rules
      in (hit \<noteq> [], hit))"

definition evaluate_support_access :: "policy_context \<Rightarrow> support_grant list \<Rightarrow> uuid option" where
  "evaluate_support_access c grants =
     map_option sg_id (List.find (\<lambda>g. sg_tenant g = px_tenant c \<and> sg_principal g = px_subject c \<and> sg_revoked_at g = None
        \<and> in_period (Some (sg_from g)) (Some (sg_to g)) (px_now c)) grants)"

section \<open>The delegation authority\<close>

datatype organization_scope = ENTERPRISE_GROUP | ORG_LEGAL_ENTITY | ORG_COMPANY | ORG_UNIT | REGION | ORG_OPERATING_SITE
  | WAREHOUSE | FINANCIAL_DIMENSION

record delegation_request =
  dr_tenant :: uuid
  dr_grantor :: uuid
  dr_grantor_type :: "string option"
  dr_scope :: organization_scope
  dr_scope_id :: uuid
  dr_action :: string
  dr_at :: moment
  dr_from :: moment
  dr_until :: moment

definition target_type :: "organization_scope \<Rightarrow> scope_type option" where
  "target_type s =
     (case s of ORG_COMPANY \<Rightarrow> Some COMPANY | ORG_LEGAL_ENTITY \<Rightarrow> Some LEGAL_ENTITY
        | ORG_OPERATING_SITE \<Rightarrow> Some OPERATING_SITE | _ \<Rightarrow> None)"

definition request_ok :: "delegation_request \<Rightarrow> bool" where
  "request_ok q \<longleftrightarrow>
     dr_tenant q \<noteq> 0 \<and> known_type (dr_grantor_type q) \<and> dr_grantor q \<noteq> 0
     \<and> zoned (dr_at q) \<and> zoned (dr_from q) \<and> zoned (dr_until q)
     \<and> \<not> moment.at (dr_until q) \<le> moment.at (dr_from q) \<and> \<not> moment.at (dr_until q) \<le> moment.at (dr_at q)"

definition covering_assignment :: "delegation_request \<Rightarrow> role_assignment \<Rightarrow> bool" where
  "covering_assignment q a \<longleftrightarrow>
     ra_subject a = dr_grantor q \<and> ra_subject_type a = dr_grantor_type q
     \<and> active_at (ra_from a) (ra_to a) (moment.at (dr_at q)) \<and> covers (ra_from a) (ra_to a) (dr_from q, dr_until q)"

text \<open>The grant's source is searched without a budget.\<close>

definition covering_grant ::
  "delegation_request \<Rightarrow> scope_type \<Rightarrow> role_assignment list \<Rightarrow> delegation_grant list \<Rightarrow> delegation_grant \<Rightarrow> bool" where
  "covering_grant q scope as ds g \<longleftrightarrow>
     dg_delegatee g = dr_grantor q \<and> dg_delegatee_type g = dr_grantor_type q \<and> known_type (dg_delegator_type g)
     \<and> scope_covers (dg_scope g) (scope, Some (dr_scope_id q))
     \<and> active_at (Some (dg_from g)) (Some (dg_to g)) (moment.at (dr_at q))
     \<and> covers (Some (dg_from g)) (Some (dg_to g)) (dr_from q, dr_until q)
     \<and> (case role_source \<lparr>av_tenant = dr_tenant q, av_role = dg_role g, av_instant = moment.at (dr_at q),
                  av_assignments = as, av_delegations = ds\<rparr> (delegator_of g) (dg_scope g) (window_of g) [] None of
          Inr (found, _) \<Rightarrow> found | Inl _ \<Rightarrow> False)"

definition request_context_of :: "delegation_request \<Rightarrow> scope_type \<Rightarrow> policy_context" where
  "request_context_of q scope =
     \<lparr>px_tenant = dr_tenant q, px_subject = dr_grantor q,
      px_company = (if scope = COMPANY then Some (dr_scope_id q) else None),
      px_legal_entity = (if scope = LEGAL_ENTITY then Some (dr_scope_id q) else None),
      px_site = (if scope = OPERATING_SITE then Some (dr_scope_id q) else None),
      px_business_unit = None, px_record_owner = None, px_record_scope = Some scope, px_record_scope_id = Some (dr_scope_id q),
      px_now = moment.at (dr_at q), px_attributes = []\<rparr>"

definition evaluate_delegation ::
  "expression_parser \<Rightarrow> (string \<times> string) list \<Rightarrow> delegation_request \<Rightarrow> policy_store \<Rightarrow> bool \<times> string option" where
  "evaluate_delegation parse resources q st =
     (if \<not> request_ok q then (False, None)
      else (case (map_of resources (dr_action q), target_type (dr_scope q)) of
          (Some resource, Some scope) \<Rightarrow>
            if dr_scope_id q = 0 then (False, None)
            else
              let own = (\<lambda>ten. ten = dr_tenant q);
                  as = filter (\<lambda>a. own (ra_tenant a)) (db_assignments st);
                  ds = filter (\<lambda>g. own (dg_tenant g) \<and> \<not> dg_revoked g) (db_delegations st);
                  granted = evaluate_action parse (dr_action q) resource (request_context_of q scope)
                    (filter (\<lambda>r. own (ro_tenant r)) (db_roles st)) (filter (\<lambda>p. own (rp_tenant p)) (db_permissions st))
                    (filter (covering_assignment q) as) (filter (covering_grant q scope as ds) ds)
                    (filter (\<lambda>p. own (rc_tenant p) \<and> rc_resource p = resource) (db_record_policies st))
              in (granted \<noteq> None, granted)
        | _ \<Rightarrow> (False, None)))"

section \<open>Soundness in the stores that the commands reach\<close>

text \<open>
  A null scope ID of an organizational scope would match a context that has no such scope; the commands
  never store one.
\<close>

lemma context_scope_covers:
  assumes "scope_ok sc" and "context_scope (request_context_of q scope) sc"
  shows "scope_covers sc (scope, Some (dr_scope_id q))"
  using assms by (cases sc; cases "fst sc") (auto simp: context_scope_def request_context_of_def scope_covers_def scope_ok_def split: if_splits)

lemma null_scope_matches_anything:
  "context_scope (request_context_of q LEGAL_ENTITY) (COMPANY, None) \<and> \<not> scope_covers (COMPANY, None) (LEGAL_ENTITY, Some i)"
  by (simp add: context_scope_def request_context_of_def scope_covers_def)

text \<open>The authority of a role for the whole proposed interval and scope: its own, or delegated from a source.\<close>

inductive authority_for :: "policy_store \<Rightarrow> delegation_request \<Rightarrow> scope_type \<Rightarrow> uuid \<Rightarrow> bool" for st q scope where
  own: "a \<in> set (db_assignments st) \<Longrightarrow> ra_tenant a = dr_tenant q \<Longrightarrow> covering_assignment q a
    \<Longrightarrow> scope_covers (ra_scope a) (scope, Some (dr_scope_id q)) \<Longrightarrow> authority_for st q scope (ra_role a)"
| delegated: "g \<in> set (db_delegations st) \<Longrightarrow> dg_tenant g = dr_tenant q \<Longrightarrow> \<not> dg_revoked g \<Longrightarrow> dg_delegatee g = dr_grantor q
    \<Longrightarrow> dg_delegatee_type g = dr_grantor_type q \<Longrightarrow> scope_covers (dg_scope g) (scope, Some (dr_scope_id q))
    \<Longrightarrow> active_at (Some (dg_from g)) (Some (dg_to g)) (moment.at (dr_at q))
    \<Longrightarrow> covers (Some (dg_from g)) (Some (dg_to g)) (dr_from q, dr_until q)
    \<Longrightarrow> source_chain \<lparr>av_tenant = dr_tenant q, av_role = dg_role g, av_instant = moment.at (dr_at q),
          av_assignments = filter (\<lambda>a. ra_tenant a = dr_tenant q) (db_assignments st),
          av_delegations = filter (\<lambda>g. dg_tenant g = dr_tenant q \<and> \<not> dg_revoked g) (db_delegations st)\<rparr>
          (delegator_of g) (dg_scope g) (window_of g) gs
    \<Longrightarrow> length gs \<le> 16 \<Longrightarrow> authority_for st q scope (dg_role g)"
| inherited: "authority_for st q scope (ro_id r) \<Longrightarrow> r \<in> set (db_roles st) \<Longrightarrow> ro_tenant r = dr_tenant q
    \<Longrightarrow> ro_parent r = Some p \<Longrightarrow> authority_for st q scope p"

lemma role_map_in: "role_map rs i = Some r \<Longrightarrow> r \<in> set rs \<and> ro_id r = i"
  unfolding role_map_def by (auto dest: map_of_SomeD)

lemma role_parents_authority:
  assumes "\<forall>r. current = Some r \<longrightarrow> r \<in> set (db_roles st) \<and> ro_tenant r = dr_tenant q \<and> authority_for st q scope (ro_id r)"
    and "set rs \<subseteq> {r \<in> set (db_roles st). ro_tenant r = dr_tenant q}"
    and "i \<in> set (role_parents rs visited current)"
  shows "authority_for st q scope i"
  using assms
proof (induction rs visited current rule: role_parents.induct)
  case (1 rs visited current)
  from 1(4) [unfolded role_parents.simps [of rs visited current]]
  obtain r p where r: "current = Some r" "ro_parent r = Some p" "p \<notin> set visited"
    by (cases current; cases "Option.bind current ro_parent") (auto split: if_splits)
  then have p: "authority_for st q scope p" using 1(2) by (auto intro: authority_for.inherited)
  from 1(4) r consider "i = p" | "i \<in> set (role_parents rs (p # visited) (role_map rs p))"
    by (auto simp: role_parents.simps [of rs visited "Some r"])
  then show ?case
  proof cases
    case 2
    show ?thesis
      by (rule 1(1) [OF _ r(3) _ 1(3) 2]) (use r p 1(3) in \<open>auto dest: role_map_in\<close>)
  qed (use p in simp)
qed

lemma covering_grant_chain:
  "covering_grant q scope as ds g \<Longrightarrow>
   \<exists>gs. source_chain \<lparr>av_tenant = dr_tenant q, av_role = dg_role g, av_instant = moment.at (dr_at q),
     av_assignments = as, av_delegations = ds\<rparr> (delegator_of g) (dg_scope g) (window_of g) gs \<and> length gs \<le> 16"
  by (auto simp: covering_grant_def role_source_iff)

lemma evaluate_action_Some:
  assumes "evaluate_action parse action resource c rs rps as ds ps = Some code"
  shows "\<exists>p \<in> set rps. rp_tenant p = px_tenant c \<and> rp_role p \<in> set (expanded_roles c rs (context_roles c as ds))
    \<and> (rp_permission p = action \<or> rp_permission p = resource @ ''.*'')"
proof -
  from assms obtain p where "List.find (\<lambda>p. rp_tenant p = px_tenant c \<and> rp_role p \<in> set (expanded_roles c rs (context_roles c as ds))
      \<and> (rp_permission p = action \<or> rp_permission p = resource @ ''.*'')
      \<and> record_access_allowed parse resource c ps (expanded_roles c rs (context_roles c as ds))) rps = Some p"
    by (auto simp: evaluate_action_def Let_def)
  from select_first_Some [unfolded select_first_def, OF this] show ?thesis by blast
qed

lemma evaluate_delegation_sound:
  assumes "store_ok st" and "evaluate_delegation parse resources q st = (True, code)"
  shows "request_ok q \<and> (\<exists>resource scope p. map_of resources (dr_action q) = Some resource \<and> target_type (dr_scope q) = Some scope
    \<and> p \<in> set (db_permissions st) \<and> rp_tenant p = dr_tenant q
    \<and> (rp_permission p = dr_action q \<or> rp_permission p = resource @ ''.*'') \<and> authority_for st q scope (rp_role p))"
proof -
  from assms(2) obtain resource scope where ok: "request_ok q" and
    res: "map_of resources (dr_action q) = Some resource" and sc: "target_type (dr_scope q) = Some scope"
    by (auto simp: evaluate_delegation_def split: if_splits option.splits)
  let ?c = "request_context_of q scope"
  let ?rs = "filter (\<lambda>r. ro_tenant r = dr_tenant q) (db_roles st)"
  let ?as = "filter (\<lambda>a. ra_tenant a = dr_tenant q) (db_assignments st)"
  let ?ds = "filter (\<lambda>g. dg_tenant g = dr_tenant q \<and> \<not> dg_revoked g) (db_delegations st)"
  let ?ids = "context_roles ?c (filter (covering_assignment q) ?as) (filter (covering_grant q scope ?as ?ds) ?ds)"
  from assms(2) ok res sc obtain c where "evaluate_action parse (dr_action q) resource ?c ?rs
      (filter (\<lambda>p. rp_tenant p = dr_tenant q) (db_permissions st))
      (filter (covering_assignment q) ?as) (filter (covering_grant q scope ?as ?ds) ?ds)
      (filter (\<lambda>p. rc_tenant p = dr_tenant q \<and> rc_resource p = resource) (db_record_policies st)) = Some c"
    by (simp add: evaluate_delegation_def Let_def split: if_splits) blast
  from evaluate_action_Some [OF this] obtain p where p: "p \<in> set (db_permissions st)" "rp_tenant p = dr_tenant q"
    "rp_permission p = dr_action q \<or> rp_permission p = resource @ ''.*''" "rp_role p \<in> set (expanded_roles ?c ?rs ?ids)"
    by (auto simp: request_context_of_def)
  have "authority_for st q scope i" if "i \<in> ra_role ` set (filter (assigned_in ?c) (filter (covering_assignment q) ?as))" for i
  proof -
    from that obtain a where a: "i = ra_role a" "a \<in> set (db_assignments st)" "ra_tenant a = dr_tenant q"
      "covering_assignment q a" "context_scope ?c (ra_scope a)" by (auto simp: assigned_in_def)
    with assms(1) have "scope_ok (ra_scope a)" by (simp add: store_ok_def assignment_ok_def)
    with a show ?thesis by (auto intro: authority_for.own context_scope_covers)
  qed
  moreover have "authority_for st q scope i" if "i \<in> dg_role ` set (filter (delegated_in ?c) (filter (covering_grant q scope ?as ?ds) ?ds))" for i
  proof -
    from that obtain g where g: "i = dg_role g" "g \<in> set (db_delegations st)" "dg_tenant g = dr_tenant q" "\<not> dg_revoked g"
      "covering_grant q scope ?as ?ds g" by auto
    from covering_grant_chain [OF g(5)] obtain gs where "source_chain \<lparr>av_tenant = dr_tenant q, av_role = dg_role g,
        av_instant = moment.at (dr_at q), av_assignments = ?as, av_delegations = ?ds\<rparr> (delegator_of g) (dg_scope g) (window_of g) gs"
      "length gs \<le> 16" by blast
    with g show ?thesis unfolding g(1) by (intro authority_for.delegated [of g]) (simp_all add: covering_grant_def)
  qed
  ultimately have held: "authority_for st q scope i" if "i \<in> set ?ids" for i
    using that unfolding context_roles_def set_append set_map by blast
  have "authority_for st q scope (rp_role p)"
  proof (cases "rp_role p \<in> set ?ids")
    case False
    have "filter (\<lambda>r. ro_tenant r = px_tenant ?c) ?rs = ?rs" by (simp add: request_context_of_def)
    with p(4) False obtain i where i: "i \<in> set ?ids" "rp_role p \<in> set (role_parents ?rs [i] (role_map ?rs i))"
      by (auto simp: expanded_roles_def Let_def simp del: filter_filter)
    show ?thesis by (rule role_parents_authority [OF _ _ i(2)]) (use held [OF i(1)] in \<open>auto dest!: role_map_in\<close>)
  qed (rule held)
  with ok res sc p show ?thesis by blast
qed

end
