(* ===== verification/Tenancy.thy ===== *)
theory Tenancy
  imports Tables Delegation
begin

text \<open>
  The tenant foundation (\<open>foundations/tenant\<close>, \<open>contracts.py\<close> and \<open>module.py\<close>): effective periods, the tenant
  life cycle with its durable export, restore and delete work, entitlements and quotas. Lifecycle hooks
  are code of other modules: what a hook answers is a parameter, that it was called is recorded. IDs of
  new rows and events are arguments.
\<close>

section \<open>Effective periods\<close>

datatype temporal = Day int | Timed moment

definition invalid_effective_period :: exn where
  "invalid_effective_period = BusinessOSError ''invalid_effective_dates''
     ''Effective period must use compatible, timezone-aware values with end after start'' 422"

fun timezone_aware :: "temporal \<Rightarrow> bool" where
  "timezone_aware (Day d) = True"
| "timezone_aware (Timed m) = zoned m"

fun same_sort :: "temporal \<Rightarrow> temporal \<Rightarrow> bool" where
  "same_sort (Day a) (Day b) = True"
| "same_sort (Timed a) (Timed b) = True"
| "same_sort _ _ = False"

fun not_after :: "temporal \<Rightarrow> temporal \<Rightarrow> bool" where
  "not_after (Day a) (Day b) \<longleftrightarrow> a \<le> b"
| "not_after (Timed a) (Timed b) \<longleftrightarrow> moment.at a \<le> moment.at b"
| "not_after _ _ \<longleftrightarrow> False"

definition all_option :: "('v \<Rightarrow> bool) \<Rightarrow> 'v option \<Rightarrow> bool" where
  "all_option p v \<longleftrightarrow> (case v of None \<Rightarrow> True | Some x \<Rightarrow> p x)"

lemma all_option_simps [simp]: "all_option p None" "all_option p (Some x) = p x"
  by (simp_all add: all_option_def)

definition validate_effective_period :: "temporal option \<Rightarrow> temporal option \<Rightarrow> exn + unit" where
  "validate_effective_period start stop =
     (if \<not> all_option (\<lambda>a. all_option (same_sort a) stop) start then Inl invalid_effective_period
      else if \<not> all_option timezone_aware start \<or> \<not> all_option timezone_aware stop then Inl invalid_effective_period
      else (case (start, stop) of
          (Some a, Some b) \<Rightarrow> raise_if (not_after b a) invalid_effective_period
        | _ \<Rightarrow> Inr ()))"

definition effective_at :: "temporal option \<Rightarrow> temporal option \<Rightarrow> temporal \<Rightarrow> exn + bool" where
  "effective_at start stop t =
     bind_res (validate_effective_period start stop) (\<lambda>_.
     bind_res (validate_effective_period start None) (\<lambda>_.
       if \<not> timezone_aware t \<or> \<not> all_option (same_sort t) start \<or> \<not> all_option (same_sort t) stop
       then Inl invalid_effective_period
       else Inr (all_option (\<lambda>a. not_after a t) start \<and> all_option (\<lambda>b. \<not> not_after b t) stop)))"

lemma effective_at_Inr:
  "effective_at start stop t = Inr r \<Longrightarrow>
   r = (all_option (\<lambda>a. not_after a t) start \<and> all_option (\<lambda>b. \<not> not_after b t) stop)"
  by (auto simp: effective_at_def bind_res_Inr split: if_splits)

text \<open>A period that passes the validation on writing never fails when it is read at a value of its own sort.\<close>

lemma effective_at_returns:
  assumes "validate_effective_period start stop = Inr ()" and "timezone_aware t"
    and "all_option (same_sort t) start" and "all_option (same_sort t) stop"
  shows "\<exists>r. effective_at start stop t = Inr r"
  using assms by (cases start) (auto simp: effective_at_def validate_effective_period_def bind_res_def split: option.splits if_splits)

section \<open>Tables\<close>

datatype tenant_status = REQUESTED | PROVISIONING | ACTIVE_TENANT | SUSPENDED_TENANT | RETENTION_HOLD | TERMINATING | DELETED

datatype lifecycle_operation = EXPORT | DELETE | RESTORE

datatype work_state = PENDING | COMPLETED | SKIPPED

record tenant_row =
  tr_id :: uuid
  tr_slug :: string
  tr_status :: tenant_status
  tr_version :: int

record status_change =
  sc_tenant :: uuid
  sc_from :: "tenant_status option"
  sc_to :: tenant_status
  sc_by :: uuid

record lifecycle_work =
  lw_id :: uuid
  lw_tenant :: uuid
  lw_version :: int
  lw_operation :: lifecycle_operation
  lw_state :: work_state
  lw_depends :: "uuid option"

record entitlement =
  en_tenant :: uuid
  en_capability :: string
  en_enabled :: bool
  en_reference :: "string option"
  en_from :: "moment option"
  en_until :: "moment option"

record quota =
  qu_tenant :: uuid
  qu_name :: string
  qu_limit :: int
  qu_unit :: string

record tenant_store =
  ts_tenants :: "tenant_row list"
  ts_history :: "status_change list"
  ts_work :: "lifecycle_work list"
  ts_entitlements :: "entitlement list"
  ts_quotas :: "quota list"

datatype tenant_event =
    TenantCreated uuid string
  | TenantActivated uuid
  | TenantSuspended uuid
  | TenantLifecycleWorkRequested uuid uuid lifecycle_operation

section \<open>The life cycle\<close>

definition transitions :: "tenant_status \<Rightarrow> tenant_status list" where
  "transitions s =
     (case s of
        REQUESTED \<Rightarrow> [PROVISIONING]
      | PROVISIONING \<Rightarrow> [ACTIVE_TENANT, TERMINATING]
      | ACTIVE_TENANT \<Rightarrow> [SUSPENDED_TENANT, RETENTION_HOLD, TERMINATING]
      | SUSPENDED_TENANT \<Rightarrow> [ACTIVE_TENANT, RETENTION_HOLD, TERMINATING]
      | RETENTION_HOLD \<Rightarrow> [ACTIVE_TENANT, TERMINATING]
      | TERMINATING \<Rightarrow> [DELETED]
      | DELETED \<Rightarrow> [])"

definition own_tenant :: "request_context \<Rightarrow> uuid \<Rightarrow> exn + tenant_context" where
  "own_tenant req expected =
     (case tenant req of
        None \<Rightarrow> Inl (BusinessOSError ''unauthenticated'' ''Authentication required'' 401)
      | Some ten \<Rightarrow>
          if tenant_id ten \<noteq> expected then Inl (BusinessOSError ''forbidden'' ''Tenant scope mismatch'' 403) else Inr ten)"

definition tenant_not_found :: exn where
  "tenant_not_found = BusinessOSError ''not_found'' ''Tenant not found'' 404"

definition find_tenant :: "tenant_store \<Rightarrow> uuid \<Rightarrow> tenant_row option" where
  "find_tenant st ten = List.find (\<lambda>t. tr_id t = ten) (ts_tenants st)"

definition provision :: "request_context \<Rightarrow> uuid \<Rightarrow> string \<Rightarrow> tenant_store \<Rightarrow> exn + tenant_store \<times> tenant_event list" where
  "provision req ten slug st =
     bind_res (own_tenant req ten) (\<lambda>tc.
     bind_res (insert_row (\<lambda>x y. tr_id x = tr_id y \<or> tr_slug x = tr_slug y) (\<lambda>_. True)
                 \<lparr>tr_id = ten, tr_slug = slug, tr_status = REQUESTED, tr_version = 0\<rparr> (ts_tenants st)) (\<lambda>rows.
       Inr (st\<lparr>ts_tenants := rows,
               ts_history := ts_history st @ [\<lparr>sc_tenant = ten, sc_from = None, sc_to = REQUESTED, sc_by = principal_id tc\<rparr>]\<rparr>,
            [TenantCreated ten slug])))"

text \<open>The work a transition asks for.\<close>

definition requested_work :: "tenant_status \<Rightarrow> tenant_status \<Rightarrow> lifecycle_operation option" where
  "requested_work current target =
     (if target = TERMINATING then Some EXPORT
      else if target = DELETED then Some DELETE
      else if current = RETENTION_HOLD \<and> target = ACTIVE_TENANT then Some RESTORE
      else None)"

text \<open>The completed export that a deletion depends on.\<close>

definition prerequisite :: "tenant_store \<Rightarrow> tenant_row \<Rightarrow> lifecycle_operation option \<Rightarrow> exn + uuid option" where
  "prerequisite st t op =
     (if op \<noteq> Some DELETE then Inr None
      else (case List.find (\<lambda>w. lw_tenant w = tr_id t \<and> lw_version w = tr_version t \<and> lw_operation w = EXPORT) (ts_work st) of
          Some w \<Rightarrow>
            if lw_state w = COMPLETED then Inr (Some (lw_id w))
            else Inl (BusinessOSError ''lifecycle_prerequisite_pending'' ''Tenant export must finish before deletion'' 409)
        | None \<Rightarrow> Inl (BusinessOSError ''lifecycle_prerequisite_pending'' ''Tenant export must finish before deletion'' 409)))"

definition set_status :: "uuid \<Rightarrow> tenant_status \<Rightarrow> int \<Rightarrow> tenant_row list \<Rightarrow> tenant_row list" where
  "set_status ten target version ts =
     map (\<lambda>t. if tr_id t = ten then t\<lparr>tr_status := target, tr_version := version\<rparr> else t) ts"

definition insert_work :: "lifecycle_work \<Rightarrow> tenant_store \<Rightarrow> exn + tenant_store" where
  "insert_work w st =
     bind_res (insert_row (\<lambda>x y. lw_id x = lw_id y \<or> (lw_tenant x = lw_tenant y \<and> lw_version x = lw_version y)) (\<lambda>_. True) w (ts_work st))
       (\<lambda>rows. Inr (st\<lparr>ts_work := rows\<rparr>))"

definition transition_events :: "uuid \<Rightarrow> tenant_status \<Rightarrow> tenant_event list" where
  "transition_events ten target =
     (if target = ACTIVE_TENANT then [TenantActivated ten]
      else if target = SUSPENDED_TENANT then [TenantSuspended ten] else [])"

definition transition ::
  "request_context \<Rightarrow> uuid \<Rightarrow> uuid \<Rightarrow> tenant_status \<Rightarrow> tenant_store \<Rightarrow> exn + tenant_store \<times> tenant_event list" where
  "transition req ten event_id target st =
     bind_res (own_tenant req ten) (\<lambda>tc.
       case find_tenant st ten of
         None \<Rightarrow> Inl tenant_not_found
       | Some t \<Rightarrow>
           if target \<notin> set (transitions (tr_status t))
           then Inl (BusinessOSError ''invalid_transition'' ''Tenant lifecycle transition is not allowed'' 409)
           else
             let op = requested_work (tr_status t) target; version = tr_version t + 1 in
             bind_res (prerequisite st t op) (\<lambda>dependency.
               let st1 = st\<lparr>ts_tenants := set_status ten target version (ts_tenants st),
                     ts_history := ts_history st @ [\<lparr>sc_tenant = ten, sc_from = Some (tr_status t), sc_to = target, sc_by = principal_id tc\<rparr>]\<rparr>
               in case op of
                    None \<Rightarrow> Inr (st1, transition_events ten target)
                  | Some o' \<Rightarrow>
                      bind_res (insert_work \<lparr>lw_id = event_id, lw_tenant = ten, lw_version = version, lw_operation = o',
                          lw_state = PENDING, lw_depends = dependency\<rparr> st1) (\<lambda>st2.
                        Inr (st2, transition_events ten target @ [TenantLifecycleWorkRequested ten event_id o']))))"

section \<open>Lifecycle hooks\<close>

text \<open>
  \<open>TenantLifecycleHooks\<close>: the registered owners; a run calls them in order (deletion in reverse) and stops
  at the first exception. The result is the calls made and the outcome.
\<close>

type_synonym hook_call = "string \<times> lifecycle_operation \<times> uuid \<times> uuid"
type_synonym hook = "hook_call \<Rightarrow> exn + unit"

definition register_hook :: "string \<Rightarrow> string list \<Rightarrow> exn + string list" where
  "register_hook owner owners =
     (if owner \<in> set owners then Inl (ValueError (''Tenant lifecycle hook already registered: '' @ owner)) else Inr (owners @ [owner]))"

definition hook_order :: "lifecycle_operation \<Rightarrow> string list \<Rightarrow> string list" where
  "hook_order op owners = (if op = DELETE then rev (sorted_set owners) else sorted_set owners)"

fun run_hooks :: "hook \<Rightarrow> hook_call list \<Rightarrow> hook_call list \<times> (exn + unit)" where
  "run_hooks hook [] = ([], Inr ())"
| "run_hooks hook (c # cs) =
     (case hook c of
        Inl e \<Rightarrow> ([c], Inl e)
      | Inr _ \<Rightarrow> (let (made, r) = run_hooks hook cs in (c # made, r)))"

definition hook_calls :: "string list \<Rightarrow> lifecycle_operation \<Rightarrow> uuid \<Rightarrow> uuid \<Rightarrow> hook_call list" where
  "hook_calls owners op ten i = map (\<lambda>w. (w, op, ten, i)) (hook_order op owners)"

definition expected_status :: "lifecycle_operation \<Rightarrow> tenant_status" where
  "expected_status op = (case op of RESTORE \<Rightarrow> ACTIVE_TENANT | EXPORT \<Rightarrow> TERMINATING | DELETE \<Rightarrow> DELETED)"

definition finish_work :: "uuid \<Rightarrow> work_state \<Rightarrow> tenant_store \<Rightarrow> tenant_store" where
  "finish_work i s st = st\<lparr>ts_work := map (\<lambda>w. if lw_id w = i then w\<lparr>lw_state := s\<rparr> else w) (ts_work st)\<rparr>"

definition work_pending :: exn where
  "work_pending = BusinessOSError ''lifecycle_prerequisite_pending'' ''Lifecycle prerequisite is pending'' 409"

definition run_lifecycle_hooks ::
  "string list \<Rightarrow> hook \<Rightarrow> uuid \<Rightarrow> uuid \<Rightarrow> lifecycle_operation \<Rightarrow> tenant_store \<Rightarrow> hook_call list \<times> (exn + tenant_store)" where
  "run_lifecycle_hooks owners hook ten i op st =
     (case find_tenant st ten of
        None \<Rightarrow> ([], Inl tenant_not_found)
      | Some t \<Rightarrow>
          (case List.find (\<lambda>w. lw_tenant w = ten \<and> lw_id w = i) (ts_work st) of
             None \<Rightarrow> ([], Inl (BusinessOSError ''invalid_lifecycle_work'' ''Lifecycle work is unknown'' 409))
           | Some w \<Rightarrow>
               if lw_operation w \<noteq> op then ([], Inl (BusinessOSError ''invalid_lifecycle_work'' ''Lifecycle work is unknown'' 409))
               else if lw_state w \<noteq> PENDING then ([], Inr st)
               else if (case lw_depends w of
                     None \<Rightarrow> False
                   | Some d \<Rightarrow> map_option lw_state (List.find (\<lambda>p. lw_tenant p = ten \<and> lw_id p = d) (ts_work st)) \<noteq> Some COMPLETED)
               then ([], Inl work_pending)
               else if tr_version t \<noteq> lw_version w \<or> tr_status t \<noteq> expected_status op
               then ([], Inr (finish_work i SKIPPED st))
               else (let (made, r) = run_hooks hook (hook_calls owners op ten i)
                     in (made, case r of Inl e \<Rightarrow> Inl e | Inr _ \<Rightarrow> Inr (finish_work i COMPLETED st)))))"

section \<open>Entitlements, quotas, reads\<close>

definition require_existing :: "tenant_store \<Rightarrow> uuid \<Rightarrow> exn + unit" where
  "require_existing st ten = raise_if (find_tenant st ten = None) tenant_not_found"

definition set_entitlement :: "request_context \<Rightarrow> entitlement \<Rightarrow> tenant_store \<Rightarrow> exn + tenant_store" where
  "set_entitlement req e st =
     bind_res (own_tenant req (en_tenant e)) (\<lambda>_.
     bind_res (validate_effective_period (map_option Timed (en_from e)) (map_option Timed (en_until e))) (\<lambda>_.
     bind_res (require_existing st (en_tenant e)) (\<lambda>_.
       let same = (\<lambda>x. en_tenant x = en_tenant e \<and> en_capability x = en_capability e) in
       Inr (st\<lparr>ts_entitlements :=
         (if list_ex same (ts_entitlements st) then map (\<lambda>x. if same x then e else x) (ts_entitlements st)
          else ts_entitlements st @ [e])\<rparr>))))"

definition set_quota :: "request_context \<Rightarrow> quota \<Rightarrow> tenant_store \<Rightarrow> exn + tenant_store" where
  "set_quota req q st =
     bind_res (own_tenant req (qu_tenant q)) (\<lambda>_.
     bind_res (require_existing st (qu_tenant q)) (\<lambda>_.
       let same = (\<lambda>x. qu_tenant x = qu_tenant q \<and> qu_name x = qu_name q) in
       Inr (st\<lparr>ts_quotas :=
         (if list_ex same (ts_quotas st) then map (\<lambda>x. if same x then q else x) (ts_quotas st) else ts_quotas st @ [q])\<rparr>)))"

definition get_tenant :: "request_context \<Rightarrow> uuid \<Rightarrow> tenant_store \<Rightarrow> exn + tenant_row" where
  "get_tenant req ten st =
     bind_res (own_tenant req ten) (\<lambda>_. case find_tenant st ten of None \<Rightarrow> Inl tenant_not_found | Some t \<Rightarrow> Inr t)"

definition get_entitlements :: "request_context \<Rightarrow> uuid \<Rightarrow> tenant_store \<Rightarrow> exn + entitlement list" where
  "get_entitlements req ten st =
     bind_res (own_tenant req ten) (\<lambda>_. bind_res (require_existing st ten) (\<lambda>_.
       Inr (order_by (\<lambda>x y. en_capability x \<le> en_capability y) (filter (\<lambda>e. en_tenant e = ten) (ts_entitlements st)))))"

definition get_quotas :: "request_context \<Rightarrow> uuid \<Rightarrow> tenant_store \<Rightarrow> exn + quota list" where
  "get_quotas req ten st =
     bind_res (own_tenant req ten) (\<lambda>_. bind_res (require_existing st ten) (\<lambda>_.
       Inr (order_by (\<lambda>x y. qu_name x \<le> qu_name y) (filter (\<lambda>q. qu_tenant q = ten) (ts_quotas st)))))"

definition entitlement_effective :: "entitlement \<Rightarrow> moment \<Rightarrow> exn + bool" where
  "entitlement_effective e t =
     (if en_enabled e then effective_at (map_option Timed (en_from e)) (map_option Timed (en_until e)) (Timed t) else Inr False)"

text \<open>\<open>DatabaseTenantAccessValidator.require_active_in\<close>.\<close>

definition require_active_tenant :: "tenant_store \<Rightarrow> uuid \<Rightarrow> exn + unit" where
  "require_active_tenant st ten =
     raise_if (map_option tr_status (find_tenant st ten) \<noteq> Some ACTIVE_TENANT)
       (BusinessOSError ''tenant_unavailable'' ''Tenant is not active'' 403)"

section \<open>Histories\<close>

text \<open>
  Commands that commit, and deliveries of lifecycle work. A delivery that fails is rolled back, but the
  hooks it called before were called: the log keeps them.
\<close>

inductive tenant_step :: "string list \<Rightarrow> tenant_store \<times> hook_call list \<Rightarrow> tenant_store \<times> hook_call list \<Rightarrow> bool" for owners where
  provisioned: "provision req ten slug st = Inr (st', es) \<Longrightarrow> tenant_step owners (st, log) (st', log)"
| moved: "transition req ten i target st = Inr (st', es) \<Longrightarrow> tenant_step owners (st, log) (st', log)"
| entitled: "set_entitlement req e st = Inr st' \<Longrightarrow> tenant_step owners (st, log) (st', log)"
| limited: "set_quota req q st = Inr st' \<Longrightarrow> tenant_step owners (st, log) (st', log)"
| worked: "run_lifecycle_hooks owners hook ten i op st = (made, Inr st') \<Longrightarrow> tenant_step owners (st, log) (st', log @ made)"
| failed: "run_lifecycle_hooks owners hook ten i op st = (made, Inl e) \<Longrightarrow> tenant_step owners (st, log) (st, log @ made)"

inductive reachable_tenants :: "string list \<Rightarrow> tenant_store \<Rightarrow> hook_call list \<Rightarrow> bool" for owners where
  empty: "reachable_tenants owners \<lparr>ts_tenants = [], ts_history = [], ts_work = [], ts_entitlements = [], ts_quotas = []\<rparr> []"
| step: "reachable_tenants owners st log \<Longrightarrow> tenant_step owners (st, log) (st', log') \<Longrightarrow> reachable_tenants owners st' log'"

section \<open>Deletion is last and after the export\<close>

definition deleted_tenant :: "tenant_store \<Rightarrow> uuid \<Rightarrow> bool" where
  "deleted_tenant st ten \<longleftrightarrow> (\<exists>t \<in> set (ts_tenants st). tr_id t = ten \<and> tr_status t = DELETED)"

definition exported_by :: "tenant_store \<Rightarrow> lifecycle_work \<Rightarrow> bool" where
  "exported_by st w \<longleftrightarrow> (\<exists>e \<in> set (ts_work st). lw_depends w = Some (lw_id e) \<and> lw_tenant e = lw_tenant w
     \<and> lw_operation e = EXPORT \<and> lw_state e = COMPLETED)"

definition work_ok :: "tenant_store \<Rightarrow> bool" where
  "work_ok st \<longleftrightarrow> distinct (map tr_id (ts_tenants st)) \<and> distinct (map lw_id (ts_work st))
     \<and> (\<forall>w \<in> set (ts_work st). lw_operation w = DELETE \<longrightarrow> exported_by st w \<and> deleted_tenant st (lw_tenant w))"

definition called_all :: "string list \<Rightarrow> lifecycle_operation \<Rightarrow> uuid \<Rightarrow> uuid \<Rightarrow> hook_call list \<Rightarrow> bool" where
  "called_all owners op ten i log \<longleftrightarrow> set (hook_calls owners op ten i) \<subseteq> set log"

definition log_ok :: "string list \<Rightarrow> tenant_store \<Rightarrow> hook_call list \<Rightarrow> bool" where
  "log_ok owners st log \<longleftrightarrow>
     (\<forall>w \<in> set (ts_work st). lw_state w = COMPLETED \<longrightarrow> called_all owners (lw_operation w) (lw_tenant w) (lw_id w) log)
     \<and> (\<forall>pre o' ten i post. log = pre @ (o', DELETE, ten, i) # post \<longrightarrow>
          deleted_tenant st ten \<and> (\<exists>e. called_all owners EXPORT ten e pre)
          \<and> (\<forall>(x, op, t, j) \<in> set post. t = ten \<longrightarrow> op = DELETE))"

lemma find_unique: "distinct (map f xs) \<Longrightarrow> x \<in> set xs \<Longrightarrow> f x = k \<Longrightarrow> List.find (\<lambda>y. f y = k) xs = Some x"
  by (induction xs) (auto simp: image_iff)

lemma set_status_ids [simp]: "map tr_id (set_status ten target v ts) = map tr_id ts"
  by (simp add: set_status_def o_def if_distrib cong: if_cong)

lemma finish_work_ids [simp]: "map lw_id (ts_work (finish_work i s st)) = map lw_id (ts_work st)"
  by (simp add: finish_work_def o_def if_distrib cong: if_cong)

lemma find_tenant_in: "find_tenant st ten = Some t \<Longrightarrow> t \<in> set (ts_tenants st) \<and> tr_id t = ten"
  unfolding find_tenant_def by (auto dest: select_first_Some [unfolded select_first_def])

text \<open>A transition never leaves the deleted state.\<close>

lemma transition_keeps_deleted:
  assumes "transition req ten i target st = Inr (st', es)" and "deleted_tenant st d" and "distinct (map tr_id (ts_tenants st))"
  shows "deleted_tenant st' d"
proof -
  from assms(1) obtain t where t: "find_tenant st ten = Some t" "target \<in> set (transitions (tr_status t))"
    by (auto simp: transition_def bind_res_Inr split: option.splits if_splits)
  have rows: "ts_tenants st' = set_status ten target (tr_version t + 1) (ts_tenants st)"
    using assms(1) t by (auto simp: transition_def bind_res_Inr Let_def insert_work_def split: option.splits)
  from assms(2) obtain x where x: "x \<in> set (ts_tenants st)" "tr_id x = d" "tr_status x = DELETED"
    by (auto simp: deleted_tenant_def)
  have "d \<noteq> ten"
  proof
    assume "d = ten"
    with x find_tenant_in [OF t(1)] assms(3) have "x = t" by (auto simp: distinct_map inj_on_def)
    with x t(2) show False by (simp add: transitions_def)
  qed
  with x show ?thesis unfolding deleted_tenant_def rows by (intro bexI [of _ x]) (auto simp: set_status_def)
qed

lemma exported_by_grows: "set (ts_work st) \<subseteq> set (ts_work st') \<Longrightarrow> exported_by st w \<Longrightarrow> exported_by st' w"
  by (auto simp: exported_by_def)

lemma transition_work:
  assumes "transition req ten i target st = Inr (st', es)" and "distinct (map tr_id (ts_tenants st))"
  shows "(ts_work st' = ts_work st \<or> (\<exists>w. ts_work st' = ts_work st @ [w] \<and> lw_id w \<notin> lw_id ` set (ts_work st) \<and> lw_state w = PENDING
       \<and> (lw_operation w = DELETE \<longrightarrow> exported_by st w \<and> deleted_tenant st' (lw_tenant w))))
    \<and> map tr_id (ts_tenants st') = map tr_id (ts_tenants st)"
proof -
  from assms(1) obtain t dep where t: "find_tenant st ten = Some t"
    and dep: "prerequisite st t (requested_work (tr_status t) target) = Inr dep"
    by (auto simp: transition_def bind_res_Inr Let_def split: option.splits if_splits)
  have rows: "ts_tenants st' = set_status ten target (tr_version t + 1) (ts_tenants st)"
    using assms(1) t by (auto simp: transition_def bind_res_Inr Let_def insert_work_def split: option.splits if_splits)
  show ?thesis
  proof (cases "requested_work (tr_status t) target")
    case None
    with assms(1) t dep rows show ?thesis by (auto simp: transition_def bind_res_Inr Let_def split: if_splits)
  next
    case (Some op)
    define w where "w = \<lparr>lw_id = i, lw_tenant = ten, lw_version = tr_version t + 1, lw_operation = op, lw_state = PENDING, lw_depends = dep\<rparr>"
    from assms(1) t dep Some have w: "ts_work st' = ts_work st @ [w]" "lw_id w \<notin> lw_id ` set (ts_work st)"
      by (auto simp: transition_def bind_res_Inr Let_def insert_work_def w_def split: if_splits)
    have "exported_by st w \<and> deleted_tenant st' (lw_tenant w)" if "op = DELETE"
    proof -
      from that Some have "target = DELETED" by (simp add: requested_work_def split: if_splits)
      with find_tenant_in [OF t] have "deleted_tenant st' ten"
        unfolding deleted_tenant_def rows set_status_def
        by (intro bexI [of _ "t\<lparr>tr_status := target, tr_version := tr_version t + 1\<rparr>"]) (auto simp: image_iff)
      moreover from dep Some that obtain e where
        e: "List.find (\<lambda>w. lw_tenant w = tr_id t \<and> lw_version w = tr_version t \<and> lw_operation w = EXPORT) (ts_work st) = Some e"
        "lw_state e = COMPLETED" "dep = Some (lw_id e)"
        by (auto simp: prerequisite_def split: option.splits if_splits)
      from select_first_Some [unfolded select_first_def, OF e(1)] e(2,3) find_tenant_in [OF t]
      have "exported_by st w" unfolding exported_by_def by (intro bexI [of _ e]) (auto simp: w_def)
      ultimately show ?thesis by (simp add: w_def)
    qed
    with w rows show ?thesis by (auto simp: w_def)
  qed
qed

lemma work_ok_transition:
  assumes "transition req ten i target st = Inr (st', es)" and "work_ok st"
  shows "work_ok st'"
proof -
  have d: "distinct (map tr_id (ts_tenants st))" using assms(2) by (simp add: work_ok_def)
  note T = transition_work [OF assms(1) d] and K = transition_keeps_deleted [OF assms(1) _ d]
  from T consider "ts_work st' = ts_work st"
    | w where "ts_work st' = ts_work st @ [w]" "lw_id w \<notin> lw_id ` set (ts_work st)"
        "lw_operation w = DELETE \<longrightarrow> exported_by st w \<and> deleted_tenant st' (lw_tenant w)" by blast
  then show ?thesis
  proof cases
    case 1
    with T K assms(2) show ?thesis by (auto simp: work_ok_def exported_by_def)
  next
    case (2 w)
    have "exported_by st' v" if "exported_by st v" for v
      by (rule exported_by_grows [OF _ that]) (simp add: 2(1) subset_insertI)
    with T K assms(2) 2 show ?thesis by (auto simp: work_ok_def)
  qed
qed

lemma finish_work_ok:
  assumes "work_ok st" and "w \<in> set (ts_work st)" and "lw_id w = i" and "lw_state w = PENDING"
  shows "work_ok (finish_work i s st)"
proof -
  have kept: "exported_by (finish_work i s st) v" if v: "exported_by st v" for v
  proof -
    from v obtain e where e: "e \<in> set (ts_work st)" "lw_depends v = Some (lw_id e)" "lw_tenant e = lw_tenant v"
      "lw_operation e = EXPORT" "lw_state e = COMPLETED" by (auto simp: exported_by_def)
    with assms have "lw_id e \<noteq> i" by (auto simp: work_ok_def distinct_map inj_on_def)
    with e show ?thesis unfolding exported_by_def by (intro bexI [of _ e]) (auto simp: finish_work_def image_iff)
  qed
  have "exported_by st v \<and> deleted_tenant st (lw_tenant v)" if "v \<in> set (ts_work st)" "lw_operation v = DELETE" for v
    using assms(1) that by (simp add: work_ok_def)
  with kept have "exported_by (finish_work i s st) (v\<lparr>lw_state := s\<rparr>) \<and> exported_by (finish_work i s st) v
      \<and> deleted_tenant st (lw_tenant v)" if "v \<in> set (ts_work st)" "lw_operation v = DELETE" for v
    using that by (fastforce simp: exported_by_def)
  with assms(1) show ?thesis
    by (auto simp: work_ok_def deleted_tenant_def finish_work_def [of i s st, THEN arg_cong [of _ _ ts_tenants]]) (auto simp: finish_work_def split: if_splits)
qed

lemma run_hooks_made: "run_hooks hook cs = (made, r) \<Longrightarrow> set made \<subseteq> set cs \<and> (r = Inr u \<longrightarrow> made = cs)"
  by (induction cs arbitrary: made) (auto split: sum.splits prod.splits)

lemma handled_calls:
  assumes "run_lifecycle_hooks owners hook ten i op st = (made, r)" and "made \<noteq> []"
  shows "\<exists>t w. find_tenant st ten = Some t \<and> w \<in> set (ts_work st) \<and> lw_tenant w = ten \<and> lw_id w = i \<and> lw_operation w = op
    \<and> tr_status t = expected_status op \<and> set made \<subseteq> set (hook_calls owners op ten i)"
proof -
  from assms obtain t where t: "find_tenant st ten = Some t"
    by (auto simp: run_lifecycle_hooks_def split: option.splits)
  from assms t obtain w where w: "List.find (\<lambda>w. lw_tenant w = ten \<and> lw_id w = i) (ts_work st) = Some w"
    by (auto simp: run_lifecycle_hooks_def split: option.splits)
  note win = select_first_Some [unfolded select_first_def, OF w]
  from assms t w have op: "lw_operation w = op" "tr_status t = expected_status op"
    "made = fst (run_hooks hook (hook_calls owners op ten i))"
    by (auto simp: run_lifecycle_hooks_def split: if_splits prod.splits option.splits)
  obtain r' where "run_hooks hook (hook_calls owners op ten i) = (made, r')" using op(3) by (cases "run_hooks hook (hook_calls owners op ten i)") auto
  with run_hooks_made [OF this] t win op show ?thesis by blast
qed

lemma handled_store:
  assumes "run_lifecycle_hooks owners hook ten i op st = (made, Inr st')"
  shows "(st' = st \<and> made = []) \<or> (\<exists>w. w \<in> set (ts_work st) \<and> lw_id w = i \<and> lw_state w = PENDING \<and> lw_tenant w = ten \<and> lw_operation w = op
    \<and> (st' = finish_work i SKIPPED st \<and> made = [] \<or> st' = finish_work i COMPLETED st \<and> made = hook_calls owners op ten i))"
proof -
  from assms obtain t where t: "find_tenant st ten = Some t"
    by (auto simp: run_lifecycle_hooks_def split: option.splits)
  from assms t obtain w where w: "List.find (\<lambda>w. lw_tenant w = ten \<and> lw_id w = i) (ts_work st) = Some w"
    by (auto simp: run_lifecycle_hooks_def split: option.splits)
  note win = select_first_Some [unfolded select_first_def, OF w]
  obtain ms r where run: "run_hooks hook (hook_calls owners op ten i) = (ms, r)" by fastforce
  from assms t w run_hooks_made [OF run] have "lw_state w \<noteq> PENDING \<and> st' = st \<and> made = []
      \<or> lw_state w = PENDING \<and> lw_operation w = op
        \<and> (st' = finish_work i SKIPPED st \<and> made = [] \<or> st' = finish_work i COMPLETED st \<and> made = hook_calls owners op ten i)"
    by (auto simp: run_lifecycle_hooks_def run split: if_splits sum.splits option.splits)
  with win show ?thesis by blast
qed

lemma append_split:
  assumes "xs @ ys = pre @ c # post"
  shows "(\<exists>post0. xs = pre @ c # post0 \<and> post = post0 @ ys) \<or> (\<exists>pre0. ys = pre0 @ c # post \<and> pre = xs @ pre0)"
  using assms by (auto simp: append_eq_append_conv2 append_eq_Cons_conv)

lemma deleted_status: "deleted_tenant st ten \<Longrightarrow> work_ok st \<Longrightarrow> find_tenant st ten = Some t \<Longrightarrow> tr_status t = DELETED"
  using find_tenant_in [of st ten t] by (auto simp: deleted_tenant_def work_ok_def distinct_map inj_on_def)

lemma log_ok_extend:
  assumes "run_lifecycle_hooks owners hook ten i op st = (made, r)" and "work_ok st" and "log_ok owners st log"
    and "log @ made = pre @ (o', DELETE, d, j) # post"
  shows "deleted_tenant st d \<and> (\<exists>e. called_all owners EXPORT d e pre) \<and> (\<forall>(x, op, t, j) \<in> set post. t = d \<longrightarrow> op = DELETE)"
proof (cases "made = []")
  case True
  with assms show ?thesis by (auto simp: log_ok_def)
next
  case False
  from handled_calls [OF assms(1) False] obtain t w where h: "find_tenant st ten = Some t" "w \<in> set (ts_work st)"
    "lw_tenant w = ten" "lw_operation w = op" "tr_status t = expected_status op" "set made \<subseteq> set (hook_calls owners op ten i)" by blast
  have calls: "c \<in> set made \<Longrightarrow> \<exists>x. c = (x, op, ten, i)" for c using h(6) by (auto simp: hook_calls_def)
  from append_split [OF assms(4)] show ?thesis
  proof (elim disjE exE conjE)
    fix post0 assume log: "log = pre @ (o', DELETE, d, j) # post0" "post = post0 @ made"
    with assms(3) have old: "deleted_tenant st d" "\<exists>e. called_all owners EXPORT d e pre" "\<forall>(x, op, t, j) \<in> set post0. t = d \<longrightarrow> op = DELETE"
      unfolding log_ok_def by blast+
    have "op = DELETE" if "ten = d"
      using deleted_status [OF old(1) assms(2)] h(1,5) that by (cases op) (auto simp: expected_status_def)
    with old log calls show ?thesis by fastforce
  next
    fix pre0 assume made: "made = pre0 @ (o', DELETE, d, j) # post" "pre = log @ pre0"
    with calls have eq: "op = DELETE" "d = ten" by force+
    with assms(2) h have "exported_by st w" "deleted_tenant st d" by (auto simp: work_ok_def)
    then obtain e where "e \<in> set (ts_work st)" "lw_tenant e = d" "lw_operation e = EXPORT" "lw_state e = COMPLETED"
      using h eq by (auto simp: exported_by_def)
    with assms(3) have "called_all owners EXPORT d (lw_id e) log" by (auto simp: log_ok_def)
    then have "called_all owners EXPORT d (lw_id e) pre" unfolding made(2) called_all_def by auto
    moreover have "op' = DELETE" if "(x, op', t, j') \<in> set post" for x op' t j'
    proof -
      from that have "(x, op', t, j') \<in> set made" unfolding made(1) by simp
      with calls eq(1) show ?thesis by blast
    qed
    then have "\<forall>(x, op', t, j) \<in> set post. t = d \<longrightarrow> op' = DELETE" by blast
    ultimately show ?thesis using \<open>deleted_tenant st d\<close> by blast
  qed
qed

lemma finish_work_in:
  assumes "v \<in> set (ts_work (finish_work i s st))" and "work_ok st" and "w \<in> set (ts_work st)" and "lw_id w = i"
  shows "v \<in> set (ts_work st) \<or> v = w\<lparr>lw_state := s\<rparr>"
proof -
  from assms(1) obtain x where x: "x \<in> set (ts_work st)" "v = (if lw_id x = i then x\<lparr>lw_state := s\<rparr> else x)"
    by (auto simp: finish_work_def)
  have "lw_id x = i \<Longrightarrow> x = w" using assms(2-4) x(1) by (auto simp: work_ok_def distinct_map inj_on_def)
  with x show ?thesis by auto
qed

lemma tenant_step_ok:
  assumes "tenant_step owners (st, log) (st', log')" and "work_ok st" and "log_ok owners st log"
  shows "work_ok st' \<and> log_ok owners st' log'"
  using assms(1)
proof cases
  case (provisioned req ten slug es)
  then have st': "ts_work st' = ts_work st" "\<exists>t. ts_tenants st' = ts_tenants st @ [t] \<and> tr_id t \<notin> tr_id ` set (ts_tenants st)"
    by (auto simp: provision_def bind_res_Inr)
  then have "deleted_tenant st t \<Longrightarrow> deleted_tenant st' t" for t by (auto simp: deleted_tenant_def)
  with st' provisioned assms(2,3) show ?thesis by (auto simp: work_ok_def log_ok_def exported_by_def)
next
  case (moved req ten i target es)
  have d: "distinct (map tr_id (ts_tenants st))" using assms(2) by (simp add: work_ok_def)
  have "log_ok owners st' log"
    using assms(3) transition_work [OF moved(2) d] transition_keeps_deleted [OF moved(2) _ d]
    unfolding log_ok_def by (auto 0 3)
  with work_ok_transition [OF moved(2) assms(2)] moved show ?thesis by simp
next
  case (entitled req e)
  then have "ts_work st' = ts_work st" "ts_tenants st' = ts_tenants st" by (auto simp: set_entitlement_def bind_res_Inr Let_def)
  with entitled assms(2,3) show ?thesis by (simp add: work_ok_def log_ok_def exported_by_def deleted_tenant_def)
next
  case (limited req q)
  then have "ts_work st' = ts_work st" "ts_tenants st' = ts_tenants st" by (auto simp: set_quota_def bind_res_Inr Let_def)
  with limited assms(2,3) show ?thesis by (simp add: work_ok_def log_ok_def exported_by_def deleted_tenant_def)
next
  case (worked hook ten i op made)
  have same: "deleted_tenant (finish_work i s st) = deleted_tenant st" for s by (simp add: deleted_tenant_def finish_work_def fun_eq_iff)
  have del: "deleted_tenant st' = deleted_tenant st" using handled_store [OF worked(2)] same by auto
  have ok: "work_ok st'" using handled_store [OF worked(2)] assms(2) finish_work_ok by auto
  have "called_all owners (lw_operation v) (lw_tenant v) (lw_id v) (log @ made)"
    if "v \<in> set (ts_work st')" "lw_state v = COMPLETED" for v
  proof -
    have "v \<in> set (ts_work st) \<or> (\<exists>w. v = w\<lparr>lw_state := COMPLETED\<rparr> \<and> lw_id w = i \<and> lw_tenant w = ten \<and> lw_operation w = op
        \<and> made = hook_calls owners op ten i)"
    proof (cases "st' = st")
      case False
      with handled_store [OF worked(2)] obtain w s where w: "w \<in> set (ts_work st)" "lw_id w = i" "lw_tenant w = ten"
        "lw_operation w = op" and s: "st' = finish_work i s st" "s = COMPLETED \<longrightarrow> made = hook_calls owners op ten i" by auto
      from finish_work_in [OF that(1) [unfolded s(1)] assms(2) w(1,2)] that(2) w s show ?thesis by auto
    qed (use that in simp)
    then consider "v \<in> set (ts_work st)"
      | w where "v = w\<lparr>lw_state := COMPLETED\<rparr>" "lw_id w = i" "lw_tenant w = ten" "lw_operation w = op"
          "made = hook_calls owners op ten i" by blast
    then show ?thesis
    proof cases
      case 1
      with that assms(3) show ?thesis by (auto simp: log_ok_def called_all_def)
    qed (simp add: called_all_def)
  qed
  then have "log_ok owners st' (log @ made)"
    unfolding log_ok_def del using log_ok_extend [OF worked(2) assms(2,3)] by blast
  with ok worked(1) show ?thesis by simp
next
  case (failed hook ten i op made e)
  have "called_all owners (lw_operation v) (lw_tenant v) (lw_id v) (log @ made)"
    if "v \<in> set (ts_work st)" "lw_state v = COMPLETED" for v
    using that assms(3) by (auto simp: log_ok_def called_all_def)
  then have "log_ok owners st (log @ made)"
    unfolding log_ok_def using log_ok_extend [OF failed(3) assms(2,3)] by blast
  with failed assms(2) show ?thesis by simp
qed

lemma log_okD:
  "log_ok owners st log \<Longrightarrow> log = pre @ (o', DELETE, ten, i) # post \<Longrightarrow>
   deleted_tenant st ten \<and> (\<exists>e. called_all owners EXPORT ten e pre) \<and> (\<forall>(x, op, t, j) \<in> set post. t = ten \<longrightarrow> op = DELETE)"
  unfolding log_ok_def by blast

lemma reachable_tenants_ok: "reachable_tenants owners st log \<Longrightarrow> work_ok st \<and> log_ok owners st log"
proof (induction rule: reachable_tenants.induct)
  case empty
  then show ?case by (simp add: work_ok_def log_ok_def)
next
  case (step st log st' log')
  then show ?case using tenant_step_ok by blast
qed

text \<open>
  C24: However commands and deliveries of lifecycle work interleave, fail and repeat: when a deletion hook of
  a tenant has been called, every registered hook had been called before for one export of that tenant,
  the tenant is deleted now and will stay so, and no export or restore hook of it was called afterwards.
\<close>

theorem deletion_is_last_and_after_export:
  assumes "reachable_tenants owners st (pre @ (owner, DELETE, ten, i) # post)"
  shows "deleted_tenant st ten \<and> (\<exists>e. set (hook_calls owners EXPORT ten e) \<subseteq> set pre)
    \<and> (\<forall>(x, op, t, j) \<in> set post. t = ten \<longrightarrow> op = DELETE)"
  using log_okD [OF conjunct2 [OF reachable_tenants_ok [OF assms]] refl] unfolding called_all_def .

section \<open>A sample life\<close>

definition sample_tenant_request :: request_context where
  "sample_tenant_request = \<lparr>correlation_id = ''c'', trace_id = ''t'', tenant = Some (tenant_context_of 1 7 42)\<rparr>"

datatype tenant_action = Provision string | Move uuid tenant_status | Work uuid lifecycle_operation

fun run_tenant :: "hook \<Rightarrow> string list \<Rightarrow> tenant_action list \<Rightarrow> tenant_store \<times> hook_call list \<Rightarrow> (tenant_store \<times> hook_call list) option" where
  "run_tenant hook owners [] s = Some s"
| "run_tenant hook owners (a # as) (st, log) =
     (case a of
        Provision slug \<Rightarrow> (case provision sample_tenant_request 7 slug st of Inr (st', _) \<Rightarrow> run_tenant hook owners as (st', log) | Inl _ \<Rightarrow> None)
      | Move i target \<Rightarrow>
          (case transition sample_tenant_request 7 i target st of Inr (st', _) \<Rightarrow> run_tenant hook owners as (st', log) | Inl _ \<Rightarrow> None)
      | Work i op \<Rightarrow>
          (case run_lifecycle_hooks owners hook 7 i op st of
             (made, Inr st') \<Rightarrow> run_tenant hook owners as (st', log @ made)
           | (made, Inl _) \<Rightarrow> run_tenant hook owners as (st, log @ made)))"

lemma run_tenant_reachable:
  "reachable_tenants owners st log \<Longrightarrow> run_tenant hook owners as (st, log) = Some (st', log') \<Longrightarrow> reachable_tenants owners st' log'"
proof (induction as arbitrary: st log)
  case (Cons a as)
  note go = Cons.IH [OF reachable_tenants.step [OF Cons.prems(1)]]
  show ?case
  proof (cases a)
    case (Provision slug)
    with Cons.prems(2) show ?thesis by (auto split: sum.splits intro: go [OF provisioned])
  next
    case (Move i target)
    with Cons.prems(2) show ?thesis by (auto split: sum.splits intro: go [OF moved])
  next
    case (Work i op)
    with Cons.prems(2) show ?thesis by (auto split: sum.splits prod.splits intro: go [OF worked] go [OF failed])
  qed
qed simp

definition sample_life :: "tenant_action list" where
  "sample_life = [Provision ''acme'', Move 1 PROVISIONING, Move 2 ACTIVE_TENANT, Move 3 TERMINATING, Work 3 EXPORT, Move 4 DELETED, Work 4 DELETE]"

definition steady_hook :: hook where
  "steady_hook c = Inr ()"

definition empty_tenants :: tenant_store where
  "empty_tenants = \<lparr>ts_tenants = [], ts_history = [], ts_work = [], ts_entitlements = [], ts_quotas = []\<rparr>"

lemma sample_life_log:
  "map_option snd (run_tenant steady_hook [''files'', ''ledger''] sample_life (empty_tenants, []))
     = Some [(''files'', EXPORT, 7, 3), (''ledger'', EXPORT, 7, 3), (''ledger'', DELETE, 7, 4), (''files'', DELETE, 7, 4)]"
  by code_simp

theorem deletion_is_last_and_after_export_witness:
  "\<exists>st e. deleted_tenant st 7 \<and> run_tenant steady_hook [''files'', ''ledger''] sample_life (empty_tenants, []) \<noteq> None
     \<and> set (hook_calls [''files'', ''ledger''] EXPORT 7 e) \<subseteq> set [(''files'', EXPORT, 7, 3), (''ledger'', EXPORT, 7, 3)]"
proof -
  let ?pre = "[(''files'', EXPORT, 7, 3), (''ledger'', EXPORT, 7, 3)] :: hook_call list"
  from sample_life_log obtain st where
    "run_tenant steady_hook [''files'', ''ledger''] sample_life (empty_tenants, [])
       = Some (st, ?pre @ (''ledger'', DELETE, 7, 4) # [(''files'', DELETE, 7, 4)])" by auto
  moreover from run_tenant_reachable [OF reachable_tenants.empty [folded empty_tenants_def] this]
  have "reachable_tenants [''files'', ''ledger''] st (?pre @ (''ledger'', DELETE, 7, 4) # [(''files'', DELETE, 7, 4)])" .
  from deletion_is_last_and_after_export [OF this] have "deleted_tenant st 7" "\<exists>e. set (hook_calls [''files'', ''ledger''] EXPORT 7 e) \<subseteq> set ?pre"
    by blast+
  ultimately show ?thesis by blast
qed

end
