(* ===== verification/Organization.thy ===== *)
theory Organization
  imports Policy_Evaluation Tenancy
begin

text \<open>
  The organization foundation (\<open>foundations/organization\<close>, \<open>module.py\<close>): the tenant's hierarchy of groups, entities, companies, units,
  regions, sites and warehouses, the lineage of a scope and the canonical selection of several. A row is
  one record with the columns of all tables, a table the list of its rows; one reading of the clock
  serves a whole operation.
\<close>

section \<open>Rows\<close>

datatype org_table = T_GROUPS | T_LEGAL_ENTITIES | T_COMPANIES | T_UNITS | T_REGIONS | T_SITE_TYPES | T_SITES | T_DIMENSIONS
  | T_WAREHOUSES | T_LOCATIONS

record org_row =
  or_id :: uuid
  or_tenant :: uuid
  or_code :: string
  or_active :: bool
  or_from :: "int option"
  or_until :: "int option"
  or_group :: "uuid option"
  or_legal_entity :: "uuid option"
  or_company :: "uuid option"
  or_parent :: "uuid option"
  or_region :: "uuid option"
  or_site_type :: "uuid option"
  or_site :: "uuid option"
  or_warehouse :: "uuid option"
  or_unit_type :: string
  or_dimension :: string

record relationship =
  rl_id :: uuid
  rl_tenant :: uuid
  rl_source :: "organization_scope \<times> uuid"
  rl_target :: "organization_scope \<times> uuid"
  rl_type :: string
  rl_from :: "int option"
  rl_until :: "int option"

record principal_assignment =
  pa_id :: uuid
  pa_tenant :: uuid
  pa_subject :: subject
  pa_scope :: "organization_scope \<times> uuid"
  pa_from :: "moment option"
  pa_until :: "moment option"

record delegated_scope =
  ds_id :: uuid
  ds_tenant :: uuid
  ds_grantor :: subject
  ds_recipient :: subject
  ds_scope :: "organization_scope \<times> uuid"
  ds_actions :: "string list"
  ds_from :: moment
  ds_until :: moment
  ds_source :: "string option"
  ds_parent :: "uuid option"
  ds_revoked :: "(instant \<times> subject) option"

record org_store =
  os_rows :: "org_table \<Rightarrow> org_row list"
  os_relationships :: "relationship list"
  os_assignments :: "principal_assignment list"
  os_delegations :: "delegated_scope list"

definition scope_table :: "organization_scope \<Rightarrow> org_table" where
  "scope_table s =
     (case s of ENTERPRISE_GROUP \<Rightarrow> T_GROUPS | ORG_LEGAL_ENTITY \<Rightarrow> T_LEGAL_ENTITIES | ORG_COMPANY \<Rightarrow> T_COMPANIES
        | ORG_UNIT \<Rightarrow> T_UNITS | REGION \<Rightarrow> T_REGIONS | ORG_OPERATING_SITE \<Rightarrow> T_SITES | WAREHOUSE \<Rightarrow> T_WAREHOUSES
        | FINANCIAL_DIMENSION \<Rightarrow> T_DIMENSIONS)"

definition org_require_tenant :: "request_context \<Rightarrow> uuid \<Rightarrow> exn + tenant_context" where
  "org_require_tenant req expected =
     (case tenant req of
        None \<Rightarrow> Inl (BusinessOSError ''unauthenticated'' ''Authentication required'' 401)
      | Some ten \<Rightarrow>
          if tenant_id ten \<noteq> expected then Inl (BusinessOSError ''forbidden'' ''Tenant scope mismatch'' 403) else Inr ten)"

definition hierarchy_inconsistent :: exn where
  "hierarchy_inconsistent = BusinessOSError ''invalid_organization_hierarchy'' ''Organization hierarchy is inconsistent'' 422"

definition invalid_org_scope :: exn where
  "invalid_org_scope = BusinessOSError ''invalid_organization_scope'' ''Organization scope is invalid'' 422"

text \<open>A null identifier matches no row.\<close>

definition require_owned :: "org_store \<Rightarrow> uuid \<Rightarrow> org_table \<Rightarrow> uuid option \<Rightarrow> exn + org_row" where
  "require_owned st ten tb i =
     (case i of
        None \<Rightarrow> Inl invalid_org_scope
      | Some x \<Rightarrow>
          (case List.find (\<lambda>r. or_id r = x \<and> or_tenant r = ten) (os_rows st tb) of
             None \<Rightarrow> Inl invalid_org_scope
           | Some r \<Rightarrow> Inr r))"

definition date_of :: "instant \<Rightarrow> int" where
  "date_of t = t div 86400000000"

definition require_effective_row :: "org_store \<Rightarrow> uuid \<Rightarrow> instant \<Rightarrow> org_table \<Rightarrow> uuid option \<Rightarrow> exn + org_row" where
  "require_effective_row st ten now tb i =
     bind_res (require_owned st ten tb i) (\<lambda>r.
       let inactive = Inl (BusinessOSError ''inactive_organization_scope'' ''Organization scope is not currently effective'' 422)
       in if \<not> or_active r then inactive
          else bind_res (effective_at (map_option Day (or_from r)) (map_option Day (or_until r)) (Day (date_of now)))
                 (\<lambda>live. if live then Inr r else inactive))"

section \<open>Commands on the hierarchy\<close>

definition insert_named :: "org_table \<Rightarrow> (org_row \<Rightarrow> org_row \<Rightarrow> bool) \<Rightarrow> org_row \<Rightarrow> org_store \<Rightarrow> exn + org_store" where
  "insert_named tb same_code r st =
     bind_res (validate_effective_period (map_option Day (or_from r)) (map_option Day (or_until r))) (\<lambda>_.
     bind_res (insert_row (\<lambda>x y. or_id x = or_id y \<or> (or_tenant x = or_tenant y \<and> same_code x y \<and> or_code x = or_code y))
                 (\<lambda>_. True) (r\<lparr>or_active := True\<rparr>) (os_rows st tb)) (\<lambda>rows.
       Inr (st\<lparr>os_rows := (os_rows st)(tb := rows)\<rparr>)))"

text \<open>The checks each creation makes before its insert.\<close>

definition require_parent :: "org_store \<Rightarrow> uuid \<Rightarrow> org_table \<Rightarrow> uuid option \<Rightarrow> (org_row \<Rightarrow> uuid option) \<Rightarrow> uuid option \<Rightarrow> exn + unit" where
  "require_parent st ten tb parent field expected =
     (if parent = None then Inr ()
      else bind_res (require_owned st ten tb parent) (\<lambda>p. raise_if (field p \<noteq> expected) hierarchy_inconsistent))"

definition creation_checks :: "org_store \<Rightarrow> org_table \<Rightarrow> org_row \<Rightarrow> exn + unit" where
  "creation_checks st tb r =
     (let owned = (\<lambda>t i. bind_res (require_owned st (or_tenant r) t i) (\<lambda>_. Inr ())) in
      case tb of
        T_GROUPS \<Rightarrow> validate_effective_period (map_option Day (or_from r)) (map_option Day (or_until r))
      | T_LEGAL_ENTITIES \<Rightarrow> owned T_GROUPS (or_group r)
      | T_COMPANIES \<Rightarrow> owned T_LEGAL_ENTITIES (or_legal_entity r)
      | T_UNITS \<Rightarrow> seq_res (owned T_COMPANIES (or_company r))
          (require_parent st (or_tenant r) T_UNITS (or_parent r) or_company (or_company r))
      | T_REGIONS \<Rightarrow> seq_res (owned T_COMPANIES (or_company r))
          (require_parent st (or_tenant r) T_REGIONS (or_parent r) or_company (or_company r))
      | T_SITE_TYPES \<Rightarrow> Inr ()
      | T_SITES \<Rightarrow> seq_res (owned T_COMPANIES (or_company r)) (seq_res (owned T_SITE_TYPES (or_site_type r))
          (require_parent st (or_tenant r) T_REGIONS (or_region r) or_company (or_company r)))
      | T_DIMENSIONS \<Rightarrow> owned T_COMPANIES (or_company r)
      | T_WAREHOUSES \<Rightarrow> seq_res (owned T_COMPANIES (or_company r))
          (require_parent st (or_tenant r) T_SITES (or_site r) or_company (or_company r))
      | T_LOCATIONS \<Rightarrow> seq_res (owned T_WAREHOUSES (or_warehouse r))
          (require_parent st (or_tenant r) T_LOCATIONS (or_parent r) or_warehouse (or_warehouse r)))"

text \<open>The column besides the tenant that a code is unique in.\<close>

definition code_space :: "org_table \<Rightarrow> org_row \<Rightarrow> uuid option" where
  "code_space tb r =
     (case tb of T_GROUPS \<Rightarrow> None | T_LEGAL_ENTITIES \<Rightarrow> None | T_COMPANIES \<Rightarrow> None | T_SITE_TYPES \<Rightarrow> None
        | T_LOCATIONS \<Rightarrow> or_warehouse r | _ \<Rightarrow> or_company r)"

definition create_node :: "request_context \<Rightarrow> org_table \<Rightarrow> org_row \<Rightarrow> org_store \<Rightarrow> exn + org_store" where
  "create_node req tb r st =
     bind_res (org_require_tenant req (or_tenant r)) (\<lambda>_.
     bind_res (creation_checks st tb r) (\<lambda>_.
       insert_named tb (\<lambda>x y. code_space tb x = code_space tb y \<and> (tb = T_DIMENSIONS \<longrightarrow> or_dimension x = or_dimension y)) r st))"

definition create_relationship :: "request_context \<Rightarrow> relationship \<Rightarrow> org_store \<Rightarrow> exn + org_store" where
  "create_relationship req l st =
     bind_res (org_require_tenant req (rl_tenant l)) (\<lambda>_.
     bind_res (validate_effective_period (map_option Day (rl_from l)) (map_option Day (rl_until l))) (\<lambda>_.
     bind_res (require_owned st (rl_tenant l) (scope_table (fst (rl_source l))) (Some (snd (rl_source l)))) (\<lambda>_.
     bind_res (require_owned st (rl_tenant l) (scope_table (fst (rl_target l))) (Some (snd (rl_target l)))) (\<lambda>_.
     bind_res (insert_row (\<lambda>x y. rl_id x = rl_id y
          \<or> (rl_tenant x = rl_tenant y \<and> rl_source x = rl_source y \<and> rl_target x = rl_target y \<and> rl_type x = rl_type y))
        (\<lambda>_. True) l (os_relationships st)) (\<lambda>rows.
       Inr (st\<lparr>os_relationships := rows\<rparr>))))))"

section \<open>Lineage\<close>

type_synonym scope_ref = "organization_scope \<times> uuid"

definition unit_kinds :: "string list" where
  "unit_kinds = [''business_unit'', ''division'', ''department'', ''team'']"

definition dimension_kinds :: "string list" where
  "dimension_kinds = [''cost_center'', ''profit_center'', ''project'']"

definition scope_value :: "organization_scope \<Rightarrow> string" where
  "scope_value s =
     (case s of ENTERPRISE_GROUP \<Rightarrow> ''enterprise_group'' | ORG_LEGAL_ENTITY \<Rightarrow> ''legal_entity'' | ORG_COMPANY \<Rightarrow> ''company''
        | ORG_UNIT \<Rightarrow> ''org_unit'' | REGION \<Rightarrow> ''region'' | ORG_OPERATING_SITE \<Rightarrow> ''operating_site'' | WAREHOUSE \<Rightarrow> ''warehouse''
        | FINANCIAL_DIMENSION \<Rightarrow> ''financial_dimension'')"

definition all_scopes :: "organization_scope list" where
  "all_scopes = [ENTERPRISE_GROUP, ORG_LEGAL_ENTITY, ORG_COMPANY, ORG_UNIT, REGION, ORG_OPERATING_SITE, WAREHOUSE, FINANCIAL_DIMENSION]"

text \<open>\<open>_canonical_kind\<close> of the kinds that occur.\<close>

definition canonical_kind :: "string \<Rightarrow> organization_scope" where
  "canonical_kind k =
     (if k \<in> set unit_kinds then ORG_UNIT
      else if k \<in> set dimension_kinds then FINANCIAL_DIMENSION
      else (case List.find (\<lambda>s. scope_value s = k) all_scopes of Some s \<Rightarrow> s | None \<Rightarrow> FINANCIAL_DIMENSION))"

definition company_lineage :: "org_store \<Rightarrow> uuid \<Rightarrow> instant \<Rightarrow> uuid option \<Rightarrow> exn + scope_ref list" where
  "company_lineage st ten now c =
     bind_res (require_effective_row st ten now T_COMPANIES c) (\<lambda>company.
     bind_res (require_effective_row st ten now T_LEGAL_ENTITIES (or_legal_entity company)) (\<lambda>legal.
     bind_res (require_effective_row st ten now T_GROUPS (or_group legal)) (\<lambda>group.
       Inr [(ORG_COMPANY, or_id company), (ORG_LEGAL_ENTITY, or_id legal), (ENTERPRISE_GROUP, or_id group)])))"

definition table_ids :: "org_store \<Rightarrow> org_table \<Rightarrow> uuid set" where
  "table_ids st tb = or_id ` set (os_rows st tb)"

lemma require_owned_Inr:
  "require_owned st ten tb i = Inr r \<Longrightarrow> r \<in> set (os_rows st tb) \<and> i = Some (or_id r) \<and> or_tenant r = ten"
  by (auto simp: require_owned_def find_Some_iff split: option.splits)

lemma require_effective_row_Inr:
  "require_effective_row st ten now tb i = Inr r \<Longrightarrow>
   require_owned st ten tb i = Inr r \<and> or_active r
   \<and> all_option (\<lambda>a. a \<le> date_of now) (or_from r) \<and> all_option (\<lambda>b. date_of now < b) (or_until r)"
  by (auto simp: require_effective_row_def bind_res_Inr Let_def all_option_def not_le
      dest!: effective_at_Inr split: if_splits option.splits)

function parent_chain ::
  "org_store \<Rightarrow> uuid \<Rightarrow> instant \<Rightarrow> org_table \<Rightarrow> organization_scope \<Rightarrow> uuid option \<Rightarrow> uuid list \<Rightarrow> org_row \<Rightarrow> exn + scope_ref list" where
  "parent_chain st ten now tb s company visited r =
     (if or_id r \<in> set visited then Inl hierarchy_inconsistent
      else if or_parent r = None then Inr [(s, or_id r)]
      else (case require_effective_row st ten now tb (or_parent r) of
          Inl e \<Rightarrow> Inl e
        | Inr p \<Rightarrow>
            if or_company p \<noteq> company then Inl hierarchy_inconsistent
            else (case parent_chain st ten now tb s company (or_id r # visited) p of
                Inl e \<Rightarrow> Inl e
              | Inr ups \<Rightarrow> Inr ((s, or_id r) # ups))))"
  by pat_completeness auto
termination
proof (relation "measure (\<lambda>(st, ten, now, tb, s, company, visited, r).
    card (insert (or_id r) (table_ids st tb) - set visited))", goal_cases)
  case (2 st ten now tb s company visited r p)
  then have "or_id p \<in> table_ids st tb"
    by (auto simp: table_ids_def dest!: require_effective_row_Inr require_owned_Inr)
  with 2(1) have "insert (or_id p) (table_ids st tb) - set (or_id r # visited) \<subset> insert (or_id r) (table_ids st tb) - set visited"
    by auto
  then show ?case by (auto intro: psubset_card_mono simp: table_ids_def)
qed simp

declare parent_chain.simps [simp del]

definition site_lineage :: "org_store \<Rightarrow> uuid \<Rightarrow> instant \<Rightarrow> org_row \<Rightarrow> exn + scope_ref list" where
  "site_lineage st ten now r =
     bind_res (company_lineage st ten now (or_company r)) (\<lambda>up.
     bind_res (require_owned st ten T_SITE_TYPES (or_site_type r)) (\<lambda>ty.
     bind_res (raise_if (\<not> or_active ty) hierarchy_inconsistent) (\<lambda>_.
     bind_res (if or_region r = None then Inr []
               else bind_res (require_effective_row st ten now T_REGIONS (or_region r)) (\<lambda>region.
                    bind_res (raise_if (or_company region \<noteq> or_company r) hierarchy_inconsistent) (\<lambda>_.
                      parent_chain st ten now T_REGIONS REGION (or_company region) [] region))) (\<lambda>regions.
       Inr ((ORG_OPERATING_SITE, or_id r) # up @ regions)))))"

text \<open>\<open>_scope_lineage\<close>: a site's lineage is also part of its warehouses'.\<close>

definition scope_lineage :: "org_store \<Rightarrow> uuid \<Rightarrow> instant \<Rightarrow> string \<Rightarrow> org_row \<Rightarrow> exn + scope_ref list" where
  "scope_lineage st ten now kind r =
     (let self = (canonical_kind kind, or_id r) in
      if kind = ''enterprise_group'' then Inr [self]
      else if kind = ''legal_entity'' then
        bind_res (require_effective_row st ten now T_GROUPS (or_group r)) (\<lambda>g. Inr [self, (ENTERPRISE_GROUP, or_id g)])
      else if kind = ''company'' then
        bind_res (company_lineage st ten now (Some (or_id r))) (\<lambda>up. Inr (self # up))
      else if kind = ''operating_site'' then site_lineage st ten now r
      else
        bind_res (company_lineage st ten now (or_company r)) (\<lambda>up.
          if kind \<in> set unit_kinds then
            bind_res (parent_chain st ten now T_UNITS ORG_UNIT (or_company r) [] r) (\<lambda>chain. Inr (self # up @ chain))
          else if kind = ''region'' then
            bind_res (parent_chain st ten now T_REGIONS REGION (or_company r) [] r) (\<lambda>chain. Inr (self # up @ chain))
          else if kind = ''warehouse'' \<and> or_site r \<noteq> None then
            bind_res (require_effective_row st ten now T_SITES (or_site r)) (\<lambda>site.
            bind_res (raise_if (or_company site \<noteq> or_company r) hierarchy_inconsistent) (\<lambda>_.
            bind_res (site_lineage st ten now site) (\<lambda>l. Inr (self # up @ l))))
          else Inr (self # up)))"

text \<open>\<open>_require_effective_scope_lineage\<close>: the row, after its lineage under its own type was found whole.\<close>

definition require_scope_lineage :: "org_store \<Rightarrow> uuid \<Rightarrow> instant \<Rightarrow> organization_scope \<Rightarrow> uuid \<Rightarrow> exn + org_row" where
  "require_scope_lineage st ten now s i =
     bind_res (require_effective_row st ten now (scope_table s) (Some i)) (\<lambda>r.
     bind_res (scope_lineage st ten now
                 (case s of ORG_UNIT \<Rightarrow> or_unit_type r | FINANCIAL_DIMENSION \<Rightarrow> or_dimension r | _ \<Rightarrow> scope_value s) r) (\<lambda>_. Inr r))"

end
