(* ===== verification/Org_Delegation.thy ===== *)
theory Org_Delegation
  imports Organization
begin

text \<open>
  Assignments, delegated scopes and the selection of an active scope (\<open>foundations/organization\<close>,
  \<open>module.py\<close>). A command reads the path of a delegation before it takes its row locks and reads every row
  again under them: the two stores are separate arguments, the hierarchy is read under the locks. The
  memberships, tenants and Policy rows that the command reads in its transaction are ports of the
  operations, and the Policy provider is the one of \<open>Policy_Evaluation\<close>. One reading of the clock serves an
  operation. The advisory lock and the row locks have no effect on values.
\<close>

record org_ports =
  oc_binding :: authenticated_binding
  oc_now :: instant
  oc_memberships :: "membership list"
  oc_tenants :: tenant_store
  oc_policy :: policy_store
  oc_parse :: expression_parser
  oc_resources :: "(string \<times> string) list"

definition now_moment :: "org_ports \<Rightarrow> moment" where
  "now_moment oc = Moment True (oc_now oc)"

definition org_forbidden :: "string \<Rightarrow> exn" where
  "org_forbidden m = BusinessOSError ''forbidden'' m 403"

definition org_trusted_principal :: "org_ports \<Rightarrow> tenant_context \<Rightarrow> exn + subject" where
  "org_trusted_principal oc ten =
     (let b = oc_binding oc in
      if \<not> ab_same_request b \<or> ab_tenant b \<noteq> tenant_id ten \<or> ab_principal b \<noteq> principal_id ten
         \<or> ab_type b \<notin> set subject_types
      then Inl (org_forbidden ''Trusted principal mismatch'') else Inr (ab_type b, ab_principal b))"

section \<open>Memberships by query\<close>

definition get_membership :: "membership list \<Rightarrow> uuid \<Rightarrow> subject \<Rightarrow> exn + membership" where
  "get_membership rows ten s = lock_membership rows ten s"

definition membership_is_current :: "membership \<Rightarrow> instant \<Rightarrow> exn + bool" where
  "membership_is_current m t =
     (if mb_status m \<noteq> ACTIVE_MEMBER then Inr False
      else effective_at (map_option (\<lambda>x. Timed (Moment True x)) (mb_from m)) (map_option (\<lambda>x. Timed (Moment True x)) (mb_until m))
             (Timed (Moment True t)))"

definition require_effective_membership :: "org_ports \<Rightarrow> uuid \<Rightarrow> subject \<Rightarrow> exn + membership" where
  "require_effective_membership oc ten s =
     bind_res (get_membership (oc_memberships oc) ten s) (\<lambda>m.
     bind_res (membership_is_current m (oc_now oc)) (\<lambda>live.
       if live then Inr m else Inl (BusinessOSError ''inactive_membership'' ''Active membership is required'' 409)))"

fun current_memberships :: "org_ports \<Rightarrow> uuid \<Rightarrow> uuid \<Rightarrow> string list \<Rightarrow> exn + membership list" where
  "current_memberships oc ten p [] = Inr []"
| "current_memberships oc ten p (ty # tys) =
     (case get_membership (oc_memberships oc) ten (ty, p) of
        Inl e \<Rightarrow> if exn_code e = Some ''not_found'' then current_memberships oc ten p tys else Inl e
      | Inr m \<Rightarrow>
          bind_res (membership_is_current m (oc_now oc)) (\<lambda>live.
          bind_res (current_memberships oc ten p tys) (\<lambda>ms. Inr (if live then m # ms else ms))))"

definition require_actor_membership :: "org_ports \<Rightarrow> uuid \<Rightarrow> uuid \<Rightarrow> string \<Rightarrow> exn + membership" where
  "require_actor_membership oc ten p expected =
     bind_res (current_memberships oc ten p [''user'', ''service_account'', ''device'']) (\<lambda>ms.
       case ms of
         [m] \<Rightarrow> if mb_type m \<noteq> expected then Inl (org_forbidden ''Active membership is required'') else Inr m
       | _ \<Rightarrow> Inl (org_forbidden ''Active membership is required''))"

section \<open>Periods and scopes\<close>

definition period_covers :: "moment option \<Rightarrow> moment option \<Rightarrow> moment \<Rightarrow> moment \<Rightarrow> instant \<Rightarrow> bool" where
  "period_covers from until start stop now \<longleftrightarrow>
     all_option (\<lambda>a. moment.at a \<le> moment.at start) from \<and> all_option (\<lambda>b. moment.at stop \<le> moment.at b) until
     \<and> all_option (\<lambda>a. moment.at a \<le> now) from \<and> all_option (\<lambda>b. now < moment.at b) until"

definition selected_scope_covers :: "tenant_context \<Rightarrow> scope_ref list \<Rightarrow> bool" where
  "selected_scope_covers ten lineage \<longleftrightarrow>
     (\<forall>(s, i) \<in> set [(ENTERPRISE_GROUP, enterprise_group_id ten), (ORG_LEGAL_ENTITY, legal_entity_id ten),
        (ORG_COMPANY, active_company_id ten), (ORG_UNIT, business_unit_id ten), (ORG_UNIT, division_id ten),
        (ORG_UNIT, department_id ten), (ORG_UNIT, team_id ten), (REGION, region_id ten),
        (ORG_OPERATING_SITE, operating_site_id ten), (WAREHOUSE, warehouse_id ten),
        (FINANCIAL_DIMENSION, cost_center_id ten), (FINANCIAL_DIMENSION, profit_center_id ten),
        (FINANCIAL_DIMENSION, project_id ten)].
      all_option (\<lambda>x. (s, x) \<in> set lineage) i)"

section \<open>The path of a delegation\<close>

definition find_grant :: "delegated_scope list \<Rightarrow> uuid \<Rightarrow> uuid \<Rightarrow> delegated_scope option" where
  "find_grant rows ten i = List.find (\<lambda>r. ds_tenant r = ten \<and> ds_id r = i) rows"

text \<open>From the grant that is used up to the direct one.\<close>

function discover :: "delegated_scope list \<Rightarrow> uuid \<Rightarrow> uuid list \<Rightarrow> uuid option \<Rightarrow> exn + delegated_scope list" where
  "discover rows ten seen None = Inr []"
| "discover rows ten seen (Some i) =
     (if i \<in> set seen \<or> length seen \<ge> 16 then Inl (org_forbidden ''Invalid delegation chain'')
      else (case find_grant rows ten i of
          None \<Rightarrow> Inl (org_forbidden ''Unverified delegation source'')
        | Some r \<Rightarrow>
            if ds_source r = Some ''direct'' then
              if ds_parent r \<noteq> None then Inl (org_forbidden ''Invalid direct source'') else Inr [r]
            else if ds_source r = Some ''delegation'' then
              if ds_parent r = None then Inl (org_forbidden ''Missing delegation parent'')
              else bind_res (discover rows ten (i # seen) (ds_parent r)) (\<lambda>rs. Inr (r # rs))
            else Inl (org_forbidden ''Unverified delegation source'')))"
  by pat_completeness auto
termination by (relation "measure (\<lambda>(rows, ten, seen, c). 16 - length seen)") auto

declare discover.simps [simp del]

fun check_links :: "subject \<Rightarrow> subject list \<Rightarrow> uuid option \<Rightarrow> delegated_scope list \<Rightarrow> exn + subject \<times> subject list" where
  "check_links preceding seen previous [] = Inr (preceding, seen)"
| "check_links preceding seen previous (r # rs) =
     (if ds_grantor r \<noteq> preceding \<or> ds_recipient r \<in> set seen
         \<or> (previous = None \<and> ds_source r \<noteq> Some ''direct'') \<or> (previous \<noteq> None \<and> ds_source r \<noteq> Some ''delegation'')
         \<or> ds_parent r \<noteq> previous
      then Inl (org_forbidden ''Invalid delegation chain'')
      else check_links (ds_recipient r) (seen @ [ds_recipient r]) (Some (ds_id r)) rs)"

text \<open>The principals of the path, the proposed recipient included.\<close>

definition path_principals :: "subject \<Rightarrow> subject option \<Rightarrow> delegated_scope list \<Rightarrow> exn + subject \<times> subject list" where
  "path_principals consumer new_recipient path =
     (let origin = (case path of [] \<Rightarrow> consumer | r # _ \<Rightarrow> ds_grantor r) in
      bind_res (check_links origin [origin] None path) (\<lambda>(preceding, seen).
        if preceding \<noteq> consumer \<or> (case new_recipient of None \<Rightarrow> False | Some p \<Rightarrow> p \<in> set seen)
        then Inl (org_forbidden ''Delegation principal cycle'')
        else Inr (origin, seen @ (case new_recipient of None \<Rightarrow> [] | Some p \<Rightarrow> [p]))))"

definition same_grant :: "delegated_scope \<Rightarrow> delegated_scope \<Rightarrow> bool" where
  "same_grant current candidate \<longleftrightarrow>
     ds_source current = ds_source candidate \<and> ds_parent current = ds_parent candidate \<and> ds_revoked current = None
     \<and> ds_grantor current = ds_grantor candidate \<and> ds_recipient current = ds_recipient candidate"

fun lock_path :: "delegated_scope list \<Rightarrow> uuid \<Rightarrow> delegated_scope list \<Rightarrow> exn + delegated_scope list" where
  "lock_path rows ten [] = Inr []"
| "lock_path rows ten (c # cs) =
     (case find_grant rows ten (ds_id c) of
        None \<Rightarrow> Inl (org_forbidden ''Delegation source changed'')
      | Some r \<Rightarrow>
          if \<not> same_grant r c then Inl (org_forbidden ''Delegation source changed'')
          else bind_res (lock_path rows ten cs) (\<lambda>rs. Inr (r # rs)))"

definition root_assignments :: "org_ports \<Rightarrow> org_store \<Rightarrow> uuid \<Rightarrow> subject \<Rightarrow> scope_ref list \<Rightarrow> moment \<Rightarrow> moment \<Rightarrow> principal_assignment list" where
  "root_assignments oc st ten origin lineage start stop =
     filter (\<lambda>a. pa_tenant a = ten \<and> pa_subject a = origin \<and> pa_scope a \<in> set lineage
       \<and> period_covers (pa_from a) (pa_until a) start stop (oc_now oc)) (os_assignments st)"

fun least_assignment :: "principal_assignment list \<Rightarrow> principal_assignment option" where
  "least_assignment [] = None"
| "least_assignment (a # as) =
     (case least_assignment as of
        None \<Rightarrow> Some a
      | Some b \<Rightarrow> if pa_id b < pa_id a then Some b else Some a)"

definition grant_authorizes :: "org_ports \<Rightarrow> scope_ref list \<Rightarrow> string list \<Rightarrow> moment \<Rightarrow> moment \<Rightarrow> delegated_scope \<Rightarrow> bool" where
  "grant_authorizes oc lineage actions start stop r \<longleftrightarrow>
     ds_scope r \<in> set lineage \<and> set actions \<subseteq> set (ds_actions r)
     \<and> period_covers (Some (ds_from r)) (Some (ds_until r)) start stop (oc_now oc)"

definition authority_request :: "org_ports \<Rightarrow> uuid \<Rightarrow> subject \<Rightarrow> scope_ref \<Rightarrow> string \<Rightarrow> moment \<Rightarrow> moment \<Rightarrow> delegation_request" where
  "authority_request oc ten origin target action start stop =
     \<lparr>dr_tenant = ten, dr_grantor = snd origin, dr_grantor_type = Some (fst origin), dr_scope = fst target,
      dr_scope_id = snd target, dr_action = action, dr_at = now_moment oc, dr_from = start, dr_until = stop\<rparr>"

fun ask_authority :: "org_ports \<Rightarrow> uuid \<Rightarrow> subject \<Rightarrow> scope_ref \<Rightarrow> moment \<Rightarrow> moment \<Rightarrow> string list \<Rightarrow> exn + string list" where
  "ask_authority oc ten origin target start stop [] = Inr []"
| "ask_authority oc ten origin target start stop (x # xs) =
     (case evaluate_delegation (oc_parse oc) (oc_resources oc) (authority_request oc ten origin target x start stop) (oc_policy oc) of
        (True, Some code) \<Rightarrow> bind_res (ask_authority oc ten origin target start stop xs) (\<lambda>codes. Inr (code # codes))
      | _ \<Rightarrow> Inl (org_forbidden ''Root action authority denied''))"

record delegation_proof =
  pf_root :: subject
  pf_assignment :: uuid
  pf_path :: "uuid list"
  pf_scope :: "scope_ref option"
  pf_references :: "string list"

text \<open>\<open>before\<close> is the store that the path is discovered in, \<open>st\<close> the store under the row locks.\<close>

definition validate_delegation_path ::
  "org_ports \<Rightarrow> uuid \<Rightarrow> subject \<Rightarrow> uuid option \<Rightarrow> scope_ref \<Rightarrow> string list \<Rightarrow> moment \<Rightarrow> moment \<Rightarrow> subject option \<Rightarrow>
   org_store \<Rightarrow> org_store \<Rightarrow> exn + delegation_proof" where
  "validate_delegation_path oc ten consumer source target actions start stop new_recipient before st =
     bind_res (require_active_tenant (oc_tenants oc) ten) (\<lambda>_.
     bind_res (raise_if (actions = [] \<or> moment.at stop \<le> moment.at start) (org_forbidden ''Invalid delegation authority'')) (\<lambda>_.
     bind_res (discover (os_delegations before) ten [] source) (\<lambda>candidates.
     bind_res (raise_if (new_recipient \<noteq> None \<and> length candidates \<ge> 16) (org_forbidden ''Delegation depth exceeded'')) (\<lambda>_.
     bind_res (path_principals consumer new_recipient (rev candidates)) (\<lambda>(origin, principals).
     bind_res (lock_many (oc_memberships oc) ten principals (now_moment oc) (moment.at start) (moment.at stop)) (\<lambda>_.
     bind_res (lock_path (os_delegations st) ten (rev candidates)) (\<lambda>path.
     bind_res (require_scope_lineage st ten (oc_now oc) (fst target) (snd target)) (\<lambda>row.
     bind_res (scope_lineage st ten (oc_now oc) (scope_value (fst target)) row) (\<lambda>lineage.
       case least_assignment (root_assignments oc st ten origin lineage start stop) of
         None \<Rightarrow> Inl (org_forbidden ''Root assignment unavailable'')
       | Some a \<Rightarrow>
           bind_res (raise_if (\<exists>r \<in> set path. \<not> grant_authorizes oc lineage actions start stop r)
                      (org_forbidden ''Delegation authority expired'')) (\<lambda>_.
           bind_res (ask_authority oc ten origin target start stop (sorted_set actions)) (\<lambda>codes.
             Inr \<lparr>pf_root = origin, pf_assignment = pa_id a, pf_path = map ds_id path,
                  pf_scope = (if path = [] then None else Some (ds_scope (last path))), pf_references = codes\<rparr>)))))))))))"

section \<open>Commands\<close>

text \<open>\<open>_assignment\<close>: the unique constraint takes null instants as equal.\<close>

definition temporal_of :: "moment option \<Rightarrow> temporal option" where
  "temporal_of m = map_option Timed m"

definition assign_principal :: "org_ports \<Rightarrow> request_context \<Rightarrow> principal_assignment \<Rightarrow> org_store \<Rightarrow> exn + org_store" where
  "assign_principal oc req a st =
     bind_res (org_require_tenant req (pa_tenant a)) (\<lambda>_.
     bind_res (validate_effective_period (temporal_of (pa_from a)) (temporal_of (pa_until a))) (\<lambda>_.
     bind_res (require_effective_membership oc (pa_tenant a) (pa_subject a)) (\<lambda>_.
     bind_res (require_scope_lineage st (pa_tenant a) (oc_now oc) (fst (pa_scope a)) (snd (pa_scope a))) (\<lambda>_.
     bind_res (require_effective_membership oc (pa_tenant a) (pa_subject a)) (\<lambda>_.
     bind_res (insert_row (\<lambda>x y. pa_id x = pa_id y
          \<or> (pa_tenant x = pa_tenant y \<and> pa_subject x = pa_subject y \<and> pa_scope x = pa_scope y
             \<and> map_option moment.at (pa_from x) = map_option moment.at (pa_from y)))
        (\<lambda>_. True) a (os_assignments st)) (\<lambda>rows.
       Inr (st\<lparr>os_assignments := rows\<rparr>)))))))"

definition revoke_principal_assignment :: "org_ports \<Rightarrow> request_context \<Rightarrow> uuid \<Rightarrow> uuid \<Rightarrow> org_store \<Rightarrow> exn + org_store" where
  "revoke_principal_assignment oc req expected i st =
     bind_res (org_require_tenant req expected) (\<lambda>ten.
     bind_res (org_trusted_principal oc ten) (\<lambda>_.
     bind_res (require_active_tenant (oc_tenants oc) (tenant_id ten)) (\<lambda>_.
       let own = (\<lambda>a. pa_tenant a = tenant_id ten \<and> pa_id a = i) in
       if \<not> (\<exists>a \<in> set (os_assignments st). own a) then Inl (BusinessOSError ''not_found'' ''Assignment not found'' 404)
       else Inr (st\<lparr>os_assignments := filter (\<lambda>a. \<not> own a) (os_assignments st)\<rparr>))))"

definition scope_source_ok :: "delegated_scope \<Rightarrow> bool" where
  "scope_source_ok r \<longleftrightarrow>
     moment.at (ds_until r) > moment.at (ds_from r)
     \<and> (ds_source r = None \<or> (ds_source r = Some ''direct'' \<and> ds_parent r = None)
        \<or> (ds_source r = Some ''delegation'' \<and> ds_parent r \<noteq> None))"

text \<open>\<open>_delegation\<close>: the command's row, with its grantor, source and parent set from the trusted context.\<close>

definition granted_row :: "tenant_context \<Rightarrow> subject \<Rightarrow> delegated_scope \<Rightarrow> delegated_scope" where
  "granted_row ten actor d =
     d\<lparr>ds_grantor := actor, ds_source := Some (if delegation_id ten = None then ''direct'' else ''delegation''),
       ds_parent := delegation_id ten, ds_revoked := None\<rparr>"

definition delegate_scope ::
  "org_ports \<Rightarrow> request_context \<Rightarrow> delegated_scope \<Rightarrow> org_store \<Rightarrow> org_store \<Rightarrow> exn + org_store \<times> delegation_proof" where
  "delegate_scope oc req d before st =
     bind_res (org_require_tenant req (ds_tenant d)) (\<lambda>ten.
     bind_res (org_trusted_principal oc ten) (\<lambda>actor.
     bind_res (raise_if (fst actor \<noteq> fst (ds_grantor d)) (org_forbidden ''Caller principal type mismatch'')) (\<lambda>_.
     bind_res (validate_effective_period (Some (Timed (ds_from d))) (Some (Timed (ds_until d)))) (\<lambda>_.
     bind_res (raise_if (moment.at (ds_until d) \<le> oc_now oc)
                 (BusinessOSError ''invalid_delegation'' ''Delegation has expired'' 422)) (\<lambda>_.
     bind_res (validate_delegation_path oc (tenant_id ten) actor (delegation_id ten) (ds_scope d) (ds_actions d)
                 (ds_from d) (ds_until d) (Some (ds_recipient d)) before st) (\<lambda>proof.
     bind_res (require_scope_lineage st (tenant_id ten) (oc_now oc) (fst (ds_scope d)) (snd (ds_scope d))) (\<lambda>row.
     bind_res (scope_lineage st (tenant_id ten) (oc_now oc) (scope_value (fst (ds_scope d))) row) (\<lambda>lineage.
     bind_res (raise_if (\<not> selected_scope_covers ten lineage) (org_forbidden ''Selected scope does not cover delegation'')) (\<lambda>_.
     bind_res (insert_row (\<lambda>x y. ds_id x = ds_id y) scope_source_ok (granted_row ten actor d) (os_delegations st)) (\<lambda>rows.
       Inr (st\<lparr>os_delegations := rows\<rparr>, proof)))))))))))"

definition revoke_where :: "(delegated_scope \<Rightarrow> bool) \<Rightarrow> instant \<times> subject \<Rightarrow> delegated_scope \<Rightarrow> delegated_scope" where
  "revoke_where P who r = (if P r then r\<lparr>ds_revoked := Some who\<rparr> else r)"

definition revoke_organization_delegation :: "org_ports \<Rightarrow> request_context \<Rightarrow> uuid \<Rightarrow> uuid \<Rightarrow> org_store \<Rightarrow> exn + org_store" where
  "revoke_organization_delegation oc req expected i st =
     bind_res (org_require_tenant req expected) (\<lambda>ten.
     bind_res (org_trusted_principal oc ten) (\<lambda>actor.
     bind_res (require_active_tenant (oc_tenants oc) (tenant_id ten)) (\<lambda>_.
       let live = (\<lambda>r. ds_tenant r = tenant_id ten \<and> ds_id r = i \<and> ds_source r \<noteq> None \<and> ds_revoked r = None) in
       if \<not> (\<exists>r \<in> set (os_delegations st). live r) then Inl (BusinessOSError ''not_found'' ''Active delegation not found'' 404)
       else Inr (st\<lparr>os_delegations := map (revoke_where live (oc_now oc, actor)) (os_delegations st)\<rparr>))))"

section \<open>The selection of a scope\<close>

text \<open>The kinds a selection names, in the order they are checked, with their tables.\<close>

definition selection_checks :: "(string \<times> org_table) list" where
  "selection_checks =
     [(''enterprise_group'', T_GROUPS), (''legal_entity'', T_LEGAL_ENTITIES), (''company'', T_COMPANIES),
      (''business_unit'', T_UNITS), (''division'', T_UNITS), (''department'', T_UNITS), (''team'', T_UNITS),
      (''region'', T_REGIONS), (''operating_site'', T_SITES), (''warehouse'', T_WAREHOUSES),
      (''cost_center'', T_DIMENSIONS), (''profit_center'', T_DIMENSIONS), (''project'', T_DIMENSIONS)]"

record scope_query =
  sq_tenant :: uuid
  sq_type :: string
  sq_action :: string
  sq_ids :: "string \<Rightarrow> uuid option"
  sq_delegation :: "uuid option"

fun select_rows :: "org_store \<Rightarrow> uuid \<Rightarrow> instant \<Rightarrow> (string \<Rightarrow> uuid option) \<Rightarrow> (string \<times> org_table) list \<Rightarrow> exn + (string \<times> org_row) list" where
  "select_rows st ten now ids [] = Inr []"
| "select_rows st ten now ids ((k, tb) # cs) =
     (if ids k = None then select_rows st ten now ids cs
      else bind_res (require_effective_row st ten now tb (ids k)) (\<lambda>r.
           bind_res (select_rows st ten now ids cs) (\<lambda>rs. Inr ((k, r) # rs))))"

type_synonym lineages = "(scope_ref, scope_ref list) dict"

record scope_selection =
  sl_lineages :: lineages
  sl_leaves :: "scope_ref list"

definition authorized_by :: "scope_selection \<Rightarrow> scope_ref \<Rightarrow> bool" where
  "authorized_by s g \<longleftrightarrow> sl_lineages s \<noteq> [] \<and> (\<forall>(p, l) \<in> set (sl_lineages s). g \<in> set l)"

definition authorized_by_any :: "scope_selection \<Rightarrow> scope_ref list \<Rightarrow> bool" where
  "authorized_by_any s gs \<longleftrightarrow> (\<forall>(p, l) \<in> set (sl_lineages s). \<exists>g \<in> set gs. g \<in> set l)"

definition kind_fits :: "string \<Rightarrow> org_row \<Rightarrow> bool" where
  "kind_fits k r \<longleftrightarrow> (k \<in> set unit_kinds \<longrightarrow> or_unit_type r = k) \<and> (k \<in> set dimension_kinds \<longrightarrow> or_dimension r = k)"

fun collect_lineages :: "org_store \<Rightarrow> uuid \<Rightarrow> instant \<Rightarrow> lineages \<Rightarrow> (string \<times> org_row) list \<Rightarrow> exn + lineages" where
  "collect_lineages st ten now acc [] = Inr acc"
| "collect_lineages st ten now acc ((k, r) # rs) =
     bind_res (scope_lineage st ten now k r) (\<lambda>l.
     bind_res (raise_if (\<not> kind_fits k r) hierarchy_inconsistent) (\<lambda>_.
       collect_lineages st ten now (dict_set (canonical_kind k, or_id r) l acc) rs))"

text \<open>At most one identifier of a type in all lineages.\<close>

definition at_most_one :: "lineages \<Rightarrow> organization_scope \<Rightarrow> bool" where
  "at_most_one ls s \<longleftrightarrow> length (dedup [i. (p, l) \<leftarrow> ls, (t, i) \<leftarrow> l, t = s]) \<le> 1"

text \<open>A lineage that has a scope of another selected scope's type contains that scope.\<close>

definition selections_agree :: "lineages \<Rightarrow> bool" where
  "selections_agree ls \<longleftrightarrow>
     (\<forall>(p, _) \<in> set ls. fst p = FINANCIAL_DIMENSION \<or>
        (\<forall>(q, l) \<in> set ls. p = q \<or> fst p = fst q \<or> \<not> (\<exists>x \<in> set l. fst x = fst p) \<or> p \<in> set l))"

definition single_chain :: "lineages \<Rightarrow> organization_scope \<Rightarrow> bool" where
  "single_chain ls s \<longleftrightarrow>
     (\<forall>(p, l) \<in> set ls. \<forall>(q, m) \<in> set ls. fst p = s \<and> fst q = s \<and> p \<noteq> q \<longrightarrow> p \<in> set m \<or> q \<in> set l)"

definition canonical_scope_selection :: "org_store \<Rightarrow> uuid \<Rightarrow> instant \<Rightarrow> (string \<times> org_row) list \<Rightarrow> exn + scope_selection" where
  "canonical_scope_selection st ten now rows =
     bind_res (collect_lineages st ten now [] rows) (\<lambda>ls.
       if \<not> at_most_one ls ENTERPRISE_GROUP \<or> \<not> at_most_one ls ORG_LEGAL_ENTITY \<or> \<not> at_most_one ls ORG_COMPANY
          \<or> \<not> selections_agree ls \<or> \<not> single_chain ls ORG_UNIT \<or> \<not> single_chain ls REGION
       then Inl hierarchy_inconsistent
       else Inr \<lparr>sl_lineages = ls,
                 sl_leaves = filter (\<lambda>p. \<not> (\<exists>(q, l) \<in> set ls. p \<noteq> q \<and> p \<in> set l)) (map fst ls)\<rparr>)"

text \<open>\<open>frozenset\<close> equality of two dictionaries of lineages.\<close>

definition same_lineages :: "lineages \<Rightarrow> lineages \<Rightarrow> bool" where
  "same_lineages a b \<longleftrightarrow> (\<lambda>(p, l). (p, set l)) ` set a = (\<lambda>(p, l). (p, set l)) ` set b"

text \<open>A leaf of type \<open>org_unit\<close> and the like is a target type by name.\<close>

fun prove_leaves ::
  "org_ports \<Rightarrow> uuid \<Rightarrow> subject \<Rightarrow> scope_query \<Rightarrow> scope_selection \<Rightarrow> org_store \<Rightarrow> org_store \<Rightarrow> scope_ref list \<Rightarrow> exn + delegation_proof list" where
  "prove_leaves oc ten actor q sel before st [] = Inr []"
| "prove_leaves oc ten actor q sel before st (leaf # ls) =
     bind_res (validate_delegation_path oc ten actor (sq_delegation q) leaf [sq_action q] (now_moment oc)
                 (Moment True (oc_now oc + 1)) None before st) (\<lambda>proof.
     bind_res (raise_if (case pf_scope proof of None \<Rightarrow> True | Some s \<Rightarrow> \<not> authorized_by sel s)
                 (org_forbidden ''Delegation cannot widen selected scope'')) (\<lambda>_.
     bind_res (prove_leaves oc ten actor q sel before st ls) (\<lambda>proofs. Inr (proof # proofs))))"

definition valid_assignments :: "org_ports \<Rightarrow> uuid \<Rightarrow> subject \<Rightarrow> org_store \<Rightarrow> scope_ref list" where
  "valid_assignments oc ten actor st =
     [pa_scope a. a \<leftarrow> os_assignments st, pa_tenant a = ten \<and> pa_subject a = actor
        \<and> all_option (\<lambda>x. moment.at x \<le> oc_now oc) (pa_from a) \<and> all_option (\<lambda>x. moment.at x > oc_now oc) (pa_until a)
        \<and> (case require_scope_lineage st ten (oc_now oc) (fst (pa_scope a)) (snd (pa_scope a)) of Inr _ \<Rightarrow> True | Inl _ \<Rightarrow> False)]"

definition selected_context :: "scope_query \<Rightarrow> tenant_context \<Rightarrow> tenant_context" where
  "selected_context q ten =
     (let i = sq_ids q in
      ten\<lparr>enterprise_group_id := i ''enterprise_group'', legal_entity_id := i ''legal_entity'',
          active_company_id := i ''company'', business_unit_id := i ''business_unit'', division_id := i ''division'',
          department_id := i ''department'', team_id := i ''team'', region_id := i ''region'',
          operating_site_id := i ''operating_site'', warehouse_id := i ''warehouse'', cost_center_id := i ''cost_center'',
          profit_center_id := i ''profit_center'', project_id := i ''project'', delegation_id := sq_delegation q\<rparr>)"

definition sorted_leaves :: "scope_selection \<Rightarrow> scope_ref list" where
  "sorted_leaves s = sort_key (\<lambda>p. (map (of_char :: char \<Rightarrow> nat) (scope_value (fst p)), snd p)) (sl_leaves s)"

definition select_scope ::
  "org_ports \<Rightarrow> request_context \<Rightarrow> scope_query \<Rightarrow> org_store \<Rightarrow> org_store \<Rightarrow> exn + tenant_context \<times> delegation_proof list" where
  "select_scope oc req q before st =
     bind_res (org_require_tenant req (sq_tenant q)) (\<lambda>ten.
     bind_res (org_trusted_principal oc ten) (\<lambda>actor.
     bind_res (raise_if (fst actor \<noteq> sq_type q) (org_forbidden ''Caller principal type mismatch'')) (\<lambda>_.
     bind_res (if sq_delegation q = None
               then bind_res (require_actor_membership oc (tenant_id ten) (principal_id ten) (sq_type q)) (\<lambda>_. Inr ())
               else Inr ()) (\<lambda>_.
     let first = (if sq_delegation q = None then st else before) in
     bind_res (select_rows first (tenant_id ten) (oc_now oc) (sq_ids q) selection_checks) (\<lambda>rows.
     bind_res (canonical_scope_selection first (tenant_id ten) (oc_now oc) rows) (\<lambda>sel.
     if sq_delegation q \<noteq> None then
       bind_res (raise_if (sl_leaves sel = []) (org_forbidden ''Delegation needs a target'')) (\<lambda>_.
       bind_res (prove_leaves oc (tenant_id ten) actor q sel before st (sorted_leaves sel)) (\<lambda>proofs.
       bind_res (select_rows st (tenant_id ten) (oc_now oc) (sq_ids q) selection_checks) (\<lambda>locked_rows.
       bind_res (canonical_scope_selection st (tenant_id ten) (oc_now oc) locked_rows) (\<lambda>locked.
       bind_res (raise_if (\<not> same_lineages (sl_lineages locked) (sl_lineages sel))
                   (org_forbidden ''Selected hierarchy changed during authorization'')) (\<lambda>_.
         Inr (selected_context q ten, proofs))))))
     else
       bind_res (raise_if (sl_leaves sel \<noteq> [] \<and>
                     \<not> authorized_by_any sel (valid_assignments oc (tenant_id ten) (sq_type q, principal_id ten) st))
                   (org_forbidden ''Principal is not assigned to the selected scope'')) (\<lambda>_.
       bind_res (require_actor_membership oc (tenant_id ten) (principal_id ten) (sq_type q)) (\<lambda>_.
         Inr (selected_context q ten, [])))))))))"

end
