(* ===== verification/Org_Laws.thy ===== *)
theory Org_Laws
  imports Org_Delegation
begin

text \<open>
  What a delegation path proves (\<open>_validate_delegation_path\<close>), what the stored delegations of any history of
  commands look like, and what the selection of an active scope rests on.
\<close>

section \<open>Paths\<close>

text \<open>The grants of a path, in order, lead from one principal to another; the first is direct.\<close>

fun links :: "subject \<Rightarrow> uuid option \<Rightarrow> delegated_scope list \<Rightarrow> subject \<Rightarrow> bool" where
  "links p prev [] c \<longleftrightarrow> p = c"
| "links p prev (r # rs) c \<longleftrightarrow>
     ds_grantor r = p \<and> ds_parent r = prev \<and> ds_source r = Some (if prev = None then ''direct'' else ''delegation'')
     \<and> links (ds_recipient r) (Some (ds_id r)) rs c"

lemma links_append:
  "links p prev (rs @ [r]) c \<longleftrightarrow>
   links p prev rs (ds_grantor r) \<and> ds_parent r = (if rs = [] then prev else Some (ds_id (last rs)))
   \<and> ds_source r = Some (if rs = [] \<and> prev = None then ''direct'' else ''delegation'') \<and> ds_recipient r = c"
  by (induction rs arbitrary: p prev) auto

lemma find_grant_Some:
  "find_grant rows ten i = Some r \<Longrightarrow> r \<in> set rows \<and> ds_tenant r = ten \<and> ds_id r = i"
  unfolding find_grant_def by (drule select_first_Some [unfolded select_first_def]) simp

lemma discover_length:
  "discover rows ten seen c = Inr rs \<Longrightarrow> rs \<noteq> [] \<longrightarrow> length seen + length rs \<le> 16"
proof (induction rows ten seen c arbitrary: rs rule: discover.induct)
  case (2 rows ten seen i)
  from 2(2) [unfolded discover.simps(2)] obtain r where len: "length seen < 16" and f: "find_grant rows ten i = Some r"
    by (auto split: if_splits option.splits)
  show ?case
  proof (cases "ds_source r = Some ''direct''")
    case True
    with 2(2) len f show ?thesis by (auto simp: discover.simps(2) split: if_splits)
  next
    case False
    with 2(2) len f obtain xs where xs: "discover rows ten (i # seen) (ds_parent r) = Inr xs" "rs = r # xs"
      by (auto simp: discover.simps(2) bind_res_Inr split: if_splits)
    have "xs \<noteq> [] \<longrightarrow> length (i # seen) + length xs \<le> 16"
      using 2(2) len f False xs
      by (intro 2(1)) (auto simp: discover.simps(2) split: if_splits)
    with len xs(2) show ?thesis by (cases xs) auto
  qed
qed (simp add: discover.simps)

lemma discover_first:
  "discover rows ten seen (Some i) = Inr rs \<Longrightarrow> \<exists>r xs. rs = r # xs \<and> ds_id r = i"
  by (auto simp: discover.simps(2) bind_res_Inr dest: find_grant_Some split: if_splits option.splits)

lemma check_links_Inr:
  "check_links p seen prev path = Inr (q, all) \<Longrightarrow>
   links p prev path q \<and> all = seen @ map ds_recipient path"
proof (induction path arbitrary: p seen prev)
  case (Cons r rs)
  from Cons.prems have
    step: "check_links (ds_recipient r) (seen @ [ds_recipient r]) (Some (ds_id r)) rs = Inr (q, all)"
    and here: "ds_grantor r = p" "ds_recipient r \<notin> set seen" "ds_parent r = prev"
      "ds_source r = Some (if prev = None then ''direct'' else ''delegation'')"
    by (auto split: if_splits)
  from Cons.IH [OF step] here show ?case by simp
qed simp

lemma check_links_distinct: "check_links p seen prev path = Inr (q, all) \<Longrightarrow> distinct seen \<Longrightarrow> distinct all"
proof (induction path arbitrary: p seen prev)
  case (Cons r rs)
  from Cons.prems have "check_links (ds_recipient r) (seen @ [ds_recipient r]) (Some (ds_id r)) rs = Inr (q, all)"
    and "ds_recipient r \<notin> set seen" by (simp_all split: if_splits)
  with Cons.IH Cons.prems(2) show ?case by simp
qed simp

lemma path_principals_Inr:
  assumes "path_principals consumer new_recipient path = Inr (origin, principals)"
  shows "links origin None path consumer"
    and "principals = origin # map ds_recipient path @ (case new_recipient of None \<Rightarrow> [] | Some p \<Rightarrow> [p])"
    and "distinct principals"
proof -
  let ?o = "case path of [] \<Rightarrow> consumer | r # _ \<Rightarrow> ds_grantor r"
  from assms obtain q seen where seen: "check_links ?o [?o] None path = Inr (q, seen)"
    and r: "(if q \<noteq> consumer \<or> (case new_recipient of None \<Rightarrow> False | Some p \<Rightarrow> p \<in> set seen)
        then Inl (org_forbidden ''Delegation principal cycle'')
        else Inr (?o, seen @ (case new_recipient of None \<Rightarrow> [] | Some p \<Rightarrow> [p]))) = Inr (origin, principals)"
    unfolding path_principals_def bind_res_Inr Let_def by fastforce
  from check_links_Inr [OF seen]
  have s: "links ?o None path q" "seen = ?o # map ds_recipient path" "distinct seen"
    using check_links_distinct [OF seen] by simp_all
  from r have q: "q = consumer" "origin = ?o" and new: "\<not> (case new_recipient of None \<Rightarrow> False | Some p \<Rightarrow> p \<in> set seen)"
    and ps: "principals = seen @ (case new_recipient of None \<Rightarrow> [] | Some p \<Rightarrow> [p])"
    by (simp_all split: if_splits del: not_None_eq)
  show "links origin None path consumer" using s(1) q by simp
  show "principals = origin # map ds_recipient path @ (case new_recipient of None \<Rightarrow> [] | Some p \<Rightarrow> [p])"
    using ps s(2) q(2) by simp
  show "distinct principals" using ps s(3) new by (cases new_recipient) simp_all
qed

definition same_link :: "delegated_scope \<Rightarrow> delegated_scope \<Rightarrow> bool" where
  "same_link r c \<longleftrightarrow> ds_id r = ds_id c \<and> ds_grantor r = ds_grantor c \<and> ds_recipient r = ds_recipient c
     \<and> ds_parent r = ds_parent c \<and> ds_source r = ds_source c"

lemma links_cong: "list_all2 same_link rs cs \<Longrightarrow> links p prev rs c = links p prev cs c"
  by (induction rs cs arbitrary: p prev rule: list_all2_induct) (simp_all add: same_link_def split del: if_split)

lemma same_link_maps:
  "list_all2 same_link rs cs \<Longrightarrow> map ds_id rs = map ds_id cs \<and> map ds_recipient rs = map ds_recipient cs"
  by (induction rule: list_all2_induct) (simp_all add: same_link_def)

lemma lock_path_Inr:
  "lock_path rows ten cs = Inr rs \<Longrightarrow>
   list_all2 same_link rs cs \<and> set rs \<subseteq> set rows \<and> (\<forall>r \<in> set rs. ds_tenant r = ten \<and> ds_revoked r = None)"
proof (induction cs arbitrary: rs)
  case (Cons c cs)
  from Cons.prems obtain r xs where "find_grant rows ten (ds_id c) = Some r" "same_grant r c"
    "lock_path rows ten cs = Inr xs" "rs = r # xs"
    by (auto simp: bind_res_Inr split: option.splits if_splits)
  with Cons.IH [of xs] find_grant_Some [of rows ten "ds_id c" r] show ?case
    by (simp add: same_grant_def same_link_def)
qed simp

lemma least_assignment_Some:
  "least_assignment as = Some a \<Longrightarrow> a \<in> set as \<and> (\<forall>b \<in> set as. pa_id a \<le> pa_id b)"
proof (induction as arbitrary: a)
  case (Cons x xs)
  show ?case
  proof (cases "least_assignment xs")
    case None
    then have "xs = []" by (cases xs) (simp_all split: option.splits if_splits)
    with Cons.prems show ?thesis by simp
  next
    case (Some b)
    then have "a = (if pa_id b < pa_id x then b else x)" using Cons.prems by (simp split: if_splits)
    with Cons.IH [OF Some] show ?thesis by (auto intro: order_trans)
  qed
qed simp

lemma ask_authority_Inr:
  "ask_authority oc ten origin target start stop xs = Inr codes \<Longrightarrow> x \<in> set xs \<Longrightarrow>
   \<exists>code. evaluate_delegation (oc_parse oc) (oc_resources oc) (authority_request oc ten origin target x start stop) (oc_policy oc) = (True, Some code)"
  by (induction xs arbitrary: codes) (auto simp: bind_res_Inr split: prod.splits bool.splits option.splits)

lemma lock_each_members:
  "lock_each rows ten t a b ss = Inr ms \<Longrightarrow> s \<in> set ss \<Longrightarrow>
   \<exists>m \<in> set ms. m \<in> set rows \<and> mb_tenant m = ten \<and> (mb_type m, mb_principal m) = s"
proof (induction ss arbitrary: ms)
  case (Cons x ss)
  from Cons.prems obtain m ms' where "lock_membership rows ten x = Inr m" "lock_each rows ten t a b ss = Inr ms'" "ms = m # ms'"
    by (auto split: sum.splits if_splits)
  with Cons lock_membership_Inr [of rows ten x m] show ?case by auto
qed simp

text \<open>A principal that is a member over the whole of an interval.\<close>

definition member_throughout :: "membership list \<Rightarrow> uuid \<Rightarrow> subject \<Rightarrow> instant \<Rightarrow> instant \<Rightarrow> bool" where
  "member_throughout rows ten s a b \<longleftrightarrow>
     (\<exists>m \<in> set rows. mb_tenant m = ten \<and> (mb_type m, mb_principal m) = s \<and> (\<forall>x. a \<le> x \<and> x < b \<longrightarrow> membership_effective m x))"

lemma lock_many_members:
  assumes "lock_many rows ten ss t a b = Inr ms" and "s \<in> set ss"
  shows "member_throughout rows ten s a b"
proof -
  from assms(1) have l: "lock_each rows ten (moment.at t) a b (sorted_set ss) = Inr ms"
    by (auto simp: lock_many_def split: if_splits)
  from lock_each_members [OF l, of s] assms(2) lock_each_covers [OF l] show ?thesis
    unfolding member_throughout_def by (metis set_sorted_set)
qed

text \<open>What a proof of a path stands for, over the rows as they are under the locks.\<close>

definition lawful_path ::
  "org_ports \<Rightarrow> uuid \<Rightarrow> subject \<Rightarrow> scope_ref \<Rightarrow> string list \<Rightarrow> moment \<Rightarrow> moment \<Rightarrow> org_store \<Rightarrow> delegation_proof \<Rightarrow>
   delegated_scope list \<Rightarrow> scope_ref list \<Rightarrow> bool" where
  "lawful_path oc ten consumer target actions start stop st proof path lineage \<longleftrightarrow>
     pf_path proof = map ds_id path \<and> set path \<subseteq> set (os_delegations st)
     \<and> links (pf_root proof) None path consumer
     \<and> distinct (pf_root proof # map ds_recipient path)
     \<and> (\<forall>r \<in> set path. ds_tenant r = ten \<and> ds_revoked r = None \<and> grant_authorizes oc lineage actions start stop r)
     \<and> (\<forall>s \<in> set (pf_root proof # map ds_recipient path).
          member_throughout (oc_memberships oc) ten s (moment.at start) (moment.at stop))
     \<and> (\<exists>a \<in> set (os_assignments st). pa_id a = pf_assignment proof \<and> pa_tenant a = ten \<and> pa_subject a = pf_root proof
          \<and> pa_scope a \<in> set lineage \<and> period_covers (pa_from a) (pa_until a) start stop (oc_now oc))
     \<and> (\<forall>x \<in> set actions. \<exists>code. evaluate_delegation (oc_parse oc) (oc_resources oc)
          (authority_request oc ten (pf_root proof) target x start stop) (oc_policy oc) = (True, Some code))"

lemma root_assignment_found:
  "least_assignment (root_assignments oc st ten origin lineage start stop) = Some a \<Longrightarrow>
   a \<in> set (os_assignments st) \<and> pa_tenant a = ten \<and> pa_subject a = origin \<and> pa_scope a \<in> set lineage
   \<and> period_covers (pa_from a) (pa_until a) start stop (oc_now oc)"
  by (drule least_assignment_Some) (simp add: root_assignments_def)

lemma validate_path_lawful:
  assumes "validate_delegation_path oc ten consumer source target actions start stop new_recipient before st = Inr proof"
  obtains path lineage row where
    "require_scope_lineage st ten (oc_now oc) (fst target) (snd target) = Inr row"
    "scope_lineage st ten (oc_now oc) (scope_value (fst target)) row = Inr lineage"
    "lawful_path oc ten consumer target actions start stop st proof path lineage"
    "pf_scope proof = (if path = [] then None else Some (ds_scope (last path)))"
    "length path \<le> 16" "new_recipient \<noteq> None \<longrightarrow> length path < 16"
    "\<forall>p. new_recipient = Some p \<longrightarrow> p \<notin> set (pf_root proof # map ds_recipient path)
       \<and> member_throughout (oc_memberships oc) ten p (moment.at start) (moment.at stop)"
    "source = None \<longrightarrow> path = []" "\<forall>i. source = Some i \<longrightarrow> path \<noteq> [] \<and> ds_id (last path) = i"
proof -
  from assms obtain candidates origin principals ms path row lineage a codes where
    c: "discover (os_delegations before) ten [] source = Inr candidates"
    and depth: "\<not> (new_recipient \<noteq> None \<and> length candidates \<ge> 16)"
    and pr: "path_principals consumer new_recipient (rev candidates) = Inr (origin, principals)"
    and ms: "lock_many (oc_memberships oc) ten principals (now_moment oc) (moment.at start) (moment.at stop) = Inr ms"
    and lp: "lock_path (os_delegations st) ten (rev candidates) = Inr path"
    and row: "require_scope_lineage st ten (oc_now oc) (fst target) (snd target) = Inr row"
    and lin: "scope_lineage st ten (oc_now oc) (scope_value (fst target)) row = Inr lineage"
    and a: "least_assignment (root_assignments oc st ten origin lineage start stop) = Some a"
    and auth: "\<not> (\<exists>r \<in> set path. \<not> grant_authorizes oc lineage actions start stop r)"
    and codes: "ask_authority oc ten origin target start stop (sorted_set actions) = Inr codes"
    and pf: "proof = \<lparr>pf_root = origin, pf_assignment = pa_id a, pf_path = map ds_id path,
                  pf_scope = (if path = [] then None else Some (ds_scope (last path))), pf_references = codes\<rparr>"
    unfolding validate_delegation_path_def
    by (auto simp: bind_res_Inr split: option.splits)
  note P = path_principals_Inr [OF pr]
  note lp = lock_path_Inr [OF lp]
  note L = lp same_link_maps [OF conjunct1 [OF lp]] links_cong [OF conjunct1 [OF lp]]
  have len: "length path = length candidates" using L by (metis length_map length_rev)
  have ids: "map ds_id path = rev (map ds_id candidates)" using L by (simp add: rev_map)
  have recipients: "map ds_recipient path = map ds_recipient (rev candidates)" using L by simp
  have law: "lawful_path oc ten consumer target actions start stop st proof path lineage"
    unfolding lawful_path_def pf using L P lock_many_members [OF ms] auth root_assignment_found [OF a]
      ask_authority_Inr [OF codes] recipients by (auto split: option.splits)
  have "\<forall>p. new_recipient = Some p \<longrightarrow> p \<notin> set (pf_root proof # map ds_recipient path)
       \<and> member_throughout (oc_memberships oc) ten p (moment.at start) (moment.at stop)"
  proof (intro allI impI)
    fix p assume p: "new_recipient = Some p"
    have "principals = (pf_root proof # map ds_recipient path) @ [p]" using P(2) p recipients pf by simp
    with P(3) lock_many_members [OF ms, of p]
    show "p \<notin> set (pf_root proof # map ds_recipient path)
       \<and> member_throughout (oc_memberships oc) ten p (moment.at start) (moment.at stop)"
      by (metis distinct_append disjoint_iff in_set_conv_decomp list.set_intros(1) set_append UnCI)
  qed
  moreover have "source = None \<longrightarrow> path = []" using c len by (auto simp: discover.simps)
  moreover have "\<forall>i. source = Some i \<longrightarrow> path \<noteq> [] \<and> ds_id (last path) = i"
  proof (intro allI impI)
    fix i assume "source = Some i"
    with c discover_first obtain r xs where "candidates = r # xs" "ds_id r = i" by blast
    with ids have "map ds_id path = rev (map ds_id xs) @ [i]" by simp
    then show "path \<noteq> [] \<and> ds_id (last path) = i" by (metis Nil_is_append_conv last_map last_snoc list.discI list.map_disc_iff)
  qed
  ultimately show thesis
    using that [OF row lin law] discover_length [OF c] len depth pf by (cases candidates) auto
qed

section \<open>Histories of the organization's commands\<close>

definition empty_org :: org_store where
  "empty_org = \<lparr>os_rows = (\<lambda>_. []), os_relationships = [], os_assignments = [], os_delegations = []\<rparr>"

text \<open>A delegation may have read its path in any earlier store: nothing is assumed of it.\<close>

inductive org_step :: "org_store \<Rightarrow> org_store \<Rightarrow> bool" where
  created: "create_node req tb r st = Inr st' \<Longrightarrow> org_step st st'"
| related: "create_relationship req l st = Inr st' \<Longrightarrow> org_step st st'"
| assigned: "assign_principal oc req a st = Inr st' \<Longrightarrow> org_step st st'"
| unassigned: "revoke_principal_assignment oc req ten i st = Inr st' \<Longrightarrow> org_step st st'"
| delegated: "delegate_scope oc req d before st = Inr (st', proof) \<Longrightarrow> org_step st st'"
| revoked: "revoke_organization_delegation oc req ten i st = Inr st' \<Longrightarrow> org_step st st'"

definition reachable_org :: "org_store \<Rightarrow> bool" where
  "reachable_org st \<longleftrightarrow> org_step\<^sup>*\<^sup>* empty_org st"

text \<open>
  The stored chain of a grant: it starts with a direct grant, each grant is made by the recipient of the one
  before and no principal occurs twice; every grant of it allows the last one's actions for its whole period.
\<close>

definition grant_chain :: "org_store \<Rightarrow> delegated_scope \<Rightarrow> delegated_scope list \<Rightarrow> bool" where
  "grant_chain st r path \<longleftrightarrow>
     path \<noteq> [] \<and> last path = r \<and> set path \<subseteq> set (os_delegations st)
     \<and> links (ds_grantor (hd path)) None path (ds_recipient r)
     \<and> distinct (ds_grantor (hd path) # map ds_recipient path)
     \<and> (\<forall>p \<in> set path. ds_tenant p = ds_tenant r \<and> set (ds_actions r) \<subseteq> set (ds_actions p)
          \<and> moment.at (ds_from p) \<le> moment.at (ds_from r) \<and> moment.at (ds_until r) \<le> moment.at (ds_until p))"

lemma grant_chain_mono:
  "grant_chain st r path \<Longrightarrow> set (os_delegations st) \<subseteq> set (os_delegations st') \<Longrightarrow> grant_chain st' r path"
  unfolding grant_chain_def by blast

lemma revoke_where_simps [simp]:
  "ds_id (revoke_where P who r) = ds_id r" "ds_tenant (revoke_where P who r) = ds_tenant r"
  "ds_grantor (revoke_where P who r) = ds_grantor r" "ds_recipient (revoke_where P who r) = ds_recipient r"
  "ds_parent (revoke_where P who r) = ds_parent r" "ds_source (revoke_where P who r) = ds_source r"
  "ds_actions (revoke_where P who r) = ds_actions r" "ds_from (revoke_where P who r) = ds_from r"
  "ds_until (revoke_where P who r) = ds_until r"
  by (simp_all add: revoke_where_def)

lemma grant_chain_revoked:
  assumes "grant_chain st r path" and "os_delegations st' = map (revoke_where P who) (os_delegations st)"
  shows "grant_chain st' (revoke_where P who r) (map (revoke_where P who) path)"
proof -
  have "list_all2 same_link (map (revoke_where P who) path) path"
    by (simp add: list_all2_map1 list.rel_refl same_link_def)
  from links_cong [OF this] have "links p prev (map (revoke_where P who) path) c = links p prev path c" for p prev c .
  moreover have "ds_recipient \<circ> revoke_where P who = ds_recipient" by (simp add: fun_eq_iff)
  ultimately show ?thesis using assms by (simp add: grant_chain_def last_map hd_map image_mono)
qed

lemma delegate_scope_Inr:
  assumes "delegate_scope oc req d before st = Inr (st', proof)"
  obtains ten :: tenant_context and actor where
    "org_trusted_principal oc ten = Inr actor" "tenant req = Some ten" "tenant_id ten = ds_tenant d"
    "validate_delegation_path oc (tenant_id ten) actor (delegation_id ten) (ds_scope d) (ds_actions d)
       (ds_from d) (ds_until d) (Some (ds_recipient d)) before st = Inr proof"
    "os_delegations st' = os_delegations st @ [granted_row ten actor d]"
    "\<forall>r \<in> set (os_delegations st). ds_id r \<noteq> ds_id d"
proof -
  from assms obtain ten actor where 1: "org_require_tenant req (ds_tenant d) = Inr ten"
    and 2: "org_trusted_principal oc ten = Inr actor"
    and 3: "validate_delegation_path oc (tenant_id ten) actor (delegation_id ten) (ds_scope d) (ds_actions d)
       (ds_from d) (ds_until d) (Some (ds_recipient d)) before st = Inr proof"
    and 4: "os_delegations st' = os_delegations st @ [granted_row ten actor d]"
      "\<forall>r \<in> set (os_delegations st). ds_id r \<noteq> ds_id d"
    unfolding delegate_scope_def by (fastforce simp: bind_res_Inr granted_row_def)
  from 1 have "tenant req = Some ten" "tenant_id ten = ds_tenant d"
    by (auto simp: org_require_tenant_def split: option.splits if_splits)
  with 2 3 4 that show thesis by blast
qed

lemma delegated_chain:
  assumes "delegate_scope oc req d before st = Inr (st', proof)"
  obtains r path where "os_delegations st' = os_delegations st @ [r]" "grant_chain st' r path" "length path \<le> 16"
    "\<forall>p \<in> set (os_delegations st). ds_id p \<noteq> ds_id r"
proof -
  from assms obtain ten actor where ten: "tenant_id ten = ds_tenant d"
    and v: "validate_delegation_path oc (tenant_id ten) actor (delegation_id ten) (ds_scope d) (ds_actions d)
       (ds_from d) (ds_until d) (Some (ds_recipient d)) before st = Inr proof"
    and st': "os_delegations st' = os_delegations st @ [granted_row ten actor d]"
      "\<forall>p \<in> set (os_delegations st). ds_id p \<noteq> ds_id d" by (rule delegate_scope_Inr)
  let ?r = "granted_row ten actor d"
  have r [simp]: "ds_grantor ?r = actor" "ds_recipient ?r = ds_recipient d" "ds_tenant ?r = tenant_id ten" "ds_id ?r = ds_id d"
    "ds_actions ?r = ds_actions d" "ds_from ?r = ds_from d" "ds_until ?r = ds_until d" "ds_parent ?r = delegation_id ten"
    "ds_source ?r = Some (if delegation_id ten = None then ''direct'' else ''delegation'')"
    by (simp_all add: granted_row_def ten)
  from v obtain path lineage where law: "lawful_path oc (tenant_id ten) actor (ds_scope d) (ds_actions d) (ds_from d) (ds_until d) st proof path lineage"
    and len: "length path < 16" and fresh: "ds_recipient d \<notin> set (pf_root proof # map ds_recipient path)"
    and source: "delegation_id ten = None \<longrightarrow> path = []" "\<forall>i. delegation_id ten = Some i \<longrightarrow> path \<noteq> [] \<and> ds_id (last path) = i"
    by (rule validate_path_lawful) auto
  have origin: "pf_root proof = ds_grantor (hd (path @ [?r]))"
    using law by (cases path) (simp_all add: lawful_path_def)
  have "links (pf_root proof) None (path @ [?r]) (ds_recipient d)"
    unfolding links_append using law source by (cases "delegation_id ten") (simp_all add: lawful_path_def)
  moreover have "distinct (pf_root proof # map ds_recipient (path @ [?r]))"
    using law fresh by (auto simp: lawful_path_def)
  ultimately have "grant_chain st' ?r (path @ [?r])"
    using law origin st' by (auto simp: grant_chain_def lawful_path_def grant_authorizes_def period_covers_def)
  with st' len that [of ?r "path @ [?r]"] show thesis by simp
qed

definition grants_ok :: "org_store \<Rightarrow> bool" where
  "grants_ok st \<longleftrightarrow>
     distinct (map ds_id (os_delegations st))
     \<and> (\<forall>r \<in> set (os_delegations st). \<exists>path. grant_chain st r path \<and> length path \<le> 16)"

lemma grants_ok_same:
  "os_delegations st' = os_delegations st \<Longrightarrow> grants_ok st \<Longrightarrow> grants_ok st'"
  by (auto simp: grants_ok_def grant_chain_def)

lemma insert_row_delegations:
  "insert_row c ok r (os_assignments st) = Inr rows \<Longrightarrow> os_delegations (st\<lparr>os_assignments := rows\<rparr>) = os_delegations st"
  by simp

lemma guarded_Inr: "(if c then Inl e else Inr x) = Inr y \<longleftrightarrow> \<not> c \<and> y = x"
  by auto

lemma revoke_organization_delegation_Inr:
  assumes "revoke_organization_delegation oc req expected i st = Inr st'"
  shows "\<exists>P who. os_delegations st' = map (revoke_where P who) (os_delegations st)"
proof -
  from assms obtain ten :: tenant_context and actor where "st' = st\<lparr>os_delegations := map (revoke_where
      (\<lambda>r. ds_tenant r = tenant_id ten \<and> ds_id r = i \<and> ds_source r \<noteq> None \<and> ds_revoked r = None) (oc_now oc, actor)) (os_delegations st)\<rparr>"
    unfolding revoke_organization_delegation_def bind_res_Inr Let_def guarded_Inr by blast
  then have "os_delegations st' = map (revoke_where
      (\<lambda>r. ds_tenant r = tenant_id ten \<and> ds_id r = i \<and> ds_source r \<noteq> None \<and> ds_revoked r = None) (oc_now oc, actor)) (os_delegations st)"
    by (simp del: not_None_eq)
  then show ?thesis by blast
qed

lemma org_step_grants:
  assumes "org_step st st'" and "grants_ok st"
  shows "grants_ok st'"
  using assms(1)
proof cases
  case (delegated oc req d before pf)
  from delegated obtain r path where r: "os_delegations st' = os_delegations st @ [r]" "grant_chain st' r path" "length path \<le> 16"
    "\<forall>p \<in> set (os_delegations st). ds_id p \<noteq> ds_id r" by (rule delegated_chain)
  have "\<exists>path. grant_chain st' x path \<and> length path \<le> 16" if "x \<in> set (os_delegations st)" for x
  proof -
    from assms(2) that obtain path where "grant_chain st x path" "length path \<le> 16" by (auto simp: grants_ok_def)
    with grant_chain_mono [of st x path st'] r(1) show ?thesis by auto
  qed
  with r assms(2) show ?thesis by (auto simp: grants_ok_def)
next
  case (revoked oc req ten i)
  then obtain P who where d: "os_delegations st' = map (revoke_where P who) (os_delegations st)"
    using revoke_organization_delegation_Inr by blast
  have "\<exists>path. grant_chain st' (revoke_where P who x) path \<and> length path \<le> 16" if "x \<in> set (os_delegations st)" for x
    using assms(2) that grant_chain_revoked [OF _ d] by (force simp: grants_ok_def)
  with d assms(2) show ?thesis by (auto simp: grants_ok_def comp_def)
qed (rule grants_ok_same [OF _ assms(2)];
     auto simp: create_node_def insert_named_def create_relationship_def assign_principal_def
       revoke_principal_assignment_def bind_res_Inr Let_def split: if_splits)+

lemma reachable_grants_ok: "reachable_org st \<Longrightarrow> grants_ok st"
  unfolding reachable_org_def
proof (induction rule: rtranclp_induct)
  case base
  show ?case by (simp add: grants_ok_def empty_org_def)
qed (rule org_step_grants)

section \<open>Selections\<close>

lemma require_effective_row_id:
  "require_effective_row st ten now tb i = Inr r \<Longrightarrow> i = Some (or_id r)"
  by (auto dest!: require_effective_row_Inr require_owned_Inr)

lemma select_rows_Inr:
  assumes "select_rows st ten now ids cs = Inr rows"
  shows "(k, tb) \<in> set cs \<Longrightarrow> ids k = Some i \<Longrightarrow> \<exists>r. (k, r) \<in> set rows \<and> or_id r = i"
    and "(k, r) \<in> set rows \<Longrightarrow> \<exists>tb. (k, tb) \<in> set cs \<and> require_effective_row st ten now tb (Some (or_id r)) = Inr r"
  using assms
proof (induction cs arbitrary: rows)
  case (Cons c cs)
  obtain k' tb' where c: "c = (k', tb')" by (cases c)
  {
    case 1
    show ?case
    proof (cases "ids k' = None")
      case True
      with 1 c Cons.IH(1) show ?thesis by auto
    next
      case False
      with 1(3) c obtain r rs where "require_effective_row st ten now tb' (ids k') = Inr r"
        "select_rows st ten now ids cs = Inr rs" "rows = (k', r) # rs" by (auto simp: bind_res_Inr)
      with 1 c Cons.IH(1) [of rs] require_effective_row_id [of st ten now tb' "ids k'" r] show ?thesis by auto
    qed
  next
    case 2
    show ?case
    proof (cases "ids k' = None")
      case True
      with 2 c Cons.IH(2) [of rows] show ?thesis by auto
    next
      case False
      with 2(2) c obtain x rs where "require_effective_row st ten now tb' (ids k') = Inr x"
        "select_rows st ten now ids cs = Inr rs" "rows = (k', x) # rs" by (auto simp: bind_res_Inr)
      with 2 c Cons.IH(2) [of rs] require_effective_row_id [of st ten now tb' "ids k'" x] show ?thesis by auto
    qed
  }
qed simp_all

text \<open>A lineage as it is recorded: of an effective row that was selected under a kind.\<close>

definition lineage_of :: "org_store \<Rightarrow> uuid \<Rightarrow> instant \<Rightarrow> scope_ref \<Rightarrow> scope_ref list \<Rightarrow> bool" where
  "lineage_of st ten now p l \<longleftrightarrow>
     (\<exists>k r. canonical_kind k = fst p \<and> require_effective_row st ten now (scope_table (fst p)) (Some (snd p)) = Inr r
        \<and> kind_fits k r \<and> scope_lineage st ten now k r = Inr l)"

lemma selection_tables: "(k, tb) \<in> set selection_checks \<Longrightarrow> scope_table (canonical_kind k) = tb"
  unfolding selection_checks_def
  by (simp, elim disjE conjE; simp add: canonical_kind_def scope_table_def unit_kinds_def dimension_kinds_def all_scopes_def scope_value_def)

lemma dict_set_entries: "(p, l) \<in> set (dict_set k v d) \<Longrightarrow> (p, l) = (k, v) \<or> (p, l) \<in> set d"
  by (induction d) (auto split: if_splits)

lemma collect_lineages_Inr:
  "collect_lineages st ten now acc rows = Inr ls \<Longrightarrow>
   \<forall>(k, r) \<in> set rows. require_effective_row st ten now (scope_table (canonical_kind k)) (Some (or_id r)) = Inr r \<Longrightarrow>
   fst ` set ls = fst ` set acc \<union> (\<lambda>(k, r). (canonical_kind k, or_id r)) ` set rows
   \<and> (\<forall>(p, l) \<in> set ls. (p, l) \<in> set acc \<or> lineage_of st ten now p l)"
proof (induction st ten now acc rows rule: collect_lineages.induct)
  case (2 st ten now acc k r rs)
  from 2(2) obtain l where l: "scope_lineage st ten now k r = Inr l" "kind_fits k r"
    "collect_lineages st ten now (dict_set (canonical_kind k, or_id r) l acc) rs = Inr ls"
    by (auto simp: bind_res_Inr)
  have here: "lineage_of st ten now (canonical_kind k, or_id r) l" using l 2(3) by (auto simp: lineage_of_def)
  from 2(1) [OF l(1) _ l(3)] l(2) here 2(3) show ?case
    by (auto simp: dom_update dest!: dict_set_entries)
qed auto

subsection \<open>A selection of scopes has a leaf\<close>

text \<open>Lineages only go up: to scopes of a higher type, or to an ancestor nearer to the top of its own chain.\<close>

definition kind_rank :: "organization_scope \<Rightarrow> nat" where
  "kind_rank s =
     (case s of ENTERPRISE_GROUP \<Rightarrow> 0 | ORG_LEGAL_ENTITY \<Rightarrow> 1 | ORG_COMPANY \<Rightarrow> 2 | ORG_UNIT \<Rightarrow> 3 | REGION \<Rightarrow> 3
        | ORG_OPERATING_SITE \<Rightarrow> 4 | WAREHOUSE \<Rightarrow> 5 | FINANCIAL_DIMENSION \<Rightarrow> 6)"

definition chain_depth :: "org_store \<Rightarrow> uuid \<Rightarrow> instant \<Rightarrow> scope_ref \<Rightarrow> nat" where
  "chain_depth st ten now p =
     (case require_effective_row st ten now (scope_table (fst p)) (Some (snd p)) of
        Inl _ \<Rightarrow> 0
      | Inr r \<Rightarrow> (case parent_chain st ten now (scope_table (fst p)) (fst p) (or_company r) [] r of Inl _ \<Rightarrow> 0 | Inr l \<Rightarrow> length l))"

lemma parent_chain_fewer:
  "parent_chain st ten now tb s c visited r = Inr l \<Longrightarrow> set visited' \<subseteq> set visited \<Longrightarrow>
   parent_chain st ten now tb s c visited' r = Inr l"
proof (induction st ten now tb s c visited r arbitrary: l visited' rule: parent_chain.induct)
  case (1 st ten now tb s c visited r)
  note def = parent_chain.simps [of st ten now tb s c visited r] parent_chain.simps [of st ten now tb s c visited' r]
  show ?case
  proof (cases "or_parent r")
    case None
    with 1(2,3) def show ?thesis by (auto split: if_splits)
  next
    case (Some i)
    with 1(2) def obtain p ups where nv: "or_id r \<notin> set visited" and p: "require_effective_row st ten now tb (or_parent r) = Inr p"
      "or_company p = c" and ups: "parent_chain st ten now tb s c (or_id r # visited) p = Inr ups" "l = (s, or_id r) # ups"
      by (auto split: if_splits sum.splits)
    from 1(1) [OF nv _ p(1) _ ups(1), of "or_id r # visited'"] Some p(2) 1(3)
    have "parent_chain st ten now tb s c (or_id r # visited') p = Inr ups" by auto
    with nv 1(3) Some p ups(2) def(2) show ?thesis by auto
  qed
qed

lemma parent_chain_members:
  "parent_chain st ten now tb s c visited r = Inr l \<Longrightarrow> (s', i) \<in> set l \<Longrightarrow>
   s' = s \<and> (i = or_id r \<or> (\<exists>p l'. require_effective_row st ten now tb (Some i) = Inr p \<and> or_company p = c
      \<and> parent_chain st ten now tb s c [] p = Inr l' \<and> length l' < length l))"
proof (induction st ten now tb s c visited r arbitrary: l rule: parent_chain.induct)
  case (1 st ten now tb s c visited r)
  show ?case
  proof (cases "or_parent r")
    case None
    with 1(2,3) show ?thesis by (auto simp: parent_chain.simps [of st ten now tb s c visited r] split: if_splits)
  next
    case (Some j)
    with 1(2) obtain p ups where nv: "or_id r \<notin> set visited" and p: "require_effective_row st ten now tb (or_parent r) = Inr p"
      "or_company p = c" and ups: "parent_chain st ten now tb s c (or_id r # visited) p = Inr ups" "l = (s, or_id r) # ups"
      by (auto simp: parent_chain.simps [of st ten now tb s c visited r] split: if_splits sum.splits)
    have "or_parent r = Some (or_id p)" by (rule require_effective_row_id [OF p(1)])
    moreover have "parent_chain st ten now tb s c [] p = Inr ups" by (rule parent_chain_fewer [OF ups(1)]) simp
    moreover from 1(3) ups(2) consider "(s', i) = (s, or_id r)" | "(s', i) \<in> set ups" by auto
    ultimately show ?thesis
      using 1(1) [OF nv _ p(1) _ ups(1)] Some p ups(2) by cases fastforce+
  qed
qed

lemma company_lineage_kinds:
  "company_lineage st ten now c = Inr l \<Longrightarrow> x \<in> set l \<Longrightarrow> kind_rank (fst x) < 2 \<or> x = (ORG_COMPANY, the c)"
  by (auto simp: company_lineage_def bind_res_Inr kind_rank_def dest!: require_effective_row_id)

lemma company_lineage_low: "company_lineage st ten now c = Inr l \<Longrightarrow> x \<in> set l \<Longrightarrow> kind_rank (fst x) < 3"
  by (drule (1) company_lineage_kinds) (auto simp: kind_rank_def)

lemma parent_chain_kind: "parent_chain st ten now tb s c visited r = Inr l \<Longrightarrow> x \<in> set l \<Longrightarrow> fst x = s"
  by (cases x) (auto dest: parent_chain_members)

lemma site_lineage_kinds:
  assumes "site_lineage st ten now r = Inr l" and "x \<in> set l"
  shows "kind_rank (fst x) < 4 \<or> x = (ORG_OPERATING_SITE, or_id r)"
proof -
  from assms(1) obtain up regions where up: "company_lineage st ten now (or_company r) = Inr up"
    and l: "l = (ORG_OPERATING_SITE, or_id r) # up @ regions"
    and regions: "regions = [] \<or> (\<exists>c region. parent_chain st ten now T_REGIONS REGION c [] region = Inr regions)"
    unfolding site_lineage_def bind_res_Inr by (auto simp: bind_res_Inr simp del: not_None_eq split: if_splits)
  from assms(2) l consider "x = (ORG_OPERATING_SITE, or_id r)" | "x \<in> set up" | "x \<in> set regions" by auto
  then show ?thesis
  proof cases
    case 2
    with company_lineage_low [OF up] show ?thesis by fastforce
  next
    case 3
    with regions parent_chain_kind have "fst x = REGION" by fastforce
    then show ?thesis by (simp add: kind_rank_def)
  qed simp
qed

definition higher :: "org_store \<Rightarrow> uuid \<Rightarrow> instant \<Rightarrow> scope_ref \<Rightarrow> scope_ref \<Rightarrow> bool" where
  "higher st ten now p q \<longleftrightarrow> (kind_rank (fst p), chain_depth st ten now p) < (kind_rank (fst q), chain_depth st ten now q)"

lemma chain_member_higher:
  assumes "parent_chain st ten now (scope_table s) s (or_company r) [] r = Inr l"
    and "require_effective_row st ten now (scope_table s) (Some (or_id r)) = Inr r"
    and "x \<in> set l" and "x \<noteq> (s, or_id r)"
  shows "higher st ten now x (s, or_id r)"
proof -
  obtain s' i where x: "x = (s', i)" by (cases x)
  from parent_chain_members [OF assms(1) assms(3) [unfolded x]] assms(4) x
  obtain p l' where "s' = s" "require_effective_row st ten now (scope_table s) (Some i) = Inr p" "or_company p = or_company r"
    "parent_chain st ten now (scope_table s) s (or_company r) [] p = Inr l'" "length l' < length l" by auto
  with assms(1,2) x show ?thesis by (simp add: higher_def chain_depth_def)
qed

lemma higher_kind: "kind_rank (fst p) < kind_rank (fst q) \<Longrightarrow> higher st ten now p q"
  by (simp add: higher_def)

lemma canonical_kind_simps [simp]:
  "canonical_kind ''legal_entity'' = ORG_LEGAL_ENTITY" "canonical_kind ''company'' = ORG_COMPANY"
  "canonical_kind ''operating_site'' = ORG_OPERATING_SITE" "canonical_kind ''region'' = REGION"
  "canonical_kind ''warehouse'' = WAREHOUSE" "k \<in> set unit_kinds \<Longrightarrow> canonical_kind k = ORG_UNIT"
  by (simp_all add: canonical_kind_def unit_kinds_def dimension_kinds_def all_scopes_def scope_value_def)

lemma low_kinds:
  assumes "kind_rank (canonical_kind k) < 3"
  shows "k = ''enterprise_group'' \<or> k = ''legal_entity'' \<or> k = ''company''"
proof (rule ccontr)
  assume n: "\<not> ?thesis"
  have "canonical_kind k \<notin> {ENTERPRISE_GROUP, ORG_LEGAL_ENTITY, ORG_COMPANY}"
    using n by (auto simp: canonical_kind_def all_scopes_def scope_value_def split: if_splits)
  then have "kind_rank (canonical_kind k) \<ge> 3" by (cases "canonical_kind k") (simp_all add: kind_rank_def)
  with assms show False by simp
qed

lemma not_unit_kinds [simp]: "''region'' \<notin> set unit_kinds" "''warehouse'' \<notin> set unit_kinds"
  by (simp_all add: unit_kinds_def)

lemma lineage_parts:
  assumes "scope_lineage st ten now k r = Inr l" and "k \<notin> {''enterprise_group'', ''legal_entity'', ''company''}" and "k \<noteq> ''operating_site''"
  shows "\<exists>up rest. company_lineage st ten now (or_company r) = Inr up \<and> l = (canonical_kind k, or_id r) # up @ rest
    \<and> (rest = [] \<or> k \<in> set unit_kinds \<and> parent_chain st ten now T_UNITS ORG_UNIT (or_company r) [] r = Inr rest
       \<or> k = ''region'' \<and> parent_chain st ten now T_REGIONS REGION (or_company r) [] r = Inr rest
       \<or> k = ''warehouse'' \<and> (\<exists>s. site_lineage st ten now s = Inr rest))"
  using assms by (auto simp: scope_lineage_def Let_def bind_res_Inr split: if_splits)

lemma lineage_higher:
  assumes "lineage_of st ten now q l" and "p \<in> set l" and "p \<noteq> q"
  shows "higher st ten now p q"
proof -
  from assms(1) obtain k r where k: "canonical_kind k = fst q"
    and row: "require_effective_row st ten now (scope_table (fst q)) (Some (snd q)) = Inr r"
    and l: "scope_lineage st ten now k r = Inr l" by (auto simp: lineage_of_def)
  have q: "q = (canonical_kind k, or_id r)" using k require_effective_row_id [OF row] by (cases q) simp
  show ?thesis
  proof (cases "k \<in> {''enterprise_group'', ''legal_entity'', ''company''}")
    case True
    then consider "k = ''enterprise_group''" | "k = ''legal_entity''" | "k = ''company''" by blast
    then show ?thesis
    proof cases
      case 1
      with l assms(2,3) q show ?thesis by (auto simp: scope_lineage_def Let_def)
    next
      case 2
      with l assms(2,3) q have "fst p = ENTERPRISE_GROUP" by (auto simp: scope_lineage_def Let_def bind_res_Inr)
      with 2 q show ?thesis by (intro higher_kind) (simp add: kind_rank_def)
    next
      case 3
      with l assms(2,3) q obtain up where "company_lineage st ten now (Some (or_id r)) = Inr up" "p \<in> set up"
        by (auto simp: scope_lineage_def Let_def bind_res_Inr)
      from company_lineage_kinds [OF this] 3 q assms(3) have "kind_rank (fst p) < 2" by simp
      with 3 q show ?thesis by (intro higher_kind) (simp add: kind_rank_def)
    qed
  next
    case False
    with low_kinds [of k] q have rank: "3 \<le> kind_rank (fst q)" by fastforce
    show ?thesis
    proof (cases "k = ''operating_site''")
      case True
      with l have "site_lineage st ten now r = Inr l" by (simp add: scope_lineage_def Let_def)
      from site_lineage_kinds [OF this assms(2)] assms(3) q True have "kind_rank (fst p) < 4" by auto
      with True q show ?thesis by (intro higher_kind) (simp add: kind_rank_def)
    next
      case site: False
      from lineage_parts [OF l False site] obtain up rest where up: "company_lineage st ten now (or_company r) = Inr up"
        and l': "l = (canonical_kind k, or_id r) # up @ rest"
        and rest: "rest = [] \<or> k \<in> set unit_kinds \<and> parent_chain st ten now T_UNITS ORG_UNIT (or_company r) [] r = Inr rest
          \<or> k = ''region'' \<and> parent_chain st ten now T_REGIONS REGION (or_company r) [] r = Inr rest
          \<or> k = ''warehouse'' \<and> (\<exists>s. site_lineage st ten now s = Inr rest)" by (elim exE conjE)
      from l' assms(2,3) q consider "p \<in> set up" | "p \<in> set rest" by auto
      then show ?thesis
      proof cases
        case 1
        with company_lineage_low [OF up 1] rank show ?thesis by (intro higher_kind) simp
      next
        case 2
        with rest consider "k \<in> set unit_kinds" "parent_chain st ten now T_UNITS ORG_UNIT (or_company r) [] r = Inr rest"
          | "k = ''region''" "parent_chain st ten now T_REGIONS REGION (or_company r) [] r = Inr rest"
          | s where "k = ''warehouse''" "site_lineage st ten now s = Inr rest" by auto
        then show ?thesis
        proof cases
          case 1
          with chain_member_higher [of st ten now ORG_UNIT r rest p] 2 row assms(3) q show ?thesis by (simp add: scope_table_def)
        next
          case 2
          with chain_member_higher [of st ten now REGION r rest p] \<open>p \<in> set rest\<close> row assms(3) q show ?thesis
            by (simp add: scope_table_def)
        next
          case (3 s)
          from site_lineage_kinds [OF 3(2) \<open>p \<in> set rest\<close>] have "kind_rank (fst p) < 5" by (auto simp: kind_rank_def)
          with 3 q show ?thesis by (intro higher_kind) (simp add: kind_rank_def)
        qed
      qed
    qed
  qed
qed

lemma canonical_selection_parts:
  assumes "canonical_scope_selection st ten now rows = Inr sel"
  obtains ls where "collect_lineages st ten now [] rows = Inr ls" "sl_lineages sel = ls"
    "sl_leaves sel = filter (\<lambda>p. \<not> (\<exists>(q, l) \<in> set ls. p \<noteq> q \<and> p \<in> set l)) (map fst ls)"
  using assms by (auto simp: canonical_scope_selection_def bind_res_Inr split: if_splits)

lemma canonical_selection_Inr:
  assumes "canonical_scope_selection st ten now rows = Inr sel"
    and "\<forall>(k, r) \<in> set rows. require_effective_row st ten now (scope_table (canonical_kind k)) (Some (or_id r)) = Inr r"
  shows "fst ` set (sl_lineages sel) = (\<lambda>(k, r). (canonical_kind k, or_id r)) ` set rows"
    and "\<And>p l. (p, l) \<in> set (sl_lineages sel) \<Longrightarrow> lineage_of st ten now p l"
    and "set (sl_leaves sel) \<subseteq> fst ` set (sl_lineages sel)"
proof -
  from assms(1) obtain ls where c: "collect_lineages st ten now [] rows = Inr ls"
    and s: "sl_lineages sel = ls" "sl_leaves sel = filter (\<lambda>p. \<not> (\<exists>(q, l) \<in> set ls. p \<noteq> q \<and> p \<in> set l)) (map fst ls)"
    by (rule canonical_selection_parts)
  from collect_lineages_Inr [OF c assms(2)] s
  show "fst ` set (sl_lineages sel) = (\<lambda>(k, r). (canonical_kind k, or_id r)) ` set rows"
    and "\<And>p l. (p, l) \<in> set (sl_lineages sel) \<Longrightarrow> lineage_of st ten now p l"
    and "set (sl_leaves sel) \<subseteq> fst ` set (sl_lineages sel)" by auto
qed

lemma selection_has_leaf:
  assumes "canonical_scope_selection st ten now rows = Inr sel"
    and "\<forall>(k, r) \<in> set rows. require_effective_row st ten now (scope_table (canonical_kind k)) (Some (or_id r)) = Inr r"
    and "sl_lineages sel \<noteq> []"
  shows "sl_leaves sel \<noteq> []"
proof
  assume none: "sl_leaves sel = []"
  define f where "f p = (kind_rank (fst p), chain_depth st ten now p)" for p
  let ?K = "fst ` set (sl_lineages sel)"
  have fin: "finite (f ` ?K)" by simp
  moreover have ne: "f ` ?K \<noteq> {}" using assms(3) by simp
  ultimately have "Max (f ` ?K) \<in> f ` ?K" by (rule Max_in)
  then obtain p where p: "f p = Max (f ` ?K)" "p \<in> ?K" by (rule imageE) (rule that, simp_all)
  from assms(1) obtain ls where ls: "sl_lineages sel = ls"
    "sl_leaves sel = filter (\<lambda>p. \<not> (\<exists>(q, l) \<in> set ls. p \<noteq> q \<and> p \<in> set l)) (map fst ls)"
    by (rule canonical_selection_parts)
  from none ls p(2) have "\<exists>(q, l) \<in> set ls. p \<noteq> q \<and> p \<in> set l"
    unfolding ls(2) filter_empty_conv by (simp only: set_map) blast
  then obtain q l where q: "(q, l) \<in> set (sl_lineages sel)" "p \<noteq> q" "p \<in> set l" using ls(1) by blast
  from lineage_higher [OF canonical_selection_Inr(2) [OF assms(1,2) q(1)] q(3,2)] have "f p < f q" by (simp add: higher_def f_def)
  moreover have "f q \<le> Max (f ` ?K)" using q(1) by (intro Max_ge) force+
  ultimately show False using p(1) by simp
qed

lemma prove_leaves_Inr:
  assumes "prove_leaves oc ten actor q sel before st ls = Inr proofs" and "leaf \<in> set ls"
  obtains pf s where "pf \<in> set proofs" "pf_scope pf = Some s" "authorized_by sel s"
    "validate_delegation_path oc ten actor (sq_delegation q) leaf [sq_action q] (now_moment oc)
       (Moment True (oc_now oc + 1)) None before st = Inr pf"
  using assms
proof (induction ls arbitrary: proofs thesis)
  case (Cons x xs)
  from Cons.prems(2) obtain p ps where p: "validate_delegation_path oc ten actor (sq_delegation q) x [sq_action q] (now_moment oc)
       (Moment True (oc_now oc + 1)) None before st = Inr p"
     and g: "case pf_scope p of None \<Rightarrow> False | Some s \<Rightarrow> authorized_by sel s"
     and ps: "prove_leaves oc ten actor q sel before st xs = Inr ps" "proofs = p # ps"
    by (auto simp: bind_res_Inr split: option.splits)
  show ?case
  proof (cases "leaf = x")
    case True
    from g obtain s where "pf_scope p = Some s" "authorized_by sel s" by (auto split: option.splits)
    with Cons.prems(1) p ps(2) True show ?thesis by auto
  next
    case False
    with Cons.prems(3) have "leaf \<in> set xs" by simp
    from Cons.IH [OF _ ps(1) this] Cons.prems(1) ps(2) show ?thesis by auto
  qed
qed simp

lemma authorized_lineages:
  assumes "same_lineages a b" and "\<forall>(p, l) \<in> set b. g \<in> set l" and "(p, l) \<in> set a"
  shows "g \<in> set l"
proof -
  from assms(1,3) have "(p, set l) \<in> (\<lambda>(p, l). (p, set l)) ` set b" unfolding same_lineages_def by (metis (mono_tags, lifting) case_prod_conv image_eqI)
  with assms(2) show ?thesis by auto
qed

lemma nonempty_leaf: "sl_leaves sel \<noteq> [] \<Longrightarrow> \<exists>leaf. leaf \<in> set (sorted_leaves sel)"
  unfolding sorted_leaves_def by (metis list.set_intros(1) neq_Nil_conv set_sort)

text \<open>A grant that a selection under a delegation rests on.\<close>

definition effective_grant :: "org_ports \<Rightarrow> uuid \<Rightarrow> subject \<Rightarrow> uuid \<Rightarrow> string \<Rightarrow> org_store \<Rightarrow> scope_ref \<Rightarrow> bool" where
  "effective_grant oc ten s g action st scope \<longleftrightarrow>
     (\<exists>d \<in> set (os_delegations st). ds_id d = g \<and> ds_tenant d = ten \<and> ds_recipient d = s \<and> ds_revoked d = None
        \<and> action \<in> set (ds_actions d) \<and> moment.at (ds_from d) \<le> oc_now oc \<and> oc_now oc < moment.at (ds_until d)
        \<and> ds_scope d = scope)"

definition effective_assignment :: "org_ports \<Rightarrow> uuid \<Rightarrow> subject \<Rightarrow> org_store \<Rightarrow> scope_ref \<Rightarrow> bool" where
  "effective_assignment oc ten s st scope \<longleftrightarrow>
     (\<exists>a \<in> set (os_assignments st). pa_tenant a = ten \<and> pa_subject a = s \<and> pa_scope a = scope
        \<and> all_option (\<lambda>x. moment.at x \<le> oc_now oc) (pa_from a) \<and> all_option (\<lambda>x. oc_now oc < moment.at x) (pa_until a))"

lemma valid_assignments_effective:
  "scope \<in> set (valid_assignments oc ten s st) \<Longrightarrow> effective_assignment oc ten s st scope"
  by (auto simp: valid_assignments_def effective_assignment_def)

lemma links_last: "links p prev path c \<Longrightarrow> path \<noteq> [] \<Longrightarrow> ds_recipient (last path) = c"
proof (induction path arbitrary: p prev)
  case (Cons r rs)
  then show ?case using Cons.IH [of "ds_recipient r" "Some (ds_id r)"] by (cases rs) simp_all
qed simp

lemma proved_leaf_grant:
  assumes "validate_delegation_path oc ten actor (Some g) leaf [action] (now_moment oc) (Moment True (oc_now oc + 1)) None before st = Inr pf"
    and "pf_scope pf = Some s"
  shows "effective_grant oc ten actor g action st s"
proof -
  from assms(1) obtain path lineage where law: "lawful_path oc ten actor leaf [action] (now_moment oc) (Moment True (oc_now oc + 1)) st pf path lineage"
    and scope: "pf_scope pf = (if path = [] then None else Some (ds_scope (last path)))"
    and ne: "path \<noteq> []" "ds_id (last path) = g"
    by (rule validate_path_lawful) auto
  from ne(1) have "last path \<in> set path" by simp
  with law ne links_last [of "pf_root pf" None path actor] scope assms(2) show ?thesis
    unfolding effective_grant_def lawful_path_def
    by (intro bexI [of _ "last path"]) (auto simp: grant_authorizes_def period_covers_def now_moment_def)
qed

lemma select_scope_locked:
  assumes "select_scope oc req q before st = Inr (ten', pfs)"
  obtains ten :: tenant_context and actor rows sel where
    "tenant req = Some ten" "org_trusted_principal oc ten = Inr actor" "fst actor = sq_type q"
    "select_rows st (tenant_id ten) (oc_now oc) (sq_ids q) selection_checks = Inr rows"
    "canonical_scope_selection st (tenant_id ten) (oc_now oc) rows = Inr sel"
    "\<forall>g. sq_delegation q = Some g \<longrightarrow>
       (\<exists>s. effective_grant oc (tenant_id ten) actor g (sq_action q) st s \<and> (\<forall>(p, l) \<in> set (sl_lineages sel). s \<in> set l))"
    "sq_delegation q = None \<longrightarrow> sl_leaves sel = [] \<or>
       authorized_by_any sel (valid_assignments oc (tenant_id ten) (sq_type q, principal_id ten) st)"
    "ten' = selected_context q ten"
proof (cases "sq_delegation q")
  case None
  from assms None that show thesis
    unfolding select_scope_def by (auto simp: bind_res_Inr org_require_tenant_def split: option.splits if_splits)
next
  case (Some g)
  from assms Some obtain ten :: tenant_context and actor rows sel locked_rows locked where
    t: "org_require_tenant req (sq_tenant q) = Inr ten" "org_trusted_principal oc ten = Inr actor" "fst actor = sq_type q"
    and sel: "canonical_scope_selection before (tenant_id ten) (oc_now oc) rows = Inr sel" "sl_leaves sel \<noteq> []"
    and pfs: "prove_leaves oc (tenant_id ten) actor q sel before st (sorted_leaves sel) = Inr pfs"
    and lr: "select_rows st (tenant_id ten) (oc_now oc) (sq_ids q) selection_checks = Inr locked_rows"
    and locked: "canonical_scope_selection st (tenant_id ten) (oc_now oc) locked_rows = Inr locked"
      "same_lineages (sl_lineages locked) (sl_lineages sel)" and ten': "ten' = selected_context q ten"
    unfolding select_scope_def by (simp add: bind_res_Inr Let_def) (elim exE conjE, rule that, assumption, assumption, simp, assumption+; simp)
  from nonempty_leaf [OF sel(2)] obtain leaf where leaf: "leaf \<in> set (sorted_leaves sel)" ..
  from prove_leaves_Inr [OF pfs leaf] Some obtain pf s where s: "pf_scope pf = Some s" "authorized_by sel s"
    "validate_delegation_path oc (tenant_id ten) actor (Some g) leaf [sq_action q] (now_moment oc)
       (Moment True (oc_now oc + 1)) None before st = Inr pf" by metis
  have "\<forall>(p, l) \<in> set (sl_lineages locked). s \<in> set l"
    using authorized_lineages [OF locked(2), of s] s(2) unfolding authorized_by_def by blast
  moreover have "effective_grant oc (tenant_id ten) actor g (sq_action q) st s" by (rule proved_leaf_grant [OF s(3,1)])
  ultimately have grant: "\<forall>g. sq_delegation q = Some g \<longrightarrow> (\<exists>s. effective_grant oc (tenant_id ten) actor g (sq_action q) st s
      \<and> (\<forall>(p, l) \<in> set (sl_lineages locked). s \<in> set l))"
    unfolding Some by (intro allI impI exI [of _ s]) simp
  have "tenant req = Some ten" using t(1) by (auto simp: org_require_tenant_def split: option.splits if_splits)
  then show thesis by (rule that [OF _ t(2,3) lr locked(1) grant _ ten']) (simp_all add: Some)
qed

section \<open>What the organization promises\<close>

text \<open>
  C25: However the hierarchy, assignments and delegations of an organization are commanded, and whatever each
  delegation read of its path before its locks, every stored grant ends a chain of at most sixteen stored
  grants: it starts with a direct one, each further grant is made by the recipient of the one before and names
  it as its parent, no principal occurs twice, and every grant of the chain belongs to the same tenant,
  allows all of the last one's actions and covers its whole period. Delegation only narrows.
\<close>

theorem delegation_only_narrows:
  assumes "reachable_org st" and "r \<in> set (os_delegations st)"
  shows "\<exists>path. length path \<le> 16 \<and> grant_chain st r path"
  using reachable_grants_ok [OF assms(1)] assms(2) by (auto simp: grants_ok_def)

text \<open>
  C26: A selection of an active scope is returned only if, for every scope it names, the lineage of that scope
  under the locks contains one that the trusted principal holds now: by an assignment of its own where no
  delegation is named, and otherwise by the named delegation, unrevoked, received by it, current and allowing
  the action.
\<close>

theorem selected_scope_is_authorized:
  assumes "select_scope oc req q before st = Inr (ten', pfs)" and "(k, tb) \<in> set selection_checks" and "sq_ids q k = Some i"
  shows "\<exists>ten actor l s. tenant req = Some ten \<and> org_trusted_principal oc ten = Inr actor
    \<and> lineage_of st (tenant_id ten) (oc_now oc) (canonical_kind k, i) l \<and> s \<in> set l
    \<and> (case sq_delegation q of
         None \<Rightarrow> effective_assignment oc (tenant_id ten) actor st s
       | Some g \<Rightarrow> effective_grant oc (tenant_id ten) actor g (sq_action q) st s)"
proof -
  from assms(1) obtain ten :: tenant_context and actor rows sel where t: "tenant req = Some ten" "org_trusted_principal oc ten = Inr actor" "fst actor = sq_type q"
    and rows: "select_rows st (tenant_id ten) (oc_now oc) (sq_ids q) selection_checks = Inr rows"
    and sel: "canonical_scope_selection st (tenant_id ten) (oc_now oc) rows = Inr sel"
    and grant: "\<forall>g. sq_delegation q = Some g \<longrightarrow>
       (\<exists>s. effective_grant oc (tenant_id ten) actor g (sq_action q) st s \<and> (\<forall>(p, l) \<in> set (sl_lineages sel). s \<in> set l))"
    and own: "sq_delegation q = None \<longrightarrow> sl_leaves sel = [] \<or>
       authorized_by_any sel (valid_assignments oc (tenant_id ten) (sq_type q, principal_id ten) st)"
    by (rule select_scope_locked)
  have ok: "\<forall>(k, r) \<in> set rows. require_effective_row st (tenant_id ten) (oc_now oc) (scope_table (canonical_kind k)) (Some (or_id r)) = Inr r"
    using select_rows_Inr(2) [OF rows] selection_tables by fastforce
  note S = canonical_selection_Inr [OF sel ok]
  from select_rows_Inr(1) [OF rows assms(2,3)] obtain r where "(k, r) \<in> set rows" "or_id r = i" by blast
  with S(1) have "(canonical_kind k, i) \<in> fst ` set (sl_lineages sel)" by force
  then obtain l where l: "((canonical_kind k, i), l) \<in> set (sl_lineages sel)" by force
  have lin: "lineage_of st (tenant_id ten) (oc_now oc) (canonical_kind k, i) l" by (rule S(2) [OF l])
  have actor: "actor = (sq_type q, principal_id ten)" using t(2,3) by (auto simp: org_trusted_principal_def Let_def split: if_splits)
  show ?thesis
  proof (cases "sq_delegation q")
    case None
    have "sl_leaves sel \<noteq> []" by (rule selection_has_leaf [OF sel ok]) (use l in auto)
    with own None l obtain s where "s \<in> set l" "s \<in> set (valid_assignments oc (tenant_id ten) actor st)"
      unfolding authorized_by_any_def actor by blast
    with valid_assignments_effective t lin None show ?thesis
      by (intro exI [of _ ten] exI [of _ actor] exI [of _ l] exI [of _ s]) simp
  next
    case (Some g)
    with grant obtain s where "effective_grant oc (tenant_id ten) actor g (sq_action q) st s" "\<forall>(p, l) \<in> set (sl_lineages sel). s \<in> set l" by blast
    with l lin t Some show ?thesis by (intro exI [of _ ten] exI [of _ actor] exI [of _ l] exI [of _ s]) auto
  qed
qed

section \<open>A sample history\<close>

definition org_request :: "uuid \<Rightarrow> uuid option \<Rightarrow> request_context" where
  "org_request p g = \<lparr>correlation_id = ''c'', trace_id = ''t'', tenant = Some ((tenant_context_of 1 7 p)\<lparr>delegation_id := g\<rparr>)\<rparr>"

definition sample_policy :: policy_store where
  "sample_policy = \<lparr>db_memberships = [],
     db_roles = [\<lparr>ro_id = 10, ro_tenant = 7, ro_code = ''buyer'', ro_name = ''Buyer'', ro_parent = None\<rparr>],
     db_permissions = [\<lparr>rp_id = 20, rp_tenant = 7, rp_role = 10, rp_permission = ''order.buy''\<rparr>],
     db_assignments = [\<lparr>ra_id = 30, ra_tenant = 7, ra_subject = 42, ra_subject_type = Some ''user'', ra_role = 10,
       ra_scope = (TENANT, None), ra_from = None, ra_to = None\<rparr>],
     db_delegations = [], db_record_policies = [], db_field_policies = [], db_limits = [], db_support = [],
     ps_catalog = [], ps_rules = []\<rparr>"

definition org_member :: "uuid \<Rightarrow> membership" where
  "org_member p = \<lparr>mb_id = p, mb_tenant = 7, mb_principal = p, mb_type = ''user'', mb_status = ACTIVE_MEMBER, mb_from = None, mb_until = None\<rparr>"

definition sample_org_ports :: "uuid \<Rightarrow> org_ports" where
  "sample_org_ports p = \<lparr>oc_binding = \<lparr>ab_same_request = True, ab_tenant = 7, ab_principal = p, ab_type = ''user''\<rparr>,
     oc_now = 100, oc_memberships = [org_member 42, org_member 43, org_member 44],
     oc_tenants = empty_tenants\<lparr>ts_tenants := [\<lparr>tr_id = 7, tr_slug = ''acme'', tr_status = ACTIVE_TENANT, tr_version = 1\<rparr>]\<rparr>,
     oc_policy = sample_policy, oc_parse = (\<lambda>_. None), oc_resources = [(''order.buy'', ''order'')]\<rparr>"

definition org_node :: "uuid \<Rightarrow> string \<Rightarrow> org_row" where
  "org_node i c = \<lparr>or_id = i, or_tenant = 7, or_code = c, or_active = True, or_from = None, or_until = None, or_group = None,
     or_legal_entity = None, or_company = None, or_parent = None, or_region = None, or_site_type = None, or_site = None,
     or_warehouse = None, or_unit_type = '''', or_dimension = ''''\<rparr>"

definition org_grant :: "uuid \<Rightarrow> uuid \<Rightarrow> uuid \<Rightarrow> string list \<Rightarrow> instant \<Rightarrow> delegated_scope" where
  "org_grant i p r actions stop = \<lparr>ds_id = i, ds_tenant = 7, ds_grantor = (''user'', p), ds_recipient = (''user'', r),
     ds_scope = (ORG_COMPANY, 3), ds_actions = actions, ds_from = Moment True 100, ds_until = Moment True stop,
     ds_source = None, ds_parent = None, ds_revoked = None\<rparr>"

datatype org_action = Node org_table org_row | Assign principal_assignment | Grant uuid "uuid option" delegated_scope

fun run_org :: "org_action list \<Rightarrow> org_store \<Rightarrow> org_store option" where
  "run_org [] st = Some st"
| "run_org (Node tb r # as) st =
     (case create_node (org_request 42 None) tb r st of Inr st' \<Rightarrow> run_org as st' | Inl _ \<Rightarrow> None)"
| "run_org (Assign a # as) st =
     (case assign_principal (sample_org_ports 42) (org_request 42 None) a st of Inr st' \<Rightarrow> run_org as st' | Inl _ \<Rightarrow> None)"
| "run_org (Grant p g d # as) st =
     (case delegate_scope (sample_org_ports p) (org_request p g) d st st of Inr (st', _) \<Rightarrow> run_org as st' | Inl _ \<Rightarrow> None)"

lemma run_org_reachable: "reachable_org st \<Longrightarrow> run_org as st = Some st' \<Longrightarrow> reachable_org st'"
proof (induction as arbitrary: st)
  case (Cons a as)
  have go: "reachable_org st'" if "org_step st x" "run_org as x = Some st'" for x
    using Cons.IH [of x] Cons.prems(1) that unfolding reachable_org_def by (blast intro: rtranclp.rtrancl_into_rtrancl)
  show ?case
  proof (cases a)
    case (Node tb r)
    with Cons.prems(2) show ?thesis by (auto split: sum.splits intro: go org_step.created)
  next
    case (Assign x)
    with Cons.prems(2) show ?thesis by (auto split: sum.splits intro: go org_step.assigned)
  next
    case (Grant p g d)
    with Cons.prems(2) show ?thesis by (auto split: sum.splits prod.splits intro: go org_step.delegated)
  qed
qed simp

definition sample_org :: "org_action list" where
  "sample_org = [Node T_GROUPS (org_node 1 ''G''), Node T_LEGAL_ENTITIES ((org_node 2 ''L'')\<lparr>or_group := Some 1\<rparr>),
     Node T_COMPANIES ((org_node 3 ''C'')\<lparr>or_legal_entity := Some 2\<rparr>),
     Assign \<lparr>pa_id = 50, pa_tenant = 7, pa_subject = (''user'', 42), pa_scope = (ORG_LEGAL_ENTITY, 2), pa_from = None, pa_until = None\<rparr>,
     Grant 42 None (org_grant 100 42 43 [''order.buy''] 500),
     Grant 43 (Some 100) (org_grant 101 43 44 [''order.buy''] 300)]"

lemma sample_org_grants:
  "map_option (\<lambda>st. map (\<lambda>d. (ds_id d, ds_grantor d, ds_recipient d, ds_parent d)) (os_delegations st)) (run_org sample_org empty_org)
     = Some [(100, (''user'', 42), (''user'', 43), None), (101, (''user'', 43), (''user'', 44), Some 100)]"
  by code_simp

definition sample_query :: scope_query where
  "sample_query = \<lparr>sq_tenant = 7, sq_type = ''user'', sq_action = ''order.buy'',
     sq_ids = (\<lambda>k. if k = ''company'' then Some 3 else None), sq_delegation = Some 101\<rparr>"

lemma sample_selection:
  "(case run_org sample_org empty_org of None \<Rightarrow> False
    | Some st \<Rightarrow> (case select_scope (sample_org_ports 44) (org_request 44 None) sample_query st st of
        Inr (t, pfs) \<Rightarrow> active_company_id t = Some 3 \<and> map pf_path pfs = [[100, 101]] \<and> map pf_root pfs = [(''user'', 42)]
      | Inl _ \<Rightarrow> False))"
  by code_simp

theorem delegation_only_narrows_witness:
  "\<exists>st r path. run_org sample_org empty_org = Some st \<and> ds_id r = 101 \<and> grant_chain st r path \<and> length path \<le> 16"
proof -
  from sample_org_grants obtain st where st: "run_org sample_org empty_org = Some st"
    and ids: "map (\<lambda>d. (ds_id d, ds_grantor d, ds_recipient d, ds_parent d)) (os_delegations st)
      = [(100, (''user'', 42), (''user'', 43), None), (101, (''user'', 43), (''user'', 44), Some 100)]" by auto
  then obtain d r where "os_delegations st = [d, r]" "ds_id r = 101" by (auto simp: Cons_eq_map_conv map_eq_Cons_conv)
  moreover have "reachable_org st" by (rule run_org_reachable [OF _ st]) (simp add: reachable_org_def)
  ultimately show ?thesis using delegation_only_narrows [of st r] st by auto
qed

theorem selected_scope_is_authorized_witness:
  "\<exists>st ten actor l s. run_org sample_org empty_org = Some st \<and> tenant (org_request 44 None) = Some ten
     \<and> s \<in> set l \<and> effective_grant (sample_org_ports 44) (tenant_id ten) actor 101 ''order.buy'' st s"
proof -
  from sample_selection obtain st t pfs where st: "run_org sample_org empty_org = Some st"
    and sel: "select_scope (sample_org_ports 44) (org_request 44 None) sample_query st st = Inr (t, pfs)"
    by (auto split: option.splits sum.splits)
  have "(''company'', T_COMPANIES) \<in> set selection_checks" "sq_ids sample_query ''company'' = Some 3"
    by (simp_all add: selection_checks_def sample_query_def)
  from selected_scope_is_authorized [OF sel this] st show ?thesis
    by (simp add: sample_query_def) metis
qed

end
