(* ===== verification/Eventing.thy ===== *)
theory Eventing
  imports Messages Unit_Of_Work Tables
begin

text \<open>
  Durable events (\<open>eventing.py\<close>, \<open>persistence/models.py\<close>): the publisher of committed outbox rows, the inbox
  that makes a delivery idempotent and the consumer that runs each subscriber in a transaction of its own. A
  transaction is one step on the durable state: the primary key of the inbox makes a concurrent claim of the
  same receipt wait for the other transaction. A commit may also succeed and still raise, as when the
  connection is lost; the client then sees an error although the transaction is durable.
\<close>

section \<open>The outbox\<close>

record outbox_row =
  ob_message :: outbox_message
  ob_published :: "instant option"
  ob_attempts :: int
  ob_error :: "string option"

record broker_event =
  br_subject :: string
  br_payload :: string
  br_headers :: "(string, string) dict"

text \<open>\<open>type(exc).__name__\<close>.\<close>

fun exn_type :: "exn \<Rightarrow> string" where
  "exn_type (BusinessOSError c m s) = ''BusinessOSError''"
| "exn_type ClientDisconnectedError = ''ClientDisconnectedError''"
| "exn_type (DeliveryUnavailableError m) = ''DeliveryUnavailableError''"
| "exn_type (ConfigurationError m) = ''ConfigurationError''"
| "exn_type ProtectedDatabaseCapacityError = ''ProtectedDatabaseCapacityError''"
| "exn_type (NotFoundError m) = ''NotFoundError''"
| "exn_type (MethodNotAllowedError ms) = ''MethodNotAllowedError''"
| "exn_type (ConflictError m) = ''ConflictError''"
| "exn_type (ValueError m) = ''ValueError''"
| "exn_type (RuntimeError m) = ''RuntimeError''"
| "exn_type (PermissionError m) = ''PermissionError''"
| "exn_type (TimeoutError m) = ''TimeoutError''"
| "exn_type (ForeignError n) = n"
| "exn_type (ExceptionGroup m es) = ''ExceptionGroup''"

text \<open>The headers of the trace context that are strings.\<close>

definition trace_headers :: "json \<Rightarrow> (string, string) dict" where
  "trace_headers payload =
     (case payload of
        JObj es \<Rightarrow>
          (case map_of es ''trace_context'' of
             Some (JObj ts) \<Rightarrow> [(k, v). (k, j) \<leftarrow> ts, v \<leftarrow> (case j of JStr s \<Rightarrow> [s] | _ \<Rightarrow> []), k \<in> {''traceparent'', ''tracestate''}]
           | _ \<Rightarrow> [])
      | _ \<Rightarrow> [])"

text \<open>\<open>text\<close> is \<open>json.dumps\<close> with compact separators, \<open>show\<close> is \<open>str\<close> of a UUID.\<close>

definition envelope :: "(json \<Rightarrow> string) \<Rightarrow> (uuid \<Rightarrow> string) \<Rightarrow> string \<Rightarrow> outbox_message \<Rightarrow> broker_event" where
  "envelope text show prefix m =
     \<lparr>br_subject = prefix @ ''.tenant.'' @ show (pm_tenant m) @ ''.'' @ pm_event_type m,
      br_payload = text (pm_payload m),
      br_headers = foldl (\<lambda>d (k, v). dict_set k v d)
        [(''event-id'', show (pm_event_id m)), (''event-type'', pm_event_type m), (''tenant-id'', show (pm_tenant m)),
         (''schema-version'', show_int (pm_schema m)), (''correlation-id'', pm_correlation m)] (trace_headers (pm_payload m))\<rparr>"

definition outbox_before :: "outbox_row \<Rightarrow> outbox_row \<Rightarrow> bool" where
  "outbox_before a b \<longleftrightarrow>
     pm_occurred_at (ob_message a) < pm_occurred_at (ob_message b)
     \<or> (pm_occurred_at (ob_message a) = pm_occurred_at (ob_message b) \<and> pm_event_id (ob_message a) \<le> pm_event_id (ob_message b))"

text \<open>Rows that another publisher has locked are skipped.\<close>

definition locked_batch :: "(uuid \<Rightarrow> bool) \<Rightarrow> int \<Rightarrow> outbox_row list \<Rightarrow> outbox_row list" where
  "locked_batch locked limit rows =
     take (nat limit) (order_by outbox_before
       (filter (\<lambda>r. ob_published r = None \<and> \<not> locked (pm_event_id (ob_message r))) rows))"

definition after_publication :: "instant \<Rightarrow> exn + unit \<Rightarrow> outbox_row \<Rightarrow> outbox_row" where
  "after_publication now answer r =
     (case answer of
        Inl e \<Rightarrow> r\<lparr>ob_attempts := ob_attempts r + 1, ob_error := Some (exn_type e)\<rparr>
      | Inr _ \<Rightarrow> r\<lparr>ob_published := Some now, ob_attempts := ob_attempts r + 1, ob_error := None\<rparr>)"

text \<open>\<open>_publish_locked_batch\<close>: the rows as they are written, with the answers of the broker.\<close>

definition publish_locked_batch ::
  "(outbox_message \<Rightarrow> exn + unit) \<Rightarrow> instant \<Rightarrow> (uuid \<Rightarrow> bool) \<Rightarrow> int \<Rightarrow> outbox_row list \<Rightarrow> outbox_row list \<times> outbox_message list \<times> nat" where
  "publish_locked_batch broker now locked limit rows =
     (let batch = locked_batch locked limit rows;
          accepted = filter (\<lambda>m. broker m = Inr ()) (map ob_message batch)
      in (map (\<lambda>r. if r \<in> set batch then after_publication now (broker (ob_message r)) r else r) rows,
          map ob_message batch, length accepted))"

datatype commit_result = COMMITTED | COMMIT_FAILED exn | COMMIT_LOST exn

text \<open>
  \<open>publish_batch\<close>: the stored rows, the messages the broker was sent and the count. The messages have gone
  out even when the transaction is then lost.
\<close>

definition publish_batch ::
  "exn option \<Rightarrow> (outbox_message \<Rightarrow> exn + unit) \<Rightarrow> instant \<Rightarrow> (uuid \<Rightarrow> bool) \<Rightarrow> int \<Rightarrow> commit_result \<Rightarrow> outbox_row list \<Rightarrow>
   outbox_row list \<times> outbox_message list \<times> (exn + nat)" where
  "publish_batch admission broker now locked limit outcome rows =
     (case admission of
        Some e \<Rightarrow> (rows, [], Inl e)
      | None \<Rightarrow>
          let (rows', sent, n) = publish_locked_batch broker now locked limit rows in
          (case outcome of
             COMMITTED \<Rightarrow> (rows', sent, Inr n)
           | COMMIT_FAILED e \<Rightarrow> (rows, sent, Inl e)
           | COMMIT_LOST e \<Rightarrow> (rows', sent, Inl e)))"

section \<open>The inbox\<close>

type_synonym receipt = "uuid \<times> string \<times> uuid"

text \<open>The insert with \<open>on_conflict_do_nothing\<close>: whether a row was returned.\<close>

definition claim :: "receipt \<Rightarrow> receipt list \<Rightarrow> receipt list \<times> bool" where
  "claim k rows = (if k \<in> set rows then (rows, False) else (rows @ [k], True))"

section \<open>The consumer\<close>

text \<open>
  The durable state: the receipts and the data of the handlers. The runs of handlers that became durable are
  kept in order besides, for the statements only.
\<close>

record ('h, 'e, 'w) durable_state =
  du_receipts :: "receipt list"
  du_data :: 'w
  du_runs :: "(receipt \<times> 'h \<times> 'e) list"

text \<open>What admits a subscriber: the worker's admission with its authorizer, or the authorizer of the bus.\<close>

record delivery_ports =
  dp_admission :: "(string \<Rightarrow> exn + bool) option"
  dp_authorizer :: "(string \<Rightarrow> exn + unit) option"
  dp_authorize :: "string option \<Rightarrow> exn + unit"

definition admission_incomplete :: exn where
  "admission_incomplete = ForeignError ''WorkloadAdmissionDenied''"

definition admit_subscriber :: "delivery_ports \<Rightarrow> 'h event_handler \<Rightarrow> exn + unit" where
  "admit_subscriber dp h =
     (case dp_admission dp of
        None \<Rightarrow> dp_authorize dp (eh_permission h)
      | Some admission \<Rightarrow>
          bind_res (admission (eh_subscriber h)) (\<lambda>bound.
            case (eh_permission h, dp_authorizer dp) of
              (Some p, Some authorize) \<Rightarrow> if bound then authorize p else Inl admission_incomplete
            | _ \<Rightarrow> Inl admission_incomplete))"

text \<open>One subscriber, in a unit of work of its own; \<open>run\<close> is the handler's effect on the data.\<close>

definition consume_one ::
  "('h \<Rightarrow> 'e \<Rightarrow> 'w \<Rightarrow> exn + 'w) \<Rightarrow> delivery_ports \<Rightarrow> uuid \<Rightarrow> uuid \<Rightarrow> 'e \<Rightarrow> commit_result \<Rightarrow> 'h event_handler \<Rightarrow>
   ('h, 'e, 'w) durable_state \<Rightarrow> ('h, 'e, 'w) durable_state \<times> (exn + bool)" where
  "consume_one run dp ten ev e outcome h w =
     (case admit_subscriber dp h of
        Inl x \<Rightarrow> (w, Inl x)
      | Inr _ \<Rightarrow>
          let k = (ten, eh_subscriber h, ev); (rows, claimed) = claim k (du_receipts w) in
          if \<not> claimed then (w, Inr False)
          else (case run (eh_handler h) e (du_data w) of
              Inl x \<Rightarrow> (w, Inl x)
            | Inr d \<Rightarrow>
                let w' = \<lparr>du_receipts = rows, du_data = d, du_runs = du_runs w @ [(k, eh_handler h, e)]\<rparr> in
                (case outcome of
                   COMMITTED \<Rightarrow> (w', Inr True)
                 | COMMIT_FAILED x \<Rightarrow> (w, Inl x)
                 | COMMIT_LOST x \<Rightarrow> (w', Inl x))))"

fun consume_each ::
  "('h \<Rightarrow> 'e \<Rightarrow> 'w \<Rightarrow> exn + 'w) \<Rightarrow> delivery_ports \<Rightarrow> uuid \<Rightarrow> uuid \<Rightarrow> 'e \<Rightarrow> (string \<Rightarrow> commit_result) \<Rightarrow> nat \<Rightarrow> 'h event_handler list \<Rightarrow>
   ('h, 'e, 'w) durable_state \<Rightarrow> ('h, 'e, 'w) durable_state \<times> (exn + nat)" where
  "consume_each run dp ten ev e outcomes n [] w = (w, Inr n)"
| "consume_each run dp ten ev e outcomes n (h # hs) w =
     (case consume_one run dp ten ev e (outcomes (eh_subscriber h)) h w of
        (w', Inl x) \<Rightarrow> (w', Inl x)
      | (w', Inr processed) \<Rightarrow> consume_each run dp ten ev e outcomes (if processed then Suc n else n) hs w')"

text \<open>\<open>consume\<close>; \<open>meta\<close> gives the event's tenant and identifier.\<close>

definition consume ::
  "gate option \<Rightarrow> 'h event_bus \<Rightarrow> ('h \<Rightarrow> 'e \<Rightarrow> 'w \<Rightarrow> exn + 'w) \<Rightarrow> delivery_ports \<Rightarrow> event_class \<Rightarrow> uuid \<times> uuid \<Rightarrow> 'e \<Rightarrow>
   request_context \<Rightarrow> (string \<Rightarrow> commit_result) \<Rightarrow> ('h, 'e, 'w) durable_state \<Rightarrow>
   gate option \<times> ('h, 'e, 'w) durable_state \<times> (exn + nat)" where
  "consume gt b run dp c meta e req outcomes w =
     (case tenant req of
        None \<Rightarrow> (gt, w, Inl (RuntimeError ''Durable event delivery requires authoritative tenant context''))
      | Some ten \<Rightarrow>
          if fst meta \<noteq> tenant_id ten
          then (gt, w, Inl (RuntimeError ''Event tenant does not match authoritative tenant context''))
          else (case admit_delivery gt b c (\<lambda>hs g. (g, Inr (consume_each run dp (tenant_id ten) (snd meta) e outcomes 0 hs w))) of
              (gt', Inl x) \<Rightarrow> (gt', w, Inl x)
            | (gt', Inr (w', r)) \<Rightarrow> (gt', w', r)))"

section \<open>Publication\<close>

lemma after_publication_message [simp]: "ob_message (after_publication now a r) = ob_message r"
  by (simp add: after_publication_def split: sum.splits)

lemma locked_batch_in: "r \<in> set (locked_batch locked limit rows) \<Longrightarrow>
   r \<in> set rows \<and> ob_published r = None \<and> \<not> locked (pm_event_id (ob_message r))"
  unfolding locked_batch_def by (drule in_set_takeD) simp

lemma locked_batch_length: "length (locked_batch locked limit rows) \<le> nat limit"
  by (simp add: locked_batch_def)

text \<open>
  A publication never loses or changes a message, marks a row published only if the broker took it, counts
  the marks and leaves every other row as it was.
\<close>

lemma publish_locked_batch_rows:
  assumes "publish_locked_batch broker now locked limit rows = (rows', sent, n)" and "i < length rows"
  shows "ob_message (rows' ! i) = ob_message (rows ! i)"
    and "ob_published (rows' ! i) \<noteq> ob_published (rows ! i) \<Longrightarrow>
         ob_published (rows ! i) = None \<and> ob_message (rows ! i) \<in> set sent \<and> broker (ob_message (rows ! i)) = Inr ()"
    and "rows ! i \<notin> set (locked_batch locked limit rows) \<Longrightarrow> rows' ! i = rows ! i"
proof -
  let ?b = "locked_batch locked limit rows"
  have rows': "rows' = map (\<lambda>r. if r \<in> set ?b then after_publication now (broker (ob_message r)) r else r) rows"
    and sent: "sent = map ob_message ?b" using assms(1) by (auto simp: publish_locked_batch_def Let_def)
  show "ob_message (rows' ! i) = ob_message (rows ! i)" using assms(2) rows' by simp
  show "rows ! i \<notin> set ?b \<Longrightarrow> rows' ! i = rows ! i" using assms(2) rows' by simp
  assume "ob_published (rows' ! i) \<noteq> ob_published (rows ! i)"
  with assms(2) rows' have "rows ! i \<in> set ?b" "broker (ob_message (rows ! i)) = Inr ()"
    by (auto simp: after_publication_def split: if_splits sum.splits)
  with locked_batch_in [of "rows ! i" locked limit rows] sent
  show "ob_published (rows ! i) = None \<and> ob_message (rows ! i) \<in> set sent \<and> broker (ob_message (rows ! i)) = Inr ()"
    by auto
qed

section \<open>Deliveries\<close>

text \<open>The handlers that became durable, replayed in order.\<close>

fun replay :: "('h \<Rightarrow> 'e \<Rightarrow> 'w \<Rightarrow> exn + 'w) \<Rightarrow> (receipt \<times> 'h \<times> 'e) list \<Rightarrow> 'w \<Rightarrow> exn + 'w" where
  "replay run [] d = Inr d"
| "replay run ((k, h, e) # rs) d = bind_res (run h e d) (replay run rs)"

lemma replay_append: "replay run (rs @ ss) d = bind_res (replay run rs d) (replay run ss)"
  by (induction rs arbitrary: d) (auto simp: bind_res_def split: sum.splits)

definition durable_ok :: "('h \<Rightarrow> 'e \<Rightarrow> 'w \<Rightarrow> exn + 'w) \<Rightarrow> 'w \<Rightarrow> ('h, 'e, 'w) durable_state \<Rightarrow> bool" where
  "durable_ok run d0 w \<longleftrightarrow> distinct (du_receipts w) \<and> map fst (du_runs w) = du_receipts w \<and> replay run (du_runs w) d0 = Inr (du_data w)"

lemma consume_one_ok:
  "consume_one run dp ten ev e outcome h w = (w', r) \<Longrightarrow> durable_ok run d0 w \<Longrightarrow> durable_ok run d0 w'"
  by (auto simp: consume_one_def claim_def durable_ok_def Let_def replay_append split: sum.splits if_splits commit_result.splits)

lemma consume_one_grows:
  "consume_one run dp ten ev e outcome h w = (w', r) \<Longrightarrow>
   (\<exists>rs. du_runs w' = du_runs w @ rs) \<and> set (du_receipts w) \<subseteq> set (du_receipts w')
   \<and> (r = Inr p \<longrightarrow> (ten, eh_subscriber h, ev) \<in> set (du_receipts w'))"
  by (auto simp: consume_one_def claim_def Let_def split: sum.splits if_splits commit_result.splits)

lemma consume_each_ok:
  "consume_each run dp ten ev e outcomes n hs w = (w', r) \<Longrightarrow> durable_ok run d0 w \<Longrightarrow> durable_ok run d0 w'"
proof (induction hs arbitrary: n w)
  case (Cons h hs)
  then show ?case by (auto split: prod.splits sum.splits dest: consume_one_ok)
qed simp

lemma consume_each_grows:
  assumes "consume_each run dp ten ev e outcomes n hs w = (w', r)"
  shows "(\<exists>rs. du_runs w' = du_runs w @ rs) \<and> set (du_receipts w) \<subseteq> set (du_receipts w')"
    and "r = Inr m \<Longrightarrow> h \<in> set hs \<Longrightarrow> (ten, eh_subscriber h, ev) \<in> set (du_receipts w')"
proof -
  have "(\<exists>rs. du_runs w' = du_runs w @ rs) \<and> set (du_receipts w) \<subseteq> set (du_receipts w')
      \<and> (\<forall>m h. r = Inr m \<and> h \<in> set hs \<longrightarrow> (ten, eh_subscriber h, ev) \<in> set (du_receipts w'))"
    using assms
  proof (induction hs arbitrary: n w)
    case (Cons x hs)
    obtain w1 r1 where one: "consume_one run dp ten ev e (outcomes (eh_subscriber x)) x w = (w1, r1)" by (cases "consume_one run dp ten ev e (outcomes (eh_subscriber x)) x w")
    show ?case
    proof (cases r1)
      case (Inl y)
      with Cons.prems one consume_one_grows [OF one] show ?thesis by auto
    next
      case (Inr p)
      with Cons.prems one have "consume_each run dp ten ev e outcomes (if p then Suc n else n) hs w1 = (w', r)" by simp
      from Cons.IH [OF this] consume_one_grows [OF one, of p] Inr show ?thesis by fastforce
    qed
  qed simp
  then show "(\<exists>rs. du_runs w' = du_runs w @ rs) \<and> set (du_receipts w) \<subseteq> set (du_receipts w')"
    and "r = Inr m \<Longrightarrow> h \<in> set hs \<Longrightarrow> (ten, eh_subscriber h, ev) \<in> set (du_receipts w')" by blast+
qed

text \<open>Any deliveries of any events, in any interleaving of their transactions, with any faults.\<close>

inductive delivery_step :: "('h \<Rightarrow> 'e \<Rightarrow> 'w \<Rightarrow> exn + 'w) \<Rightarrow> ('h, 'e, 'w) durable_state \<Rightarrow> ('h, 'e, 'w) durable_state \<Rightarrow> bool" for run where
  subscriber: "consume_one run dp ten ev e outcome h w = (w', r) \<Longrightarrow> delivery_step run w w'"

definition no_deliveries :: "'w \<Rightarrow> ('h, 'e, 'w) durable_state" where
  "no_deliveries d0 = \<lparr>du_receipts = [], du_data = d0, du_runs = []\<rparr>"

definition delivery_history :: "('h \<Rightarrow> 'e \<Rightarrow> 'w \<Rightarrow> exn + 'w) \<Rightarrow> 'w \<Rightarrow> ('h, 'e, 'w) durable_state \<Rightarrow> bool" where
  "delivery_history run d0 w \<longleftrightarrow> (delivery_step run)\<^sup>*\<^sup>* (no_deliveries d0) w"

lemma delivery_steps_ok:
  "(delivery_step run)\<^sup>*\<^sup>* w w' \<Longrightarrow> durable_ok run d0 w \<Longrightarrow> durable_ok run d0 w' \<and> set (du_receipts w) \<subseteq> set (du_receipts w')"
proof (induction rule: rtranclp_induct)
  case (step x y)
  from step(2) obtain dp ten ev e outcome h r where one: "consume_one run dp ten ev e outcome h x = (y, r)"
    by (auto elim: delivery_step.cases)
  from consume_one_ok [OF one] consume_one_grows [OF one] step show ?case by blast
qed simp

lemma delivery_history_ok: "delivery_history run d0 w \<Longrightarrow> durable_ok run d0 w"
  unfolding delivery_history_def using delivery_steps_ok [of run "no_deliveries d0" w d0]
  by (simp add: durable_ok_def no_deliveries_def)

lemma consume_each_steps:
  "consume_each run dp ten ev e outcomes n hs w = (w', r) \<Longrightarrow> (delivery_step run)\<^sup>*\<^sup>* w w'"
proof (induction hs arbitrary: n w)
  case (Cons h hs)
  obtain w1 r1 where one: "consume_one run dp ten ev e (outcomes (eh_subscriber h)) h w = (w1, r1)" by fastforce
  with Cons show ?case
    by (cases r1) (auto intro: delivery_step.intros converse_rtranclp_into_rtranclp)
qed simp

lemma admit_delivery_runs:
  assumes "admit_delivery gt b c (\<lambda>hs g. (g, Inr (f hs))) = (gt', Inr x)"
  obtains hs where "delivery_subscribers gt b c = Inr hs" "x = f hs"
  using assms by (auto simp: admit_delivery_def split: sum.splits option.splits)

lemma consume_Inr:
  assumes "consume gt b run dp c meta e req outcomes w = (gt', w', Inr n)"
  obtains hs where "delivery_subscribers gt b c = Inr hs" "consume_each run dp (fst meta) (snd meta) e outcomes 0 hs w = (w', Inr n)"
proof -
  from assms obtain ten where t: "tenant req = Some ten" "fst meta = tenant_id ten"
    by (auto simp: consume_def split: option.splits if_splits)
  with assms obtain x where x: "admit_delivery gt b c (\<lambda>hs g. (g, Inr (consume_each run dp (tenant_id ten) (snd meta) e outcomes 0 hs w)))
      = (gt', Inr x)" "x = (w', Inr n)"
    by (auto simp: consume_def split: prod.splits sum.splits)
  from admit_delivery_runs [OF x(1)] x(2) t(2) that show thesis by metis
qed

lemma obligated_admitted:
  assumes "delivery_subscribers gt b c = Inr hs"
    and "handler_at b c s \<noteq> None \<or> durable_owner b (ec_event_type c) s \<noteq> None"
  shows "\<exists>h \<in> set hs. eh_subscriber h = s"
proof -
  from assms(2) have "s \<in> set (map fst (inner (eb_durable b) (ec_event_type c)) @ map fst (inner (eb_handlers b) c))"
    by (auto simp: handler_at_def durable_owner_def dict_keys_iff)
  moreover from assms(1) have "hs = subscribers gt b c"
    "\<forall>n \<in> set (map fst (inner (eb_durable b) (ec_event_type c)) @ map fst (inner (eb_handlers b) c)). n \<in> eh_subscriber ` set (subscribers gt b c)"
    by (auto simp: delivery_subscribers_def Let_def list_ex_iff split: if_splits)
  ultimately have "s \<in> eh_subscriber ` set hs" by simp
  then show ?thesis by auto
qed

text \<open>
  C27: Durable effects happen exactly once. Whatever deliveries ran before, in whatever interleaving, with
  refused admissions, failing handlers, failed commits and commits whose answer was lost: when a delivery
  of an event returns, each handler of that event that is registered, and each one that is owed it durably,
  has taken effect exactly once for that event, this stays so under all later deliveries, and the durable data
  is what the effective handler runs give in their order, each run once.
\<close>

theorem durable_effects_exactly_once:
  assumes "delivery_history run d0 w"
    and "consume gt b run dp c (ten, ev) e req outcomes w = (gt', w', Inr n)"
    and "handler_at b c s \<noteq> None \<or> durable_owner b (ec_event_type c) s \<noteq> None"
    and "(delivery_step run)\<^sup>*\<^sup>* w' later"
  shows "count_list (map fst (du_runs later)) (ten, s, ev) = 1 \<and> distinct (map fst (du_runs later))
    \<and> replay run (du_runs later) d0 = Inr (du_data later)"
proof -
  from assms(2) obtain hs where hs: "delivery_subscribers gt b c = Inr hs"
    "consume_each run dp ten ev e outcomes 0 hs w = (w', Inr n)" by (rule consume_Inr) simp
  from obligated_admitted [OF hs(1) assms(3)] obtain h where h: "h \<in> set hs" "eh_subscriber h = s" by blast
  have "durable_ok run d0 w'" using consume_each_ok [OF hs(2)] delivery_history_ok [OF assms(1)] by blast
  from delivery_steps_ok [OF assms(4) this] consume_each_grows(2) [OF hs(2) refl h(1)] h(2)
  show ?thesis by (auto simp: durable_ok_def count_list_eq_length_filter distinct_length_filter)
qed

text \<open>A handler that counts; the first commit is lost, the broker delivers again.\<close>

definition counting_handler :: "event_class \<Rightarrow> string \<Rightarrow> int event_bus" where
  "counting_handler c s = \<lparr>eb_handlers = [(c, [(s, \<lparr>eh_owner = s, eh_subscriber = s, eh_handler = 5, eh_generation = None,
       eh_permission = None\<rparr>)])], eb_types = [(ec_event_type c, c)], eb_durable = []\<rparr>"

definition add_handler :: "int \<Rightarrow> unit \<Rightarrow> int \<Rightarrow> exn + int" where
  "add_handler k e d = Inr (d + k)"

definition open_ports :: delivery_ports where
  "open_ports = \<lparr>dp_admission = None, dp_authorizer = None, dp_authorize = (\<lambda>_. Inr ())\<rparr>"

definition delivery_request :: request_context where
  "delivery_request = \<lparr>correlation_id = ''c'', trace_id = ''t'', tenant = Some (tenant_context_of 1 7 42)\<rparr>"

definition counted_class :: event_class where
  "counted_class = \<lparr>ec_id = 1, ec_name = ''Counted'', ec_event_type = ''m.counted'', ec_schema = 1\<rparr>"

definition counted :: "(string \<Rightarrow> commit_result) \<Rightarrow> (int, unit, int) durable_state \<Rightarrow> (int, unit, int) durable_state \<times> (exn + nat)" where
  "counted outcomes w = snd (consume None (counting_handler counted_class ''s'') add_handler open_ports counted_class (7, 9) ()
     delivery_request outcomes w)"

lemma counted_twice:
  "counted (\<lambda>_. COMMIT_LOST (ForeignError ''lost'')) (no_deliveries 0)
     = (\<lparr>du_receipts = [(7, ''s'', 9)], du_data = 5, du_runs = [((7, ''s'', 9), 5, ())]\<rparr>, Inl (ForeignError ''lost''))
   \<and> counted (\<lambda>_. COMMITTED) (fst (counted (\<lambda>_. COMMIT_LOST (ForeignError ''lost'')) (no_deliveries 0)))
     = (\<lparr>du_receipts = [(7, ''s'', 9)], du_data = 5, du_runs = [((7, ''s'', 9), 5, ())]\<rparr>, Inr 0)"
  by code_simp

theorem durable_effects_exactly_once_witness:
  "count_list (map fst (du_runs (fst (counted (\<lambda>_. COMMITTED) (fst (counted (\<lambda>_. COMMIT_LOST (ForeignError ''lost'')) (no_deliveries 0)))))))
     (7, ''s'', 9) = 1"
proof -
  let ?w = "\<lparr>du_receipts = [(7, ''s'', 9)], du_data = 5, du_runs = [((7, ''s'', 9), 5, ())]\<rparr> :: (int, unit, int) durable_state"
  let ?b = "counting_handler counted_class ''s''"
  have one: "consume_one add_handler open_ports 7 9 () (COMMIT_LOST (ForeignError ''lost''))
      \<lparr>eh_owner = ''s'', eh_subscriber = ''s'', eh_handler = 5, eh_generation = None, eh_permission = None\<rparr>
      (no_deliveries 0) = (?w, Inl (ForeignError ''lost''))" by code_simp
  have hist: "delivery_history add_handler 0 ?w"
    unfolding delivery_history_def by (rule r_into_rtranclp, rule delivery_step.subscriber [OF one])
  have again: "consume None ?b add_handler open_ports counted_class (7, 9) () delivery_request (\<lambda>_. COMMITTED) ?w = (None, ?w, Inr 0)"
    by code_simp
  have s: "handler_at ?b counted_class ''s'' \<noteq> None" by code_simp
  from durable_effects_exactly_once [OF hist again disjI1 [OF s] rtranclp.rtrancl_refl]
  have "count_list (map fst (du_runs ?w)) (7, ''s'', 9) = 1" by blast
  then show ?thesis unfolding conjunct2 [OF counted_twice] fst_conv .
qed

end
