(* ===== verification/Event_Worker.thy ===== *)
theory Event_Worker
  imports Eventing
begin

text \<open>
  The event worker (\<open>event_worker.py\<close>, \<open>event_source.py\<close>) and the broker adapter's acknowledgement (\<open>providers.py\<close>):
  the settings, the trusted envelope of a delivery, its comparison with the committed outbox, the worker's
  own authority and quarantine, and the answer that a delivery gets. Parameters: the scanner of JSON text
  (\<open>scan\<close>), the pydantic models (\<open>common\<close>, \<open>parse\<close>) and the workload authority. The publisher task, its
  timeouts and the clean-up are asyncio tasks and left out.
\<close>

section \<open>Numbers and UUIDs in text\<close>

definition digit_value :: "nat \<Rightarrow> char \<Rightarrow> nat option" where
  "digit_value base c =
     (let n = (of_char c :: nat);
          v = (if 48 \<le> n \<and> n \<le> 57 then Some (n - 48)
               else if 97 \<le> n \<and> n \<le> 102 then Some (n - 87)
               else if 65 \<le> n \<and> n \<le> 70 then Some (n - 55) else None)
      in case v of None \<Rightarrow> None | Some d \<Rightarrow> if d < base then Some d else None)"

text \<open>Digits with single underscores between them; the flag says that the last character was a digit.\<close>

fun digits_value :: "nat \<Rightarrow> bool \<Rightarrow> nat \<Rightarrow> string \<Rightarrow> nat option" where
  "digits_value base after acc [] = (if after then Some acc else None)"
| "digits_value base after acc (c # cs) =
     (if c = CHR ''_'' then (if after then digits_value base False acc cs else None)
      else (case digit_value base c of
          None \<Rightarrow> None
        | Some d \<Rightarrow> digits_value base True (acc * base + d) cs))"

text \<open>\<open>int(s, base)\<close> for base 10 and 16.\<close>

definition hex_prefix :: "nat \<Rightarrow> string \<Rightarrow> string" where
  "hex_prefix base s =
     (if base = 16 \<and> (starts_with ''0x'' s \<or> starts_with ''0X'' s)
      then (case drop 2 s of c # cs \<Rightarrow> if c = CHR ''_'' then cs else c # cs | [] \<Rightarrow> []) else s)"

definition python_int :: "nat \<Rightarrow> string \<Rightarrow> int option" where
  "python_int base s =
     (case strip is_space s of
        [] \<Rightarrow> None
      | c # cs \<Rightarrow>
          if c = CHR ''-'' then map_option (\<lambda>n. - int n) (digits_value base False 0 (hex_prefix base cs))
          else if c = CHR ''+'' then map_option int (digits_value base False 0 (hex_prefix base cs))
          else map_option int (digits_value base False 0 (hex_prefix base (c # cs))))"

fun remove_each :: "string \<Rightarrow> string \<Rightarrow> nat \<Rightarrow> string" where
  "remove_each w s 0 = s"
| "remove_each w [] (Suc n) = []"
| "remove_each w (c # cs) (Suc n) =
     (if starts_with w (c # cs) then remove_each w (drop (length w) (c # cs)) n else c # remove_each w cs n)"

definition read_uuid :: "string \<Rightarrow> uuid option" where
  "read_uuid s =
     (let bare = remove_each ''uuid:'' (remove_each ''urn:'' s (length s)) (length s);
          hex = filter (\<lambda>c. c \<noteq> CHR ''-'') (strip (\<lambda>c. c = CHR ''{'' \<or> c = CHR ''}'') bare)
      in if length hex \<noteq> 32 then None
         else (case python_int 16 hex of
            None \<Rightarrow> None
          | Some i \<Rightarrow> if 0 \<le> i \<and> i < 2 ^ 128 then Some i else None))"

definition hex_digits :: "nat \<Rightarrow> nat \<Rightarrow> string" where
  "hex_digits w n = map (\<lambda>i. hex_digit (n div 16 ^ i mod 16)) (rev [0..<w])"

definition show_uuid :: "uuid \<Rightarrow> string" where
  "show_uuid u =
     (let h = hex_digits 32 (nat u)
      in take 8 h @ ''-'' @ take 4 (drop 8 h) @ ''-'' @ take 4 (drop 12 h) @ ''-'' @ take 4 (drop 16 h) @ ''-'' @ drop 20 h)"

section \<open>Settings\<close>

text \<open>A parsed database URL.\<close>

record database_url =
  du_driver :: string
  du_user :: "string option"
  du_location :: "string \<times> int option \<times> string \<times> (string \<times> string) list"

record worker_settings =
  ws_runtime :: "string \<times> database_url"
  ws_operations :: "string \<times> database_url"
  ws_governance :: "(string \<times> database_url) option"
  ws_storage :: "string option \<times> string option \<times> string option"
  ws_permissions :: string

definition same_source :: "database_url \<Rightarrow> database_url \<Rightarrow> bool" where
  "same_source a b \<longleftrightarrow> du_driver a = du_driver b \<and> du_location a = du_location b"

definition set_value :: "string option \<Rightarrow> bool" where
  "set_value s \<longleftrightarrow> s \<noteq> None \<and> s \<noteq> Some ''''"

definition postgres :: string where
  "postgres = ''postgresql+psycopg://''"

definition validate_settings :: "worker_settings \<Rightarrow> exn + unit" where
  "validate_settings s =
     (let (rt, ru) = ws_runtime s; (ot, ou) = ws_operations s; (a, b, c) = ws_storage s in
      if \<not> starts_with postgres rt \<or> \<not> starts_with postgres ot
      then Inl (ValueError ''event worker database URLs must use postgresql+psycopg'')
      else if du_user ru \<noteq> Some ''businessos_worker'' \<or> du_user ou \<noteq> Some ''businessos_ops''
      then Inl (ValueError ''event worker requires businessos_worker and businessos_ops roles'')
      else if \<not> same_source ru ou then Inl (ValueError ''runtime and operations roles must use the same source database'')
      else seq_res
        (case ws_governance s of
           None \<Rightarrow> Inr ()
         | Some (gt, gu) \<Rightarrow>
             if \<not> starts_with postgres gt then Inl (ValueError ''governance database URL must use postgresql+psycopg'')
             else raise_if (du_user gu \<noteq> Some ''businessos_governance'' \<or> \<not> same_source gu ru)
                    (ValueError ''governance role must use the same source database''))
        (raise_if ((set_value a \<or> set_value b \<or> set_value c) \<and> \<not> (set_value a \<and> set_value b \<and> set_value c))
           (ValueError ''S3 bucket, access key and secret key must be configured together'')))"

definition allowed_permissions :: "worker_settings \<Rightarrow> string list" where
  "allowed_permissions s = filter (\<lambda>x. x \<noteq> []) (map (strip is_space) (split_on CHR '','' (ws_permissions s)))"

definition worker_is_allowed :: "uuid \<Rightarrow> string list \<Rightarrow> uuid \<Rightarrow> string \<Rightarrow> bool" where
  "worker_is_allowed worker granted p permission \<longleftrightarrow> p = worker \<and> permission \<in> set granted"

section \<open>The payload\<close>

text \<open>What \<open>json.loads\<close> hands to its hooks: objects as lists of pairs, constants such as \<open>NaN\<close> by name.\<close>

datatype raw_json =
    RNull
  | RBool bool
  | RInt int
  | RFloat string
  | RConstant string
  | RStr string
  | RArr "raw_json list"
  | RObj "(string \<times> raw_json) list"

fun strict_json :: "raw_json \<Rightarrow> json option"
and strict_items :: "raw_json list \<Rightarrow> json list option"
and strict_pairs :: "(string \<times> raw_json) list \<Rightarrow> (string \<times> json) list option" where
  "strict_json RNull = Some JNull"
| "strict_json (RBool b) = Some (JBool b)"
| "strict_json (RInt i) = Some (JInt i)"
| "strict_json (RFloat r) = Some (JFloat r)"
| "strict_json (RConstant n) = None"
| "strict_json (RStr s) = Some (JStr s)"
| "strict_json (RArr xs) = map_option JArr (strict_items xs)"
| "strict_json (RObj es) = (if distinct (map fst es) then map_option JObj (strict_pairs es) else None)"
| "strict_items [] = Some []"
| "strict_items (x # xs) =
     (case strict_json x of None \<Rightarrow> None | Some y \<Rightarrow> map_option (\<lambda>ys. y # ys) (strict_items xs))"
| "strict_pairs [] = Some []"
| "strict_pairs ((k, x) # es) =
     (case strict_json x of None \<Rightarrow> None | Some y \<Rightarrow> map_option (\<lambda>ys. (k, y) # ys) (strict_pairs es))"

text \<open>Its message is only logged.\<close>

definition permanent :: "string \<Rightarrow> exn" where
  "permanent m = ForeignError ''PermanentDeliveryError''"

definition is_permanent :: "exn \<Rightarrow> bool" where
  "is_permanent e \<longleftrightarrow> e = ForeignError ''PermanentDeliveryError''"

definition strict_event_payload :: "(string \<Rightarrow> raw_json option) \<Rightarrow> string \<Rightarrow> exn + json" where
  "strict_event_payload scan s =
     (case Option.bind (scan s) strict_json of
        Some (JObj es) \<Rightarrow> if json_finite (JObj es) then Inr (JObj es) else Inl (permanent ''Invalid event envelope'')
      | _ \<Rightarrow> Inl (permanent ''Invalid event envelope''))"

section \<open>The committed source\<close>

record common_event =
  ce_id :: uuid
  ce_tenant :: uuid
  ce_occurred_at :: instant
  ce_correlation :: string
  ce_causation :: "string option"

definition verify_source :: "outbox_row list \<Rightarrow> string \<Rightarrow> int \<Rightarrow> common_event \<Rightarrow> json \<Rightarrow> exn + unit" where
  "verify_source rows event_type schema c payload =
     (case List.find (\<lambda>r. pm_event_id (ob_message r) = ce_id c) rows of
        None \<Rightarrow> Inl (permanent ''Event does not match committed source'')
      | Some r \<Rightarrow>
          let m = ob_message r in
          raise_if (pm_tenant m \<noteq> ce_tenant c \<or> pm_event_type m \<noteq> event_type \<or> pm_schema m \<noteq> schema
              \<or> pm_occurred_at m \<noteq> ce_occurred_at c \<or> pm_correlation m \<noteq> ce_correlation c \<or> pm_causation m \<noteq> ce_causation c
              \<or> dump_json (pm_payload m) \<noteq> dump_json payload)
            (permanent ''Event does not match committed source''))"

section \<open>The trusted envelope\<close>

record decoded_event =
  de_id :: uuid
  de_tenant :: uuid
  de_schema :: int
  de_correlation :: string

definition required_header :: "broker_event \<Rightarrow> string \<Rightarrow> exn + string" where
  "required_header d name =
     (case dict_get (br_headers d) name of
        None \<Rightarrow> Inl (ForeignError ''LookupError'')
      | Some v \<Rightarrow> if blank v then Inl (ForeignError ''LookupError'') else Inr v)"

definition of_option :: "exn \<Rightarrow> 'a option \<Rightarrow> exn + 'a" where
  "of_option e v = (case v of None \<Rightarrow> Inl e | Some x \<Rightarrow> Inr x)"

text \<open>\<open>LookupError\<close>, \<open>TypeError\<close> and \<open>ValueError\<close> are permanent, other errors pass.\<close>

definition envelope_error :: "exn \<Rightarrow> exn" where
  "envelope_error e =
     (case e of
        ValueError _ \<Rightarrow> permanent ''Invalid event envelope''
      | ForeignError n \<Rightarrow> if n = ''LookupError'' \<or> n = ''TypeError'' then permanent ''Invalid event envelope'' else e
      | _ \<Rightarrow> e)"

definition mismatch :: exn where
  "mismatch = ValueError ''event payload does not match its trusted envelope''"

definition open_envelope_raw ::
  "(string \<Rightarrow> raw_json option) \<Rightarrow> (json \<Rightarrow> exn + common_event) \<Rightarrow> (event_class \<Rightarrow> string \<Rightarrow> exn + decoded_event) \<Rightarrow> 'h event_bus \<Rightarrow>
   string \<Rightarrow> outbox_row list \<Rightarrow> broker_event \<Rightarrow> exn + string \<times> decoded_event" where
  "open_envelope_raw scan common parse b prefix rows d =
     bind_res (required_header d ''event-type'') (\<lambda>event_type.
     bind_res (required_header d ''tenant-id'') (\<lambda>tenant_text.
     bind_res (of_option (ValueError ''uuid'') (read_uuid tenant_text)) (\<lambda>ten.
     bind_res (required_header d ''event-id'') (\<lambda>id_text.
     bind_res (of_option (ValueError ''uuid'') (read_uuid id_text)) (\<lambda>i.
     bind_res (required_header d ''schema-version'') (\<lambda>schema_text.
     bind_res (of_option (ValueError ''int'') (python_int 10 schema_text)) (\<lambda>schema.
     bind_res (required_header d ''correlation-id'') (\<lambda>correlation.
     bind_res (raise_if (br_subject d \<noteq> prefix @ ''.tenant.'' @ show_uuid ten @ ''.'' @ event_type)
                (ValueError ''event subject does not match its trusted envelope'')) (\<lambda>_.
     bind_res (raise_if (schema < 1) (ValueError ''event schema version must be positive'')) (\<lambda>_.
     bind_res (strict_event_payload scan (br_payload d)) (\<lambda>payload.
     bind_res (common payload) (\<lambda>c.
     bind_res (raise_if (ce_id c \<noteq> i \<or> ce_tenant c \<noteq> ten \<or> ce_correlation c \<noteq> correlation) mismatch) (\<lambda>_.
     bind_res (verify_source rows event_type schema c payload) (\<lambda>_.
     bind_res (decode parse b event_type (br_payload d) (Some schema)) (\<lambda>e.
     bind_res (raise_if (de_id e \<noteq> i \<or> de_tenant e \<noteq> ten \<or> de_schema e \<noteq> schema \<or> de_correlation e \<noteq> correlation) mismatch) (\<lambda>_.
       Inr (event_type, e)))))))))))))))))"

definition open_envelope ::
  "(string \<Rightarrow> raw_json option) \<Rightarrow> (json \<Rightarrow> exn + common_event) \<Rightarrow> (event_class \<Rightarrow> string \<Rightarrow> exn + decoded_event) \<Rightarrow> 'h event_bus \<Rightarrow>
   string \<Rightarrow> outbox_row list \<Rightarrow> broker_event \<Rightarrow> exn + string \<times> decoded_event" where
  "open_envelope scan common parse b prefix rows d =
     (case open_envelope_raw scan common parse b prefix rows d of Inl e \<Rightarrow> Inl (envelope_error e) | Inr x \<Rightarrow> Inr x)"

section \<open>The worker's own authority\<close>

record event_worker =
  wk_quarantined :: bool
  wk_stopping :: bool
  wk_subscribed :: bool
  wk_closing :: bool

definition quarantine :: "event_worker \<Rightarrow> event_worker" where
  "quarantine k =
     (let k1 = k\<lparr>wk_quarantined := True, wk_stopping := True\<rparr> in
      if \<not> wk_subscribed k \<or> wk_closing k then k1 else k1\<lparr>wk_subscribed := False, wk_closing := True\<rparr>)"

definition denied :: exn where
  "denied = ForeignError ''WorkloadAdmissionDenied''"

text \<open>
  \<open>_verify_workload\<close>: the workload, the reference and the content of the credential file, of which at most 4097
  bytes are read; the authority's proof is the instant it is valid until.
\<close>

record workload_port =
  wp_id :: "uuid option"
  wp_reference :: "string option"
  wp_credential :: "(exn + string) option"
  wp_verify :: "(string \<Rightarrow> uuid \<Rightarrow> string \<Rightarrow> string \<Rightarrow> exn + instant) option"
  wp_operation :: "string \<Rightarrow> exn + unit"
  wp_bind :: "instant \<Rightarrow> uuid \<Rightarrow> uuid \<Rightarrow> string \<Rightarrow> exn + bool"

definition verify_workload :: "workload_port \<Rightarrow> string \<Rightarrow> exn + instant" where
  "verify_workload wp purpose =
     (case (wp_id wp, wp_reference wp, wp_credential wp) of
        (Some i, Some r, Some file) \<Rightarrow>
          bind_res file (\<lambda>content.
            let credential = take 4097 content in
            if \<not> (32 \<le> length credential \<and> length credential \<le> 4096) then Inl denied
            else (case wp_verify wp of None \<Rightarrow> Inl denied | Some verify \<Rightarrow> verify purpose i r credential))
      | _ \<Rightarrow> Inl denied)"

text \<open>\<open>_synchronize_subscriber_obligations\<close>; the bus is bound before the transaction commits.\<close>

definition record_obligation :: "subscriber_declaration list \<Rightarrow> subscriber_declaration \<Rightarrow> subscriber_declaration list" where
  "record_obligation rows d =
     (if \<exists>r \<in> set rows. sd_event_type r = sd_event_type d \<and> sd_subscriber r = sd_subscriber d then rows else rows @ [d])"

definition obligation_before :: "subscriber_declaration \<Rightarrow> subscriber_declaration \<Rightarrow> bool" where
  "obligation_before a b \<longleftrightarrow>
     sd_event_type a < sd_event_type b \<or> (sd_event_type a = sd_event_type b \<and> sd_subscriber a \<le> sd_subscriber b)"

definition synchronize ::
  "workload_port \<Rightarrow> commit_result \<Rightarrow> 'h event_bus \<Rightarrow> subscriber_declaration list \<Rightarrow>
   'h event_bus \<times> subscriber_declaration list \<times> (exn + unit)" where
  "synchronize wp outcome b rows =
     (case bind_res (verify_workload wp ''subscriber-sync'') (\<lambda>_. wp_operation wp ''subscriber-sync'') of
        Inl e \<Rightarrow> (b, rows, Inl e)
      | Inr _ \<Rightarrow>
          let rows' = foldl record_obligation rows (subscriber_declarations b) in
          (case bind_durable_subscribers b (order_by obligation_before rows') of
             Inl e \<Rightarrow> (b, rows, Inl e)
           | Inr b' \<Rightarrow>
               (case outcome of
                  COMMITTED \<Rightarrow> (b', rows', Inr ())
                | COMMIT_FAILED e \<Rightarrow> (b', rows, Inl e)
                | COMMIT_LOST e \<Rightarrow> (b', rows', Inl e))))"

section \<open>A delivery\<close>

definition delivery_context :: "uuid \<Rightarrow> uuid \<Rightarrow> broker_event \<Rightarrow> uuid \<Rightarrow> string \<Rightarrow> request_context" where
  "delivery_context installation worker d ten correlation =
     (let parts = split_on CHR ''-'' (case dict_get (br_headers d) ''traceparent'' of None \<Rightarrow> '''' | Some v \<Rightarrow> v) in
      \<lparr>correlation_id = correlation, trace_id = (if length parts = 4 then parts ! 1 else ''''),
       tenant = Some ((tenant_context_of installation ten worker)\<lparr>authentication_strength := ''worker-routing-only''\<rparr>)\<rparr>)"

definition max_admitted_microseconds :: instant where
  "max_admitted_microseconds = 45 * 1000000"

text \<open>\<open>admit_subscriber\<close>: a proof that is about to end is renewed before it is bound.\<close>

definition worker_admission :: "workload_port \<Rightarrow> instant \<Rightarrow> instant \<Rightarrow> uuid \<Rightarrow> uuid \<Rightarrow> string \<Rightarrow> exn + bool" where
  "worker_admission wp now valid_until ten ev subscriber =
     bind_res (if valid_until - now \<le> max_admitted_microseconds then verify_workload wp ''event-delivery'' else Inr valid_until) (\<lambda>pf.
     bind_res (case wp_verify wp of None \<Rightarrow> Inl denied | Some _ \<Rightarrow> Inr ()) (\<lambda>_.
       wp_bind wp pf ten ev subscriber))"

record ('h, 'w) delivery_port =
  dv_scan :: "string \<Rightarrow> raw_json option"
  dv_common :: "json \<Rightarrow> exn + common_event"
  dv_parse :: "event_class \<Rightarrow> string \<Rightarrow> exn + decoded_event"
  dv_run :: "'h \<Rightarrow> decoded_event \<Rightarrow> 'w \<Rightarrow> exn + 'w"
  dv_workload :: workload_port
  dv_authorize :: "string \<Rightarrow> exn + unit"
  dv_prefix :: string
  dv_installation :: uuid
  dv_worker :: uuid
  dv_now :: instant
  dv_gate :: "gate option"
  dv_outcomes :: "string \<Rightarrow> commit_result"
  dv_synchronized :: commit_result

record ('h, 'w) worker_state =
  wt_worker :: event_worker
  wt_bus :: "'h event_bus"
  wt_obligations :: "subscriber_declaration list"
  wt_durable :: "('h, decoded_event, 'w) durable_state"

definition quarantine_if :: "exn \<Rightarrow> ('h, 'w) worker_state \<Rightarrow> ('h, 'w) worker_state" where
  "quarantine_if e s = (if e = denied then s\<lparr>wt_worker := quarantine (wt_worker s)\<rparr> else s)"

definition run_subscribers ::
  "('h, 'w) delivery_port \<Rightarrow> instant \<Rightarrow> broker_event \<Rightarrow> string \<Rightarrow> decoded_event \<Rightarrow> ('h, 'w) worker_state \<Rightarrow> ('h, 'w) worker_state \<times> (exn + nat)" where
  "run_subscribers dv pf d event_type e s =
     (case synchronize (dv_workload dv) (dv_synchronized dv) (wt_bus s) (wt_obligations s) of
        (b, rows, Inl x) \<Rightarrow> (s\<lparr>wt_bus := b, wt_obligations := rows\<rparr>, Inl x)
      | (b, rows, Inr _) \<Rightarrow>
          let s1 = s\<lparr>wt_bus := b, wt_obligations := rows\<rparr>;
              ports = \<lparr>dp_admission = Some (worker_admission (dv_workload dv) (dv_now dv) pf (de_tenant e) (de_id e)),
                dp_authorizer = Some (dv_authorize dv), dp_authorize = (\<lambda>_. Inr ())\<rparr>
          in (case dict_get (eb_types b) event_type of
              None \<Rightarrow> (s1, Inl (NotFoundError event_type))
            | Some c \<Rightarrow>
                (case consume (dv_gate dv) b (dv_run dv) ports c (de_tenant e, de_id e) e
                        (delivery_context (dv_installation dv) (dv_worker dv) d (de_tenant e) (de_correlation e)) (dv_outcomes dv) (wt_durable s1) of
                   (_, w, r) \<Rightarrow> (s1\<lparr>wt_durable := w\<rparr>, r))))"

text \<open>\<open>_consume_delivery\<close>.\<close>

definition consume_delivery ::
  "('h, 'w) delivery_port \<Rightarrow> outbox_row list \<Rightarrow> broker_event \<Rightarrow> ('h, 'w) worker_state \<Rightarrow> ('h, 'w) worker_state \<times> (exn + unit)" where
  "consume_delivery dv rows d s =
     (if wk_quarantined (wt_worker s) then (s, Inl denied)
      else (case verify_workload (dv_workload dv) ''event-delivery'' of
          Inl e \<Rightarrow> (quarantine_if e s, Inl e)
        | Inr pf \<Rightarrow>
            (case open_envelope (dv_scan dv) (dv_common dv) (dv_parse dv) (wt_bus s) (dv_prefix dv) rows d of
               Inl e \<Rightarrow> (s, Inl e)
             | Inr (event_type, e) \<Rightarrow>
                 (case run_subscribers dv pf d event_type e s of
                    (s', Inl x) \<Rightarrow> (quarantine_if x s', Inl x)
                  | (s', Inr _) \<Rightarrow> (s', Inr ())))))"

text \<open>The broker adapter: \<open>deliver\<close> in \<open>NatsJetStreamPublisher.subscribe\<close>.\<close>

datatype acknowledgement = Acknowledged | Redelivered | Terminated

definition deliver ::
  "('h, 'w) delivery_port \<Rightarrow> outbox_row list \<Rightarrow> broker_event \<Rightarrow> ('h, 'w) worker_state \<Rightarrow> ('h, 'w) worker_state \<times> acknowledgement" where
  "deliver dv rows d s =
     (case consume_delivery dv rows d s of
        (s', Inr _) \<Rightarrow> (s', Acknowledged)
      | (s', Inl e) \<Rightarrow> (s', if is_permanent e then Terminated else Redelivered))"

section \<open>What an acknowledgement means\<close>

lemma verify_source_Inr:
  "verify_source rows event_type schema c payload = Inr u \<Longrightarrow>
   \<exists>r \<in> set rows. pm_event_id (ob_message r) = ce_id c \<and> pm_tenant (ob_message r) = ce_tenant c
     \<and> pm_event_type (ob_message r) = event_type \<and> pm_schema (ob_message r) = schema
     \<and> pm_correlation (ob_message r) = ce_correlation c \<and> dump_json (pm_payload (ob_message r)) = dump_json payload"
  by (auto simp: verify_source_def Let_def split: option.splits dest!: select_first_Some [unfolded select_first_def])

text \<open>The committed row that a delivered event came from.\<close>

definition committed_source :: "(string \<Rightarrow> raw_json option) \<Rightarrow> outbox_row list \<Rightarrow> string \<Rightarrow> decoded_event \<Rightarrow> broker_event \<Rightarrow> bool" where
  "committed_source scan rows event_type e d \<longleftrightarrow>
     (\<exists>r \<in> set rows. \<exists>payload. pm_event_id (ob_message r) = de_id e \<and> pm_tenant (ob_message r) = de_tenant e
        \<and> pm_event_type (ob_message r) = event_type \<and> pm_schema (ob_message r) = de_schema e
        \<and> pm_correlation (ob_message r) = de_correlation e
        \<and> strict_event_payload scan (br_payload d) = Inr payload
        \<and> dump_json (pm_payload (ob_message r)) = dump_json payload)"

lemma open_envelope_Inr:
  assumes "open_envelope scan common parse b prefix rows d = Inr (event_type, e)"
  shows "committed_source scan rows event_type e d"
    and "\<exists>c. dict_get (eb_types b) event_type = Some c \<and> parse c (br_payload d) = Inr e \<and> ec_schema c = de_schema e"
proof -
  from assms have raw: "open_envelope_raw scan common parse b prefix rows d = Inr (event_type, e)"
    by (auto simp: open_envelope_def split: sum.splits)
  then obtain payload c schema where p: "strict_event_payload scan (br_payload d) = Inr payload" "common payload = Inr c"
    and v: "verify_source rows event_type schema c payload = Inr ()"
    and dec: "decode parse b event_type (br_payload d) (Some schema) = Inr e"
    and ids: "ce_id c = de_id e" "ce_tenant c = de_tenant e" "de_schema e = schema" "ce_correlation c = de_correlation e"
    unfolding open_envelope_raw_def by (auto simp: bind_res_Inr)
  from verify_source_Inr [OF v] p(1) ids show "committed_source scan rows event_type e d"
    unfolding committed_source_def by metis
  from dec ids(3) show "\<exists>c. dict_get (eb_types b) event_type = Some c \<and> parse c (br_payload d) = Inr e \<and> ec_schema c = de_schema e"
    by (auto simp: decode_def split: option.splits if_splits)
qed

lemma run_subscribers_Inr:
  assumes "run_subscribers dv pf d event_type e s = (s', Inr n)"
  obtains rows c req ports gt' where
    "synchronize (dv_workload dv) (dv_synchronized dv) (wt_bus s) (wt_obligations s) = (wt_bus s', rows, Inr ())"
    "dict_get (eb_types (wt_bus s')) event_type = Some c"
    "consume (dv_gate dv) (wt_bus s') (dv_run dv) ports c (de_tenant e, de_id e) e req (dv_outcomes dv) (wt_durable s) = (gt', wt_durable s', Inr n)"
  using assms by (auto simp: run_subscribers_def Let_def split: prod.splits sum.splits option.splits)

lemma synchronize_Inr:
  "synchronize wp outcome b rows = (b', rows', Inr u) \<Longrightarrow> \<exists>pf. verify_workload wp ''subscriber-sync'' = Inr pf"
  by (auto simp: synchronize_def bind_res_def Let_def split: sum.splits)

lemma consume_delivery_Inr:
  assumes "consume_delivery dv rows d s = (s', Inr u)"
  obtains pf event_type e n where "\<not> wk_quarantined (wt_worker s)" "verify_workload (dv_workload dv) ''event-delivery'' = Inr pf"
    "open_envelope (dv_scan dv) (dv_common dv) (dv_parse dv) (wt_bus s) (dv_prefix dv) rows d = Inr (event_type, e)"
    "run_subscribers dv pf d event_type e s = (s', Inr n)"
  using assms by (auto simp: consume_delivery_def split: if_splits sum.splits prod.splits)

lemma deliver_Acknowledged: "deliver dv rows d s = (s', Acknowledged) \<longleftrightarrow> consume_delivery dv rows d s = (s', Inr ())"
  by (auto simp: deliver_def split: prod.splits sum.splits if_splits)

lemma quarantine_final: "wk_quarantined k \<Longrightarrow> wk_quarantined (quarantine k) \<and> wk_stopping (quarantine k)"
  by (simp add: quarantine_def Let_def)

lemma verify_workload_Inr:
  "verify_workload wp purpose = Inr pf \<Longrightarrow>
   \<exists>i r credential verify. wp_id wp = Some i \<and> wp_reference wp = Some r \<and> wp_verify wp = Some verify
     \<and> 32 \<le> length credential \<and> length credential \<le> 4096 \<and> verify purpose i r credential = Inr pf"
proof -
  assume v: "verify_workload wp purpose = Inr pf"
  then obtain i r src where p: "wp_id wp = Some i" "wp_reference wp = Some r" "wp_credential wp = Some src"
    by (auto simp: verify_workload_def split: option.splits)
  from v p obtain content where c: "src = Inr content" by (cases src) (auto simp: verify_workload_def)
  with v p have l: "32 \<le> length (take 4097 content) \<and> length (take 4097 content) \<le> 4096"
    by (auto simp: verify_workload_def Let_def split: if_splits)
  with v p c obtain verify where "wp_verify wp = Some verify" "verify purpose i r (take 4097 content) = Inr pf"
    by (cases "wp_verify wp") (auto simp: verify_workload_def Let_def simp del: length_take)
  with p show ?thesis by (intro exI [of _ i] exI [of _ r] exI [of _ "take 4097 content"] exI [of _ verify]) (use l in simp)
qed


section \<open>A committed row is accepted\<close>

definition plain_hex :: "nat \<Rightarrow> bool" where
  "plain_hex n \<longleftrightarrow> digit_value 16 (hex_digit n) = Some n \<and> hex_digit n \<notin> set ''_-u{}+xX'' \<and> \<not> is_space (hex_digit n)"

lemma hex_digit_value: "n < 16 \<Longrightarrow> digit_value 16 (hex_digit n) = Some n \<and> hex_digit n \<noteq> CHR ''_'' \<and> hex_digit n \<noteq> CHR ''-''
    \<and> hex_digit n \<noteq> CHR ''u'' \<and> hex_digit n \<noteq> CHR ''{'' \<and> hex_digit n \<noteq> CHR ''}'' \<and> hex_digit n \<noteq> CHR ''+''
    \<and> hex_digit n \<noteq> CHR ''x'' \<and> hex_digit n \<noteq> CHR ''X'' \<and> \<not> is_space (hex_digit n)"
proof -
  assume n: "n < 16"
  have "list_all plain_hex [0..<16]" by code_simp
  with n have "plain_hex n" by (simp only: list_all_iff set_upt) simp
  then show ?thesis by (simp add: plain_hex_def)
qed

lemma digits_value_hex:
  "xs \<noteq> [] \<or> after \<Longrightarrow> \<forall>x \<in> set xs. x < 16 \<Longrightarrow>
   digits_value 16 after acc (map hex_digit xs) = Some (foldl (\<lambda>a d. a * 16 + d) acc xs)"
proof (induction xs arbitrary: after acc)
  case (Cons x xs)
  then show ?case using hex_digit_value [of x] by simp
qed simp

lemma horner: "foldl (\<lambda>a d. a * 16 + d) acc (map (\<lambda>i. n div 16 ^ i mod 16) (rev [0..<w])) = acc * 16 ^ w + n mod (16 ^ w :: nat)"
proof (induction w arbitrary: acc)
  case (Suc w)
  have "n mod 16 ^ Suc w = 16 ^ w * (n div 16 ^ w mod 16) + n mod 16 ^ w"
    using mod_mult2_eq [of n "16 ^ w" 16] by (simp add: mult.commute)
  with Suc show ?case by (simp add: algebra_simps)
qed simp

lemma hex_digits_chars: "c \<in> set (hex_digits w n) \<Longrightarrow> \<exists>k < 16. c = hex_digit k"
proof -
  assume "c \<in> set (hex_digits w n)"
  then obtain i where "c = hex_digit (n div 16 ^ i mod 16)" by (auto simp: hex_digits_def)
  then show ?thesis by (intro exI [of _ "n div 16 ^ i mod 16"]) simp
qed

lemma remove_each_id: "CHR ''u'' \<notin> set s \<Longrightarrow> remove_each (CHR ''u'' # w) s n = s"
proof (induction n arbitrary: s)
  case (Suc n)
  then show ?case by (cases s) (auto simp: starts_with_def)
qed simp

lemma show_uuid_chars: "c \<in> set (show_uuid u) \<Longrightarrow> c = CHR ''-'' \<or> (\<exists>k < 16. c = hex_digit k)"
  by (auto simp: show_uuid_def Let_def dest!: in_set_takeD in_set_dropD hex_digits_chars)

lemma hex_digits_not:
  assumes "c \<in> set (hex_digits w n)"
  shows "c \<noteq> CHR ''-'' \<and> c \<noteq> CHR ''+'' \<and> c \<noteq> CHR ''x'' \<and> c \<noteq> CHR ''X'' \<and> \<not> is_space c"
proof -
  from hex_digits_chars [OF assms] obtain k where "k < 16" "c = hex_digit k" by blast
  with hex_digit_value [of k] show ?thesis by simp
qed

lemma hex_digits_length [simp]: "length (hex_digits w n) = w"
  by (simp add: hex_digits_def)

lemma hex_digits_value:
  assumes "0 < w" and "n < 16 ^ w"
  shows "python_int 16 (hex_digits w n) = Some (int n)"
proof -
  have sp: "strip is_space (hex_digits w n) = hex_digits w n"
    by (rule strip_id) (use hex_digits_not in blast)
  obtain c cs where h: "hex_digits w n = c # cs" using assms(1) by (cases "hex_digits w n") (simp_all add: hex_digits_def)
  from hex_digits_not [of c w n] h have c: "c \<noteq> CHR ''-''" "c \<noteq> CHR ''+''" by simp_all
  have pre: "hex_prefix 16 (c # cs) = c # cs"
  proof (cases cs)
    case (Cons d ds)
    with hex_digits_not [of d w n] h have "d \<noteq> CHR ''x''" "d \<noteq> CHR ''X''" by simp_all
    with Cons show ?thesis by (simp add: hex_prefix_def starts_with_def)
  qed (simp add: hex_prefix_def starts_with_def)
  have "digits_value 16 False 0 (hex_digits w n)
      = Some (foldl (\<lambda>a d. a * 16 + d) 0 (map (\<lambda>i. n div 16 ^ i mod 16) (rev [0..<w])))"
  proof -
    let ?xs = "map (\<lambda>i. n div 16 ^ i mod 16) (rev [0..<w])"
    have eq: "hex_digits w n = map hex_digit ?xs" by (simp add: hex_digits_def)
    have "?xs \<noteq> [] \<or> False" "\<forall>x \<in> set ?xs. x < 16" using assms(1) by auto
    from digits_value_hex [OF this, of 0] show ?thesis unfolding eq .
  qed
  moreover have "foldl (\<lambda>a d. a * 16 + d) 0 (map (\<lambda>i. n div 16 ^ i mod 16) (rev [0..<w])) = n"
    using assms(2) unfolding horner by simp
  ultimately have "digits_value 16 False 0 (c # cs) = Some n" unfolding h by (simp only:)
  with sp c pre h show ?thesis by (simp add: python_int_def del: digits_value.simps)
qed

lemma uuid_groups: "length h = 32 \<Longrightarrow>
   take 8 h @ take 4 (drop 8 h) @ take 4 (drop 12 h) @ take 4 (drop 16 h) @ drop 20 h = h"
  using append_take_drop_id [of 8 h] append_take_drop_id [of 4 "drop 8 h"] append_take_drop_id [of 4 "drop 12 h"]
    append_take_drop_id [of 4 "drop 16 h"] by simp

lemma read_show_uuid:
  assumes "0 \<le> u" and "u < 2 ^ 128"
  shows "read_uuid (show_uuid u) = Some u"
proof -
  let ?h = "hex_digits 32 (nat u)"
  have nat: "nat u < 16 ^ 32" using assms by (simp add: nat_less_iff)
  have chars: "c \<noteq> CHR ''u'' \<and> c \<noteq> CHR ''{'' \<and> c \<noteq> CHR ''}''" if "c \<in> set (show_uuid u)" for c
  proof -
    from show_uuid_chars [OF that] consider "c = CHR ''-''" | k where "k < 16" "c = hex_digit k" by blast
    then show ?thesis by cases (use hex_digit_value in simp_all)
  qed
  have "CHR ''u'' \<notin> set (show_uuid u)" using chars by blast
  then have bare: "remove_each ''uuid:'' (remove_each ''urn:'' (show_uuid u) n) m = show_uuid u" for n m
    by (simp add: remove_each_id)
  have "strip (\<lambda>c. c = CHR ''{'' \<or> c = CHR ''}'') (show_uuid u) = show_uuid u"
    by (rule strip_id) (use chars in blast)
  moreover have "filter (\<lambda>c. c \<noteq> CHR ''-'') (show_uuid u) = ?h"
  proof -
    have no: "filter (\<lambda>c. c \<noteq> CHR ''-'') xs = xs" if "set xs \<subseteq> set ?h" for xs
      using that hex_digits_not [of _ 32 "nat u"] by (auto intro!: filter_True)
    have sub: "set (take a (drop b ?h)) \<subseteq> set ?h" "set (take a ?h) \<subseteq> set ?h" "set (drop b ?h) \<subseteq> set ?h" for a b
      by (auto dest: in_set_takeD in_set_dropD)
    show ?thesis unfolding show_uuid_def Let_def using no [OF sub(1)] no [OF sub(2)] no [OF sub(3)] uuid_groups [of ?h] by simp
  qed
  ultimately show ?thesis
    using hex_digits_value [OF _ nat] assms by (simp add: read_uuid_def Let_def bare)
qed

lemma show_nat_digits: "xs = show_nat n \<Longrightarrow> (\<forall>c \<in> set xs. \<exists>k < (10 :: nat). c = char_of (48 + k)) \<and> xs \<noteq> []"
proof (induction n arbitrary: xs rule: show_nat.induct)
  case (1 n)
  show ?case
  proof (cases "n < 10")
    case True
    with 1(2) show ?thesis by (auto simp: show_nat.simps [of n])
  next
    case False
    with 1(1) [OF False refl] 1(2) show ?thesis by (auto simp: show_nat.simps [of n] intro!: exI [of _ "n mod 10"])
  qed
qed

definition plain_digit :: "nat \<Rightarrow> bool" where
  "plain_digit k \<longleftrightarrow> digit_value 10 (char_of (48 + k)) = Some k \<and> char_of (48 + k) \<notin> set ''_-+'' \<and> \<not> is_space (char_of (48 + k))"

lemma digit_value_10: "k < 10 \<Longrightarrow> digit_value 10 (char_of (48 + k)) = Some k \<and> char_of (48 + k) \<noteq> CHR ''_''
    \<and> char_of (48 + k) \<noteq> CHR ''-'' \<and> char_of (48 + k) \<noteq> CHR ''+'' \<and> \<not> is_space (char_of (48 + k))" for k :: nat
proof -
  assume k: "k < 10"
  have "list_all plain_digit [0..<10]" by code_simp
  with k have "plain_digit k" by (simp only: list_all_iff set_upt) simp
  then show ?thesis by (simp add: plain_digit_def)
qed

lemma digits_value_append:
  "digits_value base after acc xs = Some v \<Longrightarrow> digit_value base c = Some d \<Longrightarrow> c \<noteq> CHR ''_'' \<Longrightarrow>
   digits_value base after acc (xs @ [c]) = Some (v * base + d)"
  by (induction xs arbitrary: after acc) (auto split: if_splits option.splits)

lemma digits_value_show_nat: "digits_value 10 False 0 (show_nat n) = Some n"
proof (induction n rule: show_nat.induct)
  case (1 n)
  show ?case
  proof (cases "n < 10")
    case True
    then show ?thesis using digit_value_10 [OF True] by (simp add: show_nat.simps [of n])
  next
    case False
    have "digits_value 10 False 0 (show_nat (n div 10) @ [char_of (48 + n mod 10)]) = Some (n div 10 * 10 + n mod 10)"
      by (rule digits_value_append [OF 1 [OF False]]) (use digit_value_10 [of "n mod 10"] in simp_all)
    with False show ?thesis by (simp add: show_nat.simps [of n])
  qed
qed

lemma read_show_int: "0 \<le> i \<Longrightarrow> python_int 10 (show_int i) = Some i"
proof -
  assume i: "0 \<le> i"
  let ?s = "show_nat (nat i)"
  note D = show_nat_digits [OF refl, of "nat i"]
  have plain: "c \<noteq> CHR ''-'' \<and> c \<noteq> CHR ''+'' \<and> \<not> is_space c" if "c \<in> set ?s" for c
  proof -
    from D that obtain k :: nat where "k < 10" "c = char_of (48 + k)" by blast
    with digit_value_10 [of k] show ?thesis by simp
  qed
  have "strip is_space ?s = ?s" by (rule strip_id) (use plain in blast)
  moreover obtain c cs where "?s = c # cs" using D by (cases ?s) auto
  ultimately show ?thesis
    using i plain [of c] digits_value_show_nat [of "nat i"] by (simp add: python_int_def show_int_def hex_prefix_def del: digits_value.simps)
qed

text \<open>The headers of a published row read back as the row's own fields.\<close>

lemma trace_headers_keys: "(k, v) \<in> set (trace_headers j) \<Longrightarrow> k = ''traceparent'' \<or> k = ''tracestate''"
  by (auto simp: trace_headers_def split: json.splits option.splits if_splits)

lemma dict_get_foldl_other:
  "\<forall>(k, v) \<in> set es. k \<noteq> name \<Longrightarrow> dict_get (foldl (\<lambda>d (k, v). dict_set k v d) d es) name = dict_get d name"
  by (induction es arbitrary: d) (auto simp: dict_get_set)

lemma envelope_header:
  assumes "name \<noteq> ''traceparent''" and "name \<noteq> ''tracestate''"
  shows "dict_get (br_headers (envelope text show prefix m)) name
    = map_of [(''event-id'', show (pm_event_id m)), (''event-type'', pm_event_type m), (''tenant-id'', show (pm_tenant m)),
         (''schema-version'', show_int (pm_schema m)), (''correlation-id'', pm_correlation m)] name"
proof -
  have "\<forall>(k, v) \<in> set (trace_headers (pm_payload m)). k \<noteq> name" using assms trace_headers_keys by fastforce
  from dict_get_foldl_other [OF this] show ?thesis by (simp only: envelope_def broker_event.select_convs)
qed

lemma show_uuid_not_blank: "\<not> blank (show_uuid u)"
proof -
  have "show_uuid u ! 8 = CHR ''-''" "8 < length (show_uuid u)" by (simp_all add: show_uuid_def Let_def nth_append)
  then have "CHR ''-'' \<in> set (show_uuid u)" by (metis nth_mem)
  moreover have "\<not> is_space CHR ''-''" by (simp add: is_space_def)
  ultimately show ?thesis by (auto simp: blank_def list_all_iff)
qed

lemma show_int_not_blank: "0 \<le> i \<Longrightarrow> \<not> blank (show_int i)"
proof -
  assume "0 \<le> i"
  from show_nat_digits [OF refl, of "nat i"] obtain c cs and k :: nat where "show_nat (nat i) = c # cs" "k < 10" "c = char_of (48 + k)"
    by (cases "show_nat (nat i)") auto
  with digit_value_10 [of k] \<open>0 \<le> i\<close> show ?thesis by (simp add: show_int_def blank_def)
qed

lemma required_header_Inr:
  "dict_get (br_headers d) name = Some v \<Longrightarrow> \<not> blank v \<Longrightarrow> required_header d name = Inr v"
  by (simp add: required_header_def)

definition common_of :: "outbox_message \<Rightarrow> common_event" where
  "common_of m = \<lparr>ce_id = pm_event_id m, ce_tenant = pm_tenant m, ce_occurred_at = pm_occurred_at m,
     ce_correlation = pm_correlation m, ce_causation = pm_causation m\<rparr>"

definition decoded_as :: "decoded_event \<Rightarrow> outbox_message \<Rightarrow> bool" where
  "decoded_as e m \<longleftrightarrow> de_id e = pm_event_id m \<and> de_tenant e = pm_tenant m \<and> de_schema e = pm_schema m \<and> de_correlation e = pm_correlation m"

lemma find_unique_row:
  "distinct (map f rows) \<Longrightarrow> r \<in> set rows \<Longrightarrow> List.find (\<lambda>x. f x = f r) rows = Some r"
  by (induction rows) (auto simp: image_iff)

lemma accepted_row:
  fixes b :: "'h event_bus"
  assumes ids: "0 \<le> pm_event_id m" "pm_event_id m < 2 ^ 128" "0 \<le> pm_tenant m" "pm_tenant m < 2 ^ 128"
    and fields: "1 \<le> pm_schema m" "\<not> blank (pm_event_type m)" "\<not> blank (pm_correlation m)"
    and row: "r \<in> set rows" "ob_message r = m" "distinct (map (\<lambda>r. pm_event_id (ob_message r)) rows)"
    and json: "Option.bind (scan (dump (pm_payload m))) strict_json = Some (pm_payload m)" "pm_payload m = JObj es" "json_finite (JObj es)"
    and models: "common (pm_payload m) = Inr (common_of m)" "parse c (dump (pm_payload m)) = Inr e" "decoded_as e m"
    and registered: "dict_get (eb_types b) (pm_event_type m) = Some c" "ec_schema c = pm_schema m"
  shows "open_envelope scan common parse b prefix rows (envelope dump show_uuid prefix m) = Inr (pm_event_type m, e)"
proof -
  let ?d = "envelope dump show_uuid prefix m"
  have h: "required_header ?d ''event-type'' = Inr (pm_event_type m)" "required_header ?d ''tenant-id'' = Inr (show_uuid (pm_tenant m))"
    "required_header ?d ''event-id'' = Inr (show_uuid (pm_event_id m))" "required_header ?d ''schema-version'' = Inr (show_int (pm_schema m))"
    "required_header ?d ''correlation-id'' = Inr (pm_correlation m)"
    using fields show_uuid_not_blank show_int_not_blank [of "pm_schema m"]
    by (auto intro!: required_header_Inr simp: envelope_header)
  have n: "of_option x (read_uuid (show_uuid (pm_tenant m))) = Inr (pm_tenant m)"
    "of_option x (read_uuid (show_uuid (pm_event_id m))) = Inr (pm_event_id m)"
    "of_option x (python_int 10 (show_int (pm_schema m))) = Inr (pm_schema m)" for x
    using ids fields(1) by (simp_all add: of_option_def read_show_uuid read_show_int)
  have p: "strict_event_payload scan (br_payload ?d) = Inr (pm_payload m)"
    using json by (simp add: strict_event_payload_def envelope_def)
  have v: "verify_source rows (pm_event_type m) (pm_schema m) (common_of m) (pm_payload m) = Inr ()"
    using find_unique_row [OF row(3,1)] row(2) by (simp add: verify_source_def common_of_def raise_if_def)
  have s: "br_subject ?d = prefix @ ''.tenant.'' @ show_uuid (pm_tenant m) @ ''.'' @ pm_event_type m" "br_payload ?d = dump (pm_payload m)"
    by (simp_all add: envelope_def)
  have dec: "decode parse b (pm_event_type m) (dump (pm_payload m)) (Some (pm_schema m)) = Inr e"
    using registered models(2) by (simp add: decode_def)
  have e: "\<not> (de_id e \<noteq> pm_event_id m \<or> de_tenant e \<noteq> pm_tenant m \<or> de_schema e \<noteq> pm_schema m \<or> de_correlation e \<noteq> pm_correlation m)"
    using models(3) by (simp add: decoded_as_def)
  have c: "ce_id (common_of m) = pm_event_id m" "ce_tenant (common_of m) = pm_tenant m" "ce_correlation (common_of m) = pm_correlation m"
    by (simp_all add: common_of_def)
  have "open_envelope_raw scan common parse b prefix rows ?d = Inr (pm_event_type m, e)"
    unfolding open_envelope_raw_def h bind_res_simps n s p [unfolded s] models(1) c v dec using e fields(1) by (simp add: raise_if_def)
  then show ?thesis by (simp add: open_envelope_def)
qed


section \<open>A sample delivery\<close>

definition sample_outbox :: outbox_message where
  "sample_outbox = \<lparr>pm_tenant = 7, pm_event_type = ''m.counted'', pm_schema = 1, pm_correlation = ''c'',
     pm_payload = JObj [(''n'', JInt 5)], pm_causation = None, pm_event_id = 9, pm_occurred_at = 100\<rparr>"

definition sample_row :: outbox_row where
  "sample_row = \<lparr>ob_message = sample_outbox, ob_published = Some 120, ob_attempts = 1, ob_error = None\<rparr>"

definition sample_scan :: "string \<Rightarrow> raw_json option" where
  "sample_scan s = (if s = dump_json (JObj [(''n'', JInt 5)]) then Some (RObj [(''n'', RInt 5)]) else None)"

definition sample_event :: decoded_event where
  "sample_event = \<lparr>de_id = 9, de_tenant = 7, de_schema = 1, de_correlation = ''c''\<rparr>"

definition sample_bus :: "int event_bus" where
  "sample_bus = \<lparr>eb_handlers = [(counted_class, [(''s'', \<lparr>eh_owner = ''s'', eh_subscriber = ''s'', eh_handler = 5, eh_generation = None,
       eh_permission = Some ''m.run''\<rparr>)])], eb_types = [(''m.counted'', counted_class)], eb_durable = []\<rparr>"

definition sample_delivery_port :: "(int, int) delivery_port" where
  "sample_delivery_port = \<lparr>dv_scan = sample_scan, dv_common = (\<lambda>_. Inr (common_of sample_outbox)), dv_parse = (\<lambda>_ _. Inr sample_event),
     dv_run = (\<lambda>k e d. Inr (d + k)),
     dv_workload = \<lparr>wp_id = Some 1, wp_reference = Some ''r'', wp_credential = Some (Inr (replicate 40 CHR ''k'')),
       wp_verify = Some (\<lambda>_ _ _ _. Inr 1000000000), wp_operation = (\<lambda>_. Inr ()), wp_bind = (\<lambda>_ _ _ _. Inr True)\<rparr>,
     dv_authorize = (\<lambda>_. Inr ()), dv_prefix = ''businessos.events'', dv_installation = 1, dv_worker = 2, dv_now = 100, dv_gate = None,
     dv_outcomes = (\<lambda>_. COMMITTED), dv_synchronized = COMMITTED\<rparr>"

definition sample_worker :: "(int, int) worker_state" where
  "sample_worker = \<lparr>wt_worker = \<lparr>wk_quarantined = False, wk_stopping = False, wk_subscribed = True, wk_closing = False\<rparr>,
     wt_bus = sample_bus, wt_obligations = [], wt_durable = no_deliveries 0\<rparr>"

definition sample_envelope :: broker_event where
  "sample_envelope = envelope dump_json show_uuid ''businessos.events'' sample_outbox"

lemma sample_opened:
  "open_envelope sample_scan (\<lambda>_. Inr (common_of sample_outbox)) (\<lambda>_ _. Inr sample_event) sample_bus p [sample_row]
     (envelope dump_json show_uuid p sample_outbox) = Inr (''m.counted'', sample_event)"
proof -
  have b: "\<not> blank (pm_event_type sample_outbox)" "\<not> blank (pm_correlation sample_outbox)"
    "Option.bind (sample_scan (dump_json (pm_payload sample_outbox))) strict_json = Some (pm_payload sample_outbox)"
    "json_finite (JObj [(''n'', JInt 5)])" by code_simp+
  have "open_envelope sample_scan (\<lambda>_. Inr (common_of sample_outbox)) (\<lambda>_ _. Inr sample_event) sample_bus p [sample_row]
     (envelope dump_json show_uuid p sample_outbox) = Inr (pm_event_type sample_outbox, sample_event)"
    by (rule accepted_row [where r = sample_row and c = counted_class and es = "[(''n'', JInt 5)]"])
      (use b in \<open>simp_all add: sample_outbox_def sample_row_def sample_event_def decoded_as_def sample_bus_def counted_class_def\<close>)
  then show ?thesis by (simp add: sample_outbox_def)
qed

lemma sample_verified: "verify_workload (dv_workload sample_delivery_port) purpose = Inr 1000000000"
  by (simp add: verify_workload_def sample_delivery_port_def)
lemma sample_bound: "bind_durable_subscribers sample_bus [\<lparr>sd_event_type = ''m.counted'', sd_subscriber = ''s'', sd_owner = ''s''\<rparr>] =
   Inr (sample_bus\<lparr>eb_durable := [(''m.counted'', [(''s'', ''s'')])]\<rparr>)"
  by (simp add: bind_durable_subscribers_def bind_one_code sample_bus_def counted_class_def inner_def)
lemma sample_synchronized: "synchronize (dv_workload sample_delivery_port) COMMITTED sample_bus [] = (sample_bus\<lparr>eb_durable := [(''m.counted'', [(''s'', ''s'')])]\<rparr>, [\<lparr>sd_event_type = ''m.counted'', sd_subscriber = ''s'', sd_owner = ''s''\<rparr>], Inr ())"
proof -
  have "subscriber_declarations sample_bus = [\<lparr>sd_event_type = ''m.counted'', sd_subscriber = ''s'', sd_owner = ''s''\<rparr>]"
    by (simp add: subscriber_declarations_def sample_bus_def counted_class_def)
  moreover have "wp_operation (dv_workload sample_delivery_port) purpose = Inr ()" for purpose by (simp add: sample_delivery_port_def)
  ultimately show ?thesis using sample_bound
    by (simp add: synchronize_def sample_verified record_obligation_def order_by_def)
qed

lemma sample_admitted: "delivery_subscribers None (sample_bus\<lparr>eb_durable := [(''m.counted'', [(''s'', ''s'')])]\<rparr>) counted_class =
   Inr [\<lparr>eh_owner = ''s'', eh_subscriber = ''s'', eh_handler = 5, eh_generation = None, eh_permission = Some ''m.run''\<rparr>]"
  by (simp add: delivery_subscribers_def subscribers_def Let_def sample_bus_def inner_def sorted_set_def generation_active_def counted_class_def)
lemma delivery_tenant: "\<exists>c. tenant (delivery_context i w d ten cor) = Some c \<and> tenant_id c = ten"
  by (simp add: delivery_context_def Let_def tenant_context_of_def)

lemma sample_subscribers:
  "(case run_subscribers sample_delivery_port 1000000000 sample_envelope ''m.counted'' sample_event sample_worker of
      (s, Inl e) \<Rightarrow> False
    | (s, Inr n) \<Rightarrow> du_data (wt_durable s) = 5 \<and> du_receipts (wt_durable s) = [(7, ''s'', 9)])"
proof -
  have ten: "\<exists>ten. tenant (delivery_context i w sample_envelope 7 cor) = Some ten \<and> tenant_id ten = 7" for i w cor
    using delivery_tenant by blast
  have s: "wt_bus sample_worker = sample_bus" "wt_obligations sample_worker = []" "wt_durable sample_worker = no_deliveries 0"
    "de_tenant sample_event = 7" "de_id sample_event = 9" by (simp_all add: sample_worker_def sample_event_def)
  have p: "dv_synchronized sample_delivery_port = COMMITTED" "dv_gate sample_delivery_port = None"
    "dv_run sample_delivery_port = (\<lambda>k e d. Inr (d + k))" "dv_outcomes sample_delivery_port = (\<lambda>_. COMMITTED)"
    "dv_authorize sample_delivery_port = (\<lambda>_. Inr ())" "dv_now sample_delivery_port = 100"
    "wp_verify (dv_workload sample_delivery_port) = Some (\<lambda>_ _ _ _. Inr 1000000000)"
    "wp_bind (dv_workload sample_delivery_port) = (\<lambda>_ _ _ _. Inr True)" by (simp_all add: sample_delivery_port_def)
  have t: "dict_get (eb_types sample_bus) ''m.counted'' = Some counted_class" by (simp add: sample_bus_def)
  obtain c where c: "tenant (delivery_context (dv_installation sample_delivery_port) (dv_worker sample_delivery_port) sample_envelope 7
      (de_correlation sample_event)) = Some c" "tenant_id c = 7" using ten by blast
  show ?thesis
    by (simp add: run_subscribers_def s p t c sample_synchronized Let_def consume_def admit_delivery_def sample_admitted
        admit_subscriber_def worker_admission_def max_admitted_microseconds_def consume_one_def no_deliveries_def claim_def bind_res_simps
        split: prod.splits)
qed

lemma sample_deliver:
  "(case deliver sample_delivery_port [sample_row] sample_envelope sample_worker of
      (s, a) \<Rightarrow> a = Acknowledged \<and> du_data (wt_durable s) = 5 \<and> du_receipts (wt_durable s) = [(7, ''s'', 9)])"
proof -
  have env: "open_envelope (dv_scan sample_delivery_port) (dv_common sample_delivery_port) (dv_parse sample_delivery_port)
      (wt_bus sample_worker) (dv_prefix sample_delivery_port) [sample_row] sample_envelope = Inr (''m.counted'', sample_event)"
    using sample_opened [of "''businessos.events''"] by (simp add: sample_delivery_port_def sample_worker_def sample_envelope_def)
  have "\<not> wk_quarantined (wt_worker sample_worker)" by (simp add: sample_worker_def)
  with env sample_verified sample_subscribers show ?thesis
    by (auto simp: deliver_def consume_delivery_def split: prod.splits sum.splits)
qed



end
