(* ===== verification/Identity_Store.thy ===== *)
theory Identity_Store
  imports Membership Tenancy Json
begin

text \<open>
  The identity foundation (\<open>foundations/identity\<close>): its tables, the commands and queries of \<open>module.py\<close> and the
  integrity rules its migrations put on the tables. The tables' triggers make every membership, device and
  authentication session refer to a principal of its own tenant. Commands read two clocks: the handler's
  \<open>datetime.now(UTC)\<close> and, for column defaults, the database's start of the transaction.
\<close>

section \<open>Authentication strength\<close>

datatype authentication_strength = UNSPECIFIED | PASSWORD | OIDC | MFA | PHISHING_RESISTANT | BREAK_GLASS

fun strength_text :: "authentication_strength \<Rightarrow> string" where
  "strength_text UNSPECIFIED = ''unspecified''"
| "strength_text PASSWORD = ''password''"
| "strength_text OIDC = ''oidc''"
| "strength_text MFA = ''mfa''"
| "strength_text PHISHING_RESISTANT = ''phishing_resistant''"
| "strength_text BREAK_GLASS = ''break_glass''"

definition strength_of :: "string \<Rightarrow> authentication_strength option" where
  "strength_of s = List.find (\<lambda>a. strength_text a = s) [UNSPECIFIED, PASSWORD, OIDC, MFA, PHISHING_RESISTANT, BREAK_GLASS]"

lemma strength_of_text [simp]: "strength_of (strength_text a) = Some a"
  by (cases a) (simp_all add: strength_of_def)

section \<open>Tables\<close>

record identity_user =
  us_id :: uuid
  us_tenant :: uuid
  us_email :: string
  us_name :: string
  us_active :: bool
  us_break_glass :: bool
  us_secret :: "string option"

record external_identity =
  xi_tenant :: uuid
  xi_user :: uuid
  xi_issuer :: string
  xi_subject :: string

record identity_membership = membership +
  mb_scopes :: "(string, string) dict list"
  mb_granted_by :: uuid

record service_account =
  sa_id :: uuid
  sa_tenant :: uuid
  sa_name :: string
  sa_secret :: string
  sa_active :: bool

record device =
  dc_id :: uuid
  dc_tenant :: uuid
  dc_principal :: uuid
  dc_type :: string
  dc_name :: string
  dc_kind :: string
  dc_secret :: string
  dc_active :: bool

record authentication_session =
  as_id :: uuid
  as_tenant :: uuid
  as_principal :: uuid
  as_type :: string
  as_strength :: string
  as_started :: instant
  as_expires :: instant
  as_revoked :: "instant option"

record oidc_provider =
  op_id :: uuid
  op_tenant :: uuid
  op_issuer :: string
  op_audience :: string
  op_jwks :: string
  op_algorithms :: "string list"
  op_active :: bool

record mfa_policy =
  mp_tenant :: uuid
  mp_minimum :: string
  mp_methods :: "string list"
  mp_configuration :: "(string \<times> json) list"

record identity_store =
  id_users :: "identity_user list"
  id_external :: "external_identity list"
  id_memberships :: "identity_membership list"
  id_accounts :: "service_account list"
  id_devices :: "device list"
  id_sessions :: "authentication_session list"
  id_providers :: "oidc_provider list"
  id_policies :: "mfa_policy list"

text \<open>The SQL function \<open>principal_exists\<close>; with \<open>require_active\<close> it is also what the handlers select.\<close>

definition principal_exists :: "identity_store \<Rightarrow> uuid \<Rightarrow> string \<Rightarrow> uuid \<Rightarrow> bool \<Rightarrow> bool" where
  "principal_exists st ten kind i require_active =
     (if kind = ''user'' then list_ex (\<lambda>u. us_tenant u = ten \<and> us_id u = i \<and> (\<not> require_active \<or> us_active u)) (id_users st)
      else if kind = ''service_account''
      then list_ex (\<lambda>a. sa_tenant a = ten \<and> sa_id a = i \<and> (\<not> require_active \<or> sa_active a)) (id_accounts st)
      else if kind = ''device'' then list_ex (\<lambda>d. dc_tenant d = ten \<and> dc_id d = i \<and> (\<not> require_active \<or> dc_active d)) (id_devices st)
      else False)"

definition no_principal :: exn where
  "no_principal = ForeignError ''ForeignKeyViolation''"

section \<open>Commands\<close>

text \<open>\<open>_require_tenant\<close> of the identity module.\<close>

definition identity_tenant :: "request_context \<Rightarrow> uuid \<Rightarrow> exn + tenant_context" where
  "identity_tenant req expected =
     (case tenant req of
        None \<Rightarrow> Inl (BusinessOSError ''unauthenticated'' ''Authentication required'' 401)
      | Some ten \<Rightarrow>
          if tenant_id ten \<noteq> expected then Inl (BusinessOSError ''forbidden'' ''Tenant scope mismatch'' 403) else Inr ten)"

datatype identity_event =
    MembershipGranted uuid uuid string
  | MembershipRevoked uuid string
  | AuthenticationSessionStarted uuid uuid string
  | AuthenticationSessionRevoked uuid

text \<open>\<open>_create_user\<close>; \<open>str.casefold\<close> is \<open>lower\<close> on the characters of the model.\<close>

definition create_user ::
  "request_context \<Rightarrow> uuid \<Rightarrow> uuid \<Rightarrow> string \<Rightarrow> string \<Rightarrow> bool \<Rightarrow> string option \<Rightarrow> identity_store \<Rightarrow> exn + identity_store" where
  "create_user req target i email name break_glass secret st =
     bind_res (identity_tenant req target) (\<lambda>ten.
     bind_res (raise_if (break_glass \<and> (secret = None \<or> secret = Some ''''))
       (BusinessOSError ''invalid_break_glass'' ''Break-glass identity requires a secret reference'' 422)) (\<lambda>_.
     bind_res (insert_row (\<lambda>a b. us_id a = us_id b \<or> (us_tenant a = us_tenant b \<and> us_email a = us_email b)) (\<lambda>_. True)
        \<lparr>us_id = i, us_tenant = tenant_id ten, us_email = lower email, us_name = name, us_active = True,
         us_break_glass = break_glass, us_secret = secret\<rparr> (id_users st)) (\<lambda>rows.
       Inr (st\<lparr>id_users := rows\<rparr>))))"

definition map_external :: "request_context \<Rightarrow> uuid \<Rightarrow> uuid \<Rightarrow> string \<Rightarrow> string \<Rightarrow> identity_store \<Rightarrow> exn + identity_store" where
  "map_external req target user issuer subject st =
     bind_res (identity_tenant req target) (\<lambda>ten.
     (case select_first (\<lambda>u. us_tenant u = tenant_id ten \<and> us_id u = user) (id_users st) of
        None \<Rightarrow> Inl (BusinessOSError ''not_found'' ''User not found'' 404)
      | Some u \<Rightarrow>
          bind_res (raise_if (us_break_glass u)
            (BusinessOSError ''invalid_break_glass'' ''Break-glass identities cannot use federation'' 422)) (\<lambda>_.
          bind_res (insert_row
              (\<lambda>a b. xi_tenant a = xi_tenant b \<and> xi_issuer a = xi_issuer b \<and> xi_subject a = xi_subject b) (\<lambda>_. True)
              \<lparr>xi_tenant = tenant_id ten, xi_user = user, xi_issuer = issuer, xi_subject = subject\<rparr> (id_external st)) (\<lambda>rows.
            Inr (st\<lparr>id_external := rows\<rparr>)))))"

text \<open>
  \<open>_grant_membership\<close>: an insert that updates the row of the same principal when there is one, keeping its
  identifier; the trigger and the check of the table run on the row.
\<close>

definition same_principal :: "'a membership_scheme \<Rightarrow> 'a membership_scheme \<Rightarrow> bool" where
  "same_principal a b \<longleftrightarrow> mb_tenant a = mb_tenant b \<and> mb_type a = mb_type b \<and> mb_principal a = mb_principal b"

definition period_ok :: "instant option \<Rightarrow> instant option \<Rightarrow> bool" where
  "period_ok a b \<longleftrightarrow> (case (a, b) of (Some x, Some y) \<Rightarrow> x < y | _ \<Rightarrow> True)"

definition put_membership :: "identity_membership \<Rightarrow> identity_store \<Rightarrow> exn + identity_store \<times> uuid" where
  "put_membership new st =
     (if \<not> period_ok (mb_from new) (mb_until new) then Inl (ForeignError ''CheckViolation'')
      else (case List.find (same_principal new) (id_memberships st) of
          Some old \<Rightarrow>
            Inr (st\<lparr>id_memberships := map (\<lambda>m. if same_principal new m then new\<lparr>mb_id := mb_id m\<rparr> else m) (id_memberships st)\<rparr>, mb_id old)
        | None \<Rightarrow>
            if list_ex (\<lambda>m. mb_id m = mb_id new) (id_memberships st) then Inl (ForeignError ''UniqueViolation'')
            else Inr (st\<lparr>id_memberships := id_memberships st @ [new]\<rparr>, mb_id new)))"

definition grant_membership ::
  "request_context \<Rightarrow> uuid \<Rightarrow> uuid \<Rightarrow> uuid \<Rightarrow> string \<Rightarrow> moment option \<Rightarrow> moment option \<Rightarrow> (string, string) dict list \<Rightarrow>
   identity_store \<Rightarrow> exn + identity_store \<times> identity_event" where
  "grant_membership req target i who kind valid_from valid_until scopes st =
     bind_res (identity_tenant req target) (\<lambda>ten.
     bind_res (validate_effective_period (map_option Timed valid_from) (map_option Timed valid_until)) (\<lambda>_.
     bind_res (raise_if (\<not> principal_exists st (tenant_id ten) kind who True)
       (BusinessOSError ''not_found'' ''Active principal not found'' 404)) (\<lambda>_.
     bind_res (put_membership \<lparr>mb_id = i, mb_tenant = tenant_id ten, mb_principal = who, mb_type = kind, mb_status = ACTIVE_MEMBER,
         mb_from = map_option moment.at valid_from, mb_until = map_option moment.at valid_until,
         mb_scopes = scopes, mb_granted_by = principal_id ten\<rparr> st) (\<lambda>(st', j).
       Inr (st', MembershipGranted j who kind)))))"

definition revoke_membership ::
  "request_context \<Rightarrow> uuid \<Rightarrow> uuid \<Rightarrow> string \<Rightarrow> identity_store \<Rightarrow> exn + identity_store \<times> identity_event" where
  "revoke_membership req target who kind st =
     bind_res (identity_tenant req target) (\<lambda>ten.
       let hit = (\<lambda>m. mb_tenant m = tenant_id ten \<and> mb_principal m = who \<and> mb_type m = kind) in
       if \<not> list_ex hit (id_memberships st) then Inl (BusinessOSError ''not_found'' ''Membership not found'' 404)
       else Inr (st\<lparr>id_memberships := map (\<lambda>m. if hit m then m\<lparr>mb_status := REVOKED\<rparr> else m) (id_memberships st)\<rparr>,
                 MembershipRevoked who kind))"

definition register_service_account :: "request_context \<Rightarrow> uuid \<Rightarrow> uuid \<Rightarrow> string \<Rightarrow> string \<Rightarrow> identity_store \<Rightarrow> exn + identity_store" where
  "register_service_account req target i name secret st =
     bind_res (identity_tenant req target) (\<lambda>ten.
     bind_res (insert_row (\<lambda>a b. sa_id a = sa_id b \<or> (sa_tenant a = sa_tenant b \<and> sa_name a = sa_name b)) (\<lambda>_. True)
        \<lparr>sa_id = i, sa_tenant = tenant_id ten, sa_name = name, sa_secret = secret, sa_active = True\<rparr> (id_accounts st)) (\<lambda>rows.
       Inr (st\<lparr>id_accounts := rows\<rparr>)))"

text \<open>\<open>_device\<close>: its type is a user or a service account, and the trigger of the table asks for an active one again.\<close>

definition register_device ::
  "request_context \<Rightarrow> uuid \<Rightarrow> uuid \<Rightarrow> uuid \<Rightarrow> string \<Rightarrow> string \<Rightarrow> string \<Rightarrow> string \<Rightarrow> identity_store \<Rightarrow> exn + identity_store" where
  "register_device req target i who kind name device_type secret st =
     bind_res (identity_tenant req target) (\<lambda>ten.
     bind_res (raise_if (kind \<noteq> ''user'' \<and> kind \<noteq> ''service_account'') (ForeignError ''KeyError'')) (\<lambda>_.
     bind_res (raise_if (\<not> principal_exists st (tenant_id ten) kind who True)
       (BusinessOSError ''not_found'' ''Active device principal not found'' 404)) (\<lambda>_.
     bind_res (insert_row (\<lambda>a b. dc_id a = dc_id b \<or> (dc_tenant a = dc_tenant b \<and> dc_name a = dc_name b)) (\<lambda>_. True)
        \<lparr>dc_id = i, dc_tenant = tenant_id ten, dc_principal = who, dc_type = kind, dc_name = name, dc_kind = device_type,
         dc_secret = secret, dc_active = True\<rparr> (id_devices st)) (\<lambda>rows.
       Inr (st\<lparr>id_devices := rows\<rparr>)))))"

definition configure_provider ::
  "request_context \<Rightarrow> uuid \<Rightarrow> uuid \<Rightarrow> string \<Rightarrow> string \<Rightarrow> string \<Rightarrow> string list \<Rightarrow> bool \<Rightarrow> identity_store \<Rightarrow> exn + identity_store" where
  "configure_provider req i target issuer audience jwks algorithms active st =
     bind_res (identity_tenant req target) (\<lambda>ten.
       let same = (\<lambda>p. op_tenant p = tenant_id ten \<and> op_issuer p = issuer \<and> op_audience p = audience) in
       Inr (st\<lparr>id_providers :=
         (if list_ex same (id_providers st)
          then map (\<lambda>p. if same p then p\<lparr>op_jwks := jwks, op_algorithms := algorithms, op_active := active\<rparr> else p) (id_providers st)
          else id_providers st @ [\<lparr>op_id = i, op_tenant = tenant_id ten, op_issuer = issuer, op_audience = audience, op_jwks = jwks,
             op_algorithms = algorithms, op_active = active\<rparr>])\<rparr>))"

definition set_mfa_policy ::
  "request_context \<Rightarrow> uuid \<Rightarrow> authentication_strength \<Rightarrow> string list \<Rightarrow> (string \<times> json) list \<Rightarrow> identity_store \<Rightarrow> exn + identity_store" where
  "set_mfa_policy req target minimum methods configuration st =
     bind_res (identity_tenant req target) (\<lambda>ten.
       let new = \<lparr>mp_tenant = tenant_id ten, mp_minimum = strength_text minimum, mp_methods = methods, mp_configuration = configuration\<rparr> in
       Inr (st\<lparr>id_policies :=
         (if list_ex (\<lambda>p. mp_tenant p = tenant_id ten) (id_policies st)
          then map (\<lambda>p. if mp_tenant p = tenant_id ten then new else p) (id_policies st)
          else id_policies st @ [new])\<rparr>))"

definition read_membership :: "request_context \<Rightarrow> uuid \<Rightarrow> uuid \<Rightarrow> string \<Rightarrow> identity_store \<Rightarrow> exn + identity_membership" where
  "read_membership req ten who kind st =
     bind_res (identity_tenant req ten) (\<lambda>_.
       case select_first (\<lambda>m. mb_tenant m = ten \<and> mb_principal m = who \<and> mb_type m = kind) (id_memberships st) of
         None \<Rightarrow> Inl (BusinessOSError ''not_found'' ''Membership not found'' 404)
       | Some m \<Rightarrow> Inr m)"

section \<open>Authentication sessions\<close>

definition sole :: "'a list \<Rightarrow> 'a option" where
  "sole xs = (case xs of [x] \<Rightarrow> Some x | _ \<Rightarrow> None)"

lemma sole_Some [simp]: "sole xs = Some x \<longleftrightarrow> xs = [x]"
  by (auto simp: sole_def split: list.splits)

text \<open>\<open>_start_session\<close>; \<open>now\<close> is the handler's clock and \<open>started\<close> the database's.\<close>

definition start_session ::
  "int \<Rightarrow> instant \<Rightarrow> instant \<Rightarrow> request_context \<Rightarrow> uuid \<Rightarrow> uuid \<Rightarrow> moment \<Rightarrow> identity_store \<Rightarrow> exn + identity_store \<times> identity_event" where
  "start_session lifetime now started req target i expires st =
     bind_res (identity_tenant req target) (\<lambda>ten.
     bind_res (raise_if (\<not> zoned expires \<or> moment.at expires \<le> now \<or> moment.at expires > now + lifetime
         \<or> (case credential_expires_at ten of None \<Rightarrow> False | Some c \<Rightarrow> moment.at expires > c))
       (BusinessOSError ''invalid_session_expiry'' ''Session expiry exceeds the permitted credential or session lifetime'' 422)) (\<lambda>_.
     (case sole (filter (\<lambda>m. mb_tenant m = tenant_id ten \<and> mb_principal m = principal_id ten
              \<and> membership_effective (membership.truncate m) now) (id_memberships st)) of
        Some m \<Rightarrow>
          bind_res (raise_if (\<not> principal_exists st (tenant_id ten) (mb_type m) (principal_id ten) True)
            (BusinessOSError ''invalid_principal'' ''Active principal is required'' 403)) (\<lambda>_.
          bind_res (insert_row (\<lambda>a b. as_id a = as_id b) (\<lambda>_. True)
            \<lparr>as_id = i, as_tenant = tenant_id ten, as_principal = principal_id ten, as_type = mb_type m,
             as_strength = authentication_strength ten, as_started = started, as_expires = moment.at expires, as_revoked = None\<rparr>
            (id_sessions st)) (\<lambda>rows.
            Inr (st\<lparr>id_sessions := rows\<rparr>, AuthenticationSessionStarted i (principal_id ten) (mb_type m))))
      | None \<Rightarrow> Inl (BusinessOSError ''invalid_membership'' ''Active tenant membership is required'' 403))))"

definition session_not_found :: exn where
  "session_not_found = BusinessOSError ''not_found'' ''Authentication session not found'' 404"

definition revoke_session :: "instant \<Rightarrow> request_context \<Rightarrow> uuid \<Rightarrow> uuid \<Rightarrow> identity_store \<Rightarrow> exn + identity_store \<times> identity_event" where
  "revoke_session now req target i st =
     bind_res (identity_tenant req target) (\<lambda>ten.
       let hit = (\<lambda>s. as_tenant s = tenant_id ten \<and> as_id s = i) in
       if \<not> list_ex hit (id_sessions st) then Inl session_not_found
       else Inr (st\<lparr>id_sessions := map (\<lambda>s. if hit s then s\<lparr>as_revoked := Some now\<rparr> else s) (id_sessions st)\<rparr>,
                 AuthenticationSessionRevoked i))"

definition get_session :: "request_context \<Rightarrow> uuid \<Rightarrow> uuid \<Rightarrow> identity_store \<Rightarrow> exn + authentication_session" where
  "get_session req ten i st =
     bind_res (identity_tenant req ten) (\<lambda>_.
       case select_first (\<lambda>s. as_tenant s = ten \<and> as_id s = i) (id_sessions st) of
         None \<Rightarrow> Inl session_not_found
       | Some s \<Rightarrow> Inr s)"

definition session_active :: "authentication_session \<Rightarrow> instant \<Rightarrow> bool" where
  "session_active s t \<longleftrightarrow> as_revoked s = None \<and> as_started s \<le> t \<and> t < as_expires s"

text \<open>\<open>_validate_session\<close>: the validity of the session and the two ends of the membership are read at three instants.\<close>

definition validate_session ::
  "instant \<Rightarrow> instant \<Rightarrow> instant \<Rightarrow> request_context \<Rightarrow> uuid \<Rightarrow> uuid \<Rightarrow> identity_store \<Rightarrow> exn + authentication_session" where
  "validate_session t t_from t_until req ten i st =
     (let invalid = BusinessOSError ''invalid_session'' ''Authentication session is not active'' 401 in
      bind_res (get_session req ten i st) (\<lambda>s.
      bind_res (raise_if (\<not> session_active s t) invalid) (\<lambda>_.
      bind_res (raise_if (\<not> list_ex (\<lambda>m. mb_tenant m = as_tenant s \<and> mb_principal m = as_principal s \<and> mb_type m = as_type s
           \<and> mb_status m = ACTIVE_MEMBER \<and> (case mb_from m of None \<Rightarrow> True | Some a \<Rightarrow> a \<le> t_from)
           \<and> (case mb_until m of None \<Rightarrow> True | Some b \<Rightarrow> b > t_until)) (id_memberships st)) invalid) (\<lambda>_.
      bind_res (raise_if (\<not> principal_exists st (as_tenant s) (as_type s) (as_principal s) True) invalid) (\<lambda>_.
        Inr s)))))"

section \<open>Integrity of the tables\<close>

definition users_ok :: "identity_store \<Rightarrow> bool" where
  "users_ok st \<longleftrightarrow>
     sorted_wrt (\<lambda>a b. us_id a \<noteq> us_id b \<and> \<not> (us_tenant a = us_tenant b \<and> us_email a = us_email b)) (id_users st)
     \<and> (\<forall>u \<in> set (id_users st). us_break_glass u \<longrightarrow> us_secret u \<noteq> None \<and> us_secret u \<noteq> Some '''')"

definition external_ok :: "identity_store \<Rightarrow> bool" where
  "external_ok st \<longleftrightarrow>
     sorted_wrt (\<lambda>a b. \<not> (xi_tenant a = xi_tenant b \<and> xi_issuer a = xi_issuer b \<and> xi_subject a = xi_subject b)) (id_external st)
     \<and> (\<forall>x \<in> set (id_external st). \<exists>u \<in> set (id_users st). us_tenant u = xi_tenant x \<and> us_id u = xi_user x \<and> \<not> us_break_glass u)"

definition memberships_ok :: "identity_store \<Rightarrow> bool" where
  "memberships_ok st \<longleftrightarrow>
     sorted_wrt (\<lambda>a b. \<not> same_principal a b) (id_memberships st)
     \<and> (\<forall>m \<in> set (id_memberships st). principal_exists st (mb_tenant m) (mb_type m) (mb_principal m) False \<and> period_ok (mb_from m) (mb_until m))"

definition devices_ok :: "identity_store \<Rightarrow> bool" where
  "devices_ok st \<longleftrightarrow> (\<forall>d \<in> set (id_devices st). principal_exists st (dc_tenant d) (dc_type d) (dc_principal d) False
     \<and> (dc_type d = ''user'' \<or> dc_type d = ''service_account''))"

definition sessions_ok :: "identity_store \<Rightarrow> bool" where
  "sessions_ok st \<longleftrightarrow> (\<forall>s \<in> set (id_sessions st). principal_exists st (as_tenant s) (as_type s) (as_principal s) False)"

definition federation_ok :: "identity_store \<Rightarrow> bool" where
  "federation_ok st \<longleftrightarrow>
     sorted_wrt (\<lambda>a b. \<not> (op_tenant a = op_tenant b \<and> op_issuer a = op_issuer b \<and> op_audience a = op_audience b)) (id_providers st)
     \<and> sorted_wrt (\<lambda>a b. mp_tenant a \<noteq> mp_tenant b) (id_policies st)
     \<and> (\<forall>p \<in> set (id_policies st). strength_of (mp_minimum p) \<noteq> None)"

named_theorems identity_parts

lemmas [identity_parts] = users_ok_def external_ok_def memberships_ok_def devices_ok_def sessions_ok_def federation_ok_def

definition identity_ok :: "identity_store \<Rightarrow> bool" where
  "identity_ok st \<longleftrightarrow> users_ok st \<and> external_ok st \<and> memberships_ok st \<and> devices_ok st \<and> sessions_ok st \<and> federation_ok st"

text \<open>No command removes a principal, so what a row refers to stays.\<close>

definition principals_kept :: "identity_store \<Rightarrow> identity_store \<Rightarrow> bool" where
  "principals_kept st st' \<longleftrightarrow>
     set (id_users st) \<subseteq> set (id_users st') \<and> set (id_accounts st) \<subseteq> set (id_accounts st') \<and> set (id_devices st) \<subseteq> set (id_devices st')"

lemma principal_exists_kept:
  "principals_kept st st' \<Longrightarrow> principal_exists st ten kind i a \<Longrightarrow> principal_exists st' ten kind i a"
  by (fastforce simp: principals_kept_def principal_exists_def list_ex_iff split: if_splits)

lemma principal_exists_relax: "principal_exists st ten kind i True \<Longrightarrow> principal_exists st ten kind i False"
  by (auto simp: principal_exists_def list_ex_iff split: if_splits)

lemma sorted_wrt_map_keep:
  "sorted_wrt P xs \<Longrightarrow> (\<And>a b. P a b \<Longrightarrow> P (f a) (f b)) \<Longrightarrow> sorted_wrt P (map f xs)"
  by (simp add: sorted_wrt_map) (metis (mono_tags, lifting) sorted_wrt_mono_rel)

lemma identity_tenant_Inr:
  "identity_tenant req target = Inr ten \<longleftrightarrow> tenant req = Some ten \<and> tenant_id ten = target"
  by (auto simp: identity_tenant_def split: option.splits)

lemma create_user_ok:
  assumes "create_user req target i email name bg secret st = Inr st'" and ok: "identity_ok st"
  shows "identity_ok st'"
proof -
  from assms(1) obtain u where st': "st' = st\<lparr>id_users := id_users st @ [u]\<rparr>"
    and u: "us_break_glass u \<longrightarrow> us_secret u \<noteq> None \<and> us_secret u \<noteq> Some ''''"
    and fresh: "\<forall>x \<in> set (id_users st). us_id x \<noteq> us_id u \<and> \<not> (us_tenant x = us_tenant u \<and> us_email x = us_email u)"
    by (fastforce simp: create_user_def bind_res_Inr)
  have kept: "principals_kept st st'" by (auto simp: principals_kept_def st')
  have "users_ok st'" using ok u fresh by (auto simp: identity_ok_def users_ok_def st' sorted_wrt_append)
  moreover have "external_ok st'" using ok by (auto simp: identity_ok_def external_ok_def st')
  moreover have "memberships_ok st'" "devices_ok st'" "sessions_ok st'"
    using ok principal_exists_kept [OF kept] by (simp_all add: identity_ok_def memberships_ok_def devices_ok_def sessions_ok_def) (simp_all add: st')
  moreover have "federation_ok st'" using ok by (simp add: identity_ok_def federation_ok_def st')
  ultimately show ?thesis by (simp add: identity_ok_def)
qed

lemma map_external_ok:
  assumes "map_external req target user issuer subject st = Inr st'" and ok: "identity_ok st"
  shows "identity_ok st'"
proof -
  from assms(1) obtain ten :: tenant_context and u where s: "select_first (\<lambda>u. us_tenant u = tenant_id ten \<and> us_id u = user) (id_users st) = Some u"
    and bg: "\<not> us_break_glass u"
    and fresh': "\<forall>y \<in> set (id_external st). \<not> (tenant_id ten = xi_tenant y \<and> issuer = xi_issuer y \<and> subject = xi_subject y)"
    and st'': "st' = st\<lparr>id_external := id_external st @ [\<lparr>xi_tenant = tenant_id ten, xi_user = user, xi_issuer = issuer, xi_subject = subject\<rparr>]\<rparr>"
    by (auto simp: map_external_def bind_res_Inr split: option.splits)
  define x where "x = \<lparr>xi_tenant = tenant_id ten, xi_user = user, xi_issuer = issuer, xi_subject = subject\<rparr>"
  have st': "st' = st\<lparr>id_external := id_external st @ [x]\<rparr>" using st'' by (simp add: x_def)
  have u: "u \<in> set (id_users st)" "us_tenant u = xi_tenant x" "us_id u = xi_user x" "\<not> us_break_glass u"
    using select_first_Some [OF s] bg by (simp_all add: x_def)
  have fresh: "\<forall>y \<in> set (id_external st). \<not> (xi_tenant y = xi_tenant x \<and> xi_issuer y = xi_issuer x \<and> xi_subject y = xi_subject x)"
    using fresh' by (auto simp: x_def)
  have kept: "principals_kept st st'" by (auto simp: principals_kept_def st')
  have "external_ok st'" using ok u fresh by (auto simp: identity_ok_def external_ok_def st' sorted_wrt_append)
  moreover have "memberships_ok st'" "devices_ok st'" "sessions_ok st'"
    using ok principal_exists_kept [OF kept] by (simp_all add: identity_ok_def memberships_ok_def devices_ok_def sessions_ok_def) (simp_all add: st')
  moreover have "users_ok st'" "federation_ok st'" using ok by (simp_all add: identity_ok_def users_ok_def federation_ok_def st')
  ultimately show ?thesis by (simp add: identity_ok_def)
qed

text \<open>A change that keeps the principals keeps everything that is not among the rows it writes.\<close>

lemma identity_okI:
  assumes ok: "identity_ok st" and kept: "principals_kept st st'"
    and same: "id_users st' = id_users st" "id_external st' = id_external st"
    and m: "id_memberships st' = id_memberships st \<or> memberships_ok st'"
    and d: "id_devices st' = id_devices st \<or> devices_ok st'"
    and s: "id_sessions st' = id_sessions st \<or> sessions_ok st'"
    and f: "id_providers st' = id_providers st \<and> id_policies st' = id_policies st \<or> federation_ok st'"
  shows "identity_ok st'"
proof -
  note ex = principal_exists_kept [OF kept]
  have "memberships_ok st'" using m ok ex by (auto simp: identity_ok_def memberships_ok_def)
  moreover have "devices_ok st'" using d ok ex by (auto simp: identity_ok_def devices_ok_def)
  moreover have "sessions_ok st'" using s ok ex by (auto simp: identity_ok_def sessions_ok_def)
  moreover have "users_ok st'" "external_ok st'" using ok same by (simp_all add: identity_ok_def users_ok_def external_ok_def)
  moreover have "federation_ok st'" using f ok by (auto simp: identity_ok_def federation_ok_def)
  ultimately show ?thesis by (simp add: identity_ok_def)
qed

lemma period_ok_valid:
  "validate_effective_period (map_option Timed a) (map_option Timed b) = Inr () \<Longrightarrow>
   period_ok (map_option moment.at a) (map_option moment.at b)"
  by (auto simp: validate_effective_period_def period_ok_def raise_if_def all_option_def split: option.splits if_splits)

lemma same_principal_sym: "same_principal a b \<Longrightarrow> same_principal b a"
  by (simp add: same_principal_def)

lemma put_membership_ok:
  assumes g: "put_membership new st = Inr (st', j)" and ok: "identity_ok st"
    and ex: "principal_exists st (mb_tenant new) (mb_type new) (mb_principal new) True"
  shows "identity_ok st'"
proof -
  let ?set = "\<lambda>m. if same_principal new m then new\<lparr>mb_id := mb_id m\<rparr> else m"
  have old: "sorted_wrt (\<lambda>a b. \<not> same_principal a b) (id_memberships st)"
    "\<forall>m \<in> set (id_memberships st). principal_exists st (mb_tenant m) (mb_type m) (mb_principal m) False \<and> period_ok (mb_from m) (mb_until m)"
    using ok by (simp_all add: identity_ok_def memberships_ok_def)
  from g have period: "period_ok (mb_from new) (mb_until new)" by (simp add: put_membership_def split: if_splits)
  from g consider (update) "st' = st\<lparr>id_memberships := map ?set (id_memberships st)\<rparr>"
    | (insert) "List.find (same_principal new) (id_memberships st) = None" "st' = st\<lparr>id_memberships := id_memberships st @ [new]\<rparr>"
    by (auto simp: put_membership_def split: if_splits option.splits)
  then show ?thesis
  proof cases
    case update
    have kept: "principals_kept st st'" by (simp add: principals_kept_def update)
    have "sorted_wrt (\<lambda>a b. \<not> same_principal a b) (map ?set (id_memberships st))"
      using old(1) by (rule sorted_wrt_map_keep) (auto simp: same_principal_def split: if_splits)
    moreover have "principal_exists st' (mb_tenant m) (mb_type m) (mb_principal m) False \<and> period_ok (mb_from m) (mb_until m)"
      if "m \<in> set (map ?set (id_memberships st))" for m
      using that old(2) principal_exists_kept [OF kept] principal_exists_relax [OF ex] period by (auto split: if_splits)
    ultimately have "memberships_ok st'" by (simp add: memberships_ok_def update)
    with update show ?thesis by (intro identity_okI [OF ok kept]) auto
  next
    case insert
    have kept: "principals_kept st st'" by (simp add: principals_kept_def insert)
    have "sorted_wrt (\<lambda>a b. \<not> same_principal a b) (id_memberships st @ [new])"
      using old(1) insert(1) same_principal_sym by (auto simp: sorted_wrt_append find_None_iff)
    moreover have "principal_exists st' (mb_tenant m) (mb_type m) (mb_principal m) False \<and> period_ok (mb_from m) (mb_until m)"
      if "m \<in> set (id_memberships st @ [new])" for m
      using that old(2) principal_exists_kept [OF kept] principal_exists_relax [OF ex] period by auto
    ultimately have "memberships_ok st'" by (simp add: memberships_ok_def insert(2))
    with insert(2) show ?thesis by (intro identity_okI [OF ok kept]) auto
  qed
qed

lemma grant_membership_ok:
  assumes "grant_membership req target i who kind a b scopes st = Inr (st', e)" and "identity_ok st"
  shows "identity_ok st'"
  using assms(1) by (auto simp: grant_membership_def bind_res_Inr intro: put_membership_ok [OF _ assms(2)])

lemma revoke_membership_ok:
  assumes r: "revoke_membership req target who kind st = Inr (st', e)" and ok: "identity_ok st"
  shows "identity_ok st'"
proof -
  define hit :: "identity_membership \<Rightarrow> bool" where "hit m \<longleftrightarrow> mb_tenant m = target \<and> mb_principal m = who \<and> mb_type m = kind" for m
  have st': "st' = st\<lparr>id_memberships := map (\<lambda>m. if hit m then m\<lparr>mb_status := REVOKED\<rparr> else m) (id_memberships st)\<rparr>"
    using r by (auto simp: revoke_membership_def bind_res_Inr Let_def identity_tenant_Inr hit_def split: if_splits)
  have kept: "principals_kept st st'" by (simp add: principals_kept_def st')
  have "sorted_wrt (\<lambda>a b. \<not> same_principal a b) (map (\<lambda>m. if hit m then m\<lparr>mb_status := REVOKED\<rparr> else m) (id_memberships st))"
    by (rule sorted_wrt_map_keep [where P = "\<lambda>a b. \<not> same_principal a b"])
      (use ok in \<open>auto simp: identity_ok_def memberships_ok_def same_principal_def\<close>)
  then have "memberships_ok st'"
    using ok principal_exists_kept [OF kept] by (auto simp: identity_ok_def memberships_ok_def st')
  then show ?thesis by (intro identity_okI [OF ok kept]) (simp_all add: st')
qed

lemma register_service_account_ok:
  assumes "register_service_account req target i name secret st = Inr st'" and ok: "identity_ok st"
  shows "identity_ok st'"
proof -
  from assms(1) obtain a where st': "st' = st\<lparr>id_accounts := id_accounts st @ [a]\<rparr>"
    by (auto simp: register_service_account_def bind_res_Inr)
  then have "principals_kept st st'" by (auto simp: principals_kept_def)
  then show ?thesis by (rule identity_okI [OF ok]) (simp_all add: st')
qed

lemma register_device_ok:
  assumes "register_device req target i who kind name k secret st = Inr st'" and ok: "identity_ok st"
  shows "identity_ok st'"
proof -
  from assms(1) obtain d where st': "st' = st\<lparr>id_devices := id_devices st @ [d]\<rparr>"
    and d: "dc_type d = ''user'' \<or> dc_type d = ''service_account''" "principal_exists st (dc_tenant d) (dc_type d) (dc_principal d) True"
    by (fastforce simp: register_device_def bind_res_Inr)
  have kept: "principals_kept st st'" by (auto simp: principals_kept_def st')
  have "devices_ok st'"
    using ok d principal_exists_kept [OF kept] principal_exists_relax by (auto simp: identity_ok_def devices_ok_def st')
  then show ?thesis by (intro identity_okI [OF ok kept]) (simp_all add: st')
qed

lemma configure_provider_ok:
  assumes "configure_provider req i target issuer audience jwks algs active st = Inr st'" and ok: "identity_ok st"
  shows "identity_ok st'"
proof -
  let ?clash = "\<lambda>a b. \<not> (op_tenant a = op_tenant b \<and> op_issuer a = op_issuer b \<and> op_audience a = op_audience b)"
  define same where "same p \<longleftrightarrow> op_tenant p = target \<and> op_issuer p = issuer \<and> op_audience p = audience" for p :: oidc_provider
  have st': "st' = st\<lparr>id_providers := (if list_ex same (id_providers st)
      then map (\<lambda>p. if same p then p\<lparr>op_jwks := jwks, op_algorithms := algs, op_active := active\<rparr> else p) (id_providers st)
      else id_providers st @ [\<lparr>op_id = i, op_tenant = target, op_issuer = issuer, op_audience = audience, op_jwks = jwks,
             op_algorithms = algs, op_active = active\<rparr>])\<rparr>"
    using assms(1) by (auto simp: configure_provider_def bind_res_Inr Let_def identity_tenant_Inr same_def [abs_def])
  have old: "sorted_wrt ?clash (id_providers st)" using ok by (simp add: identity_ok_def federation_ok_def)
  have "sorted_wrt ?clash (map (\<lambda>p. if same p then p\<lparr>op_jwks := jwks, op_algorithms := algs, op_active := active\<rparr> else p) (id_providers st))"
    using old by (rule sorted_wrt_map_keep) auto
  moreover have "\<not> list_ex same (id_providers st) \<Longrightarrow> sorted_wrt ?clash (id_providers st @ [\<lparr>op_id = i, op_tenant = target, op_issuer = issuer,
      op_audience = audience, op_jwks = jwks, op_algorithms = algs, op_active = active\<rparr>])"
    using old by (auto simp: sorted_wrt_append list_ex_iff same_def)
  ultimately have "federation_ok st'" using ok by (simp add: identity_ok_def federation_ok_def st')
  moreover have "principals_kept st st'" by (simp add: principals_kept_def st')
  ultimately show ?thesis by (intro identity_okI [OF ok]) (simp_all add: st')
qed

lemma set_mfa_policy_ok:
  assumes "set_mfa_policy req target minimum methods conf st = Inr st'" and ok: "identity_ok st"
  shows "identity_ok st'"
proof -
  let ?new = "\<lparr>mp_tenant = target, mp_minimum = strength_text minimum, mp_methods = methods, mp_configuration = conf\<rparr>"
  have st': "st' = st\<lparr>id_policies := (if list_ex (\<lambda>p. mp_tenant p = target) (id_policies st)
      then map (\<lambda>p. if mp_tenant p = target then ?new else p) (id_policies st) else id_policies st @ [?new])\<rparr>"
    using assms(1) by (auto simp: set_mfa_policy_def bind_res_Inr Let_def identity_tenant_Inr)
  have old: "sorted_wrt (\<lambda>a b. mp_tenant a \<noteq> mp_tenant b) (id_policies st)" "\<forall>p \<in> set (id_policies st). strength_of (mp_minimum p) \<noteq> None"
    using ok by (simp_all add: identity_ok_def federation_ok_def)
  have "sorted_wrt (\<lambda>a b. mp_tenant a \<noteq> mp_tenant b) (map (\<lambda>p. if mp_tenant p = target then ?new else p) (id_policies st))"
    using old(1) by (rule sorted_wrt_map_keep) auto
  moreover have "\<not> list_ex (\<lambda>p. mp_tenant p = target) (id_policies st) \<Longrightarrow>
      sorted_wrt (\<lambda>a b. mp_tenant a \<noteq> mp_tenant b) (id_policies st @ [?new])"
    using old(1) by (auto simp: sorted_wrt_append list_ex_iff)
  ultimately have "sorted_wrt (\<lambda>a b. mp_tenant a \<noteq> mp_tenant b) (id_policies st')" by (simp add: st')
  moreover have "\<forall>p \<in> set (id_policies st'). strength_of (mp_minimum p) \<noteq> None" using old(2) by (auto simp: st' split: if_splits)
  ultimately have "federation_ok st'" using ok by (simp add: identity_ok_def federation_ok_def st')
  moreover have "principals_kept st st'" by (simp add: principals_kept_def st')
  ultimately show ?thesis by (intro identity_okI [OF ok]) (simp_all add: st')
qed

lemma start_session_Inr:
  assumes "start_session lifetime now started req target i expires st = Inr (st', e)"
  obtains s ten where "st' = st\<lparr>id_sessions := id_sessions st @ [s]\<rparr>" "tenant req = Some ten" "as_tenant s = tenant_id ten"
    "as_principal s = principal_id ten" "as_revoked s = None" "now < as_expires s" "as_expires s \<le> now + lifetime"
    "\<forall>c. credential_expires_at ten = Some c \<longrightarrow> as_expires s \<le> c"
    "principal_exists st (as_tenant s) (as_type s) (as_principal s) True"
    "\<exists>m \<in> set (id_memberships st). mb_tenant m = as_tenant s \<and> mb_principal m = as_principal s \<and> mb_type m = as_type s
       \<and> membership_effective (membership.truncate m) now"
proof -
  obtain ten :: tenant_context where t: "identity_tenant req target = Inr ten"
    using assms by (cases "identity_tenant req target") (simp_all add: start_session_def bind_res_simps)
  let ?rows = "filter (\<lambda>m. mb_tenant m = tenant_id ten \<and> mb_principal m = principal_id ten
    \<and> membership_effective (membership.truncate m) now) (id_memberships st)"
  note a = assms [unfolded start_session_def t bind_res_simps bind_res_Inr raise_if_Inr]
  then have ex: "zoned expires" "now < moment.at expires" "moment.at expires \<le> now + lifetime"
      "\<forall>c. credential_expires_at ten = Some c \<longrightarrow> moment.at expires \<le> c" by (auto split: option.split_asm)
  from a obtain m where s: "sole ?rows = Some m" by (cases "sole ?rows") auto
  then have m: "?rows = [m]" by simp
  from a s have p: "principal_exists st (tenant_id ten) (mb_type m) (principal_id ten) True"
    and st': "st' = st\<lparr>id_sessions := id_sessions st @ [\<lparr>as_id = i, as_tenant = tenant_id ten, as_principal = principal_id ten, as_type = mb_type m,
             as_strength = authentication_strength ten, as_started = started, as_expires = moment.at expires, as_revoked = None\<rparr>]\<rparr>"
    by (auto simp: bind_res_Inr simp del: sole_Some)
  from arg_cong [OF m, of set] have "m \<in> set (id_memberships st)" "mb_tenant m = tenant_id ten" "mb_principal m = principal_id ten"
    "membership_effective (membership.truncate m) now" by auto
  with that [OF st'] t ex p show ?thesis by (auto simp: identity_tenant_Inr)
qed

lemma start_session_ok:
  assumes "start_session lifetime now started req target i expires st = Inr (st', e)" and ok: "identity_ok st"
  shows "identity_ok st'"
proof -
  obtain s where st': "st' = st\<lparr>id_sessions := id_sessions st @ [s]\<rparr>" and p: "principal_exists st (as_tenant s) (as_type s) (as_principal s) True"
    using assms(1) by (rule start_session_Inr) blast
  have kept: "principals_kept st st'" by (simp add: principals_kept_def st')
  have "sessions_ok st'"
    using ok principal_exists_kept [OF kept] principal_exists_relax [OF p] by (auto simp: identity_ok_def sessions_ok_def st')
  then show ?thesis by (intro identity_okI [OF ok kept]) (simp_all add: st')
qed

lemma revoke_session_ok:
  assumes "revoke_session now req target i st = Inr (st', e)" and ok: "identity_ok st"
  shows "identity_ok st'"
proof -
  from assms(1) obtain hit where st': "st' = st\<lparr>id_sessions := map (\<lambda>s. if hit s then s\<lparr>as_revoked := Some now\<rparr> else s) (id_sessions st)\<rparr>"
    by (auto simp: revoke_session_def bind_res_Inr Let_def split: if_splits)
  have kept: "principals_kept st st'" by (simp add: principals_kept_def st')
  have "sessions_ok st'" using ok principal_exists_kept [OF kept] by (auto simp: identity_ok_def sessions_ok_def st')
  then show ?thesis by (intro identity_okI [OF ok kept]) (simp_all add: st')
qed

section \<open>Histories\<close>

inductive identity_step :: "int \<Rightarrow> identity_store \<Rightarrow> identity_store \<Rightarrow> bool" for lifetime where
  "create_user req target i email name bg secret st = Inr st' \<Longrightarrow> identity_step lifetime st st'"
| "map_external req target user issuer subject st = Inr st' \<Longrightarrow> identity_step lifetime st st'"
| "grant_membership req target i who kind a b scopes st = Inr (st', e) \<Longrightarrow> identity_step lifetime st st'"
| "revoke_membership req target who kind st = Inr (st', e) \<Longrightarrow> identity_step lifetime st st'"
| "register_service_account req target i name ref st = Inr st' \<Longrightarrow> identity_step lifetime st st'"
| "register_device req target i who kind name k ref st = Inr st' \<Longrightarrow> identity_step lifetime st st'"
| "configure_provider req i target issuer audience jwks algs active st = Inr st' \<Longrightarrow> identity_step lifetime st st'"
| "set_mfa_policy req target minimum methods conf st = Inr st' \<Longrightarrow> identity_step lifetime st st'"
| "start_session lifetime now started req target i expires st = Inr (st', e) \<Longrightarrow> identity_step lifetime st st'"
| "revoke_session now req target i st = Inr (st', e) \<Longrightarrow> identity_step lifetime st st'"

definition no_identities :: identity_store where
  "no_identities = \<lparr>id_users = [], id_external = [], id_memberships = [], id_accounts = [], id_devices = [], id_sessions = [],
     id_providers = [], id_policies = []\<rparr>"

definition reachable_identities :: "int \<Rightarrow> identity_store \<Rightarrow> bool" where
  "reachable_identities lifetime st \<longleftrightarrow> (identity_step lifetime)\<^sup>*\<^sup>* no_identities st"

lemma identity_step_ok: "identity_step lifetime st st' \<Longrightarrow> identity_ok st \<Longrightarrow> identity_ok st'"
  by (induction rule: identity_step.induct)
    (blast intro: create_user_ok map_external_ok grant_membership_ok revoke_membership_ok register_service_account_ok
      register_device_ok configure_provider_ok set_mfa_policy_ok start_session_ok revoke_session_ok)+

lemma no_identities_ok: "identity_ok no_identities"
  by (simp add: no_identities_def identity_ok_def identity_parts)

lemma reachable_identities_ok: "reachable_identities lifetime st \<Longrightarrow> identity_ok st"
  unfolding reachable_identities_def by (induction rule: rtranclp_induct) (simp_all add: no_identities_ok identity_step_ok)

lemma sorted_wrt_unique:
  "sorted_wrt (\<lambda>a b. \<not> C a b) xs \<Longrightarrow> (\<And>a b. C a b \<Longrightarrow> C b a) \<Longrightarrow> x \<in> set xs \<Longrightarrow> y \<in> set xs \<Longrightarrow> C x y \<Longrightarrow> y = x"
  by (induction xs) auto

text \<open>
  C30: After any history of identity commands, with any session lifetime, in any order and by any tenants: every
  membership, device and authentication session is of an existing principal of its own tenant, a principal has
  one membership, whose period is not empty, an external identity belongs to one user of its tenant who is not
  a break-glass user, break-glass users have a secret reference, and the minimum strength of every policy is
  one the code knows.
\<close>

theorem identity_store_is_sound:
  assumes "reachable_identities lifetime st"
  shows "(\<forall>m \<in> set (id_memberships st). principal_exists st (mb_tenant m) (mb_type m) (mb_principal m) False
        \<and> (\<forall>a b. mb_from m = Some a \<and> mb_until m = Some b \<longrightarrow> a < b)
        \<and> (\<forall>m' \<in> set (id_memberships st). same_principal m m' \<longrightarrow> m' = m))
    \<and> (\<forall>d \<in> set (id_devices st). principal_exists st (dc_tenant d) (dc_type d) (dc_principal d) False)
    \<and> (\<forall>s \<in> set (id_sessions st). principal_exists st (as_tenant s) (as_type s) (as_principal s) False)
    \<and> (\<forall>x \<in> set (id_external st). (\<exists>u \<in> set (id_users st). us_tenant u = xi_tenant x \<and> us_id u = xi_user x \<and> \<not> us_break_glass u)
        \<and> (\<forall>x' \<in> set (id_external st). xi_tenant x' = xi_tenant x \<and> xi_issuer x' = xi_issuer x \<and> xi_subject x' = xi_subject x \<longrightarrow> x' = x))
    \<and> (\<forall>u \<in> set (id_users st). us_break_glass u \<longrightarrow> us_secret u \<noteq> None \<and> us_secret u \<noteq> Some '''')
    \<and> (\<forall>p \<in> set (id_policies st). strength_of (mp_minimum p) \<noteq> None)"
proof -
  have ok: "identity_ok st" by (rule reachable_identities_ok [OF assms])
  have one: "m' = m" if "m \<in> set (id_memberships st)" "m' \<in> set (id_memberships st)" "same_principal m m'" for m m'
    by (rule sorted_wrt_unique [where C = same_principal and xs = "id_memberships st"])
      (use ok that same_principal_sym in \<open>auto simp: identity_ok_def memberships_ok_def\<close>)
  have sole: "x' = x" if "x \<in> set (id_external st)" "x' \<in> set (id_external st)"
    "xi_tenant x' = xi_tenant x \<and> xi_issuer x' = xi_issuer x \<and> xi_subject x' = xi_subject x" for x x'
    by (rule sorted_wrt_unique [where xs = "id_external st" and
          C = "\<lambda>a b. xi_tenant a = xi_tenant b \<and> xi_issuer a = xi_issuer b \<and> xi_subject a = xi_subject b"])
      (use ok that in \<open>auto simp: identity_ok_def external_ok_def\<close>)
  have period: "a < b" if "m \<in> set (id_memberships st)" "mb_from m = Some a" "mb_until m = Some b" for m a b
    using ok that by (force simp: identity_ok_def memberships_ok_def period_ok_def)
  have rows: "\<And>m. m \<in> set (id_memberships st) \<Longrightarrow> principal_exists st (mb_tenant m) (mb_type m) (mb_principal m) False"
    "\<And>d. d \<in> set (id_devices st) \<Longrightarrow> principal_exists st (dc_tenant d) (dc_type d) (dc_principal d) False"
    "\<And>s. s \<in> set (id_sessions st) \<Longrightarrow> principal_exists st (as_tenant s) (as_type s) (as_principal s) False"
    "\<And>x. x \<in> set (id_external st) \<Longrightarrow> \<exists>u \<in> set (id_users st). us_tenant u = xi_tenant x \<and> us_id u = xi_user x \<and> \<not> us_break_glass u"
    "\<And>u. u \<in> set (id_users st) \<Longrightarrow> us_break_glass u \<Longrightarrow> us_secret u \<noteq> None"
    "\<And>u. u \<in> set (id_users st) \<Longrightarrow> us_break_glass u \<Longrightarrow> us_secret u \<noteq> Some ''''"
    "\<And>p. p \<in> set (id_policies st) \<Longrightarrow> strength_of (mp_minimum p) \<noteq> None"
    using ok by (simp_all add: identity_ok_def identity_parts)
  show ?thesis by (intro conjI ballI allI impI; (elim conjE)?; (rule one sole rows period; (intro conjI)?; assumption))
qed

text \<open>What a validated session proves.\<close>

lemma validate_session_Inr:
  "validate_session t t1 t2 req ten i st = Inr s \<Longrightarrow>
   s \<in> set (id_sessions st) \<and> as_id s = i \<and> as_tenant s = ten \<and> as_revoked s = None \<and> as_started s \<le> t \<and> t < as_expires s
   \<and> principal_exists st ten (as_type s) (as_principal s) True
   \<and> (\<exists>m \<in> set (id_memberships st). mb_tenant m = ten \<and> mb_principal m = as_principal s \<and> mb_type m = as_type s \<and> mb_status m = ACTIVE_MEMBER)"
  by (fastforce simp: validate_session_def get_session_def bind_res_Inr Let_def session_active_def list_ex_iff
      split: option.split_asm dest!: select_first_Some)

section \<open>A sample history\<close>

definition identity_request :: request_context where
  "identity_request = \<lparr>correlation_id = ''c'', trace_id = '''', tenant = Some (tenant_context_of 1 7 5)\<rparr>"

definition sample_identities :: "exn + identity_store" where
  "sample_identities =
     bind_res (create_user identity_request 7 5 ''Ada@x.org'' ''Ada'' False None no_identities) (\<lambda>a.
     bind_res (map_external identity_request 7 5 ''https://idp'' ''ada'' a) (\<lambda>b.
     bind_res (grant_membership identity_request 7 50 5 ''user'' (Some (Moment True 10)) (Some (Moment True 900)) [] b) (\<lambda>(c, _).
     bind_res (register_device identity_request 7 60 5 ''user'' ''scanner'' ''d'' ''ref'' c) (\<lambda>d.
     bind_res (set_mfa_policy identity_request 7 MFA [''otp''] [] d) (\<lambda>f.
     bind_res (start_session 1000 20 20 identity_request 7 70 (Moment True 500) f) (\<lambda>(g, _). Inr g))))))"

lemma sample_identities_run:
  "\<exists>st. sample_identities = Inr st \<and> reachable_identities 1000 st \<and> length (id_memberships st) = 1 \<and> length (id_sessions st) = 1
     \<and> length (id_external st) = 1 \<and> length (id_devices st) = 1"
proof -
  have shape: "case sample_identities of Inl e \<Rightarrow> False | Inr st \<Rightarrow> length (id_memberships st) = 1 \<and> length (id_sessions st) = 1
     \<and> length (id_external st) = 1 \<and> length (id_devices st) = 1" by code_simp
  from returned_cases [OF shape] obtain g where g: "sample_identities = Inr g" and counts: "length (id_memberships g) = 1"
    "length (id_sessions g) = 1" "length (id_external g) = 1" "length (id_devices g) = 1" by blast
  then obtain a b c d f :: identity_store and e e' where runs: "create_user identity_request 7 5 ''Ada@x.org'' ''Ada'' False None no_identities = Inr a"
    "map_external identity_request 7 5 ''https://idp'' ''ada'' a = Inr b"
    "grant_membership identity_request 7 50 5 ''user'' (Some (Moment True 10)) (Some (Moment True 900)) [] b = Inr (c, e)"
    "register_device identity_request 7 60 5 ''user'' ''scanner'' ''d'' ''ref'' c = Inr d"
    "set_mfa_policy identity_request 7 MFA [''otp''] [] d = Inr f"
    "start_session 1000 20 20 identity_request 7 70 (Moment True 500) f = Inr (g, e')"
    unfolding sample_identities_def by (auto simp: bind_res_Inr)
  have "(identity_step 1000)\<^sup>*\<^sup>* no_identities g"
    using r_into_rtranclp [where r = "identity_step 1000", OF identity_step.intros(1) [OF runs(1)]]
      identity_step.intros(2) [OF runs(2)] identity_step.intros(3) [OF runs(3)] identity_step.intros(6) [OF runs(4)]
      identity_step.intros(8) [OF runs(5)] identity_step.intros(9) [OF runs(6)]
    by (meson rtranclp.rtrancl_into_rtrancl)
  with g counts show ?thesis by (intro exI [of _ g]) (simp add: reachable_identities_def)
qed

theorem identity_store_is_sound_witness:
  "\<exists>st. sample_identities = Inr st \<and> length (id_memberships st) = 1
     \<and> (\<forall>m \<in> set (id_memberships st). principal_exists st (mb_tenant m) (mb_type m) (mb_principal m) False)"
proof -
  obtain st where "sample_identities = Inr st" "reachable_identities 1000 st" "length (id_memberships st) = 1" using sample_identities_run by blast
  with conjunct1 [OF identity_store_is_sound [of 1000 st]] show ?thesis by (intro exI [of _ st]) simp
qed

end
