(* ===== verification/Oidc.thy ===== *)
theory Oidc
  imports Identity_Store
begin

text \<open>
  The OIDC trust boundary of the identity foundation (\<open>oidc.py\<close>, \<open>principal_binding.py\<close>): a bearer token becomes
  a request context only through an active provider of the tenant it names, a verified signature, an external
  identity of an active user with an effective membership, and the tenant's MFA policy. Decoding and verifying
  tokens is PyJWT's: \<open>oi_hint\<close> is the payload without verification and \<open>oi_verify\<close> the verified claims. Row
  level security shows a transaction the rows of its own tenant.
\<close>

section \<open>Claims, providers, principals\<close>

record oidc_claims =
  cl_issuer :: string
  cl_subject :: string
  cl_tenant :: uuid
  cl_expires :: int
  cl_acr :: "string option"
  cl_methods :: "string list"
  cl_nonce :: "string option"

record oidc_configuration =
  oc_issuer :: string
  oc_audience :: string
  oc_jwks :: string
  oc_algorithms :: "string list"

record provider_hint =
  ph_issuer :: string
  ph_audiences :: "string list"
  ph_tenant :: uuid

record oidc_port =
  oi_hint :: "string \<Rightarrow> provider_hint option"
  oi_verify :: "oidc_configuration \<Rightarrow> string \<Rightarrow> oidc_claims option"

record principal_identity =
  pi_tenant :: uuid
  pi_principal :: uuid
  pi_type :: string
  pi_strength :: string
  pi_scopes :: "(string, string) dict list"

type_synonym principal_binding = "request_context \<times> principal_identity"

definition bind_authenticated_principal ::
  "request_context \<Rightarrow> principal_identity \<Rightarrow> principal_binding option \<Rightarrow> principal_binding option \<times> (exn + unit)" where
  "bind_authenticated_principal req p current =
     (if (case tenant req of None \<Rightarrow> True | Some ten \<Rightarrow> tenant_id ten \<noteq> pi_tenant p \<or> principal_id ten \<noteq> pi_principal p)
         \<or> pi_type p \<notin> {''user'', ''service_account'', ''device''}
      then (current, Inl (BusinessOSError ''unauthenticated'' ''Trusted principal mismatch'' 401))
      else (Some (req, p), Inr ()))"

definition current_authenticated_principal :: "principal_binding option \<Rightarrow> exn + principal_binding" where
  "current_authenticated_principal current =
     (case current of
        None \<Rightarrow> Inl (BusinessOSError ''unauthenticated'' ''Trusted principal required'' 401)
      | Some b \<Rightarrow> Inr b)"

definition invalid_token :: exn where
  "invalid_token = BusinessOSError ''invalid_token'' ''Authentication credential is not valid'' 401"

section \<open>Providers\<close>

definition approved_algorithms :: "string list" where
  "approved_algorithms = [''RS256'', ''RS384'', ''RS512'', ''ES256'', ''ES384'', ''ES512'', ''EdDSA'']"

text \<open>\<open>OIDCConfiguration.__post_init__\<close>.\<close>

definition make_configuration :: "string \<Rightarrow> string \<Rightarrow> string \<Rightarrow> string list \<Rightarrow> exn + oidc_configuration" where
  "make_configuration issuer audience jwks algorithms =
     (if \<not> starts_with ''https://'' issuer \<or> \<not> starts_with ''https://'' jwks
      then Inl (ValueError ''OIDC issuer and JWKS URI must use HTTPS'')
      else if algorithms = [] \<or> \<not> set algorithms \<subseteq> set approved_algorithms
      then Inl (ValueError ''OIDC algorithms must use an approved asymmetric allowlist'')
      else Inr \<lparr>oc_issuer = issuer, oc_audience = audience, oc_jwks = jwks, oc_algorithms = algorithms\<rparr>)"

text \<open>\<open>_provider_in\<close>, in a transaction of tenant \<open>ten\<close>.\<close>

definition provider_in :: "uuid \<Rightarrow> provider_hint \<Rightarrow> identity_store \<Rightarrow> exn + uuid \<times> oidc_configuration" where
  "provider_in ten h st =
     (case sole (filter (\<lambda>p. op_tenant p = ten \<and> op_tenant p = ph_tenant h \<and> op_issuer p = ph_issuer h \<and> op_active p
            \<and> op_audience p \<in> set (ph_audiences h)) (id_providers st)) of
        None \<Rightarrow> Inl invalid_token
      | Some p \<Rightarrow>
          (case make_configuration (op_issuer p) (op_audience p) (op_jwks p) (op_algorithms p) of
             Inl _ \<Rightarrow> Inl invalid_token
           | Inr c \<Rightarrow> Inr (op_id p, c)))"

section \<open>Authority\<close>

text \<open>The external identity, its user and the membership as the join selects them.\<close>

definition authority_rows :: "oidc_claims \<Rightarrow> instant \<Rightarrow> identity_store \<Rightarrow> (uuid \<times> (string, string) dict list) list" where
  "authority_rows c now st =
     [(xi_user x, mb_scopes m). x \<leftarrow> id_external st, u \<leftarrow> id_users st, m \<leftarrow> id_memberships st,
        us_tenant u = xi_tenant x \<and> us_id u = xi_user x
        \<and> mb_tenant m = us_tenant u \<and> mb_principal m = us_id u \<and> mb_type m = ''user''
        \<and> xi_tenant x = cl_tenant c \<and> xi_issuer x = cl_issuer c \<and> xi_subject x = cl_subject c
        \<and> us_active u \<and> \<not> us_break_glass u \<and> membership_effective (membership.truncate m) now]"

text \<open>\<open>one_or_none\<close>.\<close>

definition one_or_none :: "'a list \<Rightarrow> exn + 'a option" where
  "one_or_none xs = (case xs of [] \<Rightarrow> Inr None | [x] \<Rightarrow> Inr (Some x) | _ \<Rightarrow> Inl (ForeignError ''MultipleResultsFound''))"

definition tenant_policy :: "uuid \<Rightarrow> identity_store \<Rightarrow> exn + (authentication_strength \<times> string list) option" where
  "tenant_policy ten st =
     bind_res (one_or_none (filter (\<lambda>p. mp_tenant p = ten) (id_policies st))) (\<lambda>row.
       case row of
         None \<Rightarrow> Inr None
       | Some p \<Rightarrow>
           (case strength_of (mp_minimum p) of
              None \<Rightarrow> Inl invalid_token
            | Some a \<Rightarrow> Inr (Some (a, map lower (mp_methods p)))))"

text \<open>\<open>_authority\<close>; the membership is decided before the policy is read as a value.\<close>

definition oidc_authority ::
  "tenant_store \<Rightarrow> identity_store \<Rightarrow> instant \<Rightarrow> oidc_claims \<Rightarrow> provider_hint \<Rightarrow> uuid \<times> oidc_configuration \<Rightarrow>
   exn + uuid \<times> (string, string) dict list \<times> (authentication_strength \<times> string list) option" where
  "oidc_authority ts st now c h verified =
     bind_res (require_active_tenant ts (cl_tenant c)) (\<lambda>_.
     bind_res (provider_in (cl_tenant c) h st) (\<lambda>p.
     bind_res (raise_if (p \<noteq> verified) invalid_token) (\<lambda>_.
     bind_res (one_or_none (authority_rows c now st)) (\<lambda>row.
     bind_res (one_or_none (filter (\<lambda>p. mp_tenant p = cl_tenant c) (id_policies st))) (\<lambda>_.
       case row of
         None \<Rightarrow> Inl (BusinessOSError ''invalid_membership'' ''Active tenant membership is required'' 403)
       | Some (user, scopes) \<Rightarrow>
           bind_res (tenant_policy (cl_tenant c) st) (\<lambda>policy. Inr (user, scopes, policy)))))))"

text \<open>\<open>_authentication_strength\<close> and \<open>_enforce_policy\<close>.\<close>

definition claimed_strength :: "oidc_claims \<Rightarrow> authentication_strength" where
  "claimed_strength c =
     (let methods = map lower (cl_methods c); acr = (case cl_acr c of None \<Rightarrow> '''' | Some a \<Rightarrow> lower a) in
      if acr = strength_text PHISHING_RESISTANT \<or> ''hwk'' \<in> set methods then PHISHING_RESISTANT
      else if acr = strength_text MFA \<or> ''mfa'' \<in> set methods then MFA
      else if acr = strength_text PASSWORD \<or> ''pwd'' \<in> set methods then PASSWORD
      else OIDC)"

fun strength_rank :: "authentication_strength \<Rightarrow> nat" where
  "strength_rank UNSPECIFIED = 0"
| "strength_rank OIDC = 1"
| "strength_rank PASSWORD = 2"
| "strength_rank MFA = 3"
| "strength_rank PHISHING_RESISTANT = 4"
| "strength_rank BREAK_GLASS = 5"

definition enforce_policy :: "authentication_strength \<Rightarrow> string list \<Rightarrow> (authentication_strength \<times> string list) option \<Rightarrow> exn + unit" where
  "enforce_policy actual methods policy =
     (case policy of
        None \<Rightarrow> Inr ()
      | Some (required, needed) \<Rightarrow>
          raise_if (strength_rank actual < strength_rank required \<or> \<not> set needed \<subseteq> set (map lower methods)) invalid_token)"

section \<open>The resolver\<close>

text \<open>The credential of a bearer header; anything else is an anonymous request.\<close>

definition bearer_token :: "request_identity \<Rightarrow> string option" where
  "bearer_token i =
     (case partition_at CHR '' '' (case dict_get (ri_headers i) ''authorization'' of None \<Rightarrow> '''' | Some v \<Rightarrow> v) of
        (scheme, Some credential) \<Rightarrow>
          if lower scheme = ''bearer'' \<and> strip is_space credential \<noteq> '''' then Some (strip is_space credential) else None
      | (_, None) \<Rightarrow> None)"

text \<open>\<open>datetime.fromtimestamp(seconds, UTC)\<close>: the years 1 to 9999.\<close>

definition from_timestamp :: "int \<Rightarrow> exn + instant" where
  "from_timestamp seconds =
     (if seconds < - 62135596800 \<or> 253402300799 < seconds then Inl (ValueError ''year is out of range'')
      else Inr (seconds * 1000000))"

text \<open>The verified claims with the authority they carry; \<open>st1\<close> is the store when the provider is looked up.\<close>

definition authenticate_claims ::
  "oidc_port \<Rightarrow> tenant_store \<Rightarrow> identity_store \<Rightarrow> identity_store \<Rightarrow> instant \<Rightarrow> (oidc_claims \<Rightarrow> exn + unit) \<Rightarrow> string \<Rightarrow>
   exn + oidc_claims \<times> uuid \<times> (string, string) dict list" where
  "authenticate_claims port ts st1 st2 now check token =
     bind_res (case oi_hint port token of None \<Rightarrow> Inl invalid_token | Some h \<Rightarrow> Inr h) (\<lambda>h.
     bind_res (provider_in (ph_tenant h) h st1) (\<lambda>provider.
     bind_res (case oi_verify port (snd provider) token of None \<Rightarrow> Inl invalid_token | Some c \<Rightarrow> Inr c) (\<lambda>c.
     bind_res (check c) (\<lambda>_.
     bind_res (oidc_authority ts st2 now c h provider) (\<lambda>(user, scopes, policy).
     bind_res (enforce_policy (claimed_strength c) (cl_methods c) policy) (\<lambda>_.
       Inr (c, user, scopes)))))))"

definition oidc_principal :: "oidc_claims \<Rightarrow> uuid \<Rightarrow> (string, string) dict list \<Rightarrow> principal_identity" where
  "oidc_principal c user scopes =
     \<lparr>pi_tenant = cl_tenant c, pi_principal = user, pi_type = ''user'', pi_strength = strength_text (claimed_strength c), pi_scopes = scopes\<rparr>"

definition oidc_resolve ::
  "oidc_port \<Rightarrow> uuid \<Rightarrow> tenant_store \<Rightarrow> identity_store \<Rightarrow> identity_store \<Rightarrow> instant \<Rightarrow> request_identity \<Rightarrow>
   principal_binding option \<Rightarrow> principal_binding option \<times> (exn + request_context)" where
  "oidc_resolve port installation ts st1 st2 now i current =
     (let cleared = None in
      case bearer_token i of
        None \<Rightarrow> (cleared, Inr \<lparr>correlation_id = ri_correlation_id i, trace_id = ri_trace_id i, tenant = None\<rparr>)
      | Some token \<Rightarrow>
          (case authenticate_claims port ts st1 st2 now (\<lambda>_. Inr ()) token of
             Inl e \<Rightarrow> (cleared, Inl e)
           | Inr (c, user, scopes) \<Rightarrow>
               (case from_timestamp (cl_expires c) of
                  Inl e \<Rightarrow> (cleared, Inl e)
                | Inr expires \<Rightarrow>
                    let ctx = \<lparr>correlation_id = ri_correlation_id i, trace_id = ri_trace_id i,
                          tenant = Some ((tenant_context_of installation (cl_tenant c) user)
                            \<lparr>authentication_strength := strength_text (claimed_strength c), credential_expires_at := Some expires\<rparr>)\<rparr>
                    in (case bind_authenticated_principal ctx (oidc_principal c user scopes) cleared of
                        (b, Inl e) \<Rightarrow> (b, Inl e)
                      | (b, Inr _) \<Rightarrow> (b, Inr ctx)))))"

text \<open>\<open>authenticate_token\<close>, for the browser flow: the token must carry the nonce of the login.\<close>

definition authenticate_token ::
  "oidc_port \<Rightarrow> tenant_store \<Rightarrow> identity_store \<Rightarrow> identity_store \<Rightarrow> instant \<Rightarrow> string \<Rightarrow> string \<Rightarrow> exn + principal_identity" where
  "authenticate_token port ts st1 st2 now expected_nonce token =
     bind_res (authenticate_claims port ts st1 st2 now (\<lambda>c. raise_if (cl_nonce c \<noteq> Some expected_nonce)
         (BusinessOSError ''invalid_oidc_nonce'' ''Authentication failed'' 401)) token) (\<lambda>(c, user, scopes).
       Inr (oidc_principal c user scopes))"

section \<open>What a context of a bearer token proves\<close>

lemma one_or_none_Inr: "one_or_none xs = Inr (Some x) \<Longrightarrow> xs = [x]"
  "one_or_none xs = Inr None \<Longrightarrow> xs = []"
  by (auto simp: one_or_none_def split: list.splits)

text \<open>The configuration a provider was found with is that of an active row of the tenant, and of no other row.\<close>

definition provider_of :: "uuid \<Rightarrow> provider_hint \<Rightarrow> oidc_configuration \<Rightarrow> identity_store \<Rightarrow> bool" where
  "provider_of ten h conf st \<longleftrightarrow>
     (\<exists>p \<in> set (id_providers st). op_tenant p = ten \<and> op_active p \<and> op_issuer p = oc_issuer conf \<and> op_audience p = oc_audience conf
        \<and> op_jwks p = oc_jwks conf \<and> op_algorithms p = oc_algorithms conf \<and> op_audience p \<in> set (ph_audiences h)
        \<and> set (oc_algorithms conf) \<subseteq> set approved_algorithms)"

lemma provider_in_Inr:
  assumes "provider_in ten h st = Inr (i, conf)"
  shows "provider_of ten h conf st \<and> ph_tenant h = ten \<and> ph_issuer h = oc_issuer conf"
proof -
  let ?rows = "filter (\<lambda>p. op_tenant p = ten \<and> op_tenant p = ph_tenant h \<and> op_issuer p = ph_issuer h \<and> op_active p
    \<and> op_audience p \<in> set (ph_audiences h)) (id_providers st)"
  from assms obtain p where p: "sole ?rows = Some p"
    and c: "make_configuration (op_issuer p) (op_audience p) (op_jwks p) (op_algorithms p) = Inr conf"
    by (auto simp: provider_in_def simp del: sole_Some split: option.splits sum.splits)
  from p have "p \<in> set ?rows" by simp
  moreover from c have "conf = \<lparr>oc_issuer = op_issuer p, oc_audience = op_audience p, oc_jwks = op_jwks p, oc_algorithms = op_algorithms p\<rparr>"
    "set (op_algorithms p) \<subseteq> set approved_algorithms"
    by (simp_all add: make_configuration_def split: if_splits)
  ultimately show ?thesis by (auto simp: provider_of_def)
qed

text \<open>The user of an external identity with an effective membership.\<close>

definition federated_user :: "oidc_claims \<Rightarrow> instant \<Rightarrow> identity_store \<Rightarrow> uuid \<Rightarrow> bool" where
  "federated_user c now st user \<longleftrightarrow>
     (\<exists>x \<in> set (id_external st). xi_tenant x = cl_tenant c \<and> xi_issuer x = cl_issuer c \<and> xi_subject x = cl_subject c \<and> xi_user x = user)
     \<and> (\<exists>u \<in> set (id_users st). us_tenant u = cl_tenant c \<and> us_id u = user \<and> us_active u \<and> \<not> us_break_glass u)
     \<and> (\<exists>m \<in> set (id_memberships st). mb_tenant m = cl_tenant c \<and> mb_principal m = user \<and> mb_type m = ''user''
          \<and> membership_effective (membership.truncate m) now)"

lemma authority_rows_sound:
  "(user, scopes) \<in> set (authority_rows c now st) \<Longrightarrow> federated_user c now st user"
  by (auto simp: authority_rows_def federated_user_def)

text \<open>The strength the claims give satisfies every policy row of the tenant.\<close>

definition policy_satisfied :: "oidc_claims \<Rightarrow> identity_store \<Rightarrow> bool" where
  "policy_satisfied c st \<longleftrightarrow>
     (\<forall>p \<in> set (id_policies st). mp_tenant p = cl_tenant c \<longrightarrow>
        (\<exists>a. strength_of (mp_minimum p) = Some a \<and> strength_rank a \<le> strength_rank (claimed_strength c))
        \<and> set (map lower (mp_methods p)) \<subseteq> set (map lower (cl_methods c)))"

lemma policy_enforced:
  assumes "tenant_policy (cl_tenant c) st = Inr policy" and "enforce_policy (claimed_strength c) (cl_methods c) policy = Inr ()"
  shows "policy_satisfied c st"
proof -
  from assms(1) obtain row where row: "one_or_none (filter (\<lambda>p. mp_tenant p = cl_tenant c) (id_policies st)) = Inr row"
    and p: "(case row of None \<Rightarrow> Inr None | Some p \<Rightarrow> (case strength_of (mp_minimum p) of None \<Rightarrow> Inl invalid_token
      | Some a \<Rightarrow> Inr (Some (a, map lower (mp_methods p))))) = Inr policy"
    by (auto simp: tenant_policy_def bind_res_Inr)
  show ?thesis
  proof (cases row)
    case None
    then have "filter (\<lambda>p. mp_tenant p = cl_tenant c) (id_policies st) = []" using row by (intro one_or_none_Inr(2)) simp
    then show ?thesis by (auto simp: policy_satisfied_def filter_empty_conv)
  next
    case (Some q)
    then have rows: "filter (\<lambda>p. mp_tenant p = cl_tenant c) (id_policies st) = [q]" using row by (intro one_or_none_Inr(1)) simp
    from p Some obtain a where a: "strength_of (mp_minimum q) = Some a" "policy = Some (a, map lower (mp_methods q))"
      by (auto split: option.splits)
    have "q' = q" if "q' \<in> set (id_policies st)" "mp_tenant q' = cl_tenant c" for q'
      using arg_cong [OF rows, of set] that by auto
    with a assms(2) show ?thesis by (auto simp: policy_satisfied_def enforce_policy_def)
  qed
qed

lemma oidc_authority_Inr:
  assumes "oidc_authority ts st now c h verified = Inr (user, scopes, policy)"
  shows "require_active_tenant ts (cl_tenant c) = Inr () \<and> provider_in (cl_tenant c) h st = Inr verified
    \<and> federated_user c now st user \<and> tenant_policy (cl_tenant c) st = Inr policy"
proof -
  from assms obtain row where t: "require_active_tenant ts (cl_tenant c) = Inr ()" "provider_in (cl_tenant c) h st = Inr verified"
    and row: "one_or_none (authority_rows c now st) = Inr row"
    and r: "(case row of None \<Rightarrow> Inl (BusinessOSError ''invalid_membership'' ''Active tenant membership is required'' 403)
       | Some (user, scopes) \<Rightarrow> bind_res (tenant_policy (cl_tenant c) st) (\<lambda>policy. Inr (user, scopes, policy))) = Inr (user, scopes, policy)"
    unfolding oidc_authority_def by (auto simp: bind_res_Inr)
  from r have some: "row = Some (user, scopes)" "tenant_policy (cl_tenant c) st = Inr policy"
    by (auto simp: bind_res_Inr split: option.splits)
  from one_or_none_Inr(1) [OF row [unfolded some(1)]] have "federated_user c now st user" by (intro authority_rows_sound) simp
  with t some show ?thesis by simp
qed

lemma authenticate_claims_Inr:
  assumes "authenticate_claims port ts st1 st2 now check token = Inr (c, user, scopes)"
  shows "\<exists>h conf. oi_hint port token = Some h \<and> oi_verify port conf token = Some c \<and> check c = Inr () \<and> ph_tenant h = cl_tenant c
    \<and> provider_of (cl_tenant c) h conf st1 \<and> provider_of (cl_tenant c) h conf st2
    \<and> require_active_tenant ts (cl_tenant c) = Inr () \<and> federated_user c now st2 user \<and> policy_satisfied c st2"
proof -
  from assms obtain h i conf policy where h: "oi_hint port token = Some h"
    and p: "provider_in (ph_tenant h) h st1 = Inr (i, conf)" and v: "oi_verify port conf token = Some c" and k: "check c = Inr ()"
    and a: "oidc_authority ts st2 now c h (i, conf) = Inr (user, scopes, policy)"
    and e: "enforce_policy (claimed_strength c) (cl_methods c) policy = Inr ()"
    unfolding authenticate_claims_def by (auto simp: bind_res_Inr split: option.splits)
  note o = oidc_authority_Inr [OF a]
  with provider_in_Inr [of "cl_tenant c" h st2] provider_in_Inr [OF p] policy_enforced [OF _ e] h v k
  show ?thesis by (intro exI [of _ h] exI [of _ conf]) auto
qed

text \<open>
  C31: A request gets a tenant only from a bearer token: then the token verified under the configuration of an
  active provider of that tenant, with approved algorithms only, both when the provider was looked up and when
  the authority was read; the tenant is active; the principal is the active user, not a break-glass one, that
  the verified issuer and subject are mapped to, with an effective membership; the strength is what the claims
  give and meets the tenant's policy; and exactly this principal is bound to the request. A request without a
  tenant, or refused, leaves no principal bound.
\<close>

theorem oidc_context_is_lawful:
  assumes r: "oidc_resolve port installation ts st1 st2 now i current = (b, r)"
  shows "(case r of
      Inr ctx \<Rightarrow>
        (case tenant ctx of
           None \<Rightarrow> b = None \<and> bearer_token i = None
         | Some ten \<Rightarrow>
             (\<exists>token h conf c scopes. bearer_token i = Some token \<and> oi_verify port conf token = Some c \<and> tenant_id ten = cl_tenant c
                \<and> provider_of (tenant_id ten) h conf st1 \<and> provider_of (tenant_id ten) h conf st2
                \<and> require_active_tenant ts (tenant_id ten) = Inr () \<and> federated_user c now st2 (principal_id ten)
                \<and> authentication_strength ten = strength_text (claimed_strength c) \<and> policy_satisfied c st2
                \<and> credential_expires_at ten = Some (cl_expires c * 1000000)
                \<and> b = Some (ctx, oidc_principal c (principal_id ten) scopes)))
    | Inl e \<Rightarrow> b = None)"
proof (cases "bearer_token i")
  case None
  with r show ?thesis by (auto simp: oidc_resolve_def Let_def)
next
  case (Some token)
  show ?thesis
  proof (cases "authenticate_claims port ts st1 st2 now (\<lambda>_. Inr ()) token")
    case (Inl e)
    with r Some show ?thesis by (auto simp: oidc_resolve_def Let_def)
  next
    case (Inr res)
    obtain c user scopes where res: "res = (c, user, scopes)" by (cases res)
    from authenticate_claims_Inr [OF Inr [unfolded res]] obtain h conf where a: "oi_verify port conf token = Some c"
      "provider_of (cl_tenant c) h conf st1" "provider_of (cl_tenant c) h conf st2" "require_active_tenant ts (cl_tenant c) = Inr ()"
      "federated_user c now st2 user" "policy_satisfied c st2" by blast
    show ?thesis
    proof (cases "from_timestamp (cl_expires c)")
      case (Inl e)
      with r Some Inr res show ?thesis by (auto simp: oidc_resolve_def Let_def)
    next
      case (Inr expires)
      then have "expires = cl_expires c * 1000000" by (simp add: from_timestamp_def split: if_splits)
      let ?ten = "(tenant_context_of installation (cl_tenant c) user)
        \<lparr>authentication_strength := strength_text (claimed_strength c), credential_expires_at := Some (cl_expires c * 1000000)\<rparr>"
      let ?ctx = "\<lparr>correlation_id = ri_correlation_id i, trace_id = ri_trace_id i, tenant = Some ?ten\<rparr>"
      have t: "tenant_id ?ten = cl_tenant c" "principal_id ?ten = user" "authentication_strength ?ten = strength_text (claimed_strength c)"
        "credential_expires_at ?ten = Some (cl_expires c * 1000000)" by (simp_all add: tenant_context_of_def)
      have "r = Inr ?ctx" "b = Some (?ctx, oidc_principal c user scopes)"
        using r Some Inr \<open>authenticate_claims port ts st1 st2 now (\<lambda>_. Inr ()) token = Inr res\<close> res
          \<open>expires = cl_expires c * 1000000\<close> t
        by (auto simp: oidc_resolve_def Let_def bind_authenticated_principal_def oidc_principal_def)
      then show ?thesis using Some a t
        by simp (intro exI [of _ h] exI [of _ conf] exI [of _ c] exI [of _ scopes] conjI; simp)
    qed
  qed
qed

section \<open>A sample request\<close>

definition sample_claims :: oidc_claims where
  "sample_claims = \<lparr>cl_issuer = ''https://idp'', cl_subject = ''ada'', cl_tenant = 7, cl_expires = 1000, cl_acr = Some ''MFA'',
     cl_methods = [''otp''], cl_nonce = None\<rparr>"

definition sample_port :: oidc_port where
  "sample_port = \<lparr>oi_hint = (\<lambda>token. if token = ''t'' then Some \<lparr>ph_issuer = ''https://idp'', ph_audiences = [''a''], ph_tenant = 7\<rparr> else None),
     oi_verify = (\<lambda>conf token. if token = ''t'' \<and> oc_issuer conf = ''https://idp'' then Some sample_claims else None)\<rparr>"

definition federated_store :: identity_store where
  "federated_store = no_identities
     \<lparr>id_users := [\<lparr>us_id = 5, us_tenant = 7, us_email = ''ada@x.org'', us_name = ''Ada'', us_active = True, us_break_glass = False, us_secret = None\<rparr>],
      id_external := [\<lparr>xi_tenant = 7, xi_user = 5, xi_issuer = ''https://idp'', xi_subject = ''ada''\<rparr>],
      id_memberships := [\<lparr>mb_id = 50, mb_tenant = 7, mb_principal = 5, mb_type = ''user'', mb_status = ACTIVE_MEMBER, mb_from = None,
         mb_until = Some 900, mb_scopes = [], mb_granted_by = 1\<rparr>],
      id_providers := [\<lparr>op_id = 1, op_tenant = 7, op_issuer = ''https://idp'', op_audience = ''a'', op_jwks = ''https://idp/keys'',
         op_algorithms = [''RS256''], op_active = True\<rparr>],
      id_policies := [\<lparr>mp_tenant = 7, mp_minimum = ''password'', mp_methods = [''OTP''], mp_configuration = []\<rparr>]\<rparr>"

definition active_tenants :: tenant_store where
  "active_tenants = \<lparr>ts_tenants = [\<lparr>tr_id = 7, tr_slug = ''x'', tr_status = ACTIVE_TENANT, tr_version = 3\<rparr>], ts_history = [], ts_work = [],
     ts_entitlements = [], ts_quotas = []\<rparr>"

definition bearer_request :: request_identity where
  "bearer_request = \<lparr>ri_method = ''GET'', ri_path = ''/'', ri_headers = [(''authorization'', ''Bearer  t'')], ri_correlation_id = ''c'', ri_trace_id = ''''\<rparr>"

definition sample_resolved :: "principal_binding option \<times> (exn + request_context)" where
  "sample_resolved = oidc_resolve sample_port 1 active_tenants federated_store federated_store 100 bearer_request None"

lemma sample_resolved_tenant:
  "(case snd sample_resolved of Inl e \<Rightarrow> False | Inr ctx \<Rightarrow> map_option tenant_id (tenant ctx) = Some 7 \<and> map_option principal_id (tenant ctx) = Some 5)"
  by code_simp

theorem oidc_context_is_lawful_witness:
  "\<exists>b ctx ten. sample_resolved = (b, Inr ctx) \<and> tenant ctx = Some ten \<and> tenant_id ten = 7 \<and> principal_id ten = 5
     \<and> policy_satisfied sample_claims federated_store
     \<and> (\<exists>c. oi_verify sample_port \<lparr>oc_issuer = ''https://idp'', oc_audience = ''a'', oc_jwks = ''https://idp/keys'', oc_algorithms = [''RS256'']\<rparr> ''t'' = Some c)"
proof -
  from returned_cases [OF sample_resolved_tenant] obtain ctx ten where s: "snd sample_resolved = Inr ctx" "tenant ctx = Some ten"
    "tenant_id ten = 7" "principal_id ten = 5" by auto
  then have run: "sample_resolved = (fst sample_resolved, Inr ctx)" by (metis prod.collapse)
  from oidc_context_is_lawful [OF run [unfolded sample_resolved_def]] s(2)
  obtain token conf c where "oi_verify sample_port conf token = Some c" "policy_satisfied c federated_store" by auto
  then have "policy_satisfied sample_claims federated_store" by (auto simp: sample_port_def split: if_splits)
  with run s show ?thesis by (intro exI [of _ "fst sample_resolved"] exI [of _ ctx] exI [of _ ten]) (simp add: sample_port_def)
qed

end
