(* ===== verification/Web_Login.thy ===== *)
theory Web_Login
  imports Oidc
begin

text \<open>
  The browser login of the identity foundation (\<open>web_sessions.py\<close>): authorization transactions with their
  in-memory store, the OIDC code adapter and the return path of a login. \<open>digest\<close> is the SHA-256 of a text,
  \<open>challenge\<close> the PKCE challenge of a verifier; random values are arguments. Each store operation runs under
  the store's lock, so it is one step; it reads the clock where the code does.
\<close>

section \<open>The return path\<close>

text \<open>
  What \<open>urlsplit\<close> takes as scheme and network location. It raises for a location it cannot accept, as one with
  an unbalanced bracket; \<open>netloc_ok\<close> says which it accepts.
\<close>

definition scheme_char :: "char \<Rightarrow> bool" where
  "scheme_char c \<longleftrightarrow> is_lower c \<or> is_upper c \<or> is_digit c \<or> c \<in> set ''+-.''"

definition url_parts :: "(string \<Rightarrow> bool) \<Rightarrow> string \<Rightarrow> exn + string \<times> string" where
  "url_parts netloc_ok v =
     (let u = filter (\<lambda>c. (of_char c :: nat) \<notin> {9, 10, 13}) (dropWhile (\<lambda>c. (of_char c :: nat) \<le> 32) v);
          (before, after) = partition_at CHR '':'' u;
          (scheme, rest) = (case after of
             None \<Rightarrow> ('''', u)
           | Some a \<Rightarrow> (case before of
                [] \<Rightarrow> ('''', u)
              | c # cs \<Rightarrow> if (is_lower c \<or> is_upper c) \<and> list_all scheme_char cs then (lower before, a) else ('''', u)))
      in if starts_with ''//'' rest
         then (let netloc = takeWhile (\<lambda>c. c \<notin> set ''/?#'') (drop 2 rest) in
               if netloc_ok netloc then Inr (scheme, netloc) else Inl (ValueError ''Invalid URL''))
         else Inr (scheme, ''''))"

definition unsafe_return_path :: exn where
  "unsafe_return_path = BusinessOSError ''unsafe_return_path'' ''Return path is not valid'' 400"

definition sanitize_return_path :: "(string \<Rightarrow> bool) \<Rightarrow> string option \<Rightarrow> exn + string" where
  "sanitize_return_path netloc_ok v =
     (case v of
        None \<Rightarrow> Inr ''/''
      | Some p \<Rightarrow>
          if p = '''' then Inr ''/''
          else bind_res (url_parts netloc_ok p) (\<lambda>(scheme, netloc).
            if \<not> starts_with ''/'' p \<or> starts_with ''//'' p \<or> scheme \<noteq> '''' \<or> netloc \<noteq> ''''
               \<or> CHR 0x5C \<in> set p \<or> list_ex (\<lambda>c. (of_char c :: nat) < 32) p
            then Inl unsafe_return_path else Inr p))"

lemma sanitize_return_path_Inr:
  "sanitize_return_path netloc_ok v = Inr p \<Longrightarrow>
   starts_with ''/'' p \<and> \<not> starts_with ''//'' p \<and> CHR 0x5C \<notin> set p \<and> (\<forall>c \<in> set p. 32 \<le> (of_char c :: nat))"
  by (cases v) (auto simp: sanitize_return_path_def bind_res_Inr starts_with_def list_ex_iff not_less split: if_splits)

text \<open>A path that \<open>urlsplit\<close> refuses is an error of another class than the one the code raises for unsafe paths.\<close>

lemma unbalanced_return_path:
  "\<not> netloc_ok ''['' \<Longrightarrow> sanitize_return_path netloc_ok (Some ''//['') = Inl (ValueError ''Invalid URL'')"
proof -
  assume "\<not> netloc_ok ''[''"
  then have "url_parts netloc_ok ''//['' = Inl (ValueError ''Invalid URL'')"
    by (simp add: url_parts_def partition_at_def starts_with_def)
  then show ?thesis by (simp add: sanitize_return_path_def bind_res_simps)
qed

section \<open>Authorization transactions\<close>

record auth_transaction =
  tx_state :: string
  tx_nonce :: string
  tx_verifier :: string
  tx_challenge :: string
  tx_binding :: string
  tx_provider :: string
  tx_issuer :: string
  tx_return :: string
  tx_issued :: instant
  tx_expires :: instant

record transaction_store =
  tt_pending :: "(string, auth_transaction) dict"
  tt_bindings :: "(string, string list) dict"
  tt_consumed :: "(string, instant) dict"
  tt_attempts :: "(string, int \<times> instant) dict"

definition new_transaction_store :: transaction_store where
  "new_transaction_store = \<lparr>tt_pending = [], tt_bindings = [], tt_consumed = [], tt_attempts = []\<rparr>"

text \<open>Seconds are microseconds times a million.\<close>

definition allow_login :: "(string \<Rightarrow> string) \<Rightarrow> instant \<Rightarrow> string \<Rightarrow> int \<Rightarrow> int \<Rightarrow> transaction_store \<Rightarrow> transaction_store \<times> bool" where
  "allow_login digest now key limit window st =
     (let k = digest key; fresh = now + window * 1000000;
          (count, expires) = (case dict_get (tt_attempts st) k of None \<Rightarrow> (0, fresh) | Some e \<Rightarrow> e);
          (count, expires) = (if expires \<le> now then (0, fresh) else (count, expires))
      in (st\<lparr>tt_attempts := dict_set k (count + 1, expires) (tt_attempts st)\<rparr>, count + 1 \<le> limit))"

definition create_transaction :: "(string \<Rightarrow> string) \<Rightarrow> auth_transaction \<Rightarrow> transaction_store \<Rightarrow> transaction_store" where
  "create_transaction digest t st =
     (let k = digest (tx_state t); held = (case dict_get (tt_bindings st) (tx_binding t) of None \<Rightarrow> [] | Some ks \<Rightarrow> ks) in
      st\<lparr>tt_pending := dict_set k t (tt_pending st),
         tt_bindings := dict_set (tx_binding t) (if k \<in> set held then held else held @ [k]) (tt_bindings st)\<rparr>)"

text \<open>\<open>_clear_binding_locked\<close>: every pending transaction of the browser is consumed.\<close>

definition consume_state :: "string \<Rightarrow> transaction_store \<Rightarrow> transaction_store" where
  "consume_state k st =
     (case dict_get (tt_pending st) k of
        None \<Rightarrow> st
      | Some t \<Rightarrow> st\<lparr>tt_pending := dict_pop k (tt_pending st), tt_consumed := dict_set k (tx_expires t) (tt_consumed st)\<rparr>)"

definition clear_binding :: "string \<Rightarrow> transaction_store \<Rightarrow> transaction_store" where
  "clear_binding bk st =
     (case dict_get (tt_bindings st) bk of
        None \<Rightarrow> st
      | Some ks \<Rightarrow> foldl (\<lambda>s k. consume_state k s) (st\<lparr>tt_bindings := dict_pop bk (tt_bindings st)\<rparr>) ks)"

definition purge_consumed :: "instant \<Rightarrow> transaction_store \<Rightarrow> transaction_store" where
  "purge_consumed now st = st\<lparr>tt_consumed := dict_keep (\<lambda>expiry. expiry > now) (tt_consumed st)\<rparr>"

definition invalid_transaction :: exn where
  "invalid_transaction = BusinessOSError ''invalid_authentication_transaction'' ''Authentication transaction is not valid'' 401"

text \<open>A pending transaction becomes a consumed one.\<close>

definition take_pending :: "string \<Rightarrow> auth_transaction \<Rightarrow> transaction_store \<Rightarrow> transaction_store" where
  "take_pending sk t st =
     st\<lparr>tt_pending := dict_pop sk (tt_pending st),
        tt_bindings := (case dict_get (tt_bindings st) (tx_binding t) of
           None \<Rightarrow> tt_bindings st
         | Some ks \<Rightarrow> dict_set (tx_binding t) (filter (\<lambda>k. k \<noteq> sk) ks) (tt_bindings st)),
        tt_consumed := dict_set sk (tx_expires t) (tt_consumed st)\<rparr>"

text \<open>\<open>consume\<close>; \<open>now\<close> is read by the purge and \<open>later\<close> by the test of the expiry.\<close>

definition consume_transaction ::
  "(string \<Rightarrow> string) \<Rightarrow> instant \<Rightarrow> instant \<Rightarrow> string \<Rightarrow> string \<Rightarrow> transaction_store \<Rightarrow> transaction_store \<times> (exn + auth_transaction)" where
  "consume_transaction digest now later state binding st =
     (let sk = digest state; bk = digest binding; st = purge_consumed now st in
      if dict_get (tt_consumed st) sk \<noteq> None
      then (st, Inl (BusinessOSError ''authentication_transaction_replayed'' ''Authentication transaction was already consumed'' 409))
      else (case dict_get (tt_pending st) sk of
          None \<Rightarrow> (clear_binding bk st, Inl invalid_transaction)
        | Some t \<Rightarrow>
            let st = take_pending sk t st in
            if tx_expires t \<le> later
            then (st, Inl (BusinessOSError ''expired_authentication_transaction'' ''Authentication transaction has expired'' 401))
            else if tx_binding t \<noteq> bk
            then (clear_binding bk st, Inl (BusinessOSError ''invalid_browser_binding'' ''Browser binding is not valid'' 401))
            else (st, Inr t)))"

definition clear_browser_binding :: "(string \<Rightarrow> string) \<Rightarrow> string \<Rightarrow> transaction_store \<Rightarrow> transaction_store" where
  "clear_browser_binding digest binding st = clear_binding (digest binding) st"

section \<open>Every transaction is used once\<close>

lemma consume_state_pending:
  "dict_get (tt_pending (consume_state k st)) x = (if x = k then None else dict_get (tt_pending st) x)"
  by (simp add: consume_state_def dict_simps split: option.split)

lemma consume_states_pending:
  "dict_get (tt_pending (foldl (\<lambda>s k. consume_state k s) st ks)) x = (if x \<in> set ks then None else dict_get (tt_pending st) x)"
  by (induction ks arbitrary: st) (auto simp: consume_state_pending)

lemma clear_binding_pending:
  "dict_get (tt_pending (clear_binding bk st)) x = Some t \<Longrightarrow> dict_get (tt_pending st) x = Some t"
  by (auto simp: clear_binding_def consume_states_pending split: option.split_asm if_splits)

text \<open>A history of the store: the transactions created, and per accepted one its keys and the instant it was compared with.\<close>

inductive login_history ::
  "(string \<Rightarrow> string) \<Rightarrow> auth_transaction list \<Rightarrow> (string \<times> string \<times> instant \<times> auth_transaction) list \<Rightarrow> transaction_store \<Rightarrow> bool" for digest where
  empty: "login_history digest [] [] new_transaction_store"
| limited: "login_history digest created accepted st \<Longrightarrow>
     login_history digest created accepted (fst (allow_login digest now key limit window st))"
| created: "login_history digest created accepted st \<Longrightarrow> digest (tx_state t) \<notin> (\<lambda>u. digest (tx_state u)) ` set created \<Longrightarrow>
     login_history digest (created @ [t]) accepted (create_transaction digest t st)"
| accepted: "login_history digest created accepted st \<Longrightarrow> consume_transaction digest now later state binding st = (st', Inr t) \<Longrightarrow>
     login_history digest created (accepted @ [(digest state, digest binding, later, t)]) st'"
| refused: "login_history digest created accepted st \<Longrightarrow> consume_transaction digest now later state binding st = (st', Inl e) \<Longrightarrow>
     login_history digest created accepted st'"
| cleared: "login_history digest created accepted st \<Longrightarrow> login_history digest created accepted (clear_browser_binding digest binding st)"

definition login_ok ::
  "(string \<Rightarrow> string) \<Rightarrow> auth_transaction list \<Rightarrow> (string \<times> string \<times> instant \<times> auth_transaction) list \<Rightarrow> transaction_store \<Rightarrow> bool" where
  "login_ok digest created accepted st \<longleftrightarrow>
     (\<forall>k t. dict_get (tt_pending st) k = Some t \<longrightarrow> t \<in> set created \<and> k = digest (tx_state t))
     \<and> (\<forall>(k, b, later, t) \<in> set accepted. t \<in> set created \<and> k = digest (tx_state t) \<and> b = tx_binding t \<and> later < tx_expires t
          \<and> dict_get (tt_pending st) k = None)
     \<and> distinct (map fst accepted)"

lemma login_ok_fewer:
  assumes "login_ok digest created accepted st"
    and fewer: "\<And>k t. dict_get (tt_pending st') k = Some t \<Longrightarrow> dict_get (tt_pending st) k = Some t"
  shows "login_ok digest created accepted st'"
proof -
  have none: "dict_get (tt_pending st') k = None" if "dict_get (tt_pending st) k = None" for k
    using fewer [of k] that by (cases "dict_get (tt_pending st') k") auto
  from assms(1) have old: "\<And>k t. dict_get (tt_pending st) k = Some t \<Longrightarrow> t \<in> set created \<and> k = digest (tx_state t)"
    "\<And>x. x \<in> set accepted \<Longrightarrow> (case x of (k, b, later, t) \<Rightarrow> t \<in> set created \<and> k = digest (tx_state t) \<and> b = tx_binding t
       \<and> later < tx_expires t \<and> dict_get (tt_pending st) k = None)" "distinct (map fst accepted)"
    by (auto simp: login_ok_def)
  from old(2) none have acc: "case x of (k, b, later, t) \<Rightarrow> t \<in> set created \<and> k = digest (tx_state t) \<and> b = tx_binding t
       \<and> later < tx_expires t \<and> dict_get (tt_pending st') k = None" if "x \<in> set accepted" for x
    using that by (cases x) fastforce
  have "\<forall>k t. dict_get (tt_pending st') k = Some t \<longrightarrow> t \<in> set created \<and> k = digest (tx_state t)" using old(1) fewer by meson
  with acc old(3) show ?thesis unfolding login_ok_def by (intro conjI ballI)
qed

lemma consume_transaction_pending:
  assumes "consume_transaction digest now later state binding st = (st', r)"
  shows "dict_get (tt_pending st') k = Some t \<Longrightarrow> dict_get (tt_pending st) k = Some t"
    and "r = Inr u \<Longrightarrow> dict_get (tt_pending st) (digest state) = Some u \<and> tx_binding u = digest binding \<and> later < tx_expires u
      \<and> dict_get (tt_pending st') (digest state) = None"
proof -
  let ?sk = "digest state"
  have "(\<forall>k t. dict_get (tt_pending st') k = Some t \<longrightarrow> dict_get (tt_pending st) k = Some t)
    \<and> (r = Inr u \<longrightarrow> dict_get (tt_pending st) ?sk = Some u \<and> tx_binding u = digest binding \<and> later < tx_expires u
        \<and> dict_get (tt_pending st') ?sk = None)"
  proof (cases "dict_get (tt_consumed (purge_consumed now st)) ?sk = None")
    case False
    with assms show ?thesis by (auto simp: consume_transaction_def Let_def purge_consumed_def)
  next
    case live: True
    show ?thesis
    proof (cases "dict_get (tt_pending st) ?sk")
      case None
      with assms live show ?thesis by (auto simp: consume_transaction_def Let_def purge_consumed_def dest!: clear_binding_pending)
    next
      case (Some t)
      let ?s2 = "take_pending ?sk t (purge_consumed now st)"
      have s2: "dict_get (tt_pending ?s2) k = (if k = ?sk then None else dict_get (tt_pending st) k)" for k
        by (simp add: take_pending_def purge_consumed_def dict_simps)
      have "tt_pending (purge_consumed now st) = tt_pending st" by (simp add: purge_consumed_def)
      with assms live Some consider "st' = ?s2" "\<exists>e. r = Inl e" | "st' = clear_binding (digest binding) ?s2" "\<exists>e. r = Inl e"
        | "later < tx_expires t" "tx_binding t = digest binding" "st' = ?s2" "r = Inr t"
        by (auto simp: consume_transaction_def Let_def split: if_splits)
      then show ?thesis using Some s2 by cases (auto split: if_splits dest!: clear_binding_pending)
    qed
  qed
  then show "dict_get (tt_pending st') k = Some t \<Longrightarrow> dict_get (tt_pending st) k = Some t"
    and "r = Inr u \<Longrightarrow> dict_get (tt_pending st) ?sk = Some u \<and> tx_binding u = digest binding \<and> later < tx_expires u
      \<and> dict_get (tt_pending st') ?sk = None" by blast+
qed

lemma login_history_ok: "login_history digest created accepted st \<Longrightarrow> login_ok digest created accepted st"
proof (induction rule: login_history.induct)
  case empty
  then show ?case by (simp add: login_ok_def new_transaction_store_def)
next
  case (limited created accepted st now key limit window)
  show ?case by (rule login_ok_fewer [OF limited.IH]) (simp add: allow_login_def Let_def split: prod.splits)
next
  case (created created accepted st t)
  then show ?case by (fastforce simp: login_ok_def create_transaction_def Let_def dict_simps image_iff split: prod.splits)
next
  case (accepted created accepted st now later state binding st' t)
  note c = consume_transaction_pending [OF accepted.hyps(2)]
  have old: "login_ok digest created accepted st'" by (rule login_ok_fewer [OF accepted.IH c(1)])
  have "dict_get (tt_pending st) (digest state) = Some t" using c(2) by simp
  moreover from this accepted.IH have "t \<in> set created" "digest state = digest (tx_state t)" by (auto simp: login_ok_def)
  moreover have "digest state \<notin> fst ` set accepted"
    using accepted.IH \<open>dict_get (tt_pending st) (digest state) = Some t\<close> by (fastforce simp: login_ok_def)
  ultimately show ?case using old c(2) by (auto simp: login_ok_def)
next
  case (refused created accepted st now later state binding st' e)
  show ?case by (rule login_ok_fewer [OF refused.IH consume_transaction_pending(1) [OF refused.hyps(2)]])
next
  case (cleared created accepted st binding)
  show ?case by (rule login_ok_fewer [OF cleared.IH]) (auto simp: clear_browser_binding_def dest: clear_binding_pending)
qed

text \<open>
  C32: Under any interleaving of logins, callbacks and their clean-up, an authorization transaction is accepted at
  most once, only if it was created, only with the browser binding it was created for, and only before it
  expires; and a callback accepted after that history is for a transaction that was never accepted before.
\<close>

theorem authorization_transaction_used_once:
  assumes "login_history digest created accepted st"
  shows "distinct (map fst accepted)
    \<and> (\<forall>(k, b, later, t) \<in> set accepted. t \<in> set created \<and> k = digest (tx_state t) \<and> b = tx_binding t \<and> later < tx_expires t)
    \<and> (\<forall>now later state binding st' t. consume_transaction digest now later state binding st = (st', Inr t) \<longrightarrow>
         t \<in> set created \<and> digest state = digest (tx_state t) \<and> digest binding = tx_binding t \<and> later < tx_expires t
         \<and> digest state \<notin> fst ` set accepted)"
proof -
  note ok = login_history_ok [OF assms]
  have "t \<in> set created \<and> digest state = digest (tx_state t) \<and> digest binding = tx_binding t \<and> later < tx_expires t
      \<and> digest state \<notin> fst ` set accepted"
    if "consume_transaction digest now later state binding st = (st', Inr t)" for now later state binding st' t
    using consume_transaction_pending(2) [OF that refl] ok by (fastforce simp: login_ok_def)
  moreover have "distinct (map fst accepted)"
    "\<forall>(k, b, later, t) \<in> set accepted. t \<in> set created \<and> k = digest (tx_state t) \<and> b = tx_binding t \<and> later < tx_expires t"
    using ok by (auto simp: login_ok_def)
  ultimately show ?thesis by blast
qed

text \<open>A transaction that was created is accepted in its browser before it expires.\<close>

lemma fresh_transaction_accepted:
  assumes "later < tx_expires t" and "tx_binding t = digest binding" and "dict_get (tt_consumed (purge_consumed now st)) (digest (tx_state t)) = None"
  shows "\<exists>st'. consume_transaction digest now later (tx_state t) binding (create_transaction digest t st) = (st', Inr t)"
  using assms by (simp add: consume_transaction_def create_transaction_def take_pending_def Let_def purge_consumed_def dict_simps)

definition sample_transaction :: auth_transaction where
  "sample_transaction = \<lparr>tx_state = ''s'', tx_nonce = ''n'', tx_verifier = ''v'', tx_challenge = ''h'', tx_binding = ''b'',
     tx_provider = ''default'', tx_issuer = ''https://idp'', tx_return = ''/'', tx_issued = 10, tx_expires = 100\<rparr>"

definition sample_login_store :: transaction_store where
  "sample_login_store = create_transaction id sample_transaction new_transaction_store"

lemma sample_consumed:
  "consume_transaction id 20 21 ''s'' ''b'' sample_login_store = (fst (consume_transaction id 20 21 ''s'' ''b'' sample_login_store), Inr sample_transaction)"
  by code_simp

theorem authorization_transaction_used_once_witness:
  "distinct [''s''] \<and> sample_transaction \<in> set [sample_transaction] \<and> (21 :: int) < tx_expires sample_transaction
     \<and> \<not> (\<exists>now later binding st' t. consume_transaction id now later ''s'' binding
          (fst (consume_transaction id 20 21 ''s'' ''b'' sample_login_store)) = (st', Inr t))"
proof -
  have "login_history id ([] @ [sample_transaction]) [] sample_login_store"
    unfolding sample_login_store_def by (rule login_history.created [OF login_history.empty]) simp
  from login_history.accepted [OF this sample_consumed]
  have h: "login_history id [sample_transaction] [(''s'', ''b'', 21, sample_transaction)]
      (fst (consume_transaction id 20 21 ''s'' ''b'' sample_login_store))" by simp
  note once = authorization_transaction_used_once [OF h]
  have "False" if "consume_transaction id now later ''s'' binding
      (fst (consume_transaction id 20 21 ''s'' ''b'' sample_login_store)) = (st', Inr t)" for now later binding st' t
  proof -
    have "id ''s'' \<notin> fst ` set [(''s'', ''b'', 21 :: int, sample_transaction)]"
      using conjunct2 [OF conjunct2 [OF once], rule_format, OF that] by (elim conjE)
    then show ?thesis by simp
  qed
  with once show ?thesis by (auto simp: sample_transaction_def)
qed

section \<open>Starting a login\<close>

record oidc_client =
  ck_issuer :: string
  ck_authorization_url :: "string \<Rightarrow> string \<Rightarrow> string \<Rightarrow> string \<Rightarrow> string \<Rightarrow> exn + string"
  ck_exchange :: "string \<Rightarrow> string \<Rightarrow> string \<Rightarrow> exn + string"

text \<open>\<open>OIDCAuthorizationCodeAdapter\<close>; a resolver is \<open>authenticate_token\<close> on the expected nonce and the token.\<close>

record code_adapter =
  ca_clients :: "(string, oidc_client) dict"
  ca_resolvers :: "(string, string \<Rightarrow> string \<Rightarrow> exn + principal_identity) dict"

definition adapter_provider :: "code_adapter \<Rightarrow> string \<Rightarrow> exn + oidc_client \<times> (string \<Rightarrow> string \<Rightarrow> exn + principal_identity)" where
  "adapter_provider a i =
     (case (dict_get (ca_clients a) i, dict_get (ca_resolvers a) i) of
        (Some c, Some r) \<Rightarrow> Inr (c, r)
      | _ \<Rightarrow> Inl (BusinessOSError ''oidc_provider_not_found'' ''Authentication provider is unavailable'' 404))"

definition adapter_authorization_url ::
  "code_adapter \<Rightarrow> string \<Rightarrow> string \<Rightarrow> string \<Rightarrow> string \<Rightarrow> string \<Rightarrow> string \<Rightarrow> exn + string \<times> string" where
  "adapter_authorization_url a i redirect state nonce code_challenge kind =
     bind_res (raise_if (kind \<noteq> ''S256'') (BusinessOSError ''invalid_pkce_method'' ''Authentication request is not valid'' 422)) (\<lambda>_.
     bind_res (adapter_provider a i) (\<lambda>(c, _).
     bind_res (ck_authorization_url c redirect state nonce code_challenge kind) (\<lambda>url.
       Inr (url, ck_issuer c))))"

definition adapter_exchange_code ::
  "code_adapter \<Rightarrow> string \<Rightarrow> string \<Rightarrow> string \<Rightarrow> string \<Rightarrow> string \<Rightarrow> string \<Rightarrow> exn + principal_identity" where
  "adapter_exchange_code a i code redirect verifier nonce issuer =
     bind_res (adapter_provider a i) (\<lambda>(c, resolver).
     bind_res (raise_if (ck_issuer c \<noteq> issuer) (BusinessOSError ''invalid_oidc_issuer'' ''Authentication failed'' 401)) (\<lambda>_.
     bind_res (ck_exchange c code redirect verifier) (\<lambda>token.
       resolver nonce token)))"

record web_configuration =
  wc_installation :: uuid
  wc_callback :: string
  wc_absolute :: int
  wc_idle :: int
  wc_transaction :: int
  wc_attempts :: int
  wc_window :: int

text \<open>\<open>WebSessionConfiguration.__post_init__\<close>; durations are microseconds.\<close>

definition valid_configuration :: "web_configuration \<Rightarrow> exn + unit" where
  "valid_configuration c =
     (if \<not> starts_with ''https://'' (wc_callback c) then Inl (ValueError ''OIDC callback URL must use HTTPS'')
      else if wc_absolute c \<le> 0 \<or> wc_idle c \<le> 0 then Inl (ValueError ''Session lifetimes must be positive'')
      else if wc_transaction c \<le> 0 \<or> wc_window c \<le> 0 then Inl (ValueError ''Authentication transaction lifetimes must be positive'')
      else if wc_attempts c < 1 then Inl (ValueError ''Login attempt limit must be positive'')
      else Inr ())"

record login_start =
  ls_url :: string
  ls_expires :: instant
  ls_binding :: string

text \<open>\<open>start_login\<close>: \<open>limited\<close> and \<open>now\<close> are the clocks of the limiter and of the transaction; the four random values come in order.\<close>

definition start_login ::
  "(string \<Rightarrow> string) \<Rightarrow> (string \<Rightarrow> string) \<Rightarrow> (string \<Rightarrow> bool) \<Rightarrow> web_configuration \<Rightarrow> code_adapter \<Rightarrow> instant \<Rightarrow> instant \<Rightarrow>
   string \<times> string \<times> string \<times> string \<Rightarrow> string \<Rightarrow> string option \<Rightarrow> string \<Rightarrow> transaction_store \<Rightarrow> transaction_store \<times> (exn + login_start)" where
  "start_login digest challenge netloc_ok conf a limited now opaque provider return_to rate_key st =
     (let (st, allowed) = allow_login digest limited rate_key (wc_attempts conf) (max 1 (wc_window conf div 1000000)) st;
          (state, nonce, verifier, binding) = opaque in
      if \<not> allowed then (st, Inl (BusinessOSError ''authentication_rate_limited'' ''Authentication initiation rate limit exceeded'' 429))
      else (case adapter_authorization_url a provider (wc_callback conf) state nonce (challenge verifier) ''S256'' of
          Inl e \<Rightarrow> (st, Inl e)
        | Inr (url, issuer) \<Rightarrow>
            (case sanitize_return_path netloc_ok return_to of
               Inl e \<Rightarrow> (st, Inl e)
             | Inr path \<Rightarrow>
                 let t = \<lparr>tx_state = state, tx_nonce = nonce, tx_verifier = verifier, tx_challenge = challenge verifier,
                       tx_binding = digest binding, tx_provider = provider, tx_issuer = issuer, tx_return = path,
                       tx_issued = now, tx_expires = now + wc_transaction conf\<rparr>
                 in (create_transaction digest t st, Inr \<lparr>ls_url = url, ls_expires = tx_expires t, ls_binding = binding\<rparr>))))"

text \<open>The limiter: within one window at most \<open>limit\<close> logins of a key are allowed.\<close>

fun allow_logins :: "(string \<Rightarrow> string) \<Rightarrow> string \<Rightarrow> int \<Rightarrow> int \<Rightarrow> instant list \<Rightarrow> transaction_store \<Rightarrow> bool list" where
  "allow_logins digest key limit window [] st = []"
| "allow_logins digest key limit window (t # ts) st =
     (let (st', ok) = allow_login digest t key limit window st in ok # allow_logins digest key limit window ts st')"

lemma allow_logins_bound:
  assumes "\<forall>t \<in> set ts. t < expires" and "dict_get (tt_attempts st) (digest key) = Some (n, expires)" and "0 \<le> n"
  shows "int (length (filter (\<lambda>b. b) (allow_logins digest key limit window ts st))) \<le> max 0 (limit - n)"
  using assms
proof (induction ts arbitrary: st n)
  case (Cons t ts)
  obtain st' where run: "allow_login digest t key limit window st = (st', n + 1 \<le> limit)"
    and kept: "dict_get (tt_attempts st') (digest key) = Some (n + 1, expires)"
    using Cons.prems by (auto simp: allow_login_def Let_def dict_simps)
  from Cons.IH [OF _ kept] Cons.prems
  have "int (length (filter (\<lambda>b. b) (allow_logins digest key limit window ts st'))) \<le> max 0 (limit - (n + 1))" by simp
  with run show ?case by (auto simp: Let_def split: if_splits)
qed simp

end
