(* ===== verification/Web_Sessions.thy ===== *)
theory Web_Sessions
  imports Web_Login
begin

text \<open>
  Server-side web sessions of the identity foundation (\<open>web_sessions.py\<close>, \<open>web_browser.py\<close>): the session store
  as an interface with its in-memory implementation, the session service over any store, cookies, and the
  resolver of browser requests with its CSRF checks. A session is kept under the digest of its handle; a fresh
  random handle is a key that was never used. Durations are microseconds.
\<close>

section \<open>Sessions\<close>

record active_scope =
  ax_tenant :: uuid
  ax_enterprise_group :: "uuid option"
  ax_legal_entity :: "uuid option"
  ax_company :: "uuid option"
  ax_business_unit :: "uuid option"
  ax_division :: "uuid option"
  ax_department :: "uuid option"
  ax_team :: "uuid option"
  ax_region :: "uuid option"
  ax_operating_site :: "uuid option"
  ax_warehouse :: "uuid option"
  ax_cost_center :: "uuid option"
  ax_profit_center :: "uuid option"
  ax_project :: "uuid option"
  ax_delegation :: "uuid option"

definition tenant_scope :: "uuid \<Rightarrow> active_scope" where
  "tenant_scope ten = \<lparr>ax_tenant = ten, ax_enterprise_group = None, ax_legal_entity = None, ax_company = None, ax_business_unit = None,
     ax_division = None, ax_department = None, ax_team = None, ax_region = None, ax_operating_site = None, ax_warehouse = None,
     ax_cost_center = None, ax_profit_center = None, ax_project = None, ax_delegation = None\<rparr>"

record web_session =
  sw_generation :: int
  sw_principal :: principal_identity
  sw_name :: "string option"
  sw_email :: "string option"
  sw_provider :: string
  sw_issued :: instant
  sw_seen :: instant
  sw_idle :: instant
  sw_absolute :: instant
  sw_csrf :: string
  sw_scope :: active_scope
  sw_revoked :: "instant option"

definition live_at :: "web_session \<Rightarrow> instant \<Rightarrow> bool" where
  "live_at s t \<longleftrightarrow> sw_revoked s = None \<and> t < sw_idle s \<and> t < sw_absolute s"

definition invalid_web_session :: exn where
  "invalid_web_session = BusinessOSError ''invalid_session'' ''Session is not valid'' 401"

section \<open>The store\<close>

text \<open>\<open>WebSessionStore\<close>: the operations by the digest of a handle; a created or rotated session gets a new key.\<close>

record 's session_port =
  sp_create :: "string \<Rightarrow> web_session \<Rightarrow> 's \<Rightarrow> 's"
  sp_get :: "instant \<Rightarrow> string \<Rightarrow> 's \<Rightarrow> 's \<times> web_session option"
  sp_touch :: "instant \<Rightarrow> string \<Rightarrow> int \<Rightarrow> instant \<Rightarrow> 's \<Rightarrow> 's \<times> web_session option"
  sp_rotate :: "string \<Rightarrow> string \<Rightarrow> web_session \<Rightarrow> 's \<Rightarrow> 's \<times> (exn + unit)"
  sp_revoke :: "string \<Rightarrow> string \<Rightarrow> 's \<Rightarrow> 's"
  sp_revoke_principal :: "uuid \<Rightarrow> uuid \<Rightarrow> string \<Rightarrow> 's \<Rightarrow> 's"

definition touched_session :: "instant \<Rightarrow> instant \<Rightarrow> web_session \<Rightarrow> web_session" where
  "touched_session now idle s = s\<lparr>sw_seen := now, sw_idle := min idle (sw_absolute s)\<rparr>"

text \<open>The laws a store promises; \<open>stored\<close> is what it keeps under a key.\<close>

locale session_store =
  fixes port :: "'s session_port" and stored :: "'s \<Rightarrow> string \<Rightarrow> web_session option"
  assumes created: "stored (sp_create port k s st) j = Some t \<Longrightarrow> j = k \<and> t = s \<or> j \<noteq> k \<and> stored st j = Some t"
    and got_kept: "sp_get port now k st = (st', r) \<Longrightarrow> stored st' j = Some t \<Longrightarrow> stored st j = Some t"
    and got: "sp_get port now k st = (st', Some s) \<Longrightarrow> stored st k = Some s \<and> live_at s now"
    and touched_kept: "sp_touch port now k g idle st = (st', r) \<Longrightarrow> stored st' j = Some t \<Longrightarrow>
      stored st j = Some t \<or> j = k \<and> (\<exists>s. stored st k = Some s \<and> t = touched_session now idle s)"
    and touched: "sp_touch port now k g idle st = (st', Some t) \<Longrightarrow>
      \<exists>s. stored st k = Some s \<and> live_at s now \<and> sw_generation s = g \<and> t = touched_session now idle s"
    and rotated_kept: "sp_rotate port k j s st = (st', q) \<Longrightarrow> stored st' i = Some t \<Longrightarrow> stored st i = Some t \<or> i = j \<and> t = s \<and> q = Inr ()"
    and rotation: "sp_rotate port k j s st = (st', Inr ()) \<Longrightarrow> stored st k \<noteq> None \<and> (k \<noteq> j \<longrightarrow> stored st' k = None)"
    and revocation: "stored (sp_revoke port k reason st) j = Some t \<Longrightarrow> j \<noteq> k \<and> stored st j = Some t"
    and principal_revoked: "stored (sp_revoke_principal port ten who reason st) j = Some t \<Longrightarrow>
      stored st j = Some t \<and> \<not> (pi_tenant (sw_principal t) = ten \<and> pi_principal (sw_principal t) = who)"

text \<open>\<open>InMemoryWebSessionStore\<close>.\<close>

type_synonym memory_sessions = "(string, web_session) dict"

definition memory_get :: "instant \<Rightarrow> string \<Rightarrow> memory_sessions \<Rightarrow> memory_sessions \<times> web_session option" where
  "memory_get now k d =
     (case dict_get d k of
        None \<Rightarrow> (d, None)
      | Some s \<Rightarrow> if \<not> live_at s now then (dict_pop k d, None) else (d, Some s))"

definition memory_touch :: "instant \<Rightarrow> string \<Rightarrow> int \<Rightarrow> instant \<Rightarrow> memory_sessions \<Rightarrow> memory_sessions \<times> web_session option" where
  "memory_touch now k g idle d =
     (case dict_get d k of
        None \<Rightarrow> (dict_pop k d, None)
      | Some s \<Rightarrow>
          if sw_generation s \<noteq> g \<or> \<not> live_at s now then (dict_pop k d, None)
          else (dict_set k (touched_session now idle s) d, Some (touched_session now idle s)))"

definition memory_rotate :: "string \<Rightarrow> string \<Rightarrow> web_session \<Rightarrow> memory_sessions \<Rightarrow> memory_sessions \<times> (exn + unit)" where
  "memory_rotate k j s d =
     (if dict_get d k = None then (dict_pop k d, Inl invalid_web_session) else (dict_set j s (dict_pop k d), Inr ()))"

text \<open>The comprehension that keeps the sessions of other principals.\<close>

definition of_principal :: "uuid \<Rightarrow> uuid \<Rightarrow> web_session option \<Rightarrow> bool" where
  "of_principal ten who r \<longleftrightarrow>
     (case r of None \<Rightarrow> False | Some s \<Rightarrow> pi_tenant (sw_principal s) = ten \<and> pi_principal (sw_principal s) = who)"

definition memory_revoke_principal :: "uuid \<Rightarrow> uuid \<Rightarrow> string \<Rightarrow> memory_sessions \<Rightarrow> memory_sessions" where
  "memory_revoke_principal ten who reason d =
     filter (\<lambda>e. \<not> of_principal ten who (dict_get d (fst e))) d"

definition memory_port :: "memory_sessions session_port" where
  "memory_port = \<lparr>sp_create = dict_set, sp_get = memory_get, sp_touch = memory_touch, sp_rotate = memory_rotate,
     sp_revoke = (\<lambda>k reason. dict_pop k), sp_revoke_principal = memory_revoke_principal\<rparr>"


interpretation memory: session_store memory_port dict_get
proof
  fix st st' :: memory_sessions and now idle :: instant and k j i :: string and g :: int and ten who :: uuid
    and s t :: web_session and r :: "web_session option" and q :: "exn + unit" and reason :: string
  show "dict_get (sp_create memory_port k s st) j = Some t \<Longrightarrow> j = k \<and> t = s \<or> j \<noteq> k \<and> dict_get st j = Some t"
    by (auto simp: memory_port_def dict_simps split: if_splits)
  show "sp_get memory_port now k st = (st', r) \<Longrightarrow> dict_get st' j = Some t \<Longrightarrow> dict_get st j = Some t"
    by (auto simp: memory_port_def memory_get_def dict_simps split: option.split_asm if_splits)
  show "sp_get memory_port now k st = (st', Some s) \<Longrightarrow> dict_get st k = Some s \<and> live_at s now"
    by (auto simp: memory_port_def memory_get_def split: option.split_asm if_splits)
  show "sp_touch memory_port now k g idle st = (st', r) \<Longrightarrow> dict_get st' j = Some t \<Longrightarrow>
      dict_get st j = Some t \<or> j = k \<and> (\<exists>s. dict_get st k = Some s \<and> t = touched_session now idle s)"
    by (auto simp: memory_port_def memory_touch_def dict_simps split: option.split_asm if_splits)
  show "sp_touch memory_port now k g idle st = (st', Some t) \<Longrightarrow>
      \<exists>s. dict_get st k = Some s \<and> live_at s now \<and> sw_generation s = g \<and> t = touched_session now idle s"
    by (auto simp: memory_port_def memory_touch_def split: option.split_asm if_splits)
  show "sp_rotate memory_port k j s st = (st', q) \<Longrightarrow> dict_get st' i = Some t \<Longrightarrow> dict_get st i = Some t \<or> i = j \<and> t = s \<and> q = Inr ()"
    by (auto simp: memory_port_def memory_rotate_def dict_simps split: if_splits)
  show "sp_rotate memory_port k j s st = (st', Inr ()) \<Longrightarrow> dict_get st k \<noteq> None \<and> (k \<noteq> j \<longrightarrow> dict_get st' k = None)"
    by (auto simp: memory_port_def memory_rotate_def dict_simps split: if_splits)
  show "dict_get (sp_revoke memory_port k reason st) j = Some t \<Longrightarrow> j \<noteq> k \<and> dict_get st j = Some t"
    by (auto simp: memory_port_def dict_simps split: if_splits)
  show "dict_get (sp_revoke_principal memory_port ten who reason st) j = Some t \<Longrightarrow>
      dict_get st j = Some t \<and> \<not> (pi_tenant (sw_principal t) = ten \<and> pi_principal (sw_principal t) = who)"
    using dict_filter_keys [of "\<lambda>k. \<not> of_principal ten who (dict_get st k)" st j]
    by (cases "dict_get st j") (auto simp: memory_port_def memory_revoke_principal_def of_principal_def split: if_splits)
qed

section \<open>The service\<close>

text \<open>
  \<open>get_session\<close>: the store and the deadline of the touch read the clock at \<open>t1\<close>, \<open>t3\<close> and \<open>t2\<close>; a principal that
  cannot be revalidated loses the session.
\<close>

definition get_web_session ::
  "'s session_port \<Rightarrow> (principal_identity \<Rightarrow> exn + unit) \<Rightarrow> web_configuration \<Rightarrow> instant \<Rightarrow> instant \<Rightarrow> instant \<Rightarrow> bool \<Rightarrow> string \<Rightarrow> 's \<Rightarrow>
   's \<times> (exn + web_session option)" where
  "get_web_session port validate conf t1 t2 t3 touch k st =
     (case sp_get port t1 k st of
        (st, None) \<Rightarrow> (st, Inr None)
      | (st, Some s) \<Rightarrow>
          (case validate (sw_principal s) of
             Inl e \<Rightarrow> (sp_revoke port k ''principal-revalidation-failed'' st, Inl e)
           | Inr _ \<Rightarrow>
               if touch
               then (let (st, r) = sp_touch port t3 k (sw_generation s) (t2 + wc_idle conf) st in (st, Inr r))
               else (st, Inr (Some s))))"

definition new_web_session :: "web_configuration \<Rightarrow> instant \<Rightarrow> string \<Rightarrow> string \<Rightarrow> principal_identity \<Rightarrow> web_session" where
  "new_web_session conf now csrf provider p =
     \<lparr>sw_generation = 1, sw_principal = p, sw_name = None, sw_email = None, sw_provider = provider, sw_issued = now, sw_seen = now,
      sw_idle = now + wc_idle conf, sw_absolute = now + wc_absolute conf, sw_csrf = csrf, sw_scope = tenant_scope (pi_tenant p),
      sw_revoked = None\<rparr>"

text \<open>\<open>rotate_scope\<close>: reading the session and replacing it are two steps of the store.\<close>

definition rotation_read ::
  "'s session_port \<Rightarrow> (principal_identity \<Rightarrow> exn + unit) \<Rightarrow> web_configuration \<Rightarrow> instant \<Rightarrow> instant \<Rightarrow> string \<Rightarrow> string \<Rightarrow> active_scope \<Rightarrow> 's \<Rightarrow>
   's \<times> (exn + web_session)" where
  "rotation_read port validate conf t1 now csrf k scope st =
     (case get_web_session port validate conf t1 t1 t1 False k st of
        (st, Inl e) \<Rightarrow> (st, Inl e)
      | (st, Inr None) \<Rightarrow> (st, Inl invalid_web_session)
      | (st, Inr (Some s)) \<Rightarrow>
          if ax_tenant scope \<noteq> pi_tenant (sw_principal s) then (st, Inl invalid_web_session)
          else (st, Inr (s\<lparr>sw_generation := sw_generation s + 1, sw_csrf := csrf, sw_scope := scope, sw_seen := now\<rparr>)))"

definition rotate_scope ::
  "'s session_port \<Rightarrow> (principal_identity \<Rightarrow> exn + unit) \<Rightarrow> web_configuration \<Rightarrow> instant \<Rightarrow> instant \<Rightarrow> string \<Rightarrow> string \<Rightarrow> string \<Rightarrow> active_scope \<Rightarrow> 's \<Rightarrow>
   's \<times> (exn + web_session)" where
  "rotate_scope port validate conf t1 now csrf k j scope st =
     (case rotation_read port validate conf t1 now csrf k scope st of
        (st, Inl e) \<Rightarrow> (st, Inl e)
      | (st, Inr s) \<Rightarrow> (case sp_rotate port k j s st of (st, Inl e) \<Rightarrow> (st, Inl e) | (st, Inr _) \<Rightarrow> (st, Inr s)))"

text \<open>\<open>complete_oidc_login\<close>: a consumed transaction is cleaned up whatever the exchange gives.\<close>

definition complete_oidc_login ::
  "(string \<Rightarrow> string) \<Rightarrow> 's session_port \<Rightarrow> web_configuration \<Rightarrow> code_adapter \<Rightarrow> instant \<Rightarrow> instant \<Rightarrow> instant \<Rightarrow> string \<Rightarrow> string \<Rightarrow>
   string \<Rightarrow> string \<Rightarrow> string \<Rightarrow> transaction_store \<times> 's \<Rightarrow> (transaction_store \<times> 's) \<times> (exn + web_session \<times> string)" where
  "complete_oidc_login digest port conf a t1 t2 now csrf k state code binding w =
     (case consume_transaction digest t1 t2 state binding (fst w) of
        (ts, Inl e) \<Rightarrow> ((ts, snd w), Inl e)
      | (ts, Inr t) \<Rightarrow>
          (case adapter_exchange_code a (tx_provider t) code (wc_callback conf) (tx_verifier t) (tx_nonce t) (tx_issuer t) of
             Inl e \<Rightarrow> ((clear_browser_binding digest binding ts, snd w), Inl e)
           | Inr p \<Rightarrow>
               let s = new_web_session conf now csrf (tx_provider t) p in
               ((clear_browser_binding digest binding ts, sp_create port k s (snd w)), Inr (s, tx_return t))))"

definition session_context :: "web_configuration \<Rightarrow> web_session \<Rightarrow> request_identity \<Rightarrow> request_context" where
  "session_context conf s i =
     (let x = sw_scope s in
      \<lparr>correlation_id = ri_correlation_id i, trace_id = ri_trace_id i,
       tenant = Some \<lparr>installation_id = wc_installation conf, tenant_id = pi_tenant (sw_principal s),
         principal_id = pi_principal (sw_principal s), active_company_id = ax_company x,
         authentication_strength = pi_strength (sw_principal s), enterprise_group_id = ax_enterprise_group x,
         legal_entity_id = ax_legal_entity x, business_unit_id = ax_business_unit x, division_id = ax_division x,
         department_id = ax_department x, team_id = ax_team x, region_id = ax_region x, operating_site_id = ax_operating_site x,
         warehouse_id = ax_warehouse x, cost_center_id = ax_cost_center x, profit_center_id = ax_profit_center x,
         project_id = ax_project x, delegation_id = ax_delegation x, credential_expires_at = None\<rparr>\<rparr>)"

section \<open>Cookies\<close>

fun cookie_in :: "string \<Rightarrow> string list \<Rightarrow> string option" where
  "cookie_in name [] = None"
| "cookie_in name (part # parts) =
     (case partition_at CHR ''='' (strip is_space part) of
        (key, Some v) \<Rightarrow> if key = name then Some v else cookie_in name parts
      | (_, None) \<Rightarrow> cookie_in name parts)"

definition cookie_value :: "(string, string) dict \<Rightarrow> string \<Rightarrow> string option" where
  "cookie_value headers name =
     cookie_in name (split_on CHR '';'' (case dict_get headers ''cookie'' of None \<Rightarrow> '''' | Some c \<Rightarrow> c))"

definition session_cookie_name :: string where
  "session_cookie_name = ''__Host-businessos_session''"

definition cookie_age :: "instant \<Rightarrow> instant \<Rightarrow> int" where
  "cookie_age now expires = max 0 ((expires - now) div 1000000)"

definition session_cookie :: "instant \<Rightarrow> string \<Rightarrow> instant \<Rightarrow> string" where
  "session_cookie now handle expires =
     session_cookie_name @ ''='' @ handle @ ''; Path=/; Max-Age='' @ show_int (cookie_age now expires) @ ''; Secure; HttpOnly; SameSite=Lax''"

section \<open>Browser requests\<close>

definition csrf_error :: exn where
  "csrf_error = BusinessOSError ''invalid_csrf'' ''CSRF validation failed'' 403"

definition safe_kind :: "string \<Rightarrow> bool" where
  "safe_kind m \<longleftrightarrow> upper m \<in> {''GET'', ''HEAD'', ''OPTIONS''}"

definition csrf_check :: "request_identity \<Rightarrow> web_session \<Rightarrow> exn + unit" where
  "csrf_check i s =
     (if safe_kind (ri_method i) then Inr ()
      else let header = dict_get (ri_headers i) in
        if (case header ''x-csrf-token'' of None \<Rightarrow> '''' | Some v \<Rightarrow> v) \<noteq> sw_csrf s then Inl csrf_error
        else if header ''sec-fetch-site'' \<notin> {None, Some ''same-origin'', Some ''none''} then Inl csrf_error
        else (case header ''origin'' of
            None \<Rightarrow> Inr ()
          | Some origin \<Rightarrow>
              (case header ''host'' of
                 None \<Rightarrow> Inl csrf_error
               | Some host \<Rightarrow> raise_if (origin \<noteq> ''https://'' @ host) csrf_error)))"

text \<open>\<open>BrowserSessionContextResolver.resolve\<close>; \<open>bearer\<close> is the OIDC resolver on the request.\<close>

definition browser_resolve ::
  "(string \<Rightarrow> string) \<Rightarrow> 's session_port \<Rightarrow> (principal_identity \<Rightarrow> exn + unit) \<Rightarrow> web_configuration \<Rightarrow> instant \<Rightarrow> instant \<Rightarrow> instant \<Rightarrow>
   (request_identity \<Rightarrow> principal_binding option \<Rightarrow> principal_binding option \<times> (exn + request_context)) \<Rightarrow> request_identity \<Rightarrow> 's \<Rightarrow>
   's \<times> principal_binding option \<times> (exn + request_context)" where
  "browser_resolve digest port validate conf t1 t2 t3 bearer i st =
     (case cookie_value (ri_headers i) session_cookie_name of
        None \<Rightarrow> (st, bearer i None)
      | Some handle \<Rightarrow>
          if dict_get (ri_headers i) ''authorization'' \<noteq> None \<and> dict_get (ri_headers i) ''authorization'' \<noteq> Some ''''
          then (st, None, Inl (BusinessOSError ''ambiguous_credentials'' ''Multiple credentials are not accepted'' 400))
          else (case get_web_session port validate conf t1 t2 t3 True (digest handle) st of
              (st, Inl e) \<Rightarrow> (st, None, Inl e)
            | (st, Inr None) \<Rightarrow> (st, None, Inr \<lparr>correlation_id = ri_correlation_id i, trace_id = ri_trace_id i, tenant = None\<rparr>)
            | (st, Inr (Some s)) \<Rightarrow>
                (case csrf_check i s of
                   Inl e \<Rightarrow> (st, None, Inl e)
                 | Inr _ \<Rightarrow>
                     let ctx = session_context conf s i in
                     (case bind_authenticated_principal ctx (sw_principal s) None of
                        (b, Inl e) \<Rightarrow> (st, b, Inl e)
                      | (b, Inr _) \<Rightarrow> (st, b, Inr ctx)))))"

section \<open>Histories of the service\<close>

text \<open>
  What happened: the store, the principals that logged in with their provider and instant, the keys handed out
  with the session at that time, the keys that were logged out, rotated away or of a revoked principal, and the
  scope rotations between their two steps.
\<close>

record 's web_world =
  ww_store :: 's
  ww_logins :: "(principal_identity \<times> string \<times> instant) list"
  ww_issued :: "(string \<times> web_session) list"
  ww_ended :: "string list"
  ww_rotating :: "(string \<times> web_session) list"

definition unused_key :: "string \<Rightarrow> 's web_world \<Rightarrow> bool" where
  "unused_key k w \<longleftrightarrow> k \<notin> fst ` set (ww_issued w) \<and> k \<notin> set (ww_ended w)"

definition keys_of :: "uuid \<Rightarrow> uuid \<Rightarrow> 's web_world \<Rightarrow> string list" where
  "keys_of ten who w =
     map fst (filter (\<lambda>(k, s). pi_tenant (sw_principal s) = ten \<and> pi_principal (sw_principal s) = who) (ww_issued w))"

inductive web_history :: "'s session_port \<Rightarrow> web_configuration \<Rightarrow> 's \<Rightarrow> 's web_world \<Rightarrow> bool" for port conf initial where
  empty: "web_history port conf initial \<lparr>ww_store = initial, ww_logins = [], ww_issued = [], ww_ended = [], ww_rotating = []\<rparr>"
| login: "web_history port conf initial w \<Longrightarrow> unused_key k w \<Longrightarrow> s = new_web_session conf now csrf provider p \<Longrightarrow>
     web_history port conf initial (w\<lparr>ww_store := sp_create port k s (ww_store w), ww_logins := ww_logins w @ [(p, provider, now)],
       ww_issued := ww_issued w @ [(k, s)]\<rparr>)"
| seen: "web_history port conf initial w \<Longrightarrow> get_web_session port validate conf t1 t2 t3 touch k (ww_store w) = (st, r) \<Longrightarrow>
     web_history port conf initial (w\<lparr>ww_store := st\<rparr>)"
| read: "web_history port conf initial w \<Longrightarrow> rotation_read port validate conf t1 now csrf k scope (ww_store w) = (st, Inr s) \<Longrightarrow>
     web_history port conf initial (w\<lparr>ww_store := st, ww_rotating := ww_rotating w @ [(k, s)]\<rparr>)"
| unread: "web_history port conf initial w \<Longrightarrow> rotation_read port validate conf t1 now csrf k scope (ww_store w) = (st, Inl e) \<Longrightarrow>
     web_history port conf initial (w\<lparr>ww_store := st\<rparr>)"
| rotated: "web_history port conf initial w \<Longrightarrow> (k, s) \<in> set (ww_rotating w) \<Longrightarrow> unused_key j w \<Longrightarrow>
     sp_rotate port k j s (ww_store w) = (st, Inr ()) \<Longrightarrow>
     web_history port conf initial (w\<lparr>ww_store := st, ww_issued := ww_issued w @ [(j, s)], ww_ended := ww_ended w @ [k]\<rparr>)"
| unrotated: "web_history port conf initial w \<Longrightarrow> (k, s) \<in> set (ww_rotating w) \<Longrightarrow>
     sp_rotate port k j s (ww_store w) = (st, Inl e) \<Longrightarrow> web_history port conf initial (w\<lparr>ww_store := st\<rparr>)"
| logout: "web_history port conf initial w \<Longrightarrow>
     web_history port conf initial (w\<lparr>ww_store := sp_revoke port k ''logout'' (ww_store w), ww_ended := ww_ended w @ [k]\<rparr>)"
| revoked: "web_history port conf initial w \<Longrightarrow>
     web_history port conf initial (w\<lparr>ww_store := sp_revoke_principal port ten who reason (ww_store w),
       ww_ended := ww_ended w @ keys_of ten who w\<rparr>)"

definition session_ok :: "web_configuration \<Rightarrow> web_session \<Rightarrow> bool" where
  "session_ok conf s \<longleftrightarrow> sw_absolute s = sw_issued s + wc_absolute conf \<and> ax_tenant (sw_scope s) = pi_tenant (sw_principal s)"

text \<open>What a touch leaves unchanged.\<close>

definition same_session :: "web_session \<Rightarrow> web_session \<Rightarrow> bool" where
  "same_session a b \<longleftrightarrow> sw_generation a = sw_generation b \<and> sw_principal a = sw_principal b \<and> sw_provider a = sw_provider b
     \<and> sw_issued a = sw_issued b \<and> sw_absolute a = sw_absolute b \<and> sw_csrf a = sw_csrf b \<and> sw_scope a = sw_scope b"

definition login_of :: "web_session \<Rightarrow> principal_identity \<times> string \<times> instant" where
  "login_of s = (sw_principal s, sw_provider s, sw_issued s)"

definition world_ok :: "web_configuration \<Rightarrow> ('s \<Rightarrow> string \<Rightarrow> web_session option) \<Rightarrow> 's web_world \<Rightarrow> bool" where
  "world_ok conf stored w \<longleftrightarrow>
     (\<forall>k s. stored (ww_store w) k = Some s \<longrightarrow> k \<notin> set (ww_ended w) \<and> (\<exists>s0. (k, s0) \<in> set (ww_issued w) \<and> same_session s s0))
     \<and> (\<forall>(k, s) \<in> set (ww_issued w). session_ok conf s \<and> login_of s \<in> set (ww_logins w))
     \<and> (\<forall>(k, s) \<in> set (ww_rotating w). session_ok conf s \<and> login_of s \<in> set (ww_logins w))
     \<and> distinct (map fst (ww_issued w))"

lemma same_session_refl [simp]: "same_session s s"
  by (simp add: same_session_def)

lemma same_session_trans: "same_session a b \<Longrightarrow> same_session b c \<Longrightarrow> same_session a c"
  by (simp add: same_session_def)

lemma same_session_touched [simp]: "same_session (touched_session now idle s) s"
  by (simp add: same_session_def touched_session_def)

lemma session_ok_same: "same_session a b \<Longrightarrow> session_ok conf b \<Longrightarrow> session_ok conf a"
  by (simp add: same_session_def session_ok_def)

lemma login_of_same: "same_session a b \<Longrightarrow> login_of a = login_of b"
  by (simp add: same_session_def login_of_def)

text \<open>A step that keeps or touches the sessions of the store keeps the invariant.\<close>

lemma world_ok_kept:
  assumes ok: "world_ok conf stored w"
    and kept: "\<And>k t. stored st k = Some t \<Longrightarrow> \<exists>s. stored (ww_store w) k = Some s \<and> same_session t s \<and> k \<notin> set more_ended"
  shows "world_ok conf stored (w\<lparr>ww_store := st, ww_ended := ww_ended w @ more_ended\<rparr>)"
proof -
  have "k \<notin> set (ww_ended w @ more_ended) \<and> (\<exists>s0. (k, s0) \<in> set (ww_issued w) \<and> same_session t s0)" if "stored st k = Some t" for k t
  proof -
    from kept [OF that] obtain s where s: "stored (ww_store w) k = Some s" "same_session t s" "k \<notin> set more_ended" by blast
    with ok show ?thesis unfolding world_ok_def using same_session_trans by fastforce
  qed
  with ok show ?thesis by (simp add: world_ok_def)
qed

context session_store begin

lemma get_web_session_kept:
  assumes "get_web_session port validate conf t1 t2 t3 touch k st = (st', r)" and "stored st' j = Some t"
  shows "\<exists>s. stored st j = Some s \<and> same_session t s"
proof -
  obtain st1 q where g: "sp_get port t1 k st = (st1, q)" by (cases "sp_get port t1 k st")
  note kept = got_kept [OF g]
  show ?thesis
  proof (cases q)
    case None
    with assms g kept show ?thesis by (auto simp: get_web_session_def)
  next
    case (Some s)
    show ?thesis
    proof (cases "validate (sw_principal s)")
      case (Inl e)
      with assms g Some show ?thesis by (auto simp: get_web_session_def dest!: revocation kept)
    next
      case (Inr u)
      show ?thesis
      proof (cases touch)
        case True
        obtain st2 q2 where t2: "sp_touch port t3 k (sw_generation s) (t2 + wc_idle conf) st1 = (st2, q2)"
          by (cases "sp_touch port t3 k (sw_generation s) (t2 + wc_idle conf) st1")
        with assms g Some Inr True have "st' = st2" by (simp add: get_web_session_def)
        with touched_kept [OF t2] assms(2) kept show ?thesis by force
      next
        case False
        with assms g Some Inr kept show ?thesis by (auto simp: get_web_session_def)
      qed
    qed
  qed
qed

lemma get_web_session_Some:
  assumes "get_web_session port validate conf t1 t2 t3 touch k st = (st', Inr (Some t))"
  shows "\<exists>s. stored st k = Some s \<and> live_at s t1 \<and> validate (sw_principal s) = Inr () \<and> same_session t s
    \<and> (touch \<longrightarrow> live_at s t3 \<and> t = touched_session t3 (t2 + wc_idle conf) s) \<and> (\<not> touch \<longrightarrow> t = s)"
proof -
  from assms obtain st1 s where g: "sp_get port t1 k st = (st1, Some s)" and v: "validate (sw_principal s) = Inr ()"
    by (auto simp: get_web_session_def split: prod.splits option.splits sum.splits)
  note s = got [OF g]
  show ?thesis
  proof (cases touch)
    case True
    with assms g v have "sp_touch port t3 k (sw_generation s) (t2 + wc_idle conf) st1 = (st', Some t)"
      by (auto simp: get_web_session_def split: prod.splits)
    from touched [OF this] obtain s1 where t: "stored st1 k = Some s1" "live_at s1 t3" "t = touched_session t3 (t2 + wc_idle conf) s1" by blast
    from got_kept [OF g t(1)] s have "s1 = s" by simp
    with t s v True show ?thesis by auto
  next
    case False
    with assms g v s show ?thesis by (auto simp: get_web_session_def)
  qed
qed

lemma rotation_read_store:
  assumes "rotation_read port validate conf t1 now csrf k scope st = (st', r)"
  shows "stored st' j = Some t \<Longrightarrow> \<exists>s. stored st j = Some s \<and> same_session t s"
    and "r = Inr u \<Longrightarrow> \<exists>s. stored st k = Some s \<and> ax_tenant scope = pi_tenant (sw_principal s)
      \<and> u = s\<lparr>sw_generation := sw_generation s + 1, sw_csrf := csrf, sw_scope := scope, sw_seen := now\<rparr>"
proof -
  obtain st1 q where g: "get_web_session port validate conf t1 t1 t1 False k st = (st1, q)"
    by (cases "get_web_session port validate conf t1 t1 t1 False k st")
  then have "st' = st1" using assms by (auto simp: rotation_read_def split: sum.splits option.splits if_splits)
  with get_web_session_kept [OF g] show "stored st' j = Some t \<Longrightarrow> \<exists>s. stored st j = Some s \<and> same_session t s" by blast
  assume "r = Inr u"
  with assms g obtain s where s: "q = Inr (Some s)" "ax_tenant scope = pi_tenant (sw_principal s)"
    "u = s\<lparr>sw_generation := sw_generation s + 1, sw_csrf := csrf, sw_scope := scope, sw_seen := now\<rparr>"
    by (auto simp: rotation_read_def split: sum.splits option.splits if_splits)
  with get_web_session_Some [OF g [unfolded s(1)]] show "\<exists>s. stored st k = Some s \<and> ax_tenant scope = pi_tenant (sw_principal s)
      \<and> u = s\<lparr>sw_generation := sw_generation s + 1, sw_csrf := csrf, sw_scope := scope, sw_seen := now\<rparr>" by auto
qed

lemma web_history_ok:
  assumes "web_history port conf initial w" and none: "\<And>k. stored initial k = None"
  shows "world_ok conf stored w"
  using assms(1)
proof (induction rule: web_history.induct)
  case empty
  then show ?case by (simp add: world_ok_def none)
next
  case (login w k s now csrf provider p)
  have s: "session_ok conf s" "login_of s = (p, provider, now)"
    by (simp_all add: login.hyps(3) session_ok_def login_of_def new_web_session_def tenant_scope_def)
  have "j \<notin> set (ww_ended w) \<and> (\<exists>s0. (j, s0) \<in> set (ww_issued w @ [(k, s)]) \<and> same_session t s0)"
    if "stored (sp_create port k s (ww_store w)) j = Some t" for j t
    using created [OF that] login.hyps(2) login.IH by (auto simp: unused_key_def world_ok_def)
  with login.IH login.hyps(2) s show ?case by (auto simp: world_ok_def unused_key_def)
next
  case (seen w validate t1 t2 t3 touch k st r)
  show ?case using world_ok_kept [OF seen.IH, of st "[]"] get_web_session_kept [OF seen.hyps(2)] by simp
next
  case (read w validate t1 now csrf k scope st s)
  note r = rotation_read_store [OF read.hyps(2)]
  have kept: "world_ok conf stored (w\<lparr>ww_store := st\<rparr>)" using world_ok_kept [OF read.IH, of st "[]"] r(1) by simp
  from r(2) [OF refl] obtain s0 where s0: "stored (ww_store w) k = Some s0" "ax_tenant scope = pi_tenant (sw_principal s0)"
    "s = s0\<lparr>sw_generation := sw_generation s0 + 1, sw_csrf := csrf, sw_scope := scope, sw_seen := now\<rparr>" by blast
  from read.IH s0(1) obtain s1 where s1: "(k, s1) \<in> set (ww_issued w)" "same_session s0 s1" unfolding world_ok_def by blast
  with read.IH have "session_ok conf s1" "login_of s1 \<in> set (ww_logins w)" by (auto simp: world_ok_def)
  with s1(2) s0 have "session_ok conf s" "login_of s \<in> set (ww_logins w)"
    by (auto simp: session_ok_def login_of_def same_session_def)
  with kept show ?case by (auto simp: world_ok_def)
next
  case (unread w validate t1 now csrf k scope st e)
  show ?case using world_ok_kept [OF unread.IH, of st "[]"] rotation_read_store(1) [OF unread.hyps(2)] by simp
next
  case (rotated w k s j st)
  have s: "session_ok conf s" "login_of s \<in> set (ww_logins w)" using rotated.IH rotated.hyps(2) by (auto simp: world_ok_def)
  from rotation [OF rotated.hyps(4)] obtain s0 where s0: "stored (ww_store w) k = Some s0" by blast
  with rotated.IH rotated.hyps(3) have "k \<noteq> j" unfolding world_ok_def unused_key_def by force
  with rotation [OF rotated.hyps(4)] have gone: "stored st k = None" by simp
  have "i \<notin> set (ww_ended w @ [k]) \<and> (\<exists>s0. (i, s0) \<in> set (ww_issued w @ [(j, s)]) \<and> same_session t s0)" if "stored st i = Some t" for i t
  proof -
    from rotated_kept [OF rotated.hyps(4) that] consider "stored (ww_store w) i = Some t" | "i = j" "t = s" by blast
    then show ?thesis
    proof cases
      case 1
      with rotated.IH gone that show ?thesis unfolding world_ok_def by fastforce
    next
      case 2
      with rotated.hyps(3) \<open>k \<noteq> j\<close> show ?thesis by (auto simp: unused_key_def)
    qed
  qed
  moreover have "\<forall>(i, t) \<in> set (ww_issued w @ [(j, s)]). session_ok conf t \<and> login_of t \<in> set (ww_logins w)"
    "\<forall>(i, t) \<in> set (ww_rotating w). session_ok conf t \<and> login_of t \<in> set (ww_logins w)"
    "distinct (map fst (ww_issued w @ [(j, s)]))"
    using rotated.IH rotated.hyps(3) s by (auto simp: world_ok_def unused_key_def)
  ultimately show ?case unfolding world_ok_def by simp
next
  case (unrotated w k s j st e)
  show ?case using world_ok_kept [OF unrotated.IH, of st "[]"] rotated_kept [OF unrotated.hyps(3)] by fastforce
next
  case (logout w k)
  show ?case by (rule world_ok_kept [OF logout.IH]) (auto dest: revocation)
next
  case (revoked w ten who reason)
  show ?case
  proof (rule world_ok_kept [OF revoked.IH])
    fix k t assume t: "stored (sp_revoke_principal port ten who reason (ww_store w)) k = Some t"
    from principal_revoked [OF t] have p: "stored (ww_store w) k = Some t"
      "\<not> (pi_tenant (sw_principal t) = ten \<and> pi_principal (sw_principal t) = who)" by simp_all
    from revoked.IH p(1) obtain s0 where s0: "(k, s0) \<in> set (ww_issued w)" "same_session t s0" unfolding world_ok_def by blast
    have "k \<notin> set (keys_of ten who w)"
    proof
      assume "k \<in> set (keys_of ten who w)"
      then obtain s1 where s1: "(k, s1) \<in> set (ww_issued w)" "pi_tenant (sw_principal s1) = ten" "pi_principal (sw_principal s1) = who"
        by (auto simp: keys_of_def)
      have "distinct (map fst (ww_issued w))" using revoked.IH by (simp add: world_ok_def)
      with s0(1) s1(1) have "s1 = s0" by (metis eq_key_imp_eq_value)
      with s0(2) s1 p(2) show False by (simp add: same_session_def)
    qed
    with p(1) show "\<exists>s. stored (ww_store w) k = Some s \<and> same_session t s \<and> k \<notin> set (keys_of ten who w)" by auto
  qed
qed

end

section \<open>What a browser request proves\<close>

text \<open>The session's token, and no sign of another origin.\<close>

definition csrf_passed :: "request_identity \<Rightarrow> web_session \<Rightarrow> bool" where
  "csrf_passed i s \<longleftrightarrow>
     (case dict_get (ri_headers i) ''x-csrf-token'' of None \<Rightarrow> '''' | Some v \<Rightarrow> v) = sw_csrf s
     \<and> dict_get (ri_headers i) ''sec-fetch-site'' \<in> {None, Some ''same-origin'', Some ''none''}
     \<and> (\<forall>x. dict_get (ri_headers i) ''origin'' = Some x \<longrightarrow> (\<exists>host. dict_get (ri_headers i) ''host'' = Some host \<and> x = ''https://'' @ host))"

lemma csrf_check_Inr: "csrf_check i s = Inr () \<Longrightarrow> safe_kind (ri_method i) \<or> csrf_passed i s"
  unfolding csrf_check_def csrf_passed_def Let_def by (simp split: if_splits option.split_asm)

lemma browser_resolve_Some:
  assumes r: "browser_resolve digest port validate conf t1 t2 t3 bearer i st = (st', b, Inr ctx)"
    and c: "cookie_value (ri_headers i) session_cookie_name = Some handle" and t: "tenant ctx = Some ten"
  shows "\<exists>s. get_web_session port validate conf t1 t2 t3 True (digest handle) st = (st', Inr (Some s))
    \<and> csrf_check i s = Inr () \<and> ctx = session_context conf s i \<and> b = Some (ctx, sw_principal s)
    \<and> (dict_get (ri_headers i) ''authorization'' = None \<or> dict_get (ri_headers i) ''authorization'' = Some '''')"
proof -
  have auth: "dict_get (ri_headers i) ''authorization'' = None \<or> dict_get (ri_headers i) ''authorization'' = Some ''''"
    using r c by (auto simp: browser_resolve_def split: if_splits)
  obtain st1 q where g: "get_web_session port validate conf t1 t2 t3 True (digest handle) st = (st1, q)"
    by (cases "get_web_session port validate conf t1 t2 t3 True (digest handle) st")
  have step: "(case q of
      Inl e \<Rightarrow> (st1, None, Inl e)
    | Inr None \<Rightarrow> (st1, None, Inr \<lparr>correlation_id = ri_correlation_id i, trace_id = ri_trace_id i, tenant = None\<rparr>)
    | Inr (Some s) \<Rightarrow> (case csrf_check i s of
          Inl e \<Rightarrow> (st1, None, Inl e)
        | Inr _ \<Rightarrow> (case bind_authenticated_principal (session_context conf s i) (sw_principal s) None of
            (b, Inl e) \<Rightarrow> (st1, b, Inl e) | (b, Inr _) \<Rightarrow> (st1, b, Inr (session_context conf s i))))) = (st', b, Inr ctx)"
    using r c g auth unfolding browser_resolve_def Let_def by (cases q) (auto split: option.splits)
  then obtain s where s: "q = Inr (Some s)" "csrf_check i s = Inr ()" using t by (auto split: sum.splits option.splits)
  with step have "(case bind_authenticated_principal (session_context conf s i) (sw_principal s) None of
      (b, Inl e) \<Rightarrow> (st1, b, Inl e) | (b, Inr _) \<Rightarrow> (st1, b, Inr (session_context conf s i))) = (st', b, Inr ctx)" by simp
  then have "st1 = st'" "ctx = session_context conf s i" "b = Some (ctx, sw_principal s)"
    by (auto simp: bind_authenticated_principal_def split: if_splits)
  with g s auth show ?thesis by blast
qed


section \<open>A sample session\<close>

definition web_conf :: web_configuration where
  "web_conf = \<lparr>wc_installation = 1, wc_callback = ''https://x/cb'', wc_absolute = 1000, wc_idle = 100, wc_transaction = 50, wc_attempts = 10, wc_window = 60\<rparr>"

definition ada :: principal_identity where
  "ada = \<lparr>pi_tenant = 7, pi_principal = 5, pi_type = ''user'', pi_strength = ''mfa'', pi_scopes = []\<rparr>"

definition logged_in :: "memory_sessions web_world" where
  "logged_in = \<lparr>ww_store = dict_set ''h'' (new_web_session web_conf 10 ''x'' ''default'' ada) [],
     ww_logins = [(ada, ''default'', 10)], ww_issued = [(''h'', new_web_session web_conf 10 ''x'' ''default'' ada)], ww_ended = [], ww_rotating = []\<rparr>"

lemma logged_in_history: "web_history memory_port web_conf [] logged_in"
  using web_history.login [OF web_history.empty, where k = "''h''" and port = memory_port and conf = web_conf and initial = "[]"
      and now = 10 and csrf = "''x''" and provider = "''default''" and p = ada, OF _ refl]
  by (simp add: unused_key_def logged_in_def memory_port_def)

definition browser_post :: request_identity where
  "browser_post = \<lparr>ri_method = ''POST'', ri_path = ''/'', ri_headers = [(''cookie'', ''a=b; __Host-businessos_session=h''),
     (''x-csrf-token'', ''x''), (''origin'', ''https://x''), (''host'', ''x'')], ri_correlation_id = ''c'', ri_trace_id = ''''\<rparr>"

definition sample_browser :: "memory_sessions \<times> principal_binding option \<times> (exn + request_context)" where
  "sample_browser = browser_resolve id memory_port (\<lambda>_. Inr ()) web_conf 50 50 51 (\<lambda>_ b. (b, Inl csrf_error)) browser_post (ww_store logged_in)"

lemma sample_browser_tenant:
  "(case snd (snd sample_browser) of Inl e \<Rightarrow> False | Inr ctx \<Rightarrow> map_option tenant_id (tenant ctx) = Some 7)"
  by code_simp

lemma sample_cookie: "cookie_value (ri_headers browser_post) session_cookie_name = Some ''h''"
  by code_simp


section \<open>The HTTP routes\<close>

text \<open>\<open>DatabasePrincipalSessionValidator.validate\<close>.\<close>

definition validate_principal :: "tenant_store \<Rightarrow> identity_store \<Rightarrow> instant \<Rightarrow> principal_identity \<Rightarrow> exn + unit" where
  "validate_principal ts st now p =
     (let invalid = BusinessOSError ''invalid_membership'' ''Active tenant membership is required'' 403 in
      bind_res (require_active_tenant ts (pi_tenant p)) (\<lambda>_.
      bind_res (raise_if (pi_type p \<notin> {''user'', ''service_account'', ''device''}) invalid) (\<lambda>_.
      bind_res (lock_current (map membership.truncate (id_memberships st)) (pi_tenant p) (pi_type p, pi_principal p) now) (\<lambda>_.
        raise_if (\<not> principal_exists st (pi_tenant p) (pi_type p) (pi_principal p) True) invalid))))"

lemma validate_principal_Inr:
  "validate_principal ts st now p = Inr () \<Longrightarrow> require_active_tenant ts (pi_tenant p) = Inr () \<and>
   principal_exists st (pi_tenant p) (pi_type p) (pi_principal p) True \<and>
   (\<exists>m \<in> set (id_memberships st). mb_tenant m = pi_tenant p \<and> mb_principal m = pi_principal p \<and> mb_type m = pi_type p
      \<and> membership_effective (membership.truncate m) now)"
  by (fastforce simp: validate_principal_def bind_res_Inr Let_def membership.truncate_def dest!: lock_current_Inr)

text \<open>The status, the location and the cookies of a reply; the JSON bodies are left out.\<close>

record web_reply =
  rp_status :: int
  rp_location :: "string option"
  rp_cookies :: "string list"

definition transaction_cookie_name :: string where
  "transaction_cookie_name = ''__Host-businessos_auth_txn''"

definition transaction_cookie :: "instant \<Rightarrow> string \<Rightarrow> instant \<Rightarrow> string" where
  "transaction_cookie now binding expires =
     transaction_cookie_name @ ''='' @ binding @ ''; Path=/; Max-Age='' @ show_int (cookie_age now expires) @ ''; Secure; HttpOnly; SameSite=Lax''"

definition expire_cookie :: "string \<Rightarrow> string" where
  "expire_cookie name = name @ ''=; Path=/; Max-Age=0; Secure; HttpOnly; SameSite=Lax''"

text \<open>\<open>_http_session\<close>: an empty cookie is no cookie.\<close>

definition http_session ::
  "(string \<Rightarrow> string) \<Rightarrow> 's session_port \<Rightarrow> (principal_identity \<Rightarrow> exn + unit) \<Rightarrow> web_configuration \<Rightarrow> instant \<Rightarrow> instant \<Rightarrow> instant \<Rightarrow>
   (string, string) dict \<Rightarrow> 's \<Rightarrow> 's \<times> (exn + web_reply)" where
  "http_session digest port validate conf t1 t2 t3 headers st =
     (let none = \<lparr>rp_status = 401, rp_location = None, rp_cookies = [expire_cookie session_cookie_name]\<rparr> in
      case cookie_value headers session_cookie_name of
        None \<Rightarrow> (st, Inr none)
      | Some handle \<Rightarrow>
          if handle = '''' then (st, Inr none)
          else (case get_web_session port validate conf t1 t2 t3 True (digest handle) st of
              (st, Inl e) \<Rightarrow> (st, Inl e)
            | (st, Inr None) \<Rightarrow> (st, Inr none)
            | (st, Inr (Some s)) \<Rightarrow> (st, Inr \<lparr>rp_status = 200, rp_location = None, rp_cookies = []\<rparr>)))"

text \<open>\<open>_http_login_start\<close>: the origin of the request, then the provider and the return path of its JSON body.\<close>

definition login_origin_ok :: "string \<Rightarrow> (string, string) dict \<Rightarrow> bool" where
  "login_origin_ok scheme headers \<longleftrightarrow>
     dict_get headers ''sec-fetch-site'' \<in> {None, Some ''same-origin'', Some ''none''}
     \<and> (case dict_get headers ''origin'' of
          None \<Rightarrow> True
        | Some origin \<Rightarrow> (case dict_get headers ''host'' of None \<Rightarrow> False | Some host \<Rightarrow> origin = scheme @ ''://'' @ host))"

definition login_fields :: "json \<Rightarrow> exn + string \<times> string option" where
  "login_fields payload =
     (case payload of
        JObj es \<Rightarrow>
          (case (map_of es ''provider'', map_of es ''return_to'') of
             (None, None) \<Rightarrow> Inr (''default'', None)
           | (None, Some JNull) \<Rightarrow> Inr (''default'', None)
           | (None, Some (JStr r)) \<Rightarrow> Inr (''default'', Some r)
           | (Some (JStr p), None) \<Rightarrow> Inr (p, None)
           | (Some (JStr p), Some JNull) \<Rightarrow> Inr (p, None)
           | (Some (JStr p), Some (JStr r)) \<Rightarrow> Inr (p, Some r)
           | _ \<Rightarrow> Inl (BusinessOSError ''invalid_request'' ''Request is not valid'' 400))
      | _ \<Rightarrow> Inl (BusinessOSError ''invalid_request'' ''Request must be an object'' 400))"

definition http_login_start ::
  "(string \<Rightarrow> string) \<Rightarrow> (string \<Rightarrow> string) \<Rightarrow> (string \<Rightarrow> bool) \<Rightarrow> web_configuration \<Rightarrow> code_adapter \<Rightarrow> instant \<Rightarrow> instant \<Rightarrow> instant \<Rightarrow>
   string \<times> string \<times> string \<times> string \<Rightarrow> string \<Rightarrow> (string, string) dict \<Rightarrow> exn + json \<Rightarrow> string \<Rightarrow> transaction_store \<Rightarrow>
   transaction_store \<times> (exn + web_reply)" where
  "http_login_start digest challenge netloc_ok conf a limited now replied opaque scheme headers body client st =
     (if \<not> login_origin_ok scheme headers then (st, Inl (BusinessOSError ''invalid_origin'' ''Login request is not valid'' 403))
      else (case bind_res body login_fields of
          Inl e \<Rightarrow> (st, Inl e)
        | Inr (provider, return_to) \<Rightarrow>
            (case start_login digest challenge netloc_ok conf a limited now opaque provider return_to (''login:'' @ client) st of
               (st, Inl e) \<Rightarrow> (st, Inl e)
             | (st, Inr l) \<Rightarrow>
                 (st, Inr \<lparr>rp_status = 200, rp_location = None, rp_cookies = [transaction_cookie replied (ls_binding l) (ls_expires l)]\<rparr>))))"

text \<open>
  \<open>_http_callback\<close>: framework errors become a reply, others propagate; a session the browser had before is
  logged out once the new one exists. The fresh handle is \<open>handle\<close>.
\<close>

definition http_callback ::
  "(string \<Rightarrow> string) \<Rightarrow> 's session_port \<Rightarrow> web_configuration \<Rightarrow> code_adapter \<Rightarrow> instant \<Rightarrow> instant \<Rightarrow> instant \<Rightarrow> instant \<Rightarrow> string \<Rightarrow> string \<Rightarrow>
   string \<Rightarrow> string \<Rightarrow> (string, string) dict \<Rightarrow> transaction_store \<times> 's \<Rightarrow> (transaction_store \<times> 's) \<times> (exn + web_reply)" where
  "http_callback digest port conf a t1 t2 now replied csrf handle state code headers w =
     (let expired = expire_cookie transaction_cookie_name;
          binding = (case cookie_value headers transaction_cookie_name of None \<Rightarrow> '''' | Some b \<Rightarrow> b) in
      if state = '''' \<or> code = '''' \<or> binding = ''''
      then (w, Inr \<lparr>rp_status = 401, rp_location = None, rp_cookies = [expired]\<rparr>)
      else (case complete_oidc_login digest port conf a t1 t2 now csrf (digest handle) state code binding w of
          (w, Inl e) \<Rightarrow>
            (case exn_status e of
               None \<Rightarrow> (w, Inl e)
             | Some status \<Rightarrow> (w, Inr \<lparr>rp_status = status, rp_location = None, rp_cookies = [expired]\<rparr>))
        | ((ts, st), Inr (s, return_to)) \<Rightarrow>
            let st = (case cookie_value headers session_cookie_name of
                None \<Rightarrow> st
              | Some previous \<Rightarrow> if previous = '''' then st else sp_revoke port (digest previous) ''logout'' st)
            in ((ts, st), Inr \<lparr>rp_status = 303, rp_location = Some return_to,
                  rp_cookies = [expired, session_cookie replied handle (sw_absolute s)]\<rparr>)))"

definition http_logout ::
  "(string \<Rightarrow> string) \<Rightarrow> 's session_port \<Rightarrow> (principal_identity \<Rightarrow> exn + unit) \<Rightarrow> web_configuration \<Rightarrow> instant \<Rightarrow> (string, string) dict \<Rightarrow> 's \<Rightarrow>
   's \<times> (exn + web_reply)" where
  "http_logout digest port validate conf t headers st =
     (let gone = \<lparr>rp_status = 204, rp_location = None, rp_cookies = [expire_cookie session_cookie_name]\<rparr> in
      case cookie_value headers session_cookie_name of
        None \<Rightarrow> (st, Inr gone)
      | Some handle \<Rightarrow>
          if handle = '''' then (st, Inr gone)
          else (case get_web_session port validate conf t t t False (digest handle) st of
              (st, Inl e) \<Rightarrow> (st, Inl e)
            | (st, Inr r) \<Rightarrow>
                if (case r of None \<Rightarrow> False
                    | Some s \<Rightarrow> (case dict_get headers ''x-csrf-token'' of None \<Rightarrow> '''' | Some v \<Rightarrow> v) \<noteq> sw_csrf s)
                then (st, Inl csrf_error)
                else (sp_revoke port (digest handle) ''logout'' st, Inr gone)))"

text \<open>A callback that succeeds has consumed its transaction, left none pending for the browser, and a path of the application as location.\<close>

lemma complete_oidc_login_Inr:
  assumes "complete_oidc_login digest port conf a t1 t2 now csrf k state code binding w = (w', Inr (s, path))"
  shows "\<exists>t ts p. consume_transaction digest t1 t2 state binding (fst w) = (ts, Inr t) \<and> path = tx_return t
    \<and> adapter_exchange_code a (tx_provider t) code (wc_callback conf) (tx_verifier t) (tx_nonce t) (tx_issuer t) = Inr p
    \<and> s = new_web_session conf now csrf (tx_provider t) p \<and> fst w' = clear_browser_binding digest binding ts"
  using assms by (auto simp: complete_oidc_login_def Let_def split: prod.splits sum.splits)

lemma clear_browser_binding_gone:
  "dict_get (tt_bindings (clear_browser_binding digest binding st)) (digest binding) = None"
proof -
  have "tt_bindings (foldl (\<lambda>s k. consume_state k s) st ks) = tt_bindings st" for ks st
    by (induction ks arbitrary: st) (auto simp: consume_state_def split: option.split)
  then show ?thesis by (auto simp: clear_browser_binding_def clear_binding_def dict_simps split: option.split)
qed

end
