(* ===== verification/Json_Canonical.thy ===== *)
theory Json_Canonical
  imports Json
begin

text \<open>
  The forms of \<open>json.dumps\<close> the foundations use besides the kernel's one: any escape of characters and any
  separators, always with \<open>sort_keys=True\<close>. The compact form determines the document up to the order of
  its entries, whatever the escape, as long as the escape is a code; both escapes of \<open>json.dumps\<close> are.
\<close>

section \<open>The printer\<close>

definition quoted :: "(char \<Rightarrow> string) \<Rightarrow> string \<Rightarrow> string" where
  "quoted esc s = [CHR 0x22] @ concat (map esc s) @ [CHR 0x22]"

fun json_text :: "(char \<Rightarrow> string) \<Rightarrow> string \<Rightarrow> string \<Rightarrow> json \<Rightarrow> string"
and item_texts :: "(char \<Rightarrow> string) \<Rightarrow> string \<Rightarrow> string \<Rightarrow> json list \<Rightarrow> string list"
and entry_texts :: "(char \<Rightarrow> string) \<Rightarrow> string \<Rightarrow> string \<Rightarrow> (string \<times> json) list \<Rightarrow> (string \<times> string) list" where
  "json_text esc comma colon JNull = ''null''"
| "json_text esc comma colon (JBool b) = (if b then ''true'' else ''false'')"
| "json_text esc comma colon (JInt i) = show_int i"
| "json_text esc comma colon (JFloat r) = r"
| "json_text esc comma colon (JStr s) = quoted esc s"
| "json_text esc comma colon (JArr xs) = ''['' @ join_with comma (item_texts esc comma colon xs) @ '']''"
| "json_text esc comma colon (JObj es) =
     ''{'' @ join_with comma (map (\<lambda>(k, v). quoted esc k @ colon @ v) (sort_key fst (entry_texts esc comma colon es))) @ ''}''"
| "item_texts esc comma colon [] = []"
| "item_texts esc comma colon (x # xs) = json_text esc comma colon x # item_texts esc comma colon xs"
| "entry_texts esc comma colon [] = []"
| "entry_texts esc comma colon ((k, v) # es) = (k, json_text esc comma colon v) # entry_texts esc comma colon es"

text \<open>\<open>ensure_ascii=True\<close>.\<close>

definition escape_ascii :: "char \<Rightarrow> string" where
  "escape_ascii c =
     (let n = (of_char c :: nat)
      in if 127 \<le> n then [CHR 0x5C, CHR ''u'', CHR ''0'', CHR ''0'', hex_digit (n div 16), hex_digit (n mod 16)]
         else escape_char c)"

lemma item_texts_map: "item_texts esc comma colon xs = map (json_text esc comma colon) xs"
  by (induction xs) auto

lemma entry_texts_map: "entry_texts esc comma colon es = map (apsnd (json_text esc comma colon)) es"
  by (induction es) auto

lemma dump_json_text: "dump_json j = json_text escape_char '','' '':'' j"
  "dump_items xs = item_texts escape_char '','' '':'' xs"
  "dump_entries es = entry_texts escape_char '','' '':'' es"
  by (induction j and xs and es rule: dump_json_dump_items_dump_entries.induct) (simp_all add: dump_string_def quoted_def)

section \<open>Normal form\<close>

text \<open>A document with the entries of its objects sorted.\<close>

fun normal :: "json \<Rightarrow> json"
and normal_items :: "json list \<Rightarrow> json list"
and normal_entries :: "(string \<times> json) list \<Rightarrow> (string \<times> json) list" where
  "normal (JArr xs) = JArr (normal_items xs)"
| "normal (JObj es) = JObj (sort_key fst (normal_entries es))"
| "normal j = j"
| "normal_items [] = []"
| "normal_items (x # xs) = normal x # normal_items xs"
| "normal_entries [] = []"
| "normal_entries ((k, v) # es) = (k, normal v) # normal_entries es"

text \<open>The printer without the sort.\<close>

fun plain :: "(char \<Rightarrow> string) \<Rightarrow> json \<Rightarrow> string"
and plain_items :: "(char \<Rightarrow> string) \<Rightarrow> json list \<Rightarrow> string list"
and plain_entries :: "(char \<Rightarrow> string) \<Rightarrow> (string \<times> json) list \<Rightarrow> string list" where
  "plain esc JNull = ''null''"
| "plain esc (JBool b) = (if b then ''true'' else ''false'')"
| "plain esc (JInt i) = show_int i"
| "plain esc (JFloat r) = r"
| "plain esc (JStr s) = quoted esc s"
| "plain esc (JArr xs) = ''['' @ join_with '','' (plain_items esc xs) @ '']''"
| "plain esc (JObj es) = ''{'' @ join_with '','' (plain_entries esc es) @ ''}''"
| "plain_items esc [] = []"
| "plain_items esc (x # xs) = plain esc x # plain_items esc xs"
| "plain_entries esc [] = []"
| "plain_entries esc ((k, v) # es) = (quoted esc k @ '':'' @ plain esc v) # plain_entries esc es"

lemma plain_items_map: "plain_items esc xs = map (plain esc) xs"
  by (induction xs) auto

lemma plain_entries_map: "plain_entries esc es = map (\<lambda>(k, v). quoted esc k @ '':'' @ v) (map (apsnd (plain esc)) es)"
  by (induction es) auto

lemma insort_key_apsnd: "insort_key fst (apsnd f e) (map (apsnd f) es) = map (apsnd f) (insort_key fst e es)"
  by (induction es) auto

lemma sort_key_apsnd: "sort_key fst (map (apsnd f) es) = map (apsnd f) (sort_key fst es)"
  by (induction es) (simp_all add: insort_key_apsnd)

lemma plain_normal: "json_text esc '','' '':'' j = plain esc (normal j)"
  "item_texts esc '','' '':'' xs = plain_items esc (normal_items xs)"
  "entry_texts esc '','' '':'' es = map (apsnd (plain esc)) (normal_entries es)"
proof (induction j and xs and es rule: normal_normal_items_normal_entries.induct)
  case (2 es)
  then show ?case by (simp add: plain_entries_map sort_key_apsnd)
qed simp_all

section \<open>Numbers in text\<close>

definition numeric :: "char \<Rightarrow> bool" where
  "numeric c \<longleftrightarrow> is_digit c \<or> c \<in> set ''+-.e''"

text \<open>The \<open>repr\<close> of a finite float.\<close>

definition float_repr :: "string \<Rightarrow> bool" where
  "float_repr r \<longleftrightarrow> list_all numeric r \<and> list_ex (\<lambda>c. c \<in> set ''.e'') r"

text \<open>What may follow a value inside a document.\<close>

definition stops :: "string \<Rightarrow> bool" where
  "stops r \<longleftrightarrow> (case r of [] \<Rightarrow> True | c # _ \<Rightarrow> c \<in> set '',]}'')"

lemma digit_of: "n < 10 \<Longrightarrow> is_digit (char_of (48 + n :: nat))"
  by (simp add: is_digit_def less_eq_char_def)

lemma digits_of_show_nat: "list_all is_digit (show_nat n)"
  by (induction n rule: show_nat.induct) (subst show_nat.simps, simp add: digit_of)

lemma show_nat_nonempty: "show_nat n \<noteq> []"
  by (subst show_nat.simps) simp

lemma show_nat_inj: "show_nat m = show_nat n \<Longrightarrow> m = n"
proof (induction m arbitrary: n rule: less_induct)
  case (less m)
  note eq = less.prems [unfolded show_nat.simps [of m] show_nat.simps [of n]]
  have one: "char_of (48 + a) = (char_of (48 + b) :: char) \<Longrightarrow> a < 10 \<Longrightarrow> b < 10 \<Longrightarrow> a = b" for a b :: nat
    by (simp add: char_of_eq_iff take_bit_eq_mod)
  show ?case
  proof (cases "m < 10")
    case True
    with eq one [of m n] show_nat_nonempty [of "n div 10"] show ?thesis by (auto split: if_splits)
  next
    case False
    with eq show_nat_nonempty [of "m div 10"] have n: "\<not> n < 10" by (auto split: if_splits)
    with eq False have "show_nat (m div 10) = show_nat (n div 10)" "m mod 10 = n mod 10" using one [of "m mod 10" "n mod 10"] by auto
    with less.IH [of "m div 10" "n div 10"] False have "m div 10 = n div 10" by simp
    with \<open>m mod 10 = n mod 10\<close> show ?thesis by (metis div_mult_mod_eq)
  qed
qed

lemma digit_minus: "is_digit c \<Longrightarrow> c \<noteq> CHR ''-''" by (auto simp: is_digit_def less_eq_char_def)

lemma show_int_inj: "show_int i = show_int j \<Longrightarrow> i = j"
proof -
  have no: "show_nat m \<noteq> CHR ''-'' # s" for m s using digits_of_show_nat [of m] digit_minus [of "CHR ''-''"] by auto
  show "show_int i = show_int j \<Longrightarrow> i = j"
    using no no [symmetric] by (auto simp: show_int_def split: if_splits dest!: show_nat_inj)
qed

lemma show_int_numeric: "list_all numeric (show_int i)" "show_int i \<noteq> []" "\<not> list_ex (\<lambda>c. c \<in> set ''.e'') (show_int i)"
proof -
  have d: "list_all numeric s \<and> \<not> list_ex (\<lambda>c. c \<in> set ''.e'') s" if "list_all is_digit s" for s
    using that by (induction s) (auto simp: numeric_def is_digit_def)
  show "list_all numeric (show_int i)" "show_int i \<noteq> []" "\<not> list_ex (\<lambda>c. c \<in> set ''.e'') (show_int i)"
    using d [OF digits_of_show_nat [of "nat i"]] d [OF digits_of_show_nat [of "nat (- i)"]] show_nat_nonempty
    by (auto simp: show_int_def numeric_def)
qed


lemma numeric_prefix:
  assumes "list_all numeric s" and "list_all numeric t" and "stops r" and "stops r'" and "s @ r = t @ r'"
  shows "s = t \<and> r = r'"
proof -
  have no: "\<not> (numeric c \<and> c \<in> set '',]}'')" for c by (auto simp: numeric_def is_digit_def less_eq_char_def)
  from assms show ?thesis
  proof (induction s arbitrary: t)
    case Nil
    then show ?case using no by (cases t) (auto simp: stops_def)
  next
    case (Cons c s)
    then show ?case using no by (cases t) (auto simp: stops_def)
  qed
qed

section \<open>The text determines the document\<close>

fun well_formed :: "json \<Rightarrow> bool"
and items_well_formed :: "json list \<Rightarrow> bool"
and entries_well_formed :: "(string \<times> json) list \<Rightarrow> bool" where
  "well_formed (JFloat r) = float_repr r"
| "well_formed (JArr xs) = items_well_formed xs"
| "well_formed (JObj es) = entries_well_formed es"
| "well_formed JNull = True"
| "well_formed (JBool b) = True"
| "well_formed (JInt i) = True"
| "well_formed (JStr s) = True"
| "items_well_formed [] = True"
| "items_well_formed (x # xs) = (well_formed x \<and> items_well_formed xs)"
| "entries_well_formed [] = True"
| "entries_well_formed ((k, v) # es) = (well_formed v \<and> entries_well_formed es)"

lemma entries_well_formed_iff: "entries_well_formed es \<longleftrightarrow> (\<forall>(k, v) \<in> set es. well_formed v)"
  by (induction es) auto

lemma well_formed_normal:
  "well_formed (normal j) = well_formed j" "items_well_formed (normal_items xs) = items_well_formed xs"
  "entries_well_formed (normal_entries es) = entries_well_formed es"
  by (induction j and xs and es rule: normal_normal_items_normal_entries.induct) (simp_all add: entries_well_formed_iff)

locale escape_code =
  fixes esc :: "char \<Rightarrow> string"
  assumes code: "esc c @ x = esc d @ y \<Longrightarrow> c = d"
    and nonempty: "esc c \<noteq> []"
    and no_quote: "hd (esc c) \<noteq> CHR 0x22"
begin

lemma escaped_quote: "concat (map esc s) @ CHR 0x22 # r = concat (map esc t) @ CHR 0x22 # r' \<Longrightarrow> s = t \<and> r = r'"
proof (induction s arbitrary: t)
  case Nil
  then show ?case
  proof (cases t)
    case (Cons d u)
    with Nil no_quote [of d] nonempty [of d] show ?thesis by (cases "esc d") auto
  qed simp
next
  case (Cons c s)
  show ?case
  proof (cases t)
    case Nil
    with Cons.prems no_quote [of c] nonempty [of c] show ?thesis by (cases "esc c") auto
  next
    case (Cons d u)
    with Cons.prems have e: "esc c @ concat (map esc s) @ CHR 0x22 # r = esc d @ concat (map esc u) @ CHR 0x22 # r'" by simp
    with code have "c = d" by blast
    with e Cons.IH [of u] Cons show ?thesis by simp
  qed
qed

lemma quoted_inj: "quoted esc s @ r = quoted esc t @ r' \<Longrightarrow> s = t \<and> r = r'"
  using escaped_quote [of s r t r'] by (simp add: quoted_def)

text \<open>The first character tells the kind of a value.\<close>

definition kind_of :: "json \<Rightarrow> char \<Rightarrow> bool" where
  "kind_of j c \<longleftrightarrow>
     (case j of
        JNull \<Rightarrow> c = CHR ''n'' | JBool b \<Rightarrow> c = (if b then CHR ''t'' else CHR ''f'') | JStr s \<Rightarrow> c = CHR 0x22
      | JArr xs \<Rightarrow> c = CHR ''['' | JObj es \<Rightarrow> c = CHR ''{'' | _ \<Rightarrow> numeric c)"

lemma plain_first:
  assumes "well_formed j" shows "\<exists>c s. plain esc j = c # s \<and> kind_of j c"
proof (cases j)
  case (JInt i)
  with show_int_numeric [of i] show ?thesis by (auto simp: kind_of_def neq_Nil_conv)
next
  case (JFloat r)
  with assms show ?thesis by (cases r) (auto simp: kind_of_def float_repr_def)
qed (auto simp: kind_of_def quoted_def)

lemma same_kinds:
  "kind_of JNull c \<Longrightarrow> kind_of j c \<Longrightarrow> j = JNull"
  "kind_of (JBool b) c \<Longrightarrow> kind_of j c \<Longrightarrow> j = JBool b"
  "kind_of (JStr s) c \<Longrightarrow> kind_of j c \<Longrightarrow> \<exists>t. j = JStr t"
  "kind_of (JArr xs) c \<Longrightarrow> kind_of j c \<Longrightarrow> \<exists>ys. j = JArr ys"
  "kind_of (JObj es) c \<Longrightarrow> kind_of j c \<Longrightarrow> \<exists>fs. j = JObj fs"
  "numeric c \<Longrightarrow> kind_of j c \<Longrightarrow> (\<exists>i. j = JInt i) \<or> (\<exists>f. j = JFloat f)"
  by (cases j; auto simp: kind_of_def numeric_def is_digit_def less_eq_char_def split: if_splits)+

lemma float_not_int: "float_repr (show_int i) \<Longrightarrow> False"
  using show_int_numeric [of i] by (simp add: float_repr_def)

definition continued :: "char \<Rightarrow> string list \<Rightarrow> string \<Rightarrow> string" where
  "continued c ws r = (if ws = [] then c # r else CHR '','' # join_with '','' ws @ c # r)"

lemma join_continued: "join_with '','' (w # ws) @ c # r = w @ continued c ws r"
  by (cases ws) (simp_all add: continued_def)

lemma continued_stops: "c \<in> set '']}'' \<Longrightarrow> stops (continued c ws r)"
  by (auto simp: continued_def stops_def)

lemma continued_inj:
  assumes "continued c ws r = continued c ws' r'" and "c \<noteq> CHR '',''"
  shows "ws = [] \<and> ws' = [] \<and> r = r' \<or> ws \<noteq> [] \<and> ws' \<noteq> [] \<and> join_with '','' ws @ c # r = join_with '','' ws' @ c # r'"
  using assms by (auto simp: continued_def split: if_splits)

lemma kind_not_close: "\<not> kind_of j (CHR '']'')"
  by (cases j) (auto simp: kind_of_def numeric_def is_digit_def less_eq_char_def)

lemma plain_not_close: "well_formed j \<Longrightarrow> plain esc j @ s = CHR '']'' # r \<Longrightarrow> False"
  using plain_first [of j] kind_not_close [of j] by auto

text \<open>The text of a number.\<close>

lemma number_inj:
  assumes "well_formed j" "well_formed j'" "stops r" "stops r'" "plain esc j @ r = plain esc j' @ r'"
    and "(\<exists>i. j = JInt i) \<or> (\<exists>f. j = JFloat f)" and "(\<exists>i. j' = JInt i) \<or> (\<exists>f. j' = JFloat f)"
  shows "j = j' \<and> r = r'"
proof -
  have "list_all numeric (plain esc k)" if "well_formed k" "(\<exists>i. k = JInt i) \<or> (\<exists>f. k = JFloat f)" for k
    using that show_int_numeric(1) by (auto simp: float_repr_def)
  with assms have e: "plain esc j = plain esc j'" "r = r'" using numeric_prefix by blast+
  with assms show ?thesis using float_not_int by (auto dest: show_int_inj)
qed

lemma same_kind:
  assumes "well_formed j" "well_formed j'" "plain esc j @ r = plain esc j' @ r'"
  shows "\<exists>c. kind_of j c \<and> kind_of j' c"
  using assms plain_first [of j] plain_first [of j'] by auto

lemma plain_inj:
  "well_formed j \<Longrightarrow> well_formed j' \<Longrightarrow> stops r \<Longrightarrow> stops r' \<Longrightarrow> plain esc j @ r = plain esc j' @ r' \<Longrightarrow> j = j' \<and> r = r'"
  "items_well_formed xs \<Longrightarrow> items_well_formed ys \<Longrightarrow>
     join_with '','' (plain_items esc xs) @ CHR '']'' # r = join_with '','' (plain_items esc ys) @ CHR '']'' # r' \<Longrightarrow> xs = ys \<and> r = r'"
  "entries_well_formed es \<Longrightarrow> entries_well_formed fs \<Longrightarrow>
     join_with '','' (plain_entries esc es) @ CHR ''}'' # r = join_with '','' (plain_entries esc fs) @ CHR ''}'' # r' \<Longrightarrow> es = fs \<and> r = r'"
proof (induction j and xs and es arbitrary: j' r r' and ys r r' and fs r r'
    rule: well_formed_items_well_formed_entries_well_formed.induct)
  case (1 f)
  from same_kind [OF 1(1,2,5)] obtain c where "numeric c" "kind_of j' c" by (auto simp: kind_of_def)
  from same_kinds(6) [OF this] have "(\<exists>i. j' = JInt i) \<or> (\<exists>f. j' = JFloat f)" .
  with number_inj [OF 1] show ?case by simp
next
  case (2 xs)
  from same_kind [OF 2(2,3,6)] same_kinds(4) [of xs _ j'] obtain ys where j: "j' = JArr ys" by blast
  from 2(1) [of ys r r'] 2(2,3,6) show ?case unfolding j by simp
next
  case (3 es)
  from same_kind [OF 3(2,3,6)] same_kinds(5) [of es _ j'] obtain fs where j: "j' = JObj fs" by blast
  from 3(1) [of fs r r'] 3(2,3,6) show ?case unfolding j by simp
next
  case 4
  from same_kind [OF 4(1,2,5)] same_kinds(1) [of _ j'] have "j' = JNull" by blast
  with 4 show ?case by simp
next
  case (5 b)
  from same_kind [OF 5(1,2,5)] same_kinds(2) [of b _ j'] have "j' = JBool b" by blast
  with 5 show ?case by simp
next
  case (6 i)
  from same_kind [OF 6(1,2,5)] obtain c where "numeric c" "kind_of j' c" by (auto simp: kind_of_def)
  from same_kinds(6) [OF this] have "(\<exists>i. j' = JInt i) \<or> (\<exists>f. j' = JFloat f)" .
  with number_inj [OF 6] show ?case by simp
next
  case (7 s)
  from same_kind [OF 7(1,2,5)] same_kinds(3) [of s _ j'] obtain t where j: "j' = JStr t" by blast
  with 7 quoted_inj [of s r t r'] show ?case by simp
next
  case 8
  then show ?case using plain_not_close by (cases ys) (auto simp: join_continued dest: sym)
next
  case (9 x xs)
  show ?case
  proof (cases ys)
    case Nil
    from 9(3,5) have False unfolding Nil by (simp add: join_continued) (use plain_not_close [of x] in blast)
    then show ?thesis ..
  next
    case (Cons y zs)
    from 9(5) have e: "plain esc x @ continued CHR '']'' (plain_items esc xs) r = plain esc y @ continued CHR '']'' (plain_items esc zs) r'"
      unfolding Cons by (simp add: join_continued)
    have w: "well_formed x" "well_formed y" "items_well_formed xs" "items_well_formed zs" using 9(3,4) unfolding Cons by simp_all
    have s: "stops (continued CHR '']'' ws q)" for ws q by (rule continued_stops) simp
    from 9(1) [OF w(1,2) s s e] have xy: "x = y"
      and c: "continued CHR '']'' (plain_items esc xs) r = continued CHR '']'' (plain_items esc zs) r'" by blast+
    from continued_inj [OF c] have "xs = zs \<and> r = r'"
      using 9(2) [OF w(3,4), of r r'] by (fastforce simp: plain_items_map)
    with Cons xy show ?thesis by simp
  qed
next
  case 10
  then show ?case by (cases fs) (auto simp: join_continued quoted_def)
next
  case (11 k v es)
  show ?case
  proof (cases fs)
    case Nil
    from 11(5) show ?thesis unfolding Nil by (simp add: join_continued quoted_def)
  next
    case (Cons f gs)
    obtain l w where f: "f = (l, w)" by (cases f)
    from 11(5) have e: "quoted esc k @ '':'' @ plain esc v @ continued CHR ''}'' (plain_entries esc es) r
        = quoted esc l @ '':'' @ plain esc w @ continued CHR ''}'' (plain_entries esc gs) r'"
      unfolding Cons f by (simp add: join_continued)
    from quoted_inj [OF e] have k: "k = l"
      and e': "plain esc v @ continued CHR ''}'' (plain_entries esc es) r = plain esc w @ continued CHR ''}'' (plain_entries esc gs) r'" by auto
    have wf: "well_formed v" "well_formed w" "entries_well_formed es" "entries_well_formed gs" using 11(3,4) unfolding Cons f by simp_all
    have s: "stops (continued CHR ''}'' ws q)" for ws q by (rule continued_stops) simp
    from 11(1) [OF wf(1,2) s s e'] have v: "v = w"
      and c: "continued CHR ''}'' (plain_entries esc es) r = continued CHR ''}'' (plain_entries esc gs) r'" by blast+
    from continued_inj [OF c] have "es = gs \<and> r = r'"
      using 11(2) [OF wf(3,4), of r r'] by (fastforce simp: plain_entries_map)
    with Cons f k v show ?thesis by simp
  qed
qed

lemma json_text_inj:
  assumes "well_formed j" and "well_formed j'" and "json_text esc '','' '':'' j = json_text esc '','' '':'' j'"
  shows "normal j = normal j'"
  using plain_inj(1) [of "normal j" "normal j'" "[]" "[]"] assms by (simp add: plain_normal well_formed_normal stops_def)

end

section \<open>The two escapes\<close>

lemma hex_digit_inj: "a < 16 \<Longrightarrow> b < 16 \<Longrightarrow> hex_digit a = hex_digit b \<Longrightarrow> a = b"
  by (simp add: hex_digit_def char_of_eq_iff take_bit_eq_mod split: if_splits)

lemma hex_pair_inj:
  assumes "m < 256" "n < 256" "hex_digit (m div 16) = hex_digit (n div 16)" "hex_digit (m mod 16) = hex_digit (n mod 16)"
  shows "m = n"
proof -
  from assms have "m div 16 < 16" "n div 16 < 16" by linarith+
  with assms hex_digit_inj have "m div 16 = n div 16" "m mod 16 = n mod 16" by auto
  then show ?thesis by (metis div_mult_mod_eq)
qed

lemma of_char_less: "(of_char c :: nat) < 256"
  using nat_of_char_less_256 .

text \<open>Reading back one character.\<close>

definition short_escapes :: "(nat \<times> char) list" where
  "short_escapes = [(34, CHR 0x22), (92, CHR 0x5C), (10, CHR ''n''), (13, CHR ''r''), (9, CHR ''t''), (12, CHR ''f''), (8, CHR ''b'')]"

lemma escape_char_forms:
  "(\<exists>x. (of_char c, x) \<in> set short_escapes \<and> escape_char c = [CHR 0x5C, x])
   \<or> (of_char c :: nat) < 32 \<and> escape_char c = [CHR 0x5C, CHR ''u'', CHR ''0'', CHR ''0'', hex_digit (of_char c div 16), hex_digit (of_char c mod 16)]
   \<or> escape_char c = [c] \<and> c \<noteq> CHR 0x5C \<and> c \<noteq> CHR 0x22"
  by (auto simp: escape_char_def short_escapes_def Let_def)


lemma short_escapes_unique: "(n, x) \<in> set short_escapes \<Longrightarrow> (m, x) \<in> set short_escapes \<Longrightarrow> n = m"
  by (auto simp: short_escapes_def)

lemma short_escapes_not_u: "(n, CHR ''u'') \<notin> set short_escapes"
  by (simp add: short_escapes_def)

lemma of_char_inj: "(of_char c :: nat) = of_char d \<Longrightarrow> c = d"
  by simp

lemma escape_char_code:
  assumes "escape_char c @ x = escape_char d @ y" shows "c = d"
proof -
  have "(of_char c :: nat) = of_char d"
    using escape_char_forms [of c] escape_char_forms [of d] assms
      hex_pair_inj [OF of_char_less of_char_less, of c d] short_escapes_unique short_escapes_not_u
    by (elim disjE exE conjE; fastforce)
  then show ?thesis by simp
qed

lemma escape_char_start: "escape_char c \<noteq> []" "hd (escape_char c) \<noteq> CHR 0x22"
  using escape_char_forms [of c] by auto

interpretation utf8: escape_code escape_char
  by unfold_locales (use escape_char_code escape_char_start in auto)

lemma escape_ascii_forms:
  "127 \<le> (of_char c :: nat) \<and> escape_ascii c = [CHR 0x5C, CHR ''u'', CHR ''0'', CHR ''0'', hex_digit (of_char c div 16), hex_digit (of_char c mod 16)]
   \<or> (of_char c :: nat) < 127 \<and> escape_ascii c = escape_char c"
  by (auto simp: escape_ascii_def Let_def)

lemma escape_ascii_code:
  assumes "escape_ascii c @ x = escape_ascii d @ y" shows "c = d"
proof -
  have u: "of_char c = (of_char d :: nat)"
    if "[CHR 0x5C, CHR ''u'', CHR ''0'', CHR ''0'', hex_digit (of_char c div 16), hex_digit (of_char c mod 16)] @ z = escape_char d @ w"
    for c d z w
    using escape_char_forms [of d] that hex_pair_inj [OF of_char_less of_char_less, of c d] short_escapes_not_u
    by (elim disjE exE conjE; fastforce)
  from escape_ascii_forms [of c] escape_ascii_forms [of d] show ?thesis
  proof (elim disjE conjE)
    assume "escape_ascii c = escape_char c" "escape_ascii d = escape_char d"
    with assms show ?thesis using escape_char_code by simp
  next
    assume "escape_ascii c = escape_char c" "127 \<le> (of_char d :: nat)" "of_char c < (127 :: nat)"
      and "escape_ascii d = [CHR 0x5C, CHR ''u'', CHR ''0'', CHR ''0'', hex_digit (of_char d div 16), hex_digit (of_char d mod 16)]"
    with assms u [of d y c x] show ?thesis by simp
  next
    assume "escape_ascii d = escape_char d" "127 \<le> (of_char c :: nat)" "of_char d < (127 :: nat)"
      and "escape_ascii c = [CHR 0x5C, CHR ''u'', CHR ''0'', CHR ''0'', hex_digit (of_char c div 16), hex_digit (of_char c mod 16)]"
    with assms u [of c x d y] show ?thesis by simp
  next
    assume "escape_ascii c = [CHR 0x5C, CHR ''u'', CHR ''0'', CHR ''0'', hex_digit (of_char c div 16), hex_digit (of_char c mod 16)]"
      and "escape_ascii d = [CHR 0x5C, CHR ''u'', CHR ''0'', CHR ''0'', hex_digit (of_char d div 16), hex_digit (of_char d mod 16)]"
    with assms hex_pair_inj [OF of_char_less of_char_less, of c d] show ?thesis by simp
  qed
qed

lemma escape_ascii_start: "escape_ascii c \<noteq> []" "hd (escape_ascii c) \<noteq> CHR 0x22"
  using escape_ascii_forms [of c] escape_char_start [of c] by auto

interpretation ascii: escape_code escape_ascii
  by unfold_locales (erule escape_ascii_code, rule escape_ascii_start(1), rule escape_ascii_start(2))

end
