(* ===== verification/Workload.thy ===== *)
theory Workload
  imports Tables
begin

text \<open>
  Installation workloads of the identity foundation (\<open>workload_authority.py\<close>, \<open>workload_operator.py\<close>,
  \<open>contracts.py\<close> and the SQL function \<open>admit_workload\<close> of its migration): the operator registers, rotates,
  disables and empowers workloads; a process proves possession of the deployment secret and each of its
  operations is admitted against the current row. \<open>sha\<close> is SHA-256; instants are microseconds; an object's
  identity is a number. The row locks themselves are the database's.
\<close>

section \<open>The registry\<close>

record workload_row =
  wr_installation :: uuid
  wr_id :: uuid
  wr_name :: string
  wr_active :: bool
  wr_class :: string
  wr_purposes :: "string list"
  wr_reference :: string
  wr_digest :: string
  wr_generation :: int
  wr_rotated :: "instant option"
  wr_revoked :: "instant option"

type_synonym workload_key = "uuid \<times> uuid"

definition row_key :: "workload_row \<Rightarrow> workload_key" where
  "row_key r = (wr_installation r, wr_id r)"

definition usable :: "workload_row \<Rightarrow> bool" where
  "usable r \<longleftrightarrow> wr_active r \<and> wr_revoked r = None"

text \<open>The actions of the operator; \<open>SystemExit\<close> ends the command and rolls its transaction back.\<close>

datatype workload_action =
    Register string string string string "string list"
  | Rotate string string
  | Disable
  | SetAuthority string "string list"

definition exit_with :: "string \<Rightarrow> exn" where
  "exit_with m = ForeignError (''SystemExit: '' @ m)"

definition known_purposes :: "string list" where
  "known_purposes = [''worker-startup'', ''event-delivery'', ''subscriber-sync'', ''event-publisher'']"

definition check_authority :: "string \<Rightarrow> string list \<Rightarrow> exn + unit" where
  "check_authority process_class purposes =
     raise_if (purposes = [] \<or> \<not> set purposes \<subseteq> set known_purposes \<or> \<not> (1 \<le> length process_class \<and> length process_class \<le> 100))
       (exit_with ''Invalid workload process class or purpose'')"

text \<open>\<open>_credential_digest\<close>: at most 4097 bytes are read.\<close>

definition credential_digest :: "(string \<Rightarrow> string) \<Rightarrow> string \<Rightarrow> exn + string" where
  "credential_digest sha content =
     (let credential = take 4097 content in
      if \<not> (32 \<le> length credential \<and> length credential \<le> 4096)
      then Inl (ValueError ''Workload credential file must contain 32 to 4096 bytes'')
      else Inr (sha credential))"

definition check_credential :: "(string \<Rightarrow> string) \<Rightarrow> string \<Rightarrow> string \<Rightarrow> exn + string" where
  "check_credential sha reference content =
     bind_res (raise_if (\<not> (1 \<le> length reference \<and> length reference \<le> 500)) (exit_with ''Invalid workload credential reference'')) (\<lambda>_.
       credential_digest sha content)"

text \<open>An update of the rows that satisfy a condition, which must be exactly one.\<close>

definition update_one :: "(workload_row \<Rightarrow> bool) \<Rightarrow> (workload_row \<Rightarrow> workload_row) \<Rightarrow> workload_row list \<Rightarrow> exn + workload_row list" where
  "update_one hit f rows =
     (if length (filter hit rows) = 1 then Inr (map (\<lambda>r. if hit r then f r else r) rows)
      else Inl (exit_with ''Workload operation did not affect exactly one row''))"

definition operate ::
  "(string \<Rightarrow> string) \<Rightarrow> instant \<Rightarrow> workload_key \<Rightarrow> workload_action \<Rightarrow> workload_row list \<Rightarrow> exn + workload_row list" where
  "operate sha now key action rows =
     (case action of
        Register name reference content process_class purposes \<Rightarrow>
          bind_res (check_authority process_class purposes) (\<lambda>_.
          bind_res (check_credential sha reference content) (\<lambda>digest.
          bind_res (raise_if (\<not> (1 \<le> length name \<and> length name \<le> 200)) (exit_with ''Invalid workload name'')) (\<lambda>_.
            insert_row (\<lambda>a b. row_key a = row_key b \<or> (wr_installation a = wr_installation b \<and> wr_name a = wr_name b)) (\<lambda>_. True)
              \<lparr>wr_installation = fst key, wr_id = snd key, wr_name = name, wr_active = True, wr_class = process_class,
               wr_purposes = sorted_set purposes, wr_reference = reference, wr_digest = digest, wr_generation = 1,
               wr_rotated = None, wr_revoked = None\<rparr> rows)))
      | Rotate reference content \<Rightarrow>
          bind_res (check_credential sha reference content) (\<lambda>digest.
            update_one (\<lambda>r. row_key r = key \<and> usable r)
              (\<lambda>r. r\<lparr>wr_reference := reference, wr_digest := digest, wr_generation := wr_generation r + 1, wr_rotated := Some now\<rparr>) rows)
      | Disable \<Rightarrow> update_one (\<lambda>r. row_key r = key \<and> wr_active r) (\<lambda>r. r\<lparr>wr_active := False, wr_revoked := Some now\<rparr>) rows
      | SetAuthority process_class purposes \<Rightarrow>
          bind_res (check_authority process_class purposes) (\<lambda>_.
            update_one (\<lambda>r. row_key r = key \<and> usable r)
              (\<lambda>r. r\<lparr>wr_class := process_class, wr_purposes := sorted_set purposes\<rparr>) rows))"

section \<open>The authority\<close>

record workload_proof =
  pf_issuer :: nat
  pf_key :: workload_key
  pf_purpose :: string
  pf_class :: string
  pf_reference :: string
  pf_generation :: int
  pf_from :: instant
  pf_until :: instant

definition proof_lifetime :: int where
  "proof_lifetime = 60 * 1000000"

definition invalid_credential :: "string \<Rightarrow> exn" where
  "invalid_credential m = ForeignError (''InvalidWorkloadCredential: '' @ m)"

definition find_workload :: "workload_key \<Rightarrow> workload_row list \<Rightarrow> workload_row option" where
  "find_workload key rows = List.find (\<lambda>r. row_key r = key) rows"

definition verify_credential ::
  "(string \<Rightarrow> string) \<Rightarrow> nat \<Rightarrow> instant \<Rightarrow> workload_key \<Rightarrow> string \<Rightarrow> string \<Rightarrow> string \<Rightarrow> string \<Rightarrow> workload_row list \<Rightarrow> exn + workload_proof" where
  "verify_credential sha issuer now key process_class purpose reference credential rows =
     (if length credential < 32 then Inl (invalid_credential ''Invalid workload credential'')
      else (case find_workload key rows of
          None \<Rightarrow> Inl (invalid_credential ''Invalid workload credential'')
        | Some r \<Rightarrow>
            if \<not> wr_active r \<or> wr_revoked r \<noteq> None \<or> wr_class r \<noteq> process_class \<or> purpose \<notin> set (wr_purposes r)
               \<or> wr_reference r \<noteq> reference \<or> wr_digest r \<noteq> sha credential
            then Inl (invalid_credential ''Invalid workload credential'')
            else Inr \<lparr>pf_issuer = issuer, pf_key = key, pf_purpose = purpose, pf_class = process_class, pf_reference = reference,
                   pf_generation = wr_generation r, pf_from = now, pf_until = now + proof_lifetime\<rparr>))"

text \<open>The SQL function \<open>admit_workload\<close>.\<close>

definition admit_workload :: "workload_key \<Rightarrow> int \<Rightarrow> string \<Rightarrow> string \<Rightarrow> workload_row list \<Rightarrow> bool" where
  "admit_workload key generation process_class purpose rows =
     list_ex (\<lambda>r. row_key r = key \<and> wr_active r \<and> wr_revoked r = None \<and> wr_generation r = generation \<and> wr_class r = process_class
        \<and> purpose \<in> set (wr_purposes r)) rows"

text \<open>\<open>_lock_current\<close>, on which \<open>operation\<close> and \<open>bind\<close> rest.\<close>

definition lock_current_workload :: "nat \<Rightarrow> instant \<Rightarrow> workload_proof \<Rightarrow> string \<Rightarrow> workload_row list \<Rightarrow> exn + unit" where
  "lock_current_workload issuer now p purpose rows =
     (if pf_issuer p \<noteq> issuer \<or> pf_purpose p \<noteq> purpose \<or> \<not> (pf_from p \<le> now \<and> now < pf_until p)
         \<or> \<not> admit_workload (pf_key p) (pf_generation p) (pf_class p) purpose rows
      then Inl (invalid_credential ''Invalid workload authority'') else Inr ())"

record execution_binding =
  xb_proof :: workload_proof
  xb_tenant :: uuid
  xb_event :: uuid
  xb_subscriber :: string
  xb_attempt :: uuid
  xb_transaction :: nat
  xb_task :: nat
  xb_until :: instant

text \<open>\<open>bind\<close>: \<open>database_tenant\<close> is the setting \<open>app.tenant_id\<close> of the transaction.\<close>

definition bind_workload ::
  "nat \<Rightarrow> instant \<Rightarrow> uuid option \<Rightarrow> nat option \<Rightarrow> workload_proof \<Rightarrow> uuid \<Rightarrow> uuid \<Rightarrow> string \<Rightarrow> uuid \<Rightarrow> nat \<Rightarrow> workload_row list \<Rightarrow>
   exn + execution_binding" where
  "bind_workload issuer now database_tenant task p ten ev subscriber attempt txn rows =
     bind_res (lock_current_workload issuer now p ''event-delivery'' rows) (\<lambda>_.
       case task of
         None \<Rightarrow> Inl (invalid_credential ''Invalid workload execution attempt'')
       | Some k \<Rightarrow>
           if subscriber = '''' then Inl (invalid_credential ''Invalid workload execution attempt'')
           else if database_tenant \<noteq> Some ten then Inl (invalid_credential ''Workload tenant does not match transaction'')
           else Inr \<lparr>xb_proof = p, xb_tenant = ten, xb_event = ev, xb_subscriber = subscriber, xb_attempt = attempt, xb_transaction = txn,
                  xb_task = k, xb_until = pf_until p\<rparr>)"

text \<open>\<open>assert_active\<close>; \<open>leases\<close> are the bindings issued, with their lease.\<close>

definition assert_active ::
  "(execution_binding \<times> bool) list \<Rightarrow> nat \<Rightarrow> nat option \<Rightarrow> instant \<Rightarrow> execution_binding \<Rightarrow> exn + unit" where
  "assert_active leases txn task now b =
     raise_if ((b, True) \<notin> set leases \<or> txn \<noteq> xb_transaction b \<or> task \<noteq> Some (xb_task b) \<or> xb_until b \<le> now)
       (invalid_credential ''Workload execution binding is not active'')"

section \<open>The registry through the operator's actions\<close>

definition operator_step :: "(string \<Rightarrow> string) \<Rightarrow> workload_row list \<Rightarrow> workload_row list \<Rightarrow> bool" where
  "operator_step sha rows rows' \<longleftrightarrow> (\<exists>now key action. operate sha now key action rows = Inr rows')"

text \<open>What an action does to a row: nothing, or what the operator asked for on a usable row.\<close>

definition row_step :: "workload_row \<Rightarrow> workload_row \<Rightarrow> bool" where
  "row_step r r' \<longleftrightarrow> row_key r' = row_key r \<and> wr_generation r \<le> wr_generation r'
     \<and> (\<not> usable r \<longrightarrow> \<not> usable r') \<and> (wr_generation r' = wr_generation r \<longrightarrow> wr_digest r' = wr_digest r \<and> wr_reference r' = wr_reference r)"

lemma row_step_refl [simp]: "row_step r r"
  by (simp add: row_step_def)

lemma update_one_Inr:
  "update_one hit f rows = Inr rows' \<Longrightarrow> rows' = map (\<lambda>r. if hit r then f r else r) rows \<and> (\<exists>r \<in> set rows. hit r)"
proof -
  assume u: "update_one hit f rows = Inr rows'"
  then have "filter hit rows \<noteq> []" by (auto simp: update_one_def split: if_splits)
  then show ?thesis using u by (auto simp: update_one_def filter_empty_conv split: if_splits)
qed

lemma operate_cases:
  assumes "operate sha now key action rows = Inr rows'"
  obtains (register) r where "rows' = rows @ [r]" "row_key r = key" "\<forall>x \<in> set rows. row_key x \<noteq> key"
    | (update) f where "rows' = map f rows" "\<forall>r. row_step r (f r)"
      "\<forall>reference content. action = Rotate reference content \<longrightarrow> (\<forall>r. row_key r = key \<longrightarrow> \<not> usable (f r) \<or> wr_generation r < wr_generation (f r))"
      "action = Disable \<longrightarrow> (\<forall>r. row_key r = key \<longrightarrow> \<not> usable (f r))"
proof (cases action)
  case (Register name reference content process_class purposes)
  with assms obtain digest where i: "insert_row (\<lambda>a b. row_key a = row_key b \<or> (wr_installation a = wr_installation b \<and> wr_name a = wr_name b)) (\<lambda>_. True)
      \<lparr>wr_installation = fst key, wr_id = snd key, wr_name = name, wr_active = True, wr_class = process_class,
       wr_purposes = sorted_set purposes, wr_reference = reference, wr_digest = digest, wr_generation = 1,
       wr_rotated = None, wr_revoked = None\<rparr> rows = Inr rows'"
    by (auto simp only: operate_def bind_res_Inr workload_action.case)
  then show ?thesis by (intro register) (auto simp: row_key_def)
next
  case (Rotate reference content)
  with assms obtain digest where "update_one (\<lambda>r. row_key r = key \<and> usable r)
      (\<lambda>r. r\<lparr>wr_reference := reference, wr_digest := digest, wr_generation := wr_generation r + 1, wr_rotated := Some now\<rparr>) rows = Inr rows'"
    by (auto simp: operate_def bind_res_Inr)
  from update_one_Inr [OF this] show ?thesis
    by (intro update [where f = "\<lambda>r. if row_key r = key \<and> usable r then r\<lparr>wr_reference := reference, wr_digest := digest,
        wr_generation := wr_generation r + 1, wr_rotated := Some now\<rparr> else r"])
      (auto simp: Rotate row_step_def row_key_def usable_def)
next
  case Disable
  with assms have "update_one (\<lambda>r. row_key r = key \<and> wr_active r) (\<lambda>r. r\<lparr>wr_active := False, wr_revoked := Some now\<rparr>) rows = Inr rows'"
    by (simp add: operate_def)
  from update_one_Inr [OF this] show ?thesis
    by (intro update [where f = "\<lambda>r. if row_key r = key \<and> wr_active r then r\<lparr>wr_active := False, wr_revoked := Some now\<rparr> else r"])
      (auto simp: Disable row_step_def row_key_def usable_def)
next
  case (SetAuthority process_class purposes)
  with assms have "update_one (\<lambda>r. row_key r = key \<and> usable r)
      (\<lambda>r. r\<lparr>wr_class := process_class, wr_purposes := sorted_set purposes\<rparr>) rows = Inr rows'"
    by (auto simp: operate_def bind_res_Inr)
  from update_one_Inr [OF this] show ?thesis
    by (intro update [where f = "\<lambda>r. if row_key r = key \<and> usable r then r\<lparr>wr_class := process_class, wr_purposes := sorted_set purposes\<rparr> else r"])
      (auto simp: SetAuthority row_step_def row_key_def usable_def)
qed

definition keys_unique :: "workload_row list \<Rightarrow> bool" where
  "keys_unique rows \<longleftrightarrow> distinct (map row_key rows)"

lemma operate_keys: "operate sha now key action rows = Inr rows' \<Longrightarrow> keys_unique rows \<Longrightarrow> keys_unique rows'"
proof (erule operate_cases)
  fix f assume "rows' = map f rows" "\<forall>r. row_step r (f r)" "keys_unique rows"
  then show "keys_unique rows'" by (simp add: keys_unique_def row_step_def comp_def)
qed (auto simp: keys_unique_def)

text \<open>A row lives on, and no other row ever gets its key.\<close>

lemma operate_row:
  assumes "operate sha now key action rows = Inr rows'" and "r \<in> set rows"
  shows "\<exists>r' \<in> set rows'. row_step r r'"
  using assms(1) by (rule operate_cases) (use assms(2) in \<open>force+\<close>)

text \<open>A proof of an older generation, or of a disabled workload, is refused from then on.\<close>

definition outdated :: "workload_key \<Rightarrow> int \<Rightarrow> workload_row list \<Rightarrow> bool" where
  "outdated key g rows \<longleftrightarrow> (\<exists>r \<in> set rows. row_key r = key) \<and> (\<forall>r \<in> set rows. row_key r = key \<longrightarrow> \<not> usable r \<or> g < wr_generation r)"

lemma outdated_kept: "operate sha now k action rows = Inr rows' \<Longrightarrow> outdated key g rows \<Longrightarrow> outdated key g rows'"
proof (erule operate_cases)
  fix f assume "rows' = map f rows" "\<forall>r. row_step r (f r)" "outdated key g rows"
  then show "outdated key g rows'" unfolding outdated_def row_step_def by fastforce
qed (auto simp: outdated_def)

lemma outdated_steps: "(operator_step sha)\<^sup>*\<^sup>* rows rows' \<Longrightarrow> outdated key g rows \<Longrightarrow> outdated key g rows'"
  by (induction rule: rtranclp_induct) (auto simp: operator_step_def dest: outdated_kept)

lemma outdated_refused: "outdated (pf_key p) (pf_generation p) rows \<Longrightarrow> \<exists>e. lock_current_workload issuer now p purpose rows = Inl e"
  by (auto simp: lock_current_workload_def admit_workload_def outdated_def usable_def list_ex_iff)

lemma rotation_outdates:
  assumes "operate sha now key action rows = Inr rows'" and "action = Rotate reference content \<or> action = Disable"
    and "\<forall>r \<in> set rows. row_key r = key \<longrightarrow> g \<le> wr_generation r" and "\<exists>r \<in> set rows. row_key r = key"
  shows "outdated key g rows'"
  using assms(1)
proof (rule operate_cases)
  fix r assume "\<forall>x \<in> set rows. row_key x \<noteq> key"
  with assms(4) show ?thesis by blast
next
  fix f assume f: "rows' = map f rows" "\<forall>r. row_step r (f r)"
    "\<forall>reference content. action = Rotate reference content \<longrightarrow> (\<forall>r. row_key r = key \<longrightarrow> \<not> usable (f r) \<or> wr_generation r < wr_generation (f r))"
    "action = Disable \<longrightarrow> (\<forall>r. row_key r = key \<longrightarrow> \<not> usable (f r))"
  have new: "\<not> usable (f r) \<or> g < wr_generation (f r)" if "r \<in> set rows" "row_key r = key" for r
    using assms(2)
  proof
    assume "action = Rotate reference content"
    with f(3) that(2) have "\<not> usable (f r) \<or> wr_generation r < wr_generation (f r)" by blast
    with assms(3) that show ?thesis by fastforce
  next
    assume "action = Disable"
    with f(4) that(2) show ?thesis by blast
  qed
  from f(2) have key: "row_key (f r) = row_key r" for r by (simp add: row_step_def)
  from new key assms(4) show ?thesis unfolding outdated_def f(1) by auto
qed

section \<open>Histories of proofs and bindings\<close>

text \<open>The registry, the proofs given with the digest they were given for, and the bindings with their leases.\<close>

record workload_world =
  wl_rows :: "workload_row list"
  wl_proofs :: "(workload_proof \<times> string) list"
  wl_leases :: "(execution_binding \<times> bool) list"

inductive workload_history :: "(string \<Rightarrow> string) \<Rightarrow> workload_world \<Rightarrow> bool" for sha where
  empty: "workload_history sha \<lparr>wl_rows = [], wl_proofs = [], wl_leases = []\<rparr>"
| operated: "workload_history sha w \<Longrightarrow> operate sha now key action (wl_rows w) = Inr rows \<Longrightarrow> workload_history sha (w\<lparr>wl_rows := rows\<rparr>)"
| verified: "workload_history sha w \<Longrightarrow>
     verify_credential sha issuer now key process_class purpose reference credential (wl_rows w) = Inr p \<Longrightarrow>
     workload_history sha (w\<lparr>wl_proofs := wl_proofs w @ [(p, sha credential)]\<rparr>)"
| bound: "workload_history sha w \<Longrightarrow> (p, d) \<in> set (wl_proofs w) \<Longrightarrow>
     bind_workload issuer now database_tenant task p ten ev subscriber attempt txn (wl_rows w) = Inr b \<Longrightarrow>
     workload_history sha (w\<lparr>wl_leases := wl_leases w @ [(b, True)]\<rparr>)"
| released: "workload_history sha w \<Longrightarrow>
     workload_history sha (w\<lparr>wl_leases := map (\<lambda>(x, l). (x, l \<and> x \<noteq> b)) (wl_leases w)\<rparr>)"

definition proof_ok :: "workload_row list \<Rightarrow> workload_proof \<times> string \<Rightarrow> bool" where
  "proof_ok rows pd \<longleftrightarrow> (case pd of (p, d) \<Rightarrow> pf_until p = pf_from p + proof_lifetime
     \<and> (\<exists>r \<in> set rows. row_key r = pf_key p \<and> pf_generation p \<le> wr_generation r
          \<and> (wr_generation r = pf_generation p \<longrightarrow> wr_digest r = d \<and> wr_reference r = pf_reference p)))"

definition workloads_ok :: "workload_world \<Rightarrow> bool" where
  "workloads_ok w \<longleftrightarrow> keys_unique (wl_rows w) \<and> (\<forall>pd \<in> set (wl_proofs w). proof_ok (wl_rows w) pd)
     \<and> (\<forall>(b, l) \<in> set (wl_leases w). xb_proof b \<in> fst ` set (wl_proofs w) \<and> xb_until b = pf_until (xb_proof b))"

lemma proof_ok_kept:
  assumes "operate sha now key action rows = Inr rows'" and "proof_ok rows pd"
  shows "proof_ok rows' pd"
proof -
  obtain p d where pd: "pd = (p, d)" by (cases pd)
  with assms(2) obtain r where r: "pf_until p = pf_from p + proof_lifetime" "r \<in> set rows" "row_key r = pf_key p"
    "pf_generation p \<le> wr_generation r" "wr_generation r = pf_generation p \<longrightarrow> wr_digest r = d \<and> wr_reference r = pf_reference p"
    by (auto simp: proof_ok_def)
  from operate_row [OF assms(1) r(2)] obtain r' where "r' \<in> set rows'" "row_step r r'" by blast
  with pd r show ?thesis by (force simp: proof_ok_def row_step_def)
qed

lemma verify_credential_ok:
  assumes "verify_credential sha issuer now key process_class purpose reference credential rows = Inr p"
  shows "proof_ok rows (p, sha credential)"
  using assms by (auto simp: verify_credential_def proof_ok_def find_workload_def find_Some_iff split: if_splits option.splits)

lemma workload_history_ok: "workload_history sha w \<Longrightarrow> workloads_ok w"
proof (induction rule: workload_history.induct)
  case empty
  then show ?case by (simp add: workloads_ok_def keys_unique_def)
next
  case (operated w now key action rows)
  from operated.IH operate_keys [OF operated.hyps(2)] proof_ok_kept [OF operated.hyps(2)] show ?case
    by (simp add: workloads_ok_def)
next
  case (verified w issuer now key process_class purpose reference credential p)
  from verified.IH verify_credential_ok [OF verified.hyps(2)] show ?case by (auto simp: workloads_ok_def)
next
  case (bound w p d issuer now database_tenant task ten ev subscriber attempt txn b)
  then have "xb_proof b = p \<and> xb_until b = pf_until p"
    by (auto simp: bind_workload_def bind_res_Inr split: option.splits if_splits)
  with bound.IH bound.hyps(2) show ?case by (force simp: workloads_ok_def)
next
  case (released w b)
  then show ?case by (fastforce simp: workloads_ok_def)
qed

text \<open>
  C34: Whatever the operator does and whoever proves what in between, an operation of a workload is admitted only
  within 60 seconds of a proof that was given for exactly this purpose, while the workload is active and still
  has the purpose and the process class, and only if the secret that was proved is still the current one; and
  once the operator has rotated the credential or disabled the workload, that proof is refused, whatever the
  operator does afterwards.
\<close>

theorem workload_admission_is_current:
  assumes h: "workload_history sha w" and p: "(p, d) \<in> set (wl_proofs w)"
    and adm: "lock_current_workload issuer now p purpose (wl_rows w) = Inr ()"
  shows "(\<exists>r \<in> set (wl_rows w). row_key r = pf_key p \<and> usable r \<and> wr_digest r = d \<and> wr_reference r = pf_reference p
        \<and> wr_class r = pf_class p \<and> purpose \<in> set (wr_purposes r))
    \<and> pf_purpose p = purpose \<and> pf_issuer p = issuer \<and> pf_from p \<le> now \<and> now < pf_from p + 60 * 1000000
    \<and> (\<forall>t action reference content rows rows' later. operate sha t (pf_key p) action (wl_rows w) = Inr rows \<longrightarrow>
         action = Rotate reference content \<or> action = Disable \<longrightarrow> (operator_step sha)\<^sup>*\<^sup>* rows rows' \<longrightarrow>
         (\<exists>e. lock_current_workload issuer later p purpose rows' = Inl e))"
proof -
  note ok = workload_history_ok [OF h]
  from ok p obtain r where r: "r \<in> set (wl_rows w)" "row_key r = pf_key p" "pf_generation p \<le> wr_generation r"
    "wr_generation r = pf_generation p \<longrightarrow> wr_digest r = d \<and> wr_reference r = pf_reference p"
    and t: "pf_until p = pf_from p + proof_lifetime"
    by (fastforce simp: workloads_ok_def proof_ok_def)
  have only: "x = r" if "x \<in> set (wl_rows w)" "row_key x = pf_key p" for x
  proof -
    have "inj_on row_key (set (wl_rows w))" using ok by (simp add: workloads_ok_def keys_unique_def distinct_map)
    from inj_onD [OF this, of x r] that r(1,2) show ?thesis by simp
  qed
  from adm obtain x where x: "x \<in> set (wl_rows w)" "row_key x = pf_key p" "wr_active x" "wr_revoked x = None"
    "wr_generation x = pf_generation p" "wr_class x = pf_class p" "purpose \<in> set (wr_purposes x)"
    and i: "pf_issuer p = issuer" "pf_purpose p = purpose" "pf_from p \<le> now" "now < pf_until p"
    by (auto simp: lock_current_workload_def admit_workload_def list_ex_iff split: if_splits)
  with only have "x = r" by blast
  with x r t i have now: "(\<exists>r \<in> set (wl_rows w). row_key r = pf_key p \<and> usable r \<and> wr_digest r = d \<and> wr_reference r = pf_reference p
        \<and> wr_class r = pf_class p \<and> purpose \<in> set (wr_purposes r))"
    "now < pf_from p + 60 * 1000000" by (auto simp: usable_def proof_lifetime_def)
  have "\<exists>e. lock_current_workload issuer later p purpose rows' = Inl e"
    if "operate sha t (pf_key p) action (wl_rows w) = Inr rows" "action = Rotate reference content \<or> action = Disable"
      "(operator_step sha)\<^sup>*\<^sup>* rows rows'" for t action reference content rows rows' later
  proof -
    have "\<forall>x \<in> set (wl_rows w). row_key x = pf_key p \<longrightarrow> pf_generation p \<le> wr_generation x" using only r(3) by blast
    moreover have "\<exists>x \<in> set (wl_rows w). row_key x = pf_key p" using r(1,2) by blast
    ultimately have "outdated (pf_key p) (pf_generation p) rows" by (rule rotation_outdates [OF that(1,2)])
    then show ?thesis by (intro outdated_refused outdated_steps [OF that(3)])
  qed
  with now i show ?thesis by blast
qed

text \<open>A binding that passes its check is leased, and belongs to this transaction and task.\<close>

lemma assert_active_Inr:
  assumes "workload_history sha w" and "assert_active (wl_leases w) txn task now b = Inr ()"
  shows "(b, True) \<in> set (wl_leases w) \<and> xb_transaction b = txn \<and> task = Some (xb_task b) \<and> now < pf_until (xb_proof b)"
  using workload_history_ok [OF assms(1)] assms(2) by (fastforce simp: assert_active_def workloads_ok_def)

section \<open>A sample workload\<close>

definition sample_secret :: string where
  "sample_secret = replicate 40 CHR ''k''"

definition registered :: "exn + workload_row list" where
  "registered = operate id 5 (1, 2) (Register ''worker'' ''ref'' sample_secret ''event-worker'' [''event-delivery'']) []"

definition sample_rows :: "workload_row list" where
  "sample_rows = [\<lparr>wr_installation = 1, wr_id = 2, wr_name = ''worker'', wr_active = True, wr_class = ''event-worker'',
     wr_purposes = [''event-delivery''], wr_reference = ''ref'', wr_digest = sample_secret, wr_generation = 1, wr_rotated = None, wr_revoked = None\<rparr>]"

definition sample_proof :: workload_proof where
  "sample_proof = \<lparr>pf_issuer = 3, pf_key = (1, 2), pf_purpose = ''event-delivery'', pf_class = ''event-worker'', pf_reference = ''ref'',
     pf_generation = 1, pf_from = 10, pf_until = 60000010\<rparr>"

lemma sample_registered: "operate id 5 (1, 2) (Register ''worker'' ''ref'' sample_secret ''event-worker'' [''event-delivery'']) [] = Inr sample_rows"
proof -
  have "sorted_set [''event-delivery''] = [''event-delivery'']" by (simp add: sorted_set_def)
  then show ?thesis
    by (simp add: operate_def check_authority_def check_credential_def credential_digest_def known_purposes_def sample_secret_def
        raise_if_def bind_res_simps sample_rows_def Let_def)
qed

lemma sample_verified_proof:
  "verify_credential id 3 10 (1, 2) ''event-worker'' ''event-delivery'' ''ref'' sample_secret sample_rows = Inr sample_proof"
  by (simp add: verify_credential_def find_workload_def sample_rows_def row_key_def sample_secret_def sample_proof_def proof_lifetime_def)

lemma sample_rotated: "\<exists>rows. operate id 20 (1, 2) (Rotate ''ref2'' (replicate 32 CHR ''z'')) sample_rows = Inr rows"
  by (simp add: operate_def check_credential_def credential_digest_def raise_if_def bind_res_simps Let_def update_one_def sample_rows_def
      row_key_def usable_def)

theorem workload_admission_is_current_witness:
  "lock_current_workload 3 50 sample_proof ''event-delivery'' sample_rows = Inr ()
     \<and> (\<exists>r \<in> set sample_rows. row_key r = pf_key sample_proof \<and> wr_digest r = id sample_secret)
     \<and> (\<exists>rows e. operate id 20 (1, 2) (Rotate ''ref2'' (replicate 32 CHR ''z'')) sample_rows = Inr rows
          \<and> lock_current_workload 3 50 sample_proof ''event-delivery'' rows = Inl e)"
proof -
  have adm: "lock_current_workload 3 50 sample_proof ''event-delivery'' sample_rows = Inr ()"
    by (simp add: lock_current_workload_def sample_proof_def admit_workload_def sample_rows_def row_key_def)
  from workload_history.operated [OF workload_history.empty [of id]] sample_registered
  have "workload_history id \<lparr>wl_rows = sample_rows, wl_proofs = [], wl_leases = []\<rparr>" by fastforce
  from workload_history.verified [OF this] sample_verified_proof
  have h: "workload_history id \<lparr>wl_rows = sample_rows, wl_proofs = [(sample_proof, id sample_secret)], wl_leases = []\<rparr>" by fastforce
  have adm': "lock_current_workload 3 50 sample_proof ''event-delivery''
      (wl_rows \<lparr>wl_rows = sample_rows, wl_proofs = [(sample_proof, id sample_secret)], wl_leases = []\<rparr>) = Inr ()" using adm by simp
  have m: "(sample_proof, id sample_secret) \<in> set (wl_proofs \<lparr>wl_rows = sample_rows, wl_proofs = [(sample_proof, id sample_secret)], wl_leases = []\<rparr>)"
    by simp
  note t = workload_admission_is_current [OF h m adm']
  have cur: "\<exists>r \<in> set sample_rows. row_key r = pf_key sample_proof \<and> wr_digest r = id sample_secret" using conjunct1 [OF t] by auto
  note later = t [THEN conjunct2, THEN conjunct2, THEN conjunct2, THEN conjunct2, THEN conjunct2, rule_format, unfolded workload_world.simps]
  from sample_rotated obtain rows where r: "operate id 20 (1, 2) (Rotate ''ref2'' (replicate 32 CHR ''z'')) sample_rows = Inr rows" by blast
  have key: "pf_key sample_proof = (1, 2)" by (simp add: sample_proof_def)
  have "\<exists>e. lock_current_workload 3 50 sample_proof ''event-delivery'' rows = Inl e"
    by (rule later [unfolded key, OF r disjI1 [OF refl] rtranclp.rtrancl_refl])
  with adm cur r show ?thesis by blast
qed

end
