(* ===== verification/Audit_Log.thy ===== *)
theory Audit_Log
  imports Invocation Tables Json_Canonical Workload Event_Worker Policy_Runtime
begin

text \<open>
  The audit foundation (\<open>src/foundations/audit\<close>): bounded evidence, the trusted actor, the append of a
  chained record, the projection of committed policy decisions, the queries and the verification of the
  chain. SHA-256 and what a JSONB column gives back for a document are parameters; the clock, the fresh
  identifier and the ports of a handler are arguments. The advisory lock on the tenant makes an append
  one step.
\<close>

section \<open>Instants in text\<close>

definition pad_number :: "nat \<Rightarrow> int \<Rightarrow> string" where
  "pad_number w i = (let s = show_int i in replicate (w - length s) CHR ''0'' @ s)"

text \<open>\<open>datetime.isoformat\<close> of a UTC instant in microseconds since 1970.\<close>

definition iso_text :: "instant \<Rightarrow> string" where
  "iso_text t =
     (let us = t mod 1000000; secs = (t div 1000000) mod 86400; z = t div 86400000000 + 719468;
          doe = z mod 146097; yoe = (doe - doe div 1460 + doe div 36524 - doe div 146096) div 365;
          doy = doe - (365 * yoe + yoe div 4 - yoe div 100); mp = (5 * doy + 2) div 153;
          day = doy - (153 * mp + 2) div 5 + 1; month = (if mp < 10 then mp + 3 else mp - 9);
          year = yoe + (z div 146097) * 400 + (if month \<le> 2 then 1 else 0)
      in pad_number 4 year @ ''-'' @ pad_number 2 month @ ''-'' @ pad_number 2 day @ ''T'' @ pad_number 2 (secs div 3600) @ '':''
         @ pad_number 2 (secs div 60 mod 60) @ '':'' @ pad_number 2 (secs mod 60)
         @ (if us = 0 then '''' else ''.'' @ pad_number 6 us) @ ''+00:00'')"

section \<open>Evidence\<close>

definition sensitive_parts :: "string list" where
  "sensitive_parts = [''password'', ''secret'', ''credential'', ''token'', ''api_key'', ''private_key'', ''authorization'', ''cookie'']"

fun has_part :: "string \<Rightarrow> string \<Rightarrow> bool" where
  "has_part p [] \<longleftrightarrow> p = []"
| "has_part p (c # cs) \<longleftrightarrow> starts_with p (c # cs) \<or> has_part p cs"

definition sensitive_key :: "string \<Rightarrow> bool" where
  "sensitive_key k \<longleftrightarrow> list_ex (\<lambda>p. has_part p (lower k)) sensitive_parts"

definition sensitive_key_error :: exn where
  "sensitive_key_error = ValueError ''Audit evidence contains a sensitive or invalid key''"

text \<open>The keys of a document are strings and its leaves JSON values; a value of another type has no image here.\<close>

fun validate_evidence_json :: "json \<Rightarrow> exn + unit"
and validate_evidence_items :: "json list \<Rightarrow> exn + unit"
and validate_evidence_entries :: "(string \<times> json) list \<Rightarrow> exn + unit" where
  "validate_evidence_json (JObj es) = validate_evidence_entries es"
| "validate_evidence_json (JArr xs) = validate_evidence_items xs"
| "validate_evidence_json (JFloat r) =
     (if r \<in> {''nan'', ''inf'', ''-inf''} then Inl (ValueError ''Audit evidence must contain only finite JSON values'') else Inr ())"
| "validate_evidence_json _ = Inr ()"
| "validate_evidence_items [] = Inr ()"
| "validate_evidence_items (x # xs) = bind_res (validate_evidence_json x) (\<lambda>_. validate_evidence_items xs)"
| "validate_evidence_entries [] = Inr ()"
| "validate_evidence_entries ((k, v) # es) =
     (if sensitive_key k then Inl sensitive_key_error
      else bind_res (validate_evidence_json v) (\<lambda>_. validate_evidence_entries es))"

record audit_evidence =
  ae_action :: string
  ae_resource_type :: string
  ae_resource_id :: "string option"
  ae_status :: string
  ae_details :: "(string \<times> json) list"

definition evidence_bounds :: "audit_evidence \<Rightarrow> bool" where
  "evidence_bounds e \<longleftrightarrow>
     1 \<le> length (ae_action e) \<and> length (ae_action e) \<le> 100 \<and> 1 \<le> length (ae_resource_type e) \<and> length (ae_resource_type e) \<le> 100
     \<and> (case ae_resource_id e of None \<Rightarrow> True | Some s \<Rightarrow> length s \<le> 255) \<and> 1 \<le> length (ae_status e) \<and> length (ae_status e) \<le> 30"

definition make_audit_evidence :: "audit_evidence \<Rightarrow> exn + audit_evidence" where
  "make_audit_evidence e =
     (if \<not> evidence_bounds e then Inl (ForeignError ''ValidationError'')
      else bind_res (validate_evidence_json (JObj (ae_details e))) (\<lambda>_.
        if utf8_length (json_text escape_char '', '' '': '' (JObj (ae_details e))) > 8192
        then Inl (ValueError ''Audit evidence exceeds 8192 bytes'') else Inr e))"

definition or_null :: "('a \<Rightarrow> json) \<Rightarrow> 'a option \<Rightarrow> json" where
  "or_null f x = (case x of None \<Rightarrow> JNull | Some y \<Rightarrow> f y)"

definition evidence_document :: "audit_evidence \<Rightarrow> json" where
  "evidence_document e = JObj [(''action'', JStr (ae_action e)), (''resource_type'', JStr (ae_resource_type e)),
     (''resource_id'', or_null JStr (ae_resource_id e)), (''status'', JStr (ae_status e)), (''details'', JObj (ae_details e))]"

section \<open>Records\<close>

record audit_row =
  ar_id :: uuid
  ar_tenant :: uuid
  ar_at :: instant
  ar_actor :: string
  ar_actor_type :: string
  ar_action :: string
  ar_resource_type :: string
  ar_resource_id :: "string option"
  ar_scope_type :: "string option"
  ar_scope_id :: "uuid option"
  ar_before :: "json option"
  ar_after :: "json option"
  ar_correlation :: "string option"
  ar_client_ip :: "string option"
  ar_user_agent :: "string option"
  ar_decision :: "json option"
  ar_trace :: "string option"
  ar_status :: string
  ar_previous :: string
  ar_version :: string
  ar_provenance :: "json option"
  ar_evidence :: "json option"
  ar_source :: "uuid option"
  ar_projection :: "string option"
  ar_checksum :: string

definition uuid_json :: "uuid \<Rightarrow> json" where
  "uuid_json u = JStr (show_uuid u)"

definition v3_envelope :: "audit_row \<Rightarrow> json" where
  "v3_envelope r = JObj [(''integrity_version'', JStr ''3''), (''id'', uuid_json (ar_id r)), (''tenant_id'', uuid_json (ar_tenant r)),
     (''occurred_at'', JStr (iso_text (ar_at r))), (''actor_id'', JStr (ar_actor r)), (''actor_type'', JStr (ar_actor_type r)),
     (''action'', JStr (ar_action r)), (''resource_type'', JStr (ar_resource_type r)), (''resource_id'', or_null JStr (ar_resource_id r)),
     (''scope_type'', or_null JStr (ar_scope_type r)), (''scope_id'', or_null uuid_json (ar_scope_id r)),
     (''before_state'', or_null id (ar_before r)), (''after_state'', or_null id (ar_after r)), (''client_ip'', or_null JStr (ar_client_ip r)),
     (''user_agent'', or_null JStr (ar_user_agent r)), (''decision_metadata'', or_null id (ar_decision r)), (''status'', JStr (ar_status r)),
     (''correlation_id'', or_null JStr (ar_correlation r)), (''trace_id'', or_null JStr (ar_trace r)), (''previous_checksum'', JStr (ar_previous r)),
     (''provenance_v3'', or_null id (ar_provenance r)), (''evidence_v3'', or_null id (ar_evidence r)),
     (''source_event_id'', or_null uuid_json (ar_source r)), (''projection_kind'', or_null JStr (ar_projection r))]"

definition checksum_v3 :: "(string \<Rightarrow> string) \<Rightarrow> audit_row \<Rightarrow> string" where
  "checksum_v3 sha r = sha (json_text escape_ascii '','' '':'' (v3_envelope r))"

text \<open>\<open>compute_audit_checksum\<close>, for records of versions 1 and 2 and the checksum before them.\<close>

definition checksum_v2_document :: "string \<Rightarrow> audit_row \<Rightarrow> json" where
  "checksum_v2_document previous r = JObj [(''action'', JStr (ar_action r)), (''actor_id'', JStr (ar_actor r)),
     (''actor_type'', JStr (ar_actor_type r)), (''after_state'', or_null id (ar_after r)), (''before_state'', or_null id (ar_before r)),
     (''correlation_id'', or_null JStr (ar_correlation r)), (''decision_metadata'', or_null id (ar_decision r)),
     (''occurred_at'', JStr (iso_text (ar_at r))), (''previous_checksum'', JStr previous), (''resource_id'', or_null JStr (ar_resource_id r)),
     (''resource_type'', JStr (ar_resource_type r)), (''scope_id'', or_null uuid_json (ar_scope_id r)),
     (''scope_type'', or_null JStr (ar_scope_type r)), (''status'', JStr (ar_status r)), (''tenant_id'', uuid_json (ar_tenant r)),
     (''trace_id'', or_null JStr (ar_trace r))]"

definition compute_audit_checksum :: "(string \<Rightarrow> string) \<Rightarrow> string \<Rightarrow> string \<Rightarrow> audit_row \<Rightarrow> string" where
  "compute_audit_checksum sha ver previous r =
     (if ver = ''1''
      then sha (join_with ''|'' [previous, show_uuid (ar_tenant r), iso_text (ar_at r), ar_actor r, ar_action r, ar_resource_type r,
             (case ar_resource_id r of None \<Rightarrow> '''' | Some s \<Rightarrow> s), ar_status r])
      else sha (json_text escape_ascii '','' '':'' (checksum_v2_document previous r)))"

section \<open>Appending\<close>

definition latest_first :: "audit_row \<Rightarrow> audit_row \<Rightarrow> bool" where
  "latest_first a b \<longleftrightarrow> (ar_at b, ar_id b) \<le> (ar_at a, ar_id a)"

definition earliest_first :: "audit_row \<Rightarrow> audit_row \<Rightarrow> bool" where
  "earliest_first a b \<longleftrightarrow> (ar_at a, ar_id a) \<le> (ar_at b, ar_id b)"

definition prior_record :: "uuid \<Rightarrow> audit_row list \<Rightarrow> audit_row option" where
  "prior_record ten rows =
     (case order_by latest_first (filter (\<lambda>r. ar_tenant r = ten) rows) of [] \<Rightarrow> None | r # _ \<Rightarrow> Some r)"

definition text_fits :: "nat \<Rightarrow> string \<Rightarrow> bool" where
  "text_fits n s \<longleftrightarrow> length s \<le> n"

definition option_fits :: "nat \<Rightarrow> string option \<Rightarrow> bool" where
  "option_fits n x \<longleftrightarrow> (case x of None \<Rightarrow> True | Some s \<Rightarrow> length s \<le> n)"

text \<open>The constraints of the table: column widths, the two checks of version 3, the keys.\<close>

definition audit_row_ok :: "audit_row \<Rightarrow> bool" where
  "audit_row_ok r \<longleftrightarrow>
     text_fits 100 (ar_actor r) \<and> text_fits 50 (ar_actor_type r) \<and> text_fits 100 (ar_action r) \<and> text_fits 100 (ar_resource_type r)
     \<and> option_fits 255 (ar_resource_id r) \<and> option_fits 100 (ar_correlation r) \<and> option_fits 100 (ar_trace r) \<and> text_fits 30 (ar_status r)
     \<and> text_fits 64 (ar_previous r) \<and> text_fits 64 (ar_checksum r) \<and> option_fits 50 (ar_projection r)
     \<and> (ar_version r \<noteq> ''3'' \<or> ar_provenance r \<noteq> None \<and> ar_evidence r \<noteq> None)
     \<and> (ar_source r = None) = (ar_projection r = None)"

definition audit_clash :: "audit_row \<Rightarrow> audit_row \<Rightarrow> bool" where
  "audit_clash a b \<longleftrightarrow> ar_id a = ar_id b
     \<or> (ar_source a \<noteq> None \<and> ar_tenant a = ar_tenant b \<and> ar_source a = ar_source b \<and> ar_projection a = ar_projection b)"

text \<open>What a JSONB column gives back for the document written to it.\<close>

type_synonym jsonb = "json \<Rightarrow> exn + json"

definition stored_row :: "jsonb \<Rightarrow> audit_row \<Rightarrow> exn + audit_row" where
  "stored_row jsonb r =
     bind_res (case ar_provenance r of None \<Rightarrow> Inr None | Some p \<Rightarrow> map_sum id Some (jsonb p)) (\<lambda>p.
     bind_res (case ar_evidence r of None \<Rightarrow> Inr None | Some e \<Rightarrow> map_sum id Some (jsonb e)) (\<lambda>e.
       Inr (r\<lparr>ar_provenance := p, ar_evidence := e\<rparr>)))"

definition entry_text :: "(string \<times> json) list \<Rightarrow> string \<Rightarrow> exn + string" where
  "entry_text es k =
     (case dict_get es k of
        None \<Rightarrow> Inl (ForeignError ''KeyError'')
      | Some (JStr s) \<Rightarrow> Inr s
      | Some _ \<Rightarrow> Inl (ForeignError ''DBAPIError''))"

definition trusted_actor_in :: "(string \<times> json) list \<Rightarrow> exn + string \<times> string" where
  "trusted_actor_in provenance =
     (case dict_get provenance ''actual_actor'' of
        None \<Rightarrow> Inl (ForeignError ''KeyError'')
      | Some (JObj a) \<Rightarrow> bind_res (entry_text a ''id'') (\<lambda>i. bind_res (entry_text a ''type'') (\<lambda>ty. Inr (i, ty)))
      | Some _ \<Rightarrow> Inl (BusinessOSError ''invalid_audit_provenance'' ''Trusted actor missing'' 500))"

definition next_instant :: "instant \<Rightarrow> audit_row option \<Rightarrow> instant" where
  "next_instant now prior = (case prior of None \<Rightarrow> now | Some p \<Rightarrow> if now \<le> ar_at p then ar_at p + 1 else now)"

definition build_v3 ::
  "(string \<Rightarrow> string) \<Rightarrow> instant \<Rightarrow> uuid \<Rightarrow> request_context \<Rightarrow> uuid \<Rightarrow> audit_evidence \<Rightarrow> (string \<times> json) list \<Rightarrow> string \<times> string \<Rightarrow>
   string option \<Rightarrow> uuid option \<Rightarrow> string option \<Rightarrow> audit_row option \<Rightarrow> audit_row" where
  "build_v3 sha now fresh req ten e provenance actor trace source projection prior =
     (let r = \<lparr>ar_id = fresh, ar_tenant = ten, ar_at = next_instant now prior, ar_actor = fst actor, ar_actor_type = snd actor,
        ar_action = ae_action e, ar_resource_type = ae_resource_type e, ar_resource_id = ae_resource_id e, ar_scope_type = None,
        ar_scope_id = None, ar_before = None, ar_after = None, ar_correlation = Some (correlation_id req), ar_client_ip = None,
        ar_user_agent = None, ar_decision = None, ar_trace = trace, ar_status = ae_status e,
        ar_previous = (case prior of None \<Rightarrow> '''' | Some p \<Rightarrow> ar_checksum p), ar_version = ''3'', ar_provenance = Some (JObj provenance),
        ar_evidence = Some (evidence_document e), ar_source = source, ar_projection = projection, ar_checksum = ''''\<rparr>
      in r\<lparr>ar_checksum := checksum_v3 sha r\<rparr>)"

definition existing_projection :: "uuid \<Rightarrow> uuid option \<Rightarrow> string option \<Rightarrow> audit_row list \<Rightarrow> audit_row list" where
  "existing_projection ten source projection rows =
     (if source = None then [] else filter (\<lambda>r. ar_tenant r = ten \<and> ar_source r = source \<and> ar_projection r = projection) rows)"

definition append_v3 ::
  "(string \<Rightarrow> string) \<Rightarrow> jsonb \<Rightarrow> instant \<Rightarrow> uuid \<Rightarrow> request_context \<Rightarrow> audit_evidence \<Rightarrow> (string \<times> json) list \<Rightarrow> string option \<Rightarrow> uuid option \<Rightarrow>
   string option \<Rightarrow> audit_row list \<Rightarrow> exn + audit_row \<times> audit_row list" where
  "append_v3 sha jsonb now fresh req evidence provenance trace source projection rows =
     bind_res (make_audit_evidence evidence) (\<lambda>e.
       case tenant req of
         None \<Rightarrow> Inl (BusinessOSError ''tenant_context_required'' ''Tenant context required'' 401)
       | Some ctx \<Rightarrow>
           let ten = tenant_id ctx in
           (case existing_projection ten source projection rows of
              [r] \<Rightarrow> Inr (r, rows)
            | _ # _ # _ \<Rightarrow> Inl (ForeignError ''MultipleResultsFound'')
            | [] \<Rightarrow>
                bind_res (trusted_actor_in provenance) (\<lambda>actor.
                let r = build_v3 sha now fresh req ten e provenance actor trace source projection (prior_record ten rows) in
                bind_res (stored_row jsonb r) (\<lambda>s.
                bind_res (insert_row audit_clash audit_row_ok s rows) (\<lambda>rows'. Inr (r, rows'))))))"

section \<open>Who acts\<close>

definition trusted_interactive_actor :: "authenticated_binding \<Rightarrow> request_context \<Rightarrow> exn + (string \<times> json) list" where
  "trusted_interactive_actor b req =
     (case tenant req of
        None \<Rightarrow> Inl (BusinessOSError ''unauthenticated'' ''Trusted actor required'' 401)
      | Some ctx \<Rightarrow>
          if \<not> ab_same_request b \<or> ab_tenant b \<noteq> tenant_id ctx \<or> ab_principal b \<noteq> principal_id ctx
             \<or> ab_type b \<notin> {''user'', ''service_account'', ''device''}
          then Inl (BusinessOSError ''unauthenticated'' ''Trusted actor required'' 401)
          else Inr [(''type'', JStr (ab_type b)), (''id'', uuid_json (ab_principal b)), (''source'', JStr ''identity.authenticated_principal.v1''),
                 (''scope'', JObj [(''installation_id'', uuid_json (installation_id ctx)),
                    (''company_id'', or_null uuid_json (active_company_id ctx)), (''legal_entity_id'', or_null uuid_json (legal_entity_id ctx)),
                    (''operating_site_id'', or_null uuid_json (operating_site_id ctx))])])"

definition manual_provenance :: "(string \<times> json) list \<Rightarrow> (string \<times> json) list" where
  "manual_provenance actor =
     [(''version'', JStr ''audit.provenance.v3''), (''path'', JStr ''manual-command''), (''actual_actor'', JObj actor), (''origin_actor'', JNull),
      (''support'', JNull), (''correlation_source'', JStr ''request-context''), (''trace_source'', JStr ''request-context'')]"

definition record_audit_log_v2 ::
  "(string \<Rightarrow> string) \<Rightarrow> jsonb \<Rightarrow> instant \<Rightarrow> uuid \<Rightarrow> authenticated_binding \<Rightarrow> request_context \<Rightarrow> audit_evidence \<Rightarrow> audit_row list \<Rightarrow>
   exn + audit_row \<times> audit_row list" where
  "record_audit_log_v2 sha jsonb now fresh b req evidence rows =
     bind_res (trusted_interactive_actor b req) (\<lambda>actor.
       append_v3 sha jsonb now fresh req evidence (manual_provenance actor) (Some (trace_id req)) None None rows)"

definition record_audit_log :: "exn + audit_row" where
  "record_audit_log = Inl (BusinessOSError ''audit_v1_write_disabled''
     ''Caller-supplied Audit V1 provenance is no longer accepted; use RecordAuditLogV2'' 410)"

text \<open>
  The appender a handler resolves. The ports: whether the provider is active and asked through its own
  resolver, whether that resolver still gives this provider, the validated invocation, the actor's
  binding and the bridge of a publication, which may take the record over.
\<close>

datatype publication_answer = NoPublication | Published audit_row | OtherAnswer

record appender_ports =
  xp_active :: bool
  xp_own_resolver :: bool
  xp_current :: "exn + bool"
  xp_invocation :: "exn + authority_facts"
  xp_actor :: "exn + authenticated_binding"
  xp_bridge :: "(audit_evidence \<Rightarrow> (string \<times> json) list \<Rightarrow> audit_row list \<Rightarrow> exn + publication_answer \<times> audit_row list) option"

definition handler_provenance :: "authority_facts \<Rightarrow> (string \<times> json) list \<Rightarrow> (string \<times> json) list" where
  "handler_provenance f actor =
     [(''version'', JStr ''audit.provenance.v3''), (''path'', JStr ''handler-command''), (''actual_actor'', JObj actor), (''origin_actor'', JNull),
      (''support'', JNull),
      (''handler'', JObj [(''owner'', JStr (af_owner f)), (''generation'', JInt (gen_number (af_generation f)))]),
      (''correlation_source'', JStr ''request-context''), (''trace_source'', JStr ''request-context'')]"

definition append_evidence ::
  "(string \<Rightarrow> string) \<Rightarrow> jsonb \<Rightarrow> appender_ports \<Rightarrow> instant \<Rightarrow> uuid \<Rightarrow> request_context \<Rightarrow> audit_evidence \<Rightarrow> audit_row list \<Rightarrow>
   exn + audit_row \<times> audit_row list" where
  "append_evidence sha jsonb p now fresh req evidence rows =
     (if \<not> xp_active p \<or> \<not> xp_own_resolver p then Inl (PermissionError ''Audit appender is not active in this dependency scope'')
      else
        bind_res (xp_current p) (\<lambda>same.
        if \<not> same then Inl (PermissionError ''Audit appender provider generation changed'')
        else
          bind_res (xp_invocation p) (\<lambda>f.
          if gen_owner (af_generation f) \<noteq> af_owner f \<or> \<not> list_ex (\<lambda>d. hd_module d = ''foundation.audit'') (af_dependencies f)
          then Inl (PermissionError ''Command owner lacks a direct Audit dependency'')
          else
            bind_res (xp_actor p) (\<lambda>b.
            bind_res (trusted_interactive_actor b req) (\<lambda>actor.
            let provenance = handler_provenance f actor;
                own = (\<lambda>rows. append_v3 sha jsonb now fresh req evidence provenance (Some (trace_id req)) None None rows) in
            (case xp_bridge p of
               None \<Rightarrow> own rows
             | Some bridge \<Rightarrow>
                 bind_res (bridge evidence provenance rows) (\<lambda>(answer, rows').
                   case answer of
                     NoPublication \<Rightarrow> own rows'
                   | Published r \<Rightarrow> Inr (r, rows')
                   | OtherAnswer \<Rightarrow> Inl (PermissionError ''Invalid private Audit result''))))))))"

section \<open>Committed policy decisions\<close>

record decision_event =
  pq_id :: uuid
  pq_tenant :: uuid
  pq_occurred_at :: instant
  pq_correlation :: string
  pq_causation :: "string option"
  pq_traceparent :: "string option"
  pq_principal :: subject
  pq_decision_at :: instant
  pq_mode :: string
  pq_action :: string
  pq_namespace :: string
  pq_version :: string
  pq_record :: uuid
  pq_allowed :: bool
  pq_reason :: string
  pq_policies :: "uuid list"

definition bounded_projection_label :: "(string \<Rightarrow> string) \<Rightarrow> string \<Rightarrow> string" where
  "bounded_projection_label sha s = (if length s \<le> 100 then s else take 27 s @ ''~sha256:'' @ sha s)"

definition projection_source_reference :: "(string \<Rightarrow> string) \<Rightarrow> string \<Rightarrow> json" where
  "projection_source_reference sha s = JObj [(''sha256'', JStr (sha s)), (''length'', JInt (int (length s))), (''truncated'', JBool (length s > 100))]"

definition hex_run :: "nat \<Rightarrow> string \<Rightarrow> bool" where
  "hex_run n s \<longleftrightarrow> length s = n \<and> list_all (\<lambda>c. is_digit c \<or> c \<in> set ''abcdef'') s"

definition committed_trace_id :: "decision_event \<Rightarrow> string option" where
  "committed_trace_id ev =
     (case split_on CHR ''-'' (case pq_traceparent ev of None \<Rightarrow> [] | Some s \<Rightarrow> s) of
        [a, b, c, d] \<Rightarrow>
          if hex_run 2 a \<and> hex_run 32 b \<and> hex_run 16 c \<and> hex_run 2 d \<and> set b \<noteq> {CHR ''0''} then Some b else None
      | _ \<Rightarrow> None)"

definition projection_evidence :: "(string \<Rightarrow> string) \<Rightarrow> decision_event \<Rightarrow> audit_evidence" where
  "projection_evidence sha ev =
     (let resource = pq_namespace ev @ ''@'' @ pq_version ev; ids = map uuid_json (pq_policies ev) in
      \<lparr>ae_action = bounded_projection_label sha (pq_action ev), ae_resource_type = bounded_projection_label sha resource,
       ae_resource_id = Some (show_uuid (pq_record ev)), ae_status = (if pq_allowed ev then ''allowed'' else ''denied''),
       ae_details = [(''mode'', JStr (pq_mode ev)), (''reason_code'', JStr (pq_reason ev)), (''policy_ids'', JArr (take 32 ids)),
         (''policy_ids_count'', JInt (int (length ids))), (''policy_ids_sha256'', JStr (sha (json_text escape_ascii '', '' '': '' (JArr ids)))),
         (''decision_at'', JStr (iso_text (pq_decision_at ev))), (''source_action'', projection_source_reference sha (pq_action ev)),
         (''source_resource'', projection_source_reference sha resource)]\<rparr>)"

definition workload_actor :: "workload_proof \<Rightarrow> string \<Rightarrow> json" where
  "workload_actor p verification =
     JObj [(''type'', JStr ''service_account''), (''id'', uuid_json (snd (pf_key p))), (''source'', JStr ''identity.tenant_execution_binding.v1''),
       (''scope'', JObj [(''installation_id'', uuid_json (fst (pf_key p)))]),
       (''workload'', JObj [(''process_class'', JStr (pf_class p)), (''credential_generation'', JInt (pf_generation p)),
          (''verification_reference'', JStr verification)])]"

definition delivery_provenance :: "string \<Rightarrow> execution_binding \<Rightarrow> decision_event \<Rightarrow> (string \<times> json) list" where
  "delivery_provenance verification b ev =
     [(''version'', JStr ''audit.provenance.v3''), (''path'', JStr ''committed-policy-event''),
      (''actual_actor'', workload_actor (xb_proof b) verification),
      (''origin_actor'', JObj [(''type'', JStr (fst (pq_principal ev))), (''id'', uuid_json (snd (pq_principal ev))),
         (''source'', JStr ''committed-policy-decision-v2'')]),
      (''support'', JNull),
      (''delivery'', JObj [(''source_event_id'', uuid_json (pq_id ev)), (''source_occurred_at'', JStr (iso_text (pq_occurred_at ev))),
         (''subscriber'', JStr (xb_subscriber b)), (''attempt_id'', uuid_json (xb_attempt b)), (''causation_id'', or_null JStr (pq_causation ev))]),
      (''correlation_source'', JStr ''committed-policy-event''),
      (''trace_source'', JStr (if committed_trace_id ev = None then ''absent'' else ''committed-policy-event''))]"

definition audit_subscriber :: string where
  "audit_subscriber = ''foundation.audit.policy_decision_v2''"

text \<open>
  \<open>_materialize_policy_decision\<close>. \<open>active\<close> is the answer of \<open>assert_active\<close> on the delivery's binding and
  \<open>verification\<close> the text of its verification reference. A proof is always of a service account, and its
  purpose is the one the binding was made for.
\<close>

definition materialize_policy_decision ::
  "(string \<Rightarrow> string) \<Rightarrow> jsonb \<Rightarrow> instant \<Rightarrow> uuid \<Rightarrow> request_context \<Rightarrow> execution_binding option \<Rightarrow> (execution_binding \<Rightarrow> exn + unit) \<Rightarrow>
   string \<Rightarrow> decision_event \<Rightarrow> audit_row list \<Rightarrow> exn + audit_row \<times> audit_row list" where
  "materialize_policy_decision sha jsonb now fresh req binding active verification ev rows =
     bind_res (case tenant req of
         None \<Rightarrow> Inl (BusinessOSError ''tenant_context_required'' ''Tenant context is required'' 401)
       | Some ctx \<Rightarrow> if tenant_id ctx \<noteq> pq_tenant ev
           then Inl (BusinessOSError ''tenant_scope_mismatch'' ''Target tenant does not match active boundary'' 403) else Inr ctx) (\<lambda>ctx.
     if correlation_id req \<noteq> pq_correlation ev
     then Inl (PermissionError ''Delivery correlation does not match the committed Policy event'')
     else (case binding of
         None \<Rightarrow> Inl (PermissionError ''Trusted workload binding required for Audit projection'')
       | Some b \<Rightarrow>
           bind_res (active b) (\<lambda>_.
           if xb_tenant b \<noteq> pq_tenant ev \<or> xb_event b \<noteq> pq_id ev \<or> xb_subscriber b \<noteq> audit_subscriber
              \<or> pf_purpose (xb_proof b) \<noteq> ''event-delivery'' \<or> fst (pf_key (xb_proof b)) \<noteq> installation_id ctx
           then Inl (PermissionError ''Workload delivery does not match the committed Policy event'')
           else
             bind_res (make_audit_evidence (projection_evidence sha ev)) (\<lambda>e.
             append_v3 sha jsonb now fresh req e (delivery_provenance verification b ev) (committed_trace_id ev) (Some (pq_id ev))
               (Some ''policy-decision-v2'') rows))))"

section \<open>Reading\<close>

record audit_query =
  aq_tenant :: uuid
  aq_actor :: "string option"
  aq_action :: "string option"
  aq_resource_type :: "string option"
  aq_resource_id :: "string option"
  aq_correlation :: "string option"
  aq_limit :: int
  aq_offset :: int

text \<open>A filter that is absent or the empty string does not filter.\<close>

definition wanted :: "string option \<Rightarrow> string option \<Rightarrow> bool" where
  "wanted x value \<longleftrightarrow> (case x of None \<Rightarrow> True | Some s \<Rightarrow> s = [] \<or> value = Some s)"

definition audit_tenant :: "request_context option \<Rightarrow> uuid \<Rightarrow> exn + tenant_context" where
  "audit_tenant req target =
     (case Option.bind req tenant of
        None \<Rightarrow> Inl (BusinessOSError ''tenant_context_required'' ''Tenant context is required'' 401)
      | Some ctx \<Rightarrow> if tenant_id ctx \<noteq> target
          then Inl (BusinessOSError ''tenant_scope_mismatch'' ''Target tenant does not match active boundary'' 403) else Inr ctx)"

definition query_audit_logs :: "request_context option \<Rightarrow> audit_query \<Rightarrow> audit_row list \<Rightarrow> exn + audit_row list" where
  "query_audit_logs req q rows =
     bind_res (audit_tenant req (aq_tenant q)) (\<lambda>_.
       Inr (select_page (\<lambda>a b. ar_at b \<le> ar_at a)
         (\<lambda>r. ar_tenant r = aq_tenant q \<and> wanted (aq_actor q) (Some (ar_actor r)) \<and> wanted (aq_action q) (Some (ar_action r))
            \<and> wanted (aq_resource_type q) (Some (ar_resource_type r)) \<and> wanted (aq_resource_id q) (ar_resource_id r)
            \<and> wanted (aq_correlation q) (ar_correlation r)) (aq_limit q) (aq_offset q) rows))"

definition row_is_intact :: "(string \<Rightarrow> string) \<Rightarrow> string \<Rightarrow> audit_row \<Rightarrow> bool" where
  "row_is_intact sha previous r =
     (let ver = (if ar_version r = [] then ''1'' else ar_version r) in
      if ver \<notin> {''1'', ''2'', ''3''} then False
      else if ver = ''3'' then checksum_v3 sha r = ar_checksum r \<and> ar_previous r = previous
      else compute_audit_checksum sha ver (if ver = ''2'' then ar_previous r else previous) r = ar_checksum r
           \<and> (ver = ''2'' \<longrightarrow> ar_previous r = previous))"

text \<open>The loop of \<open>_verify_integrity\<close>: the checksum before, the records left; the tampered ones.\<close>

fun tampered_from :: "(string \<Rightarrow> string) \<Rightarrow> string \<Rightarrow> audit_row list \<Rightarrow> uuid list" where
  "tampered_from sha previous [] = []"
| "tampered_from sha previous (r # rs) =
     (if row_is_intact sha previous r then tampered_from sha (ar_checksum r) rs
      else ar_id r # tampered_from sha (ar_checksum r) rs)"

definition tenant_log :: "uuid \<Rightarrow> audit_row list \<Rightarrow> audit_row list" where
  "tenant_log ten rows = order_by earliest_first (filter (\<lambda>r. ar_tenant r = ten) rows)"

definition verify_log :: "(string \<Rightarrow> string) \<Rightarrow> uuid \<Rightarrow> audit_row list \<Rightarrow> nat \<times> bool \<times> uuid list" where
  "verify_log sha ten rows =
     (let trail = tenant_log ten rows; bad = tampered_from sha [] trail in (length trail, bad = [], bad))"

definition verify_integrity :: "(string \<Rightarrow> string) \<Rightarrow> request_context option \<Rightarrow> uuid \<Rightarrow> audit_row list \<Rightarrow> exn + nat \<times> bool \<times> uuid list" where
  "verify_integrity sha req ten rows = bind_res (audit_tenant req ten) (\<lambda>_. Inr (verify_log sha ten rows))"

section \<open>The order of a log\<close>

lemma insort_by_last: "(\<And>y. y \<in> set ys \<Longrightarrow> \<not> le x y) \<Longrightarrow> insort_by le x ys = ys @ [x]"
  by (induction ys) auto

lemma order_by_sorted: "sorted_wrt le xs \<Longrightarrow> order_by le xs = xs"
proof (induction xs)
  case (Cons x xs)
  then show ?case by (cases xs) (auto simp: order_by_def)
qed (simp add: order_by_def)

lemma order_by_reversed: "sorted_wrt (\<lambda>a b. \<not> le a b) xs \<Longrightarrow> order_by le xs = rev xs"
proof (induction xs)
  case (Cons x xs)
  then have "order_by le xs = rev xs" "\<And>y. y \<in> set (rev xs) \<Longrightarrow> \<not> le x y" by auto
  then show ?case using insort_by_last [of "rev xs" le x] by (simp add: order_by_def)
qed (simp add: order_by_def)

abbreviation log_of :: "uuid \<Rightarrow> audit_row list \<Rightarrow> audit_row list" where
  "log_of ten rows \<equiv> filter (\<lambda>r. ar_tenant r = ten) rows"

abbreviation increasing :: "audit_row list \<Rightarrow> bool" where
  "increasing trail \<equiv> sorted_wrt (\<lambda>a b. ar_at a < ar_at b) trail"

lemma tenant_log_increasing: "increasing (log_of ten rows) \<Longrightarrow> tenant_log ten rows = log_of ten rows"
  unfolding tenant_log_def
  by (rule order_by_sorted) (erule sorted_wrt_mono_rel [rotated], simp add: earliest_first_def less_eq_prod_def)

lemma prior_record_increasing:
  assumes "increasing (log_of ten rows)"
  shows "prior_record ten rows = (if log_of ten rows = [] then None else Some (last (log_of ten rows)))"
proof -
  have "sorted_wrt (\<lambda>a b. \<not> latest_first a b) (log_of ten rows)"
    by (rule sorted_wrt_mono_rel [OF _ assms]) (simp add: latest_first_def less_eq_prod_def)
  then have "order_by latest_first (log_of ten rows) = rev (log_of ten rows)" by (rule order_by_reversed)
  then show ?thesis by (cases "log_of ten rows" rule: rev_cases) (simp_all add: prior_record_def)
qed

definition checksum_before :: "string \<Rightarrow> audit_row list \<Rightarrow> string" where
  "checksum_before p trail = (if trail = [] then p else ar_checksum (last trail))"

lemma tampered_from_snoc:
  "tampered_from sha p (trail @ [r]) =
     tampered_from sha p trail @ (if row_is_intact sha (checksum_before p trail) r then [] else [ar_id r])"
  by (induction trail arbitrary: p) (auto simp: checksum_before_def)

section \<open>A log of appends verifies\<close>

fun no_floats :: "json \<Rightarrow> bool"
and items_no_floats :: "json list \<Rightarrow> bool"
and entries_no_floats :: "(string \<times> json) list \<Rightarrow> bool" where
  "no_floats (JFloat r) \<longleftrightarrow> False"
| "no_floats (JArr xs) \<longleftrightarrow> items_no_floats xs"
| "no_floats (JObj es) \<longleftrightarrow> entries_no_floats es"
| "no_floats _ \<longleftrightarrow> True"
| "items_no_floats [] \<longleftrightarrow> True"
| "items_no_floats (x # xs) \<longleftrightarrow> no_floats x \<and> items_no_floats xs"
| "entries_no_floats [] \<longleftrightarrow> True"
| "entries_no_floats ((k, v) # es) \<longleftrightarrow> no_floats v \<and> entries_no_floats es"

text \<open>
  PostgreSQL keeps a JSONB document without floats up to the order of its keys, or refuses it. A float may
  come back as an integer (\<open>1e+16\<close> does), so such evidence is outside the law.
\<close>

definition keeps_documents :: "jsonb \<Rightarrow> bool" where
  "keeps_documents jsonb \<longleftrightarrow>
     (\<forall>j j'. no_floats j \<longrightarrow> jsonb j = Inr j' \<longrightarrow> json_text escape_ascii '','' '':'' j' = json_text escape_ascii '','' '':'' j)"

definition provenance_plain :: "(string \<times> json) list \<Rightarrow> audit_evidence \<Rightarrow> bool" where
  "provenance_plain provenance e \<longleftrightarrow> no_floats (JObj provenance) \<and> no_floats (JObj (ae_details e))"

definition log_ok :: "(string \<Rightarrow> string) \<Rightarrow> audit_row list \<Rightarrow> bool" where
  "log_ok sha rows \<longleftrightarrow> (\<forall>ten. increasing (log_of ten rows) \<and> tampered_from sha [] (log_of ten rows) = [])"

lemma checksum_v3_text:
  assumes "json_text escape_ascii '','' '':'' (v3_envelope r) = json_text escape_ascii '','' '':'' (v3_envelope s)"
  shows "checksum_v3 sha r = checksum_v3 sha s"
  using assms by (simp add: checksum_v3_def)

lemma entry_texts_replace:
  "json_text esc comma colon v = json_text esc comma colon w \<Longrightarrow>
   entry_texts esc comma colon (es @ (k, v) # fs) = entry_texts esc comma colon (es @ (k, w) # fs)"
  by (simp add: entry_texts_map)

lemma stored_row_Inr:
  "stored_row jsonb r = Inr s \<Longrightarrow> ar_provenance r = Some p \<Longrightarrow> ar_evidence r = Some e \<Longrightarrow>
   \<exists>p' e'. jsonb p = Inr p' \<and> jsonb e = Inr e' \<and> s = r\<lparr>ar_provenance := Some p', ar_evidence := Some e'\<rparr>"
  by (cases "jsonb p"; cases "jsonb e") (auto simp: stored_row_def)

lemma stored_checksum:
  assumes law: "keeps_documents jsonb" and s: "stored_row jsonb r = Inr s"
    and p: "ar_provenance r = Some p" "no_floats p" and e: "ar_evidence r = Some e" "no_floats e"
  shows "checksum_v3 sha s = checksum_v3 sha r"
proof -
  obtain p' e' where j: "jsonb p = Inr p'" "jsonb e = Inr e'" and s': "s = r\<lparr>ar_provenance := Some p', ar_evidence := Some e'\<rparr>"
    using stored_row_Inr [OF s p(1) e(1)] by blast
  from law j p e have t: "json_text escape_ascii '','' '':'' p' = json_text escape_ascii '','' '':'' p"
    "json_text escape_ascii '','' '':'' e' = json_text escape_ascii '','' '':'' e" by (auto simp: keeps_documents_def)
  have "entry_texts escape_ascii '','' '':'' [(''provenance_v3'', p'), (''evidence_v3'', e')]
      = entry_texts escape_ascii '','' '':'' [(''provenance_v3'', p), (''evidence_v3'', e)]" by (simp add: t)
  then show ?thesis by (simp add: checksum_v3_def v3_envelope_def s' p(1) e(1) or_null_def t)
qed

lemma make_audit_evidence_same: "make_audit_evidence e = Inr e' \<Longrightarrow> e' = e"
  by (auto simp: make_audit_evidence_def bind_res_Inr split: if_splits)

lemma append_v3_cases:
  assumes "append_v3 sha jsonb now fresh req e provenance trace source projection rows = Inr (r, rows')"
  obtains (known) ctx where "rows' = rows" "tenant req = Some ctx" "source \<noteq> None"
      "existing_projection (tenant_id ctx) source projection rows = [r]"
  | (new) ctx actor s where "tenant req = Some ctx" "existing_projection (tenant_id ctx) source projection rows = []"
      "r = build_v3 sha now fresh req (tenant_id ctx) e provenance actor trace source projection (prior_record (tenant_id ctx) rows)"
      "stored_row jsonb r = Inr s" "rows' = rows @ [s]" "audit_row_ok s" "\<forall>x \<in> set rows. \<not> audit_clash s x"
proof (cases "tenant req")
  case None
  with assms show ?thesis by (auto simp: append_v3_def bind_res_Inr)
next
  case (Some ctx)
  show ?thesis
  proof (cases "existing_projection (tenant_id ctx) source projection rows")
    case Nil
    with Some assms new show ?thesis
      by (auto simp: append_v3_def bind_res_Inr Let_def dest!: make_audit_evidence_same)
  next
    case (Cons a as)
    with Some assms have "as = []" "a = r" "rows' = rows" by (auto simp: append_v3_def bind_res_Inr Let_def split: list.splits)
    with Cons Some known show ?thesis by (auto simp: existing_projection_def split: if_splits)
  qed
qed

lemma build_v3_fields:
  "ar_tenant (build_v3 sha now fresh req ten e provenance actor trace source projection prior) = ten"
  "ar_at (build_v3 sha now fresh req ten e provenance actor trace source projection prior) = next_instant now prior"
  "ar_previous (build_v3 sha now fresh req ten e provenance actor trace source projection prior) =
     (case prior of None \<Rightarrow> [] | Some p \<Rightarrow> ar_checksum p)"
  "ar_version (build_v3 sha now fresh req ten e provenance actor trace source projection prior) = ''3''"
  "ar_provenance (build_v3 sha now fresh req ten e provenance actor trace source projection prior) = Some (JObj provenance)"
  "ar_evidence (build_v3 sha now fresh req ten e provenance actor trace source projection prior) = Some (evidence_document e)"
  "ar_source (build_v3 sha now fresh req ten e provenance actor trace source projection prior) = source"
  "ar_projection (build_v3 sha now fresh req ten e provenance actor trace source projection prior) = projection"
  by (simp_all add: build_v3_def Let_def)

lemma build_v3_checksum:
  "checksum_v3 sha (build_v3 sha now fresh req ten e provenance actor trace source projection prior)
     = ar_checksum (build_v3 sha now fresh req ten e provenance actor trace source projection prior)"
  by (simp add: build_v3_def Let_def checksum_v3_def v3_envelope_def)

lemma no_floats_evidence: "no_floats (JObj (ae_details e)) \<Longrightarrow> no_floats (evidence_document e)"
  by (simp add: evidence_document_def or_null_def split: option.split)

lemma next_instant_later:
  assumes "increasing trail" "x \<in> set trail"
  shows "ar_at x < next_instant now (if trail = [] then None else Some (last trail))"
proof -
  from assms have "ar_at x \<le> ar_at (last trail)"
    by (cases trail rule: rev_cases) (auto simp: sorted_wrt_append less_imp_le)
  with assms(2) show ?thesis by (auto simp: next_instant_def)
qed

lemma append_v3_log_ok:
  assumes ok: "log_ok sha rows" and law: "keeps_documents jsonb" and plain: "provenance_plain provenance e"
    and run: "append_v3 sha jsonb now fresh req e provenance trace source projection rows = Inr (r, rows')"
  shows "log_ok sha rows'"
  using run
proof (cases rule: append_v3_cases)
  case known
  with ok show ?thesis by simp
next
  case (new ctx actor s)
  let ?ten = "tenant_id ctx" and ?trail = "log_of (tenant_id ctx) rows"
  note f = build_v3_fields [of sha now fresh req ?ten e provenance actor trace source projection "prior_record ?ten rows", folded new(3)]
  from stored_row_Inr [OF new(4) f(5,6)] obtain p' e' where s: "s = r\<lparr>ar_provenance := Some p', ar_evidence := Some e'\<rparr>" by blast
  have inc: "increasing ?trail" and good: "tampered_from sha [] ?trail = []" using ok by (auto simp: log_ok_def)
  have "checksum_v3 sha s = ar_checksum s"
    using stored_checksum [OF law new(4) f(5) _ f(6)] plain no_floats_evidence build_v3_checksum new(3)
    by (auto simp: provenance_plain_def s)
  moreover have "ar_previous s = checksum_before [] ?trail" "ar_version s = ''3''"
    using f(3,4) by (auto simp: s checksum_before_def prior_record_increasing [OF inc])
  ultimately have "row_is_intact sha (checksum_before [] ?trail) s" by (simp add: row_is_intact_def)
  then have "tampered_from sha [] (?trail @ [s]) = []" using good by (simp add: tampered_from_snoc)
  moreover have "ar_at x < ar_at s" if "x \<in> set ?trail" for x
    using next_instant_later [OF inc that, of now] f(2) by (simp add: s prior_record_increasing [OF inc] del: set_filter)
  then have "increasing (?trail @ [s])" using inc by (simp add: sorted_wrt_append)
  moreover have "ar_tenant s = ?ten" using f(1) by (simp add: s)
  ultimately show ?thesis using ok new(5) by (auto simp: log_ok_def)
qed

text \<open>Every way a record is written, and the ones before it.\<close>

inductive audit_history :: "(string \<Rightarrow> string) \<Rightarrow> jsonb \<Rightarrow> audit_row list \<Rightarrow> bool" for sha jsonb where
  empty: "audit_history sha jsonb []"
| manual: "audit_history sha jsonb rows \<Longrightarrow> no_floats (JObj (ae_details e)) \<Longrightarrow>
    record_audit_log_v2 sha jsonb now fresh b req e rows = Inr (r, rows') \<Longrightarrow> audit_history sha jsonb rows'"
| handler: "audit_history sha jsonb rows \<Longrightarrow> no_floats (JObj (ae_details e)) \<Longrightarrow> xp_bridge p = None \<Longrightarrow>
    append_evidence sha jsonb p now fresh req e rows = Inr (r, rows') \<Longrightarrow> audit_history sha jsonb rows'"
| projected: "audit_history sha jsonb rows \<Longrightarrow>
    materialize_policy_decision sha jsonb now fresh req binding active verification ev rows = Inr (r, rows') \<Longrightarrow> audit_history sha jsonb rows'"
| published: "audit_history sha jsonb rows \<Longrightarrow> provenance_plain provenance e \<Longrightarrow>
    append_v3 sha jsonb now fresh req e provenance (Some (trace_id req)) None None rows = Inr (r, rows') \<Longrightarrow> audit_history sha jsonb rows'"

lemma or_null_plain: "(\<And>x. no_floats (f x)) \<Longrightarrow> no_floats (or_null f y)"
  by (cases y) (simp_all add: or_null_def)

lemma uuid_json_plain: "no_floats (uuid_json u)"
  by (simp add: uuid_json_def)

lemmas plain_parts = or_null_plain uuid_json_plain

lemma trusted_actor_plain: "trusted_interactive_actor b req = Inr a \<Longrightarrow> entries_no_floats a"
  by (auto simp: trusted_interactive_actor_def plain_parts split: option.splits if_splits)

lemma projection_plain: "provenance_plain (delivery_provenance verification b ev) (projection_evidence sha ev)"
proof -
  have "items_no_floats (take n (map uuid_json us))" for n us
    by (induction us arbitrary: n) (auto simp: take_Cons' plain_parts)
  then show ?thesis
    by (simp add: provenance_plain_def delivery_provenance_def projection_evidence_def Let_def projection_source_reference_def
        workload_actor_def plain_parts)
qed

lemma audit_history_ok:
  assumes "audit_history sha jsonb rows" and law: "keeps_documents jsonb"
  shows "log_ok sha rows"
  using assms(1)
proof induction
  case empty
  then show ?case by (simp add: log_ok_def)
next
  case (manual rows e now fresh b req r rows')
  then obtain a where a: "trusted_interactive_actor b req = Inr a"
    and run: "append_v3 sha jsonb now fresh req e (manual_provenance a) (Some (trace_id req)) None None rows = Inr (r, rows')"
    by (auto simp: record_audit_log_v2_def bind_res_Inr)
  from trusted_actor_plain [OF a] manual(2) have "provenance_plain (manual_provenance a) e"
    by (simp add: provenance_plain_def manual_provenance_def)
  from append_v3_log_ok [OF manual.IH law this run] show ?case .
next
  case (handler rows e p now fresh req r rows')
  then obtain a f b where a: "trusted_interactive_actor b req = Inr a"
    and run: "append_v3 sha jsonb now fresh req e (handler_provenance f a) (Some (trace_id req)) None None rows = Inr (r, rows')"
    by (auto simp: append_evidence_def bind_res_Inr Let_def split: if_splits)
  from trusted_actor_plain [OF a] handler(2) have "provenance_plain (handler_provenance f a) e"
    by (simp add: provenance_plain_def handler_provenance_def)
  from append_v3_log_ok [OF handler.IH law this run] show ?case .
next
  case (projected rows now fresh req binding active verification ev r rows')
  then obtain e b trace source projection where e: "make_audit_evidence (projection_evidence sha ev) = Inr e"
    "append_v3 sha jsonb now fresh req e (delivery_provenance verification b ev) trace source projection rows = Inr (r, rows')"
    by (auto simp: materialize_policy_decision_def bind_res_Inr split: if_splits option.splits)
  with append_v3_log_ok [OF projected.IH law] projection_plain show ?case by (metis make_audit_evidence_same)
next
  case (published rows provenance e now fresh req r rows')
  then show ?case using append_v3_log_ok [OF published.IH law] by blast
qed

definition projection_keys :: "audit_row list \<Rightarrow> (uuid \<times> uuid option \<times> string option) list" where
  "projection_keys rows = map (\<lambda>r. (ar_tenant r, ar_source r, ar_projection r)) (filter (\<lambda>r. ar_source r \<noteq> None) rows)"

lemma append_v3_projections:
  assumes "append_v3 sha jsonb now fresh req e provenance trace source projection rows = Inr (r, rows')" and "distinct (projection_keys rows)"
  shows "distinct (projection_keys rows')"
  using assms(1)
proof (cases rule: append_v3_cases)
  case known
  with assms(2) show ?thesis by simp
next
  case (new ctx actor s)
  then show ?thesis using assms(2) by (auto simp: projection_keys_def audit_clash_def)
qed

lemma audit_history_projections: "audit_history sha jsonb rows \<Longrightarrow> distinct (projection_keys rows)"
proof (induction rule: audit_history.induct)
  case empty
  then show ?case by (simp add: projection_keys_def)
qed (auto simp: record_audit_log_v2_def append_evidence_def materialize_policy_decision_def bind_res_Inr Let_def
    split: if_splits option.splits dest: append_v3_projections)


section \<open>The head of the chain determines the log\<close>

definition row_text :: "string \<Rightarrow> audit_row \<Rightarrow> string" where
  "row_text previous r =
     (if ar_version r = ''3'' then json_text escape_ascii '','' '':'' (v3_envelope r)
      else if ar_version r = ''2'' then json_text escape_ascii '','' '':'' (checksum_v2_document (ar_previous r) r)
      else join_with ''|'' [previous, show_uuid (ar_tenant r), iso_text (ar_at r), ar_actor r, ar_action r, ar_resource_type r,
             (case ar_resource_id r of None \<Rightarrow> [] | Some s \<Rightarrow> s), ar_status r])"

definition row_well_formed :: "audit_row \<Rightarrow> bool" where
  "row_well_formed r \<longleftrightarrow>
     list_all (\<lambda>x. case x of None \<Rightarrow> True | Some j \<Rightarrow> well_formed j) [ar_before r, ar_after r, ar_decision r, ar_provenance r, ar_evidence r]"

definition chain_head :: "uuid \<Rightarrow> audit_row list \<Rightarrow> string" where
  "chain_head ten rows = checksum_before [] (tenant_log ten rows)"

definition collision :: "(string \<Rightarrow> string) \<Rightarrow> bool" where
  "collision sha \<longleftrightarrow> (\<exists>a b. a \<noteq> b \<and> sha a = sha b)"

lemma row_is_intact_text:
  "row_is_intact sha p r \<Longrightarrow> sha (row_text p r) = ar_checksum r \<and> (ar_version r \<in> {''2'', ''3''} \<longrightarrow> ar_previous r = p)"
  by (auto simp: row_is_intact_def Let_def row_text_def checksum_v3_def compute_audit_checksum_def split: if_splits)

lemma or_null_well_formed: "(\<And>x. well_formed (f x)) \<Longrightarrow> well_formed (or_null f y)"
  by (cases y) (simp_all add: or_null_def)

lemma uuid_well_formed: "well_formed (uuid_json u)"
  by (simp add: uuid_json_def)

lemma or_null_id: "well_formed (or_null id y) = (case y of None \<Rightarrow> True | Some j \<Rightarrow> well_formed j)"
  by (cases y) (simp_all add: or_null_def)

lemma envelopes_well_formed:
  assumes "row_well_formed r" shows "well_formed (v3_envelope r)" "well_formed (checksum_v2_document p r)"
  using assms by (simp_all add: v3_envelope_def checksum_v2_document_def row_well_formed_def or_null_well_formed uuid_well_formed or_null_id)

lemma normal_entries_equal: "normal (JObj es) = normal (JObj fs) \<Longrightarrow> set (normal_entries es) = set (normal_entries fs)"
  by simp (metis set_sort)

lemma envelope_previous:
  assumes "normal (v3_envelope r) = normal (v3_envelope s)" shows "ar_previous r = ar_previous s"
proof -
  note eq = normal_entries_equal [OF assms [unfolded v3_envelope_def]]
  have "(''previous_checksum'', JStr (ar_previous r)) \<in> set (normal_entries
     (case v3_envelope r of JObj es \<Rightarrow> es | _ \<Rightarrow> []))" by (simp add: v3_envelope_def)
  then have "(''previous_checksum'', JStr (ar_previous r)) \<in> set (normal_entries
     (case v3_envelope s of JObj es \<Rightarrow> es | _ \<Rightarrow> []))" using eq by (simp only: v3_envelope_def json.case)
  then show ?thesis by (simp add: v3_envelope_def)
qed

lemma versions_differ: "normal (v3_envelope r) \<noteq> normal (checksum_v2_document p s)"
proof
  assume "normal (v3_envelope r) = normal (checksum_v2_document p s)"
  note eq = normal_entries_equal [OF this [unfolded v3_envelope_def checksum_v2_document_def]]
  have "(''integrity_version'', JStr ''3'') \<in> set (normal_entries (case v3_envelope r of JObj es \<Rightarrow> es | _ \<Rightarrow> []))"
    by (simp add: v3_envelope_def)
  then have "(''integrity_version'', JStr ''3'') \<in> set (normal_entries (case checksum_v2_document p s of JObj es \<Rightarrow> es | _ \<Rightarrow> []))"
    using eq by (simp only: v3_envelope_def checksum_v2_document_def json.case)
  then show False by (simp add: checksum_v2_document_def)
qed

lemma v3_text: "\<exists>s. json_text escape_ascii '','' '':'' (v3_envelope r) = CHR ''{'' # s"
  by (simp add: v3_envelope_def del: entry_texts.simps)

lemma intact_head:
  assumes "tampered_from sha [] trail = []" and "trail \<noteq> []"
  shows "checksum_before [] trail = sha (row_text (checksum_before [] (butlast trail)) (last trail))"
proof -
  from assms(2) obtain ys s where t: "trail = ys @ [s]" by (cases trail rule: rev_cases) auto
  with assms(1) have "row_is_intact sha (checksum_before [] ys) s" by (simp add: tampered_from_snoc split: if_splits)
  from row_is_intact_text [OF this] show ?thesis by (simp add: t checksum_before_def)
qed

text \<open>Two intact chains with one head end in the same record and have one head before it.\<close>

lemma same_last_record:
  assumes no: "\<not> collision sha" and sha: "\<And>a. sha a \<noteq> [] \<and> hd (sha a) \<noteq> CHR ''{''"
    and xs: "tampered_from sha [] (xs @ [r]) = []" "ar_version r = ''3''" "row_well_formed r"
    and ys: "tampered_from sha [] (ys @ [s]) = []" "row_well_formed s"
    and head: "checksum_before [] (xs @ [r]) = checksum_before [] (ys @ [s])"
  shows "ar_version s = ''3'' \<and> normal (v3_envelope r) = normal (v3_envelope s) \<and> checksum_before [] xs = checksum_before [] ys"
proof -
  have ir: "row_is_intact sha (checksum_before [] xs) r" and js: "row_is_intact sha (checksum_before [] ys) s" and ys': "tampered_from sha [] ys = []"
    using xs(1) ys(1) by (auto simp: tampered_from_snoc split: if_splits)
  have "sha (row_text (checksum_before [] xs) r) = sha (row_text (checksum_before [] ys) s)"
    using row_is_intact_text [OF ir] row_is_intact_text [OF js] head by (simp add: checksum_before_def)
  with no have same: "row_text (checksum_before [] xs) r = row_text (checksum_before [] ys) s" by (auto simp: collision_def)
  then have printed: "json_text escape_ascii '','' '':'' (v3_envelope r) = row_text (checksum_before [] ys) s" by (simp add: row_text_def xs(2))
  have start: "hd (checksum_before [] ys) \<noteq> CHR ''{''" if "ys \<noteq> []" using intact_head [OF ys' that] sha by simp
  have nonempty: "checksum_before [] ys \<noteq> []" if "ys \<noteq> []" using intact_head [OF ys' that] sha by simp
  have brace: "\<exists>z. row_text (checksum_before [] ys) s = CHR ''{'' # z" using v3_text [of r] printed by simp
  have "ar_version s \<in> {''2'', ''3''}"
  proof (rule ccontr)
    assume "ar_version s \<notin> {''2'', ''3''}"
    with brace start nonempty show False
      by (cases "ys = []"; cases "checksum_before [] ys") (auto simp: row_text_def checksum_before_def)
  qed
  moreover have "ar_version s \<noteq> ''2''"
    using printed ascii.json_text_inj [OF envelopes_well_formed(1) [OF xs(3)] envelopes_well_formed(2) [OF ys(2)], of "ar_previous s"]
      versions_differ [of r "ar_previous s" s]
    by (auto simp: row_text_def)
  ultimately have v: "ar_version s = ''3''" by simp
  then have env: "normal (v3_envelope r) = normal (v3_envelope s)"
    using printed ascii.json_text_inj [OF envelopes_well_formed(1) [OF xs(3)] envelopes_well_formed(1) [OF ys(2)]] by (simp add: row_text_def)
  have "ar_previous r = checksum_before [] xs" "ar_previous s = checksum_before [] ys"
    using row_is_intact_text [OF ir] row_is_intact_text [OF js] xs(2) v by auto
  with envelope_previous [OF env] v env show ?thesis by simp
qed

lemma intact_head_nonempty:
  assumes "tampered_from sha [] trail = []" "trail \<noteq> []" "\<And>a. sha a \<noteq> [] \<and> hd (sha a) \<noteq> CHR ''{''"
  shows "checksum_before [] trail \<noteq> []"
  unfolding intact_head [OF assms(1,2)] using assms(3) by blast

lemma chains_agree:
  assumes no: "\<not> collision sha" and sha: "\<And>a. sha a \<noteq> [] \<and> hd (sha a) \<noteq> CHR ''{''"
  shows "tampered_from sha [] xs = [] \<Longrightarrow> tampered_from sha [] ys = [] \<Longrightarrow> list_all (\<lambda>r. ar_version r = ''3'' \<and> row_well_formed r) xs \<Longrightarrow>
     list_all row_well_formed ys \<Longrightarrow> checksum_before [] xs = checksum_before [] ys \<Longrightarrow>
     map (\<lambda>r. normal (v3_envelope r)) xs = map (\<lambda>r. normal (v3_envelope r)) ys \<and> list_all (\<lambda>r. ar_version r = ''3'') ys"
proof (induction xs arbitrary: ys rule: rev_induct)
  case Nil
  have "ys = []"
  proof (rule ccontr)
    assume "ys \<noteq> []"
    from intact_head_nonempty [OF Nil.prems(2) this sha] Nil.prems(5) show False by (simp add: checksum_before_def)
  qed
  then show ?case by simp
next
  case (snoc r xs)
  show ?case
  proof (cases ys rule: rev_cases)
    case Nil
    from intact_head_nonempty [OF snoc.prems(1) _ sha] snoc.prems(5) show ?thesis by (simp add: Nil checksum_before_def)
  next
    case (snoc zs s)
    note ys = this
    have last: "ar_version s = ''3'' \<and> normal (v3_envelope r) = normal (v3_envelope s) \<and> checksum_before [] xs = checksum_before [] zs"
      by (rule same_last_record [OF no sha]) (use snoc.prems ys in auto)
    have "tampered_from sha [] xs = []" "tampered_from sha [] zs = []"
      using snoc.prems(1,2) ys by (auto simp: tampered_from_snoc)
    with snoc.IH [of zs] snoc.prems ys last show ?thesis by auto
  qed
qed

text \<open>
  C36: Tamper evidence. When a tenant's log of version 3 records and any other log with the same head both verify,
  they hold the same records, field by field (documents up to the order of their keys), of version 3:
  nothing was changed, inserted, dropped, reordered or downgraded, unless SHA-256 has collided. A digest
  is a nonempty text that does not start with a brace.
\<close>

theorem verified_head_determines_log:
  assumes "verify_log sha ten rows = (n, True, [])" and "verify_log sha ten rows' = (n', True, [])"
    and "chain_head ten rows = chain_head ten rows'"
    and "list_all (\<lambda>r. ar_version r = ''3'' \<and> row_well_formed r) (tenant_log ten rows)" and "list_all row_well_formed (tenant_log ten rows')"
    and "\<And>a. sha a \<noteq> [] \<and> hd (sha a) \<noteq> CHR ''{''"
  shows "collision sha \<or>
    (n = n' \<and> map (\<lambda>r. normal (v3_envelope r)) (tenant_log ten rows) = map (\<lambda>r. normal (v3_envelope r)) (tenant_log ten rows')
       \<and> list_all (\<lambda>r. ar_version r = ''3'') (tenant_log ten rows'))"
proof (cases "collision sha")
  case False
  from assms(1,2) have "tampered_from sha [] (tenant_log ten rows) = []" "tampered_from sha [] (tenant_log ten rows') = []"
    and n: "n = length (tenant_log ten rows)" "n' = length (tenant_log ten rows')" by (auto simp: verify_log_def Let_def)
  from chains_agree [OF False assms(6) this(1,2) assms(4,5)] assms(3)
  have eq: "map (\<lambda>r. normal (v3_envelope r)) (tenant_log ten rows) = map (\<lambda>r. normal (v3_envelope r)) (tenant_log ten rows')"
    and v: "list_all (\<lambda>r. ar_version r = ''3'') (tenant_log ten rows')" by (auto simp: chain_head_def)
  from eq have "n = n'" using n by (metis length_map)
  with eq v show ?thesis by simp
qed simp

section \<open>Examples\<close>

lemma normal_entries_map: "normal_entries es = map (apsnd normal) es"
  by (induction es) auto

lemma sort_key_idem: "sort_key f (sort_key f xs) = sort_key f xs"
  by (intro sort_key_id_if_sorted) simp

lemma normal_normal:
  "normal (normal j) = normal j" "normal_items (normal_items xs) = normal_items xs" "normal_entries (normal_entries es) = normal_entries es"
proof (induction j and xs and es rule: normal_normal_items_normal_entries.induct)
  case (2 es)
  have "normal_entries (sort_key fst (normal_entries es)) = sort_key fst (normal_entries (normal_entries es))"
    by (simp only: normal_entries_map sort_key_apsnd)
  with 2 show ?case by (simp add: sort_key_idem)
qed simp_all

definition sorting_jsonb :: jsonb where
  "sorting_jsonb j = Inr (normal j)"

lemma sorting_jsonb_keeps: "keeps_documents sorting_jsonb"
  by (auto simp: keeps_documents_def sorting_jsonb_def plain_normal normal_normal)

text \<open>A lawful append succeeds: evidence and actor within bounds, an identifier not used before.\<close>

lemma append_succeeds:
  assumes "make_audit_evidence e = Inr e" and "tenant req = Some ctx" and "trusted_actor_in provenance = Inr (i, ty)"
    and "length i \<le> 100" "length ty \<le> 50" "length (correlation_id req) \<le> 100" "option_fits 100 trace"
    and sha: "\<And>a. length (sha a) \<le> 64" and rows: "\<forall>x \<in> set rows. length (ar_checksum x) \<le> 64 \<and> ar_id x \<noteq> fresh"
  shows "\<exists>r s. append_v3 sha sorting_jsonb now fresh req e provenance trace None None rows = Inr (r, rows @ [s])
      \<and> ar_id s = fresh \<and> ar_tenant s = tenant_id ctx \<and> length (ar_checksum s) \<le> 64"
proof -
  let ?prior = "prior_record (tenant_id ctx) rows"
  let ?r = "build_v3 sha now fresh req (tenant_id ctx) e provenance (i, ty) trace None None ?prior"
  let ?s = "?r\<lparr>ar_provenance := Some (normal (JObj provenance)), ar_evidence := Some (normal (evidence_document e))\<rparr>"
  have b: "evidence_bounds e" using assms(1) by (auto simp: make_audit_evidence_def split: if_splits)
  have prior: "x \<in> set rows" if "?prior = Some x" for x
    using that by (auto simp: prior_record_def split: list.splits dest!: arg_cong [where f = set])
  have st: "stored_row sorting_jsonb ?r = Inr ?s"
    by (simp add: stored_row_def sorting_jsonb_def build_v3_fields)
  have "audit_row_ok ?s"
    using assms(4-9) b prior by (auto simp: audit_row_ok_def build_v3_def Let_def text_fits_def option_fits_def evidence_bounds_def
        checksum_v3_def split: option.splits)
  moreover have "\<forall>x \<in> set rows. \<not> audit_clash ?s x"
    using rows by (auto simp: audit_clash_def build_v3_def Let_def)
  ultimately have "append_v3 sha sorting_jsonb now fresh req e provenance trace None None rows = Inr (?r, rows @ [?s])"
    using assms(1-3) st by (simp add: append_v3_def existing_projection_def Let_def insert_row_def list_ex_iff)
  moreover have "ar_id ?s = fresh \<and> ar_tenant ?s = tenant_id ctx \<and> length (ar_checksum ?s) \<le> 64"
    using sha by (simp add: build_v3_def Let_def checksum_v3_def)
  ultimately show ?thesis by blast
qed

lemma length_show_uuid: "length (show_uuid u) = 36"
  by (simp add: show_uuid_def Let_def hex_digits_def)

definition sample_evidence :: audit_evidence where
  "sample_evidence = \<lparr>ae_action = ''party.merge'', ae_resource_type = ''party'', ae_resource_id = None, ae_status = ''success'',
     ae_details = [(''kept'', JInt 4), (''dropped'', JArr [JInt 5])]\<rparr>"

definition sample_audit_request :: request_context where
  "sample_audit_request = \<lparr>correlation_id = ''c'', trace_id = ''t'', tenant = Some (tenant_context_of 1 7 9)\<rparr>"

definition sample_actor :: authenticated_binding where
  "sample_actor = \<lparr>ab_same_request = True, ab_tenant = 7, ab_principal = 9, ab_type = ''user''\<rparr>"

lemma sample_evidence_ok: "make_audit_evidence sample_evidence = Inr sample_evidence"
  by code_simp

lemma sample_manual:
  assumes "\<forall>x \<in> set rows. length (ar_checksum x) \<le> 64 \<and> ar_id x \<noteq> fresh"
  shows "\<exists>r s. record_audit_log_v2 (\<lambda>_. ''d'') sorting_jsonb now fresh sample_actor sample_audit_request sample_evidence rows = Inr (r, rows @ [s])
      \<and> ar_id s = fresh \<and> ar_tenant s = 7 \<and> length (ar_checksum s) \<le> 64"
proof -
  have a: "trusted_interactive_actor sample_actor sample_audit_request = Inr
      [(''type'', JStr ''user''), (''id'', uuid_json 9), (''source'', JStr ''identity.authenticated_principal.v1''),
       (''scope'', JObj [(''installation_id'', uuid_json 1), (''company_id'', JNull), (''legal_entity_id'', JNull), (''operating_site_id'', JNull)])]"
    by (simp add: trusted_interactive_actor_def sample_actor_def sample_audit_request_def tenant_context_of_def or_null_def)
  show ?thesis
    unfolding record_audit_log_v2_def a bind_res_simps
    by (rule append_succeeds [where i = "show_uuid 9" and ty = "''user''" and ctx = "tenant_context_of 1 7 9", simplified tenant_context_of_def, simplified])
      (use assms sample_evidence_ok in \<open>auto simp: sample_audit_request_def manual_provenance_def trusted_actor_in_def entry_text_def
         uuid_json_def length_show_uuid option_fits_def tenant_context_of_def\<close>)
qed


definition sample_digest :: "string \<Rightarrow> string" where
  "sample_digest s = CHR ''0'' # s"

definition sample_audit_row :: audit_row where
  "sample_audit_row = build_v3 sample_digest 100 1 sample_audit_request 7 sample_evidence [] (''a'', ''user'') None None None None"

lemma sample_log: "tenant_log 7 [r] = [r]" if "ar_tenant r = 7" for r
  using that by (simp add: tenant_log_def order_by_def)

lemma sample_row_verifies: "verify_log sample_digest 7 [sample_audit_row] = (1, True, [])"
  using build_v3_checksum [of sample_digest 100 1 sample_audit_request 7 sample_evidence "[]" "(''a'', ''user'')" None None None None]
  by (simp add: verify_log_def sample_log build_v3_fields sample_audit_row_def row_is_intact_def)

text \<open>A record whose action was changed under the same checksum is found out.\<close>

theorem verified_head_determines_log_witness:
  "verify_log sample_digest 7 [sample_audit_row] = (1, True, [])
     \<and> \<not> (\<exists>n. verify_log sample_digest 7 [sample_audit_row\<lparr>ar_action := ''party.read''\<rparr>] = (n, True, []))"
proof -
  let ?bad = "sample_audit_row\<lparr>ar_action := ''party.read''\<rparr>"
  have f: "ar_tenant sample_audit_row = 7" "ar_tenant ?bad = 7" "ar_version sample_audit_row = ''3''" "ar_action sample_audit_row = ''party.merge''"
    "ar_checksum ?bad = ar_checksum sample_audit_row"
    by (simp_all add: sample_audit_row_def build_v3_def Let_def sample_evidence_def)
  have wf: "row_well_formed sample_audit_row" "row_well_formed ?bad"
    by (simp_all add: sample_audit_row_def build_v3_def Let_def row_well_formed_def evidence_document_def sample_evidence_def or_null_def)
  have no: "\<not> collision sample_digest" by (auto simp: collision_def sample_digest_def)
  have False if bad: "verify_log sample_digest 7 [?bad] = (n, True, [])" for n
  proof -
    have "normal (v3_envelope sample_audit_row) = normal (v3_envelope ?bad)"
      using verified_head_determines_log [OF sample_row_verifies bad] no f wf
      by (simp add: sample_log chain_head_def checksum_before_def sample_digest_def)
    then have "set (normal_entries (case v3_envelope sample_audit_row of JObj es \<Rightarrow> es | _ \<Rightarrow> []))
        = set (normal_entries (case v3_envelope ?bad of JObj es \<Rightarrow> es | _ \<Rightarrow> []))"
      unfolding v3_envelope_def json.case by (rule normal_entries_equal)
    moreover have "(''action'', JStr ''party.merge'') \<in> set (normal_entries (case v3_envelope sample_audit_row of JObj es \<Rightarrow> es | _ \<Rightarrow> []))"
      by (simp add: v3_envelope_def f)
    ultimately show False by (simp add: v3_envelope_def)
  qed
  with sample_row_verifies show ?thesis by blast
qed

end
