(* ===== verification/Retention.thy ===== *)
theory Retention
  imports Audit_Log
begin

text \<open>
  Retention authority of the data governance foundation (\<open>retention_v2.py\<close> and the legal holds of
  \<open>module.py\<close>): policies with effective intervals, holds, the destructive lifecycle with its decisions and
  the report of external cleanup. The resource owner's provider, the audit appender, the advisory locks of
  the database and the clocks are ports; an error rolls the transaction back, so an operation returns the
  state only when it succeeds. Instants are UTC; a command with another offset is refused at construction.
\<close>

section \<open>Tables\<close>

datatype expiry_action = ARCHIVE | ANONYMIZE | PURGE

fun action_text :: "expiry_action \<Rightarrow> string" where
  "action_text ARCHIVE = ''archive''"
| "action_text ANONYMIZE = ''anonymize''"
| "action_text PURGE = ''purge''"

record subject_key =
  sk_tenant :: uuid
  sk_owner :: string
  sk_namespace :: string
  sk_contract :: string
  sk_entity :: string
  sk_record :: uuid

definition subject_key_ok :: "subject_key \<Rightarrow> bool" where
  "subject_key_ok k \<longleftrightarrow>
     1 \<le> length (sk_owner k) \<and> length (sk_owner k) \<le> 150 \<and> 1 \<le> length (sk_namespace k) \<and> length (sk_namespace k) \<le> 200
     \<and> 1 \<le> length (sk_contract k) \<and> length (sk_contract k) \<le> 30 \<and> 1 \<le> length (sk_entity k) \<and> length (sk_entity k) \<le> 100"

definition make_subject_key :: "subject_key \<Rightarrow> exn + subject_key" where
  "make_subject_key k = (if subject_key_ok k then Inr k else Inl (ForeignError ''ValidationError''))"

text \<open>The scope of a policy: the columns its exclusion constraint compares with \<open>=\<close>.\<close>

record policy_scope =
  ps_tenant :: uuid
  ps_owner :: string
  ps_namespace :: string
  ps_contract :: string
  ps_entity :: string
  ps_category :: string

record retention_policy =
  rp_id :: uuid
  rp_scope :: policy_scope
  rp_days :: int
  rp_action :: expiry_action
  rp_from :: instant
  rp_until :: "instant option"
  rp_active :: bool

datatype hold_scope = HOLD_ALL | HOLD_CATEGORY | HOLD_RECORD

record retention_hold =
  rh_id :: uuid
  rh_tenant :: uuid
  rh_owner :: string
  rh_namespace :: string
  rh_contract :: string
  rh_entity :: string
  rh_scope :: hold_scope
  rh_record :: "uuid option"
  rh_category :: "string option"
  rh_reason :: string
  rh_placed :: instant
  rh_released :: "instant option"
  rh_active :: bool

datatype cleanup_status = CLEANUP_PENDING | CLEANUP_COMPLETED | CLEANUP_FAILED

record destructive_decision =
  dd_id :: uuid
  dd_key :: subject_key
  dd_policy :: uuid
  dd_action :: expiry_action
  dd_at :: instant
  dd_cleanup :: cleanup_status

text \<open>A legal hold; its column \<open>hold_scope\<close> says whether \<open>lh_record\<close> is there.\<close>

record legal_hold =
  lh_id :: uuid
  lh_tenant :: uuid
  lh_code :: string
  lh_name :: string
  lh_reason :: string
  lh_entity :: string
  lh_record :: "string option"
  lh_placed_by :: string
  lh_placed :: instant
  lh_released_by :: "string option"
  lh_released :: "instant option"
  lh_active :: bool

record cleanup_event =
  ce_decision :: uuid
  ce_key :: subject_key
  ce_action :: expiry_action

text \<open>A hold's event: its tenant, identifier and code, then the target or who released it.\<close>

datatype governance_event =
    CleanupRequested cleanup_event
  | LegalHoldPlaced uuid uuid string string "string option"
  | LegalHoldReleased uuid uuid string string

text \<open>The state of a transaction: the tables, the events emitted and the advisory locks it holds.\<close>

record governance =
  gv_policies :: "retention_policy list"
  gv_holds :: "retention_hold list"
  gv_decisions :: "destructive_decision list"
  gv_legal :: "legal_hold list"
  gv_audit :: "audit_row list"
  gv_events :: "governance_event list"
  gv_locks :: "string list"

definition overlapping :: "retention_policy \<Rightarrow> retention_policy \<Rightarrow> bool" where
  "overlapping a b \<longleftrightarrow>
     (case rp_until b of None \<Rightarrow> True | Some u \<Rightarrow> rp_from a < u) \<and> (case rp_until a of None \<Rightarrow> True | Some u \<Rightarrow> rp_from b < u)"

definition policy_clash :: "retention_policy \<Rightarrow> retention_policy \<Rightarrow> bool" where
  "policy_clash a b \<longleftrightarrow>
     rp_id a = rp_id b \<or> (rp_active a \<and> rp_active b \<and> rp_scope a = rp_scope b \<and> overlapping a b)"

definition policy_row_ok :: "retention_policy \<Rightarrow> bool" where
  "policy_row_ok r \<longleftrightarrow> 0 < rp_days r \<and> (case rp_until r of None \<Rightarrow> True | Some u \<Rightarrow> rp_from r < u)"

text \<open>Values a column cannot hold: texts too long, integers beyond 32 bits.\<close>

definition policy_fits :: "retention_policy \<Rightarrow> bool" where
  "policy_fits r \<longleftrightarrow>
     length (ps_owner (rp_scope r)) \<le> 150 \<and> length (ps_namespace (rp_scope r)) \<le> 200 \<and> length (ps_contract (rp_scope r)) \<le> 30
     \<and> length (ps_entity (rp_scope r)) \<le> 100 \<and> length (ps_category (rp_scope r)) \<le> 100 \<and> rp_days r < 2 ^ 31"

definition insert_policy :: "retention_policy \<Rightarrow> retention_policy list \<Rightarrow> exn + retention_policy list" where
  "insert_policy r rows = (if policy_fits r then insert_row policy_clash policy_row_ok r rows else Inl (ForeignError ''DBAPIError''))"

definition hold_row_ok :: "retention_hold \<Rightarrow> bool" where
  "hold_row_ok h \<longleftrightarrow>
     rh_reason h \<noteq> [] \<and>
     (case rh_scope h of
        HOLD_ALL \<Rightarrow> rh_record h = None \<and> rh_category h = None
      | HOLD_CATEGORY \<Rightarrow> rh_record h = None \<and> rh_category h \<noteq> None
      | HOLD_RECORD \<Rightarrow> rh_record h \<noteq> None)"

definition insert_hold :: "retention_hold \<Rightarrow> retention_hold list \<Rightarrow> exn + retention_hold list" where
  "insert_hold h rows =
     (if (case rh_category h of None \<Rightarrow> False | Some c \<Rightarrow> length c > 100) then Inl (ForeignError ''DBAPIError'')
      else insert_row (\<lambda>a b. rh_id a = rh_id b) hold_row_ok h rows)"

section \<open>Owner facts\<close>

datatype owner_value =
    TextFact string
  | InstantFact "int option" instant
  | ActionsFact "string list"
  | OtherFact

record owner_reading =
  or_tenant :: uuid
  or_namespace :: string
  or_record :: uuid
  or_owner :: string
  or_contract :: string
  or_lifecycle :: string
  or_facts :: "(string \<times> owner_value) list"

record purge_facts =
  pg_key :: subject_key
  pg_category :: string
  pg_anchor :: instant
  pg_lifecycle :: string
  pg_actions :: "string set"

definition facts_invalid :: exn where
  "facts_invalid = BusinessOSError ''retention_facts_invalid'' ''Locked owner facts are incomplete or inconsistent'' 409"

definition normalize_owner_facts :: "subject_key \<Rightarrow> owner_reading \<Rightarrow> exn + purge_facts" where
  "normalize_owner_facts k v =
     (if or_tenant v \<noteq> sk_tenant k \<or> or_namespace v \<noteq> sk_namespace k \<or> or_owner v \<noteq> sk_owner k \<or> or_record v \<noteq> sk_record k
         \<or> or_contract v \<noteq> sk_contract k \<or> dict_get (or_facts v) ''entity_type'' \<noteq> Some (TextFact (sk_entity k))
      then Inl facts_invalid
      else (case (dict_get (or_facts v) ''retention_category'', dict_get (or_facts v) ''retention_anchor_at'',
                  dict_get (or_facts v) ''supported_actions'') of
          (Some (TextFact category), Some (InstantFact (Some offset) anchor), Some (ActionsFact actions)) \<Rightarrow>
            if category = [] \<or> length category > 100 \<or> offset \<noteq> 0 \<or> \<not> set actions \<subseteq> set (map action_text [ARCHIVE, ANONYMIZE, PURGE])
            then Inl facts_invalid
            else if or_lifecycle v \<noteq> ''current''
            then Inl (BusinessOSError ''subject_already_removed'' ''Owner resource is no longer current'' 409)
            else Inr \<lparr>pg_key = k, pg_category = category, pg_anchor = anchor, pg_lifecycle = or_lifecycle v, pg_actions = set actions\<rparr>
        | _ \<Rightarrow> Inl facts_invalid))"

section \<open>Ports and locks\<close>

text \<open>
  \<open>gp_lock\<close>: for a key, whether each attempt took the lock and the monotonic clock after it; the list ends when
  the waiting task is cancelled.
\<close>

record governance_ports =
  gp_invocation :: "exn + string"
  gp_owner :: "string \<Rightarrow> string \<Rightarrow> exn + string"
  gp_provider :: "string \<Rightarrow> exn + string \<times> int"
  gp_read :: "string \<Rightarrow> exn + owner_reading"
  gp_validate :: "string \<Rightarrow> exn + owner_reading"
  gp_apply :: "string \<Rightarrow> exn + unit"
  gp_append :: "audit_evidence \<Rightarrow> audit_row list \<Rightarrow> exn + audit_row \<times> audit_row list"
  gp_lock :: "string \<Rightarrow> (bool \<times> instant) list"
  gp_monotonic :: instant
  gp_now :: instant
  gp_id :: uuid

definition lock_acquisition :: instant where
  "lock_acquisition = 5 * 1000000"

fun wait_lock :: "instant \<Rightarrow> (bool \<times> instant) list \<Rightarrow> exn + unit" where
  "wait_lock limit [] = Inl (ForeignError ''CancelledError'')"
| "wait_lock limit ((acquired, clock) # rest) =
     (if acquired then Inr ()
      else if limit - clock \<le> 0 then Inl (BusinessOSError ''retention_lock_timeout'' ''Retention authority lock timed out'' 409)
      else wait_lock limit rest)"

definition lock_key :: "string \<Rightarrow> string list \<Rightarrow> string" where
  "lock_key scope parts = join_with [CHR 0x1F] (''adr017'' # scope # parts)"

definition lock_governance_scope :: "governance_ports \<Rightarrow> string \<Rightarrow> string list \<Rightarrow> governance \<Rightarrow> exn + governance" where
  "lock_governance_scope p scope parts w =
     bind_res (wait_lock (gp_monotonic p + lock_acquisition) (gp_lock p (lock_key scope parts)))
       (\<lambda>_. Inr (w\<lparr>gv_locks := gv_locks w @ [lock_key scope parts]\<rparr>))"

definition lock_entity :: "governance_ports \<Rightarrow> uuid \<Rightarrow> string \<Rightarrow> string \<Rightarrow> governance \<Rightarrow> exn + governance" where
  "lock_entity p ten owner entity w = lock_governance_scope p ''entity'' [show_uuid ten, owner, entity] w"

definition lock_subject :: "governance_ports \<Rightarrow> uuid \<Rightarrow> string \<Rightarrow> string \<Rightarrow> string \<Rightarrow> uuid \<Rightarrow> governance \<Rightarrow> exn + governance" where
  "lock_subject p ten owner ns entity rec w = lock_governance_scope p ''subject'' [show_uuid ten, owner, ns, entity, show_uuid rec] w"

definition lock_retention_subject :: "governance_ports \<Rightarrow> subject_key \<Rightarrow> governance \<Rightarrow> exn + governance" where
  "lock_retention_subject p k w =
     bind_res (lock_entity p (sk_tenant k) (sk_owner k) (sk_entity k) w) (\<lambda>w.
     bind_res (lock_subject p (sk_tenant k) (sk_owner k) (sk_namespace k) (sk_entity k) (sk_record k) w) (\<lambda>w.
       lock_governance_scope p ''legacy-hold-entity'' [show_uuid (sk_tenant k), sk_entity k] w))"

definition policy_lock :: "governance_ports \<Rightarrow> policy_scope \<Rightarrow> governance \<Rightarrow> exn + governance" where
  "policy_lock p s w = lock_governance_scope p ''policy'' [show_uuid (ps_tenant s), ps_owner s, ps_namespace s, ps_entity s, ps_category s] w"

text \<open>The checks every command starts with.\<close>

definition require_governance_invocation :: "governance_ports \<Rightarrow> exn + unit" where
  "require_governance_invocation p =
     bind_res (gp_invocation p) (\<lambda>owner. raise_if (owner \<noteq> ''foundation.data_governance'')
       (PermissionError ''Retention V2 requires its owning Governance command''))"

definition check_tenant :: "request_context \<Rightarrow> uuid \<Rightarrow> exn + unit" where
  "check_tenant req ten =
     raise_if (case tenant req of None \<Rightarrow> True | Some ctx \<Rightarrow> tenant_id ctx \<noteq> ten) (BusinessOSError ''tenant_mismatch'' ''Tenant identity mismatch'' 403)"

definition check_owner :: "governance_ports \<Rightarrow> string \<Rightarrow> string \<Rightarrow> string \<Rightarrow> exn + unit" where
  "check_owner p ns contract owner =
     bind_res (gp_owner p ns contract) (\<lambda>canonical. raise_if (canonical \<noteq> owner) (BusinessOSError ''owner_mismatch'' ''Unknown canonical owner'' 409))"

section \<open>Policies\<close>

record set_policy_command =
  pc_scope :: policy_scope
  pc_days :: int
  pc_action :: expiry_action
  pc_from :: instant
  pc_until :: "instant option"

definition make_policy_command :: "set_policy_command \<Rightarrow> exn + set_policy_command" where
  "make_policy_command c =
     (if pc_days c < 1 \<or> (case pc_until c of None \<Rightarrow> False | Some u \<Rightarrow> u \<le> pc_from c) then Inl (ForeignError ''ValidationError'') else Inr c)"

text \<open>The constructor of the key the policy lock is taken for.\<close>

definition scope_key :: "policy_scope \<Rightarrow> subject_key" where
  "scope_key s = \<lparr>sk_tenant = ps_tenant s, sk_owner = ps_owner s, sk_namespace = ps_namespace s, sk_contract = ps_contract s,
     sk_entity = ps_entity s, sk_record = 0\<rparr>"

definition is_integrity_error :: "exn \<Rightarrow> bool" where
  "is_integrity_error e \<longleftrightarrow> e \<in> {ForeignError ''CheckViolation'', ForeignError ''UniqueViolation''}"

definition policy_admission :: "governance_ports \<Rightarrow> request_context \<Rightarrow> policy_scope \<Rightarrow> governance \<Rightarrow> exn + governance" where
  "policy_admission p req s w =
     bind_res (require_governance_invocation p) (\<lambda>_.
     bind_res (check_tenant req (ps_tenant s)) (\<lambda>_.
     bind_res (check_owner p (ps_namespace s) (ps_contract s) (ps_owner s)) (\<lambda>_.
     bind_res (make_subject_key (scope_key s)) (\<lambda>_. policy_lock p s w))))"

definition set_policy :: "governance_ports \<Rightarrow> request_context \<Rightarrow> set_policy_command \<Rightarrow> governance \<Rightarrow> exn + uuid \<times> governance" where
  "set_policy p req c w =
     bind_res (make_policy_command c) (\<lambda>c.
     bind_res (policy_admission p req (pc_scope c) w) (\<lambda>w.
       case insert_policy \<lparr>rp_id = gp_id p, rp_scope = pc_scope c, rp_days = pc_days c, rp_action = pc_action c, rp_from = pc_from c,
              rp_until = pc_until c, rp_active = True\<rparr> (gv_policies w) of
         Inl e \<Rightarrow> Inl (if is_integrity_error e
                      then BusinessOSError ''retention_policy_conflict'' ''Retention policy interval overlaps or is invalid'' 409 else e)
       | Inr rows \<Rightarrow> Inr (gp_id p, w\<lparr>gv_policies := rows\<rparr>)))"

record replace_command =
  rc_old :: uuid
  rc_scope :: policy_scope
  rc_days :: int
  rc_action :: expiry_action
  rc_at :: instant

text \<open>
  An update of the interval's end checks the constraints against the other rows. The identifier is the primary key,
  and the row it selects was read for the command's tenant.
\<close>

definition end_policy :: "uuid \<Rightarrow> instant \<Rightarrow> retention_policy list \<Rightarrow> exn + retention_policy list" where
  "end_policy i t rows =
     (let rows' = map (\<lambda>r. if rp_id r = i then r\<lparr>rp_until := Some t\<rparr> else r) rows;
          changed = filter (\<lambda>r. rp_id r = i) rows' in
      if \<not> list_all policy_row_ok changed then Inl (ForeignError ''CheckViolation'')
      else if list_ex (\<lambda>r. list_ex (policy_clash r) (filter (\<lambda>x. rp_id x \<noteq> i) rows')) changed then Inl (ForeignError ''UniqueViolation'')
      else Inr rows')"

definition replaceable :: "replace_command \<Rightarrow> instant \<Rightarrow> retention_policy \<Rightarrow> bool" where
  "replaceable c now old \<longleftrightarrow>
     now < rc_at c \<and> rp_from old < rc_at c \<and> (case rp_until old of None \<Rightarrow> True | Some u \<Rightarrow> rc_at c < u)
     \<and> rp_days old \<le> rc_days c \<and> rc_action c = rp_action old"

definition transition_invalid :: exn where
  "transition_invalid = BusinessOSError ''retention_transition_invalid'' ''Policy replacement must be future-only and non-weakening'' 409"

definition replace_policy :: "governance_ports \<Rightarrow> request_context \<Rightarrow> replace_command \<Rightarrow> governance \<Rightarrow> exn + uuid \<times> governance" where
  "replace_policy p req c w =
     bind_res (raise_if (rc_days c < 1) (ForeignError ''ValidationError'')) (\<lambda>_.
     bind_res (policy_admission p req (rc_scope c) w) (\<lambda>w.
       case select_first (\<lambda>r. rp_id r = rc_old c \<and> rp_scope r = rc_scope c \<and> rp_active r) (gv_policies w) of
         None \<Rightarrow> Inl transition_invalid
       | Some old \<Rightarrow>
           if \<not> replaceable c (gp_now p) old then Inl transition_invalid
           else
             bind_res (end_policy (rc_old c) (rc_at c) (gv_policies w)) (\<lambda>rows.
             bind_res (insert_policy \<lparr>rp_id = gp_id p, rp_scope = rc_scope c, rp_days = rc_days c, rp_action = rc_action c,
                 rp_from = rc_at c, rp_until = rp_until old, rp_active = True\<rparr> rows) (\<lambda>rows.
               Inr (gp_id p, w\<lparr>gv_policies := rows\<rparr>)))))"

section \<open>Holds\<close>

record hold_command =
  hc_subject :: subject_key
  hc_scope :: hold_scope
  hc_reason :: string
  hc_category :: "string option"

definition make_hold_command :: "hold_command \<Rightarrow> exn + hold_command" where
  "make_hold_command c =
     (if \<not> subject_key_ok (hc_subject c) \<or> \<not> (1 \<le> length (hc_reason c) \<and> length (hc_reason c) \<le> 1000)
         \<or> (hc_scope c = HOLD_ALL \<and> hc_category c \<noteq> None) \<or> (hc_scope c = HOLD_CATEGORY \<and> hc_category c \<in> {None, Some []})
      then Inl (ForeignError ''ValidationError'') else Inr c)"

definition hold_record_facts :: "governance_ports \<Rightarrow> hold_command \<Rightarrow> exn + unit" where
  "hold_record_facts p c =
     (if hc_scope c \<noteq> HOLD_RECORD then Inr ()
      else
        bind_res (gp_read p ''hold'') (\<lambda>v.
        bind_res (normalize_owner_facts (hc_subject c) v) (\<lambda>f.
          raise_if (case hc_category c of None \<Rightarrow> False | Some cat \<Rightarrow> pg_category f \<noteq> cat)
            (BusinessOSError ''hold_category_mismatch'' ''Hold category differs from owner facts'' 409))))"

definition place_hold :: "governance_ports \<Rightarrow> request_context \<Rightarrow> hold_command \<Rightarrow> governance \<Rightarrow> exn + uuid \<times> governance" where
  "place_hold p req c w =
     bind_res (make_hold_command c) (\<lambda>c. let k = hc_subject c in
     bind_res (require_governance_invocation p) (\<lambda>_.
     bind_res (check_tenant req (sk_tenant k)) (\<lambda>_.
     bind_res (check_owner p (sk_namespace k) (sk_contract k) (sk_owner k)) (\<lambda>_.
     bind_res (lock_entity p (sk_tenant k) (sk_owner k) (sk_entity k) w) (\<lambda>w.
     bind_res (if hc_scope c = HOLD_RECORD
               then lock_subject p (sk_tenant k) (sk_owner k) (sk_namespace k) (sk_entity k) (sk_record k) w else Inr w) (\<lambda>w.
     bind_res (gp_provider p ''facts'') (\<lambda>_.
     bind_res (hold_record_facts p c) (\<lambda>_.
     bind_res (insert_hold \<lparr>rh_id = gp_id p, rh_tenant = sk_tenant k, rh_owner = sk_owner k, rh_namespace = sk_namespace k,
         rh_contract = sk_contract k, rh_entity = sk_entity k, rh_scope = hc_scope c,
         rh_record = (if hc_scope c = HOLD_RECORD then Some (sk_record k) else None), rh_category = hc_category c, rh_reason = hc_reason c,
         rh_placed = gp_now p, rh_released = None, rh_active = True\<rparr> (gv_holds w)) (\<lambda>rows.
       Inr (gp_id p, w\<lparr>gv_holds := rows\<rparr>))))))))))"

definition release_hold :: "governance_ports \<Rightarrow> request_context \<Rightarrow> uuid \<Rightarrow> uuid \<Rightarrow> governance \<Rightarrow> exn + governance" where
  "release_hold p req ten i w =
     bind_res (require_governance_invocation p) (\<lambda>_.
     bind_res (check_tenant req ten) (\<lambda>_.
       case select_first (\<lambda>h. rh_id h = i \<and> rh_tenant h = ten) (gv_holds w) of
         None \<Rightarrow> Inl (BusinessOSError ''hold_missing'' ''Hold not found'' 404)
       | Some hint \<Rightarrow>
           bind_res (lock_entity p ten (rh_owner hint) (rh_entity hint) w) (\<lambda>w.
           bind_res (case rh_record hint of
               Some rec \<Rightarrow> if rh_scope hint = HOLD_RECORD then lock_subject p ten (rh_owner hint) (rh_namespace hint) (rh_entity hint) rec w else Inr w
             | None \<Rightarrow> Inr w) (\<lambda>w.
             if list_ex (\<lambda>h. rh_id h = i \<and> rh_tenant h = ten \<and> rh_active h) (gv_holds w)
             then Inr (w\<lparr>gv_holds := map (\<lambda>h. if rh_id h = i \<and> rh_tenant h = ten \<and> rh_active h
                        then h\<lparr>rh_active := False, rh_released := Some (gp_now p)\<rparr> else h) (gv_holds w)\<rparr>)
             else Inl (BusinessOSError ''hold_released'' ''Hold was already released'' 409)))))"

section \<open>Destruction\<close>

definition effective_policy :: "policy_scope \<Rightarrow> instant \<Rightarrow> retention_policy \<Rightarrow> bool" where
  "effective_policy s now r \<longleftrightarrow>
     rp_scope r = s \<and> rp_active r \<and> rp_from r \<le> now \<and> (case rp_until r of None \<Rightarrow> True | Some u \<Rightarrow> now < u)"

definition subject_scope :: "subject_key \<Rightarrow> string \<Rightarrow> policy_scope" where
  "subject_scope k category = \<lparr>ps_tenant = sk_tenant k, ps_owner = sk_owner k, ps_namespace = sk_namespace k, ps_contract = sk_contract k,
     ps_entity = sk_entity k, ps_category = category\<rparr>"

definition hold_applies :: "subject_key \<Rightarrow> string \<Rightarrow> retention_hold \<Rightarrow> bool" where
  "hold_applies k category h \<longleftrightarrow>
     rh_tenant h = sk_tenant k \<and> rh_owner h = sk_owner k \<and> rh_namespace h = sk_namespace k \<and> rh_contract h = sk_contract k
     \<and> rh_entity h = sk_entity k \<and> rh_active h
     \<and> (case rh_scope h of HOLD_ALL \<Rightarrow> True | HOLD_CATEGORY \<Rightarrow> rh_category h = Some category | HOLD_RECORD \<Rightarrow> rh_record h = Some (sk_record k))
     \<and> (rh_category h = None \<or> rh_category h = Some category)"

text \<open>The pattern of a canonical UUID, in either case.\<close>

definition uuid_pattern :: "string \<Rightarrow> bool" where
  "uuid_pattern s \<longleftrightarrow>
     length s = 36 \<and> list_all (\<lambda>i. if i \<in> {8, 13, 18, 23} then s ! i = CHR ''-''
        else is_digit (s ! i) \<or> lower_char (s ! i) \<in> set ''abcdef'') [0..<36]"

definition legal_hold_applies :: "subject_key \<Rightarrow> legal_hold \<Rightarrow> bool" where
  "legal_hold_applies k h \<longleftrightarrow>
     lh_tenant h = sk_tenant k \<and> lh_entity h = sk_entity k \<and> lh_active h
     \<and> (case lh_record h of None \<Rightarrow> True | Some s \<Rightarrow> lower s = show_uuid (sk_record k) \<or> \<not> uuid_pattern s)"

definition last_instant :: instant where
  "last_instant = 253402300799999999"

definition day :: instant where
  "day = 86400 * 1000000"

definition eligible_at :: "instant \<Rightarrow> int \<Rightarrow> exn + instant" where
  "eligible_at anchor days =
     (if anchor + days * day > last_instant
      then Inl (BusinessOSError ''retention_interval_invalid'' ''Retention eligibility cannot be computed'' 409) else Inr (anchor + days * day))"

definition conflict :: "string \<Rightarrow> string \<Rightarrow> exn" where
  "conflict code message = BusinessOSError code message 409"

definition admit_destruction :: "governance \<Rightarrow> instant \<Rightarrow> purge_facts \<Rightarrow> expiry_action \<Rightarrow> exn + retention_policy \<times> instant" where
  "admit_destruction w now f action =
     (let k = pg_key f in
      case filter (effective_policy (subject_scope k (pg_category f)) now) (gv_policies w) of
        [policy] \<Rightarrow>
          if rp_action policy \<noteq> action then Inl (conflict ''retention_action_mismatch'' ''Policy does not authorize requested action'')
          else
            bind_res (eligible_at (pg_anchor f) (rp_days policy)) (\<lambda>eligible.
            if now < eligible then Inl (conflict ''retention_not_elapsed'' ''Retention period has not elapsed'')
            else if list_ex (hold_applies k (pg_category f)) (gv_holds w) \<or> list_ex (legal_hold_applies k) (gv_legal w)
            then Inl (conflict ''legal_hold_active'' ''Active legal hold blocks destruction'')
            else Inr (policy, eligible))
      | _ \<Rightarrow> Inl (conflict ''retention_policy_ambiguous'' ''Exactly one effective policy is required''))"

definition destruction_evidence :: "uuid \<Rightarrow> purge_facts \<Rightarrow> expiry_action \<Rightarrow> retention_policy \<Rightarrow> instant \<Rightarrow> instant \<Rightarrow> int \<Rightarrow> audit_evidence" where
  "destruction_evidence i f action policy eligible now generation =
     (let k = pg_key f in
      \<lparr>ae_action = ''governance.destructive.'' @ action_text action, ae_resource_type = sk_entity k,
       ae_resource_id = Some (show_uuid (sk_record k)), ae_status = ''success'',
       ae_details = [(''decision_id'', uuid_json i), (''policy_id'', uuid_json (rp_id policy)), (''owner_module_id'', JStr (sk_owner k)),
         (''resource_namespace'', JStr (sk_namespace k)), (''retention_category'', JStr (pg_category f)),
         (''retention_anchor_at'', JStr (iso_text (pg_anchor f))), (''eligible_at'', JStr (iso_text eligible)),
         (''decided_at'', JStr (iso_text now)), (''hold_result'', JStr ''none_applicable''), (''owner_lifecycle'', JStr (pg_lifecycle f)),
         (''provider_generation'', JInt generation), (''cleanup_status'', JStr ''pending'')]\<rparr>)"

definition append_audit :: "governance_ports \<Rightarrow> audit_evidence \<Rightarrow> governance \<Rightarrow> exn + governance" where
  "append_audit p evidence w =
     bind_res (make_audit_evidence evidence) (\<lambda>e.
     bind_res (gp_append p e (gv_audit w)) (\<lambda>(r, rows). Inr (w\<lparr>gv_audit := rows\<rparr>)))"

text \<open>The facts of the owner, read under the locks and validated by the operation's provider.\<close>

definition admitted_facts :: "governance_ports \<Rightarrow> subject_key \<Rightarrow> expiry_action \<Rightarrow> exn + purge_facts \<times> int" where
  "admitted_facts p k action =
     bind_res (gp_provider p ''facts'') (\<lambda>_.
     bind_res (gp_read p (action_text action)) (\<lambda>v.
     bind_res (normalize_owner_facts k v) (\<lambda>f.
     bind_res (gp_provider p ''operation'') (\<lambda>(owner, generation).
     bind_res (raise_if (owner \<noteq> sk_owner k) (conflict ''owner_mismatch'' ''Unknown canonical owner'')) (\<lambda>_.
     bind_res (gp_validate p (action_text action)) (\<lambda>v'.
     bind_res (normalize_owner_facts k v') (\<lambda>f'.
     bind_res (raise_if (f' \<noteq> f) (conflict ''owner_facts_changed'' ''Locked owner facts changed during admission'')) (\<lambda>_.
     bind_res (raise_if (action_text action \<notin> pg_actions f)
         (conflict ''owner_action_unsupported'' ''Owner facts do not support requested action'')) (\<lambda>_.
       Inr (f, generation))))))))))"

definition execute_destruction :: "governance_ports \<Rightarrow> request_context \<Rightarrow> subject_key \<Rightarrow> expiry_action \<Rightarrow> governance \<Rightarrow> exn + uuid \<times> governance" where
  "execute_destruction p req k action w =
     bind_res (make_subject_key k) (\<lambda>k.
     bind_res (require_governance_invocation p) (\<lambda>_.
     bind_res (check_tenant req (sk_tenant k)) (\<lambda>_.
     bind_res (lock_retention_subject p k w) (\<lambda>w.
     bind_res (check_owner p (sk_namespace k) (sk_contract k) (sk_owner k)) (\<lambda>_.
     bind_res (admitted_facts p k action) (\<lambda>(f, generation).
     bind_res (policy_lock p (subject_scope k (pg_category f)) w) (\<lambda>w.
     bind_res (admit_destruction w (gp_now p) f action) (\<lambda>(policy, eligible).
     bind_res (append_audit p (destruction_evidence (gp_id p) f action policy eligible (gp_now p) generation) w) (\<lambda>w.
     bind_res (gp_apply p (action_text action)) (\<lambda>_.
     bind_res (insert_row (\<lambda>a b. dd_id a = dd_id b) (\<lambda>_. True)
         \<lparr>dd_id = gp_id p, dd_key = k, dd_policy = rp_id policy, dd_action = action, dd_at = gp_now p, dd_cleanup = CLEANUP_PENDING\<rparr>
         (gv_decisions w)) (\<lambda>rows.
       Inr (gp_id p, w\<lparr>gv_decisions := rows,
         gv_events := gv_events w @ [CleanupRequested \<lparr>ce_decision = gp_id p, ce_key = k, ce_action = action\<rparr>]\<rparr>))))))))))))"

section \<open>The report of external cleanup\<close>

definition cleanup_subscriber :: string where
  "cleanup_subscriber = ''example.phase1-proof.external-retention-cleanup''"

definition cleanup_event_type :: string where
  "cleanup_event_type = ''governance.destructive.cleanup_requested.v2''"

definition delivery_invalid :: "string \<Rightarrow> exn" where
  "delivery_invalid message = BusinessOSError ''cleanup_delivery_invalid'' message 403"

text \<open>
  \<open>delivery\<close> is the binding the command carries with its transaction, \<open>active\<close> its \<open>assert_active\<close>; \<open>parse\<close> is pydantic's
  reading of the committed payload, of which the decision and the tenant are used.
\<close>

record cleanup_ports =
  cp_principal :: authenticated_binding
  cp_delivery :: "(execution_binding \<times> nat) option"
  cp_active :: "execution_binding \<Rightarrow> nat \<Rightarrow> exn + unit"
  cp_parse :: "json \<Rightarrow> (uuid \<times> uuid) option"
  cp_outbox :: "outbox_row list"

definition cleanup_source :: "cleanup_ports \<Rightarrow> uuid \<Rightarrow> execution_binding \<Rightarrow> exn + outbox_message" where
  "cleanup_source c ten b =
     (case filter (\<lambda>m. pm_tenant m = ten \<and> pm_event_id m = xb_event b \<and> pm_event_type m = cleanup_event_type \<and> pm_schema m = 1)
         (map ob_message (cp_outbox c)) of
        [] \<Rightarrow> Inl (delivery_invalid ''Cleanup source event unavailable'')
      | [m] \<Rightarrow> Inr m
      | _ \<Rightarrow> Inl (ForeignError ''MultipleResultsFound''))"

definition check_cleanup_delivery :: "cleanup_ports \<Rightarrow> request_context \<Rightarrow> uuid \<Rightarrow> uuid \<Rightarrow> exn + unit" where
  "check_cleanup_delivery c req ten decision =
     bind_res (raise_if (\<not> ab_same_request (cp_principal c) \<or> ab_tenant (cp_principal c) \<noteq> ten \<or> ab_type (cp_principal c) \<noteq> ''service_account'')
       (BusinessOSError ''cleanup_actor_invalid'' ''Trusted cleanup service account required'' 403)) (\<lambda>_.
     case cp_delivery c of
       None \<Rightarrow> Inl (delivery_invalid ''Verified cleanup delivery required'')
     | Some (b, txn) \<Rightarrow>
         bind_res (cp_active c b txn) (\<lambda>_.
         bind_res (raise_if (xb_tenant b \<noteq> ten \<or> xb_subscriber b \<noteq> cleanup_subscriber \<or> pf_class (xb_proof b) \<noteq> ''event-worker''
             \<or> pf_purpose (xb_proof b) \<noteq> ''event-delivery''
             \<or> (case tenant req of None \<Rightarrow> True | Some ctx \<Rightarrow> fst (pf_key (xb_proof b)) \<noteq> installation_id ctx))
           (delivery_invalid ''Verified cleanup delivery required'')) (\<lambda>_.
         bind_res (cleanup_source c ten b) (\<lambda>m.
           case cp_parse c (pm_payload m) of
             None \<Rightarrow> Inl (delivery_invalid ''Cleanup source event invalid'')
           | Some (d, t) \<Rightarrow> raise_if (d \<noteq> decision \<or> t \<noteq> ten) (delivery_invalid ''Cleanup source decision mismatch'')))))"

definition reported :: "bool \<Rightarrow> cleanup_status" where
  "reported completed = (if completed then CLEANUP_COMPLETED else CLEANUP_FAILED)"

definition cleanup_evidence :: "bool \<Rightarrow> destructive_decision \<Rightarrow> audit_evidence" where
  "cleanup_evidence completed d =
     (let status = (if completed then ''completed'' else ''failed'') in
      \<lparr>ae_action = ''governance.destructive.cleanup_result'', ae_resource_type = sk_entity (dd_key d),
       ae_resource_id = Some (show_uuid (sk_record (dd_key d))), ae_status = status,
       ae_details = [(''decision_id'', uuid_json (dd_id d)), (''cleanup_status'', JStr status)]\<rparr>)"

definition open_decision :: "uuid \<Rightarrow> uuid \<Rightarrow> destructive_decision \<Rightarrow> bool" where
  "open_decision ten i d \<longleftrightarrow> sk_tenant (dd_key d) = ten \<and> dd_id d = i \<and> dd_cleanup d \<in> {CLEANUP_PENDING, CLEANUP_FAILED}"

definition record_cleanup_result ::
  "governance_ports \<Rightarrow> cleanup_ports \<Rightarrow> request_context \<Rightarrow> uuid \<Rightarrow> uuid \<Rightarrow> bool \<Rightarrow> governance \<Rightarrow> exn + governance" where
  "record_cleanup_result p c req ten i completed w =
     bind_res (require_governance_invocation p) (\<lambda>_.
     bind_res (check_tenant req ten) (\<lambda>_.
     bind_res (check_cleanup_delivery c req ten i) (\<lambda>_.
       case select_first (open_decision ten i) (gv_decisions w) of
         Some d \<Rightarrow>
           append_audit p (cleanup_evidence completed d)
             (w\<lparr>gv_decisions := map (\<lambda>x. if open_decision ten i x then x\<lparr>dd_cleanup := reported completed\<rparr> else x) (gv_decisions w)\<rparr>)
       | None \<Rightarrow>
           if completed \<and> list_ex (\<lambda>d. sk_tenant (dd_key d) = ten \<and> dd_id d = i \<and> dd_cleanup d = CLEANUP_COMPLETED) (gv_decisions w)
           then Inr w
           else Inl (conflict ''cleanup_decision_unavailable'' ''Pending cleanup decision not found''))))"

section \<open>Legal holds\<close>

record legal_hold_command =
  lc_tenant :: uuid
  lc_code :: string
  lc_name :: string
  lc_reason :: string
  lc_entity :: string
  lc_record :: "string option"
  lc_placed_by :: string

definition legal_command_ok :: "legal_hold_command \<Rightarrow> bool" where
  "legal_command_ok c \<longleftrightarrow>
     2 \<le> length (lc_code c) \<and> length (lc_code c) \<le> 100 \<and> 1 \<le> length (lc_name c) \<and> length (lc_name c) \<le> 200
     \<and> 1 \<le> length (lc_reason c) \<and> length (lc_reason c) \<le> 1000 \<and> 1 \<le> length (lc_entity c) \<and> length (lc_entity c) \<le> 100
     \<and> (case lc_record c of None \<Rightarrow> True | Some s \<Rightarrow> length s \<le> 255) \<and> 1 \<le> length (lc_placed_by c) \<and> length (lc_placed_by c) \<le> 100"

definition lock_legal_entity :: "governance_ports \<Rightarrow> uuid \<Rightarrow> string \<Rightarrow> governance \<Rightarrow> exn + governance" where
  "lock_legal_entity p ten entity w = lock_governance_scope p ''legacy-hold-entity'' [show_uuid ten, entity] w"

definition place_legal_hold :: "governance_ports \<Rightarrow> request_context option \<Rightarrow> legal_hold_command \<Rightarrow> governance \<Rightarrow> exn + legal_hold \<times> governance" where
  "place_legal_hold p req c w =
     bind_res (raise_if (\<not> legal_command_ok c) (ForeignError ''ValidationError'')) (\<lambda>_.
     bind_res (audit_tenant req (lc_tenant c)) (\<lambda>_.
     bind_res (lock_legal_entity p (lc_tenant c) (lc_entity c) w) (\<lambda>w.
     bind_res (raise_if (case Option.bind (lc_record c) read_uuid of
           None \<Rightarrow> False
         | Some rec \<Rightarrow> list_ex (\<lambda>d. sk_tenant (dd_key d) = lc_tenant c \<and> sk_entity (dd_key d) = lc_entity c \<and> sk_record (dd_key d) = rec) (gv_decisions w))
       (conflict ''post_destruction_hold'' ''A hold cannot protect an already destroyed record'')) (\<lambda>_.
     let h = \<lparr>lh_id = gp_id p, lh_tenant = lc_tenant c, lh_code = lc_code c, lh_name = lc_name c, lh_reason = lc_reason c, lh_entity = lc_entity c,
        lh_record = lc_record c, lh_placed_by = lc_placed_by c, lh_placed = gp_now p, lh_released_by = None, lh_released = None, lh_active = True\<rparr> in
     bind_res (insert_row (\<lambda>a b. lh_id a = lh_id b \<or> (lh_tenant a = lh_tenant b \<and> lh_code a = lh_code b)) (\<lambda>_. True) h (gv_legal w)) (\<lambda>rows.
       Inr (h, w\<lparr>gv_legal := rows, gv_events := gv_events w @ [LegalHoldPlaced (lc_tenant c) (gp_id p) (lc_code c) (lc_entity c) (lc_record c)]\<rparr>))))))"

definition release_legal_hold :: "governance_ports \<Rightarrow> request_context option \<Rightarrow> uuid \<Rightarrow> uuid \<Rightarrow> string \<Rightarrow> governance \<Rightarrow> exn + governance" where
  "release_legal_hold p req ten i by_whom w =
     bind_res (raise_if (\<not> (1 \<le> length by_whom \<and> length by_whom \<le> 100)) (ForeignError ''ValidationError'')) (\<lambda>_.
     bind_res (audit_tenant req ten) (\<lambda>_.
       case select_first (\<lambda>h. lh_id h = i \<and> lh_tenant h = ten) (gv_legal w) of
         None \<Rightarrow> Inl (BusinessOSError ''not_found'' ''Legal hold not found'' 404)
       | Some hint \<Rightarrow>
           bind_res (lock_legal_entity p ten (lh_entity hint) w) (\<lambda>w.
             if list_ex (\<lambda>h. lh_id h = i \<and> lh_tenant h = ten \<and> lh_active h) (gv_legal w)
             then Inr (w\<lparr>gv_legal := map (\<lambda>h. if lh_id h = i \<and> lh_tenant h = ten \<and> lh_active h
                          then h\<lparr>lh_active := False, lh_released_by := Some by_whom, lh_released := Some (gp_now p)\<rparr> else h) (gv_legal w),
                        gv_events := gv_events w @ [LegalHoldReleased ten i (lh_code hint) by_whom]\<rparr>)
             else Inl (BusinessOSError ''not_found'' (''Active legal hold '' @ show_uuid i @ '' not found'') 404))))"

section \<open>What an operation changes\<close>

lemma lock_governance_scope_Inr [simp]:
  "lock_governance_scope p scope parts w = Inr w' \<longleftrightarrow>
     wait_lock (gp_monotonic p + lock_acquisition) (gp_lock p (lock_key scope parts)) = Inr ()
     \<and> w' = w\<lparr>gv_locks := gv_locks w @ [lock_key scope parts]\<rparr>"
  by (auto simp: lock_governance_scope_def bind_res_Inr)

lemmas lock_defs = lock_entity_def lock_subject_def lock_retention_subject_def policy_lock_def lock_legal_entity_def

text \<open>Two states with the same tables, up to the locks.\<close>

definition same_tables :: "governance \<Rightarrow> governance \<Rightarrow> bool" where
  "same_tables w v \<longleftrightarrow> v\<lparr>gv_locks := gv_locks w\<rparr> = w"

lemma same_tables_simps [simp]:
  "same_tables w w" "same_tables w (v\<lparr>gv_locks := ks\<rparr>) = same_tables w v"
  by (auto simp: same_tables_def)

lemma same_tablesD:
  "same_tables w v \<Longrightarrow> gv_policies v = gv_policies w \<and> gv_holds v = gv_holds w \<and> gv_decisions v = gv_decisions w \<and> gv_legal v = gv_legal w
     \<and> gv_audit v = gv_audit w \<and> gv_events v = gv_events w"
  by (cases w; cases v) (simp add: same_tables_def)

lemma policy_admission_Inr:
  assumes "policy_admission p req s w = Inr v" shows "same_tables w v \<and> lock_key ''policy'' [show_uuid (ps_tenant s), ps_owner s, ps_namespace s, ps_entity s, ps_category s] \<in> set (gv_locks v)"
  using assms by (auto simp: policy_admission_def bind_res_Inr lock_defs)

lemma set_policy_Inr:
  assumes "set_policy p req c w = Inr (i, w')"
  obtains v rows where "same_tables w v" "w' = v\<lparr>gv_policies := rows\<rparr>"
    "insert_policy \<lparr>rp_id = gp_id p, rp_scope = pc_scope c, rp_days = pc_days c, rp_action = pc_action c, rp_from = pc_from c,
       rp_until = pc_until c, rp_active = True\<rparr> (gv_policies w) = Inr rows"
    "policy_admission p req (pc_scope c) w = Inr v"
proof -
  from assms obtain c' v where c: "make_policy_command c = Inr c'" and v: "policy_admission p req (pc_scope c') w = Inr v"
    and run: "(case insert_policy \<lparr>rp_id = gp_id p, rp_scope = pc_scope c', rp_days = pc_days c', rp_action = pc_action c', rp_from = pc_from c',
              rp_until = pc_until c', rp_active = True\<rparr> (gv_policies v) of
         Inl e \<Rightarrow> Inl (if is_integrity_error e
                      then BusinessOSError ''retention_policy_conflict'' ''Retention policy interval overlaps or is invalid'' 409 else e)
       | Inr rows \<Rightarrow> Inr (gp_id p, v\<lparr>gv_policies := rows\<rparr>)) = Inr (i, w')"
    by (auto simp: set_policy_def bind_res_Inr)
  have "c' = c" using c by (auto simp: make_policy_command_def split: if_splits)
  with that v run policy_admission_Inr [OF v] same_tablesD show ?thesis by (force split: sum.splits)
qed

lemma replace_policy_Inr:
  assumes "replace_policy p req c w = Inr (i, w')"
  obtains v old rows rows' where "same_tables w v" "w' = v\<lparr>gv_policies := rows'\<rparr>" "policy_admission p req (rc_scope c) w = Inr v"
    "old \<in> set (gv_policies w)" "rp_id old = rc_old c" "rp_scope old = rc_scope c" "rp_active old" "replaceable c (gp_now p) old"
    "end_policy (rc_old c) (rc_at c) (gv_policies w) = Inr rows"
    "insert_policy \<lparr>rp_id = gp_id p, rp_scope = rc_scope c, rp_days = rc_days c, rp_action = rc_action c,
                 rp_from = rc_at c, rp_until = rp_until old, rp_active = True\<rparr> rows = Inr rows'"
proof -
  from assms obtain v where v: "policy_admission p req (rc_scope c) w = Inr v"
    and run: "(case select_first (\<lambda>r. rp_id r = rc_old c \<and> rp_scope r = rc_scope c \<and> rp_active r) (gv_policies v) of
         None \<Rightarrow> Inl transition_invalid
       | Some old \<Rightarrow>
           if \<not> replaceable c (gp_now p) old then Inl transition_invalid
           else
             bind_res (end_policy (rc_old c) (rc_at c) (gv_policies v)) (\<lambda>rows.
             bind_res (insert_policy \<lparr>rp_id = gp_id p, rp_scope = rc_scope c, rp_days = rc_days c, rp_action = rc_action c,
                 rp_from = rc_at c, rp_until = rp_until old, rp_active = True\<rparr> rows) (\<lambda>rows.
               Inr (gp_id p, v\<lparr>gv_policies := rows\<rparr>)))) = Inr (i, w')"
    by (auto simp: replace_policy_def bind_res_Inr)
  have pol: "gv_policies v = gv_policies w" and s: "same_tables w v" using policy_admission_Inr [OF v] same_tablesD by blast+
  from run obtain old where old: "select_first (\<lambda>r. rp_id r = rc_old c \<and> rp_scope r = rc_scope c \<and> rp_active r) (gv_policies w) = Some old"
    and ok: "replaceable c (gp_now p) old" by (auto simp: pol split: option.splits if_splits)
  from select_first_Some [OF old] have o: "old \<in> set (gv_policies w)" "rp_id old = rc_old c" "rp_scope old = rc_scope c" "rp_active old" by auto
  from run old ok obtain rows rows' where "end_policy (rc_old c) (rc_at c) (gv_policies w) = Inr rows"
    "insert_policy \<lparr>rp_id = gp_id p, rp_scope = rc_scope c, rp_days = rc_days c, rp_action = rc_action c,
                 rp_from = rc_at c, rp_until = rp_until old, rp_active = True\<rparr> rows = Inr rows'" "w' = v\<lparr>gv_policies := rows'\<rparr>"
    by (auto simp: pol bind_res_Inr)
  with that s v o ok show ?thesis by blast
qed

lemma place_hold_Inr:
  assumes "place_hold p req c w = Inr (i, w')"
  obtains v rows where "same_tables w v" "w' = v\<lparr>gv_holds := rows\<rparr>"
    "lock_key ''entity'' [show_uuid (sk_tenant (hc_subject c)), sk_owner (hc_subject c), sk_entity (hc_subject c)] \<in> set (gv_locks v)"
proof -
  let ?k = "hc_subject c"
  from assms obtain c' where "make_hold_command c = Inr c'" by (auto simp: place_hold_def bind_res_Inr)
  then have c: "make_hold_command c = Inr c" by (auto simp: make_hold_command_def split: if_splits)
  from assms c obtain v u rows where v: "lock_entity p (sk_tenant ?k) (sk_owner ?k) (sk_entity ?k) w = Inr v"
    and u: "(if hc_scope c = HOLD_RECORD
        then lock_subject p (sk_tenant ?k) (sk_owner ?k) (sk_namespace ?k) (sk_entity ?k) (sk_record ?k) v else Inr v) = Inr u"
    and w': "w' = u\<lparr>gv_holds := rows\<rparr>"
    by (auto simp: place_hold_def bind_res_Inr Let_def simp del: lock_governance_scope_Inr)
  have "same_tables w u \<and> lock_key ''entity'' [show_uuid (sk_tenant ?k), sk_owner ?k, sk_entity ?k] \<in> set (gv_locks u)"
    using v u by (auto simp: lock_defs split: if_splits)
  with that [OF _ w'] show ?thesis by blast
qed

lemma release_hold_Inr:
  assumes "release_hold p req ten j w = Inr w'"
  obtains v rows h where "same_tables w v" "w' = v\<lparr>gv_holds := rows\<rparr>" "h \<in> set (gv_holds w)" "rh_id h = j" "rh_tenant h = ten"
    "lock_key ''entity'' [show_uuid ten, rh_owner h, rh_entity h] \<in> set (gv_locks v)"
proof -
  let ?hit = "\<lambda>h. rh_id h = j \<and> rh_tenant h = ten \<and> rh_active h"
  from assms obtain h where h: "select_first (\<lambda>h. rh_id h = j \<and> rh_tenant h = ten) (gv_holds w) = Some h"
    by (auto simp: release_hold_def bind_res_Inr split: option.splits)
  note found = select_first_Some [OF h]
  from assms h obtain v u where v: "lock_entity p ten (rh_owner h) (rh_entity h) w = Inr v"
    and u: "(case rh_record h of
               Some rec \<Rightarrow> if rh_scope h = HOLD_RECORD then lock_subject p ten (rh_owner h) (rh_namespace h) (rh_entity h) rec v else Inr v
             | None \<Rightarrow> Inr v) = Inr u"
    and w': "w' = u\<lparr>gv_holds := map (\<lambda>h. if ?hit h then h\<lparr>rh_active := False, rh_released := Some (gp_now p)\<rparr> else h) (gv_holds u)\<rparr>"
    by (auto simp: release_hold_def bind_res_Inr split: if_splits)
  have "same_tables w u \<and> lock_key ''entity'' [show_uuid ten, rh_owner h, rh_entity h] \<in> set (gv_locks u)"
    using v u by (auto simp: lock_defs split: option.splits if_splits)
  with that [OF _ w'] found show ?thesis by blast
qed

lemma lock_retention_subject_Inr:
  assumes "lock_retention_subject p k w = Inr v"
  shows "same_tables w v \<and> lock_key ''entity'' [show_uuid (sk_tenant k), sk_owner k, sk_entity k] \<in> set (gv_locks v)
     \<and> lock_key ''legacy-hold-entity'' [show_uuid (sk_tenant k), sk_entity k] \<in> set (gv_locks v)"
  using assms by (auto simp: bind_res_Inr lock_defs)

lemma policy_lock_Inr:
  assumes "policy_lock p s w = Inr v"
  shows "same_tables w v \<and> gv_locks v = gv_locks w @ [lock_key ''policy'' [show_uuid (ps_tenant s), ps_owner s, ps_namespace s, ps_entity s, ps_category s]]"
  using assms by (auto simp: lock_defs)

lemma same_tables_trans: "same_tables u v \<Longrightarrow> same_tables v w \<Longrightarrow> same_tables u w"
  by (cases u; cases v; cases w) (simp add: same_tables_def)

lemma append_audit_Inr:
  "append_audit p e w = Inr w' \<Longrightarrow> \<exists>r rows. gp_append p e (gv_audit w) = Inr (r, rows) \<and> w' = w\<lparr>gv_audit := rows\<rparr>"
  by (auto simp: append_audit_def bind_res_Inr dest!: make_audit_evidence_same)

lemma admit_destruction_same: "same_tables w v \<Longrightarrow> admit_destruction v now f action = admit_destruction w now f action"
  by (drule same_tablesD) (simp only: admit_destruction_def)

lemma normalize_key: "normalize_owner_facts k v = Inr f \<Longrightarrow> pg_key f = k \<and> pg_lifecycle f = ''current''"
  by (auto simp: normalize_owner_facts_def split: if_splits option.splits owner_value.splits)

lemma admitted_facts_Inr:
  assumes "admitted_facts p k action = Inr (f, generation)"
  shows "\<exists>v v'. gp_read p (action_text action) = Inr v \<and> normalize_owner_facts k v = Inr f
     \<and> gp_validate p (action_text action) = Inr v' \<and> normalize_owner_facts k v' = Inr f \<and> action_text action \<in> pg_actions f"
  using assms by (auto simp: admitted_facts_def bind_res_Inr)

lemma execute_destruction_Inr:
  assumes "execute_destruction p req k action w = Inr (i, w')"
  obtains f generation policy eligible v r rows where
    "admitted_facts p k action = Inr (f, generation)" "admit_destruction w (gp_now p) f action = Inr (policy, eligible)"
    "same_tables w v" "gp_apply p (action_text action) = Inr ()" "i = gp_id p"
    "gp_append p (destruction_evidence i f action policy eligible (gp_now p) generation) (gv_audit w) = Inr (r, rows)"
    "\<forall>d \<in> set (gv_decisions w). dd_id d \<noteq> i"
    "w' = v\<lparr>gv_audit := rows,
       gv_decisions := gv_decisions w @ [\<lparr>dd_id = i, dd_key = k, dd_policy = rp_id policy, dd_action = action, dd_at = gp_now p,
          dd_cleanup = CLEANUP_PENDING\<rparr>],
       gv_events := gv_events w @ [CleanupRequested \<lparr>ce_decision = i, ce_key = k, ce_action = action\<rparr>]\<rparr>"
    "lock_key ''entity'' [show_uuid (sk_tenant k), sk_owner k, sk_entity k] \<in> set (gv_locks v)"
    "lock_key ''legacy-hold-entity'' [show_uuid (sk_tenant k), sk_entity k] \<in> set (gv_locks v)"
    "lock_key ''policy'' [show_uuid (sk_tenant k), sk_owner k, sk_namespace k, sk_entity k, pg_category f] \<in> set (gv_locks v)"
proof -
  from assms have k: "make_subject_key k = Inr k"
    by (auto simp: execute_destruction_def bind_res_Inr make_subject_key_def split: if_splits)
  from assms [unfolded execute_destruction_def k bind_res_simps] obtain u f generation v policy eligible x rows where
    u: "lock_retention_subject p k w = Inr u" and f: "admitted_facts p k action = Inr (f, generation)"
    and v: "policy_lock p (subject_scope k (pg_category f)) u = Inr v" and adm: "admit_destruction v (gp_now p) f action = Inr (policy, eligible)"
    and x: "append_audit p (destruction_evidence (gp_id p) f action policy eligible (gp_now p) generation) v = Inr x"
    and app: "gp_apply p (action_text action) = Inr ()"
    and rows: "insert_row (\<lambda>a b. dd_id a = dd_id b) (\<lambda>_. True)
         \<lparr>dd_id = gp_id p, dd_key = k, dd_policy = rp_id policy, dd_action = action, dd_at = gp_now p, dd_cleanup = CLEANUP_PENDING\<rparr>
         (gv_decisions x) = Inr rows"
    and w': "(i, w') = (gp_id p, x\<lparr>gv_decisions := rows,
         gv_events := gv_events x @ [CleanupRequested \<lparr>ce_decision = gp_id p, ce_key = k, ce_action = action\<rparr>]\<rparr>)"
    by (auto simp: bind_res_Inr simp del: insert_row_Inr)
  note lu = lock_retention_subject_Inr [OF u] and lv = policy_lock_Inr [OF v]
  have s: "same_tables w v" using lu lv same_tables_trans by blast
  from append_audit_Inr [OF x] obtain r arows where a: "gp_append p (destruction_evidence (gp_id p) f action policy eligible (gp_now p) generation) (gv_audit v) = Inr (r, arows)"
    and x': "x = v\<lparr>gv_audit := arows\<rparr>" by blast
  show ?thesis
    by (rule that [OF f _ s app, of policy eligible r arows])
      (use adm a x' rows w' lu lv same_tablesD [OF s] admit_destruction_same [OF s, of "gp_now p" f action] in \<open>auto simp: subject_scope_def\<close>)
qed

lemma record_cleanup_result_Inr:
  assumes "record_cleanup_result p c req ten i completed w = Inr w'"
  shows "w' = w \<or> (\<exists>rows. w' = w\<lparr>
     gv_decisions := map (\<lambda>x. if open_decision ten i x then x\<lparr>dd_cleanup := reported completed\<rparr> else x) (gv_decisions w), gv_audit := rows\<rparr>)"
  using assms by (auto simp: record_cleanup_result_def bind_res_Inr split: option.splits if_splits dest!: append_audit_Inr)

lemma place_legal_hold_Inr:
  assumes "place_legal_hold p req c w = Inr (h, w')"
  shows "\<exists>v rows events. same_tables w v \<and> w' = v\<lparr>gv_legal := rows, gv_events := events\<rparr>
     \<and> lock_key ''legacy-hold-entity'' [show_uuid (lc_tenant c), lc_entity c] \<in> set (gv_locks v)"
proof -
  from assms obtain v rows events where v: "lock_legal_entity p (lc_tenant c) (lc_entity c) w = Inr v"
    and w': "w' = v\<lparr>gv_legal := rows, gv_events := events\<rparr>"
    by (auto simp: place_legal_hold_def bind_res_Inr Let_def)
  have "same_tables w v \<and> lock_key ''legacy-hold-entity'' [show_uuid (lc_tenant c), lc_entity c] \<in> set (gv_locks v)"
    using v by (auto simp: lock_defs)
  with w' show ?thesis by blast
qed

lemma release_legal_hold_Inr:
  assumes "release_legal_hold p req ten j by_whom w = Inr w'"
  shows "\<exists>v rows events h. same_tables w v \<and> w' = v\<lparr>gv_legal := rows, gv_events := events\<rparr> \<and> h \<in> set (gv_legal w) \<and> lh_id h = j \<and> lh_tenant h = ten
     \<and> lock_key ''legacy-hold-entity'' [show_uuid ten, lh_entity h] \<in> set (gv_locks v)"
proof -
  from assms obtain h where h: "select_first (\<lambda>h. lh_id h = j \<and> lh_tenant h = ten) (gv_legal w) = Some h"
    by (auto simp: release_legal_hold_def bind_res_Inr split: option.splits)
  from assms h obtain v rows events where v: "lock_legal_entity p ten (lh_entity h) w = Inr v"
    and w': "w' = v\<lparr>gv_legal := rows, gv_events := events\<rparr>"
    by (auto simp: release_legal_hold_def bind_res_Inr split: if_splits)
  have "same_tables w v \<and> lock_key ''legacy-hold-entity'' [show_uuid ten, lh_entity h] \<in> set (gv_locks v)"
    using v by (auto simp: lock_defs)
  with w' select_first_Some [OF h] show ?thesis by blast
qed

section \<open>Histories\<close>

datatype governance_op =
    SetPolicy set_policy_command
  | ReplacePolicy replace_command
  | PlaceHold hold_command
  | ReleaseHold uuid uuid
  | ExecuteDestruction subject_key expiry_action
  | ReportCleanup cleanup_ports uuid uuid bool
  | PlaceLegalHold legal_hold_command
  | ReleaseLegalHold uuid uuid string

text \<open>One transaction: it starts without locks and leaves no trace when the operation fails.\<close>

definition perform :: "governance_ports \<Rightarrow> request_context \<Rightarrow> governance_op \<Rightarrow> governance \<Rightarrow> exn + governance" where
  "perform p req op w0 =
     (let w = w0\<lparr>gv_locks := []\<rparr> in
      case op of
        SetPolicy c \<Rightarrow> map_sum id snd (set_policy p req c w)
      | ReplacePolicy c \<Rightarrow> map_sum id snd (replace_policy p req c w)
      | PlaceHold c \<Rightarrow> map_sum id snd (place_hold p req c w)
      | ReleaseHold ten i \<Rightarrow> release_hold p req ten i w
      | ExecuteDestruction k action \<Rightarrow> map_sum id snd (execute_destruction p req k action w)
      | ReportCleanup c ten i completed \<Rightarrow> record_cleanup_result p c req ten i completed w
      | PlaceLegalHold c \<Rightarrow> map_sum id snd (place_legal_hold p (Some req) c w)
      | ReleaseLegalHold ten i by_whom \<Rightarrow> release_legal_hold p (Some req) ten i by_whom w)"

inductive governed :: "governance \<Rightarrow> governance \<Rightarrow> bool" where
  stays: "governed w w"
| performs: "governed w w' \<Longrightarrow> perform p req op w' = Inr w'' \<Longrightarrow> governed w w''"

definition empty_governance :: governance where
  "empty_governance = \<lparr>gv_policies = [], gv_holds = [], gv_decisions = [], gv_legal = [], gv_audit = [], gv_events = [], gv_locks = []\<rparr>"

lemma map_sum_snd: "map_sum id snd m = Inr w \<longleftrightarrow> (\<exists>x. m = Inr (x, w))"
  by (cases m) auto

lemma perform_policies:
  assumes "perform p req op w = Inr w'"
  shows "gv_policies w' = gv_policies w
     \<or> (\<exists>r. insert_policy r (gv_policies w) = Inr (gv_policies w'))
     \<or> (\<exists>c old rows r. old \<in> set (gv_policies w) \<and> rp_id old = rc_old c \<and> rp_scope old = rc_scope c \<and> rp_active old
          \<and> replaceable c (gp_now p) old \<and> end_policy (rc_old c) (rc_at c) (gv_policies w) = Inr rows
          \<and> r = \<lparr>rp_id = gp_id p, rp_scope = rc_scope c, rp_days = rc_days c, rp_action = rc_action c,
                 rp_from = rc_at c, rp_until = rp_until old, rp_active = True\<rparr> \<and> insert_policy r rows = Inr (gv_policies w'))"
proof -
  let ?w = "w\<lparr>gv_locks := []\<rparr>"
  have eq: "gv_policies ?w = gv_policies w" by simp
  show ?thesis
  proof (cases op)
    case (SetPolicy c)
    with assms obtain i where "set_policy p req c ?w = Inr (i, w')" by (auto simp: perform_def map_sum_snd)
    then show ?thesis by (rule set_policy_Inr) (use eq in auto)
  next
    case (ReplacePolicy c)
    with assms obtain i where "replace_policy p req c ?w = Inr (i, w')" by (auto simp: perform_def map_sum_snd)
    then show ?thesis
    proof (rule replace_policy_Inr)
      fix v old rows rows'
      assume "w' = v\<lparr>gv_policies := rows'\<rparr>" "old \<in> set (gv_policies ?w)" "rp_id old = rc_old c" "rp_scope old = rc_scope c" "rp_active old"
        "replaceable c (gp_now p) old" "end_policy (rc_old c) (rc_at c) (gv_policies ?w) = Inr rows"
        "insert_policy \<lparr>rp_id = gp_id p, rp_scope = rc_scope c, rp_days = rc_days c, rp_action = rc_action c,
                 rp_from = rc_at c, rp_until = rp_until old, rp_active = True\<rparr> rows = Inr rows'"
      then show ?thesis by (intro disjI2) (rule exI [of _ c], rule exI [of _ old], rule exI [of _ rows], simp)
    qed
  next
    case (PlaceHold c)
    with assms obtain i where "place_hold p req c ?w = Inr (i, w')" by (auto simp: perform_def map_sum_snd)
    then show ?thesis by (rule place_hold_Inr) (auto dest: same_tablesD)
  next
    case (ReleaseHold ten i)
    with assms have "release_hold p req ten i ?w = Inr w'" by (simp add: perform_def)
    then show ?thesis by (rule release_hold_Inr) (auto dest: same_tablesD)
  next
    case (ExecuteDestruction k action)
    with assms obtain i where "execute_destruction p req k action ?w = Inr (i, w')" by (auto simp: perform_def map_sum_snd)
    then show ?thesis by (rule execute_destruction_Inr) (auto dest: same_tablesD)
  next
    case (ReportCleanup c ten i completed)
    with assms have "record_cleanup_result p c req ten i completed ?w = Inr w'" by (simp add: perform_def)
    from record_cleanup_result_Inr [OF this] show ?thesis by auto
  next
    case (PlaceLegalHold c)
    with assms obtain h where "place_legal_hold p (Some req) c ?w = Inr (h, w')" by (auto simp: perform_def map_sum_snd)
    from place_legal_hold_Inr [OF this] show ?thesis by (auto dest: same_tablesD)
  next
    case (ReleaseLegalHold ten i by_whom)
    with assms have "release_legal_hold p (Some req) ten i by_whom ?w = Inr w'" by (simp add: perform_def)
    from release_legal_hold_Inr [OF this] show ?thesis by (auto dest: same_tablesD)
  qed
qed

section \<open>Policies never weaken\<close>

definition policies_ok :: "retention_policy list \<Rightarrow> bool" where
  "policies_ok rows \<longleftrightarrow> sorted_wrt (\<lambda>a b. \<not> policy_clash a b) rows"

lemma policy_clash_sym: "policy_clash a b = policy_clash b a"
  by (auto simp: policy_clash_def overlapping_def)

lemma policies_ok_ids:
  "policies_ok rows \<Longrightarrow> a \<in> set rows \<Longrightarrow> b \<in> set rows \<Longrightarrow> rp_id a = rp_id b \<Longrightarrow> a = b"
  by (induction rows) (auto simp: policies_ok_def policy_clash_def)

lemma effective_clash: "effective_policy s t a \<Longrightarrow> effective_policy s t b \<Longrightarrow> policy_clash a b"
  by (auto simp: effective_policy_def policy_clash_def overlapping_def split: option.splits)

lemma one_effective: "policies_ok rows \<Longrightarrow> length (filter (effective_policy s t) rows) \<le> 1"
proof (induction rows)
  case (Cons a rows)
  have "filter (effective_policy s t) rows = []" if "effective_policy s t a"
    using Cons.prems effective_clash [OF that] by (auto simp: policies_ok_def filter_empty_conv)
  with Cons show ?case by (auto simp: policies_ok_def)
qed simp

lemma insert_policy_Inr: "insert_policy r rows = Inr rows' \<Longrightarrow> rows' = rows @ [r] \<and> (\<forall>x \<in> set rows. \<not> policy_clash r x)"
  by (auto simp: insert_policy_def split: if_splits)

lemma insert_policy_ok: "policies_ok rows \<Longrightarrow> insert_policy r rows = Inr rows' \<Longrightarrow> policies_ok rows'"
  by (auto simp: policies_ok_def sorted_wrt_append policy_clash_sym dest!: insert_policy_Inr)

lemma end_policy_Inr:
  assumes "end_policy i t rows = Inr rows'"
  shows "rows' = map (\<lambda>r. if rp_id r = i then r\<lparr>rp_until := Some t\<rparr> else r) rows"
    and "\<And>a b. a \<in> set rows \<Longrightarrow> b \<in> set rows \<Longrightarrow> rp_id a = i \<Longrightarrow> rp_id b \<noteq> i \<Longrightarrow> \<not> policy_clash (a\<lparr>rp_until := Some t\<rparr>) b"
proof -
  show m: "rows' = map (\<lambda>r. if rp_id r = i then r\<lparr>rp_until := Some t\<rparr> else r) rows"
    using assms by (auto simp: end_policy_def Let_def split: if_splits)
  fix a b assume ab: "a \<in> set rows" "b \<in> set rows" "rp_id a = i" "rp_id b \<noteq> i"
  then have mem: "a\<lparr>rp_until := Some t\<rparr> \<in> set (filter (\<lambda>r. rp_id r = i) rows')" "b \<in> set (filter (\<lambda>x. rp_id x \<noteq> i) rows')"
    unfolding m by (auto intro: rev_image_eqI [where x = a] rev_image_eqI [where x = b])
  have "\<not> list_ex (\<lambda>r. list_ex (policy_clash r) (filter (\<lambda>x. rp_id x \<noteq> i) rows')) (filter (\<lambda>r. rp_id r = i) rows')"
    using assms unfolding m by (auto simp: end_policy_def Let_def split: if_splits)
  then have "\<forall>r \<in> set (filter (\<lambda>r. rp_id r = i) rows'). \<forall>x \<in> set (filter (\<lambda>x. rp_id x \<noteq> i) rows'). \<not> policy_clash r x"
    unfolding list_ex_iff by blast
  with mem show "\<not> policy_clash (a\<lparr>rp_until := Some t\<rparr>) b" by blast
qed

lemma end_policy_ok:
  assumes ok: "policies_ok rows" and e: "end_policy i t rows = Inr rows'"
  shows "policies_ok rows'"
  unfolding policies_ok_def end_policy_Inr(1) [OF e] sorted_wrt_map
proof (rule sorted_wrt_mono_rel [OF _ ok [unfolded policies_ok_def]])
  fix a b assume ab: "a \<in> set rows" "b \<in> set rows" "\<not> policy_clash a b"
  then have "rp_id a \<noteq> rp_id b" by (auto simp: policy_clash_def)
  then show "\<not> policy_clash (if rp_id a = i then a\<lparr>rp_until := Some t\<rparr> else a) (if rp_id b = i then b\<lparr>rp_until := Some t\<rparr> else b)"
    using ab end_policy_Inr(2) [OF e, of a b] end_policy_Inr(2) [OF e, of b a] policy_clash_sym by auto
qed

definition governed_as :: "policy_scope \<Rightarrow> instant \<Rightarrow> int \<Rightarrow> expiry_action \<Rightarrow> governance \<Rightarrow> bool" where
  "governed_as s t days action w \<longleftrightarrow> list_ex (\<lambda>r. effective_policy s t r \<and> days \<le> rp_days r \<and> rp_action r = action) (gv_policies w)"

lemma perform_policies_ok:
  assumes "perform p req op w = Inr w'" and "policies_ok (gv_policies w)" shows "policies_ok (gv_policies w')"
  using perform_policies [OF assms(1)] assms(2) insert_policy_ok end_policy_ok by metis

lemma replaced_still_effective:
  assumes old: "rp_id old = i" "rp_scope old = rc_scope c" "rp_active old" and rep: "replaceable c now old" and eff: "effective_policy s t old"
    and new: "new = \<lparr>rp_id = j, rp_scope = rc_scope c, rp_days = rc_days c, rp_action = rc_action c, rp_from = rc_at c, rp_until = rp_until old, rp_active = True\<rparr>"
  shows "\<exists>r \<in> {old\<lparr>rp_until := Some (rc_at c)\<rparr>, new}. effective_policy s t r \<and> rp_days old \<le> rp_days r \<and> rp_action r = rp_action old"
proof (cases "t < rc_at c")
  case True
  with eff have "effective_policy s t (old\<lparr>rp_until := Some (rc_at c)\<rparr>)" by (simp add: effective_policy_def)
  then show ?thesis by simp
next
  case False
  with eff old rep new have "effective_policy s t new" "rp_days old \<le> rp_days new" "rp_action new = rp_action old"
    by (auto simp: effective_policy_def replaceable_def)
  then show ?thesis by blast
qed

lemma perform_governed_as:
  assumes run: "perform p req op w = Inr w'" and ok: "policies_ok (gv_policies w)" and cov: "governed_as s t days action w"
  shows "governed_as s t days action w'"
proof -
  from cov obtain r where r: "r \<in> set (gv_policies w)" "effective_policy s t r" "days \<le> rp_days r" "rp_action r = action"
    by (auto simp: governed_as_def list_ex_iff)
  from perform_policies [OF run] show ?thesis
  proof (elim disjE exE conjE)
    assume "gv_policies w' = gv_policies w"
    with cov show ?thesis by (simp add: governed_as_def)
  next
    fix q assume "insert_policy q (gv_policies w) = Inr (gv_policies w')"
    with r show ?thesis by (auto simp: governed_as_def list_ex_iff dest!: insert_policy_Inr)
  next
    fix c old rows new
    assume a: "old \<in> set (gv_policies w)" "rp_id old = rc_old c" "rp_scope old = rc_scope c" "rp_active old" "replaceable c (gp_now p) old"
      and e: "end_policy (rc_old c) (rc_at c) (gv_policies w) = Inr rows"
      and new: "new = \<lparr>rp_id = gp_id p, rp_scope = rc_scope c, rp_days = rc_days c, rp_action = rc_action c,
                 rp_from = rc_at c, rp_until = rp_until old, rp_active = True\<rparr>"
      and ins: "insert_policy new rows = Inr (gv_policies w')"
    have w': "set (gv_policies w') = insert new ((\<lambda>r. if rp_id r = rc_old c then r\<lparr>rp_until := Some (rc_at c)\<rparr> else r) ` set (gv_policies w))"
      using insert_policy_Inr [OF ins] end_policy_Inr(1) [OF e] by auto
    show ?thesis
    proof (cases "rp_id r = rc_old c")
      case False
      with r w' show ?thesis by (fastforce simp: governed_as_def list_ex_iff)
    next
      case True
      then have "r = old" using policies_ok_ids [OF ok r(1) a(1)] a(2) by simp
      with replaced_still_effective [OF a(2-5) _ new, of s t] r obtain q where q: "q \<in> {old\<lparr>rp_until := Some (rc_at c)\<rparr>, new}"
        "effective_policy s t q" "days \<le> rp_days q" "rp_action q = action" by fastforce
      moreover have "q \<in> set (gv_policies w')" unfolding w' using q(1) a(1,2) by (auto intro!: image_eqI [where x = old])
      ultimately show ?thesis by (auto simp: governed_as_def list_ex_iff)
    qed
  qed
qed

lemma governed_policies_ok: "governed w w' \<Longrightarrow> policies_ok (gv_policies w) \<Longrightarrow> policies_ok (gv_policies w')"
  by (induction rule: governed.induct) (auto dest: perform_policies_ok)

lemma governed_keeps: "governed w w' \<Longrightarrow> policies_ok (gv_policies w) \<Longrightarrow> governed_as s t days action w \<Longrightarrow> governed_as s t days action w'"
  by (induction rule: governed.induct) (auto dest: perform_governed_as governed_policies_ok)

text \<open>
  C37: From any state a history of commands reaches, whatever commands follow: at every instant at which a scope
  is governed by a policy, it stays governed, by exactly one policy, with the same action on expiry and a
  retention period that is not shorter.
\<close>

theorem retention_never_weakens:
  assumes "governed empty_governance w" and "governed w w'"
    and "policy \<in> set (gv_policies w)" and "effective_policy s t policy"
  shows "\<exists>policy'. filter (effective_policy s t) (gv_policies w') = [policy'] \<and> rp_days policy \<le> rp_days policy' \<and> rp_action policy' = rp_action policy"
proof -
  have ok: "policies_ok (gv_policies w)" using governed_policies_ok [OF assms(1)] by (simp add: empty_governance_def policies_ok_def)
  have "governed_as s t (rp_days policy) (rp_action policy) w" using assms(3,4) by (auto simp: governed_as_def list_ex_iff)
  from governed_keeps [OF assms(2) ok this] obtain q where q: "q \<in> set (gv_policies w')" "effective_policy s t q"
    "rp_days policy \<le> rp_days q" "rp_action q = rp_action policy" by (auto simp: governed_as_def list_ex_iff)
  have "q \<in> set (filter (effective_policy s t) (gv_policies w'))" using q by simp
  with one_effective [OF governed_policies_ok [OF assms(2) ok], of s t]
  have "filter (effective_policy s t) (gv_policies w') = [q]"
    by (cases "filter (effective_policy s t) (gv_policies w')") auto
  with q show ?thesis by blast
qed

section \<open>What a destruction rests on\<close>

lemma admit_destruction_Inr:
  assumes "admit_destruction w now f action = Inr (policy, eligible)"
  shows "filter (effective_policy (subject_scope (pg_key f) (pg_category f)) now) (gv_policies w) = [policy] \<and> rp_action policy = action
     \<and> eligible = pg_anchor f + rp_days policy * day \<and> eligible \<le> now
     \<and> \<not> list_ex (hold_applies (pg_key f) (pg_category f)) (gv_holds w) \<and> \<not> list_ex (legal_hold_applies (pg_key f)) (gv_legal w)"
  using assms by (auto simp: admit_destruction_def bind_res_Inr eligible_at_def Let_def split: list.splits if_splits)


section \<open>Decisions are permanent\<close>

definition same_decision :: "destructive_decision \<Rightarrow> destructive_decision \<Rightarrow> bool" where
  "same_decision d d' \<longleftrightarrow>
     dd_id d' = dd_id d \<and> dd_key d' = dd_key d \<and> dd_policy d' = dd_policy d \<and> dd_action d' = dd_action d \<and> dd_at d' = dd_at d
     \<and> (dd_cleanup d = CLEANUP_COMPLETED \<longrightarrow> d' = d)"

lemma perform_decisions:
  assumes "perform p req op w = Inr w'"
  shows "gv_decisions w' = gv_decisions w
     \<or> (\<exists>d. gv_decisions w' = gv_decisions w @ [d] \<and> (\<forall>x \<in> set (gv_decisions w). dd_id x \<noteq> dd_id d))
     \<or> (\<exists>ten i completed. gv_decisions w' = map (\<lambda>x. if open_decision ten i x then x\<lparr>dd_cleanup := reported completed\<rparr> else x) (gv_decisions w))"
proof -
  let ?w = "w\<lparr>gv_locks := []\<rparr>"
  show ?thesis
  proof (cases op)
    case (SetPolicy c)
    with assms obtain i where "set_policy p req c ?w = Inr (i, w')" by (auto simp: perform_def map_sum_snd)
    then show ?thesis by (rule set_policy_Inr) (auto dest: same_tablesD)
  next
    case (ReplacePolicy c)
    with assms obtain i where "replace_policy p req c ?w = Inr (i, w')" by (auto simp: perform_def map_sum_snd)
    then show ?thesis by (rule replace_policy_Inr) (auto dest: same_tablesD)
  next
    case (PlaceHold c)
    with assms obtain i where "place_hold p req c ?w = Inr (i, w')" by (auto simp: perform_def map_sum_snd)
    then show ?thesis by (rule place_hold_Inr) (auto dest: same_tablesD)
  next
    case (ReleaseHold ten i)
    with assms have "release_hold p req ten i ?w = Inr w'" by (simp add: perform_def)
    then show ?thesis by (rule release_hold_Inr) (auto dest: same_tablesD)
  next
    case (ExecuteDestruction k action)
    with assms obtain i where "execute_destruction p req k action ?w = Inr (i, w')" by (auto simp: perform_def map_sum_snd)
    then show ?thesis by (rule execute_destruction_Inr) auto
  next
    case (ReportCleanup c ten i completed)
    with assms have "record_cleanup_result p c req ten i completed ?w = Inr w'" by (simp add: perform_def)
    from record_cleanup_result_Inr [OF this]
    have "gv_decisions w' = gv_decisions w \<or> gv_decisions w' =
        map (\<lambda>x. if open_decision ten i x then x\<lparr>dd_cleanup := reported completed\<rparr> else x) (gv_decisions w)" by auto
    then show ?thesis by blast
  next
    case (PlaceLegalHold c)
    with assms obtain h where "place_legal_hold p (Some req) c ?w = Inr (h, w')" by (auto simp: perform_def map_sum_snd)
    from place_legal_hold_Inr [OF this] show ?thesis by (auto dest: same_tablesD)
  next
    case (ReleaseLegalHold ten i by_whom)
    with assms have "release_legal_hold p (Some req) ten i by_whom ?w = Inr w'" by (simp add: perform_def)
    from release_legal_hold_Inr [OF this] show ?thesis by (auto dest: same_tablesD)
  qed
qed

lemma perform_keeps_decision:
  assumes "perform p req op w = Inr w'" and "d \<in> set (gv_decisions w)"
  shows "\<exists>d' \<in> set (gv_decisions w'). same_decision d d'"
  using perform_decisions [OF assms(1)]
proof (elim disjE exE conjE)
  fix ten i completed
  let ?f = "\<lambda>x. if open_decision ten i x then x\<lparr>dd_cleanup := reported completed\<rparr> else x"
  assume "gv_decisions w' = map ?f (gv_decisions w)"
  with assms(2) have "?f d \<in> set (gv_decisions w')" by auto
  moreover have "same_decision d (?f d)" by (auto simp: same_decision_def open_decision_def)
  ultimately show ?thesis by blast
qed (use assms(2) in \<open>auto simp: same_decision_def\<close>)

lemma perform_decision_ids:
  assumes "perform p req op w = Inr w'" and "distinct (map dd_id (gv_decisions w))" shows "distinct (map dd_id (gv_decisions w'))"
  using perform_decisions [OF assms(1)]
proof (elim disjE exE conjE)
  fix ten i completed
  assume "gv_decisions w' = map (\<lambda>x. if open_decision ten i x then x\<lparr>dd_cleanup := reported completed\<rparr> else x) (gv_decisions w)"
  then have "map dd_id (gv_decisions w') = map dd_id (gv_decisions w)" by auto
  with assms(2) show ?thesis by simp
qed (use assms(2) in auto)

lemma same_decision_trans: "same_decision a b \<Longrightarrow> same_decision b c \<Longrightarrow> same_decision a c"
  by (auto simp: same_decision_def)

text \<open>
  C39: Decision evidence is permanent: whatever commands follow, a decision stays with its subject, policy, action and
  instant, once; only its cleanup status moves, and never again once the cleanup is reported complete.
\<close>

theorem decisions_are_permanent:
  assumes "governed empty_governance w" and "governed w w'" and "d \<in> set (gv_decisions w)"
  shows "distinct (map dd_id (gv_decisions w'))
    \<and> (\<exists>d' \<in> set (gv_decisions w'). dd_id d' = dd_id d \<and> dd_key d' = dd_key d \<and> dd_policy d' = dd_policy d \<and> dd_action d' = dd_action d
         \<and> dd_at d' = dd_at d \<and> (dd_cleanup d = CLEANUP_COMPLETED \<longrightarrow> d' = d))"
proof -
  have ids: "distinct (map dd_id (gv_decisions v))" if "governed u v" "distinct (map dd_id (gv_decisions u))" for u v
    using that by induction (auto dest: perform_decision_ids)
  have keep: "\<exists>d' \<in> set (gv_decisions v). same_decision d d'" if "governed u v" "d \<in> set (gv_decisions u)" for u v
    using that
  proof induction
    case (stays x)
    then show ?case by (intro bexI [of _ d]) (simp_all add: same_decision_def)
  next
    case (performs x y p req op z)
    then obtain d' where "d' \<in> set (gv_decisions y)" "same_decision d d'" by blast
    with perform_keeps_decision [OF performs(2)] same_decision_trans show ?case by blast
  qed
  have "distinct (map dd_id (gv_decisions w))" using ids [OF assms(1)] by (simp add: empty_governance_def)
  with ids [OF assms(2)] keep [OF assms(2,3)] show ?thesis by (auto simp: same_decision_def)
qed

section \<open>Commands that conflict exclude each other\<close>

lemma destruction_locks:
  assumes "execute_destruction p req k action w = Inr (i, w')"
  shows "\<exists>category. (\<exists>v. gp_read p (action_text action) = Inr v \<and> dict_get (or_facts v) ''retention_category'' = Some (TextFact category))
    \<and> lock_key ''entity'' [show_uuid (sk_tenant k), sk_owner k, sk_entity k] \<in> set (gv_locks w')
    \<and> lock_key ''legacy-hold-entity'' [show_uuid (sk_tenant k), sk_entity k] \<in> set (gv_locks w')
    \<and> lock_key ''policy'' [show_uuid (sk_tenant k), sk_owner k, sk_namespace k, sk_entity k, category] \<in> set (gv_locks w')"
  using assms
proof (rule execute_destruction_Inr)
  fix f generation policy eligible v r rows
  assume f: "admitted_facts p k action = Inr (f, generation)"
    and w': "w' = v\<lparr>gv_audit := rows,
       gv_decisions := gv_decisions w @ [\<lparr>dd_id = i, dd_key = k, dd_policy = rp_id policy, dd_action = action, dd_at = gp_now p,
          dd_cleanup = CLEANUP_PENDING\<rparr>],
       gv_events := gv_events w @ [CleanupRequested \<lparr>ce_decision = i, ce_key = k, ce_action = action\<rparr>]\<rparr>"
    and l: "lock_key ''entity'' [show_uuid (sk_tenant k), sk_owner k, sk_entity k] \<in> set (gv_locks v)"
      "lock_key ''legacy-hold-entity'' [show_uuid (sk_tenant k), sk_entity k] \<in> set (gv_locks v)"
      "lock_key ''policy'' [show_uuid (sk_tenant k), sk_owner k, sk_namespace k, sk_entity k, pg_category f] \<in> set (gv_locks v)"
  obtain u where u: "gp_read p (action_text action) = Inr u" "normalize_owner_facts k u = Inr f" using admitted_facts_Inr [OF f] by blast
  have "dict_get (or_facts u) ''retention_category'' = Some (TextFact (pg_category f))"
    using u(2) by (auto simp: normalize_owner_facts_def split: if_splits option.splits owner_value.splits)
  with u(1) l show ?thesis by (intro exI [of _ "pg_category f"]) (auto simp: w')
qed

lemma release_hold_locks:
  assumes "release_hold q rq ten j u = Inr u'" and "hold_applies k category h" and "filter (\<lambda>x. rh_id x = j \<and> rh_tenant x = ten) (gv_holds u) = [h]"
  shows "lock_key ''entity'' [show_uuid (sk_tenant k), sk_owner k, sk_entity k] \<in> set (gv_locks u')"
  using assms(1)
proof (rule release_hold_Inr)
  fix v rows x
  assume x: "x \<in> set (gv_holds u)" "rh_id x = j" "rh_tenant x = ten" and u': "u' = v\<lparr>gv_holds := rows\<rparr>"
    "lock_key ''entity'' [show_uuid ten, rh_owner x, rh_entity x] \<in> set (gv_locks v)"
  have "x \<in> set (filter (\<lambda>x. rh_id x = j \<and> rh_tenant x = ten) (gv_holds u))" using x by simp
  then have "x = h" using assms(3) by simp
  with assms(2) x u' show ?thesis by (auto simp: hold_applies_def)
qed

lemma policy_commands_lock:
  "set_policy q rq c u = Inr (j, u') \<Longrightarrow> pc_scope c = subject_scope k category \<Longrightarrow>
     lock_key ''policy'' [show_uuid (sk_tenant k), sk_owner k, sk_namespace k, sk_entity k, category] \<in> set (gv_locks u')"
  "replace_policy q rq d u = Inr (j, u') \<Longrightarrow> rc_scope d = subject_scope k category \<Longrightarrow>
     lock_key ''policy'' [show_uuid (sk_tenant k), sk_owner k, sk_namespace k, sk_entity k, category] \<in> set (gv_locks u')"
  by (elim set_policy_Inr, auto dest!: policy_admission_Inr simp: subject_scope_def) (elim replace_policy_Inr, auto dest!: policy_admission_Inr simp: subject_scope_def)

definition share_lock :: "governance \<Rightarrow> governance \<Rightarrow> bool" where
  "share_lock w u \<longleftrightarrow> set (gv_locks w) \<inter> set (gv_locks u) \<noteq> {}"


section \<open>Examples\<close>

definition sample_key :: subject_key where
  "sample_key = \<lparr>sk_tenant = 7, sk_owner = ''m'', sk_namespace = ''m.r'', sk_contract = ''1'', sk_entity = ''invoice'', sk_record = 5\<rparr>"

definition sample_reading :: owner_reading where
  "sample_reading = \<lparr>or_tenant = 7, or_namespace = ''m.r'', or_record = 5, or_owner = ''m'', or_contract = ''1'', or_lifecycle = ''current'',
     or_facts = [(''entity_type'', TextFact ''invoice''), (''retention_category'', TextFact ''tax''),
       (''retention_anchor_at'', InstantFact (Some 0) 0), (''supported_actions'', ActionsFact [''purge''])]\<rparr>"

definition sample_governance_ports :: "instant \<Rightarrow> uuid \<Rightarrow> governance_ports" where
  "sample_governance_ports now fresh = \<lparr>gp_invocation = Inr ''foundation.data_governance'', gp_owner = (\<lambda>_ _. Inr ''m''),
     gp_provider = (\<lambda>_. Inr (''m'', 1)), gp_read = (\<lambda>_. Inr sample_reading), gp_validate = (\<lambda>_. Inr sample_reading), gp_apply = (\<lambda>_. Inr ()),
     gp_append = (\<lambda>e rows. Inr (sample_audit_row, rows @ [sample_audit_row])), gp_lock = (\<lambda>_. [(False, 1000), (True, 2000)]),
     gp_monotonic = 0, gp_now = now, gp_id = fresh\<rparr>"

definition sample_policy :: "uuid \<Rightarrow> int \<Rightarrow> instant \<Rightarrow> instant option \<Rightarrow> retention_policy" where
  "sample_policy i days a b = \<lparr>rp_id = i, rp_scope = subject_scope sample_key ''tax'', rp_days = days, rp_action = PURGE, rp_from = a, rp_until = b, rp_active = True\<rparr>"

definition sample_policy_lock :: string where
  "sample_policy_lock = lock_key ''policy'' [show_uuid 7, ''m'', ''m.r'', ''invoice'', ''tax'']"

definition policy_set :: governance where
  "policy_set = empty_governance\<lparr>gv_locks := [sample_policy_lock], gv_policies := [sample_policy 1 30 0 None]\<rparr>"

definition policy_replaced :: governance where
  "policy_replaced = empty_governance\<lparr>gv_locks := [sample_policy_lock],
     gv_policies := [sample_policy 1 30 0 (Some (10 * day)), sample_policy 2 60 (10 * day) None]\<rparr>"

lemmas sample_simps = sample_governance_ports_def bind_res_def raise_if_def require_governance_invocation_def check_tenant_def check_owner_def
  sample_audit_request_def tenant_context_of_def make_subject_key_def subject_key_ok_def sample_key_def subject_scope_def
  lock_governance_scope_def lock_defs lock_acquisition_def

lemma sample_set:
  "perform (sample_governance_ports 0 1) sample_audit_request
     (SetPolicy \<lparr>pc_scope = subject_scope sample_key ''tax'', pc_days = 30, pc_action = PURGE, pc_from = 0, pc_until = None\<rparr>) empty_governance = Inr policy_set"
  by (simp add: perform_def set_policy_def make_policy_command_def policy_admission_def scope_key_def sample_simps insert_policy_def policy_fits_def
      insert_row_def policy_row_ok_def policy_set_def sample_policy_def sample_policy_lock_def empty_governance_def)

lemma sample_replace:
  "perform (sample_governance_ports day 2) sample_audit_request
     (ReplacePolicy \<lparr>rc_old = 1, rc_scope = subject_scope sample_key ''tax'', rc_days = 60, rc_action = PURGE, rc_at = 10 * day\<rparr>) policy_set
   = Inr policy_replaced"
  by (simp add: perform_def replace_policy_def policy_admission_def scope_key_def sample_simps insert_policy_def policy_fits_def
      insert_row_def policy_row_ok_def policy_set_def policy_replaced_def sample_policy_def sample_policy_lock_def empty_governance_def
      select_first_def replaceable_def end_policy_def Let_def day_def policy_clash_def overlapping_def)

lemma governed_sample: "governed empty_governance policy_set" "governed policy_set policy_replaced"
  by (rule governed.performs [OF governed.stays sample_set], rule governed.performs [OF governed.stays sample_replace])

theorem retention_never_weakens_witness:
  "\<exists>policy'. filter (effective_policy (subject_scope sample_key ''tax'') (20 * day)) (gv_policies policy_replaced) = [policy'] \<and> 30 \<le> rp_days policy'"
proof -
  have p: "sample_policy 1 30 0 None \<in> set (gv_policies policy_set)" by (simp add: policy_set_def)
  have "effective_policy (subject_scope sample_key ''tax'') (20 * day) (sample_policy 1 30 0 None)"
    by (simp add: effective_policy_def sample_policy_def day_def)
  from retention_never_weakens [OF governed_sample p this] show ?thesis by (auto simp: sample_policy_def)
qed

lemma sum_list_sort_key: "sum_list (map f (sort_key g xs)) = (sum_list (map f xs) :: nat)"
  by (metis mset_map mset_sort sum_mset_sum_list)

lemma length_join_with: "length (join_with sep ss) \<le> sum_list (map (\<lambda>s. length s + length sep) ss)"
  by (induction sep ss rule: join_with.induct) auto

lemma quoted_length: "length (quoted escape_char s) \<le> 6 * length s + 2"
proof -
  have "length (escape_char c) \<le> 6" for c by (simp add: escape_char_def Let_def)
  then have "length (concat (map escape_char s)) \<le> 6 * length s" by (induction s) (auto intro: add_mono order_trans)
  then show ?thesis by (simp add: quoted_def)
qed

definition value_bound :: "json \<Rightarrow> nat" where
  "value_bound v = (case v of JStr s \<Rightarrow> 6 * length s + 2 | _ \<Rightarrow> length (json_text escape_char '', '' '': '' v))"

lemma json_object_length:
  "length (json_text escape_char '', '' '': '' (JObj es)) \<le> 2 + sum_list (map (\<lambda>(k, v). 6 * length k + 6 + value_bound v) es)"
proof -
  let ?e = "\<lambda>(k, v). quoted escape_char k @ '': '' @ v" and ?t = "json_text escape_char '', '' '': ''"
  have one: "length (?t v) \<le> value_bound v" for v
    using quoted_length by (cases v) (simp_all add: value_bound_def)
  have "length (join_with '', '' (map ?e (sort_key fst (map (apsnd ?t) es))))
      \<le> sum_list (map (\<lambda>s. length s + 2) (map ?e (sort_key fst (map (apsnd ?t) es))))"
    by (rule order_trans [OF length_join_with]) simp
  also have "\<dots> = sum_list (map (\<lambda>(k, v). length (quoted escape_char k) + length (?t v) + 4) es)"
    unfolding map_map sum_list_sort_key by (simp add: comp_def case_prod_unfold eval_nat_numeral)
  also have "\<dots> \<le> sum_list (map (\<lambda>(k, v). 6 * length k + 6 + value_bound v) es)"
  proof (rule sum_list_mono)
    fix x assume "x \<in> set es"
    show "(case x of (k, v) \<Rightarrow> length (quoted escape_char k) + length (?t v) + 4) \<le> (case x of (k, v) \<Rightarrow> 6 * length k + 6 + value_bound v)"
      using quoted_length [of "fst x"] one [of "snd x"] by (simp add: case_prod_unfold)
  qed
  finally show ?thesis by (simp add: entry_texts_map)
qed

lemma evidence_fits:
  assumes "evidence_bounds e" and "validate_evidence_json (JObj (ae_details e)) = Inr ()"
    and "sum_list (map (\<lambda>(k, v). 6 * length k + 6 + value_bound v) (ae_details e)) \<le> 4094"
  shows "make_audit_evidence e = Inr e"
  using assms json_object_length [of "ae_details e"] utf8_length_bounds [of "json_text escape_char '', '' '': '' (JObj (ae_details e))"]
  by (simp add: make_audit_evidence_def)

lemma sample_instants:
  shows iso_text_0: "iso_text 0 = ''1970-01-01T00:00:00+00:00''"
    and iso_text_30: "iso_text 2592000000000 = ''1970-01-31T00:00:00+00:00''"
    and iso_text_40: "iso_text 3456000000000 = ''1970-02-10T00:00:00+00:00''"
proof -
  show "iso_text 0 = ''1970-01-01T00:00:00+00:00''" by code_simp
  show "iso_text 2592000000000 = ''1970-01-31T00:00:00+00:00''" by code_simp
  show "iso_text 3456000000000 = ''1970-02-10T00:00:00+00:00''" by code_simp
qed

lemma plain_keys:
  "list_ex sensitive_key [''decision_id'', ''policy_id'', ''owner_module_id'', ''resource_namespace'', ''retention_category'', ''retention_anchor_at'',
     ''eligible_at'', ''decided_at'', ''hold_result'', ''owner_lifecycle'', ''provider_generation'', ''cleanup_status''] = False"
  by code_simp

definition sample_purge :: purge_facts where
  "sample_purge = \<lparr>pg_key = sample_key, pg_category = ''tax'', pg_anchor = 0, pg_lifecycle = ''current'', pg_actions = {''purge''}\<rparr>"

lemma sample_destruction_evidence:
  "make_audit_evidence (destruction_evidence 3 sample_purge PURGE (sample_policy 1 30 0 None) (30 * day) (40 * day) 1)
   = Inr (destruction_evidence 3 sample_purge PURGE (sample_policy 1 30 0 None) (30 * day) (40 * day) 1)"
  by (rule evidence_fits)
    (use plain_keys in \<open>simp_all add: evidence_bounds_def destruction_evidence_def Let_def sample_purge_def sample_key_def length_show_uuid
       sample_policy_def uuid_json_def sample_instants day_def value_bound_def show_int_def show_nat.simps [of "Suc 0"] show_nat.simps [of 1]\<close>)

definition sample_decision :: "cleanup_status \<Rightarrow> destructive_decision" where
  "sample_decision status = \<lparr>dd_id = 3, dd_key = sample_key, dd_policy = 1, dd_action = PURGE, dd_at = 40 * day, dd_cleanup = status\<rparr>"

definition destroyed :: governance where
  "destroyed = policy_set\<lparr>
     gv_locks := [lock_key ''entity'' [show_uuid 7, ''m'', ''invoice''], lock_key ''subject'' [show_uuid 7, ''m'', ''m.r'', ''invoice'', show_uuid 5],
       lock_key ''legacy-hold-entity'' [show_uuid 7, ''invoice''], sample_policy_lock],
     gv_audit := [sample_audit_row], gv_decisions := [sample_decision CLEANUP_PENDING],
     gv_events := [CleanupRequested \<lparr>ce_decision = 3, ce_key = sample_key, ce_action = PURGE\<rparr>]\<rparr>"

lemma sample_facts:
  "normalize_owner_facts sample_key sample_reading = Inr sample_purge"
  by (simp add: normalize_owner_facts_def sample_key_def sample_reading_def sample_purge_def)

lemma sample_owner_facts: "admitted_facts (sample_governance_ports now fresh) sample_key PURGE = Inr (sample_purge, 1)"
  by (simp add: admitted_facts_def sample_governance_ports_def bind_res_def raise_if_def sample_facts)
    (simp add: sample_key_def sample_purge_def)

lemma sample_admission:
  "gv_policies w = [sample_policy 1 30 0 None] \<Longrightarrow> gv_holds w = [] \<Longrightarrow> gv_legal w = [] \<Longrightarrow>
     admit_destruction w (40 * day) sample_purge PURGE = Inr (sample_policy 1 30 0 None, 30 * day)"
  by (simp add: admit_destruction_def Let_def sample_purge_def effective_policy_def sample_policy_def day_def eligible_at_def last_instant_def bind_res_def)

lemma sample_destroy:
  "execute_destruction (sample_governance_ports (40 * day) 3) sample_audit_request sample_key PURGE (policy_set\<lparr>gv_locks := []\<rparr>) = Inr (3, destroyed)"
proof -
  let ?p = "sample_governance_ports (40 * day) 3"
  let ?u = "policy_set\<lparr>gv_locks := [lock_key ''entity'' [show_uuid 7, ''m'', ''invoice''],
     lock_key ''subject'' [show_uuid 7, ''m'', ''m.r'', ''invoice'', show_uuid 5], lock_key ''legacy-hold-entity'' [show_uuid 7, ''invoice'']]\<rparr>"
  let ?v = "?u\<lparr>gv_locks := gv_locks ?u @ [sample_policy_lock]\<rparr>"
  have u: "lock_retention_subject ?p sample_key (policy_set\<lparr>gv_locks := []\<rparr>) = Inr ?u"
    by (simp add: lock_defs lock_governance_scope_def sample_governance_ports_def lock_acquisition_def bind_res_def sample_key_def)
  have v: "policy_lock ?p (subject_scope sample_key (pg_category sample_purge)) ?u = Inr ?v"
    by (simp add: lock_defs lock_governance_scope_def sample_governance_ports_def lock_acquisition_def bind_res_def sample_key_def subject_scope_def
        sample_purge_def sample_policy_lock_def)
  have start: "make_subject_key sample_key = Inr sample_key" "require_governance_invocation ?p = Inr ()"
    "check_tenant sample_audit_request (sk_tenant sample_key) = Inr ()" "check_owner ?p (sk_namespace sample_key) (sk_contract sample_key) (sk_owner sample_key) = Inr ()"
    by (simp_all add: sample_simps)
  have ports: "gp_id ?p = 3" "gp_now ?p = 40 * day" "gp_apply ?p a = Inr ()" "gp_append ?p e rows = Inr (sample_audit_row, rows @ [sample_audit_row])" for a e rows
    by (simp_all add: sample_governance_ports_def)
  have adm: "admit_destruction ?v (40 * day) sample_purge PURGE = Inr (sample_policy 1 30 0 None, 30 * day)"
    by (rule sample_admission) (simp_all add: policy_set_def empty_governance_def)
  show ?thesis
    unfolding execute_destruction_def start bind_res_simps u sample_owner_facts prod.case v ports adm append_audit_def sample_destruction_evidence
    by (simp add: insert_row_def bind_res_def policy_set_def empty_governance_def destroyed_def sample_decision_def sample_policy_def)
qed


text \<open>The worker reports the cleanup of that destruction.\<close>

definition sample_cleanup_ports :: cleanup_ports where
  "sample_cleanup_ports = \<lparr>cp_principal = \<lparr>ab_same_request = True, ab_tenant = 7, ab_principal = 9, ab_type = ''service_account''\<rparr>,
     cp_delivery = Some (\<lparr>xb_proof = sample_proof, xb_tenant = 7, xb_event = 8, xb_subscriber = cleanup_subscriber, xb_attempt = 4,
        xb_transaction = 1, xb_task = 1, xb_until = 60000010\<rparr>, 1),
     cp_active = (\<lambda>_ _. Inr ()), cp_parse = (\<lambda>_. Some (3, 7)),
     cp_outbox = [\<lparr>ob_message = \<lparr>pm_tenant = 7, pm_event_type = cleanup_event_type, pm_schema = 1, pm_correlation = ''c'', pm_payload = JObj [],
        pm_causation = None, pm_event_id = 8, pm_occurred_at = 100\<rparr>, ob_published = None, ob_attempts = 0, ob_error = None\<rparr>]\<rparr>"

definition cleaned :: governance where
  "cleaned = destroyed\<lparr>gv_locks := [], gv_audit := [sample_audit_row, sample_audit_row], gv_decisions := [sample_decision CLEANUP_COMPLETED]\<rparr>"

lemma sample_delivery_accepted: "check_cleanup_delivery sample_cleanup_ports sample_audit_request 7 3 = Inr ()"
  by (simp add: check_cleanup_delivery_def sample_cleanup_ports_def raise_if_def bind_res_def sample_proof_def sample_audit_request_def
      tenant_context_of_def cleanup_source_def)

lemma sample_cleanup_evidence:
  "make_audit_evidence (cleanup_evidence True (sample_decision status)) = Inr (cleanup_evidence True (sample_decision status))"
  by (rule evidence_fits)
    (use plain_keys in \<open>simp_all add: evidence_bounds_def cleanup_evidence_def Let_def sample_decision_def sample_key_def length_show_uuid
       uuid_json_def value_bound_def\<close>)

lemma sample_cleanup:
  "perform (sample_governance_ports (41 * day) 4) sample_audit_request (ReportCleanup sample_cleanup_ports 7 3 True) destroyed = Inr cleaned"
proof -
  let ?p = "sample_governance_ports (41 * day) 4" and ?w = "destroyed\<lparr>gv_locks := []\<rparr>"
  have start: "require_governance_invocation ?p = Inr ()" "check_tenant sample_audit_request 7 = Inr ()" by (simp_all add: sample_simps)
  have d: "gv_decisions ?w = [sample_decision CLEANUP_PENDING]" "open_decision 7 3 (sample_decision CLEANUP_PENDING)"
    by (simp_all add: destroyed_def open_decision_def sample_decision_def sample_key_def)
  then have found: "select_first (open_decision 7 3) (gv_decisions ?w) = Some (sample_decision CLEANUP_PENDING)" by (simp add: select_first_def)
  have "record_cleanup_result ?p sample_cleanup_ports sample_audit_request 7 3 True ?w = Inr cleaned"
    unfolding record_cleanup_result_def start bind_res_simps sample_delivery_accepted found option.case append_audit_def sample_cleanup_evidence
    by (simp add: d sample_governance_ports_def bind_res_def)
      (simp add: destroyed_def cleaned_def sample_decision_def reported_def)
  then show ?thesis by (simp add: perform_def)
qed

lemma governed_destroyed: "governed empty_governance destroyed" "governed destroyed cleaned"
proof -
  have "perform (sample_governance_ports (40 * day) 3) sample_audit_request (ExecuteDestruction sample_key PURGE) policy_set = Inr destroyed"
    by (simp add: perform_def sample_destroy)
  from governed.performs [OF governed_sample(1) this] show "governed empty_governance destroyed" .
  show "governed destroyed cleaned" by (rule governed.performs [OF governed.stays sample_cleanup])
qed

theorem decisions_are_permanent_witness:
  "distinct (map dd_id (gv_decisions cleaned)) \<and> (\<exists>d \<in> set (gv_decisions cleaned). dd_id d = 3 \<and> dd_key d = sample_key \<and> dd_at d = 40 * day)"
proof -
  have "sample_decision CLEANUP_PENDING \<in> set (gv_decisions destroyed)" by (simp add: destroyed_def)
  from decisions_are_permanent [OF governed_destroyed this] show ?thesis by (auto simp: sample_decision_def)
qed

text \<open>A legal hold on the entity type, placed by another transaction.\<close>

definition sample_legal_command :: legal_hold_command where
  "sample_legal_command = \<lparr>lc_tenant = 7, lc_code = ''L1'', lc_name = ''audit'', lc_reason = ''inspection'', lc_entity = ''invoice'', lc_record = None,
     lc_placed_by = ''counsel''\<rparr>"

lemma sample_legal_hold:
  "\<exists>h u. place_legal_hold (sample_governance_ports (35 * day) 6) (Some sample_audit_request) sample_legal_command empty_governance = Inr (h, u)"
  by (simp add: place_legal_hold_def sample_legal_command_def legal_command_ok_def sample_simps audit_tenant_def insert_row_def empty_governance_def Let_def)


end
