(* ===== verification/Spec2Isabelle.thy ===== *)
theory Spec2Isabelle
  imports Lifecycle Dispatch Registration Uom Org_Laws Event_Worker Web_Sessions Retention
begin

text \<open>
  BusinessOS (\<open>src/platform\<close>, \<open>src/foundations\<close>): a modular platform kernel and the foundation modules that
  run on it. This library models the kernel's control logic and the foundations that decide about
  authority, durability and evidence, and proves what makes them correct. It is a shallow embedding:
  definitions carry the names of the Python functions they translate, dictionaries are association lists in
  insertion order, an exception is a value of \<open>exn\<close> on the left of a sum, and state is passed explicitly.

  \<^bold>\<open>How the program fits together.\<close> A module is admitted against its installation grants, registers its
  contributions through one registration object and is activated in dependency order. Every
  registry keeps the generation that contributed an entry, and the contribution gate decides which
  generation may be called. A request enters through the router, becomes a command or query
  and is dispatched inside an operation boundary, a resource scope and a Unit of Work, under an invocation
  binding the handler can be checked by. Events the handler emits are rows of the same transaction; a publisher moves
  committed rows to a broker and a worker delivers them to durable consumers behind an inbox. The foundations
  are modules of this kernel: their handlers read and write tables inside the dispatcher's transaction.

  \<^bold>\<open>Shared vocabulary.\<close> \<open>Kernel_Prelude\<close> (dictionaries, loops that stop at an exception, decimal text, strings and the
  collections of hints), \<open>Errors\<close> (\<open>errors.py\<close>), \<open>Context\<close> (\<open>context.py\<close>, \<open>security.py\<close>), \<open>Json\<close> and
  \<open>Json_Canonical\<close> (\<open>json.dumps\<close>; its text determines the document), \<open>Tables\<close> (what handlers use of SQL), \<open>Decimals\<close>
  (Python's \<open>decimal\<close>).

  \<^bold>\<open>Kernel: admission and life cycle.\<close> \<open>Activation\<close> models \<open>activation.py\<close>: the gate as a step relation with entering,
  leaving and draining interleaved; calls are accounted and a drain ends. \<open>Owned_Table\<close> states the contract
  of a contribution registry as the locales \<open>owned_table\<close> and \<open>dict_table\<close>; \<open>Registries\<close>, \<open>Routing\<close>, \<open>Http\<close>,
  \<open>Messages\<close> and \<open>Resources\<close> interpret it on their own tables. \<open>Manifest\<close>, \<open>Module_Order\<close> and \<open>Module_Registry\<close> model
  \<open>modules/manifest.py\<close>, \<open>modules/artifact.py\<close> and \<open>modules/registry.py\<close>: entitlements cannot be forged, the activation order is
  exact, an allocation never changes hands. \<open>Registration\<close> is \<open>modules/sdk.py\<close>: rollback leaves no trace. \<open>Lifecycle\<close>
  is the \<open>LifecycleManager\<close>: what is enabled has its dependencies enabled.

  \<^bold>\<open>Kernel: calls.\<close> \<open>Container\<close> (\<open>di.py\<close>: the wait graph stays acyclic, reserved keys are protected), \<open>Routing\<close> and \<open>Http\<close>
  (\<open>http/\<close>: the chosen route, independence from the order of registration, the bounded body), \<open>Jobs\<close>, \<open>Metadata\<close>, \<open>Invocation\<close>
  (\<open>handler_invocation.py\<close>: a binding is valid only in its own task, request and transaction), \<open>Messages\<close> and
  \<open>Dispatch\<close> (\<open>messages.py\<close>), \<open>Resources\<close> (\<open>resources.py\<close>), \<open>Operation\<close> (\<open>operation_boundary.py\<close>) and \<open>Unit_Of_Work\<close>
  (\<open>persistence/uow.py\<close>). The refinement theorem of \<open>Dispatch\<close> relates a dispatch, whatever the database answers, to
  the abstract outcome: nothing, or exactly the handler's statements and a commit.

  \<^bold>\<open>Kernel: durable events.\<close> \<open>Eventing\<close> (\<open>eventing.py\<close>) and \<open>Event_Worker\<close> (\<open>event_worker.py\<close>, \<open>event_source.py\<close>):
  publication of the locked batch, the inbox claim, every outcome of a commit. A durable effect happens exactly once per
  event and subscriber, an acknowledged delivery is done, and what the publisher sent the worker accepts.

  \<^bold>\<open>Foundations: authority.\<close> \<open>Delegation\<close>, \<open>Membership\<close>, \<open>Conditions\<close>, \<open>Policy_V2\<close>, \<open>Policy_Roles\<close>, \<open>Policy_Runtime\<close>,
  \<open>Policy_Evaluation\<close>, \<open>Policy_Store\<close> and \<open>Sod\<close> model \<open>foundations/policy\<close>; \<open>Policy_Laws\<close> states what a permit rests on and that it
  is used once. \<open>Organization\<close>, \<open>Org_Delegation\<close> and \<open>Org_Laws\<close> are \<open>foundations/organization\<close>: a delegation only narrows.
  \<open>Tenancy\<close> is \<open>foundations/tenant\<close>. \<open>Identity_Store\<close>, \<open>Oidc\<close>, \<open>Web_Login\<close>, \<open>Web_Sessions\<close> and \<open>Workload\<close>
  are \<open>foundations/identity\<close>: the tables with their triggers, the bearer token's path to a context, browser logins and
  sessions (the store is the locale \<open>session_store\<close>, interpreted on the in-memory store) and workload credentials.

  \<^bold>\<open>Foundations: records.\<close> \<open>Uom\<close> is \<open>foundations/uom\<close> with exact conversion. \<open>Audit_Log\<close> is \<open>foundations/audit\<close>: a log of
  appends verifies, and the head of a verified chain determines its records or SHA-256 has collided. \<open>Retention\<close> is the
  retention authority and the legal holds of \<open>foundations/data_governance\<close>: what a destruction rests on, and what no later
  command can change.

  \<^bold>\<open>Groups of lemmas.\<close> Each component has laws of its operations (\<open>_Inr\<close>, \<open>_cases\<close>, \<open>_keeps\<close>), an invariant that its
  operations preserve, an inductive predicate of its histories or runs, and one or two theorems over every history with a
  witness on concrete inputs. The locale \<open>escape_code\<close> is interpreted on both escapes of \<open>json.dumps\<close>, \<open>keyed_table\<close> on the tables of
  \<open>Uom\<close>.

  \<^bold>\<open>Bounds and fuel.\<close> Walks over role and delegation graphs carry the code's own depth and visit limits; no other fuel is
  used. Loops are structural, or functions with a measure proved to decrease (pending modules, unvisited nodes). UUIDs are
  integers below \<open>2 ^ 128\<close>, instants are microseconds; text has 8-bit characters.

  \<^bold>\<open>Parameters.\<close> Code outside the repository is an argument: the database server (an answer for every history of calls), the
  broker, the JSON scanner and pydantic's validation of foreign documents, PyJWT and the key service, SHA-256 and the
  secret generator, what a JSONB column gives back, the ports a service is constructed with, clocks and fresh identifiers. Laws assumed of a
  parameter are hypotheses of the theorem that needs them.

  \<^bold>\<open>Not modelled.\<close> The adapters of Redis, NATS and S3, the bootstrap from environment settings, Alembic migrations other than the
  constraints and triggers cited, PostgreSQL roles and row security, entry point discovery, logging and tracing do not
  decide anything that can be stated without the systems behind them. Of asyncio, scheduling is free interleaving of
  the parts between awaits; timeouts and cancellation appear where the code handles them. The foundations for currency,
  geography, reference data, parties and metadata publication, and the classifications and consent of data governance, are
  stores of validated documents; the coordination they rely on is modelled.
\<close>

end
